(* ===== verification/Prelude.thy ===== *)
theory Prelude
  imports Main "HOL-Library.Word" "HOL-Library.List_Lexorder" "HOL-Library.Char_ord"
begin

text \<open>
  What every component shares: the result of fallible code (\<open>Inl\<close> the error), Rust's slices
  (\<open>get\<close> and writes through \<open>get_mut\<close>), \<open>BTreeMap\<close> as a key-sorted association list, byte
  strings, decimal printing, fixed-width integers, and the locale of a machine whose every step
  keeps an invariant.
\<close>

named_theorems model_defs \<open>unfolding rules of the small accessor definitions\<close>
named_theorems inv_intro \<open>introduction rules: an operation keeps an invariant\<close>

type_synonym u8 = "8 word"
type_synonym u16 = "16 word"
type_synonym u32 = "32 word"
type_synonym u64 = "64 word"

subsection \<open>Results\<close>

text \<open>The \<open>?\<close> operator on a \<open>Result\<close>.\<close>

definition bind_r :: "'e + 'a \<Rightarrow> ('a \<Rightarrow> 'e + 'b) \<Rightarrow> 'e + 'b" where
  "bind_r r f = (case r of Inl e \<Rightarrow> Inl e | Inr a \<Rightarrow> f a)"

lemma bind_r_simps [simp]:
  "bind_r (Inl e) f = Inl e"
  "bind_r (Inr a) f = f a"
  by (simp_all add: bind_r_def)

lemma bind_r_Inr_iff: "bind_r r f = Inr b \<longleftrightarrow> (\<exists>a. r = Inr a \<and> f a = Inr b)"
  by (cases r) auto

lemma bind_r_Inr [elim!]:
  assumes "bind_r r f = Inr b"
  obtains a where "r = Inr a" and "f a = Inr b"
  using assms by (auto simp: bind_r_Inr_iff)

definition ok_or :: "'a option \<Rightarrow> 'e \<Rightarrow> 'e + 'a" where
  "ok_or x e = (case x of None \<Rightarrow> Inl e | Some a \<Rightarrow> Inr a)"

lemma ok_or_simps [simp]:
  "ok_or None e = Inl e"
  "ok_or (Some a) e = Inr a"
  by (simp_all add: ok_or_def)

lemma ok_or_Inr_iff [simp]: "ok_or x e = Inr a \<longleftrightarrow> x = Some a"
  by (cases x) auto

text \<open>A \<open>for\<close> loop whose body may return early with an error.\<close>

fun fold_r :: "('x \<Rightarrow> 's \<Rightarrow> 'e + 's) \<Rightarrow> 'x list \<Rightarrow> 's \<Rightarrow> 'e + 's" where
  "fold_r f [] s = Inr s"
| "fold_r f (x # xs) s = bind_r (f x s) (fold_r f xs)"

lemma fold_r_append: "fold_r f (xs @ ys) s = bind_r (fold_r f xs s) (fold_r f ys)"
proof (induction xs arbitrary: s)
  case (Cons x xs)
  then show ?case by (cases "f x s") simp_all
qed simp

lemma fold_r_invariant:
  assumes "fold_r f xs s = Inr s'" and "P s"
    and "\<And>x t t'. x \<in> set xs \<Longrightarrow> P t \<Longrightarrow> f x t = Inr t' \<Longrightarrow> P t'"
  shows "P s'"
  using assms
proof (induction xs arbitrary: s)
  case (Cons x xs)
  from Cons.prems(1) obtain t where t: "f x s = Inr t" "fold_r f xs t = Inr s'" by auto
  have "P t" using Cons.prems(2,3) t(1) by auto
  with t(2) Cons.prems(3) show ?case by (auto intro: Cons.IH)
qed simp

text \<open>The same over \<open>iter().enumerate()\<close>, the invariant indexed by the position.\<close>

lemma fold_r_enumerate:
  assumes "fold_r f (enumerate n xs) s = Inr s'" and "P n s"
    and "\<And>i t t'. i < length xs \<Longrightarrow> P (n + i) t \<Longrightarrow> f (n + i, xs ! i) t = Inr t' \<Longrightarrow> P (Suc (n + i)) t'"
  shows "P (n + length xs) s'"
  using assms
proof (induction xs arbitrary: n s)
  case (Cons x xs)
  from Cons.prems(1) obtain t where t: "f (n, x) s = Inr t" "fold_r f (enumerate (Suc n) xs) t = Inr s'"
    by auto
  have "P (Suc n) t"
    using Cons.prems(3) [of 0 s t] Cons.prems(2) t(1) by simp
  moreover have "P (Suc (Suc n + i)) v'" if "i < length xs" "P (Suc n + i) v" "f (Suc n + i, xs ! i) v = Inr v'" for i v v'
    using Cons.prems(3) [of "Suc i" v v'] that by simp
  ultimately have "P (Suc n + length xs) s'"
    by (rule Cons.IH [OF t(2)])
  then show ?case by simp
qed simp

subsection \<open>Slices\<close>

text \<open>\<open>get\<close> on a slice or vector.\<close>

definition lget :: "'a list \<Rightarrow> nat \<Rightarrow> 'a option" where
  "lget xs i = (if i < length xs then Some (xs ! i) else None)"

lemma lget_Some_iff [simp]: "lget xs i = Some x \<longleftrightarrow> i < length xs \<and> xs ! i = x"
  by (auto simp: lget_def)

lemma lget_None_iff [simp]: "lget xs i = None \<longleftrightarrow> length xs \<le> i"
  by (auto simp: lget_def)

lemma lget_in: "i < length xs \<Longrightarrow> lget xs i = Some (xs ! i)"
  by simp

lemma lget_map: "lget (map f xs) i = map_option f (lget xs i)"
  by (auto simp: lget_def)

text \<open>A write through \<open>get_mut\<close>: nothing happens past the end.\<close>

definition lmod :: "'a list \<Rightarrow> nat \<Rightarrow> ('a \<Rightarrow> 'a) \<Rightarrow> 'a list" where
  "lmod xs i f = (if i < length xs then xs[i := f (xs ! i)] else xs)"

lemma length_lmod [simp]: "length (lmod xs i f) = length xs"
  by (simp add: lmod_def)

lemma nth_lmod: "j < length xs \<Longrightarrow> lmod xs i f ! j = (if i = j then f (xs ! j) else xs ! j)"
  by (auto simp: lmod_def)

lemma lmod_all:
  "\<forall>x \<in> set xs. P x \<Longrightarrow> (\<And>x. P x \<Longrightarrow> P (f x)) \<Longrightarrow> \<forall>x \<in> set (lmod xs i f). P x"
  by (auto simp: lmod_def dest!: set_update_subset_insert [THEN subsetD])

text \<open>\<open>iter().position\<close>.\<close>

fun position :: "('a \<Rightarrow> bool) \<Rightarrow> 'a list \<Rightarrow> nat option" where
  "position P [] = None"
| "position P (x # xs) = (if P x then Some 0 else map_option Suc (position P xs))"

lemma position_Some_iff:
  "position P xs = Some i \<longleftrightarrow> i < length xs \<and> P (xs ! i) \<and> (\<forall>j < i. \<not> P (xs ! j))"
proof (induction xs arbitrary: i)
  case (Cons x xs)
  show ?case
  proof (cases i)
    case 0
    then show ?thesis by auto
  next
    case (Suc k)
    then show ?thesis using Cons.IH [of k] by (auto simp: less_Suc_eq_0_disj)
  qed
qed simp

lemma position_None_iff: "position P xs = None \<longleftrightarrow> (\<forall>x \<in> set xs. \<not> P x)"
  by (induction xs) auto

lemma position_distinct:
  assumes "distinct xs" and "i < length xs"
  shows "position (\<lambda>x. x = xs ! i) xs = Some i"
  using assms by (auto simp: position_Some_iff nth_eq_iff_index_eq)

subsection \<open>Keyed stores\<close>

text \<open>
  The interface every component uses of a keyed container: what a lookup returns after an
  insertion and a removal. \<open>collect\<close> is the container's \<open>FromIterator\<close>: the last of several
  pairs with one key wins.
\<close>

locale keyed_store =
  fixes empty :: "'m"
    and insert :: "'k \<Rightarrow> 'v \<Rightarrow> 'm \<Rightarrow> 'm"
    and remove :: "'k \<Rightarrow> 'm \<Rightarrow> 'm"
    and lookup :: "'m \<Rightarrow> 'k \<Rightarrow> 'v option"
    and invar :: "'m \<Rightarrow> bool"
  assumes lookup_empty: "lookup empty k = None"
    and lookup_insert: "lookup (insert k v m) k' = (if k' = k then Some v else lookup m k')"
    and lookup_remove: "lookup (remove k m) k' = (if k' = k then None else lookup m k')"
    and invar_empty: "invar empty"
    and invar_insert: "invar m \<Longrightarrow> invar (insert k v m)"
    and invar_remove: "invar m \<Longrightarrow> invar (remove k m)"
begin

lemma invar_fold: "invar m \<Longrightarrow> invar (fold (\<lambda>(k, v). insert k v) ps m)"
  by (induction ps arbitrary: m) (auto intro: invar_insert)

lemma lookup_fold:
  "lookup (fold (\<lambda>(k, v). insert k v) ps m) k
     = (case map_of (rev ps) k of None \<Rightarrow> lookup m k | Some v \<Rightarrow> Some v)"
proof (induction ps arbitrary: m)
  case (Cons p ps)
  show ?case by (cases p) (auto simp: Cons.IH lookup_insert map_add_def split: option.splits)
qed simp

lemma lookup_collect: "lookup (fold (\<lambda>(k, v). insert k v) ps empty) k = map_of (rev ps) k"
  by (simp add: lookup_fold lookup_empty split: option.splits)

lemma invar_collect: "invar (fold (\<lambda>(k, v). insert k v) ps empty)"
  by (intro invar_fold invar_empty)

end

text \<open>\<open>BTreeMap\<close>: an association list sorted by key, each key once.\<close>

type_synonym ('k, 'v) btree = "('k \<times> 'v) list"

fun bm_insert :: "'k::linorder \<Rightarrow> 'v \<Rightarrow> ('k, 'v) btree \<Rightarrow> ('k, 'v) btree" where
  "bm_insert k v [] = [(k, v)]"
| "bm_insert k v ((a, b) # m) =
     (if k < a then (k, v) # (a, b) # m
      else if k = a then (k, v) # m
      else (a, b) # bm_insert k v m)"

definition bm_remove :: "'k \<Rightarrow> ('k, 'v) btree \<Rightarrow> ('k, 'v) btree" where
  "bm_remove k m = filter (\<lambda>(a, _). a \<noteq> k) m"

definition bm_keys :: "('k, 'v) btree \<Rightarrow> 'k list" where
  "bm_keys m = map fst m"

definition bm_ok :: "('k::linorder, 'v) btree \<Rightarrow> bool" where
  "bm_ok m = sorted_wrt (<) (map fst m)"

definition bm_collect :: "('k::linorder \<times> 'v) list \<Rightarrow> ('k, 'v) btree" where
  "bm_collect ps = fold (\<lambda>(k, v). bm_insert k v) ps []"

lemma map_of_bm_insert [simp]: "map_of (bm_insert k v m) = (map_of m)(k \<mapsto> v)"
  by (induction k v m rule: bm_insert.induct) (auto simp: fun_eq_iff)

lemma set_bm_insert_keys: "fst ` set (bm_insert k v m) = insert k (fst ` set m)"
  by (induction k v m rule: bm_insert.induct) auto

lemma bm_insert_ok: "bm_ok m \<Longrightarrow> bm_ok (bm_insert k v m)"
proof (induction k v m rule: bm_insert.induct)
  case (2 k v a b m)
  then have ab: "\<forall>x \<in> fst ` set m. a < x" and m: "bm_ok m"
    by (auto simp: bm_ok_def)
  show ?case
  proof (cases "a < k")
    case True
    with "2.IH" m ab show ?thesis
      using set_bm_insert_keys [of k v m] by (auto simp: bm_ok_def)
  next
    case False
    with "2.prems" show ?thesis by (auto simp: bm_ok_def)
  qed
qed (simp add: bm_ok_def)

lemma bm_remove_ok: "bm_ok m \<Longrightarrow> bm_ok (bm_remove k m)"
  by (induction m) (auto simp: bm_ok_def bm_remove_def)

lemma map_of_bm_remove: "map_of (bm_remove k m) k' = (if k' = k then None else map_of m k')"
  by (induction m) (auto simp: bm_remove_def)

interpretation bm: keyed_store "[]" bm_insert bm_remove map_of bm_ok
  by unfold_locales
    (auto simp: map_of_bm_remove bm_insert_ok bm_remove_ok, simp add: bm_ok_def)

lemma bm_collect_lookup [simp]: "map_of (bm_collect ps) k = map_of (rev ps) k"
  unfolding bm_collect_def by (rule bm.lookup_collect)

lemma bm_collect_ok [simp]: "bm_ok (bm_collect ps)"
  unfolding bm_collect_def by (rule bm.invar_collect)

lemma bm_ok_distinct: "bm_ok m \<Longrightarrow> distinct (map fst m)"
  unfolding bm_ok_def by (simp add: strict_sorted_iff)

text \<open>A sorted map is determined by its lookups, so list equality is the map's equality.\<close>

lemma bm_eqI:
  assumes "bm_ok m" and "bm_ok n" and "map_of m = map_of n"
  shows "m = n"
proof (rule map_sorted_distinct_set_unique [where f = fst])
  have "distinct (map fst m)" "distinct (map fst n)"
    using assms by (auto dest: bm_ok_distinct)
  then show "set m = set n"
    using assms(3) by (metis map_of_eq_Some_iff surj_pair subsetI subset_antisym)
  show "inj_on fst (set m \<union> set n)"
    using \<open>set m = set n\<close> \<open>distinct (map fst m)\<close> by (simp add: distinct_map)
qed (use assms in \<open>auto simp: bm_ok_def strict_sorted_iff\<close>)

lemma map_of_in_keys: "k \<in> fst ` set m \<longleftrightarrow> map_of m k \<noteq> None"
  by (simp add: map_of_eq_None_iff)

lemma bm_keys_set: "set (bm_keys m) = dom (map_of m)"
  by (auto simp: bm_keys_def dom_map_of_conv_image_fst)

text \<open>\<open>BTreeSet\<close> of indices: a strictly sorted list.\<close>

abbreviation bs_insert :: "'a::linorder \<Rightarrow> 'a list \<Rightarrow> 'a list" where
  "bs_insert \<equiv> insort_insert"

subsection \<open>Machines\<close>

text \<open>A machine whose every step keeps an invariant keeps it over every run.\<close>

locale stepping =
  fixes step :: "'e \<Rightarrow> 's \<Rightarrow> 's"
    and good :: "'e \<Rightarrow> bool"
    and inv :: "'s \<Rightarrow> bool"
  assumes step_inv: "good e \<Longrightarrow> inv s \<Longrightarrow> inv (step e s)"
begin

lemma run_inv: "inv s \<Longrightarrow> \<forall>e \<in> set es. good e \<Longrightarrow> inv (fold step es s)"
  by (induction es arbitrary: s) (auto intro: step_inv)

end

subsection \<open>Strings and numbers\<close>

text \<open>Strings are UTF-8 byte strings; \<open>is_char_boundary\<close> as in \<open>core::str\<close>.\<close>

definition is_char_boundary :: "string \<Rightarrow> nat \<Rightarrow> bool" where
  "is_char_boundary s i =
     (i = 0 \<or> i = length s \<or>
      i < length s \<and> (let b = of_char (s ! i) :: nat in b < 128 \<or> 192 \<le> b))"

fun show_nat :: "nat \<Rightarrow> string" where
  "show_nat n = (if n < 10 then [char_of (48 + n)] else show_nat (n div 10) @ [char_of (48 + n mod 10)])"

declare show_nat.simps [simp del]

text \<open>\<open>u16::try_from(i).unwrap_or(u16::MAX)\<close>, and the saturating operations on \<open>u64\<close>.\<close>

definition sat_add64 :: "u64 \<Rightarrow> u64 \<Rightarrow> u64" where
  "sat_add64 a b = (if unat a + unat b < 2 ^ 64 then a + b else 18446744073709551615)"

lemma unat_sat_add64: "unat (sat_add64 a b) = min (unat a + unat b) (2 ^ 64 - 1)"
  by (auto simp: sat_add64_def unat_word_ariths)

lemma sat_add64_ge: "a \<le> sat_add64 a b"
proof -
  have "unat a < 2 ^ LENGTH(64)" by (rule unsigned_less)
  then show ?thesis by (simp add: word_le_nat_alt unat_sat_add64)
qed

end
