(* ===== verification/F64.thy ===== *)
theory F64
  imports Complex_Main Prelude
begin

text \<open>
  IEEE 754 binary64 as Rust's \<open>f64\<close> has it: one NaN (its payload is never read), the infinities,
  negative zero, and the other finite values by their rational value. The four operations round
  the exact result to nearest, ties to even, with gradual underflow and overflow to infinity; the
  same rounding at 24 bits gives \<open>as f32\<close>. The transcendental functions are not determined by
  the language (the precision of \<open>powf\<close>, \<open>sin\<close> and the like is unspecified), so they are the
  fields of a \<open>libm\<close> record that the definitions take as an argument.
\<close>

datatype f64 = NaN | Inf bool | NZero | Num rat

type_synonym f32 = f64

fun val :: "f64 \<Rightarrow> rat" where
  "val (Num q) = q"
| "val _ = 0"

fun is_finite :: "f64 \<Rightarrow> bool" where
  "is_finite (Num q) = True"
| "is_finite NZero = True"
| "is_finite _ = False"

fun is_nan :: "f64 \<Rightarrow> bool" where
  "is_nan NaN = True"
| "is_nan _ = False"

text \<open>The sign bit.\<close>

fun neg_sign :: "f64 \<Rightarrow> bool" where
  "neg_sign NaN = False"
| "neg_sign (Inf s) = s"
| "neg_sign NZero = True"
| "neg_sign (Num q) = (q < 0)"

definition zero_of :: "bool \<Rightarrow> f64" where
  "zero_of s = (if s then NZero else Num 0)"

lemma zero_of_simps [simp]:
  "is_finite (zero_of s)" "val (zero_of s) = 0" "\<not> is_nan (zero_of s)"
  by (auto simp: zero_of_def)

lemma finite_not_nan [simp]: "is_finite x \<Longrightarrow> \<not> is_nan x"
  by (cases x) auto

subsection \<open>Rounding\<close>

text \<open>The number of binary digits, and from it the exponent of a positive rational.\<close>

function nbits :: "int \<Rightarrow> int" where
  "nbits n = (if n \<le> 0 then 0 else 1 + nbits (n div 2))"
  by pat_completeness auto
termination
  by (relation "measure nat") auto

declare nbits.simps [simp del]

lemma nbits_nonneg: "0 \<le> nbits n"
  by (induction n rule: nbits.induct) (subst nbits.simps, auto)

definition pow2 :: "int \<Rightarrow> rat" where
  "pow2 k = (if 0 \<le> k then 2 ^ nat k else 1 / 2 ^ nat (- k))"

lemma pow2_powi: "pow2 k = 2 powi k"
  by (auto simp: pow2_def power_int_def field_simps)

lemma pow2_pos [simp]: "0 < pow2 k" and pow2_ne [simp]: "pow2 k \<noteq> 0"
  by (auto simp: pow2_def)

lemma pow2_add: "pow2 (a + b) = pow2 a * pow2 b"
  by (simp add: pow2_powi power_int_add)

lemma pow2_Suc: "pow2 (k + 1) = 2 * pow2 k"
  by (simp add: pow2_add) (simp add: pow2_def)

lemma pow2_minus: "pow2 (- a) = 1 / pow2 a"
  by (simp add: pow2_powi power_int_minus field_simps)

lemma pow2_diff: "pow2 (a - b) = pow2 a / pow2 b"
  using pow2_add [of a "- b"] by (simp add: pow2_minus)

lemma pow2_mono: "a \<le> b \<Longrightarrow> pow2 a \<le> pow2 b"
  by (simp add: pow2_powi power_int_increasing)

lemma pow2_strict: "a < b \<Longrightarrow> pow2 a < pow2 b"
  by (simp add: pow2_powi power_int_strict_increasing)

lemma pow2_le_iff [simp]: "pow2 a \<le> pow2 b \<longleftrightarrow> a \<le> b"
  using pow2_mono pow2_strict by (meson linorder_not_le)

lemma pow2_less_iff [simp]: "pow2 a < pow2 b \<longleftrightarrow> a < b"
  using pow2_le_iff [of b a] by linarith

lemma pow2_0 [simp]: "pow2 0 = 1"
  by (simp add: pow2_def)

lemma nbits_bounds: "0 < n \<Longrightarrow> pow2 (nbits n - 1) \<le> of_int n \<and> of_int n < pow2 (nbits n)"
proof (induction n rule: nbits.induct)
  case (1 n)
  have step: "nbits n = 1 + nbits (n div 2)"
    using "1.prems" by (subst nbits.simps) simp
  show ?case
  proof (cases "n div 2 \<le> 0")
    case True
    with "1.prems" have "n = 1" by auto
    then show ?thesis by (simp add: nbits.simps [of 1] nbits.simps [of 0] pow2_def)
  next
    case False
    define h where "h = n div 2"
    have IH: "pow2 (nbits h - 1) \<le> of_int h" "of_int h < pow2 (nbits h)"
      using 1 False by (auto simp: h_def)
    have "2 * h \<le> n" "n \<le> 2 * h + 1" by (auto simp: h_def)
    then have n: "2 * of_int h \<le> (of_int n :: rat)" "(of_int n :: rat) \<le> 2 * of_int h + 1"
      by linarith+
    have hb: "of_int h \<le> pow2 (nbits h) - (1::rat)"
    proof -
      have "pow2 (nbits h) = of_int (2 ^ nat (nbits h))"
        using nbits_nonneg [of h] by (simp add: pow2_def)
      with IH(2) show ?thesis by (metis of_int_1 of_int_diff of_int_le_iff of_int_less_iff zle_diff1_eq)
    qed
    have p: "pow2 (nbits n) = 2 * pow2 (nbits h)" "pow2 (nbits n - 1) = 2 * pow2 (nbits h - 1)"
      using pow2_Suc [of "nbits h"] pow2_Suc [of "nbits h - 1"] by (simp_all add: step h_def add.commute)
    show ?thesis unfolding p using n IH hb by linarith
  qed
qed

text \<open>Code equation: the power by squaring on binary integers.\<close>

function ipow2 :: "int \<Rightarrow> int" where
  "ipow2 k = (if k \<le> 0 then 1 else let h = ipow2 (k div 2) in if even k then h * h else 2 * h * h)"
  by pat_completeness auto
termination
  by (relation "measure nat") auto

declare ipow2.simps [simp del]

lemma ipow2_pow2: "0 \<le> k \<Longrightarrow> of_int (ipow2 k) = pow2 k"
proof (induction k rule: ipow2.induct)
  case (1 k)
  show ?case
  proof (cases "k \<le> 0")
    case True
    with 1 show ?thesis by (simp add: ipow2.simps [of k] ipow2.simps [of 0])
  next
    case False
    with 1 have h: "of_int (ipow2 (k div 2)) = pow2 (k div 2)" by simp
    have "k = k div 2 + k div 2 \<or> k = k div 2 + k div 2 + 1" by presburger
    then have "even k \<and> pow2 k = pow2 (k div 2) * pow2 (k div 2)
        \<or> odd k \<and> pow2 k = 2 * (pow2 (k div 2) * pow2 (k div 2))"
      by (metis even_add even_plus_one_iff pow2_Suc pow2_add)
    with False h show ?thesis by (auto simp: ipow2.simps [of k] Let_def)
  qed
qed

lemma pow2_code [code]:
  "pow2 k = (if 0 \<le> k then of_int (ipow2 k) else 1 / of_int (ipow2 (- k)))"
  using pow2_minus [of "- k"] by (simp add: ipow2_pow2)

definition ilog2 :: "rat \<Rightarrow> int" where
  "ilog2 x = (let (n, d) = quotient_of x; k = nbits n - nbits d
              in if pow2 k \<le> x then k else k - 1)"

lemma ilog2_bounds:
  assumes "0 < x"
  shows "pow2 (ilog2 x) \<le> x \<and> x < pow2 (ilog2 x + 1)"
proof -
  obtain n d where q: "quotient_of x = (n, d)" by fastforce
  then have d: "0 < d" and x: "x = of_int n / of_int d"
    by (auto dest: quotient_of_denom_pos quotient_of_div)
  with assms have n: "0 < n" by (simp add: zero_less_divide_iff)
  define bn bd k where "bn = nbits n" and "bd = nbits d" and "k = bn - bd"
  have nr: "pow2 (bn - 1) \<le> of_int n" "of_int n < pow2 bn"
    using nbits_bounds [OF n] by (auto simp: bn_def)
  have dr: "pow2 (bd - 1) \<le> of_int d" "of_int d < pow2 bd"
    using nbits_bounds [OF d] by (auto simp: bd_def)
  have d0: "(0::rat) < of_int d" using d by simp
  have up: "x < pow2 (k + 1)"
  proof -
    have "x * pow2 (bd - 1) \<le> x * of_int d" using dr assms by simp
    also have "\<dots> = of_int n" using x d0 by simp
    also have "\<dots> < pow2 (bn)" by (rule nr)
    finally have "x < pow2 (bn) / pow2 (bd - 1)" by (simp add: field_simps)
    also have "\<dots> = pow2 (k + 1)" by (simp add: k_def algebra_simps flip: pow2_diff)
    finally show ?thesis .
  qed
  have lo: "pow2 (k - 1) \<le> x"
  proof -
    have "pow2 (bn - 1) \<le> of_int n" by (rule nr)
    also have "\<dots> = x * of_int d" using x d0 by simp
    also have "\<dots> \<le> x * pow2 (bd)" using dr assms by simp
    finally have "pow2 (bn - 1) / pow2 (bd) \<le> x" by (simp add: field_simps)
    then show ?thesis by (simp add: k_def algebra_simps flip: pow2_diff)
  qed
  have "ilog2 x = (if pow2 k \<le> x then k else k - 1)"
    by (simp add: ilog2_def q k_def bn_def bd_def)
  with up lo show ?thesis by auto
qed

text \<open>Round half to even.\<close>

definition rne :: "rat \<Rightarrow> int" where
  "rne x = (let f = \<lfloor>x\<rfloor>; r = x - of_int f
            in if r < 1 / 2 then f else if 1 / 2 < r then f + 1
               else if even f then f else f + 1)"

lemma rne_ge_floor: "\<lfloor>x\<rfloor> \<le> rne x" and rne_le_floor: "rne x \<le> \<lfloor>x\<rfloor> + 1"
  by (auto simp: rne_def Let_def)

lemma rne_of_int [simp]: "rne (of_int z) = z"
  by (simp add: rne_def)

lemma rne_mono:
  assumes "x \<le> y"
  shows "rne x \<le> rne y"
proof (cases "\<lfloor>x\<rfloor> = \<lfloor>y\<rfloor>")
  case True
  with assms show ?thesis by (auto simp: rne_def Let_def)
next
  case False
  with assms have "\<lfloor>x\<rfloor> + 1 \<le> \<lfloor>y\<rfloor>" using floor_mono by force
  with rne_le_floor [of x] rne_ge_floor [of y] show ?thesis by linarith
qed

lemma rne_error: "\<bar>of_int (rne x) - x\<bar> \<le> 1 / 2"
proof -
  have "of_int \<lfloor>x\<rfloor> \<le> x" "x < of_int \<lfloor>x\<rfloor> + 1" by linarith+
  then show ?thesis by (auto simp: rne_def Let_def abs_le_iff)
qed

lemma rne_minus: "rne (- x) = - rne x"
proof (cases "x = of_int \<lfloor>x\<rfloor>")
  case True
  then obtain z where "x = of_int z" by blast
  then show ?thesis using rne_of_int [of "- z"] by simp
next
  case False
  have b: "of_int \<lfloor>x\<rfloor> \<le> x" "x < of_int \<lfloor>x\<rfloor> + 1" by linarith+
  with False have "of_int \<lfloor>x\<rfloor> < x" by linarith
  with b have "\<lfloor>- x\<rfloor> = - \<lfloor>x\<rfloor> - 1" by (intro floor_unique) auto
  then show ?thesis by (auto simp: rne_def Let_def)
qed

text \<open>
  The exponent of the last place at \<open>p\<close> bits with least exponent \<open>emin\<close>, and the rounding to that
  place.
\<close>

definition quantum :: "int \<Rightarrow> int \<Rightarrow> rat \<Rightarrow> int" where
  "quantum p emin x = max (ilog2 \<bar>x\<bar> - (p - 1)) emin"

definition rnd :: "int \<Rightarrow> int \<Rightarrow> rat \<Rightarrow> rat" where
  "rnd p emin x =
     (if x = 0 then 0
      else let q = pow2 (quantum p emin x) in of_int (rne (x / q)) * q)"

definition representable :: "int \<Rightarrow> int \<Rightarrow> rat \<Rightarrow> bool" where
  "representable p emin v \<longleftrightarrow> (\<exists>m q. v = of_int m * pow2 q \<and> emin \<le> q \<and> \<bar>of_int m\<bar> < pow2 p)"

lemma rnd_0 [simp]: "rnd p emin 0 = 0"
  by (simp add: rnd_def)

lemma rnd_minus: "rnd p emin (- x) = - rnd p emin x"
  by (simp add: rnd_def quantum_def Let_def rne_minus)

lemma rnd_error: "\<bar>rnd p emin x - x\<bar> \<le> pow2 (quantum p emin x) / 2"
proof (cases "x = 0")
  case True
  then show ?thesis by (simp add: less_imp_le)
next
  case False
  define q where "q = pow2 (quantum p emin x)"
  have q: "0 < q" by (simp add: q_def)
  have "rnd p emin x - x = (of_int (rne (x / q)) - x / q) * q"
    using False q by (simp add: rnd_def q_def Let_def algebra_simps)
  then have "\<bar>rnd p emin x - x\<bar> = \<bar>of_int (rne (x / q)) - x / q\<bar> * q"
    using q by (simp add: abs_mult)
  also have "\<dots> \<le> 1 / 2 * q"
    using rne_error q by (intro mult_right_mono) auto
  finally show ?thesis by (simp add: q_def)
qed

lemma pow2_int:
  assumes "0 \<le> k"
  shows "pow2 k = of_int (2 ^ nat k)"
  using assms by (simp add: pow2_def)

lemma rnd_le_grid:
  assumes "x \<noteq> 0" and "x \<le> of_int m * pow2 k" and "quantum p emin x \<le> k"
  shows "rnd p emin x \<le> of_int m * pow2 k"
proof -
  define q where "q = quantum p emin x"
  define z where "z = m * 2 ^ nat (k - q)"
  have z: "of_int m * pow2 k = of_int z * pow2 q"
    using assms(3) pow2_int [of "k - q"] pow2_add [of "k - q" q] by (simp add: z_def q_def)
  then have "x / pow2 q \<le> of_int z"
    using assms(2) by (simp add: pos_divide_le_eq)
  then have "rne (x / pow2 q) \<le> z"
    using rne_mono by fastforce
  then have "of_int (rne (x / pow2 q)) * pow2 q \<le> of_int z * pow2 q"
    by (intro mult_right_mono) (auto simp: less_imp_le)
  then show ?thesis
    using assms(1) z by (simp add: rnd_def q_def Let_def)
qed

lemma rnd_ge_grid:
  assumes "x \<noteq> 0" and "of_int m * pow2 k \<le> x" and "quantum p emin x \<le> k"
  shows "of_int m * pow2 k \<le> rnd p emin x"
  using rnd_le_grid [of "- x" "- m" k p emin] assms
  by (simp add: rnd_minus quantum_def)

lemma ilog2_mono: "0 < x \<Longrightarrow> x \<le> y \<Longrightarrow> ilog2 x \<le> ilog2 y"
proof -
  assume "0 < x" "x \<le> y"
  with ilog2_bounds [of x] ilog2_bounds [of y]
  have "pow2 (ilog2 x) < pow2 (ilog2 y + 1)" by linarith
  then show ?thesis by simp
qed

lemma rnd_mono_pos:
  assumes "1 \<le> p" and "0 < x" and "x \<le> y"
  shows "rnd p emin x \<le> rnd p emin y"
proof (cases "quantum p emin x = quantum p emin y")
  case True
  have "x / pow2 (quantum p emin y) \<le> y / pow2 (quantum p emin y)"
    using assms by (intro divide_right_mono) (auto simp: less_imp_le)
  then show ?thesis
    using assms True by (auto simp: rnd_def Let_def less_imp_le intro!: mult_right_mono rne_mono)
next
  case False
  let ?e = "ilog2 y"
  have le: "quantum p emin x \<le> quantum p emin y"
    using ilog2_mono [OF assms(2,3)] assms by (simp add: quantum_def)
  with False assms have qy: "quantum p emin y = ?e - (p - 1)" and ex: "ilog2 x < ?e"
    using ilog2_mono [OF assms(2,3)] by (auto simp: quantum_def max_def split: if_splits)
  have "x < pow2 (ilog2 x + 1)" using ilog2_bounds [OF assms(2)] by simp
  also have "\<dots> \<le> pow2 ?e" using ex by simp
  finally have "rnd p emin x \<le> of_int 1 * pow2 ?e"
    using assms le qy by (intro rnd_le_grid) auto
  moreover have "of_int 1 * pow2 ?e \<le> rnd p emin y"
    using ilog2_bounds [of y] assms qy by (intro rnd_ge_grid) auto
  ultimately show ?thesis by simp
qed

lemma rnd_nonneg: "0 \<le> x \<Longrightarrow> 0 \<le> rnd p emin x"
  using rne_mono [of 0 "x / pow2 (quantum p emin x)"] rne_of_int [of 0]
  by (auto simp: rnd_def Let_def less_imp_le)

lemma rnd_mono:
  assumes "1 \<le> p" and "x \<le> y"
  shows "rnd p emin x \<le> rnd p emin y"
proof (cases "0 < x")
  case True
  with assms show ?thesis by (auto intro: rnd_mono_pos)
next
  case False
  show ?thesis
  proof (cases "0 \<le> y")
    case True
    with False rnd_nonneg [of y p emin] rnd_nonneg [of "- x" p emin] show ?thesis
      by (simp add: rnd_minus)
  next
    case nonneg: False
    with assms have "rnd p emin (- y) \<le> rnd p emin (- x)"
      by (intro rnd_mono_pos) auto
    then show ?thesis by (simp add: rnd_minus)
  qed
qed

lemma rnd_exact:
  assumes "representable p emin v"
  shows "rnd p emin v = v"
proof (cases "v = 0")
  case False
  from assms obtain m q where v: "v = of_int m * pow2 q" and q: "emin \<le> q"
    and m: "\<bar>of_int m\<bar> < pow2 p"
    unfolding representable_def by auto
  have "\<bar>v\<bar> = \<bar>of_int m\<bar> * pow2 q" by (simp add: v abs_mult abs_of_pos)
  also have "\<dots> < pow2 p * pow2 q" using m by (intro mult_strict_right_mono) auto
  finally have "pow2 (ilog2 \<bar>v\<bar>) < pow2 (p + q)"
    using ilog2_bounds [of "\<bar>v\<bar>"] False by (simp add: pow2_add)
  then have "quantum p emin v \<le> q" using q by (simp add: quantum_def)
  with False v show ?thesis
    using rnd_le_grid [of v m q p emin] rnd_ge_grid [of v m q p emin] by auto
qed simp

lemma rnd_le:
  assumes "1 \<le> p" and "representable p emin b" and "x \<le> b"
  shows "rnd p emin x \<le> b"
  using rnd_mono [OF assms(1,3), of emin] rnd_exact [OF assms(2)] by simp

lemma rnd_ge:
  assumes "1 \<le> p" and "representable p emin b" and "b \<le> x"
  shows "b \<le> rnd p emin x"
  using rnd_mono [OF assms(1,3), of emin] rnd_exact [OF assms(2)] by simp

subsection \<open>The formats\<close>

text \<open>A rational rounded into a format; \<open>s\<close> is the sign of a zero result.\<close>

definition to_format :: "int \<Rightarrow> int \<Rightarrow> int \<Rightarrow> bool \<Rightarrow> rat \<Rightarrow> f64" where
  "to_format p emin emax s x =
     (let r = rnd p emin x
      in if r = 0 then zero_of s else if pow2 emax \<le> \<bar>r\<bar> then Inf (r < 0) else Num r)"

definition f64_of :: "bool \<Rightarrow> rat \<Rightarrow> f64" where
  "f64_of = to_format 53 (- 1074) 1024"

definition f32_of :: "bool \<Rightarrow> rat \<Rightarrow> f32" where
  "f32_of = to_format 24 (- 149) 128"

abbreviation rnd64 :: "rat \<Rightarrow> rat" where
  "rnd64 \<equiv> rnd 53 (- 1074)"

text \<open>A decimal literal of the source: the nearest \<open>f64\<close>.\<close>

definition lit :: "rat \<Rightarrow> f64" where
  "lit x = f64_of False x"

text \<open>A value an \<open>f64\<close> can hold: not NaN apart, every finite one on the binary64 grid.\<close>

definition rep64 :: "rat \<Rightarrow> bool" where
  "rep64 v \<longleftrightarrow> representable 53 (- 1074) v \<and> \<bar>v\<bar> < pow2 1024"

lemma rep64I:
  "v = of_int m * pow2 q \<Longrightarrow> - 1074 \<le> q \<Longrightarrow> \<bar>of_int m\<bar> < pow2 53 \<Longrightarrow> \<bar>v\<bar> < pow2 1024 \<Longrightarrow> rep64 v"
  unfolding rep64_def representable_def by blast

lemma rnd64_le: "rep64 b \<Longrightarrow> x \<le> b \<Longrightarrow> rnd64 x \<le> b"
  by (auto simp: rep64_def intro: rnd_le)

lemma rnd64_ge: "rep64 b \<Longrightarrow> b \<le> x \<Longrightarrow> b \<le> rnd64 x"
  by (auto simp: rep64_def intro: rnd_ge)

lemma rnd64_exact: "rep64 b \<Longrightarrow> rnd64 b = b"
  by (auto simp: rep64_def intro: rnd_exact)

lemma rnd64_mono: "x \<le> y \<Longrightarrow> rnd64 x \<le> rnd64 y"
  by (auto intro: rnd_mono)

lemma rep64_minus: "rep64 b \<Longrightarrow> rep64 (- b)"
  unfolding rep64_def representable_def
  by (metis abs_minus_cancel mult_minus_left of_int_minus)

lemma rnd64_abs_le: "rep64 b \<Longrightarrow> \<bar>x\<bar> \<le> b \<Longrightarrow> \<bar>rnd64 x\<bar> \<le> b"
  using rnd64_le [of b x] rnd64_ge [of "- b" x] rep64_minus [of b] by (auto simp: abs_le_iff)

lemma f64_of_bounded:
  assumes "rep64 b" and "\<bar>x\<bar> \<le> b"
  shows "is_finite (f64_of s x)" and "val (f64_of s x) = rnd64 x"
proof -
  have "\<bar>rnd64 x\<bar> < pow2 1024"
    using rnd64_abs_le [OF assms] assms(1) by (auto simp: rep64_def)
  then show "is_finite (f64_of s x)" "val (f64_of s x) = rnd64 x"
    by (auto simp: f64_of_def to_format_def Let_def)
qed

lemma rep64_int: "\<bar>m\<bar> < 2 ^ 53 \<Longrightarrow> rep64 (of_int m)"
proof (rule rep64I [of _ m 0])
  assume "\<bar>m\<bar> < 2 ^ 53"
  then have m: "\<bar>of_int m\<bar> < (2::rat) ^ 53"
    by (metis of_int_abs of_int_less_iff of_int_numeral of_int_power)
  then show "\<bar>of_int m\<bar> < pow2 53" by (simp add: pow2_def)
  have "pow2 53 < pow2 1024" by simp
  with m show "\<bar>of_int m\<bar> < pow2 1024" by (simp add: pow2_def)
qed (simp_all add: pow2_def)

lemma rep64_0 [simp]: "rep64 0" and rep64_1 [simp]: "rep64 1"
  using rep64_int [of 0] rep64_int [of 1] by simp_all

lemma rep64_numeral: "(numeral k :: int) < 2 ^ 53 \<Longrightarrow> rep64 (numeral k)"
  using rep64_int [of "numeral k"] by simp

subsection \<open>Order and equality\<close>

text \<open>\<open>==\<close> on \<open>f64\<close>: NaN differs from everything, the two zeros are equal.\<close>

fun feq :: "f64 \<Rightarrow> f64 \<Rightarrow> bool" where
  "feq NaN _ = False"
| "feq _ NaN = False"
| "feq (Inf s) b = (b = Inf s)"
| "feq a (Inf s) = False"
| "feq a b = (val a = val b)"

instantiation f64 :: ord
begin

fun less_f64 :: "f64 \<Rightarrow> f64 \<Rightarrow> bool" where
  "less_f64 NaN _ = False"
| "less_f64 _ NaN = False"
| "less_f64 (Inf s) b = (s \<and> b \<noteq> Inf True)"
| "less_f64 a (Inf s) = (\<not> s)"
| "less_f64 a b = (val a < val b)"

definition less_eq_f64 :: "f64 \<Rightarrow> f64 \<Rightarrow> bool" where
  "less_eq_f64 a b = (a < b \<or> feq a b)"

instance ..

end

lemma feq_finite: "is_finite a \<Longrightarrow> is_finite b \<Longrightarrow> feq a b \<longleftrightarrow> val a = val b"
  by (cases a; cases b) auto

lemma less_finite: "is_finite a \<Longrightarrow> is_finite b \<Longrightarrow> (a < b) = (val a < val b)"
  by (cases a; cases b) auto

lemma le_finite: "is_finite a \<Longrightarrow> is_finite b \<Longrightarrow> (a \<le> b) = (val a \<le> val b)"
  by (auto simp: less_eq_f64_def less_finite feq_finite)

lemmas order_finite = feq_finite less_finite le_finite

lemma feq_refl: "\<not> is_nan a \<Longrightarrow> feq a a"
  by (cases a) auto

lemma feq_refl_finite [simp]: "is_finite a \<Longrightarrow> feq a a"
  by (simp add: feq_finite)

lemma feq_sym: "feq a b = feq b a"
  by (cases a; cases b) auto

lemma feq_trans: "feq a b \<Longrightarrow> feq b c \<Longrightarrow> feq a c"
  by (cases a; cases b; cases c) auto

lemma feq_is_finite: "feq a b \<Longrightarrow> is_finite a = is_finite b"
  by (cases a; cases b) auto

lemma not_less_nan [simp]: "\<not> NaN < a" "\<not> a < NaN" "\<not> NaN \<le> a" "\<not> a \<le> NaN"
  by (cases a; simp add: less_eq_f64_def)+

text \<open>\<open>f64::max\<close>, \<open>min\<close> (a NaN argument gives the other) and \<open>clamp\<close>.\<close>

definition fmax :: "f64 \<Rightarrow> f64 \<Rightarrow> f64" where
  "fmax a b = (if is_nan a then b else if is_nan b then a else if a < b then b else a)"

definition fmin :: "f64 \<Rightarrow> f64 \<Rightarrow> f64" where
  "fmin a b = (if is_nan a then b else if is_nan b then a else if b < a then b else a)"

definition fclamp :: "f64 \<Rightarrow> f64 \<Rightarrow> f64 \<Rightarrow> f64" where
  "fclamp x lo hi = (let y = (if x < lo then lo else x) in if hi < y then hi else y)"

lemma fclamp_finite:
  assumes "is_finite lo" and "is_finite hi" and "val lo \<le> val hi" and "\<not> is_nan x"
  shows "is_finite (fclamp x lo hi)" and "val lo \<le> val (fclamp x lo hi)"
    and "val (fclamp x lo hi) \<le> val hi"
proof -
  have "is_finite (fclamp x lo hi) \<and> val lo \<le> val (fclamp x lo hi) \<and> val (fclamp x lo hi) \<le> val hi"
  proof (cases "is_finite x")
    case True
    with assms show ?thesis by (auto simp: fclamp_def less_finite Let_def)
  next
    case False
    with assms obtain s where x: "x = Inf s" by (cases x) auto
    have "x < lo \<longleftrightarrow> s" "hi < x \<longleftrightarrow> \<not> s"
      using assms x by (cases lo; cases hi; auto)+
    with x assms show ?thesis by (auto simp: fclamp_def less_finite Let_def)
  qed
  then show "is_finite (fclamp x lo hi)" "val lo \<le> val (fclamp x lo hi)"
    "val (fclamp x lo hi) \<le> val hi" by auto
qed

lemma fclamp_id:
  assumes "is_finite x" and "is_finite lo" and "is_finite hi"
    and "val lo \<le> val x" and "val x \<le> val hi"
  shows "fclamp x lo hi = x"
  using assms by (simp add: fclamp_def less_finite Let_def)

subsection \<open>Arithmetic\<close>

instantiation f64 :: "{zero, one, uminus, plus, minus, times, inverse, abs}"
begin

definition zero_f64 :: f64 where
  "0 = Num 0"

definition one_f64 :: f64 where
  "1 = Num 1"

fun uminus_f64 :: "f64 \<Rightarrow> f64" where
  "uminus_f64 NaN = NaN"
| "uminus_f64 (Inf s) = Inf (\<not> s)"
| "uminus_f64 NZero = Num 0"
| "uminus_f64 (Num q) = (if q = 0 then NZero else Num (- q))"

fun abs_f64 :: "f64 \<Rightarrow> f64" where
  "abs_f64 NaN = NaN"
| "abs_f64 (Inf s) = Inf False"
| "abs_f64 NZero = Num 0"
| "abs_f64 (Num q) = Num \<bar>q\<bar>"

fun plus_f64 :: "f64 \<Rightarrow> f64 \<Rightarrow> f64" where
  "plus_f64 NaN _ = NaN"
| "plus_f64 _ NaN = NaN"
| "plus_f64 (Inf s) (Inf t) = (if s = t then Inf s else NaN)"
| "plus_f64 (Inf s) _ = Inf s"
| "plus_f64 _ (Inf t) = Inf t"
| "plus_f64 a b =
     (let x = val a + val b
      in if x = 0 then zero_of (neg_sign a \<and> neg_sign b) else f64_of (x < 0) x)"

definition minus_f64 :: "f64 \<Rightarrow> f64 \<Rightarrow> f64" where
  "minus_f64 a b = a + (- b)"

fun times_f64 :: "f64 \<Rightarrow> f64 \<Rightarrow> f64" where
  "times_f64 NaN _ = NaN"
| "times_f64 _ NaN = NaN"
| "times_f64 (Inf s) b =
     (if is_finite b \<and> val b = 0 then NaN else Inf (s \<noteq> neg_sign b))"
| "times_f64 a (Inf t) =
     (if is_finite a \<and> val a = 0 then NaN else Inf (neg_sign a \<noteq> t))"
| "times_f64 a b = f64_of (neg_sign a \<noteq> neg_sign b) (val a * val b)"

fun divide_f64 :: "f64 \<Rightarrow> f64 \<Rightarrow> f64" where
  "divide_f64 NaN _ = NaN"
| "divide_f64 _ NaN = NaN"
| "divide_f64 (Inf s) b = (if is_finite b then Inf (s \<noteq> neg_sign b) else NaN)"
| "divide_f64 a (Inf t) = zero_of (neg_sign a \<noteq> t)"
| "divide_f64 a b =
     (if val b = 0 then (if val a = 0 then NaN else Inf (neg_sign a \<noteq> neg_sign b))
      else f64_of (neg_sign a \<noteq> neg_sign b) (val a / val b))"

definition inverse_f64 :: "f64 \<Rightarrow> f64" where
  "inverse_f64 a = divide 1 a"

instance ..

end

lemma f64_consts [simp]:
  "is_finite 0" "is_finite 1" "val 0 = 0" "val 1 = 1"
  by (simp_all add: zero_f64_def one_f64_def)

lemma finite_uminus [simp]: "is_finite (- a) = is_finite (a :: f64)"
  by (cases a) auto

lemma val_uminus [simp]: "val (- a) = - val a"
  by (cases a) auto

lemma finite_abs [simp]: "is_finite \<bar>a :: f64\<bar> = is_finite a"
  by (cases a) auto

lemma nan_abs [simp]: "is_nan \<bar>a\<bar> = is_nan a"
  by (cases a) auto

lemma val_abs [simp]: "val \<bar>a\<bar> = \<bar>val a\<bar>"
  by (cases a) auto

text \<open>
  Within a bound the format holds, every operation on finite values is the rounded exact one.
\<close>

lemma finite_cases:
  assumes "is_finite a"
  obtains "a = NZero" | q where "a = Num q"
  using assms by (cases a) auto

lemma plus_bounded:
  assumes "is_finite a" and "is_finite b" and "rep64 c" and "\<bar>val a + val b\<bar> \<le> c"
  shows "is_finite (a + b)" and "val (a + b) = rnd64 (val a + val b)"
  using assms f64_of_bounded [OF assms(3,4)]
  by (cases a; cases b; auto simp: Let_def)+

lemma minus_bounded:
  assumes "is_finite a" and "is_finite b" and "rep64 c" and "\<bar>val a - val b\<bar> \<le> c"
  shows "is_finite (a - b)" and "val (a - b) = rnd64 (val a - val b)"
  using plus_bounded [of a "- b" c] assms by (auto simp: minus_f64_def)

lemma times_bounded:
  assumes "is_finite a" and "is_finite b" and "rep64 c" and "\<bar>val a * val b\<bar> \<le> c"
  shows "is_finite (a * b)" and "val (a * b) = rnd64 (val a * val b)"
  using assms f64_of_bounded [OF assms(3,4)]
  by (cases a; cases b; auto)+

lemma divide_bounded:
  assumes "is_finite a" and "is_finite b" and "val b \<noteq> 0" and "rep64 c"
    and "\<bar>val a / val b\<bar> \<le> c"
  shows "is_finite (a / b)" and "val (a / b) = rnd64 (val a / val b)"
  using assms f64_of_bounded [OF assms(4,5)]
  by (cases a; cases b; auto)+

lemma times_abs_le:
  assumes "is_finite a" and "is_finite b" and "rep64 c" and "\<bar>val a\<bar> \<le> c" and "\<bar>val b\<bar> \<le> 1"
  shows "is_finite (a * b)" and "\<bar>val (a * b)\<bar> \<le> c"
proof -
  have "\<bar>val a\<bar> * \<bar>val b\<bar> \<le> \<bar>val a\<bar> * 1"
    using assms by (intro mult_left_mono) auto
  then have ab: "\<bar>val a * val b\<bar> \<le> c" using assms by (simp add: abs_mult)
  from times_bounded [OF assms(1-3) ab] rnd64_abs_le [OF assms(3) ab]
  show "is_finite (a * b)" "\<bar>val (a * b)\<bar> \<le> c" by auto
qed

subsection \<open>Conversions\<close>

text \<open>\<open>round\<close> (half away from zero), \<open>trunc\<close> and \<open>fract\<close> on finite values.\<close>

definition away :: "rat \<Rightarrow> int" where
  "away x = (if 0 \<le> x then \<lfloor>x + 1 / 2\<rfloor> else - \<lfloor>1 / 2 - x\<rfloor>)"

definition chop :: "rat \<Rightarrow> int" where
  "chop x = (if 0 \<le> x then \<lfloor>x\<rfloor> else - \<lfloor>- x\<rfloor>)"

definition fround :: "f64 \<Rightarrow> f64" where
  "fround x = (case x of Num q \<Rightarrow> f64_of (neg_sign x) (of_int (away q)) | _ \<Rightarrow> x)"

definition ftrunc :: "f64 \<Rightarrow> f64" where
  "ftrunc x = (case x of Num q \<Rightarrow> f64_of (neg_sign x) (of_int (chop q)) | _ \<Rightarrow> x)"

definition fract :: "f64 \<Rightarrow> f64" where
  "fract x = x - ftrunc x"

text \<open>\<open>as\<close> to an unsigned integer of \<open>w\<close> bits: truncates, saturates, NaN is 0.\<close>

definition as_unsigned :: "nat \<Rightarrow> f64 \<Rightarrow> nat" where
  "as_unsigned w x =
     (case x of
        NaN \<Rightarrow> 0
      | Inf s \<Rightarrow> (if s then 0 else 2 ^ w - 1)
      | NZero \<Rightarrow> 0
      | Num q \<Rightarrow> min (nat (chop q)) (2 ^ w - 1))"

text \<open>\<open>f64::from(u32)\<close>, \<open>as f64\<close> of an unsigned integer.\<close>

definition f64_of_nat :: "nat \<Rightarrow> f64" where
  "f64_of_nat n = f64_of False (of_nat n)"

definition as_f32 :: "f64 \<Rightarrow> f32" where
  "as_f32 x = (case x of Num q \<Rightarrow> f32_of (q < 0) q | _ \<Rightarrow> x)"

subsection \<open>The mathematics library\<close>

record libm =
  powf :: "f64 \<Rightarrow> f64 \<Rightarrow> f64"
  fsin :: "f64 \<Rightarrow> f64"
  ftan :: "f64 \<Rightarrow> f64"
  fsinh :: "f64 \<Rightarrow> f64"
  fexp :: "f64 \<Rightarrow> f64"
  fexp2 :: "f64 \<Rightarrow> f64"
  flog2 :: "f64 \<Rightarrow> f64"
  flog10 :: "f64 \<Rightarrow> f64"
  fsqrt :: "f64 \<Rightarrow> f64"

end
