(* ===== verification/Proto.thy ===== *)
theory Proto
  imports F64
begin

text \<open>
  The protocol crate's data: ids, the mix state and its defaults, the transient state, the
  commands with the roles that may send them, replies, changes and the version negotiation
  (\<open>iem-engine-proto\<close>: \<open>ids\<close>, \<open>state\<close>, \<open>msg\<close>). Field names carry a prefix of their struct.
  The derived \<open>PartialEq\<close> of a struct with \<open>f64\<close> fields is written out over \<open>feq\<close>. Ids are
  their strings.
\<close>

subsection \<open>Ids\<close>

definition MAX_ID_LEN :: nat where
  "MAX_ID_LEN = 64"

definition is_lower_or_digit :: "char \<Rightarrow> bool" where
  "is_lower_or_digit c = (CHR ''a'' \<le> c \<and> c \<le> CHR ''z'' \<or> CHR ''0'' \<le> c \<and> c \<le> CHR ''9'')"

definition valid_id :: "string \<Rightarrow> bool" where
  "valid_id s =
     ((case s of [] \<Rightarrow> False | c # _ \<Rightarrow> is_lower_or_digit c) \<and>
      length s \<le> MAX_ID_LEN \<and>
      list_all (\<lambda>c. is_lower_or_digit c \<or> c = CHR ''_'' \<or> c = CHR ''.'' \<or> c = CHR ''-'') s)"

type_synonym input_id = string
type_synonym group_id = string
type_synonym mix_id = string

datatype source = SrcInput input_id | SrcMix mix_id

fun source_str :: "source \<Rightarrow> string" where
  "source_str (SrcInput i) = i"
| "source_str (SrcMix i) = i"

datatype eq_target = TgtInput input_id | TgtMix mix_id | TgtGroup mix_id group_id

subsection \<open>The mix state\<close>

definition DB_OFF :: f64 where
  "DB_OFF = Num (- 150)"

definition db_to_lin :: "libm \<Rightarrow> f64 \<Rightarrow> f64" where
  "db_to_lin lm db = (if DB_OFF < db then powf lm (Num 10) (db / Num 20) else 0)"

datatype band_kind = HighPass | LowShelf | Peak | HighShelf

record eq_band =
  b_kind :: band_kind
  b_enabled :: bool
  b_freq_hz :: f64
  b_gain_db :: f64
  b_bw_oct :: f64

definition eq_band_default :: eq_band where
  "eq_band_default =
     \<lparr>b_kind = Peak, b_enabled = False, b_freq_hz = Num 1000, b_gain_db = 0, b_bw_oct = 1\<rparr>"

record eq_state =
  eq_gain_db :: f64
  eq_bands :: "eq_band list"

definition band_off :: "band_kind \<Rightarrow> f64 \<Rightarrow> f64 \<Rightarrow> eq_band" where
  "band_off kind freq_hz bw_oct =
     \<lparr>b_kind = kind, b_enabled = False, b_freq_hz = freq_hz, b_gain_db = 0, b_bw_oct = bw_oct\<rparr>"

text \<open>The five standard frequencies of the source, as its decimal literals.\<close>

definition STD_FREQS :: "f64 list" where
  "STD_FREQS =
     [lit (8020834168547682 / 10 ^ 14), lit (2003077623397404 / 10 ^ 13),
      lit (8019398157380639 / 10 ^ 13), lit (29962342070275295 / 10 ^ 13),
      lit (8016061124722856 / 10 ^ 12)]"

definition eq_default :: eq_state where
  "eq_default =
     \<lparr>eq_gain_db = 0,
      eq_bands =
        [band_off HighPass (STD_FREQS ! 0) (Num 2),
         band_off LowShelf (STD_FREQS ! 1) (Num 2),
         band_off Peak (STD_FREQS ! 2) 1,
         band_off Peak (STD_FREQS ! 3) 1,
         band_off HighShelf (STD_FREQS ! 4) (Num 2)]\<rparr>"

record limiter_state =
  lim_enabled :: bool
  lim_limit_db :: f64

definition limiter_default :: limiter_state where
  "limiter_default = \<lparr>lim_enabled = True, lim_limit_db = Num (- 6)\<rparr>"

record input_state =
  in_trim_db :: f64
  in_processing :: bool
  in_muted :: bool
  in_eq :: eq_state

definition input_default :: input_state where
  "input_default = \<lparr>in_trim_db = 0, in_processing = True, in_muted = False, in_eq = eq_default\<rparr>"

record level =
  lv_gain_db :: f64
  lv_pan :: f64
  lv_muted :: bool

definition level_default :: level where
  "level_default = \<lparr>lv_gain_db = DB_OFF, lv_pan = 0, lv_muted = False\<rparr>"

record mix_group =
  mg_gain_db :: f64
  mg_muted :: bool
  mg_eq :: eq_state

definition group_default :: mix_group where
  "group_default = \<lparr>mg_gain_db = 0, mg_muted = False, mg_eq = eq_default\<rparr>"

record mix_out =
  mo_volume_db :: f64
  mo_muted :: bool
  mo_eq :: eq_state
  mo_limiter :: limiter_state

definition out_default :: mix_out where
  "out_default =
     \<lparr>mo_volume_db = 0, mo_muted = False, mo_eq = eq_default, mo_limiter = limiter_default\<rparr>"

record mix =
  mx_out :: mix_out
  mx_inputs :: "(input_id, level) btree"
  mx_groups :: "(group_id, mix_group) btree"
  mx_mixes :: "(mix_id, level) btree"

definition mix_default :: mix where
  "mix_default = \<lparr>mx_out = out_default, mx_inputs = [], mx_groups = [], mx_mixes = []\<rparr>"

fun mix_level :: "mix \<Rightarrow> source \<Rightarrow> level option" where
  "mix_level m (SrcInput i) = map_of (mx_inputs m) i"
| "mix_level m (SrcMix i) = map_of (mx_mixes m) i"

record mix_state =
  ms_inputs :: "(input_id, input_state) btree"
  ms_mixes :: "(mix_id, mix) btree"

definition mix_state_default :: mix_state where
  "mix_state_default = \<lparr>ms_inputs = [], ms_mixes = []\<rparr>"

record solo =
  so_mix :: mix_id
  so_sources :: "source list"

record test_signal =
  ts_input :: input_id
  ts_hz :: f64
  ts_dbfs :: f64
  ts_ttl_s :: f64

text \<open>The listen slots: 0 the engineer's tap, 1 one other mix's.\<close>

record transient =
  tr_solo :: "solo list"
  tr_listen :: "mix_id option \<times> mix_id option"
  tr_test_signal :: "test_signal option"

subsection \<open>Equality as the code derives it\<close>

definition band_eq :: "eq_band \<Rightarrow> eq_band \<Rightarrow> bool" where
  "band_eq a b =
     (b_kind a = b_kind b \<and> b_enabled a = b_enabled b \<and> feq (b_freq_hz a) (b_freq_hz b) \<and>
      feq (b_gain_db a) (b_gain_db b) \<and> feq (b_bw_oct a) (b_bw_oct b))"

definition eq_eq :: "eq_state \<Rightarrow> eq_state \<Rightarrow> bool" where
  "eq_eq a b = (feq (eq_gain_db a) (eq_gain_db b) \<and> list_all2 band_eq (eq_bands a) (eq_bands b))"

definition limiter_eq :: "limiter_state \<Rightarrow> limiter_state \<Rightarrow> bool" where
  "limiter_eq a b = (lim_enabled a = lim_enabled b \<and> feq (lim_limit_db a) (lim_limit_db b))"

definition input_eq :: "input_state \<Rightarrow> input_state \<Rightarrow> bool" where
  "input_eq a b =
     (feq (in_trim_db a) (in_trim_db b) \<and> in_processing a = in_processing b \<and>
      in_muted a = in_muted b \<and> eq_eq (in_eq a) (in_eq b))"

definition level_eq :: "level \<Rightarrow> level \<Rightarrow> bool" where
  "level_eq a b =
     (feq (lv_gain_db a) (lv_gain_db b) \<and> feq (lv_pan a) (lv_pan b) \<and> lv_muted a = lv_muted b)"

definition group_eq :: "mix_group \<Rightarrow> mix_group \<Rightarrow> bool" where
  "group_eq a b =
     (feq (mg_gain_db a) (mg_gain_db b) \<and> mg_muted a = mg_muted b \<and> eq_eq (mg_eq a) (mg_eq b))"

definition out_eq :: "mix_out \<Rightarrow> mix_out \<Rightarrow> bool" where
  "out_eq a b =
     (feq (mo_volume_db a) (mo_volume_db b) \<and> mo_muted a = mo_muted b \<and>
      eq_eq (mo_eq a) (mo_eq b) \<and> limiter_eq (mo_limiter a) (mo_limiter b))"

subsection \<open>Messages\<close>

datatype cmd =
    SetInput input_id "f64 option" "bool option" "bool option"
  | SetMix mix_id "f64 option" "bool option"
  | SetLevel mix_id source "f64 option" "f64 option" "bool option"
  | SetGroup mix_id group_id "f64 option" "bool option"
  | SetEq eq_target eq_state
  | SetLimiter mix_id "bool option" "f64 option"
  | ResetLimiterStats mix_id
  | SetSolo mix_id "source list"
  | StartListen mix_id
  | StopListen mix_id
  | StartTestSignal input_id f64 f64 f64
  | StopTestSignal
  | Batch "cmd list"
  | ImportState mix_state
  | GetState
  | GetTopology
  | SaveNow
  | Shutdown
  | InjectFault
  | Ping
  | Arm
  | HilTestSignal input_id f64 f64 f64 "u16 list" bool

fun is_read_only :: "cmd \<Rightarrow> bool" where
  "is_read_only GetState = True"
| "is_read_only GetTopology = True"
| "is_read_only Ping = True"
| "is_read_only _ = False"

fun is_supervisor :: "cmd \<Rightarrow> bool" where
  "is_supervisor Arm = True"
| "is_supervisor (HilTestSignal _ _ _ _ _ _) = True"
| "is_supervisor InjectFault = True"
| "is_supervisor _ = False"

definition supervisor_may :: "cmd \<Rightarrow> bool" where
  "supervisor_may c =
     (is_read_only c \<or> is_supervisor c \<or>
      (case c of Shutdown \<Rightarrow> True | SaveNow \<Rightarrow> True | StartTestSignal _ _ _ _ \<Rightarrow> True
               | StopTestSignal \<Rightarrow> True | _ \<Rightarrow> False))"

datatype role = Control | Observe | Supervisor

datatype err_code =
  BadRequest | Unsupported | UnknownId | BadValue | Forbidden | NoSource | NotController
  | TooLarge | NotSupervisor

record input_info =
  ii_id :: input_id
  ii_channels :: nat
  ii_talkback :: bool
  ii_group :: "group_id option"

record group_info =
  gi_id :: group_id
  gi_inputs :: "input_id list"

record mix_info =
  mi_id :: mix_id
  mi_channels :: nat
  mi_mixes :: "mix_id list"
  mi_peers :: "mix_id list"

record topology_info =
  ti_hash :: string
  ti_sample_rate :: nat
  ti_engineer :: mix_id
  ti_inputs :: "input_info list"
  ti_groups :: "group_info list"
  ti_mixes :: "mix_info list"

datatype change =
    ChInput input_id input_state
  | ChMixOut mix_id mix_out
  | ChLevel mix_id source level
  | ChGroup mix_id group_id mix_group
  | ChSolo mix_id "source list"
  | ChListen "mix_id option \<times> mix_id option"
  | ChTestSignal "test_signal option"
  | ChLimiterStatsReset mix_id

text \<open>\<open>negotiate\<close>: \<open>theirs.checked_add(1) == Some(ours)\<close> fails at the top of \<open>u16\<close>.\<close>

definition negotiate :: "u16 \<Rightarrow> u16 \<Rightarrow> u16 option" where
  "negotiate ours theirs =
     (if ours \<le> theirs then Some ours
      else if (if unat theirs + 1 < 2 ^ 16 then Some (theirs + 1) else None) = Some ours \<and> 0 < theirs
      then Some theirs
      else None)"

subsection \<open>Facts\<close>

lemma unat_Suc16: "unat (x :: u16) + 1 < 2 ^ 16 \<Longrightarrow> unat (x + 1) = unat x + 1"
  by (simp add: unat_word_ariths)

text \<open>The negotiated version is one both sides speak and at most one behind ours.\<close>

lemma negotiate_iff:
  "negotiate ours theirs = Some v \<longleftrightarrow>
     (ours \<le> theirs \<and> v = ours) \<or>
     (unat theirs + 1 = unat ours \<and> 0 < theirs \<and> v = theirs)"
proof -
  have b: "unat ours < 2 ^ LENGTH(16)" by (rule unsigned_less)
  have "(unat theirs + 1 < 2 ^ 16 \<and> theirs + 1 = ours) \<longleftrightarrow> unat theirs + 1 = unat ours"
  proof
    assume "unat theirs + 1 < 2 ^ 16 \<and> theirs + 1 = ours"
    then show "unat theirs + 1 = unat ours" using unat_Suc16 by metis
  next
    assume e: "unat theirs + 1 = unat ours"
    then have "unat theirs + 1 < 2 ^ 16" using b by simp
    moreover from this have "theirs + 1 = ours"
      using e unat_Suc16 [of theirs] by (simp add: word_unat_eq_iff)
    ultimately show "unat theirs + 1 < 2 ^ 16 \<and> theirs + 1 = ours" by blast
  qed
  then show ?thesis
    by (auto simp: negotiate_def word_le_nat_alt split: if_splits)
qed

lemma band_eq_refl:
  "is_finite (b_freq_hz b) \<Longrightarrow> is_finite (b_gain_db b) \<Longrightarrow> is_finite (b_bw_oct b) \<Longrightarrow> band_eq b b"
  by (simp add: band_eq_def)

end
