(* ===== verification/Shape.thy ===== *)
theory Shape
  imports Proto
begin

text \<open>
  \<open>iem_engine_proto::shape\<close>: the caps every value passes on its way into the engine, and
  \<open>reconcile\<close>, which lays a received state out for a topology: every slot present, known values
  capped, missing ones defaulted, what the topology lacks dropped and named. The contract of a
  cap (its result is in range, a value in range is kept) is the locale \<open>capper\<close>, interpreted for
  the five capped structs.
\<close>

subsection \<open>Caps\<close>

type_synonym range = "f64 \<times> f64"

definition TRIM_DB :: range where "TRIM_DB = (DB_OFF, Num 24)"
definition FADER_DB :: range where "FADER_DB = (DB_OFF, Num 12)"
definition PAN :: range where "PAN = (Num (- 1), 1)"
definition EQ_FREQ :: range where "EQ_FREQ = (Num 20, Num 24000)"
definition EQ_GAIN_DB :: range where "EQ_GAIN_DB = (DB_OFF, lit (12041199826559248 / 10 ^ 15))"
definition EQ_BW :: range where "EQ_BW = (lit (1 / 100), Num 4)"
definition LIMIT_DB :: range where "LIMIT_DB = (Num (- 6), 0)"

definition cap :: "f64 \<Rightarrow> range \<Rightarrow> f64 option" where
  "cap v r = (if is_finite v then Some (fclamp v (fst r) (snd r)) else None)"

definition fix_f :: "f64 \<Rightarrow> range \<Rightarrow> f64 \<Rightarrow> f64" where
  "fix_f v r d = (case cap v r of Some x \<Rightarrow> x | None \<Rightarrow> d)"

definition eq_is_finite :: "eq_state \<Rightarrow> bool" where
  "eq_is_finite e =
     (is_finite (eq_gain_db e) \<and>
      list_all (\<lambda>b. is_finite (b_freq_hz b) \<and> is_finite (b_gain_db b) \<and> is_finite (b_bw_oct b))
        (eq_bands e))"

definition cap_band :: "eq_band \<Rightarrow> eq_band" where
  "cap_band b =
     b\<lparr>b_freq_hz := fix_f (b_freq_hz b) EQ_FREQ (b_freq_hz eq_band_default),
       b_gain_db := fix_f (b_gain_db b) EQ_GAIN_DB (b_gain_db eq_band_default),
       b_bw_oct := fix_f (b_bw_oct b) EQ_BW (b_bw_oct eq_band_default)\<rparr>"

definition cap_eq :: "eq_state \<Rightarrow> eq_state" where
  "cap_eq e =
     \<lparr>eq_gain_db = fix_f (eq_gain_db e) EQ_GAIN_DB 0, eq_bands = map cap_band (eq_bands e)\<rparr>"

definition cap_input :: "input_state \<Rightarrow> input_state" where
  "cap_input s = s\<lparr>in_trim_db := fix_f (in_trim_db s) TRIM_DB 0, in_eq := cap_eq (in_eq s)\<rparr>"

definition cap_level :: "level \<Rightarrow> level" where
  "cap_level s =
     s\<lparr>lv_gain_db := fix_f (lv_gain_db s) FADER_DB DB_OFF, lv_pan := fix_f (lv_pan s) PAN 0\<rparr>"

definition cap_group :: "mix_group \<Rightarrow> mix_group" where
  "cap_group s =
     s\<lparr>mg_gain_db := fix_f (mg_gain_db s) FADER_DB 0, mg_eq := cap_eq (mg_eq s)\<rparr>"

definition cap_out :: "mix_out \<Rightarrow> mix_out" where
  "cap_out s =
     s\<lparr>mo_volume_db := fix_f (mo_volume_db s) FADER_DB 0,
       mo_eq := cap_eq (mo_eq s),
       mo_limiter := (mo_limiter s)
         \<lparr>lim_limit_db := fix_f (lim_limit_db (mo_limiter s)) LIMIT_DB (fst LIMIT_DB)\<rparr>\<rparr>"

text \<open>\<open>clip\<close>: at most 64 bytes, cut back to a character boundary.\<close>

fun clip_end :: "string \<Rightarrow> nat \<Rightarrow> nat" where
  "clip_end s 0 = 0"
| "clip_end s (Suc n) = (if is_char_boundary s (Suc n) then Suc n else clip_end s n)"

definition clip :: "string \<Rightarrow> string" where
  "clip s = take (clip_end s (min (length s) 64)) s"

subsection \<open>A state shaped by a topology\<close>

definition known_input :: "topology_info \<Rightarrow> input_id \<Rightarrow> bool" where
  "known_input topo i = list_ex (\<lambda>n. ii_id n = i) (ti_inputs topo)"

definition known_group :: "topology_info \<Rightarrow> group_id \<Rightarrow> bool" where
  "known_group topo i = list_ex (\<lambda>n. gi_id n = i) (ti_groups topo)"

definition known_mix :: "topology_info \<Rightarrow> mix_id \<Rightarrow> bool" where
  "known_mix topo i = list_ex (\<lambda>n. mi_id n = i) (ti_mixes topo)"

definition hears :: "mix_info \<Rightarrow> mix_id \<Rightarrow> bool" where
  "hears node i = (i \<in> set (mi_mixes node) \<or> i \<in> set (mi_peers node))"

text \<open>\<open>map(cap).unwrap_or_default()\<close>.\<close>

definition capped_or :: "('a \<Rightarrow> 'a) \<Rightarrow> 'a \<Rightarrow> 'a option \<Rightarrow> 'a" where
  "capped_or c d x = (case x of Some s \<Rightarrow> c s | None \<Rightarrow> d)"

definition shape_mix :: "topology_info \<Rightarrow> mix option \<Rightarrow> mix_info \<Rightarrow> mix" where
  "shape_mix topo given node =
     \<lparr>mx_out = capped_or cap_out out_default (map_option mx_out given),
      mx_inputs = bm_collect
        (map (\<lambda>i. (ii_id i, capped_or cap_level level_default
                  (Option.bind given (\<lambda>x. map_of (mx_inputs x) (ii_id i))))) (ti_inputs topo)),
      mx_groups = bm_collect
        (map (\<lambda>g. (gi_id g, capped_or cap_group group_default
                  (Option.bind given (\<lambda>x. map_of (mx_groups x) (gi_id g))))) (ti_groups topo)),
      mx_mixes = bm_collect
        (map (\<lambda>h. (h, capped_or cap_level level_default
                  (Option.bind given (\<lambda>x. map_of (mx_mixes x) h)))) (mi_mixes node @ mi_peers node))\<rparr>"

definition mix_dropped :: "topology_info \<Rightarrow> mix option \<Rightarrow> mix_info \<Rightarrow> string list" where
  "mix_dropped topo given node =
     (case given of
        None \<Rightarrow> []
      | Some x \<Rightarrow>
          let name = clip (mi_id node) in
          map (\<lambda>i. ''mix '' @ name @ '' input '' @ clip i)
            (filter (\<lambda>i. \<not> known_input topo i) (bm_keys (mx_inputs x))) @
          map (\<lambda>i. ''mix '' @ name @ '' group '' @ clip i)
            (filter (\<lambda>i. \<not> known_group topo i) (bm_keys (mx_groups x))) @
          map (\<lambda>i. ''mix '' @ name @ '' hearing '' @ clip i)
            (filter (\<lambda>i. \<not> hears node i) (bm_keys (mx_mixes x))))"

definition reconcile :: "topology_info \<Rightarrow> mix_state \<Rightarrow> mix_state \<times> string list" where
  "reconcile topo state =
     (\<lparr>ms_inputs = bm_collect
         (map (\<lambda>n. (ii_id n, capped_or cap_input input_default (map_of (ms_inputs state) (ii_id n))))
           (ti_inputs topo)),
       ms_mixes = bm_collect
         (map (\<lambda>n. (mi_id n, shape_mix topo (map_of (ms_mixes state) (mi_id n)) n)) (ti_mixes topo))\<rparr>,
      map (\<lambda>i. ''input '' @ clip i)
        (filter (\<lambda>i. \<not> known_input topo i) (bm_keys (ms_inputs state))) @
      concat (map (\<lambda>n. mix_dropped topo (map_of (ms_mixes state) (mi_id n)) n) (ti_mixes topo)) @
      map (\<lambda>i. ''mix '' @ clip i)
        (filter (\<lambda>i. \<not> known_mix topo i) (bm_keys (ms_mixes state))))"

subsection \<open>Ranges\<close>

definition in_range :: "range \<Rightarrow> f64 \<Rightarrow> bool" where
  "in_range r v = (is_finite v \<and> val (fst r) \<le> val v \<and> val v \<le> val (snd r))"

definition range_ok :: "range \<Rightarrow> bool" where
  "range_ok r = (is_finite (fst r) \<and> is_finite (snd r) \<and> val (fst r) \<le> val (snd r))"

lemma ranges_ok [simp]:
  "range_ok TRIM_DB" "range_ok FADER_DB" "range_ok PAN" "range_ok EQ_FREQ" "range_ok EQ_GAIN_DB"
  "range_ok EQ_BW" "range_ok LIMIT_DB"
  by code_simp+

lemma cap_in_range: "range_ok r \<Longrightarrow> cap v r = Some x \<Longrightarrow> in_range r x"
  using fclamp_finite [of "fst r" "snd r" v]
  by (auto simp: cap_def in_range_def range_ok_def split: if_splits)

lemma cap_id: "in_range r v \<Longrightarrow> range_ok r \<Longrightarrow> cap v r = Some v"
  by (auto simp: cap_def in_range_def range_ok_def intro: fclamp_id)

lemma fix_in_range: "range_ok r \<Longrightarrow> in_range r d \<Longrightarrow> in_range r (fix_f v r d)"
  by (auto simp: fix_f_def dest: cap_in_range split: option.splits)

lemma fix_id: "in_range r v \<Longrightarrow> range_ok r \<Longrightarrow> fix_f v r d = v"
  by (simp add: fix_f_def cap_id)

lemma in_range_finite: "in_range r v \<Longrightarrow> is_finite v"
  by (simp add: in_range_def)

definition band_ok :: "eq_band \<Rightarrow> bool" where
  "band_ok b =
     (in_range EQ_FREQ (b_freq_hz b) \<and> in_range EQ_GAIN_DB (b_gain_db b) \<and> in_range EQ_BW (b_bw_oct b))"

definition eq_ok :: "eq_state \<Rightarrow> bool" where
  "eq_ok e = (in_range EQ_GAIN_DB (eq_gain_db e) \<and> list_all band_ok (eq_bands e))"

definition input_ok :: "input_state \<Rightarrow> bool" where
  "input_ok s = (in_range TRIM_DB (in_trim_db s) \<and> eq_ok (in_eq s))"

definition level_ok :: "level \<Rightarrow> bool" where
  "level_ok s = (in_range FADER_DB (lv_gain_db s) \<and> in_range PAN (lv_pan s))"

definition group_ok :: "mix_group \<Rightarrow> bool" where
  "group_ok s = (in_range FADER_DB (mg_gain_db s) \<and> eq_ok (mg_eq s))"

definition out_ok :: "mix_out \<Rightarrow> bool" where
  "out_ok s =
     (in_range FADER_DB (mo_volume_db s) \<and> eq_ok (mo_eq s) \<and>
      in_range LIMIT_DB (lim_limit_db (mo_limiter s)))"

lemma band_default_in_range [simp]:
  "in_range EQ_FREQ (b_freq_hz eq_band_default)" "in_range EQ_GAIN_DB (b_gain_db eq_band_default)"
  "in_range EQ_BW (b_bw_oct eq_band_default)" "in_range EQ_GAIN_DB 0" "in_range TRIM_DB 0"
  "in_range FADER_DB 0" "in_range FADER_DB DB_OFF" "in_range PAN 0" "in_range LIMIT_DB (fst LIMIT_DB)"
  by code_simp+

text \<open>
  The contract of a cap. Clients use: the shaped value of a slot is in range, and shaping is
  idempotent.
\<close>

locale capper =
  fixes cap_fn :: "'a \<Rightarrow> 'a"
    and ok :: "'a \<Rightarrow> bool"
    and dflt :: 'a
  assumes cap_ok: "ok (cap_fn x)"
    and cap_keeps: "ok x \<Longrightarrow> cap_fn x = x"
    and default_ok: "ok dflt"
begin

lemma cap_idem: "cap_fn (cap_fn x) = cap_fn x"
  by (rule cap_keeps) (rule cap_ok)

lemma capped_or_ok: "ok (capped_or cap_fn dflt x)"
  by (auto simp: capped_or_def cap_ok default_ok split: option.split)

lemma capped_or_keeps: "ok x \<Longrightarrow> capped_or cap_fn d (Some x) = x"
  by (simp add: capped_or_def cap_keeps)

lemma capped_or_idem: "capped_or cap_fn d (Some (capped_or cap_fn dflt x)) = capped_or cap_fn dflt x"
  by (rule capped_or_keeps) (rule capped_or_ok)

end

lemma cap_band_ok: "band_ok (cap_band b)"
  by (simp add: band_ok_def cap_band_def fix_in_range)

lemma cap_band_keeps: "band_ok b \<Longrightarrow> cap_band b = b"
  by (simp add: band_ok_def cap_band_def fix_id)

lemma lit_in_range:
  assumes "is_finite lo" and "is_finite hi" and "rep64 (val lo)" and "rep64 (val hi)"
    and "val lo \<le> x" and "x \<le> val hi" and "0 \<le> val lo"
  shows "in_range (lo, hi) (lit x)"
  using assms rnd64_le [of "val hi" x] rnd64_ge [of "val lo" x] f64_of_bounded [of "val hi" x]
  by (simp add: in_range_def lit_def)

lemma std_freqs_ok: "list_all (in_range EQ_FREQ) STD_FREQS"
  by (simp add: STD_FREQS_def EQ_FREQ_def lit_in_range rep64_numeral)

lemma eq_default_ok: "eq_ok eq_default"
proof -
  have "in_range EQ_BW 1" "in_range EQ_BW (Num 2)" by code_simp+
  moreover have "i < 5 \<Longrightarrow> in_range EQ_FREQ (STD_FREQS ! i)" for i
    using std_freqs_ok by (simp add: list_all_length STD_FREQS_def)
  ultimately show ?thesis
    by (simp add: eq_ok_def eq_default_def band_ok_def band_off_def)
qed

interpretation eqc: capper cap_eq eq_ok eq_default
proof unfold_locales
  show "eq_ok (cap_eq x)" for x
    by (simp add: eq_ok_def cap_eq_def fix_in_range list_all_iff cap_band_ok)
  show "eq_ok x \<Longrightarrow> cap_eq x = x" for x
    by (simp add: eq_ok_def cap_eq_def fix_id list_all_iff cap_band_keeps map_idI)
qed (rule eq_default_ok)

interpretation inc: capper cap_input input_ok input_default
  by unfold_locales
    (simp_all add: input_ok_def cap_input_def fix_in_range fix_id eqc.cap_ok eqc.cap_keeps
      input_default_def eq_default_ok)

interpretation lvc: capper cap_level level_ok level_default
  by unfold_locales
    (simp_all add: level_ok_def cap_level_def fix_in_range fix_id level_default_def)

interpretation grc: capper cap_group group_ok group_default
  by unfold_locales
    (simp_all add: group_ok_def cap_group_def fix_in_range fix_id eqc.cap_ok eqc.cap_keeps
      group_default_def eq_default_ok)

interpretation ouc: capper cap_out out_ok out_default
proof unfold_locales
  show "out_ok out_default"
    by (simp add: out_ok_def out_default_def eq_default_ok limiter_default_def, simp add: in_range_def LIMIT_DB_def)
qed (simp_all add: out_ok_def cap_out_def fix_in_range fix_id eqc.cap_ok eqc.cap_keeps)

lemmas capped_oks [simp] =
  inc.capped_or_ok lvc.capped_or_ok grc.capped_or_ok ouc.capped_or_ok

lemmas capped_idems [simp] =
  inc.capped_or_idem lvc.capped_or_idem grc.capped_or_idem ouc.capped_or_idem

subsection \<open>What \<open>reconcile\<close> gives\<close>

lemma map_of_rev_keyed:
  "map_of (rev (map (\<lambda>x. (f x, g (f x))) xs)) k = (if k \<in> f ` set xs then Some (g k) else None)"
  by (induction xs) (auto simp: map_add_def split: option.splits)

lemma map_of_rev_distinct:
  "distinct (map f xs) \<Longrightarrow> x \<in> set xs \<Longrightarrow> map_of (rev (map (\<lambda>x. (f x, h x)) xs)) (f x) = Some (h x)"
  by (intro map_of_is_SomeI) (auto simp: comp_def simp flip: rev_map)

lemma known_iff:
  "known_input topo i \<longleftrightarrow> i \<in> ii_id ` set (ti_inputs topo)"
  "known_group topo i \<longleftrightarrow> i \<in> gi_id ` set (ti_groups topo)"
  "known_mix topo i \<longleftrightarrow> i \<in> mi_id ` set (ti_mixes topo)"
  by (auto simp: known_input_def known_group_def known_mix_def list_ex_iff)

lemma shape_mix_lookups:
  "map_of (mx_inputs (shape_mix topo given node)) i =
     (if known_input topo i
      then Some (capped_or cap_level level_default (Option.bind given (\<lambda>x. map_of (mx_inputs x) i)))
      else None)"
  "map_of (mx_groups (shape_mix topo given node)) g =
     (if known_group topo g
      then Some (capped_or cap_group group_default (Option.bind given (\<lambda>x. map_of (mx_groups x) g)))
      else None)"
  "map_of (mx_mixes (shape_mix topo given node)) h =
     (if hears node h
      then Some (capped_or cap_level level_default (Option.bind given (\<lambda>x. map_of (mx_mixes x) h)))
      else None)"
proof -
  let ?lv = "\<lambda>i. capped_or cap_level level_default (Option.bind given (\<lambda>x. map_of (mx_inputs x) i))"
  let ?gr = "\<lambda>i. capped_or cap_group group_default (Option.bind given (\<lambda>x. map_of (mx_groups x) i))"
  let ?mx = "\<lambda>i. capped_or cap_level level_default (Option.bind given (\<lambda>x. map_of (mx_mixes x) i))"
  show "map_of (mx_inputs (shape_mix topo given node)) i = (if known_input topo i then Some (?lv i) else None)"
    using map_of_rev_keyed [where f = ii_id and g = ?lv and xs = "ti_inputs topo" and k = i] by (simp add: shape_mix_def known_iff)
  show "map_of (mx_groups (shape_mix topo given node)) g = (if known_group topo g then Some (?gr g) else None)"
    using map_of_rev_keyed [where f = gi_id and g = ?gr and xs = "ti_groups topo" and k = g] by (simp add: shape_mix_def known_iff)
  show "map_of (mx_mixes (shape_mix topo given node)) h = (if hears node h then Some (?mx h) else None)"
    using map_of_rev_keyed [where f = "\<lambda>h. h" and g = ?mx and xs = "mi_mixes node @ mi_peers node" and k = h]
    by (simp add: shape_mix_def hears_def del: map_append rev_append)
qed

lemma shape_mix_out: "mx_out (shape_mix topo given node) = capped_or cap_out out_default (map_option mx_out given)"
  by (simp add: shape_mix_def)

lemma shape_mix_idem:
  "shape_mix topo (Some (shape_mix topo given node)) node = shape_mix topo given node"
proof -
  let ?m = "shape_mix topo given node"
  have "mx_inputs (shape_mix topo (Some ?m) node) = mx_inputs ?m"
    by (rule bm_eqI) (auto simp: shape_mix_lookups fun_eq_iff, auto simp: shape_mix_def)
  moreover have "mx_groups (shape_mix topo (Some ?m) node) = mx_groups ?m"
    by (rule bm_eqI) (auto simp: shape_mix_lookups fun_eq_iff, auto simp: shape_mix_def)
  moreover have "mx_mixes (shape_mix topo (Some ?m) node) = mx_mixes ?m"
    by (rule bm_eqI) (auto simp: shape_mix_lookups fun_eq_iff, auto simp: shape_mix_def)
  moreover have "mx_out (shape_mix topo (Some ?m) node) = mx_out ?m"
    by (simp add: shape_mix_out)
  ultimately show ?thesis by simp
qed

lemma mix_dropped_none: "mix_dropped topo (Some (shape_mix topo given node)) node = []"
proof -
  have "i \<in> set (bm_keys (mx_inputs (shape_mix topo given node))) \<Longrightarrow> known_input topo i"
    "i \<in> set (bm_keys (mx_groups (shape_mix topo given node))) \<Longrightarrow> known_group topo i"
    "i \<in> set (bm_keys (mx_mixes (shape_mix topo given node))) \<Longrightarrow> hears node i" for i
    by (auto simp: bm_keys_set shape_mix_lookups dom_def split: if_splits)
  then show ?thesis by (auto simp: mix_dropped_def Let_def filter_empty_conv)
qed

lemma reconcile_input_lookup:
  "map_of (ms_inputs (fst (reconcile topo s))) i =
     (if known_input topo i
      then Some (capped_or cap_input input_default (map_of (ms_inputs s) i)) else None)"
  using map_of_rev_keyed [where f = ii_id and g = "\<lambda>i. capped_or cap_input input_default (map_of (ms_inputs s) i)" and xs = "ti_inputs topo" and k = i]
  by (simp add: reconcile_def known_iff)

lemma reconcile_mix_lookup:
  assumes "distinct (map mi_id (ti_mixes topo))" and "n \<in> set (ti_mixes topo)"
  shows "map_of (ms_mixes (fst (reconcile topo s))) (mi_id n)
    = Some (shape_mix topo (map_of (ms_mixes s) (mi_id n)) n)"
  using map_of_rev_distinct [OF assms] by (simp add: reconcile_def)

lemma reconcile_mix_unknown: "\<not> known_mix topo i \<Longrightarrow> map_of (ms_mixes (fst (reconcile topo s))) i = None"
  by (auto simp: reconcile_def known_iff map_of_eq_None_iff rev_map)

lemma reconcile_dropped_none:
  assumes "distinct (map mi_id (ti_mixes topo))"
  shows "snd (reconcile topo (fst (reconcile topo s))) = []"
proof -
  let ?s = "fst (reconcile topo s)"
  have "i \<in> set (bm_keys (ms_inputs ?s)) \<Longrightarrow> known_input topo i" for i
    by (auto simp: bm_keys_set reconcile_input_lookup dom_def split: if_splits)
  moreover have "i \<in> set (bm_keys (ms_mixes ?s)) \<Longrightarrow> known_mix topo i" for i
    using reconcile_mix_unknown [of topo i s]
    by (cases "known_mix topo i") (auto simp: bm_keys_set dom_def)
  moreover have "n \<in> set (ti_mixes topo) \<Longrightarrow> mix_dropped topo (map_of (ms_mixes ?s) (mi_id n)) n = []" for n
    using assms by (simp add: reconcile_mix_lookup mix_dropped_none)
  ultimately show ?thesis
    by (subst reconcile_def) (auto simp: filter_empty_conv)
qed

text \<open>
  Shaping is idempotent: the engine applies \<open>reconcile\<close> to a state it or the server already
  shaped without changing a value, and nothing is reported as dropped the second time.
\<close>

theorem reconcile_idempotent:
  assumes "distinct (map mi_id (ti_mixes topo))"
  shows "reconcile topo (fst (reconcile topo s)) = (fst (reconcile topo s), [])"
proof (rule prod_eqI)
  let ?s = "fst (reconcile topo s)"
  have "ms_inputs (fst (reconcile topo ?s)) = ms_inputs ?s"
    by (rule bm_eqI) (auto simp: reconcile_input_lookup fun_eq_iff, auto simp: reconcile_def)
  moreover have "map_of (ms_mixes (fst (reconcile topo ?s))) i = map_of (ms_mixes ?s) i" for i
  proof (cases "known_mix topo i")
    case True
    with assms show ?thesis by (auto simp: known_iff reconcile_mix_lookup shape_mix_idem)
  qed (simp add: reconcile_mix_unknown)
  then have "ms_mixes (fst (reconcile topo ?s)) = ms_mixes ?s"
    by (intro bm_eqI) (auto simp: fun_eq_iff, auto simp: reconcile_def)
  ultimately show "fst (reconcile topo ?s) = fst (?s, [])" by simp
  show "snd (reconcile topo ?s) = snd (?s, [])"
    using reconcile_dropped_none [OF assms] by simp
qed

end
