(* ===== verification/Topology.thy ===== *)
theory Topology
  imports Shape
begin

text \<open>
  The site's \<open>[engine]\<close> table and its compilation into the topology the engine runs on
  (\<open>site.rs\<close>, \<open>topology.rs\<close>): every check with its error, the compiled nodes, the level slots
  and their sources, and HIL's spare outputs. \<open>HashMap\<close>s that are only looked up are maps,
  sets that are only tested are sets. The hash of the topology (SHA-256 over its JSON, both
  third-party) is the parameter \<open>digest\<close>.
\<close>

subsection \<open>The site\<close>

record site_input =
  si_id :: string
  si_rx :: "u16 list"
  si_talkback :: bool

record site_group =
  sg_id :: string
  sg_inputs :: "string list"

record site_mix =
  sm_id :: string
  sm_tx :: "u16 list"
  sm_mixes :: "string list"
  sm_peers :: "string list"

record site =
  st_channels :: u16
  st_engineer :: string
  st_inputs :: "site_input list"
  st_groups :: "site_group list"
  st_mixes :: "site_mix list"

datatype site_error =
    Toml string
  | Io string
  | NoEngineTable
  | BadId string
  | DuplicateId string
  | ChannelCount string string nat
  | ChannelRange string u16
  | ChannelReused u16
  | UnknownInput string string
  | EmptyGroup string
  | SecondGroup string
  | HeardMix string string
  | PeerErr string string
  | PeersOnNonSet string
  | HearsItselfBack string string
  | SecondTalkback
  | EngineerErr string
  | HilTx string

subsection \<open>The compiled nodes\<close>

record input_node =
  n_id :: input_id
  n_rx :: "nat \<times> nat"
  n_stereo :: bool
  n_talkback :: bool
  n_group :: "nat option"

record group_node =
  g_id :: group_id
  g_inputs :: "nat list"

record mix_node =
  m_id :: mix_id
  m_tx :: "nat option \<times> nat option"
  m_mono :: bool
  m_mixes :: "nat list"
  m_peers :: "nat list"
  m_shadow :: bool

definition hears_nothing :: "mix_node \<Rightarrow> bool" where
  "hears_nothing n = (m_mixes n = [] \<and> m_peers n = [])"

record topology =
  t_inputs :: "input_node list"
  t_groups :: "group_node list"
  t_mixes :: "mix_node list"
  t_order :: "nat list"
  t_direct :: "nat list"
  t_rx :: "u16 list"
  t_tx :: "u16 list"
  t_engineer :: nat
  t_hash :: string
  t_input_index :: "input_id \<rightharpoonup> nat"
  t_group_index :: "group_id \<rightharpoonup> nat"
  t_mix_index :: "mix_id \<rightharpoonup> nat"

subsection \<open>Compilation\<close>

definition check_channels :: "string \<Rightarrow> u16 list \<Rightarrow> u16 \<Rightarrow> u16 set \<Rightarrow> site_error + u16 set" where
  "check_channels i chans chmax used =
     fold_r (\<lambda>ch used.
       if ch = 0 \<or> chmax < ch then Inl (ChannelRange i ch)
       else if ch \<in> used then Inl (ChannelReused ch)
       else Inr (insert ch used)) chans used"

definition check_id :: "string \<Rightarrow> string set \<Rightarrow> site_error + string set" where
  "check_id i seen =
     (if \<not> valid_id i then Inl (BadId i)
      else if i \<in> seen then Inl (DuplicateId i)
      else Inr (insert i seen))"

definition site_ids :: "site \<Rightarrow> string list" where
  "site_ids s = map si_id (st_inputs s) @ map sg_id (st_groups s) @ map sm_id (st_mixes s)"

text \<open>\<open>enumerate().map(\<dots>).collect::<HashMap>()\<close>: the last of equal keys wins.\<close>

definition index_map :: "string list \<Rightarrow> string \<rightharpoonup> nat" where
  "index_map ids = map_of (rev (zip ids [0..<length ids]))"

text \<open>The inputs (lines 138--167).\<close>

record in_acc =
  ia_rx :: "u16 list"
  ia_used :: "u16 set"
  ia_talkback :: bool
  ia_nodes :: "input_node list"

definition input_step :: "u16 \<Rightarrow> site_input \<Rightarrow> in_acc \<Rightarrow> site_error + in_acc" where
  "input_step chmax inp s =
     (if \<not> (1 \<le> length (si_rx inp) \<and> length (si_rx inp) \<le> 2)
      then Inl (ChannelCount (si_id inp) ''1 or 2'' (length (si_rx inp)))
      else bind_r (check_channels (si_id inp) (si_rx inp) chmax (ia_used s)) (\<lambda>used.
        if si_talkback inp \<and> ia_talkback s then Inl SecondTalkback
        else
          let fst_ch = length (ia_rx s); stereo = (length (si_rx inp) = 2) in
          Inr \<lparr>ia_rx = ia_rx s @ si_rx inp, ia_used = used,
               ia_talkback = (ia_talkback s \<or> si_talkback inp),
               ia_nodes = ia_nodes s @
                 [\<lparr>n_id = si_id inp, n_rx = (fst_ch, if stereo then fst_ch + 1 else fst_ch),
                   n_stereo = stereo, n_talkback = si_talkback inp, n_group = None\<rparr>]\<rparr>))"

definition compile_inputs :: "site \<Rightarrow> site_error + in_acc" where
  "compile_inputs s =
     fold_r (input_step (st_channels s)) (st_inputs s)
       \<lparr>ia_rx = [], ia_used = {}, ia_talkback = False, ia_nodes = []\<rparr>"

text \<open>The groups (lines 169--202): members resolved and claimed, then sorted.\<close>

definition member_step ::
  "string \<Rightarrow> nat \<Rightarrow> (string \<rightharpoonup> nat) \<Rightarrow> string \<Rightarrow> input_node list \<times> nat list
     \<Rightarrow> site_error + (input_node list \<times> nat list)" where
  "member_step gid g pos name s =
     (case pos name of
        None \<Rightarrow> Inl (UnknownInput gid name)
      | Some i \<Rightarrow>
          (case lget (fst s) i of
             None \<Rightarrow> Inr s
           | Some node \<Rightarrow>
               if n_group node \<noteq> None then Inl (SecondGroup name)
               else Inr ((fst s)[i := node\<lparr>n_group := Some g\<rparr>], snd s @ [i])))"

definition group_step ::
  "(string \<rightharpoonup> nat) \<Rightarrow> nat \<times> site_group \<Rightarrow> input_node list \<times> group_node list
     \<Rightarrow> site_error + (input_node list \<times> group_node list)" where
  "group_step pos gg s =
     (let g = fst gg; group = snd gg in
      if sg_inputs group = [] then Inl (EmptyGroup (sg_id group))
      else bind_r (fold_r (member_step (sg_id group) g pos) (sg_inputs group) (fst s, [])) (\<lambda>r.
        Inr (fst r, snd s @ [\<lparr>g_id = sg_id group, g_inputs = sort (snd r)\<rparr>])))"

definition compile_groups ::
  "site \<Rightarrow> input_node list \<Rightarrow> site_error + (input_node list \<times> group_node list)" where
  "compile_groups s inputs =
     fold_r (group_step (index_map (map si_id (st_inputs s)))) (enumerate 0 (st_groups s)) (inputs, [])"

definition direct_of :: "input_node list \<Rightarrow> nat list" where
  "direct_of inputs = filter (\<lambda>i. n_group (inputs ! i) = None) [0..<length inputs]"

text \<open>The mixes (lines 204--241).\<close>

record mix_acc =
  ma_tx :: "u16 list"
  ma_used :: "u16 set"
  ma_declared :: "string \<rightharpoonup> nat"
  ma_nodes :: "mix_node list"

definition heard_step :: "string \<Rightarrow> (string \<rightharpoonup> nat) \<Rightarrow> string \<Rightarrow> nat list \<Rightarrow> site_error + nat list" where
  "heard_step mid declared name heard =
     (case declared name of
        Some s \<Rightarrow> if s \<notin> set heard then Inr (heard @ [s]) else Inl (HeardMix mid name)
      | None \<Rightarrow> Inl (HeardMix mid name))"

definition mix_step :: "u16 \<Rightarrow> nat \<times> site_mix \<Rightarrow> mix_acc \<Rightarrow> site_error + mix_acc" where
  "mix_step chmax mm s =
     (let m = fst mm; mix = snd mm in
      if \<not> (1 \<le> length (sm_tx mix) \<and> length (sm_tx mix) \<le> 2)
      then Inl (ChannelCount (sm_id mix) ''1 or 2'' (length (sm_tx mix)))
      else bind_r (check_channels (sm_id mix) (sm_tx mix) chmax (ma_used s)) (\<lambda>used.
        bind_r (fold_r (heard_step (sm_id mix) (ma_declared s)) (sm_mixes mix) []) (\<lambda>heard.
          let fst_ch = length (ma_tx s); mono = (length (sm_tx mix) = 1) in
          Inr \<lparr>ma_tx = ma_tx s @ sm_tx mix, ma_used = used,
               ma_declared = (ma_declared s)(sm_id mix \<mapsto> m),
               ma_nodes = ma_nodes s @
                 [\<lparr>m_id = sm_id mix, m_tx = (Some fst_ch, if mono then None else Some (fst_ch + 1)),
                   m_mono = mono, m_mixes = heard, m_peers = [], m_shadow = False\<rparr>]\<rparr>)))"

definition compile_mixes :: "site \<Rightarrow> site_error + mix_acc" where
  "compile_mixes s =
     fold_r (mix_step (st_channels s)) (enumerate 0 (st_mixes s))
       \<lparr>ma_tx = [], ma_used = {}, ma_declared = Map.empty, ma_nodes = []\<rparr>"

definition is_stereo :: "mix_node list \<Rightarrow> nat \<Rightarrow> bool" where
  "is_stereo mixes m = (case lget mixes m of Some n \<Rightarrow> \<not> m_mono n | None \<Rightarrow> False)"

definition find_engineer :: "site \<Rightarrow> mix_acc \<Rightarrow> site_error + nat" where
  "find_engineer s a =
     (case ma_declared a (st_engineer s) of
        Some m \<Rightarrow> if is_stereo (ma_nodes a) m then Inr m else Inl (EngineerErr (st_engineer s))
      | None \<Rightarrow> Inl (EngineerErr (st_engineer s)))"

text \<open>The peers (lines 246--272).\<close>

definition peer_step ::
  "(string \<rightharpoonup> nat) \<Rightarrow> mix_node list \<Rightarrow> nat \<Rightarrow> nat \<Rightarrow> string \<Rightarrow> string \<Rightarrow> nat list
     \<Rightarrow> site_error + nat list" where
  "peer_step declared mixes engineer m mid name peers =
     (case declared name of
        Some s \<Rightarrow>
          if s \<noteq> m \<and> s \<noteq> engineer \<and> is_stereo mixes s
             \<and> (case lget mixes m of Some n \<Rightarrow> s \<notin> set (m_mixes n) | None \<Rightarrow> False)
             \<and> s \<notin> set peers
          then Inr (peers @ [s]) else Inl (PeerErr mid name)
      | None \<Rightarrow> Inl (PeerErr mid name))"

definition peers_step ::
  "(string \<rightharpoonup> nat) \<Rightarrow> nat \<Rightarrow> nat \<times> site_mix \<Rightarrow> mix_node list \<Rightarrow> site_error + mix_node list" where
  "peers_step declared engineer mm mixes =
     (let m = fst mm; mix = snd mm in
      if sm_peers mix \<noteq> [] \<and> (m = engineer \<or> \<not> is_stereo mixes m)
      then Inl (PeersOnNonSet (sm_id mix))
      else bind_r (fold_r (peer_step declared mixes engineer m (sm_id mix)) (sm_peers mix) []) (\<lambda>peers.
        Inr (lmod mixes m (\<lambda>n. n\<lparr>m_peers := peers\<rparr>))))"

definition compile_peers :: "site \<Rightarrow> mix_acc \<Rightarrow> nat \<Rightarrow> site_error + mix_node list" where
  "compile_peers s a engineer =
     fold_r (peers_step (ma_declared a) engineer) (enumerate 0 (st_mixes s)) (ma_nodes a)"

text \<open>\<open>carries\<close> (lines 273--296): the own outputs a mix's whole output holds.\<close>

definition heard_carries ::
  "site \<Rightarrow> nat set list \<Rightarrow> nat \<Rightarrow> nat \<Rightarrow> nat set \<Rightarrow> site_error + nat set" where
  "heard_carries s carries m h own =
     (case lget carries h of
        None \<Rightarrow> Inr own
      | Some brought \<Rightarrow>
          if m \<in> brought
          then let name = (\<lambda>i. case lget (st_mixes s) i of Some x \<Rightarrow> sm_id x | None \<Rightarrow> []) in
               Inl (HearsItselfBack (name m) (name h))
          else Inr (own \<union> brought))"

definition carries_step :: "site \<Rightarrow> nat \<times> mix_node \<Rightarrow> nat set list \<Rightarrow> site_error + nat set list" where
  "carries_step s mn carries =
     (let m = fst mn; node = snd mn in
      bind_r (fold_r (heard_carries s carries m) (m_mixes node) (insert m (set (m_peers node)))) (\<lambda>own.
        Inr (carries @ [own])))"

definition check_carries :: "site \<Rightarrow> mix_node list \<Rightarrow> site_error + nat set list" where
  "check_carries s mixes = fold_r (carries_step s) (enumerate 0 mixes) []"

text \<open>Shadows and the render order (lines 297--306).\<close>

definition set_shadows :: "mix_node list \<Rightarrow> mix_node list" where
  "set_shadows mixes =
     map (\<lambda>(m, n). n\<lparr>m_shadow := list_ex (\<lambda>x. m \<in> set (m_peers x)) mixes \<and> \<not> hears_nothing n\<rparr>)
       (enumerate 0 mixes)"

definition render_order :: "mix_node list \<Rightarrow> nat list" where
  "render_order mixes =
     filter (\<lambda>m. hears_nothing (mixes ! m)) [0..<length mixes] @
     filter (\<lambda>m. \<not> hears_nothing (mixes ! m)) [0..<length mixes]"

subsection \<open>The topology's queries\<close>

definition input_index :: "topology \<Rightarrow> input_id \<Rightarrow> nat option" where
  "input_index t i = t_input_index t i"

definition group_index :: "topology \<Rightarrow> group_id \<Rightarrow> nat option" where
  "group_index t i = t_group_index t i"

definition mix_index :: "topology \<Rightarrow> mix_id \<Rightarrow> nat option" where
  "mix_index t i = t_mix_index t i"

definition levels :: "topology \<Rightarrow> nat \<Rightarrow> nat" where
  "levels t m =
     length (t_inputs t) +
     (case lget (t_mixes t) m of Some n \<Rightarrow> length (m_mixes n) + length (m_peers n) | None \<Rightarrow> 0)"

definition peering :: "topology \<Rightarrow> nat \<times> nat" where
  "peering t =
     (sum_list (map (\<lambda>n. length (m_peers n)) (t_mixes t)), length (filter m_shadow (t_mixes t)))"

definition slot :: "topology \<Rightarrow> nat \<Rightarrow> source \<Rightarrow> nat option" where
  "slot t m src =
     (case lget (t_mixes t) m of
        None \<Rightarrow> None
      | Some node \<Rightarrow>
          (case src of
             SrcInput i \<Rightarrow> input_index t i
           | SrcMix i \<Rightarrow>
               (case mix_index t i of
                  None \<Rightarrow> None
                | Some s \<Rightarrow>
                    (case position (\<lambda>h. h = s) (m_mixes node) of
                       Some k \<Rightarrow> Some (length (t_inputs t) + k)
                     | None \<Rightarrow>
                         (case position (\<lambda>p. p = s) (m_peers node) of
                            Some k \<Rightarrow> Some (length (t_inputs t) + (length (m_mixes node) + k))
                          | None \<Rightarrow> None)))))"

definition t_source :: "topology \<Rightarrow> nat \<Rightarrow> nat \<Rightarrow> source option" where
  "t_source t m k =
     (case lget (t_mixes t) m of
        None \<Rightarrow> None
      | Some node \<Rightarrow>
          (case lget (t_inputs t) k of
             Some n \<Rightarrow> Some (SrcInput (n_id n))
           | None \<Rightarrow>
               (let j = k - length (t_inputs t);
                    s = (case lget (m_mixes node) j of
                           Some s \<Rightarrow> Some s
                         | None \<Rightarrow> lget (m_peers node) (j - length (m_mixes node)))
                in case s of
                     None \<Rightarrow> None
                   | Some s \<Rightarrow> map_option (\<lambda>n. SrcMix (m_id n)) (lget (t_mixes t) s))))"

definition tx_has :: "mix_node \<Rightarrow> nat \<Rightarrow> bool" where
  "tx_has n s = (fst (m_tx n) = Some s \<or> snd (m_tx n) = Some s)"

definition mix_on_tx :: "topology \<Rightarrow> u16 \<Rightarrow> mix_node option" where
  "mix_on_tx t ch =
     (case position (\<lambda>c. c = ch) (t_tx t) of
        None \<Rightarrow> None
      | Some s \<Rightarrow> List.find (\<lambda>n. tx_has n s) (t_mixes t))"

definition mix_tx_refusal :: "topology \<Rightarrow> u16 \<Rightarrow> string option" where
  "mix_tx_refusal t ch =
     map_option (\<lambda>n. ''card output '' @ show_nat (unat ch) @ '' is mix '' @ m_id n @
       [CHR 0x27] @ ''s TX: the HIL signal goes only to spare outputs'') (mix_on_tx t ch)"

definition MAX_HIL :: nat where
  "MAX_HIL = 8"

definition hil_step :: "topology \<Rightarrow> u16 \<Rightarrow> u16 list \<Rightarrow> site_error + u16 list" where
  "hil_step t ch outputs =
     (if ch = 0 then Inl (HilTx (''card output '' @ show_nat (unat ch) @ '': card channels count from 1''))
      else case mix_tx_refusal t ch of
        Some why \<Rightarrow> Inl (HilTx why)
      | None \<Rightarrow>
          if ch \<in> set (t_rx t)
          then Inl (HilTx (''card channel '' @ show_nat (unat ch) @
                 '' is a topology input: its loopback return would read the band''))
          else if ch \<in> set outputs
          then Inl (HilTx (''card output '' @ show_nat (unat ch) @ '' is listed twice''))
          else Inr (outputs @ [ch]))"

definition hil_outputs :: "topology \<Rightarrow> u16 list \<Rightarrow> site_error + u16 list" where
  "hil_outputs t hil_tx =
     (if MAX_HIL < length hil_tx
      then Inl (HilTx (show_nat (length hil_tx) @ '' card outputs: at most '' @ show_nat MAX_HIL))
      else fold_r (hil_step t) hil_tx [])"

definition info :: "topology \<Rightarrow> topology_info" where
  "info t =
     (let mix_id_of = (\<lambda>m. map_option m_id (lget (t_mixes t) m)) in
      \<lparr>ti_hash = t_hash t, ti_sample_rate = 96000,
       ti_engineer = (case mix_id_of (t_engineer t) of Some i \<Rightarrow> i | None \<Rightarrow> []),
       ti_inputs = map (\<lambda>n. \<lparr>ii_id = n_id n, ii_channels = (if n_stereo n then 2 else 1),
           ii_talkback = n_talkback n,
           ii_group = map_option g_id (Option.bind (n_group n) (lget (t_groups t)))\<rparr>) (t_inputs t),
       ti_groups = map (\<lambda>g. \<lparr>gi_id = g_id g,
           gi_inputs = List.map_filter (\<lambda>i. map_option n_id (lget (t_inputs t) i)) (g_inputs g)\<rparr>)
         (t_groups t),
       ti_mixes = map (\<lambda>n. \<lparr>mi_id = m_id n, mi_channels = (if m_mono n then 1 else 2),
           mi_mixes = List.map_filter mix_id_of (m_mixes n),
           mi_peers = List.map_filter mix_id_of (m_peers n)\<rparr>) (t_mixes t)\<rparr>)"

text \<open>\<open>compile\<close> as a whole.\<close>

definition assemble ::
  "(topology_info \<Rightarrow> string) \<Rightarrow> input_node list \<Rightarrow> group_node list \<Rightarrow> mix_node list \<Rightarrow> u16 list
     \<Rightarrow> u16 list \<Rightarrow> nat \<Rightarrow> topology" where
  "assemble digest inputs groups mixes rx tx engineer =
     (let t = \<lparr>t_inputs = inputs, t_groups = groups, t_mixes = mixes,
               t_order = render_order mixes, t_direct = direct_of inputs,
               t_rx = rx, t_tx = tx, t_engineer = engineer, t_hash = [],
               t_input_index = index_map (map n_id inputs),
               t_group_index = index_map (map g_id groups),
               t_mix_index = index_map (map m_id mixes)\<rparr>
      in t\<lparr>t_hash := digest (info t)\<rparr>)"

definition compile :: "(topology_info \<Rightarrow> string) \<Rightarrow> site \<Rightarrow> site_error + topology" where
  "compile digest s =
     bind_r (fold_r check_id (site_ids s) {}) (\<lambda>_.
     bind_r (compile_inputs s) (\<lambda>ia.
     bind_r (compile_groups s (ia_nodes ia)) (\<lambda>ig.
     bind_r (compile_mixes s) (\<lambda>ma.
     bind_r (find_engineer s ma) (\<lambda>engineer.
     bind_r (compile_peers s ma engineer) (\<lambda>mixes.
     bind_r (check_carries s mixes) (\<lambda>_.
       Inr (assemble digest (fst ig) (snd ig) (set_shadows mixes) (ia_rx ia) (ma_tx ma) engineer))))))))"

end
