(* ===== verification/Dsp.thy ===== *)
theory Dsp
  imports F64
begin

text \<open>
  The small processors of \<open>iem-dsp\<close>: linear ramps (\<open>ramp.rs\<close>), the measured pan law with the
  smoothed gain pair (\<open>pan.rs\<close>), peak meters (\<open>meter.rs\<close>) and the sanitiser (\<open>sanitize.rs\<close>).
  Sample counts (\<open>u32\<close>) are naturals: they are set to a length and only counted down to zero.
  The transcendental functions of the platform are the argument \<open>lm\<close>.
\<close>

subsection \<open>Ramps\<close>

definition GAIN_MS :: f64 where "GAIN_MS = Num 10"
definition PAN_MS :: f64 where "PAN_MS = Num 10"
definition MUTE_MS :: f64 where "MUTE_MS = Num 5"
definition EQ_MS :: f64 where "EQ_MS = Num 20"

definition samples :: "f64 \<Rightarrow> f64 \<Rightarrow> nat" where
  "samples ms sample_rate = max (as_unsigned 32 (fround (ms * sample_rate / Num 1000))) 1"

record ramp =
  rp_value :: f64
  rp_target :: f64
  rp_step :: f64
  rp_left :: nat
  rp_len :: nat

definition ramp_new :: "f64 \<Rightarrow> nat \<Rightarrow> ramp" where
  "ramp_new v len =
     \<lparr>rp_value = v, rp_target = v, rp_step = 0, rp_left = 0, rp_len = (if len = 0 then 1 else len)\<rparr>"

definition is_moving :: "ramp \<Rightarrow> bool" where
  "is_moving r = (0 < rp_left r)"

definition ramp_set :: "ramp \<Rightarrow> f64 \<Rightarrow> ramp" where
  "ramp_set r target =
     (if feq target (rp_target r) then r
      else r\<lparr>rp_target := target, rp_left := rp_len r,
             rp_step := (target - rp_value r) / f64_of_nat (rp_len r)\<rparr>)"

definition ramp_jump :: "ramp \<Rightarrow> f64 \<Rightarrow> ramp" where
  "ramp_jump r v = ramp_new v (rp_len r)"

definition ramp_tick :: "ramp \<Rightarrow> ramp \<times> f64" where
  "ramp_tick r =
     (let r' = (if 0 < rp_left r
                then let left = rp_left r - 1
                     in r\<lparr>rp_left := left,
                          rp_value := (if left = 0 then rp_target r else rp_value r + rp_step r)\<rparr>
                else r)
      in (r', rp_value r'))"

subsection \<open>Pan\<close>

definition SQRT_2 :: f64 where "SQRT_2 = lit (141421356237309504880 / 10 ^ 20)"
definition FRAC_PI_4 :: f64 where "FRAC_PI_4 = lit (785398163397448309616 / 10 ^ 21)"

definition MAGNITUDE :: "f64 list" where
  "MAGNITUDE =
     [SQRT_2, lit (1413442003770097 / 10 ^ 15), lit (14111213638902695 / 10 ^ 16),
      lit (1407233637679557 / 10 ^ 15), lit (14017484365850923 / 10 ^ 16),
      lit (13946224041647768 / 10 ^ 16), lit (13857983687078865 / 10 ^ 16),
      lit (13752042016004387 / 10 ^ 16), lit (13627513381348282 / 10 ^ 16),
      lit (13483329027347901 / 10 ^ 16), lit (13318213620807011 / 10 ^ 16),
      lit (13130656059467758 / 10 ^ 16), lit (12918873247387341 / 10 ^ 16),
      lit (12680765120099933 / 10 ^ 16), lit (12413858657590862 / 10 ^ 16),
      lit (12115237885030046 / 10 ^ 16), lit (11781455848733056 / 10 ^ 16),
      lit (11408423148202314 / 10 ^ 16), lit (10991265624823106 / 10 ^ 16),
      lit (1052414098036256 / 10 ^ 15), 1]"

definition GHOST :: f64 where "GHOST = lit (947585901963744 / 10 ^ 15)"

definition pan_node :: "nat \<Rightarrow> f64" where
  "pan_node k = (case lget MAGNITUDE k of Some v \<Rightarrow> v | None \<Rightarrow> GHOST)"

text \<open>\<open>abs_diff\<close> on \<open>usize\<close>.\<close>

definition abs_diff :: "nat \<Rightarrow> nat \<Rightarrow> nat" where
  "abs_diff a b = (if a < b then b - a else a - b)"

definition pan_magnitude :: "f64 \<Rightarrow> f64" where
  "pan_magnitude a =
     (let x = a * Num 20;
          i = min (as_unsigned 64 x) 20;
          t = x - f64_of_nat i;
          y0 = pan_node (abs_diff i 1); y1 = pan_node i; y2 = pan_node (i + 1); y3 = pan_node (i + 2)
      in y1 + Num (1 / 2) * t *
           (y2 - y0 + t * (Num 2 * y0 - Num 5 * y1 + Num 4 * y2 - y3
                           + t * (Num 3 * (y1 - y2) + y3 - y0))))"

definition gains :: "libm \<Rightarrow> f64 \<Rightarrow> f64 \<times> f64" where
  "gains lm p0 =
     (let p = (if is_finite p0 then fclamp p0 (Num (- 1)) 1 else 0); m = pan_magnitude \<bar>p\<bar>
      in (m * fsin lm ((1 - p) * FRAC_PI_4), m * fsin lm ((1 + p) * FRAC_PI_4)))"

definition send_gains :: "libm \<Rightarrow> f64 \<Rightarrow> bool \<Rightarrow> f64 \<Rightarrow> f64 \<times> f64" where
  "send_gains lm vol muted pan =
     (if muted then (0, 0) else (vol * fst (gains lm pan), vol * snd (gains lm pan)))"

definition mono_downmix :: "f64 \<Rightarrow> f64 \<Rightarrow> f64 \<Rightarrow> f64 \<Rightarrow> f64" where
  "mono_downmix l r gl gr = (gl * l + gr * r) * Num (1 / 2)"

record stereo_gain =
  sg_l :: ramp
  sg_r :: ramp
  sg_on :: ramp

definition on_target :: "bool \<Rightarrow> f64" where
  "on_target muted = (if muted then 0 else 1)"

definition sgain_new :: "libm \<Rightarrow> f64 \<Rightarrow> f64 \<Rightarrow> bool \<Rightarrow> f64 \<Rightarrow> stereo_gain" where
  "sgain_new lm sample_rate vol muted pan =
     (let g = send_gains lm vol False pan; len = samples GAIN_MS sample_rate
      in \<lparr>sg_l = ramp_new (fst g) len, sg_r = ramp_new (snd g) len,
          sg_on = ramp_new (on_target muted) (samples MUTE_MS sample_rate)\<rparr>)"

definition sgain_set :: "libm \<Rightarrow> stereo_gain \<Rightarrow> f64 \<Rightarrow> bool \<Rightarrow> f64 \<Rightarrow> stereo_gain" where
  "sgain_set lm s vol muted pan =
     (let g = send_gains lm vol False pan
      in \<lparr>sg_l = ramp_set (sg_l s) (fst g), sg_r = ramp_set (sg_r s) (snd g),
          sg_on = ramp_set (sg_on s) (on_target muted)\<rparr>)"

definition steady :: "stereo_gain \<Rightarrow> (f64 \<times> f64) option" where
  "steady s =
     (if is_moving (sg_l s) \<or> is_moving (sg_r s) \<or> is_moving (sg_on s) then None
      else Some (rp_value (sg_l s) * rp_value (sg_on s), rp_value (sg_r s) * rp_value (sg_on s)))"

definition sgain_tick :: "stereo_gain \<Rightarrow> stereo_gain \<times> (f64 \<times> f64)" where
  "sgain_tick s =
     (let (on', o_v) = ramp_tick (sg_on s); (l', l_v) = ramp_tick (sg_l s); (r', r_v) = ramp_tick (sg_r s)
      in (\<lparr>sg_l = l', sg_r = r', sg_on = on'\<rparr>, (l_v * o_v, r_v * o_v)))"

subsection \<open>Meters\<close>

text \<open>One channel's running peak; a meter is the list of its channels' peaks.\<close>

definition peak_step :: "f64 \<Rightarrow> f64 \<Rightarrow> f64" where
  "peak_step x peak = (let a = \<bar>x\<bar> in if peak < a then a else peak)"

definition observe :: "f64 list list \<Rightarrow> f64 list \<Rightarrow> f64 list" where
  "observe chans peaks = map2 (\<lambda>peak ch. fold peak_step ch peak) peaks chans"

definition peak_new :: "nat \<Rightarrow> f64 list" where
  "peak_new ch = replicate ch 0"

definition peak_take :: "f64 list \<Rightarrow> f64 list \<times> f64 list" where
  "peak_take peaks = (peak_new (length peaks), peaks)"

definition to_db :: "libm \<Rightarrow> f64 \<Rightarrow> f64" where
  "to_db lm x = (if 0 < x then fmax (Num 20 * flog10 lm x) (Num (- 150)) else Num (- 150))"

definition seconds :: "nat \<Rightarrow> f64 \<Rightarrow> f64" where
  "seconds n sample_rate = f64_of_nat n / sample_rate"

subsection \<open>The sanitiser\<close>

definition LIMIT :: f64 where "LIMIT = Num 1000000"

definition bad_sample :: "f64 \<Rightarrow> bool" where
  "bad_sample x = (is_nan x \<or> LIMIT < \<bar>x\<bar>)"

definition sanitize :: "f64 list list \<Rightarrow> f64 list list \<times> bool" where
  "sanitize chans =
     (if list_ex (list_ex bad_sample) chans then (map (map (\<lambda>_. 0)) chans, True) else (chans, False))"

text \<open>\<open>Trips::check\<close> with its \<open>u64\<close> count.\<close>

definition trips_check :: "u64 \<Rightarrow> f64 list list \<Rightarrow> u64 \<times> f64 list list \<times> bool" where
  "trips_check n chans =
     (let (out, tripped) = sanitize chans in (if tripped then n + 1 else n, out, tripped))"

subsection \<open>Facts\<close>

definition clean :: "f64 \<Rightarrow> bool" where
  "clean x = (is_finite x \<and> \<bar>val x\<bar> \<le> 1000000)"

lemma not_bad_clean: "\<not> bad_sample x \<longleftrightarrow> clean x"
  by (cases x) (auto simp: bad_sample_def clean_def LIMIT_def)

lemma sanitize_clean: "x \<in> set ch \<Longrightarrow> ch \<in> set (fst (sanitize chans)) \<Longrightarrow> clean x"
  using not_bad_clean [of x]
  by (auto simp: sanitize_def list_ex_iff clean_def [of 0] split: if_splits)

lemma sanitize_lengths: "map length (fst (sanitize chans)) = map length chans"
  by (simp add: sanitize_def comp_def)

end
