(* ===== verification/Equalizer.thy ===== *)
theory Equalizer
  imports Dsp
begin

text \<open>
  The five-band equalizer of \<open>iem-dsp/src/eq.rs\<close>: band parameters, the state-variable filter
  and its design, the per-band ramps with their crossfade, and the block processing. An
  equalizer's channels are a list of samples per channel; \<open>u32\<close> counts of the ramps are
  naturals, the design counter wraps.
\<close>

subsection \<open>Parameters\<close>

definition BANDS :: nat where "BANDS = 5"
definition FREQ_MIN :: f64 where "FREQ_MIN = Num 20"
definition FREQ_MAX :: f64 where "FREQ_MAX = Num 24000"
definition NYQUIST_FRACTION :: f64 where "NYQUIST_FRACTION = lit (49 / 100)"
definition BW_MIN :: f64 where "BW_MIN = lit (1 / 100)"
definition BW_MAX :: f64 where "BW_MAX = Num 4"
definition GAIN_MAX :: f64 where "GAIN_MAX = Num 4"
definition SHELF_GAIN_MIN :: f64 where "SHELF_GAIN_MIN = lit (1 / 10 ^ 6)"
definition SHELF_SLOPE_MAX :: f64 where "SHELF_SLOPE_MAX = lit (12 / 10)"
definition RAMP_DB_MIN :: f64 where "RAMP_DB_MIN = Num (- 120)"
definition DESIGN_EVERY :: u32 where "DESIGN_EVERY = 16"
definition DENORMAL :: f64 where "DENORMAL = lit (1 / 10 ^ 30)"

definition F_PI :: f64 where "F_PI = lit (3141592653589793238463 / 10 ^ 21)"
definition F_TAU :: f64 where "F_TAU = lit (6283185307179586476925 / 10 ^ 21)"
definition FRAC_PI_2 :: f64 where "FRAC_PI_2 = lit (1570796326794896619231 / 10 ^ 21)"
definition F_LN_2 :: f64 where "F_LN_2 = lit (693147180559945309417 / 10 ^ 21)"

datatype dsp_kind = DHighPass | DLowShelf | DPeak | DHighShelf

record dsp_band =
  db_kind :: dsp_kind
  db_enabled :: bool
  db_freq_hz :: f64
  db_gain_lin :: f64
  db_bw_oct :: f64

definition is_valid :: "dsp_band \<Rightarrow> bool" where
  "is_valid b = list_all (\<lambda>x. is_finite x \<and> 0 \<le> x) [db_freq_hz b, db_gain_lin b, db_bw_oct b]"

record eq_params =
  ep_bands :: "dsp_band list"
  ep_global_gain :: f64

definition std_off :: "dsp_kind \<Rightarrow> f64 \<Rightarrow> f64 \<Rightarrow> dsp_band" where
  "std_off kind freq_hz bw_oct =
     \<lparr>db_kind = kind, db_enabled = False, db_freq_hz = freq_hz, db_gain_lin = 1, db_bw_oct = bw_oct\<rparr>"

definition standard_flat :: eq_params where
  "standard_flat =
     \<lparr>ep_bands =
        [std_off DHighPass (lit (8020834168547682 / 10 ^ 14)) (Num 2),
         std_off DLowShelf (lit (2003077623397404 / 10 ^ 13)) (Num 2),
         std_off DPeak (lit (8019398157380639 / 10 ^ 13)) 1,
         std_off DPeak (lit (29962342070275295 / 10 ^ 13)) 1,
         std_off DHighShelf (lit (8016061124722856 / 10 ^ 12)) (Num 2)],
      ep_global_gain = 1\<rparr>"

subsection \<open>The filter\<close>

record coefs =
  c_g :: f64
  c_k :: f64
  c_a1 :: f64
  c_a2 :: f64
  c_a3 :: f64
  c_m0 :: f64
  c_m1 :: f64
  c_m2 :: f64

definition svf :: "f64 \<Rightarrow> f64 \<Rightarrow> f64 \<Rightarrow> f64 \<Rightarrow> f64 \<Rightarrow> coefs" where
  "svf g k m0 m1 m2 =
     (let a1 = 1 / (1 + g * (g + k)); a2 = g * a1
      in \<lparr>c_g = g, c_k = k, c_a1 = a1, c_a2 = a2, c_a3 = g * a2, c_m0 = m0, c_m1 = m1, c_m2 = m2\<rparr>)"

definition design :: "libm \<Rightarrow> dsp_band \<Rightarrow> f64 \<Rightarrow> coefs" where
  "design lm b fs =
     (let f = fmin (fclamp (db_freq_hz b) FREQ_MIN FREQ_MAX) (NYQUIST_FRACTION * fs);
          bw = fclamp (db_bw_oct b) BW_MIN BW_MAX;
          gain = fmin (db_gain_lin b) GAIN_MAX;
          g = ftan lm (F_PI * f / fs);
          w0 = F_TAU * f / fs;
          warp = (if w0 \<le> FRAC_PI_2 then w0 / fsin lm w0 else FRAC_PI_2);
          q_inv = Num 2 * fsinh lm (F_LN_2 / Num 2 * bw * warp);
          a_shelf = fsqrt lm (fmax gain SHELF_GAIN_MIN);
          s = fmin (1 / (bw * bw)) SHELF_SLOPE_MAX;
          k_shelf = fsqrt lm (fmax ((a_shelf + 1 / a_shelf) * (1 / s - 1) + Num 2) 0)
      in case db_kind b of
           DHighPass \<Rightarrow> svf g q_inv 1 (- q_inv) (Num (- 1))
         | DPeak \<Rightarrow>
             if gain \<le> 0 then svf g q_inv 1 (- q_inv) 0
             else (let a = fsqrt lm gain; k = q_inv / a in svf g k 1 (k * (a * a - 1)) 0)
         | DLowShelf \<Rightarrow>
             svf (g / fsqrt lm a_shelf) k_shelf 1 (k_shelf * (a_shelf - 1)) (a_shelf * a_shelf - 1)
         | DHighShelf \<Rightarrow>
             svf (g * fsqrt lm a_shelf) k_shelf (a_shelf * a_shelf) (k_shelf * (1 - a_shelf) * a_shelf)
               (1 - a_shelf * a_shelf))"

definition magnitude :: "libm \<Rightarrow> coefs \<Rightarrow> f64 \<Rightarrow> f64 \<Rightarrow> f64" where
  "magnitude lm c fs freq =
     (let t = ftan lm (F_PI * freq / fs) / c_g c;
          nr = c_m0 c + c_m2 c - c_m0 c * t * t;
          ni = (c_m0 c * c_k c + c_m1 c) * t;
          dr = 1 - t * t;
          di = c_k c * t
      in fsqrt lm ((nr * nr + ni * ni) / (dr * dr + di * di)))"

definition flush :: "f64 \<Rightarrow> f64" where
  "flush x = (if \<bar>x\<bar> < DENORMAL then 0 else x)"

definition coefs_tick :: "coefs \<Rightarrow> f64 \<times> f64 \<Rightarrow> f64 \<Rightarrow> (f64 \<times> f64) \<times> f64" where
  "coefs_tick c s x =
     (let ic1 = fst s; ic2 = snd s;
          v3 = x - ic2;
          v1 = c_a1 c * ic1 + c_a2 c * v3;
          v2 = ic2 + c_a2 c * ic1 + c_a3 c * v3
      in ((flush (Num 2 * v1 - ic1), flush (Num 2 * v2 - ic2)),
          c_m0 c * x + c_m1 c * v1 + c_m2 c * v2))"

definition response_db :: "libm \<Rightarrow> eq_params \<Rightarrow> f64 \<Rightarrow> f64 \<Rightarrow> f64" where
  "response_db lm params sample_rate freq_hz =
     (let f = fmax (fmin freq_hz (lit (499 / 1000) * sample_rate)) 0;
          mag = foldl (\<lambda>m b. m * magnitude lm (design lm b sample_rate) sample_rate f)
                  (ep_global_gain params) (filter db_enabled (ep_bands params))
      in if lit (1 / 10 ^ 15) < mag then Num 20 * flog10 lm mag else Num (- 300))"

subsection \<open>One band\<close>

record band_state =
  bs_target :: dsp_band
  bs_freq :: ramp
  bs_gain :: ramp
  bs_bw :: ramp
  bs_wet :: ramp
  bs_coefs :: coefs
  bs_state :: "(f64 \<times> f64) list"
  bs_len :: nat
  bs_step :: u32

definition freq_key :: "libm \<Rightarrow> dsp_band \<Rightarrow> f64" where
  "freq_key lm b = flog2 lm (fmax (db_freq_hz b) FREQ_MIN)"

definition gain_key :: "libm \<Rightarrow> dsp_band \<Rightarrow> f64" where
  "gain_key lm b =
     (if 0 < db_gain_lin b then fmax (Num 20 * flog10 lm (db_gain_lin b)) RAMP_DB_MIN else RAMP_DB_MIN)"

definition bw_key :: "libm \<Rightarrow> dsp_band \<Rightarrow> f64" where
  "bw_key lm b = flog2 lm (fmax (db_bw_oct b) BW_MIN)"

definition band_new :: "libm \<Rightarrow> nat \<Rightarrow> dsp_band \<Rightarrow> f64 \<Rightarrow> nat \<Rightarrow> band_state" where
  "band_new lm ch b fs len =
     \<lparr>bs_target = b, bs_freq = ramp_new (freq_key lm b) len, bs_gain = ramp_new (gain_key lm b) len,
      bs_bw = ramp_new (bw_key lm b) len, bs_wet = ramp_new (if db_enabled b then 1 else 0) len,
      bs_coefs = design lm b fs, bs_state = replicate ch (0, 0), bs_len = len, bs_step = 0\<rparr>"

definition bypassed :: "band_state \<Rightarrow> bool" where
  "bypassed s = (feq (rp_value (bs_wet s)) 0 \<and> \<not> is_moving (bs_wet s))"

definition band_moving :: "band_state \<Rightarrow> bool" where
  "band_moving s = (is_moving (bs_freq s) \<or> is_moving (bs_gain s) \<or> is_moving (bs_bw s))"

definition band_set :: "libm \<Rightarrow> dsp_band \<Rightarrow> f64 \<Rightarrow> band_state \<Rightarrow> band_state" where
  "band_set lm b fs s =
     (let s1 =
        (if db_kind b \<noteq> db_kind (bs_target s) \<or> bypassed s
         then (band_new lm (length (bs_state s)) b fs (bs_len s))\<lparr>bs_wet := bs_wet s\<rparr>
         else
           (let same = feq (freq_key lm b) (rp_target (bs_freq s)) \<and> feq (gain_key lm b) (rp_target (bs_gain s))
                       \<and> feq (bw_key lm b) (rp_target (bs_bw s));
                s2 = s\<lparr>bs_target := b, bs_step := (if same then bs_step s else 0),
                       bs_freq := ramp_set (bs_freq s) (freq_key lm b),
                       bs_gain := ramp_set (bs_gain s) (gain_key lm b),
                       bs_bw := ramp_set (bs_bw s) (bw_key lm b)\<rparr>
            in if band_moving s2 then s2 else s2\<lparr>bs_coefs := design lm b fs\<rparr>))
      in s1\<lparr>bs_wet := ramp_set (bs_wet s1) (if db_enabled b then 1 else 0)\<rparr>)"

definition band_advance :: "libm \<Rightarrow> f64 \<Rightarrow> band_state \<Rightarrow> band_state" where
  "band_advance lm fs s =
     (let s1 = s\<lparr>bs_wet := fst (ramp_tick (bs_wet s))\<rparr>;
          s2 =
            (if band_moving s1
             then
               let (fr, f) = ramp_tick (bs_freq s1); (gr, db) = ramp_tick (bs_gain s1);
                   (br, bw) = ramp_tick (bs_bw s1);
                   s3 = s1\<lparr>bs_freq := fr, bs_gain := gr, bs_bw := br, bs_step := bs_step s1 + 1\<rparr>
               in if \<not> band_moving s3 then s3\<lparr>bs_coefs := design lm (bs_target s3) fs\<rparr>
                  else if bs_step s3 mod DESIGN_EVERY = 0
                  then s3\<lparr>bs_coefs := design lm ((bs_target s3)
                         \<lparr>db_freq_hz := fexp2 lm f, db_gain_lin := powf lm (Num 10) (db / Num 20),
                          db_bw_oct := fexp2 lm bw\<rparr>) fs\<rparr>
                  else s3
             else s1)
      in if bypassed s2 then s2\<lparr>bs_state := map (\<lambda>_. (0, 0)) (bs_state s2)\<rparr> else s2)"

definition band_tick :: "nat \<Rightarrow> f64 \<Rightarrow> band_state \<Rightarrow> band_state \<times> f64" where
  "band_tick ch x s =
     (let wet = rp_value (bs_wet s) in
      if feq wet 0 then (s, x)
      else case lget (bs_state s) ch of
        None \<Rightarrow> (s, x)
      | Some st \<Rightarrow>
          (let (st', y) = coefs_tick (bs_coefs s) st x
           in (s\<lparr>bs_state := (bs_state s)[ch := st']\<rparr>, if feq wet 1 then y else x + wet * (y - x))))"

subsection \<open>The equalizer\<close>

record equalizer =
  e_sample_rate :: f64
  e_bands :: "band_state list"
  e_global :: ramp

text \<open>\<open>for (x, y) in xs.iter_mut().zip(ys)\<close>: elements of \<open>xs\<close> without a partner stay.\<close>

definition zip_into :: "('a \<Rightarrow> 'b \<Rightarrow> 'a) \<Rightarrow> 'a list \<Rightarrow> 'b list \<Rightarrow> 'a list" where
  "zip_into f xs ys = map2 f xs ys @ drop (length ys) xs"

definition gain_valid :: "f64 \<Rightarrow> bool" where
  "gain_valid g = (is_finite g \<and> 0 \<le> g)"

definition eq_new :: "libm \<Rightarrow> nat \<Rightarrow> eq_params \<Rightarrow> f64 \<Rightarrow> equalizer" where
  "eq_new lm ch params sample_rate =
     (let len = samples EQ_MS sample_rate
      in \<lparr>e_sample_rate = sample_rate,
          e_bands = zip_into (\<lambda>s b. if is_valid b then band_new lm ch b sample_rate len else s)
                      (map (\<lambda>b. band_new lm ch b sample_rate len) (ep_bands standard_flat)) (ep_bands params),
          e_global = ramp_new (if gain_valid (ep_global_gain params) then ep_global_gain params else 1) len\<rparr>)"

definition eq_set :: "libm \<Rightarrow> eq_params \<Rightarrow> equalizer \<Rightarrow> equalizer \<times> bool" where
  "eq_set lm params e =
     (e\<lparr>e_bands := zip_into (\<lambda>s b. if is_valid b then band_set lm b (e_sample_rate e) s else s)
                     (e_bands e) (ep_bands params),
        e_global := (if gain_valid (ep_global_gain params) then ramp_set (e_global e) (ep_global_gain params)
                     else e_global e)\<rparr>,
      list_all is_valid (take (length (e_bands e)) (ep_bands params)) \<and> gain_valid (ep_global_gain params))"

definition eq_targets :: "equalizer \<Rightarrow> eq_params" where
  "eq_targets e = \<lparr>ep_bands = map bs_target (e_bands e), ep_global_gain = rp_target (e_global e)\<rparr>"

definition is_identity :: "equalizer \<Rightarrow> bool" where
  "is_identity e =
     (\<not> is_moving (e_global e) \<and> feq (rp_value (e_global e)) 1 \<and> list_all bypassed (e_bands e))"

definition eq_reset :: "equalizer \<Rightarrow> equalizer" where
  "eq_reset e = e\<lparr>e_bands := map (\<lambda>s. s\<lparr>bs_state := map (\<lambda>_. (0, 0)) (bs_state s)\<rparr>) (e_bands e)\<rparr>"

text \<open>One sample of one channel through every band in turn.\<close>

fun bands_tick :: "nat \<Rightarrow> band_state list \<Rightarrow> f64 \<Rightarrow> band_state list \<times> f64" where
  "bands_tick ch [] v = ([], v)"
| "bands_tick ch (s # ss) v =
     (let (s', v') = band_tick ch v s; (ss', v'') = bands_tick ch ss v' in (s' # ss', v''))"

text \<open>One frame: every band advances, then the channels in order.\<close>

fun chans_tick :: "f64 \<Rightarrow> nat \<Rightarrow> f64 list \<Rightarrow> band_state list \<Rightarrow> band_state list \<times> f64 list" where
  "chans_tick g ch [] ss = (ss, [])"
| "chans_tick g ch (x # xs) ss =
     (let (ss', v) = bands_tick ch ss x; (ss'', vs) = chans_tick g (Suc ch) xs ss' in (ss'', v * g # vs))"

definition eq_frame :: "libm \<Rightarrow> f64 list \<Rightarrow> equalizer \<Rightarrow> equalizer \<times> f64 list" where
  "eq_frame lm xs e =
     (let bands = map (band_advance lm (e_sample_rate e)) (e_bands e);
          (global, g) = ramp_tick (e_global e);
          (bands', ys) = chans_tick g 0 xs bands
      in (e\<lparr>e_bands := bands', e_global := global\<rparr>, ys))"

text \<open>A block is the list of its frames.\<close>

fun eq_process :: "libm \<Rightarrow> f64 list list \<Rightarrow> equalizer \<Rightarrow> equalizer \<times> f64 list list" where
  "eq_process lm [] e = (e, [])"
| "eq_process lm (xs # frames) e =
     (let (e', ys) = eq_frame lm xs e; (e'', yss) = eq_process lm frames e' in (e'', ys # yss))"

end
