(* ===== verification/RtCmd.thy ===== *)
theory RtCmd
  imports Shape Topology Equalizer
begin

text \<open>
  What the control core sends to the RT thread: the DSP form of the state's values
  (\<open>params.rs\<close>), the commands and their grouping (\<open>cmd.rs\<close>), and the limits of the crate
  (\<open>lib.rs\<close>). A ring of the \<open>rtrb\<close> crate is seen from its two ends: the producer's free slots
  are an argument, the consumer's unread commands a list.
\<close>

subsection \<open>Limits\<close>

definition SAMPLE_RATE :: nat where "SAMPLE_RATE = 96000"
definition SEG :: nat where "SEG = 256"
definition MAX_CMDS_PER_BLOCK :: nat where "MAX_CMDS_PER_BLOCK = 512"
definition TALKBACK_GAIN :: f64 where "TALKBACK_GAIN = lit (379934 / 10 ^ 6)"
definition TEST_CAP :: f64 where "TEST_CAP = lit (1 / 10)"
definition MAX_BATCH :: nat where "MAX_BATCH = 256"
definition MAX_SOLO :: nat where "MAX_SOLO = 64"

definition TEST_HZ :: range where "TEST_HZ = (Num 20, Num 20000)"
definition TEST_DBFS :: range where "TEST_DBFS = (Num (- 120), Num (- 20))"
definition TEST_TTL_S :: range where "TEST_TTL_S = (lit (1 / 1000), Num 120)"

subsection \<open>DSP parameters\<close>

fun dsp_kind :: "band_kind \<Rightarrow> dsp_kind" where
  "dsp_kind HighPass = DHighPass"
| "dsp_kind LowShelf = DLowShelf"
| "dsp_kind Peak = DPeak"
| "dsp_kind HighShelf = DHighShelf"

definition eq_params :: "libm \<Rightarrow> eq_state \<Rightarrow> eq_params" where
  "eq_params lm e =
     \<lparr>ep_bands = map (\<lambda>b. \<lparr>db_kind = dsp_kind (b_kind b), db_enabled = b_enabled b,
         db_freq_hz = b_freq_hz b, db_gain_lin = db_to_lin lm (b_gain_db b), db_bw_oct = b_bw_oct b\<rparr>)
         (eq_bands e),
      ep_global_gain = db_to_lin lm (eq_gain_db e)\<rparr>"

record input_params =
  ip_trim :: f64
  ip_muted :: bool
  ip_processing :: bool

definition input_params :: "libm \<Rightarrow> input_state \<Rightarrow> input_params" where
  "input_params lm s =
     \<lparr>ip_trim = db_to_lin lm (in_trim_db s), ip_muted = in_muted s, ip_processing = in_processing s\<rparr>"

subsection \<open>Commands\<close>

type_synonym hil_mask = "bool list"

datatype rt_op =
    Nop
  | RInput u16 input_params
  | RInputEq u16 eq_params
  | RMixOut u16 f64 bool
  | RMixEq u16 eq_params
  | RLimiter u16 bool f64
  | RResetLimiter u16
  | RLevel u16 u16 f64 f64 bool
  | RGroup u16 u16 f64 bool
  | RGroupEq u16 u16 eq_params
  | RListen u8 "u16 option"
  | RTestSignal u16 f64 f64 u64
  | RHilTestSignal u16 f64 f64 u64 hil_mask bool
  | RStopTestSignal
  | RFadeOut
  | RPanic
  | RArm

record rt_cmd =
  rc_at :: u64
  rc_group :: u16
  rc_op :: rt_op

text \<open>
  \<open>push_group\<close>: what it commits to a ring with \<open>slots\<close> free slots, or nothing. The ring takes a
  chunk only when all of it fits.
\<close>

definition push_group :: "nat \<Rightarrow> u64 \<Rightarrow> rt_op list \<Rightarrow> rt_cmd list option" where
  "push_group slots at_time ops =
     (if length ops \<ge> 2 ^ 16 \<or> length ops = 0 \<or> slots < length ops then None
      else Some (map (\<lambda>(k, op). \<lparr>rc_at = at_time,
             rc_group = (if k = 0 then of_nat (length ops) else 0), rc_op = op\<rparr>) (enumerate 0 ops)))"

text \<open>\<open>ix\<close>: an index as \<open>u16\<close>, saturating.\<close>

definition ix :: "nat \<Rightarrow> u16" where
  "ix i = (if i < 2 ^ 16 then of_nat i else 65535)"

lemma unat_ix: "i < 2 ^ 16 \<Longrightarrow> unat (ix i) = i"
  by (simp add: ix_def unat_of_nat take_bit_nat_eq_self)

lemma ix_eq_iff: "i < 2 ^ 16 \<Longrightarrow> j < 2 ^ 16 \<Longrightarrow> ix i = ix j \<longleftrightarrow> i = j"
  by (metis unat_ix)

end
