(* ===== verification/DemoSite.thy ===== *)
theory DemoSite
  imports Topology
begin

text \<open>
  A small site in the shape of \<open>config/test-site.toml\<close>: two microphones, a talkback input, a stem
  group, two sets that hear each other as peers, and the engineer who hears both. The witnesses
  of the properties use it; its compilation is evaluated here by the kernel.
\<close>

definition demo_site :: site where
  "demo_site =
     \<lparr>st_channels = 64, st_engineer = ''engineer'',
      st_inputs =
        [\<lparr>si_id = ''mic1'', si_rx = [1], si_talkback = False\<rparr>,
         \<lparr>si_id = ''keys'', si_rx = [2, 3], si_talkback = False\<rparr>,
         \<lparr>si_id = ''eng_mic'', si_rx = [4], si_talkback = True\<rparr>],
      st_groups = [\<lparr>sg_id = ''stems'', sg_inputs = [''keys'']\<rparr>],
      st_mixes =
        [\<lparr>sm_id = ''member1'', sm_tx = [1, 2], sm_mixes = [], sm_peers = [''member2'']\<rparr>,
         \<lparr>sm_id = ''member2'', sm_tx = [3, 4], sm_mixes = [], sm_peers = [''member1'']\<rparr>,
         \<lparr>sm_id = ''engineer'', sm_tx = [5, 6], sm_mixes = [''member1'', ''member2''], sm_peers = []\<rparr>]\<rparr>"

definition demo_topo :: topology where
  "demo_topo = projr (compile (\<lambda>_. ''hash'') demo_site)"

lemma demo_compiles: "compile (\<lambda>_. ''hash'') demo_site = Inr demo_topo"
proof -
  have "isl (compile (\<lambda>_. ''hash'') demo_site) = False" by code_simp
  then show ?thesis by (cases "compile (\<lambda>_. ''hash'') demo_site") (simp_all add: demo_topo_def)
qed

lemma demo_sizes:
  "length (t_mixes demo_topo) = 3" "length (t_inputs demo_topo) = 3"
  "levels demo_topo 0 = 4" "m_mixes (t_mixes demo_topo ! 2) = [0, 1]" "m_peers (t_mixes demo_topo ! 0) = [1]"
  by code_simp+

text \<open>A mathematics library, for the witnesses.\<close>

definition demo_libm :: libm where
  "demo_libm = \<lparr>powf = (\<lambda>_ _. 1), fsin = (\<lambda>_. 0), ftan = (\<lambda>_. 1), fsinh = (\<lambda>_. 1), fexp = (\<lambda>_. Num (1 / 2)),
     fexp2 = (\<lambda>_. 1), flog2 = (\<lambda>_. 0), flog10 = (\<lambda>_. 0), fsqrt = (\<lambda>_. 1)\<rparr>"

lemma demo_indices:
  "mix_index demo_topo ''member1'' = Some 0" "mix_index demo_topo ''engineer'' = Some 2" "mix_index demo_topo ''nobody'' = None"
  "t_engineer demo_topo = 2" "slot demo_topo 0 (SrcInput ''mic1'') = Some 0" "length (t_groups demo_topo) = 1"
  "levels demo_topo 1 = 4" "levels demo_topo 2 = 5"
  by code_simp+

end
