(* ===== verification/TopologyProps.thy ===== *)
theory TopologyProps
  imports DemoSite
begin

text \<open>
  What a successful \<open>compile\<close> guarantees: ids and card channels are unique, every group owns its
  inputs and the rest are direct, a mix hears whole only earlier mixes and as peers only other
  stereo sets, the render order has every mix after what it reads, and no mix hears itself back.
  The interface the control core uses of the level slots is the locale \<open>level_slots\<close>.
\<close>

subsection \<open>Ids and channels\<close>

lemma check_ids_ok:
  "fold_r check_id ids S = Inr S' \<Longrightarrow> distinct ids \<and> set ids \<inter> S = {} \<and> (\<forall>i \<in> set ids. valid_id i)"
proof (induction ids arbitrary: S)
  case (Cons i ids)
  then obtain T where T: "check_id i S = Inr T" "fold_r check_id ids T = Inr S'" by auto
  from T(1) have "T = insert i S" "i \<notin> S" "valid_id i"
    by (auto simp: check_id_def split: if_splits)
  with Cons.IH [OF T(2)] show ?case by auto
qed simp

definition chans_ok :: "u16 \<Rightarrow> u16 list \<Rightarrow> bool" where
  "chans_ok chmax cs = (distinct cs \<and> (\<forall>c \<in> set cs. 0 < c \<and> c \<le> chmax))"

lemma check_channels_ok:
  "check_channels i cs chmax used = Inr used' \<Longrightarrow>
     chans_ok chmax cs \<and> set cs \<inter> used = {} \<and> used' = used \<union> set cs"
  unfolding check_channels_def
proof (induction cs arbitrary: used)
  case (Cons c cs)
  then show ?case by (auto simp: chans_ok_def word_gt_0 split: if_splits)
qed (simp add: chans_ok_def)

lemma index_map_Some:
  "index_map ids x = Some i \<Longrightarrow> i < length ids \<and> ids ! i = x"
  unfolding index_map_def by (auto dest!: map_of_SomeD simp: set_zip)

lemma index_map_nth: "distinct ids \<Longrightarrow> i < length ids \<Longrightarrow> index_map ids (ids ! i) = Some i"
  unfolding index_map_def
  by (rule map_of_is_SomeI) (auto simp: set_zip simp flip: rev_map)

lemma index_map_iff: "distinct ids \<Longrightarrow> index_map ids x = Some i \<longleftrightarrow> i < length ids \<and> ids ! i = x"
  using index_map_Some index_map_nth by blast

subsection \<open>Inputs\<close>

definition inputs_inv :: "u16 \<Rightarrow> in_acc \<Rightarrow> bool" where
  "inputs_inv chmax s =
     (ia_used s = set (ia_rx s) \<and> chans_ok chmax (ia_rx s) \<and>
      (\<forall>n \<in> set (ia_nodes s). fst (n_rx n) < length (ia_rx s) \<and> snd (n_rx n) < length (ia_rx s) \<and>
         n_group n = None) \<and>
      length (filter n_talkback (ia_nodes s)) = (if ia_talkback s then 1 else 0) \<and>
      length (ia_nodes s) \<le> length (ia_rx s))"

lemma input_step_inv:
  assumes "inputs_inv chmax s" and "input_step chmax inp s = Inr s'"
  shows "inputs_inv chmax s'"
proof -
  from assms(2) obtain used where
    len: "1 \<le> length (si_rx inp)" "length (si_rx inp) \<le> 2" and
    used: "check_channels (si_id inp) (si_rx inp) chmax (ia_used s) = Inr used"
    and s': "s' = \<lparr>ia_rx = ia_rx s @ si_rx inp, ia_used = used,
               ia_talkback = (ia_talkback s \<or> si_talkback inp),
               ia_nodes = ia_nodes s @
                 [\<lparr>n_id = si_id inp, n_rx = (length (ia_rx s), if length (si_rx inp) = 2 then length (ia_rx s) + 1 else length (ia_rx s)),
                   n_stereo = (length (si_rx inp) = 2), n_talkback = si_talkback inp, n_group = None\<rparr>]\<rparr>"
    and tb: "\<not> (si_talkback inp \<and> ia_talkback s)"
    by (auto simp: input_step_def Let_def split: if_splits)
  with assms(1) check_channels_ok [OF used] show ?thesis
    by (auto simp: inputs_inv_def chans_ok_def)
qed

lemma input_step_id:
  "input_step chmax inp s = Inr s' \<Longrightarrow> map n_id (ia_nodes s') = map n_id (ia_nodes s) @ [si_id inp]"
  by (auto simp: input_step_def Let_def split: if_splits)

lemma compile_inputs_inv: "compile_inputs s = Inr ia \<Longrightarrow> inputs_inv (st_channels s) ia"
  unfolding compile_inputs_def
  by (erule fold_r_invariant) (auto simp: inputs_inv_def [of _ "\<lparr>ia_rx = _, ia_used = _, ia_talkback = _, ia_nodes = _\<rparr>"] chans_ok_def intro: input_step_inv)

lemma compile_inputs_ids:
  assumes "compile_inputs s = Inr ia"
  shows "map n_id (ia_nodes ia) = map si_id (st_inputs s)"
proof -
  have "fold_r (input_step c) xs a = Inr a' \<Longrightarrow> map n_id (ia_nodes a') = map n_id (ia_nodes a) @ map si_id xs" for c xs a a'
    by (induction xs arbitrary: a) (auto dest!: input_step_id)
  from this [OF assms [unfolded compile_inputs_def]] show ?thesis by simp
qed

subsection \<open>Groups\<close>

text \<open>Group \<open>g\<close> owns exactly the inputs that name it.\<close>

definition groups_inv :: "nat \<Rightarrow> input_node list \<times> group_node list \<Rightarrow> bool" where
  "groups_inv n s =
     (length (snd s) = n \<and>
      (\<forall>i < length (fst s). \<forall>g. n_group (fst s ! i) = Some g \<longrightarrow> g < n) \<and>
      (\<forall>g < n. sorted_wrt (<) (g_inputs (snd s ! g)) \<and>
         set (g_inputs (snd s ! g)) = {i. i < length (fst s) \<and> n_group (fst s ! i) = Some g}))"

definition same_but_group :: "input_node list \<Rightarrow> input_node list \<Rightarrow> bool" where
  "same_but_group a b =
     (length a = length b \<and> (\<forall>i < length a. (a ! i)\<lparr>n_group := None\<rparr> = (b ! i)\<lparr>n_group := None\<rparr>))"

lemma same_but_group_update:
  "same_but_group a b \<Longrightarrow> same_but_group a (b[i := (b ! i)\<lparr>n_group := g\<rparr>])"
  by (cases "i < length b") (auto simp: same_but_group_def nth_list_update list_update_beyond)

lemma same_but_group_ids: "same_but_group a b \<Longrightarrow> map n_id a = map n_id b"
proof (rule nth_equalityI)
  fix i assume "same_but_group a b" and "i < length (map n_id a)"
  then have "n_id ((a ! i)\<lparr>n_group := None\<rparr>) = n_id ((b ! i)\<lparr>n_group := None\<rparr>)" "i < length b" "i < length a"
    by (auto simp: same_but_group_def)
  then show "map n_id a ! i = map n_id b ! i" by simp
qed (simp add: same_but_group_def)

lemma same_but_group_trans: "same_but_group a b \<Longrightarrow> same_but_group b c \<Longrightarrow> same_but_group a c"
  by (simp add: same_but_group_def)

definition members_inv :: "input_node list \<Rightarrow> nat \<Rightarrow> input_node list \<times> nat list \<Rightarrow> bool" where
  "members_inv old g s =
     (same_but_group old (fst s) \<and> distinct (snd s) \<and>
      (\<forall>i < length old. n_group (fst s ! i) = (if i \<in> set (snd s) then Some g else n_group (old ! i))) \<and>
      (\<forall>i \<in> set (snd s). i < length old \<and> n_group (old ! i) = None))"

lemma same_length: "same_but_group a b \<Longrightarrow> length a = length b"
  by (simp add: same_but_group_def)

lemma member_step_inv:
  assumes "members_inv old g s" and "member_step gid g pos name s = Inr s'"
  shows "members_inv old g s'"
proof -
  have len: "length (fst s) = length old"
    using assms(1) by (auto simp: members_inv_def dest: same_length)
  from assms(2) obtain i where i: "pos name = Some i"
    by (cases "pos name") (auto simp: member_step_def)
  show ?thesis
  proof (cases "i < length (fst s)")
    case False
    with assms i show ?thesis by (simp add: member_step_def lget_def)
  next
    case True
    have step: "n_group (fst s ! i) = None"
      "s' = ((fst s)[i := (fst s ! i)\<lparr>n_group := Some g\<rparr>], snd s @ [i])"
      using assms(2) i True by (auto simp: member_step_def lget_def split: if_splits)
    with assms(1) len True have "i \<notin> set (snd s)" "n_group (old ! i) = None" "i < length old"
      by (auto simp: members_inv_def split: if_splits)
    moreover have "same_but_group old (fst s')"
      using step assms(1) by (simp add: members_inv_def same_but_group_update)
    ultimately show ?thesis
      using step True assms(1) len by (simp add: members_inv_def nth_list_update)
  qed
qed

lemma group_step_inv:
  assumes "groups_inv g s" and "group_step pos (g, grp) s = Inr s'"
  shows "groups_inv (Suc g) s' \<and> same_but_group (fst s) (fst s') \<and> map g_id (snd s') = map g_id (snd s) @ [sg_id grp]"
proof -
  from assms(2) obtain r where
    r: "fold_r (member_step (sg_id grp) g pos) (sg_inputs grp) (fst s, []) = Inr r"
    and s': "s' = (fst r, snd s @ [\<lparr>g_id = sg_id grp, g_inputs = sort (snd r)\<rparr>])"
    by (auto simp: group_step_def Let_def split: if_splits)
  have "members_inv (fst s) g (fst s, [])"
    by (simp add: members_inv_def same_but_group_def)
  from fold_r_invariant [OF r, where P = "members_inv (fst s) g", OF this] have m: "members_inv (fst s) g r"
    by (auto intro: member_step_inv)
  then have len: "length (fst r) = length (fst s)" and sbg: "same_but_group (fst s) (fst r)"
    by (auto simp: members_inv_def dest: same_length)
  have fresh: "n_group (fst s ! i) \<noteq> Some g" if "i < length (fst s)" for i
    using assms(1) that by (auto simp: groups_inv_def)
  have "groups_inv (Suc g) s'"
    unfolding groups_inv_def s' fst_conv snd_conv
  proof (intro conjI allI impI)
    fix i h assume "i < length (fst r)" "n_group (fst r ! i) = Some h"
    then show "h < Suc g" using m assms(1) len
      by (fastforce simp: members_inv_def groups_inv_def split: if_splits)
  next
    fix h assume h: "h < Suc g"
    show "sorted_wrt (<) (g_inputs ((snd s @ [\<lparr>g_id = sg_id grp, g_inputs = sort (snd r)\<rparr>]) ! h))"
      using h m assms(1) by (auto simp: groups_inv_def members_inv_def nth_append strict_sorted_iff less_Suc_eq)
    show "set (g_inputs ((snd s @ [\<lparr>g_id = sg_id grp, g_inputs = sort (snd r)\<rparr>]) ! h)) =
        {i. i < length (fst r) \<and> n_group (fst r ! i) = Some h}"
    proof (cases "h = g")
      case True
      with assms(1) fresh m len show ?thesis
        by (auto simp: groups_inv_def members_inv_def nth_append split: if_splits)
    next
      case False
      with h assms(1) m len show ?thesis
        by (auto simp: groups_inv_def members_inv_def nth_append less_Suc_eq split: if_splits)
    qed
  qed (use assms(1) in \<open>simp add: groups_inv_def\<close>)
  with s' sbg show ?thesis by simp
qed

lemma compile_groups_ok:
  assumes "compile_groups s inputs = Inr ig" and "\<forall>n \<in> set inputs. n_group n = None"
  shows "groups_inv (length (st_groups s)) ig \<and> same_but_group inputs (fst ig) \<and>
    map g_id (snd ig) = map sg_id (st_groups s)"
proof -
  let ?P = "\<lambda>g t. groups_inv g t \<and> same_but_group inputs (fst t) \<and> map g_id (snd t) = map sg_id (take g (st_groups s))"
  have "?P (0 + length (st_groups s)) ig"
  proof (rule fold_r_enumerate [OF assms(1) [unfolded compile_groups_def], where P = ?P])
    show "?P 0 (inputs, [])"
      using assms(2) by (simp add: groups_inv_def same_but_group_def)
    fix i t t'
    assume i: "i < length (st_groups s)" and P: "?P (0 + i) t"
      and st: "group_step (index_map (map si_id (st_inputs s))) (0 + i, st_groups s ! i) t = Inr t'"
    from group_step_inv [of i t, OF _ st [simplified]] P i
    show "?P (Suc (0 + i)) t'"
      by (auto simp: take_Suc_conv_app_nth intro: same_but_group_trans)
  qed
  then show ?thesis by simp
qed

subsection \<open>Mixes\<close>

definition heard_ok :: "mix_node list \<Rightarrow> bool" where
  "heard_ok ms = (\<forall>m < length ms. distinct (m_mixes (ms ! m)) \<and> (\<forall>h \<in> set (m_mixes (ms ! m)). h < m))"

text \<open>Every TX slot belongs to exactly one mix.\<close>

definition tx_ok :: "nat \<Rightarrow> mix_node list \<Rightarrow> bool" where
  "tx_ok n ms =
     ((\<forall>j < n. \<exists>m < length ms. tx_has (ms ! m) j) \<and>
      (\<forall>m < length ms. \<forall>j. tx_has (ms ! m) j \<longrightarrow> j < n) \<and>
      (\<forall>a < length ms. \<forall>b < length ms. \<forall>j. tx_has (ms ! a) j \<longrightarrow> tx_has (ms ! b) j \<longrightarrow> a = b))"

definition mixes_inv :: "u16 \<Rightarrow> nat \<Rightarrow> mix_acc \<Rightarrow> bool" where
  "mixes_inv chmax n s =
     (length (ma_nodes s) = n \<and> ma_used s = set (ma_tx s) \<and> chans_ok chmax (ma_tx s) \<and>
      (\<forall>name i. ma_declared s name = Some i \<longrightarrow> i < n) \<and>
      heard_ok (ma_nodes s) \<and> (\<forall>nd \<in> set (ma_nodes s). m_peers nd = []) \<and>
      tx_ok (length (ma_tx s)) (ma_nodes s))"

lemma heard_fold:
  assumes "fold_r (heard_step mid d) names [] = Inr heard"
  shows "distinct heard \<and> (\<forall>h \<in> set heard. \<exists>name. d name = Some h)"
proof (rule fold_r_invariant [OF assms])
  fix name hs hs'
  assume "distinct hs \<and> (\<forall>h \<in> set hs. \<exists>name. d name = Some h)" "heard_step mid d name hs = Inr hs'"
  then show "distinct hs' \<and> (\<forall>h \<in> set hs'. \<exists>name. d name = Some h)"
    by (cases "d name") (auto simp: heard_step_def split: if_splits)
qed simp

lemma heard_ok_snoc:
  "heard_ok ms \<Longrightarrow> distinct (m_mixes nd) \<Longrightarrow> \<forall>h \<in> set (m_mixes nd). h < length ms \<Longrightarrow> heard_ok (ms @ [nd])"
  by (auto simp: heard_ok_def nth_append less_Suc_eq)

lemma tx_ok_snoc:
  assumes "tx_ok n ms" and nd: "\<And>j. tx_has nd j \<longleftrightarrow> n \<le> j \<and> j < n'" and "n \<le> n'"
  shows "tx_ok n' (ms @ [nd])"
proof -
  let ?ms = "ms @ [nd]"
  have old: "j < n" if "a < length ms" "tx_has (ms ! a) j" for a j
    using assms(1) that by (auto simp: tx_ok_def)
  have nth: "tx_has (?ms ! a) j \<longleftrightarrow> a < length ms \<and> tx_has (ms ! a) j \<or> a = length ms \<and> n \<le> j \<and> j < n'"
    if "a < Suc (length ms)" for a j
    using that by (cases "a < length ms") (auto simp: nth_append nd)
  have "\<exists>m < Suc (length ms). tx_has (?ms ! m) j" if "j < n'" for j
  proof (cases "j < n")
    case True
    then obtain m where "m < length ms" "tx_has (ms ! m) j"
      using assms(1) by (auto simp: tx_ok_def)
    then show ?thesis by (intro exI [of _ m]) (auto simp: nth_append)
  next
    case False
    then show ?thesis using that nth [of "length ms" j] by (intro exI [of _ "length ms"]) auto
  qed
  moreover have "j < n'" if "m < Suc (length ms)" "tx_has (?ms ! m) j" for m j
    using that nth [of m j] old [of m j] assms(3) by auto
  moreover have "a = b" if "a < Suc (length ms)" "b < Suc (length ms)" "tx_has (?ms ! a) j" "tx_has (?ms ! b) j" for a b j
  proof -
    have "a < length ms \<Longrightarrow> b < length ms \<Longrightarrow> tx_has (ms ! a) j \<Longrightarrow> tx_has (ms ! b) j \<Longrightarrow> a = b"
      using assms(1) by (auto simp: tx_ok_def)
    then show ?thesis
      using that nth [of a j] nth [of b j] old [of a j] old [of b j] by auto
  qed
  ultimately show ?thesis by (simp add: tx_ok_def)
qed

lemma mix_step_inv:
  assumes "mixes_inv chmax m s" and "mix_step chmax (m, mix) s = Inr s'"
  shows "mixes_inv chmax (Suc m) s' \<and> map m_id (ma_nodes s') = map m_id (ma_nodes s) @ [sm_id mix]"
proof -
  define mono where "mono = (length (sm_tx mix) = 1)"
  from assms(2) obtain used heard where
    len: "1 \<le> length (sm_tx mix)" "length (sm_tx mix) \<le> 2"
    and used: "check_channels (sm_id mix) (sm_tx mix) chmax (ma_used s) = Inr used"
    and heard: "fold_r (heard_step (sm_id mix) (ma_declared s)) (sm_mixes mix) [] = Inr heard"
    and s': "s' = \<lparr>ma_tx = ma_tx s @ sm_tx mix, ma_used = used,
               ma_declared = (ma_declared s)(sm_id mix \<mapsto> m),
               ma_nodes = ma_nodes s @
                 [\<lparr>m_id = sm_id mix, m_tx = (Some (length (ma_tx s)), if mono then None else Some (length (ma_tx s) + 1)),
                   m_mono = mono, m_mixes = heard, m_peers = [], m_shadow = False\<rparr>]\<rparr>"
    by (auto simp: mix_step_def Let_def mono_def split: if_splits)
  let ?nd = "last (ma_nodes s')"
  have nd: "ma_nodes s' = ma_nodes s @ [?nd]" "m_mixes ?nd = heard" "m_peers ?nd = []"
    by (simp_all add: s')
  have "tx_has ?nd j \<longleftrightarrow> length (ma_tx s) \<le> j \<and> j < length (ma_tx s')" for j
    using len by (auto simp: s' tx_has_def mono_def)
  then have "tx_ok (length (ma_tx s')) (ma_nodes s')"
    using assms(1) by (subst nd(1), intro tx_ok_snoc) (auto simp: mixes_inv_def s')
  moreover have "heard_ok (ma_nodes s')"
    using assms(1) heard_fold [OF heard] nd
    by (subst nd(1), intro heard_ok_snoc) (auto simp: mixes_inv_def)
  ultimately have "mixes_inv chmax (Suc m) s'"
    using assms(1) check_channels_ok [OF used]
    by (auto simp: mixes_inv_def chans_ok_def s' less_Suc_eq split: if_splits)
  then show ?thesis by (simp add: s')
qed

lemma compile_mixes_ok:
  assumes "compile_mixes s = Inr a"
  shows "mixes_inv (st_channels s) (length (st_mixes s)) a \<and> map m_id (ma_nodes a) = map sm_id (st_mixes s)"
proof -
  let ?P = "\<lambda>m t. mixes_inv (st_channels s) m t \<and> map m_id (ma_nodes t) = map sm_id (take m (st_mixes s))"
  have "?P (0 + length (st_mixes s)) a"
  proof (rule fold_r_enumerate [OF assms [unfolded compile_mixes_def], where P = ?P])
    show "?P 0 \<lparr>ma_tx = [], ma_used = {}, ma_declared = Map.empty, ma_nodes = []\<rparr>"
      by (simp add: mixes_inv_def chans_ok_def heard_ok_def tx_ok_def)
    fix i t t'
    assume "i < length (st_mixes s)" and "?P (0 + i) t"
      and "mix_step (st_channels s) (0 + i, st_mixes s ! i) t = Inr t'"
    then show "?P (Suc (0 + i)) t'"
      using mix_step_inv [of "st_channels s" i t "st_mixes s ! i" t'] by (auto simp: take_Suc_conv_app_nth)
  qed
  then show ?thesis by simp
qed

subsection \<open>Peers\<close>

definition peers_ok :: "nat \<Rightarrow> mix_node list \<Rightarrow> bool" where
  "peers_ok engineer ms =
     (\<forall>m < length ms. distinct (m_peers (ms ! m)) \<and>
        (m_peers (ms ! m) \<noteq> [] \<longrightarrow> m \<noteq> engineer \<and> \<not> m_mono (ms ! m)) \<and>
        (\<forall>p \<in> set (m_peers (ms ! m)). p < length ms \<and> p \<noteq> m \<and> p \<noteq> engineer \<and> \<not> m_mono (ms ! p) \<and>
           p \<notin> set (m_mixes (ms ! m))))"

definition same_but_peers :: "mix_node list \<Rightarrow> mix_node list \<Rightarrow> bool" where
  "same_but_peers a b =
     (length a = length b \<and>
      (\<forall>i < length a. m_id (a ! i) = m_id (b ! i) \<and> m_tx (a ! i) = m_tx (b ! i) \<and>
         m_mono (a ! i) = m_mono (b ! i) \<and> m_mixes (a ! i) = m_mixes (b ! i)))"

lemma is_stereo_iff: "is_stereo ms s \<longleftrightarrow> s < length ms \<and> \<not> m_mono (ms ! s)"
  by (auto simp: is_stereo_def lget_def)

lemma peer_fold:
  assumes "fold_r (peer_step d ms engineer m mid) names [] = Inr peers"
  shows "distinct peers \<and> (peers \<noteq> [] \<longrightarrow> names \<noteq> []) \<and>
    (\<forall>p \<in> set peers. p \<noteq> m \<and> p \<noteq> engineer \<and> is_stereo ms p \<and> (m < length ms \<longrightarrow> p \<notin> set (m_mixes (ms ! m))))"
proof -
  let ?P = "\<lambda>ps. distinct ps \<and> (\<forall>p \<in> set ps. p \<noteq> m \<and> p \<noteq> engineer \<and> is_stereo ms p \<and>
      (m < length ms \<longrightarrow> p \<notin> set (m_mixes (ms ! m))))"
  have "?P peers"
    by (rule fold_r_invariant [OF assms, where P = ?P])
      (auto simp: peer_step_def lget_def split: option.splits if_splits)
  moreover have "names = [] \<Longrightarrow> peers = []" using assms by auto
  ultimately show ?thesis by blast
qed

lemma peers_step_inv:
  assumes "peers_ok engineer ms" and "peers_step d engineer (m, mix) ms = Inr ms'"
  shows "peers_ok engineer ms' \<and> same_but_peers ms ms'"
proof -
  from assms(2) obtain peers where
    g: "\<not> (sm_peers mix \<noteq> [] \<and> (m = engineer \<or> \<not> is_stereo ms m))"
    and f: "fold_r (peer_step d ms engineer m (sm_id mix)) (sm_peers mix) [] = Inr peers"
    and ms': "ms' = lmod ms m (\<lambda>n. n\<lparr>m_peers := peers\<rparr>)"
    by (auto simp: peers_step_def Let_def split: if_splits)
  have nth: "ms' ! i = (if m = i then (ms ! i)\<lparr>m_peers := peers\<rparr> else ms ! i)" if "i < length ms" for i
    using that by (simp add: ms' nth_lmod)
  have "same_but_peers ms ms'"
    using nth by (auto simp: same_but_peers_def ms')
  moreover have "peers_ok engineer ms'"
    unfolding peers_ok_def
  proof (intro allI impI)
    fix i assume "i < length ms'"
    then have i: "i < length ms" by (simp add: ms')
    have mono: "p < length ms \<Longrightarrow> m_mono (ms' ! p) = m_mono (ms ! p)" for p by (simp add: nth)
    have len: "length ms' = length ms" by (simp add: ms')
    show "distinct (m_peers (ms' ! i)) \<and>
        (m_peers (ms' ! i) \<noteq> [] \<longrightarrow> i \<noteq> engineer \<and> \<not> m_mono (ms' ! i)) \<and>
        (\<forall>p \<in> set (m_peers (ms' ! i)). p < length ms' \<and> p \<noteq> i \<and> p \<noteq> engineer \<and> \<not> m_mono (ms' ! p) \<and>
           p \<notin> set (m_mixes (ms' ! i)))"
      using i g peer_fold [OF f] assms(1) mono len
      by (cases "m = i") (auto simp: nth peers_ok_def is_stereo_iff)
  qed
  ultimately show ?thesis by blast
qed

lemma same_but_peers_trans: "same_but_peers a b \<Longrightarrow> same_but_peers b c \<Longrightarrow> same_but_peers a c"
  by (simp add: same_but_peers_def)

lemma compile_peers_ok:
  assumes "compile_peers s a engineer = Inr ms" and "\<forall>nd \<in> set (ma_nodes a). m_peers nd = []"
  shows "peers_ok engineer ms \<and> same_but_peers (ma_nodes a) ms"
proof (rule fold_r_invariant [OF assms(1) [unfolded compile_peers_def]])
  show "peers_ok engineer (ma_nodes a) \<and> same_but_peers (ma_nodes a) (ma_nodes a)"
    using assms(2) by (simp add: peers_ok_def same_but_peers_def)
  fix x t t'
  assume "peers_ok engineer t \<and> same_but_peers (ma_nodes a) t" "peers_step (ma_declared a) engineer x t = Inr t'"
  then show "peers_ok engineer t' \<and> same_but_peers (ma_nodes a) t'"
    using peers_step_inv [of engineer t _ "fst x" "snd x"] by (auto intro: same_but_peers_trans)
qed

subsection \<open>A mix never hears itself back\<close>

text \<open>
  \<open>brings ms m i\<close>: the whole output of mix \<open>m\<close> holds the own output of mix \<open>i\<close>: its own, its
  peers' own, and what the mixes it hears whole bring.
\<close>

inductive brings :: "mix_node list \<Rightarrow> nat \<Rightarrow> nat \<Rightarrow> bool" for ms where
  own: "m < length ms \<Longrightarrow> brings ms m m"
| peer: "m < length ms \<Longrightarrow> p \<in> set (m_peers (ms ! m)) \<Longrightarrow> brings ms m p"
| whole: "m < length ms \<Longrightarrow> h \<in> set (m_mixes (ms ! m)) \<Longrightarrow> brings ms h i \<Longrightarrow> brings ms m i"

inductive_simps brings_iff: "brings ms m i"

lemma heard_carries_fold:
  assumes "fold_r (heard_carries s cs m) hs own = Inr own'" and "\<forall>h \<in> set hs. h < length cs"
  shows "own' = own \<union> (\<Union>h \<in> set hs. cs ! h) \<and> (\<forall>h \<in> set hs. m \<notin> cs ! h)"
  using assms
proof (induction hs arbitrary: own)
  case (Cons h hs)
  then obtain o1 where "heard_carries s cs m h own = Inr o1" "fold_r (heard_carries s cs m) hs o1 = Inr own'"
    by auto
  with Cons show ?case by (auto simp: heard_carries_def lget_def Let_def split: if_splits)
qed simp

definition no_echo :: "mix_node list \<Rightarrow> bool" where
  "no_echo ms = (\<forall>m < length ms. \<forall>h \<in> set (m_mixes (ms ! m)). \<not> brings ms h m)"

lemma check_carries_ok:
  assumes "check_carries s ms = Inr cs" and "heard_ok ms"
  shows "no_echo ms"
proof -
  let ?P = "\<lambda>n cs. length cs = n \<and>
      (\<forall>m < n. (\<forall>i. i \<in> cs ! m \<longleftrightarrow> brings ms m i) \<and> (\<forall>h \<in> set (m_mixes (ms ! m)). \<not> brings ms h m))"
  have "?P (0 + length ms) cs"
  proof (rule fold_r_enumerate [OF assms(1) [unfolded check_carries_def], where P = ?P])
    fix n t t'
    assume n: "n < length ms" and P: "?P (0 + n) t" and st: "carries_step s (0 + n, ms ! n) t = Inr t'"
    have hs: "\<forall>h \<in> set (m_mixes (ms ! n)). h < length t"
      using assms(2) n P by (auto simp: heard_ok_def)
    from st obtain own where
      f: "fold_r (heard_carries s t n) (m_mixes (ms ! n)) (insert n (set (m_peers (ms ! n)))) = Inr own"
      and t': "t' = t @ [own]"
      by (auto simp: carries_step_def Let_def)
    from heard_carries_fold [OF f hs]
    have own: "own = insert n (set (m_peers (ms ! n))) \<union> (\<Union>h \<in> set (m_mixes (ms ! n)). t ! h)"
      and no: "\<forall>h \<in> set (m_mixes (ms ! n)). n \<notin> t ! h" by auto
    have "i \<in> own \<longleftrightarrow> brings ms n i" for i
      unfolding own using n P hs by (subst brings_iff) auto
    with P no hs show "?P (Suc (0 + n)) t'"
      by (auto simp: t' nth_append less_Suc_eq)
  qed simp
  then show ?thesis by (simp add: no_echo_def)
qed

subsection \<open>The render order\<close>

definition before :: "'a list \<Rightarrow> 'a \<Rightarrow> 'a \<Rightarrow> bool" where
  "before xs a b = (\<exists>ys zs. xs = ys @ zs \<and> a \<in> set ys \<and> b \<in> set zs)"

lemma before_append: "a \<in> set xs \<Longrightarrow> b \<in> set ys \<Longrightarrow> before (xs @ ys) a b"
  unfolding before_def by blast

lemma before_sorted:
  assumes "sorted_wrt (<) xs" and "a \<in> set xs" and "b \<in> set xs" and "(a::nat) < b"
  shows "before xs a b"
proof -
  obtain ys zs where xs: "xs = ys @ b # zs" using assms(3) by (auto dest: split_list)
  with assms have "a \<in> set ys" by (auto simp: sorted_wrt_append)
  with xs show ?thesis unfolding before_def by (intro exI [of _ ys] exI [of _ "b # zs"]) simp
qed

lemma before_appendR: "before ys a b \<Longrightarrow> before (xs @ ys) a b"
  unfolding before_def by (metis Un_iff append.assoc set_append)

lemma order_heard_before:
  assumes "heard_ok ms" and "m < length ms" and "h \<in> set (m_mixes (ms ! m))"
  shows "before (render_order ms) h m"
proof -
  have h: "h < m" using assms by (auto simp: heard_ok_def)
  have m: "m \<in> set (filter (\<lambda>m. \<not> hears_nothing (ms ! m)) [0..<length ms])"
    using assms by (auto simp: hears_nothing_def)
  show ?thesis
  proof (cases "hears_nothing (ms ! h)")
    case True
    with h m assms(2) show ?thesis
      unfolding render_order_def by (intro before_append) auto
  next
    case False
    with h m assms(2) show ?thesis
      unfolding render_order_def
      by (intro before_appendR before_sorted) (auto intro!: sorted_wrt_filter sorted_wrt_upt)
  qed
qed

lemma order_peer_before:
  assumes "peers_ok e ms" and "m < length ms" and "p \<in> set (m_peers (ms ! m))" and "hears_nothing (ms ! p)"
  shows "before (render_order ms) p m"
proof -
  have "p < length ms" using assms by (auto simp: peers_ok_def)
  moreover have "\<not> hears_nothing (ms ! m)" using assms(3) by (auto simp: hears_nothing_def)
  ultimately show ?thesis
    unfolding render_order_def using assms by (intro before_append) auto
qed

lemma render_order_perm: "distinct (render_order ms) \<and> set (render_order ms) = {0..<length ms}"
  by (auto simp: render_order_def)

lemma nth_set_shadows:
  "m < length ms \<Longrightarrow> set_shadows ms ! m =
     (ms ! m)\<lparr>m_shadow := list_ex (\<lambda>x. m \<in> set (m_peers x)) ms \<and> \<not> hears_nothing (ms ! m)\<rparr>"
  by (simp add: set_shadows_def nth_enumerate_eq)

lemma length_set_shadows [simp]: "length (set_shadows ms) = length ms"
  by (simp add: set_shadows_def)

subsection \<open>The compiled topology\<close>

definition topo_wf :: "topology \<Rightarrow> bool" where
  "topo_wf t =
     (distinct (map n_id (t_inputs t)) \<and> distinct (map g_id (t_groups t)) \<and>
      distinct (map m_id (t_mixes t)) \<and>
      t_input_index t = index_map (map n_id (t_inputs t)) \<and>
      t_group_index t = index_map (map g_id (t_groups t)) \<and>
      t_mix_index t = index_map (map m_id (t_mixes t)) \<and>
      heard_ok (t_mixes t) \<and> peers_ok (t_engineer t) (t_mixes t) \<and> no_echo (t_mixes t) \<and>
      is_stereo (t_mixes t) (t_engineer t) \<and> t_order t = render_order (t_mixes t) \<and>
      (\<forall>m < length (t_mixes t). m_shadow (t_mixes t ! m) =
         (list_ex (\<lambda>x. m \<in> set (m_peers x)) (t_mixes t) \<and> \<not> hears_nothing (t_mixes t ! m))) \<and>
      tx_ok (length (t_tx t)) (t_mixes t) \<and>
      distinct (t_tx t) \<and> 0 \<notin> set (t_tx t) \<and> distinct (t_rx t) \<and> 0 \<notin> set (t_rx t) \<and>
      groups_inv (length (t_groups t)) (t_inputs t, t_groups t) \<and>
      t_direct t = direct_of (t_inputs t) \<and>
      (\<forall>n \<in> set (t_inputs t). fst (n_rx n) < length (t_rx t) \<and> snd (n_rx n) < length (t_rx t)) \<and>
      length (t_inputs t) \<le> length (t_rx t))"

lemma brings_set_shadows: "brings (set_shadows ms) m i \<Longrightarrow> brings ms m i"
  by (induction rule: brings.induct) (auto simp: nth_set_shadows intro: brings.intros)

lemma tx_ok_cong:
  assumes "tx_ok n a" and "length b = length a" and "\<And>m. m < length a \<Longrightarrow> m_tx (b ! m) = m_tx (a ! m)"
  shows "tx_ok n b"
proof -
  have e: "tx_has (b ! m) j = tx_has (a ! m) j" if "m < length a" for m j
    using assms(3) [OF that] by (simp add: tx_has_def)
  from assms(1) have "\<exists>m < length a. tx_has (a ! m) j" if "j < n" for j
    using that by (simp add: tx_ok_def)
  then have "\<exists>m < length b. tx_has (b ! m) j" if "j < n" for j
    using that e assms(2) by metis
  with assms(1,2) e show ?thesis by (simp add: tx_ok_def)
qed

lemma set_shadows_keeps:
  "heard_ok ms \<Longrightarrow> heard_ok (set_shadows ms)"
  "peers_ok e ms \<Longrightarrow> peers_ok e (set_shadows ms)"
  "no_echo ms \<Longrightarrow> no_echo (set_shadows ms)"
  "tx_ok n ms \<Longrightarrow> tx_ok n (set_shadows ms)"
  "is_stereo (set_shadows ms) s = is_stereo ms s"
proof -
  show "heard_ok ms \<Longrightarrow> heard_ok (set_shadows ms)" "peers_ok e ms \<Longrightarrow> peers_ok e (set_shadows ms)"
    by (auto simp: heard_ok_def peers_ok_def nth_set_shadows)
  show "no_echo ms \<Longrightarrow> no_echo (set_shadows ms)"
    by (auto simp: no_echo_def nth_set_shadows dest: brings_set_shadows)
  show "tx_ok n ms \<Longrightarrow> tx_ok n (set_shadows ms)"
    by (erule tx_ok_cong) (simp_all add: nth_set_shadows)
  show "is_stereo (set_shadows ms) s = is_stereo ms s"
    by (auto simp: is_stereo_iff nth_set_shadows)
qed

lemma ids_set_shadows: "map m_id (set_shadows ms) = map m_id ms"
  by (rule nth_equalityI) (auto simp: nth_set_shadows)

lemma shadow_peers_set_shadows:
  "list_ex (\<lambda>x. m \<in> set (m_peers x)) (set_shadows ms) = list_ex (\<lambda>x. m \<in> set (m_peers x)) ms"
  by (auto simp: list_ex_length nth_set_shadows)

lemma hears_nothing_set_shadows:
  "m < length ms \<Longrightarrow> hears_nothing (set_shadows ms ! m) = hears_nothing (ms ! m)"
  by (simp add: hears_nothing_def nth_set_shadows)

lemma same_but_peers_keeps:
  assumes "same_but_peers a b"
  shows "heard_ok a \<Longrightarrow> heard_ok b" and "tx_ok n a \<Longrightarrow> tx_ok n b"
    and "map m_id b = map m_id a" and "is_stereo b s = is_stereo a s"
proof -
  show "tx_ok n a \<Longrightarrow> tx_ok n b"
    using assms by (elim tx_ok_cong) (simp_all add: same_but_peers_def)
  show "heard_ok a \<Longrightarrow> heard_ok b" "is_stereo b s = is_stereo a s"
    using assms by (auto simp: heard_ok_def same_but_peers_def is_stereo_iff)
  show "map m_id b = map m_id a"
    using assms by (intro nth_equalityI) (auto simp: same_but_peers_def)
qed

lemma compile_parts:
  assumes "compile digest s = Inr t"
  obtains seen ia ig ma ms cs e where
    "fold_r check_id (site_ids s) {} = Inr seen" "compile_inputs s = Inr ia"
    "compile_groups s (ia_nodes ia) = Inr ig" "compile_mixes s = Inr ma"
    "find_engineer s ma = Inr e" "compile_peers s ma e = Inr ms" "check_carries s ms = Inr cs"
    "t = assemble digest (fst ig) (snd ig) (set_shadows ms) (ia_rx ia) (ma_tx ma) e"
  using assms unfolding compile_def by blast

lemma compile_ids:
  assumes "compile digest s = Inr t"
  shows "map n_id (t_inputs t) = map si_id (st_inputs s)"
    and "map g_id (t_groups t) = map sg_id (st_groups s)"
    and "map m_id (t_mixes t) = map sm_id (st_mixes s)"
proof -
  from assms obtain seen ia ig ma ms cs e where p:
    "compile_inputs s = Inr ia" "compile_groups s (ia_nodes ia) = Inr ig" "compile_mixes s = Inr ma"
    "compile_peers s ma e = Inr ms"
    "t = assemble digest (fst ig) (snd ig) (set_shadows ms) (ia_rx ia) (ma_tx ma) e"
    by (rule compile_parts)
  have ia: "\<forall>n \<in> set (ia_nodes ia). n_group n = None"
    using compile_inputs_inv [OF p(1)] by (simp add: inputs_inv_def)
  have ma: "\<forall>nd \<in> set (ma_nodes ma). m_peers nd = []"
    using compile_mixes_ok [OF p(3)] by (simp add: mixes_inv_def)
  note g = compile_groups_ok [OF p(2) ia] and m = compile_peers_ok [OF p(4) ma]
  show "map n_id (t_inputs t) = map si_id (st_inputs s)"
    using g compile_inputs_ids [OF p(1)] same_but_group_ids by (simp add: p(5) assemble_def Let_def) metis
  show "map g_id (t_groups t) = map sg_id (st_groups s)"
    using g by (simp add: p(5) assemble_def Let_def)
  show "map m_id (t_mixes t) = map sm_id (st_mixes s)"
    using m compile_mixes_ok [OF p(3)] same_but_peers_keeps(3)
    by (simp add: p(5) assemble_def Let_def ids_set_shadows) metis
qed

lemma compile_wf:
  assumes "compile digest s = Inr t"
  shows "topo_wf t"
proof -
  from assms obtain seen ia ig ma ms cs e where p:
    "fold_r check_id (site_ids s) {} = Inr seen" "compile_inputs s = Inr ia"
    "compile_groups s (ia_nodes ia) = Inr ig" "compile_mixes s = Inr ma"
    "find_engineer s ma = Inr e" "compile_peers s ma e = Inr ms" "check_carries s ms = Inr cs"
    "t = assemble digest (fst ig) (snd ig) (set_shadows ms) (ia_rx ia) (ma_tx ma) e"
    by (rule compile_parts)
  have ia: "inputs_inv (st_channels s) ia" by (rule compile_inputs_inv) (rule p)
  then have ia0: "\<forall>n \<in> set (ia_nodes ia). n_group n = None" by (simp add: inputs_inv_def)
  have ma: "mixes_inv (st_channels s) (length (st_mixes s)) ma" using compile_mixes_ok [OF p(4)] by blast
  then have ma0: "\<forall>nd \<in> set (ma_nodes ma). m_peers nd = []" by (simp add: mixes_inv_def)
  note g = compile_groups_ok [OF p(3) ia0] and m = compile_peers_ok [OF p(6) ma0]
  have sbp: "same_but_peers (ma_nodes ma) ms" and pe: "peers_ok e ms" using m by auto
  have ho: "heard_ok ms" and tx: "tx_ok (length (ma_tx ma)) ms"
    using ma same_but_peers_keeps [OF sbp] by (auto simp: mixes_inv_def)
  have ne: "no_echo ms" by (rule check_carries_ok [OF p(7) ho])
  have en: "is_stereo ms e"
    using p(5) same_but_peers_keeps(4) [OF sbp] by (auto simp: find_engineer_def split: option.splits if_splits)
  have fields: "t_inputs t = fst ig" "t_groups t = snd ig" "t_mixes t = set_shadows ms" "t_tx t = ma_tx ma"
    "t_rx t = ia_rx ia" "t_engineer t = e" "t_order t = render_order (set_shadows ms)" "t_direct t = direct_of (fst ig)"
    "t_input_index t = index_map (map n_id (fst ig))" "t_group_index t = index_map (map g_id (snd ig))"
    "t_mix_index t = index_map (map m_id (set_shadows ms))"
    by (simp_all add: p(8) assemble_def Let_def)
  have "distinct (site_ids s)" using check_ids_ok [OF p(1)] by blast
  then have ids: "distinct (map n_id (t_inputs t))" "distinct (map g_id (t_groups t))" "distinct (map m_id (t_mixes t))"
    unfolding compile_ids [OF assms] site_ids_def by auto
  have gi: "groups_inv (length (snd ig)) ig"
    using g by (auto simp: groups_inv_def)
  have rx: "fst (n_rx n) < length (ia_rx ia) \<and> snd (n_rx n) < length (ia_rx ia)" if "n \<in> set (fst ig)" for n
  proof -
    from that obtain i where i: "i < length (fst ig)" "n = fst ig ! i" by (auto simp: in_set_conv_nth)
    with g have "n_rx ((ia_nodes ia ! i)\<lparr>n_group := None\<rparr>) = n_rx (n\<lparr>n_group := None\<rparr>)" "i < length (ia_nodes ia)"
      by (auto simp: same_but_group_def)
    then have "ia_nodes ia ! i \<in> set (ia_nodes ia)" "n_rx (ia_nodes ia ! i) = n_rx n" by auto
    with ia show ?thesis unfolding inputs_inv_def by metis
  qed
  have "length (fst ig) \<le> length (ia_rx ia)"
    using g ia by (auto simp: inputs_inv_def same_but_group_def)
  moreover have "chans_ok (st_channels s) (ia_rx ia)" "chans_ok (st_channels s) (ma_tx ma)"
    using ia ma by (auto simp: inputs_inv_def mixes_inv_def)
  ultimately show ?thesis
    unfolding topo_wf_def using ids ho pe ne en tx gi rx
    by (auto simp: fields set_shadows_keeps shadow_peers_set_shadows hears_nothing_def nth_set_shadows chans_ok_def)
qed

subsection \<open>Level slots\<close>

text \<open>
  The interface the control core and the processor use of a topology's level slots: \<open>slot\<close> and
  \<open>source\<close> are inverse to each other on the slots a mix has.
\<close>

locale level_slots =
  fixes wf :: "'t \<Rightarrow> bool"
    and mixes_of :: "'t \<Rightarrow> nat"
    and levels_of :: "'t \<Rightarrow> nat \<Rightarrow> nat"
    and slot_of :: "'t \<Rightarrow> nat \<Rightarrow> 's \<Rightarrow> nat option"
    and source_of :: "'t \<Rightarrow> nat \<Rightarrow> nat \<Rightarrow> 's option"
  assumes slot_sound: "wf t \<Longrightarrow> slot_of t m s = Some k \<Longrightarrow> m < mixes_of t \<and> k < levels_of t m \<and> source_of t m k = Some s"
    and source_total: "wf t \<Longrightarrow> m < mixes_of t \<Longrightarrow> k < levels_of t m \<Longrightarrow> source_of t m k \<noteq> None"
    and source_sound: "wf t \<Longrightarrow> source_of t m k = Some s \<Longrightarrow> slot_of t m s = Some k"
begin

lemma slot_iff_source: "wf t \<Longrightarrow> slot_of t m s = Some k \<longleftrightarrow> source_of t m k = Some s"
  using slot_sound source_sound by blast

lemma slot_injective: "wf t \<Longrightarrow> slot_of t m a = Some k \<Longrightarrow> slot_of t m b = Some k \<Longrightarrow> a = b"
  by (metis slot_sound option.inject)

lemma source_injective: "wf t \<Longrightarrow> source_of t m j = Some s \<Longrightarrow> source_of t m k = Some s \<Longrightarrow> j = k"
  by (metis source_sound option.inject)

lemma source_in_slots: "wf t \<Longrightarrow> source_of t m k = Some s \<Longrightarrow> m < mixes_of t \<and> k < levels_of t m"
  using slot_sound source_sound by blast

end

lemma wf_input_index: "topo_wf t \<Longrightarrow> input_index t i = Some k \<longleftrightarrow> k < length (t_inputs t) \<and> n_id (t_inputs t ! k) = i"
  unfolding input_index_def topo_wf_def using index_map_iff [of "map n_id (t_inputs t)" i k] by auto

lemma wf_group_index: "topo_wf t \<Longrightarrow> group_index t i = Some k \<longleftrightarrow> k < length (t_groups t) \<and> g_id (t_groups t ! k) = i"
  unfolding group_index_def topo_wf_def using index_map_iff [of "map g_id (t_groups t)" i k] by auto

lemma wf_mix_index: "topo_wf t \<Longrightarrow> mix_index t i = Some k \<longleftrightarrow> k < length (t_mixes t) \<and> m_id (t_mixes t ! k) = i"
  unfolding mix_index_def topo_wf_def using index_map_iff [of "map m_id (t_mixes t)" i k] by auto

lemma wf_mix_links:
  assumes "topo_wf t" and "m < length (t_mixes t)"
  shows "distinct (m_mixes (t_mixes t ! m))" and "distinct (m_peers (t_mixes t ! m))"
    and "h \<in> set (m_mixes (t_mixes t ! m)) \<Longrightarrow> h < m"
    and "p \<in> set (m_peers (t_mixes t ! m)) \<Longrightarrow> p < length (t_mixes t) \<and> p \<noteq> m \<and> p \<notin> set (m_mixes (t_mixes t ! m))"
  using assms by (auto simp: topo_wf_def heard_ok_def peers_ok_def)

lemma slot_sound_t:
  assumes "topo_wf t" and "slot t m src = Some k"
  shows "m < length (t_mixes t) \<and> k < levels t m \<and> t_source t m k = Some src"
proof -
  from assms(2) have m: "m < length (t_mixes t)"
    by (cases "m < length (t_mixes t)") (auto simp: slot_def lget_def)
  show ?thesis
  proof (cases src)
    case (SrcInput i)
    with assms m show ?thesis
      by (auto simp: slot_def t_source_def levels_def wf_input_index lget_def)
  next
    case (SrcMix i)
    with assms m show ?thesis
      by (auto simp: slot_def t_source_def levels_def wf_mix_index lget_def position_Some_iff Let_def
          split: option.splits)
  qed
qed

lemma source_total_t:
  assumes "topo_wf t" and "m < length (t_mixes t)" and "k < levels t m"
  shows "t_source t m k \<noteq> None"
proof -
  let ?n = "t_mixes t ! m"
  have "s < length (t_mixes t)" if "s \<in> set (m_mixes ?n) \<or> s \<in> set (m_peers ?n)" for s
    using that wf_mix_links [OF assms(1,2)] assms(2) by fastforce
  then show ?thesis
    using assms by (auto simp: t_source_def levels_def lget_def Let_def)
qed

lemma source_sound_t:
  assumes wf: "topo_wf t" and src: "t_source t m k = Some src"
  shows "slot t m src = Some k"
proof -
  from src have m: "m < length (t_mixes t)"
    by (cases "m < length (t_mixes t)") (auto simp: t_source_def lget_def)
  let ?n = "t_mixes t ! m"
  let ?j = "k - length (t_inputs t)"
  note links = wf_mix_links [OF wf m]
  consider (inp) "k < length (t_inputs t)" "src = SrcInput (n_id (t_inputs t ! k))"
    | (mix) s where "length (t_inputs t) \<le> k" "?j < length (m_mixes ?n)" "s = m_mixes ?n ! ?j"
        "s < length (t_mixes t)" "src = SrcMix (m_id (t_mixes t ! s))"
    | (peer) s where "length (t_inputs t) + length (m_mixes ?n) \<le> k"
        "?j - length (m_mixes ?n) < length (m_peers ?n)" "s = m_peers ?n ! (?j - length (m_mixes ?n))"
        "s < length (t_mixes t)" "src = SrcMix (m_id (t_mixes t ! s))"
    using src m by (fastforce simp: t_source_def lget_def Let_def split: if_splits)
  then show ?thesis
  proof cases
    case inp
    with m wf wf_input_index [OF wf, of "n_id (t_inputs t ! k)" k] show ?thesis
      by (simp add: slot_def lget_def)
  next
    case (mix s)
    then have "mix_index t (m_id (t_mixes t ! s)) = Some s" by (simp add: wf_mix_index [OF wf])
    moreover have "position (\<lambda>h. h = s) (m_mixes ?n) = Some ?j"
      using position_distinct [OF links(1) mix(2)] mix(3) by simp
    ultimately show ?thesis using m mix by (simp add: slot_def lget_def)
  next
    case (peer s)
    then have "mix_index t (m_id (t_mixes t ! s)) = Some s" by (simp add: wf_mix_index [OF wf])
    moreover have "position (\<lambda>p. p = s) (m_peers ?n) = Some (?j - length (m_mixes ?n))"
      using position_distinct [OF links(2) peer(2)] peer(3) by simp
    moreover have "position (\<lambda>h. h = s) (m_mixes ?n) = None"
      using links(4) [of s] peer by (auto simp: position_None_iff)
    ultimately show ?thesis using m peer by (simp add: slot_def lget_def)
  qed
qed

interpretation ls: level_slots topo_wf "\<lambda>t. length (t_mixes t)" levels slot t_source
  by unfold_locales (use slot_sound_t source_total_t source_sound_t in blast)+

subsection \<open>HIL outputs\<close>

lemma mix_on_tx_None:
  assumes "topo_wf t"
  shows "mix_on_tx t ch = None \<longleftrightarrow> ch \<notin> set (t_tx t)"
proof (cases "position (\<lambda>c. c = ch) (t_tx t)")
  case None
  then have "ch \<notin> set (t_tx t)" by (auto simp: position_None_iff)
  with None show ?thesis by (simp add: mix_on_tx_def)
next
  case (Some j)
  then have j: "j < length (t_tx t)" "t_tx t ! j = ch" by (auto simp: position_Some_iff)
  with assms obtain m where "m < length (t_mixes t)" "tx_has (t_mixes t ! m) j"
    by (auto simp: topo_wf_def tx_ok_def)
  then have "List.find (\<lambda>n. tx_has n j) (t_mixes t) \<noteq> None"
    unfolding find_None_iff by (metis nth_mem)
  with Some j show ?thesis by (auto simp: mix_on_tx_def)
qed

lemma mix_tx_refusal_None: "topo_wf t \<Longrightarrow> mix_tx_refusal t ch = None \<longleftrightarrow> ch \<notin> set (t_tx t)"
  by (simp add: mix_tx_refusal_def mix_on_tx_None)

lemma hil_step_iff:
  "topo_wf t \<Longrightarrow> hil_step t ch outs = Inr outs' \<longleftrightarrow>
     ch \<noteq> 0 \<and> ch \<notin> set (t_tx t) \<and> ch \<notin> set (t_rx t) \<and> ch \<notin> set outs \<and> outs' = outs @ [ch]"
  using mix_tx_refusal_None [of t ch] by (auto simp: hil_step_def split: option.splits)

lemma hil_fold_iff:
  assumes "topo_wf t"
  shows "fold_r (hil_step t) chs outs = Inr outs' \<longleftrightarrow>
     outs' = outs @ chs \<and> distinct chs \<and> set chs \<inter> set outs = {} \<and>
     (\<forall>ch \<in> set chs. ch \<noteq> 0 \<and> ch \<notin> set (t_tx t) \<and> ch \<notin> set (t_rx t))"
proof (induction chs arbitrary: outs)
  case (Cons ch chs)
  show ?case
    by (auto simp: bind_r_Inr_iff hil_step_iff [OF assms] Cons.IH)
qed auto

subsection \<open>Properties\<close>

text \<open>
  In a compiled topology \<open>slot\<close> and \<open>source\<close> are inverse: every level slot of a mix has a
  source, that source's slot is the one it came from, and a slot found for a source is one of the
  mix's slots and leads back to that source.
\<close>

theorem slot_source_roundtrip:
  assumes "compile digest s = Inr t" and "m < length (t_mixes t)"
  shows "(\<forall>k < levels t m. \<exists>src. t_source t m k = Some src \<and> slot t m src = Some k)
    \<and> (\<forall>src k. slot t m src = Some k \<longrightarrow> k < levels t m \<and> t_source t m k = Some src)"
proof -
  have wf: "topo_wf t" by (rule compile_wf) (rule assms)
  then show ?thesis
    using ls.source_total [OF wf assms(2)] ls.slot_iff_source [OF wf] ls.slot_sound [OF wf] by blast
qed

text \<open>
  C38. The render order of a compiled topology is a permutation of the mixes in which every mix
  comes after each mix it hears whole; each of its peers either comes before it too or has a
  shadow, which is rendered before the order starts. So a mix never reads an output of the
  previous segment.
\<close>

theorem render_order_sound:
  assumes "compile digest s = Inr t"
  shows "distinct (t_order t) \<and> set (t_order t) = {0..<length (t_mixes t)} \<and>
    (\<forall>m < length (t_mixes t).
       (\<forall>h \<in> set (m_mixes (t_mixes t ! m)). before (t_order t) h m) \<and>
       (\<forall>p \<in> set (m_peers (t_mixes t ! m)). before (t_order t) p m \<or> m_shadow (t_mixes t ! p)))"
proof -
  have wf: "topo_wf t" by (rule compile_wf) (rule assms)
  then have ord: "t_order t = render_order (t_mixes t)" and ho: "heard_ok (t_mixes t)"
    and pe: "peers_ok (t_engineer t) (t_mixes t)" by (simp_all add: topo_wf_def)
  have "before (t_order t) p m \<or> m_shadow (t_mixes t ! p)"
    if m: "m < length (t_mixes t)" and p: "p \<in> set (m_peers (t_mixes t ! m))" for m p
  proof (cases "hears_nothing (t_mixes t ! p)")
    case True
    with order_peer_before [OF pe m p] ord show ?thesis by simp
  next
    case False
    have "p < length (t_mixes t)" using wf_mix_links(4) [OF wf m p] by simp
    moreover have "list_ex (\<lambda>x. p \<in> set (m_peers x)) (t_mixes t)"
      using m p by (auto simp: list_ex_iff intro: nth_mem)
    ultimately show ?thesis using wf False by (simp add: topo_wf_def)
  qed
  then show ?thesis
    using order_heard_before [OF ho] render_order_perm [of "t_mixes t"] ord by simp
qed

theorem render_order_sound_witness: "before (t_order demo_topo) 1 2 \<and> m_shadow (t_mixes demo_topo ! 1)"
proof -
  have "1 \<in> set (m_mixes (t_mixes demo_topo ! 2))" "m_shadow (t_mixes demo_topo ! 1)" by code_simp+
  then show ?thesis using render_order_sound [OF demo_compiles] demo_sizes by simp
qed

text \<open>
  C39. A compiled topology has no echo: the whole output of a mix that another mix hears never
  holds that other mix's own output, through any chain of heard mixes and peers.
\<close>

theorem never_hears_itself:
  assumes "compile digest s = Inr t" and "m < length (t_mixes t)"
    and "h \<in> set (m_mixes (t_mixes t ! m))"
  shows "\<not> brings (t_mixes t) h m"
  using compile_wf [OF assms(1)] assms(2,3) by (simp add: topo_wf_def no_echo_def)

theorem never_hears_itself_witness: "\<not> brings (t_mixes demo_topo) 0 2"
  using never_hears_itself [OF demo_compiles, of 2 0] demo_sizes by simp

text \<open>
  In a compiled topology every input is summed exactly once on its way into a mix: it is
  either a direct input, or a member of exactly one group.
\<close>

theorem inputs_partitioned:
  assumes "compile digest s = Inr t" and "i < length (t_inputs t)"
  shows "(i \<in> set (t_direct t) \<and> (\<forall>g < length (t_groups t). i \<notin> set (g_inputs (t_groups t ! g)))) \<or>
    (i \<notin> set (t_direct t) \<and> (\<exists>!g. g < length (t_groups t) \<and> i \<in> set (g_inputs (t_groups t ! g))))"
proof -
  have wf: "groups_inv (length (t_groups t)) (t_inputs t, t_groups t)" "t_direct t = direct_of (t_inputs t)"
    using compile_wf [OF assms(1)] by (simp_all add: topo_wf_def)
  then have mem: "i \<in> set (g_inputs (t_groups t ! g)) \<longleftrightarrow> n_group (t_inputs t ! i) = Some g"
      if "g < length (t_groups t)" for g
    using assms(2) that by (auto simp: groups_inv_def direct_of_def)
  have bound: "n_group (t_inputs t ! i) = Some g \<Longrightarrow> g < length (t_groups t)" for g
    using wf(1) assms(2) by (auto simp: groups_inv_def)
  have dir: "i \<in> set (t_direct t) \<longleftrightarrow> n_group (t_inputs t ! i) = None"
    using wf(2) assms(2) by (simp add: direct_of_def)
  show ?thesis
  proof (cases "n_group (t_inputs t ! i)")
    case None
    with dir mem show ?thesis by simp
  next
    case (Some a)
    with bound mem have "\<exists>!g. g < length (t_groups t) \<and> i \<in> set (g_inputs (t_groups t ! g))"
      by (intro ex1I [of _ a]) auto
    with Some dir show ?thesis by simp
  qed
qed

text \<open>
  \<open>hil_outputs\<close> accepts a list of HIL outputs exactly when it names at most eight distinct
  card channels from 1 on, none of them a mix's TX and none a topology input; it returns them
  unchanged.
\<close>

theorem hil_outputs_spare:
  assumes "compile digest s = Inr t"
  shows "hil_outputs t req = Inr outs \<longleftrightarrow>
    outs = req \<and> length req \<le> MAX_HIL \<and> distinct req \<and>
    (\<forall>ch \<in> set req. ch \<noteq> 0 \<and> ch \<notin> set (t_tx t) \<and> ch \<notin> set (t_rx t))"
  using hil_fold_iff [OF compile_wf [OF assms], of req "[]" outs] by (auto simp: hil_outputs_def)

text \<open>
  C40. Ids and channels of a compiled topology are unambiguous: all ids of the site are valid and
  pairwise different, every card channel is used at most once and lies in \<open>1..channels\<close>, and each
  TX slot belongs to exactly one mix.
\<close>

theorem compile_unambiguous:
  assumes "compile digest s = Inr t"
  shows "distinct (site_ids s) \<and> (\<forall>i \<in> set (site_ids s). valid_id i) \<and>
    chans_ok (st_channels s) (t_rx t) \<and> chans_ok (st_channels s) (t_tx t) \<and>
    (\<forall>j < length (t_tx t). \<exists>!m. m < length (t_mixes t) \<and> tx_has (t_mixes t ! m) j)"
proof -
  from assms obtain seen ia ig ma ms cs e where p:
    "fold_r check_id (site_ids s) {} = Inr seen" "compile_inputs s = Inr ia" "compile_mixes s = Inr ma"
    "t = assemble digest (fst ig) (snd ig) (set_shadows ms) (ia_rx ia) (ma_tx ma) e"
    by (rule compile_parts)
  have "chans_ok (st_channels s) (t_rx t)" "chans_ok (st_channels s) (t_tx t)"
    using compile_inputs_inv [OF p(2)] compile_mixes_ok [OF p(3)]
    by (auto simp: p(4) assemble_def Let_def inputs_inv_def mixes_inv_def)
  moreover have "\<exists>!m. m < length (t_mixes t) \<and> tx_has (t_mixes t ! m) j" if "j < length (t_tx t)" for j
    using compile_wf [OF assms] that by (auto simp: topo_wf_def tx_ok_def)
  ultimately show ?thesis using check_ids_ok [OF p(1)] by blast
qed

theorem compile_unambiguous_witness:
  "distinct (site_ids demo_site) \<and> chans_ok 64 (t_tx demo_topo) \<and> length (t_tx demo_topo) = 6"
proof -
  have "length (t_tx demo_topo) = 6" "st_channels demo_site = 64" by code_simp+
  then show ?thesis using compile_unambiguous [OF demo_compiles] by metis
qed

end
