(* ===== verification/CoreState.thy ===== *)
theory CoreState
  imports RtCmd TopologyProps
begin

text \<open>
  The mix state in topology order (\<open>core/state.rs\<close>): \<open>reconcile\<close> lays the shaped protocol state
  out by index, \<open>to_state\<close> brings it back, and \<open>defaults_muted\<close> is the end of the load chain.
\<close>

record mix_rec =
  mr_out :: mix_out
  mr_levels :: "level list"
  mr_groups :: "mix_group list"

record reconciled =
  rs_inputs :: "input_state list"
  rs_mixes :: "mix_rec list"

definition or_default :: "'a \<Rightarrow> 'a option \<Rightarrow> 'a" where
  "or_default d x = (case x of Some a \<Rightarrow> a | None \<Rightarrow> d)"

lemma or_default_simps [simp]: "or_default d (Some a) = a" "or_default d None = d"
  by (simp_all add: or_default_def)

definition rec_of :: "topology \<Rightarrow> mix_state \<Rightarrow> nat \<Rightarrow> mix_node \<Rightarrow> mix_rec" where
  "rec_of topo shaped m node =
     (let given = map_of (ms_mixes shaped) (m_id node)
      in \<lparr>mr_out = or_default out_default (map_option mx_out given),
          mr_levels = map (\<lambda>k. or_default level_default
              (case t_source topo m k of
                 Some src \<Rightarrow> Option.bind given (\<lambda>x. mix_level x src)
               | None \<Rightarrow> None)) [0..<levels topo m],
          mr_groups = map (\<lambda>g. or_default group_default
              (Option.bind given (\<lambda>x. map_of (mx_groups x) (g_id g)))) (t_groups topo)\<rparr>)"

definition core_reconcile :: "topology \<Rightarrow> mix_state \<Rightarrow> reconciled \<times> string list" where
  "core_reconcile topo state =
     (let (shaped, dropped) = reconcile (info topo) state
      in (\<lparr>rs_inputs = map (\<lambda>n. or_default input_default (map_of (ms_inputs shaped) (n_id n))) (t_inputs topo),
           rs_mixes = map (\<lambda>(m, node). rec_of topo shaped m node) (enumerate 0 (t_mixes topo))\<rparr>,
          dropped))"

text \<open>\<open>to_state\<close>: a mix's levels are inserted one by one under their source.\<close>

definition level_insert :: "topology \<Rightarrow> nat \<Rightarrow> nat \<times> level \<Rightarrow> mix \<Rightarrow> mix" where
  "level_insert topo m kl x =
     (case t_source topo m (fst kl) of
        Some (SrcInput i) \<Rightarrow> x\<lparr>mx_inputs := bm_insert i (snd kl) (mx_inputs x)\<rparr>
      | Some (SrcMix i) \<Rightarrow> x\<lparr>mx_mixes := bm_insert i (snd kl) (mx_mixes x)\<rparr>
      | None \<Rightarrow> x)"

definition mix_of :: "topology \<Rightarrow> nat \<Rightarrow> mix_rec \<Rightarrow> mix" where
  "mix_of topo m r =
     (fold (level_insert topo m) (enumerate 0 (mr_levels r)) (mix_default\<lparr>mx_out := mr_out r\<rparr>))
       \<lparr>mx_groups := bm_collect (map2 (\<lambda>g s. (g_id g, s)) (t_groups topo) (mr_groups r))\<rparr>"

definition to_state :: "topology \<Rightarrow> reconciled \<Rightarrow> mix_state" where
  "to_state topo r =
     \<lparr>ms_inputs = bm_collect (map2 (\<lambda>n s. (n_id n, s)) (t_inputs topo) (rs_inputs r)),
      ms_mixes = bm_collect (map (\<lambda>(m, node, rec). (m_id node, mix_of topo m rec))
        (enumerate 0 (zip (t_mixes topo) (rs_mixes r))))\<rparr>"

definition defaults_muted :: "topology \<Rightarrow> mix_state" where
  "defaults_muted topo =
     (let r = fst (core_reconcile topo mix_state_default)
      in to_state topo (r\<lparr>rs_mixes := map (\<lambda>rec. rec\<lparr>mr_out := (mr_out rec)\<lparr>mo_muted := True\<rparr>\<rparr>) (rs_mixes r)\<rparr>))"

subsection \<open>The shape of a reconciled state\<close>

text \<open>Every slot of the topology is there and every value is within its cap.\<close>

definition rec_ok :: "topology \<Rightarrow> nat \<Rightarrow> mix_rec \<Rightarrow> bool" where
  "rec_ok topo m r =
     (out_ok (mr_out r) \<and> list_all level_ok (mr_levels r) \<and> list_all group_ok (mr_groups r) \<and>
      length (mr_levels r) = levels topo m \<and> length (mr_groups r) = length (t_groups topo))"

definition state_ok :: "topology \<Rightarrow> reconciled \<Rightarrow> bool" where
  "state_ok topo r =
     (length (rs_inputs r) = length (t_inputs topo) \<and> list_all input_ok (rs_inputs r) \<and>
      length (rs_mixes r) = length (t_mixes topo) \<and>
      (\<forall>m < length (t_mixes topo). rec_ok topo m (rs_mixes r ! m)))"

subsection \<open>The topology as the protocol sees it\<close>

definition minfo :: "topology \<Rightarrow> mix_node \<Rightarrow> mix_info" where
  "minfo t n =
     \<lparr>mi_id = m_id n, mi_channels = (if m_mono n then 1 else 2),
      mi_mixes = List.map_filter (\<lambda>m. map_option m_id (lget (t_mixes t) m)) (m_mixes n),
      mi_peers = List.map_filter (\<lambda>m. map_option m_id (lget (t_mixes t) m)) (m_peers n)\<rparr>"

lemma info_mixes: "ti_mixes (info t) = map (minfo t) (t_mixes t)"
  by (simp add: info_def minfo_def Let_def)

lemma minfo_id [simp]: "mi_id (minfo t n) = m_id n"
  by (simp add: minfo_def)

lemma info_known:
  "known_input (info t) i \<longleftrightarrow> i \<in> n_id ` set (t_inputs t)"
  "known_group (info t) i \<longleftrightarrow> i \<in> g_id ` set (t_groups t)"
  "known_mix (info t) i \<longleftrightarrow> i \<in> m_id ` set (t_mixes t)"
  by (simp_all add: known_iff info_def Let_def image_image)

lemma info_distinct: "topo_wf t \<Longrightarrow> distinct (map mi_id (ti_mixes (info t)))"
  by (simp add: info_mixes comp_def topo_wf_def)

lemma map_filter_mem: "x \<in> set (List.map_filter f xs) \<longleftrightarrow> (\<exists>y \<in> set xs. f y = Some x)"
  by (force simp: map_filter_def)

lemma position_mem: "position (\<lambda>x. x = a) xs = None \<longleftrightarrow> a \<notin> set xs"
  by (auto simp: position_None_iff)

text \<open>A mix hears another by id exactly when the source has a level slot there.\<close>

lemma hears_slot:
  assumes wf: "topo_wf t" and m: "m < length (t_mixes t)"
  shows "hears (minfo t (t_mixes t ! m)) h \<longleftrightarrow> slot t m (SrcMix h) \<noteq> None"
proof -
  let ?n = "t_mixes t ! m"
  have "hears (minfo t ?n) h \<longleftrightarrow>
      (\<exists>j. j < length (t_mixes t) \<and> m_id (t_mixes t ! j) = h \<and> (j \<in> set (m_mixes ?n) \<or> j \<in> set (m_peers ?n)))"
    by (auto simp: hears_def minfo_def map_filter_mem)
  also have "\<dots> \<longleftrightarrow> (\<exists>j. mix_index t h = Some j \<and> (j \<in> set (m_mixes ?n) \<or> j \<in> set (m_peers ?n)))"
    by (auto simp: wf_mix_index [OF wf])
  also have "\<dots> \<longleftrightarrow> slot t m (SrcMix h) \<noteq> None"
  proof (cases "mix_index t h")
    case (Some j)
    then show ?thesis
      using m position_mem [of j "m_mixes ?n"] position_mem [of j "m_peers ?n"]
      by (cases "position (\<lambda>h. h = j) (m_mixes ?n)"; cases "position (\<lambda>h. h = j) (m_peers ?n)")
        (simp_all add: slot_def lget_def)
  qed (simp add: slot_def lget_def m)
  finally show ?thesis .
qed

lemma known_slot:
  assumes "topo_wf t" and "m < length (t_mixes t)"
  shows "known_input (info t) i \<longleftrightarrow> slot t m (SrcInput i) \<noteq> None"
proof -
  have "known_input (info t) i \<longleftrightarrow> (\<exists>k. input_index t i = Some k)"
    by (auto simp: info_known wf_input_index [OF assms(1)] in_set_conv_nth image_iff) (use nth_mem in blast)+
  with assms(2) show ?thesis by (simp add: slot_def lget_def)
qed

subsection \<open>What reconciling gives, slot by slot\<close>

lemma shape_level:
  assumes "topo_wf t" and "m < length (t_mixes t)"
  shows "mix_level (shape_mix (info t) given (minfo t (t_mixes t ! m))) src =
    (if slot t m src \<noteq> None
     then Some (capped_or cap_level level_default (Option.bind given (\<lambda>x. mix_level x src))) else None)"
proof (cases src)
  case (SrcInput i)
  with known_slot [OF assms, of i] show ?thesis by (simp add: shape_mix_lookups)
next
  case (SrcMix i)
  with hears_slot [OF assms, of i] show ?thesis by (simp add: shape_mix_lookups)
qed

lemma shaped_mix:
  assumes "topo_wf t" and "m < length (t_mixes t)"
  shows "map_of (ms_mixes (fst (reconcile (info t) s))) (m_id (t_mixes t ! m))
    = Some (shape_mix (info t) (map_of (ms_mixes s) (m_id (t_mixes t ! m))) (minfo t (t_mixes t ! m)))"
  using reconcile_mix_lookup [OF info_distinct [OF assms(1)], of "minfo t (t_mixes t ! m)" s] assms(2)
  by (simp add: info_mixes)

lemma core_reconcile_simps:
  "rs_inputs (fst (core_reconcile t s)) =
     map (\<lambda>n. or_default input_default (map_of (ms_inputs (fst (reconcile (info t) s))) (n_id n))) (t_inputs t)"
  "rs_mixes (fst (core_reconcile t s)) =
     map (\<lambda>(m, node). rec_of t (fst (reconcile (info t) s)) m node) (enumerate 0 (t_mixes t))"
  "snd (core_reconcile t s) = snd (reconcile (info t) s)"
  by (simp_all add: core_reconcile_def case_prod_beta)

lemma core_reconcile_input:
  "i < length (t_inputs t) \<Longrightarrow> rs_inputs (fst (core_reconcile t s)) ! i =
     capped_or cap_input input_default (map_of (ms_inputs s) (n_id (t_inputs t ! i)))"
  by (simp add: core_reconcile_simps reconcile_input_lookup info_known)

lemma core_reconcile_mix:
  fixes s :: mix_state
  assumes wf: "topo_wf t" and m: "m < length (t_mixes t)"
  defines "given \<equiv> map_of (ms_mixes s) (m_id (t_mixes t ! m))"
  shows "rs_mixes (fst (core_reconcile t s)) ! m =
    \<lparr>mr_out = capped_or cap_out out_default (map_option mx_out given),
     mr_levels = map (\<lambda>k. capped_or cap_level level_default
       (Option.bind given (\<lambda>x. mix_level x (the (t_source t m k))))) [0..<levels t m],
     mr_groups = map (\<lambda>g. capped_or cap_group group_default
       (Option.bind given (\<lambda>x. map_of (mx_groups x) (g_id g)))) (t_groups t)\<rparr>"
proof -
  have lv: "or_default level_default (case t_source t m k of None \<Rightarrow> None
        | Some src \<Rightarrow> Option.bind (Some (shape_mix (info t) given (minfo t (t_mixes t ! m)))) (\<lambda>x. mix_level x src))
      = capped_or cap_level level_default (Option.bind given (\<lambda>x. mix_level x (the (t_source t m k))))"
    if k: "k < levels t m" for k
  proof -
    obtain src where src: "t_source t m k = Some src"
      using ls.source_total [OF wf m k] by auto
    then have "slot t m src = Some k" by (rule ls.source_sound [OF wf])
    with src show ?thesis by (simp add: shape_level [OF wf m])
  qed
  have "rs_mixes (fst (core_reconcile t s)) ! m = rec_of t (fst (reconcile (info t) s)) m (t_mixes t ! m)"
    using m by (simp add: core_reconcile_simps nth_enumerate_eq)
  also have "\<dots> = \<lparr>mr_out = capped_or cap_out out_default (map_option mx_out given),
     mr_levels = map (\<lambda>k. or_default level_default (case t_source t m k of None \<Rightarrow> None
        | Some src \<Rightarrow> Option.bind (Some (shape_mix (info t) given (minfo t (t_mixes t ! m)))) (\<lambda>x. mix_level x src)))
       [0..<levels t m],
     mr_groups = map (\<lambda>g. capped_or cap_group group_default
       (Option.bind given (\<lambda>x. map_of (mx_groups x) (g_id g)))) (t_groups t)\<rparr>"
    using m by (simp add: rec_of_def Let_def shaped_mix [OF wf] shape_mix_out shape_mix_lookups info_known
        flip: given_def)
  finally show ?thesis using lv by (simp cong: map_cong)
qed

lemma core_reconcile_ok:
  assumes "topo_wf t"
  shows "state_ok t (fst (core_reconcile t s))"
proof -
  have len: "length (rs_inputs (fst (core_reconcile t s))) = length (t_inputs t)"
    "length (rs_mixes (fst (core_reconcile t s))) = length (t_mixes t)"
    by (simp_all add: core_reconcile_simps)
  then show ?thesis
    by (simp add: state_ok_def rec_ok_def core_reconcile_mix [OF assms] core_reconcile_input list_all_length)
qed

subsection \<open>Back to the protocol's form\<close>

lemma map_of_rev_zip:
  assumes "distinct (map f xs)" and "length ys = length xs" and "i < length xs"
  shows "map_of (rev (map2 (\<lambda>x y. (f x, g y)) xs ys)) (f (xs ! i)) = Some (g (ys ! i))"
proof (rule map_of_is_SomeI)
  have "map fst (map2 (\<lambda>x y. (f x, g y)) xs ys) = map f xs"
    using assms(2) by (auto intro: nth_equalityI)
  with assms(1) show "distinct (map fst (rev (map2 (\<lambda>x y. (f x, g y)) xs ys)))"
    by (simp only: rev_map [symmetric] distinct_rev)
  show "(f (xs ! i), g (ys ! i)) \<in> set (rev (map2 (\<lambda>x y. (f x, g y)) xs ys))"
    using assms(2,3) by (auto simp: set_zip image_iff intro: exI [of _ i])
qed

lemma to_state_input:
  assumes "topo_wf t" and "state_ok t r" and "i < length (t_inputs t)"
  shows "map_of (ms_inputs (to_state t r)) (n_id (t_inputs t ! i)) = Some (rs_inputs r ! i)"
  using map_of_rev_zip [of n_id "t_inputs t" "rs_inputs r" i "\<lambda>x. x"] assms
  by (simp add: to_state_def topo_wf_def state_ok_def)

lemma level_insert_level:
  "mix_level (level_insert t m (k, l) x) src = (if t_source t m k = Some src then Some l else mix_level x src)"
  by (cases src) (auto simp: level_insert_def split: option.splits source.splits)

lemma level_insert_keeps [simp]:
  "mx_out (level_insert t m kl x) = mx_out x" "mx_groups (level_insert t m kl x) = mx_groups x"
  by (auto simp: level_insert_def split: option.splits source.splits)

lemma fold_level_insert:
  assumes "topo_wf t"
  shows "mix_level (fold (level_insert t m) (enumerate j ls) x) src =
    (case slot t m src of
       Some k \<Rightarrow> if j \<le> k \<and> k < j + length ls then Some (ls ! (k - j)) else mix_level x src
     | None \<Rightarrow> mix_level x src)"
proof (induction ls arbitrary: j x)
  case (Cons l ls)
  have "t_source t m j = Some src \<longleftrightarrow> slot t m src = Some j"
    using ls.slot_iff_source [OF assms] by auto
  then show ?case
    by (auto simp: Cons.IH level_insert_level split: option.splits)
qed (auto split: option.splits)

lemma fold_level_keeps:
  "mx_out (fold (level_insert t m) kls x) = mx_out x" "mx_groups (fold (level_insert t m) kls x) = mx_groups x"
  by (induction kls arbitrary: x) simp_all

lemma mix_level_groups [simp]: "mix_level (x\<lparr>mx_groups := g\<rparr>) src = mix_level x src"
  by (cases src) simp_all

lemma mix_level_default: "mix_level (mix_default\<lparr>mx_out := o'\<rparr>) src = None"
  by (cases src) (simp_all add: mix_default_def)

lemma mix_of_level:
  assumes "topo_wf t" and "length (mr_levels r) = levels t m"
  shows "mix_level (mix_of t m r) src = map_option (\<lambda>k. mr_levels r ! k) (slot t m src)"
  using ls.slot_sound [OF assms(1)] assms(2)
  by (auto simp: mix_of_def fold_level_insert [OF assms(1)] mix_level_default split: option.splits)

lemma mix_of_out [simp]: "mx_out (mix_of t m r) = mr_out r"
  by (simp add: mix_of_def fold_level_keeps)

lemma mix_of_group:
  assumes "topo_wf t" and "length (mr_groups r) = length (t_groups t)" and "g < length (t_groups t)"
  shows "map_of (mx_groups (mix_of t m r)) (g_id (t_groups t ! g)) = Some (mr_groups r ! g)"
  using map_of_rev_zip [of g_id "t_groups t" "mr_groups r" g "\<lambda>x. x"] assms
  by (simp add: mix_of_def topo_wf_def)

lemma to_state_mix:
  assumes "topo_wf t" and "state_ok t r" and "m < length (t_mixes t)"
  shows "map_of (ms_mixes (to_state t r)) (m_id (t_mixes t ! m)) = Some (mix_of t m (rs_mixes r ! m))"
proof -
  let ?ps = "map (\<lambda>(m, node, rec). (m_id node, mix_of t m rec)) (enumerate 0 (zip (t_mixes t) (rs_mixes r)))"
  have len: "length (rs_mixes r) = length (t_mixes t)" using assms(2) by (simp add: state_ok_def)
  then have "map fst ?ps = map m_id (t_mixes t)"
    by (auto intro!: nth_equalityI simp: nth_enumerate_eq)
  then have "distinct (map fst (rev ?ps))"
    using assms(1) by (simp only: rev_map [symmetric] distinct_rev topo_wf_def)
  moreover have "?ps ! m = (m_id (t_mixes t ! m), mix_of t m (rs_mixes r ! m))"
    using len assms(3) by (simp add: nth_enumerate_eq)
  then have "(m_id (t_mixes t ! m), mix_of t m (rs_mixes r ! m)) \<in> set (rev ?ps)"
    using len assms(3) nth_mem [of m ?ps] by (simp del: nth_map)
  ultimately show ?thesis
    by (simp add: to_state_def)
qed

text \<open>Nothing in the protocol form of a state is unknown to its topology.\<close>

lemma to_state_known:
  "map_of (ms_inputs (to_state t r)) i = Some s \<Longrightarrow> known_input (info t) i"
  "map_of (ms_mixes (to_state t r)) i = Some x \<Longrightarrow> known_mix (info t) i"
proof -
  assume "map_of (ms_inputs (to_state t r)) i = Some s"
  then have "(i, s) \<in> set (map2 (\<lambda>n s. (n_id n, s)) (t_inputs t) (rs_inputs r))"
    by (auto simp: to_state_def dest: map_of_SomeD)
  then show "known_input (info t) i" by (auto simp: info_known dest: set_zip_leftD)
next
  assume "map_of (ms_mixes (to_state t r)) i = Some x"
  then have "(i, x) \<in> set (map (\<lambda>(m, node, rec). (m_id node, mix_of t m rec)) (enumerate 0 (zip (t_mixes t) (rs_mixes r))))"
    by (auto simp: to_state_def dest!: map_of_SomeD simp flip: rev_map)
  then show "known_mix (info t) i"
    by (auto simp: info_known in_set_enumerate_eq)
qed

lemma mix_of_dropped:
  assumes wf: "topo_wf t" and m: "m < length (t_mixes t)" and len: "length (mr_levels r) = levels t m"
  shows "mix_dropped (info t) (Some (mix_of t m r)) (minfo t (t_mixes t ! m)) = []"
proof -
  have lv: "mix_level (mix_of t m r) src = Some l \<Longrightarrow> slot t m src \<noteq> None" for src l
    by (auto simp: mix_of_level [OF wf len])
  have "map_of (mx_inputs (mix_of t m r)) i = Some l \<Longrightarrow> known_input (info t) i" for i l
    using lv [of "SrcInput i" l] known_slot [OF wf m, of i] by simp
  moreover have "map_of (mx_mixes (mix_of t m r)) i = Some l \<Longrightarrow> hears (minfo t (t_mixes t ! m)) i" for i l
    using lv [of "SrcMix i" l] hears_slot [OF wf m, of i] by simp
  moreover have "map_of (mx_groups (mix_of t m r)) i = Some g \<Longrightarrow> known_group (info t) i" for i g
    by (auto simp: mix_of_def info_known dest!: map_of_SomeD dest: set_zip_leftD intro!: imageI)
  ultimately show ?thesis
    by (auto simp: mix_dropped_def Let_def filter_empty_conv bm_keys_set dom_def)
qed

lemma to_state_dropped:
  assumes "topo_wf t" and "state_ok t r"
  shows "snd (reconcile (info t) (to_state t r)) = []"
proof -
  have "mix_dropped (info t) (map_of (ms_mixes (to_state t r)) (mi_id n)) n = []" if n: "n \<in> set (ti_mixes (info t))" for n
  proof -
    from n obtain m where m: "m < length (t_mixes t)" "n = minfo t (t_mixes t ! m)"
      by (auto simp: info_mixes in_set_conv_nth)
    with assms show ?thesis
      by (simp add: to_state_mix mix_of_dropped state_ok_def rec_ok_def)
  qed
  moreover have "known_input (info t) i" if "i \<in> set (bm_keys (ms_inputs (to_state t r)))" for i
    using that by (auto simp: bm_keys_set dom_def intro: to_state_known)
  moreover have "known_mix (info t) i" if "i \<in> set (bm_keys (ms_mixes (to_state t r)))" for i
    using that by (auto simp: bm_keys_set dom_def intro: to_state_known)
  ultimately show ?thesis by (auto simp: reconcile_def filter_empty_conv)
qed

lemma reconcile_to_state:
  assumes wf: "topo_wf t" and ok: "state_ok t r"
  shows "core_reconcile t (to_state t r) = (r, [])"
proof (rule prod_eqI)
  let ?r = "fst (core_reconcile t (to_state t r))"
  have len: "length (rs_inputs ?r) = length (t_inputs t)" "length (rs_mixes ?r) = length (t_mixes t)"
    using core_reconcile_ok [OF wf] by (simp_all add: state_ok_def)
  have "rs_inputs ?r = rs_inputs r"
    using ok by (intro nth_equalityI)
      (simp_all add: len state_ok_def core_reconcile_input to_state_input [OF wf ok] list_all_length inc.capped_or_keeps)
  moreover have "rs_mixes ?r ! m = rs_mixes r ! m" if m: "m < length (t_mixes t)" for m
  proof -
    let ?q = "rs_mixes r ! m"
    have q: "rec_ok t m ?q" using ok m by (simp add: state_ok_def)
    have "capped_or cap_level level_default (mix_level (mix_of t m ?q) (the (t_source t m k))) = mr_levels ?q ! k"
      if k: "k < levels t m" for k
    proof -
      obtain src where src: "t_source t m k = Some src" using ls.source_total [OF wf m k] by auto
      then have "slot t m src = Some k" by (rule ls.source_sound [OF wf])
      with src q k show ?thesis
        by (simp add: mix_of_level [OF wf] rec_ok_def list_all_length lvc.capped_or_keeps)
    qed
    moreover have "capped_or cap_group group_default (map_of (mx_groups (mix_of t m ?q)) (g_id (t_groups t ! g))) = mr_groups ?q ! g"
      if "g < length (t_groups t)" for g
      using q that by (simp add: mix_of_group [OF wf] rec_ok_def list_all_length grc.capped_or_keeps)
    moreover have "capped_or cap_out out_default (Some (mr_out ?q)) = mr_out ?q"
      using q by (simp add: rec_ok_def ouc.capped_or_keeps)
    ultimately show ?thesis
      using q m by (simp add: core_reconcile_mix [OF wf m] to_state_mix [OF wf ok m] rec_ok_def list_eq_iff_nth_eq)
  qed
  then have "rs_mixes ?r = rs_mixes r"
    using ok len by (intro nth_equalityI) (simp_all add: state_ok_def)
  ultimately show "?r = fst (r, [])" by simp
  show "snd (core_reconcile t (to_state t r)) = snd (r, [])"
    using to_state_dropped [OF wf ok] by (simp add: core_reconcile_simps)
qed

subsection \<open>Properties\<close>

text \<open>
  The engine's own state survives the protocol: every state that has a value within its cap
  in every slot of a compiled topology goes out as a protocol state and comes back unchanged,
  with nothing dropped; and what \<open>reconcile\<close> makes of any received state is such a state.
\<close>

theorem state_roundtrip:
  assumes "compile digest s = Inr t" and "state_ok t r"
  shows "core_reconcile t (to_state t r) = (r, []) \<and> state_ok t (fst (core_reconcile t given))"
  using reconcile_to_state core_reconcile_ok compile_wf [OF assms(1)] assms(2) by blast

end
