(* ===== verification/Core.thy ===== *)
theory Core
  imports CoreState
begin

text \<open>
  The control core (\<open>core.rs\<close>, \<open>core/commands.rs\<close>), the single writer of the mix state: one
  request in, the new state with the revision, the changed entities and one group of RT
  commands out. A method that takes \<open>&mut self\<close> and may fail returns the core it leaves behind
  beside its result, so that what an error leaves is part of the model.
\<close>

subsection \<open>Data\<close>

record flags =
  f_test_signal :: bool
  f_fault_injection :: bool

datatype effect = NoEffect | SendState | SendTopology | Save | EffShutdown | Imported

record outcome =
  oc_rev :: u64
  oc_changes :: "change list"
  oc_rt :: "rt_op list"
  oc_effect :: effect

record cmd_error =
  ce_code :: err_code
  ce_msg :: string

abbreviation cmd_err :: "err_code \<Rightarrow> string \<Rightarrow> cmd_error" where
  "cmd_err c m \<equiv> \<lparr>ce_code = c, ce_msg = m\<rparr>"

record partial_out =
  pa_changes :: "change list"
  pa_rt :: "rt_op list"
  pa_effect :: "effect option"
  pa_bump :: bool

definition partial_default :: partial_out where
  "partial_default = \<lparr>pa_changes = [], pa_rt = [], pa_effect = None, pa_bump = False\<rparr>"

definition partial_changed :: "change list \<Rightarrow> rt_op list \<Rightarrow> partial_out" where
  "partial_changed changes rt = \<lparr>pa_changes = changes, pa_rt = rt, pa_effect = None, pa_bump = (changes \<noteq> [])\<rparr>"

definition partial_effect :: "effect \<Rightarrow> partial_out" where
  "partial_effect e = partial_default\<lparr>pa_effect := Some e\<rparr>"

record core =
  co_topo :: topology
  co_s :: reconciled
  co_solo :: "(nat, nat list) btree"
  co_listen :: "nat option \<times> nat option"
  co_test :: "test_signal option"
  co_hil_test :: bool
  co_hil :: "u16 list"
  co_rev :: u64
  co_flags :: flags

text \<open>The result of a fallible method on the core, and \<open>?\<close> inside one.\<close>

type_synonym 'a core_m = "core \<times> (cmd_error + 'a)"

definition try_c :: "cmd_error + 'a \<Rightarrow> core \<Rightarrow> ('a \<Rightarrow> 'b core_m) \<Rightarrow> 'b core_m" where
  "try_c r c k = (case r of Inl e \<Rightarrow> (c, Inl e) | Inr a \<Rightarrow> k a)"

definition ok_c :: "core \<times> 'a \<Rightarrow> 'a core_m" where
  "ok_c cp = (fst cp, Inr (snd cp))"

lemma try_c_simps [simp]: "try_c (Inl e) c k = (c, Inl e)" "try_c (Inr a) c k = k a"
  by (simp_all add: try_c_def)

subsection \<open>Helpers\<close>

definition capped :: "f64 \<Rightarrow> range \<Rightarrow> string \<Rightarrow> cmd_error + f64" where
  "capped v r what = ok_or (cap v r) (cmd_err BadValue (what @ '' is not finite''))"

definition capped_opt :: "f64 option \<Rightarrow> range \<Rightarrow> string \<Rightarrow> f64 \<Rightarrow> cmd_error + f64" where
  "capped_opt v r what old = (case v of None \<Rightarrow> Inr old | Some x \<Rightarrow> capped x r what)"

fun batchable :: "cmd \<Rightarrow> bool" where
  "batchable (SetInput _ _ _ _) = True"
| "batchable (SetMix _ _ _) = True"
| "batchable (SetLevel _ _ _ _ _) = True"
| "batchable (SetGroup _ _ _ _) = True"
| "batchable (SetEq _ _) = True"
| "batchable (SetLimiter _ _ _) = True"
| "batchable (ResetLimiterStats _) = True"
| "batchable (SetSolo _ _) = True"
| "batchable (StartListen _) = True"
| "batchable (StopListen _) = True"
| "batchable _ = False"

definition hil_mask_step :: "topology \<Rightarrow> u16 list \<Rightarrow> u16 \<Rightarrow> hil_mask \<Rightarrow> cmd_error + hil_mask" where
  "hil_mask_step topo hil ch msk =
     (case mix_tx_refusal topo ch of
        Some why \<Rightarrow> Inl (cmd_err Forbidden why)
      | None \<Rightarrow>
          (case position (\<lambda>c. c = ch) hil of
             None \<Rightarrow> Inl (cmd_err UnknownId (''card output '' @ show_nat (unat ch) @
                        '' is not a HIL output of this engine ([guard] hil_tx)''))
           | Some k \<Rightarrow>
               if k < length msk then Inr (msk[k := True])
               else Inl (cmd_err BadValue (''card output '' @ show_nat (unat ch) @ '' is beyond the first '' @
                      show_nat MAX_HIL @ '' HIL outputs''))))"

definition hil_mask :: "topology \<Rightarrow> u16 list \<Rightarrow> u16 list \<Rightarrow> cmd_error + hil_mask" where
  "hil_mask topo hil card_tx =
     (if card_tx = [] then Inl (cmd_err BadValue ''the HIL test signal names no card output'')
      else fold_r (hil_mask_step topo hil) card_tx (replicate MAX_HIL False))"

subsection \<open>Construction and queries\<close>

definition core_new :: "topology \<Rightarrow> mix_state \<Rightarrow> u64 \<Rightarrow> flags \<Rightarrow> core" where
  "core_new topo state rv fl =
     \<lparr>co_topo = topo, co_s = fst (core_reconcile topo state), co_solo = [], co_listen = (None, None),
      co_test = None, co_hil_test = False, co_hil = [], co_rev = rv, co_flags = fl\<rparr>"

definition with_hil :: "u16 list \<Rightarrow> core \<Rightarrow> core" where
  "with_hil hil c = c\<lparr>co_hil := hil\<rparr>"

definition core_state :: "core \<Rightarrow> mix_state" where
  "core_state c = to_state (co_topo c) (co_s c)"

definition mix_id_of :: "topology \<Rightarrow> nat \<Rightarrow> mix_id option" where
  "mix_id_of topo m = map_option m_id (lget (t_mixes topo) m)"

definition core_transient :: "core \<Rightarrow> transient" where
  "core_transient c =
     \<lparr>tr_solo = List.map_filter (\<lambda>(m, ks). map_option (\<lambda>i. \<lparr>so_mix = i,
          so_sources = List.map_filter (t_source (co_topo c) m) ks\<rparr>) (mix_id_of (co_topo c) m)) (co_solo c),
      tr_listen = map_prod (\<lambda>l. Option.bind l (mix_id_of (co_topo c)))
                    (\<lambda>l. Option.bind l (mix_id_of (co_topo c))) (co_listen c),
      tr_test_signal = co_test c\<rparr>"

definition core_input :: "core \<Rightarrow> input_id \<Rightarrow> cmd_error + nat" where
  "core_input c i = ok_or (input_index (co_topo c) i) (cmd_err UnknownId (''unknown input '' @ clip i))"

definition core_mix :: "core \<Rightarrow> mix_id \<Rightarrow> cmd_error + nat" where
  "core_mix c i = ok_or (mix_index (co_topo c) i) (cmd_err UnknownId (''unknown mix '' @ clip i))"

definition core_group :: "core \<Rightarrow> group_id \<Rightarrow> cmd_error + nat" where
  "core_group c i = ok_or (group_index (co_topo c) i) (cmd_err UnknownId (''unknown group '' @ clip i))"

definition core_out :: "core \<Rightarrow> nat \<Rightarrow> mix_out" where
  "core_out c m = or_default out_default (map_option mr_out (lget (rs_mixes (co_s c)) m))"

definition core_level :: "core \<Rightarrow> nat \<Rightarrow> nat \<Rightarrow> level" where
  "core_level c m k =
     or_default level_default (Option.bind (lget (rs_mixes (co_s c)) m) (\<lambda>r. lget (mr_levels r) k))"

definition core_strip :: "core \<Rightarrow> nat \<Rightarrow> nat \<Rightarrow> mix_group" where
  "core_strip c m g =
     or_default group_default (Option.bind (lget (rs_mixes (co_s c)) m) (\<lambda>r. lget (mr_groups r) g))"

subsection \<open>RT commands of an entity\<close>

definition out_op :: "libm \<Rightarrow> nat \<Rightarrow> mix_out \<Rightarrow> rt_op" where
  "out_op lm m o' = RMixOut (ix m) (db_to_lin lm (mo_volume_db o')) (mo_muted o')"

definition limiter_op :: "nat \<Rightarrow> mix_out \<Rightarrow> rt_op" where
  "limiter_op m o' = RLimiter (ix m) (lim_enabled (mo_limiter o')) (lim_limit_db (mo_limiter o'))"

definition group_op :: "libm \<Rightarrow> nat \<Rightarrow> nat \<Rightarrow> mix_group \<Rightarrow> rt_op" where
  "group_op lm m g s = RGroup (ix m) (ix g) (db_to_lin lm (mg_gain_db s)) (mg_muted s)"

definition solo_out :: "core \<Rightarrow> nat \<Rightarrow> nat \<Rightarrow> bool" where
  "solo_out c m k = (case map_of (co_solo c) m of Some ks \<Rightarrow> k \<notin> set ks | None \<Rightarrow> False)"

definition level_op :: "libm \<Rightarrow> core \<Rightarrow> nat \<Rightarrow> nat \<Rightarrow> rt_op" where
  "level_op lm c m k =
     (let l = core_level c m k
      in RLevel (ix m) (ix k) (db_to_lin lm (lv_gain_db l)) (lv_pan l) (lv_muted l \<or> solo_out c m k))"

definition level_ops :: "libm \<Rightarrow> core \<Rightarrow> nat \<Rightarrow> rt_op list" where
  "level_ops lm c m = map (level_op lm c m) [0..<levels (co_topo c) m]"

definition input_sync :: "libm \<Rightarrow> nat \<times> input_state \<Rightarrow> rt_op list" where
  "input_sync lm p = [RInput (ix (fst p)) (input_params lm (snd p)), RInputEq (ix (fst p)) (eq_params lm (in_eq (snd p)))]"

definition group_sync :: "libm \<Rightarrow> nat \<Rightarrow> nat \<times> mix_group \<Rightarrow> rt_op list" where
  "group_sync lm m gs = [group_op lm m (fst gs) (snd gs), RGroupEq (ix m) (ix (fst gs)) (eq_params lm (mg_eq (snd gs)))]"

definition mix_sync :: "libm \<Rightarrow> core \<Rightarrow> nat \<times> mix_rec \<Rightarrow> rt_op list" where
  "mix_sync lm c mr =
     (let m = fst mr; r = snd mr
      in [out_op lm m (mr_out r), RMixEq (ix m) (eq_params lm (mo_eq (mr_out r))), limiter_op m (mr_out r)]
         @ level_ops lm c m @ concat (map (group_sync lm m) (enumerate 0 (mr_groups r))))"

definition full_sync :: "libm \<Rightarrow> core \<Rightarrow> rt_op list" where
  "full_sync lm c =
     concat (map (input_sync lm) (enumerate 0 (rs_inputs (co_s c))))
     @ concat (map (mix_sync lm c) (enumerate 0 (rs_mixes (co_s c))))"

subsection \<open>Setters\<close>

definition set_input :: "libm \<Rightarrow> nat \<Rightarrow> input_state \<Rightarrow> core \<Rightarrow> core \<times> partial_out" where
  "set_input lm i new c =
     (case (lget (rs_inputs (co_s c)) i, lget (t_inputs (co_topo c)) i) of
        (Some old, Some node) \<Rightarrow>
          if input_eq old new then (c, partial_default)
          else
            (c\<lparr>co_s := (co_s c)\<lparr>rs_inputs := (rs_inputs (co_s c))[i := new]\<rparr>\<rparr>,
             partial_changed [ChInput (n_id node) new]
               ((if input_eq (old\<lparr>in_eq := in_eq new\<rparr>) new then [] else [RInput (ix i) (input_params lm new)]) @
                (if eq_eq (in_eq old) (in_eq new) then [] else [RInputEq (ix i) (eq_params lm (in_eq new))])))
      | _ \<Rightarrow> (c, partial_default))"

definition upd_mix :: "nat \<Rightarrow> (mix_rec \<Rightarrow> mix_rec) \<Rightarrow> core \<Rightarrow> core" where
  "upd_mix m f c = c\<lparr>co_s := (co_s c)\<lparr>rs_mixes := lmod (rs_mixes (co_s c)) m f\<rparr>\<rparr>"

definition set_out :: "libm \<Rightarrow> nat \<Rightarrow> mix_out \<Rightarrow> core \<Rightarrow> core \<times> partial_out" where
  "set_out lm m new c =
     (case (lget (rs_mixes (co_s c)) m, lget (t_mixes (co_topo c)) m) of
        (Some rec, Some node) \<Rightarrow>
          (let old = mr_out rec in
           if out_eq old new then (c, partial_default)
           else
             (upd_mix m (\<lambda>r. r\<lparr>mr_out := new\<rparr>) c,
              partial_changed [ChMixOut (m_id node) new]
                ((if feq (mo_volume_db old) (mo_volume_db new) \<and> mo_muted old = mo_muted new then [] else [out_op lm m new]) @
                 (if eq_eq (mo_eq old) (mo_eq new) then [] else [RMixEq (ix m) (eq_params lm (mo_eq new))]) @
                 (if limiter_eq (mo_limiter old) (mo_limiter new) then [] else [limiter_op m new]))))
      | _ \<Rightarrow> (c, partial_default))"

definition set_level :: "libm \<Rightarrow> nat \<Rightarrow> nat \<Rightarrow> level \<Rightarrow> core \<Rightarrow> core \<times> partial_out" where
  "set_level lm m k new c =
     (case (lget (t_mixes (co_topo c)) m, t_source (co_topo c) m k) of
        (Some node, Some src) \<Rightarrow>
          (case Option.bind (lget (rs_mixes (co_s c)) m) (\<lambda>r. lget (mr_levels r) k) of
             None \<Rightarrow> (c, partial_default)
           | Some old \<Rightarrow>
               if level_eq old new then (c, partial_default)
               else
                 (let c' = upd_mix m (\<lambda>r. r\<lparr>mr_levels := (mr_levels r)[k := new]\<rparr>) c
                  in (c', partial_changed [ChLevel (m_id node) src new] [level_op lm c' m k])))
      | _ \<Rightarrow> (c, partial_default))"

definition set_group :: "libm \<Rightarrow> nat \<Rightarrow> nat \<Rightarrow> mix_group \<Rightarrow> core \<Rightarrow> core \<times> partial_out" where
  "set_group lm m g new c =
     (case (lget (t_mixes (co_topo c)) m, lget (t_groups (co_topo c)) g) of
        (Some node, Some grp) \<Rightarrow>
          (case Option.bind (lget (rs_mixes (co_s c)) m) (\<lambda>r. lget (mr_groups r) g) of
             None \<Rightarrow> (c, partial_default)
           | Some old \<Rightarrow>
               if group_eq old new then (c, partial_default)
               else
                 (upd_mix m (\<lambda>r. r\<lparr>mr_groups := (mr_groups r)[g := new]\<rparr>) c,
                  partial_changed [ChGroup (m_id node) (g_id grp) new]
                    ((if feq (mg_gain_db old) (mg_gain_db new) \<and> mg_muted old = mg_muted new then [] else [group_op lm m g new]) @
                     (if eq_eq (mg_eq old) (mg_eq new) then [] else [RGroupEq (ix m) (ix g) (eq_params lm (mg_eq new))]))))
      | _ \<Rightarrow> (c, partial_default))"

subsection \<open>Solo and listen\<close>

definition solo_step :: "topology \<Rightarrow> nat \<Rightarrow> mix_id \<Rightarrow> source \<Rightarrow> nat list \<Rightarrow> cmd_error + nat list" where
  "solo_step topo m mixid src ks =
     (case slot topo m src of
        Some k \<Rightarrow> Inr (bs_insert k ks)
      | None \<Rightarrow> Inl (cmd_err BadValue (clip (source_str src) @ '' is not heard in '' @ clip mixid)))"

definition set_solo :: "libm \<Rightarrow> mix_id \<Rightarrow> source list \<Rightarrow> core \<Rightarrow> partial_out core_m" where
  "set_solo lm mixid sources c =
     try_c (core_mix c mixid) c (\<lambda>m.
       if MAX_SOLO < length sources
       then (c, Inl (cmd_err BadValue (''at most '' @ show_nat MAX_SOLO @ '' solo sources'')))
       else try_c (fold_r (solo_step (co_topo c) m mixid) sources []) c (\<lambda>new.
         if or_default [] (map_of (co_solo c) m) = new then (c, Inr partial_default)
         else
           (let c' = c\<lparr>co_solo := (if new = [] then bm_remove m (co_solo c) else bm_insert m new (co_solo c))\<rparr>
            in (c', Inr (partial_changed [ChSolo mixid (List.map_filter (t_source (co_topo c) m) new)]
                  (level_ops lm c' m))))))"

definition listen_get :: "nat \<Rightarrow> 'a \<times> 'a \<Rightarrow> 'a" where
  "listen_get n l = (if n = 0 then fst l else snd l)"

definition listen_put :: "nat \<Rightarrow> 'a \<Rightarrow> 'a \<times> 'a \<Rightarrow> 'a \<times> 'a" where
  "listen_put n x l = (if n = 0 then (x, snd l) else (fst l, x))"

definition listen_partial :: "core \<Rightarrow> rt_op list \<Rightarrow> partial_out" where
  "listen_partial c rt =
     (if rt = [] then partial_default
      else partial_changed [ChListen (tr_listen (core_transient c))] rt)"

definition start_listen :: "mix_id \<Rightarrow> core \<Rightarrow> partial_out core_m" where
  "start_listen mixid c =
     try_c (core_mix c mixid) c (\<lambda>m.
       let slt = (if m \<noteq> t_engineer (co_topo c) then 1 else 0); current = listen_get slt (co_listen c) in
       if current = Some m then (c, Inr partial_default)
       else if slt = 1 \<and> current \<noteq> None
       then (c, Inl (cmd_err NoSource ''another mix is being listened to''))
       else
         (let c' = c\<lparr>co_listen := listen_put slt (Some m) (co_listen c)\<rparr>
          in (c', Inr (listen_partial c' [RListen (of_nat slt) (Some (ix m))]))))"

definition stop_slot :: "nat \<Rightarrow> nat \<Rightarrow> (nat option \<times> nat option) \<times> rt_op list \<Rightarrow> (nat option \<times> nat option) \<times> rt_op list" where
  "stop_slot m slt s =
     (if listen_get slt (fst s) = Some m
      then (listen_put slt None (fst s), snd s @ [RListen (of_nat slt) None]) else s)"

definition stop_listen :: "mix_id \<Rightarrow> core \<Rightarrow> partial_out core_m" where
  "stop_listen mixid c =
     try_c (core_mix c mixid) c (\<lambda>m.
       let (l, rt) = fold (stop_slot m) [0, 1] (co_listen c, []);
           c' = c\<lparr>co_listen := l\<rparr>
       in (c', Inr (listen_partial c' rt)))"

subsection \<open>Test signals\<close>

definition test_flag :: "core \<Rightarrow> cmd_error + unit" where
  "test_flag c =
     (if f_test_signal (co_flags c) then Inr ()
      else Inl (cmd_err Forbidden ''the engine runs without the test-signal flag''))"

definition need_fault_injection :: "core \<Rightarrow> cmd_error + unit" where
  "need_fault_injection c =
     (if f_fault_injection (co_flags c) then Inr ()
      else Inl (cmd_err Forbidden ''the engine runs without the fault-injection flag''))"

definition ttl_samples :: "f64 \<Rightarrow> u64" where
  "ttl_samples ttl_s = of_nat (as_unsigned 64 (fround (ttl_s * f64_of_nat SAMPLE_RATE)))"

definition start_test ::
  "libm \<Rightarrow> input_id \<Rightarrow> f64 \<Rightarrow> f64 \<Rightarrow> f64 \<Rightarrow> hil_mask option \<Rightarrow> bool \<Rightarrow> core \<Rightarrow> partial_out core_m" where
  "start_test lm input hz0 dbfs0 ttl0 msk listen c =
     try_c (core_input c input) c (\<lambda>i0.
     try_c (capped hz0 TEST_HZ ''hz'') c (\<lambda>hz.
     try_c (capped dbfs0 TEST_DBFS ''dbfs'') c (\<lambda>dbfs.
     try_c (capped ttl0 TEST_TTL_S ''ttl_s'') c (\<lambda>ttl_s.
       let signal = \<lparr>ts_input = input, ts_hz = hz, ts_dbfs = dbfs, ts_ttl_s = ttl_s\<rparr>;
           c' = c\<lparr>co_test := Some signal, co_hil_test := (msk \<noteq> None)\<rparr>;
           i = ix i0; amp = db_to_lin lm dbfs; ttl = ttl_samples ttl_s;
           op = (case msk of None \<Rightarrow> RTestSignal i hz amp ttl
                 | Some mk \<Rightarrow> RHilTestSignal i hz amp ttl mk listen)
       in (c', Inr (partial_changed [ChTestSignal (Some signal)] [op]))))))"

subsection \<open>One command\<close>

fun one :: "libm \<Rightarrow> cmd \<Rightarrow> core \<Rightarrow> partial_out core_m" where
  "one lm (SetInput input trim_db muted processing) c =
     try_c (core_input c input) c (\<lambda>i.
       let old = or_default input_default (lget (rs_inputs (co_s c)) i) in
       try_c (capped_opt trim_db TRIM_DB ''trim_db'' (in_trim_db old)) c (\<lambda>trim.
         ok_c (set_input lm i (old\<lparr>in_trim_db := trim, in_muted := or_default (in_muted old) muted,
                 in_processing := or_default (in_processing old) processing\<rparr>) c)))"
| "one lm (SetMix mixid volume_db muted) c =
     try_c (core_mix c mixid) c (\<lambda>m.
       let old = core_out c m in
       try_c (capped_opt volume_db FADER_DB ''volume_db'' (mo_volume_db old)) c (\<lambda>v.
         ok_c (set_out lm m (old\<lparr>mo_volume_db := v, mo_muted := or_default (mo_muted old) muted\<rparr>) c)))"
| "one lm (SetLevel mixid src gain_db pan muted) c =
     try_c (core_mix c mixid) c (\<lambda>m.
     try_c (ok_or (slot (co_topo c) m src)
         (cmd_err UnknownId (''mix '' @ clip mixid @ '' does not hear '' @ clip (source_str src)))) c (\<lambda>k.
       let old = core_level c m k in
       try_c (capped_opt gain_db FADER_DB ''gain_db'' (lv_gain_db old)) c (\<lambda>v.
       try_c (capped_opt pan PAN ''pan'' (lv_pan old)) c (\<lambda>p.
         ok_c (set_level lm m k (old\<lparr>lv_gain_db := v, lv_pan := p, lv_muted := or_default (lv_muted old) muted\<rparr>) c)))))"
| "one lm (SetGroup mixid grp gain_db muted) c =
     try_c (core_mix c mixid) c (\<lambda>m.
     try_c (core_group c grp) c (\<lambda>g.
       let old = core_strip c m g in
       try_c (capped_opt gain_db FADER_DB ''gain_db'' (mg_gain_db old)) c (\<lambda>v.
         ok_c (set_group lm m g (old\<lparr>mg_gain_db := v, mg_muted := or_default (mg_muted old) muted\<rparr>) c))))"
| "one lm (SetEq target eq0) c =
     (if \<not> eq_is_finite eq0 then (c, Inl (cmd_err BadValue ''an EQ value is not finite''))
      else
        (let eq = cap_eq eq0 in
         case target of
           TgtInput i \<Rightarrow>
             try_c (core_input c i) c (\<lambda>i.
               ok_c (set_input lm i ((or_default input_default (lget (rs_inputs (co_s c)) i))\<lparr>in_eq := eq\<rparr>) c))
         | TgtMix i \<Rightarrow>
             try_c (core_mix c i) c (\<lambda>m. ok_c (set_out lm m ((core_out c m)\<lparr>mo_eq := eq\<rparr>) c))
         | TgtGroup mixid grp \<Rightarrow>
             try_c (core_mix c mixid) c (\<lambda>m.
             try_c (core_group c grp) c (\<lambda>g.
               ok_c (set_group lm m g ((core_strip c m g)\<lparr>mg_eq := eq\<rparr>) c)))))"
| "one lm (SetLimiter mixid enabled limit_db) c =
     try_c (core_mix c mixid) c (\<lambda>m.
       let old = core_out c m in
       try_c (capped_opt limit_db LIMIT_DB ''limit_db'' (lim_limit_db (mo_limiter old))) c (\<lambda>v.
         ok_c (set_out lm m (old\<lparr>mo_limiter := (mo_limiter old)
           \<lparr>lim_limit_db := v, lim_enabled := or_default (lim_enabled (mo_limiter old)) enabled\<rparr>\<rparr>) c)))"
| "one lm (ResetLimiterStats mixid) c =
     try_c (core_mix c mixid) c (\<lambda>m.
       (c, Inr (partial_changed [ChLimiterStatsReset mixid] [RResetLimiter (ix m)])))"
| "one lm (SetSolo mixid sources) c = set_solo lm mixid sources c"
| "one lm (StartListen mixid) c = start_listen mixid c"
| "one lm (StopListen mixid) c = stop_listen mixid c"
| "one lm (StartTestSignal input hz dbfs ttl_s) c =
     try_c (test_flag c) c (\<lambda>_.
       if co_hil_test c \<and> co_test c \<noteq> None
       then (c, Inl (cmd_err Forbidden ''a HIL test signal runs until its TTL ends''))
       else start_test lm input hz dbfs ttl_s None False c)"
| "one lm (HilTestSignal input hz dbfs ttl_s card_tx listen) c =
     try_c (test_flag c) c (\<lambda>_.
       if snd TEST_DBFS < dbfs
       then (c, Inl (cmd_err BadValue ''dbfs is above the test-signal cap of -20 dBFS''))
       else try_c (hil_mask (co_topo c) (co_hil c) card_tx) c (\<lambda>msk.
         start_test lm input hz dbfs ttl_s (Some msk) listen c))"
| "one lm StopTestSignal c =
     (case co_test c of
        Some _ \<Rightarrow> (c\<lparr>co_test := None\<rparr>, Inr (partial_changed [ChTestSignal None] [RStopTestSignal]))
      | None \<Rightarrow> (c, Inr partial_default))"
| "one lm InjectFault c =
     try_c (need_fault_injection c) c (\<lambda>_. (c, Inr (partial_default\<lparr>pa_rt := [RPanic]\<rparr>)))"
| "one lm (Batch _) c = (c, Inl (cmd_err BadRequest ''nested batch''))"
| "one lm (ImportState state) c =
     (let c' = c\<lparr>co_s := fst (core_reconcile (co_topo c) state)\<rparr>
      in (c', Inr (partial_default\<lparr>pa_rt := full_sync lm c', pa_effect := Some Imported, pa_bump := True\<rparr>)))"
| "one lm GetState c = (c, Inr (partial_effect SendState))"
| "one lm GetTopology c = (c, Inr (partial_effect SendTopology))"
| "one lm SaveNow c = (c, Inr (partial_effect Save))"
| "one lm Shutdown c = (c, Inr (partial_effect EffShutdown))"
| "one lm Ping c = (c, Inr partial_default)"
| "one lm Arm c = (c, Inr (partial_default\<lparr>pa_rt := [RArm]\<rparr>))"

subsection \<open>Batches and requests\<close>

definition finish :: "partial_out \<Rightarrow> core \<Rightarrow> core \<times> outcome" where
  "finish p c =
     (let c' = (if pa_bump p then c\<lparr>co_rev := co_rev c + 1\<rparr> else c)
      in (c', \<lparr>oc_rev = co_rev c', oc_changes = pa_changes p, oc_rt = pa_rt p,
               oc_effect = or_default NoEffect (pa_effect p)\<rparr>))"

definition batch_step :: "libm \<Rightarrow> cmd \<Rightarrow> core \<times> partial_out \<Rightarrow> cmd_error + (core \<times> partial_out)" where
  "batch_step lm op s =
     (if \<not> batchable op then Inl (cmd_err BadRequest ''a batch holds state edits only'')
      else
        (case one lm op (fst s) of
           (_, Inl e) \<Rightarrow> Inl e
         | (next', Inr p) \<Rightarrow>
             Inr (next', (snd s)\<lparr>pa_changes := pa_changes (snd s) @ pa_changes p,
                    pa_rt := pa_rt (snd s) @ pa_rt p, pa_bump := (pa_bump (snd s) \<or> pa_bump p)\<rparr>)))"

definition batch :: "libm \<Rightarrow> cmd list \<Rightarrow> core \<Rightarrow> partial_out core_m" where
  "batch lm ops c =
     (if MAX_BATCH < length ops
      then (c, Inl (cmd_err BadValue (''a batch holds at most '' @ show_nat MAX_BATCH @ '' commands'')))
      else try_c (fold_r (batch_step lm) ops (c, partial_default)) c (\<lambda>(next', all).
        if MAX_CMDS_PER_BLOCK < length (pa_rt all)
        then (c, Inl (cmd_err BadValue ''the batch needs more commands than one block applies''))
        else (next', Inr all)))"

definition core_apply :: "libm \<Rightarrow> cmd \<Rightarrow> core \<Rightarrow> outcome core_m" where
  "core_apply lm cmd c =
     (case (case cmd of Batch ops \<Rightarrow> batch lm ops c | other \<Rightarrow> one lm other c) of
        (c', Inl e) \<Rightarrow> (c', Inl e)
      | (c', Inr p) \<Rightarrow> (let (c'', o') = finish p c' in (c'', Inr o')))"

text \<open>\<open>clear_solos\<close>: the mixes that had a solo when it was called, one after another.\<close>

definition clear_solo_step :: "libm \<Rightarrow> nat \<Rightarrow> core \<times> partial_out \<Rightarrow> core \<times> partial_out" where
  "clear_solo_step lm m s =
     (let c = (fst s)\<lparr>co_solo := bm_remove m (co_solo (fst s))\<rparr>; p = snd s
      in (c, p\<lparr>pa_changes := pa_changes p @
                 (case lget (t_mixes (co_topo c)) m of Some n \<Rightarrow> [ChSolo (m_id n) []] | None \<Rightarrow> []),
              pa_rt := pa_rt p @ level_ops lm c m\<rparr>))"

definition clear_solos :: "libm \<Rightarrow> core \<Rightarrow> core \<times> outcome" where
  "clear_solos lm c =
     (let (c', p) = fold (clear_solo_step lm) (bm_keys (co_solo c)) (c, partial_default)
      in finish (p\<lparr>pa_bump := (pa_changes p \<noteq> [])\<rparr>) c')"

definition end_test_signal :: "core \<Rightarrow> core \<times> outcome" where
  "end_test_signal c =
     (case co_test c of
        Some _ \<Rightarrow> finish (partial_changed [ChTestSignal None] []) (c\<lparr>co_test := None\<rparr>)
      | None \<Rightarrow> finish partial_default c)"

end
