(* ===== verification/Limiter.thy ===== *)
theory Limiter
  imports Dsp
begin

text \<open>
  The MGA limiter port (\<open>iem-limiter-mga\<close>): the per-channel detector, the JSFX core \<open>Mga\<close> and
  the product's \<open>Limiter\<close> around it. A stereo block is the list of its frames.
\<close>

subsection \<open>Constants\<close>

definition RELEASE_MS :: f64 where "RELEASE_MS = Num 50"
definition LINK_PCT :: f64 where "LINK_PCT = Num 75"
definition LIMIT_MIN_DB :: f64 where "LIMIT_MIN_DB = Num (- 6)"
definition LIMIT_MAX_DB :: f64 where "LIMIT_MAX_DB = 0"
definition ACTIVE_BELOW_DB :: f64 where "ACTIVE_BELOW_DB = Num (- 1)"
definition DISABLE_MS :: f64 where "DISABLE_MS = Num 10"
definition MGA_DENORMAL :: f64 where "MGA_DENORMAL = lit (1 / 10 ^ 30)"

record sliders =
  sl_threshold_db :: f64
  sl_release_ms :: f64
  sl_link_pct :: f64
  sl_ceiling_db :: f64

subsection \<open>A channel's detector\<close>

record channel =
  ch_t1 :: f64
  ch_t2 :: f64
  ch_m1 :: f64
  ch_m2 :: f64
  ch_env :: f64

definition channel_new :: "f64 \<Rightarrow> channel" where
  "channel_new hold = \<lparr>ch_t1 = 0, ch_t2 = hold / Num 2, ch_m1 = 0, ch_m2 = 0, ch_env = 0\<rparr>"

definition held_peak :: "f64 \<Rightarrow> f64 \<Rightarrow> channel \<Rightarrow> channel \<times> f64" where
  "held_peak x hold c =
     (let a = \<bar>x\<bar>;
          t1 = ch_t1 c + 1;
          t1' = (if hold < t1 then 0 else t1);
          m1 = fmax (if hold < t1 then 0 else ch_m1 c) a;
          t2 = ch_t2 c + 1;
          t2' = (if hold < t2 then 0 else t2);
          m2 = fmax (if hold < t2 then 0 else ch_m2 c) a
      in (c\<lparr>ch_t1 := t1', ch_m1 := m1, ch_t2 := t2', ch_m2 := m2\<rparr>, fmax m1 m2))"

definition ch_gain :: "f64 \<Rightarrow> f64 \<Rightarrow> f64 \<Rightarrow> channel \<Rightarrow> channel \<times> f64" where
  "ch_gain peak r thresh c =
     (let env = (if ch_env c < peak then peak else peak + r * (ch_env c - peak));
          g = (if thresh < env then thresh / env else 1)
      in (c\<lparr>ch_env := (if env < MGA_DENORMAL then 0 else env)\<rparr>, g))"

subsection \<open>The JSFX\<close>

record mga =
  g_hold :: f64
  g_thresh :: f64
  g_volume :: f64
  g_r :: f64
  g_link :: f64
  g_left :: channel
  g_right :: channel
  g_gr_meter :: f64
  g_gr_decay :: f64

definition set_sliders :: "libm \<Rightarrow> f64 \<Rightarrow> sliders \<Rightarrow> mga \<Rightarrow> mga" where
  "set_sliders lm sample_rate s m =
     (let thresh = powf lm (Num 10) (sl_threshold_db s / Num 20);
          ceiling_lin = powf lm (Num 10) (sl_ceiling_db s / Num 20);
          release = sl_release_ms s / Num 1000
      in m\<lparr>g_thresh := thresh,
           g_volume := ceiling_lin / thresh,
           g_r := fexp lm (Num (- 3) / (sample_rate * fmax release (lit (5 / 100)))),
           g_link := fsqrt lm (sl_link_pct s * lit (1 / 100))\<rparr>)"

definition mga_new :: "libm \<Rightarrow> f64 \<Rightarrow> sliders \<Rightarrow> mga" where
  "mga_new lm sample_rate s =
     (let hold = sample_rate / Num 128
      in set_sliders lm sample_rate s
           \<lparr>g_hold = hold, g_thresh = 1, g_volume = 1, g_r = 0, g_link = 0,
            g_left = channel_new hold, g_right = channel_new hold, g_gr_meter = 1,
            g_gr_decay = fexp lm (1 / sample_rate)\<rparr>)"

definition mga_tick :: "f64 \<Rightarrow> f64 \<Rightarrow> mga \<Rightarrow> mga \<times> (f64 \<times> f64)" where
  "mga_tick xl xr m =
     (let (l1, pl) = held_peak xl (g_hold m) (g_left m);
          (r1, pr) = held_peak xr (g_hold m) (g_right m);
          l2 = l1\<lparr>ch_env := fmax (ch_env l1) (ch_env r1 * g_link m)\<rparr>;
          r2 = r1\<lparr>ch_env := fmax (ch_env l2 * g_link m) (ch_env r1)\<rparr>;
          (l3, gl) = ch_gain pl (g_r m) (g_thresh m) l2;
          (r3, gr) = ch_gain pr (g_r m) (g_thresh m) r2;
          g = fmin gl gr
      in (m\<lparr>g_left := l3, g_right := r3,
            g_gr_meter := (if g < g_gr_meter m then g else fmin (g_gr_meter m * g_gr_decay m) 1)\<rparr>,
          (xl * (gl * g_volume m), xr * (gr * g_volume m))))"

definition mga_reset :: "mga \<Rightarrow> mga" where
  "mga_reset m =
     m\<lparr>g_left := channel_new (g_hold m), g_right := channel_new (g_hold m), g_gr_meter := 1\<rparr>"

subsection \<open>The product's limiter\<close>

record limiter =
  l_mga :: mga
  l_sample_rate :: f64
  l_limit_db :: f64
  l_enabled :: bool
  l_fade :: nat
  l_fade_len :: nat
  l_active :: u64
  l_active_below :: f64

definition product_sliders :: "f64 \<Rightarrow> sliders" where
  "product_sliders limit_db =
     \<lparr>sl_threshold_db = limit_db, sl_release_ms = RELEASE_MS, sl_link_pct = LINK_PCT,
      sl_ceiling_db = limit_db\<rparr>"

definition clamp_limit :: "f64 \<Rightarrow> f64" where
  "clamp_limit db = (if is_finite db then fclamp db LIMIT_MIN_DB LIMIT_MAX_DB else LIMIT_MIN_DB)"

definition limiter_new :: "libm \<Rightarrow> f64 \<Rightarrow> f64 \<Rightarrow> limiter" where
  "limiter_new lm sample_rate limit_db0 =
     (let limit_db = clamp_limit limit_db0;
          fade_len = max (as_unsigned 32 (fround (DISABLE_MS * sample_rate / Num 1000))) 1
      in \<lparr>l_mga = mga_new lm sample_rate (product_sliders limit_db), l_sample_rate = sample_rate,
          l_limit_db = limit_db, l_enabled = True, l_fade = fade_len, l_fade_len = fade_len,
          l_active = 0, l_active_below = powf lm (Num 10) (ACTIVE_BELOW_DB / Num 20)\<rparr>)"

definition set_limit_db :: "libm \<Rightarrow> f64 \<Rightarrow> limiter \<Rightarrow> limiter" where
  "set_limit_db lm db l =
     (let limit = clamp_limit db
      in l\<lparr>l_limit_db := limit,
           l_mga := set_sliders lm (l_sample_rate l) (product_sliders limit) (l_mga l)\<rparr>)"

definition set_enabled :: "bool \<Rightarrow> limiter \<Rightarrow> limiter" where
  "set_enabled on l = l\<lparr>l_enabled := on, l_fade := (if on then l_fade_len l else l_fade l)\<rparr>"

definition limiter_frame :: "f64 \<times> f64 \<Rightarrow> limiter \<Rightarrow> limiter \<times> (f64 \<times> f64)" where
  "limiter_frame x l =
     (let (m, y) = mga_tick (fst x) (snd x) (l_mga l);
          active = (if l_enabled l \<and> g_gr_meter m < l_active_below l then l_active l + 1 else l_active l);
          fade = (if l_enabled l then l_fade l else l_fade l - 1);
          wet = f64_of_nat fade / f64_of_nat (l_fade_len l)
      in (l\<lparr>l_mga := m, l_active := active, l_fade := fade\<rparr>,
          if fade = l_fade_len l then y
          else (fst x + wet * (fst y - fst x), snd x + wet * (snd y - snd x))))"

fun limiter_process :: "(f64 \<times> f64) list \<Rightarrow> limiter \<Rightarrow> limiter \<times> (f64 \<times> f64) list" where
  "limiter_process [] l = (l, [])"
| "limiter_process (x # xs) l =
     (let (l', y) = limiter_frame x l; (l'', ys) = limiter_process xs l' in (l'', y # ys))"

definition gr_db :: "libm \<Rightarrow> limiter \<Rightarrow> f64" where
  "gr_db lm l =
     (let g = g_gr_meter (l_mga l)
      in if \<not> l_enabled l then 0
         else if 0 < g then fmax (Num 20 * flog10 lm g) (Num (- 150))
         else Num (- 150))"

definition active_seconds :: "limiter \<Rightarrow> f64" where
  "active_seconds l = f64_of_nat (unat (l_active l)) / l_sample_rate l"

definition reset_active :: "limiter \<Rightarrow> limiter" where
  "reset_active l = l\<lparr>l_active := 0\<rparr>"

definition limiter_reset :: "limiter \<Rightarrow> limiter" where
  "limiter_reset l = l\<lparr>l_mga := mga_reset (l_mga l)\<rparr>"

end
