(* ===== verification/Latency.thy ===== *)
theory Latency
  imports Dsp
begin

text \<open>
  The loopback round-trip probe (\<open>latency.rs\<close>): when the first sample left, when its echo came
  back, and whether the run is spoiled because the return sounded too close to the emit.
\<close>

definition ONSET :: f64 where "ONSET = lit (1 / 1000)"
definition MIN_ROUND_TRIP :: u64 where "MIN_ROUND_TRIP = 16"
definition QUIET_BEFORE :: u64 where "QUIET_BEFORE = 9600"

record latency_probe =
  lp_emitted_at :: "u64 option"
  lp_arrived_at :: "u64 option"
  lp_spoiled :: bool
  lp_last_loud :: "u64 option"

definition lp_new :: latency_probe where
  "lp_new = \<lparr>lp_emitted_at = None, lp_arrived_at = None, lp_spoiled = False, lp_last_loud = None\<rparr>"

definition lp_reset :: "latency_probe \<Rightarrow> latency_probe" where
  "lp_reset p = p\<lparr>lp_emitted_at := None, lp_arrived_at := None, lp_spoiled := False\<rparr>"

definition lp_emitted :: "u64 \<Rightarrow> latency_probe \<Rightarrow> latency_probe" where
  "lp_emitted at_time p =
     (if lp_emitted_at p \<noteq> None then p
      else
        (let near = (case lp_last_loud p of Some l \<Rightarrow> at_time \<le> sat_add64 l QUIET_BEFORE | None \<Rightarrow> False)
         in p\<lparr>lp_emitted_at := Some at_time, lp_spoiled := (lp_spoiled p \<or> near)\<rparr>))"

definition lp_loud :: "u64 \<Rightarrow> latency_probe \<Rightarrow> latency_probe" where
  "lp_loud at_time p0 =
     (let p = p0\<lparr>lp_last_loud := Some (case lp_last_loud p0 of None \<Rightarrow> at_time | Some l \<Rightarrow> max l at_time)\<rparr> in
      case lp_emitted_at p of
        None \<Rightarrow> p
      | Some emit \<Rightarrow>
          if lp_spoiled p then p
          else if at_time < sat_add64 emit MIN_ROUND_TRIP then p\<lparr>lp_spoiled := True, lp_arrived_at := None\<rparr>
          else p\<lparr>lp_arrived_at := Some (case lp_arrived_at p of None \<Rightarrow> at_time | Some a \<Rightarrow> min a at_time)\<rparr>)"

definition lp_feed :: "f64 list \<Rightarrow> u64 \<Rightarrow> latency_probe \<Rightarrow> latency_probe" where
  "lp_feed ret base p =
     fold (\<lambda>(i, s) p. if ONSET \<le> \<bar>s\<bar> then lp_loud (sat_add64 base (of_nat i)) p else p) (enumerate 0 ret) p"

definition lp_samples :: "latency_probe \<Rightarrow> u64 option" where
  "lp_samples p =
     (case (lp_emitted_at p, lp_arrived_at p) of
        (Some e, Some a) \<Rightarrow> if e \<le> a then Some (a - e) else None
      | _ \<Rightarrow> None)"

definition lp_ms :: "nat \<Rightarrow> latency_probe \<Rightarrow> f64 option" where
  "lp_ms sample_rate p =
     (let sr = f64_of_nat sample_rate in
      if 0 < sr then map_option (\<lambda>n. f64_of_nat (unat n) * Num 1000 / sr) (lp_samples p) else None)"

end
