(* ===== verification/Rt.thy ===== *)
theory Rt
  imports CoreState Limiter Latency
begin

text \<open>
  The RT processor (\<open>rt.rs\<close>, \<open>rt/render.rs\<close>, \<open>probe.rs\<close>): its state, the application of the
  control core's commands, the cutting of a block into segments, and the fixed pipeline of one
  segment. A stereo buffer is the list of its frames. The scratch buffers a segment fills before
  it reads them (dry, group, TX, listen, tap) are local values; the buffers another stage reads
  later in the segment are part of the state, as long as \<open>SEG\<close>, with only a prefix rewritten.
  The audio block is third-party code: its accessors are functions from channel numbers to
  samples. A ring is seen from the processor's end: the unread elements of one it consumes, the
  free slots and the committed elements of one it fills. The injected panic is the result
  \<open>None\<close>.
\<close>

subsection \<open>Data\<close>

definition METER_PERIOD :: u64 where "METER_PERIOD = 3200"
definition CMD_RING :: nat where "CMD_RING = 4096"
definition TAP_RING :: nat where "TAP_RING = 2 * 19200"
definition TALK_RING :: nat where "TALK_RING = 11520"
definition FADE_MS :: f64 where "FADE_MS = Num 50"
definition FADE_IN_MS :: f64 where "FADE_IN_MS = Num 500"

type_synonym frames = "(f64 \<times> f64) list"

record options =
  op_fade_in_ms :: f64
  op_hold :: bool

record meter_frame =
  mf_seq :: u64
  mf_inputs :: "f64 list list"
  mf_mixes :: "f64 list list"
  mf_groups :: "f64 list list"
  mf_gr_db :: "f64 list"
  mf_active :: "u64 list"
  mf_trips :: u64
  mf_hil :: "f64 list"
  mf_own :: "f64 list list"

record rt_status =
  st_faded_out :: bool
  st_trips :: u64
  st_tap_overruns :: u64
  st_talkback_underruns :: u64
  st_deferred :: u64
  st_loopback :: u64

record out_ring =
  rg_room :: nat
  rg_out :: "f32 list"

record audio_block =
  bk_frames :: nat
  bk_in :: "nat \<Rightarrow> f64 list"
  bk_out :: "nat \<Rightarrow> f64 list"

record input_rt =
  ir_p :: frames
  ir_trim :: ramp
  ir_proc_mix :: ramp
  ir_eq :: equalizer
  ir_gate :: ramp
  ir_trips :: u64
  ir_peak :: "f64 list"

record mix_limiter =
  ml_lim :: limiter
  ml_raise :: ramp
  ml_base :: u64

record group_rt =
  gr_eq :: equalizer
  gr_fader :: stereo_gain
  gr_trips :: u64
  gr_peak :: "f64 list"

record shadow_rt =
  sh_out :: frames
  sh_eq :: equalizer
  sh_limiter :: mix_limiter
  sh_fader :: stereo_gain
  sh_trips :: u64
  sh_peak :: "f64 list"

record mix_rt =
  xr_sum :: frames
  xr_own :: frames
  xr_shadow :: "shadow_rt option"
  xr_levels :: "stereo_gain list"
  xr_groups :: "group_rt list"
  xr_eq :: equalizer
  xr_limiter :: mix_limiter
  xr_fader :: stereo_gain
  xr_safety :: mga
  xr_cap :: f64
  xr_trips :: u64
  xr_peak :: "f64 list"

record test_rt =
  tt_input :: nat
  tt_phase :: f64
  tt_inc :: f64
  tt_amp :: f64
  tt_left :: u64
  tt_fade :: ramp
  tt_end :: u64
  tt_mask :: "hil_mask option"
  tt_listen :: bool

record processor =
  pr_topo :: topology
  pr_sr :: f64
  pr_inputs :: "input_rt list"
  pr_mixes :: "mix_rt list"
  pr_talkback_input :: "nat option"
  pr_cmds :: "rt_cmd list"
  pr_meter :: meter_frame
  pr_taps :: "out_ring \<times> out_ring"
  pr_probes :: "out_ring \<times> out_ring"
  pr_talk :: "f32 list"
  pr_talk_gate :: ramp
  pr_talk_buf :: "f64 list"
  pr_fade_buf :: "f64 list"
  pr_listen :: "nat option \<times> nat option"
  pr_listen_lim :: limiter
  pr_test :: "test_rt option"
  pr_test_buf :: "f64 list"
  pr_hil_peaks :: "f64 list list"
  pr_hil_rx :: nat
  pr_latency :: latency_probe
  pr_fade :: ramp
  pr_fade_in :: nat
  pr_armed :: bool
  pr_fading_out :: bool
  pr_time :: u64
  pr_since_meter :: u64
  pr_seq :: u64
  pr_trips :: u64
  pr_status :: rt_status

subsection \<open>Buffers\<close>

text \<open>\<open>get(..n).unwrap_or_default()\<close> and a write of the first elements.\<close>

definition prefix_of :: "nat \<Rightarrow> 'a list \<Rightarrow> 'a list" where
  "prefix_of n buf = (if n \<le> length buf then take n buf else [])"

definition put_prefix :: "'a list \<Rightarrow> 'a list \<Rightarrow> 'a list" where
  "put_prefix xs buf = xs @ drop (length xs) buf"

definition slice_get :: "nat \<Rightarrow> nat \<Rightarrow> 'a list \<Rightarrow> 'a list option" where
  "slice_get off n xs = (if off + n \<le> length xs then Some (take n (drop off xs)) else None)"

definition splice :: "nat \<Rightarrow> 'a list \<Rightarrow> 'a list \<Rightarrow> 'a list" where
  "splice off ys xs = take off xs @ ys @ drop (off + length ys) xs"

definition stereo_new :: frames where
  "stereo_new = replicate SEG (0, 0)"

text \<open>A ramp over \<open>n\<close> samples.\<close>

fun ramp_run :: "nat \<Rightarrow> ramp \<Rightarrow> ramp \<times> f64 list" where
  "ramp_run 0 r = (r, [])"
| "ramp_run (Suc n) r = (let (r', v) = ramp_tick r; (r'', vs) = ramp_run n r' in (r'', v # vs))"

definition rise :: "nat \<Rightarrow> ramp" where
  "rise len = (let fade = ramp_new 0 len in if 0 < len then ramp_set fade 1 else ramp_jump fade 1)"

definition safety :: "libm \<Rightarrow> f64 \<Rightarrow> mga" where
  "safety lm sr = mga_new lm sr
     \<lparr>sl_threshold_db = 0, sl_release_ms = Num 50, sl_link_pct = Num 100, sl_ceiling_db = 0\<rparr>"

subsection \<open>A mix's limiter\<close>

definition mix_limiter_new :: "libm \<Rightarrow> f64 \<Rightarrow> bool \<Rightarrow> f64 \<Rightarrow> u64 \<Rightarrow> mix_limiter" where
  "mix_limiter_new lm sr enabled limit_db base =
     (let lim = set_enabled enabled (limiter_new lm sr limit_db)
      in \<lparr>ml_lim = lim, ml_raise = ramp_new (l_limit_db lim) (samples DISABLE_MS sr), ml_base = base\<rparr>)"

definition mix_limiter_set :: "libm \<Rightarrow> bool \<Rightarrow> f64 \<Rightarrow> mix_limiter \<Rightarrow> mix_limiter" where
  "mix_limiter_set lm enabled limit_db m =
     (let lim = set_enabled enabled (ml_lim m) in
      if limit_db \<le> l_limit_db lim
      then m\<lparr>ml_raise := ramp_jump (ml_raise m) limit_db, ml_lim := set_limit_db lm limit_db lim\<rparr>
      else m\<lparr>ml_raise := ramp_set (ml_raise m) limit_db, ml_lim := lim\<rparr>)"

fun mix_limiter_moving :: "libm \<Rightarrow> frames \<Rightarrow> mix_limiter \<Rightarrow> mix_limiter \<times> frames" where
  "mix_limiter_moving lm [] m = (m, [])"
| "mix_limiter_moving lm (x # xs) m =
     (let (raise, v) = ramp_tick (ml_raise m);
          (lim, y) = limiter_frame x (set_limit_db lm v (ml_lim m));
          (m', ys) = mix_limiter_moving lm xs (m\<lparr>ml_raise := raise, ml_lim := lim\<rparr>)
      in (m', y # ys))"

definition mix_limiter_process :: "libm \<Rightarrow> frames \<Rightarrow> mix_limiter \<Rightarrow> mix_limiter \<times> frames" where
  "mix_limiter_process lm xs m =
     (if \<not> is_moving (ml_raise m)
      then (let (lim, ys) = limiter_process xs (ml_lim m) in (m\<lparr>ml_lim := lim\<rparr>, ys))
      else mix_limiter_moving lm xs m)"

definition mix_limiter_active :: "mix_limiter \<Rightarrow> u64" where
  "mix_limiter_active m = sat_add64 (ml_base m) (l_active (ml_lim m))"

subsection \<open>Construction\<close>

definition input_rt_new :: "libm \<Rightarrow> f64 \<Rightarrow> input_state \<Rightarrow> input_rt" where
  "input_rt_new lm sr s =
     (let p = input_params lm s
      in \<lparr>ir_p = stereo_new, ir_trim = ramp_new (ip_trim p) (samples GAIN_MS sr),
          ir_proc_mix = ramp_new (if ip_processing p then 1 else 0) (samples EQ_MS sr),
          ir_eq = eq_new lm 2 (eq_params lm (in_eq s)) sr,
          ir_gate = ramp_new (on_target (ip_muted p)) (samples MUTE_MS sr),
          ir_trips = 0, ir_peak = peak_new 2\<rparr>)"

definition shadow_rt_new :: "libm \<Rightarrow> f64 \<Rightarrow> mix_out \<Rightarrow> shadow_rt" where
  "shadow_rt_new lm sr o' =
     \<lparr>sh_out = stereo_new, sh_eq = eq_new lm 2 (eq_params lm (mo_eq o')) sr,
      sh_limiter = mix_limiter_new lm sr (lim_enabled (mo_limiter o')) (lim_limit_db (mo_limiter o')) 0,
      sh_fader = sgain_new lm sr (db_to_lin lm (mo_volume_db o')) (mo_muted o') 0,
      sh_trips = 0, sh_peak = peak_new 2\<rparr>"

definition group_rt_new :: "libm \<Rightarrow> f64 \<Rightarrow> mix_group \<Rightarrow> group_rt" where
  "group_rt_new lm sr g =
     \<lparr>gr_eq = eq_new lm 2 (eq_params lm (mg_eq g)) sr,
      gr_fader = sgain_new lm sr (db_to_lin lm (mg_gain_db g)) (mg_muted g) 0,
      gr_trips = 0, gr_peak = peak_new 2\<rparr>"

definition mix_rt_new :: "libm \<Rightarrow> f64 \<Rightarrow> bool \<Rightarrow> u64 \<Rightarrow> mix_rec \<Rightarrow> mix_rt" where
  "mix_rt_new lm sr shadowed counter r =
     (let o' = mr_out r
      in \<lparr>xr_sum = stereo_new, xr_own = stereo_new,
          xr_shadow = (if shadowed then Some (shadow_rt_new lm sr o') else None),
          xr_levels = map (\<lambda>l. sgain_new lm sr (db_to_lin lm (lv_gain_db l)) (lv_muted l) (lv_pan l)) (mr_levels r),
          xr_groups = map (group_rt_new lm sr) (mr_groups r),
          xr_eq = eq_new lm 2 (eq_params lm (mo_eq o')) sr,
          xr_limiter = mix_limiter_new lm sr (lim_enabled (mo_limiter o')) (lim_limit_db (mo_limiter o')) counter,
          xr_fader = sgain_new lm sr (db_to_lin lm (mo_volume_db o')) (mo_muted o') 0,
          xr_safety = safety lm sr, xr_cap = 1, xr_trips = 0, xr_peak = peak_new 2\<rparr>)"

definition frame_new :: "topology \<Rightarrow> nat \<Rightarrow> meter_frame" where
  "frame_new topo hil =
     \<lparr>mf_seq = 0, mf_inputs = replicate (length (t_inputs topo)) [0, 0],
      mf_mixes = replicate (length (t_mixes topo)) [0, 0],
      mf_groups = replicate (length (t_mixes topo) * length (t_groups topo)) [0, 0],
      mf_gr_db = replicate (length (t_mixes topo)) 0, mf_active = replicate (length (t_mixes topo)) 0,
      mf_trips = 0, mf_hil = replicate hil 0,
      mf_own = (if list_ex m_shadow (t_mixes topo) then replicate (length (t_mixes topo)) [0, 0] else [])\<rparr>"

definition ring_new :: "nat \<Rightarrow> out_ring" where
  "ring_new n = \<lparr>rg_room = n, rg_out = []\<rparr>"

definition proc_new ::
  "libm \<Rightarrow> topology \<Rightarrow> mix_state \<Rightarrow> u64 list \<Rightarrow> options \<Rightarrow> nat \<Rightarrow> nat \<Rightarrow> processor" where
  "proc_new lm topo state counters opts hil0 hil_rx =
     (let hil = min hil0 MAX_HIL; sr = f64_of_nat SAMPLE_RATE; r = fst (core_reconcile topo state);
          fade_in = (if 0 < op_fade_in_ms opts then samples (op_fade_in_ms opts) sr else 0)
      in \<lparr>pr_topo = topo, pr_sr = sr, pr_inputs = map (input_rt_new lm sr) (rs_inputs r),
          pr_mixes = map (\<lambda>(m, rec). mix_rt_new lm sr
              (case lget (t_mixes topo) m of Some n \<Rightarrow> m_shadow n | None \<Rightarrow> False)
              (or_default 0 (lget counters m)) rec) (enumerate 0 (rs_mixes r)),
          pr_talkback_input = position n_talkback (t_inputs topo), pr_cmds = [], pr_meter = frame_new topo hil,
          pr_taps = (ring_new TAP_RING, ring_new TAP_RING), pr_probes = (ring_new TAP_RING, ring_new TAP_RING),
          pr_talk = [], pr_talk_gate = ramp_new 0 (samples MUTE_MS sr), pr_talk_buf = replicate SEG 0,
          pr_fade_buf = replicate SEG 1, pr_listen = (None, None), pr_listen_lim = limiter_new lm sr 0,
          pr_test = None, pr_test_buf = replicate SEG 0, pr_hil_peaks = replicate hil (peak_new 1),
          pr_hil_rx = hil_rx, pr_latency = lp_new,
          pr_fade = (if op_hold opts then ramp_new 0 1 else rise fade_in), pr_fade_in = fade_in,
          pr_armed = (\<not> op_hold opts), pr_fading_out = False, pr_time = 0, pr_since_meter = 0,
          pr_seq = 0, pr_trips = 0,
          pr_status = \<lparr>st_faded_out = False, st_trips = 0, st_tap_overruns = 0, st_talkback_underruns = 0,
             st_deferred = 0, st_loopback = 0\<rparr>\<rparr>)"

definition outputs :: "processor \<Rightarrow> nat" where
  "outputs p = length (t_tx (pr_topo p)) + length (pr_hil_peaks p)"

definition input_channels :: "processor \<Rightarrow> nat" where
  "input_channels p = length (t_rx (pr_topo p)) + pr_hil_rx p"

subsection \<open>Commands\<close>

definition set_caps :: "bool \<Rightarrow> processor \<Rightarrow> processor" where
  "set_caps on p = p\<lparr>pr_mixes := map (\<lambda>x. x\<lparr>xr_cap := (if on then TEST_CAP else 1)\<rparr>) (pr_mixes p)\<rparr>"

definition restart_fade :: "processor \<Rightarrow> processor" where
  "restart_fade p = (if pr_fading_out p then p else p\<lparr>pr_fade := rise (pr_fade_in p)\<rparr>)"

definition rt_start_test ::
  "u16 \<Rightarrow> f64 \<Rightarrow> f64 \<Rightarrow> u64 \<Rightarrow> hil_mask option \<Rightarrow> bool \<Rightarrow> processor \<Rightarrow> processor" where
  "rt_start_test i hz amp ttl msk listen p0 =
     (let p = (if msk = None then p0
               else p0\<lparr>pr_latency := lp_reset (pr_latency p0), pr_status := (pr_status p0)\<lparr>st_loopback := 0\<rparr>\<rparr>);
          len = samples FADE_MS (pr_sr p)
      in set_caps True (p\<lparr>pr_test := Some \<lparr>tt_input = unat i, tt_phase = 0, tt_inc = hz / pr_sr p,
            tt_amp = fmin amp TEST_CAP, tt_left = ttl, tt_fade = ramp_set (ramp_new 0 len) 1,
            tt_end = sat_add64 (sat_add64 (pr_time p) ttl) (of_nat len), tt_mask = msk, tt_listen = listen\<rparr>\<rparr>))"

definition apply_input :: "libm \<Rightarrow> f64 \<Rightarrow> input_params \<Rightarrow> input_rt \<Rightarrow> input_rt" where
  "apply_input lm sr p n0 =
     (let n = n0\<lparr>ir_trim := ramp_set (ir_trim n0) (ip_trim p), ir_gate := ramp_set (ir_gate n0) (on_target (ip_muted p))\<rparr>;
          dry = (\<not> is_moving (ir_proc_mix n) \<and> feq (rp_value (ir_proc_mix n)) 0);
          n' = (if ip_processing p \<and> dry
                then n\<lparr>ir_trim := ramp_jump (ir_trim n) (rp_target (ir_trim n)), ir_eq := eq_new lm 2 (eq_targets (ir_eq n)) sr\<rparr>
                else n)
      in n'\<lparr>ir_proc_mix := ramp_set (ir_proc_mix n') (if ip_processing p then 1 else 0)\<rparr>)"

definition apply_out :: "libm \<Rightarrow> f64 \<Rightarrow> bool \<Rightarrow> mix_rt \<Rightarrow> mix_rt" where
  "apply_out lm volume muted n =
     n\<lparr>xr_fader := sgain_set lm (xr_fader n) volume muted 0,
       xr_shadow := map_option (\<lambda>s. s\<lparr>sh_fader := sgain_set lm (sh_fader s) volume muted 0\<rparr>) (xr_shadow n)\<rparr>"

definition apply_mix_eq :: "libm \<Rightarrow> eq_params \<Rightarrow> mix_rt \<Rightarrow> mix_rt" where
  "apply_mix_eq lm eq n =
     n\<lparr>xr_eq := fst (eq_set lm eq (xr_eq n)),
       xr_shadow := map_option (\<lambda>s. s\<lparr>sh_eq := fst (eq_set lm eq (sh_eq s))\<rparr>) (xr_shadow n)\<rparr>"

definition apply_limiter :: "libm \<Rightarrow> bool \<Rightarrow> f64 \<Rightarrow> mix_rt \<Rightarrow> mix_rt" where
  "apply_limiter lm enabled limit_db n =
     n\<lparr>xr_limiter := mix_limiter_set lm enabled limit_db (xr_limiter n),
       xr_shadow := map_option (\<lambda>s. s\<lparr>sh_limiter := mix_limiter_set lm enabled limit_db (sh_limiter s)\<rparr>) (xr_shadow n)\<rparr>"

definition upd_input_rt :: "u16 \<Rightarrow> (input_rt \<Rightarrow> input_rt) \<Rightarrow> processor \<Rightarrow> processor" where
  "upd_input_rt i f p = p\<lparr>pr_inputs := lmod (pr_inputs p) (unat i) f\<rparr>"

definition upd_mix_rt :: "u16 \<Rightarrow> (mix_rt \<Rightarrow> mix_rt) \<Rightarrow> processor \<Rightarrow> processor" where
  "upd_mix_rt m f p = p\<lparr>pr_mixes := lmod (pr_mixes p) (unat m) f\<rparr>"

definition rt_listen :: "u8 \<Rightarrow> u16 option \<Rightarrow> processor \<Rightarrow> processor" where
  "rt_listen s mo p0 =
     (let l = map_option unat mo;
          p = (if s = 0 then p0\<lparr>pr_listen := (l, snd (pr_listen p0))\<rparr>
               else if s = 1 then p0\<lparr>pr_listen := (fst (pr_listen p0), l)\<rparr> else p0)
      in if s = 1 then p\<lparr>pr_listen_lim := limiter_reset (pr_listen_lim p)\<rparr> else p)"

definition rt_stop_test :: "processor \<Rightarrow> processor" where
  "rt_stop_test p =
     p\<lparr>pr_test := map_option (\<lambda>t.
         let len = samples FADE_MS (pr_sr p)
         in t\<lparr>tt_left := 0, tt_fade := ramp_set (ramp_new (rp_value (tt_fade t)) len) 0,
              tt_end := sat_add64 (pr_time p) (of_nat len)\<rparr>) (pr_test p)\<rparr>"

definition rt_fade_out :: "processor \<Rightarrow> processor" where
  "rt_fade_out p =
     p\<lparr>pr_fade := ramp_set (ramp_new (rp_value (pr_fade p)) (samples FADE_MS (pr_sr p))) 0, pr_fading_out := True\<rparr>"

fun rt_apply :: "libm \<Rightarrow> rt_op \<Rightarrow> processor \<Rightarrow> processor option" where
  "rt_apply lm Nop p = Some p"
| "rt_apply lm (RInput i ip) p = Some (upd_input_rt i (apply_input lm (pr_sr p) ip) p)"
| "rt_apply lm (RInputEq i eq) p = Some (upd_input_rt i (\<lambda>n. n\<lparr>ir_eq := fst (eq_set lm eq (ir_eq n))\<rparr>) p)"
| "rt_apply lm (RMixOut m volume muted) p = Some (upd_mix_rt m (apply_out lm volume muted) p)"
| "rt_apply lm (RMixEq m eq) p = Some (upd_mix_rt m (apply_mix_eq lm eq) p)"
| "rt_apply lm (RLimiter m enabled limit_db) p = Some (upd_mix_rt m (apply_limiter lm enabled limit_db) p)"
| "rt_apply lm (RResetLimiter m) p =
     Some (upd_mix_rt m (\<lambda>n. n\<lparr>xr_limiter := (xr_limiter n)\<lparr>ml_lim := reset_active (ml_lim (xr_limiter n)), ml_base := 0\<rparr>\<rparr>) p)"
| "rt_apply lm (RLevel m k gain pan muted) p =
     Some (upd_mix_rt m (\<lambda>n. n\<lparr>xr_levels := lmod (xr_levels n) (unat k) (\<lambda>g. sgain_set lm g gain muted pan)\<rparr>) p)"
| "rt_apply lm (RGroup m g gain muted) p =
     Some (upd_mix_rt m (\<lambda>n. n\<lparr>xr_groups := lmod (xr_groups n) (unat g)
        (\<lambda>s. s\<lparr>gr_fader := sgain_set lm (gr_fader s) gain muted 0\<rparr>)\<rparr>) p)"
| "rt_apply lm (RGroupEq m g eq) p =
     Some (upd_mix_rt m (\<lambda>n. n\<lparr>xr_groups := lmod (xr_groups n) (unat g)
        (\<lambda>s. s\<lparr>gr_eq := fst (eq_set lm eq (gr_eq s))\<rparr>)\<rparr>) p)"
| "rt_apply lm (RListen s mo) p = Some (rt_listen s mo p)"
| "rt_apply lm (RTestSignal i hz amp ttl) p = Some (rt_start_test i hz amp ttl None False p)"
| "rt_apply lm (RHilTestSignal i hz amp ttl msk listen) p = Some (rt_start_test i hz amp ttl (Some msk) listen p)"
| "rt_apply lm RStopTestSignal p = Some (rt_stop_test p)"
| "rt_apply lm RFadeOut p = Some (rt_fade_out p)"
| "rt_apply lm RPanic p = None"
| "rt_apply lm RArm p = Some (if pr_armed p then p else restart_fade (p\<lparr>pr_armed := True\<rparr>))"

fun apply_all :: "libm \<Rightarrow> rt_op list \<Rightarrow> processor \<Rightarrow> processor option" where
  "apply_all lm [] p = Some p"
| "apply_all lm (op # ops) p = Option.bind (rt_apply lm op p) (apply_all lm ops)"

definition group_len :: "rt_cmd \<Rightarrow> nat" where
  "group_len c = unat (max (rc_group c) 1)"

lemma group_len_pos: "0 < group_len c"
proof -
  have "(1 :: u16) \<le> max (rc_group c) 1" by simp
  then have "unat (1 :: u16) \<le> unat (max (rc_group c) 1)" by (rule word_le_nat_alt [THEN iffD1])
  then show ?thesis by (simp add: group_len_def)
qed

text \<open>\<open>apply_due\<close>: returns the processor, the budget left and whether a due group waits.\<close>

function apply_due :: "libm \<Rightarrow> nat \<Rightarrow> processor \<Rightarrow> (processor \<times> nat \<times> bool) option" where
  "apply_due lm budget p =
     (case pr_cmds p of
        [] \<Rightarrow> Some (p, budget, False)
      | c # _ \<Rightarrow>
          if pr_time p < rc_at c then Some (p, budget, False)
          else if budget < group_len c then Some (p, budget, True)
          else
            Option.bind (apply_all lm (map rc_op (take (group_len c) (pr_cmds p)))
                (p\<lparr>pr_cmds := drop (group_len c) (pr_cmds p)\<rparr>))
              (apply_due lm (budget - group_len c)))"
  by pat_completeness auto

termination
  by (relation "measure (\<lambda>(lm, budget, p). budget)") (use group_len_pos in \<open>auto simp: not_less intro: diff_less less_le_trans\<close>)

declare apply_due.simps [simp del]

end
