(* ===== verification/Persist.thy ===== *)
theory Persist
  imports CoreState "HOL-Library.Product_Lexorder"
begin

text \<open>
  The state files (\<open>persist.rs\<close>, \<open>persist/files.rs\<close>): when to save, what a file holds and how
  it is coded, the names in the state directory, and the save with its renames. Every file
  operation takes one step; a fault function says which steps fail and how, so that a failing
  operation and a crash (every step from some point on fails) are both inputs of the model. The
  directory maps names to bytes; a failed write may leave any bytes in the file it wrote. JSON
  (\<open>serde_json\<close>) and SHA-256 (\<open>sha2\<close>) are parameters.
\<close>

subsection \<open>When to save\<close>

definition QUIET :: nat where "QUIET = 1000000000"
definition MAX_DELAY :: nat where "MAX_DELAY = 5000000000"

record save_schedule =
  ss_first :: "nat option"
  ss_last :: "nat option"

definition schedule_default :: save_schedule where
  "schedule_default = \<lparr>ss_first = None, ss_last = None\<rparr>"

definition schedule_changed :: "nat \<Rightarrow> save_schedule \<Rightarrow> save_schedule" where
  "schedule_changed now s =
     s\<lparr>ss_first := (case ss_first s of None \<Rightarrow> Some now | Some f \<Rightarrow> Some f), ss_last := Some now\<rparr>"

definition schedule_pending :: "save_schedule \<Rightarrow> bool" where
  "schedule_pending s = (ss_first s \<noteq> None)"

definition schedule_due :: "nat \<Rightarrow> save_schedule \<Rightarrow> bool" where
  "schedule_due now s =
     (case (ss_first s, ss_last s) of
        (Some f, Some l) \<Rightarrow> QUIET \<le> now - l \<or> MAX_DELAY \<le> now - f
      | _ \<Rightarrow> False)"

subsection \<open>Files and their code\<close>

definition FORMAT :: string where "FORMAT = ''iemmixer-state''"
definition SCHEMA :: u32 where "SCHEMA = 2"
definition GENERATIONS :: nat where "GENERATIONS = 20"
definition CURRENT :: string where "CURRENT = ''current.json''"
definition BASELINE :: string where "BASELINE = ''baseline.json''"
definition TMP :: string where "TMP = ''save.tmp''"
definition NEW :: string where "NEW = ''save.new''"
definition ORPHAN :: string where "ORPHAN = ''save.tmp.orphan-''"
definition MARK :: string where "MARK = ''current.json.rev-''"

record persisted =
  ps_rev :: u64
  ps_hash :: string
  ps_unix_ms :: u64
  ps_state :: mix_state
  ps_counters :: "(mix_id, u64) btree"

record committed =
  cm_generation :: u64
  cm_pruning :: "string option"
  cm_orphaned :: "string option"

datatype io_kind = NotFound | WouldBlock | Interrupted | TimedOut | OtherKind

record io_error =
  ie_kind :: io_kind
  ie_text :: string

record state_file =
  sf_format :: string
  sf_schema :: u32
  sf_sha256 :: string
  sf_payload :: string

text \<open>The JSON and the hash libraries.\<close>

record codec =
  cd_to_string :: "persisted \<Rightarrow> io_error + string"
  cd_from_str :: "string \<Rightarrow> string + persisted"
  cd_to_vec :: "state_file \<Rightarrow> io_error + u8 list"
  cd_from_slice :: "u8 list \<Rightarrow> string + state_file"
  cd_sha256 :: "string \<Rightarrow> u8 list"

definition hex_digit :: "nat \<Rightarrow> char" where
  "hex_digit n = (if n < 10 then char_of (48 + n) else char_of (87 + n))"

definition hex :: "u8 list \<Rightarrow> string" where
  "hex bs = concat (map (\<lambda>b. [hex_digit (unat b div 16), hex_digit (unat b mod 16)]) bs)"

definition digest :: "codec \<Rightarrow> string \<Rightarrow> string" where
  "digest cd text = hex (cd_sha256 cd text)"

definition encode :: "codec \<Rightarrow> persisted \<Rightarrow> io_error + u8 list" where
  "encode cd p =
     bind_r (cd_to_string cd p) (\<lambda>payload.
       cd_to_vec cd \<lparr>sf_format = FORMAT, sf_schema = SCHEMA, sf_sha256 = digest cd payload, sf_payload = payload\<rparr>)"

definition decode :: "codec \<Rightarrow> u8 list \<Rightarrow> string + persisted" where
  "decode cd bytes =
     (case cd_from_slice cd bytes of
        Inl e \<Rightarrow> Inl (''not a state file: '' @ e)
      | Inr file \<Rightarrow>
          if sf_format file \<noteq> FORMAT
          then Inl (''format '' @ [char_of (34 :: nat)] @ take 40 (sf_format file) @ [char_of (34 :: nat)] @ '' is not '' @ FORMAT)
          else if sf_schema file < SCHEMA
          then Inl (''schema '' @ show_nat (unat (sf_schema file)) @ '' predates the engine model (schema '' @
                 show_nat (unat SCHEMA) @ '')'')
          else if digest cd (sf_payload file) \<noteq> sf_sha256 file then Inl ''checksum mismatch''
          else (case cd_from_str cd (sf_payload file) of Inl e \<Rightarrow> Inl (''payload: '' @ e) | Inr p \<Rightarrow> Inr p))"

subsection \<open>Names\<close>

fun strip_prefix :: "string \<Rightarrow> string \<Rightarrow> string option" where
  "strip_prefix [] s = Some s"
| "strip_prefix (p # ps) [] = None"
| "strip_prefix (p # ps) (c # cs) = (if p = c then strip_prefix ps cs else None)"

definition strip_suffix :: "string \<Rightarrow> string \<Rightarrow> string option" where
  "strip_suffix suf s = map_option rev (strip_prefix (rev suf) (rev s))"

text \<open>\<open>split_once\<close> at the first occurrence of the separator.\<close>

fun split_once :: "string \<Rightarrow> string \<Rightarrow> (string \<times> string) option" where
  "split_once sep [] = (if sep = [] then Some ([], []) else None)"
| "split_once sep (c # cs) =
     (case strip_prefix sep (c # cs) of
        Some rest \<Rightarrow> Some ([], rest)
      | None \<Rightarrow> map_option (\<lambda>(a, b). (c # a, b)) (split_once sep cs))"

definition digit_val :: "char \<Rightarrow> nat option" where
  "digit_val c = (let n = of_char c :: nat in if 48 \<le> n \<and> n \<le> 57 then Some (n - 48) else None)"

text \<open>\<open>str::parse\<close> of an unsigned integer of \<open>w\<close> bits: an optional \<open>+\<close>, then digits.\<close>

fun parse_digits :: "nat \<Rightarrow> nat \<Rightarrow> string \<Rightarrow> nat option" where
  "parse_digits w acc [] = Some acc"
| "parse_digits w acc (c # cs) =
     (case digit_val c of
        None \<Rightarrow> None
      | Some d \<Rightarrow> if 10 * acc + d < 2 ^ w then parse_digits w (10 * acc + d) cs else None)"

definition parse_unsigned :: "nat \<Rightarrow> string \<Rightarrow> nat option" where
  "parse_unsigned w s =
     (let ds = (case s of c # cs \<Rightarrow> if c = CHR ''+'' then cs else s | [] \<Rightarrow> [])
      in if ds = [] then None else parse_digits w 0 ds)"

definition parse_u64 :: "string \<Rightarrow> u64 option" where
  "parse_u64 s = map_option of_nat (parse_unsigned 64 s)"

text \<open>A number padded with zeros to ten digits.\<close>

definition pad10 :: "nat \<Rightarrow> string" where
  "pad10 n = replicate (10 - length (show_nat n)) (CHR ''0'') @ show_nat n"

definition generation_name :: "u64 \<Rightarrow> u64 option \<Rightarrow> string" where
  "generation_name seq held =
     (case held of
        Some r \<Rightarrow> ''gen-'' @ pad10 (unat seq) @ ''-r'' @ show_nat (unat r) @ ''.json''
      | None \<Rightarrow> ''gen-'' @ pad10 (unat seq) @ ''.json'')"

definition generation_parts :: "string \<Rightarrow> (u64 \<times> u64 option) option" where
  "generation_parts name =
     (case strip_prefix ''gen-'' name of
        None \<Rightarrow> None
      | Some rest \<Rightarrow>
          (case strip_suffix ''.json'' rest of
             None \<Rightarrow> None
           | Some stem \<Rightarrow>
               (case split_once ''-r'' stem of
                  Some (s, r) \<Rightarrow>
                    (case (parse_u64 s, parse_u64 r) of (Some a, Some b) \<Rightarrow> Some (a, Some b) | _ \<Rightarrow> None)
                | None \<Rightarrow> map_option (\<lambda>a. (a, None)) (parse_u64 stem))))"

definition mark_name :: "u64 \<Rightarrow> string" where
  "mark_name r = MARK @ show_nat (unat r)"

definition mark_rev :: "string \<Rightarrow> u64 option" where
  "mark_rev name = (case strip_prefix MARK name of None \<Rightarrow> None | Some s \<Rightarrow> parse_u64 s)"

definition orphan_number :: "string \<Rightarrow> u32 option" where
  "orphan_number name =
     (case strip_prefix ORPHAN name of None \<Rightarrow> None | Some s \<Rightarrow> map_option of_nat (parse_unsigned 32 s))"

record listing =
  li_generations :: "(u64 \<times> string) list"
  li_marks :: "(u64 \<times> string) list"
  li_orphans :: "(u32 \<times> string) list"
  li_floor :: "u64 option"

text \<open>\<open>Option::max\<close>: nothing is below everything.\<close>

fun opt_max :: "u64 option \<Rightarrow> u64 option \<Rightarrow> u64 option" where
  "opt_max None b = b"
| "opt_max (Some a) None = Some a"
| "opt_max (Some a) (Some b) = Some (max a b)"

definition list_name :: "string \<Rightarrow> listing \<Rightarrow> listing" where
  "list_name name l =
     (case generation_parts name of
        Some (seq, r) \<Rightarrow> l\<lparr>li_generations := li_generations l @ [(seq, name)], li_floor := opt_max (li_floor l) r\<rparr>
      | None \<Rightarrow>
          (case mark_rev name of
             Some r \<Rightarrow> l\<lparr>li_marks := li_marks l @ [(r, name)], li_floor := opt_max (li_floor l) (Some r)\<rparr>
           | None \<Rightarrow>
               (case orphan_number name of
                  Some n \<Rightarrow> l\<lparr>li_orphans := li_orphans l @ [(n, name)]\<rparr>
                | None \<Rightarrow> l)))"

definition list_names :: "string list \<Rightarrow> listing" where
  "list_names names =
     (let l = fold list_name names \<lparr>li_generations = [], li_marks = [], li_orphans = [], li_floor = None\<rparr>
      in l\<lparr>li_generations := sort (li_generations l), li_marks := sort (li_marks l), li_orphans := sort (li_orphans l)\<rparr>)"

subsection \<open>File operations\<close>

record store =
  fs_dir :: string
  fs_files :: "(string, u8 list) btree"
  fs_step :: nat
  fs_own :: bool

text \<open>
  A step that fails: its error, and for a write what it leaves in the file, if anything. A rename,
  a removal and a flush that fail change nothing.
\<close>

type_synonym faults = "nat \<Rightarrow> (io_error \<times> u8 list option) option"

type_synonym 'a io = "store \<Rightarrow> store \<times> (io_error + 'a)"

definition not_found :: io_error where
  "not_found = \<lparr>ie_kind = NotFound, ie_text = ''entity not found''\<rparr>"

definition io_step :: "faults \<Rightarrow> (u8 list option \<Rightarrow> store \<Rightarrow> store) \<Rightarrow> 'a io \<Rightarrow> 'a io" where
  "io_step ft broken act d =
     (let d1 = d\<lparr>fs_step := Suc (fs_step d)\<rparr>
      in case ft (fs_step d) of Some (e, left) \<Rightarrow> (broken left d1, Inl e) | None \<Rightarrow> act d1)"

definition try_io :: "'a io \<Rightarrow> ('a \<Rightarrow> 'b io) \<Rightarrow> 'b io" where
  "try_io m k d = (case m d of (d', Inl e) \<Rightarrow> (d', Inl e) | (d', Inr a) \<Rightarrow> k a d')"

definition ok_io :: "'a \<Rightarrow> 'a io" where
  "ok_io a d = (d, Inr a)"

definition fs_put :: "string \<Rightarrow> u8 list \<Rightarrow> store \<Rightarrow> store" where
  "fs_put name bytes d = d\<lparr>fs_files := bm_insert name bytes (fs_files d)\<rparr>"

definition fs_read :: "faults \<Rightarrow> string \<Rightarrow> u8 list io" where
  "fs_read ft name = io_step ft (\<lambda>_ d. d)
     (\<lambda>d. (d, case map_of (fs_files d) name of Some b \<Rightarrow> Inr b | None \<Rightarrow> Inl not_found))"

definition fs_write :: "faults \<Rightarrow> string \<Rightarrow> u8 list \<Rightarrow> unit io" where
  "fs_write ft name bytes = io_step ft
     (\<lambda>left d. case left of Some b \<Rightarrow> fs_put name b d | None \<Rightarrow> d) (\<lambda>d. (fs_put name bytes d, Inr ()))"

definition fs_sync_file :: "faults \<Rightarrow> string \<Rightarrow> unit io" where
  "fs_sync_file ft name = io_step ft (\<lambda>_ d. d)
     (\<lambda>d. (d, case map_of (fs_files d) name of Some _ \<Rightarrow> Inr () | None \<Rightarrow> Inl not_found))"

definition fs_rename :: "faults \<Rightarrow> string \<Rightarrow> string \<Rightarrow> unit io" where
  "fs_rename ft old new = io_step ft (\<lambda>_ d. d)
     (\<lambda>d. case map_of (fs_files d) old of
            Some b \<Rightarrow> (d\<lparr>fs_files := bm_insert new b (bm_remove old (fs_files d))\<rparr>, Inr ())
          | None \<Rightarrow> (d, Inl not_found))"

definition fs_remove :: "faults \<Rightarrow> string \<Rightarrow> unit io" where
  "fs_remove ft name = io_step ft (\<lambda>_ d. d)
     (\<lambda>d. case map_of (fs_files d) name of
            Some _ \<Rightarrow> (d\<lparr>fs_files := bm_remove name (fs_files d)\<rparr>, Inr ())
          | None \<Rightarrow> (d, Inl not_found))"

definition fs_exists :: "faults \<Rightarrow> string \<Rightarrow> bool io" where
  "fs_exists ft name = io_step ft (\<lambda>_ d. d) (\<lambda>d. (d, Inr (map_of (fs_files d) name \<noteq> None)))"

definition fs_list :: "faults \<Rightarrow> string list io" where
  "fs_list ft = io_step ft (\<lambda>_ d. d) (\<lambda>d. (d, Inr (map fst (fs_files d))))"

definition fs_sync_dir :: "faults \<Rightarrow> unit io" where
  "fs_sync_dir ft = io_step ft (\<lambda>_ d. d) (\<lambda>d. (d, Inr ()))"

subsection \<open>The save\<close>

definition path_of :: "store \<Rightarrow> string \<Rightarrow> string" where
  "path_of d name = fs_dir d @ ''/'' @ name"

definition naming_orphan :: "io_error \<Rightarrow> string option \<Rightarrow> io_error" where
  "naming_orphan e orphaned =
     (case orphaned of
        Some aside \<Rightarrow> e\<lparr>ie_text := ie_text e @ '' ('' @ TMP @ '' was moved aside to '' @ aside @ '' first)''\<rparr>
      | None \<Rightarrow> e)"

definition map_err :: "(io_error \<Rightarrow> io_error) \<Rightarrow> 'a io \<Rightarrow> 'a io" where
  "map_err f m d = (case m d of (d', Inl e) \<Rightarrow> (d', Inl (f e)) | (d', Inr a) \<Rightarrow> (d', Inr a))"

definition write_synced :: "faults \<Rightarrow> string \<Rightarrow> u8 list \<Rightarrow> unit io" where
  "write_synced ft name bytes = try_io (fs_write ft name bytes) (\<lambda>_. fs_sync_file ft name)"

definition store_list :: "faults \<Rightarrow> listing io" where
  "store_list ft = try_io (fs_list ft) (\<lambda>names. ok_io (list_names names))"

definition store_generations :: "faults \<Rightarrow> (u64 \<times> string) list io" where
  "store_generations ft = try_io (store_list ft) (\<lambda>l. ok_io (li_generations l))"

definition set_mark :: "faults \<Rightarrow> string option \<Rightarrow> u64 \<Rightarrow> unit io" where
  "set_mark ft old r =
     (case old of
        Some o' \<Rightarrow> if o' = mark_name r then ok_io () else fs_rename ft o' (mark_name r)
      | None \<Rightarrow> fs_write ft (mark_name r) [])"

fun remove_all :: "faults \<Rightarrow> (u64 \<times> string) list \<Rightarrow> unit io" where
  "remove_all ft [] = ok_io ()"
| "remove_all ft ((_, name) # gs) = try_io (fs_remove ft name) (\<lambda>_. remove_all ft gs)"

definition prune :: "faults \<Rightarrow> unit io" where
  "prune ft = try_io (store_generations ft) (\<lambda>gens. remove_all ft (take (length gens - GENERATIONS) gens))"

definition last_opt :: "'a list \<Rightarrow> 'a option" where
  "last_opt xs = (if xs = [] then None else Some (last xs))"

definition commit_tmp :: "faults \<Rightarrow> u64 \<Rightarrow> committed io" where
  "commit_tmp ft r =
     try_io (store_list ft) (\<lambda>listed.
       let mark = last_opt (li_marks listed) in
       try_io (fs_exists ft CURRENT) (\<lambda>there.
         let generation = (if there then (case last_opt (li_generations listed) of None \<Rightarrow> 0 | Some g \<Rightarrow> fst g) + 1 else 0) in
         try_io (if there then fs_rename ft CURRENT (generation_name generation (map_option fst mark)) else ok_io ()) (\<lambda>_.
         try_io (set_mark ft (map_option snd mark) r) (\<lambda>_.
         try_io (fs_rename ft TMP CURRENT) (\<lambda>_.
         try_io (fs_sync_dir ft) (\<lambda>_ d.
           (case prune ft d of
              (d', Inl e) \<Rightarrow> (d', Inr \<lparr>cm_generation = generation, cm_pruning = Some (ie_text e), cm_orphaned = None\<rparr>)
            | (d', Inr _) \<Rightarrow> (d', Inr \<lparr>cm_generation = generation, cm_pruning = None, cm_orphaned = None\<rparr>))))))))"

subsection \<open>Moving a file aside\<close>

definition QUARANTINE_NAMES :: nat where "QUARANTINE_NAMES = 1000"

text \<open>To the first free name: where it went, and how the flush after it went.\<close>

fun move_aside_from :: "faults \<Rightarrow> string \<Rightarrow> string \<Rightarrow> nat list \<Rightarrow> (string \<times> (io_error + unit)) io" where
  "move_aside_from ft name tag [] d =
     (d, Inl \<lparr>ie_kind = OtherKind, ie_text = show_nat QUARANTINE_NAMES @ '' copies of '' @ name @ '' are aside already''\<rparr>)"
| "move_aside_from ft name tag (n # ns) d =
     (let aside = name @ ''.'' @ tag @ ''-'' @ show_nat n in
      try_io (fs_exists ft aside) (\<lambda>there.
        if there then move_aside_from ft name tag ns
        else try_io (fs_rename ft name aside) (\<lambda>_ d1. let (d2, synced) = fs_sync_dir ft d1 in (d2, Inr (aside, synced)))) d)"

definition move_aside :: "faults \<Rightarrow> string \<Rightarrow> string \<Rightarrow> (string \<times> (io_error + unit)) io" where
  "move_aside ft name tag = move_aside_from ft name tag [1..<Suc QUARANTINE_NAMES]"

definition orphan_tmp :: "faults \<Rightarrow> string option io" where
  "orphan_tmp ft d0 =
     (if fs_own d0 then (d0, Inr None)
      else try_io (fs_exists ft TMP) (\<lambda>there.
        if \<not> there then ok_io None
        else try_io (move_aside ft TMP ''orphan'') (\<lambda>(aside, synced) d.
          (case synced of
             Inl e \<Rightarrow> (d, Inl (e\<lparr>ie_text := TMP @ '' was moved aside to '' @ path_of d aside @
                        '', but the directory sync failed: '' @ ie_text e\<rparr>))
           | Inr _ \<Rightarrow> (d, Inr (Some (path_of d aside)))))) d0)"

definition store_save :: "faults \<Rightarrow> codec \<Rightarrow> persisted \<Rightarrow> committed io" where
  "store_save ft cd p d0 =
     (case encode cd p of
        Inl e \<Rightarrow> (d0, Inl e)
      | Inr bytes \<Rightarrow>
          try_io (write_synced ft NEW bytes) (\<lambda>_.
          try_io (orphan_tmp ft) (\<lambda>orphaned.
          try_io (map_err (\<lambda>e. naming_orphan e orphaned) (fs_rename ft NEW TMP)) (\<lambda>_ d.
          try_io (map_err (\<lambda>e. naming_orphan e orphaned) (commit_tmp ft (ps_rev p)))
            (\<lambda>cm. ok_io (cm\<lparr>cm_orphaned := orphaned\<rparr>)) (d\<lparr>fs_own := True\<rparr>)))) d0)"

definition store_new :: "string \<Rightarrow> (string, u8 list) btree \<Rightarrow> store" where
  "store_new dir files = \<lparr>fs_dir = dir, fs_files = files, fs_step = 0, fs_own = False\<rparr>"

end
