(* ===== verification/ControlLoop.thy ===== *)
theory ControlLoop
  imports Core Rt Persist
begin

text \<open>
  The control loop (\<open>control.rs\<close>, \<open>control/\<close>): the one thread that owns the core. Its
  connections, roles and broadcasts, the backlog of RT commands in front of the command ring, the
  saves, and the ways a run ends. What the outside answers is an argument: the clock at a handler's
  start, whether a message can be encoded and a write succeeds, what the store made of a save, what
  the driver and the RT thread report. The ring is seen from the producer: the commands not yet
  taken. Instants and durations are nanoseconds, and one handler reads the clock once.
\<close>

subsection \<open>Messages\<close>

datatype alarm_code = StateFallback | StateLost | Sanitizer | FaultAlarm | SaveFailed

record alarm =
  al_code :: alarm_code
  al_detail :: string

record hello_msg =
  he_proto :: u16
  he_build :: string
  he_hash :: string
  he_rev :: u64
  he_sample_rate :: nat
  he_block :: u32
  he_role :: role

record meters =
  me_seq :: u64
  me_inputs :: "f32 list list"
  me_mixes :: "f32 list list"
  me_groups :: "f32 list list"
  me_gr_db :: "f32 list"
  me_active_s :: "f64 list"
  me_trips :: u64
  me_own :: "f32 list list"

record hil_peak =
  hp_tx :: u16
  hp_peak :: f32

record status =
  su_callbacks :: u64
  su_late :: u64
  su_faulted :: bool
  su_process_max_us :: f64
  su_trips :: u64
  su_tap_overruns :: u64
  su_talkback_dropped :: u64
  su_cmd_backlog :: nat
  su_frames :: u32
  su_missed :: u64
  su_overruns :: u64
  su_resets :: u64
  su_held :: bool
  su_hil :: "hil_peak list"
  su_loopback :: u64
  su_interval_hist :: "(u32 \<times> u64) list"
  su_process_hist :: "(u32 \<times> u64) list"
  su_hist_top_us :: u32
  su_last_reopen_us :: u64
  su_fault_callback_us :: f64

datatype engine_msg =
    MHello hello_msg
  | MReply u64 u64 "cmd_error option"
  | MTopology topology_info
  | MState u64 mix_state transient
  | MDelta u64 "u64 option" "change list"
  | MMeters meters
  | MStatus status
  | MSaved u64 u64
  | MAlarm alarm
  | MDriverReleased string
  | MSuperseded

datatype client_msg =
    CHello u16 role string
  | CRequest u64 "u64 option" cmd

text \<open>\<open>parse_client\<close>'s result: the request's id where it could be read, and why.\<close>

type_synonym parsed = "(u64 option \<times> cmd_error) + client_msg"

datatype ctl_msg =
    Connected u64
  | Frame u64 parsed
  | Closed u64

datatype ending = EndStop | EndBackend string

datatype exit = ExitShutdown bool | ExitFault string | ExitBackend string

subsection \<open>State\<close>

definition PROTO :: u16 where "PROTO = 1"
definition MAX_CONNS :: nat where "MAX_CONNS = 8"
definition MAX_ALARMS :: nat where "MAX_ALARMS = 16"
definition FADE_WAIT :: nat where "FADE_WAIT = 500000000"

record settings =
  se_solo_grace :: nat
  se_block :: u32
  se_hold :: bool

record stream_stats =
  sx_callbacks :: u64
  sx_late :: u64
  sx_faulted :: bool
  sx_fault :: "string option"
  sx_max_process_ns :: u64
  sx_frames :: u32
  sx_missed :: u64
  sx_overruns :: u64
  sx_resets :: u64
  sx_last_reopen_us :: u64
  sx_fault_callback_ns :: u64

record histograms =
  hs_interval :: "(u32 \<times> u64) list"
  hs_process :: "(u32 \<times> u64) list"
  hs_top_us :: u32

text \<open>What a handler finds outside.\<close>

record outside =
  ou_now :: nat
  ou_encodes :: "engine_msg \<Rightarrow> bool"
  ou_writes :: "u64 \<Rightarrow> engine_msg \<Rightarrow> bool"
  ou_saves :: "persisted \<Rightarrow> string + committed"
  ou_unix_ms :: u64
  ou_build :: string
  ou_stats :: stream_stats
  ou_ending :: "ending option"
  ou_hists :: histograms
  ou_meters :: "meter_frame option"
  ou_rt_status :: rt_status
  ou_talkback_dropped :: u64

text \<open>What the loop did to the outside, in order.\<close>

datatype deed = Sent u64 engine_msg | Shut u64 | DriverStopped | Stored persisted

record control =
  ct_core :: core
  ct_schedule :: save_schedule
  ct_ring :: "rt_cmd list"
  ct_pending :: "rt_op list list"
  ct_driver :: bool
  ct_peers :: "(u64, role option) btree"
  ct_controller :: "u64 option"
  ct_controller_lost :: "nat option"
  ct_supervisor :: "u64 option"
  ct_held :: bool
  ct_test_deadline :: "nat option"
  ct_counters :: "u64 list"
  ct_alarms :: "alarm list"
  ct_last_status :: nat
  ct_settings :: settings
  ct_shutdown :: bool
  ct_trips_seen :: u64
  ct_hil_peaks :: "f64 list"
  ct_deeds :: "deed list"

definition control_new :: "core \<Rightarrow> u64 list \<Rightarrow> alarm list \<Rightarrow> settings \<Rightarrow> nat \<Rightarrow> control" where
  "control_new c counters alarms se now =
     \<lparr>ct_core = c, ct_schedule = schedule_default, ct_ring = [], ct_pending = [], ct_driver = True, ct_peers = [],
      ct_controller = None, ct_controller_lost = None, ct_supervisor = None, ct_held = se_hold se,
      ct_test_deadline = None, ct_counters = counters, ct_alarms = alarms, ct_last_status = now, ct_settings = se,
      ct_shutdown = False, ct_trips_seen = 0, ct_hil_peaks = replicate (length (co_hil c)) 0, ct_deeds = []\<rparr>"

subsection \<open>Connections\<close>

definition push_alarm :: "alarm list \<Rightarrow> alarm \<Rightarrow> alarm list" where
  "push_alarm xs a = (let ys = xs @ [a] in if MAX_ALARMS < length ys then tl ys else ys)"

definition did :: "deed \<Rightarrow> control \<Rightarrow> control" where
  "did d c = c\<lparr>ct_deeds := ct_deeds c @ [d]\<rparr>"

definition drop_peer :: "outside \<Rightarrow> u64 \<Rightarrow> control \<Rightarrow> control" where
  "drop_peer ou i c =
     (let c1 = (case map_of (ct_peers c) i of
                  Some _ \<Rightarrow> did (Shut i) (c\<lparr>ct_peers := bm_remove i (ct_peers c)\<rparr>) | None \<Rightarrow> c)
      in if ct_controller c1 = Some i
         then c1\<lparr>ct_controller := None, ct_controller_lost := Some (ou_now ou)\<rparr> else c1)"

definition write_msg :: "outside \<Rightarrow> u64 \<Rightarrow> engine_msg \<Rightarrow> control \<Rightarrow> control" where
  "write_msg ou i msg c =
     (case map_of (ct_peers c) i of
        None \<Rightarrow> c
      | Some _ \<Rightarrow> if ou_writes ou i msg then did (Sent i msg) c else drop_peer ou i c)"

definition send_msg :: "outside \<Rightarrow> u64 \<Rightarrow> engine_msg \<Rightarrow> control \<Rightarrow> control" where
  "send_msg ou i msg c = (if ou_encodes ou msg then write_msg ou i msg c else c)"

definition broadcast :: "outside \<Rightarrow> engine_msg \<Rightarrow> control \<Rightarrow> control" where
  "broadcast ou msg c =
     (if ou_encodes ou msg
      then fold (\<lambda>i. write_msg ou i msg) (map fst (filter (\<lambda>(_, r). r \<noteq> None) (ct_peers c))) c
      else c)"

definition reply_msg :: "outside \<Rightarrow> u64 \<Rightarrow> u64 \<Rightarrow> cmd_error option \<Rightarrow> control \<Rightarrow> control" where
  "reply_msg ou i request err c = send_msg ou i (MReply request (co_rev (ct_core c)) err) c"

definition raise_alarm :: "outside \<Rightarrow> alarm_code \<Rightarrow> string \<Rightarrow> control \<Rightarrow> control" where
  "raise_alarm ou code detail c =
     (let a = \<lparr>al_code = code, al_detail = detail\<rparr>
      in broadcast ou (MAlarm a) (c\<lparr>ct_alarms := push_alarm (ct_alarms c) a\<rparr>))"

definition state_msg :: "control \<Rightarrow> engine_msg" where
  "state_msg c = MState (co_rev (ct_core c)) (core_state (ct_core c)) (core_transient (ct_core c))"

definition supersede :: "outside \<Rightarrow> u64 option \<Rightarrow> u64 \<Rightarrow> control \<Rightarrow> control" where
  "supersede ou old i c =
     (case old of
        Some o' \<Rightarrow> if o' \<noteq> i then drop_peer ou o' (send_msg ou o' MSuperseded c) else c
      | None \<Rightarrow> c)"

definition hello :: "outside \<Rightarrow> u64 \<Rightarrow> u16 \<Rightarrow> role \<Rightarrow> control \<Rightarrow> control" where
  "hello ou i proto r c =
     (case negotiate PROTO proto of
        None \<Rightarrow>
          drop_peer ou i (reply_msg ou i 0 (Some (cmd_err Unsupported (''protocol '' @ show_nat (unat proto) @
            '' is not supported (the engine speaks '' @ show_nat (unat PROTO) @ '' and one version older)''))) c)
      | Some v \<Rightarrow>
          (let c1 = (if r = Control then supersede ou (ct_controller c) i c else c);
               c2 = (if r = Control then c1\<lparr>ct_controller := Some i, ct_controller_lost := None\<rparr> else c1);
               c3 = (if r = Supervisor then supersede ou (ct_supervisor c2) i c2 else c2);
               c4 = (if r = Supervisor then c3\<lparr>ct_supervisor := Some i\<rparr> else c3)
           in case map_of (ct_peers c4) i of
                None \<Rightarrow> c4
              | Some _ \<Rightarrow>
                  (let c5 = c4\<lparr>ct_peers := bm_insert i (Some r) (ct_peers c4)\<rparr>;
                       topo = co_topo (ct_core c5);
                       c6 = send_msg ou i (MHello \<lparr>he_proto = v, he_build = ou_build ou, he_hash = t_hash topo,
                              he_rev = co_rev (ct_core c5), he_sample_rate = SAMPLE_RATE,
                              he_block = se_block (ct_settings c5), he_role = r\<rparr>) c5;
                       c7 = send_msg ou i (MTopology (info topo)) c6;
                       c8 = send_msg ou i (state_msg c7) c7
                   in fold (\<lambda>a. send_msg ou i (MAlarm a)) (ct_alarms c8) c8)))"

subsection \<open>Saving\<close>

definition persisted_of :: "outside \<Rightarrow> control \<Rightarrow> persisted" where
  "persisted_of ou c =
     (let topo = co_topo (ct_core c)
      in \<lparr>ps_rev = co_rev (ct_core c), ps_hash = t_hash topo, ps_unix_ms = ou_unix_ms ou,
          ps_state = core_state (ct_core c),
          ps_counters = bm_collect (map2 (\<lambda>m n. (m_id m, n)) (t_mixes topo) (ct_counters c))\<rparr>)"

definition save :: "outside \<Rightarrow> control \<Rightarrow> control" where
  "save ou c0 =
     (let c1 = c0\<lparr>ct_schedule := schedule_default\<rparr>; ps = persisted_of ou c1; c = did (Stored ps) c1 in
      case ou_saves ou ps of
        Inr cm \<Rightarrow>
          (let c1 = (case cm_orphaned cm of
                       Some path \<Rightarrow> raise_alarm ou StateFallback
                         (''a save.tmp the boot did not load was moved aside to '' @ path) c
                     | None \<Rightarrow> c)
           in broadcast ou (MSaved (co_rev (ct_core c1)) (cm_generation cm)) c1)
      | Inl e \<Rightarrow> raise_alarm ou SaveFailed (''saving the state failed: '' @ e) c)"

subsection \<open>Requests\<close>

fun chunks :: "nat \<Rightarrow> 'a list \<Rightarrow> 'a list list" where
  "chunks n xs = (if xs = [] \<or> n = 0 then [] else take n xs # chunks n (drop n xs))"

declare chunks.simps [simp del]

fun flush_groups :: "rt_op list list \<Rightarrow> rt_cmd list \<Rightarrow> rt_op list list \<times> rt_cmd list" where
  "flush_groups [] ring = ([], ring)"
| "flush_groups (g # gs) ring =
     (case push_group (CMD_RING - length ring) 0 g of
        None \<Rightarrow> (g # gs, ring)
      | Some cs \<Rightarrow> flush_groups gs (ring @ cs))"

definition flush_rt :: "control \<Rightarrow> control" where
  "flush_rt c =
     (let (gs, ring) = flush_groups (ct_pending c) (ct_ring c) in c\<lparr>ct_pending := gs, ct_ring := ring\<rparr>)"

definition publish :: "outside \<Rightarrow> outcome \<Rightarrow> u64 option \<Rightarrow> control \<Rightarrow> control" where
  "publish ou out origin c =
     (let c1 = flush_rt (c\<lparr>ct_pending := ct_pending c @ chunks MAX_CMDS_PER_BLOCK (oc_rt out)\<rparr>)
      in if oc_changes out \<noteq> []
         then broadcast ou (MDelta (oc_rev out) origin (oc_changes out))
                (c1\<lparr>ct_schedule := schedule_changed (ou_now ou) (ct_schedule c1)\<rparr>)
         else c1)"

text \<open>\<open>Duration::from_secs_f64\<close> on the values the core admits: to the nearest nanosecond.\<close>

definition from_secs_f64 :: "f64 \<Rightarrow> nat" where
  "from_secs_f64 x = nat (rne (val x * 10 ^ 9))"

definition refusal :: "role option \<Rightarrow> cmd \<Rightarrow> cmd_error option" where
  "refusal r cmd =
     (case r of
        None \<Rightarrow> Some (cmd_err BadRequest ''say hello first'')
      | Some Observe \<Rightarrow> if \<not> is_read_only cmd then Some (cmd_err NotController ''an observer may only read'') else None
      | Some Supervisor \<Rightarrow>
          if \<not> supervisor_may cmd then Some (cmd_err NotController ''the supervisor never changes the mix'') else None
      | Some Control \<Rightarrow>
          if is_supervisor cmd then Some (cmd_err NotSupervisor ''only the supervisor sends this'') else None)"

definition note_cmd :: "outside \<Rightarrow> cmd \<Rightarrow> control \<Rightarrow> control" where
  "note_cmd ou cmd c =
     (let started = c\<lparr>ct_test_deadline :=
            map_option (\<lambda>t. ou_now ou + from_secs_f64 (ts_ttl_s t)) (tr_test_signal (core_transient (ct_core c)))\<rparr>
      in case cmd of
           StartTestSignal _ _ _ _ \<Rightarrow> started
         | HilTestSignal _ _ _ _ _ _ \<Rightarrow> started
         | StopTestSignal \<Rightarrow> c\<lparr>ct_test_deadline := None\<rparr>
         | Arm \<Rightarrow> c\<lparr>ct_held := False\<rparr>
         | _ \<Rightarrow> c)"

definition perform :: "outside \<Rightarrow> u64 \<Rightarrow> effect \<Rightarrow> control \<Rightarrow> control" where
  "perform ou i e c =
     (case e of
        NoEffect \<Rightarrow> c
      | SendState \<Rightarrow> send_msg ou i (state_msg c) c
      | SendTopology \<Rightarrow> send_msg ou i (MTopology (info (co_topo (ct_core c)))) c
      | Save \<Rightarrow> save ou c
      | EffShutdown \<Rightarrow> c\<lparr>ct_shutdown := True\<rparr>
      | Imported \<Rightarrow>
          (let c1 = broadcast ou (state_msg c) c
           in c1\<lparr>ct_schedule := schedule_changed (ou_now ou) (ct_schedule c1)\<rparr>))"

definition frame_request :: "libm \<Rightarrow> outside \<Rightarrow> u64 \<Rightarrow> role option \<Rightarrow> u64 \<Rightarrow> u64 option \<Rightarrow> cmd \<Rightarrow> control \<Rightarrow> control" where
  "frame_request lm ou i r rq origin cmd c =
     (case refusal r cmd of
        Some e \<Rightarrow> reply_msg ou i rq (Some e) c
      | None \<Rightarrow>
          (case core_apply lm cmd (ct_core c) of
             (co, Inl e) \<Rightarrow> reply_msg ou i rq (Some e) (c\<lparr>ct_core := co\<rparr>)
           | (co, Inr out) \<Rightarrow>
               perform ou i (oc_effect out)
                 (publish ou out origin (reply_msg ou i rq None (note_cmd ou cmd (c\<lparr>ct_core := co\<rparr>))))))"

definition frame :: "libm \<Rightarrow> outside \<Rightarrow> u64 \<Rightarrow> parsed \<Rightarrow> control \<Rightarrow> control" where
  "frame lm ou i m c =
     (case map_of (ct_peers c) i of
        None \<Rightarrow> c
      | Some r \<Rightarrow>
          (case m of
             Inl (rq, e) \<Rightarrow> reply_msg ou i (case rq of Some q \<Rightarrow> q | None \<Rightarrow> 0) (Some e) c
           | Inr (CHello proto r' _) \<Rightarrow> hello ou i proto r' c
           | Inr (CRequest rq origin cmd) \<Rightarrow> frame_request lm ou i r rq origin cmd c))"

definition handle :: "libm \<Rightarrow> outside \<Rightarrow> ctl_msg \<Rightarrow> control \<Rightarrow> control" where
  "handle lm ou msg c =
     (case msg of
        Connected i \<Rightarrow>
          if MAX_CONNS \<le> length (ct_peers c) then did (Shut i) c
          else c\<lparr>ct_peers := bm_insert i None (ct_peers c)\<rparr>
      | Closed i \<Rightarrow> drop_peer ou i c
      | Frame i m \<Rightarrow> frame lm ou i m c)"

subsection \<open>Status and meters\<close>

definition meters_msg :: "meter_frame \<Rightarrow> meters" where
  "meters_msg f =
     (let pair = map as_f32
      in \<lparr>me_seq = mf_seq f, me_inputs = map pair (mf_inputs f), me_mixes = map pair (mf_mixes f),
          me_groups = map pair (mf_groups f), me_gr_db = map as_f32 (mf_gr_db f),
          me_active_s = map (\<lambda>a. f64_of_nat (unat a) / f64_of_nat SAMPLE_RATE) (mf_active f),
          me_trips = mf_trips f, me_own = map pair (mf_own f)\<rparr>)"

text \<open>\<open>stats\<close> of the driver, or the default when it is gone.\<close>

definition stats_of :: "outside \<Rightarrow> control \<Rightarrow> stream_stats" where
  "stats_of ou c =
     (if ct_driver c then ou_stats ou
      else \<lparr>sx_callbacks = 0, sx_late = 0, sx_faulted = False, sx_fault = None, sx_max_process_ns = 0, sx_frames = 0,
             sx_missed = 0, sx_overruns = 0, sx_resets = 0, sx_last_reopen_us = 0, sx_fault_callback_ns = 0\<rparr>)"

definition status_msg :: "outside \<Rightarrow> control \<Rightarrow> status" where
  "status_msg ou c =
     (let st = stats_of ou c; rt = ou_rt_status ou;
          h = (if ct_driver c then ou_hists ou else \<lparr>hs_interval = [], hs_process = [], hs_top_us = 0\<rparr>)
      in \<lparr>su_callbacks = sx_callbacks st, su_late = sx_late st, su_faulted = sx_faulted st,
          su_process_max_us = f64_of_nat (unat (sx_max_process_ns st)) / Num 1000,
          su_trips = st_trips rt, su_tap_overruns = st_tap_overruns rt,
          su_talkback_dropped = ou_talkback_dropped ou,
          su_cmd_backlog = sum_list (map length (ct_pending c)),
          su_frames = sx_frames st, su_missed = sx_missed st, su_overruns = sx_overruns st, su_resets = sx_resets st,
          su_held = ct_held c,
          su_hil = map2 (\<lambda>tx peak. \<lparr>hp_tx = tx, hp_peak = as_f32 peak\<rparr>) (co_hil (ct_core c)) (ct_hil_peaks c),
          su_loopback = st_loopback rt, su_interval_hist = hs_interval h, su_process_hist = hs_process h,
          su_hist_top_us = hs_top_us h, su_last_reopen_us = sx_last_reopen_us st,
          su_fault_callback_us = f64_of_nat (unat (sx_fault_callback_ns st)) / Num 1000\<rparr>)"

definition note_hil :: "f64 list \<Rightarrow> control \<Rightarrow> control" where
  "note_hil peaks c = c\<lparr>ct_hil_peaks := map2 fmax (ct_hil_peaks c) peaks @ drop (length peaks) (ct_hil_peaks c)\<rparr>"

definition next_status :: "outside \<Rightarrow> control \<Rightarrow> control \<times> status" where
  "next_status ou c = (c\<lparr>ct_hil_peaks := map (\<lambda>_. 0) (ct_hil_peaks c)\<rparr>, status_msg ou c)"

subsection \<open>How a run ends\<close>

definition release :: "outside \<Rightarrow> string \<Rightarrow> control \<Rightarrow> control" where
  "release ou reason c =
     (let c1 = (if ct_driver c then did DriverStopped (c\<lparr>ct_driver := False\<rparr>) else c);
          c2 = broadcast ou (MDriverReleased reason) c1
      in fold (\<lambda>i. did (Shut i)) (map fst (ct_peers c2)) (c2\<lparr>ct_peers := []\<rparr>))"

text \<open>
  The wait for the fade: each poll is what the loop's condition reads (whether the callback has
  faded, the time since the start) and how many commands the callback has taken from the ring by
  then; \<open>final\<close> is the last reading. The loop ends at the latest at \<open>FADE_WAIT\<close>.
\<close>

fun fade_polls :: "(bool \<times> nat \<times> nat) list \<Rightarrow> control \<Rightarrow> control" where
  "fade_polls [] c = c"
| "fade_polls ((faded, elapsed, taken) # ps) c =
     (if \<not> faded \<and> elapsed < FADE_WAIT
      then fade_polls ps (flush_rt (c\<lparr>ct_ring := drop taken (ct_ring c)\<rparr>)) else c)"

definition fade_out :: "(bool \<times> nat \<times> nat) list \<Rightarrow> bool \<Rightarrow> control \<Rightarrow> control \<times> bool" where
  "fade_out polls final c = (fade_polls polls (c\<lparr>ct_pending := ct_pending c @ [[RFadeOut]]\<rparr>), final)"

definition shutdown_now :: "outside \<Rightarrow> (bool \<times> nat \<times> nat) list \<Rightarrow> bool \<Rightarrow> control \<Rightarrow> control \<times> exit" where
  "shutdown_now ou polls final c =
     (let (c1, faded) = fade_out polls final (save ou c) in (release ou ''shutdown'' c1, ExitShutdown faded))"

definition fault :: "outside \<Rightarrow> string \<Rightarrow> control \<Rightarrow> control \<times> exit" where
  "fault ou why c = (release ou ''fault'' (raise_alarm ou FaultAlarm why (save ou c)), ExitFault why)"

definition backend_ended :: "outside \<Rightarrow> string \<Rightarrow> control \<Rightarrow> control \<times> exit" where
  "backend_ended ou why c = (release ou ''backend ended'' (save ou c), ExitBackend why)"

subsection \<open>The tick\<close>

definition tick_meters :: "outside \<Rightarrow> control \<Rightarrow> control" where
  "tick_meters ou c =
     (case ou_meters ou of
        None \<Rightarrow> c
      | Some f \<Rightarrow>
          (let c1 = (if ct_trips_seen c < mf_trips f
                     then raise_alarm ou Sanitizer (''sanitiser trips: '' @ show_nat (unat (mf_trips f)))
                            (c\<lparr>ct_trips_seen := mf_trips f\<rparr>)
                     else c)
           in broadcast ou (MMeters (meters_msg f)) (note_hil (mf_hil f) (c1\<lparr>ct_counters := mf_active f\<rparr>))))"

definition tick_status :: "outside \<Rightarrow> control \<Rightarrow> control" where
  "tick_status ou c =
     (if 1000000000 \<le> ou_now ou - ct_last_status c
      then (let (c1, st) = next_status ou (c\<lparr>ct_last_status := ou_now ou\<rparr>) in broadcast ou (MStatus st) c1) else c)"

definition tick_solos :: "libm \<Rightarrow> outside \<Rightarrow> control \<Rightarrow> control" where
  "tick_solos lm ou c =
     (case ct_controller_lost c of
        Some lost \<Rightarrow>
          if ct_controller c = None \<and> se_solo_grace (ct_settings c) \<le> ou_now ou - lost
          then (let (co, out) = clear_solos lm (ct_core c)
                in publish ou out None (c\<lparr>ct_controller_lost := None, ct_core := co\<rparr>))
          else c
      | None \<Rightarrow> c)"

definition tick_deadline :: "outside \<Rightarrow> control \<Rightarrow> control" where
  "tick_deadline ou c =
     (case ct_test_deadline c of
        Some d \<Rightarrow>
          if d \<le> ou_now ou
          then (let (co, out) = end_test_signal (ct_core c)
                in publish ou out None (c\<lparr>ct_test_deadline := None, ct_core := co\<rparr>))
          else c
      | None \<Rightarrow> c)"

definition tick_save :: "outside \<Rightarrow> control \<Rightarrow> control" where
  "tick_save ou c = (if schedule_due (ou_now ou) (ct_schedule c) then save ou c else c)"

definition tick :: "libm \<Rightarrow> outside \<Rightarrow> (bool \<times> nat \<times> nat) list \<Rightarrow> bool \<Rightarrow> control \<Rightarrow> control \<times> exit option" where
  "tick lm ou polls final c0 =
     (let c = flush_rt c0; st = stats_of ou c in
      if sx_faulted st
      then (let (c1, s) = next_status ou c;
                (c2, e) = fault ou (case sx_fault st of Some w \<Rightarrow> w | None \<Rightarrow> ''unknown'') (broadcast ou (MStatus s) c1)
            in (c2, Some e))
      else
        case (if ct_driver c then ou_ending ou else None) of
          Some (EndBackend why) \<Rightarrow> (let (c1, e) = backend_ended ou why c in (c1, Some e))
        | en \<Rightarrow>
            (let c1 = (if en = Some EndStop then c\<lparr>ct_shutdown := True\<rparr> else c) in
             if ct_shutdown c1 then (let (c2, e) = shutdown_now ou polls final c1 in (c2, Some e))
             else (tick_save ou (tick_deadline ou (tick_solos lm ou (tick_status ou (tick_meters ou c1)))), None)))"

subsection \<open>The start\<close>

text \<open>
  The part of \<open>run\<close> (\<open>engine.rs\<close>) that builds both threads from the loaded state: the limiter
  counters by mix, the core with HIL's outputs, the processor with one loopback return for each.
\<close>

definition boot ::
  "libm \<Rightarrow> topology \<Rightarrow> persisted \<Rightarrow> flags \<Rightarrow> u16 list \<Rightarrow> alarm list \<Rightarrow> settings \<Rightarrow> nat \<Rightarrow> control \<times> processor" where
  "boot lm topo ps fl hil alarms se now =
     (let counters = map (\<lambda>b. or_default 0 (map_of (ps_counters ps) (m_id b))) (t_mixes topo)
      in (control_new (with_hil hil (core_new topo (ps_state ps) (ps_rev ps) fl)) counters alarms se now,
          proc_new lm topo (ps_state ps) counters \<lparr>op_fade_in_ms = FADE_IN_MS, op_hold = se_hold se\<rparr>
            (length hil) (length hil)))"

end
