(* ===== verification/CoreProps.thy ===== *)
theory CoreProps
  imports Core
begin

text \<open>
  What the control core guarantees: a request that fails leaves it unchanged, one that succeeds
  bumps the revision exactly when it changed something, and every request keeps the invariant
  that all values are within their caps, solos name level slots, and the listen slots and the
  test signal are as the protocol says.
\<close>

subsection \<open>The invariant\<close>

definition solo_ok :: "topology \<Rightarrow> (nat, nat list) btree \<Rightarrow> bool" where
  "solo_ok t solo =
     (bm_ok solo \<and>
      (\<forall>m ks. map_of solo m = Some ks \<longrightarrow>
         m < length (t_mixes t) \<and> ks \<noteq> [] \<and> sorted_wrt (<) ks \<and> (\<forall>k \<in> set ks. k < levels t m)))"

text \<open>Slot 0 holds the engineer's mix or nothing, slot 1 another mix or nothing.\<close>

definition listen_ok :: "topology \<Rightarrow> nat option \<times> nat option \<Rightarrow> bool" where
  "listen_ok t l =
     ((fst l = None \<or> fst l = Some (t_engineer t)) \<and>
      (case snd l of None \<Rightarrow> True | Some m \<Rightarrow> m < length (t_mixes t) \<and> m \<noteq> t_engineer t))"

definition test_ok :: "topology \<Rightarrow> test_signal option \<Rightarrow> bool" where
  "test_ok t sig =
     (case sig of None \<Rightarrow> True
      | Some s \<Rightarrow> input_index t (ts_input s) \<noteq> None \<and> in_range TEST_HZ (ts_hz s) \<and>
          in_range TEST_DBFS (ts_dbfs s) \<and> in_range TEST_TTL_S (ts_ttl_s s))"

definition core_ok :: "core \<Rightarrow> bool" where
  "core_ok c =
     (topo_wf (co_topo c) \<and> state_ok (co_topo c) (co_s c) \<and> solo_ok (co_topo c) (co_solo c) \<and>
      listen_ok (co_topo c) (co_listen c) \<and> test_ok (co_topo c) (co_test c))"

lemma test_ranges_ok [simp]: "range_ok TEST_HZ" "range_ok TEST_DBFS" "range_ok TEST_TTL_S"
  by code_simp+

lemma core_new_ok: "topo_wf t \<Longrightarrow> core_ok (core_new t state rv fl)"
  by (simp add: core_ok_def core_new_def core_reconcile_ok solo_ok_def listen_ok_def test_ok_def bm_ok_def)

lemma with_hil_ok: "core_ok c \<Longrightarrow> core_ok (with_hil hil c)"
  by (simp add: core_ok_def with_hil_def)

subsection \<open>Setters keep it\<close>

lemma capped_ok: "range_ok r \<Longrightarrow> capped v r what = Inr x \<Longrightarrow> in_range r x"
  by (auto simp: capped_def dest: cap_in_range)

lemma capped_opt_ok:
  "range_ok r \<Longrightarrow> in_range r old \<Longrightarrow> capped_opt v r what old = Inr x \<Longrightarrow> in_range r x"
  by (auto simp: capped_opt_def dest: capped_ok split: option.splits)

lemma set_input_ok: "core_ok c \<Longrightarrow> input_ok new \<Longrightarrow> core_ok (fst (set_input lm i new c))"
  by (auto simp: set_input_def core_ok_def state_ok_def list_all_length nth_list_update split: option.splits)

lemma upd_mix_ok:
  assumes "core_ok c" and "m < length (t_mixes (co_topo c)) \<Longrightarrow> rec_ok (co_topo c) m (f (rs_mixes (co_s c) ! m))"
  shows "core_ok (upd_mix m f c)"
  using assms by (auto simp: upd_mix_def core_ok_def state_ok_def nth_lmod)

lemma list_all_update: "list_all P xs \<Longrightarrow> P x \<Longrightarrow> list_all P (xs[i := x])"
  using set_update_subset_insert [of xs i x] by (auto simp: list_all_iff)

lemma core_rec_ok: "core_ok c \<Longrightarrow> m < length (t_mixes (co_topo c)) \<Longrightarrow> rec_ok (co_topo c) m (rs_mixes (co_s c) ! m)"
  by (simp add: core_ok_def state_ok_def)

lemma set_out_ok:
  assumes "core_ok c" and "out_ok new"
  shows "core_ok (fst (set_out lm m new c))"
proof -
  have "core_ok (upd_mix m (\<lambda>r. r\<lparr>mr_out := new\<rparr>) c)"
    by (rule upd_mix_ok) (use assms core_rec_ok [OF assms(1), of m] in \<open>auto simp: rec_ok_def\<close>)
  with assms(1) show ?thesis by (auto simp: set_out_def Let_def split: option.splits)
qed

lemma set_level_ok:
  assumes "core_ok c" and "level_ok new"
  shows "core_ok (fst (set_level lm m k new c))"
proof -
  have "core_ok (upd_mix m (\<lambda>r. r\<lparr>mr_levels := (mr_levels r)[k := new]\<rparr>) c)"
    by (rule upd_mix_ok)
      (use assms core_rec_ok [OF assms(1), of m] in \<open>auto simp: rec_ok_def list_all_update\<close>)
  with assms(1) show ?thesis by (auto simp: set_level_def Let_def split: option.splits)
qed

lemma set_group_ok:
  assumes "core_ok c" and "group_ok new"
  shows "core_ok (fst (set_group lm m g new c))"
proof -
  have "core_ok (upd_mix m (\<lambda>r. r\<lparr>mr_groups := (mr_groups r)[g := new]\<rparr>) c)"
    by (rule upd_mix_ok)
      (use assms core_rec_ok [OF assms(1), of m] in \<open>auto simp: rec_ok_def list_all_update\<close>)
  with assms(1) show ?thesis by (auto simp: set_group_def Let_def split: option.splits)
qed

lemma core_out_ok: "core_ok c \<Longrightarrow> out_ok (core_out c m)"
  using core_rec_ok [of c m]
  by (cases "m < length (rs_mixes (co_s c))")
    (auto simp: core_out_def lget_def ouc.default_ok rec_ok_def core_ok_def state_ok_def)

lemma core_level_ok: "core_ok c \<Longrightarrow> level_ok (core_level c m k)"
  using core_rec_ok [of c m]
  by (cases "m < length (rs_mixes (co_s c))"; cases "k < length (mr_levels (rs_mixes (co_s c) ! m))")
    (auto simp: core_level_def lget_def lvc.default_ok rec_ok_def core_ok_def state_ok_def list_all_length)

lemma core_strip_ok: "core_ok c \<Longrightarrow> group_ok (core_strip c m g)"
  using core_rec_ok [of c m]
  by (cases "m < length (rs_mixes (co_s c))"; cases "g < length (mr_groups (rs_mixes (co_s c) ! m))")
    (auto simp: core_strip_def lget_def grc.default_ok rec_ok_def core_ok_def state_ok_def list_all_length)

lemma core_input_ok: "core_ok c \<Longrightarrow> input_ok (or_default input_default (lget (rs_inputs (co_s c)) i))"
  by (cases "i < length (rs_inputs (co_s c))")
    (auto simp: lget_def inc.default_ok core_ok_def state_ok_def list_all_length)

text \<open>The core a fallible method leaves, through \<open>?\<close>.\<close>

lemma try_c_core:
  assumes "core_ok c" and "\<And>a. r = Inr a \<Longrightarrow> core_ok (fst (k a))"
  shows "core_ok (fst (try_c r c k))"
  using assms by (cases r) auto

lemma fst_ok_c [simp]: "fst (ok_c cp) = fst cp"
  by (simp add: ok_c_def)

subsection \<open>Solo, listen, test signals keep it\<close>

lemma insort_insert_sorted: "sorted_wrt (<) ks \<Longrightarrow> sorted_wrt (<) (bs_insert (k :: nat) ks)"
  by (simp add: strict_sorted_iff sorted_insort_insert distinct_insort_insert)

lemma solo_fold:
  assumes wf: "topo_wf t" and f: "fold_r (solo_step t m i) srcs [] = Inr ks"
  shows "sorted_wrt (<) ks \<and> set ks = {k. \<exists>src \<in> set srcs. slot t m src = Some k}"
proof -
  have "sorted_wrt (<) ks' \<and> set ks' = set ks0 \<union> {k. \<exists>src \<in> set srcs. slot t m src = Some k}"
    if "fold_r (solo_step t m i) srcs ks0 = Inr ks'" "sorted_wrt (<) ks0" for ks0 ks'
    using that
  proof (induction srcs arbitrary: ks0)
    case (Cons src srcs)
    from Cons.prems(1) obtain k where k: "slot t m src = Some k" "fold_r (solo_step t m i) srcs (bs_insert k ks0) = Inr ks'"
      by (cases "slot t m src") (auto simp: solo_step_def [of t m i src])
    from Cons.IH [OF k(2) insort_insert_sorted [OF Cons.prems(2)]] k(1) show ?case
      by (auto simp: set_insort_insert)
  qed simp
  from this [OF f] show ?thesis by simp
qed

lemma set_solo_ok:
  assumes ok: "core_ok c"
  shows "core_ok (fst (set_solo lm i srcs c))"
  unfolding set_solo_def
proof (intro try_c_core)
  fix m assume m: "core_mix c i = Inr m"
  have wf: "topo_wf (co_topo c)" using ok by (simp add: core_ok_def)
  have mlen: "m < length (t_mixes (co_topo c))"
    using m by (auto simp: core_mix_def wf_mix_index [OF wf])
  show "core_ok (fst (if MAX_SOLO < length srcs then (c, Inl (cmd_err BadValue (''at most '' @ show_nat MAX_SOLO @ '' solo sources'')))
     else try_c (fold_r (solo_step (co_topo c) m i) srcs []) c (\<lambda>new.
         if or_default [] (map_of (co_solo c) m) = new then (c, Inr partial_default)
         else (let c' = c\<lparr>co_solo := (if new = [] then bm_remove m (co_solo c) else bm_insert m new (co_solo c))\<rparr>
            in (c', Inr (partial_changed [ChSolo i (List.map_filter (t_source (co_topo c) m) new)] (level_ops lm c' m)))))))"
  proof (cases "MAX_SOLO < length srcs")
    case False
    have "core_ok (c\<lparr>co_solo := (if new = [] then bm_remove m (co_solo c) else bm_insert m new (co_solo c))\<rparr>)"
      if "fold_r (solo_step (co_topo c) m i) srcs [] = Inr new" for new
    proof -
      have "sorted_wrt (<) new" "k \<in> set new \<Longrightarrow> k < levels (co_topo c) m" for k
        using solo_fold [OF wf that] ls.slot_sound [OF wf, of m] by auto
      then show ?thesis using ok mlen
        by (auto simp: core_ok_def solo_ok_def bm_insert_ok bm_remove_ok map_of_bm_remove split: if_splits)
    qed
    with False ok show ?thesis by (simp, intro try_c_core) (auto simp: Let_def)
  qed (simp add: ok)
qed (rule ok)

lemma start_listen_ok:
  assumes ok: "core_ok c"
  shows "core_ok (fst (start_listen i c))"
  unfolding start_listen_def
proof (intro try_c_core)
  fix m assume "core_mix c i = Inr m"
  moreover have wf: "topo_wf (co_topo c)" using ok by (simp add: core_ok_def)
  ultimately have "m < length (t_mixes (co_topo c))"
    by (auto simp: core_mix_def wf_mix_index)
  then show "core_ok (fst (let slt = (if m \<noteq> t_engineer (co_topo c) then 1 else 0); current = listen_get slt (co_listen c) in
       if current = Some m then (c, Inr partial_default)
       else if slt = 1 \<and> current \<noteq> None then (c, Inl (cmd_err NoSource ''another mix is being listened to''))
       else (let c' = c\<lparr>co_listen := listen_put slt (Some m) (co_listen c)\<rparr>
          in (c', Inr (listen_partial c' [RListen (of_nat slt) (Some (ix m))])))))"
    using ok by (auto simp: Let_def core_ok_def listen_ok_def listen_put_def listen_get_def)
qed (rule ok)

lemma stop_slots_ok: "listen_ok t l \<Longrightarrow> listen_ok t (fst (fold (stop_slot m) slts (l, rt)))"
proof (induction slts arbitrary: l rt)
  case (Cons s slts)
  have "listen_ok t (fst (stop_slot m s (l, rt)))"
    using Cons.prems by (auto simp: stop_slot_def listen_ok_def listen_put_def listen_get_def)
  then show ?case using Cons.IH by (cases "stop_slot m s (l, rt)") simp
qed simp

lemma stop_listen_ok: "core_ok c \<Longrightarrow> core_ok (fst (stop_listen i c))"
  unfolding stop_listen_def
  using stop_slots_ok [of "co_topo c" "co_listen c" _ "[0, 1]" "[]"]
  by (intro try_c_core) (auto simp: Let_def case_prod_beta core_ok_def simp del: fold_simps)

lemma start_test_ok:
  assumes "core_ok c"
  shows "core_ok (fst (start_test lm i hz dbfs ttl mk listen c))"
proof -
  show ?thesis
    unfolding start_test_def
    by (intro try_c_core)
      (use assms in \<open>auto simp: Let_def core_ok_def test_ok_def core_input_def dest: capped_ok [rotated]\<close>)
qed

lemma core_ok_updates:
  "core_ok c \<Longrightarrow> core_ok (c\<lparr>co_test := None\<rparr>)"
  "core_ok c \<Longrightarrow> core_ok (c\<lparr>co_s := fst (core_reconcile (co_topo c) state)\<rparr>)"
  "core_ok c \<Longrightarrow> core_ok (c\<lparr>co_rev := r\<rparr>)"
  "core_ok c \<Longrightarrow> core_ok (c\<lparr>co_solo := bm_remove m (co_solo c)\<rparr>)"
  by (auto simp: core_ok_def test_ok_def core_reconcile_ok solo_ok_def bm_remove_ok map_of_bm_remove split: if_splits)

lemma level_edit_ok:
  assumes "core_ok c" and "capped_opt g FADER_DB w (lv_gain_db (core_level c m k)) = Inr v"
    and "capped_opt p PAN w' (lv_pan (core_level c m k)) = Inr q"
  shows "level_ok ((core_level c m k)\<lparr>lv_gain_db := v, lv_pan := q, lv_muted := b\<rparr>)"
  using core_level_ok [OF assms(1), of m k] capped_opt_ok [OF _ _ assms(2)] capped_opt_ok [OF _ _ assms(3)]
  by (simp add: level_ok_def)

lemma one_ok: "core_ok c \<Longrightarrow> core_ok (fst (one lm cmd c))"
proof (induction lm cmd c rule: one.induct)
  case (1 lm input trim_db muted processing c)
  have "input_ok (or_default input_default (lget (rs_inputs (co_s c)) i))" for i
    using core_input_ok [OF 1] .
  then show ?case using 1
    by (simp only: one.simps Let_def, intro try_c_core)
      (auto intro!: set_input_ok simp: input_ok_def dest: capped_opt_ok [rotated 2])
next
  case (2 lm mixid volume_db muted c)
  then show ?case using core_out_ok [OF 2]
    by (simp only: one.simps Let_def, intro try_c_core)
      (auto intro!: set_out_ok simp: out_ok_def dest: capped_opt_ok [rotated 2])
next
  case (3 lm mixid src gain_db pan muted c)
  then show ?case
    by (simp only: one.simps Let_def, intro try_c_core) (auto intro!: set_level_ok level_edit_ok)
next
  case (4 lm mixid grp gain_db muted c)
  then show ?case using core_strip_ok [OF 4]
    by (simp only: one.simps Let_def, intro try_c_core)
      (auto intro!: set_group_ok simp: group_ok_def dest: capped_opt_ok [rotated 2])
next
  case (5 lm target eq0 c)
  have "input_ok ((or_default input_default (lget (rs_inputs (co_s c)) i))\<lparr>in_eq := cap_eq eq0\<rparr>)"
    "out_ok ((core_out c m)\<lparr>mo_eq := cap_eq eq0\<rparr>)" "group_ok ((core_strip c m g)\<lparr>mg_eq := cap_eq eq0\<rparr>)" for i m g
    using core_input_ok [OF 5, of i] core_out_ok [OF 5, of m] core_strip_ok [OF 5, of m g]
    by (simp_all add: input_ok_def out_ok_def group_ok_def eqc.cap_ok)
  then show ?case using 5
    by (auto simp: Let_def split: eq_target.split intro!: try_c_core set_input_ok set_out_ok set_group_ok)
next
  case (6 lm mixid enabled limit_db c)
  then show ?case using core_out_ok [OF 6]
    by (simp only: one.simps Let_def, intro try_c_core)
      (auto intro!: set_out_ok simp: out_ok_def dest: capped_opt_ok [rotated 2])
qed (auto simp: Let_def set_solo_ok start_listen_ok stop_listen_ok core_ok_updates
      intro!: try_c_core start_test_ok split: option.splits)

subsection \<open>Failures change nothing\<close>

lemma try_c_fails:
  assumes "\<And>a. r = Inr a \<Longrightarrow> snd (k a) = Inl e \<Longrightarrow> fst (k a) = c" and "snd (try_c r c k) = Inl e"
  shows "fst (try_c r c k) = c"
  using assms by (cases r) auto

lemma ok_c_succeeds [simp]: "snd (ok_c cp) \<noteq> Inl e"
  by (simp add: ok_c_def)

lemma start_test_fails: "snd (start_test lm i hz dbfs ttl mk listen c) = Inl e \<Longrightarrow> fst (start_test lm i hz dbfs ttl mk listen c) = c"
  unfolding start_test_def by (erule try_c_fails [rotated])+ (simp add: Let_def)

lemma one_fails: "snd (one lm cmd c) = Inl e \<Longrightarrow> fst (one lm cmd c) = c"
proof (induction lm cmd c rule: one.induct)
  case (5 lm target eq0 c)
  then show ?case
    by (auto simp: Let_def split: eq_target.splits if_splits elim!: try_c_fails [rotated])
next
  case (8 lm mixid sources c)
  then show ?case
    by (auto simp: set_solo_def Let_def split: if_splits elim!: try_c_fails [rotated])
next
  case (9 lm mixid c)
  then show ?case
    by (auto simp: start_listen_def Let_def split: if_splits elim!: try_c_fails [rotated])
next
  case (10 lm mixid c)
  then show ?case
    by (auto simp: stop_listen_def Let_def case_prod_beta elim!: try_c_fails [rotated])
qed (auto simp: Let_def start_test_fails split: if_splits option.splits elim!: try_c_fails [rotated])

lemma batch_fails: "snd (batch lm ops c) = Inl e \<Longrightarrow> fst (batch lm ops c) = c"
  by (auto simp: batch_def split: if_splits elim!: try_c_fails [rotated])

subsection \<open>The revision\<close>

text \<open>A successful method: the revision is not touched yet, and without a bump nothing changed.\<close>

definition bump_ok :: "core \<Rightarrow> partial_out core_m \<Rightarrow> bool" where
  "bump_ok c r =
     (case snd r of Inl _ \<Rightarrow> True
      | Inr p \<Rightarrow> co_rev (fst r) = co_rev c \<and>
          (if pa_bump p then pa_changes p \<noteq> [] \<or> pa_effect p = Some Imported
           else fst r = c \<and> pa_changes p = [] \<and> pa_effect p \<noteq> Some Imported))"

lemma bump_ok_try: "(\<And>a. r = Inr a \<Longrightarrow> bump_ok c (k a)) \<Longrightarrow> bump_ok c (try_c r c k)"
  by (cases r) (auto simp: bump_ok_def)

lemma bump_ok_simps [simp]:
  "bump_ok c (c, Inr partial_default)" "bump_ok c (c', Inl e)"
  "co_rev c' = co_rev c \<Longrightarrow> bump_ok c (c', Inr (partial_changed (x # xs) rt))"
  by (simp_all add: bump_ok_def partial_default_def partial_changed_def)

lemma bump_ok_setters [simp]:
  "bump_ok c (ok_c (set_input lm i n1 c))" "bump_ok c (ok_c (set_out lm m n2 c))"
  "bump_ok c (ok_c (set_level lm m k n3 c))" "bump_ok c (ok_c (set_group lm m g n4 c))"
  by (auto simp: ok_c_def set_input_def set_out_def set_level_def set_group_def upd_mix_def Let_def
      split: option.splits)

lemma listen_put_same: "listen_get n l = x \<Longrightarrow> listen_put n x l = l"
  by (cases l) (auto simp: listen_get_def listen_put_def)

lemma stop_slots_none: "snd (fold (stop_slot m) slts s) = [] \<Longrightarrow> fold (stop_slot m) slts s = s"
proof -
  have grow: "snd (fold (stop_slot m) slts s) \<noteq> []" if "snd s \<noteq> []" for slts s
    using that by (induction slts arbitrary: s) (auto simp: stop_slot_def)
  show "snd (fold (stop_slot m) slts s) = [] \<Longrightarrow> fold (stop_slot m) slts s = s"
  proof (induction slts)
    case (Cons x slts)
    from Cons.prems have "snd (fold (stop_slot m) slts (stop_slot m x s)) = []" by simp
    then have "snd (stop_slot m x s) = []" using grow [of "stop_slot m x s"] by blast
    then have "stop_slot m x s = s" by (auto simp: stop_slot_def split: if_splits)
    with Cons show ?case by simp
  qed simp
qed

lemma bump_ok_stop: "bump_ok c (stop_listen i c)"
  unfolding stop_listen_def
proof (rule bump_ok_try)
  fix m
  let ?s = "fold (stop_slot m) [0, 1] (co_listen c, [])"
  have "bump_ok c (c\<lparr>co_listen := fst ?s\<rparr>, Inr (listen_partial (c\<lparr>co_listen := fst ?s\<rparr>) (snd ?s)))"
  proof (cases "snd ?s = []")
    case True
    then have "?s = (co_listen c, [])" by (rule stop_slots_none)
    then show ?thesis by (simp add: listen_partial_def)
  qed (simp add: listen_partial_def)
  then show "bump_ok c (let (l, rt) = ?s; c' = c\<lparr>co_listen := l\<rparr> in (c', Inr (listen_partial c' rt)))"
    by (simp only: Let_def case_prod_beta)
qed

lemma bump_ok_test: "bump_ok c (start_test lm i hz dbfs ttl mk listen c)"
  unfolding start_test_def by (intro bump_ok_try) (simp add: Let_def)

lemma bump_ok_one: "bump_ok c (one lm cmd c)"
proof (induction lm cmd c rule: one.induct)
  case (8 lm mixid sources c)
  show ?case by (auto simp: set_solo_def Let_def intro!: bump_ok_try)
next
  case (9 lm mixid c)
  show ?case by (auto simp: start_listen_def listen_partial_def Let_def intro!: bump_ok_try)
next
  case (16 lm state c)
  show ?case by (simp add: bump_ok_def Let_def)
qed (auto simp: Let_def bump_ok_stop bump_ok_test intro!: bump_ok_try split: option.splits eq_target.splits,
     auto simp: bump_ok_def partial_default_def partial_effect_def)

text \<open>State edits have no effect beyond their changes.\<close>

definition plain :: "partial_out core_m \<Rightarrow> bool" where
  "plain r = (case snd r of Inl _ \<Rightarrow> True | Inr p \<Rightarrow> pa_effect p = None)"

lemma plain_try: "(\<And>a. r = Inr a \<Longrightarrow> plain (k a)) \<Longrightarrow> plain (try_c r c k)"
  by (cases r) (auto simp: plain_def)

lemma plain_simps [simp]:
  "plain (c, Inr partial_default)" "plain (c, Inl e)" "plain (c, Inr (partial_changed xs rt))"
  "plain (c, Inr (listen_partial c' rt))"
  by (simp_all add: plain_def partial_default_def partial_changed_def listen_partial_def)

lemma plain_setters [simp]:
  "plain (ok_c (set_input lm i n1 c))" "plain (ok_c (set_out lm m n2 c))"
  "plain (ok_c (set_level lm m k n3 c))" "plain (ok_c (set_group lm m g n4 c))"
  by (auto simp: ok_c_def set_input_def set_out_def set_level_def set_group_def Let_def split: option.splits)

lemma plain_one: "batchable cmd \<Longrightarrow> plain (one lm cmd c)"
  by (cases cmd) (auto simp: Let_def set_solo_def start_listen_def stop_listen_def case_prod_beta
      intro!: plain_try split: eq_target.splits)

lemma bump_ok_seq:
  assumes "bump_ok c (c1, Inr p)" and "bump_ok c1 (c2, Inr q)" and "pa_effect p = None" and "pa_effect q = None"
  shows "bump_ok c (c2, Inr (p\<lparr>pa_changes := pa_changes p @ pa_changes q, pa_rt := pa_rt p @ pa_rt q,
           pa_bump := (pa_bump p \<or> pa_bump q)\<rparr>))"
  using assms by (auto simp: bump_ok_def split: if_splits)

lemma batch_step_Inr:
  assumes "batch_step lm op s = Inr s'"
  obtains q where "one lm op (fst s) = (fst s', Inr q)" and "batchable op" and
    "snd s' = (snd s)\<lparr>pa_changes := pa_changes (snd s) @ pa_changes q, pa_rt := pa_rt (snd s) @ pa_rt q,
       pa_bump := (pa_bump (snd s) \<or> pa_bump q)\<rparr>"
  using assms by (auto simp: batch_step_def split: if_splits prod.splits sum.splits)

lemma batch_bump:
  assumes "fold_r (batch_step lm) ops (c, partial_default) = Inr s"
  shows "bump_ok c (fst s, Inr (snd s)) \<and> pa_effect (snd s) = None"
proof (rule fold_r_invariant [OF assms])
  fix op s s'
  assume s: "bump_ok c (fst s, Inr (snd s)) \<and> pa_effect (snd s) = None" and st: "batch_step lm op s = Inr s'"
  from batch_step_Inr [OF st] obtain q where q: "one lm op (fst s) = (fst s', Inr q)" "batchable op"
    "snd s' = (snd s)\<lparr>pa_changes := pa_changes (snd s) @ pa_changes q, pa_rt := pa_rt (snd s) @ pa_rt q,
       pa_bump := (pa_bump (snd s) \<or> pa_bump q)\<rparr>" .
  have "bump_ok (fst s) (fst s', Inr q)" "pa_effect q = None"
    using bump_ok_one [of "fst s" lm op] plain_one [OF q(2), of lm "fst s"] q(1) by (simp_all add: plain_def)
  then show "bump_ok c (fst s', Inr (snd s')) \<and> pa_effect (snd s') = None"
    using s q(3) bump_ok_seq by fastforce
qed (simp_all add: partial_default_def bump_ok_def)

lemma batch_ok:
  assumes "core_ok c" and "fold_r (batch_step lm) ops (c, p) = Inr s"
  shows "core_ok (fst s)"
proof (rule fold_r_invariant [OF assms(2)])
  fix op s s'
  assume "core_ok (fst s)" and st: "batch_step lm op s = Inr s'"
  then show "core_ok (fst s')"
    using one_ok [of "fst s" lm op] by (auto elim!: batch_step_Inr)
qed (simp add: assms(1))

lemma batch_ops: "fold_r (batch_step lm) ops s = Inr s' \<Longrightarrow> list_all batchable ops"
  by (induction ops arbitrary: s) (auto elim!: batch_step_Inr)

subsection \<open>A request as a whole\<close>

lemma core_apply_cases:
  assumes "core_apply lm cmd c = (c', r)"
  obtains (fail) e where "r = Inl e" "c' = c"
    | (succ) c1 p where "bump_ok c (c1, Inr p)" "core_ok c \<Longrightarrow> core_ok c1" "c' = fst (finish p c1)" "r = Inr (snd (finish p c1))"
        "(\<exists>ops. cmd = Batch ops) \<and> length (pa_rt p) \<le> MAX_CMDS_PER_BLOCK \<or> one lm cmd c = (c1, Inr p)"
proof (cases "\<exists>ops. cmd = Batch ops")
  case True
  then obtain ops where ops: "cmd = Batch ops" ..
  obtain c1 q where q: "batch lm ops c = (c1, q)" by fastforce
  show ?thesis
  proof (cases q)
    case (Inl e)
    with q assms ops batch_fails [of lm ops c e] show ?thesis
      by (intro fail [of e]) (auto simp: core_apply_def)
  next
    case (Inr p)
    with q obtain s where s: "fold_r (batch_step lm) ops (c, partial_default) = Inr s" "c1 = fst s" "p = snd s"
      "length (pa_rt p) \<le> MAX_CMDS_PER_BLOCK"
      by (cases "fold_r (batch_step lm) ops (c, partial_default)") (auto simp: batch_def split: if_splits)
    show ?thesis
      using batch_bump [OF s(1)] batch_ok [OF _ s(1)] s q Inr assms ops
      by (intro succ [of c1 p]) (auto simp: core_apply_def case_prod_beta)
  qed
next
  case False
  then have ap: "core_apply lm cmd c =
      (case one lm cmd c of (c', Inl e) \<Rightarrow> (c', Inl e) | (c', Inr p) \<Rightarrow> (let (c'', o') = finish p c' in (c'', Inr o')))"
    by (cases cmd) (simp_all add: core_apply_def)
  obtain c1 q where q: "one lm cmd c = (c1, q)" by fastforce
  show ?thesis
  proof (cases q)
    case (Inl e)
    with q assms ap one_fails [of lm cmd c e] show ?thesis by (intro fail [of e]) auto
  next
    case (Inr p)
    with q assms ap bump_ok_one [of c lm cmd] one_ok [of c lm cmd] show ?thesis
      by (intro succ [of c1 p]) (auto simp: case_prod_beta)
  qed
qed

lemma finish_simps:
  "fst (finish p c) = (if pa_bump p then c\<lparr>co_rev := co_rev c + 1\<rparr> else c)"
  "oc_rev (snd (finish p c)) = co_rev (fst (finish p c))"
  "oc_changes (snd (finish p c)) = pa_changes p" "oc_rt (snd (finish p c)) = pa_rt p"
  "oc_effect (snd (finish p c)) = or_default NoEffect (pa_effect p)"
  by (simp_all add: finish_def Let_def)

lemma core_apply_ok: "core_ok c \<Longrightarrow> core_ok (fst (core_apply lm cmd c))"
proof -
  assume ok: "core_ok c"
  obtain c' r where a: "core_apply lm cmd c = (c', r)" by fastforce
  then show ?thesis
    by (cases rule: core_apply_cases) (use a ok in \<open>auto simp: finish_simps core_ok_updates\<close>)
qed

text \<open>What can happen to a core: a request, solos cleared, the test signal's end.\<close>

datatype request = Request cmd | ClearSolos | EndTest

fun serve :: "libm \<Rightarrow> request \<Rightarrow> core \<Rightarrow> core" where
  "serve lm (Request cmd) c = fst (core_apply lm cmd c)"
| "serve lm ClearSolos c = fst (clear_solos lm c)"
| "serve lm EndTest c = fst (end_test_signal c)"

lemma clear_fold_ok: "core_ok (fst s) \<Longrightarrow> core_ok (fst (fold (clear_solo_step lm) ms s))"
  by (induction ms arbitrary: s) (simp_all add: clear_solo_step_def Let_def core_ok_updates)

lemma serve_ok: "core_ok c \<Longrightarrow> core_ok (serve lm r c)"
  using clear_fold_ok [of "(c, partial_default)" lm "bm_keys (co_solo c)"]
  by (cases r) (auto simp: core_apply_ok clear_solos_def end_test_signal_def finish_simps core_ok_updates
      case_prod_beta split: option.splits)

interpretation cm: stepping "serve lm" "\<lambda>_. True" core_ok for lm
  by unfold_locales (rule serve_ok)

subsection \<open>Properties\<close>

text \<open>The core of the sample site as it starts.\<close>

definition demo_core :: core where
  "demo_core = core_new demo_topo mix_state_default 0 \<lparr>f_test_signal = False, f_fault_injection = False\<rparr>"

lemma demo_core_simps:
  "co_topo demo_core = demo_topo" "co_listen demo_core = (None, None)" "co_solo demo_core = []" "co_rev demo_core = 0"
  by (simp_all add: demo_core_def core_new_def)

lemma demo_listen:
  "\<exists>c' out. core_apply demo_libm (StartListen ''engineer'') demo_core = (c', Inr out)"
  "\<exists>c' out. core_apply demo_libm (Batch [StartListen ''engineer'']) demo_core = (c', Inr out)"
  by (simp_all add: core_apply_def batch_def batch_step_def start_listen_def core_mix_def demo_core_simps demo_indices
      listen_get_def listen_put_def listen_partial_def Let_def case_prod_beta MAX_BATCH_def MAX_CMDS_PER_BLOCK_def
      partial_default_def partial_changed_def)

text \<open>
  C36. Every value the engine acts on is within its cap, whatever was sent: from the start of a
  core on a compiled topology, after any sequence of requests with any values (also not finite
  ones, unknown ids, batches and imported states), cleared solos and ended test signals, the
  state has a capped value in every slot of the topology, every solo names existing level slots,
  listen slot 0 is only ever the engineer's and slot 1 another mix's, and the test signal is at
  most at -20 dBFS and 120 seconds.
\<close>

theorem core_always_ok:
  assumes "compile digest s = Inr t"
  shows "core_ok (fold (serve lm) reqs (with_hil hil (core_new t state rv fl)))"
  by (intro cm.run_inv with_hil_ok core_new_ok compile_wf [OF assms]) simp

theorem core_always_ok_witness:
  "core_ok (fold (serve demo_libm)
     [Request (SetMix ''member1'' (Some NaN) None), Request (SetSolo ''member1'' [SrcInput ''mic1'']), ClearSolos]
     (with_hil [7] (core_new demo_topo mix_state_default 0 \<lparr>f_test_signal = True, f_fault_injection = False\<rparr>)))"
  by (rule core_always_ok) (rule demo_compiles)

text \<open>
  C37. A refused request changes nothing: when \<open>apply\<close> returns an error, for a batch at whichever
  command it failed, the core is the one before.
\<close>

theorem refused_changes_nothing: "snd (core_apply lm cmd c) = Inl e \<Longrightarrow> fst (core_apply lm cmd c) = c"
proof -
  assume e: "snd (core_apply lm cmd c) = Inl e"
  obtain c' r where a: "core_apply lm cmd c = (c', r)" by fastforce
  then show ?thesis by (cases rule: core_apply_cases) (use a e in auto)
qed

theorem refused_changes_nothing_witness:
  "fst (core_apply demo_libm (SetMix ''nobody'' None (Some True)) demo_core) = demo_core"
proof -
  have "isl (snd (core_apply demo_libm (SetMix ''nobody'' None (Some True)) demo_core))"
    by (simp add: core_apply_def core_mix_def demo_core_simps demo_indices)
  then obtain e where "snd (core_apply demo_libm (SetMix ''nobody'' None (Some True)) demo_core) = Inl e"
    by (auto simp: isl_def)
  then show ?thesis by (rule refused_changes_nothing)
qed

text \<open>
  The revision counts the changes: a request that succeeds either leaves the whole core
  as it is and reports no change, or it moves the revision on by one (wrapping) and reports a
  change or an import; the outcome carries the core's revision.
\<close>

theorem revision_counts_changes:
  assumes "core_apply lm cmd c = (c', Inr out)"
  shows "oc_rev out = co_rev c' \<and>
    (c' = c \<and> oc_changes out = [] \<and> oc_effect out \<noteq> Imported \<or>
     co_rev c' = co_rev c + 1 \<and> (oc_changes out \<noteq> [] \<or> oc_effect out = Imported))"
  using assms
proof (cases rule: core_apply_cases)
  case (succ c1 p)
  then show ?thesis
    by (cases "pa_effect p") (auto simp: bump_ok_def finish_simps split: if_splits)
qed simp

text \<open>
  A batch fits one block: when a batch is accepted its RT commands are at most as many as the
  RT thread applies in one block, so they can land at one sample.
\<close>

theorem batch_fits_one_block:
  assumes "core_apply lm (Batch ops) c = (c', Inr out)"
  shows "length (oc_rt out) \<le> MAX_CMDS_PER_BLOCK \<and> length ops \<le> MAX_BATCH \<and> list_all batchable ops"
proof -
  from assms obtain p where "batch lm ops c = (fst (batch lm ops c), Inr p)" "oc_rt out = pa_rt p"
    by (cases "batch lm ops c"; cases "snd (batch lm ops c)") (auto simp: core_apply_def finish_def Let_def)
  then show ?thesis
    by (cases "fold_r (batch_step lm) ops (c, partial_default)")
      (auto simp: batch_def dest: batch_ops split: if_splits)
qed

end
