(* ===== verification/RtRender.thy ===== *)
theory RtRender
  imports Rt
begin

text \<open>
  One segment through the pipeline (\<open>rt/render.rs\<close>, the second half of \<open>rt.rs\<close>): the inputs,
  every mix's own sum and shadow, every mix in the render order, HIL's spare outputs and the
  loopback probe; then the block as segments, and the meters.
\<close>

subsection \<open>Gains\<close>

definition scale1 :: "f64 \<Rightarrow> f64 \<Rightarrow> f64" where
  "scale1 g v = (if feq g 0 then 0 else if feq g 1 then v else v * g)"

definition scale :: "f64 \<Rightarrow> f64 \<Rightarrow> frames \<Rightarrow> frames" where
  "scale gl gr buf = map (\<lambda>(a, b). (scale1 gl a, scale1 gr b)) buf"

fun ramp_gain_moving :: "frames \<Rightarrow> ramp \<Rightarrow> ramp \<times> frames" where
  "ramp_gain_moving [] r = (r, [])"
| "ramp_gain_moving (x # xs) r =
     (let (r', g) = ramp_tick r; (r'', ys) = ramp_gain_moving xs r' in (r'', (fst x * g, snd x * g) # ys))"

definition ramp_gain :: "frames \<Rightarrow> ramp \<Rightarrow> ramp \<times> frames" where
  "ramp_gain buf r = (if \<not> is_moving r then (r, scale (rp_value r) (rp_value r) buf) else ramp_gain_moving buf r)"

fun stereo_gain_moving :: "frames \<Rightarrow> stereo_gain \<Rightarrow> stereo_gain \<times> frames" where
  "stereo_gain_moving [] s = (s, [])"
| "stereo_gain_moving (x # xs) s =
     (let (s', g) = sgain_tick s; (s'', ys) = stereo_gain_moving xs s'
      in (s'', (fst x * fst g, snd x * snd g) # ys))"

definition stereo_gain :: "frames \<Rightarrow> stereo_gain \<Rightarrow> stereo_gain \<times> frames" where
  "stereo_gain buf s =
     (case steady s of Some g \<Rightarrow> (s, scale (fst g) (snd g) buf) | None \<Rightarrow> stereo_gain_moving buf s)"

fun accumulate_moving :: "frames \<Rightarrow> frames \<Rightarrow> stereo_gain \<Rightarrow> stereo_gain \<times> frames" where
  "accumulate_moving (x # xs) (d # ds) s =
     (let (s', g) = sgain_tick s; (s'', ys) = accumulate_moving xs ds s'
      in (s'', (fst d + fst g * fst x, snd d + snd g * snd x) # ys))"
| "accumulate_moving _ ds s = (s, ds)"

definition add_scaled :: "f64 \<Rightarrow> f64 \<Rightarrow> f64 \<Rightarrow> f64" where
  "add_scaled g d s = (if feq g 0 then d else d + g * s)"

definition accumulate :: "frames \<Rightarrow> stereo_gain \<Rightarrow> frames \<Rightarrow> stereo_gain \<times> frames" where
  "accumulate src s dst =
     (case steady s of
        Some g \<Rightarrow> (s, map2 (\<lambda>d x. (add_scaled (fst g) (fst d) (fst x), add_scaled (snd g) (snd d) (snd x))) dst src)
      | None \<Rightarrow> accumulate_moving src dst s)"

subsection \<open>Shared stages\<close>

definition eq_stereo :: "libm \<Rightarrow> frames \<Rightarrow> equalizer \<Rightarrow> equalizer \<times> frames" where
  "eq_stereo lm buf e =
     (if is_identity e then (e, buf)
      else (let (e', ys) = eq_process lm (map (\<lambda>(a, b). [a, b]) buf) e in (e', map (\<lambda>y. (y ! 0, y ! 1)) ys)))"

definition trips_stereo :: "u64 \<Rightarrow> frames \<Rightarrow> u64 \<times> frames \<times> bool" where
  "trips_stereo n buf =
     (let (n', cs, t) = trips_check n [map fst buf, map snd buf] in (n', zip (cs ! 0) (cs ! 1), t))"

definition observe_stereo :: "frames \<Rightarrow> f64 list \<Rightarrow> f64 list" where
  "observe_stereo buf peaks = observe [map fst buf, map snd buf] peaks"

text \<open>\<open>push_partial_slice\<close> into a ring with \<open>rg_room\<close> free slots, and the overrun count.\<close>

definition ring_push :: "f32 list \<Rightarrow> out_ring \<times> u64 \<Rightarrow> out_ring \<times> u64" where
  "ring_push xs s =
     (let r = fst s
      in (r\<lparr>rg_room := rg_room r - length xs, rg_out := rg_out r @ take (rg_room r) xs\<rparr>,
          if rg_room r < length xs then snd s + 1 else snd s))"

definition push_tap :: "frames \<Rightarrow> bool \<Rightarrow> out_ring \<times> u64 \<Rightarrow> out_ring \<times> u64" where
  "push_tap buf silent =
     ring_push (concat (map (\<lambda>(a, b). if silent then [0, 0] else [as_f32 a, as_f32 b]) buf))"

definition push_probe :: "f64 list \<Rightarrow> f64 list \<Rightarrow> out_ring \<times> u64 \<Rightarrow> out_ring \<times> u64" where
  "push_probe sine fade =
     ring_push (concat (map2 (\<lambda>s f. let y = as_f32 (fclamp s (- TEST_CAP) TEST_CAP * f) in [y, y]) sine fade))"

subsection \<open>The test signal and talkback\<close>

fun test_render :: "libm \<Rightarrow> nat \<Rightarrow> test_rt \<Rightarrow> test_rt \<times> f64 list" where
  "test_render lm 0 t = (t, [])"
| "test_render lm (Suc n) t =
     (let (left, fade) = (if tt_left t = 0 then (0, ramp_set (tt_fade t) 0) else (tt_left t - 1, tt_fade t));
          (fade', v) = ramp_tick fade;
          y = tt_amp t * v * fsin lm (F_TAU * tt_phase t);
          (t', ys) = test_render lm n (t\<lparr>tt_left := left, tt_fade := fade', tt_phase := fract (tt_phase t + tt_inc t)\<rparr>)
      in (t', y # ys))"

definition read_talkback :: "nat \<Rightarrow> processor \<Rightarrow> processor" where
  "read_talkback n p =
     (let got = take n (pr_talk p);
          buf = got @ replicate (n - length got) 0;
          under = (length got < n);
          (gate, gs) = ramp_run n (ramp_set (pr_talk_gate p) (if under then 0 else 1))
      in p\<lparr>pr_talk := drop n (pr_talk p), pr_talk_gate := gate,
           pr_talk_buf := put_prefix (map2 (\<lambda>x g. x * (TALKBACK_GAIN * g)) buf gs) (pr_talk_buf p),
           pr_status := (if under \<and> got \<noteq> []
             then (pr_status p)\<lparr>st_talkback_underruns := st_talkback_underruns (pr_status p) + 1\<rparr>
             else pr_status p)\<rparr>)"

subsection \<open>Inputs\<close>

fun crossfade :: "frames \<Rightarrow> frames \<Rightarrow> ramp \<Rightarrow> ramp \<times> frames" where
  "crossfade (d # ds) (w # ws) r =
     (let (r', m) = ramp_tick r;
          y = (if feq m 1 then w
               else (fst d + m * (fst w - fst d), snd d + m * (snd w - snd d)));
          (r'', ys) = crossfade ds ws r'
      in (r'', y # ys))"
| "crossfade _ ws r = (r, ws)"

definition card_input :: "audio_block \<Rightarrow> nat \<Rightarrow> nat \<Rightarrow> nat \<times> nat \<Rightarrow> frames" where
  "card_input block off n rx =
     zip (or_default (replicate n 0) (slice_get off n (bk_in block (fst rx))))
         (or_default (replicate n 0) (slice_get off n (bk_in block (snd rx))))"

text \<open>One input: its samples, the test sine in their place, trim and EQ, talkback, mute.\<close>

definition render_input ::
  "libm \<Rightarrow> audio_block \<Rightarrow> nat \<Rightarrow> nat \<Rightarrow> f64 list option \<Rightarrow> f64 list option \<Rightarrow> input_node \<Rightarrow> input_rt
     \<Rightarrow> input_rt \<times> bool" where
  "render_input lm block off n sine talk spec node =
     (let (trips1, b1, t1) = trips_stereo (ir_trips node) (card_input block off n (n_rx spec));
          eq1 = (if t1 then eq_reset (ir_eq node) else ir_eq node);
          b2 = (case sine of Some s \<Rightarrow> map (\<lambda>x. (x, x)) s | None \<Rightarrow> b1);
          mx = ir_proc_mix node;
          dry = (\<not> is_moving mx \<and> feq (rp_value mx) 0);
          (trim, eq2, mx', b3) =
            (if dry then (ir_trim node, eq1, mx, b2)
             else
               let (trim, w1) = ramp_gain b2 (ir_trim node); (e, w2) = eq_stereo lm w1 eq1
               in if is_moving mx then (let (mx', w3) = crossfade b2 w2 mx in (trim, e, mx', w3))
                  else (trim, e, mx, w2));
          b4 = (case talk of Some tb \<Rightarrow> map2 (\<lambda>x t. (fst x + t, snd x + t)) b3 tb | None \<Rightarrow> b3);
          (gate, b5) = ramp_gain b4 (ir_gate node);
          (trips2, b6, t2) = trips_stereo trips1 b5;
          eq3 = (if t2 then eq_reset eq2 else eq2)
      in (\<lparr>ir_p = put_prefix b6 (ir_p node), ir_trim = trim, ir_proc_mix = mx', ir_eq = eq3, ir_gate = gate,
           ir_trips = trips2, ir_peak = observe_stereo b6 (ir_peak node)\<rparr>, t1 \<or> t2))"

definition add_trips :: "nat \<Rightarrow> processor \<Rightarrow> processor" where
  "add_trips n p =
     p\<lparr>pr_trips := pr_trips p + of_nat n,
       pr_status := (pr_status p)\<lparr>st_trips := st_trips (pr_status p) + of_nat n\<rparr>\<rparr>"

definition render_inputs :: "libm \<Rightarrow> audio_block \<Rightarrow> nat \<Rightarrow> nat \<Rightarrow> processor \<Rightarrow> processor" where
  "render_inputs lm block off n p0 =
     (let p = (if pr_talkback_input p0 \<noteq> None then read_talkback n p0 else p0);
          specs = t_inputs (pr_topo p);
          sine = (\<lambda>i. case pr_test p of
             Some t \<Rightarrow> if tt_input t = i then Some (prefix_of n (pr_test_buf p)) else None | None \<Rightarrow> None);
          talk = (\<lambda>i. if Some i = pr_talkback_input p then Some (prefix_of n (pr_talk_buf p)) else None);
          rs = map (\<lambda>(i, spec, node). render_input lm block off n (sine i) (talk i) spec node)
                 (enumerate 0 (zip specs (pr_inputs p)))
      in add_trips (length (filter snd rs))
           (p\<lparr>pr_inputs := map fst rs @ drop (length specs) (pr_inputs p)\<rparr>))"

subsection \<open>A mix's own sum and shadow\<close>

definition sum_input :: "input_rt list \<Rightarrow> nat \<Rightarrow> nat \<Rightarrow> stereo_gain list \<times> frames \<Rightarrow> stereo_gain list \<times> frames" where
  "sum_input inputs n i s =
     (case (lget inputs i, lget (fst s) i) of
        (Some input, Some g) \<Rightarrow>
          (let (g', buf) = accumulate (prefix_of n (ir_p input)) g (snd s) in ((fst s)[i := g'], buf))
      | _ \<Rightarrow> s)"

definition render_strip ::
  "libm \<Rightarrow> input_rt list \<Rightarrow> nat \<Rightarrow> group_node \<Rightarrow> group_rt \<Rightarrow> stereo_gain list
     \<Rightarrow> stereo_gain list \<times> group_rt \<times> frames \<times> bool" where
  "render_strip lm inputs n grp strip lvs =
     (let (lvs', b1) = fold (sum_input inputs n) (g_inputs grp) (lvs, replicate n (0, 0));
          (eq, b2) = eq_stereo lm b1 (gr_eq strip);
          (fader, b3) = stereo_gain b2 (gr_fader strip);
          (trips, b4, t) = trips_stereo (gr_trips strip) b3
      in (lvs', \<lparr>gr_eq = (if t then eq_reset eq else eq), gr_fader = fader, gr_trips = trips,
                    gr_peak = observe_stereo b4 (gr_peak strip)\<rparr>, b4, t))"

fun render_strips ::
  "libm \<Rightarrow> input_rt list \<Rightarrow> nat \<Rightarrow> group_node list \<Rightarrow> group_rt list \<Rightarrow> stereo_gain list \<Rightarrow> frames
     \<Rightarrow> stereo_gain list \<times> group_rt list \<times> frames \<times> nat" where
  "render_strips lm inputs n (g # gs) (s # ss) lvs buf =
     (let (levels1, s', b, t) = render_strip lm inputs n g s lvs;
          buf' = map2 (\<lambda>x y. (fst x + fst y, snd x + snd y)) buf b;
          (levels2, ss', buf'', k) = render_strips lm inputs n gs ss levels1 buf'
      in (levels2, s' # ss', buf'', k + (if t then 1 else 0)))"
| "render_strips lm inputs n _ ss lvs buf = (lvs, ss, buf, 0)"

definition own_sum :: "libm \<Rightarrow> topology \<Rightarrow> input_rt list \<Rightarrow> nat \<Rightarrow> mix_rt \<Rightarrow> mix_rt \<times> nat" where
  "own_sum lm topo inputs n x =
     (let (levels1, b1) = fold (sum_input inputs n) (t_direct topo) (xr_levels x, replicate n (0, 0));
          (levels2, groups, b2, k) = render_strips lm inputs n (t_groups topo) (xr_groups x) levels1 b1
      in (x\<lparr>xr_own := put_prefix b2 (xr_own x), xr_levels := levels2, xr_groups := groups\<rparr>, k))"

definition render_shadow :: "libm \<Rightarrow> nat \<Rightarrow> frames \<Rightarrow> shadow_rt \<Rightarrow> shadow_rt \<times> bool" where
  "render_shadow lm n own s =
     (let (eq, b1) = eq_stereo lm (prefix_of n own) (sh_eq s);
          (lim, b2) = mix_limiter_process lm b1 (sh_limiter s);
          (fader, b3) = stereo_gain b2 (sh_fader s);
          (trips, b4, t) = trips_stereo (sh_trips s) b3
      in (\<lparr>sh_out = put_prefix b4 (sh_out s), sh_eq = (if t then eq_reset eq else eq),
           sh_limiter = (if t then lim\<lparr>ml_lim := limiter_reset (ml_lim lim)\<rparr> else lim),
           sh_fader = fader, sh_trips = trips, sh_peak = observe_stereo b4 (sh_peak s)\<rparr>, t))"

definition render_own :: "libm \<Rightarrow> topology \<Rightarrow> input_rt list \<Rightarrow> nat \<Rightarrow> mix_rt \<Rightarrow> mix_rt \<times> nat" where
  "render_own lm topo inputs n x =
     (let (x1, k) = own_sum lm topo inputs n x in
      case xr_shadow x1 of
        None \<Rightarrow> (x1, k)
      | Some s \<Rightarrow> (let (s', t) = render_shadow lm n (xr_own x1) s
                   in (x1\<lparr>xr_shadow := Some s'\<rparr>, k + (if t then 1 else 0))))"

subsection \<open>A mix in the render order\<close>

definition other :: "mix_rt list \<Rightarrow> nat \<Rightarrow> nat \<Rightarrow> mix_rt option" where
  "other mixes m i = (if i = m then None else lget mixes i)"

definition sum_mix ::
  "(nat \<Rightarrow> frames option) \<Rightarrow> nat \<Rightarrow> nat \<times> nat \<Rightarrow> stereo_gain list \<times> frames \<Rightarrow> stereo_gain list \<times> frames" where
  "sum_mix source_buf first ks s =
     (case (source_buf (snd ks), lget (fst s) (first + fst ks)) of
        (Some src, Some g) \<Rightarrow> (let (g', buf) = accumulate src g (snd s) in ((fst s)[first + fst ks := g'], buf))
      | _ \<Rightarrow> s)"

definition heard_buf :: "mix_rt list \<Rightarrow> nat \<Rightarrow> nat \<Rightarrow> nat \<Rightarrow> frames option" where
  "heard_buf mixes m n i = map_option (\<lambda>x. prefix_of n (xr_sum x)) (other mixes m i)"

definition peer_buf :: "mix_rt list \<Rightarrow> nat \<Rightarrow> nat \<Rightarrow> nat \<Rightarrow> frames option" where
  "peer_buf mixes m n i =
     map_option (\<lambda>x. prefix_of n (case xr_shadow x of Some s \<Rightarrow> sh_out s | None \<Rightarrow> xr_sum x)) (other mixes m i)"

fun tx_frames :: "bool \<Rightarrow> f64 \<Rightarrow> frames \<Rightarrow> f64 list \<Rightarrow> mga \<Rightarrow> mga \<times> frames" where
  "tx_frames mn cp (x # xs) (f # fs) g =
     (let (inl, inr) = (if mn then ((fst x + snd x) * Num (1 / 2), 0) else x);
          (g', yl, yr) = mga_tick inl inr g;
          (g'', ys) = tx_frames mn cp xs fs g'
      in (g'', (fclamp yl (- cp) cp * f, fclamp yr (- cp) cp * f) # ys))"
| "tx_frames mn cp _ _ g = (g, [])"

record tap_state =
  ta_taps :: "out_ring \<times> out_ring"
  ta_probes :: "out_ring \<times> out_ring"
  ta_overruns :: u64
  ta_lim :: limiter

definition on_ring ::
  "(out_ring \<times> u64 \<Rightarrow> out_ring \<times> u64) \<Rightarrow> out_ring \<Rightarrow> tap_state \<Rightarrow> out_ring \<times> tap_state" where
  "on_ring f r s = (let (r', k) = f (r, ta_overruns s) in (r', s\<lparr>ta_overruns := k\<rparr>))"

definition tap0 :: "frames \<Rightarrow> bool \<Rightarrow> bool \<Rightarrow> f64 list \<Rightarrow> f64 list \<Rightarrow> tap_state \<Rightarrow> tap_state" where
  "tap0 buf hil probing sine fade s =
     (let (r, s1) = on_ring (push_tap buf hil) (fst (ta_taps s)) s;
          s2 = s1\<lparr>ta_taps := (r, snd (ta_taps s1))\<rparr>
      in if probing then
           (let (q, s3) = on_ring (push_probe sine fade) (fst (ta_probes s2)) s2
            in s3\<lparr>ta_probes := (q, snd (ta_probes s3))\<rparr>)
         else s2)"

definition tap1 :: "frames \<Rightarrow> bool \<Rightarrow> bool \<Rightarrow> f64 list \<Rightarrow> f64 list \<Rightarrow> tap_state \<Rightarrow> tap_state" where
  "tap1 buf hil probing sine fade s0 =
     (let (lim, ys) = limiter_process buf (ta_lim s0);
          s = s0\<lparr>ta_lim := lim\<rparr>;
          (r, s1) = on_ring (push_tap ys hil) (snd (ta_taps s)) s;
          s2 = s1\<lparr>ta_taps := (fst (ta_taps s1), r)\<rparr>
      in if probing then
           (let (q, s3) = on_ring (push_probe sine fade) (snd (ta_probes s2)) s2
            in s3\<lparr>ta_probes := (fst (ta_probes s3), q)\<rparr>)
         else s2)"

definition write_out :: "nat \<Rightarrow> nat \<Rightarrow> f64 list \<Rightarrow> nat \<Rightarrow> audio_block \<Rightarrow> audio_block" where
  "write_out off n ys ch block =
     (if off + n \<le> length (bk_out block ch)
      then block\<lparr>bk_out := (bk_out block)(ch := splice off ys (bk_out block ch))\<rparr> else block)"

definition write_tx :: "nat \<Rightarrow> nat \<Rightarrow> bool \<Rightarrow> nat option \<Rightarrow> f64 list \<Rightarrow> audio_block \<Rightarrow> audio_block" where
  "write_tx off n hil ch ys block =
     (case ch of None \<Rightarrow> block | Some c \<Rightarrow> write_out off n (if hil then replicate n 0 else ys) c block)"

record mixes_acc =
  mc_mixes :: "mix_rt list"
  mc_taps :: tap_state
  mc_block :: audio_block
  mc_trips :: nat

text \<open>What a mix's output chain makes of its sum (the taps are taken on the way).\<close>

definition render_mix ::
  "libm \<Rightarrow> topology \<Rightarrow> nat option \<times> nat option \<Rightarrow> bool \<Rightarrow> bool \<Rightarrow> f64 list \<Rightarrow> f64 list \<Rightarrow> nat \<Rightarrow> nat \<Rightarrow> nat
     \<Rightarrow> mixes_acc \<Rightarrow> mixes_acc" where
  "render_mix lm topo listen hil probing sine fade off n m acc =
     (case (lget (t_mixes topo) m, lget (mc_mixes acc) m) of
        (Some spec, Some x) \<Rightarrow>
          (let heard_from = length (t_inputs topo);
               peers_from = heard_from + length (m_mixes spec);
               (lv1, b1) = fold (sum_mix (heard_buf (mc_mixes acc) m n) heard_from) (enumerate 0 (m_mixes spec))
                             (xr_levels x, prefix_of n (xr_own x));
               (lv2, b2) = fold (sum_mix (peer_buf (mc_mixes acc) m n) peers_from) (enumerate 0 (m_peers spec)) (lv1, b1);
               (eq, b3) = eq_stereo lm b2 (xr_eq x);
               (lim, b4) = mix_limiter_process lm b3 (xr_limiter x);
               taps1 = (if fst listen = Some m then tap0 b4 hil probing sine fade (mc_taps acc) else mc_taps acc);
               (fader, b5) = stereo_gain b4 (xr_fader x);
               (trips, b6, t) = trips_stereo (xr_trips x) b5;
               taps2 = (if snd listen = Some m then tap1 b6 hil probing sine fade taps1 else taps1);
               (sf, tx) = tx_frames (m_mono spec) (xr_cap x) b6 fade (xr_safety x);
               x' = x\<lparr>xr_sum := put_prefix b6 (xr_sum x), xr_levels := lv2,
                      xr_eq := (if t then eq_reset eq else eq),
                      xr_limiter := (if t then lim\<lparr>ml_lim := limiter_reset (ml_lim lim)\<rparr> else lim),
                      xr_fader := fader, xr_safety := sf, xr_trips := trips,
                      xr_peak := observe_stereo b6 (xr_peak x)\<rparr>;
               block1 = write_tx off n hil (fst (m_tx spec)) (map fst tx) (mc_block acc);
               block2 = write_tx off n hil (snd (m_tx spec)) (map snd tx) block1
           in \<lparr>mc_mixes = (mc_mixes acc)[m := x'], mc_taps = taps2, mc_block = block2,
               mc_trips = mc_trips acc + (if t then 1 else 0)\<rparr>)
      | _ \<Rightarrow> acc)"

definition render_mixes :: "libm \<Rightarrow> nat \<Rightarrow> nat \<Rightarrow> processor \<times> audio_block \<Rightarrow> processor \<times> audio_block" where
  "render_mixes lm off n pb =
     (let p = fst pb; topo = pr_topo p;
          hil = (case pr_test p of Some t \<Rightarrow> tt_mask t \<noteq> None | None \<Rightarrow> False);
          probing = (case pr_test p of Some t \<Rightarrow> tt_mask t \<noteq> None \<and> tt_listen t | None \<Rightarrow> False);
          sine = prefix_of n (pr_test_buf p); fade = prefix_of n (pr_fade_buf p);
          owns = map (render_own lm topo (pr_inputs p) n) (pr_mixes p);
          acc = fold (render_mix lm topo (pr_listen p) hil probing sine fade off n) (t_order topo)
            \<lparr>mc_mixes = map fst owns,
             mc_taps = \<lparr>ta_taps = pr_taps p, ta_probes = pr_probes p,
               ta_overruns = st_tap_overruns (pr_status p), ta_lim = pr_listen_lim p\<rparr>,
             mc_block = snd pb, mc_trips = sum_list (map snd owns)\<rparr>
      in (add_trips (mc_trips acc)
            (p\<lparr>pr_mixes := mc_mixes acc, pr_taps := ta_taps (mc_taps acc), pr_probes := ta_probes (mc_taps acc),
               pr_listen_lim := ta_lim (mc_taps acc),
               pr_status := (pr_status p)\<lparr>st_tap_overruns := ta_overruns (mc_taps acc)\<rparr>\<rparr>),
          mc_block acc))"

subsection \<open>HIL's spare outputs\<close>

definition hil_out :: "hil_mask option \<Rightarrow> f64 list \<Rightarrow> f64 list \<Rightarrow> nat \<Rightarrow> nat \<Rightarrow> f64 list" where
  "hil_out msk sine fade n k =
     (if (case msk of Some mk \<Rightarrow> or_default False (lget mk k) | None \<Rightarrow> False)
      then map2 (\<lambda>s f. fclamp s (- TEST_CAP) TEST_CAP * f) sine fade else replicate n 0)"

definition hil_step_out ::
  "nat \<Rightarrow> hil_mask option \<Rightarrow> f64 list \<Rightarrow> f64 list \<Rightarrow> nat \<Rightarrow> nat \<Rightarrow> nat \<Rightarrow> f64 list list \<times> audio_block
     \<Rightarrow> f64 list list \<times> audio_block" where
  "hil_step_out first_ch msk sine fade off n k s =
     (if off + n \<le> length (bk_out (snd s) (first_ch + k))
      then (lmod (fst s) k (observe [hil_out msk sine fade n k]),
            write_out off n (hil_out msk sine fade n k) (first_ch + k) (snd s))
      else s)"

definition render_hil :: "nat \<Rightarrow> nat \<Rightarrow> processor \<times> audio_block \<Rightarrow> processor \<times> audio_block" where
  "render_hil off n pb =
     (let p = fst pb;
          msk = Option.bind (pr_test p) tt_mask;
          (peaks, block) = fold (hil_step_out (length (t_tx (pr_topo p))) msk (prefix_of n (pr_test_buf p))
              (prefix_of n (pr_fade_buf p)) off n) [0..<length (pr_hil_peaks p)] (pr_hil_peaks p, snd pb)
      in (p\<lparr>pr_hil_peaks := peaks\<rparr>, block))"

definition emit_at :: "audio_block \<Rightarrow> nat \<Rightarrow> nat \<Rightarrow> nat \<Rightarrow> nat option \<Rightarrow> nat option" where
  "emit_at block off n ch emit =
     (case Option.bind (slice_get off n (bk_out block ch)) (position (\<lambda>y. ONSET \<le> \<bar>y\<bar>)) of
        None \<Rightarrow> emit
      | Some i \<Rightarrow> Some (case emit of None \<Rightarrow> i | Some e \<Rightarrow> min e i))"

definition probe_latency :: "nat \<Rightarrow> nat \<Rightarrow> processor \<times> audio_block \<Rightarrow> processor" where
  "probe_latency off n pb =
     (let p = fst pb; block = snd pb in
      if pr_hil_rx p = 0 then p
      else
        (let out_first = length (t_tx (pr_topo p)); in_first = length (t_rx (pr_topo p));
             emit = fold (\<lambda>k. emit_at block off n (out_first + k)) [0..<length (pr_hil_peaks p)] None;
             l1 = (case emit of None \<Rightarrow> pr_latency p | Some i \<Rightarrow> lp_emitted (sat_add64 (pr_time p) (of_nat i)) (pr_latency p));
             l2 = fold (\<lambda>j l. case slice_get off n (bk_in block (in_first + j)) of
                    Some seg \<Rightarrow> lp_feed seg (pr_time p) l | None \<Rightarrow> l) [0..<pr_hil_rx p] l1
         in p\<lparr>pr_latency := l2,
              pr_status := (case lp_samples l2 of
                 Some s \<Rightarrow> (pr_status p)\<lparr>st_loopback := s\<rparr> | None \<Rightarrow> pr_status p)\<rparr>))"

subsection \<open>A segment\<close>

definition end_test :: "processor \<Rightarrow> processor" where
  "end_test p =
     (case pr_test p of
        Some t \<Rightarrow> if tt_end t \<le> pr_time p then set_caps False (p\<lparr>pr_test := None\<rparr>) else p
      | None \<Rightarrow> p)"

definition tick_fade :: "nat \<Rightarrow> processor \<Rightarrow> processor" where
  "tick_fade n p =
     (let (fade, vs) = ramp_run n (pr_fade p) in p\<lparr>pr_fade := fade, pr_fade_buf := put_prefix vs (pr_fade_buf p)\<rparr>)"

definition tick_test :: "libm \<Rightarrow> nat \<Rightarrow> processor \<Rightarrow> processor" where
  "tick_test lm n p =
     (case pr_test p of
        Some t \<Rightarrow> (let (t', ys) = test_render lm n t in p\<lparr>pr_test := Some t', pr_test_buf := put_prefix ys (pr_test_buf p)\<rparr>)
      | None \<Rightarrow> p)"

definition note_faded :: "processor \<Rightarrow> processor" where
  "note_faded p =
     (if pr_fading_out p \<and> \<not> is_moving (pr_fade p)
      then p\<lparr>pr_status := (pr_status p)\<lparr>st_faded_out := True\<rparr>\<rparr> else p)"

definition render :: "libm \<Rightarrow> nat \<Rightarrow> nat \<Rightarrow> processor \<times> audio_block \<Rightarrow> processor \<times> audio_block" where
  "render lm off n pb =
     (let p1 = tick_test lm n (tick_fade n (end_test (fst pb)));
          p2 = render_inputs lm (snd pb) off n p1;
          pb3 = render_mixes lm off n (p2, snd pb);
          pb4 = render_hil off n pb3
      in (note_faded (probe_latency off n pb4), snd pb4))"

subsection \<open>Meters\<close>

definition publish_meters :: "libm \<Rightarrow> processor \<Rightarrow> processor" where
  "publish_meters lm p =
     (let strips = concat (map xr_groups (pr_mixes p)); f = pr_meter p;
          mixes = map2 (\<lambda>_ x. xr_peak x) (mf_mixes f) (pr_mixes p)
      in p\<lparr>pr_seq := pr_seq p + 1,
           pr_meter := f\<lparr>mf_seq := pr_seq p + 1, mf_trips := pr_trips p,
             mf_inputs := map2 (\<lambda>_ n. ir_peak n) (mf_inputs f) (pr_inputs p),
             mf_mixes := mixes,
             mf_gr_db := map2 (\<lambda>_ x. gr_db lm (ml_lim (xr_limiter x))) (mf_gr_db f) (pr_mixes p),
             mf_active := map2 (\<lambda>_ x. mix_limiter_active (xr_limiter x)) (mf_active f) (pr_mixes p),
             mf_groups := map2 (\<lambda>_ s. gr_peak s) (mf_groups f) strips,
             mf_own := map2 (\<lambda>(_, d) x. case xr_shadow x of Some s \<Rightarrow> sh_peak s | None \<Rightarrow> d)
               (zip (mf_own f) mixes) (pr_mixes p),
             mf_hil := map2 (\<lambda>_ k. k ! 0) (mf_hil f) (pr_hil_peaks p)\<rparr>,
           pr_inputs := map (\<lambda>n. n\<lparr>ir_peak := peak_new 2\<rparr>) (pr_inputs p),
           pr_mixes := map (\<lambda>x. x\<lparr>xr_peak := peak_new 2,
               xr_groups := map (\<lambda>s. s\<lparr>gr_peak := peak_new 2\<rparr>) (xr_groups x),
               xr_shadow := (if mf_own f = [] then xr_shadow x
                 else map_option (\<lambda>s. s\<lparr>sh_peak := peak_new 2\<rparr>) (xr_shadow x))\<rparr>) (pr_mixes p),
           pr_hil_peaks := map (\<lambda>_. peak_new 1) (pr_hil_peaks p)\<rparr>)"

subsection \<open>A block\<close>

definition cut_at :: "u64 \<Rightarrow> u64 \<Rightarrow> nat \<Rightarrow> nat" where
  "cut_at time at_time n = (if time < at_time then min n (unat (at_time - time)) else n)"

definition next_cmd :: "processor \<Rightarrow> u64 option" where
  "next_cmd p = (case pr_cmds p of [] \<Rightarrow> None | c # _ \<Rightarrow> Some (rc_at c))"

definition seg_len :: "nat \<Rightarrow> nat \<Rightarrow> processor \<Rightarrow> nat" where
  "seg_len remaining budget p =
     (let n0 = min remaining SEG;
          n1 = (if 0 < budget then (case next_cmd p of Some a \<Rightarrow> cut_at (pr_time p) a n0 | None \<Rightarrow> n0) else n0)
      in case pr_test p of Some t \<Rightarrow> cut_at (pr_time p) (tt_end t) n1 | None \<Rightarrow> n1)"

definition waits :: "nat \<Rightarrow> nat \<Rightarrow> processor \<Rightarrow> bool" where
  "waits remaining budget p =
     (budget = 0 \<and> (case next_cmd p of Some a \<Rightarrow> a < pr_time p + of_nat (min remaining SEG) | None \<Rightarrow> False))"

lemma cut_at_pos: "0 < n \<Longrightarrow> 0 < cut_at t a n"
  by (auto simp: cut_at_def unat_gt_0 word_greater_zero_iff)

lemma seg_len_pos: "0 < remaining \<Longrightarrow> 0 < seg_len remaining budget p"
  by (auto simp: seg_len_def Let_def SEG_def intro!: cut_at_pos split: option.split)

lemma seg_shrinks: "dn < frames \<Longrightarrow> frames - (dn + seg_len (frames - dn) b p) < frames - dn"
  using seg_len_pos [of "frames - dn" b p] by simp

function segments ::
  "libm \<Rightarrow> nat \<Rightarrow> nat \<Rightarrow> nat \<Rightarrow> bool \<Rightarrow> processor \<times> audio_block \<Rightarrow> (processor \<times> audio_block \<times> bool) option" where
  "segments lm frames dn budget left pb =
     (if frames \<le> dn then Some (fst pb, snd pb, left)
      else
        Option.bind (apply_due lm budget (fst pb)) (\<lambda>(p, budget', l).
          let n = seg_len (frames - dn) budget' p;
              left' = (left \<or> l \<or> waits (frames - dn) budget' p);
              (p', block) = render lm dn n (p, snd pb)
          in segments lm frames (dn + n) budget' left' (p'\<lparr>pr_time := pr_time p' + of_nat n\<rparr>, block)))"
  by pat_completeness auto
termination
  by (relation "measure (\<lambda>(lm, frames, dn, budget, left, pb). frames - dn)")
    (auto simp: not_le seg_shrinks)

declare segments.simps [simp del]

definition process :: "libm \<Rightarrow> processor \<times> audio_block \<Rightarrow> (processor \<times> audio_block) option" where
  "process lm pb =
     Option.bind (segments lm (bk_frames (snd pb)) 0 MAX_CMDS_PER_BLOCK False pb) (\<lambda>(p, block, left).
       let p1 = (if left then p\<lparr>pr_status := (pr_status p)\<lparr>st_deferred := st_deferred (pr_status p) + 1\<rparr>\<rparr> else p);
           since = pr_since_meter p1 + of_nat (bk_frames (snd pb))
       in Some (if METER_PERIOD \<le> since then publish_meters lm (p1\<lparr>pr_since_meter := since mod METER_PERIOD\<rparr>)
                else p1\<lparr>pr_since_meter := since\<rparr>, block))"

definition discontinuity :: "processor \<Rightarrow> processor" where
  "discontinuity p = (if pr_armed p then restart_fade p else p)"

end
