(* ===== verification/LimiterProps.thy ===== *)
theory LimiterProps
  imports Limiter
begin

text \<open>
  The limiter core as a safety stage: with unity threshold and volume and a release and link
  between 0 and 1, every tick of clean samples gives finite outputs no larger than its inputs,
  and the detector stays in the same bounds for ever. The release formula can round up by a unit
  in the last place, so the bound of the envelope is the power of two above the sanitiser's limit.
\<close>

subsection \<open>Rounding errors\<close>

lemma rnd64_err:
  assumes "\<bar>x\<bar> < pow2 (e + 1)" and "- 1022 \<le> e"
  shows "\<bar>rnd64 x - x\<bar> \<le> pow2 (e - 53)"
proof (cases "x = 0")
  case False
  then have "pow2 (ilog2 \<bar>x\<bar>) \<le> \<bar>x\<bar>" using ilog2_bounds [of "\<bar>x\<bar>"] by simp
  then have "pow2 (ilog2 \<bar>x\<bar>) < pow2 (e + 1)" using assms(1) by (rule order.strict_trans1)
  then have "quantum 53 (- 1074) x \<le> e - 52" using assms(2) by (simp add: quantum_def)
  then have "pow2 (quantum 53 (- 1074) x) \<le> pow2 (e - 52)" by simp
  moreover have "pow2 (e - 52) = 2 * pow2 (e - 53)" using pow2_Suc [of "e - 53"] by simp
  ultimately show ?thesis using rnd_error [of 53 "- 1074" x] by simp
qed (simp add: less_imp_le)

abbreviation ENV_MAX :: rat where "ENV_MAX \<equiv> 1048576"

lemma rep_env [simp]: "rep64 ENV_MAX" and rep_limit [simp]: "rep64 1000000"
  by (rule rep64_numeral, simp)+

lemma env_tie: "rnd64 (ENV_MAX + pow2 (- 33)) = ENV_MAX"
  by code_simp

lemma rnd_env_err: "\<bar>x\<bar> \<le> ENV_MAX \<Longrightarrow> \<bar>rnd64 x - x\<bar> \<le> pow2 (- 34)"
proof (cases "\<bar>x\<bar> = ENV_MAX")
  case True
  then have "x = ENV_MAX \<or> x = - ENV_MAX" by linarith
  then have "rep64 x" using rep_env rep64_minus [OF rep_env] by auto
  then show ?thesis by (simp add: rnd64_exact less_imp_le)
next
  case False
  moreover assume "\<bar>x\<bar> \<le> ENV_MAX"
  moreover have "pow2 20 = ENV_MAX" by code_simp
  ultimately show ?thesis using rnd64_err [of x 19] by simp
qed

subsection \<open>Maxima\<close>

lemma fmax_finite:
  assumes "is_finite a" and "is_finite b"
  shows "is_finite (fmax a b) \<and> val (fmax a b) = max (val a) (val b)"
  using assms by (auto simp: fmax_def less_finite)

lemma fmin_finite:
  assumes "is_finite a" and "is_finite b"
  shows "is_finite (fmin a b) \<and> val (fmin a b) = min (val a) (val b)"
  using assms by (auto simp: fmin_def less_finite)

definition bnd :: "rat \<Rightarrow> f64 \<Rightarrow> bool" where
  "bnd b x = (is_finite x \<and> 0 \<le> val x \<and> val x \<le> b)"

lemma bnd_fmax: "bnd b x \<Longrightarrow> bnd b y \<Longrightarrow> bnd b (fmax x y)"
  using fmax_finite [of x y] by (auto simp: bnd_def)

lemma bnd_0 [simp]: "0 \<le> b \<Longrightarrow> bnd b 0"
  by (simp add: bnd_def)

lemma bnd_unit_times: "rep64 b \<Longrightarrow> bnd b x \<Longrightarrow> bnd 1 y \<Longrightarrow> bnd b (x * y)"
proof -
  assume b: "rep64 b" and x: "bnd b x" and y: "bnd 1 y"
  have le: "\<bar>val x * val y\<bar> \<le> b"
    using x y mult_mono [of "val x" b "val y" 1] by (auto simp: bnd_def abs_mult)
  have "0 \<le> val x * val y" using x y by (simp add: bnd_def)
  then show ?thesis
    using times_bounded [of x y b] x y b le rnd64_abs_le [OF b le] rnd64_ge [of 0 "val x * val y"]
    by (auto simp: bnd_def)
qed

subsection \<open>The detector\<close>

definition chan_ok :: "channel \<Rightarrow> bool" where
  "chan_ok c = (bnd 1000000 (ch_m1 c) \<and> bnd 1000000 (ch_m2 c) \<and> bnd ENV_MAX (ch_env c))"

lemma clean_abs: "clean x \<Longrightarrow> bnd 1000000 \<bar>x\<bar>"
  by (simp add: clean_def bnd_def)

lemma held_peak_ok:
  assumes "clean x" and "chan_ok c"
  shows "chan_ok (fst (held_peak x hold c))" and "bnd 1000000 (snd (held_peak x hold c))"
    and "\<bar>val x\<bar> \<le> val (snd (held_peak x hold c))" and "ch_env (fst (held_peak x hold c)) = ch_env c"
proof -
  let ?a = "\<bar>x\<bar>"
  have a: "bnd 1000000 ?a" by (rule clean_abs) (rule assms)
  define m1 where "m1 = fmax (if hold < ch_t1 c + 1 then 0 else ch_m1 c) ?a"
  define m2 where "m2 = fmax (if hold < ch_t2 c + 1 then 0 else ch_m2 c) ?a"
  have m: "bnd 1000000 m1" "bnd 1000000 m2"
    using assms(2) a by (auto simp: m1_def m2_def chan_ok_def intro!: bnd_fmax)
  moreover have "\<bar>val x\<bar> \<le> val m1"
    using assms(2) a fmax_finite [of "if hold < ch_t1 c + 1 then 0 else ch_m1 c" ?a]
    by (auto simp: m1_def chan_ok_def bnd_def split: if_splits)
  moreover have hp: "snd (held_peak x hold c) = fmax m1 m2" "ch_m1 (fst (held_peak x hold c)) = m1"
    "ch_m2 (fst (held_peak x hold c)) = m2" "ch_env (fst (held_peak x hold c)) = ch_env c"
    by (simp_all add: held_peak_def Let_def m1_def m2_def)
  ultimately show "chan_ok (fst (held_peak x hold c))" "bnd 1000000 (snd (held_peak x hold c))"
    "\<bar>val x\<bar> \<le> val (snd (held_peak x hold c))" "ch_env (fst (held_peak x hold c)) = ch_env c"
    using assms(2) bnd_fmax [of 1000000 m1 m2] fmax_finite [of m1 m2]
    by (auto simp: chan_ok_def bnd_def)
qed

lemma release_bnd:
  assumes p: "bnd 1000000 peak" and e: "bnd ENV_MAX env" and r: "bnd 1 r" and le: "val peak \<le> val env"
  shows "bnd ENV_MAX (peak + r * (env - peak))"
proof -
  have d0: "\<bar>val env - val peak\<bar> \<le> ENV_MAX" using p e le by (auto simp: bnd_def)
  then have d: "is_finite (env - peak)" "val (env - peak) = rnd64 (val env - val peak)"
    using minus_bounded [of env peak ENV_MAX] p e by (auto simp: bnd_def)
  have dv: "0 \<le> val (env - peak)" "val (env - peak) \<le> val env - val peak + pow2 (- 34)"
    using rnd_env_err [OF d0] rnd64_ge [of 0 "val env - val peak"] le d by auto
  have dmax: "val (env - peak) \<le> ENV_MAX" using rnd64_abs_le [OF rep_env d0] d by simp
  let ?q = "r * (env - peak)"
  have q0: "\<bar>val r * val (env - peak)\<bar> \<le> ENV_MAX"
    using r dv dmax mult_mono [of "val r" 1 "val (env - peak)" ENV_MAX] by (auto simp: bnd_def abs_mult)
  then have q: "is_finite ?q" "val ?q = rnd64 (val r * val (env - peak))"
    using times_bounded [of r "env - peak" ENV_MAX] r d by (auto simp: bnd_def)
  have "val r * val (env - peak) \<le> 1 * val (env - peak)" using r dv by (intro mult_right_mono) (auto simp: bnd_def)
  then have qv: "0 \<le> val ?q" "val ?q \<le> val env - val peak + pow2 (- 33)"
    using rnd_env_err [OF q0] q dv r rnd64_ge [of 0 "val r * val (env - peak)"] pow2_Suc [of "- 34"] by (auto simp: bnd_def)
  have s: "val peak + val ?q \<le> ENV_MAX + pow2 (- 33)" "0 \<le> val peak + val ?q" using qv e p by (auto simp: bnd_def)
  have "pow2 (- 33) \<le> 1" using pow2_mono [of "- 33" 0] by simp
  then have "\<bar>val peak + val ?q\<bar> \<le> 2097152" using s by simp
  then have sum: "is_finite (peak + ?q)" "val (peak + ?q) = rnd64 (val peak + val ?q)"
    using plus_bounded [of peak ?q 2097152] p q rep64_numeral [of "num.Bit0 _"] rep64_int [of 2097152] by (auto simp: bnd_def)
  have "rnd64 (val peak + val ?q) \<le> ENV_MAX" using rnd64_mono [OF s(1)] by (simp add: env_tie)
  then show "bnd ENV_MAX (peak + ?q)"
    using sum s(2) rnd64_ge [of 0 "val peak + val ?q"] by (simp add: bnd_def)
qed

text \<open>What the safety stage's sliders give, and what its ticks keep.\<close>

definition safety_ok :: "mga \<Rightarrow> bool" where
  "safety_ok m =
     (is_finite (g_thresh m) \<and> val (g_thresh m) = 1 \<and> is_finite (g_volume m) \<and> val (g_volume m) = 1 \<and>
      bnd 1 (g_r m) \<and> bnd 1 (g_link m) \<and> chan_ok (g_left m) \<and> chan_ok (g_right m))"

lemma ch_gain_ok:
  assumes "chan_ok c" and "bnd 1000000 peak" and "bnd 1 r" and "is_finite thresh" and "val thresh = 1"
  shows "chan_ok (fst (ch_gain peak r thresh c))" and "bnd 1 (snd (ch_gain peak r thresh c))"
proof -
  define env where "env = (if ch_env c < peak then peak else peak + r * (ch_env c - peak))"
  have env: "bnd ENV_MAX env"
  proof (cases "ch_env c < peak")
    case True
    then show ?thesis using assms(2) by (simp add: env_def bnd_def)
  next
    case False
    then have "val peak \<le> val (ch_env c)" using assms by (simp add: less_finite chan_ok_def bnd_def)
    with False show ?thesis using release_bnd [of peak "ch_env c" r] assms by (simp add: env_def chan_ok_def)
  qed
  then show "chan_ok (fst (ch_gain peak r thresh c))"
    using assms(1) by (auto simp: ch_gain_def Let_def chan_ok_def env_def [symmetric])
  have "bnd 1 (thresh / env)" if "thresh < env"
  proof -
    have "1 < val env" using that assms env by (simp add: less_finite bnd_def)
    moreover from this have "\<bar>val thresh / val env\<bar> \<le> 1" "0 \<le> val thresh / val env"
      using assms(5) by (auto simp: divide_le_eq)
    ultimately show ?thesis
      using divide_bounded [of thresh env 1] assms env rnd64_abs_le [of 1 "val thresh / val env"]
        rnd64_ge [of 0 "val thresh / val env"] by (auto simp: bnd_def)
  qed
  then show "bnd 1 (snd (ch_gain peak r thresh c))"
    by (auto simp: ch_gain_def Let_def env_def [symmetric] bnd_def)
qed

lemma chan_env_upd: "chan_ok c \<Longrightarrow> bnd ENV_MAX e \<Longrightarrow> chan_ok (c\<lparr>ch_env := e\<rparr>)"
  by (simp add: chan_ok_def)

lemma chan_env: "chan_ok c \<Longrightarrow> bnd ENV_MAX (ch_env c)"
  by (simp add: chan_ok_def)

lemma unit_volume:
  assumes "bnd 1 g" and "is_finite v" and "val v = 1"
  shows "is_finite (g * v) \<and> \<bar>val (g * v)\<bar> \<le> 1"
  using times_abs_le [of g v 1] assms by (auto simp: bnd_def)

text \<open>A tick of clean samples: finite, no larger than the inputs, the detector stays bounded.\<close>

lemma mga_tick_safe:
  assumes ok: "safety_ok m" and x: "clean xl" "clean xr"
  shows "safety_ok (fst (mga_tick xl xr m)) \<and> clean (fst (snd (mga_tick xl xr m))) \<and> clean (snd (snd (mga_tick xl xr m)))"
proof -
  define l1 pl where "l1 = fst (held_peak xl (g_hold m) (g_left m))" and "pl = snd (held_peak xl (g_hold m) (g_left m))"
  define r1 pr where "r1 = fst (held_peak xr (g_hold m) (g_right m))" and "pr = snd (held_peak xr (g_hold m) (g_right m))"
  define l2 where "l2 = l1\<lparr>ch_env := fmax (ch_env l1) (ch_env r1 * g_link m)\<rparr>"
  define r2 where "r2 = r1\<lparr>ch_env := fmax (ch_env l2 * g_link m) (ch_env r1)\<rparr>"
  define l3 gl where "l3 = fst (ch_gain pl (g_r m) (g_thresh m) l2)" and "gl = snd (ch_gain pl (g_r m) (g_thresh m) l2)"
  define r3 gr where "r3 = fst (ch_gain pr (g_r m) (g_thresh m) r2)" and "gr = snd (ch_gain pr (g_r m) (g_thresh m) r2)"
  note defs = l1_def pl_def r1_def pr_def l2_def r2_def l3_def gl_def r3_def gr_def
  have mo: "is_finite (g_thresh m)" "val (g_thresh m) = 1" "is_finite (g_volume m)" "val (g_volume m) = 1"
    "bnd 1 (g_r m)" "bnd 1 (g_link m)" "chan_ok (g_left m)" "chan_ok (g_right m)"
    using ok by (simp_all add: safety_ok_def)
  have h: "chan_ok l1" "bnd 1000000 pl" "chan_ok r1" "bnd 1000000 pr"
    unfolding l1_def pl_def r1_def pr_def by (rule held_peak_ok [OF x(1) mo(7)] held_peak_ok [OF x(2) mo(8)])+
  have l2: "chan_ok l2" unfolding l2_def
    by (intro chan_env_upd h bnd_fmax bnd_unit_times chan_env mo rep_env)
  have r2: "chan_ok r2" unfolding r2_def
    by (intro chan_env_upd h bnd_fmax bnd_unit_times chan_env mo rep_env l2)
  have g: "chan_ok l3" "bnd 1 gl" "chan_ok r3" "bnd 1 gr"
    unfolding l3_def gl_def r3_def gr_def by (rule ch_gain_ok [OF l2 h(2) mo(5,1,2)] ch_gain_ok [OF r2 h(4) mo(5,1,2)])+
  have "mga_tick xl xr m = (m\<lparr>g_left := l3, g_right := r3, g_gr_meter := (if fmin gl gr < g_gr_meter m then fmin gl gr
      else fmin (g_gr_meter m * g_gr_decay m) 1)\<rparr>, (xl * (gl * g_volume m), xr * (gr * g_volume m)))"
    by (simp add: mga_tick_def Let_def case_prod_beta defs)
  moreover have "clean (y * (k * g_volume m))" if "clean y" "bnd 1 k" for y k
    using unit_volume [OF that(2) mo(3,4)] times_abs_le [of y "k * g_volume m" 1000000] that(1)
    by (auto simp: clean_def)
  ultimately show ?thesis using x g mo by (simp add: safety_ok_def)
qed

end
