(* ===== verification/RampProps.thy ===== *)
theory RampProps
  imports Rt LimiterProps
begin

text \<open>
  Ramps land exactly: after a change a ramp moves for its length and rests on the target, bit for
  bit. An output fade between 0 and 1 never leaves the range -1 to 1, although every step of its
  sum is rounded.
\<close>

subsection \<open>Landing\<close>

lemma tick_moving:
  "0 < rp_left r \<Longrightarrow> rp_left (fst (ramp_tick r)) = rp_left r - 1 \<and> rp_target (fst (ramp_tick r)) = rp_target r
     \<and> rp_len (fst (ramp_tick r)) = rp_len r \<and> rp_step (fst (ramp_tick r)) = rp_step r
     \<and> rp_value (fst (ramp_tick r)) = (if rp_left r = 1 then rp_target r else rp_value r + rp_step r)"
  by (auto simp: ramp_tick_def Let_def)

lemma tick_rest: "rp_left r = 0 \<Longrightarrow> ramp_tick r = (r, rp_value r)"
  by (simp add: ramp_tick_def)

lemma tick_value: "snd (ramp_tick r) = rp_value (fst (ramp_tick r))"
  by (simp add: ramp_tick_def Let_def)

lemma run_length: "length (snd (ramp_run n r)) = n"
  by (induction n arbitrary: r) (simp_all add: case_prod_beta)

lemma run_rest: "rp_left r = 0 \<Longrightarrow> ramp_run n r = (r, replicate n (rp_value r))"
  by (induction n) (simp_all add: tick_rest)

lemma run_add: "ramp_run (m + n) r =
    (fst (ramp_run n (fst (ramp_run m r))), snd (ramp_run m r) @ snd (ramp_run n (fst (ramp_run m r))))"
  by (induction m arbitrary: r) (simp_all add: case_prod_beta)

lemma run_moving:
  "0 < n \<Longrightarrow> rp_left r = n \<Longrightarrow> rp_left (fst (ramp_run n r)) = 0 \<and> rp_value (fst (ramp_run n r)) = rp_target r
     \<and> rp_target (fst (ramp_run n r)) = rp_target r \<and> last (snd (ramp_run n r)) = rp_target r"
proof (induction n arbitrary: r)
  case (Suc n)
  show ?case
  proof (cases "n = 0")
    case True
    then show ?thesis using Suc.prems tick_moving [of r] tick_value [of r] by (simp add: case_prod_beta)
  next
    case False
    then have "snd (ramp_run n (fst (ramp_tick r))) \<noteq> []" using run_length [of n "fst (ramp_tick r)"] by auto
    then show ?thesis
      using False Suc.IH [of "fst (ramp_tick r)"] Suc.prems tick_moving [of r] by (simp add: case_prod_beta)
  qed
qed simp

subsection \<open>Fades\<close>

lemma small_sum_err:
  assumes "is_finite a" and "is_finite b" and "\<bar>val a + val b\<bar> \<le> 1"
  shows "is_finite (a + b) \<and> \<bar>val (a + b) - (val a + val b)\<bar> \<le> pow2 (- 53)"
  using plus_bounded [OF assms(1,2) rep64_1 assms(3)] rnd64_err [of "val a + val b" 0] assms(3) pow2_Suc [of 0] by simp

definition fade_ok :: "ramp \<Rightarrow> bool" where
  "fade_ok r =
     (is_finite (rp_value r) \<and> \<bar>val (rp_value r)\<bar> \<le> 1 \<and> is_finite (rp_target r) \<and> \<bar>val (rp_target r)\<bar> \<le> 1 \<and>
      (0 < rp_left r \<longrightarrow> is_finite (rp_step r) \<and>
         (\<forall>j < rp_left r. \<bar>val (rp_value r) + of_nat j * val (rp_step r)\<bar> + of_nat j * pow2 (- 53) \<le> 1)))"

lemma fade_tick:
  assumes "fade_ok r"
  shows "fade_ok (fst (ramp_tick r))"
proof (cases "rp_left r")
  case 0
  with assms show ?thesis by (simp add: tick_rest)
next
  case (Suc n)
  show ?thesis
  proof (cases n)
    case 0
    with Suc assms tick_moving [of r] show ?thesis by (simp add: fade_ok_def)
  next
    case (Suc k)
    let ?v = "rp_value r" and ?s = "rp_step r"
    have left: "rp_left r = Suc (Suc k)" using \<open>rp_left r = Suc n\<close> Suc by simp
    have fin: "is_finite ?v" "is_finite ?s"
      and pot: "\<And>j. j < Suc (Suc k) \<Longrightarrow> \<bar>val ?v + of_nat j * val ?s\<bar> + of_nat j * pow2 (- 53) \<le> 1"
      using assms left by (auto simp: fade_ok_def)
    have one: "\<bar>val ?v + val ?s\<bar> + pow2 (- 53) \<le> 1" using pot [of 1] by simp
    have pos: "0 < pow2 (- 53)" by simp
    then have e: "is_finite (?v + ?s)" "\<bar>val (?v + ?s) - (val ?v + val ?s)\<bar> \<le> pow2 (- 53)"
      using small_sum_err [OF fin] one by linarith+
    have "\<bar>val (?v + ?s)\<bar> \<le> 1" using e(2) one by linarith
    moreover have "\<bar>val (?v + ?s) + of_nat j * val ?s\<bar> + of_nat j * pow2 (- 53) \<le> 1" if "j < Suc k" for j
    proof -
      have "\<bar>val ?v + of_nat (Suc j) * val ?s\<bar> + of_nat (Suc j) * pow2 (- 53) \<le> 1" using pot [of "Suc j"] that by simp
      moreover have "val ?v + of_nat (Suc j) * val ?s = val ?v + val ?s + of_nat j * val ?s"
        "of_nat (Suc j) * pow2 (- 53) = pow2 (- 53) + of_nat j * pow2 (- 53)"
        by (simp_all add: algebra_simps)
      ultimately show ?thesis using e(2) by linarith
    qed
    ultimately show ?thesis
      using assms tick_moving [of r] left e(1) by (simp add: fade_ok_def)
  qed
qed

lemma fade_run: "fade_ok r \<Longrightarrow> fade_ok (fst (ramp_run n r)) \<and> (\<forall>v \<in> set (snd (ramp_run n r)). is_finite v \<and> \<bar>val v\<bar> \<le> 1)"
proof (induction n arbitrary: r)
  case (Suc n)
  have t: "fade_ok (fst (ramp_tick r))" by (rule fade_tick) (rule Suc.prems)
  from Suc.IH [OF t] t show ?case
    using tick_value [of r] by (auto simp: case_prod_beta fade_ok_def)
qed simp

lemma fade_rest: "is_finite v \<Longrightarrow> \<bar>val v\<bar> \<le> 1 \<Longrightarrow> fade_ok (ramp_new v len)"
  by (simp add: fade_ok_def ramp_new_def)

lemma of_nat_f64:
  assumes "n \<le> 2 ^ 24"
  shows "is_finite (f64_of_nat n) \<and> val (f64_of_nat n) = of_nat n"
proof -
  have "rep64 (of_int (int n))" using assms by (intro rep64_int) auto
  then have r: "rep64 (of_nat n)" by simp
  then show ?thesis using f64_of_bounded [OF r, of "of_nat n"] rnd64_exact [OF r] by (simp add: f64_of_nat_def)
qed

text \<open>The step of a fade is the exact one up to two roundings.\<close>

lemma fade_step:
  assumes "is_finite v" and "is_finite t" and "\<bar>val t - val v\<bar> \<le> 1" and "0 < len" and "len \<le> 2 ^ 24"
  shows "is_finite ((t - v) / f64_of_nat len) \<and>
    \<bar>val ((t - v) / f64_of_nat len) - (val t - val v) / of_nat len\<bar> \<le> 2 * pow2 (- 53)"
proof -
  let ?d = "t - v" and ?n = "f64_of_nat len"
  have d: "is_finite ?d" "val ?d = rnd64 (val t - val v)" using minus_bounded [OF assms(2,1) rep64_1 assms(3)] by auto
  have de: "\<bar>val ?d - (val t - val v)\<bar> \<le> pow2 (- 53)" "\<bar>val ?d\<bar> \<le> 1"
    using d rnd64_err [of "val t - val v" 0] rnd64_abs_le [OF rep64_1 assms(3)] assms(3) pow2_Suc [of 0] by auto
  have n: "is_finite ?n" "val ?n = of_nat len" using of_nat_f64 [OF assms(5)] by auto
  have len1: "1 \<le> (of_nat len :: rat)" using assms(4) by simp
  have q: "\<bar>val ?d / of_nat len\<bar> \<le> 1"
    using de(2) len1 by (simp add: abs_divide divide_le_eq)
  have r: "is_finite (?d / ?n)" "val (?d / ?n) = rnd64 (val ?d / of_nat len)"
    using divide_bounded [of ?d ?n 1] d(1) n q assms(4) by auto
  have "\<bar>val (?d / ?n) - val ?d / of_nat len\<bar> \<le> pow2 (- 53)"
    using r(2) rnd64_err [of "val ?d / of_nat len" 0] q pow2_Suc [of 0] by simp
  moreover have "\<bar>val ?d / of_nat len - (val t - val v) / of_nat len\<bar> \<le> pow2 (- 53)"
  proof -
    have "\<bar>val ?d / of_nat len - (val t - val v) / of_nat len\<bar> = \<bar>val ?d - (val t - val v)\<bar> / of_nat len"
      by (simp add: diff_divide_distrib [symmetric] abs_divide)
    also have "\<dots> \<le> \<bar>val ?d - (val t - val v)\<bar>" using len1 by (simp add: divide_le_eq mult_le_cancel_left1)
    finally show ?thesis using de(1) by simp
  qed
  ultimately show ?thesis using r(1) by linarith
qed

text \<open>A fade from anywhere in range to silence, and from silence to full level.\<close>

lemma fade_set:
  assumes v: "is_finite v" "\<bar>val v\<bar> \<le> 1" and t: "t = 0 \<or> t = 1 \<and> val v = 0" and len: "len \<le> 2 ^ 24"
  shows "fade_ok (ramp_set (ramp_new v len) t)"
proof (cases "feq t v")
  case True
  then show ?thesis using v by (simp add: ramp_set_def ramp_new_def fade_ok_def)
next
  case False
  define n where "n = (if len = 0 then 1 else len)"
  have n: "0 < n" "n \<le> 2 ^ 24" using len by (auto simp: n_def)
  let ?s = "(t - v) / f64_of_nat n"
  have tf: "is_finite t" "\<bar>val t - val v\<bar> \<le> 1" using v t by auto
  note st = fade_step [OF v(1) tf(1,2) n]
  have "\<bar>val v + of_nat j * val ?s\<bar> + of_nat j * pow2 (- 53) \<le> 1" if j: "j < n" for j
  proof (cases "j = 0")
    case False
    let ?c = "of_nat j / of_nat n :: rat"
    have nr: "0 < (of_nat n :: rat)" using n by simp
    have c: "0 < ?c" "?c \<le> 1 - 1 / of_nat n"
      using False j nr by (simp_all add: field_simps flip: of_nat_Suc)
    have lin: "\<bar>val v + of_nat j * ((val t - val v) / of_nat n)\<bar> \<le> 1 - 1 / of_nat n"
    proof -
      have eq: "val v + of_nat j * ((val t - val v) / of_nat n) = val v * (1 - ?c) + ?c * val t"
        using nr by (simp add: field_simps)
      have c1: "1 / of_nat n \<le> ?c" "0 \<le> 1 - ?c" using False j nr by (simp_all add: field_simps)
      show ?thesis
      proof (cases "t = 0")
        case True
        have "\<bar>val v * (1 - ?c)\<bar> \<le> 1 * (1 - ?c)"
          using mult_right_mono [OF v(2) c1(2)] c1(2) by (simp add: abs_mult)
        then show ?thesis unfolding eq using True c1(1) by simp
      next
        case False
        then show ?thesis unfolding eq using t c by simp
      qed
    qed
    have err: "\<bar>of_nat j * val ?s - of_nat j * ((val t - val v) / of_nat n)\<bar> \<le> of_nat j * (2 * pow2 (- 53))"
    proof -
      have "\<bar>of_nat j * (val ?s - (val t - val v) / of_nat n)\<bar> = of_nat j * \<bar>val ?s - (val t - val v) / of_nat n\<bar>"
        by (simp add: abs_mult)
      also have "\<dots> \<le> of_nat j * (2 * pow2 (- 53))" using st by (intro mult_left_mono) auto
      finally show ?thesis by (simp only: right_diff_distrib)
    qed
    have "of_nat j * of_nat n * 3 \<le> (2 :: rat) ^ 24 * 2 ^ 24 * 3"
      using j n by (intro mult_mono) (auto simp flip: of_nat_power of_nat_le_iff)
    also have "\<dots> \<le> 2 ^ 53" by simp
    finally have "of_nat j * (3 * pow2 (- 53)) \<le> 1 / of_nat n"
      using nr by (simp add: pow2_def field_simps)
    with lin err show ?thesis by (simp add: algebra_simps)
  qed (use v in simp)
  then show ?thesis
    using False v tf t st by (auto simp: ramp_set_def ramp_new_def fade_ok_def n_def)
qed

lemma fade_rise: "len \<le> 2 ^ 24 \<Longrightarrow> fade_ok (rise len)"
  using fade_set [of 0 1 len] by (auto simp: rise_def Let_def ramp_jump_def intro: fade_rest)

subsection \<open>Properties\<close>

text \<open>
  A ramp lands exactly and rests: after \<open>set\<close> to a new target a ramp's last value after
  \<open>len\<close> samples is the target itself, it no longer moves, and from then on every sample has that
  value; however the samples are split into blocks, the values are the same.
\<close>

theorem ramp_lands:
  assumes "\<not> feq target (rp_target r)" and "0 < rp_len r"
  shows "last (snd (ramp_run (rp_len r) (ramp_set r target))) = target \<and>
    \<not> is_moving (fst (ramp_run (rp_len r) (ramp_set r target))) \<and>
    snd (ramp_run (rp_len r + n) (ramp_set r target)) =
      snd (ramp_run (rp_len r) (ramp_set r target)) @ replicate n target \<and>
    snd (ramp_run (a + b) (ramp_set r target)) =
      snd (ramp_run a (ramp_set r target)) @ snd (ramp_run b (fst (ramp_run a (ramp_set r target))))"
proof -
  let ?r = "ramp_set r target"
  have set: "rp_left ?r = rp_len r" "rp_target ?r = target" using assms(1) by (simp_all add: ramp_set_def)
  from run_moving [OF assms(2) set(1)] set show ?thesis
    by (simp add: run_add run_rest is_moving_def)
qed

end
