(* ===== verification/RtSafety.thy ===== *)
theory RtSafety
  imports RtRender RampProps
begin

text \<open>
  Hearing safety: whatever the inputs, the state and the commands are, every sample the processor
  writes to a mix's TX is finite and within the output cap, full scale or -20 dBFS while a test
  signal sounds. The invariant is the detector's of the safety stage, the range of the output
  fade, the caps, and the lengths of the segment buffers.
\<close>

subsection \<open>Lengths through the stages\<close>

lemma prefix_of_length [simp]: "n \<le> length buf \<Longrightarrow> length (prefix_of n buf) = n"
  by (simp add: prefix_of_def)

lemma put_prefix_length: "length xs \<le> length buf \<Longrightarrow> length (put_prefix xs buf) = length buf"
  by (simp add: put_prefix_def)

lemma prefix_put: "n \<le> length buf \<Longrightarrow> length xs = n \<Longrightarrow> prefix_of n (put_prefix xs buf) = xs"
  by (simp add: prefix_of_def put_prefix_def)

lemma stereo_gain_moving_length: "length (snd (stereo_gain_moving buf s)) = length buf"
  by (induction buf arbitrary: s) (simp_all add: case_prod_beta)

lemma stereo_gain_length [simp]: "length (snd (stereo_gain buf s)) = length buf"
  by (simp add: stereo_gain_def scale_def stereo_gain_moving_length split: option.split)

lemma ramp_gain_moving_length: "length (snd (ramp_gain_moving buf r)) = length buf"
  by (induction buf arbitrary: r) (simp_all add: case_prod_beta)

lemma ramp_gain_length [simp]: "length (snd (ramp_gain buf r)) = length buf"
  by (simp add: ramp_gain_def scale_def ramp_gain_moving_length)

lemma accumulate_moving_length: "length (snd (accumulate_moving src dst s)) = length dst"
proof (induction src arbitrary: dst s)
  case (Cons x src)
  then show ?case by (cases dst) (simp_all add: case_prod_beta)
qed simp

lemma accumulate_length: "length src = length dst \<Longrightarrow> length (snd (accumulate src s dst)) = length dst"
  by (simp add: accumulate_def accumulate_moving_length split: option.split)

lemma eq_process_length: "length (snd (eq_process lm frames e)) = length frames"
  by (induction frames arbitrary: e) (simp_all add: case_prod_beta)

lemma eq_stereo_length [simp]: "length (snd (eq_stereo lm buf e)) = length buf"
  using eq_process_length [of lm "map (\<lambda>(a, b). [a, b]) buf" e] by (simp add: eq_stereo_def case_prod_beta)

lemma limiter_process_length: "length (snd (limiter_process xs l)) = length xs"
  by (induction xs arbitrary: l) (simp_all add: case_prod_beta)

lemma mix_limiter_moving_length: "length (snd (mix_limiter_moving lm xs m)) = length xs"
  by (induction xs arbitrary: m) (simp_all add: case_prod_beta)

lemma mix_limiter_process_length [simp]: "length (snd (mix_limiter_process lm xs m)) = length xs"
  by (simp add: mix_limiter_process_def case_prod_beta limiter_process_length mix_limiter_moving_length)

lemma trips_stereo_length [simp]: "length (fst (snd (trips_stereo n buf))) = length buf"
  by (simp add: trips_stereo_def trips_check_def sanitize_def case_prod_beta Let_def)

lemma trips_stereo_clean: "x \<in> set (fst (snd (trips_stereo n buf))) \<Longrightarrow> clean (fst x) \<and> clean (snd x)"
proof -
  define cs where "cs = fst (sanitize [map fst buf, map snd buf])"
  have cs: "length cs = 2" using sanitize_lengths [of "[map fst buf, map snd buf]"]
    by (simp add: cs_def sanitize_def)
  assume "x \<in> set (fst (snd (trips_stereo n buf)))"
  then have "x \<in> set (zip (cs ! 0) (cs ! 1))"
    by (simp add: trips_stereo_def trips_check_def Let_def case_prod_beta cs_def)
  then have "(fst x, snd x) \<in> set (zip (cs ! 0) (cs ! 1))" by simp
  then have "fst x \<in> set (cs ! 0)" "snd x \<in> set (cs ! 1)" by (rule set_zip_leftD, rule set_zip_rightD)
  moreover have "cs ! 0 \<in> set cs" "cs ! 1 \<in> set cs" using cs by simp_all
  ultimately show ?thesis
    using sanitize_clean [of "fst x" "cs ! 0" "[map fst buf, map snd buf]"]
      sanitize_clean [of "snd x" "cs ! 1" "[map fst buf, map snd buf]"] by (simp flip: cs_def)
qed

subsection \<open>The TX stage\<close>

definition amp_ok :: "rat \<Rightarrow> f64 \<Rightarrow> bool" where
  "amp_ok b y = (is_finite y \<and> \<bar>val y\<bar> \<le> b)"

definition cap_ok :: "rat \<Rightarrow> f64 \<Rightarrow> bool" where
  "cap_ok b c = (is_finite c \<and> 0 \<le> val c \<and> val c \<le> b \<and> rep64 (val c))"

lemma test_cap_val: "val TEST_CAP = 3602879701896397 / 36028797018963968"
  by code_simp

lemma cap_ok_consts: "cap_ok 1 1" "cap_ok 1 TEST_CAP" "cap_ok (val TEST_CAP) TEST_CAP"
proof -
  have f: "is_finite TEST_CAP" by code_simp
  have "pow2 53 \<le> pow2 1024" by simp
  then have "(9007199254740992 :: rat) \<le> pow2 1024" by (simp add: pow2_def)
  then have "rep64 (val TEST_CAP)"
    by (intro rep64I [of _ 3602879701896397 "- 55"]) (simp_all add: test_cap_val, simp_all add: pow2_def)
  with f show "cap_ok 1 1" "cap_ok 1 TEST_CAP" "cap_ok (val TEST_CAP) TEST_CAP"
    by (simp_all add: cap_ok_def test_cap_val)
qed

lemma clamp_amp:
  assumes "clean y" and "cap_ok b c" and "amp_ok 1 f"
  shows "amp_ok b (fclamp y (- c) c * f)"
proof -
  have "\<not> is_nan y" using assms(1) by (auto simp: clean_def)
  then have k: "is_finite (fclamp y (- c) c)" "\<bar>val (fclamp y (- c) c)\<bar> \<le> val c"
    using fclamp_finite [of "- c" c y] assms(2) by (auto simp: cap_ok_def abs_le_iff)
  from times_abs_le [OF k(1) _ _ k(2), of f] assms(2,3) show ?thesis
    by (auto simp: amp_ok_def cap_ok_def)
qed

lemma clean_0 [simp]: "clean 0"
  by (simp add: clean_def)

lemma mono_clean:
  assumes "clean x" and "clean y"
  shows "clean ((x + y) * Num (1 / 2))"
proof -
  have r2: "rep64 2000000" by (rule rep64_numeral) simp
  have s: "\<bar>val x + val y\<bar> \<le> 2000000" using assms by (auto simp: clean_def)
  then have p: "is_finite (x + y)" "\<bar>val (x + y)\<bar> \<le> 2000000"
    using plus_bounded [of x y 2000000] assms r2 rnd64_abs_le [OF r2 s] by (auto simp: clean_def)
  then have h: "\<bar>val (x + y) * val (Num (1 / 2))\<bar> \<le> 1000000" by (simp add: abs_mult)
  from times_bounded [OF p(1) _ rep_limit h] rnd64_abs_le [OF rep_limit h] show ?thesis
    by (simp add: clean_def)
qed

lemma tx_frames_ok:
  assumes "safety_ok g" and "cap_ok b c" and "\<forall>x \<in> set xs. clean (fst x) \<and> clean (snd x)" and "\<forall>f \<in> set fs. amp_ok 1 f"
  shows "safety_ok (fst (tx_frames mn c xs fs g)) \<and>
    (\<forall>y \<in> set (snd (tx_frames mn c xs fs g)). amp_ok b (fst y) \<and> amp_ok b (snd y)) \<and>
    length (snd (tx_frames mn c xs fs g)) = min (length xs) (length fs)"
  using assms
proof (induction xs arbitrary: fs g)
  case (Cons x xs)
  show ?case
  proof (cases fs)
    case (Cons f fs')
    define i where "i = (if mn then ((fst x + snd x) * Num (1 / 2), 0) else x)"
    define t where "t = mga_tick (fst i) (snd i) g"
    let ?rest = "tx_frames mn c xs fs' (fst t)"
    have "clean (fst i)" "clean (snd i)" using Cons.prems(3) by (auto simp: i_def mono_clean)
    then have t: "safety_ok (fst t)" "clean (fst (snd t))" "clean (snd (snd t))"
      using mga_tick_safe [OF Cons.prems(1)] by (auto simp: t_def)
    have "tx_frames mn c (x # xs) fs g =
        (fst ?rest, (fclamp (fst (snd t)) (- c) c * f, fclamp (snd (snd t)) (- c) c * f) # snd ?rest)"
      by (simp add: Cons Let_def case_prod_beta i_def t_def)
    moreover have "safety_ok (fst ?rest) \<and> (\<forall>y \<in> set (snd ?rest). amp_ok b (fst y) \<and> amp_ok b (snd y)) \<and>
        length (snd ?rest) = min (length xs) (length fs')"
      using Cons.prems t(1) Cons by (intro Cons.IH) auto
    ultimately show ?thesis
      using clamp_amp [OF t(2) Cons.prems(2)] clamp_amp [OF t(3) Cons.prems(2)] Cons.prems(4) Cons by simp
  qed (use Cons.prems in simp)
qed simp

subsection \<open>The state of a mix\<close>

definition mix_ok :: "f64 \<Rightarrow> mix_rt \<Rightarrow> bool" where
  "mix_ok c x =
     (length (xr_own x) = SEG \<and> length (xr_sum x) = SEG \<and>
      (case xr_shadow x of Some s \<Rightarrow> length (sh_out s) = SEG | None \<Rightarrow> True) \<and>
      safety_ok (xr_safety x) \<and> xr_cap x = c)"

definition inputs_ok :: "input_rt list \<Rightarrow> bool" where
  "inputs_ok ins = (\<forall>i \<in> set ins. length (ir_p i) = SEG)"

lemma sum_input_length:
  assumes "inputs_ok ins" and "n \<le> SEG" and "length (snd s) = n"
  shows "length (snd (sum_input ins n i s)) = n"
  using assms
  by (auto simp: sum_input_def inputs_ok_def case_prod_beta lget_def accumulate_length split: option.splits)

lemma fold_sum_input_length:
  "inputs_ok ins \<Longrightarrow> n \<le> SEG \<Longrightarrow> length (snd s) = n \<Longrightarrow> length (snd (fold (sum_input ins n) is s)) = n"
  by (induction "is" arbitrary: s) (simp_all add: sum_input_length)

lemma render_strip_length:
  "inputs_ok ins \<Longrightarrow> n \<le> SEG \<Longrightarrow> length (fst (snd (snd (render_strip lm ins n g s lvs)))) = n"
  by (simp add: render_strip_def Let_def case_prod_beta fold_sum_input_length)

lemma render_strips_length:
  "inputs_ok ins \<Longrightarrow> n \<le> SEG \<Longrightarrow> length buf = n \<Longrightarrow> length (fst (snd (snd (render_strips lm ins n gs ss lvs buf)))) = n"
proof (induction gs arbitrary: ss lvs buf)
  case (Cons g gs)
  show ?case
  proof (cases ss)
    case (Cons s ss')
    then show ?thesis
      using Cons.prems Cons.IH render_strip_length [OF Cons.prems(1,2)] by (simp add: Let_def case_prod_beta)
  qed (use Cons.prems in simp)
qed simp

lemma own_sum_ok:
  assumes "inputs_ok ins" and "n \<le> SEG" and "mix_ok c x"
  shows "mix_ok c (fst (own_sum lm topo ins n x))"
proof -
  define s where "s = fold (sum_input ins n) (t_direct topo) (xr_levels x, replicate n (0, 0))"
  define r where "r = render_strips lm ins n (t_groups topo) (xr_groups x) (fst s) (snd s)"
  have "length (fst (snd (snd r))) = n"
    unfolding r_def by (rule render_strips_length [OF assms(1,2)]) (simp add: s_def fold_sum_input_length [OF assms(1,2)])
  moreover have "fst (own_sum lm topo ins n x) =
      x\<lparr>xr_own := put_prefix (fst (snd (snd r))) (xr_own x), xr_levels := fst r, xr_groups := fst (snd r)\<rparr>"
    by (simp add: own_sum_def Let_def case_prod_beta s_def r_def)
  ultimately show ?thesis
    using assms(2,3) by (simp add: mix_ok_def put_prefix_length split: option.splits)
qed

lemma render_shadow_length:
  "n \<le> SEG \<Longrightarrow> length own = SEG \<Longrightarrow> length (sh_out s) = SEG \<Longrightarrow> length (sh_out (fst (render_shadow lm n own s))) = SEG"
  by (simp add: render_shadow_def Let_def case_prod_beta put_prefix_length)

lemma render_own_ok:
  assumes "inputs_ok ins" and "n \<le> SEG" and "mix_ok c x"
  shows "mix_ok c (fst (render_own lm topo ins n x))"
proof -
  define x1 where "x1 = fst (own_sum lm topo ins n x)"
  have ok: "mix_ok c x1" unfolding x1_def by (rule own_sum_ok) (fact assms)+
  show ?thesis
  proof (cases "xr_shadow x1")
    case None
    then show ?thesis using ok by (simp add: render_own_def Let_def case_prod_beta flip: x1_def)
  next
    case (Some s)
    then show ?thesis
      using ok render_shadow_length [OF assms(2), of "xr_own x1" s lm]
      by (simp add: render_own_def Let_def case_prod_beta mix_ok_def flip: x1_def)
  qed
qed

subsection \<open>Rendering the mixes\<close>

definition mixes_ok :: "f64 \<Rightarrow> mix_rt list \<Rightarrow> bool" where
  "mixes_ok c xs = (\<forall>x \<in> set xs. mix_ok c x)"

lemma heard_buf_length: "mixes_ok c xs \<Longrightarrow> n \<le> SEG \<Longrightarrow> heard_buf xs m n i = Some buf \<Longrightarrow> length buf = n"
  by (auto simp: heard_buf_def other_def mixes_ok_def mix_ok_def split: if_splits)

lemma peer_buf_length: "mixes_ok c xs \<Longrightarrow> n \<le> SEG \<Longrightarrow> peer_buf xs m n i = Some buf \<Longrightarrow> length buf = n"
proof -
  assume ok: "mixes_ok c xs" and n: "n \<le> SEG" and "peer_buf xs m n i = Some buf"
  then obtain x where "other xs m i = Some x"
    and buf: "buf = prefix_of n (case xr_shadow x of Some s \<Rightarrow> sh_out s | None \<Rightarrow> xr_sum x)"
    by (auto simp: peer_buf_def)
  then have "mix_ok c x" using ok by (auto simp: other_def mixes_ok_def split: if_splits)
  then show "length buf = n" using n by (cases "xr_shadow x") (simp_all add: buf mix_ok_def)
qed

lemma sum_mix_length:
  assumes "\<And>i buf. src i = Some buf \<Longrightarrow> length buf = n" and "length (snd s) = n"
  shows "length (snd (sum_mix src first_k ks s)) = n"
  using assms by (auto simp: sum_mix_def case_prod_beta accumulate_length split: option.splits)

lemma fold_sum_mix_length:
  assumes "\<And>i buf. src i = Some buf \<Longrightarrow> length buf = n" and "length (snd s) = n"
  shows "length (snd (fold (sum_mix src first_k) kss s)) = n"
  using assms(2) by (induction kss arbitrary: s) (simp_all add: sum_mix_length [OF assms(1)])

text \<open>What a write does to the outputs: the samples of its range, nothing else.\<close>

lemma splice_nth:
  "off + length ys \<le> length xs \<Longrightarrow> i < length xs \<Longrightarrow>
     splice off ys xs ! i = (if off \<le> i \<and> i < off + length ys then ys ! (i - off) else xs ! i)"
  by (auto simp: splice_def nth_append)

lemma splice_length: "off + length ys \<le> length xs \<Longrightarrow> length (splice off ys xs) = length xs"
  by (simp add: splice_def)

text \<open>
  \<open>outs_after P D off n b0 b\<close>: \<open>b\<close> differs from \<open>b0\<close> at most in the samples of the segment, every
  written sample satisfies \<open>P\<close>, and the channels of \<open>D\<close> are written.
\<close>

definition outs_after :: "(f64 \<Rightarrow> bool) \<Rightarrow> nat set \<Rightarrow> nat \<Rightarrow> nat \<Rightarrow> audio_block \<Rightarrow> audio_block \<Rightarrow> bool" where
  "outs_after P D off n b0 b =
     (bk_frames b = bk_frames b0 \<and> bk_in b = bk_in b0 \<and>
      (\<forall>ch. length (bk_out b ch) = length (bk_out b0 ch)) \<and>
      (\<forall>ch. \<forall>i < length (bk_out b0 ch). \<not> (off \<le> i \<and> i < off + n) \<longrightarrow> bk_out b ch ! i = bk_out b0 ch ! i) \<and>
      (\<forall>ch \<in> D. off + n \<le> length (bk_out b0 ch) \<longrightarrow> (\<forall>i. off \<le> i \<and> i < off + n \<longrightarrow> P (bk_out b ch ! i))))"

lemma outs_after_refl: "outs_after P {} off n b b"
  by (simp add: outs_after_def)

lemma outs_after_write:
  assumes "outs_after P D off n b0 b" and "length ys = n" and "\<forall>y \<in> set ys. P y"
  shows "outs_after P (insert ch D) off n b0 (write_out off n ys ch b)"
proof (cases "off + n \<le> length (bk_out b ch)")
  case True
  have "P (ys ! (i - off))" if "off \<le> i" "i < off + n" for i
    using assms(2,3) that by (metis add.commute less_diff_conv2 nth_mem)
  then show ?thesis
    using assms(1,2) True by (auto simp: write_out_def outs_after_def splice_nth splice_length)
next
  case False
  then show ?thesis using assms(1) by (auto simp: write_out_def outs_after_def)
qed

lemma outs_after_tx:
  assumes "outs_after P D off n b0 b" and "length ys = n" and "\<forall>y \<in> set ys. P y" and "P 0"
  shows "outs_after P (D \<union> set_option ch) off n b0 (write_tx off n hil ch ys b)"
  using outs_after_write [OF assms(1), of "if hil then replicate n 0 else ys"] assms
  by (cases ch) (auto simp: write_tx_def)

lemma outs_after_mono: "outs_after P D off n b0 b \<Longrightarrow> D' \<subseteq> D \<Longrightarrow> outs_after P D' off n b0 b"
  by (auto simp: outs_after_def)

definition tx_slots :: "topology \<Rightarrow> nat set \<Rightarrow> nat set" where
  "tx_slots t M = {j. \<exists>m \<in> M. m < length (t_mixes t) \<and> tx_has (t_mixes t ! m) j}"

lemma render_mix_ok:
  fixes lm listen probing sine
  assumes n: "n \<le> SEG" and fade: "length fade = n" "\<forall>f \<in> set fade. amp_ok 1 f"
    and ok: "mixes_ok c (mc_mixes acc)" and c: "cap_ok b c" and len: "length (mc_mixes acc) = length (t_mixes topo)"
    and m: "m < length (t_mixes topo)"
    and P: "P 0" "hil \<or> (\<forall>y. amp_ok b y \<longrightarrow> P y)"
    and out: "outs_after P D off n b0 (mc_block acc)"
  defines "acc' \<equiv> render_mix lm topo listen hil probing sine fade off n m acc"
  shows "mixes_ok c (mc_mixes acc') \<and> length (mc_mixes acc') = length (t_mixes topo) \<and>
    outs_after P (D \<union> tx_slots topo {m}) off n b0 (mc_block acc')"
proof -
  let ?spec = "t_mixes topo ! m" and ?x = "mc_mixes acc ! m"
  have xok: "mix_ok c ?x" using ok len m by (simp add: mixes_ok_def)
  define s1 where "s1 = fold (sum_mix (heard_buf (mc_mixes acc) m n) (length (t_inputs topo))) (enumerate 0 (m_mixes ?spec))
      (xr_levels ?x, prefix_of n (xr_own ?x))"
  define s2 where "s2 = fold (sum_mix (peer_buf (mc_mixes acc) m n) (length (t_inputs topo) + length (m_mixes ?spec)))
      (enumerate 0 (m_peers ?spec)) s1"
  define e where "e = eq_stereo lm (snd s2) (xr_eq ?x)"
  define l where "l = mix_limiter_process lm (snd e) (xr_limiter ?x)"
  define f where "f = stereo_gain (snd l) (xr_fader ?x)"
  define t where "t = trips_stereo (xr_trips ?x) (snd f)"
  define b6 where "b6 = fst (snd t)"
  define tx where "tx = tx_frames (m_mono ?spec) (xr_cap ?x) b6 fade (xr_safety ?x)"
  have "length (snd s1) = n" unfolding s1_def
    by (rule fold_sum_mix_length [OF heard_buf_length [OF ok n]]) (use xok n in \<open>simp_all add: mix_ok_def\<close>)
  then have "length (snd s2) = n" unfolding s2_def
    by (intro fold_sum_mix_length [OF peer_buf_length [OF ok n]])
  then have b6: "length b6 = n" by (simp add: b6_def t_def f_def l_def e_def)
  have clean: "\<forall>x \<in> set b6. clean (fst x) \<and> clean (snd x)" using trips_stereo_clean by (auto simp: b6_def t_def)
  have txok: "safety_ok (fst tx)" "\<forall>y \<in> set (snd tx). amp_ok b (fst y) \<and> amp_ok b (snd y)" "length (snd tx) = n"
    using tx_frames_ok [of "xr_safety ?x" b "xr_cap ?x" b6 fade] xok c clean fade b6 by (auto simp: tx_def mix_ok_def)
  define x' where "x' = ?x\<lparr>xr_sum := put_prefix b6 (xr_sum ?x), xr_levels := fst s2,
      xr_eq := (if snd (snd t) then eq_reset (fst e) else fst e),
      xr_limiter := (if snd (snd t) then (fst l)\<lparr>ml_lim := limiter_reset (ml_lim (fst l))\<rparr> else fst l),
      xr_fader := fst f, xr_safety := fst tx, xr_trips := fst t, xr_peak := observe_stereo b6 (xr_peak ?x)\<rparr>"
  have acc': "mc_mixes acc' = (mc_mixes acc)[m := x']"
    "mc_block acc' = write_tx off n hil (snd (m_tx ?spec)) (map snd (snd tx)) (write_tx off n hil (fst (m_tx ?spec)) (map fst (snd tx)) (mc_block acc))"
    using m len by (simp_all add: acc'_def render_mix_def lget_def Let_def case_prod_beta x'_def tx_def b6_def t_def f_def l_def e_def s2_def s1_def)
  have "mix_ok c x'" using xok txok n b6 by (simp add: x'_def mix_ok_def put_prefix_length)
  then have "mixes_ok c (mc_mixes acc')"
    using ok set_update_subset_insert [of "mc_mixes acc" m x'] by (auto simp: acc'(1) mixes_ok_def)
  moreover have "outs_after P (D \<union> tx_slots topo {m}) off n b0 (mc_block acc')"
  proof -
    have w: "write_tx off n hil ch ys bl = write_tx off n hil ch (if hil then replicate n 0 else ys) bl" for ch ys bl
      by (simp add: write_tx_def)
    have ys: "length (if hil then replicate n 0 else map fst (snd tx)) = n" "length (if hil then replicate n 0 else map snd (snd tx)) = n"
      "\<forall>y \<in> set (if hil then replicate n 0 else map fst (snd tx)). P y" "\<forall>y \<in> set (if hil then replicate n 0 else map snd (snd tx)). P y"
      using txok P by auto
    have "outs_after P (D \<union> set_option (fst (m_tx ?spec)) \<union> set_option (snd (m_tx ?spec))) off n b0 (mc_block acc')"
      unfolding acc'(2) by (subst (1 2) w) (intro outs_after_tx ys P(1) out)
    then show ?thesis
      by (rule outs_after_mono) (use m in \<open>auto simp: tx_slots_def tx_has_def\<close>)
  qed
  ultimately show ?thesis using len by (simp add: acc'(1))
qed

end
