(* ===== verification/RtInvariant.thy ===== *)
theory RtInvariant
  imports RtSafety TopologyProps
begin

text \<open>
  The processor's invariant and its consequences over whole blocks: every stage of a segment,
  every command and every event of the host keeps it, construction establishes it, and what a
  segment writes carries over to the block that is cut into segments.
\<close>

subsection \<open>The mixes in the render order\<close>

lemma fold_render_mix_ok:
  fixes lm listen probing sine
  assumes n: "n \<le> SEG" and fade: "length fade = n" "\<forall>f \<in> set fade. amp_ok 1 f"
    and c: "cap_ok b c" and P: "P 0" "hil \<or> (\<forall>y. amp_ok b y \<longrightarrow> P y)"
    and ms: "\<forall>m \<in> set ms. m < length (t_mixes topo)"
    and ok: "mixes_ok c (mc_mixes acc)" and len: "length (mc_mixes acc) = length (t_mixes topo)"
    and out: "outs_after P D off n b0 (mc_block acc)"
  defines "acc' \<equiv> fold (render_mix lm topo listen hil probing sine fade off n) ms acc"
  shows "mixes_ok c (mc_mixes acc') \<and> length (mc_mixes acc') = length (t_mixes topo) \<and>
    outs_after P (D \<union> tx_slots topo (set ms)) off n b0 (mc_block acc')"
  unfolding acc'_def using ms ok len out
proof (induction ms arbitrary: acc D)
  case Nil
  then show ?case by (simp add: tx_slots_def)
next
  case (Cons m ms)
  let ?a = "render_mix lm topo listen hil probing sine fade off n m acc"
  have m: "m < length (t_mixes topo)" using Cons.prems(1) by simp
  note s = render_mix_ok [OF n fade Cons.prems(2) c Cons.prems(3) m P Cons.prems(4), of lm listen probing sine]
  have "D \<union> tx_slots topo {m} \<union> tx_slots topo (set ms) = D \<union> tx_slots topo (set (m # ms))"
    by (auto simp: tx_slots_def)
  with Cons.IH [of ?a "D \<union> tx_slots topo {m}"] Cons.prems(1) s show ?case by simp
qed

lemma wf_order: "topo_wf t \<Longrightarrow> set (t_order t) = {0..<length (t_mixes t)}"
  using render_order_perm [of "t_mixes t"] by (simp add: topo_wf_def)

lemma wf_tx_slots: "topo_wf t \<Longrightarrow> tx_slots t (set (t_order t)) = {..<length (t_tx t)}"
proof -
  assume wf: "topo_wf t"
  then have "tx_ok (length (t_tx t)) (t_mixes t)" by (simp add: topo_wf_def)
  then show ?thesis by (auto simp: tx_slots_def wf_order [OF wf] tx_ok_def Bex_def)
qed

subsection \<open>The invariant\<close>

definition running_cap :: "processor \<Rightarrow> f64" where
  "running_cap p = (if pr_test p = None then 1 else TEST_CAP)"

definition proc_inv :: "processor \<Rightarrow> bool" where
  "proc_inv p =
     (topo_wf (pr_topo p) \<and> length (pr_mixes p) = length (t_mixes (pr_topo p)) \<and>
      inputs_ok (pr_inputs p) \<and> mixes_ok (running_cap p) (pr_mixes p) \<and>
      fade_ok (pr_fade p) \<and> pr_fade_in p \<le> 2 ^ 24 \<and> pr_sr p = f64_of_nat SAMPLE_RATE \<and>
      length (pr_fade_buf p) = SEG \<and> length (pr_test_buf p) = SEG \<and> length (pr_talk_buf p) = SEG)"

definition hil_running :: "processor \<Rightarrow> bool" where
  "hil_running p = (case pr_test p of Some t \<Rightarrow> tt_mask t \<noteq> None | None \<Rightarrow> False)"

lemma running_cap_ok: "cap_ok 1 (running_cap p)"
  by (simp add: running_cap_def cap_ok_consts)

lemma running_cap_test: "pr_test p \<noteq> None \<Longrightarrow> cap_ok (val TEST_CAP) (running_cap p)"
  by (auto simp: running_cap_def cap_ok_consts)

subsection \<open>The stages before the mixes\<close>

lemma mixes_ok_caps: "mixes_ok c (map (\<lambda>x. x\<lparr>xr_cap := c\<rparr>) xs)" if "mixes_ok d xs"
  using that by (simp add: mixes_ok_def mix_ok_def)

lemma end_test_ok: "proc_inv p \<Longrightarrow> proc_inv (end_test p)"
  by (auto simp: end_test_def proc_inv_def running_cap_def set_caps_def intro: mixes_ok_caps split: option.split)

lemma tick_fade_ok:
  assumes "proc_inv p" and "n \<le> SEG"
  shows "proc_inv (tick_fade n p)" and "\<forall>f \<in> set (prefix_of n (pr_fade_buf (tick_fade n p))). amp_ok 1 f"
    and "length (prefix_of n (pr_fade_buf (tick_fade n p))) = n"
proof -
  have len: "length (pr_fade_buf p) = SEG" and fade: "fade_ok (pr_fade p)" using assms(1) by (simp_all add: proc_inv_def)
  note run = fade_run [OF fade, of n] run_length [of n "pr_fade p"]
  show "proc_inv (tick_fade n p)"
    using assms run by (simp add: tick_fade_def Let_def case_prod_beta proc_inv_def running_cap_def put_prefix_length)
  show "\<forall>f \<in> set (prefix_of n (pr_fade_buf (tick_fade n p))). amp_ok 1 f"
    "length (prefix_of n (pr_fade_buf (tick_fade n p))) = n"
    using assms(2) len run by (simp_all add: tick_fade_def Let_def case_prod_beta prefix_put amp_ok_def)
qed

lemma test_render_length: "length (snd (test_render lm n t)) = n"
  by (induction n arbitrary: t) (simp_all add: Let_def case_prod_beta)

lemma test_render_mask:
  "tt_mask (fst (test_render lm n t)) = tt_mask t \<and> tt_end (fst (test_render lm n t)) = tt_end t"
  by (induction n arbitrary: t) (simp_all add: Let_def case_prod_beta)

lemma tick_test_ok: "proc_inv p \<Longrightarrow> n \<le> SEG \<Longrightarrow> proc_inv (tick_test lm n p)"
  using test_render_length [of lm n]
  by (auto simp: tick_test_def Let_def case_prod_beta proc_inv_def running_cap_def put_prefix_length split: option.split)

lemma read_talkback_ok: "proc_inv p \<Longrightarrow> n \<le> SEG \<Longrightarrow> proc_inv (read_talkback n p)"
  by (simp add: read_talkback_def Let_def case_prod_beta proc_inv_def running_cap_def put_prefix_length run_length)

lemma crossfade_length: "length (snd (crossfade ds ws r)) = length ws"
proof (induction ds arbitrary: ws r)
  case (Cons d ds)
  then show ?case by (cases ws) (simp_all add: Let_def case_prod_beta)
qed simp

lemma card_input_length [simp]: "length (card_input block off n rx) = n"
  by (auto simp: card_input_def slice_get_def or_default_def split: option.splits)

lemma render_input_ok:
  assumes "length (ir_p node) = SEG" and "n \<le> SEG" and "sine = None \<or> (\<exists>s. sine = Some s \<and> length s = n)"
    and "talk = None \<or> (\<exists>s. talk = Some s \<and> length s = n)"
  shows "length (ir_p (fst (render_input lm block off n sine talk spec node))) = SEG"
  using assms
  by (auto simp: render_input_def Let_def case_prod_beta put_prefix_length crossfade_length)


lemma read_talkback_frame [simp]:
  "pr_topo (read_talkback n p) = pr_topo p" "pr_test (read_talkback n p) = pr_test p"
  "pr_time (read_talkback n p) = pr_time p" "pr_cmds (read_talkback n p) = pr_cmds p"
  "pr_fade_buf (read_talkback n p) = pr_fade_buf p" "pr_talkback_input (read_talkback n p) = pr_talkback_input p"
  by (simp_all add: read_talkback_def Let_def case_prod_beta)

lemma render_inputs_frame [simp]:
  "pr_topo (render_inputs lm block off n p) = pr_topo p" "pr_test (render_inputs lm block off n p) = pr_test p"
  "pr_time (render_inputs lm block off n p) = pr_time p" "pr_cmds (render_inputs lm block off n p) = pr_cmds p"
  "pr_fade_buf (render_inputs lm block off n p) = pr_fade_buf p"
  by (simp_all add: render_inputs_def Let_def add_trips_def)

lemma render_inputs_ok:
  assumes "proc_inv p" and "n \<le> SEG"
  shows "proc_inv (render_inputs lm block off n p)"
proof -
  define q where "q = (if pr_talkback_input p \<noteq> None then read_talkback n p else p)"
  have q: "proc_inv q" using assms read_talkback_ok by (simp add: q_def)
  then have lens: "length (pr_test_buf q) = SEG" "length (pr_talk_buf q) = SEG" and ins: "inputs_ok (pr_inputs q)"
    by (simp_all add: proc_inv_def)
  define sine where "sine = (\<lambda>i. case pr_test q of
      Some t \<Rightarrow> if tt_input t = i then Some (prefix_of n (pr_test_buf q)) else None | None \<Rightarrow> None)"
  define talk where "talk = (\<lambda>i. if Some i = pr_talkback_input q then Some (prefix_of n (pr_talk_buf q)) else None)"
  define rs where "rs = map (\<lambda>(i, spec, node). render_input lm block off n (sine i) (talk i) spec node)
      (enumerate 0 (zip (t_inputs (pr_topo q)) (pr_inputs q)))"
  have "length (ir_p (fst (render_input lm block off n (sine i) (talk i) spec node))) = SEG"
    if "length (ir_p node) = SEG" for i spec node
    by (rule render_input_ok [OF that assms(2)])
      (use lens assms(2) in \<open>auto simp: sine_def talk_def split: option.split\<close>)
  then have "length (ir_p (fst r)) = SEG" if "r \<in> set rs" for r
    using that ins by (auto simp: rs_def inputs_ok_def in_set_enumerate_eq dest: set_zip_rightD)
  then have "inputs_ok (map fst rs @ drop (length (t_inputs (pr_topo q))) (pr_inputs q))"
    using ins by (auto simp: inputs_ok_def dest: in_set_dropD)
  moreover have "render_inputs lm block off n p = add_trips (length (filter snd rs))
      (q\<lparr>pr_inputs := map fst rs @ drop (length (t_inputs (pr_topo q))) (pr_inputs q)\<rparr>)"
    unfolding render_inputs_def Let_def q_def rs_def sine_def talk_def by (rule refl)
  ultimately show ?thesis using q by (simp add: add_trips_def proc_inv_def running_cap_def)
qed

subsection \<open>A segment\<close>

lemma render_own_map_ok:
  "inputs_ok ins \<Longrightarrow> n \<le> SEG \<Longrightarrow> mixes_ok c xs \<Longrightarrow> mixes_ok c (map fst (map (render_own lm topo ins n) xs))"
  by (auto simp: mixes_ok_def intro: render_own_ok)

lemma render_mixes_frame [simp]:
  "pr_topo (fst (render_mixes lm off n pb)) = pr_topo (fst pb)" "pr_test (fst (render_mixes lm off n pb)) = pr_test (fst pb)"
  "pr_time (fst (render_mixes lm off n pb)) = pr_time (fst pb)" "pr_cmds (fst (render_mixes lm off n pb)) = pr_cmds (fst pb)"
  by (simp_all add: render_mixes_def Let_def add_trips_def)

lemma render_mixes_ok:
  assumes inv: "proc_inv p" and n: "n \<le> SEG"
    and fade: "\<forall>f \<in> set (prefix_of n (pr_fade_buf p)). amp_ok 1 f"
    and c: "cap_ok b (running_cap p)" and P: "P 0" "hil_running p \<or> (\<forall>y. amp_ok b y \<longrightarrow> P y)"
  shows "proc_inv (fst (render_mixes lm off n (p, block))) \<and>
    outs_after P {..<length (t_tx (pr_topo p))} off n block (snd (render_mixes lm off n (p, block)))"
proof -
  define probing where "probing = (case pr_test p of Some t \<Rightarrow> tt_mask t \<noteq> None \<and> tt_listen t | None \<Rightarrow> False)"
  define acc0 where "acc0 = \<lparr>mc_mixes = map fst (map (render_own lm (pr_topo p) (pr_inputs p) n) (pr_mixes p)),
      mc_taps = \<lparr>ta_taps = pr_taps p, ta_probes = pr_probes p,
        ta_overruns = st_tap_overruns (pr_status p), ta_lim = pr_listen_lim p\<rparr>,
      mc_block = block, mc_trips = sum_list (map snd (map (render_own lm (pr_topo p) (pr_inputs p) n) (pr_mixes p)))\<rparr>"
  define acc where "acc = fold (render_mix lm (pr_topo p) (pr_listen p) (hil_running p) probing
      (prefix_of n (pr_test_buf p)) (prefix_of n (pr_fade_buf p)) off n) (t_order (pr_topo p)) acc0"
  have r: "render_mixes lm off n (p, block) =
      (add_trips (mc_trips acc)
        (p\<lparr>pr_mixes := mc_mixes acc, pr_taps := ta_taps (mc_taps acc), pr_probes := ta_probes (mc_taps acc),
           pr_listen_lim := ta_lim (mc_taps acc),
           pr_status := (pr_status p)\<lparr>st_tap_overruns := ta_overruns (mc_taps acc)\<rparr>\<rparr>), mc_block acc)"
    by (simp add: render_mixes_def Let_def acc_def acc0_def probing_def hil_running_def)
  have wf: "topo_wf (pr_topo p)" and ok: "mixes_ok (running_cap p) (mc_mixes acc0)"
    "length (mc_mixes acc0) = length (t_mixes (pr_topo p))" and len: "length (pr_fade_buf p) = SEG"
    using inv render_own_map_ok [OF _ n] by (auto simp: proc_inv_def acc0_def)
  have "mixes_ok (running_cap p) (mc_mixes acc) \<and> length (mc_mixes acc) = length (t_mixes (pr_topo p)) \<and>
      outs_after P ({} \<union> tx_slots (pr_topo p) (set (t_order (pr_topo p)))) off n block (mc_block acc)"
    unfolding acc_def
    by (rule fold_render_mix_ok [OF n _ fade c P _ ok])
      (use len n wf_order [OF wf] in \<open>auto simp: acc0_def outs_after_refl\<close>)
  then show ?thesis
    using inv by (simp add: r wf_tx_slots [OF wf] add_trips_def proc_inv_def running_cap_def)
qed

lemma outs_after_other:
  assumes "outs_after P D off n b0 b" and "ch \<notin> D" and "length ys = n"
  shows "outs_after P D off n b0 (write_out off n ys ch b)"
proof (cases "off + n \<le> length (bk_out b ch)")
  case True
  then show ?thesis
    using assms by (auto simp: write_out_def outs_after_def splice_nth splice_length)
qed (use assms in \<open>simp add: write_out_def\<close>)

lemma hil_out_length: "length sine = n \<Longrightarrow> length fade = n \<Longrightarrow> length (hil_out msk sine fade n k) = n"
  by (simp add: hil_out_def)

lemma fold_hil_ok:
  assumes "length sine = n" and "length fade = n" and "outs_after P {..<d} off n b0 (snd s)"
  shows "outs_after P {..<d} off n b0 (snd (fold (hil_step_out d msk sine fade off n) ks s))"
  using assms(3)
proof (induction ks arbitrary: s)
  case (Cons k ks)
  have "outs_after P {..<d} off n b0 (snd (hil_step_out d msk sine fade off n k s))"
    using Cons.prems outs_after_other [of P "{..<d}" off n b0 "snd s" "d + k"] hil_out_length [OF assms(1,2)]
    by (simp add: hil_step_out_def)
  then show ?case by (simp add: Cons.IH)
qed simp

lemma render_hil_frame [simp]:
  "pr_topo (fst (render_hil off n pb)) = pr_topo (fst pb)" "pr_test (fst (render_hil off n pb)) = pr_test (fst pb)"
  "pr_time (fst (render_hil off n pb)) = pr_time (fst pb)" "pr_cmds (fst (render_hil off n pb)) = pr_cmds (fst pb)"
  by (simp_all add: render_hil_def Let_def case_prod_beta)

lemma render_hil_ok:
  assumes "proc_inv (fst pb)" and "n \<le> SEG" and "outs_after P {..<length (t_tx (pr_topo (fst pb)))} off n b0 (snd pb)"
  shows "proc_inv (fst (render_hil off n pb)) \<and>
    outs_after P {..<length (t_tx (pr_topo (fst pb)))} off n b0 (snd (render_hil off n pb))"
  using assms by (auto simp: render_hil_def Let_def case_prod_beta proc_inv_def running_cap_def intro!: fold_hil_ok)

lemma after_hil_frame [simp]:
  "pr_topo (note_faded (probe_latency off n pb)) = pr_topo (fst pb)" "pr_test (note_faded (probe_latency off n pb)) = pr_test (fst pb)"
  "pr_time (note_faded (probe_latency off n pb)) = pr_time (fst pb)" "pr_cmds (note_faded (probe_latency off n pb)) = pr_cmds (fst pb)"
  by (simp_all add: note_faded_def probe_latency_def Let_def)

lemma after_hil_ok: "proc_inv (fst pb) \<Longrightarrow> proc_inv (note_faded (probe_latency off n pb))"
  by (simp add: note_faded_def probe_latency_def Let_def proc_inv_def running_cap_def)

lemma ticks_frame [simp]:
  "pr_topo (tick_fade n p) = pr_topo p" "pr_test (tick_fade n p) = pr_test p"
  "pr_time (tick_fade n p) = pr_time p" "pr_cmds (tick_fade n p) = pr_cmds p"
  "pr_topo (tick_test lm n p) = pr_topo p" "pr_fade_buf (tick_test lm n p) = pr_fade_buf p"
  "pr_test (tick_test lm n p) = map_option (\<lambda>t. fst (test_render lm n t)) (pr_test p)"
  "pr_time (tick_test lm n p) = pr_time p" "pr_cmds (tick_test lm n p) = pr_cmds p"
  by (simp_all add: tick_fade_def tick_test_def Let_def case_prod_beta split: option.split)

lemma end_test_frame [simp]:
  "pr_topo (end_test p) = pr_topo p" "pr_time (end_test p) = pr_time p" "pr_cmds (end_test p) = pr_cmds p"
  by (simp_all add: end_test_def set_caps_def split: option.split)

lemma render_frame [simp]:
  "pr_topo (fst (render lm off n pb)) = pr_topo (fst pb)"
  "pr_test (fst (render lm off n pb)) = map_option (\<lambda>t. fst (test_render lm n t)) (pr_test (end_test (fst pb)))"
  "pr_time (fst (render lm off n pb)) = pr_time (fst pb)" "pr_cmds (fst (render lm off n pb)) = pr_cmds (fst pb)"
  by (simp_all add: render_def Let_def)

lemma render_ok:
  assumes inv: "proc_inv p" and n: "n \<le> SEG"
    and c: "cap_ok b (running_cap (end_test p))" and P: "P 0" "hil_running (end_test p) \<or> (\<forall>y. amp_ok b y \<longrightarrow> P y)"
  shows "proc_inv (fst (render lm off n (p, block))) \<and>
    outs_after P {..<length (t_tx (pr_topo p))} off n block (snd (render lm off n (p, block)))"
proof -
  define p1 where "p1 = tick_test lm n (tick_fade n (end_test p))"
  define p2 where "p2 = render_inputs lm block off n p1"
  note e = end_test_ok [OF inv]
  have p2: "proc_inv p2" using render_inputs_ok [OF tick_test_ok [OF tick_fade_ok(1) [OF e n] n] n] by (simp add: p2_def p1_def)
  have fade: "\<forall>f \<in> set (prefix_of n (pr_fade_buf p2)). amp_ok 1 f"
    using tick_fade_ok(2) [OF e n] by (simp add: p2_def p1_def)
  have t: "pr_test p2 = map_option (\<lambda>t. fst (test_render lm n t)) (pr_test (end_test p))" "pr_topo p2 = pr_topo p"
    by (simp_all add: p2_def p1_def)
  then have "running_cap p2 = running_cap (end_test p)" "hil_running p2 = hil_running (end_test p)"
    by (auto simp: running_cap_def hil_running_def test_render_mask split: option.split)
  then have "proc_inv (fst (render_mixes lm off n (p2, block))) \<and>
      outs_after P {..<length (t_tx (pr_topo p))} off n block (snd (render_mixes lm off n (p2, block)))"
    using render_mixes_ok [OF p2 n fade, of b P lm off block] c P t(2) by simp
  then have "proc_inv (fst (render_hil off n (render_mixes lm off n (p2, block)))) \<and>
      outs_after P {..<length (t_tx (pr_topo p))} off n block (snd (render_hil off n (render_mixes lm off n (p2, block))))"
    using render_hil_ok [of "render_mixes lm off n (p2, block)" n P off block] n t(2) by simp
  then show ?thesis
    using after_hil_ok by (simp add: render_def Let_def p2_def p1_def)
qed

subsection \<open>Commands\<close>

lemma sample_rate_f64: "f64_of_nat SAMPLE_RATE = Num 96000"
proof -
  have "f64_of False 96000 = Num 96000" by code_simp
  then show ?thesis by (simp add: f64_of_nat_def SAMPLE_RATE_def)
qed

lemma fade_ms_samples: "samples FADE_MS (f64_of_nat SAMPLE_RATE) = 4800"
proof -
  have "fround (FADE_MS * Num 96000 / Num 1000) = Num 4800" "chop 4800 = 4800" by code_simp+
  then show ?thesis by (simp add: samples_def sample_rate_f64 as_unsigned_def)
qed

lemma lmod_memD: "y \<in> set (lmod xs i f) \<Longrightarrow> y \<in> set xs \<or> (\<exists>x \<in> set xs. y = f x)"
  by (auto simp: lmod_def split: if_splits dest!: set_update_subset_insert [THEN subsetD])

lemma upd_mix_rt_ok:
  assumes "proc_inv p" and "\<And>x. mix_ok (running_cap p) x \<Longrightarrow> mix_ok (running_cap p) (f x)"
  shows "proc_inv (upd_mix_rt m f p)"
  using assms by (auto simp: proc_inv_def upd_mix_rt_def running_cap_def mixes_ok_def dest!: lmod_memD)

lemma upd_input_rt_ok:
  assumes "proc_inv p" and "\<And>x. length (ir_p (f x)) = length (ir_p x)"
  shows "proc_inv (upd_input_rt i f p)"
  using assms by (auto simp: proc_inv_def upd_input_rt_def running_cap_def inputs_ok_def dest!: lmod_memD)

lemma apply_parts_ok:
  "mix_ok c x \<Longrightarrow> mix_ok c (apply_out lm v mt x)" "mix_ok c x \<Longrightarrow> mix_ok c (apply_mix_eq lm eq x)"
  "mix_ok c x \<Longrightarrow> mix_ok c (apply_limiter lm en l x)" "length (ir_p (apply_input lm sr ip i)) = length (ir_p i)"
  by (auto simp: mix_ok_def apply_out_def apply_mix_eq_def apply_limiter_def apply_input_def Let_def split: option.splits)

lemma restart_fade_ok: "proc_inv p \<Longrightarrow> proc_inv (restart_fade p)"
  by (simp add: restart_fade_def proc_inv_def running_cap_def fade_rise)

lemma rt_fade_out_ok: "proc_inv p \<Longrightarrow> proc_inv (rt_fade_out p)"
  using fade_set [of "rp_value (pr_fade p)" 0 "samples FADE_MS (pr_sr p)"]
  by (auto simp: rt_fade_out_def proc_inv_def running_cap_def fade_ms_samples fade_ok_def [of "pr_fade p"])

lemma rt_start_test_ok: "proc_inv p \<Longrightarrow> proc_inv (rt_start_test i hz amp ttl msk listen p)"
  by (auto simp: rt_start_test_def Let_def proc_inv_def running_cap_def set_caps_def intro: mixes_ok_caps)

lemma rt_stop_test_ok: "proc_inv p \<Longrightarrow> proc_inv (rt_stop_test p)"
  by (simp add: rt_stop_test_def proc_inv_def running_cap_def)

lemma rt_listen_ok: "proc_inv p \<Longrightarrow> proc_inv (rt_listen s mo p)"
  by (simp add: rt_listen_def Let_def proc_inv_def running_cap_def)

lemma rt_apply_frame:
  "rt_apply lm op p = Some p' \<Longrightarrow> pr_topo p' = pr_topo p \<and> pr_time p' = pr_time p \<and> pr_cmds p' = pr_cmds p"
  by (cases op)
    (auto simp: upd_input_rt_def upd_mix_rt_def rt_listen_def Let_def rt_start_test_def set_caps_def rt_stop_test_def
       rt_fade_out_def restart_fade_def split: if_splits)

lemma rt_apply_ok: "rt_apply lm op p = Some p' \<Longrightarrow> proc_inv p \<Longrightarrow> proc_inv p'"
proof (induction op)
  case (RArm)
  moreover have "proc_inv p \<Longrightarrow> proc_inv (p\<lparr>pr_armed := True\<rparr>)" by (simp add: proc_inv_def running_cap_def)
  ultimately show ?case using restart_fade_ok [of "p\<lparr>pr_armed := True\<rparr>"] by (auto split: if_splits)
qed (auto intro!: upd_input_rt_ok upd_mix_rt_ok rt_listen_ok rt_start_test_ok rt_stop_test_ok rt_fade_out_ok
       apply_parts_ok simp: mix_ok_def)

lemma apply_all_ok:
  "apply_all lm ops p = Some p' \<Longrightarrow> proc_inv p \<Longrightarrow>
     proc_inv p' \<and> pr_topo p' = pr_topo p \<and> pr_time p' = pr_time p \<and> pr_cmds p' = pr_cmds p"
proof (induction ops arbitrary: p)
  case (Cons op ops)
  then obtain q where q: "rt_apply lm op p = Some q" "apply_all lm ops q = Some p'" by (auto simp: bind_eq_Some_conv)
  from Cons.IH [OF q(2)] rt_apply_ok [OF q(1) Cons.prems(2)] rt_apply_frame [OF q(1)] show ?case by simp
qed simp

lemma apply_due_ok:
  "apply_due lm budget p = Some (p', b', l) \<Longrightarrow> proc_inv p \<Longrightarrow>
     proc_inv p' \<and> pr_topo p' = pr_topo p \<and> pr_time p' = pr_time p"
proof (induction lm budget p rule: apply_due.induct)
  case (1 lm budget p)
  show ?case
  proof (cases "pr_cmds p")
    case Nil
    then show ?thesis using "1.prems" by (simp add: apply_due.simps)
  next
    case (Cons c cs)
    show ?thesis
    proof (cases "pr_time p < rc_at c \<or> budget < group_len c")
      case True
      then show ?thesis using "1.prems" Cons by (auto simp: apply_due.simps split: if_splits)
    next
      case False
      let ?q = "p\<lparr>pr_cmds := drop (group_len c) (pr_cmds p)\<rparr>"
      obtain q where q: "apply_all lm (map rc_op (take (group_len c) (pr_cmds p))) ?q = Some q"
        "apply_due lm (budget - group_len c) q = Some (p', b', l)"
        using "1.prems"(1) False Cons by (auto simp: apply_due.simps [of lm budget p] bind_eq_Some_conv)
      have "proc_inv ?q" using "1.prems"(2) by (simp add: proc_inv_def running_cap_def)
      with apply_all_ok [OF q(1)] have "proc_inv q" "pr_topo q = pr_topo p" "pr_time q = pr_time p" by simp_all
      with "1.IH" [OF Cons _ _ q] False show ?thesis by auto
    qed
  qed
qed

subsection \<open>A block as segments\<close>

lemma outs_after_trans:
  assumes "outs_after P D off n a b" and "outs_after P D (off + n) k b c"
  shows "outs_after P D off (n + k) a c"
proof -
  have len: "length (bk_out b ch) = length (bk_out a ch)" "length (bk_out c ch) = length (bk_out a ch)" for ch
    using assms by (simp_all add: outs_after_def)
  have old: "bk_out c ch ! i = bk_out b ch ! i" if "i < length (bk_out a ch)" "i < off + n \<or> off + n + k \<le> i" for ch i
    using assms(2) that len(1) [of ch] by (auto simp: outs_after_def)
  have "P (bk_out c ch ! i)" if "ch \<in> D" "off + (n + k) \<le> length (bk_out a ch)" "off \<le> i" "i < off + (n + k)" for ch i
  proof (cases "i < off + n")
    case True
    then have "P (bk_out b ch ! i)" using assms(1) that by (simp add: outs_after_def)
    then show ?thesis using old [of i ch] True that by simp
  next
    case False
    then show ?thesis using assms(2) that len(1) [of ch] by (simp add: outs_after_def add.assoc)
  qed
  moreover have "bk_out c ch ! i = bk_out a ch ! i"
    if "i < length (bk_out a ch)" "\<not> (off \<le> i \<and> i < off + (n + k))" for ch i
  proof -
    have "bk_out b ch ! i = bk_out a ch ! i" using assms(1) that by (auto simp: outs_after_def)
    then show ?thesis using old [of i ch] that by auto
  qed
  ultimately show ?thesis
    using assms(1,2) len unfolding outs_after_def by simp
qed

lemma seg_len_le: "seg_len k b p \<le> k" "seg_len k b p \<le> SEG"
  by (auto simp: seg_len_def Let_def cut_at_def split: option.split)

lemma segments_step:
  assumes "segments lm frames dn budget left pb = Some res" and "dn < frames"
  shows "\<exists>p b f n q block. apply_due lm budget (fst pb) = Some (p, b, f) \<and> n = seg_len (frames - dn) b p \<and>
    0 < n \<and> n \<le> frames - dn \<and> n \<le> SEG \<and> render lm dn n (p, snd pb) = (q, block) \<and>
    segments lm frames (dn + n) b (left \<or> f \<or> waits (frames - dn) b p)
      (q\<lparr>pr_time := pr_time q + of_nat n\<rparr>, block) = Some res"
proof -
  obtain p b f where due: "apply_due lm budget (fst pb) = Some (p, b, f)"
    using assms by (auto simp: segments.simps [of lm frames dn] bind_eq_Some_conv)
  let ?n = "seg_len (frames - dn) b p"
  obtain q block where r: "render lm dn ?n (p, snd pb) = (q, block)" by fastforce
  have "0 < ?n" using assms(2) seg_len_pos by simp
  with assms due r seg_len_le [of "frames - dn" b p] show ?thesis
    by (simp add: segments.simps [of lm frames dn] Let_def)
qed

text \<open>
  What holds of every segment holds of the block: a predicate on processors that the due commands
  keep and that a segment keeps while it counts the frames left, and a predicate on the samples a
  segment writes to the channels \<open>D\<close>.
\<close>

locale block_stage =
  fixes lm :: libm and keeps :: "nat \<Rightarrow> processor \<Rightarrow> bool" and P :: "f64 \<Rightarrow> bool" and D :: "nat set"
  assumes due_keeps: "keeps k p \<Longrightarrow> apply_due lm budget p = Some (p', b', l) \<Longrightarrow> keeps k p'"
    and segment_keeps: "keeps k p \<Longrightarrow> 0 < n \<Longrightarrow> n \<le> k \<Longrightarrow> n \<le> SEG \<Longrightarrow>
      keeps (k - n) (fst (render lm off n (p, block))\<lparr>pr_time := pr_time (fst (render lm off n (p, block))) + of_nat n\<rparr>)"
    and segment_writes: "keeps k p \<Longrightarrow> 0 < n \<Longrightarrow> n \<le> k \<Longrightarrow> n \<le> SEG \<Longrightarrow>
      outs_after P D off n block (snd (render lm off n (p, block)))"
begin

lemma segments_write:
  assumes "segments lm frames dn budget left pb = Some (p', block', l)" and "keeps (frames - dn) (fst pb)" and "dn \<le> frames"
  shows "keeps 0 p' \<and> outs_after P D dn (frames - dn) (snd pb) block'"
  using assms
proof (induction "frames - dn" arbitrary: dn budget left pb rule: less_induct)
  case less
  show ?case
  proof (cases "dn = frames")
    case True
    then show ?thesis using less.prems by (auto simp: segments.simps outs_after_def)
  next
    case False
    then obtain p b f n q block where due: "apply_due lm budget (fst pb) = Some (p, b, f)"
      and n: "0 < n" "n \<le> frames - dn" "n \<le> SEG"
      and r: "render lm dn n (p, snd pb) = (q, block)"
      and rest: "segments lm frames (dn + n) b (left \<or> f \<or> waits (frames - dn) b p)
        (q\<lparr>pr_time := pr_time q + of_nat n\<rparr>, block) = Some (p', block', l)"
      using segments_step [OF less.prems(1)] less.prems(3) by (metis le_neq_implies_less)
    have k: "keeps (frames - dn) p" by (rule due_keeps [OF less.prems(2) due])
    note seg = segment_keeps [OF k n, of dn "snd pb"] segment_writes [OF k n, of dn "snd pb"]
    have "keeps 0 p' \<and> outs_after P D (dn + n) (frames - (dn + n)) block block'"
      using less.hyps [OF _ rest] seg(1) n r by simp
    then show ?thesis using seg(2) outs_after_trans [of P D dn n "snd pb" block "frames - (dn + n)" block'] n r by simp
  qed
qed

end

subsection \<open>Every block within full scale\<close>

lemma proc_inv_time: "proc_inv p \<Longrightarrow> proc_inv (p\<lparr>pr_time := t\<rparr>)"
  by (simp add: proc_inv_def running_cap_def)

interpretation safe: block_stage lm "\<lambda>_ p. proc_inv p \<and> pr_topo p = topo" "amp_ok 1" "{..<length (t_tx topo)}"
  for lm topo
proof unfold_locales
  fix k p budget p' b' l
  assume "proc_inv p \<and> pr_topo p = topo" and "apply_due lm budget p = Some (p', b', l)"
  then show "proc_inv p' \<and> pr_topo p' = topo" using apply_due_ok by blast
next
  fix k n off :: nat and p block
  assume p: "proc_inv p \<and> pr_topo p = topo" and n: "n \<le> SEG"
  have "amp_ok 1 0" by (simp add: amp_ok_def)
  with p n running_cap_ok
  have r: "proc_inv (fst (render lm off n (p, block))) \<and>
      outs_after (amp_ok 1) {..<length (t_tx (pr_topo p))} off n block (snd (render lm off n (p, block)))"
    by (intro render_ok) auto
  from r p show "proc_inv (fst (render lm off n (p, block))\<lparr>pr_time := pr_time (fst (render lm off n (p, block))) + of_nat n\<rparr>) \<and>
      pr_topo (fst (render lm off n (p, block))\<lparr>pr_time := pr_time (fst (render lm off n (p, block))) + of_nat n\<rparr>) = topo"
    by (simp add: proc_inv_time)
  from r p show "outs_after (amp_ok 1) {..<length (t_tx topo)} off n block (snd (render lm off n (p, block)))" by simp
qed

lemma publish_meters_ok: "proc_inv p \<Longrightarrow> proc_inv (publish_meters lm p)"
  by (auto simp: publish_meters_def Let_def proc_inv_def running_cap_def inputs_ok_def mixes_ok_def mix_ok_def
      split: option.splits)

lemma publish_meters_frame [simp]:
  "pr_topo (publish_meters lm p) = pr_topo p" "pr_time (publish_meters lm p) = pr_time p"
  "pr_cmds (publish_meters lm p) = pr_cmds p"
  by (simp_all add: publish_meters_def Let_def)

lemma process_cases:
  assumes "process lm (p, block) = Some (p', block')"
  shows "\<exists>q l p1 since. segments lm (bk_frames block) 0 MAX_CMDS_PER_BLOCK False (p, block) = Some (q, block', l) \<and>
     p1 = (if l then q\<lparr>pr_status := (pr_status q)\<lparr>st_deferred := st_deferred (pr_status q) + 1\<rparr>\<rparr> else q) \<and>
     since = pr_since_meter p1 + of_nat (bk_frames block) \<and>
     p' = (if METER_PERIOD \<le> since then publish_meters lm (p1\<lparr>pr_since_meter := since mod METER_PERIOD\<rparr>)
           else p1\<lparr>pr_since_meter := since\<rparr>)"
proof -
  obtain q l where seg: "segments lm (bk_frames block) 0 MAX_CMDS_PER_BLOCK False (p, block) = Some (q, block', l)"
    using assms unfolding process_def bind_eq_Some_conv Let_def by auto
  define p1 where "p1 = (if l then q\<lparr>pr_status := (pr_status q)\<lparr>st_deferred := st_deferred (pr_status q) + 1\<rparr>\<rparr> else q)"
  from assms have "p' = (if METER_PERIOD \<le> pr_since_meter p1 + of_nat (bk_frames block)
      then publish_meters lm (p1\<lparr>pr_since_meter := (pr_since_meter p1 + of_nat (bk_frames block)) mod METER_PERIOD\<rparr>)
      else p1\<lparr>pr_since_meter := pr_since_meter p1 + of_nat (bk_frames block)\<rparr>)"
    by (simp only: process_def seg snd_conv bind.bind_lunit case_prod_conv Let_def p1_def option.inject prod.inject)
  with seg p1_def show ?thesis by blast
qed

lemma process_ok:
  assumes "process lm (p, block) = Some (p', block')" and "proc_inv p"
  shows "proc_inv p' \<and> pr_topo p' = pr_topo p \<and>
    outs_after (amp_ok 1) {..<length (t_tx (pr_topo p))} 0 (bk_frames block) block block'"
proof -
  obtain q l p1 since where seg: "segments lm (bk_frames block) 0 MAX_CMDS_PER_BLOCK False (p, block) = Some (q, block', l)"
    and p1: "p1 = (if l then q\<lparr>pr_status := (pr_status q)\<lparr>st_deferred := st_deferred (pr_status q) + 1\<rparr>\<rparr> else q)"
    and p': "p' = (if METER_PERIOD \<le> since then publish_meters lm (p1\<lparr>pr_since_meter := since mod METER_PERIOD\<rparr>)
           else p1\<lparr>pr_since_meter := since\<rparr>)"
    using process_cases [OF assms(1)] by blast
  note w = safe.segments_write [OF seg, of "pr_topo p"]
  then have "proc_inv p1" "pr_topo p1 = pr_topo p" using assms(2) by (simp_all add: p1 proc_inv_def running_cap_def)
  then have "proc_inv (p1\<lparr>pr_since_meter := s\<rparr>)" for s by (simp add: proc_inv_def running_cap_def)
  then show ?thesis
    using w assms(2) publish_meters_ok \<open>pr_topo p1 = pr_topo p\<close> by (simp add: p')
qed

subsection \<open>The running processor\<close>

text \<open>
  The processor between construction and exit: the control thread pushes command groups and
  talkback, drains the taps, the driver calls \<open>process\<close> and reports discontinuities, in any
  order.
\<close>

inductive runs :: "libm \<Rightarrow> processor \<Rightarrow> processor \<Rightarrow> bool" for lm p0 where
  started: "runs lm p0 p0"
| pushed: "runs lm p0 p \<Longrightarrow> push_group (CMD_RING - length (pr_cmds p)) at_time ops = Some cs \<Longrightarrow>
    runs lm p0 (p\<lparr>pr_cmds := pr_cmds p @ cs\<rparr>)"
| talked: "runs lm p0 p \<Longrightarrow> runs lm p0 (p\<lparr>pr_talk := pr_talk p @ xs\<rparr>)"
| drained: "runs lm p0 p \<Longrightarrow> runs lm p0 (p\<lparr>pr_taps := taps, pr_probes := probes\<rparr>)"
| played: "runs lm p0 p \<Longrightarrow> process lm (p, block) = Some (p', block') \<Longrightarrow> runs lm p0 p'"
| gap: "runs lm p0 p \<Longrightarrow> runs lm p0 (discontinuity p)"

lemma runs_ok: "runs lm p0 p \<Longrightarrow> proc_inv p0 \<Longrightarrow> proc_inv p \<and> pr_topo p = pr_topo p0"
proof (induction rule: runs.induct)
  case (played p block p' block')
  then show ?case using process_ok by auto
next
  case (gap p)
  moreover have "pr_topo (discontinuity p) = pr_topo p" by (simp add: discontinuity_def restart_fade_def)
  ultimately show ?case using restart_fade_ok by (simp add: discontinuity_def)
qed (auto simp: proc_inv_def running_cap_def)

subsection \<open>Construction\<close>

text \<open>
  What the platform's mathematics library promises and the safety stage relies on: \<open>pow(x, 0)\<close>
  is 1, the exponential of a negative number lies between 0 and 1, the square root of 1 is 1.
\<close>

definition libm_laws :: "libm \<Rightarrow> bool" where
  "libm_laws lm =
     ((\<forall>x. powf lm x 0 = 1) \<and> fsqrt lm 1 = 1 \<and>
      (\<forall>x. is_finite x \<and> val x < 0 \<longrightarrow> is_finite (fexp lm x) \<and> 0 \<le> val (fexp lm x) \<and> val (fexp lm x) \<le> 1))"

lemma safety_exponent: "(0 :: f64) / Num 20 = 0" "(1 :: f64) / 1 = 1" "Num 100 * lit (1 / 100) = 1"
  "is_finite (Num (- 3) / (Num 96000 * fmax (Num 50 / Num 1000) (lit (5 / 100))))"
  "val (Num (- 3) / (Num 96000 * fmax (Num 50 / Num 1000) (lit (5 / 100)))) < 0"
  by code_simp+

lemma safety_new_ok: "libm_laws lm \<Longrightarrow> safety_ok (safety lm (f64_of_nat SAMPLE_RATE))"
  using safety_exponent
  by (simp add: libm_laws_def safety_def mga_new_def set_sliders_def Let_def sample_rate_f64 safety_ok_def
      chan_ok_def channel_new_def bnd_def)

lemma mix_rt_new_ok: "libm_laws lm \<Longrightarrow> mix_ok 1 (mix_rt_new lm (f64_of_nat SAMPLE_RATE) shadowed counter r)"
  by (simp add: mix_rt_new_def Let_def mix_ok_def stereo_new_def shadow_rt_new_def safety_new_ok)

lemma hold_fade_ok: "fade_ok (ramp_new 0 1)"
  by (intro fade_rest) simp_all

lemma proc_new_ok:
  assumes "topo_wf topo" and "libm_laws lm" and "samples (op_fade_in_ms opts) (f64_of_nat SAMPLE_RATE) \<le> 2 ^ 24"
  shows "proc_inv (proc_new lm topo state counters opts hil hil_rx)"
proof -
  let ?r = "fst (core_reconcile topo state)"
  have len: "length (rs_mixes ?r) = length (t_mixes topo)" by (simp add: core_reconcile_simps)
  have "mix_ok 1 x" if "x \<in> set (pr_mixes (proc_new lm topo state counters opts hil hil_rx))" for x
    using that mix_rt_new_ok [OF assms(2)] by (auto simp: proc_new_def Let_def)
  moreover have "length (ir_p i) = SEG" if "i \<in> set (pr_inputs (proc_new lm topo state counters opts hil hil_rx))" for i
    using that by (auto simp: proc_new_def Let_def input_rt_new_def stereo_new_def)
  ultimately show ?thesis
    using assms len hold_fade_ok
    by (simp add: proc_inv_def mixes_ok_def inputs_ok_def)
      (simp add: proc_new_def Let_def running_cap_def fade_rise)
qed

end
