(* ===== verification/RtView.thy ===== *)
theory RtView
  imports CoreProps
begin

text \<open>
  The contract between the control core and the RT thread: \<open>rt_view\<close> is what the RT thread must
  hold for a core's state (every strip's linear values, with the effective mutes of the solos),
  \<open>view_op\<close> the change one RT command asks for. The commands of a request take the view of the
  state before to the view of the state after, and \<open>full_sync\<close> establishes it from any other.
\<close>

record mix_view =
  mv_volume :: f64
  mv_muted :: bool
  mv_eq :: eq_params
  mv_limiter :: "bool \<times> f64"
  mv_levels :: "(f64 \<times> f64 \<times> bool) list"
  mv_groups :: "(f64 \<times> bool \<times> eq_params) list"

record rt_view =
  rv_inputs :: "(input_params \<times> eq_params) list"
  rv_mixes :: "mix_view list"
  rv_listen :: "nat option \<times> nat option"

definition on_input :: "u16 \<Rightarrow> (input_params \<times> eq_params \<Rightarrow> input_params \<times> eq_params) \<Rightarrow> rt_view \<Rightarrow> rt_view" where
  "on_input i f v = v\<lparr>rv_inputs := lmod (rv_inputs v) (unat i) f\<rparr>"

definition on_mix :: "u16 \<Rightarrow> (mix_view \<Rightarrow> mix_view) \<Rightarrow> rt_view \<Rightarrow> rt_view" where
  "on_mix m f v = v\<lparr>rv_mixes := lmod (rv_mixes v) (unat m) f\<rparr>"

fun view_op :: "rt_op \<Rightarrow> rt_view \<Rightarrow> rt_view" where
  "view_op (RInput i p) v = on_input i (\<lambda>x. (p, snd x)) v"
| "view_op (RInputEq i e) v = on_input i (\<lambda>x. (fst x, e)) v"
| "view_op (RMixOut m vol mu) v = on_mix m (\<lambda>x. x\<lparr>mv_volume := vol, mv_muted := mu\<rparr>) v"
| "view_op (RMixEq m e) v = on_mix m (\<lambda>x. x\<lparr>mv_eq := e\<rparr>) v"
| "view_op (RLimiter m en db) v = on_mix m (\<lambda>x. x\<lparr>mv_limiter := (en, db)\<rparr>) v"
| "view_op (RLevel m k g p mu) v =
     on_mix m (\<lambda>x. x\<lparr>mv_levels := lmod (mv_levels x) (unat k) (\<lambda>_. (g, p, mu))\<rparr>) v"
| "view_op (RGroup m g gain mu) v =
     on_mix m (\<lambda>x. x\<lparr>mv_groups := lmod (mv_groups x) (unat g) (\<lambda>s. (gain, mu, snd (snd s)))\<rparr>) v"
| "view_op (RGroupEq m g e) v =
     on_mix m (\<lambda>x. x\<lparr>mv_groups := lmod (mv_groups x) (unat g) (\<lambda>s. (fst s, fst (snd s), e))\<rparr>) v"
| "view_op (RListen s mo) v =
     (if s = 0 \<or> s = 1 then v\<lparr>rv_listen := listen_put (unat s) (map_option unat mo) (rv_listen v)\<rparr> else v)"
| "view_op _ v = v"

definition level_view :: "libm \<Rightarrow> core \<Rightarrow> nat \<Rightarrow> nat \<Rightarrow> f64 \<times> f64 \<times> bool" where
  "level_view lm c m k =
     (let l = core_level c m k in (db_to_lin lm (lv_gain_db l), lv_pan l, lv_muted l \<or> solo_out c m k))"

definition group_view :: "libm \<Rightarrow> mix_group \<Rightarrow> f64 \<times> bool \<times> eq_params" where
  "group_view lm s = (db_to_lin lm (mg_gain_db s), mg_muted s, eq_params lm (mg_eq s))"

definition mix_view_of :: "libm \<Rightarrow> core \<Rightarrow> nat \<Rightarrow> mix_view" where
  "mix_view_of lm c m =
     (let r = rs_mixes (co_s c) ! m
      in \<lparr>mv_volume = db_to_lin lm (mo_volume_db (mr_out r)), mv_muted = mo_muted (mr_out r),
          mv_eq = eq_params lm (mo_eq (mr_out r)),
          mv_limiter = (lim_enabled (mo_limiter (mr_out r)), lim_limit_db (mo_limiter (mr_out r))),
          mv_levels = map (level_view lm c m) [0..<levels (co_topo c) m],
          mv_groups = map (group_view lm) (mr_groups r)\<rparr>)"

definition input_view :: "libm \<Rightarrow> input_state \<Rightarrow> input_params \<times> eq_params" where
  "input_view lm s = (input_params lm s, eq_params lm (in_eq s))"

definition view_of :: "libm \<Rightarrow> core \<Rightarrow> rt_view" where
  "view_of lm c =
     \<lparr>rv_inputs = map (input_view lm) (rs_inputs (co_s c)),
      rv_mixes = map (mix_view_of lm c) [0..<length (rs_mixes (co_s c))],
      rv_listen = co_listen c\<rparr>"

text \<open>Every index of the topology fits the commands' \<open>u16\<close>.\<close>

definition fits16 :: "topology \<Rightarrow> bool" where
  "fits16 t =
     (length (t_inputs t) < 2 ^ 16 \<and> length (t_groups t) < 2 ^ 16 \<and> length (t_mixes t) < 2 ^ 16 \<and>
      (\<forall>m < length (t_mixes t). levels t m < 2 ^ 16))"

definition sized :: "core \<Rightarrow> bool" where
  "sized c = (core_ok c \<and> fits16 (co_topo c))"

lemma sized_lens:
  assumes "sized c"
  shows "length (rs_inputs (co_s c)) = length (t_inputs (co_topo c))" "length (t_inputs (co_topo c)) < 2 ^ 16"
    "length (rs_mixes (co_s c)) = length (t_mixes (co_topo c))" "length (t_mixes (co_topo c)) < 2 ^ 16"
    "length (t_groups (co_topo c)) < 2 ^ 16"
    "m < length (t_mixes (co_topo c)) \<Longrightarrow> levels (co_topo c) m < 2 ^ 16"
    "m < length (t_mixes (co_topo c)) \<Longrightarrow> length (mr_levels (rs_mixes (co_s c) ! m)) = levels (co_topo c) m"
    "m < length (t_mixes (co_topo c)) \<Longrightarrow> length (mr_groups (rs_mixes (co_s c) ! m)) = length (t_groups (co_topo c))"
  using assms by (auto simp: sized_def fits16_def core_ok_def state_ok_def rec_ok_def)

subsection \<open>Updates of the view\<close>

lemma lmod_at [simp]: "i < length xs \<Longrightarrow> lmod xs i f = xs[i := f (xs ! i)]"
  by (simp add: lmod_def)

lemma view_upd_mix:
  assumes "m < length (rs_mixes (co_s c))"
  shows "view_of lm (upd_mix m f c) =
    (view_of lm c)\<lparr>rv_mixes := (rv_mixes (view_of lm c))[m := mix_view_of lm (upd_mix m f c) m]\<rparr>"
proof -
  have "mix_view_of lm (upd_mix m f c) j = mix_view_of lm c j" if "j \<noteq> m" "j < length (rs_mixes (co_s c))" for j
    using that assms
    by (simp add: mix_view_of_def upd_mix_def Let_def level_view_def core_level_def solo_out_def lget_def)
  then show ?thesis
    using assms by (auto simp: view_of_def upd_mix_def nth_list_update intro: nth_equalityI)
qed

lemma view_nth: "m < length (rs_mixes (co_s c)) \<Longrightarrow> rv_mixes (view_of lm c) ! m = mix_view_of lm c m"
  by (simp add: view_of_def)

lemma view_len: "length (rv_mixes (view_of lm c)) = length (rs_mixes (co_s c))"
  by (simp add: view_of_def)

lemma on_mix_view:
  assumes "sized c" and "m < length (t_mixes (co_topo c))"
  shows "on_mix (ix m) f ((view_of lm c)\<lparr>rv_mixes := (rv_mixes (view_of lm c))[m := x]\<rparr>) =
    (view_of lm c)\<lparr>rv_mixes := (rv_mixes (view_of lm c))[m := f x]\<rparr>"
  using assms sized_lens [OF assms(1)] by (simp add: on_mix_def unat_ix view_len)

lemma view_self:
  "m < length (rs_mixes (co_s c)) \<Longrightarrow>
     (view_of lm c)\<lparr>rv_mixes := (rv_mixes (view_of lm c))[m := mix_view_of lm c m]\<rparr> = view_of lm c"
  by (simp add: view_nth [symmetric] list_update_id)

lemma eq_eq_refl: "eq_ok e \<Longrightarrow> eq_eq e e"
  by (auto simp: eq_eq_def eq_ok_def band_ok_def in_range_finite list_all_length list_all2_conv_all_nth intro!: band_eq_refl)

lemma input_eq_refl: "input_ok s \<Longrightarrow> input_eq s s"
  by (auto simp: input_eq_def input_ok_def eq_eq_refl in_range_finite)

subsection \<open>Each setter\<close>

lemma view_set_input:
  assumes "sized c" and "input_ok new" and old: "old = or_default input_default (lget (rs_inputs (co_s c)) i)"
    and "in_eq new = in_eq old \<or> (\<exists>e. new = old\<lparr>in_eq := e\<rparr>)"
  shows "fold view_op (pa_rt (snd (set_input lm i new c))) (view_of lm c) = view_of lm (fst (set_input lm i new c))"
proof (cases "i < length (t_inputs (co_topo c)) \<and> \<not> input_eq old new")
  case True
  note len = sized_lens [OF assms(1)]
  have i: "unat (ix i) = i" "i < length (rs_inputs (co_s c))" "old = rs_inputs (co_s c) ! i"
    using True len old by (simp_all add: unat_ix lget_def)
  have oldok: "input_ok old" using assms(1) i(2,3) by (simp add: sized_def core_ok_def state_ok_def list_all_length)
  have upd: "view_of lm (fst (set_input lm i new c)) =
      (view_of lm c)\<lparr>rv_inputs := (rv_inputs (view_of lm c))[i := input_view lm new]\<rparr>"
    using True i len by (auto simp: set_input_def lget_def view_of_def map_update mix_view_of_def level_view_def
        core_level_def solo_out_def Let_def)
  from assms(4) show ?thesis
  proof
    assume same: "in_eq new = in_eq old"
    then have "eq_eq (in_eq old) (in_eq new)" "\<not> input_eq (old\<lparr>in_eq := in_eq new\<rparr>) new"
      using True oldok by (auto simp: eq_eq_refl input_ok_def)
    then have "pa_rt (snd (set_input lm i new c)) = [RInput (ix i) (input_params lm new)]"
      using True i len by (simp add: set_input_def lget_def partial_changed_def)
    with upd i same show ?thesis by (simp add: on_input_def view_of_def input_view_def)
  next
    assume "\<exists>e. new = old\<lparr>in_eq := e\<rparr>"
    then obtain e where e: "new = old\<lparr>in_eq := e\<rparr>" ..
    have "input_eq (old\<lparr>in_eq := in_eq new\<rparr>) new" "input_params lm new = input_params lm old"
      using input_eq_refl [OF assms(2)] by (simp_all add: e input_params_def)
    moreover have "\<not> eq_eq (in_eq old) (in_eq new)"
      using True input_eq_refl [OF oldok] by (auto simp: e input_eq_def)
    ultimately have "pa_rt (snd (set_input lm i new c)) = [RInputEq (ix i) (eq_params lm (in_eq new))]" "input_params lm new = input_params lm old"
      using True i len by (simp_all add: set_input_def lget_def partial_changed_def)
    with upd i show ?thesis by (simp add: on_input_def view_of_def input_view_def)
  qed
next
  case False
  then have "set_input lm i new c = (c, partial_default)"
    using sized_lens [OF assms(1)] old by (auto simp: set_input_def lget_def)
  then show ?thesis by (simp add: partial_default_def)
qed

lemma set_out_none: "out_eq (core_out c m) new \<or> \<not> m < length (t_mixes (co_topo c)) \<Longrightarrow> sized c \<Longrightarrow> set_out lm m new c = (c, partial_default)"
  using sized_lens [of c] by (auto simp: set_out_def lget_def core_out_def Let_def)

text \<open>What the output's commands do to a mix's view, whatever it held before.\<close>

definition out_part :: "libm \<Rightarrow> mix_out \<Rightarrow> mix_view \<Rightarrow> mix_view" where
  "out_part lm o' x = x\<lparr>mv_volume := db_to_lin lm (mo_volume_db o'), mv_muted := mo_muted o',
     mv_eq := eq_params lm (mo_eq o'), mv_limiter := (lim_enabled (mo_limiter o'), lim_limit_db (mo_limiter o'))\<rparr>"

lemma out_part_updates:
  "out_part lm (o'\<lparr>mo_volume_db := v, mo_muted := mu\<rparr>) x =
     (out_part lm o' x)\<lparr>mv_volume := db_to_lin lm v, mv_muted := mu\<rparr>"
  "out_part lm (o'\<lparr>mo_eq := e\<rparr>) x = (out_part lm o' x)\<lparr>mv_eq := eq_params lm e\<rparr>"
  "out_part lm (o'\<lparr>mo_limiter := l\<rparr>) x = (out_part lm o' x)\<lparr>mv_limiter := (lim_enabled l, lim_limit_db l)\<rparr>"
  by (cases x; simp add: out_part_def)+

lemma mix_view_out:
  "m < length (rs_mixes (co_s c)) \<Longrightarrow>
     mix_view_of lm (upd_mix m (\<lambda>r. r\<lparr>mr_out := new\<rparr>) c) m = out_part lm new (mix_view_of lm c m)"
  by (simp add: mix_view_of_def upd_mix_def Let_def level_view_def core_level_def solo_out_def out_part_def lget_def)

lemma view_set_out:
  assumes "sized c" and old: "old = core_out c m"
    and one: "(\<exists>v mu. new = old\<lparr>mo_volume_db := v, mo_muted := mu\<rparr>) \<or> (\<exists>e. new = old\<lparr>mo_eq := e\<rparr>) \<or> (\<exists>l. new = old\<lparr>mo_limiter := l\<rparr>)"
  shows "fold view_op (pa_rt (snd (set_out lm m new c))) (view_of lm c) = view_of lm (fst (set_out lm m new c))"
proof (cases "out_eq old new \<or> \<not> m < length (t_mixes (co_topo c))")
  case True
  then show ?thesis using set_out_none assms(1) old by (simp add: partial_default_def)
next
  case False
  note len = sized_lens [OF assms(1)]
  then have m: "m < length (rs_mixes (co_s c))" "m < length (t_mixes (co_topo c))" using False by auto
  have o': "old = mr_out (rs_mixes (co_s c) ! m)" using m old by (simp add: core_out_def lget_def)
  have ook: "out_ok old" using core_out_ok assms(1) old by (simp add: sized_def)
  then have refl: "eq_eq (mo_eq old) (mo_eq old)" "limiter_eq (mo_limiter old) (mo_limiter old)" "feq (mo_volume_db old) (mo_volume_db old)"
    by (auto simp: out_ok_def eq_eq_refl limiter_eq_def in_range_finite)
  let ?ops = "(if feq (mo_volume_db old) (mo_volume_db new) \<and> mo_muted old = mo_muted new then [] else [out_op lm m new]) @
     (if eq_eq (mo_eq old) (mo_eq new) then [] else [RMixEq (ix m) (eq_params lm (mo_eq new))]) @
     (if limiter_eq (mo_limiter old) (mo_limiter new) then [] else [limiter_op m new])"
  have so: "fst (set_out lm m new c) = upd_mix m (\<lambda>r. r\<lparr>mr_out := new\<rparr>) c" "pa_rt (snd (set_out lm m new c)) = ?ops"
    using False m o' by (simp_all add: set_out_def lget_def Let_def partial_changed_def)
  have "out_part lm old (mix_view_of lm c m) = mix_view_of lm c m"
    by (simp add: out_part_def o' mix_view_of_def Let_def)
  moreover have "fold view_op ?ops ((view_of lm c)\<lparr>rv_mixes := (rv_mixes (view_of lm c))[m := out_part lm old (mix_view_of lm c m)]\<rparr>) =
      (view_of lm c)\<lparr>rv_mixes := (rv_mixes (view_of lm c))[m := out_part lm new (mix_view_of lm c m)]\<rparr>"
    using one False refl
    by (elim disjE exE) (auto simp: out_op_def limiter_op_def on_mix_view [OF assms(1) m(2)] out_part_updates out_eq_def)
  ultimately show ?thesis
    unfolding so view_upd_mix [OF m(1)] mix_view_out [OF m(1)] by (simp add: view_self [OF m(1)])
qed

lemma upd_mix_at:
  "co_topo (upd_mix m f c) = co_topo c"
  "m < length (rs_mixes (co_s c)) \<Longrightarrow> rs_mixes (co_s (upd_mix m f c)) ! m = f (rs_mixes (co_s c) ! m)"
  by (simp_all add: upd_mix_def)

lemma level_view_upd:
  assumes "m < length (rs_mixes (co_s c))" and "k < length (mr_levels (rs_mixes (co_s c) ! m))"
  shows "level_view lm (upd_mix m (\<lambda>r. r\<lparr>mr_levels := (mr_levels r)[k := new]\<rparr>) c) m j =
    (if j = k then (db_to_lin lm (lv_gain_db new), lv_pan new, lv_muted new \<or> solo_out c m k) else level_view lm c m j)"
  using assms by (auto simp: level_view_def Let_def core_level_def upd_mix_def lget_def solo_out_def)

lemma view_set_level:
  assumes "sized c"
  shows "fold view_op (pa_rt (snd (set_level lm m k new c))) (view_of lm c) = view_of lm (fst (set_level lm m k new c))"
proof (cases "m < length (t_mixes (co_topo c)) \<and> k < levels (co_topo c) m \<and> \<not> level_eq (core_level c m k) new")
  case True
  note len = sized_lens [OF assms(1)]
  let ?c = "upd_mix m (\<lambda>r. r\<lparr>mr_levels := (mr_levels r)[k := new]\<rparr>) c"
  have m: "m < length (rs_mixes (co_s c))" "m < length (t_mixes (co_topo c))"
    "k < length (mr_levels (rs_mixes (co_s c) ! m))" "k < levels (co_topo c) m" "unat (ix k) = k"
    using True len less_trans [of k "levels (co_topo c) m" "2 ^ 16"] by (auto simp: unat_ix)
  have wf: "topo_wf (co_topo c)" using assms by (simp add: sized_def core_ok_def)
  obtain src where src: "t_source (co_topo c) m k = Some src"
    using ls.source_total [OF wf m(2,4)] by auto
  have sl: "set_level lm m k new c = (?c, partial_changed [ChLevel (m_id (t_mixes (co_topo c) ! m)) src new] [level_op lm ?c m k])"
    using True m src by (auto simp: set_level_def lget_def core_level_def Let_def)
  have "map (level_view lm ?c m) [0..<levels (co_topo c) m] = (map (level_view lm c m) [0..<levels (co_topo c) m])[k := level_view lm ?c m k]"
    by (rule nth_equalityI) (simp_all add: nth_list_update level_view_upd [OF m(1,3)])
  then have "mix_view_of lm ?c m = (mix_view_of lm c m)\<lparr>mv_levels := (mv_levels (mix_view_of lm c m))[k := level_view lm ?c m k]\<rparr>"
    using m by (simp add: mix_view_of_def Let_def upd_mix_at)
  moreover have "level_op lm ?c m k = (case level_view lm ?c m k of (g, p, mu) \<Rightarrow> RLevel (ix m) (ix k) g p mu)"
    by (simp add: level_op_def level_view_def Let_def)
  ultimately show ?thesis
    using m on_mix_view [OF assms m(2), of "\<lambda>x. x\<lparr>mv_levels := lmod (mv_levels x) k (\<lambda>_. level_view lm ?c m k)\<rparr>" lm "mix_view_of lm c m"]
    by (simp add: sl partial_changed_def view_upd_mix [OF m(1)] view_self [OF m(1)] case_prod_beta)
      (simp add: mix_view_of_def Let_def)
next
  case False
  have "set_level lm m k new c = (c, partial_default)"
    using False sized_lens [OF assms] by (auto simp: set_level_def lget_def core_level_def split: option.splits)
  then show ?thesis by (simp add: partial_default_def)
qed

lemma view_set_group:
  assumes "sized c" and old: "old = core_strip c m g"
    and one: "(\<exists>v mu. new = old\<lparr>mg_gain_db := v, mg_muted := mu\<rparr>) \<or> (\<exists>e. new = old\<lparr>mg_eq := e\<rparr>)"
  shows "fold view_op (pa_rt (snd (set_group lm m g new c))) (view_of lm c) = view_of lm (fst (set_group lm m g new c))"
proof (cases "m < length (t_mixes (co_topo c)) \<and> g < length (t_groups (co_topo c)) \<and> \<not> group_eq old new")
  case True
  note len = sized_lens [OF assms(1)]
  let ?c = "upd_mix m (\<lambda>r. r\<lparr>mr_groups := (mr_groups r)[g := new]\<rparr>) c"
  have m: "m < length (rs_mixes (co_s c))" "m < length (t_mixes (co_topo c))"
    "g < length (mr_groups (rs_mixes (co_s c) ! m))" "unat (ix g) = g"
    using True len by (auto simp: unat_ix)
  then have o': "old = mr_groups (rs_mixes (co_s c) ! m) ! g" using old by (simp add: core_strip_def lget_def)
  have "group_ok old" using core_strip_ok assms(1) old by (simp add: sized_def)
  then have refl: "eq_eq (mg_eq old) (mg_eq old)" "feq (mg_gain_db old) (mg_gain_db old)"
    by (auto simp: group_ok_def eq_eq_refl in_range_finite)
  have sg: "fst (set_group lm m g new c) = ?c"
    "pa_rt (snd (set_group lm m g new c)) =
       (if feq (mg_gain_db old) (mg_gain_db new) \<and> mg_muted old = mg_muted new then [] else [group_op lm m g new]) @
       (if eq_eq (mg_eq old) (mg_eq new) then [] else [RGroupEq (ix m) (ix g) (eq_params lm (mg_eq new))])"
    using True m o' by (simp_all add: set_group_def lget_def partial_changed_def)
  have mv: "mix_view_of lm ?c m = (mix_view_of lm c m)\<lparr>mv_groups := (mv_groups (mix_view_of lm c m))[g := group_view lm new]\<rparr>"
    using m by (simp add: mix_view_of_def Let_def upd_mix_def map_update level_view_def core_level_def solo_out_def lget_def)
  have gv: "g < length (mv_groups (mix_view_of lm c m))" "mv_groups (mix_view_of lm c m) ! g = group_view lm old"
    using m by (simp_all add: mix_view_of_def Let_def o')
  have "fold view_op (pa_rt (snd (set_group lm m g new c)))
        ((view_of lm c)\<lparr>rv_mixes := (rv_mixes (view_of lm c))[m := mix_view_of lm c m]\<rparr>)
      = (view_of lm c)\<lparr>rv_mixes := (rv_mixes (view_of lm c))[m := mix_view_of lm ?c m]\<rparr>"
    unfolding sg(2) mv using one True refl m gv
    by (elim disjE exE) (auto simp: group_op_def on_mix_view [OF assms(1) m(2)] group_view_def group_eq_def)
  then show ?thesis
    by (simp add: sg(1) view_self [OF m(1)] view_upd_mix [OF m(1)])
next
  case False
  have "set_group lm m g new c = (c, partial_default)"
    using False old sized_lens [OF assms(1)] by (auto simp: set_group_def lget_def core_strip_def split: option.splits)
  then show ?thesis by (simp add: partial_default_def)
qed

subsection \<open>Whole mixes\<close>

lemma fold_view_levels:
  assumes "m < length (rv_mixes v)" and "m < 2 ^ 16" and "j \<le> length (mv_levels (rv_mixes v ! m))"
    and "length (mv_levels (rv_mixes v ! m)) \<le> 2 ^ 16"
  shows "fold view_op (map (\<lambda>k. RLevel (ix m) (ix k) (g k) (p k) (mu k)) [0..<j]) v =
    v\<lparr>rv_mixes := (rv_mixes v)[m := (rv_mixes v ! m)\<lparr>mv_levels :=
      map (\<lambda>k. (g k, p k, mu k)) [0..<j] @ drop j (mv_levels (rv_mixes v ! m))\<rparr>]\<rparr>"
  using assms(3)
proof (induction j)
  case (Suc j)
  then have "j < length (mv_levels (rv_mixes v ! m))" by simp
  with Suc assms show ?case
    by (simp add: on_mix_def unat_ix list_update_append Cons_nth_drop_Suc [symmetric])
qed simp

lemma fold_level_ops:
  assumes "sized c" and "m < length (t_mixes (co_topo c))" and "length (rv_mixes v) = length (t_mixes (co_topo c))"
    and "length (mv_levels (rv_mixes v ! m)) = levels (co_topo c) m"
  shows "fold view_op (level_ops lm c m) v =
    v\<lparr>rv_mixes := (rv_mixes v)[m := (rv_mixes v ! m)\<lparr>mv_levels := map (level_view lm c m) [0..<levels (co_topo c) m]\<rparr>]\<rparr>"
proof -
  let ?l = "core_level c m"
  have "level_ops lm c m = map (\<lambda>k. RLevel (ix m) (ix k) (db_to_lin lm (lv_gain_db (?l k))) (lv_pan (?l k))
      (lv_muted (?l k) \<or> solo_out c m k)) [0..<levels (co_topo c) m]"
    by (simp add: level_ops_def level_op_def Let_def)
  moreover have "level_view lm c m = (\<lambda>k. (db_to_lin lm (lv_gain_db (?l k)), lv_pan (?l k), lv_muted (?l k) \<or> solo_out c m k))"
    by (simp add: level_view_def Let_def fun_eq_iff)
  ultimately show ?thesis
    using fold_view_levels [of m v "levels (co_topo c) m"] sized_lens(4,6) [OF assms(1)] assms(2-4)
    by (simp add: less_imp_le)
qed

text \<open>A change of one mix's solo changes the view of that mix's levels only.\<close>

lemma view_solo:
  assumes "m < length (rs_mixes (co_s c))" and "\<And>j. j \<noteq> m \<Longrightarrow> map_of so j = map_of (co_solo c) j"
  shows "view_of lm (c\<lparr>co_solo := so\<rparr>) = (view_of lm c)\<lparr>rv_mixes := (rv_mixes (view_of lm c))[m :=
    (mix_view_of lm c m)\<lparr>mv_levels := map (level_view lm (c\<lparr>co_solo := so\<rparr>) m) [0..<levels (co_topo c) m]\<rparr>]\<rparr>"
proof -
  have "mix_view_of lm (c\<lparr>co_solo := so\<rparr>) j = mix_view_of lm c j" if "j \<noteq> m" for j
    using assms(2) [OF that] by (simp add: mix_view_of_def Let_def level_view_def core_level_def solo_out_def)
  moreover have "mix_view_of lm (c\<lparr>co_solo := so\<rparr>) m =
      (mix_view_of lm c m)\<lparr>mv_levels := map (level_view lm (c\<lparr>co_solo := so\<rparr>) m) [0..<levels (co_topo c) m]\<rparr>"
    by (simp add: mix_view_of_def Let_def)
  ultimately show ?thesis
    using assms(1) by (auto simp: view_of_def nth_list_update intro: nth_equalityI)
qed

lemma view_solo_ops:
  assumes "sized c" and "sized (c\<lparr>co_solo := so\<rparr>)" and "m < length (t_mixes (co_topo c))"
    and "\<And>j. j \<noteq> m \<Longrightarrow> map_of so j = map_of (co_solo c) j"
  shows "fold view_op (level_ops lm (c\<lparr>co_solo := so\<rparr>) m) (view_of lm c) = view_of lm (c\<lparr>co_solo := so\<rparr>)"
proof -
  have m: "m < length (rs_mixes (co_s c))" using assms(3) sized_lens(3) [OF assms(1)] by simp
  then show ?thesis
    using fold_level_ops [OF assms(2), of m "view_of lm c" lm] assms(3) view_solo [OF m assms(4), of lm]
      sized_lens(3) [OF assms(1)]
    by (simp add: view_len view_nth) (simp add: mix_view_of_def Let_def)
qed

lemma set_solo_Inr:
  assumes "set_solo lm i srcs c = (c', Inr p)" and "core_ok c"
  obtains "c' = c" "p = partial_default"
    | so m where "c' = c\<lparr>co_solo := so\<rparr>" "pa_rt p = level_ops lm c' m" "m < length (t_mixes (co_topo c))"
        "\<And>j. j \<noteq> m \<Longrightarrow> map_of so j = map_of (co_solo c) j"
proof -
  from assms(1) obtain m new where m: "core_mix c i = Inr m" "fold_r (solo_step (co_topo c) m i) srcs [] = Inr new"
    by (cases "core_mix c i"; cases "fold_r (solo_step (co_topo c) (projr (core_mix c i)) i) srcs []")
      (auto simp: set_solo_def split: if_splits)
  have "topo_wf (co_topo c)" using assms(2) by (simp add: core_ok_def)
  with m have "m < length (t_mixes (co_topo c))" by (auto simp: core_mix_def wf_mix_index)
  moreover have "map_of (if new = [] then bm_remove m (co_solo c) else bm_insert m new (co_solo c)) j = map_of (co_solo c) j"
    if "j \<noteq> m" for j
    using that by (simp add: map_of_bm_remove)
  ultimately have other: "m < length (t_mixes (co_topo c))" "\<And>j. j \<noteq> m \<Longrightarrow>
      map_of (if new = [] then bm_remove m (co_solo c) else bm_insert m new (co_solo c)) j = map_of (co_solo c) j"
    by blast+
  show ?thesis
  proof (cases "or_default [] (map_of (co_solo c) m) = new")
    case True
    with assms(1) m show ?thesis by (intro that(1)) (auto simp: set_solo_def split: if_splits)
  next
    case False
    define so where "so = (if new = [] then bm_remove m (co_solo c) else bm_insert m new (co_solo c))"
    have "c' = c\<lparr>co_solo := so\<rparr>" "pa_rt p = level_ops lm c' m"
      using assms(1) m False by (auto simp: set_solo_def Let_def partial_changed_def so_def split: if_splits)
    with other show ?thesis by (intro that(2) [of so m]) (simp_all add: so_def)
  qed
qed

subsection \<open>A full sync\<close>

definition shaped_view :: "core \<Rightarrow> rt_view \<Rightarrow> bool" where
  "shaped_view c v =
     (length (rv_inputs v) = length (rs_inputs (co_s c)) \<and> length (rv_mixes v) = length (rs_mixes (co_s c)) \<and>
      (\<forall>m < length (rs_mixes (co_s c)). length (mv_levels (rv_mixes v ! m)) = levels (co_topo c) m \<and>
         length (mv_groups (rv_mixes v ! m)) = length (mr_groups (rs_mixes (co_s c) ! m))))"

lemma fold_input_sync:
  assumes "j + length xs = length (rv_inputs v)" and "length (rv_inputs v) < 2 ^ 16"
  shows "fold view_op (concat (map (input_sync lm) (enumerate j xs))) v =
    v\<lparr>rv_inputs := take j (rv_inputs v) @ map (input_view lm) xs\<rparr>"
  using assms
proof (induction xs arbitrary: j v)
  case (Cons x xs)
  let ?v = "v\<lparr>rv_inputs := (rv_inputs v)[j := input_view lm x]\<rparr>"
  have "fold view_op (input_sync lm (j, x)) v = ?v"
    using Cons.prems by (simp add: input_sync_def on_input_def unat_ix input_view_def)
  with Cons.IH [of "Suc j" ?v] Cons.prems show ?case
    by (simp add: take_Suc_conv_app_nth)
qed simp

lemma fold_group_sync:
  assumes "m < length (rv_mixes v)" and "m < 2 ^ 16" and "j + length gs = length (mv_groups (rv_mixes v ! m))"
    and "length (mv_groups (rv_mixes v ! m)) < 2 ^ 16"
  shows "fold view_op (concat (map (group_sync lm m) (enumerate j gs))) v =
    v\<lparr>rv_mixes := (rv_mixes v)[m := (rv_mixes v ! m)\<lparr>mv_groups :=
      take j (mv_groups (rv_mixes v ! m)) @ map (group_view lm) gs\<rparr>]\<rparr>"
  using assms
proof (induction gs arbitrary: j v)
  case (Cons g gs)
  let ?x = "rv_mixes v ! m"
  let ?v = "v\<lparr>rv_mixes := (rv_mixes v)[m := ?x\<lparr>mv_groups := (mv_groups ?x)[j := group_view lm g]\<rparr>]\<rparr>"
  have "fold view_op (group_sync lm m (j, g)) v = ?v"
    using Cons.prems by (simp add: group_sync_def group_op_def on_mix_def unat_ix group_view_def)
  with Cons.IH [of ?v "Suc j"] Cons.prems show ?case
    by (simp add: take_Suc_conv_app_nth)
qed simp

lemma fold_mix_sync:
  assumes sz: "sized c" and m: "m < length (rs_mixes (co_s c))" and sh: "shaped_view c v"
  shows "fold view_op (mix_sync lm c (m, rs_mixes (co_s c) ! m)) v = v\<lparr>rv_mixes := (rv_mixes v)[m := mix_view_of lm c m]\<rparr>"
proof -
  note len = sized_lens [OF sz]
  let ?r = "rs_mixes (co_s c) ! m" and ?x = "rv_mixes v ! m"
  have mt: "m < length (t_mixes (co_topo c))" "m < 2 ^ 16" "m < length (rv_mixes v)"
    using m len sh by (auto simp: shaped_view_def)
  have lx: "length (mv_levels ?x) = levels (co_topo c) m" "length (mv_groups ?x) = length (mr_groups ?r)"
    "length (rv_mixes v) = length (t_mixes (co_topo c))" "length (mr_groups ?r) = length (t_groups (co_topo c))"
    using sh m len mt by (auto simp: shaped_view_def)
  let ?v1 = "v\<lparr>rv_mixes := (rv_mixes v)[m := out_part lm (mr_out ?r) ?x]\<rparr>"
  let ?v2 = "v\<lparr>rv_mixes := (rv_mixes v)[m := (out_part lm (mr_out ?r) ?x)\<lparr>mv_levels := map (level_view lm c m) [0..<levels (co_topo c) m]\<rparr>]\<rparr>"
  have "fold view_op [out_op lm m (mr_out ?r), RMixEq (ix m) (eq_params lm (mo_eq (mr_out ?r))), limiter_op m (mr_out ?r)] v = ?v1"
    using mt by (cases "rv_mixes v ! m") (simp add: out_op_def limiter_op_def on_mix_def unat_ix out_part_def)
  moreover have "fold view_op (level_ops lm c m) ?v1 = ?v2"
    using fold_level_ops [OF sz mt(1), of ?v1 lm] lx mt by (simp add: out_part_def)
  moreover have "fold view_op (concat (map (group_sync lm m) (enumerate 0 (mr_groups ?r)))) ?v2 =
      v\<lparr>rv_mixes := (rv_mixes v)[m := mix_view_of lm c m]\<rparr>"
    using fold_group_sync [of m ?v2 0 "mr_groups ?r" lm] lx mt len(5)
    by (cases "rv_mixes v ! m") (simp add: out_part_def mix_view_of_def Let_def)
  ultimately show ?thesis by (simp add: mix_sync_def Let_def)
qed

lemma fold_mixes_sync:
  assumes sz: "sized c" and "j + length xs = length (rs_mixes (co_s c))" and "xs = drop j (rs_mixes (co_s c))"
    and "shaped_view c v"
  shows "fold view_op (concat (map (mix_sync lm c) (enumerate j xs))) v =
    v\<lparr>rv_mixes := take j (rv_mixes v) @ map (mix_view_of lm c) [j..<length (rs_mixes (co_s c))]\<rparr>"
  using assms(2-)
proof (induction xs arbitrary: j v)
  case Nil
  then show ?case by (simp add: shaped_view_def)
next
  case (Cons x xs)
  let ?v = "v\<lparr>rv_mixes := (rv_mixes v)[j := mix_view_of lm c j]\<rparr>"
  have j: "j < length (rs_mixes (co_s c))" using Cons.prems(1) by simp
  then have "x # xs = rs_mixes (co_s c) ! j # drop (Suc j) (rs_mixes (co_s c))"
    using Cons.prems(2) Cons_nth_drop_Suc [of j "rs_mixes (co_s c)"] by simp
  then have x: "x = rs_mixes (co_s c) ! j" and xs: "xs = drop (Suc j) (rs_mixes (co_s c))" by simp_all
  have sh: "shaped_view c ?v"
    using Cons.prems(3) j sized_lens(3) [OF sz] by (auto simp: shaped_view_def nth_list_update mix_view_of_def Let_def)
  have "fold view_op (mix_sync lm c (j, x)) v = ?v"
    using fold_mix_sync [OF sz j Cons.prems(3)] x by simp
  moreover have "j < length (rv_mixes v)" using j Cons.prems(3) by (simp add: shaped_view_def)
  ultimately show ?case
    using Cons.IH [of "Suc j" ?v] Cons.prems(1) xs sh j
    by (simp add: take_Suc_conv_app_nth upt_conv_Cons)
qed

lemma full_sync_view:
  assumes "sized c" and "shaped_view c v"
  shows "fold view_op (full_sync lm c) v = (view_of lm c)\<lparr>rv_listen := rv_listen v\<rparr>"
proof -
  let ?v = "v\<lparr>rv_inputs := map (input_view lm) (rs_inputs (co_s c))\<rparr>"
  have "fold view_op (concat (map (input_sync lm) (enumerate 0 (rs_inputs (co_s c))))) v = ?v"
    using fold_input_sync [of 0 "rs_inputs (co_s c)" v lm] assms sized_lens(1,2) [OF assms(1)]
    by (simp add: shaped_view_def)
  moreover have "fold view_op (concat (map (mix_sync lm c) (enumerate 0 (rs_mixes (co_s c))))) ?v =
      ?v\<lparr>rv_mixes := map (mix_view_of lm c) [0..<length (rs_mixes (co_s c))]\<rparr>"
    using fold_mixes_sync [OF assms(1), of 0 "rs_mixes (co_s c)" ?v lm] assms(2) by (simp add: shaped_view_def)
  ultimately show ?thesis by (simp add: full_sync_def view_of_def)
qed

subsection \<open>Every command\<close>

lemma try_c_Inr [elim!]:
  assumes "try_c r c k = (c', Inr p)"
  obtains a where "r = Inr a" and "k a = (c', Inr p)"
  using assms by (cases r) auto

lemma ok_c_Inr [simp]: "ok_c cp = (c', Inr p) \<longleftrightarrow> cp = (c', p)"
  by (cases cp) (auto simp: ok_c_def)

lemma view_indep [simp]:
  "view_of lm (c\<lparr>co_test := a\<rparr>) = view_of lm c" "view_of lm (c\<lparr>co_hil_test := b\<rparr>) = view_of lm c"
  "view_of lm (c\<lparr>co_rev := r\<rparr>) = view_of lm c"
  "view_of lm (c\<lparr>co_listen := l\<rparr>) = (view_of lm c)\<lparr>rv_listen := l\<rparr>"
  by (simp_all add: view_of_def mix_view_of_def level_view_def core_level_def solo_out_def Let_def fun_eq_iff)

lemma setters_topo [simp]:
  "co_topo (fst (set_input lm i n1 c)) = co_topo c" "co_topo (fst (set_out lm m n2 c)) = co_topo c"
  "co_topo (fst (set_level lm m k n3 c)) = co_topo c" "co_topo (fst (set_group lm m g n4 c)) = co_topo c"
  by (auto simp: set_input_def set_out_def set_level_def set_group_def upd_mix_def Let_def split: option.splits)

lemma try_c_topo: "(\<And>a. r = Inr a \<Longrightarrow> co_topo (fst (k a)) = co_topo c) \<Longrightarrow> co_topo (fst (try_c r c k)) = co_topo c"
  by (cases r) auto

lemma one_topo: "co_topo (fst (one lm cmd c)) = co_topo c"
  by (cases cmd) (auto simp: Let_def set_solo_def start_listen_def stop_listen_def start_test_def case_prod_beta
      intro!: try_c_topo split: eq_target.splits option.splits)

lemma sized_one: "sized c \<Longrightarrow> sized (fst (one lm cmd c))"
  using one_ok [of c lm cmd] by (simp add: sized_def one_topo)

lemma input_edit_ok:
  assumes "core_ok c" and "old = or_default input_default (lget (rs_inputs (co_s c)) i)"
    and "capped_opt v TRIM_DB w (in_trim_db old) = Inr tr"
  shows "input_ok (old\<lparr>in_trim_db := tr, in_muted := mu, in_processing := pr\<rparr>)"
  using core_input_ok [OF assms(1), of i] capped_opt_ok [OF _ _ assms(3)] by (simp add: assms(2) input_ok_def)

lemma view_listen_start:
  assumes "sized c" and "start_listen i c = (c', Inr p)"
  shows "fold view_op (pa_rt p) (view_of lm c) = view_of lm c'"
proof -
  have wf: "topo_wf (co_topo c)" using assms(1) by (simp add: sized_def core_ok_def)
  from assms(2) obtain m where m: "core_mix c i = Inr m"
    by (cases "core_mix c i") (auto simp: start_listen_def)
  then have "m < 2 ^ 16" using sized_lens(4) [OF assms(1)] wf by (auto simp: core_mix_def wf_mix_index)
  then have "unat (ix m) = m" by (rule unat_ix)
  then show ?thesis
    using assms(2) m
    by (auto simp: start_listen_def Let_def listen_partial_def partial_changed_def partial_default_def
        listen_put_def split: if_splits) (simp_all add: view_of_def)
qed

lemma view_stop_slots:
  assumes "\<forall>s \<in> set slts. s < 2" and "fold view_op (snd st) v = v\<lparr>rv_listen := fst st\<rparr>"
  shows "fold view_op (snd (fold (stop_slot m) slts st)) v = v\<lparr>rv_listen := fst (fold (stop_slot m) slts st)\<rparr>"
  using assms
proof (induction slts arbitrary: st)
  case (Cons x slts)
  have "x = 0 \<or> x = 1" using Cons.prems(1) by auto
  then have "fold view_op (snd (stop_slot m x st)) v = v\<lparr>rv_listen := fst (stop_slot m x st)\<rparr>"
    using Cons.prems(2) by (auto simp: stop_slot_def unat_eq_0)
  with Cons show ?case by simp
qed simp

lemma view_listen_stop:
  assumes "stop_listen i c = (c', Inr p)"
  shows "fold view_op (pa_rt p) (view_of lm c) = view_of lm c'"
proof -
  from assms obtain m where m: "core_mix c i = Inr m"
    by (cases "core_mix c i") (auto simp: stop_listen_def)
  let ?s = "fold (stop_slot m) [0, 1] (co_listen c, [])"
  have c': "c' = c\<lparr>co_listen := fst ?s\<rparr>" "p = listen_partial c' (snd ?s)"
    using assms m by (auto simp: stop_listen_def Let_def case_prod_beta simp del: fold_simps)
  have "view_of lm c = (view_of lm c)\<lparr>rv_listen := co_listen c\<rparr>" by (simp add: view_of_def)
  then have "fold view_op (snd ?s) (view_of lm c) = (view_of lm c)\<lparr>rv_listen := fst ?s\<rparr>"
    using view_stop_slots [of "[0, 1]" "(co_listen c, [])" "view_of lm c" m] by (simp del: fold_simps(2))
  moreover have "pa_rt p = snd ?s"
    unfolding c'(2) listen_partial_def by (simp add: partial_default_def partial_changed_def del: fold_simps)
  ultimately show ?thesis by (simp add: c'(1) del: fold_simps)
qed

text \<open>A method whose RT commands bring the view along.\<close>

definition syncs :: "libm \<Rightarrow> core \<Rightarrow> partial_out core_m \<Rightarrow> bool" where
  "syncs lm c r = (case snd r of Inl _ \<Rightarrow> True | Inr p \<Rightarrow> fold view_op (pa_rt p) (view_of lm c) = view_of lm (fst r))"

lemma syncs_try: "(\<And>a. r = Inr a \<Longrightarrow> syncs lm c (k a)) \<Longrightarrow> syncs lm c (try_c r c k)"
  by (cases r) (auto simp: syncs_def)

lemma syncs_ok [simp]:
  "syncs lm c (ok_c cp) \<longleftrightarrow> fold view_op (pa_rt (snd cp)) (view_of lm c) = view_of lm (fst cp)"
  "syncs lm c (c', Inl e)"
  "syncs lm c (c', Inr p) \<longleftrightarrow> fold view_op (pa_rt p) (view_of lm c) = view_of lm c'"
  by (simp_all add: syncs_def ok_c_def)

lemma syncsI: "(\<And>c' p. r = (c', Inr p) \<Longrightarrow> fold view_op (pa_rt p) (view_of lm c) = view_of lm c') \<Longrightarrow> syncs lm c r"
  by (cases r; cases "snd r") (auto simp: syncs_def)

lemma syncs_solo:
  assumes "sized c"
  shows "syncs lm c (set_solo lm i srcs c)"
proof (rule syncsI)
  fix c' p
  assume s: "set_solo lm i srcs c = (c', Inr p)"
  have ok: "core_ok c" using assms by (simp add: sized_def)
  have sz: "sized c'" using sized_one [OF assms, of lm "SetSolo i srcs"] s by simp
  from s ok show "fold view_op (pa_rt p) (view_of lm c) = view_of lm c'"
    by (cases rule: set_solo_Inr) (use sz assms view_solo_ops in \<open>auto simp: partial_default_def\<close>)
qed

lemma syncs_test: "syncs lm c (start_test lm i hz dbfs ttl mk listen c)"
  unfolding start_test_def
  by (intro syncs_try) (auto simp: Let_def partial_changed_def split: option.split)

lemma syncs_import:
  assumes "sized c"
  shows "syncs lm c (one lm (ImportState state) c)"
proof -
  let ?c = "c\<lparr>co_s := fst (core_reconcile (co_topo c) state)\<rparr>"
  have sz: "sized ?c" using sized_one [OF assms, of lm "ImportState state"] by (simp add: Let_def)
  then have "shaped_view ?c (view_of lm c)"
    using sized_lens [OF assms] sized_lens [OF sz]
    by (simp add: shaped_view_def view_len view_nth) (simp add: view_of_def mix_view_of_def Let_def)
  from full_sync_view [OF sz this, of lm] show ?thesis
    by (simp add: Let_def) (simp add: view_of_def)
qed

lemma syncs_one:
  assumes "sized c"
  shows "syncs lm c (one lm cmd c)"
proof -
  have ok: "core_ok c" using assms by (simp add: sized_def)
  show ?thesis
  proof (cases cmd)
    case (SetInput i trim muted processing)
    then show ?thesis
      by (simp only: one.simps Let_def) (intro syncs_try, simp only: syncs_ok, rule view_set_input [OF assms input_edit_ok [OF ok refl] refl], auto)
  next
    case (SetEq target e)
    have "input_ok ((or_default input_default (lget (rs_inputs (co_s c)) i))\<lparr>in_eq := cap_eq e\<rparr>)" for i
      using core_input_ok [OF ok, of i] by (simp add: input_ok_def eqc.cap_ok)
    then have "syncs lm c (ok_c (set_input lm i ((or_default input_default (lget (rs_inputs (co_s c)) i))\<lparr>in_eq := cap_eq e\<rparr>) c))" for i
      using view_set_input [OF assms _ refl, of _ i lm] by auto
    moreover have "syncs lm c (ok_c (set_out lm m ((core_out c m)\<lparr>mo_eq := cap_eq e\<rparr>) c))" for m
      using view_set_out [OF assms refl, of _ m lm] by auto
    moreover have "syncs lm c (ok_c (set_group lm m g ((core_strip c m g)\<lparr>mg_eq := cap_eq e\<rparr>) c))" for m g
      using view_set_group [OF assms refl, of _ m g lm] by auto
    ultimately show ?thesis
      using SetEq by (auto simp: Let_def simp del: syncs_ok(1) intro!: syncs_try split: eq_target.split)
  next
    case (SetMix i v mu)
    then show ?thesis
      by (simp only: one.simps Let_def) (intro syncs_try, simp only: syncs_ok, rule view_set_out [OF assms refl], auto)
  next
    case (SetLimiter i en db)
    then show ?thesis
      by (simp only: one.simps Let_def) (intro syncs_try, simp only: syncs_ok, rule view_set_out [OF assms refl], auto)
  next
    case (SetGroup i g v mu)
    then show ?thesis
      by (simp only: one.simps Let_def) (intro syncs_try, simp only: syncs_ok, rule view_set_group [OF assms refl], auto)
  next
    case (StartListen i)
    then show ?thesis using view_listen_start [OF assms] by (auto intro: syncsI)
  next
    case (StopListen i)
    then show ?thesis using view_listen_stop by (auto intro: syncsI)
  next
    case (ImportState st)
    then show ?thesis using syncs_import [OF assms] by simp
  qed (auto simp: Let_def syncs_solo [OF assms] syncs_test view_set_level [OF assms] partial_default_def partial_changed_def
      partial_effect_def simp del: syncs_ok(1) intro!: syncs_try split: option.split, auto simp: view_set_level [OF assms])
qed

subsection \<open>Requests\<close>

lemma batch_view:
  assumes sz: "sized c" and f: "fold_r (batch_step lm) ops (c, partial_default) = Inr s"
  shows "sized (fst s) \<and> fold view_op (pa_rt (snd s)) (view_of lm c) = view_of lm (fst s)"
proof (rule fold_r_invariant [OF f])
  fix op s s'
  assume s: "sized (fst s) \<and> fold view_op (pa_rt (snd s)) (view_of lm c) = view_of lm (fst s)"
    and st: "batch_step lm op s = Inr s'"
  from batch_step_Inr [OF st] obtain q where q: "one lm op (fst s) = (fst s', Inr q)"
    "snd s' = (snd s)\<lparr>pa_changes := pa_changes (snd s) @ pa_changes q, pa_rt := pa_rt (snd s) @ pa_rt q,
       pa_bump := (pa_bump (snd s) \<or> pa_bump q)\<rparr>" by blast
  then show "sized (fst s') \<and> fold view_op (pa_rt (snd s')) (view_of lm c) = view_of lm (fst s')"
    using s sized_one [of "fst s" lm op] syncs_one [of "fst s" lm op] by simp
qed (simp add: sz partial_default_def)

lemma core_apply_view:
  assumes "sized c" and "core_apply lm cmd c = (c', Inr out)"
  shows "fold view_op (oc_rt out) (view_of lm c) = view_of lm c'"
proof (cases "\<exists>ops. cmd = Batch ops")
  case True
  then obtain ops where ops: "cmd = Batch ops" ..
  with assms(2) obtain s where s: "fold_r (batch_step lm) ops (c, partial_default) = Inr s" "batch lm ops c = (fst s, Inr (snd s))"
    by (cases "fold_r (batch_step lm) ops (c, partial_default)")
      (auto simp: core_apply_def batch_def case_prod_beta split: if_splits)
  then have "c' = fst (finish (snd s) (fst s))" "oc_rt out = pa_rt (snd s)"
    using assms(2) ops by (auto simp: core_apply_def case_prod_beta finish_simps)
  with batch_view [OF assms(1) s(1)] show ?thesis by (simp add: finish_simps)
next
  case False
  then have "core_apply lm cmd c =
      (case one lm cmd c of (c', Inl e) \<Rightarrow> (c', Inl e) | (c', Inr p) \<Rightarrow> (let (c'', o') = finish p c' in (c'', Inr o')))"
    by (cases cmd) (simp_all add: core_apply_def)
  with assms(2) obtain c1 p where "one lm cmd c = (c1, Inr p)" "c' = fst (finish p c1)" "oc_rt out = pa_rt p"
    by (cases "one lm cmd c"; cases "snd (one lm cmd c)") (auto simp: case_prod_beta finish_simps)
  with syncs_one [OF assms(1), of lm cmd] show ?thesis by (simp add: finish_simps)
qed

lemma clear_solos_view:
  assumes "sized c"
  shows "fold view_op (oc_rt (snd (clear_solos lm c))) (view_of lm c) = view_of lm (fst (clear_solos lm c))"
proof -
  have keys: "m \<in> set (bm_keys (co_solo c)) \<Longrightarrow> m < length (t_mixes (co_topo c))" for m
    using assms by (auto simp: sized_def core_ok_def solo_ok_def bm_keys_set dom_def)
  have "sized (fst s') \<and> fold view_op (pa_rt (snd s')) (view_of lm c) = view_of lm (fst s')"
    if "s' = fold (clear_solo_step lm) ms s" "sized (fst s)" "co_topo (fst s) = co_topo c"
      "\<forall>m \<in> set ms. m < length (t_mixes (co_topo c))"
      "fold view_op (pa_rt (snd s)) (view_of lm c) = view_of lm (fst s)" for ms s s'
    using that
  proof (induction ms arbitrary: s)
    case (Cons m ms)
    let ?so = "bm_remove m (co_solo (fst s))"
    have sz: "sized ((fst s)\<lparr>co_solo := ?so\<rparr>)"
      using Cons.prems(2) by (simp add: sized_def core_ok_updates)
    have "fold view_op (level_ops lm ((fst s)\<lparr>co_solo := ?so\<rparr>) m) (view_of lm (fst s)) = view_of lm ((fst s)\<lparr>co_solo := ?so\<rparr>)"
      by (rule view_solo_ops) (use Cons.prems sz in \<open>auto simp: map_of_bm_remove\<close>)
    with Cons.prems sz show ?case
      by (intro Cons.IH [of "clear_solo_step lm m s"]) (simp_all add: clear_solo_step_def Let_def)
  qed simp
  from this [of _ "bm_keys (co_solo c)" "(c, partial_default)"] assms keys show ?thesis
    by (simp add: clear_solos_def case_prod_beta finish_simps partial_default_def)
qed

subsection \<open>Properties\<close>

text \<open>
  C4. The RT thread follows the control core: for every request that succeeds, applying its RT
  commands in order to what the RT thread must hold for the state before gives exactly what it
  must hold for the state after, solos included; the same for clearing all solos. (The indices
  of the topology must fit the commands' \<open>u16\<close>.)
\<close>

theorem commands_follow_state:
  assumes "core_ok c" and "fits16 (co_topo c)"
  shows "(\<forall>c' out. core_apply lm cmd c = (c', Inr out) \<longrightarrow> fold view_op (oc_rt out) (view_of lm c) = view_of lm c') \<and>
    fold view_op (oc_rt (snd (clear_solos lm c))) (view_of lm c) = view_of lm (fst (clear_solos lm c))"
  using assms core_apply_view clear_solos_view by (simp add: sized_def)

lemma demo_fits: "core_ok demo_core" "fits16 (co_topo demo_core)"
proof -
  show "core_ok demo_core" unfolding demo_core_def by (rule core_new_ok) (rule compile_wf [OF demo_compiles])
  have "levels demo_topo m < 65536" if "m < 3" for m
    using that demo_sizes(3) demo_indices(7,8) by (auto simp: numeral_3_eq_3 less_Suc_eq numeral_2_eq_2)
  then show "fits16 (co_topo demo_core)" by (simp add: fits16_def demo_core_simps demo_sizes demo_indices)
qed

theorem commands_follow_state_witness:
  "\<exists>c' out. core_apply demo_libm (StartListen ''engineer'') demo_core = (c', Inr out) \<and>
     fold view_op (oc_rt out) (view_of demo_libm demo_core) = view_of demo_libm c'"
proof -
  obtain c' out where r: "core_apply demo_libm (StartListen ''engineer'') demo_core = (c', Inr out)"
    using demo_listen(1) by blast
  from commands_follow_state [OF demo_fits, of demo_libm "StartListen ''engineer''"] r show ?thesis by blast
qed

text \<open>
  \<open>full_sync\<close> is complete: whatever an RT thread of the same topology held before, after the
  commands of \<open>full_sync\<close> it holds exactly what it must for the core's state.
\<close>

theorem full_sync_establishes:
  assumes "core_ok c" and "fits16 (co_topo c)" and "shaped_view c v" and "rv_listen v = co_listen c"
  shows "fold view_op (full_sync lm c) v = view_of lm c"
  using full_sync_view [of c v lm] assms by (simp add: sized_def view_of_def)

text \<open>
  A solo silences exactly the rest: after a solo of known sources in a mix, a level of that
  mix sounds for the RT thread exactly when its own mute is off and its source is one of the
  soloed (with no source named: when its own mute is off); every other mix's levels are as before.
\<close>

theorem solo_silences_the_rest:
  assumes "core_ok c" and "core_mix c i = Inr m" and "set_solo lm i srcs c = (c', Inr p)" and "k < levels (co_topo c) m"
  shows "(\<not> snd (snd (level_view lm c' m k)) \<longleftrightarrow>
      \<not> lv_muted (core_level c m k) \<and> (srcs = [] \<or> (\<exists>src \<in> set srcs. slot (co_topo c) m src = Some k))) \<and>
    (\<forall>n. n \<noteq> m \<longrightarrow> level_view lm c' n = level_view lm c n)"
proof -
  have wf: "topo_wf (co_topo c)" using assms(1) by (simp add: core_ok_def)
  from assms(2,3) obtain new where new: "fold_r (solo_step (co_topo c) m i) srcs [] = Inr new"
    by (cases "fold_r (solo_step (co_topo c) m i) srcs []") (auto simp: set_solo_def split: if_splits)
  have empty: "new = [] \<longleftrightarrow> srcs = []"
  proof (cases srcs)
    case (Cons src rest)
    with new obtain k where "slot (co_topo c) m src = Some k"
      by (cases "slot (co_topo c) m src") (auto simp: solo_step_def [of _ _ _ src])
    with solo_fold [OF wf new] Cons show ?thesis by auto
  qed (use new in simp)
  have c': "co_s c' = co_s c" "map_of (co_solo c') n = (if n = m then (if new = [] then None else Some new) else map_of (co_solo c) n)" for n
  proof -
    have "map_of (co_solo c) m \<noteq> Some []" using assms(1) by (auto simp: core_ok_def solo_ok_def)
    then show "co_s c' = co_s c" "map_of (co_solo c') n = (if n = m then (if new = [] then None else Some new) else map_of (co_solo c) n)"
      using assms(2,3) new
      by (auto simp: set_solo_def Let_def map_of_bm_remove or_default_def split: if_splits option.splits)
  qed
  then show ?thesis
    using solo_fold [OF wf new] empty
    by (auto simp: level_view_def core_level_def solo_out_def Let_def fun_eq_iff)
qed

end
