(* ===== verification/RtProps.thy ===== *)
theory RtProps
  imports RtInvariant RtView
begin

text \<open>
  What the RT processor guarantees at its outputs and of its command queue, from construction
  through any run.
\<close>

subsection \<open>While a test signal sounds\<close>

definition test_lasts :: "topology \<Rightarrow> nat \<Rightarrow> processor \<Rightarrow> bool" where
  "test_lasts topo k p =
     (proc_inv p \<and> pr_topo p = topo \<and> pr_cmds p = [] \<and>
      (case pr_test p of Some t \<Rightarrow> unat (pr_time p) + k \<le> unat (tt_end t) | None \<Rightarrow> False))"

lemma test_lasts_end_test: "test_lasts topo k p \<Longrightarrow> 0 < k \<Longrightarrow> end_test p = p"
  by (auto simp: test_lasts_def end_test_def word_le_nat_alt split: option.splits)

lemma due_empty: "pr_cmds p = [] \<Longrightarrow> apply_due lm budget p = Some (p, budget, False)"
  by (simp add: apply_due.simps)

lemma time_advance: "unat (t :: u64) + k \<le> unat (e :: u64) \<Longrightarrow> n \<le> k \<Longrightarrow> unat (t + of_nat n) + (k - n) \<le> unat e"
proof -
  assume le: "unat t + k \<le> unat e" "n \<le> k"
  have "unat e < 2 ^ 64" using unsigned_less [of e] by simp
  then have "unat (t + of_nat n) = unat t + n" using le by (simp add: unat_word_ariths unat_of_nat)
  then show ?thesis using le by simp
qed

lemma test_segment:
  fixes lm block and off :: nat
  assumes "test_lasts topo k p" and "0 < n" and "n \<le> k" and "n \<le> SEG"
    and P: "P 0" "hil_running p \<or> (\<forall>y. amp_ok (val TEST_CAP) y \<longrightarrow> P y)"
  defines "q \<equiv> fst (render lm off n (p, block))"
  shows "test_lasts topo (k - n) (q\<lparr>pr_time := pr_time q + of_nat n\<rparr>) \<and> hil_running q = hil_running p \<and>
    outs_after P {..<length (t_tx topo)} off n block (snd (render lm off n (p, block)))"
proof -
  have e: "end_test p = p" using test_lasts_end_test [OF assms(1)] assms(2,3) by simp
  obtain t where t: "pr_test p = Some t" "unat (pr_time p) + k \<le> unat (tt_end t)" and p: "proc_inv p" "pr_topo p = topo" "pr_cmds p = []"
    using assms(1) by (auto simp: test_lasts_def split: option.splits)
  have c: "cap_ok (val TEST_CAP) (running_cap (end_test p))" using running_cap_test [of p] t(1) e by simp
  have "proc_inv q \<and> outs_after P {..<length (t_tx topo)} off n block (snd (render lm off n (p, block)))"
    using render_ok [OF p(1) assms(4) c, of P lm off block] P p(2) e by (simp add: q_def)
  moreover have "pr_test q = Some (fst (test_render lm n t))" "pr_topo q = topo" "pr_time q = pr_time p" "pr_cmds q = []"
    using t p e by (simp_all add: q_def)
  ultimately show ?thesis
    using time_advance [OF t(2) assms(3)] t(1) by (simp add: test_lasts_def proc_inv_time test_render_mask hil_running_def)
qed

interpretation capped: block_stage lm "test_lasts topo" "amp_ok (val TEST_CAP)" "{..<length (t_tx topo)}" for lm topo
proof unfold_locales
  fix k p budget p' b' l
  assume "test_lasts topo k p" and "apply_due lm budget p = Some (p', b', l)"
  then show "test_lasts topo k p'" by (auto simp: test_lasts_def due_empty)
next
  fix k n off :: nat and p block
  assume "test_lasts topo k p" and "0 < n" and "n \<le> k" and "n \<le> SEG"
  from test_segment [OF this, of "amp_ok (val TEST_CAP)" lm off block]
  show "test_lasts topo (k - n) (fst (render lm off n (p, block))\<lparr>pr_time := pr_time (fst (render lm off n (p, block))) + of_nat n\<rparr>)"
    and "outs_after (amp_ok (val TEST_CAP)) {..<length (t_tx topo)} off n block (snd (render lm off n (p, block)))"
    by (simp_all add: amp_ok_def test_cap_val)
qed

interpretation silent: block_stage lm "\<lambda>k p. test_lasts topo k p \<and> hil_running p" "\<lambda>y. y = 0" "{..<length (t_tx topo)}"
  for lm topo
proof unfold_locales
  fix k p budget p' b' l
  assume "test_lasts topo k p \<and> hil_running p" and "apply_due lm budget p = Some (p', b', l)"
  then show "test_lasts topo k p' \<and> hil_running p'" by (auto simp: test_lasts_def due_empty)
next
  fix k n off :: nat and p block
  assume l: "test_lasts topo k p \<and> hil_running p" and n: "0 < n" "n \<le> k" "n \<le> SEG"
  from test_segment [OF conjunct1 [OF l] n, of "\<lambda>y. y = 0" lm off block] l
  show "test_lasts topo (k - n) (fst (render lm off n (p, block))\<lparr>pr_time := pr_time (fst (render lm off n (p, block))) + of_nat n\<rparr>)
      \<and> hil_running (fst (render lm off n (p, block))\<lparr>pr_time := pr_time (fst (render lm off n (p, block))) + of_nat n\<rparr>)"
    and "outs_after (\<lambda>y. y = 0) {..<length (t_tx topo)} off n block (snd (render lm off n (p, block)))"
    by (simp_all add: hil_running_def)
qed

text \<open>A block written from its first to its last frame, read as samples.\<close>

lemma outs_after_whole:
  assumes "outs_after P D 0 n b b'" and "ch \<in> D" and "length (bk_out b ch) = n" and "y \<in> set (bk_out b' ch)"
  shows "P y"
proof -
  obtain i where "i < length (bk_out b' ch)" "bk_out b' ch ! i = y" using assms(4) by (meson in_set_conv_nth)
  moreover have "length (bk_out b' ch) = n" using assms(1,3) by (simp add: outs_after_def)
  ultimately show ?thesis using assms(1-3) by (auto simp: outs_after_def)
qed

lemma process_block:
  "process lm (p, block) = Some (p', block') \<Longrightarrow>
     \<exists>q l. segments lm (bk_frames block) 0 MAX_CMDS_PER_BLOCK False (p, block) = Some (q, block', l)"
  using process_cases by blast

lemma demo_libm_laws: "libm_laws demo_libm"
  by (simp add: libm_laws_def demo_libm_def)

end
