(* ===== verification/RtFollows.thy ===== *)
theory RtFollows
  imports RtProps
begin

text \<open>
  The RT processor implements the contract of the commands: \<open>targets\<close> reads what every ramp,
  filter and limiter of the processor moves towards. A segment changes no target; a command sets
  exactly the targets that \<open>view_op\<close> asks for; so after any block the processor follows the view
  of the commands it has taken from its queue.
\<close>

subsection \<open>Targets\<close>

definition sg_targets :: "stereo_gain \<Rightarrow> f64 \<times> f64 \<times> f64" where
  "sg_targets s = (rp_target (sg_l s), rp_target (sg_r s), rp_target (sg_on s))"

definition eq_goal :: "equalizer \<Rightarrow> dsp_band list \<times> f64" where
  "eq_goal e = (map bs_target (e_bands e), rp_target (e_global e))"

definition lim_goal :: "mix_limiter \<Rightarrow> bool \<times> f64" where
  "lim_goal m = (l_enabled (ml_lim m), rp_target (ml_raise m))"

definition input_targets :: "input_rt \<Rightarrow> (f64 \<times> f64 \<times> f64) \<times> dsp_band list \<times> f64" where
  "input_targets i = ((rp_target (ir_trim i), rp_target (ir_gate i), rp_target (ir_proc_mix i)), eq_goal (ir_eq i))"

definition group_targets :: "group_rt \<Rightarrow> (f64 \<times> f64 \<times> f64) \<times> dsp_band list \<times> f64" where
  "group_targets g = (sg_targets (gr_fader g), eq_goal (gr_eq g))"

record mix_targets =
  mt_levels :: "(f64 \<times> f64 \<times> f64) list"
  mt_groups :: "((f64 \<times> f64 \<times> f64) \<times> dsp_band list \<times> f64) list"
  mt_out :: "(f64 \<times> f64 \<times> f64) \<times> (dsp_band list \<times> f64) \<times> bool \<times> f64"
  mt_shadow :: "((f64 \<times> f64 \<times> f64) \<times> (dsp_band list \<times> f64) \<times> bool \<times> f64) option"

definition mix_targets :: "mix_rt \<Rightarrow> mix_targets" where
  "mix_targets x =
     \<lparr>mt_levels = map sg_targets (xr_levels x), mt_groups = map group_targets (xr_groups x),
      mt_out = (sg_targets (xr_fader x), eq_goal (xr_eq x), lim_goal (xr_limiter x)),
      mt_shadow = map_option (\<lambda>s. (sg_targets (sh_fader s), eq_goal (sh_eq s), lim_goal (sh_limiter s))) (xr_shadow x)\<rparr>"

definition targets ::
  "processor \<Rightarrow> ((f64 \<times> f64 \<times> f64) \<times> dsp_band list \<times> f64) list \<times> mix_targets list \<times> (nat option \<times> nat option)" where
  "targets p = (map input_targets (pr_inputs p), map mix_targets (pr_mixes p), pr_listen p)"

subsection \<open>A segment keeps them\<close>

lemma tick_target [simp]: "rp_target (fst (ramp_tick r)) = rp_target r"
  by (simp add: ramp_tick_def Let_def)

lemma run_target [simp]: "rp_target (fst (ramp_run n r)) = rp_target r"
  by (induction n arbitrary: r) (simp_all add: case_prod_beta)

lemma ramp_gain_target [simp]: "rp_target (fst (ramp_gain buf r)) = rp_target r"
proof -
  have "rp_target (fst (ramp_gain_moving buf r)) = rp_target r"
    by (induction buf arbitrary: r) (simp_all add: case_prod_beta)
  then show ?thesis by (simp add: ramp_gain_def)
qed

lemma crossfade_target [simp]: "rp_target (fst (crossfade ds ws r)) = rp_target r"
proof (induction ds arbitrary: ws r)
  case (Cons d ds)
  then show ?case by (cases ws) (simp_all add: Let_def case_prod_beta)
qed simp

lemma sgain_tick_targets [simp]: "sg_targets (fst (sgain_tick s)) = sg_targets s"
  by (simp add: sgain_tick_def sg_targets_def case_prod_beta)

lemma stereo_gain_targets [simp]: "sg_targets (fst (stereo_gain buf s)) = sg_targets s"
proof -
  have "sg_targets (fst (stereo_gain_moving buf s)) = sg_targets s"
    by (induction buf arbitrary: s) (simp_all add: case_prod_beta)
  then show ?thesis by (simp add: stereo_gain_def split: option.split)
qed

lemma accumulate_targets [simp]: "sg_targets (fst (accumulate src s dst)) = sg_targets s"
proof -
  have "sg_targets (fst (accumulate_moving src dst s)) = sg_targets s"
  proof (induction src arbitrary: dst s)
    case (Cons x src)
    then show ?case by (cases dst) (simp_all add: case_prod_beta)
  qed simp
  then show ?thesis by (simp add: accumulate_def split: option.split)
qed

lemma band_advance_target [simp]: "bs_target (band_advance lm fs s) = bs_target s"
  by (simp add: band_advance_def Let_def case_prod_beta)

lemma band_tick_target [simp]: "bs_target (fst (band_tick ch x s)) = bs_target s"
  by (simp add: band_tick_def Let_def case_prod_beta split: option.split)

lemma bands_tick_targets [simp]: "map bs_target (fst (bands_tick ch ss v)) = map bs_target ss"
  by (induction ss arbitrary: v) (simp_all add: Let_def case_prod_beta)

lemma chans_tick_targets [simp]: "map bs_target (fst (chans_tick g ch xs ss)) = map bs_target ss"
  by (induction xs arbitrary: ch ss) (simp_all add: Let_def case_prod_beta)

lemma eq_frame_goal [simp]: "eq_goal (fst (eq_frame lm xs e)) = eq_goal e"
  by (simp add: eq_frame_def eq_goal_def Let_def case_prod_beta)

lemma eq_process_goal [simp]: "eq_goal (fst (eq_process lm frames e)) = eq_goal e"
  by (induction frames arbitrary: e) (simp_all add: case_prod_beta)

lemma eq_stereo_goal [simp]: "eq_goal (fst (eq_stereo lm buf e)) = eq_goal e"
  by (simp add: eq_stereo_def case_prod_beta)

lemma eq_reset_goal [simp]: "eq_goal (eq_reset e) = eq_goal e"
  by (simp add: eq_reset_def eq_goal_def)

lemma limiter_frame_enabled [simp]: "l_enabled (fst (limiter_frame x l)) = l_enabled l"
  by (simp add: limiter_frame_def Let_def case_prod_beta)

lemma limiter_process_enabled [simp]: "l_enabled (fst (limiter_process xs l)) = l_enabled l"
  by (induction xs arbitrary: l) (simp_all add: case_prod_beta)

lemma mix_limiter_process_goal [simp]: "lim_goal (fst (mix_limiter_process lm xs m)) = lim_goal m"
proof -
  have "lim_goal (fst (mix_limiter_moving lm xs m)) = lim_goal m"
    by (induction xs arbitrary: m) (simp_all add: case_prod_beta lim_goal_def set_limit_db_def Let_def)
  then show ?thesis by (simp add: mix_limiter_process_def case_prod_beta lim_goal_def)
qed

lemma limiter_reset_goal [simp]: "lim_goal (m\<lparr>ml_lim := limiter_reset (ml_lim m)\<rparr>) = lim_goal m"
  by (simp add: lim_goal_def limiter_reset_def)

lemma sum_input_targets: "map sg_targets (fst (sum_input ins n i s)) = map sg_targets (fst s)"
  by (auto simp: sum_input_def case_prod_beta lget_def map_update list_update_same_conv split: option.splits if_splits)

lemma sum_mix_targets: "map sg_targets (fst (sum_mix src k ks s)) = map sg_targets (fst s)"
  by (auto simp: sum_mix_def case_prod_beta lget_def map_update list_update_same_conv split: option.splits if_splits)

lemma fold_sum_targets [simp]:
  "map sg_targets (fst (fold (sum_input ins n) is s)) = map sg_targets (fst s)"
  "map sg_targets (fst (fold (sum_mix src k) kss s)) = map sg_targets (fst s)"
  by (induction "is" arbitrary: s, simp_all add: sum_input_targets)
     (induction kss arbitrary: s, simp_all add: sum_mix_targets)

lemma render_strip_targets:
  "map sg_targets (fst (render_strip lm ins n g s lvs)) = map sg_targets lvs"
  "group_targets (fst (snd (render_strip lm ins n g s lvs))) = group_targets s"
  by (simp_all add: render_strip_def Let_def case_prod_beta group_targets_def)

lemma render_strips_targets:
  "map sg_targets (fst (render_strips lm ins n gs ss lvs buf)) = map sg_targets lvs \<and>
   map group_targets (fst (snd (render_strips lm ins n gs ss lvs buf))) = map group_targets ss"
proof (induction gs arbitrary: ss lvs buf)
  case (Cons g gs)
  then show ?case by (cases ss) (simp_all add: Let_def case_prod_beta render_strip_targets)
qed simp

lemma own_sum_targets: "mix_targets (fst (own_sum lm topo ins n x)) = mix_targets x"
proof -
  define s where "s = fold (sum_input ins n) (t_direct topo) (xr_levels x, replicate n (0, 0))"
  have "map sg_targets (fst s) = map sg_targets (xr_levels x)" by (simp add: s_def)
  then show ?thesis
    using render_strips_targets [of lm ins n "t_groups topo" "xr_groups x" "fst s" "snd s"]
    by (simp add: own_sum_def Let_def case_prod_beta mix_targets_def flip: s_def)
qed

lemma render_own_targets: "mix_targets (fst (render_own lm topo ins n x)) = mix_targets x"
proof -
  define y where "y = fst (own_sum lm topo ins n x)"
  have "mix_targets (fst (render_own lm topo ins n x)) = mix_targets y"
    by (simp add: render_own_def Let_def case_prod_beta render_shadow_def mix_targets_def flip: y_def split: option.split)
  then show ?thesis by (simp add: y_def own_sum_targets)
qed

lemma render_mix_targets:
  "map mix_targets (mc_mixes (render_mix lm topo listen hil probing sine fade off n m acc)) = map mix_targets (mc_mixes acc)"
proof (cases "m < length (t_mixes topo) \<and> m < length (mc_mixes acc)")
  case True
  define x' where "x' = mc_mixes (render_mix lm topo listen hil probing sine fade off n m acc) ! m"
  have "mc_mixes (render_mix lm topo listen hil probing sine fade off n m acc) = (mc_mixes acc)[m := x']"
    using True by (simp add: x'_def render_mix_def lget_def Let_def case_prod_beta)
  moreover have "mix_targets x' = mix_targets (mc_mixes acc ! m)"
    using True by (simp add: x'_def render_mix_def lget_def Let_def case_prod_beta mix_targets_def)
  ultimately show ?thesis using True by (simp add: map_update list_update_same_conv)
next
  case False
  then show ?thesis by (auto simp: render_mix_def lget_def)
qed

lemma fold_render_mix_targets:
  "map mix_targets (mc_mixes (fold (render_mix lm topo listen hil probing sine fade off n) ms acc)) = map mix_targets (mc_mixes acc)"
  by (induction ms arbitrary: acc) (simp_all add: render_mix_targets)

lemma render_mixes_targets: "targets (fst (render_mixes lm off n pb)) = targets (fst pb)"
  by (simp add: render_mixes_def Let_def add_trips_def targets_def fold_render_mix_targets comp_def render_own_targets)

lemma render_input_targets: "input_targets (fst (render_input lm block off n sine talk spec node)) = input_targets node"
  by (simp add: render_input_def Let_def case_prod_beta input_targets_def)

lemma render_inputs_targets: "targets (render_inputs lm block off n p) = targets p"
proof -
  define q where "q = (if pr_talkback_input p \<noteq> None then read_talkback n p else p)"
  have q: "targets q = targets p" by (simp add: q_def read_talkback_def Let_def case_prod_beta targets_def)
  define f where "f = (\<lambda>i spec node. render_input lm block off n
      (case pr_test q of Some t \<Rightarrow> if tt_input t = i then Some (prefix_of n (pr_test_buf q)) else None | None \<Rightarrow> None)
      (if Some i = pr_talkback_input q then Some (prefix_of n (pr_talk_buf q)) else None) spec node)"
  define rs where "rs = map (\<lambda>(i, spec, node). f i spec node) (enumerate 0 (zip (t_inputs (pr_topo q)) (pr_inputs q)))"
  have "map (input_targets \<circ> fst) rs = map input_targets (map snd (zip (t_inputs (pr_topo q)) (pr_inputs q)))"
    by (rule nth_equalityI) (simp_all add: rs_def nth_enumerate_eq case_prod_beta f_def render_input_targets)
  also have "map snd (zip (t_inputs (pr_topo q)) (pr_inputs q)) = take (length (t_inputs (pr_topo q))) (pr_inputs q)"
    by (cases "length (t_inputs (pr_topo q)) \<le> length (pr_inputs q)") (simp_all add: map_snd_zip_take min_def)
  finally have "map input_targets (map fst rs @ drop (length (t_inputs (pr_topo q))) (pr_inputs q)) = map input_targets (pr_inputs q)"
    by (metis append_take_drop_id map_append map_map)
  moreover have "render_inputs lm block off n p = add_trips (length (filter snd rs))
      (q\<lparr>pr_inputs := map fst rs @ drop (length (t_inputs (pr_topo q))) (pr_inputs q)\<rparr>)"
    unfolding render_inputs_def Let_def q_def rs_def f_def by (rule refl)
  ultimately show ?thesis using q by (simp add: add_trips_def targets_def)
qed

lemma set_caps_targets: "targets (set_caps on p) = targets p"
  by (simp add: set_caps_def targets_def mix_targets_def)

lemma small_steps_targets:
  "targets (end_test p) = targets p" "targets (tick_fade n p) = targets p" "targets (tick_test lm n p) = targets p"
  "targets (fst (render_hil off n pb)) = targets (fst pb)" "targets (note_faded (probe_latency off n pb)) = targets (fst pb)"
  "targets (p\<lparr>pr_time := t\<rparr>) = targets p" "targets (p\<lparr>pr_cmds := cs\<rparr>) = targets p"
  by (simp_all add: end_test_def set_caps_targets tick_fade_def tick_test_def render_hil_def note_faded_def probe_latency_def
      targets_def Let_def case_prod_beta set_caps_def mix_targets_def split: option.split)

lemma render_targets: "targets (fst (render lm off n pb)) = targets (fst pb)"
  by (simp add: render_def Let_def small_steps_targets render_mixes_targets render_inputs_targets)

lemma publish_meters_targets: "targets (publish_meters lm p) = targets p"
  by (simp add: publish_meters_def Let_def targets_def input_targets_def mix_targets_def group_targets_def comp_def
      option.map_comp)

subsection \<open>Following a view\<close>

text \<open>A ramp set to a value holds that value, or one the program's \<open>==\<close> cannot tell from it.\<close>

definition at_value :: "f64 \<Rightarrow> f64 \<Rightarrow> bool" where
  "at_value t x = (t = x \<or> feq x t)"

definition gain_at :: "libm \<Rightarrow> f64 \<times> f64 \<times> f64 \<Rightarrow> f64 \<Rightarrow> f64 \<Rightarrow> bool \<Rightarrow> bool" where
  "gain_at lm t vol pan muted =
     (at_value (fst t) (fst (send_gains lm vol False pan)) \<and> at_value (fst (snd t)) (snd (send_gains lm vol False pan)) \<and>
      at_value (snd (snd t)) (on_target muted))"

definition eq_valid :: "eq_params \<Rightarrow> bool" where
  "eq_valid ep = (length (ep_bands ep) = BANDS \<and> list_all is_valid (ep_bands ep) \<and> gain_valid (ep_global_gain ep))"

definition eq_at :: "dsp_band list \<times> f64 \<Rightarrow> eq_params \<Rightarrow> bool" where
  "eq_at g ep =
     (length (fst g) = BANDS \<and>
      (eq_valid ep \<longrightarrow> fst g = ep_bands ep \<and> at_value (snd g) (ep_global_gain ep)))"

definition input_at :: "(f64 \<times> f64 \<times> f64) \<times> dsp_band list \<times> f64 \<Rightarrow> input_params \<times> eq_params \<Rightarrow> bool" where
  "input_at t v =
     (at_value (fst (fst t)) (ip_trim (fst v)) \<and> at_value (fst (snd (fst t))) (on_target (ip_muted (fst v))) \<and>
      at_value (snd (snd (fst t))) (if ip_processing (fst v) then 1 else 0) \<and> eq_at (snd t) (snd v))"

definition out_at :: "libm \<Rightarrow> (f64 \<times> f64 \<times> f64) \<times> (dsp_band list \<times> f64) \<times> bool \<times> f64 \<Rightarrow> mix_view \<Rightarrow> bool" where
  "out_at lm t v =
     (gain_at lm (fst t) (mv_volume v) 0 (mv_muted v) \<and> eq_at (fst (snd t)) (mv_eq v) \<and>
      fst (snd (snd t)) = fst (mv_limiter v) \<and> at_value (snd (snd (snd t))) (snd (mv_limiter v)))"

definition level_at :: "libm \<Rightarrow> f64 \<times> f64 \<times> f64 \<Rightarrow> f64 \<times> f64 \<times> bool \<Rightarrow> bool" where
  "level_at lm t v = gain_at lm t (fst v) (fst (snd v)) (snd (snd v))"

definition group_at :: "libm \<Rightarrow> (f64 \<times> f64 \<times> f64) \<times> dsp_band list \<times> f64 \<Rightarrow> f64 \<times> bool \<times> eq_params \<Rightarrow> bool" where
  "group_at lm t v = (gain_at lm (fst t) (fst v) 0 (fst (snd v)) \<and> eq_at (snd t) (snd (snd v)))"

definition mix_at :: "libm \<Rightarrow> mix_targets \<Rightarrow> mix_view \<Rightarrow> bool" where
  "mix_at lm t v =
     (list_all2 (level_at lm) (mt_levels t) (mv_levels v) \<and> list_all2 (group_at lm) (mt_groups t) (mv_groups v) \<and>
      out_at lm (mt_out t) v \<and> pred_option (\<lambda>s. out_at lm s v) (mt_shadow t))"

definition follows :: "libm \<Rightarrow> rt_view \<Rightarrow> processor \<Rightarrow> bool" where
  "follows lm v p =
     (list_all2 input_at (fst (targets p)) (rv_inputs v) \<and> list_all2 (mix_at lm) (fst (snd (targets p))) (rv_mixes v) \<and>
      snd (snd (targets p)) = rv_listen v)"

lemma at_value_set [simp]: "at_value (rp_target (ramp_set r x)) x"
  by (simp add: ramp_set_def at_value_def)

lemma at_value_refl [simp]: "at_value x x"
  by (simp add: at_value_def)

lemma gain_at_set [simp]: "gain_at lm (sg_targets (sgain_set lm s vol muted pan)) vol pan muted"
  by (simp add: gain_at_def sgain_set_def sg_targets_def Let_def)

lemma band_set_target [simp]: "bs_target (band_set lm b fs s) = b"
  by (simp add: band_set_def Let_def band_new_def)

lemma zip_into_length [simp]: "length (zip_into f xs ys) = length xs"
  by (simp add: zip_into_def)

lemma zip_into_all: "length ys = length xs \<Longrightarrow> zip_into f xs ys = map2 f xs ys"
  by (simp add: zip_into_def)

lemma eq_at_set:
  assumes "eq_at (eq_goal e) old"
  shows "eq_at (eq_goal (fst (eq_set lm ep e))) ep"
proof -
  have len: "length (e_bands e) = BANDS" using assms by (simp add: eq_at_def eq_goal_def)
  have "map bs_target (e_bands (fst (eq_set lm ep e))) = ep_bands ep"
    if "length (ep_bands ep) = BANDS" "list_all is_valid (ep_bands ep)"
    by (rule nth_equalityI) (use that len in \<open>simp_all add: eq_set_def list_all_length zip_into_all\<close>)
  then show ?thesis using len by (simp add: eq_at_def eq_goal_def eq_valid_def) (simp add: eq_set_def)
qed

lemma gain_valid_feq: "feq x y \<Longrightarrow> gain_valid x \<Longrightarrow> gain_valid y"
  by (cases x; cases y) (auto simp: gain_valid_def zero_f64_def less_eq_f64_def)

lemma eq_at_rebuild:
  assumes "eq_at (eq_goal e) ep"
  shows "eq_at (eq_goal (eq_new lm 2 (eq_targets e) sr)) ep"
proof -
  have flat: "length (ep_bands standard_flat) = BANDS" by (simp add: standard_flat_def BANDS_def)
  have len: "length (e_bands e) = BANDS" using assms by (simp add: eq_at_def eq_goal_def)
  show ?thesis
  proof (cases "eq_valid ep")
    case True
    then have goal: "map bs_target (e_bands e) = ep_bands ep" "at_value (rp_target (e_global e)) (ep_global_gain ep)"
      using assms by (simp_all add: eq_at_def eq_goal_def)
    have "is_valid (bs_target (e_bands e ! i))" if "i < BANDS" for i
      using that True goal(1) len by (metis eq_valid_def list_all_length length_map nth_map)
    then have "map bs_target (e_bands (eq_new lm 2 (eq_targets e) sr)) = map bs_target (e_bands e)"
      by (intro nth_equalityI) (simp_all add: eq_new_def Let_def eq_targets_def flat len band_new_def zip_into_all)
    moreover have "at_value (rp_target (e_global (eq_new lm 2 (eq_targets e) sr))) (ep_global_gain ep)"
      using goal(2) True gain_valid_feq [of "ep_global_gain ep" "rp_target (e_global e)"]
      by (auto simp: eq_new_def Let_def eq_targets_def ramp_new_def eq_valid_def at_value_def)
    ultimately show ?thesis using goal assms by (simp add: eq_at_def eq_goal_def len)
  next
    case False
    then show ?thesis using assms len flat by (simp add: eq_at_def eq_goal_def) (simp add: eq_new_def Let_def eq_targets_def)
  qed
qed

subsection \<open>A command sets what the view says\<close>

lemma list_all2_lmod:
  assumes "list_all2 R (map g xs) ys" and "\<And>x y. R (g x) y \<Longrightarrow> R (g (f x)) (h y)"
  shows "list_all2 R (map g (lmod xs i f)) (lmod ys i h)"
  using assms by (auto simp: list_all2_conv_all_nth nth_lmod)

lemma follows_input:
  assumes "follows lm v p" and "\<And>x y. input_at (input_targets x) y \<Longrightarrow> input_at (input_targets (f x)) (h y)"
  shows "follows lm (on_input i h v) (upd_input_rt i f p)"
  using assms list_all2_lmod [of input_at input_targets "pr_inputs p" "rv_inputs v" f h "unat i"]
  by (simp add: follows_def targets_def on_input_def upd_input_rt_def)

lemma follows_mix:
  assumes "follows lm v p" and "\<And>x y. mix_at lm (mix_targets x) y \<Longrightarrow> mix_at lm (mix_targets (f x)) (h y)"
  shows "follows lm (on_mix m h v) (upd_mix_rt m f p)"
  using assms list_all2_lmod [of "mix_at lm" mix_targets "pr_mixes p" "rv_mixes v" f h "unat m"]
  by (simp add: follows_def targets_def on_mix_def upd_mix_rt_def)

lemma apply_input_at: "input_at (input_targets x) y \<Longrightarrow> input_at (input_targets (apply_input lm sr ip x)) (ip, snd y)"
  by (auto simp: input_at_def input_targets_def apply_input_def Let_def ramp_jump_def eq_at_rebuild)
    (simp_all add: ramp_new_def)

lemma apply_out_at:
  "mix_at lm (mix_targets x) y \<Longrightarrow> mix_at lm (mix_targets (apply_out lm vol mu x)) (y\<lparr>mv_volume := vol, mv_muted := mu\<rparr>)"
  by (cases "xr_shadow x") (simp_all add: mix_at_def mix_targets_def apply_out_def out_at_def)

lemma apply_mix_eq_at:
  "mix_at lm (mix_targets x) y \<Longrightarrow>
     mix_at lm (mix_targets (apply_mix_eq lm ep x)) (y\<lparr>mv_eq := ep\<rparr>)"
  by (cases "xr_shadow x") (auto simp: mix_at_def mix_targets_def apply_mix_eq_def out_at_def intro: eq_at_set)

lemma lim_goal_set:
  "fst (lim_goal (mix_limiter_set lm en db m)) = en" "at_value (snd (lim_goal (mix_limiter_set lm en db m))) db"
  by (simp_all add: lim_goal_def mix_limiter_set_def Let_def set_enabled_def set_limit_db_def ramp_jump_def)
    (simp add: ramp_new_def)

lemma apply_limiter_at:
  "mix_at lm (mix_targets x) y \<Longrightarrow> mix_at lm (mix_targets (apply_limiter lm en db x)) (y\<lparr>mv_limiter := (en, db)\<rparr>)"
  by (cases "xr_shadow x") (simp_all add: mix_at_def mix_targets_def apply_limiter_def out_at_def lim_goal_set)

lemma listen_at: "follows lm v p \<Longrightarrow> follows lm (view_op (RListen s mo) v) (rt_listen s mo p)"
  by (auto simp: follows_def targets_def rt_listen_def Let_def listen_put_def)

lemma level_op_at:
  "mix_at lm (mix_targets x) y \<Longrightarrow>
     mix_at lm (mix_targets (x\<lparr>xr_levels := lmod (xr_levels x) k (\<lambda>g. sgain_set lm g gain muted pan)\<rparr>))
       (y\<lparr>mv_levels := lmod (mv_levels y) k (\<lambda>_. (gain, pan, muted))\<rparr>)"
  by (auto simp: mix_at_def mix_targets_def out_at_def level_at_def intro!: list_all2_lmod split: option.splits)

lemma group_op_at:
  "mix_at lm (mix_targets x) y \<Longrightarrow>
     mix_at lm (mix_targets (x\<lparr>xr_groups := lmod (xr_groups x) k (\<lambda>s. s\<lparr>gr_fader := sgain_set lm (gr_fader s) gain muted 0\<rparr>)\<rparr>))
       (y\<lparr>mv_groups := lmod (mv_groups y) k (\<lambda>s. (gain, muted, snd (snd s)))\<rparr>)"
  by (auto simp: mix_at_def mix_targets_def out_at_def group_at_def group_targets_def intro!: list_all2_lmod split: option.splits)

lemma group_eq_op_at:
  "mix_at lm (mix_targets x) y \<Longrightarrow>
     mix_at lm (mix_targets (x\<lparr>xr_groups := lmod (xr_groups x) k (\<lambda>s. s\<lparr>gr_eq := fst (eq_set lm ep (gr_eq s))\<rparr>)\<rparr>))
       (y\<lparr>mv_groups := lmod (mv_groups y) k (\<lambda>s. (fst s, fst (snd s), ep))\<rparr>)"
  by (auto simp: mix_at_def mix_targets_def out_at_def group_at_def group_targets_def intro!: list_all2_lmod
      intro: eq_at_set split: option.splits)

lemma reset_limiter_targets:
  "mix_targets (x\<lparr>xr_limiter := (xr_limiter x)\<lparr>ml_lim := reset_active (ml_lim (xr_limiter x)), ml_base := 0\<rparr>\<rparr>) = mix_targets x"
  by (simp add: mix_targets_def lim_goal_def reset_active_def)

lemma rt_apply_follows:
  assumes "rt_apply lm op p = Some p'" and "follows lm v p"
  shows "follows lm (view_op op v) p'"
proof (cases op)
  case (RInput i ip)
  then show ?thesis using assms by (auto intro: follows_input apply_input_at)
next
  case (RInputEq i ep)
  have "follows lm (on_input i (\<lambda>x. (fst x, ep)) v) (upd_input_rt i (\<lambda>n. n\<lparr>ir_eq := fst (eq_set lm ep (ir_eq n))\<rparr>) p)"
    by (rule follows_input [OF assms(2)]) (auto simp: input_at_def input_targets_def intro: eq_at_set)
  then show ?thesis using assms RInputEq by auto
next
  case (RMixOut m vol mu)
  then show ?thesis using assms by (auto intro: follows_mix apply_out_at)
next
  case (RMixEq m ep)
  then show ?thesis using assms by (auto intro: follows_mix apply_mix_eq_at)
next
  case (RLimiter m en db)
  then show ?thesis using assms by (auto intro: follows_mix apply_limiter_at)
next
  case (RResetLimiter m)
  have "follows lm (on_mix m (\<lambda>y. y) v) (upd_mix_rt m
      (\<lambda>n. n\<lparr>xr_limiter := (xr_limiter n)\<lparr>ml_lim := reset_active (ml_lim (xr_limiter n)), ml_base := 0\<rparr>\<rparr>) p)"
    by (rule follows_mix [OF assms(2)]) (simp add: reset_limiter_targets)
  moreover have "on_mix m (\<lambda>y. y) v = v" by (simp add: on_mix_def lmod_def)
  ultimately show ?thesis using assms RResetLimiter by simp
next
  case (RLevel m k g pan mu)
  then show ?thesis using assms by (auto intro!: follows_mix level_op_at)
next
  case (RGroup m k g mu)
  then show ?thesis using assms by (auto intro!: follows_mix group_op_at)
next
  case (RGroupEq m k ep)
  then show ?thesis using assms by (auto intro!: follows_mix group_eq_op_at)
next
  case (RListen s mo)
  then show ?thesis using assms listen_at [of lm v p s mo] by auto
next
  case (RTestSignal i hz amp ttl)
  then show ?thesis using assms by (auto simp: rt_start_test_def Let_def follows_def set_caps_targets) (auto simp: targets_def)
next
  case (RHilTestSignal i hz amp ttl msk listen)
  then show ?thesis using assms by (auto simp: rt_start_test_def Let_def follows_def set_caps_targets) (auto simp: targets_def)
qed (use assms in \<open>auto simp: rt_stop_test_def rt_fade_out_def restart_fade_def follows_def targets_def split: if_splits\<close>)

lemma apply_all_follows:
  "apply_all lm ops p = Some p' \<Longrightarrow> follows lm v p \<Longrightarrow> follows lm (fold view_op ops v) p'"
proof (induction ops arbitrary: p v)
  case (Cons op ops)
  then show ?case using rt_apply_follows by (fastforce simp: bind_eq_Some_conv)
qed simp

subsection \<open>The queue\<close>

text \<open>From \<open>p\<close> to \<open>p'\<close> the processor took the first \<open>k\<close> commands of its queue and applied them in order.\<close>

definition consumes :: "libm \<Rightarrow> nat \<Rightarrow> processor \<Rightarrow> processor \<Rightarrow> bool" where
  "consumes lm k p p' =
     (k \<le> length (pr_cmds p) \<and> pr_cmds p' = drop k (pr_cmds p) \<and>
      (\<forall>v. follows lm v p \<longrightarrow>
         follows lm (fold view_op (map rc_op (take k (pr_cmds p))) v) p'))"

lemma consumes_none: "targets p' = targets p \<Longrightarrow> pr_cmds p' = pr_cmds p \<Longrightarrow> consumes lm 0 p p'"
  by (simp add: consumes_def follows_def)

lemma consumes_trans:
  assumes "consumes lm k p q" and "consumes lm j q r"
  shows "consumes lm (k + j) p r"
proof -
  have q: "pr_cmds q = drop k (pr_cmds p)" using assms(1) by (simp add: consumes_def)
  then have "take (k + j) (pr_cmds p) = take k (pr_cmds p) @ take j (pr_cmds q)" by (simp add: take_add)
  then show ?thesis using assms q by (auto simp: consumes_def add.commute)
qed

lemma apply_all_frame:
  "apply_all lm ops p = Some p' \<Longrightarrow> pr_topo p' = pr_topo p \<and> pr_time p' = pr_time p \<and> pr_cmds p' = pr_cmds p"
proof (induction ops arbitrary: p)
  case (Cons op ops)
  then show ?case using rt_apply_frame by (fastforce simp: bind_eq_Some_conv)
qed simp

text \<open>One step of \<open>apply_due\<close>: nothing is due, the due group waits for budget, or it is applied whole.\<close>

lemma apply_due_step:
  assumes "apply_due lm budget p = Some (p', b', l)"
  obtains (idle) "p' = p" "b' = budget" "\<not> l" "pr_cmds p = [] \<or> (\<exists>c cs. pr_cmds p = c # cs \<and> pr_time p < rc_at c)"
  | (deferred) c cs where "p' = p" "b' = budget" "l" "pr_cmds p = c # cs" "\<not> pr_time p < rc_at c" "budget < group_len c"
  | (group) c cs q where "pr_cmds p = c # cs" "\<not> pr_time p < rc_at c" "group_len c \<le> budget"
      "apply_all lm (map rc_op (take (group_len c) (pr_cmds p))) (p\<lparr>pr_cmds := drop (group_len c) (pr_cmds p)\<rparr>) = Some q"
      "apply_due lm (budget - group_len c) q = Some (p', b', l)"
proof (cases "pr_cmds p")
  case Nil
  then show ?thesis using assms that(1) by (simp add: apply_due.simps)
next
  case (Cons c cs)
  consider "pr_time p < rc_at c" | "\<not> pr_time p < rc_at c" "budget < group_len c" | "\<not> pr_time p < rc_at c" "group_len c \<le> budget"
    by fastforce
  then show ?thesis
  proof cases
    case 1
    then show ?thesis using assms that(1) Cons by (simp add: apply_due.simps)
  next
    case 2
    then show ?thesis using assms that(2) Cons by (simp add: apply_due.simps)
  next
    case 3
    then show ?thesis
      using assms that(3) [OF Cons] Cons by (auto simp: apply_due.simps [of lm budget p] bind_eq_Some_conv)
  qed
qed

lemma apply_due_consumes:
  "apply_due lm budget p = Some (p', b', l) \<Longrightarrow> \<exists>k. consumes lm k p p' \<and> k + b' \<le> budget \<and> pr_time p' = pr_time p"
proof (induction budget arbitrary: p rule: less_induct)
  case (less budget)
  from less.prems show ?case
  proof (cases rule: apply_due_step)
    case idle
    then show ?thesis by (intro exI [of _ 0]) (simp add: consumes_none)
  next
    case (deferred c cs)
    then show ?thesis by (intro exI [of _ 0]) (simp add: consumes_none)
  next
    case (group c cs q)
    let ?g = "group_len c" and ?k = "min (group_len c) (length (pr_cmds p))"
    have fr: "pr_time q = pr_time p" "pr_cmds q = drop ?g (pr_cmds p)" using apply_all_frame [OF group(4)] by simp_all
    have cut: "take ?k (pr_cmds p) = take ?g (pr_cmds p)" "drop ?k (pr_cmds p) = drop ?g (pr_cmds p)"
      by (simp_all add: min_def)
    have "consumes lm ?k p q"
      using apply_all_follows [OF group(4)] fr(2) unfolding consumes_def cut
      by (simp add: follows_def small_steps_targets)
    moreover obtain k where "consumes lm k q p'" "k + b' \<le> budget - ?g" "pr_time p' = pr_time q"
      using less.IH [OF _ group(5)] group(3) group_len_pos [of c] by auto
    ultimately show ?thesis
      using consumes_trans [of lm ?k p q k p'] fr(1) group(3) by (intro exI [of _ "?k + k"]) auto
  qed
qed

lemma segments_consumes:
  assumes "segments lm frames dn budget left pb = Some (p', block', l)" and "dn \<le> frames"
  shows "\<exists>k. consumes lm k (fst pb) p' \<and> k \<le> budget \<and> pr_time p' = pr_time (fst pb) + of_nat (frames - dn)"
  using assms
proof (induction "frames - dn" arbitrary: dn budget left pb rule: less_induct)
  case less
  show ?case
  proof (cases "dn = frames")
    case True
    then show ?thesis using less.prems by (intro exI [of _ 0]) (auto simp: segments.simps consumes_none)
  next
    case False
    then obtain p b f n q block where due: "apply_due lm budget (fst pb) = Some (p, b, f)"
      and n: "0 < n" "n \<le> frames - dn" and r: "render lm dn n (p, snd pb) = (q, block)"
      and rest: "segments lm frames (dn + n) b (left \<or> f \<or> waits (frames - dn) b p)
        (q\<lparr>pr_time := pr_time q + of_nat n\<rparr>, block) = Some (p', block', l)"
      using segments_step [OF less.prems(1)] less.prems(2) by (metis le_neq_implies_less)
    obtain k where k: "consumes lm k (fst pb) p" "k + b \<le> budget" "pr_time p = pr_time (fst pb)"
      using apply_due_consumes [OF due] by blast
    have q: "consumes lm 0 p (q\<lparr>pr_time := pr_time q + of_nat n\<rparr>)" "pr_time q = pr_time p"
      using r render_targets [of lm dn n "(p, snd pb)"] render_frame [of lm dn n "(p, snd pb)"]
      by (simp_all add: consumes_none small_steps_targets)
    have sh: "frames - (dn + n) < frames - dn" "dn + n \<le> frames" using n less.prems(2) False by simp_all
    obtain j where j: "consumes lm j (q\<lparr>pr_time := pr_time q + of_nat n\<rparr>) p'" "j \<le> b"
      "pr_time p' = pr_time q + of_nat n + of_nat (frames - (dn + n))"
      using less.hyps [OF sh(1) rest sh(2)] by auto
    have "frames - dn = n + (frames - (dn + n))" using n by simp
    then have "(of_nat (frames - dn) :: u64) = of_nat n + of_nat (frames - (dn + n))" by (metis of_nat_add)
    then show ?thesis
      using consumes_trans [OF consumes_trans [OF k(1) q(1)] j(1)] j k q(2) by (intro exI [of _ "k + j"]) simp
  qed
qed

lemma process_consumes:
  assumes "process lm (p, block) = Some (p', block')"
  shows "\<exists>k. consumes lm k p p' \<and> k \<le> MAX_CMDS_PER_BLOCK \<and> pr_time p' = pr_time p + of_nat (bk_frames block)"
proof -
  obtain q l p1 since where seg: "segments lm (bk_frames block) 0 MAX_CMDS_PER_BLOCK False (p, block) = Some (q, block', l)"
    and p1: "p1 = (if l then q\<lparr>pr_status := (pr_status q)\<lparr>st_deferred := st_deferred (pr_status q) + 1\<rparr>\<rparr> else q)"
    and p': "p' = (if METER_PERIOD \<le> since then publish_meters lm (p1\<lparr>pr_since_meter := since mod METER_PERIOD\<rparr>)
           else p1\<lparr>pr_since_meter := since\<rparr>)"
    using process_cases [OF assms] by blast
  obtain k where k: "consumes lm k p q" "k \<le> MAX_CMDS_PER_BLOCK" "pr_time q = pr_time p + of_nat (bk_frames block)"
    using segments_consumes [OF seg] by auto
  have "targets p1 = targets q" "pr_cmds p1 = pr_cmds q" "pr_time p1 = pr_time q" by (simp_all add: p1 targets_def)
  then have "targets p' = targets q" "pr_cmds p' = pr_cmds q" "pr_time p' = pr_time q"
    using publish_meters_targets by (simp_all add: p') (simp add: targets_def)
  then show ?thesis using k consumes_trans [OF k(1) consumes_none, of p'] by (intro exI [of _ k]) simp
qed

subsection \<open>Construction\<close>

lemma new_target [simp]: "rp_target (ramp_new x n) = x"
  by (simp add: ramp_new_def)

lemma sgain_new_at: "gain_at lm (sg_targets (sgain_new lm sr vol mu pan)) vol pan mu"
  by (simp add: gain_at_def sg_targets_def sgain_new_def Let_def)

lemma eq_new_at: "eq_at (eq_goal (eq_new lm 2 ep sr)) ep"
proof -
  have flat: "length (ep_bands standard_flat) = BANDS" by (simp add: standard_flat_def BANDS_def)
  have "map bs_target (e_bands (eq_new lm 2 ep sr)) = ep_bands ep"
    if "length (ep_bands ep) = BANDS" "list_all is_valid (ep_bands ep)"
    by (rule nth_equalityI) (use that flat in \<open>simp_all add: eq_new_def Let_def list_all_length zip_into_all band_new_def\<close>)
  then show ?thesis
    using flat by (simp add: eq_at_def eq_goal_def eq_valid_def) (simp add: eq_new_def Let_def)
qed

lemma clamp_limit_in_range: "in_range LIMIT_DB db \<Longrightarrow> clamp_limit db = db"
  by (auto simp: in_range_def clamp_limit_def LIMIT_DB_def LIMIT_MIN_DB_def LIMIT_MAX_DB_def fclamp_def order_finite)

lemma out_new_at:
  assumes "out_ok o'"
  shows "out_at lm (sg_targets (sgain_new lm sr (db_to_lin lm (mo_volume_db o')) (mo_muted o') 0),
     eq_goal (eq_new lm 2 (eq_params lm (mo_eq o')) sr),
     lim_goal (mix_limiter_new lm sr (lim_enabled (mo_limiter o')) (lim_limit_db (mo_limiter o')) n)) (out_part lm o' v)"
  using assms sgain_new_at eq_new_at
  by (simp add: out_at_def out_part_def lim_goal_def mix_limiter_new_def Let_def set_enabled_def limiter_new_def
      out_ok_def clamp_limit_in_range)

lemma proc_new_follows:
  assumes "topo_wf topo"
  shows "follows lm (view_of lm (core_new topo state rv fl)) (proc_new lm topo state counters opts hil hil_rx)"
proof -
  define c where "c = core_new topo state rv fl"
  define p where "p = proc_new lm topo state counters opts hil hil_rx"
  let ?r = "fst (core_reconcile topo state)" and ?sr = "f64_of_nat SAMPLE_RATE"
  have ok: "state_ok topo ?r" by (rule core_reconcile_ok) (rule assms)
  have c: "co_s c = ?r" "co_topo c = topo" "co_listen c = (None, None)" "co_solo c = []" by (simp_all add: c_def core_new_def)
  have ins: "pr_inputs p = map (input_rt_new lm ?sr) (rs_inputs ?r)" by (simp add: p_def proc_new_def Let_def)
  have "input_at (input_targets (input_rt_new lm ?sr s)) (input_view lm s)" for s
    by (simp add: input_at_def input_targets_def input_rt_new_def Let_def input_view_def eq_new_at)
  then have "list_all2 input_at (map input_targets (pr_inputs p)) (rv_inputs (view_of lm c))"
    by (simp add: ins view_of_def c list_all2_conv_all_nth)
  moreover have "mix_at lm (mix_targets (pr_mixes p ! m)) (rv_mixes (view_of lm c) ! m)" if m: "m < length (t_mixes topo)" for m
  proof -
    let ?q = "rs_mixes ?r ! m"
    have len: "length (rs_mixes ?r) = length (t_mixes topo)" and q: "rec_ok topo m ?q" using ok m by (simp_all add: state_ok_def)
    obtain sh cn where x: "pr_mixes p ! m = mix_rt_new lm ?sr sh cn ?q"
      using m len by (simp add: p_def proc_new_def Let_def nth_enumerate_eq)
    have v: "rv_mixes (view_of lm c) ! m = mix_view_of lm c m" using m len by (simp add: view_of_def c)
    have lv: "list_all2 (level_at lm) (map sg_targets (xr_levels (mix_rt_new lm ?sr sh cn ?q))) (mv_levels (mix_view_of lm c m))"
      using q m len by (simp add: list_all2_conv_all_nth mix_rt_new_def Let_def mix_view_of_def c rec_ok_def level_at_def
          level_view_def core_level_def solo_out_def lget_def or_default_def sgain_new_at)
    have gr: "list_all2 (group_at lm) (map group_targets (xr_groups (mix_rt_new lm ?sr sh cn ?q))) (mv_groups (mix_view_of lm c m))"
      by (simp add: list_all2_conv_all_nth mix_rt_new_def Let_def mix_view_of_def c group_at_def group_targets_def
          group_rt_new_def group_view_def sgain_new_at eq_new_at)
    have o: "mix_view_of lm c m = out_part lm (mr_out ?q) (mix_view_of lm c m)"
      by (simp add: out_part_def mix_view_of_def Let_def c)
    have "out_ok (mr_out ?q)" using q by (simp add: rec_ok_def)
    then show ?thesis
      using lv gr out_new_at [of "mr_out ?q" lm ?sr _ "mix_view_of lm c m"] unfolding x v mix_at_def
      by (simp add: mix_targets_def flip: o) (simp add: mix_rt_new_def Let_def shadow_rt_new_def)
  qed
  ultimately show ?thesis
    using ok by (simp add: follows_def targets_def flip: p_def c_def)
      (simp add: list_all2_conv_all_nth p_def proc_new_def Let_def view_of_def c state_ok_def)
qed

end
