(* ===== verification/RtQueue.thy ===== *)
theory RtQueue
  imports RtFollows
begin

text \<open>
  The command queue between the control thread and the callback: command groups are applied
  whole, in order and within the block's budget, a due group at the head is never starved, and a
  callback returns unless a panic was injected.
\<close>

subsection \<open>Groups\<close>

definition is_group :: "rt_cmd list \<Rightarrow> bool" where
  "is_group g = (g \<noteq> [] \<and> length g < 2 ^ 16 \<and> rc_group (hd g) = of_nat (length g))"

lemma push_group_is_group: "push_group slots at_time ops = Some g \<Longrightarrow> is_group g \<and> length g \<le> slots \<and> map rc_op g = ops"
proof -
  assume p: "push_group slots at_time ops = Some g"
  then have g: "g = map (\<lambda>(k, op). \<lparr>rc_at = at_time, rc_group = (if k = 0 then of_nat (length ops) else 0), rc_op = op\<rparr>)
      (enumerate 0 ops)" and len: "length ops < 2 ^ 16" "ops \<noteq> []" "length ops \<le> slots"
    by (auto simp: push_group_def not_le split: if_splits)
  have "map rc_op g = ops" by (rule nth_equalityI) (simp_all add: g nth_enumerate_eq)
  then show ?thesis using len by (cases ops) (simp_all add: g is_group_def)
qed

lemma group_len_head: "is_group (c # g) \<Longrightarrow> group_len c = Suc (length g)"
proof -
  assume "is_group (c # g)"
  then have len: "Suc (length g) < 65536" and c: "rc_group c = of_nat (Suc (length g))" by (simp_all add: is_group_def)
  have u: "unat (of_nat (Suc (length g)) :: u16) = Suc (length g)"
    using len by (simp add: unat_of_nat take_bit_nat_eq_self del: of_nat_Suc)
  then have "(1 :: u16) \<le> of_nat (Suc (length g))" by (simp add: word_le_nat_alt del: of_nat_Suc)
  then show ?thesis using u by (simp add: group_len_def c max_absorb1 del: of_nat_Suc)
qed

text \<open>From a queue of whole groups to what is left of it, with the budget spent.\<close>

definition takes_groups :: "rt_cmd list list \<Rightarrow> nat \<Rightarrow> processor \<Rightarrow> bool" where
  "takes_groups gss j p' = (j \<le> length gss \<and> pr_cmds p' = concat (drop j gss))"

lemma apply_due_groups:
  "apply_due lm budget p = Some (p', b', l) \<Longrightarrow> pr_cmds p = concat gss \<Longrightarrow> \<forall>g \<in> set gss. is_group g \<Longrightarrow>
     \<exists>j. takes_groups gss j p' \<and> length (concat (take j gss)) + b' = budget \<and>
       (gss \<noteq> [] \<and> \<not> pr_time p < rc_at (hd (hd gss)) \<and> length (hd gss) \<le> budget \<longrightarrow> 0 < j)"
proof (induction budget arbitrary: p gss rule: less_induct)
  case (less budget)
  show ?case
  proof (cases gss)
    case Nil
    then show ?thesis using less.prems by (intro exI [of _ 0]) (simp add: apply_due.simps takes_groups_def)
  next
    case (Cons g rest)
    obtain c cs where g: "g = c # cs" using less.prems(3) Cons by (cases g) (simp_all add: is_group_def)
    have gl: "group_len c = length g" using less.prems(3) Cons g group_len_head by simp
    have q: "pr_cmds p = c # cs @ concat rest" using less.prems(2) Cons g by simp
    from less.prems(1) show ?thesis
    proof (cases rule: apply_due_step)
      case idle
      then show ?thesis using less.prems(2) q Cons g by (intro exI [of _ 0]) (auto simp: takes_groups_def)
    next
      case (deferred d ds)
      then show ?thesis using less.prems(2) q Cons g gl by (intro exI [of _ 0]) (auto simp: takes_groups_def)
    next
      case (group d ds r)
      then have d: "d = c" using q by simp
      have r: "pr_cmds r = concat rest" using apply_all_frame [OF group(4)] q d gl g by simp
      obtain j where "takes_groups rest j p'" "length (concat (take j rest)) + b' = budget - group_len c"
        using less.IH [OF _ group(5) r] less.prems(3) Cons d group(3) group_len_pos [of c] by auto
      then show ?thesis using Cons gl group(3) d by (intro exI [of _ "Suc j"]) (auto simp: takes_groups_def)
    qed
  qed
qed

lemma segments_groups:
  assumes "segments lm frames dn budget left pb = Some (p', block', l)" and "dn \<le> frames"
    and "pr_cmds (fst pb) = concat gss" and "\<forall>g \<in> set gss. is_group g"
  shows "\<exists>j. takes_groups gss j p' \<and> length (concat (take j gss)) \<le> budget \<and>
    (dn < frames \<and> gss \<noteq> [] \<and> \<not> pr_time (fst pb) < rc_at (hd (hd gss)) \<and> length (hd gss) \<le> budget \<longrightarrow> 0 < j)"
  using assms
proof (induction "frames - dn" arbitrary: dn budget left pb gss rule: less_induct)
  case less
  show ?case
  proof (cases "dn = frames")
    case True
    then show ?thesis using less.prems by (intro exI [of _ 0]) (auto simp: segments.simps takes_groups_def)
  next
    case False
    then obtain p b f n q block where due: "apply_due lm budget (fst pb) = Some (p, b, f)"
      and n: "0 < n" "n \<le> frames - dn" and r: "render lm dn n (p, snd pb) = (q, block)"
      and rest: "segments lm frames (dn + n) b (left \<or> f \<or> waits (frames - dn) b p)
        (q\<lparr>pr_time := pr_time q + of_nat n\<rparr>, block) = Some (p', block', l)"
      using segments_step [OF less.prems(1)] less.prems(2) by (metis le_neq_implies_less)
    obtain i where i: "takes_groups gss i p" "length (concat (take i gss)) + b = budget"
      "gss \<noteq> [] \<and> \<not> pr_time (fst pb) < rc_at (hd (hd gss)) \<and> length (hd gss) \<le> budget \<longrightarrow> 0 < i"
      using apply_due_groups [OF due less.prems(3,4)] by blast
    have sh: "frames - (dn + n) < frames - dn" "dn + n \<le> frames" using n less.prems(2) False by simp_all
    have "pr_cmds q = concat (drop i gss)" using r render_frame(4) [of lm dn n "(p, snd pb)"] i(1) by (simp add: takes_groups_def)
    moreover have "\<forall>g \<in> set (drop i gss). is_group g" using less.prems(4) by (meson in_set_dropD)
    ultimately obtain j where j: "takes_groups (drop i gss) j p'" "length (concat (take j (drop i gss))) \<le> b"
      using less.hyps [OF sh(1) rest sh(2)] by auto
    have "length (concat (take (i + j) gss)) \<le> budget" using i(2) j(2) by (simp add: take_add)
    then show ?thesis using i j by (intro exI [of _ "i + j"]) (auto simp: takes_groups_def add.commute)
  qed
qed

lemma process_groups:
  assumes "process lm (p, block) = Some (p', block')" and "pr_cmds p = concat gss" and "\<forall>g \<in> set gss. is_group g"
  shows "\<exists>j. takes_groups gss j p' \<and> length (concat (take j gss)) \<le> MAX_CMDS_PER_BLOCK \<and>
    (0 < bk_frames block \<and> gss \<noteq> [] \<and> \<not> pr_time p < rc_at (hd (hd gss)) \<and> length (hd gss) \<le> MAX_CMDS_PER_BLOCK \<longrightarrow> 0 < j)"
proof -
  obtain q l p1 since where seg: "segments lm (bk_frames block) 0 MAX_CMDS_PER_BLOCK False (p, block) = Some (q, block', l)"
    and p1: "p1 = (if l then q\<lparr>pr_status := (pr_status q)\<lparr>st_deferred := st_deferred (pr_status q) + 1\<rparr>\<rparr> else q)"
    and p': "p' = (if METER_PERIOD \<le> since then publish_meters lm (p1\<lparr>pr_since_meter := since mod METER_PERIOD\<rparr>)
           else p1\<lparr>pr_since_meter := since\<rparr>)"
    using process_cases [OF assms(1)] by blast
  have "pr_cmds p' = pr_cmds q" by (simp add: p' p1)
  with segments_groups [OF seg] assms(2,3) show ?thesis by (simp add: takes_groups_def)
qed

subsection \<open>The callback returns\<close>

lemma rt_apply_some: "op \<noteq> RPanic \<Longrightarrow> \<exists>p'. rt_apply lm op p = Some p'"
  by (cases op) simp_all

lemma apply_all_some: "RPanic \<notin> set ops \<Longrightarrow> \<exists>p'. apply_all lm ops p = Some p'"
proof (induction ops arbitrary: p)
  case (Cons op ops)
  then obtain q where "rt_apply lm op p = Some q" using rt_apply_some [of op lm p] by auto
  with Cons show ?case by simp
qed simp

lemma apply_due_some: "RPanic \<notin> rc_op ` set (pr_cmds p) \<Longrightarrow> \<exists>r. apply_due lm budget p = Some r"
proof (induction budget arbitrary: p rule: less_induct)
  case (less budget)
  show ?case
  proof (cases "pr_cmds p")
    case (Cons c cs)
    let ?g = "group_len c"
    show ?thesis
    proof (cases "pr_time p < rc_at c \<or> budget < ?g")
      case False
      have "RPanic \<notin> set (map rc_op (take ?g (pr_cmds p)))" using less.prems by (auto dest: in_set_takeD)
      from apply_all_some [OF this] obtain q
        where q: "apply_all lm (map rc_op (take ?g (pr_cmds p))) (p\<lparr>pr_cmds := drop ?g (pr_cmds p)\<rparr>) = Some q" by blast
      have "RPanic \<notin> rc_op ` set (pr_cmds q)"
        using apply_all_frame [OF q] less.prems by (auto dest: in_set_dropD)
      then obtain r where "apply_due lm (budget - ?g) q = Some r"
        using less.IH [of "budget - ?g" q] False group_len_pos [of c] by auto
      then show ?thesis using False q Cons by (cases r) (simp add: apply_due.simps [of lm budget p])
    qed (use Cons in \<open>auto simp: apply_due.simps\<close>)
  qed (use exI [of Not False] in \<open>simp add: apply_due.simps\<close>)
qed

lemma segments_some:
  assumes "RPanic \<notin> rc_op ` set (pr_cmds (fst pb))"
  shows "\<exists>r. segments lm frames dn budget left pb = Some r"
  using assms
proof (induction "frames - dn" arbitrary: dn budget left pb rule: less_induct)
  case less
  show ?case
  proof (cases "frames \<le> dn")
    case False
    obtain p b f where due: "apply_due lm budget (fst pb) = Some (p, b, f)"
      using apply_due_some [OF less.prems] by (metis prod_cases3)
    let ?n = "seg_len (frames - dn) b p"
    obtain q block where r: "render lm dn ?n (p, snd pb) = (q, block)" by fastforce
    obtain k where "pr_cmds p = drop k (pr_cmds (fst pb))" using apply_due_consumes [OF due] by (auto simp: consumes_def)
    then have "RPanic \<notin> rc_op ` set (pr_cmds q)"
      using less.prems r render_frame(4) [of lm dn ?n "(p, snd pb)"] by (auto dest: in_set_dropD)
    moreover have "frames - (dn + ?n) < frames - dn" using False seg_shrinks [of dn frames b p] by simp
    ultimately obtain res where "segments lm frames (dn + ?n) b (left \<or> f \<or> waits (frames - dn) b p)
        (q\<lparr>pr_time := pr_time q + of_nat ?n\<rparr>, block) = Some res"
      using less.hyps [of "dn + ?n"] by fastforce
    then show ?thesis using False due r by (cases res) (simp add: segments.simps [of lm frames dn] Let_def)
  qed (simp add: segments.simps)
qed

lemma process_some:
  assumes "RPanic \<notin> rc_op ` set (pr_cmds p)"
  shows "\<exists>p' block'. process lm (p, block) = Some (p', block')"
proof -
  obtain q b l where "segments lm (bk_frames block) 0 MAX_CMDS_PER_BLOCK False (p, block) = Some (q, b, l)"
    using segments_some [of "(p, block)"] assms by (metis fst_conv prod_cases3)
  then show ?thesis by (simp add: process_def Let_def)
qed

subsection \<open>Runs\<close>

lemma runs_groups:
  "runs lm p0 p \<Longrightarrow> pr_cmds p0 = [] \<Longrightarrow> \<exists>gss. pr_cmds p = concat gss \<and> (\<forall>g \<in> set gss. is_group g)"
proof (induction rule: runs.induct)
  case started
  then show ?case by (intro exI [of _ "[]"]) simp
next
  case (pushed p at_time ops cs)
  then obtain gss where "pr_cmds p = concat gss" "\<forall>g \<in> set gss. is_group g" by auto
  then show ?case using push_group_is_group [OF pushed.hyps(2)] by (intro exI [of _ "gss @ [cs]"]) auto
next
  case (played p block p' block')
  then obtain gss where gss: "pr_cmds p = concat gss" "\<forall>g \<in> set gss. is_group g" by auto
  obtain j where "pr_cmds p' = concat (drop j gss)"
    using process_groups [OF played.hyps(2) gss] by (auto simp: takes_groups_def)
  then show ?case using gss(2) by (intro exI [of _ "drop j gss"]) (auto dest: in_set_dropD)
next
  case (gap p)
  then show ?case by (simp add: discontinuity_def restart_fade_def)
qed auto

lemma proc_new_cmds [simp]: "pr_cmds (proc_new lm topo state counters opts hil hil_rx) = []"
  and proc_new_topo [simp]: "pr_topo (proc_new lm topo state counters opts hil hil_rx) = topo"
  by (simp_all add: proc_new_def Let_def)

subsection \<open>A block that starts a test\<close>

definition starts_test :: "u64 \<Rightarrow> rt_op \<Rightarrow> bool" where
  "starts_test ttl op =
     ((\<exists>i hz amp. op = RTestSignal i hz amp ttl) \<or> (\<exists>i hz amp msk listen. op = RHilTestSignal i hz amp ttl msk listen))"

lemma rt_start_test_end:
  "pr_sr p = f64_of_nat SAMPLE_RATE \<Longrightarrow> unat (pr_time p) + k < 2 ^ 64 \<Longrightarrow> k \<le> unat ttl + 4800 \<Longrightarrow>
   \<exists>t. pr_test (rt_start_test i hz amp ttl msk listen p) = Some t \<and> tt_mask t = msk \<and> unat (pr_time p) + k \<le> unat (tt_end t)"
  by (auto simp: rt_start_test_def Let_def set_caps_def fade_ms_samples unat_sat_add64)

lemma segments_after_due:
  assumes "apply_due lm budget q = Some (p, b, l)" and "pr_cmds p = []" and "0 < frames"
  shows "segments lm frames 0 budget False (q, block) = segments lm frames 0 b l (p, block)"
  using assms due_empty [OF assms(2), of lm b] by (simp add: segments.simps [of lm frames 0] Let_def case_prod_beta)

lemma single_group:
  assumes "push_group slots at_time [op] = Some cs"
  shows "cs = [\<lparr>rc_at = at_time, rc_group = 1, rc_op = op\<rparr>]"
  using assms by (auto simp: push_group_def split: if_splits)

lemma apply_due_single:
  assumes "pr_cmds q = [\<lparr>rc_at = at_time, rc_group = 1, rc_op = op\<rparr>]" and "at_time \<le> pr_time q" and "0 < budget"
    and "rt_apply lm op (q\<lparr>pr_cmds := []\<rparr>) = Some p"
  shows "apply_due lm budget q = Some (p, budget - 1, False)"
proof -
  have "pr_cmds p = []" using rt_apply_frame [OF assms(4)] by simp
  then show ?thesis
    using assms by (simp add: apply_due.simps [of lm budget] group_len_def due_empty not_less not_le)
qed

text \<open>The state in which the first segment of a block that starts a test runs.\<close>

lemma test_block:
  assumes inv: "proc_inv q" and cmds: "pr_cmds q = []" and push: "push_group CMD_RING at_time [op] = Some cs"
    and op: "starts_test ttl op" and due: "at_time \<le> pr_time q"
    and len: "0 < bk_frames block" "bk_frames block \<le> unat ttl + 4800" "unat (pr_time q) + bk_frames block < 2 ^ 64"
    and run: "process lm (q\<lparr>pr_cmds := cs\<rparr>, block) = Some (p', block')"
  shows "\<exists>p r l b. rt_apply lm op q = Some p \<and> test_lasts (pr_topo q) (bk_frames block) p \<and>
    segments lm (bk_frames block) 0 b False (p, block) = Some (r, block', l)"
proof -
  let ?q = "q\<lparr>pr_cmds := cs\<rparr>"
  have cs: "cs = [\<lparr>rc_at = at_time, rc_group = 1, rc_op = op\<rparr>]" by (rule single_group) (rule push)
  have q: "?q\<lparr>pr_cmds := []\<rparr> = q" using cmds by simp
  obtain i hz amp msk listen where p: "rt_apply lm op q = Some (rt_start_test i hz amp ttl msk listen q)"
    using op by (auto simp: starts_test_def)
  let ?p = "rt_start_test i hz amp ttl msk listen q"
  have d: "apply_due lm MAX_CMDS_PER_BLOCK ?q = Some (?p, MAX_CMDS_PER_BLOCK - 1, False)"
    by (rule apply_due_single [of _ at_time op]) (use cs due p q in \<open>simp_all add: MAX_CMDS_PER_BLOCK_def\<close>)
  have fr: "pr_cmds ?p = []" "pr_topo ?p = pr_topo q" "pr_time ?p = pr_time q" using rt_apply_frame [OF p] cmds by simp_all
  obtain r l where "segments lm (bk_frames block) 0 MAX_CMDS_PER_BLOCK False (?q, block) = Some (r, block', l)"
    using process_block [OF run] by blast
  then have "segments lm (bk_frames block) 0 (MAX_CMDS_PER_BLOCK - 1) False (?p, block) = Some (r, block', l)"
    using segments_after_due [OF d fr(1) len(1), of block] by simp
  moreover have "test_lasts (pr_topo q) (bk_frames block) ?p"
    using rt_start_test_end [of q "bk_frames block" ttl i hz amp msk listen] rt_start_test_ok [OF inv] inv len fr
    by (auto simp: test_lasts_def proc_inv_def [of q])
  ultimately show ?thesis using p by blast
qed

subsection \<open>Properties\<close>

text \<open>A processor of the sample site, as started, and a block of undefined samples.\<close>

definition demo_proc :: processor where
  "demo_proc = proc_new demo_libm demo_topo mix_state_default [] \<lparr>op_fade_in_ms = Num 500, op_hold = False\<rparr> 0 0"

definition demo_block :: audio_block where
  "demo_block = \<lparr>bk_frames = 300, bk_in = (\<lambda>_. replicate 300 NaN), bk_out = (\<lambda>_. replicate 300 NaN)\<rparr>"

lemma demo_proc_start: "pr_time demo_proc = 0" "pr_cmds demo_proc = []"
  by (simp_all add: demo_proc_def proc_new_def Let_def)

lemma demo_topo_wf: "topo_wf demo_topo"
  by (rule compile_wf [OF demo_compiles])

lemma demo_fade: "samples (Num 500) (f64_of_nat SAMPLE_RATE) \<le> 2 ^ 24"
proof -
  have "fround (Num 500 * Num 96000 / Num 1000) = Num 48000" "chop 48000 = 48000" by code_simp+
  then show ?thesis by (simp add: samples_def sample_rate_f64 as_unsigned_def)
qed

text \<open>
  C1. Hearing safety: from construction on, through any sequence of command groups, talkback,
  blocks and discontinuities, every sample of every TX channel in a processed block is finite and
  at most full scale, whatever the inputs and the state are (given the laws of the mathematics
  library at the safety stage's constants, and a fade-in of at most 2^24 samples).
\<close>

theorem tx_within_full_scale:
  assumes "compile sha site = Inr topo" and "libm_laws lm"
    and "samples (op_fade_in_ms opts) (f64_of_nat SAMPLE_RATE) \<le> 2 ^ 24"
    and "runs lm (proc_new lm topo state counters opts hil hil_rx) p"
    and "process lm (p, block) = Some (p', block')"
    and "ch < length (t_tx topo)" and "length (bk_out block ch) = bk_frames block" and "y \<in> set (bk_out block' ch)"
  shows "is_finite y \<and> \<bar>val y\<bar> \<le> 1"
proof -
  have "proc_inv (proc_new lm topo state counters opts hil hil_rx)"
    by (rule proc_new_ok [OF compile_wf [OF assms(1)] assms(2,3)])
  then have p: "proc_inv p" "pr_topo p = topo" using runs_ok [OF assms(4)] by simp_all
  have "outs_after (amp_ok 1) {..<length (t_tx topo)} 0 (bk_frames block) block block'"
    using process_ok [OF assms(5) p(1)] p(2) by simp
  from outs_after_whole [OF this _ assms(7,8)] assms(6) show ?thesis by (simp add: amp_ok_def)
qed

theorem tx_within_full_scale_witness:
  "\<exists>p' block'. process demo_libm (demo_proc, demo_block) = Some (p', block') \<and>
     (\<forall>y \<in> set (bk_out block' 0). is_finite y \<and> \<bar>val y\<bar> \<le> 1)"
proof -
  obtain p' block' where r: "process demo_libm (demo_proc, demo_block) = Some (p', block')"
    using process_some [of demo_proc demo_libm demo_block] by (auto simp: demo_proc_def)
  have tx: "0 < length (t_tx demo_topo)" by code_simp
  have "is_finite y \<and> \<bar>val y\<bar> \<le> 1" if "y \<in> set (bk_out block' 0)" for y
    by (rule tx_within_full_scale [OF demo_compiles demo_libm_laws _ runs.started r [unfolded demo_proc_def] tx _ that])
      (use demo_fade in \<open>simp_all add: demo_block_def\<close>)
  with r show ?thesis by blast
qed


definition demo_test :: rt_op where
  "demo_test = RTestSignal 0 (Num 1000) 1 96000"

definition demo_hil :: rt_op where
  "demo_hil = RHilTestSignal 0 (Num 1000) 1 96000 [True] False"

lemma demo_runs_block:
  "op \<noteq> RPanic \<Longrightarrow> push_group CMD_RING 0 [op] = Some [\<lparr>rc_at = 0, rc_group = 1, rc_op = op\<rparr>] \<and>
     (\<exists>p' block'. process demo_libm (demo_proc\<lparr>pr_cmds := [\<lparr>rc_at = 0, rc_group = 1, rc_op = op\<rparr>]\<rparr>, demo_block) = Some (p', block'))"
  using process_some [of "demo_proc\<lparr>pr_cmds := [\<lparr>rc_at = 0, rc_group = 1, rc_op = op\<rparr>]\<rparr>" demo_libm demo_block]
  by (simp add: push_group_def CMD_RING_def)






text \<open>
  C7. The callback always returns: with no injected panic in the queue, \<open>process\<close> yields a
  processor and a block, the sample clock has advanced by exactly the block's frames, and only
  commands from the head of the queue are gone.
\<close>

theorem callback_returns:
  assumes "RPanic \<notin> rc_op ` set (pr_cmds p)"
  shows "\<exists>p' block' k. process lm (p, block) = Some (p', block') \<and>
    pr_time p' = pr_time p + of_nat (bk_frames block) \<and> pr_cmds p' = drop k (pr_cmds p)"
proof -
  obtain p' block' where r: "process lm (p, block) = Some (p', block')" using process_some [OF assms] by blast
  with process_consumes [OF r] show ?thesis by (auto simp: consumes_def)
qed

theorem callback_returns_witness:
  "\<exists>p' block' k. process demo_libm (demo_proc, demo_block) = Some (p', block') \<and>
    pr_time p' = pr_time demo_proc + of_nat (bk_frames demo_block) \<and> pr_cmds p' = drop k (pr_cmds demo_proc)"
  by (rule callback_returns) (simp add: demo_proc_start)

text \<open>
  C5. The processor implements the commands: if every ramp, filter and limiter of a processor
  moves towards the values of a view, then after a block it moves towards the values of that view
  with the commands it took from its queue applied in order; a segment by itself changes no target.
\<close>

theorem processor_follows_commands:
  assumes "process lm (p, block) = Some (p', block')" and "follows lm v p"
  shows "\<exists>k \<le> MAX_CMDS_PER_BLOCK. k \<le> length (pr_cmds p) \<and> pr_cmds p' = drop k (pr_cmds p) \<and>
    follows lm (fold view_op (map rc_op (take k (pr_cmds p))) v) p'"
  using process_consumes [OF assms(1)] assms(2) by (auto simp: consumes_def)

theorem processor_follows_commands_witness:
  "\<exists>p' block'. process demo_libm (demo_proc, demo_block) = Some (p', block') \<and>
    follows demo_libm (view_of demo_libm (core_new demo_topo mix_state_default 0 \<lparr>f_test_signal = False, f_fault_injection = False\<rparr>)) p'"
proof -
  obtain p' block' where r: "process demo_libm (demo_proc, demo_block) = Some (p', block')"
    using process_some [of demo_proc demo_libm demo_block] by (auto simp: demo_proc_start)
  have "follows demo_libm (view_of demo_libm (core_new demo_topo mix_state_default 0 \<lparr>f_test_signal = False, f_fault_injection = False\<rparr>)) demo_proc"
    unfolding demo_proc_def by (rule proc_new_follows) (rule demo_topo_wf)
  from processor_follows_commands [OF r this] r show ?thesis by (auto simp: demo_proc_start)
qed

text \<open>
  Both threads start from the same state: the processor built from a saved state moves
  towards exactly the values that the control core built from the same state must have the RT
  thread hold, limits, EQ, levels, group strips and shadows included.
\<close>

theorem construction_follows_core:
  assumes "compile sha site = Inr topo"
  shows "follows lm (view_of lm (core_new topo state rv fl)) (proc_new lm topo state counters opts hil hil_rx)"
  by (rule proc_new_follows) (rule compile_wf [OF assms])

end
