(* ===== verification/ControlProps.thy ===== *)
theory ControlProps
  imports ControlLoop CoreProps RtQueue
begin

text \<open>
  What the control loop guarantees: at most one controller and one supervisor, whatever the
  connections do and however writes fail; only the controller changes the mix; the backlog keeps
  commands in order and in whole groups; and with the RT thread behind the ring the processor ends
  up holding what the core says.
\<close>

subsection \<open>Sending\<close>

text \<open>What \<open>hello\<close> sends to the connection that said it.\<close>

definition greeting :: "outside \<Rightarrow> u64 \<Rightarrow> u16 \<Rightarrow> role \<Rightarrow> control \<Rightarrow> control" where
  "greeting ou i v r c5 =
     (let topo = co_topo (ct_core c5);
          c6 = send_msg ou i (MHello \<lparr>he_proto = v, he_build = ou_build ou, he_hash = t_hash topo,
                 he_rev = co_rev (ct_core c5), he_sample_rate = SAMPLE_RATE,
                 he_block = se_block (ct_settings c5), he_role = r\<rparr>) c5;
          c7 = send_msg ou i (MTopology (info topo)) c6;
          c8 = send_msg ou i (state_msg c7) c7
      in fold (\<lambda>a. send_msg ou i (MAlarm a)) (ct_alarms c8) c8)"

text \<open>
  All that sending does to the loop is to log what was sent and to drop connections whose write
  failed: what holds of these two, and of any sequence, holds of every way to send.
\<close>

locale sending =
  fixes R :: "control \<Rightarrow> control \<Rightarrow> bool"
  assumes refl: "R c c"
    and trans: "R a b \<Longrightarrow> R b c \<Longrightarrow> R a c"
    and logged: "R c (did d c)"
    and dropped: "R c (drop_peer ou i c)"
begin

lemma written: "R c (write_msg ou i msg c)"
  by (auto simp: write_msg_def refl logged dropped split: option.split)

lemma send: "R c (send_msg ou i msg c)"
  by (simp add: send_msg_def refl written)

lemma folded: "(\<And>x c. R c (f x c)) \<Longrightarrow> R c (fold f xs c)"
  by (induction xs arbitrary: c) (auto intro: refl trans)

lemma broadcast: "R c (broadcast ou msg c)"
  by (auto simp: broadcast_def intro: folded refl written)

lemma reply: "R c (reply_msg ou i rq e c)"
  by (simp add: reply_msg_def send)

lemma supersede_old: "R c (supersede ou old i c)"
  by (auto simp: supersede_def intro: refl trans [OF send dropped] split: option.split)

lemma greet: "R c (greeting ou i v r c)"
  unfolding greeting_def Let_def by (intro trans [OF _ folded] trans [OF _ send] send)

end

subsection \<open>What sending leaves alone\<close>

text \<open>The parts of the loop that talking to connections never touches.\<close>

definition mixing :: "control \<Rightarrow> core \<times> rt_op list list \<times> rt_cmd list" where
  "mixing c = (ct_core c, ct_pending c, ct_ring c)"

definition keeping where
  "keeping c = (ct_schedule c, ct_driver c, ct_supervisor c, ct_held c, ct_test_deadline c, ct_counters c, ct_alarms c,
     ct_last_status c, ct_settings c, ct_shutdown c, ct_trips_seen c, ct_hil_peaks c)"

text \<open>Talking drops some connections at most, and the controller with its own.\<close>

definition talks :: "control \<Rightarrow> control \<Rightarrow> bool" where
  "talks c c' =
     (mixing c' = mixing c \<and> keeping c' = keeping c \<and>
      (\<exists>gone. ct_peers c' = filter (\<lambda>(i, _). i \<notin> gone) (ct_peers c) \<and>
         ct_controller c' = (case ct_controller c of Some i \<Rightarrow> if i \<in> gone then None else Some i | None \<Rightarrow> None)))"

named_theorems talking

lemma talks_refl [talking]: "talks c c"
  unfolding talks_def by (auto intro!: exI [of _ "{}"] simp: case_prod_beta split: option.split)

lemma talks_trans: "talks a b \<Longrightarrow> talks b c \<Longrightarrow> talks a c"
proof -
  assume ab: "talks a b" and bc: "talks b c"
  obtain g where g: "ct_peers b = filter (\<lambda>(i, _). i \<notin> g) (ct_peers a)"
    "ct_controller b = (case ct_controller a of Some i \<Rightarrow> if i \<in> g then None else Some i | None \<Rightarrow> None)"
    using ab by (auto simp: talks_def)
  obtain h where h: "ct_peers c = filter (\<lambda>(i, _). i \<notin> h) (ct_peers b)"
    "ct_controller c = (case ct_controller b of Some i \<Rightarrow> if i \<in> h then None else Some i | None \<Rightarrow> None)"
    using bc by (auto simp: talks_def)
  have "ct_peers c = filter (\<lambda>(i, _). i \<notin> g \<union> h) (ct_peers a)"
    by (auto simp: g(1) h(1) intro!: filter_cong)
  moreover have "ct_controller c = (case ct_controller a of Some i \<Rightarrow> if i \<in> g \<union> h then None else Some i | None \<Rightarrow> None)"
    by (auto simp: g(2) h(2) split: option.split)
  moreover have "mixing c = mixing a" "keeping c = keeping a" using ab bc by (simp_all add: talks_def)
  ultimately show ?thesis unfolding talks_def by blast
qed

lemma did_talks [talking]: "talks c (did d c)"
  using talks_refl [of c] by (simp add: talks_def did_def mixing_def keeping_def)

lemma drop_peer_talks [talking]: "talks c (drop_peer ou i c)"
proof -
  have "ct_peers c = filter (\<lambda>(j, _). j \<notin> {i}) (ct_peers c)" if "map_of (ct_peers c) i = None"
    using that by (intro filter_True [symmetric]) (force simp: map_of_eq_None_iff)
  then have "ct_peers (drop_peer ou i c) = filter (\<lambda>(j, _). j \<notin> {i}) (ct_peers c)"
    by (auto simp: drop_peer_def Let_def did_def bm_remove_def split: option.split)
  moreover have "ct_controller (drop_peer ou i c) =
      (case ct_controller c of Some j \<Rightarrow> if j \<in> {i} then None else Some j | None \<Rightarrow> None)"
    by (auto simp: drop_peer_def Let_def did_def split: option.split)
  moreover have "mixing (drop_peer ou i c) = mixing c" "keeping (drop_peer ou i c) = keeping c"
    by (simp_all add: drop_peer_def Let_def did_def mixing_def keeping_def split: option.split)
  ultimately show ?thesis unfolding talks_def by blast
qed

interpretation tk: sending talks
  by unfold_locales (rule talks_refl, erule (1) talks_trans, rule did_talks, rule drop_peer_talks)

lemmas send_talks [talking] = tk.send
lemmas broadcast_talks [talking] = tk.broadcast
lemmas reply_talks [talking] = tk.reply
lemmas supersede_talks [talking] = tk.supersede_old
lemmas greeting_talks [talking] = tk.greet
lemmas fold_talks = tk.folded

lemma talks_mixing: "talks c c' \<Longrightarrow> mixing c' = mixing c"
  and talks_keeping: "talks c c' \<Longrightarrow> keeping c' = keeping c"
  by (simp_all add: talks_def)

lemmas talks_fields =
  talks_mixing [unfolded mixing_def, simplified] talks_keeping [unfolded keeping_def, simplified]

lemma talks_peer: "talks c c' \<Longrightarrow> map_of (ct_peers c') i = Some r \<Longrightarrow> map_of (ct_peers c) i = Some r"
proof -
  assume "talks c c'" and r: "map_of (ct_peers c') i = Some r"
  then obtain g where g: "ct_peers c' = filter (\<lambda>(i, _). i \<notin> g) (ct_peers c)" by (auto simp: talks_def)
  have "map_of (filter (\<lambda>(i, _). i \<notin> g) xs) i = (if i \<in> g then None else map_of xs i)" for xs :: "(u64 \<times> role option) list"
    by (induction xs) auto
  then show ?thesis using r g by (auto split: if_splits)
qed

subsection \<open>The invariant\<close>

text \<open>
  A peer with the controller's or the supervisor's role is the one the loop knows as such, the
  controller is connected, and the lists are within their bounds.
\<close>

definition roles_ok :: "control \<Rightarrow> bool" where
  "roles_ok c =
     (bm_ok (ct_peers c) \<and> length (ct_peers c) \<le> MAX_CONNS \<and>
      (\<forall>i. map_of (ct_peers c) i = Some (Some Control) \<longrightarrow> ct_controller c = Some i) \<and>
      (\<forall>i. map_of (ct_peers c) i = Some (Some Supervisor) \<longrightarrow> ct_supervisor c = Some i) \<and>
      (\<forall>i. ct_controller c = Some i \<longrightarrow> map_of (ct_peers c) i \<noteq> None))"

text \<open>The ring holds whole groups, each due at once and within a block's budget.\<close>

definition due_group :: "rt_cmd list \<Rightarrow> bool" where
  "due_group g = (is_group g \<and> length g \<le> MAX_CMDS_PER_BLOCK \<and> rc_at (hd g) = 0)"

definition backlog_ok :: "control \<Rightarrow> bool" where
  "backlog_ok c =
     ((\<forall>g \<in> set (ct_pending c). g \<noteq> [] \<and> length g \<le> MAX_CMDS_PER_BLOCK) \<and> length (ct_ring c) \<le> CMD_RING \<and>
      (\<exists>gss. ct_ring c = concat gss \<and> (\<forall>g \<in> set gss. due_group g)))"

definition control_ok :: "control \<Rightarrow> bool" where
  "control_ok c =
     (core_ok (ct_core c) \<and> roles_ok c \<and> backlog_ok c \<and> length (ct_alarms c) \<le> MAX_ALARMS \<and>
      length (ct_hil_peaks c) = length (co_hil (ct_core c)))"

lemma map_of_gone: "map_of (filter (\<lambda>(i, _). i \<notin> g) xs) i = (if i \<in> g then None else map_of xs i)"
  by (induction xs) auto

lemma talks_roles: "talks c c' \<Longrightarrow> roles_ok c \<Longrightarrow> roles_ok c'"
proof -
  assume t: "talks c c'" and ok: "roles_ok c"
  obtain g where g: "ct_peers c' = filter (\<lambda>(i, _). i \<notin> g) (ct_peers c)"
    "ct_controller c' = (case ct_controller c of Some i \<Rightarrow> if i \<in> g then None else Some i | None \<Rightarrow> None)"
    using t by (auto simp: talks_def)
  have "bm_ok (ct_peers c')" using ok unfolding g(1) roles_ok_def bm_ok_def
    by (metis (no_types, lifting) sorted_wrt_filter sorted_wrt_map)
  moreover have "length (ct_peers c') \<le> MAX_CONNS"
    unfolding g(1) using ok by (intro order_trans [OF length_filter_le]) (simp add: roles_ok_def)
  ultimately show ?thesis
    using ok g talks_fields(1-) [OF t] by (auto simp: roles_ok_def map_of_gone split: if_splits option.splits)
qed


lemma talks_ok: "talks c c' \<Longrightarrow> control_ok c \<Longrightarrow> control_ok c'"
  using talks_roles [of c c'] talks_fields [of c c'] by (simp add: control_ok_def backlog_ok_def)

lemma roles_ok_fields:
  "ct_peers c' = ct_peers c \<Longrightarrow> ct_controller c' = ct_controller c \<Longrightarrow> ct_supervisor c' = ct_supervisor c \<Longrightarrow>
   roles_ok c' = roles_ok c"
  by (simp add: roles_ok_def)

subsection \<open>Saying hello\<close>

lemma length_bm_insert: "length (bm_insert k v m) \<le> Suc (length m)"
  by (induction k v m rule: bm_insert.induct) auto

lemma length_bm_overwrite: "k \<in> fst ` set m \<Longrightarrow> bm_ok m \<Longrightarrow> length (bm_insert k v m) = length m"
proof (induction k v m rule: bm_insert.induct)
  case (2 k v a b m)
  have "a < k" if "k \<in> fst ` set m" using that 2(3) by (auto simp: bm_ok_def)
  with 2 show ?case by (auto simp: bm_ok_def)
qed simp

lemma drop_peer_gone: "map_of (ct_peers (drop_peer ou i c)) i = None"
  by (auto simp: drop_peer_def Let_def did_def map_of_bm_remove split: option.split)

lemma drop_peer_other:
  "j \<noteq> i \<Longrightarrow> map_of (ct_peers (drop_peer ou i c)) j = map_of (ct_peers c) j"
  by (auto simp: drop_peer_def Let_def did_def map_of_bm_remove split: option.split)

lemma send_other: "j \<noteq> i \<Longrightarrow> map_of (ct_peers (send_msg ou i msg c)) j = map_of (ct_peers c) j"
  by (auto simp: send_msg_def write_msg_def did_def drop_peer_other split: option.split)

lemma supersede_peers:
  "map_of (ct_peers (supersede ou old i c)) i = map_of (ct_peers c) i"
  "old = Some j \<Longrightarrow> j \<noteq> i \<Longrightarrow> map_of (ct_peers (supersede ou old i c)) j = None"
  by (auto simp: supersede_def drop_peer_other send_other drop_peer_gone split: option.split)

text \<open>The connection takes its role after the one that had it is gone.\<close>

lemma take_role_ok:
  assumes "roles_ok c" and "map_of (ct_peers c) i \<noteq> None"
    and "r = Control \<Longrightarrow> ct_controller c = Some i \<and> (\<forall>j. j \<noteq> i \<longrightarrow> map_of (ct_peers c) j \<noteq> Some (Some Control))"
    and "r = Supervisor \<Longrightarrow> ct_supervisor c = Some i"
  shows "roles_ok (c\<lparr>ct_peers := bm_insert i (Some r) (ct_peers c)\<rparr>)"
proof -
  have "i \<in> fst ` set (ct_peers c)" using assms(2) by (auto simp: map_of_eq_None_iff)
  then have "length (bm_insert i (Some r) (ct_peers c)) = length (ct_peers c)"
    using assms(1) by (simp add: length_bm_overwrite roles_ok_def)
  then show ?thesis using assms by (auto simp: roles_ok_def bm_insert_ok)
qed

text \<open>How \<open>hello\<close> makes a connection the controller, and the supervisor.\<close>

definition as_controller :: "outside \<Rightarrow> u64 \<Rightarrow> role \<Rightarrow> control \<Rightarrow> control" where
  "as_controller ou i r c =
     (let c1 = (if r = Control then supersede ou (ct_controller c) i c else c)
      in if r = Control then c1\<lparr>ct_controller := Some i, ct_controller_lost := None\<rparr> else c1)"

definition as_supervisor :: "outside \<Rightarrow> u64 \<Rightarrow> role \<Rightarrow> control \<Rightarrow> control" where
  "as_supervisor ou i r c =
     (let c1 = (if r = Supervisor then supersede ou (ct_supervisor c) i c else c)
      in if r = Supervisor then c1\<lparr>ct_supervisor := Some i\<rparr> else c1)"

lemma hello_eq:
  "hello ou i proto r c =
     (case negotiate PROTO proto of
        None \<Rightarrow> drop_peer ou i (reply_msg ou i 0 (Some (cmd_err Unsupported (''protocol '' @ show_nat (unat proto) @
            '' is not supported (the engine speaks '' @ show_nat (unat PROTO) @ '' and one version older)''))) c)
      | Some v \<Rightarrow>
          (let c4 = as_supervisor ou i r (as_controller ou i r c)
           in case map_of (ct_peers c4) i of
                None \<Rightarrow> c4
              | Some _ \<Rightarrow> greeting ou i v r (c4\<lparr>ct_peers := bm_insert i (Some r) (ct_peers c4)\<rparr>)))"
  unfolding hello_def as_controller_def as_supervisor_def greeting_def Let_def by (rule refl)

lemma hello_steps:
  assumes "map_of (ct_peers c) i \<noteq> None" and "negotiate PROTO proto = Some v"
  shows "hello ou i proto r c =
     (let c4 = as_supervisor ou i r (as_controller ou i r c)
      in greeting ou i v r (c4\<lparr>ct_peers := bm_insert i (Some r) (ct_peers c4)\<rparr>))"
proof -
  have "map_of (ct_peers (as_supervisor ou i r (as_controller ou i r c))) i = map_of (ct_peers c) i"
    by (simp add: as_supervisor_def as_controller_def Let_def supersede_peers)
  then show ?thesis using assms by (auto simp: hello_eq Let_def)
qed

lemma as_controller_ok:
  assumes ok: "roles_ok c" and i: "map_of (ct_peers c) i \<noteq> None"
  shows "roles_ok (as_controller ou i r c)" (is ?roles)
    and "mixing (as_controller ou i r c) = mixing c \<and> keeping (as_controller ou i r c) = keeping c"
    and "map_of (ct_peers (as_controller ou i r c)) i = map_of (ct_peers c) i"
    and "r = Control \<Longrightarrow> ct_controller (as_controller ou i r c) = Some i \<and>
           (\<forall>j. j \<noteq> i \<longrightarrow> map_of (ct_peers (as_controller ou i r c)) j \<noteq> Some (Some Control))"
proof -
  let ?s = "supersede ou (ct_controller c) i c"
  have t: "talks c ?s" by (rule supersede_talks)
  have sole: "j = i" if "map_of (ct_peers ?s) j = Some (Some Control)" for j
    using talks_peer [OF t that] supersede_peers(2) [of "ct_controller c" j i ou c] ok that
    by (auto simp: roles_ok_def)
  show ?roles
    using talks_roles [OF t ok] sole ok i supersede_peers(1) [of ou "ct_controller c" i c]
    by (auto simp: as_controller_def Let_def roles_ok_def)
  show "mixing (as_controller ou i r c) = mixing c \<and> keeping (as_controller ou i r c) = keeping c"
    using talks_mixing [OF t] talks_keeping [OF t] by (simp add: as_controller_def Let_def mixing_def keeping_def)
  show "map_of (ct_peers (as_controller ou i r c)) i = map_of (ct_peers c) i"
    by (simp add: as_controller_def Let_def supersede_peers)
  show "r = Control \<Longrightarrow> ct_controller (as_controller ou i r c) = Some i \<and>
      (\<forall>j. j \<noteq> i \<longrightarrow> map_of (ct_peers (as_controller ou i r c)) j \<noteq> Some (Some Control))"
    using sole by (auto simp: as_controller_def Let_def)
qed

lemma as_supervisor_ok:
  assumes ok: "roles_ok c" and i: "map_of (ct_peers c) i \<noteq> None"
  shows "roles_ok (as_supervisor ou i r c)" (is ?roles)
    and "r \<noteq> Supervisor \<Longrightarrow> as_supervisor ou i r c = c"
    and "mixing (as_supervisor ou i r c) = mixing c"
    and "ct_alarms (as_supervisor ou i r c) = ct_alarms c" "ct_hil_peaks (as_supervisor ou i r c) = ct_hil_peaks c"
    and "map_of (ct_peers (as_supervisor ou i r c)) i = map_of (ct_peers c) i"
    and "r = Supervisor \<Longrightarrow> ct_supervisor (as_supervisor ou i r c) = Some i"
proof -
  let ?s = "supersede ou (ct_supervisor c) i c"
  have t: "talks c ?s" by (rule supersede_talks)
  have sole: "j = i" if "map_of (ct_peers ?s) j = Some (Some Supervisor)" for j
    using talks_peer [OF t that] supersede_peers(2) [of "ct_supervisor c" j i ou c] ok that
    by (auto simp: roles_ok_def)
  show ?roles
    using talks_roles [OF t ok] sole ok by (auto simp: as_supervisor_def Let_def roles_ok_def)
  show "mixing (as_supervisor ou i r c) = mixing c" "ct_alarms (as_supervisor ou i r c) = ct_alarms c"
    "ct_hil_peaks (as_supervisor ou i r c) = ct_hil_peaks c"
    using talks_fields [OF t] by (simp_all add: as_supervisor_def Let_def mixing_def)
  show "map_of (ct_peers (as_supervisor ou i r c)) i = map_of (ct_peers c) i"
    by (simp add: as_supervisor_def Let_def supersede_peers)
qed (simp_all add: as_supervisor_def Let_def)

lemma hello_mixing: "mixing (hello ou i proto r c) = mixing c"
proof -
  have sup: "mixing (supersede ou old i d) = mixing d" for old d by (rule talks_mixing [OF supersede_talks])
  have "mixing (as_controller ou i r d) = mixing d" "mixing (as_supervisor ou i r d) = mixing d" for d
    using sup [of "ct_controller d" d] sup [of "ct_supervisor d" d]
    by (simp_all add: as_controller_def as_supervisor_def Let_def mixing_def)
  moreover have "mixing (x\<lparr>ct_peers := y\<rparr>) = mixing x" for x y by (simp add: mixing_def)
  ultimately show ?thesis
    by (simp add: hello_eq Let_def talks_mixing [OF drop_peer_talks] talks_mixing [OF reply_talks]
        talks_mixing [OF greeting_talks] split: option.split)
qed

lemma hello_ok: "map_of (ct_peers c) i \<noteq> None \<Longrightarrow> control_ok c \<Longrightarrow> control_ok (hello ou i proto r c)"
proof (cases "negotiate PROTO proto")
  case None
  assume "map_of (ct_peers c) i \<noteq> None" "control_ok c"
  with None show ?thesis
    by (simp add: hello_eq) (meson talks_ok talks_trans reply_talks drop_peer_talks)
next
  case (Some v)
  assume i: "map_of (ct_peers c) i \<noteq> None" and ok: "control_ok c"
  let ?a = "as_controller ou i r c" let ?b = "as_supervisor ou i r ?a"
  note a = as_controller_ok [OF _ i]
  have ro: "roles_ok c" using ok by (simp add: control_ok_def)
  have ai: "map_of (ct_peers ?a) i \<noteq> None" using a(3) [OF ro] i by simp
  note b = as_supervisor_ok [OF a(1) [OF ro] ai]
  have "roles_ok (?b\<lparr>ct_peers := bm_insert i (Some r) (ct_peers ?b)\<rparr>)"
    by (rule take_role_ok) (use b a(4) [OF ro] ai in auto)
  then have "control_ok (?b\<lparr>ct_peers := bm_insert i (Some r) (ct_peers ?b)\<rparr>)"
    using ok a(2) [OF ro] b(3,4,5) by (simp add: control_ok_def backlog_ok_def mixing_def keeping_def)
  from talks_ok [OF greeting_talks this] Some show ?thesis by (simp add: hello_steps [OF i Some] Let_def)
qed

subsection \<open>Alarms and saves\<close>

lemma push_alarm_bound: "length xs \<le> MAX_ALARMS \<Longrightarrow> length (push_alarm xs a) \<le> MAX_ALARMS"
  by (simp add: push_alarm_def Let_def)

lemma control_ok_fields:
  assumes "control_ok c" and "mixing c' = mixing c"
    and "ct_peers c' = ct_peers c" "ct_controller c' = ct_controller c" "ct_supervisor c' = ct_supervisor c"
    and "length (ct_alarms c') \<le> MAX_ALARMS" and "length (ct_hil_peaks c') = length (ct_hil_peaks c)"
  shows "control_ok c'"
  using assms roles_ok_fields [of c' c] by (simp add: control_ok_def backlog_ok_def mixing_def)

lemma alarm_ok: "control_ok c \<Longrightarrow> control_ok (raise_alarm ou code d c)"
proof -
  assume ok: "control_ok c"
  then have "length (push_alarm (ct_alarms c) a) \<le> MAX_ALARMS" for a by (simp add: push_alarm_bound control_ok_def)
  then have "control_ok (c\<lparr>ct_alarms := push_alarm (ct_alarms c) a\<rparr>)" for a
    by (intro control_ok_fields [OF ok]) (simp_all add: mixing_def)
  then show ?thesis by (simp add: raise_alarm_def Let_def talks_ok [OF broadcast_talks])
qed

lemma alarm_mixing: "mixing (raise_alarm ou code d c) = mixing c"
  by (simp add: raise_alarm_def Let_def talks_mixing [OF broadcast_talks]) (simp add: mixing_def)

lemma save_ok: "control_ok c \<Longrightarrow> control_ok (save ou c)"
proof -
  assume "control_ok c"
  then have "control_ok (c\<lparr>ct_schedule := schedule_default\<rparr>)"
    by (rule control_ok_fields) (use \<open>control_ok c\<close> in \<open>simp_all add: mixing_def control_ok_def\<close>)
  then show ?thesis
    by (auto simp: save_def Let_def intro!: alarm_ok talks_ok [OF broadcast_talks] talks_ok [OF did_talks] split: sum.split option.split)
qed

lemma save_mixing: "mixing (save ou c) = mixing c"
  by (simp add: save_def Let_def alarm_mixing talks_mixing [OF broadcast_talks] talks_mixing [OF did_talks] split: sum.split option.split)
    (simp add: mixing_def)

subsection \<open>The backlog\<close>

text \<open>What the RT thread has yet to apply, in order.\<close>

definition owed :: "control \<Rightarrow> rt_op list" where
  "owed c = map rc_op (ct_ring c) @ concat (ct_pending c)"

lemma chunks_concat: "0 < n \<Longrightarrow> concat (chunks n xs) = xs"
  by (induction n xs rule: chunks.induct) (subst chunks.simps, simp)

lemma chunks_sizes: "g \<in> set (chunks n xs) \<Longrightarrow> g \<noteq> [] \<and> length g \<le> n"
proof (induction n xs rule: chunks.induct)
  case (1 n xs)
  from 1(2) show ?case using 1(1) by (subst (asm) chunks.simps) (auto split: if_splits)
qed

lemma push_group_due:
  assumes "push_group slots 0 ops = Some g" and "length ops \<le> MAX_CMDS_PER_BLOCK"
  shows "due_group g \<and> length g \<le> slots \<and> map rc_op g = ops"
proof -
  have "rc_at (hd g) = 0" using assms(1) by (cases ops) (auto simp: push_group_def split: if_splits)
  moreover have "length g = length ops" using push_group_is_group [OF assms(1)] by (metis length_map)
  ultimately show ?thesis using push_group_is_group [OF assms(1)] assms(2) by (simp add: due_group_def)
qed

lemma flush_groups_spec:
  assumes "flush_groups gs ring = (gs', ring')" and "\<forall>g \<in> set gs. g \<noteq> [] \<and> length g \<le> MAX_CMDS_PER_BLOCK"
    and "length ring \<le> CMD_RING" and "ring = concat gss" "\<forall>g \<in> set gss. due_group g"
  shows "map rc_op ring' @ concat gs' = map rc_op ring @ concat gs \<and> length ring' \<le> CMD_RING \<and>
    (\<exists>more. gs' = drop (length more) gs \<and> ring' = concat (gss @ more) \<and> (\<forall>g \<in> set more. due_group g)) \<and>
    (gs' = [] \<or> CMD_RING - length ring' < length (hd gs'))"
  using assms
proof (induction gs ring arbitrary: gss rule: flush_groups.induct)
  case (2 g gs ring)
  show ?case
  proof (cases "push_group (CMD_RING - length ring) 0 g")
    case None
    then have "CMD_RING - length ring < length g"
      using 2(3) by (auto simp: push_group_def MAX_CMDS_PER_BLOCK_def split: if_splits)
    then show ?thesis using 2 None by (auto intro!: exI [of _ "[]"])
  next
    case (Some cs)
    have cs: "due_group cs" "length cs \<le> CMD_RING - length ring" "map rc_op cs = g"
      using push_group_due [OF Some] 2(3) by auto
    have f: "flush_groups gs (ring @ cs) = (gs', ring')" using 2(2) Some by simp
    have *: "map rc_op ring' @ concat gs' = map rc_op (ring @ cs) @ concat gs \<and> length ring' \<le> CMD_RING \<and>
      (\<exists>more. gs' = drop (length more) gs \<and> ring' = concat ((gss @ [cs]) @ more) \<and> (\<forall>g \<in> set more. due_group g)) \<and>
      (gs' = [] \<or> CMD_RING - length ring' < length (hd gs'))"
      by (rule 2(1) [OF Some f]) (use 2 cs in auto)
    then obtain more where m: "gs' = drop (length more) gs" "ring' = concat ((gss @ [cs]) @ more)" "\<forall>g \<in> set more. due_group g"
      by blast
    have "gs' = drop (length (cs # more)) (g # gs) \<and> ring' = concat (gss @ cs # more) \<and> (\<forall>g \<in> set (cs # more). due_group g)"
      using m cs by simp
    then have "\<exists>more. gs' = drop (length more) (g # gs) \<and> ring' = concat (gss @ more) \<and> (\<forall>g \<in> set more. due_group g)" by blast
    then show ?thesis using * cs(3) by simp
  qed
qed (auto intro!: exI [of _ "[]"])

lemma flush_rt_ok:
  assumes "backlog_ok c"
  shows "backlog_ok (flush_rt c) \<and> owed (flush_rt c) = owed c \<and>
    (ct_pending (flush_rt c) = [] \<or> CMD_RING - length (ct_ring (flush_rt c)) < length (hd (ct_pending (flush_rt c))))"
proof -
  obtain gss where gss: "ct_ring c = concat gss" "\<forall>g \<in> set gss. due_group g" using assms by (auto simp: backlog_ok_def)
  obtain gs ring where f: "flush_groups (ct_pending c) (ct_ring c) = (gs, ring)" by fastforce
  have pen: "\<forall>g \<in> set (ct_pending c). g \<noteq> [] \<and> length g \<le> MAX_CMDS_PER_BLOCK" "length (ct_ring c) \<le> CMD_RING"
    using assms by (auto simp: backlog_ok_def)
  from flush_groups_spec [OF f pen gss] obtain more where
    s: "map rc_op ring @ concat gs = map rc_op (ct_ring c) @ concat (ct_pending c)" "length ring \<le> CMD_RING"
      "gs = drop (length more) (ct_pending c)" "ring = concat (gss @ more)" "\<forall>g \<in> set more. due_group g"
      "gs = [] \<or> CMD_RING - length ring < length (hd gs)" by blast
  then have "\<forall>g \<in> set gs. g \<noteq> [] \<and> length g \<le> MAX_CMDS_PER_BLOCK" using pen by (meson in_set_dropD)
  moreover have "\<exists>gss. ring = concat gss \<and> (\<forall>g \<in> set gss. due_group g)" using s(4,5) gss(2) by (intro exI [of _ "gss @ more"]) auto
  ultimately show ?thesis using s by (simp add: flush_rt_def f backlog_ok_def owed_def)
qed

lemma flush_rt_frame:
  "ct_core (flush_rt c) = ct_core c" "ct_peers (flush_rt c) = ct_peers c" "keeping (flush_rt c) = keeping c"
  "ct_controller (flush_rt c) = ct_controller c" "ct_controller_lost (flush_rt c) = ct_controller_lost c"
  by (simp_all add: flush_rt_def case_prod_beta keeping_def)

lemma flush_rt_control_ok: "control_ok c \<Longrightarrow> control_ok (flush_rt c)"
  using flush_rt_ok [of c] flush_rt_frame [of c] roles_ok_fields [of "flush_rt c" c]
  by (simp add: control_ok_def keeping_def)

lemma publish_ok:
  assumes "control_ok c"
  shows "control_ok (publish ou out origin c)" "owed (publish ou out origin c) = owed c @ oc_rt out"
    "ct_core (publish ou out origin c) = ct_core c"
proof -
  let ?c = "c\<lparr>ct_pending := ct_pending c @ chunks MAX_CMDS_PER_BLOCK (oc_rt out)\<rparr>"
  have b: "backlog_ok ?c" using assms chunks_sizes by (auto simp: control_ok_def backlog_ok_def)
  then have ok: "control_ok ?c" using assms roles_ok_fields [of ?c c] by (simp add: control_ok_def)
  have o: "owed (flush_rt ?c) = owed c @ oc_rt out"
    using flush_rt_ok [OF b] chunks_concat [of MAX_CMDS_PER_BLOCK "oc_rt out"] by (simp add: owed_def MAX_CMDS_PER_BLOCK_def)
  let ?d = "flush_rt ?c" let ?e = "?d\<lparr>ct_schedule := schedule_changed (ou_now ou) (ct_schedule ?d)\<rparr>"
  have "control_ok ?d" by (rule flush_rt_control_ok) (rule ok)
  then have "control_ok ?e" by (rule control_ok_fields) (use \<open>control_ok ?d\<close> in \<open>simp_all add: mixing_def control_ok_def\<close>)
  then show "control_ok (publish ou out origin c)"
    using \<open>control_ok ?d\<close> by (simp add: publish_def Let_def talks_ok [OF broadcast_talks])
  have "mixing (publish ou out origin c) = mixing ?d"
    by (simp add: publish_def Let_def talks_mixing [OF broadcast_talks]) (simp add: mixing_def)
  then show "owed (publish ou out origin c) = owed c @ oc_rt out" "ct_core (publish ou out origin c) = ct_core c"
    using o flush_rt_frame(1) [of ?c] by (simp_all add: mixing_def owed_def)
qed

end
