(* ===== verification/Engine.thy ===== *)
theory Engine
  imports ControlProps
begin

text \<open>
  The two threads together: the control loop's handlers keep its invariant and the link between
  what the core says, what the ring and the backlog owe, and what the processor moves towards; over
  every interleaving of messages, ticks and blocks, and until the backlog is drained.
\<close>

subsection \<open>What a request keeps of the core\<close>

lemma core_apply_keeps:
  assumes "\<And>cmd c. P c \<Longrightarrow> P (fst (one lm cmd c))" and "\<And>c r. P c \<Longrightarrow> P (c\<lparr>co_rev := r\<rparr>)" and "P c"
  shows "P (fst (core_apply lm cmd c))"
proof -
  have fin: "P (fst (finish p d))" if "P d" for p d using that assms(2) by (simp add: finish_simps)
  have st: "P (fst s')" if "fold_r (batch_step lm) ops (c, partial_default) = Inr s'" for ops s'
    using that by (rule fold_r_invariant [where P = "\<lambda>s. P (fst s)"])
      (use assms(1,3) in \<open>auto elim!: batch_step_Inr dest: assms(1)\<close>, metis assms(1) fst_conv)
  have "P (fst (case cmd of Batch ops \<Rightarrow> batch lm ops c | x \<Rightarrow> one lm x c))"
  proof (cases "\<exists>ops. cmd = Batch ops")
    case True
    then obtain ops where "cmd = Batch ops" ..
    then show ?thesis using st [of ops] assms(3)
      by (cases "fold_r (batch_step lm) ops (c, partial_default)") (auto simp: batch_def case_prod_beta)
  qed (use assms(1) [OF assms(3), of cmd] in \<open>auto simp del: one.simps split: cmd.split\<close>)
  then show ?thesis using fin by (auto simp: core_apply_def case_prod_beta split: sum.split prod.split)
qed

lemma try_c_keeps: "(\<And>a. r = Inr a \<Longrightarrow> F (fst (k a)) = F c) \<Longrightarrow> F (fst (try_c r c k)) = F c"
  by (cases r) auto

lemma setters_hil [simp]:
  "co_hil (fst (set_input lm i n1 c)) = co_hil c" "co_hil (fst (set_out lm m n2 c)) = co_hil c"
  "co_hil (fst (set_level lm m k n3 c)) = co_hil c" "co_hil (fst (set_group lm m g n4 c)) = co_hil c"
  by (auto simp: set_input_def set_out_def set_level_def set_group_def upd_mix_def Let_def split: option.splits)

lemma one_hil: "co_hil (fst (one lm cmd c)) = co_hil c"
  by (cases cmd) (auto simp: Let_def set_solo_def start_listen_def stop_listen_def start_test_def case_prod_beta
      intro!: try_c_keeps split: eq_target.splits option.splits)

lemma core_apply_fixed: "co_topo (fst (core_apply lm cmd c)) = co_topo c" "co_hil (fst (core_apply lm cmd c)) = co_hil c"
  by (rule core_apply_keeps [where P = "\<lambda>d. co_topo d = co_topo c"]; simp add: one_topo)
    (rule core_apply_keeps [where P = "\<lambda>d. co_hil d = co_hil c"]; simp add: one_hil)

lemma clear_solos_fixed: "co_topo (fst (clear_solos lm c)) = co_topo c" "co_hil (fst (clear_solos lm c)) = co_hil c"
proof -
  have "co_topo (fst (fold (clear_solo_step lm) ms s)) = co_topo (fst s) \<and> co_hil (fst (fold (clear_solo_step lm) ms s)) = co_hil (fst s)" for ms s
    by (induction ms arbitrary: s) (simp_all add: clear_solo_step_def Let_def)
  then show "co_topo (fst (clear_solos lm c)) = co_topo c" "co_hil (fst (clear_solos lm c)) = co_hil c"
    by (simp_all add: clear_solos_def case_prod_beta finish_simps)
qed

lemma end_test_fixed: "co_topo (fst (end_test_signal c)) = co_topo c" "co_hil (fst (end_test_signal c)) = co_hil c"
  "view_of lm (fst (end_test_signal c)) = view_of lm c" "oc_rt (snd (end_test_signal c)) = []"
  by (simp_all add: end_test_signal_def finish_simps partial_changed_def partial_default_def split: option.split)

text \<open>What an observer or the supervisor may send changes nothing of the mix.\<close>

definition mix_part :: "core \<Rightarrow> reconciled \<times> (nat, nat list) btree \<times> (nat option \<times> nat option)" where
  "mix_part c = (co_s c, co_solo c, co_listen c)"

lemma one_mix_part: "is_read_only cmd \<or> supervisor_may cmd \<Longrightarrow> mix_part (fst (one lm cmd c)) = mix_part c"
  by (cases cmd) (auto simp: supervisor_may_def start_test_def Let_def mix_part_def intro!: try_c_keeps split: option.split)

lemma other_roles_keep_mix:
  assumes "is_read_only cmd \<or> supervisor_may cmd"
  shows "mix_part (fst (core_apply lm cmd c)) = mix_part c"
proof -
  obtain c' r where a: "core_apply lm cmd c = (c', r)" by fastforce
  then show ?thesis
  proof (cases rule: core_apply_cases)
    case (succ c1 p)
    then have "one lm cmd c = (c1, Inr p)" using assms by (auto simp: supervisor_may_def)
    then have "mix_part c1 = mix_part c" using one_mix_part [OF assms, of lm c] by simp
    then show ?thesis using a succ(3) by (simp add: finish_simps mix_part_def)
  qed (use a in simp)
qed

subsection \<open>Handlers\<close>

text \<open>
  What every handler keeps, for a view \<open>v\<close> the processor started from: the invariant, the
  topology, and that the commands still owed lead from \<open>v\<close> to what the core says.
\<close>

definition linked :: "libm \<Rightarrow> rt_view \<Rightarrow> control \<Rightarrow> bool" where
  "linked lm v c = (fold view_op (owed c) v = view_of lm (ct_core c))"

definition keeps :: "libm \<Rightarrow> control \<Rightarrow> control \<Rightarrow> bool" where
  "keeps lm c c' =
     (control_ok c \<longrightarrow>
      control_ok c' \<and> co_topo (ct_core c') = co_topo (ct_core c) \<and>
      (fits16 (co_topo (ct_core c)) \<longrightarrow> (\<forall>v. linked lm v c \<longrightarrow> linked lm v c')))"

named_theorems keeping_ops

lemma keeps_refl [keeping_ops]: "keeps lm c c"
  by (simp add: keeps_def)

lemma keeps_trans: "keeps lm a b \<Longrightarrow> keeps lm b c \<Longrightarrow> keeps lm a c"
  by (auto simp: keeps_def)

lemma linked_mixing: "mixing c' = mixing c \<Longrightarrow> linked lm v c' = linked lm v c"
  by (simp add: linked_def owed_def mixing_def)

lemma keepsI_mixing: "(control_ok c \<Longrightarrow> control_ok c') \<Longrightarrow> mixing c' = mixing c \<Longrightarrow> keeps lm c c'"
  using linked_mixing [of c' c lm] by (simp add: keeps_def mixing_def)

lemma talks_keeps [keeping_ops]: "talks c c' \<Longrightarrow> keeps lm c c'"
  by (intro keepsI_mixing) (auto intro: talks_ok talks_mixing)

lemma keeps_fields:
  assumes "mixing c' = mixing c" and "ct_peers c' = ct_peers c" "ct_controller c' = ct_controller c"
    "ct_supervisor c' = ct_supervisor c" "ct_alarms c' = ct_alarms c"
    and "length (ct_hil_peaks c') = length (ct_hil_peaks c)"
  shows "keeps lm c c'"
  by (rule keepsI_mixing [OF control_ok_fields]) (use assms in \<open>auto simp: control_ok_def\<close>)

lemma alarm_keeps [keeping_ops]: "keeps lm c (raise_alarm ou code d c)"
  by (rule keepsI_mixing [OF alarm_ok alarm_mixing])

lemma save_keeps [keeping_ops]: "keeps lm c (save ou c)"
  by (rule keepsI_mixing [OF save_ok save_mixing])

lemma flush_keeps [keeping_ops]: "keeps lm c (flush_rt c)"
  using flush_rt_control_ok [of c] flush_rt_ok [of c] flush_rt_frame(1) [of c]
  by (auto simp: keeps_def linked_def control_ok_def)

text \<open>A new core whose commands are published: the commands lead from the old core's view to its.\<close>

lemma publish_keeps:
  assumes "mixing d = (co, ct_pending c, ct_ring c)" and "control_ok c \<Longrightarrow> control_ok d"
    and "co_topo co = co_topo (ct_core c)"
    and "sized (ct_core c) \<Longrightarrow> fold view_op (oc_rt out) (view_of lm (ct_core c)) = view_of lm co"
  shows "keeps lm c (publish ou out origin d)"
proof -
  have "linked lm v (publish ou out origin d)" if "control_ok c" "fits16 (co_topo (ct_core c))" "linked lm v c" for v
  proof -
    have "owed (publish ou out origin d) = owed c @ oc_rt out"
      using publish_ok(2) [OF assms(2) [OF that(1)]] assms(1) by (simp add: owed_def mixing_def)
    then show ?thesis
      using assms(1,4) that publish_ok(3) [OF assms(2) [OF that(1)]] by (simp add: linked_def sized_def control_ok_def mixing_def)
  qed
  then show ?thesis
    using assms publish_ok(1,3) by (simp add: keeps_def mixing_def)
qed

lemma note_cmd_fields:
  "mixing (note_cmd ou cmd c) = mixing c" "ct_peers (note_cmd ou cmd c) = ct_peers c"
  "ct_controller (note_cmd ou cmd c) = ct_controller c" "ct_supervisor (note_cmd ou cmd c) = ct_supervisor c"
  "ct_alarms (note_cmd ou cmd c) = ct_alarms c" "ct_hil_peaks (note_cmd ou cmd c) = ct_hil_peaks c"
  by (simp_all add: note_cmd_def Let_def mixing_def split: cmd.split)

lemma perform_keeps [keeping_ops]: "keeps lm c (perform ou i e c)"
proof -
  have "keeps lm d (d\<lparr>ct_schedule := x\<rparr>)" "keeps lm d (d\<lparr>ct_shutdown := b\<rparr>)" for d x b
    by (rule keeps_fields; simp add: mixing_def)+
  then show ?thesis unfolding perform_def Let_def
    by (auto intro: keeping_ops talking keeps_trans [OF talks_keeps [OF broadcast_talks]] split: effect.split)
qed

lemma new_core_ok: "control_ok c \<Longrightarrow> core_ok co \<Longrightarrow> length (co_hil co) = length (co_hil (ct_core c)) \<Longrightarrow> control_ok (c\<lparr>ct_core := co\<rparr>)"
  using roles_ok_fields [of "c\<lparr>ct_core := co\<rparr>" c] by (simp add: control_ok_def backlog_ok_def)

lemma request_keeps: "keeps lm c (frame_request lm ou i r rq origin cmd c)"
proof (cases "refusal r cmd")
  case None
  obtain co res where a: "core_apply lm cmd (ct_core c) = (co, res)" by fastforce
  show ?thesis
  proof (cases res)
    case (Inl e)
    then have "co = ct_core c" using a by (cases rule: core_apply_cases [OF a]) auto
    then show ?thesis using a Inl None by (auto simp: frame_request_def intro: keeping_ops talking)
  next
    case (Inr out)
    let ?n = "note_cmd ou cmd (c\<lparr>ct_core := co\<rparr>)" let ?d = "reply_msg ou i rq None ?n"
    have fx: "co_topo co = co_topo (ct_core c)" "co_hil co = co_hil (ct_core c)" using core_apply_fixed [of lm cmd "ct_core c"] a by simp_all
    have ok: "control_ok ?d" if "control_ok c"
    proof -
      have "control_ok (c\<lparr>ct_core := co\<rparr>)"
        by (rule new_core_ok [OF that]) (use that core_apply_ok [of "ct_core c" lm cmd] a fx in \<open>simp_all add: control_ok_def\<close>)
      then have "control_ok ?n" by (rule control_ok_fields) (use that note_cmd_fields in \<open>simp_all add: control_ok_def\<close>)
      then show ?thesis by (rule talks_ok [OF reply_talks])
    qed
    have "mixing ?d = (co, ct_pending c, ct_ring c)"
      by (simp add: talks_mixing [OF reply_talks] note_cmd_fields) (simp add: mixing_def)
    then have "keeps lm c (publish ou out origin ?d)"
      by (rule publish_keeps) (use ok fx core_apply_view a Inr in auto)
    from keeps_trans [OF this perform_keeps] show ?thesis using None a Inr by (simp add: frame_request_def)
  qed
qed (auto simp: frame_request_def intro: keeping_ops talking)

lemma perform_mixing: "mixing (perform ou i e c) = mixing c"
proof -
  have "mixing (x\<lparr>ct_schedule := y\<rparr>) = mixing x" "mixing (x\<lparr>ct_shutdown := b\<rparr>) = mixing x" for x y b
    by (simp_all add: mixing_def)
  then show ?thesis
    by (simp add: perform_def Let_def save_mixing talks_mixing [OF broadcast_talks] talks_mixing [OF send_talks] split: effect.split)
qed

text \<open>An accepted request: the core's answer, its commands owed after all others.\<close>

lemma request_accepted:
  assumes "control_ok c" and "refusal r cmd = None" and a: "core_apply lm cmd (ct_core c) = (co, Inr out)"
  shows "ct_core (frame_request lm ou i r rq origin cmd c) = co"
    "owed (frame_request lm ou i r rq origin cmd c) = owed c @ oc_rt out"
proof -
  let ?n = "note_cmd ou cmd (c\<lparr>ct_core := co\<rparr>)" let ?d = "reply_msg ou i rq None ?n"
  have "control_ok (c\<lparr>ct_core := co\<rparr>)"
    by (rule new_core_ok [OF assms(1)])
      (use assms(1) core_apply_ok [of "ct_core c" lm cmd] core_apply_fixed [of lm cmd "ct_core c"] a in \<open>simp_all add: control_ok_def\<close>)
  then have "control_ok ?n" by (rule control_ok_fields) (use assms(1) note_cmd_fields in \<open>simp_all add: control_ok_def\<close>)
  then have ok: "control_ok ?d" by (rule talks_ok [OF reply_talks])
  have d: "mixing ?d = (co, ct_pending c, ct_ring c)"
    by (simp add: talks_mixing [OF reply_talks] note_cmd_fields) (simp add: mixing_def)
  have "mixing (frame_request lm ou i r rq origin cmd c) = mixing (publish ou out origin ?d)"
    using assms(2) a by (simp add: frame_request_def perform_mixing)
  then show "ct_core (frame_request lm ou i r rq origin cmd c) = co"
    "owed (frame_request lm ou i r rq origin cmd c) = owed c @ oc_rt out"
    using publish_ok(2,3) [OF ok, of ou out origin] d by (simp_all add: mixing_def owed_def)
qed

lemma core_of_mixing: "mixing c' = mixing c \<Longrightarrow> ct_core c' = ct_core c"
  by (simp add: mixing_def)

lemma refusal_None:
  assumes "refusal r cmd = None" and "r \<noteq> Some Control"
  shows "is_read_only cmd \<or> supervisor_may cmd"
  using assms by (auto simp: refusal_def split: option.splits role.splits if_splits)

lemma publish_core: "ct_core (publish ou out origin c) = ct_core c"
  by (simp add: publish_def Let_def core_of_mixing [OF talks_mixing [OF broadcast_talks]] flush_rt_frame)

lemma other_request_keeps_mix:
  assumes "r \<noteq> Some Control"
  shows "mix_part (ct_core (frame_request lm ou i r rq origin cmd c)) = mix_part (ct_core c)"
proof (cases "refusal r cmd")
  case None
  obtain co res where a: "core_apply lm cmd (ct_core c) = (co, res)" by fastforce
  have "mix_part co = mix_part (ct_core c)" using other_roles_keep_mix [OF refusal_None [OF None assms], of lm "ct_core c"] a by simp
  then show ?thesis
    using None a by (cases res)
      (simp_all add: frame_request_def core_of_mixing [OF talks_mixing [OF reply_talks]] core_of_mixing [OF perform_mixing]
        publish_core core_of_mixing [OF note_cmd_fields(1)])
qed (simp add: frame_request_def core_of_mixing [OF talks_mixing [OF reply_talks]])

lemma hello_keeps: "map_of (ct_peers c) i \<noteq> None \<Longrightarrow> keeps lm c (hello ou i proto r c)"
  using hello_ok [of c i ou proto r] hello_mixing [of ou i proto r c] linked_mixing [of "hello ou i proto r c" c lm]
  by (auto simp: keeps_def control_ok_def mixing_def)

lemma frame_keeps [keeping_ops]: "keeps lm c (frame lm ou i m c)"
  unfolding frame_def
  by (auto intro: keeping_ops talking request_keeps hello_keeps split: option.split sum.split prod.split client_msg.split)

lemma connect_ok:
  assumes "control_ok c" and "length (ct_peers c) < MAX_CONNS"
  shows "control_ok (c\<lparr>ct_peers := bm_insert i None (ct_peers c)\<rparr>)"
  using assms length_bm_insert [of i None "ct_peers c"]
  by (auto simp: control_ok_def roles_ok_def backlog_ok_def bm_insert_ok)

lemma handle_keeps [keeping_ops]: "keeps lm c (handle lm ou msg c)"
proof -
  have "keeps lm c (c\<lparr>ct_peers := bm_insert i None (ct_peers c)\<rparr>)" if "length (ct_peers c) < MAX_CONNS" for i
    by (rule keepsI_mixing [OF connect_ok]) (use that in \<open>simp_all add: mixing_def\<close>)
  then show ?thesis unfolding handle_def by (auto intro: keeping_ops talking split: ctl_msg.split)
qed

subsection \<open>The tick\<close>

lemma tick_meters_keeps [keeping_ops]: "keeps lm c (tick_meters ou c)"
proof -
  have seen: "keeps lm c (raise_alarm ou code w (c\<lparr>ct_trips_seen := x\<rparr>))" for code w x
    by (rule keeps_trans [OF keeps_fields alarm_keeps]) (simp_all add: mixing_def)
  have noted: "keeps lm c (note_hil peaks (d\<lparr>ct_counters := y\<rparr>))" if "keeps lm c d" for d y peaks
    by (rule keeps_trans [OF that keeps_fields]) (simp_all add: mixing_def note_hil_def)
  show ?thesis unfolding tick_meters_def Let_def
    by (auto intro!: noted seen keeps_refl keeps_trans [OF _ talks_keeps [OF broadcast_talks]] split: option.split)
qed

lemma next_status_keeps: "keeps lm c (fst (next_status ou c))"
  by (rule keeps_fields) (simp_all add: next_status_def mixing_def)

lemma tick_status_keeps [keeping_ops]: "keeps lm c (tick_status ou c)"
proof -
  have "keeps lm c (c\<lparr>ct_last_status := x\<rparr>)" for x by (rule keeps_fields) (simp_all add: mixing_def)
  then show ?thesis unfolding tick_status_def case_prod_beta Let_def
    by (auto intro: keeping_ops next_status_keeps keeps_trans intro!: keeps_trans [OF _ talks_keeps [OF broadcast_talks]])
qed

lemma tick_solos_keeps [keeping_ops]: "keeps lm c (tick_solos lm ou c)"
proof -
  obtain co out where cl: "clear_solos lm (ct_core c) = (co, out)" by fastforce
  have fx: "co_topo co = co_topo (ct_core c)" "co_hil co = co_hil (ct_core c)" using clear_solos_fixed [of lm "ct_core c"] cl by simp_all
  have ok: "core_ok co" if "core_ok (ct_core c)" using serve_ok [OF that, of lm ClearSolos] cl by simp
  let ?d = "c\<lparr>ct_controller_lost := None, ct_core := co\<rparr>"
  have "keeps lm c (publish ou out None ?d)"
  proof (rule publish_keeps [of _ co])
    show "control_ok ?d" if "control_ok c"
      using that ok fx roles_ok_fields [of ?d c] by (simp add: control_ok_def backlog_ok_def)
    show "fold view_op (oc_rt out) (view_of lm (ct_core c)) = view_of lm co" if "sized (ct_core c)"
      using clear_solos_view [OF that, of lm] cl by simp
  qed (simp_all add: mixing_def fx)
  then show ?thesis using cl by (auto simp: tick_solos_def keeps_refl split: option.split)
qed

lemma tick_deadline_keeps [keeping_ops]: "keeps lm c (tick_deadline ou c)"
proof -
  obtain co out where cl: "end_test_signal (ct_core c) = (co, out)" by fastforce
  have fx: "co_topo co = co_topo (ct_core c)" "co_hil co = co_hil (ct_core c)" "view_of lm co = view_of lm (ct_core c)" "oc_rt out = []"
    using end_test_fixed(1,2,4) [of "ct_core c"] end_test_fixed(3) [of lm "ct_core c"] cl by simp_all
  have ok: "core_ok co" if "core_ok (ct_core c)" using serve_ok [OF that, of lm EndTest] cl by simp
  let ?d = "c\<lparr>ct_test_deadline := None, ct_core := co\<rparr>"
  have "keeps lm c (publish ou out None ?d)"
  proof (rule publish_keeps [of _ co])
    show "control_ok ?d" if "control_ok c"
      using that ok fx roles_ok_fields [of ?d c] by (simp add: control_ok_def backlog_ok_def)
  qed (simp_all add: mixing_def fx)
  then show ?thesis using cl by (auto simp: tick_deadline_def keeps_refl split: option.split)
qed

lemma tick_save_keeps [keeping_ops]: "keeps lm c (tick_save ou c)"
  by (simp add: tick_save_def keeping_ops)

lemma tick_goes_on:
  assumes "tick lm ou polls final c = (c', None)"
  shows "c' = tick_save ou (tick_deadline ou (tick_solos lm ou (tick_status ou (tick_meters ou (flush_rt c)))))"
proof -
  let ?en = "if ct_driver (flush_rt c) then ou_ending ou else None"
  have f: "\<not> sx_faulted (stats_of ou (flush_rt c))"
    using assms by (auto simp: tick_def Let_def case_prod_beta)
  show ?thesis
  proof (cases ?en)
    case None
    then show ?thesis using assms f by (simp add: tick_def Let_def case_prod_beta split: if_splits)
  next
    case (Some e)
    then show ?thesis using assms f by (cases e) (simp_all add: tick_def Let_def case_prod_beta split: if_splits)
  qed
qed

lemma tick_keeps: "tick lm ou polls final c = (c', None) \<Longrightarrow> keeps lm c c'"
  by (drule tick_goes_on)
    (simp, intro keeps_trans [OF _ tick_save_keeps] keeps_trans [OF _ tick_deadline_keeps] keeps_trans [OF _ tick_solos_keeps]
      keeps_trans [OF _ tick_status_keeps] keeps_trans [OF _ tick_meters_keeps] flush_keeps)

subsection \<open>Both threads\<close>

text \<open>
  The loop beside the callback: a handler runs as one step (it pushes to the ring at one place
  only), the callback takes commands from the ring's other end.
\<close>

inductive engine_runs :: "libm \<Rightarrow> control \<times> processor \<Rightarrow> control \<times> processor \<Rightarrow> bool" for lm s0 where
  booted: "engine_runs lm s0 s0"
| handled: "engine_runs lm s0 (c, p) \<Longrightarrow> c' = handle lm ou msg c \<Longrightarrow> engine_runs lm s0 (c', p\<lparr>pr_cmds := ct_ring c'\<rparr>)"
| ticked: "engine_runs lm s0 (c, p) \<Longrightarrow> tick lm ou polls final c = (c', None) \<Longrightarrow>
    engine_runs lm s0 (c', p\<lparr>pr_cmds := ct_ring c'\<rparr>)"
| played: "engine_runs lm s0 (c, p) \<Longrightarrow> process lm (p, block) = Some (p', block') \<Longrightarrow>
    engine_runs lm s0 (c\<lparr>ct_ring := pr_cmds p'\<rparr>, p')"
| talked: "engine_runs lm s0 (c, p) \<Longrightarrow> engine_runs lm s0 (c, p\<lparr>pr_talk := pr_talk p @ xs\<rparr>)"
| drained: "engine_runs lm s0 (c, p) \<Longrightarrow> engine_runs lm s0 (c, p\<lparr>pr_taps := taps, pr_probes := probes\<rparr>)"
| gap: "engine_runs lm s0 (c, p) \<Longrightarrow> engine_runs lm s0 (c, discontinuity p)"

lemma handled_on: "engine_runs lm s0 (c, p) \<Longrightarrow> \<exists>p'. engine_runs lm s0 (handle lm ou msg c, p')"
  by (blast intro: engine_runs.handled)

definition coupled :: "libm \<Rightarrow> topology \<Rightarrow> control \<times> processor \<Rightarrow> bool" where
  "coupled lm t s =
     (control_ok (fst s) \<and> co_topo (ct_core (fst s)) = t \<and> pr_cmds (snd s) = ct_ring (fst s) \<and>
      (\<exists>v. follows lm v (snd s) \<and> linked lm v (fst s)))"

lemma follows_frame: "targets p' = targets p \<Longrightarrow> follows lm v p' = follows lm v p"
  by (simp add: follows_def)

lemma coupled_control:
  assumes "coupled lm t (c, p)" and "fits16 t" and "keeps lm c c'"
  shows "coupled lm t (c', p\<lparr>pr_cmds := ct_ring c'\<rparr>)"
proof -
  have "follows lm v (p\<lparr>pr_cmds := ct_ring c'\<rparr>) = follows lm v p" for v
    by (rule follows_frame) (simp add: targets_def)
  then show ?thesis using assms by (auto simp: coupled_def keeps_def)
qed

lemma block_ok:
  assumes ok: "control_ok c" and ring: "pr_cmds p = ct_ring c" and run: "process lm (p, block) = Some (p', block')"
  shows "control_ok (c\<lparr>ct_ring := pr_cmds p'\<rparr>)"
proof -
  let ?c = "c\<lparr>ct_ring := pr_cmds p'\<rparr>"
  obtain k where k: "consumes lm k p p'" using process_consumes [OF run] by blast
  obtain gss where gss: "ct_ring c = concat gss" "\<forall>g \<in> set gss. due_group g" using ok by (auto simp: control_ok_def backlog_ok_def)
  obtain j where j: "pr_cmds p' = concat (drop j gss)"
    using process_groups [OF run] gss ring by (auto simp: takes_groups_def due_group_def)
  have "\<forall>g \<in> set (drop j gss). due_group g" using gss(2) by (meson in_set_dropD)
  moreover have "length (pr_cmds p') \<le> length (ct_ring c)" using k ring by (simp add: consumes_def)
  ultimately show ?thesis using ok j roles_ok_fields [of ?c c] by (auto simp: control_ok_def backlog_ok_def)
qed

lemma coupled_block:
  assumes cp: "coupled lm t (c, p)" and run: "process lm (p, block) = Some (p', block')"
  shows "coupled lm t (c\<lparr>ct_ring := pr_cmds p'\<rparr>, p')"
proof -
  let ?c = "c\<lparr>ct_ring := pr_cmds p'\<rparr>"
  obtain v where v: "follows lm v p" "linked lm v c" and ring: "pr_cmds p = ct_ring c" and ok: "control_ok c"
    using cp by (auto simp: coupled_def)
  obtain k where k: "consumes lm k p p'" using process_consumes [OF run] by blast
  have "map rc_op (ct_ring c) = map rc_op (take k (ct_ring c)) @ map rc_op (pr_cmds p')"
    using k ring by (simp add: consumes_def flip: map_append)
  then have "linked lm (fold view_op (map rc_op (take k (ct_ring c))) v) ?c"
    using v(2) by (simp add: linked_def owed_def)
  moreover have "follows lm (fold view_op (map rc_op (take k (ct_ring c))) v) p'"
    using k v(1) ring by (simp add: consumes_def)
  ultimately show ?thesis using cp block_ok [OF ok ring run] by (auto simp: coupled_def)
qed

lemma engine_runs_ok:
  "engine_runs lm s0 s \<Longrightarrow> control_ok (fst s0) \<Longrightarrow> pr_cmds (snd s0) = ct_ring (fst s0) \<Longrightarrow>
     control_ok (fst s) \<and> pr_cmds (snd s) = ct_ring (fst s)"
proof (induction rule: engine_runs.induct)
  case (handled c p c' ou msg)
  then show ?case using handle_keeps [of lm c ou msg] by (simp add: keeps_def)
next
  case (ticked c p ou polls final c')
  then show ?case using tick_keeps [OF ticked.hyps(2)] by (simp add: keeps_def)
next
  case (played c p block p' block')
  then show ?case using block_ok [of c p lm block] by simp
qed (auto simp: discontinuity_def restart_fade_def)

lemma engine_runs_coupled: "engine_runs lm s0 s \<Longrightarrow> coupled lm t s0 \<Longrightarrow> fits16 t \<Longrightarrow> coupled lm t s"
proof (induction rule: engine_runs.induct)
  case (handled c p c' ou msg)
  then show ?case using coupled_control [OF _ _ handle_keeps] by simp
next
  case (ticked c p ou polls final c')
  then show ?case using coupled_control [OF _ _ tick_keeps [OF ticked.hyps(2)]] by simp
next
  case (played c p block p' block')
  then show ?case using coupled_block by simp
qed (auto simp: coupled_def follows_def targets_def discontinuity_def restart_fade_def)

subsection \<open>Draining the backlog\<close>

text \<open>Blocks with the flush of a tick after each.\<close>

fun settle :: "libm \<Rightarrow> audio_block list \<Rightarrow> control \<times> processor \<Rightarrow> (control \<times> processor) option" where
  "settle lm [] s = Some s"
| "settle lm (b # bs) (c, p) =
     (case process lm (p, b) of
        None \<Rightarrow> None
      | Some (p', _) \<Rightarrow>
          (let c' = flush_rt (c\<lparr>ct_ring := pr_cmds p'\<rparr>) in settle lm bs (c', p'\<lparr>pr_cmds := ct_ring c'\<rparr>)))"

text \<open>Commands still owed are at least as many as groups; a block and a flush take at least one.\<close>

lemma due_nonempty: "due_group g \<Longrightarrow> g \<noteq> []"
  by (simp add: due_group_def is_group_def)

lemma ring_room: "length g \<le> MAX_CMDS_PER_BLOCK \<Longrightarrow> length g \<le> CMD_RING"
  by (simp add: MAX_CMDS_PER_BLOCK_def CMD_RING_def)

lemma block_shrinks:
  assumes cp: "coupled lm t (c, p)" and run: "process lm (p, b) = Some (p', b')" and "0 < bk_frames b" and "ct_ring c \<noteq> []"
  shows "length (pr_cmds p') < length (ct_ring c)"
proof -
  obtain gss where gss: "ct_ring c = concat gss" "\<forall>g \<in> set gss. due_group g" and ring: "pr_cmds p = ct_ring c"
    using cp by (auto simp: coupled_def control_ok_def backlog_ok_def)
  have gs: "\<forall>g \<in> set gss. is_group g" using gss(2) by (simp add: due_group_def)
  have hd: "gss \<noteq> []" "due_group (hd gss)" using gss assms(4) by (cases gss; simp)+
  have "pr_cmds p = concat gss" using gss(1) ring by simp
  from process_groups [OF run this gs] obtain j where j: "j \<le> length gss" "pr_cmds p' = concat (drop j gss)" "0 < j"
    using hd assms(3) by (auto simp: takes_groups_def due_group_def)
  obtain g rest where g: "gss = g # rest" using hd(1) by (cases gss) auto
  have "concat gss = concat (take j gss) @ concat (drop j gss)" by (metis append_take_drop_id concat_append)
  moreover have "concat (take j gss) \<noteq> []" using g j(3) gss(2) due_nonempty [of g] by (cases j) auto
  ultimately show ?thesis using gss(1) j(2) by simp
qed

lemma flush_fills:
  assumes "backlog_ok c" and "ct_ring (flush_rt c) = []"
  shows "ct_pending (flush_rt c) = []"
proof -
  have f: "backlog_ok (flush_rt c)"
    "ct_pending (flush_rt c) = [] \<or> CMD_RING - length (ct_ring (flush_rt c)) < length (hd (ct_pending (flush_rt c)))"
    using flush_rt_ok [OF assms(1)] by auto
  show ?thesis
  proof (rule ccontr)
    assume ne: "ct_pending (flush_rt c) \<noteq> []"
    then have "length (hd (ct_pending (flush_rt c))) \<le> CMD_RING"
      using f(1) ring_room hd_in_set unfolding backlog_ok_def by blast
    with f(2) ne assms(2) show False by simp
  qed
qed

text \<open>A loop whose ring is empty has no backlog either (after a flush).\<close>

definition flushed :: "control \<Rightarrow> bool" where
  "flushed c = (ct_ring c = [] \<longrightarrow> ct_pending c = [])"

lemma settle_drains:
  assumes "coupled lm t (c, p)" and "fits16 t" and "flushed c" and "RPanic \<notin> set (owed c)"
    and "\<forall>b \<in> set bs. 0 < bk_frames b" and "length (owed c) \<le> length bs"
  shows "\<exists>c' p'. settle lm bs (c, p) = Some (c', p') \<and> coupled lm t (c', p') \<and> owed c' = [] \<and> ct_core c' = ct_core c"
  using assms
proof (induction bs arbitrary: c p)
  case (Cons b bs)
  have ring: "pr_cmds p = ct_ring c" using Cons.prems(1) by (simp add: coupled_def)
  have "RPanic \<notin> rc_op ` set (pr_cmds p)" using Cons.prems(4) ring by (auto simp: owed_def)
  then obtain p1 b1 where run: "process lm (p, b) = Some (p1, b1)" using process_some by blast
  let ?c = "c\<lparr>ct_ring := pr_cmds p1\<rparr>" let ?d = "flush_rt ?c"
  have cp: "coupled lm t (?c, p1)" by (rule coupled_block [OF Cons.prems(1) run])
  then have bo: "backlog_ok ?c" by (simp add: coupled_def control_ok_def)
  have fl: "owed ?d = owed ?c" "ct_core ?d = ct_core c" using flush_rt_ok [OF bo] flush_rt_frame(1) [of ?c] by simp_all
  obtain k where k: "pr_cmds p1 = drop k (ct_ring c)" using process_consumes [OF run] ring by (auto simp: consumes_def)
  have sub: "set (owed ?c) \<subseteq> set (owed c)" by (auto simp: owed_def k dest: in_set_dropD)
  have "length (owed ?c) \<le> length bs"
  proof (cases "ct_ring c = []")
    case True
    then have "owed ?c = []" using Cons.prems(3) k by (simp add: owed_def flushed_def)
    then show ?thesis by simp
  next
    case False
    have "length (pr_cmds p1) < length (ct_ring c)" using block_shrinks [OF Cons.prems(1) run] False Cons.prems(5) by simp
    then show ?thesis using Cons.prems(6) by (simp add: owed_def)
  qed
  moreover have "coupled lm t (?d, p1\<lparr>pr_cmds := ct_ring ?d\<rparr>)"
    by (rule coupled_control [OF cp Cons.prems(2) flush_keeps])
  moreover have "flushed ?d" using flush_fills [OF bo] by (simp add: flushed_def)
  ultimately obtain c' p' where "settle lm bs (?d, p1\<lparr>pr_cmds := ct_ring ?d\<rparr>) = Some (c', p')" "coupled lm t (c', p')" "owed c' = []" "ct_core c' = ct_core ?d"
    using Cons.IH [of ?d "p1\<lparr>pr_cmds := ct_ring ?d\<rparr>"] Cons.prems(2,4,5) fl(1) sub by auto
  then show ?case using run fl(2) by (simp add: Let_def)
qed auto

lemma coupled_done: "coupled lm t (c, p) \<Longrightarrow> owed c = [] \<Longrightarrow> follows lm (view_of lm (ct_core c)) p"
  by (auto simp: coupled_def linked_def)

subsection \<open>The start\<close>

lemma view_with_hil [simp]: "view_of lm (with_hil hil c) = view_of lm c"
  by (simp add: with_hil_def view_of_def mix_view_of_def level_view_def core_level_def solo_out_def Let_def)

lemma boot_coupled:
  assumes "topo_wf topo" and "length alarms \<le> MAX_ALARMS"
  shows "coupled lm topo (boot lm topo ps fl hil alarms se now)"
proof -
  let ?co = "with_hil hil (core_new topo (ps_state ps) (ps_rev ps) fl)"
  have ok: "core_ok ?co" by (intro with_hil_ok core_new_ok assms(1))
  have "control_ok (control_new ?co counters alarms se now)" for counters
    using ok assms(2) by (auto simp: control_ok_def roles_ok_def backlog_ok_def control_new_def bm_ok_def intro!: exI [of _ "[]"])
  moreover have "linked lm (view_of lm ?co) (control_new ?co counters alarms se now)" for counters
    by (simp add: linked_def owed_def control_new_def)
  moreover have "follows lm (view_of lm ?co) (proc_new lm topo (ps_state ps) counters opts h r)" for counters opts h r
    using proc_new_follows [OF assms(1), of lm "ps_state ps" "ps_rev ps" fl counters opts h r] by simp
  moreover have "co_topo (ct_core (control_new ?co counters alarms se now)) = topo"
    "ct_ring (control_new ?co counters alarms se now) = []" for counters
    by (simp_all add: control_new_def with_hil_def core_new_def)
  ultimately show ?thesis unfolding coupled_def boot_def Let_def fst_conv snd_conv
    by (intro conjI exI [of _ "view_of lm ?co"]) simp_all
qed

end
