(* ===== verification/EngineProps.thy ===== *)
theory EngineProps
  imports Engine
begin

text \<open>
  The properties of the control loop and of both threads together.
\<close>

subsection \<open>Samples\<close>

text \<open>A sample outside world in which every write succeeds, and the sample site started in it.\<close>

definition demo_outside :: outside where
  "demo_outside =
     \<lparr>ou_now = 0, ou_encodes = (\<lambda>_. True), ou_writes = (\<lambda>_ _. True),
      ou_saves = (\<lambda>_. Inr \<lparr>cm_generation = 1, cm_pruning = None, cm_orphaned = None\<rparr>), ou_unix_ms = 0, ou_build = ''demo'',
      ou_stats = \<lparr>sx_callbacks = 0, sx_late = 0, sx_faulted = False, sx_fault = None, sx_max_process_ns = 0, sx_frames = 0,
        sx_missed = 0, sx_overruns = 0, sx_resets = 0, sx_last_reopen_us = 0, sx_fault_callback_ns = 0\<rparr>,
      ou_ending = None, ou_hists = \<lparr>hs_interval = [], hs_process = [], hs_top_us = 0\<rparr>, ou_meters = None,
      ou_rt_status = pr_status demo_proc, ou_talkback_dropped = 0\<rparr>"

definition demo_settings :: settings where
  "demo_settings = \<lparr>se_solo_grace = 3000000000, se_block = 48, se_hold = False\<rparr>"

definition demo_persisted :: persisted where
  "demo_persisted = \<lparr>ps_rev = 0, ps_hash = [], ps_unix_ms = 0, ps_state = mix_state_default, ps_counters = []\<rparr>"

definition demo_boot :: "control \<times> processor" where
  "demo_boot = boot demo_libm demo_topo demo_persisted \<lparr>f_test_signal = False, f_fault_injection = False\<rparr> [] [] demo_settings 0"

lemma demo_boot_core: "ct_core (fst demo_boot) = demo_core"
  by (simp add: demo_boot_def boot_def Let_def control_new_def with_hil_def core_new_def demo_core_def demo_persisted_def)

lemma demo_boot_empty: "owed (fst demo_boot) = []" "ct_pending (fst demo_boot) = []" "ct_peers (fst demo_boot) = []"
  by (simp_all add: demo_boot_def boot_def Let_def control_new_def owed_def)

text \<open>A controller connects to the sample engine, says hello and starts to listen.\<close>

definition demo_greeted :: control where
  "demo_greeted = handle demo_libm demo_outside (Frame 1 (Inr (CHello 1 Control ''demo'')))
     (handle demo_libm demo_outside (Connected 1) (fst demo_boot))"

definition demo_listening :: control where
  "demo_listening = handle demo_libm demo_outside (Frame 1 (Inr (CRequest 7 None (StartListen ''engineer'')))) demo_greeted"

lemma demo_topo_fits: "fits16 demo_topo"
  using demo_fits(2) by (simp add: demo_core_simps)

lemma demo_boot_runs: "engine_runs demo_libm demo_boot (fst demo_boot, snd demo_boot)"
  using engine_runs.booted by simp

lemma demo_greeted_runs: "\<exists>p. engine_runs demo_libm demo_boot (demo_greeted, p)"
  unfolding demo_greeted_def using handled_on [OF demo_boot_runs] by (auto dest: handled_on)

lemma demo_listening_runs: "\<exists>p. engine_runs demo_libm demo_boot (demo_listening, p)"
  unfolding demo_listening_def using demo_greeted_runs by (auto dest: handled_on)

lemma demo_boot_coupled: "coupled demo_libm demo_topo demo_boot"
  unfolding demo_boot_def by (rule boot_coupled [OF demo_topo_wf]) simp

lemma demo_controls: "map_of (ct_peers demo_greeted) 1 = Some (Some Control)" "mixing demo_greeted = mixing (fst demo_boot)"
proof -
  let ?c = "handle demo_libm demo_outside (Connected 1) (fst demo_boot)"
  have c: "ct_peers ?c = [(1, None)]" "ct_controller ?c = None" "mixing ?c = mixing (fst demo_boot)"
    using demo_boot_empty by (simp_all add: handle_def MAX_CONNS_def mixing_def demo_boot_def boot_def Let_def control_new_def)
  have h: "demo_greeted = hello demo_outside 1 1 Control ?c"
    by (simp add: demo_greeted_def handle_def [of _ _ "Frame _ _"] frame_def c)
  have n: "negotiate PROTO 1 = Some 1" by (simp add: PROTO_def negotiate_def)
  have w: "map_of (ct_peers d) j = Some r \<Longrightarrow> map_of (ct_peers (send_msg demo_outside k msg d)) j = Some r" for d j k msg r
    by (simp add: send_msg_def write_msg_def demo_outside_def did_def split: option.split)
  then have f: "map_of (ct_peers d) j = Some r \<Longrightarrow> map_of (ct_peers (fold (\<lambda>a. send_msg demo_outside k (MAlarm a)) as d)) j = Some r" for as d j k r
    by (induction as arbitrary: d) auto
  show "map_of (ct_peers demo_greeted) 1 = Some (Some Control)"
    unfolding h by (subst hello_steps [OF _ n]) (simp_all add: c greeting_def Let_def w f as_controller_def as_supervisor_def supersede_def)
  show "mixing demo_greeted = mixing (fst demo_boot)" unfolding h by (simp add: hello_mixing c)
qed

lemma demo_owed: "\<exists>m. owed demo_listening = [RListen 0 (Some m)]"
proof -
  obtain p where "engine_runs demo_libm demo_boot (demo_greeted, p)" using demo_greeted_runs by blast
  then have ok: "control_ok demo_greeted"
    using engine_runs_ok [of demo_libm demo_boot "(demo_greeted, p)"] demo_boot_coupled by (simp add: coupled_def)
  have co: "ct_core demo_greeted = demo_core" "owed demo_greeted = []"
    using demo_controls(2) demo_boot_core demo_boot_empty by (simp_all add: mixing_def owed_def)
  obtain co out m where a: "core_apply demo_libm (StartListen ''engineer'') (ct_core demo_greeted) = (co, Inr out)" "oc_rt out = [RListen 0 (Some m)]"
    by (simp add: co core_apply_def start_listen_def core_mix_def demo_core_simps demo_indices listen_get_def listen_put_def
        listen_partial_def Let_def case_prod_beta partial_changed_def finish_def)
  have "owed (frame_request demo_libm demo_outside 1 (Some Control) 7 None (StartListen ''engineer'') demo_greeted) = owed demo_greeted @ oc_rt out"
    by (rule request_accepted(2) [OF ok _ a(1)]) (simp add: refusal_def)
  then show ?thesis using co a(2) demo_controls(1) by (simp add: demo_listening_def handle_def frame_def)
qed

subsection \<open>Properties\<close>

text \<open>
  C8. The RT thread ends up holding what the core says: from the start of the engine on, through
  any interleaving of connections, requests, ticks, audio blocks and discontinuities, the
  processor follows some view from which the commands still in the ring and in the backlog, applied
  in order, lead to exactly the view of the core's state. So whenever nothing is owed, every ramp,
  filter and limiter of the processor moves towards the values of the core's state. (The topology's
  indices must fit \<open>u16\<close>.)
\<close>

theorem engine_in_step:
  assumes "compile sha site = Inr topo" and "fits16 topo" and "length alarms \<le> MAX_ALARMS"
    and "engine_runs lm (boot lm topo ps fl hil alarms se now) (c, p)"
  shows "(\<exists>v. follows lm v p \<and> fold view_op (map rc_op (pr_cmds p) @ concat (ct_pending c)) v = view_of lm (ct_core c)) \<and>
    (pr_cmds p = [] \<and> ct_pending c = [] \<longrightarrow> follows lm (view_of lm (ct_core c)) p)"
proof -
  have cp: "coupled lm topo (c, p)"
    by (rule engine_runs_coupled [OF assms(4) boot_coupled [OF compile_wf [OF assms(1)] assms(3)] assms(2)])
  then have "pr_cmds p = ct_ring c" by (simp add: coupled_def)
  with cp coupled_done [OF cp] show ?thesis by (auto simp: coupled_def linked_def owed_def)
qed

theorem engine_in_step_witness:
  "\<exists>p v m. engine_runs demo_libm demo_boot (demo_listening, p) \<and> owed demo_listening = [RListen 0 (Some m)] \<and>
     follows demo_libm v p \<and> view_op (RListen 0 (Some m)) v = view_of demo_libm (ct_core demo_listening)"
proof -
  obtain p m where r: "engine_runs demo_libm demo_boot (demo_listening, p)" and o: "owed demo_listening = [RListen 0 (Some m)]"
    using demo_listening_runs demo_owed by blast
  have "pr_cmds p = ct_ring demo_listening"
    using engine_runs_ok [OF r] demo_boot_coupled by (simp add: coupled_def)
  then obtain v where "follows demo_libm v p" "fold view_op (owed demo_listening) v = view_of demo_libm (ct_core demo_listening)"
    using engine_in_step [OF demo_compiles demo_topo_fits _ r [unfolded demo_boot_def]] by (auto simp: owed_def)
  then show ?thesis using o r by (auto simp del: view_op.simps)
qed

text \<open>
  C30. The backlog drains: without an injected panic, from any state a run of the engine
  reaches just after a flush, as many blocks (of at least one sample, each followed by a tick's
  flush) as commands are owed empty the ring and the backlog, and the processor then follows the
  core's state.
\<close>

theorem backlog_drains:
  assumes "compile sha site = Inr topo" and "fits16 topo" and "length alarms \<le> MAX_ALARMS"
    and "engine_runs lm (boot lm topo ps fl hil alarms se now) (c, p)"
    and "RPanic \<notin> set (owed c)" and "\<forall>b \<in> set bs. 0 < bk_frames b" and "length (owed c) \<le> length bs"
  shows "\<exists>c' p'. settle lm bs (flush_rt c, p\<lparr>pr_cmds := ct_ring (flush_rt c)\<rparr>) = Some (c', p') \<and>
    owed c' = [] \<and> ct_core c' = ct_core c \<and> follows lm (view_of lm (ct_core c)) p'"
proof -
  let ?c = "flush_rt c"
  have cp: "coupled lm topo (c, p)"
    by (rule engine_runs_coupled [OF assms(4) boot_coupled [OF compile_wf [OF assms(1)] assms(3)] assms(2)])
  then have bo: "backlog_ok c" by (simp add: coupled_def control_ok_def)
  have fl: "owed ?c = owed c" "ct_core ?c = ct_core c" using flush_rt_ok [OF bo] flush_rt_frame(1) [of c] by simp_all
  have "flushed ?c" using flush_fills [OF bo] by (simp add: flushed_def)
  from settle_drains [OF coupled_control [OF cp assms(2) flush_keeps] assms(2) this _ assms(6)] assms(5,7) fl
  obtain c' p' where "settle lm bs (?c, p\<lparr>pr_cmds := ct_ring ?c\<rparr>) = Some (c', p')" "coupled lm topo (c', p')" "owed c' = []" "ct_core c' = ct_core c"
    by auto
  with coupled_done show ?thesis by metis
qed

theorem backlog_drains_witness:
  "\<exists>p c' p'. engine_runs demo_libm demo_boot (demo_listening, p) \<and> owed demo_listening \<noteq> [] \<and>
     settle demo_libm [demo_block] (flush_rt demo_listening, p\<lparr>pr_cmds := ct_ring (flush_rt demo_listening)\<rparr>) = Some (c', p') \<and>
     owed c' = [] \<and> follows demo_libm (view_of demo_libm (ct_core demo_listening)) p'"
proof -
  obtain p m where r: "engine_runs demo_libm demo_boot (demo_listening, p)" and o: "owed demo_listening = [RListen 0 (Some m)]"
    using demo_listening_runs demo_owed by blast
  have "\<exists>c' p'. settle demo_libm [demo_block] (flush_rt demo_listening, p\<lparr>pr_cmds := ct_ring (flush_rt demo_listening)\<rparr>) = Some (c', p') \<and>
     owed c' = [] \<and> ct_core c' = ct_core demo_listening \<and> follows demo_libm (view_of demo_libm (ct_core demo_listening)) p'"
    by (rule backlog_drains [OF demo_compiles demo_topo_fits _ r [unfolded demo_boot_def]])
      (simp_all add: o demo_block_def)
  with r o show ?thesis by auto
qed

text \<open>
  C31. One controller, one supervisor: from the start of the engine on, however connections come,
  go, say hello again with other roles, and fail in the middle of a write, at most one connection
  has the controller's role and it is the one the loop knows, the same for the supervisor; the known
  controller is connected; there are at most 8 connections and at most 16 kept alarms; every
  chunk of the backlog is non-empty and within a block's budget; and the core keeps its caps.
\<close>

theorem one_controller:
  assumes "compile sha site = Inr topo" and "length alarms \<le> MAX_ALARMS"
    and "engine_runs lm (boot lm topo ps fl hil alarms se now) (c, p)"
  shows "(\<forall>i j. map_of (ct_peers c) i = Some (Some Control) \<and> map_of (ct_peers c) j = Some (Some Control) \<longrightarrow> i = j) \<and>
    (\<forall>i j. map_of (ct_peers c) i = Some (Some Supervisor) \<and> map_of (ct_peers c) j = Some (Some Supervisor) \<longrightarrow> i = j) \<and>
    (\<forall>i. ct_controller c = Some i \<longrightarrow> i \<in> fst ` set (ct_peers c)) \<and>
    length (ct_peers c) \<le> 8 \<and> distinct (map fst (ct_peers c)) \<and> length (ct_alarms c) \<le> 16 \<and>
    (\<forall>g \<in> set (ct_pending c). g \<noteq> [] \<and> length g \<le> 512) \<and> core_ok (ct_core c)"
proof -
  have "control_ok c"
    using engine_runs_ok [OF assms(3)] boot_coupled [OF compile_wf [OF assms(1)] assms(2)] by (simp add: coupled_def)
  then have ok: "core_ok (ct_core c)" "roles_ok c" "backlog_ok c" "length (ct_alarms c) \<le> MAX_ALARMS"
    by (simp_all add: control_ok_def)
  then have "length (ct_peers c) \<le> 8" "distinct (map fst (ct_peers c))" "length (ct_alarms c) \<le> 16"
    "\<forall>g \<in> set (ct_pending c). g \<noteq> [] \<and> length g \<le> 512"
    by (simp_all add: roles_ok_def backlog_ok_def MAX_CONNS_def MAX_ALARMS_def MAX_CMDS_PER_BLOCK_def bm_ok_distinct)
  moreover have "\<forall>i. ct_controller c = Some i \<longrightarrow> i \<in> fst ` set (ct_peers c)"
    using ok(2) by (auto simp: roles_ok_def weak_map_of_SomeI map_of_eq_None_iff)
  moreover have "i = j" if "map_of (ct_peers c) i = Some (Some Control)" "map_of (ct_peers c) j = Some (Some Control)" for i j
    using that ok(2) unfolding roles_ok_def by (metis option.inject)
  moreover have "i = j" if "map_of (ct_peers c) i = Some (Some Supervisor)" "map_of (ct_peers c) j = Some (Some Supervisor)" for i j
    using that ok(2) unfolding roles_ok_def by (metis option.inject)
  ultimately show ?thesis using ok(1) by blast
qed

theorem one_controller_witness:
  "{j. map_of (ct_peers demo_greeted) j = Some (Some Control)} = {1}"
proof -
  obtain p where "engine_runs demo_libm demo_boot (demo_greeted, p)" using demo_greeted_runs by blast
  from one_controller [OF demo_compiles _ this [unfolded demo_boot_def]] demo_controls(1) show ?thesis by auto
qed

text \<open>
  C32. Only the controller changes the mix: whatever arrives from a connection that does not have
  the controller's role (a connection, a hello of any role, an unreadable frame, any command, the
  end of the connection), the values, the solos and the listen slots of the core are as before.
\<close>

theorem only_controller_mixes:
  assumes "\<And>i m. msg = Frame i m \<Longrightarrow> map_of (ct_peers c) i \<noteq> Some (Some Control)"
  shows "mix_part (ct_core (handle lm ou msg c)) = mix_part (ct_core c)"
proof (cases msg)
  case (Frame i m)
  have rq: "mix_part (ct_core (frame_request lm ou i r rq origin cmd c)) = mix_part (ct_core c)"
    if "r \<noteq> Some Control" for r rq origin cmd
    by (rule other_request_keeps_mix) (rule that)
  show ?thesis
    using assms [OF Frame] rq core_of_mixing [OF hello_mixing] core_of_mixing [OF talks_mixing [OF reply_talks]]
    by (auto simp: Frame handle_def frame_def split: option.split sum.split prod.split client_msg.split)
qed (simp_all add: handle_def core_of_mixing [OF talks_mixing [OF drop_peer_talks]] did_def)

theorem only_controller_mixes_witness:
  "mix_part (ct_core (handle demo_libm demo_outside (Frame 1 (Inr (CRequest 7 None (SetMix ''member1'' None (Some True)))))
     (handle demo_libm demo_outside (Connected 1) (fst demo_boot)))) = mix_part demo_core"
proof -
  let ?c = "handle demo_libm demo_outside (Connected 1) (fst demo_boot)"
  have c: "ct_peers ?c = [(1, None)]" "ct_core ?c = demo_core"
    using demo_boot_empty demo_boot_core by (simp_all add: handle_def MAX_CONNS_def)
  have "mix_part (ct_core (handle demo_libm demo_outside (Frame 1 (Inr (CRequest 7 None (SetMix ''member1'' None (Some True))))) ?c)) =
      mix_part (ct_core ?c)"
    by (rule only_controller_mixes) (auto simp: c)
  then show ?thesis by (simp add: c)
qed

end
