(* ===== verification/ControlEnds.thy ===== *)
theory ControlEnds
  imports EngineProps
begin

text \<open>
  The control loop over time: how a run ends, when solos clear, when the state is saved, what a
  hello is answered with, and which alarms are kept.
\<close>

subsection \<open>Connections that are closed\<close>

text \<open>The log only grows, and a connection that is gone was closed.\<close>

definition closes :: "control \<Rightarrow> control \<Rightarrow> bool" where
  "closes c c' =
     (\<exists>ds. ct_deeds c' = ct_deeds c @ ds \<and> fst ` set (ct_peers c) \<subseteq> fst ` set (ct_peers c') \<union> {i. Shut i \<in> set ds})"

text \<open>While there is no controller none comes, and the time it was lost stays.\<close>

definition leaderless :: "control \<Rightarrow> control \<Rightarrow> bool" where
  "leaderless c c' =
     (ct_controller c = None \<longrightarrow> ct_controller c' = None \<and> ct_controller_lost c' = ct_controller_lost c)"

lemma closes_trans: "closes a b \<Longrightarrow> closes b c \<Longrightarrow> closes a c"
proof -
  assume "closes a b" "closes b c"
  then obtain d e where "ct_deeds b = ct_deeds a @ d" "fst ` set (ct_peers a) \<subseteq> fst ` set (ct_peers b) \<union> {i. Shut i \<in> set d}"
    "ct_deeds c = ct_deeds b @ e" "fst ` set (ct_peers b) \<subseteq> fst ` set (ct_peers c) \<union> {i. Shut i \<in> set e}"
    by (auto simp: closes_def)
  then show ?thesis unfolding closes_def by (intro exI [of _ "d @ e"]) (simp, blast)
qed

lemma closes_same: "ct_deeds c' = ct_deeds c \<Longrightarrow> ct_peers c' = ct_peers c \<Longrightarrow> closes c c'"
  by (simp add: closes_def)

lemma closes_drop: "closes c (drop_peer ou i c)"
proof (cases "map_of (ct_peers c) i")
  case None
  then show ?thesis by (intro closes_same) (simp_all add: drop_peer_def Let_def)
next
  case (Some r)
  then have "ct_deeds (drop_peer ou i c) = ct_deeds c @ [Shut i]" "ct_peers (drop_peer ou i c) = bm_remove i (ct_peers c)"
    by (simp_all add: drop_peer_def Let_def did_def)
  then show ?thesis by (auto simp: closes_def bm_remove_def intro!: image_eqI)
qed

interpretation cl: sending closes
proof unfold_locales
  show "closes c c" for c by (rule closes_same) simp_all
  show "closes c (did d c)" for c d by (simp add: closes_def did_def)
qed (fact closes_trans, fact closes_drop)

interpretation ll: sending leaderless
  by unfold_locales (auto simp: leaderless_def did_def drop_peer_def Let_def split: option.split)

lemma closes_alarm: "closes c (raise_alarm ou code d c)"
  unfolding raise_alarm_def Let_def by (rule closes_trans [OF closes_same cl.broadcast]) simp_all

lemma closes_save: "closes c (save ou c)"
proof -
  have "closes c (did x (c\<lparr>ct_schedule := s\<rparr>))" for x s by (rule closes_trans [OF closes_same cl.logged]) simp_all
  then show ?thesis unfolding save_def Let_def
    by (auto intro!: closes_trans [OF _ cl.broadcast] closes_trans [OF _ closes_alarm] split: sum.split option.split)
qed

lemma closes_flush: "closes c (flush_rt c)"
  by (rule closes_same) (simp_all add: flush_rt_def case_prod_beta)

subsection \<open>The end of a run\<close>

lemma shut_in: "Shut i \<in> set (map Shut is) \<longleftrightarrow> i \<in> set is"
  by auto

lemma shut_all: "ct_deeds (fold (\<lambda>i. did (Shut i)) is c) = ct_deeds c @ map Shut is"
  and shut_all_frame: "ct_peers (fold (\<lambda>i. did (Shut i)) is c) = ct_peers c" "ct_driver (fold (\<lambda>i. did (Shut i)) is c) = ct_driver c"
  "mixing (fold (\<lambda>i. did (Shut i)) is c) = mixing c" "ct_schedule (fold (\<lambda>i. did (Shut i)) is c) = ct_schedule c"
  by (induction "is" arbitrary: c) (simp_all add: did_def mixing_def)

lemma release_end:
  "ct_peers (release ou why c) = []" "\<not> ct_driver (release ou why c)" "mixing (release ou why c) = mixing c"
  "ct_schedule (release ou why c) = ct_schedule c" "closes c (release ou why c)"
  "\<exists>ds. ct_deeds (release ou why c) = ct_deeds c @ ds \<and> (ct_driver c \<longrightarrow> DriverStopped \<in> set ds)"
proof -
  let ?d = "if ct_driver c then did DriverStopped (c\<lparr>ct_driver := False\<rparr>) else c"
  let ?b = "broadcast ou (MDriverReleased why) ?d"
  have r: "release ou why c = fold (\<lambda>i. did (Shut i)) (map fst (ct_peers ?b)) (?b\<lparr>ct_peers := []\<rparr>)"
    by (simp add: release_def Let_def)
  have t: "mixing ?b = mixing ?d" "keeping ?b = keeping ?d"
    by (rule talks_mixing [OF broadcast_talks], rule talks_keeping [OF broadcast_talks])
  have dr: "\<not> ct_driver ?b" "ct_schedule ?b = ct_schedule c" using t(2) by (auto simp: keeping_def did_def split: if_splits)
  show "ct_peers (release ou why c) = []" "\<not> ct_driver (release ou why c)" "ct_schedule (release ou why c) = ct_schedule c"
    unfolding r using dr by (simp_all add: shut_all_frame)
  show "mixing (release ou why c) = mixing c" unfolding r using t(1) by (simp add: shut_all_frame) (auto simp: mixing_def did_def split: if_splits)
  obtain ds where ds: "ct_deeds ?b = ct_deeds ?d @ ds" "fst ` set (ct_peers ?d) \<subseteq> fst ` set (ct_peers ?b) \<union> {i. Shut i \<in> set ds}"
    using cl.broadcast [of ?d ou "MDriverReleased why"] by (auto simp: closes_def)
  have de: "ct_deeds (release ou why c) = ct_deeds c @ (if ct_driver c then [DriverStopped] else []) @ ds @ map Shut (map fst (ct_peers ?b))"
    unfolding r by (simp add: shut_all ds(1)) (simp add: did_def)
  have pe: "ct_peers ?d = ct_peers c" by (simp add: did_def)
  let ?ds = "(if ct_driver c then [DriverStopped] else []) @ ds @ map Shut (map fst (ct_peers ?b))"
  have "{i. Shut i \<in> set ds} \<union> fst ` set (ct_peers ?b) \<subseteq> {i. Shut i \<in> set ?ds}"
    using shut_in [of _ "map fst (ct_peers ?b)"] by auto
  then have "fst ` set (ct_peers c) \<subseteq> {i. Shut i \<in> set ?ds}" using ds(2) unfolding pe by blast
  then show "closes c (release ou why c)" using de unfolding closes_def by (intro exI [of _ ?ds]) blast
  show "\<exists>ds. ct_deeds (release ou why c) = ct_deeds c @ ds \<and> (ct_driver c \<longrightarrow> DriverStopped \<in> set ds)"
    using de by auto
qed

text \<open>What was done between two states of the loop.\<close>

definition done_since :: "control \<Rightarrow> deed \<Rightarrow> control \<Rightarrow> bool" where
  "done_since c d c' = (\<exists>ds. ct_deeds c' = ct_deeds c @ ds \<and> d \<in> set ds)"

lemma done_later: "done_since a d b \<Longrightarrow> closes b c \<Longrightarrow> done_since a d c"
  by (auto simp: done_since_def closes_def)

lemma done_earlier: "closes a b \<Longrightarrow> done_since b d c \<Longrightarrow> done_since a d c"
  by (auto simp: done_since_def closes_def)

lemma save_stores:
  "\<exists>ps. done_since c (Stored ps) (save ou c) \<and> ps_rev ps = co_rev (ct_core c) \<and> ps_state ps = core_state (ct_core c)"
  (is "\<exists>ps. ?P ps")
proof
  let ?c = "c\<lparr>ct_schedule := schedule_default\<rparr>" let ?ps = "persisted_of ou ?c" let ?d = "did (Stored ?ps) ?c"
  have "done_since c (Stored ?ps) ?d" by (simp add: done_since_def did_def)
  moreover have "closes ?d (save ou c)" unfolding save_def Let_def
    by (auto intro!: closes_trans [OF _ cl.broadcast] closes_alarm cl.refl cl.broadcast split: sum.split option.split)
  ultimately show "?P ?ps" by (auto simp: persisted_of_def Let_def intro: done_later)
qed

lemma broadcast_keeping:
  "ct_schedule (broadcast ou m c) = ct_schedule c" "ct_driver (broadcast ou m c) = ct_driver c"
  "ct_shutdown (broadcast ou m c) = ct_shutdown c" "ct_core (broadcast ou m c) = ct_core c"
  "ct_settings (broadcast ou m c) = ct_settings c" "ct_test_deadline (broadcast ou m c) = ct_test_deadline c"
  using talks_keeping [OF broadcast_talks [of c ou m]] talks_mixing [OF broadcast_talks [of c ou m]]
  by (simp_all add: keeping_def mixing_def)

lemma alarm_keeping:
  "ct_schedule (raise_alarm ou code d c) = ct_schedule c" "ct_driver (raise_alarm ou code d c) = ct_driver c"
  "ct_shutdown (raise_alarm ou code d c) = ct_shutdown c" "ct_core (raise_alarm ou code d c) = ct_core c"
  "ct_settings (raise_alarm ou code d c) = ct_settings c"
  by (simp_all add: raise_alarm_def Let_def broadcast_keeping)

lemma save_keeping:
  "ct_schedule (save ou c) = schedule_default" "ct_driver (save ou c) = ct_driver c" "ct_core (save ou c) = ct_core c"
  "ct_shutdown (save ou c) = ct_shutdown c"
  by (simp_all add: save_def Let_def did_def alarm_keeping broadcast_keeping split: sum.split option.split)

lemma fade_polls_frame:
  "ct_peers (fade_polls ps c) = ct_peers c" "ct_deeds (fade_polls ps c) = ct_deeds c" "ct_core (fade_polls ps c) = ct_core c"
  "ct_schedule (fade_polls ps c) = ct_schedule c" "ct_driver (fade_polls ps c) = ct_driver c"
  by (induction ps c rule: fade_polls.induct) (simp_all add: flush_rt_def case_prod_beta)

text \<open>A save, then whatever sends and fades, then the release.\<close>

definition clean_end :: "control \<Rightarrow> control \<Rightarrow> bool" where
  "clean_end c c' =
     (ct_peers c' = [] \<and> \<not> ct_driver c' \<and> ct_core c' = ct_core c \<and> ct_schedule c' = schedule_default \<and>
      done_since c DriverStopped c' \<and> (\<forall>i. map_of (ct_peers c) i \<noteq> None \<longrightarrow> done_since c (Shut i) c') \<and>
      (\<exists>ps. done_since c (Stored ps) c' \<and> ps_rev ps = co_rev (ct_core c) \<and> ps_state ps = core_state (ct_core c)))"

lemma clean_end_release:
  assumes "closes c b" "ct_core b = ct_core c" "ct_driver b"
    and "closes (save ou b) d" "ct_core d = ct_core b" "ct_schedule d = schedule_default" "ct_driver d"
  shows "clean_end c (release ou why d)"
proof -
  have r: "ct_peers (release ou why d) = []" "\<not> ct_driver (release ou why d)" "mixing (release ou why d) = mixing d"
    "ct_schedule (release ou why d) = ct_schedule d" "closes d (release ou why d)"
    "\<exists>ds. ct_deeds (release ou why d) = ct_deeds d @ ds \<and> (ct_driver d \<longrightarrow> DriverStopped \<in> set ds)"
    by (rule release_end)+
  have cd: "closes c d" using closes_trans [OF assms(1) closes_trans [OF closes_save assms(4)]] .
  have all: "closes c (release ou why d)" using closes_trans [OF cd r(5)] .
  obtain ds where ds: "ct_deeds (release ou why d) = ct_deeds c @ ds"
    "fst ` set (ct_peers c) \<subseteq> {i. Shut i \<in> set ds}" using all r(1) by (auto simp: closes_def)
  have "done_since c (Shut i) (release ou why d)" if "map_of (ct_peers c) i \<noteq> None" for i
  proof -
    have "i \<in> fst ` set (ct_peers c)" using that by (metis map_of_eq_None_iff)
    then show ?thesis using ds by (auto simp: done_since_def)
  qed
  moreover have "done_since c DriverStopped (release ou why d)"
    using done_earlier [OF cd, of DriverStopped "release ou why d"] r(6) assms(7) by (auto simp: done_since_def)
  moreover obtain ps where ps: "done_since b (Stored ps) (save ou b)" "ps_rev ps = co_rev (ct_core b)" "ps_state ps = core_state (ct_core b)"
    using save_stores by blast
  moreover have "done_since c (Stored ps) (release ou why d)"
    by (rule done_earlier [OF assms(1) done_later [OF done_later [OF ps(1) assms(4)] r(5)]])
  moreover have "ct_core (release ou why d) = ct_core c" using r(3) assms(2,5) by (simp add: mixing_def)
  ultimately show ?thesis using r(1,2,4) assms(2,6) unfolding clean_end_def by metis
qed

lemma fault_end:
  assumes "closes c b" "ct_core b = ct_core c" "ct_driver b"
  shows "clean_end c (fst (fault ou why b))"
  unfolding fault_def fst_conv
  by (rule clean_end_release [OF assms]) (simp_all add: closes_alarm alarm_keeping save_keeping assms(3))

lemma backend_end:
  assumes "closes c b" "ct_core b = ct_core c" "ct_driver b"
  shows "clean_end c (fst (backend_ended ou why b))"
  unfolding backend_ended_def fst_conv
  by (rule clean_end_release [OF assms]) (simp_all add: cl.refl save_keeping assms(3))

lemma shutdown_end:
  assumes "closes c b" "ct_core b = ct_core c" "ct_driver b"
  shows "clean_end c (fst (shutdown_now ou polls final b))"
  unfolding shutdown_now_def fade_out_def case_prod_conv Let_def fst_conv
  by (rule clean_end_release [OF assms])
    (simp_all add: closes_same fade_polls_frame save_keeping assms(3))

subsection \<open>Without a controller\<close>

lemma clear_solos_empty: "co_solo (fst (clear_solos lm c)) = []"
proof -
  have f: "co_solo (fst (fold (clear_solo_step lm) ms s)) = filter (\<lambda>(k, _). k \<notin> set ms) (co_solo (fst s))" for ms s
    by (induction ms arbitrary: s) (auto simp: clear_solo_step_def Let_def bm_remove_def intro: filter_cong)
  have "filter (\<lambda>(k, _). k \<notin> set (bm_keys (co_solo c))) (co_solo c) = []"
    by (auto simp: bm_keys_def filter_empty_conv image_iff)
  then show ?thesis using f [of "bm_keys (co_solo c)" "(c, partial_default)"]
    by (simp add: clear_solos_def case_prod_beta finish_simps)
qed

lemma leaderless_same:
  "ct_controller c' = ct_controller c \<Longrightarrow> ct_controller_lost c' = ct_controller_lost c \<Longrightarrow> leaderless c c'"
  by (simp add: leaderless_def)

lemma leaderless_alarm: "leaderless c (raise_alarm ou code d c)"
  unfolding raise_alarm_def Let_def by (rule ll.trans [OF leaderless_same ll.broadcast]) simp_all

lemma leaderless_save: "leaderless c (save ou c)"
proof -
  have "leaderless c (did x (c\<lparr>ct_schedule := s\<rparr>))" for x s by (rule ll.trans [OF leaderless_same ll.logged]) simp_all
  then show ?thesis unfolding save_def Let_def
    by (auto intro!: ll.trans [OF _ ll.broadcast] ll.trans [OF _ leaderless_alarm] split: sum.split option.split)
qed

lemma leaderless_tick_save: "leaderless c (tick_save ou c)"
  by (simp add: tick_save_def leaderless_save ll.refl)

lemma leaderless_publish: "leaderless c (publish ou out origin c)"
proof -
  have "leaderless c (flush_rt (c\<lparr>ct_pending := x\<rparr>))" "leaderless c ((flush_rt (c\<lparr>ct_pending := x\<rparr>))\<lparr>ct_schedule := y\<rparr>)" for x y
    by (rule leaderless_same; simp add: flush_rt_frame)+
  then show ?thesis unfolding publish_def Let_def by (auto intro: ll.trans [OF _ ll.broadcast])
qed

lemma leaderless_meters: "leaderless c (tick_meters ou c)"
proof -
  have "leaderless c (note_hil peaks (d\<lparr>ct_counters := y\<rparr>))" if "leaderless c d" for d y peaks
    by (rule ll.trans [OF that leaderless_same]) (simp_all add: note_hil_def)
  moreover have "leaderless c (raise_alarm ou code w (c\<lparr>ct_trips_seen := x\<rparr>))" for code w x
    by (rule ll.trans [OF leaderless_same leaderless_alarm]) simp_all
  ultimately show ?thesis unfolding tick_meters_def Let_def
    by (auto intro!: ll.trans [OF _ ll.broadcast] ll.refl split: option.split)
qed

lemma leaderless_status: "leaderless c (tick_status ou c)"
proof -
  have "leaderless c (fst (next_status ou (c\<lparr>ct_last_status := x\<rparr>)))" for x
    by (rule leaderless_same) (simp_all add: next_status_def)
  then show ?thesis unfolding tick_status_def Let_def case_prod_beta by (auto intro: ll.trans [OF _ ll.broadcast] ll.refl)
qed

lemma leaderless_deadline: "leaderless c (tick_deadline ou c)"
proof -
  have "leaderless c (c\<lparr>ct_test_deadline := None, ct_core := co\<rparr>)" for co by (rule leaderless_same) simp_all
  then show ?thesis unfolding tick_deadline_def Let_def case_prod_beta
    by (auto intro: ll.trans [OF _ leaderless_publish] ll.refl split: option.split)
qed

lemma tick_settings:
  "ct_settings (tick_status ou c) = ct_settings c" "ct_settings (tick_meters ou c) = ct_settings c"
  by (simp_all add: tick_status_def tick_meters_def Let_def case_prod_beta broadcast_keeping alarm_keeping next_status_def note_hil_def
      split: option.split)

lemma tick_rest_core:
  "ct_core (tick_save ou c) = ct_core c" "co_solo (ct_core (tick_deadline ou c)) = co_solo (ct_core c)"
proof -
  have "co_solo (fst (end_test_signal co)) = co_solo co" for co
    by (simp add: end_test_signal_def finish_simps split: option.split)
  then show "co_solo (ct_core (tick_deadline ou c)) = co_solo (ct_core c)"
    by (simp add: tick_deadline_def Let_def case_prod_beta publish_core split: option.split)
qed (simp add: tick_save_def save_keeping)

subsection \<open>The answer to a hello\<close>

lemma sent_all: "ct_deeds (fold (\<lambda>msg. did (Sent i msg)) ms c) = ct_deeds c @ map (Sent i) ms"
  and sent_all_frame: "ct_peers (fold (\<lambda>msg. did (Sent i msg)) ms c) = ct_peers c" "ct_core (fold (\<lambda>msg. did (Sent i msg)) ms c) = ct_core c"
  "ct_alarms (fold (\<lambda>msg. did (Sent i msg)) ms c) = ct_alarms c"
  by (induction ms arbitrary: c) (simp_all add: did_def)

lemma send_works:
  assumes "map_of (ct_peers c) i = Some x" and "ou_encodes ou msg" and "ou_writes ou i msg"
  shows "send_msg ou i msg c = did (Sent i msg) c"
  using assms by (simp add: send_msg_def write_msg_def)

lemma did_frame [simp]:
  "ct_peers (did d c) = ct_peers c" "ct_core (did d c) = ct_core c" "ct_alarms (did d c) = ct_alarms c"
  "ct_deeds (did d c) = ct_deeds c @ [d]"
  by (simp_all add: did_def)

lemma fold_send_works:
  assumes "map_of (ct_peers c) i = Some x" and "\<And>msg. ou_encodes ou msg" "\<And>msg. ou_writes ou i msg"
  shows "fold (\<lambda>a. send_msg ou i (MAlarm a)) as c = fold (\<lambda>msg. did (Sent i msg)) (map MAlarm as) c"
  using assms(1) by (induction as arbitrary: c) (simp_all add: send_works assms(2,3))

lemma greeting_sends:
  assumes "map_of (ct_peers c) i = Some x" and "\<And>msg. ou_encodes ou msg" "\<And>msg. ou_writes ou i msg"
  shows "\<exists>h. greeting ou i v r c = fold (\<lambda>msg. did (Sent i msg)) ([MHello h, MTopology (info (co_topo (ct_core c))), state_msg c] @ map MAlarm (ct_alarms c)) c \<and>
    he_proto h = v \<and> he_rev h = co_rev (ct_core c) \<and> he_role h = r"
  unfolding greeting_def Let_def
  by (rule exI [of _ "\<lparr>he_proto = v, he_build = ou_build ou, he_hash = t_hash (co_topo (ct_core c)), he_rev = co_rev (ct_core c),
        he_sample_rate = SAMPLE_RATE, he_block = se_block (ct_settings c), he_role = r\<rparr>"])
    (simp add: send_works [OF _ assms(2,3)] fold_send_works [OF _ assms(2,3)] assms(1) state_msg_def)

text \<open>Only other connections were spoken to.\<close>

fun other_deed :: "u64 \<Rightarrow> deed \<Rightarrow> bool" where
  "other_deed i (Sent j _) = (j \<noteq> i)"
| "other_deed i (Shut j) = (j \<noteq> i)"
| "other_deed i _ = False"

definition to_others :: "u64 \<Rightarrow> control \<Rightarrow> control \<Rightarrow> bool" where
  "to_others i c c' =
     (ct_core c' = ct_core c \<and> ct_alarms c' = ct_alarms c \<and>
      (\<exists>ds. ct_deeds c' = ct_deeds c @ ds \<and> list_all (other_deed i) ds))"

lemma to_others_trans: "to_others i a b \<Longrightarrow> to_others i b c \<Longrightarrow> to_others i a c"
proof -
  assume ab: "to_others i a b" and bc: "to_others i b c"
  obtain d e where "ct_deeds b = ct_deeds a @ d" "list_all (other_deed i) d" "ct_deeds c = ct_deeds b @ e" "list_all (other_deed i) e"
    using ab bc unfolding to_others_def by blast
  then have "ct_deeds c = ct_deeds a @ (d @ e) \<and> list_all (other_deed i) (d @ e)" by simp
  then have "\<exists>ds. ct_deeds c = ct_deeds a @ ds \<and> list_all (other_deed i) ds" by blast
  then show ?thesis using ab bc by (simp add: to_others_def)
qed

lemma to_others_same:
  "ct_core c' = ct_core c \<Longrightarrow> ct_alarms c' = ct_alarms c \<Longrightarrow> ct_deeds c' = ct_deeds c \<Longrightarrow> to_others i c c'"
  by (simp add: to_others_def)

lemma drop_others: "j \<noteq> i \<Longrightarrow> to_others i c (drop_peer ou j c)"
  by (auto simp: to_others_def drop_peer_def Let_def did_def split: option.split)

lemma send_others: "j \<noteq> i \<Longrightarrow> to_others i c (send_msg ou j msg c)"
  by (auto simp: send_msg_def write_msg_def drop_others to_others_same split: option.split) (auto simp: to_others_def did_def)

lemma supersede_others: "to_others i c (supersede ou old i c)"
  by (auto simp: supersede_def to_others_same intro: to_others_trans [OF send_others drop_others] split: option.split)

lemma as_controller_others: "to_others i c (as_controller ou i r c)"
  unfolding as_controller_def Let_def by (auto intro: to_others_trans [OF supersede_others to_others_same] to_others_same)

lemma as_supervisor_others: "to_others i c (as_supervisor ou i r c)"
  unfolding as_supervisor_def Let_def by (auto intro: to_others_trans [OF supersede_others to_others_same] to_others_same)

subsection \<open>Who stops the engine\<close>

definition goes_on :: "partial_out core_m \<Rightarrow> bool" where
  "goes_on r = (case snd r of Inl _ \<Rightarrow> True | Inr p \<Rightarrow> pa_effect p \<noteq> Some EffShutdown)"

lemma goes_on_try: "(\<And>a. r = Inr a \<Longrightarrow> goes_on (k a)) \<Longrightarrow> goes_on (try_c r c k)"
  by (cases r) (auto simp: goes_on_def)

lemma plain_goes_on: "plain r \<Longrightarrow> goes_on r"
  by (auto simp: plain_def goes_on_def split: sum.splits)

lemma goes_on_simps [simp]: "goes_on (c, Inl e)" "goes_on (c, Inr p) \<longleftrightarrow> pa_effect p \<noteq> Some EffShutdown"
  by (simp_all add: goes_on_def)

lemma one_goes_on: "cmd \<noteq> Shutdown \<Longrightarrow> goes_on (one lm cmd c)"
  by (cases cmd) (auto intro: plain_goes_on [OF plain_one] simp del: one.simps,
    auto simp: partial_effect_def partial_default_def partial_changed_def start_test_def Let_def
      intro!: goes_on_try split: option.splits)

lemma shutdown_effect:
  assumes "core_apply lm cmd c = (co, Inr out)" and "oc_effect out = EffShutdown"
  shows "cmd = Shutdown"
proof (cases "\<exists>ops. cmd = Batch ops")
  case True
  then obtain ops where ops: "cmd = Batch ops" ..
  then obtain s where s: "fold_r (batch_step lm) ops (c, partial_default) = Inr s" "oc_effect out = or_default NoEffect (pa_effect (snd s))"
    using assms(1) by (cases "fold_r (batch_step lm) ops (c, partial_default)")
      (auto simp: core_apply_def batch_def case_prod_beta finish_simps split: if_splits)
  then show ?thesis using batch_bump [OF s(1)] assms(2) by simp
next
  case False
  then obtain p where "snd (one lm cmd c) = Inr p" "oc_effect out = or_default NoEffect (pa_effect p)"
    using assms(1) by (cases cmd; cases "one lm cmd c"; cases "snd (one lm cmd c)")
      (auto simp: core_apply_def case_prod_beta finish_simps simp del: one.simps)
  with one_goes_on [of cmd lm c] assms(2) show ?thesis by (cases "pa_effect p") (auto simp: goes_on_def)
qed

lemma hello_shutdown: "ct_shutdown (hello ou i proto r c) = ct_shutdown c"
proof -
  have "ct_shutdown (supersede ou old i d) = ct_shutdown d" "ct_shutdown (greeting ou i v r' d) = ct_shutdown d"
    "ct_shutdown (drop_peer ou i d) = ct_shutdown d" "ct_shutdown (reply_msg ou i rq e d) = ct_shutdown d" for old d v r' rq e
    using talks_keeping [OF supersede_talks [of d ou old i]] talks_keeping [OF greeting_talks [of d ou i v r']]
      talks_keeping [OF drop_peer_talks [of d ou i]] talks_keeping [OF reply_talks [of d ou i rq e]]
    by (simp_all add: keeping_def)
  then show ?thesis
    by (simp add: hello_eq as_controller_def as_supervisor_def Let_def split: option.split)
qed

lemma request_shutdown:
  assumes "ct_shutdown (frame_request lm ou i x rq origin cmd c)" and "\<not> ct_shutdown c"
  shows "refusal x cmd = None \<and> cmd = Shutdown"
proof -
  have re: "ct_shutdown (reply_msg ou i rq e d) = ct_shutdown d" "ct_shutdown (send_msg ou i msg d) = ct_shutdown d" for e d msg
    using talks_keeping [OF reply_talks [of d ou i rq e]] talks_keeping [OF send_talks [of d ou i msg]] by (simp_all add: keeping_def)
  have no: "ct_shutdown (note_cmd ou cmd d) = ct_shutdown d" for d by (simp add: note_cmd_def Let_def split: cmd.split)
  have fl: "ct_shutdown (flush_rt d) = ct_shutdown d" for d using flush_rt_frame(3) [of d] by (simp add: keeping_def)
  have pu: "ct_shutdown (publish ou out origin d) = ct_shutdown d" for out d
    by (simp add: publish_def Let_def broadcast_keeping fl)
  have pe: "ct_shutdown (perform ou i e d) \<Longrightarrow> \<not> ct_shutdown d \<Longrightarrow> e = EffShutdown" for e d
    by (cases e) (simp_all add: perform_def Let_def re save_keeping broadcast_keeping)
  obtain co res where a: "core_apply lm cmd (ct_core c) = (co, res)" by fastforce
  have r: "refusal x cmd = None" using assms by (cases "refusal x cmd") (auto simp: frame_request_def re)
  obtain out where out: "res = Inr out" using assms r a by (cases res) (auto simp: frame_request_def re)
  have "oc_effect out = EffShutdown" using assms r a out pe by (auto simp: frame_request_def re no pu)
  then show ?thesis using r shutdown_effect a out by blast
qed

text \<open>
  A controller that says hello again as an observer loses the role but stays the loop's
  controller, so its solos do not clear while it stays connected.
\<close>

lemma demoted_controller_stays:
  assumes "map_of (ct_peers c) i = Some (Some Control)" and "ct_controller c = Some i" and "negotiate PROTO proto = Some v"
    and "\<And>msg. ou_encodes ou msg" "\<And>msg. ou_writes ou i msg"
  shows "map_of (ct_peers (hello ou i proto Observe c)) i = Some (Some Observe) \<and> ct_controller (hello ou i proto Observe c) = Some i"
proof -
  let ?e = "c\<lparr>ct_peers := bm_insert i (Some Observe) (ct_peers c)\<rparr>"
  have "map_of (ct_peers c) i \<noteq> None" using assms(1) by simp
  then have h: "hello ou i proto Observe c = greeting ou i v Observe ?e"
    by (simp add: hello_steps [OF _ assms(3)] as_controller_def as_supervisor_def)
  have "map_of (ct_peers ?e) i = Some (Some Observe)" by simp
  from greeting_sends [OF this assms(4,5), of v] obtain ms where "greeting ou i v Observe ?e = fold (\<lambda>msg. did (Sent i msg)) ms ?e" by blast
  moreover have "ct_controller (fold (\<lambda>msg. did (Sent i msg)) ms d) = ct_controller d" for ms d
    by (induction ms arbitrary: d) (simp_all add: did_def)
  ultimately show ?thesis using h assms(2) by (simp add: sent_all_frame)
qed

subsection \<open>Properties\<close>

text \<open>
  C33. A run ends clean: whichever way a tick ends it (the callback's fault, the backend's own
  end, a stop signal, a request), the state as it is then has been handed to the store, the driver
  has been stopped, every connection that was open has been closed, the core is as it was,
  and no save is left scheduled.
\<close>

theorem run_ends_clean:
  assumes "tick lm ou polls final c = (c', Some e)" and "ct_driver c"
  shows "clean_end c c'"
proof -
  let ?f = "flush_rt c"
  let ?s = "broadcast ou (MStatus (snd (next_status ou ?f))) (fst (next_status ou ?f))"
  have f: "ct_driver ?f" "ct_core ?f = ct_core c" "closes c ?f"
    using assms(2) closes_flush by (simp_all add: flush_rt_def case_prod_beta)
  have "closes ?f (fst (next_status ou ?f))" by (rule closes_same) (simp_all add: next_status_def)
  then have s: "closes c ?s" "ct_driver ?s" "ct_core ?s = ct_core c"
    using f by (auto intro: closes_trans [OF f(3)] closes_trans [OF _ cl.broadcast] simp: broadcast_keeping next_status_def)
  have sd: "closes c (?f\<lparr>ct_shutdown := True\<rparr>)" by (rule closes_trans [OF f(3) closes_same]) simp_all
  show ?thesis
  proof (cases "sx_faulted (stats_of ou ?f)")
    case True
    then show ?thesis using assms(1) f(1) fault_end [OF s(1,3,2), of ou]
      by (auto simp: tick_def Let_def case_prod_beta)
  next
    case False
    then show ?thesis
      using assms(1) f backend_end [OF f(3,2,1), of ou] shutdown_end [OF f(3,2,1), of ou polls final] shutdown_end [OF sd, of ou polls final]
      by (auto simp: tick_def Let_def case_prod_beta split: option.splits ending.splits if_splits)
  qed
qed

text \<open>The sample engine with one connection.\<close>

definition demo_one :: control where
  "demo_one = handle demo_libm demo_outside (Connected 1) (fst demo_boot)"

lemma demo_one_fields:
  "ct_peers demo_one = [(1, None)]" "ct_core demo_one = demo_core" "ct_driver demo_one" "ct_controller demo_one = None"
  "ct_shutdown demo_one = False" "ct_alarms demo_one = []" "ct_supervisor demo_one = None" "ct_deeds demo_one = []"
  using demo_boot_core demo_boot_empty
  by (simp_all add: demo_one_def handle_def MAX_CONNS_def demo_boot_def boot_def Let_def control_new_def)

theorem run_ends_clean_witness:
  "\<exists>c'. tick demo_libm (demo_outside\<lparr>ou_ending := Some EndStop\<rparr>) [] True demo_one = (c', Some (ExitShutdown True)) \<and>
     done_since demo_one (Shut 1) c' \<and> done_since demo_one DriverStopped c'"
proof -
  let ?ou = "demo_outside\<lparr>ou_ending := Some EndStop\<rparr>"
  have d: "ct_driver (flush_rt demo_one)" using demo_one_fields(3) by (simp add: flush_rt_def case_prod_beta)
  have "snd (tick demo_libm ?ou [] True demo_one) = Some (ExitShutdown True)"
    using d by (simp add: tick_def Let_def case_prod_beta shutdown_now_def fade_out_def demo_outside_def stats_of_def)
  then obtain c' where c': "tick demo_libm ?ou [] True demo_one = (c', Some (ExitShutdown True))"
    by (metis prod.collapse)
  from run_ends_clean [OF c' demo_one_fields(3)] c' show ?thesis
    by (auto simp: clean_end_def demo_one_fields)
qed

text \<open>
  Only the controller and the supervisor stop the engine: a message after which the loop is
  to shut down, and was not before, is the command \<open>Shutdown\<close> of a connection with one of these
  roles.
\<close>

theorem only_privileged_stop:
  assumes "ct_shutdown (handle lm ou msg c)" and "\<not> ct_shutdown c"
  shows "\<exists>i rq origin r. msg = Frame i (Inr (CRequest rq origin Shutdown)) \<and>
    map_of (ct_peers c) i = Some (Some r) \<and> (r = Control \<or> r = Supervisor)"
proof (cases msg)
  case (Frame i m)
  then obtain x where x: "map_of (ct_peers c) i = Some x"
    using assms by (cases "map_of (ct_peers c) i") (auto simp: handle_def frame_def)
  have sh: "ct_shutdown (reply_msg ou i rq e c) = ct_shutdown c" for rq e
    using talks_keeping [OF reply_talks [of c ou i rq e]] by (simp add: keeping_def)
  obtain rq origin cmd where m: "m = Inr (CRequest rq origin cmd)" "ct_shutdown (frame_request lm ou i x rq origin cmd c)"
    using assms x Frame sh by (auto simp: handle_def frame_def hello_shutdown split: sum.splits prod.splits client_msg.splits)
  have "refusal x cmd = None \<and> cmd = Shutdown" by (rule request_shutdown [OF m(2) assms(2)])
  then show ?thesis using Frame x m(1)
    by (cases x; cases "the x") (auto simp: refusal_def supervisor_may_def split: if_splits)
qed (use assms in \<open>auto simp: handle_def talks_keeping [OF drop_peer_talks, unfolded keeping_def, simplified] did_def split: if_splits\<close>)

text \<open>
  Solos do not outlive the controller: when there is no controller and the last one left at
  least the grace period ago, a tick that goes on leaves no solo in any mix, and the loop
  forgets when the controller left.
\<close>

theorem solos_clear_after_grace:
  assumes "tick lm ou polls final c = (c', None)" and "ct_controller c = None" and "ct_controller_lost c = Some lost"
    and "se_solo_grace (ct_settings c) \<le> ou_now ou - lost"
  shows "co_solo (ct_core c') = [] \<and> ct_controller_lost c' = None"
proof -
  define d where "d = tick_status ou (tick_meters ou (flush_rt c))"
  have c': "c' = tick_save ou (tick_deadline ou (tick_solos lm ou d))" using tick_goes_on [OF assms(1)] by (simp add: d_def)
  have "leaderless (flush_rt c) d" "ct_settings d = ct_settings (flush_rt c)"
    unfolding d_def by (rule ll.trans [OF leaderless_meters leaderless_status]) (simp add: tick_settings)
  then have d: "ct_controller d = None" "ct_controller_lost d = Some lost" "ct_settings d = ct_settings c"
    using assms(2,3) flush_rt_frame [of c] by (simp_all add: leaderless_def keeping_def)
  obtain co out where cs: "clear_solos lm (ct_core d) = (co, out)" by fastforce
  let ?e = "publish ou out None (d\<lparr>ct_controller_lost := None, ct_core := co\<rparr>)"
  have e: "tick_solos lm ou d = ?e" using d assms(4) cs by (simp add: tick_solos_def)
  have "co_solo co = []" using clear_solos_empty [of lm "ct_core d"] cs by simp
  moreover have "leaderless (d\<lparr>ct_controller_lost := None, ct_core := co\<rparr>) c'"
    unfolding c' e by (rule ll.trans [OF leaderless_publish ll.trans [OF leaderless_deadline leaderless_tick_save]])
  then have "ct_controller_lost c' = None" using d(1) by (simp add: leaderless_def)
  ultimately show ?thesis unfolding c' e by (simp add: tick_rest_core publish_core)
qed

text \<open>
  When the state is saved: after changes at the times \<open>ts\<close> (in order) since the last save,
  a save is due at \<open>now\<close> exactly when there was a change and either the last one is a second
  old or the first one is five seconds old; so a change is due at the latest five seconds after it,
  however many follow.
\<close>

theorem save_due:
  "schedule_due now (fold schedule_changed ts schedule_default) \<longleftrightarrow>
     ts \<noteq> [] \<and> (1000000000 \<le> now - last ts \<or> 5000000000 \<le> now - hd ts)"
proof (cases ts)
  case (Cons t us)
  have "ss_first (fold schedule_changed us s) = ss_first s \<and>
      ss_last (fold schedule_changed us s) = (if us = [] then ss_last s else Some (last us))" if "ss_first s \<noteq> None" for s
    using that by (induction us arbitrary: s) (auto simp: schedule_changed_def split: option.splits)
  from this [of "schedule_changed t schedule_default"] Cons show ?thesis
    by (auto simp: schedule_due_def schedule_changed_def schedule_default_def QUIET_def MAX_DELAY_def)
qed (simp add: schedule_due_def schedule_default_def)

text \<open>
  The newest alarms are kept: after any alarms \<open>xs\<close> raised on top of a list that is
  within its bound, the list kept for new connections is the last \<open>MAX_ALARMS\<close> of all of them,
  in order.
\<close>

theorem newest_alarms_kept:
  assumes "length as \<le> MAX_ALARMS"
  shows "fold (\<lambda>a l. push_alarm l a) xs as = drop (length (as @ xs) - MAX_ALARMS) (as @ xs)"
  using assms
proof (induction xs arbitrary: as)
  case (Cons x xs)
  have "fold (\<lambda>a l. push_alarm l a) xs (push_alarm as x) =
      drop (length (push_alarm as x @ xs) - MAX_ALARMS) (push_alarm as x @ xs)"
    by (rule Cons.IH) (rule push_alarm_bound [OF Cons.prems])
  also have "\<dots> = drop (length (as @ x # xs) - MAX_ALARMS) (as @ x # xs)"
  proof (cases "length as < MAX_ALARMS")
    case False
    then have "length as = MAX_ALARMS" using Cons.prems by simp
    then show ?thesis by (cases as) (simp_all add: push_alarm_def Suc_diff_le)
  qed (simp add: push_alarm_def)
  finally show ?case by simp
qed simp

text \<open>
  What a hello gets: while its writes succeed, a connection that says hello with a protocol the
  engine speaks is sent the hello with the negotiated version, the core's revision and the role it
  asked for, then the topology, the whole state, and every kept alarm, in this order and nothing
  else; before that only other connections are spoken to (one that had the role is told and
  closed). The connection then has its role.
\<close>

theorem hello_answered:
  assumes "map_of (ct_peers c) i \<noteq> None" and "negotiate PROTO proto = Some v"
    and "\<And>msg. ou_encodes ou msg" "\<And>msg. ou_writes ou i msg"
  shows "\<exists>pre h. ct_deeds (hello ou i proto r c) = ct_deeds c @ pre @ map (Sent i)
      ([MHello h, MTopology (info (co_topo (ct_core c))), state_msg c] @ map MAlarm (ct_alarms c)) \<and>
    list_all (other_deed i) pre \<and>
    he_proto h = v \<and> he_rev h = co_rev (ct_core c) \<and> he_role h = r \<and>
    map_of (ct_peers (hello ou i proto r c)) i = Some (Some r)"
proof -
  define d where "d = as_supervisor ou i r (as_controller ou i r c)"
  let ?e = "d\<lparr>ct_peers := bm_insert i (Some r) (ct_peers d)\<rparr>"
  have o: "to_others i c d" unfolding d_def by (rule to_others_trans [OF as_controller_others as_supervisor_others])
  obtain pre where pre: "ct_deeds d = ct_deeds c @ pre" "list_all (other_deed i) pre"
    and st: "ct_core d = ct_core c" "ct_alarms d = ct_alarms c" using o by (auto simp: to_others_def)
  have e: "map_of (ct_peers ?e) i = Some (Some r)" by simp
  obtain h where h: "greeting ou i v r ?e = fold (\<lambda>msg. did (Sent i msg)) ([MHello h, MTopology (info (co_topo (ct_core ?e))), state_msg ?e] @ map MAlarm (ct_alarms ?e)) ?e"
    "he_proto h = v" "he_rev h = co_rev (ct_core ?e)" "he_role h = r"
    using greeting_sends [OF e assms(3,4), of v] by blast
  have "hello ou i proto r c = greeting ou i v r ?e" by (simp add: hello_steps [OF assms(1,2)] d_def Let_def)
  then show ?thesis using h pre st by (intro exI [of _ pre] exI [of _ h]) (simp add: sent_all sent_all_frame state_msg_def)
qed

end
