(* ===== verification/LoadChain.thy ===== *)
theory LoadChain
  imports Persist
begin

text \<open>
  The load chain (\<open>persist/chain.rs\<close>): which file holds the live state, what is rejected and
  alarmed on the way, the revision above files that could not be read, and the recovery that
  brings the directory to what was loaded.
\<close>

subsection \<open>Data\<close>

datatype load_source = FromCurrent | FromInterrupted | FromGeneration u64 | FromBaseline | FromDefaults

datatype file_state = FsMissing | FsUnreadable | FsDamaged | FsValid

datatype read = RMissing | RUnreadable | RDamaged | RValid persisted

fun read_file_state :: "read \<Rightarrow> file_state" where
  "read_file_state RMissing = FsMissing"
| "read_file_state RUnreadable = FsUnreadable"
| "read_file_state RDamaged = FsDamaged"
| "read_file_state (RValid _) = FsValid"

datatype reading = Tolerant | Strict

record pick =
  pk_rejected :: "(string \<times> string) list"
  pk_alarms :: "string list"
  pk_current :: file_state
  pk_tmp :: file_state
  pk_passed_over :: "string list"
  pk_paused :: nat

definition pick_default :: pick where
  "pick_default =
     \<lparr>pk_rejected = [], pk_alarms = [], pk_current = FsMissing, pk_tmp = FsMissing, pk_passed_over = [], pk_paused = 0\<rparr>"

record loaded =
  ld_persisted :: persisted
  ld_source :: load_source
  ld_rejected :: "(string \<times> string) list"
  ld_dropped :: "string list"
  ld_alarms :: "string list"
  ld_current :: file_state
  ld_tmp :: file_state

record recovery =
  rv_quarantined :: "string option"
  rv_finished :: bool
  rv_failed :: "string list"
  rv_warnings :: "string list"

definition REV_JUMP :: u64 where "REV_JUMP = 1000000"
definition READ_TRIES :: nat where "READ_TRIES = 5"
definition READ_PAUSES :: nat where "READ_PAUSES = 10"

definition transient_error :: "io_error \<Rightarrow> bool" where
  "transient_error e = (ie_kind e = Interrupted \<or> ie_kind e = WouldBlock \<or> ie_kind e = TimedOut)"

definition supersedes :: "persisted \<Rightarrow> persisted \<Rightarrow> bool" where
  "supersedes interrupted other' = (ps_rev other' \<le> ps_rev interrupted)"

subsection \<open>Reading\<close>

text \<open>
  \<open>read_tried\<close> with the tries left after this one: the bytes, \<open>None\<close> when there is no such
  file, or the error; and the pauses so far.
\<close>

primrec read_tried :: "faults \<Rightarrow> string \<Rightarrow> nat \<Rightarrow> nat \<Rightarrow> store \<Rightarrow> store \<times> nat \<times> (io_error + u8 list option)" where
  "read_tried ft name 0 paused d =
     (case fs_read ft name d of
        (d', Inr b) \<Rightarrow> (d', paused, Inr (Some b))
      | (d', Inl e) \<Rightarrow> (d', paused, if ie_kind e = NotFound then Inr None else Inl e))"
| "read_tried ft name (Suc k) paused d =
     (case fs_read ft name d of
        (d', Inr b) \<Rightarrow> (d', paused, Inr (Some b))
      | (d', Inl e) \<Rightarrow>
          if ie_kind e = NotFound then (d', paused, Inr None)
          else if transient_error e \<and> paused < READ_PAUSES then read_tried ft name k (Suc paused) d'
          else (d', paused, Inl e))"

text \<open>A step of the pick works on what it has gathered and the store.\<close>

type_synonym 'a picking = "pick \<times> store \<Rightarrow> (pick \<times> store) \<times> (io_error + 'a)"

definition try_p :: "'a picking \<Rightarrow> ('a \<Rightarrow> 'b picking) \<Rightarrow> 'b picking" where
  "try_p m k s = (case m s of (s', Inl e) \<Rightarrow> (s', Inl e) | (s', Inr a) \<Rightarrow> k a s')"

definition read_state :: "faults \<Rightarrow> codec \<Rightarrow> reading \<Rightarrow> string \<Rightarrow> read picking" where
  "read_state ft cd mode name s =
     (let (pk0, d0) = s; (d, paused, r) = read_tried ft name (READ_TRIES - 1) (pk_paused pk0) d0;
          pk = pk0\<lparr>pk_paused := paused\<rparr>
      in case r of
           Inr None \<Rightarrow> ((pk, d), Inr RMissing)
         | Inl e \<Rightarrow>
             if mode = Strict then ((pk, d), Inl (e\<lparr>ie_text := name @ '' cannot be read: '' @ ie_text e\<rparr>))
             else ((pk\<lparr>pk_alarms := pk_alarms pk @ [name @ '' cannot be read ('' @ ie_text e @ ''): the state loaded may be older''],
                       pk_rejected := pk_rejected pk @ [(path_of d name, ie_text e)]\<rparr>, d), Inr RUnreadable)
         | Inr (Some b) \<Rightarrow>
             (case decode cd b of
                Inr p \<Rightarrow> ((pk, d), Inr (RValid p))
              | Inl why \<Rightarrow> ((pk\<lparr>pk_rejected := pk_rejected pk @ [(path_of d name, why)]\<rparr>, d), Inr RDamaged)))"

subsection \<open>The pick\<close>

definition reject :: "string \<Rightarrow> string \<Rightarrow> pick \<times> store \<Rightarrow> pick \<times> store" where
  "reject path why s = ((fst s)\<lparr>pk_rejected := pk_rejected (fst s) @ [(path, why)]\<rparr>, snd s)"

definition alarmed :: "string \<Rightarrow> pick \<times> store \<Rightarrow> pick \<times> store" where
  "alarmed msg s = ((fst s)\<lparr>pk_alarms := pk_alarms (fst s) @ [msg]\<rparr>, snd s)"

definition pass_over :: "string \<Rightarrow> pick \<times> store \<Rightarrow> pick \<times> store" where
  "pass_over name s = ((fst s)\<lparr>pk_passed_over := pk_passed_over (fst s) @ [name]\<rparr>, snd s)"

fun newest_valid ::
  "faults \<Rightarrow> codec \<Rightarrow> reading \<Rightarrow> (u64 \<times> string) list \<Rightarrow> (persisted \<times> u64 \<times> string) option picking" where
  "newest_valid ft cd mode [] s = (s, Inr None)"
| "newest_valid ft cd mode ((seq, name) # gs) s =
     (case read_state ft cd mode name s of
        (s', Inl e) \<Rightarrow> (s', Inl e)
      | (s', Inr (RValid p)) \<Rightarrow> (s', Inr (Some (p, seq, name)))
      | (s', Inr RUnreadable) \<Rightarrow> newest_valid ft cd mode gs (pass_over name s')
      | (s', Inr _) \<Rightarrow> newest_valid ft cd mode gs s')"

definition apos :: string where "apos = [CHR 0x27]"

definition show_u64 :: "u64 \<Rightarrow> string" where
  "show_u64 x = show_nat (unat x)"

definition pick_current :: "persisted \<Rightarrow> read \<Rightarrow> (persisted \<times> load_source \<times> string) picking" where
  "pick_current current tmp s =
     (case tmp of
        RValid t \<Rightarrow>
          if supersedes t current then (s, Inr (t, FromInterrupted, TMP))
          else (alarmed (TMP @ '' (revision '' @ show_u64 (ps_rev t) @ '') is older than '' @ CURRENT @ apos @ ''s '' @
                   show_u64 (ps_rev current) @ '' and is not loaded'')
                 (reject (path_of (snd s) TMP) (''revision '' @ show_u64 (ps_rev t) @ '' is not newer than current.json'' @ apos @ ''s '' @
                   show_u64 (ps_rev current)) s),
                Inr (current, FromCurrent, CURRENT))
      | _ \<Rightarrow> (s, Inr (current, FromCurrent, CURRENT)))"

definition pick_newest ::
  "read \<Rightarrow> (persisted \<times> u64 \<times> string) option \<Rightarrow> io_error option \<Rightarrow> (persisted \<times> load_source \<times> string) option picking" where
  "pick_newest tmp newest unlisted s =
     (case (tmp, newest) of
        (RValid t, Some (g, seq, name)) \<Rightarrow>
          if \<not> supersedes t g
          then (alarmed (TMP @ '' (revision '' @ show_u64 (ps_rev t) @ '') is older than generation '' @ show_u64 seq @ apos @ ''s '' @
                   show_u64 (ps_rev g) @ '' and is not loaded'')
                 (reject (path_of (snd s) TMP) (''revision '' @ show_u64 (ps_rev t) @ '' is not newer than generation '' @
                   show_u64 seq @ apos @ ''s '' @ show_u64 (ps_rev g)) s),
                Inr (Some (g, FromGeneration seq, name)))
          else (case unlisted of Some e \<Rightarrow> alarmed (''save.tmp is loaded without comparing it with the generations, which cannot be listed ('' @ ie_text e @ '')'') s
                  | None \<Rightarrow> s, Inr (Some (t, FromInterrupted, TMP)))
      | (RValid t, None) \<Rightarrow>
          (case unlisted of Some e \<Rightarrow> alarmed (''save.tmp is loaded without comparing it with the generations, which cannot be listed ('' @ ie_text e @ '')'') s
             | None \<Rightarrow> s, Inr (Some (t, FromInterrupted, TMP)))
      | (_, Some (g, seq, name)) \<Rightarrow> (s, Inr (Some (g, FromGeneration seq, name)))
      | (_, None) \<Rightarrow> (s, Inr None))"

definition pick_live :: "faults \<Rightarrow> codec \<Rightarrow> reading \<Rightarrow> (persisted \<times> load_source \<times> string) option picking" where
  "pick_live ft cd mode =
     try_p (read_state ft cd mode CURRENT) (\<lambda>current s0.
       let s1 = ((fst s0)\<lparr>pk_current := read_file_state current\<rparr>, snd s0);
           s2 = (if read_file_state current = FsUnreadable then pass_over CURRENT s1 else s1)
       in try_p (read_state ft cd mode TMP) (\<lambda>tmp s3.
            let s4 = ((fst s3)\<lparr>pk_tmp := read_file_state tmp\<rparr>, snd s3) in
            case current of
              RValid c \<Rightarrow> try_p (pick_current c tmp) (\<lambda>r s. (s, Inr (Some r))) s4
            | _ \<Rightarrow>
                (case store_generations ft (snd s4) of
                   (d, Inr gens) \<Rightarrow>
                     try_p (newest_valid ft cd mode (rev gens)) (\<lambda>newest. pick_newest tmp newest None) (fst s4, d)
                 | (d, Inl e) \<Rightarrow>
                     if mode = Strict then ((fst s4, d), Inl e)
                     else pick_newest tmp None (Some e)
                            (reject (fs_dir d) (''the generations cannot be listed: '' @ ie_text e) (fst s4, d)))) s2)"

subsection \<open>The load\<close>

definition chain_settle :: "topology \<Rightarrow> persisted \<Rightarrow> load_source \<Rightarrow> pick \<Rightarrow> loaded" where
  "chain_settle topo p src pk =
     (let (r, dropped) = core_reconcile topo (ps_state p)
      in \<lparr>ld_persisted = p\<lparr>ps_state := to_state topo r\<rparr>, ld_source = src, ld_rejected = pk_rejected pk, ld_dropped = dropped,
          ld_alarms = pk_alarms pk, ld_current = pk_current pk, ld_tmp = pk_tmp pk\<rparr>)"

definition load_chain :: "faults \<Rightarrow> codec \<Rightarrow> topology \<Rightarrow> store \<Rightarrow> store \<times> loaded \<times> string list" where
  "load_chain ft cd topo d0 =
     (let ((pk0, d1), r) = pick_live ft cd Tolerant (pick_default, d0);
          (pk1, live) = (case r of Inr x \<Rightarrow> (pk0, x)
                         | Inl e \<Rightarrow> (pk0\<lparr>pk_rejected := pk_rejected pk0 @ [(fs_dir d1, ie_text e)]\<rparr>, None));
          passed = pk_passed_over pk1; pk = pk1\<lparr>pk_passed_over := []\<rparr>
      in case live of
           Some (p, src, _) \<Rightarrow> (d1, chain_settle topo p src pk, passed)
         | None \<Rightarrow>
             (let ((pk2, d2), b) = read_state ft cd Tolerant BASELINE (pk, d1)
              in case b of
                   Inr (RValid p) \<Rightarrow> (d2, chain_settle topo p FromBaseline pk2, passed)
                 | _ \<Rightarrow> (d2, \<lparr>ld_persisted = \<lparr>ps_rev = 0, ps_hash = t_hash topo, ps_unix_ms = 0, ps_state = defaults_muted topo, ps_counters = []\<rparr>,
                        ld_source = FromDefaults, ld_rejected = pk_rejected pk2, ld_dropped = [], ld_alarms = pk_alarms pk2,
                        ld_current = pk_current pk2, ld_tmp = pk_tmp pk2\<rparr>, passed)))"

fun join_and :: "string list \<Rightarrow> string" where
  "join_and [] = []"
| "join_and [x] = x"
| "join_and (x # xs) = x @ '' and '' @ join_and xs"

definition continue_above :: "string list \<Rightarrow> io_error + listing \<Rightarrow> loaded \<Rightarrow> loaded" where
  "continue_above passed listed l =
     (let floor = (case listed of Inr li \<Rightarrow> li_floor li | Inl _ \<Rightarrow> None);
          al = (case listed of Inr _ \<Rightarrow> ld_alarms l
                | Inl e \<Rightarrow> ld_alarms l @ [''the revisions the state files'' @ apos @ '' names show cannot be listed ('' @ ie_text e @ '')'']);
          r = sat_add64 (max (ps_rev (ld_persisted l)) (or_default 0 floor)) REV_JUMP;
          it = (if length passed = 1 then ''it'' else ''they'');
          shown = (case floor of Some f \<Rightarrow> '' (the names show revision '' @ show_u64 f @ '' at most)'' | None \<Rightarrow> [])
      in l\<lparr>ld_persisted := (ld_persisted l)\<lparr>ps_rev := r\<rparr>,
           ld_alarms := al @ [join_and passed @ '' cannot be read, so the revision continues at '' @ show_u64 r @
             '', above anything '' @ it @ '' can hold'' @ shown]\<rparr>)"

definition orphan_alarm :: "faults \<Rightarrow> codec \<Rightarrow> u64 \<Rightarrow> (u32 \<times> string) \<Rightarrow> loaded \<times> store \<Rightarrow> loaded \<times> store" where
  "orphan_alarm ft cd own on s =
     (let name = snd on; (d, _, r) = read_tried ft name (READ_TRIES - 1) READ_PAUSES (snd s);
          say = (\<lambda>msg. ((fst s)\<lparr>ld_alarms := ld_alarms (fst s) @ [msg]\<rparr>, d))
      in case r of
           Inr (Some b) \<Rightarrow>
             (case decode cd b of
                Inr p \<Rightarrow>
                  if own < ps_rev p
                  then say (name @ '' (revision '' @ show_u64 (ps_rev p) @ '') is above the state loaded (revision '' @ show_u64 own @
                         ''): a '' @ TMP @ '' moved aside, kept but never loaded'')
                  else (fst s, d)
              | Inl _ \<Rightarrow> (fst s, d))
         | Inr None \<Rightarrow> (fst s, d)
         | Inl e \<Rightarrow> say (name @ '' cannot be read ('' @ ie_text e @ ''): a '' @ TMP @ '' moved aside, it may hold a state above the one loaded''))"

definition orphans_above :: "faults \<Rightarrow> codec \<Rightarrow> u64 \<Rightarrow> io_error + listing \<Rightarrow> loaded \<times> store \<Rightarrow> loaded \<times> store" where
  "orphans_above ft cd own listed s =
     (case listed of
        Inr li \<Rightarrow> fold (orphan_alarm ft cd own) (li_orphans li) s
      | Inl e \<Rightarrow> ((fst s)\<lparr>ld_alarms := ld_alarms (fst s) @ [''the state directory cannot be listed to look for a '' @ TMP @
                   '' moved aside above the state loaded ('' @ ie_text e @ '')'']\<rparr>, snd s))"

definition store_load :: "faults \<Rightarrow> codec \<Rightarrow> topology \<Rightarrow> store \<Rightarrow> store \<times> loaded" where
  "store_load ft cd topo d0 =
     (let (d1, l, passed) = load_chain ft cd topo d0; own = ps_rev (ld_persisted l);
          (d2, listed) = store_list ft d1;
          l1 = (if passed \<noteq> [] then continue_above passed listed l else l);
          (l2, d3) = orphans_above ft cd own listed (l1, d2)
      in (d3, l2))"

definition store_live :: "faults \<Rightarrow> codec \<Rightarrow> (load_source \<times> string) option io" where
  "store_live ft cd d =
     (case pick_live ft cd Strict (pick_default, d) of
        ((_, d'), Inl e) \<Rightarrow> (d', Inl e)
      | ((_, d'), Inr x) \<Rightarrow> (d', Inr (map_option (\<lambda>(_, src, name). (src, name)) x)))"

definition live_state :: "faults \<Rightarrow> codec \<Rightarrow> load_source option io" where
  "live_state ft cd = try_io (store_live ft cd) (\<lambda>x. ok_io (map_option fst x))"

definition live_file :: "faults \<Rightarrow> codec \<Rightarrow> string option io" where
  "live_file ft cd = try_io (store_live ft cd) (\<lambda>x. ok_io (map_option snd x))"

subsection \<open>Recovery\<close>

definition finish_interrupted :: "faults \<Rightarrow> u64 \<Rightarrow> committed io" where
  "finish_interrupted ft r = try_io (fs_sync_file ft TMP) (\<lambda>_. commit_tmp ft r)"

definition recover_damaged :: "faults \<Rightarrow> loaded \<Rightarrow> recovery \<times> store \<Rightarrow> recovery \<times> store" where
  "recover_damaged ft l s =
     (if ld_current l = FsDamaged
      then (case move_aside ft CURRENT ''damaged'' (snd s) of
              (d, Inr (aside, synced)) \<Rightarrow>
                ((fst s)\<lparr>rv_failed := rv_failed (fst s) @
                    (case synced of
                       Inl e \<Rightarrow> [''the damaged '' @ CURRENT @ '' was moved aside to '' @ path_of d aside @ '', but the directory sync failed: '' @ ie_text e]
                     | Inr _ \<Rightarrow> []),
                  rv_quarantined := Some (path_of d aside)\<rparr>, d)
            | (d, Inl e) \<Rightarrow>
                ((fst s)\<lparr>rv_failed := rv_failed (fst s) @ [''the damaged '' @ CURRENT @ '' could not be moved aside: '' @ ie_text e]\<rparr>, d))
      else s)"

definition recover :: "faults \<Rightarrow> loaded \<Rightarrow> store \<Rightarrow> recovery \<times> store" where
  "recover ft l d0 =
     (let s0 = (\<lparr>rv_quarantined = None, rv_finished = False, rv_failed = [], rv_warnings = []\<rparr>,
            d0\<lparr>fs_own := (ld_tmp l = FsMissing \<or> ld_source l = FromInterrupted)\<rparr>);
          s1 = recover_damaged ft l s0
      in if ld_source l = FromInterrupted \<and> ld_current l = FsUnreadable
         then ((fst s1)\<lparr>rv_warnings := rv_warnings (fst s1) @ [''the interrupted save stays in '' @ TMP @ '': '' @ CURRENT @
                 '' cannot be read, and recovery never moves it'']\<rparr>, snd s1)
         else if ld_source l = FromInterrupted
         then (case finish_interrupted ft (ps_rev (ld_persisted l)) (snd s1) of
                 (d, Inr cm) \<Rightarrow>
                   ((fst s1)\<lparr>rv_finished := True, rv_warnings := rv_warnings (fst s1) @
                      (case cm_pruning cm of Some why \<Rightarrow> [''old generations were not removed: '' @ why] | None \<Rightarrow> [])\<rparr>, d)
               | (d, Inl e) \<Rightarrow>
                   ((fst s1)\<lparr>rv_failed := rv_failed (fst s1) @ [''finishing the interrupted save failed: '' @ ie_text e]\<rparr>, d))
         else s1)"

end
