(* ===== verification/PersistProps.thy ===== *)
theory PersistProps
  imports LoadChain "HOL-Library.Multiset"
begin

text \<open>
  What the store guarantees: names and files read back as written, and whichever steps of a save
  or of the boot's recovery fail, and wherever a crash cuts them off, the load chain finds the
  state from before or the new one, and never an older one.
\<close>

subsection \<open>Numbers in names\<close>

lemma digit_val_digit: "d < 10 \<Longrightarrow> digit_val (char_of (48 + d)) = Some d"
  by (simp add: digit_val_def Let_def)

definition is_digit :: "char \<Rightarrow> bool" where
  "is_digit c = (digit_val c \<noteq> None)"

lemma show_nat_digits: "\<forall>c \<in> set (show_nat n). is_digit c"
proof (induction n rule: show_nat.induct)
  case (1 n)
  have "is_digit (char_of (48 + n mod 10))" "n < 10 \<Longrightarrow> is_digit (char_of (48 + n))"
    by (simp_all add: is_digit_def digit_val_digit)
  then show ?case using 1 by (simp add: show_nat.simps [of n])
qed

lemma show_nat_nonempty [simp]: "show_nat n \<noteq> []"
  by (simp add: show_nat.simps [of n])

lemma parse_digits_snoc:
  "parse_digits w acc (xs @ [c]) =
     (case parse_digits w acc xs of None \<Rightarrow> None | Some a \<Rightarrow> parse_digits w a [c])"
  by (induction w acc xs rule: parse_digits.induct) (auto split: option.split)

lemma parse_show: "n < 2 ^ w \<Longrightarrow> parse_digits w 0 (show_nat n) = Some n"
proof (induction n rule: show_nat.induct)
  case (1 n)
  show ?case
  proof (cases "n < 10")
    case True
    then show ?thesis using 1(2) by (simp add: show_nat.simps [of n] digit_val_digit)
  next
    case False
    have "n div 10 \<le> n" by simp
    then have "parse_digits w 0 (show_nat (n div 10)) = Some (n div 10)" using 1 False by auto
    moreover have "10 * (n div 10) + n mod 10 = n" by simp
    ultimately show ?thesis using False 1(2)
      by (simp add: show_nat.simps [of n] parse_digits_snoc digit_val_digit)
  qed
qed

lemma parse_padded: "n < 2 ^ w \<Longrightarrow> parse_digits w 0 (replicate k (CHR ''0'') @ show_nat n) = Some n"
proof (induction k)
  case (Suc k)
  have "digit_val (CHR ''0'') = Some 0" by (simp add: digit_val_def)
  then show ?case using Suc by simp
qed (simp add: parse_show)

lemma digits_no_plus: "\<forall>c \<in> set s. is_digit c \<Longrightarrow> s \<noteq> [] \<Longrightarrow> parse_unsigned w s = parse_digits w 0 s"
proof -
  assume d: "\<forall>c \<in> set s. is_digit c" and "s \<noteq> []"
  then obtain c cs where s: "s = c # cs" by (cases s) auto
  have "c \<noteq> CHR ''+''" using d s by (auto simp: is_digit_def digit_val_def)
  then show ?thesis by (simp add: parse_unsigned_def s)
qed

lemma pad10_digits: "\<forall>c \<in> set (pad10 n). is_digit c" "pad10 n \<noteq> []"
  using show_nat_digits [of n] by (auto simp: pad10_def is_digit_def digit_val_def)

lemma u64_bound: "unat (x :: u64) < 2 ^ 64"
  using unsigned_less [of x] by simp

lemma parse_u64_show [simp]: "parse_u64 (show_nat (unat x)) = Some x" "parse_u64 (pad10 (unat x)) = Some x"
  using digits_no_plus [OF show_nat_digits] digits_no_plus [OF pad10_digits] parse_show [OF u64_bound, of x] parse_padded [OF u64_bound, of _ x]
  by (simp_all add: parse_u64_def pad10_def)

subsection \<open>Names\<close>

lemma strip_prefix_append [simp]: "strip_prefix p (p @ s) = Some s"
  by (induction p) simp_all

lemma strip_suffix_append [simp]: "strip_suffix suf (s @ suf) = Some s"
  by (simp add: strip_suffix_def)

lemma not_dash: "is_digit c \<Longrightarrow> c \<noteq> CHR ''-''"
  by (auto simp: is_digit_def digit_val_def)

lemma split_digits: "\<forall>c \<in> set s. is_digit c \<Longrightarrow> split_once ''-r'' s = None"
  by (induction s) (auto dest: not_dash)

lemma split_digits_at: "\<forall>c \<in> set s. is_digit c \<Longrightarrow> split_once ''-r'' (s @ ''-r'' @ t) = Some (s, t)"
  by (induction s) (auto dest: not_dash)

lemma generation_name_some:
  "generation_name seq (Some r) = ''gen-'' @ (pad10 (unat seq) @ ''-r'' @ show_nat (unat r)) @ ''.json''"
  "generation_name seq None = ''gen-'' @ pad10 (unat seq) @ ''.json''"
  by (simp_all add: generation_name_def)

lemma generation_parts_name [simp]: "generation_parts (generation_name seq r) = Some (seq, r)"
proof (cases r)
  case None
  then show ?thesis
    by (simp only: None generation_name_some generation_parts_def strip_prefix_append strip_suffix_append option.case
        split_digits [OF pad10_digits(1)] parse_u64_show option.map)
next
  case (Some x)
  have s: "split_once ''-r'' (pad10 (unat seq) @ ''-r'' @ show_nat (unat x)) = Some (pad10 (unat seq), show_nat (unat x))"
    by (rule split_digits_at [OF pad10_digits(1)])
  show ?thesis
    by (simp only: Some generation_name_some generation_parts_def strip_prefix_append strip_suffix_append option.case s prod.case
        parse_u64_show)
qed

lemma mark_rev_name [simp]: "mark_rev (mark_name r) = Some r"
  by (simp add: mark_rev_def mark_name_def)

text \<open>The fixed names, the markers and what is moved aside are no generations.\<close>

lemma no_generation [simp]:
  "generation_parts CURRENT = None" "generation_parts TMP = None" "generation_parts NEW = None"
  "generation_parts BASELINE = None" "generation_parts (mark_name r) = None"
  "generation_parts (TMP @ s) = None" "generation_parts (CURRENT @ s) = None"
  by (simp_all add: generation_parts_def CURRENT_def TMP_def NEW_def BASELINE_def mark_name_def MARK_def)

lemma names_differ [simp]:
  "CURRENT \<noteq> TMP" "TMP \<noteq> CURRENT" "NEW \<noteq> TMP" "TMP \<noteq> NEW" "NEW \<noteq> CURRENT" "CURRENT \<noteq> NEW"
  "mark_name r \<noteq> CURRENT" "mark_name r \<noteq> TMP" "CURRENT \<noteq> mark_name r" "TMP \<noteq> mark_name r"
  by (simp_all add: CURRENT_def TMP_def NEW_def mark_name_def MARK_def)

lemma generation_differs:
  "generation_parts n = Some x \<Longrightarrow> n \<noteq> CURRENT" "generation_parts n = Some x \<Longrightarrow> n \<noteq> TMP"
  by auto

subsection \<open>Which state is live\<close>

text \<open>
  The abstract specification of the load chain: the live state as a function of the directory
  alone, when every file can be read.
\<close>

type_synonym files = "(string, u8 list) btree"

definition content :: "codec \<Rightarrow> files \<Rightarrow> string \<Rightarrow> read" where
  "content cd fs name =
     (case map_of fs name of None \<Rightarrow> RMissing | Some b \<Rightarrow> (case decode cd b of Inr p \<Rightarrow> RValid p | Inl _ \<Rightarrow> RDamaged))"

definition gens :: "files \<Rightarrow> (u64 \<times> string) list" where
  "gens fs = li_generations (list_names (map fst fs))"

fun first_valid :: "codec \<Rightarrow> files \<Rightarrow> (u64 \<times> string) list \<Rightarrow> (persisted \<times> u64 \<times> string) option" where
  "first_valid cd fs [] = None"
| "first_valid cd fs ((seq, name) # gs) =
     (case content cd fs name of RValid p \<Rightarrow> Some (p, seq, name) | _ \<Rightarrow> first_valid cd fs gs)"

definition newest :: "codec \<Rightarrow> files \<Rightarrow> (persisted \<times> u64 \<times> string) option" where
  "newest cd fs = first_valid cd fs (rev (gens fs))"

definition live_of :: "codec \<Rightarrow> files \<Rightarrow> (persisted \<times> load_source \<times> string) option" where
  "live_of cd fs =
     (case content cd fs CURRENT of
        RValid c \<Rightarrow>
          (case content cd fs TMP of
             RValid t \<Rightarrow> if supersedes t c then Some (t, FromInterrupted, TMP) else Some (c, FromCurrent, CURRENT)
           | _ \<Rightarrow> Some (c, FromCurrent, CURRENT))
      | _ \<Rightarrow>
          (case (content cd fs TMP, newest cd fs) of
             (RValid t, Some (g, seq, name)) \<Rightarrow>
               if supersedes t g then Some (t, FromInterrupted, TMP) else Some (g, FromGeneration seq, name)
           | (RValid t, None) \<Rightarrow> Some (t, FromInterrupted, TMP)
           | (_, Some (g, seq, name)) \<Rightarrow> Some (g, FromGeneration seq, name)
           | (_, None) \<Rightarrow> None))"

subsection \<open>The chain computes it\<close>

abbreviation no_faults :: faults where
  "no_faults \<equiv> \<lambda>_. None"

lemma io_step_ok [simp]: "io_step no_faults br act d = act (d\<lparr>fs_step := Suc (fs_step d)\<rparr>)"
  by (simp add: io_step_def)

lemma read_tried_ok:
  "read_tried no_faults name k paused d =
     (d\<lparr>fs_step := Suc (fs_step d)\<rparr>, paused, Inr (map_of (fs_files d) name))"
  by (cases k) (simp_all add: fs_read_def not_found_def split: option.split)

text \<open>What reading files one after the other leaves of the pick.\<close>

definition same_marks :: "pick \<Rightarrow> pick \<Rightarrow> bool" where
  "same_marks pk pk' =
     (pk_passed_over pk' = pk_passed_over pk \<and> pk_current pk' = pk_current pk \<and> pk_tmp pk' = pk_tmp pk)"

lemma read_state_ok:
  "\<exists>pk'. read_state no_faults cd mode name (pk, d) = ((pk', d\<lparr>fs_step := Suc (fs_step d)\<rparr>), Inr (content cd (fs_files d) name)) \<and>
     same_marks pk pk'"
  by (simp add: same_marks_def read_state_def read_tried_ok content_def Let_def split: option.split sum.split)

lemma newest_valid_ok:
  "\<exists>s'. newest_valid no_faults cd mode gs s = (s', Inr (first_valid cd (fs_files (snd s)) gs)) \<and>
     fs_files (snd s') = fs_files (snd s) \<and> same_marks (fst s) (fst s')"
proof (induction gs arbitrary: s)
  case (Cons g gs)
  obtain seq name where g: "g = (seq, name)" by fastforce
  obtain pk d where s: "s = (pk, d)" by fastforce
  let ?d = "d\<lparr>fs_step := Suc (fs_step d)\<rparr>"
  obtain pk' where r: "read_state no_faults cd mode name (pk, d) = ((pk', ?d), Inr (content cd (fs_files d) name))"
    "same_marks pk pk'" using read_state_ok by blast
  have "content cd (fs_files d) name \<noteq> RUnreadable" by (simp add: content_def split: option.split sum.split)
  then show ?case using r Cons.IH [of "(pk', ?d)"]
    by (cases "content cd (fs_files d) name") (auto simp: g s same_marks_def)
qed (simp add: same_marks_def)

lemma store_list_ok: "store_list no_faults d = (d\<lparr>fs_step := Suc (fs_step d)\<rparr>, Inr (list_names (map fst (fs_files d))))"
  by (simp add: store_list_def fs_list_def try_io_def ok_io_def)

lemma store_generations_ok: "store_generations no_faults d = (d\<lparr>fs_step := Suc (fs_step d)\<rparr>, Inr (gens (fs_files d)))"
  by (simp add: store_generations_def store_list_ok try_io_def ok_io_def gens_def)

lemma content_readable: "content cd fs name \<noteq> RUnreadable" "read_file_state (content cd fs name) \<noteq> FsUnreadable"
  by (simp_all add: content_def split: option.split sum.split)

lemma pick_live_ok:
  "\<exists>s'. pick_live no_faults cd mode (pk, d) = (s', Inr (live_of cd (fs_files d))) \<and> fs_files (snd s') = fs_files d \<and>
     pk_passed_over (fst s') = pk_passed_over pk \<and> pk_current (fst s') = read_file_state (content cd (fs_files d) CURRENT) \<and>
     pk_tmp (fst s') = read_file_state (content cd (fs_files d) TMP)"
proof -
  let ?d = "d\<lparr>fs_step := Suc (fs_step d)\<rparr>"
  obtain p1 where r1: "read_state no_faults cd mode CURRENT (pk, d) = ((p1, ?d), Inr (content cd (fs_files d) CURRENT))"
    "same_marks pk p1" using read_state_ok by blast
  let ?p1 = "p1\<lparr>pk_current := read_file_state (content cd (fs_files d) CURRENT)\<rparr>"
  obtain p2 where r2: "read_state no_faults cd mode TMP (?p1, ?d) =
      ((p2, ?d\<lparr>fs_step := Suc (fs_step ?d)\<rparr>), Inr (content cd (fs_files ?d) TMP))"
    "same_marks ?p1 p2" using read_state_ok by blast
  let ?e = "?d\<lparr>fs_step := Suc (fs_step ?d)\<rparr>" let ?p2 = "p2\<lparr>pk_tmp := read_file_state (content cd (fs_files d) TMP)\<rparr>"
  obtain p3 d3 where r3: "newest_valid no_faults cd mode (rev (gens (fs_files d))) (?p2, ?e\<lparr>fs_step := Suc (fs_step ?e)\<rparr>) =
      ((p3, d3), Inr (newest cd (fs_files d)))" "fs_files d3 = fs_files d" "same_marks ?p2 p3"
    using newest_valid_ok [of cd mode "rev (gens (fs_files d))" "(?p2, ?e\<lparr>fs_step := Suc (fs_step ?e)\<rparr>)"]
    by (auto simp: newest_def)
  note st = r1 r2 r3 content_readable [of cd "fs_files d"]
  show ?thesis
  proof (cases "\<exists>c. content cd (fs_files d) CURRENT = RValid c")
    case True
    then obtain c where c: "content cd (fs_files d) CURRENT = RValid c" ..
    then show ?thesis using st
      by (cases "content cd (fs_files d) TMP")
        (auto simp: pick_live_def try_p_def Let_def pick_current_def live_of_def alarmed_def reject_def same_marks_def)
  next
    case False
    have g: "store_generations no_faults ?e = (?e\<lparr>fs_step := Suc (fs_step ?e)\<rparr>, Inr (gens (fs_files d)))"
      by (simp add: store_generations_ok)
    have p: "pick_live no_faults cd mode (pk, d) = pick_newest (content cd (fs_files d) TMP) (newest cd (fs_files d)) None (p3, d3)"
      using False st g by (cases "content cd (fs_files d) CURRENT") (simp_all add: pick_live_def try_p_def Let_def)
    have m: "pk_passed_over p3 = pk_passed_over pk" "pk_current p3 = read_file_state (content cd (fs_files d) CURRENT)"
      "pk_tmp p3 = read_file_state (content cd (fs_files d) TMP)" using r1(2) r2(2) r3(3) by (simp_all add: same_marks_def)
    show ?thesis unfolding p using False m r3(2) content_readable(1) [of cd "fs_files d"]
      by (cases "content cd (fs_files d) CURRENT"; cases "content cd (fs_files d) TMP"; cases "newest cd (fs_files d)")
        (auto simp: pick_newest_def live_of_def alarmed_def reject_def)
  qed
qed

subsection \<open>Changes of the directory\<close>

lemma list_fold:
  "li_generations (fold list_name names l) =
     li_generations l @ List.map_filter (\<lambda>n. map_option (\<lambda>(s, _). (s, n)) (generation_parts n)) names"
  by (induction names arbitrary: l) (auto simp: list_name_def map_filter_simps split: option.split prod.split)

lemma gens_eq: "gens fs = sort (List.map_filter (\<lambda>n. map_option (\<lambda>(s, _). (s, n)) (generation_parts n)) (map fst fs))"
  by (simp add: gens_def list_names_def Let_def list_fold)

lemma gens_iff: "(s, n) \<in> set (gens fs) \<longleftrightarrow> map_of fs n \<noteq> None \<and> (\<exists>r. generation_parts n = Some (s, r))"
  by (auto simp: gens_eq map_filter_def map_of_eq_None_iff image_iff split: option.splits) force+

lemma gens_sorted: "sorted (gens fs)"
  by (simp add: gens_eq)

lemma gens_distinct: "bm_ok fs \<Longrightarrow> distinct (gens fs)"
proof -
  assume "bm_ok fs"
  then have "distinct (map fst fs)" by (rule bm_ok_distinct)
  then have "distinct (List.map_filter (\<lambda>n. map_option (\<lambda>(s, _). (s, n)) (generation_parts n)) (map fst fs))"
    unfolding map_filter_def by (auto simp: distinct_map inj_on_def split: option.splits prod.splits)
  then show ?thesis by (simp add: gens_eq)
qed

text \<open>The generations are the same when the same generation files are there.\<close>

lemma gens_unique:
  assumes "bm_ok fs" and "distinct gs" and "sorted gs"
    and "\<And>s n. (s, n) \<in> set gs \<longleftrightarrow> map_of fs n \<noteq> None \<and> (\<exists>r. generation_parts n = Some (s, r))"
  shows "gens fs = gs"
proof (rule sorted_distinct_set_unique [OF gens_sorted gens_distinct [OF assms(1)] assms(3,2)])
  show "set (gens fs) = set gs" using assms(4) by (auto simp: gens_iff)
qed

lemma first_valid_cong:
  "(\<And>s n. (s, n) \<in> set gs \<Longrightarrow> map_of fs' n = map_of fs n) \<Longrightarrow> first_valid cd fs' gs = first_valid cd fs gs"
proof (induction gs)
  case (Cons g gs)
  then have "map_of fs' (snd g) = map_of fs (snd g)" by (metis list.set_intros(1) surjective_pairing)
  then have "content cd fs' (snd g) = content cd fs (snd g)" by (simp add: content_def)
  moreover have "first_valid cd fs' gs = first_valid cd fs gs" using Cons by auto
  ultimately show ?case by (cases g) (simp split: read.split)
qed simp

lemma newest_cong:
  assumes "bm_ok fs" "bm_ok fs'" and same: "\<And>n. generation_parts n \<noteq> None \<Longrightarrow> map_of fs' n = map_of fs n"
  shows "newest cd fs' = newest cd fs"
proof -
  have "gens fs' = gens fs"
    by (rule gens_unique [OF assms(2) gens_distinct [OF assms(1)] gens_sorted]) (auto simp: gens_iff same)
  moreover have "map_of fs' n = map_of fs n" if "(s, n) \<in> set (gens fs)" for s n
    using that same by (auto simp: gens_iff)
  ultimately show ?thesis by (auto simp: newest_def intro!: first_valid_cong)
qed

lemma live_cong:
  "content cd fs' CURRENT = content cd fs CURRENT \<Longrightarrow> content cd fs' TMP = content cd fs TMP \<Longrightarrow> newest cd fs' = newest cd fs \<Longrightarrow>
   live_of cd fs' = live_of cd fs"
  unfolding live_of_def by (simp only:)

text \<open>A file becomes the newest generation.\<close>

lemma newest_rotate:
  assumes ok: "bm_ok fs" and b: "map_of fs CURRENT = Some b" and gr: "\<And>s n. (s, n) \<in> set (gens fs) \<Longrightarrow> s < g"
  shows "newest cd (bm_insert (generation_name g h) b (bm_remove CURRENT fs)) =
    (case content cd fs CURRENT of RValid c \<Rightarrow> Some (c, g, generation_name g h) | _ \<Rightarrow> newest cd fs)"
proof -
  let ?n = "generation_name g h" let ?fs = "bm_insert ?n b (bm_remove CURRENT fs)"
  have new: "(s, ?n) \<notin> set (gens fs)" for s using gr [of s ?n] by (auto simp: gens_iff)
  have "gens ?fs = gens fs @ [(g, ?n)]"
  proof (rule gens_unique)
    show "bm_ok ?fs" using ok by (simp add: bm_insert_ok bm_remove_ok)
    show "distinct (gens fs @ [(g, ?n)])" using gens_distinct [OF ok] new by simp
    show "sorted (gens fs @ [(g, ?n)])" using gens_sorted [of fs] gr by (auto simp: sorted_append less_eq_prod_def)
    fix s n
    have "n \<noteq> CURRENT" if "generation_parts n = Some (s, r)" for r using that by (rule generation_differs)
    moreover have "(s, n) \<in> set (gens fs) \<Longrightarrow> n \<noteq> ?n" using new by auto
    ultimately show "(s, n) \<in> set (gens fs @ [(g, ?n)]) \<longleftrightarrow> map_of ?fs n \<noteq> None \<and> (\<exists>r. generation_parts n = Some (s, r))"
      using new by (auto simp: gens_iff map_of_bm_remove)
  qed
  moreover have "content cd ?fs ?n = content cd fs CURRENT" by (simp add: content_def b)
  moreover have "first_valid cd ?fs (rev (gens fs)) = first_valid cd fs (rev (gens fs))"
  proof (rule first_valid_cong)
    fix s n assume a: "(s, n) \<in> set (rev (gens fs))"
    then have "n \<noteq> ?n" "n \<noteq> CURRENT" using new generation_differs by (auto simp: gens_iff)
    then show "map_of ?fs n = map_of fs n" by (simp add: map_of_bm_remove)
  qed
  ultimately show ?thesis by (simp add: newest_def split: read.split)
qed

subsection \<open>Steps that may fail\<close>

text \<open>
  Whatever fails: from a store with \<open>P\<close>, the operation ends well with \<open>Q\<close> of its result, or with
  an error and \<open>E\<close>.
\<close>

definition holds :: "(store \<Rightarrow> bool) \<Rightarrow> 'a io \<Rightarrow> ('a \<Rightarrow> store \<Rightarrow> bool) \<Rightarrow> (store \<Rightarrow> bool) \<Rightarrow> bool" where
  "holds P m Q E = (\<forall>d. P d \<longrightarrow> (case m d of (d', Inl _) \<Rightarrow> E d' | (d', Inr a) \<Rightarrow> Q a d'))"

lemma holds_try: "holds P m R E \<Longrightarrow> (\<And>a. holds (R a) (k a) Q E) \<Longrightarrow> holds P (try_io m k) Q E"
  unfolding holds_def try_io_def by (fastforce split: prod.splits sum.splits)

lemma holds_ok: "(\<And>d. P d \<Longrightarrow> Q a d) \<Longrightarrow> holds P (ok_io a) Q E"
  by (simp add: holds_def ok_io_def)

lemma holds_weaken:
  "holds P m Q E \<Longrightarrow> (\<And>d. P' d \<Longrightarrow> P d) \<Longrightarrow> (\<And>a d. Q a d \<Longrightarrow> Q' a d) \<Longrightarrow> (\<And>d. E d \<Longrightarrow> E' d) \<Longrightarrow> holds P' m Q' E'"
  unfolding holds_def by (fastforce split: prod.splits sum.splits)

lemma holds_map_err: "holds P m Q E \<Longrightarrow> holds P (map_err f m) Q E"
  unfolding holds_def map_err_def by (fastforce split: prod.splits sum.splits)

text \<open>Assertions read the files and the ownership, never the count of steps.\<close>

definition of_files :: "(files \<Rightarrow> bool \<Rightarrow> bool) \<Rightarrow> store \<Rightarrow> bool" where
  "of_files A d = A (fs_files d) (fs_own d)"

lemma of_files_step [simp]: "of_files A (d\<lparr>fs_step := k\<rparr>) = of_files A d"
  by (simp add: of_files_def)

lemma holds_look:
  assumes "\<And>d. A (fs_files d) (fs_own d) \<Longrightarrow> (case act d of (d', Inl _) \<Rightarrow> d' = d | (d', Inr a) \<Rightarrow> d' = d \<and> Q a (fs_files d) (fs_own d))"
  shows "holds (of_files A) (io_step ft (\<lambda>_ d. d) act) (\<lambda>a. of_files (Q a)) (of_files A)"
proof -
  have "case io_step ft (\<lambda>_ d. d) act d of (d', Inl _) \<Rightarrow> of_files A d' | (d', Inr a) \<Rightarrow> of_files (Q a) d'" if "of_files A d" for d
    using that assms [of "d\<lparr>fs_step := Suc (fs_step d)\<rparr>"]
    by (auto simp: io_step_def Let_def of_files_def split: option.split prod.splits sum.splits)
  then show ?thesis by (simp add: holds_def)
qed

lemma holds_sync_file: "holds (of_files A) (fs_sync_file ft n) (\<lambda>_. of_files A) (of_files A)"
  unfolding fs_sync_file_def by (rule holds_look) (auto split: option.split)

lemma holds_sync_dir: "holds (of_files A) (fs_sync_dir ft) (\<lambda>_. of_files A) (of_files A)"
  unfolding fs_sync_dir_def by (rule holds_look) auto

lemma holds_exists:
  "holds (of_files A) (fs_exists ft n) (\<lambda>b. of_files (\<lambda>fs o'. A fs o' \<and> b = (map_of fs n \<noteq> None))) (of_files A)"
  unfolding fs_exists_def by (rule holds_look) auto

lemma holds_list: "holds (of_files A) (store_list ft) (\<lambda>l. of_files (\<lambda>fs o'. A fs o' \<and> l = list_names (map fst fs))) (of_files A)"
  unfolding store_list_def
proof (rule holds_try)
  show "holds (of_files A) (fs_list ft) (\<lambda>ns. of_files (\<lambda>fs o'. A fs o' \<and> ns = map fst fs)) (of_files A)"
    unfolding fs_list_def by (rule holds_look) auto
qed (rule holds_ok, simp add: of_files_def)

lemma holds_generations:
  "holds (of_files A) (store_generations ft) (\<lambda>g. of_files (\<lambda>fs o'. A fs o' \<and> g = gens fs)) (of_files A)"
  unfolding store_generations_def by (rule holds_try [OF holds_list holds_ok]) (auto simp: of_files_def gens_def)

lemma holds_rename:
  assumes "\<And>fs o' b. A fs o' \<Longrightarrow> map_of fs old = Some b \<Longrightarrow> B (bm_insert new b (bm_remove old fs)) o'"
  shows "holds (of_files A) (fs_rename ft old new) (\<lambda>_. of_files B) (of_files A)"
  unfolding holds_def fs_rename_def io_step_def Let_def of_files_def
  using assms by (auto split: option.split prod.splits sum.splits)

lemma holds_write:
  assumes "\<And>fs o' b. A fs o' \<Longrightarrow> A (bm_insert n b fs) o'"
  shows "holds (of_files A) (fs_write ft n bytes) (\<lambda>_. of_files (\<lambda>fs o'. A fs o' \<and> map_of fs n = Some bytes)) (of_files A)"
  unfolding holds_def fs_write_def io_step_def Let_def of_files_def fs_put_def
  using assms by (auto split: option.split)

lemma holds_remove:
  assumes "\<And>fs o'. A fs o' \<Longrightarrow> A (bm_remove n fs) o'"
  shows "holds (of_files A) (fs_remove ft n) (\<lambda>_. of_files A) (of_files A)"
  unfolding holds_def fs_remove_def io_step_def Let_def of_files_def
  using assms by (auto split: option.split)

subsection \<open>Files that do not matter\<close>

definition outside_name :: "string \<Rightarrow> bool" where
  "outside_name n = (generation_parts n = None \<and> n \<noteq> CURRENT \<and> n \<noteq> TMP)"

definition core_same :: "files \<Rightarrow> files \<Rightarrow> bool" where
  "core_same fs fs' = (\<forall>n. \<not> outside_name n \<longrightarrow> map_of fs' n = map_of fs n)"

text \<open>An assertion that other files than those of the chain do not touch.\<close>

definition steady :: "(files \<Rightarrow> bool \<Rightarrow> bool) \<Rightarrow> bool" where
  "steady A = (\<forall>fs o'. A fs o' \<longrightarrow> bm_ok fs \<and> (\<forall>fs'. bm_ok fs' \<and> core_same fs fs' \<longrightarrow> A fs' o'))"

lemma steadyD: "steady A \<Longrightarrow> A fs o' \<Longrightarrow> bm_ok fs' \<Longrightarrow> core_same fs fs' \<Longrightarrow> A fs' o'"
  and steady_ok: "steady A \<Longrightarrow> A fs o' \<Longrightarrow> bm_ok fs"
  unfolding steady_def by blast+

lemma outside_names [simp]:
  "outside_name NEW" "outside_name (mark_name r)" "outside_name (TMP @ CHR ''.'' # x)" "outside_name (CURRENT @ CHR ''.'' # x)"
  "\<not> outside_name CURRENT" "\<not> outside_name TMP"
  by (simp_all add: outside_name_def) (simp_all add: CURRENT_def TMP_def)

lemma steady_insert: "steady A \<Longrightarrow> A fs o' \<Longrightarrow> outside_name n \<Longrightarrow> A (bm_insert n b fs) o'"
proof (rule steadyD [of A fs o'])
  assume "steady A" "A fs o'" "outside_name n"
  then show "bm_ok (bm_insert n b fs)" "core_same fs (bm_insert n b fs)"
    using steady_ok [of A fs o'] by (simp add: bm_insert_ok, auto simp: core_same_def)
qed assumption

lemma steady_remove: "steady A \<Longrightarrow> A fs o' \<Longrightarrow> outside_name n \<Longrightarrow> A (bm_remove n fs) o'"
proof (rule steadyD [of A fs o'])
  assume "steady A" "A fs o'" "outside_name n"
  then show "bm_ok (bm_remove n fs)" "core_same fs (bm_remove n fs)"
    using steady_ok [of A fs o'] by (simp add: bm_remove_ok, auto simp: core_same_def map_of_bm_remove)
qed assumption

lemma mark_outside: "mark_rev n = Some r \<Longrightarrow> generation_parts n = None \<Longrightarrow> outside_name n"
  by (auto simp: outside_name_def mark_rev_def CURRENT_def TMP_def MARK_def)

lemma list_name_marks:
  "li_marks (list_name n l) = li_marks l @ (case (generation_parts n, mark_rev n) of (None, Some r) \<Rightarrow> [(r, n)] | _ \<Rightarrow> [])"
  by (simp add: list_name_def split: option.split prod.split)

lemma marks_fold: "set (li_marks (fold list_name ns l)) \<subseteq> set (li_marks l) \<union> {(r, n). outside_name n}"
proof (induction ns arbitrary: l)
  case (Cons n ns)
  have "set (li_marks (list_name n l)) \<subseteq> set (li_marks l) \<union> {(r, n). outside_name n}"
    unfolding list_name_marks using mark_outside [of n]
    by (cases "generation_parts n"; cases "mark_rev n") simp_all
  with Cons.IH [of "list_name n l"] show ?case unfolding fold_Cons comp_apply by blast
qed simp

lemma marks_listed: "(r, n) \<in> set (li_marks (list_names names)) \<Longrightarrow> outside_name n"
  using marks_fold [of names "\<lparr>li_generations = [], li_marks = [], li_orphans = [], li_floor = None\<rparr>"]
  by (auto simp: list_names_def Let_def)

lemma holds_set_mark:
  assumes "steady A" and "\<And>n. old = Some n \<Longrightarrow> outside_name n"
  shows "holds (of_files A) (set_mark ft old r) (\<lambda>_. of_files A) (of_files A)"
proof (cases old)
  case None
  have "holds (of_files A) (fs_write ft (mark_name r) []) (\<lambda>_. of_files (\<lambda>fs o'. A fs o' \<and> map_of fs (mark_name r) = Some [])) (of_files A)"
  proof (rule holds_write)
    show "A (bm_insert (mark_name r) b fs) o'" if "A fs o'" for fs o' b
      by (rule steady_insert [of A fs o', OF assms(1) that]) simp
  qed
  then have "holds (of_files A) (fs_write ft (mark_name r) []) (\<lambda>_. of_files A) (of_files A)"
    by (rule holds_weaken) (simp_all add: of_files_def)
  then show ?thesis using None by (simp add: set_mark_def)
next
  case (Some n)
  have "holds (of_files A) (fs_rename ft n (mark_name r)) (\<lambda>_. of_files A) (of_files A)"
  proof (rule holds_rename)
    fix fs o' b assume a: "A fs o'"
    have "A (bm_remove n fs) o'" by (rule steady_remove [of A fs o', OF assms(1) a]) (simp add: assms Some)
    then show "A (bm_insert (mark_name r) b (bm_remove n fs)) o'" by (rule steady_insert [of A _ o', OF assms(1)]) simp
  qed
  moreover have "holds (of_files A) (ok_io ()) (\<lambda>_. of_files A) (of_files A)" by (rule holds_ok) simp
  ultimately show ?thesis using Some by (simp add: set_mark_def)
qed

subsection \<open>The commit\<close>

definition room :: "nat \<Rightarrow> files \<Rightarrow> bool" where
  "room k fs = (bm_ok fs \<and> Suc k < 2 ^ 64 \<and> (\<forall>(s, n) \<in> set (gens fs). unat s + k < 2 ^ 64))"

definition ready :: "codec \<Rightarrow> persisted \<Rightarrow> files \<Rightarrow> bool" where
  "ready cd p fs =
     (content cd fs TMP = RValid p \<and>
      (case content cd fs CURRENT of
         RValid c \<Rightarrow> ps_rev c \<le> ps_rev p
       | _ \<Rightarrow> (case newest cd fs of Some (q, _) \<Rightarrow> ps_rev q \<le> ps_rev p | None \<Rightarrow> True)))"

definition stands :: "codec \<Rightarrow> persisted \<Rightarrow> files \<Rightarrow> bool" where
  "stands cd p fs = (content cd fs CURRENT = RValid p \<and> map_of fs TMP = None)"

lemma ready_live: "ready cd p fs \<Longrightarrow> live_of cd fs = Some (p, FromInterrupted, TMP)"
  by (auto simp: ready_def live_of_def supersedes_def split: read.splits option.splits)

lemma stands_live: "stands cd p fs \<Longrightarrow> live_of cd fs = Some (p, FromCurrent, CURRENT)"
  by (simp add: stands_def live_of_def content_def)

lemma core_same_facts:
  assumes "bm_ok fs" "bm_ok fs'" "core_same fs fs'"
  shows "content cd fs' CURRENT = content cd fs CURRENT" "content cd fs' TMP = content cd fs TMP" "newest cd fs' = newest cd fs"
    "map_of fs' TMP = map_of fs TMP" "gens fs' = gens fs" "live_of cd fs' = live_of cd fs"
proof -
  have m: "map_of fs' n = map_of fs n" if "generation_parts n \<noteq> None \<or> n = CURRENT \<or> n = TMP" for n
    using assms(3) that by (auto simp: core_same_def outside_name_def)
  then show c: "content cd fs' CURRENT = content cd fs CURRENT" "content cd fs' TMP = content cd fs TMP" "map_of fs' TMP = map_of fs TMP"
    by (simp_all add: content_def)
  show n: "newest cd fs' = newest cd fs" by (rule newest_cong [OF assms(1,2)]) (use m in auto)
  show "gens fs' = gens fs"
    by (rule gens_unique [OF assms(2) gens_distinct [OF assms(1)] gens_sorted]) (auto simp: gens_iff m)
  show "live_of cd fs' = live_of cd fs" by (rule live_cong [OF c(1,2) n])
qed

lemma room_same: "room k fs \<Longrightarrow> bm_ok fs' \<Longrightarrow> core_same fs fs' \<Longrightarrow> room k fs'"
  using core_same_facts(5) [of fs fs'] by (simp add: room_def)

lemma steadyI:
  "(\<And>fs o'. A fs o' \<Longrightarrow> bm_ok fs) \<Longrightarrow> (\<And>fs o' fs'. A fs o' \<Longrightarrow> bm_ok fs \<Longrightarrow> bm_ok fs' \<Longrightarrow> core_same fs fs' \<Longrightarrow> A fs' o') \<Longrightarrow> steady A"
  unfolding steady_def by blast

lemma steady_ready: "steady (\<lambda>fs _. room k fs \<and> ready cd p fs)"
proof (rule steadyI)
  fix fs fs' :: files assume a: "room k fs \<and> ready cd p fs" "bm_ok fs" "bm_ok fs'" "core_same fs fs'"
  then show "room k fs' \<and> ready cd p fs'"
    using room_same [of k fs fs'] core_same_facts(1-3) [OF a(2-4), of cd] by (simp only: ready_def)
qed (simp add: room_def)

lemma steady_stands: "steady (\<lambda>fs _. room k fs \<and> stands cd p fs)"
proof (rule steadyI)
  fix fs fs' :: files assume a: "room k fs \<and> stands cd p fs" "bm_ok fs" "bm_ok fs'" "core_same fs fs'"
  then show "room k fs' \<and> stands cd p fs'"
    using room_same [of k fs fs'] core_same_facts(1) [OF a(2-4), of cd] core_same_facts(4) [OF a(2-4)] by (simp add: stands_def)
qed (simp add: room_def)

text \<open>The seq after the last one is above all, and there is room for it.\<close>

lemma sorted_le_last: "sorted xs \<Longrightarrow> x \<in> set xs \<Longrightarrow> x \<le> last xs"
  by (induction xs) auto

definition next_seq :: "files \<Rightarrow> u64" where
  "next_seq fs = (case last_opt (gens fs) of None \<Rightarrow> 0 | Some g \<Rightarrow> fst g) + 1"

lemma next_seq_above:
  assumes "room (Suc k) fs" and "(s, n) \<in> set (gens fs)"
  shows "s < next_seq fs"
proof -
  have ne: "gens fs \<noteq> []" using assms(2) by auto
  obtain t m where l: "last (gens fs) = (t, m)" by fastforce
  have "(s, n) \<le> (t, m)" using sorted_le_last [OF gens_sorted assms(2)] l by simp
  then have "s \<le> t" by (auto simp: less_eq_prod_def)
  have "(t, m) \<in> set (gens fs)" using ne l by (metis last_in_set)
  then have "unat t + 1 < 2 ^ 64" using assms(1) by (fastforce simp: room_def)
  then have "unat (t + 1) = unat t + 1" by (simp add: unat_word_ariths)
  then show ?thesis using \<open>s \<le> t\<close> ne l by (simp add: next_seq_def last_opt_def word_less_nat_alt word_le_nat_alt)
qed

lemma next_seq_room:
  assumes "room (Suc k) fs"
  shows "unat (next_seq fs) + k < 2 ^ 64"
proof (cases "gens fs = []")
  case True
  then show ?thesis using assms by (simp add: next_seq_def last_opt_def room_def)
next
  case False
  obtain t m where l: "last (gens fs) = (t, m)" by fastforce
  have "(t, m) \<in> set (gens fs)" using False l by (metis last_in_set)
  then have "unat t + Suc k < 2 ^ 64" using assms by (fastforce simp: room_def)
  then show ?thesis using False l by (simp add: next_seq_def last_opt_def unat_word_ariths)
qed

lemma rotate_room:
  assumes r: "room (Suc k) fs" and b: "map_of fs CURRENT = Some b"
  shows "room k (bm_insert (generation_name (next_seq fs) h) b (bm_remove CURRENT fs))"
proof -
  let ?fs = "bm_insert (generation_name (next_seq fs) h) b (bm_remove CURRENT fs)"
  have "unat s + k < 2 ^ 64" if a: "(s, n) \<in> set (gens ?fs)" for s n
  proof (cases "n = generation_name (next_seq fs) h")
    case True
    then have "s = next_seq fs" using a by (auto simp: gens_iff)
    then show ?thesis using next_seq_room [OF r] by simp
  next
    case False
    then have "(s, n) \<in> set (gens fs)" using a by (auto simp: gens_iff map_of_bm_remove split: if_splits)
    then show ?thesis using r by (fastforce simp: room_def)
  qed
  then show ?thesis using r by (auto simp: room_def bm_insert_ok bm_remove_ok)
qed

lemma rotate_ready:
  assumes r: "room (Suc k) fs" and b: "map_of fs CURRENT = Some b" and p: "ready cd p fs"
  shows "ready cd p (bm_insert (generation_name (next_seq fs) h) b (bm_remove CURRENT fs))"
proof -
  let ?n = "generation_name (next_seq fs) h" let ?fs = "bm_insert ?n b (bm_remove CURRENT fs)"
  have ok: "bm_ok fs" using r by (simp add: room_def)
  have d: "?n \<noteq> CURRENT" "?n \<noteq> TMP" using generation_differs generation_parts_name by blast+
  have nw: "newest cd ?fs = (case content cd fs CURRENT of RValid c \<Rightarrow> Some (c, next_seq fs, ?n) | _ \<Rightarrow> newest cd fs)"
    by (rule newest_rotate [OF ok b]) (rule next_seq_above [OF r])
  have "content cd ?fs TMP = content cd fs TMP" "content cd ?fs CURRENT = RMissing"
    using d by (simp_all add: content_def map_of_bm_remove)
  then show ?thesis using p nw by (auto simp: ready_def split: read.splits)
qed

lemma tmp_becomes_current:
  assumes "room k fs" and "ready cd p fs" and "map_of fs TMP = Some b"
  shows "room k (bm_insert CURRENT b (bm_remove TMP fs)) \<and> stands cd p (bm_insert CURRENT b (bm_remove TMP fs))"
proof -
  let ?fs = "bm_insert CURRENT b (bm_remove TMP fs)"
  have ok: "bm_ok fs" "bm_ok ?fs" using assms(1) by (simp_all add: room_def bm_insert_ok bm_remove_ok)
  have "gens ?fs = gens fs"
    by (rule gens_unique [OF ok(2) gens_distinct [OF ok(1)] gens_sorted])
      (auto simp: gens_iff map_of_bm_remove)
  then have "room k ?fs" using assms(1) ok(2) by (simp add: room_def)
  moreover have "content cd ?fs CURRENT = RValid p" using assms(2,3) by (simp add: content_def ready_def)
  ultimately show ?thesis by (simp add: stands_def map_of_bm_remove)
qed

lemma steady_and: "steady A \<Longrightarrow> steady (\<lambda>fs o'. A fs o' \<and> B o')"
  unfolding steady_def by blast

lemma holds_pure:
  assumes "\<And>d. P d \<Longrightarrow> F" and "F \<Longrightarrow> holds P m Q E"
  shows "holds P m Q E"
proof (cases F)
  case False
  then show ?thesis using assms(1) by (auto simp: holds_def)
qed (rule assms(2))

definition ready_at :: "codec \<Rightarrow> nat \<Rightarrow> persisted \<Rightarrow> bool \<Rightarrow> files \<Rightarrow> bool \<Rightarrow> bool" where
  "ready_at cd k p w fs o' = ((room k fs \<and> ready cd p fs) \<and> o' = w)"

definition stands_at :: "codec \<Rightarrow> nat \<Rightarrow> persisted \<Rightarrow> bool \<Rightarrow> files \<Rightarrow> bool \<Rightarrow> bool" where
  "stands_at cd k p w fs o' = ((room k fs \<and> stands cd p fs) \<and> o' = w)"

definition has_at :: "codec \<Rightarrow> nat \<Rightarrow> persisted \<Rightarrow> bool \<Rightarrow> files \<Rightarrow> bool \<Rightarrow> bool" where
  "has_at cd k p w fs o' = (ready_at cd k p w fs o' \<or> stands_at cd k p w fs o')"

lemma has_at_intros:
  "of_files (ready_at cd k p w) d \<Longrightarrow> of_files (has_at cd k p w) d"
  "of_files (stands_at cd k p w) d \<Longrightarrow> of_files (has_at cd k p w) d"
  "of_files (ready_at cd (Suc k) p w) d \<Longrightarrow> of_files (has_at cd k p w) d"
proof -
  have "room k fs" if "room (Suc k) fs" for fs using that by (fastforce simp: room_def)
  then show "of_files (ready_at cd (Suc k) p w) d \<Longrightarrow> of_files (has_at cd k p w) d"
    by (simp add: of_files_def has_at_def ready_at_def)
qed (simp_all add: of_files_def has_at_def)

lemma has_at_raw: "ready_at cd (Suc k) p w fs o' \<Longrightarrow> has_at cd k p w fs o'"
  using has_at_intros(3) [of cd k p w "\<lparr>fs_dir = [], fs_files = fs, fs_step = 0, fs_own = o'\<rparr>"] by (simp add: of_files_def)

lemma steady_ready_at: "steady (ready_at cd k p w)"
  using steady_and [OF steady_ready, of k cd p "\<lambda>o'. o' = w"] unfolding steady_def ready_at_def .

lemma remove_generation:
  assumes "stands_at cd k p w fs o'" and "generation_parts n = Some x"
  shows "stands_at cd k p w (bm_remove n fs) o'"
proof -
  have "CURRENT \<noteq> n" "TMP \<noteq> n" using generation_differs [OF assms(2)] by auto
  then have "stands cd p (bm_remove n fs)" using assms(1) by (simp add: stands_at_def stands_def content_def map_of_bm_remove)
  moreover have "set (gens (bm_remove n fs)) \<subseteq> set (gens fs)" by (auto simp: gens_iff map_of_bm_remove split: if_splits)
  then have "room k (bm_remove n fs)" using assms(1) by (auto simp: stands_at_def room_def bm_remove_ok)
  ultimately show ?thesis using assms(1) by (simp add: stands_at_def)
qed

lemma remove_all_stands:
  assumes "\<forall>g \<in> set gs. generation_parts (snd g) \<noteq> None"
  shows "holds (of_files (stands_at cd k p w)) (remove_all ft gs) (\<lambda>_. of_files (stands_at cd k p w)) (of_files (stands_at cd k p w))"
  using assms
proof (induction gs)
  case (Cons g gs)
  obtain s n x where g: "g = (s, n)" "generation_parts n = Some x" using Cons.prems by (cases g) auto
  have "holds (of_files (stands_at cd k p w)) (fs_remove ft n) (\<lambda>_. of_files (stands_at cd k p w)) (of_files (stands_at cd k p w))"
    by (rule holds_remove) (rule remove_generation [OF _ g(2)])
  from holds_try [OF this Cons.IH] Cons.prems show ?case by (simp add: g(1))
qed (simp add: holds_ok)

lemma prune_stands:
  "holds (of_files (stands_at cd k p w)) (prune ft) (\<lambda>_. of_files (stands_at cd k p w)) (of_files (stands_at cd k p w))"
  unfolding prune_def
proof (rule holds_try [OF holds_generations])
  fix gs
  show "holds (of_files (\<lambda>fs o'. stands_at cd k p w fs o' \<and> gs = gens fs)) (remove_all ft (take (length gs - GENERATIONS) gs))
      (\<lambda>_. of_files (stands_at cd k p w)) (of_files (stands_at cd k p w))"
  proof (rule holds_pure [where F = "\<exists>fs. gs = gens fs"])
    assume "\<exists>fs. gs = gens fs"
    then have "\<forall>g \<in> set (take (length gs - GENERATIONS) gs). generation_parts (snd g) \<noteq> None"
      by (auto simp: gens_iff dest!: in_set_takeD)
    then show "holds (of_files (\<lambda>fs o'. stands_at cd k p w fs o' \<and> gs = gens fs)) (remove_all ft (take (length gs - GENERATIONS) gs))
      (\<lambda>_. of_files (stands_at cd k p w)) (of_files (stands_at cd k p w))"
      by (rule holds_weaken [OF remove_all_stands]) (simp_all add: of_files_def)
  qed (auto simp: of_files_def)
qed

text \<open>The commit after its first rename.\<close>

definition commit_tail :: "faults \<Rightarrow> string option \<Rightarrow> u64 \<Rightarrow> u64 \<Rightarrow> committed io" where
  "commit_tail ft old r generation =
     try_io (set_mark ft old r) (\<lambda>_.
     try_io (fs_rename ft TMP CURRENT) (\<lambda>_.
     try_io (fs_sync_dir ft) (\<lambda>_ d.
       (case prune ft d of
          (d', Inl e) \<Rightarrow> (d', Inr \<lparr>cm_generation = generation, cm_pruning = Some (ie_text e), cm_orphaned = None\<rparr>)
        | (d', Inr _) \<Rightarrow> (d', Inr \<lparr>cm_generation = generation, cm_pruning = None, cm_orphaned = None\<rparr>)))))"

lemma commit_eq:
  "commit_tmp ft r =
     try_io (store_list ft) (\<lambda>l. try_io (fs_exists ft CURRENT) (\<lambda>there.
       let g = (if there then (case last_opt (li_generations l) of None \<Rightarrow> 0 | Some g \<Rightarrow> fst g) + 1 else 0) in
       try_io (if there then fs_rename ft CURRENT (generation_name g (map_option fst (last_opt (li_marks l)))) else ok_io ()) (\<lambda>_.
       commit_tail ft (map_option snd (last_opt (li_marks l))) r g)))"
  by (simp add: commit_tmp_def commit_tail_def Let_def)

lemma commit_tail_holds:
  assumes "\<And>n. old = Some n \<Longrightarrow> outside_name n"
  shows "holds (of_files (ready_at cd k p w)) (commit_tail ft old r g) (\<lambda>_. of_files (stands_at cd k p w)) (of_files (has_at cd k p w))"
  unfolding commit_tail_def
proof (rule holds_try)
  show "holds (of_files (ready_at cd k p w)) (set_mark ft old r) (\<lambda>_. of_files (ready_at cd k p w)) (of_files (has_at cd k p w))"
    by (rule holds_weaken [OF holds_set_mark [OF steady_ready_at assms]]) (auto intro: has_at_intros)
  show "holds (of_files (ready_at cd k p w)) (try_io (fs_rename ft TMP CURRENT) (\<lambda>_. try_io (fs_sync_dir ft) (\<lambda>_ d.
       (case prune ft d of
          (d', Inl e) \<Rightarrow> (d', Inr \<lparr>cm_generation = g, cm_pruning = Some (ie_text e), cm_orphaned = None\<rparr>)
        | (d', Inr _) \<Rightarrow> (d', Inr \<lparr>cm_generation = g, cm_pruning = None, cm_orphaned = None\<rparr>)))))
      (\<lambda>_. of_files (stands_at cd k p w)) (of_files (has_at cd k p w))"
  proof (rule holds_try)
    have "holds (of_files (ready_at cd k p w)) (fs_rename ft TMP CURRENT) (\<lambda>_. of_files (stands_at cd k p w)) (of_files (ready_at cd k p w))"
      by (rule holds_rename) (use tmp_becomes_current in \<open>auto simp: ready_at_def stands_at_def\<close>)
    then show "holds (of_files (ready_at cd k p w)) (fs_rename ft TMP CURRENT) (\<lambda>_. of_files (stands_at cd k p w)) (of_files (has_at cd k p w))"
      by (rule holds_weaken) (auto intro: has_at_intros)
    show "holds (of_files (stands_at cd k p w)) (try_io (fs_sync_dir ft) (\<lambda>_ d.
       (case prune ft d of
          (d', Inl e) \<Rightarrow> (d', Inr \<lparr>cm_generation = g, cm_pruning = Some (ie_text e), cm_orphaned = None\<rparr>)
        | (d', Inr _) \<Rightarrow> (d', Inr \<lparr>cm_generation = g, cm_pruning = None, cm_orphaned = None\<rparr>))))
      (\<lambda>_. of_files (stands_at cd k p w)) (of_files (has_at cd k p w))"
    proof (rule holds_try)
      show "holds (of_files (stands_at cd k p w)) (fs_sync_dir ft) (\<lambda>_. of_files (stands_at cd k p w)) (of_files (has_at cd k p w))"
        by (rule holds_weaken [OF holds_sync_dir [of "stands_at cd k p w"]]) (auto intro: has_at_intros)
    qed (use prune_stands [of cd k p w ft] in \<open>auto simp: holds_def split: prod.splits sum.splits\<close>)
  qed
qed

lemma commit_holds:
  "holds (of_files (ready_at cd (Suc k) p w)) (commit_tmp ft r) (\<lambda>_. of_files (stands_at cd k p w)) (of_files (has_at cd k p w))"
  unfolding commit_eq
proof (rule holds_try)
  let ?R = "ready_at cd (Suc k) p w" and ?R' = "ready_at cd k p w" and ?S = "stands_at cd k p w" and ?H = "has_at cd k p w"
  let ?L = "\<lambda>l fs o'. ?R fs o' \<and> (l :: listing) = list_names (map fst fs)"
  show "holds (of_files ?R) (store_list ft) (\<lambda>l. of_files (?L l)) (of_files ?H)"
    by (rule holds_weaken [OF holds_list [of ?R]]) (auto intro: has_at_intros)
  fix l :: listing
  let ?m = "last_opt (li_marks l)"
  have out: "outside_name n" if "\<exists>fs. l = list_names (map fst fs)" "map_option snd ?m = Some n" for n
  proof -
    from that(2) have "li_marks l \<noteq> []" "n = snd (last (li_marks l))" by (auto simp: last_opt_def split: if_splits)
    then have "(fst (last (li_marks l)), n) \<in> set (li_marks l)" using last_in_set by force
    then show ?thesis using that(1) marks_listed by blast
  qed
  show "holds (of_files (?L l)) (try_io (fs_exists ft CURRENT) (\<lambda>there.
       let g = (if there then (case last_opt (li_generations l) of None \<Rightarrow> 0 | Some g \<Rightarrow> fst g) + 1 else 0) in
       try_io (if there then fs_rename ft CURRENT (generation_name g (map_option fst ?m)) else ok_io ()) (\<lambda>_.
       commit_tail ft (map_option snd ?m) r g))) (\<lambda>_. of_files ?S) (of_files ?H)"
  proof (rule holds_try)
    let ?X = "\<lambda>b fs o'. ?L l fs o' \<and> b = (map_of fs CURRENT \<noteq> None)"
    show "holds (of_files (?L l)) (fs_exists ft CURRENT) (\<lambda>b. of_files (?X b)) (of_files ?H)"
      by (rule holds_weaken [OF holds_exists [of "?L l"]]) (auto intro: has_at_raw simp: of_files_def)
    fix there
    let ?g = "if there then (case last_opt (li_generations l) of None \<Rightarrow> 0 | Some g \<Rightarrow> fst g) + 1 else 0 :: u64"
    have ren: "holds (of_files (?X there)) (if there then fs_rename ft CURRENT (generation_name ?g (map_option fst ?m)) else ok_io ())
        (\<lambda>_. of_files ?R') (of_files ?H)"
    proof (cases there)
      case True
      have "holds (of_files (?X there)) (fs_rename ft CURRENT (generation_name ?g (map_option fst ?m))) (\<lambda>_. of_files ?R') (of_files (?X there))"
      proof (rule holds_rename)
        fix fs o' b assume a: "?X there fs o'" "map_of fs CURRENT = Some b"
        then have g: "?g = next_seq fs" using True by (simp add: next_seq_def gens_def)
        show "?R' (bm_insert (generation_name ?g (map_option fst ?m)) b (bm_remove CURRENT fs)) o'"
          unfolding g using a rotate_room [of k fs b "map_option fst ?m"] rotate_ready [of k fs b cd p "map_option fst ?m"] by (simp add: ready_at_def)
      qed
      then show ?thesis using True by (simp, elim holds_weaken) (auto intro: has_at_raw simp: of_files_def)
    next
      case False
      have "room k fs" if "room (Suc k) fs" for fs using that by (fastforce simp: room_def)
      then have "holds (of_files (?X there)) (ok_io ()) (\<lambda>_. of_files ?R') (of_files ?H)"
        by (intro holds_ok) (auto simp: of_files_def ready_at_def)
      then show ?thesis using False by simp
    qed
    have tl: "holds (of_files ?R') (commit_tail ft (map_option snd ?m) r ?g) (\<lambda>_. of_files ?S) (of_files ?H)" if "\<exists>fs. l = list_names (map fst fs)"
      by (rule commit_tail_holds) (rule out [OF that])
    show "holds (of_files (?X there)) (let g = ?g in
       try_io (if there then fs_rename ft CURRENT (generation_name g (map_option fst ?m)) else ok_io ()) (\<lambda>_.
       commit_tail ft (map_option snd ?m) r g)) (\<lambda>_. of_files ?S) (of_files ?H)"
      unfolding Let_def
      by (rule holds_pure [where F = "\<exists>fs. l = list_names (map fst fs)"], force simp: of_files_def) (rule holds_try [OF ren tl])
  qed
qed

end
