(* ===== verification/StoreProps.thy ===== *)
theory StoreProps
  imports PersistProps
begin

text \<open>
  Saves, loads and recoveries as wholes: from any directory, under any faults and with a crash at
  any step, what loads next is the state of the last save that reported success, or a later one.
\<close>

subsection \<open>Files read back\<close>

text \<open>
  What is relied on of the JSON library: the text of this state parses to it, and a file with
  that text parses to its parts. (States with a value that is not finite have no such text.)
\<close>

definition file_of :: "codec \<Rightarrow> string \<Rightarrow> state_file" where
  "file_of cd s = \<lparr>sf_format = FORMAT, sf_schema = SCHEMA, sf_sha256 = digest cd s, sf_payload = s\<rparr>"

definition reads_back :: "codec \<Rightarrow> persisted \<Rightarrow> bool" where
  "reads_back cd p =
     (\<forall>s. cd_to_string cd p = Inr s \<longrightarrow>
        cd_from_str cd s = Inr p \<and> (\<forall>b. cd_to_vec cd (file_of cd s) = Inr b \<longrightarrow> cd_from_slice cd b = Inr (file_of cd s)))"

lemma decode_encode: "reads_back cd p \<Longrightarrow> encode cd p = Inr b \<Longrightarrow> decode cd b = Inr p"
  by (auto simp: encode_def reads_back_def decode_def file_of_def)

subsection \<open>The state before a save\<close>

definition unint :: "(persisted \<times> load_source \<times> string) option \<Rightarrow> bool" where
  "unint L = (case L of Some (_, src, _) \<Rightarrow> src \<noteq> FromInterrupted | None \<Rightarrow> True)"

definition before :: "codec \<Rightarrow> nat \<Rightarrow> (persisted \<times> load_source \<times> string) option \<Rightarrow> files \<Rightarrow> bool \<Rightarrow> bool" where
  "before cd k L fs o' = (room k fs \<and> live_of cd fs = L \<and> (o' \<or> unint L))"

lemma steady_before: "steady (before cd k L)"
proof (rule steadyI)
  fix fs fs' :: files and o' assume a: "before cd k L fs o'" "bm_ok fs" "bm_ok fs'" "core_same fs fs'"
  then show "before cd k L fs' o'"
    using room_same [of k fs fs'] core_same_facts(6) [OF a(2-4), of cd] by (simp add: before_def)
qed (simp add: before_def room_def)

lemma without_tmp:
  assumes "bm_ok fs" and "live_of cd fs = L" and "unint L"
  shows "live_of cd (bm_remove TMP fs) = L" "gens (bm_remove TMP fs) = gens fs"
proof -
  have ok: "bm_ok (bm_remove TMP fs)" using assms(1) by (rule bm_remove_ok)
  have n: "newest cd (bm_remove TMP fs) = newest cd fs"
    by (rule newest_cong [OF assms(1) ok]) (auto simp: map_of_bm_remove)
  have "content cd (bm_remove TMP fs) CURRENT = content cd fs CURRENT" "content cd (bm_remove TMP fs) TMP = RMissing"
    by (simp_all add: content_def map_of_bm_remove)
  then show "live_of cd (bm_remove TMP fs) = L"
    using n assms(2,3) by (auto simp: live_of_def unint_def split: read.splits option.splits if_splits)
  show "gens (bm_remove TMP fs) = gens fs"
    by (rule gens_unique [OF ok gens_distinct [OF assms(1)] gens_sorted]) (auto simp: gens_iff map_of_bm_remove)
qed

lemma tmp_aside:
  assumes "before cd k L fs False"
  shows "before cd k L (bm_insert (TMP @ CHR ''.'' # x) b (bm_remove TMP fs)) False"
proof -
  have u: "bm_ok fs" "live_of cd fs = L" "unint L" using assms by (simp_all add: before_def room_def)
  have "before cd k L (bm_remove TMP fs) False"
    using without_tmp [OF u] u assms by (simp add: before_def room_def bm_remove_ok)
  then show ?thesis by (rule steady_insert [of "before cd k L", OF steady_before]) simp
qed

subsection \<open>Moving aside\<close>

lemma move_aside_step:
  "move_aside_from ft name tag (n # ns) =
     try_io (fs_exists ft (name @ ''.'' @ tag @ ''-'' @ show_nat n)) (\<lambda>there.
       if there then move_aside_from ft name tag ns
       else try_io (fs_rename ft name (name @ ''.'' @ tag @ ''-'' @ show_nat n))
         (\<lambda>_ d1. let (d2, synced) = fs_sync_dir ft d1 in (d2, Inr (name @ ''.'' @ tag @ ''-'' @ show_nat n, synced))))"
  by (rule ext) (simp only: move_aside_from.simps Let_def)

lemma holds_sync_after: "holds (of_files A) (\<lambda>d1. let (d2, synced) = fs_sync_dir ft d1 in (d2, Inr (a, synced))) (\<lambda>_. of_files A) E"
  using holds_sync_dir [of A ft] by (fastforce simp: holds_def Let_def split: prod.splits sum.splits)

lemma holds_move_aside:
  assumes "\<And>fs o' b x. A fs o' \<Longrightarrow> map_of fs name = Some b \<Longrightarrow> A (bm_insert (name @ CHR ''.'' # x) b (bm_remove name fs)) o'"
  shows "holds (of_files A) (move_aside ft name tag) (\<lambda>_. of_files A) (of_files A)"
proof -
  have "holds (of_files A) (move_aside_from ft name tag ns) (\<lambda>_. of_files A) (of_files A)" for ns
  proof (induction ns)
    case Nil
    then show ?case by (simp add: holds_def)
  next
    case (Cons n ns)
    let ?to = "name @ ''.'' @ tag @ ''-'' @ show_nat n"
    have ren: "holds (of_files A) (fs_rename ft name ?to) (\<lambda>_. of_files A) (of_files A)"
    proof (rule holds_rename)
      show "A (bm_insert ?to b (bm_remove name fs)) o'" if "A fs o'" "map_of fs name = Some b" for fs o' b
        using assms [OF that, of "tag @ ''-'' @ show_nat n"] by simp
    qed
    show ?case unfolding move_aside_step
    proof (rule holds_try)
      show "holds (of_files A) (fs_exists ft ?to) (\<lambda>_. of_files A) (of_files A)"
        by (rule holds_weaken [OF holds_exists [of A]]) (simp_all add: of_files_def)
      show "holds (of_files A) (if there then move_aside_from ft name tag ns
          else try_io (fs_rename ft name ?to) (\<lambda>_ d1. let (d2, synced) = fs_sync_dir ft d1 in (d2, Inr (?to, synced)))) (\<lambda>_. of_files A) (of_files A)" for there
        by (cases there) (simp only: if_True Cons.IH, simp only: if_False, rule holds_try [OF ren holds_sync_after])
    qed
  qed
  then show ?thesis by (simp add: move_aside_def)
qed

subsection \<open>The save\<close>

definition staged :: "codec \<Rightarrow> nat \<Rightarrow> (persisted \<times> load_source \<times> string) option \<Rightarrow> u8 list \<Rightarrow> files \<Rightarrow> bool \<Rightarrow> bool" where
  "staged cd k L bytes fs o' = (before cd k L fs o' \<and> map_of fs NEW = Some bytes)"

lemma staged_before: "of_files (staged cd k L bytes) d \<Longrightarrow> of_files (before cd k L) d"
  by (simp add: of_files_def staged_def)

lemma write_stages:
  "holds (of_files (before cd k L)) (write_synced ft NEW bytes) (\<lambda>_. of_files (staged cd k L bytes)) (of_files (before cd k L))"
  unfolding write_synced_def
proof (rule holds_try)
  have "holds (of_files (before cd k L)) (fs_write ft NEW bytes)
      (\<lambda>_. of_files (\<lambda>fs o'. before cd k L fs o' \<and> map_of fs NEW = Some bytes)) (of_files (before cd k L))"
  proof (rule holds_write)
    show "before cd k L (bm_insert NEW b fs) o'" if "before cd k L fs o'" for fs o' b
      by (rule steady_insert [of "before cd k L", OF steady_before that]) simp
  qed
  then show "holds (of_files (before cd k L)) (fs_write ft NEW bytes) (\<lambda>_. of_files (staged cd k L bytes)) (of_files (before cd k L))"
    by (rule holds_weaken) (simp_all add: of_files_def staged_def)
  show "holds (of_files (staged cd k L bytes)) (fs_sync_file ft NEW) (\<lambda>_. of_files (staged cd k L bytes)) (of_files (before cd k L))"
    by (rule holds_weaken [OF holds_sync_file [of "staged cd k L bytes"]]) (auto intro: staged_before)
qed

lemma orphan_keeps:
  "holds (of_files (staged cd k L bytes)) (orphan_tmp ft) (\<lambda>_. of_files (staged cd k L bytes)) (of_files (before cd k L))"
proof -
  let ?A = "\<lambda>fs o'. staged cd k L bytes fs o' \<and> \<not> o'"
  have mv: "holds (of_files ?A) (move_aside ft TMP tag) (\<lambda>_. of_files ?A) (of_files ?A)" for tag
  proof (rule holds_move_aside)
    fix fs o' b x assume a: "?A fs o'"
    have "NEW \<noteq> TMP @ CHR ''.'' # x" by (simp add: NEW_def TMP_def)
    moreover have "o' = False" "before cd k L fs False" "map_of fs NEW = Some bytes" using a by (cases o'; simp add: staged_def)+
    ultimately show "?A (bm_insert (TMP @ CHR ''.'' # x) b (bm_remove TMP fs)) o'"
      using tmp_aside [of cd k L fs x b] by (simp add: staged_def map_of_bm_remove)
  qed
  have A: "of_files ?A d \<Longrightarrow> of_files (before cd k L) d" for d
    unfolding of_files_def staged_def by blast
  have ex: "holds (of_files ?A) (fs_exists ft TMP) (\<lambda>_. of_files ?A) (of_files (before cd k L))"
    by (rule holds_weaken [OF holds_exists [of ?A]]) (use A in \<open>auto simp: of_files_def\<close>)
  have mv': "holds (of_files ?A) (move_aside ft TMP ''orphan'') (\<lambda>_. of_files ?A) (of_files (before cd k L))"
    by (rule holds_weaken [OF mv]) (use A in auto)
  let ?m = "try_io (fs_exists ft TMP) (\<lambda>there. if \<not> there then ok_io None
        else try_io (move_aside ft TMP ''orphan'') (\<lambda>(aside, synced) d.
          (case synced of
             Inl e \<Rightarrow> (d, Inl (e\<lparr>ie_text := TMP @ '' was moved aside to '' @ path_of d aside @
                        '', but the directory sync failed: '' @ ie_text e\<rparr>))
           | Inr _ \<Rightarrow> (d, Inr (Some (path_of d aside))))))"
  have "holds (of_files ?A) ?m (\<lambda>_. of_files (staged cd k L bytes)) (of_files (before cd k L))"
  proof (rule holds_try [OF ex])
    have last: "holds (of_files ?A) (\<lambda>d. case sy of Inl e \<Rightarrow> (d, Inl (f d e)) | Inr u \<Rightarrow> (d, Inr (Some (path_of d a))))
        (\<lambda>_. of_files (staged cd k L bytes)) (of_files (before cd k L))" for sy :: "io_error + unit" and f a
      using A by (cases sy) (auto simp: holds_def of_files_def)
    show "holds (of_files ?A) (if \<not> there then ok_io None
        else try_io (move_aside ft TMP ''orphan'') (\<lambda>(aside, synced) d.
          (case synced of
             Inl e \<Rightarrow> (d, Inl (e\<lparr>ie_text := TMP @ '' was moved aside to '' @ path_of d aside @
                        '', but the directory sync failed: '' @ ie_text e\<rparr>))
           | Inr _ \<Rightarrow> (d, Inr (Some (path_of d aside)))))) (\<lambda>_. of_files (staged cd k L bytes)) (of_files (before cd k L))" for there
    proof (cases there)
      case True
      then show ?thesis by (simp only: not_True_eq_False if_False, intro holds_try [OF mv']) (simp only: case_prod_beta last)
    next
      case False
      have "holds (of_files ?A) (ok_io None) (\<lambda>_. of_files (staged cd k L bytes)) (of_files (before cd k L))"
        by (rule holds_ok) (unfold of_files_def, blast)
      then show ?thesis using False by simp
    qed
  qed
  then show ?thesis unfolding holds_def orphan_tmp_def by (simp add: of_files_def)
qed

lemma new_becomes_tmp:
  assumes "staged cd k L bytes fs o'" and "decode cd bytes = Inr p" and "\<And>q src n. L = Some (q, src, n) \<Longrightarrow> ps_rev q \<le> ps_rev p"
  shows "ready_at cd k p o' (bm_insert TMP bytes (bm_remove NEW fs)) o'"
proof -
  let ?fs = "bm_insert TMP bytes (bm_remove NEW fs)"
  have b: "room k fs" "live_of cd fs = L" "map_of fs NEW = Some bytes" using assms(1) by (simp_all add: staged_def before_def)
  have ok: "bm_ok fs" "bm_ok ?fs" using b(1) by (simp_all add: room_def bm_insert_ok bm_remove_ok)
  have "gens ?fs = gens fs"
    by (rule gens_unique [OF ok(2) gens_distinct [OF ok(1)] gens_sorted]) (auto simp: gens_iff map_of_bm_remove)
  then have "room k ?fs" using b(1) ok(2) by (simp add: room_def)
  moreover have c: "content cd ?fs TMP = RValid p" "content cd ?fs CURRENT = content cd fs CURRENT"
    using assms(2) by (simp_all add: content_def map_of_bm_remove)
  moreover have n: "newest cd ?fs = newest cd fs" by (rule newest_cong [OF ok]) (auto simp: map_of_bm_remove)
  have "case content cd fs CURRENT of RValid c \<Rightarrow> ps_rev c \<le> ps_rev p
       | _ \<Rightarrow> (case newest cd fs of Some (q, _) \<Rightarrow> ps_rev q \<le> ps_rev p | None \<Rightarrow> True)"
    using assms(3) b(2) unfolding live_of_def
    by (auto simp: supersedes_def split: read.splits option.splits if_splits elim: order_trans)
  ultimately show ?thesis using n by (simp only: ready_at_def ready_def c n)
qed

text \<open>The whole save: well and the new state stands, or not and the old or the new one is live.\<close>

definition after_save :: "codec \<Rightarrow> nat \<Rightarrow> (persisted \<times> load_source \<times> string) option \<Rightarrow> persisted \<Rightarrow> files \<Rightarrow> bool \<Rightarrow> bool" where
  "after_save cd k L p fs o' = (before cd k L fs o' \<or> has_at cd k p True fs o')"

lemma room_less: "room (Suc k) fs \<Longrightarrow> room k fs"
  by (fastforce simp: room_def)

lemma before_after: "of_files (before cd (Suc k) L) d \<Longrightarrow> of_files (after_save cd k L p) d"
  by (auto simp: of_files_def after_save_def before_def room_less)

lemma save_holds:
  assumes "reads_back cd p" and "\<And>q src n. L = Some (q, src, n) \<Longrightarrow> ps_rev q \<le> ps_rev p"
  shows "holds (of_files (before cd (Suc k) L)) (store_save ft cd p) (\<lambda>_. of_files (stands_at cd k p True)) (of_files (after_save cd k L p))"
proof (cases "encode cd p")
  case (Inl e)
  then show ?thesis by (simp add: holds_def store_save_def before_after)
next
  case (Inr bytes)
  have dec: "decode cd bytes = Inr p" by (rule decode_encode [OF assms(1) Inr])
  let ?S = "staged cd (Suc k) L bytes" let ?E = "after_save cd k L p"
  let ?R = "\<lambda>fs o'. ready_at cd (Suc k) p o' fs o'"
  have ren: "holds (of_files ?S) (map_err f (fs_rename ft NEW TMP)) (\<lambda>_. of_files ?R) (of_files ?E)" for f
  proof (rule holds_map_err)
    have "holds (of_files ?S) (fs_rename ft NEW TMP) (\<lambda>_. of_files ?R) (of_files ?S)"
    proof (rule holds_rename)
      show "?R (bm_insert TMP b (bm_remove NEW fs)) o'" if "?S fs o'" "map_of fs NEW = Some b" for fs o' b
        using new_becomes_tmp [OF that(1) dec assms(2)] that by (simp add: staged_def)
    qed
    then show "holds (of_files ?S) (fs_rename ft NEW TMP) (\<lambda>_. of_files ?R) (of_files ?E)"
      by (rule holds_weaken) (auto intro: before_after staged_before)
  qed
  have com: "holds (of_files ?R) (\<lambda>d. try_io (map_err f (commit_tmp ft (ps_rev p))) (\<lambda>cm. ok_io (cm\<lparr>cm_orphaned := x\<rparr>)) (d\<lparr>fs_own := True\<rparr>))
      (\<lambda>_. of_files (stands_at cd k p True)) (of_files ?E)" for f x
  proof -
    have "holds (of_files (ready_at cd (Suc k) p True)) (try_io (map_err f (commit_tmp ft (ps_rev p))) (\<lambda>cm. ok_io (cm\<lparr>cm_orphaned := x\<rparr>)))
        (\<lambda>_. of_files (stands_at cd k p True)) (of_files ?E)"
      by (rule holds_try [OF holds_weaken [OF holds_map_err [OF commit_holds]] holds_ok])
        (auto simp: of_files_def after_save_def)
    then show ?thesis by (simp add: holds_def of_files_def ready_at_def)
  qed
  have orp: "holds (of_files ?S) (orphan_tmp ft) (\<lambda>_. of_files ?S) (of_files ?E)"
    by (rule holds_weaken [OF orphan_keeps]) (auto intro: before_after)
  have wri: "holds (of_files (before cd (Suc k) L)) (write_synced ft NEW bytes) (\<lambda>_. of_files ?S) (of_files ?E)"
    by (rule holds_weaken [OF write_stages]) (auto intro: before_after)
  have "store_save ft cd p = try_io (write_synced ft NEW bytes) (\<lambda>_. try_io (orphan_tmp ft) (\<lambda>orphaned.
      try_io (map_err (\<lambda>e. naming_orphan e orphaned) (fs_rename ft NEW TMP)) (\<lambda>_ d.
      try_io (map_err (\<lambda>e. naming_orphan e orphaned) (commit_tmp ft (ps_rev p))) (\<lambda>cm. ok_io (cm\<lparr>cm_orphaned := orphaned\<rparr>)) (d\<lparr>fs_own := True\<rparr>))))"
    by (rule ext) (simp add: store_save_def Inr)
  then show ?thesis by (simp only:) (rule holds_try [OF wri holds_try [OF orp holds_try [OF ren com]]])
qed

end
