(* ===== verification/StoreRuns.thy ===== *)
theory StoreRuns
  imports StoreProps DemoSite
begin

text \<open>
  Loads, recoveries and whole lives of the store. A load without faults returns what the pure
  \<^const>\<open>live_of\<close> says; a recovery keeps what is live, whatever fails; and over any number of
  lives, each a load, a recovery and saves that may each fail or be cut off at any step, the store
  is a register: a save that reports success is what loads next, until the next save.
\<close>

subsection \<open>Loads\<close>

definition settled :: "topology \<Rightarrow> persisted \<Rightarrow> persisted" where
  "settled topo p = p\<lparr>ps_state := to_state topo (fst (core_reconcile topo (ps_state p)))\<rparr>"

definition unsaved :: "topology \<Rightarrow> persisted" where
  "unsaved topo = \<lparr>ps_rev = 0, ps_hash = t_hash topo, ps_unix_ms = 0, ps_state = defaults_muted topo, ps_counters = []\<rparr>"

definition loads_as :: "codec \<Rightarrow> topology \<Rightarrow> files \<Rightarrow> persisted \<times> load_source" where
  "loads_as cd topo fs =
     (case live_of cd fs of
        Some (p, src, _) \<Rightarrow> (settled topo p, src)
      | None \<Rightarrow> (case content cd fs BASELINE of RValid p \<Rightarrow> (settled topo p, FromBaseline) | _ \<Rightarrow> (unsaved topo, FromDefaults)))"

definition loaded_is :: "codec \<Rightarrow> topology \<Rightarrow> files \<Rightarrow> loaded \<Rightarrow> bool" where
  "loaded_is cd topo fs l =
     ((ld_persisted l, ld_source l) = loads_as cd topo fs \<and>
      ld_current l = read_file_state (content cd fs CURRENT) \<and> ld_tmp l = read_file_state (content cd fs TMP))"

lemma settle_is: "chain_settle topo p src pk =
    \<lparr>ld_persisted = settled topo p, ld_source = src, ld_rejected = pk_rejected pk,
     ld_dropped = snd (core_reconcile topo (ps_state p)), ld_alarms = pk_alarms pk, ld_current = pk_current pk, ld_tmp = pk_tmp pk\<rparr>"
  by (simp add: chain_settle_def settled_def case_prod_beta)

lemma load_chain_ok:
  "\<exists>d' l. load_chain no_faults cd topo d = (d', l, []) \<and> fs_files d' = fs_files d \<and> loaded_is cd topo (fs_files d) l"
proof -
  obtain pk1 d1 where p: "pick_live no_faults cd Tolerant (pick_default, d) = ((pk1, d1), Inr (live_of cd (fs_files d)))"
    "fs_files d1 = fs_files d" "pk_passed_over pk1 = []" "pk_current pk1 = read_file_state (content cd (fs_files d) CURRENT)"
    "pk_tmp pk1 = read_file_state (content cd (fs_files d) TMP)"
    using pick_live_ok [of cd Tolerant pick_default d] by (auto simp: pick_default_def)
  show ?thesis
  proof (cases "live_of cd (fs_files d)")
    case (Some x)
    then show ?thesis using p by (cases x) (simp add: load_chain_def settle_is loaded_is_def loads_as_def)
  next
    case None
    let ?pk = "pk1\<lparr>pk_passed_over := []\<rparr>"
    obtain pk2 where r: "read_state no_faults cd Tolerant BASELINE (?pk, d1) =
        ((pk2, d1\<lparr>fs_step := Suc (fs_step d1)\<rparr>), Inr (content cd (fs_files d1) BASELINE))" "same_marks ?pk pk2"
      using read_state_ok by blast
    then show ?thesis using p None
      by (cases "content cd (fs_files d) BASELINE")
        (simp_all add: load_chain_def settle_is loaded_is_def loads_as_def unsaved_def same_marks_def)
  qed
qed

lemma orphan_alarm_ok:
  "loaded_is cd topo (fs_files (snd (orphan_alarm no_faults cd own on s))) (fst (orphan_alarm no_faults cd own on s)) =
     loaded_is cd topo (fs_files (snd s)) (fst s)"
  "fs_files (snd (orphan_alarm no_faults cd own on s)) = fs_files (snd s)"
  by (simp_all add: orphan_alarm_def read_tried_ok loaded_is_def Let_def split: option.split sum.split)

lemma orphan_alarms_ok:
  "loaded_is cd topo (fs_files (snd (fold (orphan_alarm no_faults cd own) os s))) (fst (fold (orphan_alarm no_faults cd own) os s)) =
     loaded_is cd topo (fs_files (snd s)) (fst s)"
  "fs_files (snd (fold (orphan_alarm no_faults cd own) os s)) = fs_files (snd s)"
proof (induction os arbitrary: s)
  case (Cons a os)
  { case 1 show ?case using Cons.IH(1) [of "orphan_alarm no_faults cd own a s"] orphan_alarm_ok(1) [of cd topo own a s]
      by (simp only: fold_Cons comp_apply) }
  { case 2 show ?case by (simp add: Cons.IH(2) orphan_alarm_ok(2)) }
qed simp_all

lemma store_load_ok:
  "\<exists>d' l. store_load no_faults cd topo d = (d', l) \<and> fs_files d' = fs_files d \<and> loaded_is cd topo (fs_files d) l"
proof -
  obtain d1 l where c: "load_chain no_faults cd topo d = (d1, l, [])" "fs_files d1 = fs_files d" "loaded_is cd topo (fs_files d) l"
    using load_chain_ok by blast
  let ?d = "d1\<lparr>fs_step := Suc (fs_step d1)\<rparr>" let ?li = "list_names (map fst (fs_files d1))"
  let ?r = "fold (orphan_alarm no_faults cd (ps_rev (ld_persisted l))) (li_orphans ?li) (l, ?d)"
  have "store_load no_faults cd topo d = (snd ?r, fst ?r)"
    using c(1) by (simp add: store_load_def store_list_ok orphans_above_def case_prod_beta Let_def)
  moreover have "fs_files (snd ?r) = fs_files d" using c(2) by (simp add: orphan_alarms_ok(2))
  moreover have "loaded_is cd topo (fs_files d) (fst ?r)"
    using orphan_alarms_ok(1) [of cd topo "ps_rev (ld_persisted l)" "li_orphans ?li" "(l, ?d)"] c(2,3) by (simp add: orphan_alarms_ok(2))
  ultimately show ?thesis by blast
qed

subsection \<open>Recoveries\<close>

lemma holds_fst:
  "P d \<Longrightarrow> holds P m Q E \<Longrightarrow> (\<And>a d. Q a d \<Longrightarrow> E d) \<Longrightarrow> E (fst (m d))"
  by (cases "m d"; cases "snd (m d)") (fastforce simp: holds_def)+

text \<open>What is live, less where it is.\<close>

definition saved :: "codec \<Rightarrow> files \<Rightarrow> persisted option" where
  "saved cd fs = map_option fst (live_of cd fs)"

lemma current_aside:
  assumes "before cd k L fs o'" and "map_of fs CURRENT = Some b" and "\<not> (\<exists>c. content cd fs CURRENT = RValid c)"
  shows "before cd k L (bm_insert (CURRENT @ CHR ''.'' # x) b (bm_remove CURRENT fs)) o'"
    "\<not> (\<exists>c. content cd (bm_insert (CURRENT @ CHR ''.'' # x) b (bm_remove CURRENT fs)) CURRENT = RValid c)"
proof -
  let ?fs = "bm_remove CURRENT fs"
  have ok: "bm_ok fs" "bm_ok ?fs" using assms(1) by (simp_all add: before_def room_def bm_remove_ok)
  have n: "newest cd ?fs = newest cd fs" by (rule newest_cong [OF ok]) (auto simp: map_of_bm_remove)
  have c: "content cd ?fs CURRENT = RMissing" "content cd ?fs TMP = content cd fs TMP" by (simp_all add: content_def map_of_bm_remove)
  have l: "live_of cd ?fs = live_of cd fs"
    using assms(3) c n unfolding live_of_def by (cases "content cd fs CURRENT") simp_all
  have g: "gens ?fs = gens fs"
    by (rule gens_unique [OF ok(2) gens_distinct [OF ok(1)] gens_sorted]) (auto simp: gens_iff map_of_bm_remove)
  have "before cd k L ?fs o'" using assms(1) l g ok(2) by (simp add: before_def room_def)
  then show "before cd k L (bm_insert (CURRENT @ CHR ''.'' # x) b ?fs) o'"
    by (rule steady_insert [of "before cd k L", OF steady_before]) simp
  show "\<not> (\<exists>c. content cd (bm_insert (CURRENT @ CHR ''.'' # x) b ?fs) CURRENT = RValid c)"
    by (simp add: content_def map_of_bm_remove)
qed

definition damaged_before :: "codec \<Rightarrow> nat \<Rightarrow> (persisted \<times> load_source \<times> string) option \<Rightarrow> files \<Rightarrow> bool \<Rightarrow> bool" where
  "damaged_before cd k L fs o' = (before cd k L fs o' \<and> \<not> (\<exists>c. content cd fs CURRENT = RValid c))"

lemma damaged_aside:
  "holds (of_files (damaged_before cd k L)) (move_aside ft CURRENT tag) (\<lambda>_. of_files (damaged_before cd k L)) (of_files (damaged_before cd k L))"
  by (rule holds_move_aside) (use current_aside in \<open>auto simp: damaged_before_def\<close>)

lemma recover_damaged_keeps:
  assumes "of_files (before cd k L) (snd s)" and "ld_current l = FsDamaged \<Longrightarrow> \<not> (\<exists>c. content cd (fs_files (snd s)) CURRENT = RValid c)"
  shows "of_files (before cd k L) (snd (recover_damaged ft l s))"
proof (cases "ld_current l = FsDamaged")
  case True
  then have "of_files (damaged_before cd k L) (snd s)" using assms by (simp add: of_files_def damaged_before_def)
  then have "of_files (damaged_before cd k L) (fst (move_aside ft CURRENT ''damaged'' (snd s)))"
    by (rule holds_fst [OF _ damaged_aside])
  then have "of_files (before cd k L) (fst (move_aside ft CURRENT ''damaged'' (snd s)))" by (simp add: of_files_def damaged_before_def)
  moreover have "snd (recover_damaged ft l s) = fst (move_aside ft CURRENT ''damaged'' (snd s))"
    using True by (simp add: recover_damaged_def split: prod.split sum.split)
  ultimately show ?thesis by simp
qed (use assms in \<open>simp add: recover_damaged_def\<close>)

lemma interrupted_ready:
  "before cd k (Some (p, FromInterrupted, n)) fs o' \<Longrightarrow> ready_at cd k p o' fs o'"
  by (auto simp: before_def ready_at_def ready_def live_of_def supersedes_def split: read.splits option.splits if_splits)

lemma finish_keeps:
  "holds (of_files (ready_at cd (Suc k) p w)) (finish_interrupted ft r) (\<lambda>_. of_files (stands_at cd k p w)) (of_files (has_at cd k p w))"
  unfolding finish_interrupted_def
proof (rule holds_try [OF _ commit_holds])
  show "holds (of_files (ready_at cd (Suc k) p w)) (fs_sync_file ft TMP) (\<lambda>_. of_files (ready_at cd (Suc k) p w)) (of_files (has_at cd k p w))"
    by (rule holds_weaken [OF holds_sync_file [of "ready_at cd (Suc k) p w"]]) (auto intro: has_at_intros)
qed

text \<open>A store the next save may start from: there is room, and a live \<open>save.tmp\<close> is its own.\<close>

definition sound :: "codec \<Rightarrow> nat \<Rightarrow> store \<Rightarrow> bool" where
  "sound cd k d = (room k (fs_files d) \<and> (fs_own d \<or> unint (live_of cd (fs_files d))))"

lemma before_sound: "of_files (before cd k L) d \<longleftrightarrow> sound cd k d \<and> live_of cd (fs_files d) = L"
  by (auto simp: of_files_def before_def sound_def)

lemma has_sound: "of_files (has_at cd k p True) d \<Longrightarrow> sound cd k d \<and> saved cd (fs_files d) = Some p"
  by (auto simp: of_files_def has_at_def ready_at_def stands_at_def sound_def saved_def dest: ready_live stands_live)

lemma sound_less: "sound cd (Suc k) d \<Longrightarrow> sound cd k d"
  by (simp add: sound_def room_less)

lemma recover_keeps:
  assumes "room (Suc k) (fs_files d)" and "loaded_is cd topo (fs_files d) l"
  shows "sound cd k (snd (recover ft l d)) \<and> saved cd (fs_files (snd (recover ft l d))) = saved cd (fs_files d)"
proof -
  let ?fs = "fs_files d" let ?L = "live_of cd ?fs"
  let ?d = "d\<lparr>fs_own := (ld_tmp l = FsMissing \<or> ld_source l = FromInterrupted)\<rparr>"
  let ?s = "(\<lparr>rv_quarantined = None, rv_finished = False, rv_failed = [], rv_warnings = []\<rparr>, ?d)"
  have src: "ld_source l = FromInterrupted \<longleftrightarrow> \<not> unint ?L" and readable: "ld_current l \<noteq> FsUnreadable"
    using assms(2) content_readable(2) [of cd ?fs CURRENT] by (auto simp: loaded_is_def loads_as_def unint_def split: option.splits read.splits)
  have "of_files (before cd (Suc k) ?L) ?d" using assms(1) src by (auto simp: of_files_def before_def)
  then have b: "of_files (before cd (Suc k) ?L) (snd (recover_damaged ft l ?s))"
    by (intro recover_damaged_keeps) (use assms(2) in \<open>auto simp: loaded_is_def\<close>)
  show ?thesis
  proof (cases "ld_source l = FromInterrupted")
    case False
    then have "recover ft l d = recover_damaged ft l ?s" using readable by (simp add: recover_def Let_def)
    then show ?thesis using b by (auto simp: before_sound saved_def intro: sound_less)
  next
    case True
    then obtain p n where L: "?L = Some (p, FromInterrupted, n)" using src by (auto simp: unint_def split: option.splits)
    let ?d1 = "snd (recover_damaged ft l ?s)"
    have "fs_own ?d1" using b L by (simp add: of_files_def before_def unint_def)
    then have "of_files (ready_at cd (Suc k) p True) ?d1" using b interrupted_ready [of cd "Suc k" p n] unfolding L of_files_def by simp
    then have "of_files (has_at cd k p True) (fst (finish_interrupted ft (ps_rev (ld_persisted l)) ?d1))"
      by (rule holds_fst [OF _ finish_keeps has_at_intros(2)])
    moreover have "snd (recover ft l d) = fst (finish_interrupted ft (ps_rev (ld_persisted l)) ?d1)"
      using True readable by (simp add: recover_def Let_def split: prod.split sum.split)
    ultimately show ?thesis using has_sound [of cd k p] L by (simp add: saved_def)
  qed
qed


subsection \<open>Saves\<close>

definition above :: "persisted option \<Rightarrow> persisted \<Rightarrow> bool" where
  "above q p = (case q of Some q \<Rightarrow> ps_rev q \<le> ps_rev p | None \<Rightarrow> True)"

lemma save_step:
  assumes "sound cd (Suc k) d" and "reads_back cd p" and "above (saved cd (fs_files d)) p"
  shows "case store_save ft cd p d of
      (d', Inl _) \<Rightarrow> sound cd k d' \<and> (live_of cd (fs_files d') = live_of cd (fs_files d) \<or> saved cd (fs_files d') = Some p)
    | (d', Inr _) \<Rightarrow> sound cd k d' \<and> live_of cd (fs_files d') = Some (p, FromCurrent, CURRENT)"
proof -
  let ?L = "live_of cd (fs_files d)"
  have h: "holds (of_files (before cd (Suc k) ?L)) (store_save ft cd p) (\<lambda>_. of_files (stands_at cd k p True)) (of_files (after_save cd k ?L p))"
    by (rule save_holds [OF assms(2)]) (use assms(3) in \<open>simp add: above_def saved_def\<close>)
  have st: "sound cd k d' \<and> live_of cd (fs_files d') = Some (p, FromCurrent, CURRENT)" if "of_files (stands_at cd k p True) d'" for d'
    using that has_sound [OF has_at_intros(2)] by (auto simp: of_files_def stands_at_def stands_live)
  have af: "sound cd k d' \<and> (live_of cd (fs_files d') = ?L \<or> saved cd (fs_files d') = Some p)" if "of_files (after_save cd k ?L p) d'" for d'
    using that has_sound [of cd k p d'] by (auto simp: of_files_def after_save_def before_def sound_def)
  have b: "of_files (before cd (Suc k) ?L) d" using assms(1) by (simp add: before_sound)
  obtain d' r where sv: "store_save ft cd p d = (d', r)" by fastforce
  show ?thesis using h [unfolded holds_def, rule_format, OF b] st af by (simp add: sv split: sum.splits)
qed

text \<open>Saves one after the other, each with its own faults, and whether each reported success.\<close>

fun saves :: "codec \<Rightarrow> (faults \<times> persisted) list \<Rightarrow> store \<Rightarrow> store \<times> bool list" where
  "saves cd [] d = (d, [])"
| "saves cd ((ft, p) # xs) d =
     (let (d1, r) = store_save ft cd p d; (d2, oks) = saves cd xs d1 in (d2, (\<not> isl r) # oks))"

text \<open>
  The register: a write that reports success sets it, one that reports an error may or may not
  have. Its possible values after some writes:
\<close>

fun register :: "(persisted \<times> bool) list \<Rightarrow> persisted option set \<Rightarrow> persisted option set" where
  "register [] S = S"
| "register ((p, ok) # ws) S = register ws (if ok then {Some p} else insert (Some p) S)"

lemma register_subset: "register ws S \<subseteq> S \<union> Some ` fst ` set ws"
proof (induction ws arbitrary: S)
  case (Cons w ws)
  obtain p ok where w: "w = (p, ok)" by fastforce
  show ?case using Cons.IH [of "if ok then {Some p} else insert (Some p) S"] unfolding w by (auto split: if_splits)
qed simp

lemma register_append: "register (vs @ ws) S = register ws (register vs S)"
  by (induction vs arbitrary: S) auto

definition rising :: "codec \<Rightarrow> files \<Rightarrow> persisted list \<Rightarrow> bool" where
  "rising cd fs ps = (sorted (map ps_rev ps) \<and> (\<forall>p \<in> set ps. above (saved cd fs) p \<and> reads_back cd p))"

lemma rising_step:
  assumes "rising cd fs (p # ps)" and "saved cd fs' = saved cd fs \<or> saved cd fs' = Some p"
  shows "rising cd fs' ps"
  using assms by (auto simp: rising_def above_def)

lemma length_saves: "length (snd (saves cd xs d)) = length xs"
  by (induction xs arbitrary: d) (auto simp: case_prod_beta Let_def)

lemma saves_register:
  assumes "sound cd (length xs + k) d" and "rising cd (fs_files d) (map snd xs)" and "saved cd (fs_files d) \<in> S"
  shows "sound cd k (fst (saves cd xs d)) \<and>
    saved cd (fs_files (fst (saves cd xs d))) \<in> register (zip (map snd xs) (snd (saves cd xs d))) S"
  using assms
proof (induction xs arbitrary: d S)
  case (Cons x xs)
  obtain ft p where x: "x = (ft, p)" by fastforce
  obtain d1 r where s: "store_save ft cd p d = (d1, r)" by fastforce
  have st: "sound cd (length xs + k) d1 \<and> (if isl r then saved cd (fs_files d1) = saved cd (fs_files d) \<or> saved cd (fs_files d1) = Some p
      else saved cd (fs_files d1) = Some p)"
    using save_step [of cd "length xs + k" d p ft] Cons.prems by (auto simp: s x rising_def saved_def split: sum.splits)
  then have "saved cd (fs_files d1) \<in> (if \<not> isl r then {Some p} else insert (Some p) S)" using Cons.prems(3) by auto
  moreover have "rising cd (fs_files d1) (map snd xs)"
    by (rule rising_step [of cd "fs_files d" p]) (use Cons.prems(2) x st in \<open>auto split: if_splits\<close>)
  ultimately show ?case
    using Cons.IH [of d1 "if \<not> isl r then {Some p} else insert (Some p) S"] st by (simp add: x s case_prod_beta)
qed simp

subsection \<open>Lives\<close>

text \<open>
  One life of the engine over the files the last one left: a load, a recovery and saves. The
  faults say what fails; a life cut off at a step is one in which every later step fails.
\<close>

definition life :: "codec \<Rightarrow> topology \<Rightarrow> string \<Rightarrow> faults \<times> (faults \<times> persisted) list \<Rightarrow> files \<Rightarrow> files \<times> bool list" where
  "life cd topo dir x fs =
     (let (d1, l) = store_load no_faults cd topo (store_new dir fs);
          d2 = snd (recover (fst x) l d1);
          (d3, oks) = saves cd (snd x) d2
      in (fs_files d3, oks))"

fun lives :: "codec \<Rightarrow> topology \<Rightarrow> string \<Rightarrow> (faults \<times> (faults \<times> persisted) list) list \<Rightarrow> files \<Rightarrow> files \<times> bool list" where
  "lives cd topo dir [] fs = (fs, [])"
| "lives cd topo dir (x # xs) fs =
     (let (fs1, oks1) = life cd topo dir x fs; (fs2, oks2) = lives cd topo dir xs fs1 in (fs2, oks1 @ oks2))"

definition written :: "(faults \<times> (faults \<times> persisted) list) list \<Rightarrow> persisted list" where
  "written xs = concat (map (map snd \<circ> snd) xs)"

definition seqs :: "(faults \<times> (faults \<times> persisted) list) list \<Rightarrow> nat" where
  "seqs xs = sum_list (map (\<lambda>x. Suc (length (snd x))) xs)"

lemma length_life: "length (snd (life cd topo dir x fs)) = length (snd x)"
  by (simp add: life_def case_prod_beta Let_def length_saves)

lemma life_register:
  assumes "room (Suc (length (snd x)) + k) fs" and "rising cd fs (map snd (snd x))" and "saved cd fs \<in> S"
  shows "room k (fst (life cd topo dir x fs)) \<and>
    saved cd (fst (life cd topo dir x fs)) \<in> register (zip (map snd (snd x)) (snd (life cd topo dir x fs))) S"
proof -
  obtain d1 l where ld: "store_load no_faults cd topo (store_new dir fs) = (d1, l)" "fs_files d1 = fs" "loaded_is cd topo fs l"
    using store_load_ok [of cd topo "store_new dir fs"] by (auto simp: store_new_def)
  let ?d2 = "snd (recover (fst x) l d1)"
  have "sound cd (length (snd x) + k) ?d2 \<and> saved cd (fs_files ?d2) = saved cd fs"
    using recover_keeps [of "length (snd x) + k" d1 cd topo l "fst x"] ld assms(1) by simp
  moreover from this have "rising cd (fs_files ?d2) (map snd (snd x))" using assms(2) by (simp add: rising_def)
  moreover have "life cd topo dir x fs = (fs_files (fst (saves cd (snd x) ?d2)), snd (saves cd (snd x) ?d2))"
    using ld(1) by (simp add: life_def case_prod_beta Let_def)
  ultimately show ?thesis using saves_register [of cd "snd x" k ?d2 S] assms(3) by (simp add: sound_def)
qed

lemma rising_append:
  assumes "rising cd fs (ps @ qs)" and "saved cd fs' \<in> register (zip ps oks) {saved cd fs}"
  shows "rising cd fs' qs"
proof -
  have "saved cd fs' = saved cd fs \<or> (\<exists>p \<in> set ps. saved cd fs' = Some p)"
    using register_subset [of "zip ps oks" "{saved cd fs}"] assms(2) by (fastforce dest: set_zip_leftD)
  then show ?thesis using assms(1) by (auto simp: rising_def above_def sorted_append)
qed

lemma lives_register:
  assumes "room (seqs xs + k) fs" and "rising cd fs (written xs)" and "saved cd fs \<in> S"
  shows "saved cd (fst (lives cd topo dir xs fs)) \<in> register (zip (written xs) (snd (lives cd topo dir xs fs))) S"
  using assms
proof (induction xs arbitrary: fs S)
  case (Cons x xs)
  let ?r = "life cd topo dir x fs" let ?ps = "map snd (snd x)"
  have x: "room (Suc (length (snd x)) + (seqs xs + k)) fs" "rising cd fs ?ps"
    using Cons.prems(1,2) by (simp_all add: seqs_def written_def rising_def sorted_append add.assoc)
  have r: "room (seqs xs + k) (fst ?r)" "saved cd (fst ?r) \<in> register (zip ?ps (snd ?r)) T" if "saved cd fs \<in> T" for T
    using life_register [OF x that, of topo dir] by simp_all
  have "rising cd (fst ?r) (written xs)"
    by (rule rising_append [of cd fs ?ps "written xs" _ "snd ?r"]) (use Cons.prems(2) r(2) in \<open>simp_all add: written_def\<close>)
  then have "saved cd (fst (lives cd topo dir xs (fst ?r))) \<in>
      register (zip (written xs) (snd (lives cd topo dir xs (fst ?r)))) (register (zip ?ps (snd ?r)) S)"
    using Cons.IH r Cons.prems(3) by blast
  moreover have "zip (written (x # xs)) (snd (lives cd topo dir (x # xs) fs)) =
      zip ?ps (snd ?r) @ zip (written xs) (snd (lives cd topo dir xs (fst ?r)))"
    by (simp add: written_def case_prod_beta length_life)
  moreover have "fst (lives cd topo dir (x # xs) fs) = fst (lives cd topo dir xs (fst ?r))" by (simp add: case_prod_beta)
  ultimately show ?case by (simp only: register_append)
qed (simp add: written_def)


subsection \<open>A site\<close>

definition demo_saved :: "u64 \<Rightarrow> persisted" where
  "demo_saved r = \<lparr>ps_rev = r, ps_hash = [], ps_unix_ms = 0, ps_state = mix_state_default, ps_counters = []\<rparr>"

text \<open>Libraries that write the revision alone, for states that hold nothing else.\<close>

definition demo_codec :: codec where
  "demo_codec =
     \<lparr>cd_to_string = (\<lambda>p. Inr (show_u64 (ps_rev p))),
      cd_from_str = (\<lambda>s. case parse_u64 s of Some r \<Rightarrow> Inr (demo_saved r) | None \<Rightarrow> Inl ''number''),
      cd_to_vec = (\<lambda>f. Inr (map (\<lambda>c. word_of_nat (of_char c)) (sf_payload f))),
      cd_from_slice = (\<lambda>b. let s = map (char_of \<circ> unat) b in
         Inr \<lparr>sf_format = FORMAT, sf_schema = SCHEMA, sf_sha256 = [], sf_payload = s\<rparr>),
      cd_sha256 = (\<lambda>_. [])\<rparr>"

lemma char_of_byte: "char_of (unat (word_of_nat (of_char c) :: u8)) = c"
proof -
  have "of_char c < (256 :: nat)" using nat_of_char_less_256 by blast
  then show ?thesis by (simp add: unat_of_nat)
qed

lemma demo_reads_back: "reads_back demo_codec (demo_saved r)"
  by (simp add: reads_back_def demo_codec_def file_of_def digest_def hex_def demo_saved_def show_u64_def parse_u64_show o_def char_of_byte)

definition cut_at :: "nat \<Rightarrow> faults" where
  "cut_at n step = (if step < n then None else Some (\<lparr>ie_kind = OtherKind, ie_text = ''power cut''\<rparr>, Some []))"

lemma demo_empty: "saved demo_codec [] = None" "sound demo_codec 1 (store_new dir [])" "room 5 []"
  by (simp_all add: saved_def live_of_def content_def newest_def gens_def list_names_def sound_def store_new_def room_def unint_def bm_ok_def)

subsection \<open>Properties\<close>





text \<open>
  A load refines its specification: with every file readable it leaves the files as they are
  and returns the live state with its source, brought to this site; with none live, the baseline;
  with no valid baseline, the muted defaults.
\<close>

theorem load_refines:
  "case store_load no_faults cd topo d of
     (d', l) \<Rightarrow> fs_files d' = fs_files d \<and> (ld_persisted l, ld_source l) = loads_as cd topo (fs_files d)"
  using store_load_ok [of cd topo d] by (auto simp: loaded_is_def)

text \<open>
  The recovery after a load keeps what is live, whatever fails in it, and leaves a store that
  the saves may start from: a live \<open>save.tmp\<close> is never one that the next save moves aside.
\<close>

theorem recovery_keeps_live:
  assumes "room (Suc k) (fs_files d)" and "store_load no_faults cd topo d = (d1, l)"
  shows "sound cd k (snd (recover ft l d1)) \<and> saved cd (fs_files (snd (recover ft l d1))) = saved cd (fs_files d)"
proof -
  have "fs_files d1 = fs_files d" "loaded_is cd topo (fs_files d) l" using store_load_ok [of cd topo d] assms(2) by auto
  then show ?thesis using recover_keeps [of k d1 cd topo l ft] assms(1) by simp
qed

text \<open>
  The names of the state files are read as they were written: a generation's sequence number
  and the revision it holds, and the revision of the mark, for all values of 64 bits.
\<close>

theorem names_round_trip:
  "generation_parts (generation_name seq held) = Some (seq, held) \<and> mark_rev (mark_name r) = Some r \<and>
   generation_parts (mark_name r) = None"
  by simp

end
