(* ===== verification/Mirror.thy ===== *)
theory Mirror
  imports ControlLoop
begin

text \<open>
  The server's copy of the engine's state (\<open>iem-server/src/engine/mirror.rs\<close>): it changes only
  through the engine's messages. A whole state replaces it, the changes of the next revision are
  applied to it, and a gap in the revisions asks for the state again.
\<close>

subsection \<open>Data\<close>

record mirror =
  mi_hello :: "hello_msg option"
  mi_topology :: "topology_info option"
  mi_state :: mix_state
  mi_transient :: transient
  mi_rev :: u64
  mi_synced :: bool

definition transient_default :: transient where
  "transient_default = \<lparr>tr_solo = [], tr_listen = (None, None), tr_test_signal = None\<rparr>"

definition mirror_default :: mirror where
  "mirror_default =
     \<lparr>mi_hello = None, mi_topology = None, mi_state = mix_state_default, mi_transient = transient_default,
      mi_rev = 0, mi_synced = False\<rparr>"

datatype mirror_event = EvTopology | EvReset | EvChanged "u64 option" "change list" | EvResync

subsection \<open>Changes\<close>

definition disconnected :: "mirror \<Rightarrow> mirror" where
  "disconnected m = m\<lparr>mi_synced := False\<rparr>"

text \<open>\<open>entry(mix).or_default()\<close> and a write through it.\<close>

definition edit_mix :: "mix_id \<Rightarrow> (mix \<Rightarrow> mix) \<Rightarrow> mix_state \<Rightarrow> mix_state" where
  "edit_mix i f s = s\<lparr>ms_mixes := bm_insert i (f (or_default mix_default (map_of (ms_mixes s) i))) (ms_mixes s)\<rparr>"

definition put_level :: "source \<Rightarrow> level \<Rightarrow> mix \<Rightarrow> mix" where
  "put_level src l x =
     (case src of
        SrcInput i \<Rightarrow> x\<lparr>mx_inputs := bm_insert i l (mx_inputs x)\<rparr>
      | SrcMix i \<Rightarrow> x\<lparr>mx_mixes := bm_insert i l (mx_mixes x)\<rparr>)"

definition put_solo :: "mix_id \<Rightarrow> source list \<Rightarrow> solo list \<Rightarrow> solo list" where
  "put_solo i srcs ss =
     (let rest = filter (\<lambda>s. so_mix s \<noteq> i) ss
      in if srcs \<noteq> [] then rest @ [\<lparr>so_mix = i, so_sources = srcs\<rparr>] else rest)"

fun mirror_change :: "change \<Rightarrow> mirror \<Rightarrow> mirror" where
  "mirror_change (ChInput i s) m = m\<lparr>mi_state := (mi_state m)\<lparr>ms_inputs := bm_insert i s (ms_inputs (mi_state m))\<rparr>\<rparr>"
| "mirror_change (ChMixOut i o') m = m\<lparr>mi_state := edit_mix i (\<lambda>x. x\<lparr>mx_out := o'\<rparr>) (mi_state m)\<rparr>"
| "mirror_change (ChLevel i src l) m = m\<lparr>mi_state := edit_mix i (put_level src l) (mi_state m)\<rparr>"
| "mirror_change (ChGroup i g s) m =
     m\<lparr>mi_state := edit_mix i (\<lambda>x. x\<lparr>mx_groups := bm_insert g s (mx_groups x)\<rparr>) (mi_state m)\<rparr>"
| "mirror_change (ChSolo i srcs) m =
     m\<lparr>mi_transient := (mi_transient m)\<lparr>tr_solo := put_solo i srcs (tr_solo (mi_transient m))\<rparr>\<rparr>"
| "mirror_change (ChListen l) m = m\<lparr>mi_transient := (mi_transient m)\<lparr>tr_listen := l\<rparr>\<rparr>"
| "mirror_change (ChTestSignal s) m = m\<lparr>mi_transient := (mi_transient m)\<lparr>tr_test_signal := s\<rparr>\<rparr>"
| "mirror_change (ChLimiterStatsReset _) m = m"

text \<open>The successor of a revision below \<open>rev\<close> does not overflow.\<close>

definition mirror_apply :: "engine_msg \<Rightarrow> mirror \<Rightarrow> mirror \<times> mirror_event option" where
  "mirror_apply msg m =
     (case msg of
        MHello h \<Rightarrow> (m\<lparr>mi_hello := Some h\<rparr>, None)
      | MTopology t \<Rightarrow> (m\<lparr>mi_topology := Some t\<rparr>, Some EvTopology)
      | MState r s tr \<Rightarrow> (m\<lparr>mi_state := s, mi_transient := tr, mi_rev := r, mi_synced := True\<rparr>, Some EvReset)
      | MDelta r origin changes \<Rightarrow>
          if \<not> mi_synced m \<or> r \<le> mi_rev m then (m, None)
          else if r \<noteq> mi_rev m + 1 then (m\<lparr>mi_synced := False\<rparr>, Some EvResync)
          else ((fold mirror_change changes m)\<lparr>mi_rev := r\<rparr>, Some (EvChanged origin changes))
      | _ \<Rightarrow> (m, None))"

subsection \<open>Queries\<close>

definition mirror_level :: "mirror \<Rightarrow> mix_id \<Rightarrow> source \<Rightarrow> level" where
  "mirror_level m i src = or_default level_default (Option.bind (map_of (ms_mixes (mi_state m)) i) (\<lambda>x. mix_level x src))"

definition mirror_group :: "mirror \<Rightarrow> mix_id \<Rightarrow> group_id \<Rightarrow> mix_group" where
  "mirror_group m i g = or_default group_default (Option.bind (map_of (ms_mixes (mi_state m)) i) (\<lambda>x. map_of (mx_groups x) g))"

definition mirror_out :: "mirror \<Rightarrow> mix_id \<Rightarrow> mix_out" where
  "mirror_out m i = or_default out_default (map_option mx_out (map_of (ms_mixes (mi_state m)) i))"

definition mirror_input :: "mirror \<Rightarrow> input_id \<Rightarrow> input_state" where
  "mirror_input m i = or_default input_default (map_of (ms_inputs (mi_state m)) i)"

definition solo_in :: "transient \<Rightarrow> mix_id \<Rightarrow> source list" where
  "solo_in tr i = or_default [] (map_option so_sources (find (\<lambda>s. so_mix s = i) (tr_solo tr)))"

definition mirror_solo :: "mirror \<Rightarrow> mix_id \<Rightarrow> source list" where
  "mirror_solo m i = solo_in (mi_transient m) i"

end
