(* ===== verification/MirrorProps.thy ===== *)
theory MirrorProps
  imports Mirror ControlProps
begin

text \<open>
  The mirror follows the core: the changes of a request take a mirror that shows the core before to
  one that shows the core after, and over every run of the control loop a mirror fed with what its
  connection was sent never shows anything but the core's state at its revision.
\<close>

subsection \<open>The protocol form of an edited state\<close>

definition mix_maps_ok :: "mix \<Rightarrow> bool" where
  "mix_maps_ok x = (bm_ok (mx_inputs x) \<and> bm_ok (mx_mixes x) \<and> bm_ok (mx_groups x))"

lemma mix_eqI:
  assumes "mix_maps_ok x" and "mix_maps_ok y" and "mx_out x = mx_out y" and "\<And>src. mix_level x src = mix_level y src"
    and "map_of (mx_groups x) = map_of (mx_groups y)"
  shows "x = y"
proof -
  have "map_of (mx_inputs x) = map_of (mx_inputs y)" "map_of (mx_mixes x) = map_of (mx_mixes y)"
    using assms(4) [of "SrcInput _"] assms(4) [of "SrcMix _"] by (auto simp: fun_eq_iff)
  with assms show ?thesis by (intro mix.equality) (auto simp: mix_maps_ok_def intro: bm_eqI)
qed

lemma level_insert_maps: "mix_maps_ok x \<Longrightarrow> mix_maps_ok (level_insert t m kl x)"
  by (auto simp: level_insert_def mix_maps_ok_def bm_insert_ok split: option.splits source.splits)

lemma fold_level_maps: "mix_maps_ok x \<Longrightarrow> mix_maps_ok (fold (level_insert t m) kls x)"
  by (induction kls arbitrary: x) (simp_all add: level_insert_maps)

lemma mix_of_maps [simp]: "mix_maps_ok (mix_of t m r)"
proof -
  have "mix_maps_ok (mix_default\<lparr>mx_out := mr_out r\<rparr>)" by (simp add: mix_maps_ok_def mix_default_def bm_ok_def)
  then have "mix_maps_ok (fold (level_insert t m) (enumerate 0 (mr_levels r)) (mix_default\<lparr>mx_out := mr_out r\<rparr>))"
    by (rule fold_level_maps)
  then show ?thesis by (simp add: mix_of_def mix_maps_ok_def)
qed

lemma put_level_level: "mix_level (put_level src l x) src' = (if src' = src then Some l else mix_level x src')"
  by (cases src; cases src') (auto simp: put_level_def)

lemma put_level_keeps [simp]: "mx_out (put_level src l x) = mx_out x" "mx_groups (put_level src l x) = mx_groups x"
  "mix_maps_ok x \<Longrightarrow> mix_maps_ok (put_level src l x)"
  by (auto simp: put_level_def mix_maps_ok_def bm_insert_ok split: source.split)

text \<open>One value of a map that was collected from two lists.\<close>

lemma collect_update:
  assumes "distinct (map f xs)" and "length ys = length xs" and "i < length xs"
  shows "bm_collect (map2 (\<lambda>x y. (f x, y)) xs (ys[i := v])) = bm_insert (f (xs ! i)) v (bm_collect (map2 (\<lambda>x y. (f x, y)) xs ys))"
proof (rule bm_eqI)
  note z = map_of_rev_zip [where g = "\<lambda>y. y", OF assms(1)]
  show "map_of (bm_collect (map2 (\<lambda>x y. (f x, y)) xs (ys[i := v]))) = map_of (bm_insert (f (xs ! i)) v (bm_collect (map2 (\<lambda>x y. (f x, y)) xs ys)))"
  proof
    fix k
    show "map_of (bm_collect (map2 (\<lambda>x y. (f x, y)) xs (ys[i := v]))) k = map_of (bm_insert (f (xs ! i)) v (bm_collect (map2 (\<lambda>x y. (f x, y)) xs ys))) k"
    proof (cases "k \<in> f ` set xs")
      case True
      then obtain j where j: "j < length xs" "k = f (xs ! j)" by (auto simp: in_set_conv_nth)
      have "f (xs ! j) = f (xs ! i) \<longleftrightarrow> j = i" using assms(1,3) j(1) nth_eq_iff_index_eq [of "map f xs" j i] by simp
      then show ?thesis using z [of "ys[i := v]" j] z [of ys j] assms(2,3) j by (auto simp: nth_list_update)
    next
      case False
      then have "map_of (rev (map2 (\<lambda>x y. (f x, y)) xs (ys[i := v]))) k = None" "map_of (rev (map2 (\<lambda>x y. (f x, y)) xs ys)) k = None"
        by (auto simp: map_of_eq_None_iff dest: set_zip_leftD)
      moreover have "k \<noteq> f (xs ! i)" using False assms(3) by auto
      ultimately show ?thesis by simp
    qed
  qed
qed (simp_all add: bm_insert_ok)

lemma mix_of_set_level:
  assumes "topo_wf t" and "length (mr_levels r) = levels t m" and "t_source t m k = Some src" and "k < levels t m"
  shows "mix_of t m (r\<lparr>mr_levels := (mr_levels r)[k := new]\<rparr>) = put_level src new (mix_of t m r)"
proof (rule mix_eqI)
  have s: "slot t m src = Some k" using assms(1,3) by (rule ls.source_sound)
  show "mix_level (mix_of t m (r\<lparr>mr_levels := (mr_levels r)[k := new]\<rparr>)) src' = mix_level (put_level src new (mix_of t m r)) src'" for src'
  proof (cases "slot t m src'")
    case (Some k')
    have "k' = k \<longleftrightarrow> src' = src" "k' < levels t m" using ls.slot_sound [OF assms(1) Some] assms(3) s Some by auto
    then show ?thesis using assms(1,2,4) Some s by (auto simp: mix_of_level put_level_level nth_list_update)
  qed (use assms(1,2) s in \<open>auto simp: mix_of_level put_level_level\<close>)
qed (simp_all, simp add: mix_of_def fold_level_keeps)

lemma mix_of_set_group:
  assumes "topo_wf t" and "length (mr_groups r) = length (t_groups t)" and "g < length (t_groups t)"
  shows "mix_of t m (r\<lparr>mr_groups := (mr_groups r)[g := new]\<rparr>) =
    (mix_of t m r)\<lparr>mx_groups := bm_insert (g_id (t_groups t ! g)) new (mx_groups (mix_of t m r))\<rparr>"
proof -
  have "distinct (map g_id (t_groups t))" using assms(1) by (simp add: topo_wf_def)
  from collect_update [OF this assms(2,3), of new] show ?thesis by (simp add: mix_of_def)
qed

lemma mix_of_set_out: "mix_of t m (r\<lparr>mr_out := new\<rparr>) = (mix_of t m r)\<lparr>mx_out := new\<rparr>"
proof (rule mix_eqI)
  have "mix_level (fold (level_insert t m) kls (x\<lparr>mx_out := o'\<rparr>)) src = mix_level (fold (level_insert t m) kls x) src" for kls x o' src
  proof (induction kls arbitrary: x)
    case (Cons kl kls)
    have "level_insert t m kl (x\<lparr>mx_out := o'\<rparr>) = (level_insert t m kl x)\<lparr>mx_out := o'\<rparr>"
      by (auto simp: level_insert_def split: option.split source.split)
    then show ?case using Cons.IH [of "level_insert t m kl x"] by simp
  qed (cases src; simp)
  then have *: "mix_level (mix_of t m (r\<lparr>mr_out := new\<rparr>)) src = mix_level (mix_of t m r) src" for src
    by (simp add: mix_of_def)
  show "mix_level (mix_of t m (r\<lparr>mr_out := new\<rparr>)) src = mix_level ((mix_of t m r)\<lparr>mx_out := new\<rparr>) src" for src
    using * [of src] by (cases src) simp_all
  show "mix_maps_ok ((mix_of t m r)\<lparr>mx_out := new\<rparr>)" using mix_of_maps [of t m r] by (simp add: mix_maps_ok_def)
qed (simp_all, simp add: mix_of_def fold_level_keeps)

lemma to_state_mixes:
  "length rs = length (t_mixes t) \<Longrightarrow>
   bm_collect (map (\<lambda>(m, node, rec). (m_id node, mix_of t m rec)) (enumerate 0 (zip (t_mixes t) rs))) =
   bm_collect (map2 (\<lambda>n x. (m_id n, x)) (t_mixes t) (map (\<lambda>(m, r). mix_of t m r) (enumerate 0 rs)))"
  by (rule arg_cong [of _ _ bm_collect], rule nth_equalityI) (simp_all add: nth_enumerate_eq)

lemma to_state_set_mix:
  assumes "topo_wf t" and "length (rs_mixes r) = length (t_mixes t)" and "m < length (t_mixes t)"
    and "mix_of t m (f (rs_mixes r ! m)) = g (mix_of t m (rs_mixes r ! m))" and "state_ok t r"
  shows "to_state t (r\<lparr>rs_mixes := lmod (rs_mixes r) m f\<rparr>) = edit_mix (m_id (t_mixes t ! m)) g (to_state t r)"
proof -
  let ?rs = "rs_mixes r" let ?h = "\<lambda>(m, r). mix_of t m r"
  have d: "distinct (map m_id (t_mixes t))" using assms(1) by (simp add: topo_wf_def)
  have u: "map ?h (enumerate 0 (?rs[m := f (?rs ! m)])) = (map ?h (enumerate 0 ?rs))[m := g (mix_of t m (?rs ! m))]"
    using assms(2-4) by (intro nth_equalityI) (auto simp: nth_enumerate_eq nth_list_update)
  have "ms_mixes (to_state t (r\<lparr>rs_mixes := lmod ?rs m f\<rparr>)) = bm_insert (m_id (t_mixes t ! m)) (g (mix_of t m (?rs ! m))) (ms_mixes (to_state t r))"
    using collect_update [OF d, of "map ?h (enumerate 0 ?rs)" m "g (mix_of t m (?rs ! m))"] assms(2,3) u
    by (simp add: to_state_def to_state_mixes lmod_def lget_def)
  moreover have "map_of (ms_mixes (to_state t r)) (m_id (t_mixes t ! m)) = Some (mix_of t m (?rs ! m))"
    by (rule to_state_mix [OF assms(1,5,3)])
  ultimately show ?thesis by (simp add: edit_mix_def) (simp add: to_state_def)
qed

lemma to_state_set_input:
  assumes "topo_wf t" and "length (rs_inputs r) = length (t_inputs t)" and "i < length (t_inputs t)"
  shows "to_state t (r\<lparr>rs_inputs := (rs_inputs r)[i := new]\<rparr>) =
    (to_state t r)\<lparr>ms_inputs := bm_insert (n_id (t_inputs t ! i)) new (ms_inputs (to_state t r))\<rparr>"
proof -
  have "distinct (map n_id (t_inputs t))" using assms(1) by (simp add: topo_wf_def)
  from collect_update [OF this assms(2,3), of new] show ?thesis by (simp add: to_state_def)
qed


subsection \<open>What a mirror shows\<close>

text \<open>The state, the solos by mix, the listen slots and the test signal.\<close>

type_synonym showing = "mix_state \<times> (mix_id \<Rightarrow> source list) \<times> (mix_id option \<times> mix_id option) \<times> test_signal option"

definition shown :: "core \<Rightarrow> showing" where
  "shown c = (core_state c, solo_in (core_transient c), tr_listen (core_transient c), tr_test_signal (core_transient c))"

definition showing_of :: "mirror \<Rightarrow> showing" where
  "showing_of m = (mi_state m, mirror_solo m, tr_listen (mi_transient m), tr_test_signal (mi_transient m))"

text \<open>A change as an update of what is shown.\<close>

fun shown_change :: "change \<Rightarrow> showing \<Rightarrow> showing" where
  "shown_change (ChInput i v) (s, so, l, t) = (s\<lparr>ms_inputs := bm_insert i v (ms_inputs s)\<rparr>, so, l, t)"
| "shown_change (ChMixOut i o') (s, so, l, t) = (edit_mix i (\<lambda>x. x\<lparr>mx_out := o'\<rparr>) s, so, l, t)"
| "shown_change (ChLevel i src v) (s, so, l, t) = (edit_mix i (put_level src v) s, so, l, t)"
| "shown_change (ChGroup i g v) (s, so, l, t) = (edit_mix i (\<lambda>x. x\<lparr>mx_groups := bm_insert g v (mx_groups x)\<rparr>) s, so, l, t)"
| "shown_change (ChSolo i srcs) (s, so, l, t) = (s, so(i := srcs), l, t)"
| "shown_change (ChListen l') (s, so, l, t) = (s, so, l', t)"
| "shown_change (ChTestSignal t') (s, so, l, t) = (s, so, l, t')"
| "shown_change (ChLimiterStatsReset _) x = x"

lemma find_put_solo: "find (\<lambda>s. so_mix s = j) (put_solo i srcs ss) =
    (if j = i then (if srcs = [] then None else Some \<lparr>so_mix = i, so_sources = srcs\<rparr>) else find (\<lambda>s. so_mix s = j) ss)"
proof -
  have "find (\<lambda>s. so_mix s = j) (filter (\<lambda>s. so_mix s \<noteq> i) ss) = (if j = i then None else find (\<lambda>s. so_mix s = j) ss)"
    by (induction ss) auto
  moreover have "find (\<lambda>s. so_mix s = j) (filter (\<lambda>s. so_mix s \<noteq> i) ss @ [\<lparr>so_mix = i, so_sources = srcs\<rparr>]) =
      (if j = i then Some \<lparr>so_mix = i, so_sources = srcs\<rparr> else find (\<lambda>s. so_mix s = j) ss)"
    by (induction ss) auto
  ultimately show ?thesis by (cases "srcs = []") (simp_all add: put_solo_def Let_def)
qed

lemma showing_change: "showing_of (mirror_change ch m) = shown_change ch (showing_of m)"
  by (cases ch) (auto simp: showing_of_def mirror_solo_def solo_in_def find_put_solo fun_eq_iff)

lemma showing_changes: "showing_of (fold mirror_change chs m) = fold shown_change chs (showing_of m)"
  by (induction chs arbitrary: m) (simp_all add: showing_change)

lemma change_keeps: "mi_synced (mirror_change ch m) = mi_synced m"
  by (cases ch) simp_all

lemma changes_keep: "mi_synced (fold mirror_change chs m) = mi_synced m"
  by (induction chs arbitrary: m) (simp_all add: change_keeps)


subsection \<open>What a request tells\<close>

definition tells :: "core \<Rightarrow> partial_out core_m \<Rightarrow> bool" where
  "tells c r =
     (case snd r of Inl _ \<Rightarrow> True
      | Inr p \<Rightarrow> pa_effect p = Some Imported \<or> fold shown_change (pa_changes p) (shown c) = shown (fst r))"

lemma tells_try: "(\<And>a. r = Inr a \<Longrightarrow> tells c (k a)) \<Longrightarrow> tells c (try_c r c k)"
  by (cases r) (auto simp: tells_def)

lemma tells_same [simp]: "tells c (c, Inr partial_default)" "tells c (c', Inl e)" "tells c (c, Inr (partial_effect ef))"
  by (simp_all add: tells_def partial_default_def partial_effect_def)

lemma tells_changed: "fold shown_change chs (shown c) = shown c' \<Longrightarrow> tells c (c', Inr (partial_changed chs rt))"
  by (simp add: tells_def partial_changed_def)

lemma shown_cong:
  "co_topo c' = co_topo c \<Longrightarrow> co_s c' = co_s c \<Longrightarrow> co_solo c' = co_solo c \<Longrightarrow> co_listen c' = co_listen c \<Longrightarrow> co_test c' = co_test c \<Longrightarrow>
   shown c' = shown c"
  by (simp add: shown_def core_state_def core_transient_def)

lemma shown_state:
  "core_state c' = s \<Longrightarrow> co_topo c' = co_topo c \<Longrightarrow> co_solo c' = co_solo c \<Longrightarrow> co_listen c' = co_listen c \<Longrightarrow> co_test c' = co_test c \<Longrightarrow>
   shown c' = (s, snd (shown c))"
  by (simp add: shown_def core_transient_def)

lemma core_wf: "core_ok c \<Longrightarrow> topo_wf (co_topo c)" "core_ok c \<Longrightarrow> state_ok (co_topo c) (co_s c)"
  by (simp_all add: core_ok_def)

lemma tells_set_input: "core_ok c \<Longrightarrow> tells c (ok_c (set_input lm i new c))"
proof (cases "i < length (t_inputs (co_topo c)) \<and> \<not> input_eq (rs_inputs (co_s c) ! i) new")
  case True
  assume ok: "core_ok c"
  let ?c = "c\<lparr>co_s := (co_s c)\<lparr>rs_inputs := (rs_inputs (co_s c))[i := new]\<rparr>\<rparr>"
  have len: "length (rs_inputs (co_s c)) = length (t_inputs (co_topo c))" using core_wf(2) [OF ok] by (simp add: state_ok_def)
  have "core_state ?c = (core_state c)\<lparr>ms_inputs := bm_insert (n_id (t_inputs (co_topo c) ! i)) new (ms_inputs (core_state c))\<rparr>"
    using to_state_set_input [OF core_wf(1) [OF ok] len] True by (simp add: core_state_def)
  then have "shown ?c = shown_change (ChInput (n_id (t_inputs (co_topo c) ! i)) new) (shown c)"
    by (subst shown_state) (auto simp: shown_def)
  then show ?thesis using True len by (auto simp: set_input_def lget_def ok_c_def intro!: tells_changed)
next
  case False
  assume ok: "core_ok c"
  have "length (rs_inputs (co_s c)) = length (t_inputs (co_topo c))" using core_wf(2) [OF ok] by (simp add: state_ok_def)
  then show ?thesis using False by (auto simp: set_input_def lget_def ok_c_def)
qed

lemma shown_upd_mix:
  assumes "core_ok c" and "m < length (t_mixes (co_topo c))"
    and "mix_of (co_topo c) m (f (rs_mixes (co_s c) ! m)) = g (mix_of (co_topo c) m (rs_mixes (co_s c) ! m))"
  shows "shown (upd_mix m f c) = (edit_mix (m_id (t_mixes (co_topo c) ! m)) g (core_state c), snd (shown c))"
proof (rule shown_state)
  have "length (rs_mixes (co_s c)) = length (t_mixes (co_topo c))" using core_wf(2) [OF assms(1)] by (simp add: state_ok_def)
  from to_state_set_mix [of "co_topo c" "co_s c" m f g, OF core_wf(1) [OF assms(1)] this assms(2,3) core_wf(2) [OF assms(1)]]
  show "core_state (upd_mix m f c) = edit_mix (m_id (t_mixes (co_topo c) ! m)) g (core_state c)"
    by (simp add: core_state_def upd_mix_def)
qed (simp_all add: upd_mix_def)

lemma core_lens:
  assumes "core_ok c"
  shows "length (rs_mixes (co_s c)) = length (t_mixes (co_topo c))"
    and "m < length (t_mixes (co_topo c)) \<Longrightarrow> length (mr_levels (rs_mixes (co_s c) ! m)) = levels (co_topo c) m"
    and "m < length (t_mixes (co_topo c)) \<Longrightarrow> length (mr_groups (rs_mixes (co_s c) ! m)) = length (t_groups (co_topo c))"
  using core_wf(2) [OF assms] by (simp_all add: state_ok_def rec_ok_def)

lemma tells_set_out: "core_ok c \<Longrightarrow> tells c (ok_c (set_out lm m new c))"
proof (cases "m < length (t_mixes (co_topo c)) \<and> \<not> out_eq (mr_out (rs_mixes (co_s c) ! m)) new")
  case True
  assume ok: "core_ok c"
  have "shown (upd_mix m (\<lambda>r. r\<lparr>mr_out := new\<rparr>) c) = shown_change (ChMixOut (m_id (t_mixes (co_topo c) ! m)) new) (shown c)"
    using shown_upd_mix [OF ok, of m "\<lambda>r. r\<lparr>mr_out := new\<rparr>" "\<lambda>x. x\<lparr>mx_out := new\<rparr>"] True by (simp add: mix_of_set_out) (simp add: shown_def)
  then show ?thesis using True core_lens [OF ok] by (auto simp: set_out_def lget_def ok_c_def Let_def intro!: tells_changed)
qed (use core_lens in \<open>auto simp: set_out_def lget_def ok_c_def\<close>)

lemma tells_set_level: "core_ok c \<Longrightarrow> tells c (ok_c (set_level lm m k new c))"
proof (cases "m < length (t_mixes (co_topo c)) \<and> k < levels (co_topo c) m \<and> \<not> level_eq (mr_levels (rs_mixes (co_s c) ! m) ! k) new")
  case True
  assume ok: "core_ok c"
  obtain src where src: "t_source (co_topo c) m k = Some src" using ls.source_total [OF core_wf(1) [OF ok]] True by blast
  have "shown (upd_mix m (\<lambda>r. r\<lparr>mr_levels := (mr_levels r)[k := new]\<rparr>) c) = shown_change (ChLevel (m_id (t_mixes (co_topo c) ! m)) src new) (shown c)"
    using shown_upd_mix [OF ok, of m "\<lambda>r. r\<lparr>mr_levels := (mr_levels r)[k := new]\<rparr>" "put_level src new"] True
      mix_of_set_level [OF core_wf(1) [OF ok] _ src] core_lens [OF ok]
    by (simp) (simp add: shown_def)
  then show ?thesis using True core_lens [OF ok] src by (auto simp: set_level_def lget_def ok_c_def Let_def intro!: tells_changed)
qed (use core_lens in \<open>auto simp: set_level_def lget_def ok_c_def split: option.split\<close>)

lemma tells_set_group: "core_ok c \<Longrightarrow> tells c (ok_c (set_group lm m g new c))"
proof (cases "m < length (t_mixes (co_topo c)) \<and> g < length (t_groups (co_topo c)) \<and> \<not> group_eq (mr_groups (rs_mixes (co_s c) ! m) ! g) new")
  case True
  assume ok: "core_ok c"
  have "shown (upd_mix m (\<lambda>r. r\<lparr>mr_groups := (mr_groups r)[g := new]\<rparr>) c) =
      shown_change (ChGroup (m_id (t_mixes (co_topo c) ! m)) (g_id (t_groups (co_topo c) ! g)) new) (shown c)"
    using shown_upd_mix [OF ok, of m "\<lambda>r. r\<lparr>mr_groups := (mr_groups r)[g := new]\<rparr>"
        "\<lambda>x. x\<lparr>mx_groups := bm_insert (g_id (t_groups (co_topo c) ! g)) new (mx_groups x)\<rparr>"] True
      mix_of_set_group [OF core_wf(1) [OF ok]] core_lens [OF ok]
    by (simp) (simp add: shown_def)
  then show ?thesis using True core_lens [OF ok] by (auto simp: set_group_def lget_def ok_c_def Let_def intro!: tells_changed)
qed (use core_lens in \<open>auto simp: set_group_def lget_def ok_c_def split: option.split\<close>)


text \<open>The solos by mix, from the core's map of slots.\<close>

definition solo_sources :: "topology \<Rightarrow> (nat, nat list) btree \<Rightarrow> mix_id \<Rightarrow> source list" where
  "solo_sources t so i =
     (case mix_index t i of
        Some m \<Rightarrow> (case map_of so m of Some ks \<Rightarrow> List.map_filter (t_source t m) ks | None \<Rightarrow> [])
      | None \<Rightarrow> [])"

lemma find_solos:
  assumes "topo_wf t" and "\<forall>p \<in> set xs. fst p < length (t_mixes t)"
  shows "or_default [] (map_option so_sources (find (\<lambda>s. so_mix s = i) (List.map_filter (\<lambda>(m, ks). map_option (\<lambda>i. \<lparr>so_mix = i,
          so_sources = List.map_filter (t_source t m) ks\<rparr>) (mix_id_of t m)) xs))) = solo_sources t xs i"
  using assms(2)
proof (induction xs)
  case (Cons p xs)
  obtain m ks where p: "p = (m, ks)" by fastforce
  have "mix_id_of t m = Some (m_id (t_mixes t ! m))" using Cons.prems p by (simp add: mix_id_of_def lget_def)
  moreover have "m_id (t_mixes t ! m) = i \<longleftrightarrow> mix_index t i = Some m" using wf_mix_index [OF assms(1)] Cons.prems p by auto
  ultimately show ?case using Cons by (auto simp: p map_filter_simps solo_sources_def split: option.splits)
qed (simp add: solo_sources_def map_filter_simps split: option.split)

lemma solo_in_core: "core_ok c \<Longrightarrow> solo_in (core_transient c) = solo_sources (co_topo c) (co_solo c)"
proof
  fix i assume ok: "core_ok c"
  have "fst p < length (t_mixes (co_topo c))" if "p \<in> set (co_solo c)" for p
  proof -
    have "bm_ok (co_solo c)" using ok by (simp add: core_ok_def solo_ok_def)
    then have "map_of (co_solo c) (fst p) = Some (snd p)" using that by (metis bm_ok_distinct map_of_is_SomeI surjective_pairing)
    then show ?thesis using ok by (auto simp: core_ok_def solo_ok_def)
  qed
  then show "solo_in (core_transient c) i = solo_sources (co_topo c) (co_solo c) i"
    using find_solos [OF core_wf(1) [OF ok], of "co_solo c" i] by (simp add: solo_in_def core_transient_def)
qed

lemma shown_solo:
  assumes "core_ok c" and "core_ok (c\<lparr>co_solo := so\<rparr>)" and "mix_index (co_topo c) i = Some m"
    and "\<And>j. j \<noteq> m \<Longrightarrow> map_of so j = map_of (co_solo c) j"
  shows "shown (c\<lparr>co_solo := so\<rparr>) = shown_change (ChSolo i (case map_of so m of Some ks \<Rightarrow> List.map_filter (t_source (co_topo c) m) ks | None \<Rightarrow> [])) (shown c)"
proof -
  have "solo_sources (co_topo c) so = (solo_sources (co_topo c) (co_solo c))
      (i := (case map_of so m of Some ks \<Rightarrow> List.map_filter (t_source (co_topo c) m) ks | None \<Rightarrow> []))"
  proof
    fix j
    have "mix_index (co_topo c) j = Some m \<Longrightarrow> j = i" using assms(3) wf_mix_index [OF core_wf(1) [OF assms(1)]] by auto
    then show "solo_sources (co_topo c) so j = ((solo_sources (co_topo c) (co_solo c))
      (i := (case map_of so m of Some ks \<Rightarrow> List.map_filter (t_source (co_topo c) m) ks | None \<Rightarrow> []))) j"
      using assms(3) assms(4) [of "the (mix_index (co_topo c) j)"]
      by (cases "mix_index (co_topo c) j"; cases "mix_index (co_topo c) j = Some m") (auto simp: solo_sources_def)
  qed
  then show ?thesis using solo_in_core [OF assms(1)] solo_in_core [OF assms(2)]
    by (simp add: shown_def) (simp add: core_state_def core_transient_def)
qed

lemma tells_solo: "core_ok c \<Longrightarrow> tells c (set_solo lm i srcs c)"
  unfolding set_solo_def
proof (rule tells_try)
  fix m assume ok: "core_ok c" and m: "core_mix c i = Inr m"
  have mi: "mix_index (co_topo c) i = Some m" using m by (auto simp: core_mix_def ok_or_def split: option.splits)
  have new: "tells c (let c' = c\<lparr>co_solo := if new = [] then bm_remove m (co_solo c) else bm_insert m new (co_solo c)\<rparr>
      in (c', Inr (partial_changed [ChSolo i (List.map_filter (t_source (co_topo c) m) new)] (level_ops lm c' m))))"
    if "core_ok (c\<lparr>co_solo := if new = [] then bm_remove m (co_solo c) else bm_insert m new (co_solo c)\<rparr>)" for new
    unfolding Let_def
  proof (rule tells_changed)
    let ?so = "if new = [] then bm_remove m (co_solo c) else bm_insert m new (co_solo c)"
    have "(case map_of ?so m of Some ks \<Rightarrow> List.map_filter (t_source (co_topo c) m) ks | None \<Rightarrow> []) = List.map_filter (t_source (co_topo c) m) new"
      by (simp add: map_of_bm_remove map_filter_simps)
    then show "fold shown_change [ChSolo i (List.map_filter (t_source (co_topo c) m) new)] (shown c) = shown (c\<lparr>co_solo := ?so\<rparr>)"
      using shown_solo [OF ok that mi] by (simp add: map_of_bm_remove)
  qed
  show "tells c (if MAX_SOLO < length srcs then (c, Inl (cmd_err BadValue (''at most '' @ show_nat MAX_SOLO @ '' solo sources'')))
       else try_c (fold_r (solo_step (co_topo c) m i) srcs []) c (\<lambda>new.
         if or_default [] (map_of (co_solo c) m) = new then (c, Inr partial_default)
         else
           (let c' = c\<lparr>co_solo := (if new = [] then bm_remove m (co_solo c) else bm_insert m new (co_solo c))\<rparr>
            in (c', Inr (partial_changed [ChSolo i (List.map_filter (t_source (co_topo c) m) new)]
                  (level_ops lm c' m))))))"
  proof (cases "MAX_SOLO < length srcs")
    case False
    have "core_ok (c\<lparr>co_solo := if n = [] then bm_remove m (co_solo c) else bm_insert m n (co_solo c)\<rparr>)"
      if "fold_r (solo_step (co_topo c) m i) srcs [] = Inr n" "or_default [] (map_of (co_solo c) m) \<noteq> n" for n
      using one_ok [OF ok, of lm "SetSolo i srcs"] that m False by (simp add: set_solo_def Let_def)
    then have "tells c (if or_default [] (map_of (co_solo c) m) = n then (c, Inr partial_default)
         else
           (let c' = c\<lparr>co_solo := (if n = [] then bm_remove m (co_solo c) else bm_insert m n (co_solo c))\<rparr>
            in (c', Inr (partial_changed [ChSolo i (List.map_filter (t_source (co_topo c) m) n)]
                  (level_ops lm c' m)))))" if "fold_r (solo_step (co_topo c) m i) srcs [] = Inr n" for n
      using that new by simp
    then show ?thesis using False by (simp only: if_False) (rule tells_try)
  qed simp
qed

lemma tells_listen: "tells c (c\<lparr>co_listen := l\<rparr>, Inr (partial_changed [ChListen (tr_listen (core_transient (c\<lparr>co_listen := l\<rparr>)))] rt))"
  by (rule tells_changed) (simp add: shown_def core_state_def core_transient_def solo_in_def fun_eq_iff)

lemma tells_start: "tells c (start_listen i c)"
  unfolding start_listen_def by (rule tells_try) (auto simp: Let_def listen_partial_def intro: tells_listen)

lemma stop_slots_quiet: "snd (fold (stop_slot m) slts s) = [] \<Longrightarrow> fst (fold (stop_slot m) slts s) = fst s \<and> snd s = []"
proof (induction slts arbitrary: s)
  case (Cons x slts)
  then have "fst (fold (stop_slot m) slts (stop_slot m x s)) = fst (stop_slot m x s)" "snd (stop_slot m x s) = []" by simp_all
  moreover from this(2) have "stop_slot m x s = s" by (auto simp: stop_slot_def split: if_splits)
  ultimately show ?case by simp
qed simp

lemma tells_stop: "tells c (stop_listen i c)"
  unfolding stop_listen_def
proof (rule tells_try)
  fix m
  obtain l rt where s: "fold (stop_slot m) [0, 1] (co_listen c, []) = (l, rt)" by fastforce
  have "rt = [] \<Longrightarrow> l = co_listen c" using stop_slots_quiet [of m "[0, 1]" "(co_listen c, [])"] s by simp
  then show "tells c (let (l, rt) = fold (stop_slot m) [0, 1] (co_listen c, []); c' = c\<lparr>co_listen := l\<rparr> in (c', Inr (listen_partial c' rt)))"
    using s tells_listen [of c l rt] by (cases "rt = []") (simp_all add: listen_partial_def Let_def del: fold_simps)
qed

lemma tells_test_update: "tells c (c\<lparr>co_test := t, co_hil_test := h\<rparr>, Inr (partial_changed [ChTestSignal t] rt))"
  "tells c (c\<lparr>co_test := t\<rparr>, Inr (partial_changed [ChTestSignal t] rt))"
  by (rule tells_changed, simp add: shown_def core_state_def core_transient_def solo_in_def fun_eq_iff)+

lemma tells_test: "tells c (start_test lm i hz dbfs ttl mk listen c)"
  unfolding start_test_def Let_def by (intro tells_try tells_test_update)

lemma tells_one: "core_ok c \<Longrightarrow> tells c (one lm cmd c)"
proof (cases cmd)
  case (SetEq target e)
  assume "core_ok c"
  then show ?thesis using SetEq
    by (auto simp: Let_def intro!: tells_try tells_set_input tells_set_out tells_set_group split: eq_target.split)
next
  case (ImportState st)
  then show ?thesis by (simp add: tells_def Let_def)
next
  case (ResetLimiterStats i)
  then show ?thesis by (auto intro!: tells_try tells_changed)
next
  case InjectFault
  have "tells c (c, Inr (partial_default\<lparr>pa_rt := [RPanic]\<rparr>))" by (simp add: tells_def partial_default_def)
  then show ?thesis using InjectFault by (simp add: tells_try)
next
  case Arm
  then show ?thesis by (simp add: tells_def partial_default_def)
next
  case StopTestSignal
  then show ?thesis by (simp add: tells_test_update split: option.split)
qed (auto simp: Let_def tells_solo tells_start tells_stop intro!: tells_try tells_set_input tells_set_out tells_set_group tells_set_level tells_test)

lemma batch_tells:
  assumes "core_ok c" and "fold_r (batch_step lm) ops (c, partial_default) = Inr s"
  shows "core_ok (fst s) \<and> fold shown_change (pa_changes (snd s)) (shown c) = shown (fst s)"
proof (rule fold_r_invariant [OF assms(2)])
  fix op s s'
  assume s: "core_ok (fst s) \<and> fold shown_change (pa_changes (snd s)) (shown c) = shown (fst s)" and st: "batch_step lm op s = Inr s'"
  from batch_step_Inr [OF st] obtain q where q: "one lm op (fst s) = (fst s', Inr q)" "batchable op"
    "snd s' = (snd s)\<lparr>pa_changes := pa_changes (snd s) @ pa_changes q, pa_rt := pa_rt (snd s) @ pa_rt q,
       pa_bump := (pa_bump (snd s) \<or> pa_bump q)\<rparr>" .
  have "pa_effect q = None" using plain_one [OF q(2), of lm "fst s"] q(1) by (simp add: plain_def)
  then show "core_ok (fst s') \<and> fold shown_change (pa_changes (snd s')) (shown c) = shown (fst s')"
    using s q one_ok [of "fst s" lm op] tells_one [of "fst s" lm op] by (simp add: tells_def)
qed (simp add: assms(1) partial_default_def)

text \<open>
  A request on the core: refused and nothing changed, or nothing to tell, or the next revision
  with the changes or a whole new state to tell.
\<close>

definition told :: "core \<Rightarrow> core \<Rightarrow> outcome \<Rightarrow> bool" where
  "told c c' out =
     (oc_rev out = co_rev c' \<and>
      (if oc_changes out = [] \<and> oc_effect out \<noteq> Imported then shown c' = shown c \<and> co_rev c' = co_rev c
       else co_rev c' = co_rev c + 1 \<and> (oc_effect out = Imported \<and> oc_changes out = [] \<or>
         oc_effect out \<noteq> Imported \<and> fold shown_change (oc_changes out) (shown c) = shown c')))"

lemma shown_rev [simp]: "shown (c\<lparr>co_rev := r\<rparr>) = shown c"
  by (rule shown_cong) simp_all

lemma told_finish:
  assumes "bump_ok c (c1, Inr p)" and "tells c (c1, Inr p)" and "pa_effect p = Some Imported \<Longrightarrow> pa_changes p = []"
  shows "told c (fst (finish p c1)) (snd (finish p c1))"
  using assms by (cases "pa_effect p") (auto simp: told_def finish_simps bump_ok_def tells_def split: if_splits)


lemma import_quiet:
  assumes "one lm cmd c = (c1, Inr p)" and "pa_effect p = Some Imported"
  shows "pa_changes p = []"
proof (cases "batchable cmd")
  case True
  then show ?thesis using plain_one [OF True, of lm c] assms by (simp add: plain_def)
next
  case False
  have "start_test lm i hz dbfs ttl mk listen c \<noteq> (c1, Inr p)" for i hz dbfs ttl mk listen
    using assms(2) by (auto simp: start_test_def Let_def partial_changed_def)
  then show ?thesis using False assms
    by (cases cmd) (auto simp: partial_effect_def partial_default_def partial_changed_def Let_def split: if_splits option.splits)
qed

lemma core_apply_told:
  assumes "core_ok c" and "core_apply lm cmd c = (c', Inr out)"
  shows "told c c' out"
proof (cases "\<exists>ops. cmd = Batch ops")
  case True
  then obtain ops where ops: "cmd = Batch ops" ..
  with assms(2) obtain s where s: "fold_r (batch_step lm) ops (c, partial_default) = Inr s" "batch lm ops c = (fst s, Inr (snd s))"
    by (cases "fold_r (batch_step lm) ops (c, partial_default)")
      (auto simp: core_apply_def batch_def case_prod_beta split: if_splits)
  have "told c (fst (finish (snd s) (fst s))) (snd (finish (snd s) (fst s)))"
    by (rule told_finish) (use batch_bump [OF s(1)] batch_tells [OF assms(1) s(1)] in \<open>simp_all add: tells_def\<close>)
  then show ?thesis using assms(2) ops s(2) by (simp add: core_apply_def case_prod_beta)
next
  case False
  then have "core_apply lm cmd c =
      (case one lm cmd c of (c', Inl e) \<Rightarrow> (c', Inl e) | (c', Inr p) \<Rightarrow> (let (c'', o') = finish p c' in (c'', Inr o')))"
    by (cases cmd) (simp_all add: core_apply_def)
  with assms(2) obtain c1 p where p: "one lm cmd c = (c1, Inr p)" "c' = fst (finish p c1)" "out = snd (finish p c1)"
    by (cases "one lm cmd c"; cases "snd (one lm cmd c)") (auto simp: case_prod_beta)
  have "told c (fst (finish p c1)) (snd (finish p c1))"
    by (rule told_finish) (use p(1) bump_ok_one [of c lm cmd] tells_one [OF assms(1), of lm cmd] import_quiet [OF p(1)] in simp_all)
  then show ?thesis by (simp add: p)
qed

lemma clear_told:
  assumes "core_ok c"
  shows "told c (fst (clear_solos lm c)) (snd (clear_solos lm c))"
proof -
  let ?s = "fold (clear_solo_step lm) (bm_keys (co_solo c)) (c, partial_default)"
  have keys: "m \<in> set (bm_keys (co_solo c)) \<Longrightarrow> m < length (t_mixes (co_topo c))" for m
    using assms by (auto simp: core_ok_def solo_ok_def bm_keys_set dom_def)
  define P where "P s \<longleftrightarrow> core_ok (fst s) \<and> co_topo (fst s) = co_topo c \<and> co_rev (fst s) = co_rev c \<and> pa_effect (snd s) = None \<and>
      fold shown_change (pa_changes (snd s)) (shown c) = shown (fst s)" for s :: "core \<times> partial_out"
  have step: "P (clear_solo_step lm m s)" if "P s" "m < length (t_mixes (co_topo c))" for m s
  proof -
    let ?c = "(fst s)\<lparr>co_solo := bm_remove m (co_solo (fst s))\<rparr>" let ?i = "m_id (t_mixes (co_topo c) ! m)"
    have ok: "core_ok (fst s)" "core_ok ?c" "co_topo (fst s) = co_topo c" using that(1) by (simp_all add: P_def core_ok_updates)
    have "mix_index (co_topo (fst s)) ?i = Some m" using that(2) ok(3) by (simp add: wf_mix_index [OF core_wf(1) [OF assms]])
    from shown_solo [OF ok(1,2) this] have "shown ?c = shown_change (ChSolo ?i []) (shown (fst s))"
      by (simp add: map_of_bm_remove)
    then show ?thesis using that ok by (simp add: P_def clear_solo_step_def Let_def lget_def)
  qed
  have "P (fold (clear_solo_step lm) ms s)" if "P s" "\<forall>m \<in> set ms. m < length (t_mixes (co_topo c))" for ms s
    using that by (induction ms arbitrary: s) (simp_all add: step)
  moreover have "P (c, partial_default)" using assms by (simp add: P_def partial_default_def)
  ultimately have "P ?s" using keys by blast
  then show ?thesis
    by (auto simp: clear_solos_def case_prod_beta told_def finish_simps P_def)
qed

lemma end_test_told: "told c (fst (end_test_signal c)) (snd (end_test_signal c))"
proof (cases "co_test c")
  case None
  then show ?thesis by (simp add: end_test_signal_def told_def finish_simps partial_default_def)
next
  case (Some t)
  have "shown (c\<lparr>co_test := None\<rparr>) = shown_change (ChTestSignal None) (shown c)"
    by (simp add: shown_def core_state_def core_transient_def solo_in_def fun_eq_iff)
  then show ?thesis using Some by (simp add: end_test_signal_def told_def finish_simps partial_changed_def)
qed

end
