(* ===== verification/MirrorRuns.thy ===== *)
theory MirrorRuns
  imports MirrorProps EngineProps
begin

text \<open>
  The mirrors of all connections over a run of the control loop: each is fed with the messages its
  connection was sent, in the order of the loop's log, and starts anew when the connection is shut.
\<close>

subsection \<open>A connection's mirror\<close>

definition hear :: "u64 \<Rightarrow> deed \<Rightarrow> mirror \<Rightarrow> mirror" where
  "hear i d m =
     (case d of
        Sent j msg \<Rightarrow> if j = i then fst (mirror_apply msg m) else m
      | Shut j \<Rightarrow> if j = i then mirror_default else m
      | _ \<Rightarrow> m)"

definition mirror_of :: "u64 \<Rightarrow> control \<Rightarrow> mirror" where
  "mirror_of i c = fold (hear i) (ct_deeds c) mirror_default"

definition greeted :: "u64 \<Rightarrow> control \<Rightarrow> bool" where
  "greeted i c = (\<exists>r. map_of (ct_peers c) i = Some (Some r))"

lemma mirror_of_did: "mirror_of i (did d c) = hear i d (mirror_of i c)"
  by (simp add: mirror_of_def did_def)

text \<open>
  A mirror that is synced is a greeted connection's, is not ahead of the core, and at the core's
  revision shows the core; where every message can be encoded, every greeted connection's is at
  the core's revision.
\<close>

definition view_ok :: "(engine_msg \<Rightarrow> bool) \<Rightarrow> core \<Rightarrow> u64 \<Rightarrow> control \<Rightarrow> bool" where
  "view_ok enc co i c =
     ((mi_synced (mirror_of i c) \<longrightarrow> greeted i c \<and> mi_rev (mirror_of i c) \<le> co_rev co \<and>
        (mi_rev (mirror_of i c) = co_rev co \<longrightarrow> showing_of (mirror_of i c) = shown co)) \<and>
      ((\<forall>msg. enc msg) \<and> greeted i c \<longrightarrow> mi_synced (mirror_of i c) \<and> mi_rev (mirror_of i c) = co_rev co))"

lemma view_fields:
  "ct_deeds c' = ct_deeds c \<Longrightarrow> ct_peers c' = ct_peers c \<Longrightarrow> view_ok enc co i c' = view_ok enc co i c"
  by (simp add: view_ok_def mirror_of_def greeted_def)

lemma drop_cases:
  "map_of (ct_peers c) i = None \<and> ct_deeds (drop_peer ou i c) = ct_deeds c \<and> ct_peers (drop_peer ou i c) = ct_peers c \<or>
   map_of (ct_peers c) i \<noteq> None \<and> ct_deeds (drop_peer ou i c) = ct_deeds c @ [Shut i] \<and> ct_peers (drop_peer ou i c) = bm_remove i (ct_peers c)"
  by (cases "map_of (ct_peers c) i") (simp_all add: drop_peer_def Let_def did_def)

lemma drop_view: "view_ok enc co j c \<Longrightarrow> view_ok enc co j (drop_peer ou i c)"
  using drop_cases [of c i ou]
  by (auto simp: view_ok_def mirror_of_def greeted_def hear_def mirror_default_def map_of_bm_remove split: if_splits)

lemma drop_unseen: "\<not> greeted i (drop_peer ou i c)"
  by (simp add: greeted_def drop_peer_gone)

text \<open>Messages that mean nothing to a mirror's state.\<close>

fun quiet :: "engine_msg \<Rightarrow> bool" where
  "quiet (MState _ _ _) = False"
| "quiet (MDelta _ _ _) = False"
| "quiet _ = True"

lemma quiet_apply:
  "quiet msg \<Longrightarrow> mi_synced (fst (mirror_apply msg m)) = mi_synced m \<and> mi_rev (fst (mirror_apply msg m)) = mi_rev m \<and>
     showing_of (fst (mirror_apply msg m)) = showing_of m"
  by (cases msg) (simp_all add: mirror_apply_def showing_of_def mirror_solo_def fun_eq_iff)

subsection \<open>Ways to send\<close>

text \<open>What keeps a predicate when fine messages are sent and connections dropped.\<close>

locale telling =
  fixes P :: "control \<Rightarrow> bool" and fine :: "engine_msg \<Rightarrow> bool"
  assumes sent: "P c \<Longrightarrow> fine msg \<Longrightarrow> P (did (Sent i msg) c)"
    and dropped: "P c \<Longrightarrow> P (drop_peer ou i c)"
    and fields: "P c \<Longrightarrow> ct_deeds c' = ct_deeds c \<Longrightarrow> ct_peers c' = ct_peers c \<Longrightarrow> P c'"
    and stored: "P c \<Longrightarrow> P (did (Stored ps) c)"
    and alarms: "fine (MAlarm a)" and saved: "fine (MSaved r g)" and superseded: "fine MSuperseded"
    and replies: "fine (MReply rq r e)"
begin

lemma written: "P c \<Longrightarrow> fine msg \<Longrightarrow> P (write_msg ou i msg c)"
  by (auto simp: write_msg_def sent dropped split: option.split)

lemma send: "P c \<Longrightarrow> fine msg \<Longrightarrow> P (send_msg ou i msg c)"
  by (simp add: send_msg_def written)

lemma folded: "P c \<Longrightarrow> (\<And>x c. P c \<Longrightarrow> P (f x c)) \<Longrightarrow> P (fold f xs c)"
  by (induction xs arbitrary: c) auto

lemma broadcasts: "P c \<Longrightarrow> fine msg \<Longrightarrow> P (broadcast ou msg c)"
  by (auto simp: broadcast_def intro: folded written)

lemma reply: "P c \<Longrightarrow> P (reply_msg ou i rq e c)"
  by (simp add: reply_msg_def send replies)

lemma supersede_old: "P c \<Longrightarrow> P (supersede ou old i c)"
  by (auto simp: supersede_def intro: dropped send superseded split: option.split)

lemma alarm: "P c \<Longrightarrow> P (raise_alarm ou code d c)"
  unfolding raise_alarm_def Let_def by (rule broadcasts [OF _ alarms], erule fields) simp_all

lemma save_state: "P c \<Longrightarrow> P (save ou c)"
proof -
  assume "P c"
  then have s: "P (did (Stored (persisted_of ou (c\<lparr>ct_schedule := schedule_default\<rparr>))) (c\<lparr>ct_schedule := schedule_default\<rparr>))"
    by (intro stored) (erule fields, simp_all)
  then show ?thesis unfolding save_def Let_def
    by (auto intro!: alarm broadcasts saved split: sum.split option.split)
qed

lemma controllers: "P c \<Longrightarrow> P (as_controller ou i r c)"
  unfolding as_controller_def Let_def by (auto intro: supersede_old fields [OF supersede_old])

lemma supervisors: "P c \<Longrightarrow> P (as_supervisor ou i r c)"
  unfolding as_supervisor_def Let_def by (auto intro: supersede_old fields [OF supersede_old])

end

interpretation vw: telling "view_ok enc co j" quiet for enc co j
proof unfold_locales
  fix c msg i assume v: "view_ok enc co j c" and q: "quiet msg"
  have "ct_peers (did (Sent i msg) c) = ct_peers c" by (simp add: did_def)
  then show "view_ok enc co j (did (Sent i msg) c)"
    using v quiet_apply [OF q, of "mirror_of j c"] by (auto simp: view_ok_def mirror_of_did hear_def greeted_def)
next
  fix c ps assume "view_ok enc co j c"
  then show "view_ok enc co j (did (Stored ps) c)" by (simp add: view_ok_def mirror_of_did hear_def greeted_def) (simp add: did_def)
next
  fix c c' :: control assume "view_ok enc co j c" "ct_deeds c' = ct_deeds c" "ct_peers c' = ct_peers c"
  then show "view_ok enc co j c'" using view_fields by blast
qed (simp_all add: drop_view)

text \<open>Nothing that is sent to another connection matters.\<close>

lemma write_other:
  assumes "j \<noteq> i"
  shows "mirror_of j (write_msg ou i msg c) = mirror_of j c" "map_of (ct_peers (write_msg ou i msg c)) j = map_of (ct_peers c) j"
  using assms drop_cases [of c i ou] drop_peer_other [OF assms, of ou c]
  by (auto simp: write_msg_def mirror_of_did hear_def mirror_of_def did_def split: option.split)

lemma write_other_view: "j \<noteq> i \<Longrightarrow> view_ok enc co j (write_msg ou i msg c) = view_ok enc co j c"
  using write_other [of j i ou msg c] by (simp add: view_ok_def greeted_def)

lemma fold_write_other:
  "j \<notin> set is \<Longrightarrow> mirror_of j (fold (\<lambda>i. write_msg ou i msg) is c) = mirror_of j c \<and>
     map_of (ct_peers (fold (\<lambda>i. write_msg ou i msg) is c)) j = map_of (ct_peers c) j"
  by (induction "is" arbitrary: c) (auto simp: write_other)


subsection \<open>News of the core\<close>

text \<open>A message that brings every mirror from one core to the next.\<close>

definition updates :: "(engine_msg \<Rightarrow> bool) \<Rightarrow> core \<Rightarrow> core \<Rightarrow> engine_msg \<Rightarrow> bool" where
  "updates enc co co' msg =
     (\<forall>m. (mi_synced m \<longrightarrow> mi_rev m \<le> co_rev co \<and> (mi_rev m = co_rev co \<longrightarrow> showing_of m = shown co)) \<longrightarrow>
        (let m' = fst (mirror_apply msg m) in
         (mi_synced m' \<longrightarrow> mi_rev m' \<le> co_rev co' \<and> (mi_rev m' = co_rev co' \<longrightarrow> showing_of m' = shown co')) \<and>
         ((\<forall>msg. enc msg) \<and> mi_synced m \<and> mi_rev m = co_rev co \<longrightarrow> mi_synced m' \<and> mi_rev m' = co_rev co')))"

lemma updates_write:
  assumes "updates enc co co' msg" and "view_ok enc co i c" and "map_of (ct_peers c) i \<noteq> Some None"
  shows "view_ok enc co' i (write_msg ou i msg c)"
proof (cases "map_of (ct_peers c) i")
  case None
  then show ?thesis using assms(2) by (auto simp: write_msg_def view_ok_def greeted_def)
next
  case (Some r)
  then have g: "greeted i c" using assms(3) by (cases r) (auto simp: greeted_def)
  show ?thesis
  proof (cases "ou_writes ou i msg")
    case True
    have "greeted i (did (Sent i msg) c)" using g by (simp add: greeted_def did_def)
    then show ?thesis using True Some g assms(1,2)
      by (simp add: write_msg_def view_ok_def mirror_of_did hear_def updates_def Let_def)
  next
    case False
    have "\<not> mi_synced (mirror_of i (drop_peer ou i c))"
      using Some drop_cases [of c i ou] by (auto simp: mirror_of_def hear_def mirror_default_def)
    then show ?thesis using False Some drop_unseen [of i ou c] by (simp add: write_msg_def view_ok_def)
  qed
qed

lemma updates_fold:
  assumes "updates enc co co' msg" and "view_ok enc co i c" and "map_of (ct_peers c) i \<noteq> Some None" and "distinct is" and "i \<in> set is"
  shows "view_ok enc co' i (fold (\<lambda>i. write_msg ou i msg) is c)"
proof -
  from assms(5) obtain xs ys where "is": "is = xs @ i # ys" by (auto simp: in_set_conv_decomp)
  with assms(4) have n: "i \<notin> set xs" "i \<notin> set ys" by auto
  let ?c = "fold (\<lambda>i. write_msg ou i msg) xs c"
  have "view_ok enc co i ?c" "map_of (ct_peers ?c) i \<noteq> Some None"
    using assms(2,3) fold_write_other [OF n(1), of ou msg c] by (simp_all add: view_ok_def greeted_def)
  from updates_write [OF assms(1) this, of ou] show ?thesis
    using fold_write_other [OF n(2), of ou msg "write_msg ou i msg ?c"] by (simp add: "is" view_ok_def greeted_def)
qed

lemma updates_broadcast:
  assumes "updates (ou_encodes ou) co co' msg" and "\<And>i. view_ok (ou_encodes ou) co i c" and "bm_ok (ct_peers c)" and "co_rev co < co_rev co'"
  shows "view_ok (ou_encodes ou) co' i (broadcast ou msg c)"
proof (cases "ou_encodes ou msg")
  case False
  then show ?thesis using assms(2) [of i] assms(4) by (auto simp: broadcast_def view_ok_def)
next
  case True
  let ?is = "map fst (filter (\<lambda>(_, r). r \<noteq> None) (ct_peers c))"
  have d: "distinct (map fst (ct_peers c))" by (rule bm_ok_distinct [OF assms(3)])
  have dis: "distinct ?is" using d by (simp add: distinct_map_filter)
  have iff: "j \<in> set ?is \<longleftrightarrow> greeted j c" for j
    using d by (force simp: greeted_def map_of_eq_Some_iff image_iff)
  show ?thesis
  proof (cases "i \<in> set ?is")
    case i: True
    then have "map_of (ct_peers c) i \<noteq> Some None" unfolding iff by (auto simp: greeted_def)
    then show ?thesis using True updates_fold [OF assms(1,2) _ dis i] by (simp add: broadcast_def)
  next
    case False
    then have "\<not> greeted i c" unfolding iff .
    then show ?thesis using True assms(2) [of i] fold_write_other [OF False, of ou msg c]
      by (simp add: broadcast_def view_ok_def greeted_def)
  qed
qed

lemma state_updates: "co_rev co \<le> co_rev co' \<Longrightarrow> updates enc co co' (MState (co_rev co') (core_state co') (core_transient co'))"
  by (simp add: updates_def mirror_apply_def showing_of_def shown_def mirror_solo_def fun_eq_iff)

lemma delta_updates:
  assumes "told co co' out" and "oc_changes out \<noteq> []" and "co_rev co < co_rev co + 1"
  shows "updates enc co co' (MDelta (oc_rev out) origin (oc_changes out))"
proof -
  have t: "oc_rev out = co_rev co + 1" "co_rev co' = co_rev co + 1" "fold shown_change (oc_changes out) (shown co) = shown co'"
    using assms(1,2) by (auto simp: told_def split: if_splits)
  have "mi_rev m + 1 \<noteq> co_rev co + 1" if "mi_rev m < co_rev co" for m using that by auto
  moreover have "mi_rev m \<le> co_rev co \<Longrightarrow> \<not> co_rev co + 1 \<le> mi_rev m" for m using assms(3) by auto
  moreover have "mi_rev (fold mirror_change chs m) = mi_rev m" for chs m
  proof (induction chs arbitrary: m)
    case (Cons ch chs)
    have "mi_rev (mirror_change ch m) = mi_rev m" by (cases ch) simp_all
    then show ?case using Cons.IH [of "mirror_change ch m"] by simp
  qed simp
  moreover have "showing_of (m\<lparr>mi_rev := r\<rparr>) = showing_of m" for m r by (simp add: showing_of_def mirror_solo_def fun_eq_iff)
  ultimately show ?thesis
    using assms(3) by (auto simp: updates_def mirror_apply_def Let_def t showing_changes changes_keep)
qed


subsection \<open>The handlers\<close>

definition in_view :: "(engine_msg \<Rightarrow> bool) \<Rightarrow> control \<Rightarrow> bool" where
  "in_view enc c = (\<forall>i. view_ok enc (ct_core c) i c)"

lemma told_view: "told co co' out \<Longrightarrow> oc_changes out = [] \<Longrightarrow> oc_effect out \<noteq> Imported \<Longrightarrow> view_ok enc co' i c = view_ok enc co i c"
  by (simp add: told_def view_ok_def)

lemma publish_view:
  assumes "\<And>i. view_ok (ou_encodes ou) co i c" and "told co co' out" and "bm_ok (ct_peers c)" and "co_rev co < co_rev co + 1"
  shows "view_ok (ou_encodes ou) (if oc_effect out = Imported then co else co') i (publish ou out origin c)"
proof -
  let ?c1 = "flush_rt (c\<lparr>ct_pending := ct_pending c @ chunks MAX_CMDS_PER_BLOCK (oc_rt out)\<rparr>)"
  let ?c2 = "?c1\<lparr>ct_schedule := schedule_changed (ou_now ou) (ct_schedule ?c1)\<rparr>"
  have same: "ct_deeds ?c1 = ct_deeds c" "ct_peers ?c1 = ct_peers c" by (simp_all add: flush_rt_def case_prod_beta)
  have v: "view_ok (ou_encodes ou) co i ?c1" "view_ok (ou_encodes ou) co i ?c2" for i
    using assms(1) [of i] same view_fields [of ?c1 c] view_fields [of ?c2 c] by simp_all
  show ?thesis
  proof (cases "oc_changes out = []")
    case True
    then show ?thesis using v(1) [of i] told_view [OF assms(2) True] by (simp add: publish_def Let_def)
  next
    case False
    have n: "oc_effect out \<noteq> Imported" "co_rev co < co_rev co'" using assms(2,4) False by (auto simp: told_def split: if_splits)
    have "view_ok (ou_encodes ou) co' i (broadcast ou (MDelta (oc_rev out) origin (oc_changes out)) ?c2)"
      by (rule updates_broadcast [OF delta_updates [OF assms(2) False assms(4)] v(2)]) (use same assms(3) n in simp_all)
    then show ?thesis using False n by (simp add: publish_def Let_def)
  qed
qed

text \<open>The state sent to one greeted connection.\<close>

lemma send_state_view:
  assumes "view_ok (ou_encodes ou) (ct_core c) j c" and "map_of (ct_peers c) i \<noteq> Some None"
  shows "view_ok (ou_encodes ou) (ct_core c) j (send_msg ou i (state_msg c) c)"
proof (cases "j = i")
  case True
  then show ?thesis
    using assms updates_write [OF state_updates [OF order_refl] assms(1) [unfolded True] assms(2), of ou] by (simp add: send_msg_def state_msg_def)
qed (use assms in \<open>simp add: send_msg_def write_other_view\<close>)

lemma perform_view:
  assumes "\<And>j. view_ok (ou_encodes ou) (if e = Imported then co else ct_core c) j c" and "map_of (ct_peers c) i \<noteq> Some None"
    and "e = Imported \<Longrightarrow> co_rev co < co_rev (ct_core c)" and "bm_ok (ct_peers c)"
  shows "view_ok (ou_encodes ou) (ct_core c) j (perform ou i e c)"
proof (cases e)
  case Imported
  have "view_ok (ou_encodes ou) (ct_core c) j (broadcast ou (state_msg c) c)"
    unfolding state_msg_def by (rule updates_broadcast [OF state_updates]) (use assms Imported in auto)
  then show ?thesis using Imported view_fields [of "perform ou i e c" "broadcast ou (state_msg c) c"]
    by (simp add: perform_def Let_def)
next
  case SendState
  then show ?thesis using assms(1) [of j] send_state_view [OF _ assms(2)] by (simp add: perform_def)
next
  case EffShutdown
  then show ?thesis using assms(1) [of j] view_fields [of "c\<lparr>ct_shutdown := True\<rparr>" c] by (simp add: perform_def)
qed (use assms(1) [of j] in \<open>simp_all add: perform_def vw.send vw.save_state\<close>)

lemma publish_peers:
  assumes "roles_ok c"
  shows "map_of (ct_peers (publish ou out origin c)) i = Some x \<Longrightarrow> map_of (ct_peers c) i = Some x" and "roles_ok (publish ou out origin c)"
proof -
  let ?c1 = "flush_rt (c\<lparr>ct_pending := ct_pending c @ chunks MAX_CMDS_PER_BLOCK (oc_rt out)\<rparr>)"
  let ?c2 = "?c1\<lparr>ct_schedule := schedule_changed (ou_now ou) (ct_schedule ?c1)\<rparr>"
  have f: "ct_peers ?c1 = ct_peers c" "ct_controller ?c1 = ct_controller c" "ct_supervisor ?c1 = ct_supervisor c"
    by (simp_all add: flush_rt_def case_prod_beta)
  have r: "roles_ok ?c1" "roles_ok ?c2" using assms f roles_ok_fields [of ?c1 c] roles_ok_fields [of ?c2 c] by simp_all
  have t: "talks ?c2 (broadcast ou m ?c2)" for m by (rule broadcast_talks)
  show "roles_ok (publish ou out origin c)" using r talks_roles [OF t r(2)] by (simp add: publish_def Let_def)
  show "map_of (ct_peers (publish ou out origin c)) i = Some x \<Longrightarrow> map_of (ct_peers c) i = Some x"
    using talks_peer [OF t, of _ i x] f(1) by (auto simp: publish_def Let_def split: if_splits)
qed

lemma request_view:
  assumes iv: "in_view (ou_encodes ou) c" and ok: "control_ok c" and role: "map_of (ct_peers c) i = Some r"
    and top: "co_rev (ct_core c) < co_rev (ct_core c) + 1"
  shows "in_view (ou_encodes ou) (frame_request lm ou i r rq origin cmd c)"
proof (cases "refusal r cmd")
  case (Some e)
  have "ct_core (reply_msg ou i rq (Some e) c) = ct_core c" by (rule core_of_mixing [OF talks_mixing [OF reply_talks]])
  then show ?thesis using iv Some by (simp add: frame_request_def in_view_def vw.reply)
next
  case None
  obtain co res where a: "core_apply lm cmd (ct_core c) = (co, res)" by fastforce
  show ?thesis
  proof (cases res)
    case (Inl e)
    from a have "co = ct_core c" by (cases rule: core_apply_cases) (use Inl in auto)
    then have "c\<lparr>ct_core := co\<rparr> = c" by simp
    moreover have "ct_core (reply_msg ou i rq (Some e) c) = ct_core c" by (rule core_of_mixing [OF talks_mixing [OF reply_talks]])
    ultimately show ?thesis using iv None a Inl by (simp add: frame_request_def in_view_def vw.reply)
  next
    case (Inr out)
    have t: "told (ct_core c) co out" using core_apply_told [of "ct_core c"] a Inr ok by (simp add: control_ok_def)
    let ?n = "note_cmd ou cmd (c\<lparr>ct_core := co\<rparr>)" let ?r = "reply_msg ou i rq None ?n" let ?p = "publish ou out origin ?r"
    have n: "ct_deeds ?n = ct_deeds c" "ct_peers ?n = ct_peers c" "ct_core ?n = co" by (simp_all add: note_cmd_def Let_def split: cmd.split)
    have tr: "talks ?n ?r" by (rule reply_talks)
    have v: "view_ok (ou_encodes ou) (ct_core c) j ?r" for j
      by (rule vw.reply) (use iv n view_fields [of ?n c] in \<open>simp add: in_view_def\<close>)
    have "roles_ok ?r" by (rule talks_roles [OF tr]) (use ok n in \<open>simp add: control_ok_def roles_ok_def note_cmd_fields\<close>)
    note b = this publish_peers [OF this, of ou out origin]
    have core: "ct_core ?p = co" using core_of_mixing [OF talks_mixing [OF tr]] n(3) by (simp add: publish_core)
    have "map_of (ct_peers ?p) i \<noteq> Some None"
      using None b(2) [of i] talks_peer [OF tr, of i None] n(2) role by (auto simp: refusal_def)
    moreover have "view_ok (ou_encodes ou) (if oc_effect out = Imported then ct_core c else ct_core ?p) j ?p" for j
      unfolding core by (rule publish_view [OF v t _ top]) (use b(1) in \<open>simp add: roles_ok_def\<close>)
    moreover have "oc_effect out = Imported \<Longrightarrow> co_rev (ct_core c) < co_rev (ct_core ?p)"
      using t top by (auto simp: told_def core split: if_splits)
    ultimately have "view_ok (ou_encodes ou) (ct_core ?p) j (perform ou i (oc_effect out) ?p)" for j
      using perform_view [of ou "oc_effect out" "ct_core c" ?p i] b(3) by (simp add: roles_ok_def)
    moreover have "ct_core (perform ou i (oc_effect out) ?p) = ct_core ?p" by (rule core_of_mixing [OF perform_mixing])
    ultimately show ?thesis using None a Inr by (simp add: frame_request_def in_view_def)
  qed
qed


text \<open>The connection that says hello is greeted before the state reaches it.\<close>

definition half_view :: "core \<Rightarrow> u64 \<Rightarrow> control \<Rightarrow> bool" where
  "half_view co i c =
     (mi_synced (mirror_of i c) \<longrightarrow> greeted i c \<and> mi_rev (mirror_of i c) \<le> co_rev co \<and>
        (mi_rev (mirror_of i c) = co_rev co \<longrightarrow> showing_of (mirror_of i c) = shown co))"

lemma half_view_eq: "half_view co i c = view_ok (\<lambda>_. False) co i c"
  by (simp add: half_view_def view_ok_def)

lemma send_state_full:
  assumes "half_view (ct_core c) i c" and "map_of (ct_peers c) i \<noteq> Some None"
  shows "view_ok (ou_encodes ou) (ct_core c) i (send_msg ou i (state_msg c) c)"
proof (cases "ou_encodes ou (state_msg c) \<and> ou_writes ou i (state_msg c) \<and> map_of (ct_peers c) i \<noteq> None")
  case True
  then obtain x where x: "map_of (ct_peers c) i = Some x" by auto
  let ?d = "did (Sent i (state_msg c)) c"
  have "send_msg ou i (state_msg c) c = ?d" using True x by (simp add: send_msg_def write_msg_def)
  moreover have "greeted i ?d" using x assms(2) by (cases x) (auto simp: greeted_def did_def)
  moreover have "mirror_of i ?d = (mirror_of i c)\<lparr>mi_state := core_state (ct_core c), mi_transient := core_transient (ct_core c),
      mi_rev := co_rev (ct_core c), mi_synced := True\<rparr>" by (simp add: mirror_of_did hear_def mirror_apply_def state_msg_def)
  ultimately show ?thesis by (simp add: view_ok_def showing_of_def shown_def mirror_solo_def fun_eq_iff)
next
  case False
  have "view_ok (\<lambda>_. False) (ct_core c) i (send_msg ou i (state_msg c) c)"
    unfolding send_msg_def using assms updates_write [OF state_updates [OF order_refl], of "\<lambda>_. False" "ct_core c" i c ou]
    by (simp add: half_view_eq state_msg_def)
  moreover have "\<not> ou_encodes ou (state_msg c) \<or> \<not> greeted i (send_msg ou i (state_msg c) c)"
    using False assms(2) drop_unseen [of i ou c] by (auto simp: send_msg_def write_msg_def greeted_def split: option.splits)
  ultimately show ?thesis by (auto simp: view_ok_def)
qed

lemma greeting_view:
  assumes "\<And>j. j \<noteq> i \<Longrightarrow> view_ok (ou_encodes ou) (ct_core c) j c" and "half_view (ct_core c) i c" and "map_of (ct_peers c) i = Some (Some r)"
  shows "view_ok (ou_encodes ou) (ct_core c) j (greeting ou i v r c)"
proof -
  let ?h = "MHello \<lparr>he_proto = v, he_build = ou_build ou, he_hash = t_hash (co_topo (ct_core c)),
      he_rev = co_rev (ct_core c), he_sample_rate = SAMPLE_RATE, he_block = se_block (ct_settings c), he_role = r\<rparr>"
  let ?c6 = "send_msg ou i ?h c" let ?c7 = "send_msg ou i (MTopology (info (co_topo (ct_core c)))) ?c6"
  have t: "talks c ?c7" by (rule talks_trans [OF send_talks send_talks])
  then have core: "ct_core ?c7 = ct_core c" by (rule core_of_mixing [OF talks_mixing])
  have peer: "map_of (ct_peers ?c7) i \<noteq> Some None" using talks_peer [OF t, of i None] assms(3) by auto
  have "view_ok (ou_encodes ou) (ct_core ?c7) j (send_msg ou i (state_msg ?c7) ?c7)"
  proof (cases "j = i")
    case True
    have "half_view (ct_core ?c7) i ?c7" using assms(2) unfolding half_view_eq core by (intro vw.send) simp_all
    then show ?thesis using True send_state_full [OF _ peer] by simp
  next
    case False
    then show ?thesis using send_state_view [OF _ peer, of ou j] assms(1) [OF False] by (simp add: core vw.send)
  qed
  moreover have "view_ok (ou_encodes ou) (ct_core c) j d \<Longrightarrow> view_ok (ou_encodes ou) (ct_core c) j (fold (\<lambda>a. send_msg ou i (MAlarm a)) as d)" for as d
    by (erule vw.folded) (simp add: vw.send)
  ultimately have "view_ok (ou_encodes ou) (ct_core c) j (fold (\<lambda>a. send_msg ou i (MAlarm a)) as (send_msg ou i (state_msg ?c7) ?c7))" for as
    unfolding core by blast
  then show ?thesis by (simp add: greeting_def Let_def)
qed

lemma hello_view:
  assumes "in_view (ou_encodes ou) c" and "map_of (ct_peers c) i \<noteq> None" and "roles_ok c"
  shows "in_view (ou_encodes ou) (hello ou i proto r c)"
proof (cases "negotiate PROTO proto")
  case None
  have "ct_core (hello ou i proto r c) = ct_core c" by (rule core_of_mixing [OF hello_mixing])
  then show ?thesis using None assms(1) by (simp add: in_view_def hello_eq drop_view vw.reply)
next
  case (Some v)
  let ?c4 = "as_supervisor ou i r (as_controller ou i r c)" let ?c5 = "?c4\<lparr>ct_peers := bm_insert i (Some r) (ct_peers ?c4)\<rparr>"
  note a = as_controller_ok [OF assms(3,2)]
  have "map_of (ct_peers (as_controller ou i r c)) i \<noteq> None" using a(3) assms(2) by simp
  note b = as_supervisor_ok [OF a(1) this]
  have core: "ct_core ?c5 = ct_core c" using a(2) b(3) by (simp add: mixing_def)
  have v: "view_ok (ou_encodes ou) (ct_core c) j ?c4" for j
    by (intro vw.supervisors vw.controllers) (use assms(1) in \<open>simp add: in_view_def\<close>)
  have g: "mirror_of j ?c5 = mirror_of j ?c4" "greeted j ?c5 = (j = i \<or> greeted j ?c4)" for j by (auto simp: mirror_of_def greeted_def)
  have others: "view_ok (ou_encodes ou) (ct_core ?c5) j ?c5" if "j \<noteq> i" for j
    unfolding core using v [of j] that by (simp add: view_ok_def g)
  have "half_view (ct_core ?c5) i ?c5" unfolding core half_view_def g using v [of i] by (simp add: view_ok_def)
  then have "view_ok (ou_encodes ou) (ct_core ?c5) j (greeting ou i v r ?c5)" for j
    by (intro greeting_view others) simp_all
  moreover have "ct_core (hello ou i proto r c) = ct_core c" by (rule core_of_mixing [OF hello_mixing])
  ultimately show ?thesis unfolding hello_steps [OF assms(2) Some] Let_def in_view_def
    using core hello_steps [OF assms(2) Some] by (simp add: Let_def)
qed


text \<open>Between handlers: every mirror as it should be, and room for revisions.\<close>

definition calm :: "(engine_msg \<Rightarrow> bool) \<Rightarrow> nat \<Rightarrow> control \<Rightarrow> bool" where
  "calm enc n c = (in_view enc c \<and> control_ok c \<and> unat (co_rev (ct_core c)) + n < 2 ^ 64)"

lemma rev_room: "unat (r :: u64) + Suc n < 2 ^ 64 \<Longrightarrow> r < r + 1 \<and> unat (r + 1) + n < 2 ^ 64"
  by (simp add: word_less_nat_alt unat_word_ariths)

lemma told_room: "told co co' out \<Longrightarrow> unat (co_rev co) + Suc n < 2 ^ 64 \<Longrightarrow> unat (co_rev co') + n < 2 ^ 64"
  using rev_room [of "co_rev co" n] by (auto simp: told_def split: if_splits)

lemma request_room:
  assumes "control_ok c" and "unat (co_rev (ct_core c)) + Suc n < 2 ^ 64"
  shows "unat (co_rev (ct_core (frame_request lm ou i x rq origin cmd c))) + n < 2 ^ 64"
proof (cases "refusal x cmd")
  case (Some e)
  then show ?thesis using assms(2) core_of_mixing [OF talks_mixing [OF reply_talks]] by (simp add: frame_request_def)
next
  case None
  obtain co res where a: "core_apply lm cmd (ct_core c) = (co, res)" by fastforce
  show ?thesis
  proof (cases res)
    case (Inl e)
    from a have "co = ct_core c" by (cases rule: core_apply_cases) (use Inl in auto)
    then show ?thesis using None a Inl assms(2) core_of_mixing [OF talks_mixing [OF reply_talks]] by (simp add: frame_request_def)
  next
    case (Inr out)
    have "told (ct_core c) co out" using core_apply_told [of "ct_core c"] a Inr assms(1) by (simp add: control_ok_def)
    then show ?thesis using told_room [OF _ assms(2)] request_accepted(1) [OF assms(1) None] a Inr by simp
  qed
qed

lemma handle_calm:
  assumes "calm (ou_encodes ou) (Suc n) c" and fresh: "\<And>i. msg = Connected i \<Longrightarrow> map_of (ct_peers c) i = None"
  shows "calm (ou_encodes ou) n (handle lm ou msg c)"
proof -
  have iv: "in_view (ou_encodes ou) c" and ok: "control_ok c" and r: "unat (co_rev (ct_core c)) + Suc n < 2 ^ 64"
    using assms(1) by (simp_all add: calm_def)
  have ok': "control_ok (handle lm ou msg c)" using handle_keeps [of lm c ou msg] ok by (simp add: keeps_def)
  have quiet: "calm (ou_encodes ou) n d" if "control_ok d" "ct_core d = ct_core c" "\<And>j. view_ok (ou_encodes ou) (ct_core c) j d" for d
    using that r by (simp add: calm_def in_view_def)
  show ?thesis
  proof (cases msg)
    case (Connected i)
    have none: "\<not> mi_synced (mirror_of i c)" using iv fresh [OF Connected] by (auto simp: in_view_def view_ok_def greeted_def)
    have "view_ok (ou_encodes ou) (ct_core c) j (handle lm ou msg c)" for j
      using iv none fresh [OF Connected] unfolding Connected handle_def
      by (cases "j = i") (auto simp: in_view_def view_ok_def mirror_of_did hear_def mirror_default_def greeted_def mirror_of_def did_def)
    then show ?thesis using Connected by (intro quiet ok') (simp_all add: handle_def did_def)
  next
    case (Closed i)
    then show ?thesis using iv ok' talks_mixing [OF drop_peer_talks] by (intro quiet) (auto simp: handle_def in_view_def drop_view mixing_def)
  next
    case (Frame i m)
    have top: "co_rev (ct_core c) < co_rev (ct_core c) + 1" using rev_room [OF r] by simp
    have hel: "calm (ou_encodes ou) n (hello ou i proto r' c)" if "map_of (ct_peers c) i \<noteq> None" "control_ok (hello ou i proto r' c)" for proto r'
      using hello_view [OF iv that(1)] that(2) ok core_of_mixing [OF hello_mixing [of ou i proto r' c]] r by (simp add: calm_def control_ok_def)
    have req: "calm (ou_encodes ou) n (frame_request lm ou i x rq origin cmd c)"
      if "map_of (ct_peers c) i = Some x" "control_ok (frame_request lm ou i x rq origin cmd c)" for x rq origin cmd
      using request_view [OF iv ok that(1) top] that(2) request_room [OF ok r] by (simp add: calm_def)
    have rep: "calm (ou_encodes ou) n (reply_msg ou i rq e c)" if "control_ok (reply_msg ou i rq e c)" for rq e
      by (rule quiet [OF that core_of_mixing [OF talks_mixing [OF reply_talks]]]) (use iv in \<open>simp add: in_view_def vw.reply\<close>)
    have "calm (ou_encodes ou) n c" by (rule quiet [OF ok refl]) (use iv in \<open>simp add: in_view_def\<close>)
    then show ?thesis using ok' hel req rep unfolding Frame
      by (auto simp: handle_def frame_def split: option.splits sum.splits prod.splits client_msg.splits)
  qed
qed


lemma quiet_calm:
  assumes "calm enc n c" and "\<And>j. view_ok enc (ct_core c) j c \<Longrightarrow> view_ok enc (ct_core c) j d" and "keeps lm c d" and "ct_core d = ct_core c"
  shows "calm enc n d"
  using assms by (simp add: calm_def in_view_def keeps_def)

lemma publish_calm:
  assumes "calm (ou_encodes ou) (Suc n) c" and "told (ct_core c) co out" and "oc_effect out \<noteq> Imported"
    and "ct_core d = co" and "ct_deeds d = ct_deeds c" and "ct_peers d = ct_peers c" and "keeps lm c (publish ou out origin d)"
  shows "calm (ou_encodes ou) n (publish ou out origin d)"
proof -
  have r: "unat (co_rev (ct_core c)) + Suc n < 2 ^ 64" and ok: "control_ok c" using assms(1) by (simp_all add: calm_def)
  have "view_ok (ou_encodes ou) (ct_core c) j d" for j
    using assms(1,5,6) view_fields [of d c] by (simp add: calm_def in_view_def)
  from publish_view [OF this assms(2)] have "view_ok (ou_encodes ou) co j (publish ou out origin d)" for j
    using rev_room [OF r] ok assms(3,6) by (simp add: control_ok_def roles_ok_def)
  then show ?thesis using told_room [OF assms(2) r] assms(4,7) ok publish_core [of ou out origin d]
    by (simp add: calm_def in_view_def keeps_def)
qed

lemma clear_effect: "oc_effect (snd (clear_solos lm c)) \<noteq> Imported"
proof -
  have "pa_effect (snd (fold (clear_solo_step lm) ms s)) = pa_effect (snd s)" for ms s
    by (induction ms arbitrary: s) (simp_all add: clear_solo_step_def Let_def)
  then show ?thesis by (simp add: clear_solos_def case_prod_beta finish_simps partial_default_def)
qed

lemma calm_less: "calm enc (Suc n) c \<Longrightarrow> calm enc n c"
  by (simp add: calm_def)

lemma tick_solos_calm: "calm (ou_encodes ou) (Suc n) c \<Longrightarrow> calm (ou_encodes ou) n (tick_solos lm ou c)"
proof -
  assume a: "calm (ou_encodes ou) (Suc n) c"
  have t: "told (ct_core c) (fst (clear_solos lm (ct_core c))) (snd (clear_solos lm (ct_core c)))"
    using a by (intro clear_told) (simp add: calm_def control_ok_def)
  let ?d = "c\<lparr>ct_controller_lost := None, ct_core := fst (clear_solos lm (ct_core c))\<rparr>"
  show ?thesis
  proof (cases "tick_solos lm ou c = c")
    case True
    then show ?thesis using calm_less [OF a] by simp
  next
    case False
    then have "tick_solos lm ou c = publish ou (snd (clear_solos lm (ct_core c))) None ?d"
      by (auto simp: tick_solos_def case_prod_beta split: option.splits if_splits)
    then show ?thesis
      using publish_calm [OF a t clear_effect, of ?d lm None] tick_solos_keeps [of lm c ou] by simp
  qed
qed

lemma tick_deadline_calm: "calm (ou_encodes ou) (Suc n) c \<Longrightarrow> calm (ou_encodes ou) n (tick_deadline ou c)"
proof -
  assume a: "calm (ou_encodes ou) (Suc n) c"
  let ?d = "c\<lparr>ct_test_deadline := None, ct_core := fst (end_test_signal (ct_core c))\<rparr>"
  have e: "oc_effect (snd (end_test_signal (ct_core c))) \<noteq> Imported"
    by (simp add: end_test_signal_def finish_simps partial_changed_def partial_default_def split: option.split)
  show ?thesis
  proof (cases "tick_deadline ou c = c")
    case True
    then show ?thesis using calm_less [OF a] by simp
  next
    case False
    then have "tick_deadline ou c = publish ou (snd (end_test_signal (ct_core c))) None ?d"
      by (auto simp: tick_deadline_def case_prod_beta split: option.splits if_splits)
    then show ?thesis
      using publish_calm [OF a end_test_told e, of ?d _ None] tick_deadline_keeps [of _ c ou] by simp
  qed
qed

lemma tick_calm:
  assumes "calm (ou_encodes ou) (Suc (Suc n)) c" and "tick lm ou polls final c = (c', None)"
  shows "calm (ou_encodes ou) n c'"
proof -
  let ?c1 = "flush_rt c" let ?c2 = "tick_meters ou ?c1" let ?c3 = "tick_status ou ?c2"
  have f: "calm (ou_encodes ou) (Suc (Suc n)) ?c1"
  proof (rule quiet_calm [OF assms(1) _ flush_keeps])
    show "view_ok (ou_encodes ou) (ct_core c) j c \<Longrightarrow> view_ok (ou_encodes ou) (ct_core c) j ?c1" for j
      using view_fields [of ?c1 c] by (simp add: flush_rt_def case_prod_beta)
  qed (simp add: flush_rt_frame)
  have m: "view_ok enc co j d \<Longrightarrow> view_ok enc co j (tick_meters ou d)" for enc co j d
  proof -
    assume v: "view_ok enc co j d"
    have 1: "view_ok enc co j (raise_alarm ou code w (d\<lparr>ct_trips_seen := x\<rparr>))" for code w x
      by (intro vw.alarm) (use v view_fields [of "d\<lparr>ct_trips_seen := x\<rparr>" d] in simp)
    have 2: "view_ok enc co j (note_hil p (e\<lparr>ct_counters := y\<rparr>))" if "view_ok enc co j e" for e y p
      using that view_fields [of "note_hil p (e\<lparr>ct_counters := y\<rparr>)" e] by (simp add: note_hil_def)
    show ?thesis using v 1 2 by (auto simp: tick_meters_def Let_def intro!: vw.broadcasts split: option.split)
  qed
  have mc: "ct_core (tick_meters ou d) = ct_core d" for d
  proof -
    have "ct_core (broadcast ou msg e) = ct_core e" "ct_core (raise_alarm ou code w e) = ct_core e" for msg e code w
      by (rule core_of_mixing [OF talks_mixing [OF broadcast_talks]], rule core_of_mixing [OF alarm_mixing])
    then show ?thesis by (simp add: tick_meters_def Let_def note_hil_def split: option.split)
  qed
  have s: "view_ok enc co j d \<Longrightarrow> view_ok enc co j (tick_status ou d)" for enc co j d
  proof -
    assume v: "view_ok enc co j d"
    have "view_ok enc co j (fst (next_status ou (d\<lparr>ct_last_status := ou_now ou\<rparr>)))"
      using v view_fields [of "fst (next_status ou (d\<lparr>ct_last_status := ou_now ou\<rparr>))" d] by (simp add: next_status_def)
    then show ?thesis using v by (simp add: tick_status_def case_prod_beta vw.broadcasts)
  qed
  have sc: "ct_core (tick_status ou d) = ct_core d" for d
    using core_of_mixing [OF talks_mixing [OF broadcast_talks]] by (simp add: tick_status_def case_prod_beta next_status_def)
  have "calm (ou_encodes ou) (Suc (Suc n)) ?c3"
    by (rule quiet_calm [OF quiet_calm [OF f m tick_meters_keeps mc] s tick_status_keeps sc])
  then have "calm (ou_encodes ou) n (tick_deadline ou (tick_solos lm ou ?c3))"
    by (intro tick_deadline_calm tick_solos_calm)
  moreover have "calm (ou_encodes ou) n (tick_save ou d)" if "calm (ou_encodes ou) n d" for d
    by (rule quiet_calm [OF that _ tick_save_keeps]) (auto simp: tick_save_def vw.save_state core_of_mixing [OF save_mixing])
  ultimately show ?thesis using tick_goes_on [OF assms(2)] by simp
qed

subsection \<open>Runs\<close>

text \<open>
  A run of the engine as \<^const>\<open>engine_runs\<close> has it, that counts the revisions it may have spent (one
  for a message, two for a tick) and in which connections get fresh numbers and messages encode as
  \<open>enc\<close> says.
\<close>

inductive serves :: "libm \<Rightarrow> (engine_msg \<Rightarrow> bool) \<Rightarrow> control \<times> processor \<Rightarrow> nat \<Rightarrow> control \<times> processor \<Rightarrow> bool" for lm enc s0 where
  start: "serves lm enc s0 0 s0"
| message: "serves lm enc s0 n (c, p) \<Longrightarrow> ou_encodes ou = enc \<Longrightarrow> (\<And>i. msg = Connected i \<Longrightarrow> map_of (ct_peers c) i = None) \<Longrightarrow>
    c' = handle lm ou msg c \<Longrightarrow> serves lm enc s0 (n + 1) (c', p\<lparr>pr_cmds := ct_ring c'\<rparr>)"
| beat: "serves lm enc s0 n (c, p) \<Longrightarrow> ou_encodes ou = enc \<Longrightarrow> tick lm ou polls final c = (c', None) \<Longrightarrow>
    serves lm enc s0 (n + 2) (c', p\<lparr>pr_cmds := ct_ring c'\<rparr>)"
| block: "serves lm enc s0 n (c, p) \<Longrightarrow> process lm (p, b) = Some (p', b') \<Longrightarrow>
    serves lm enc s0 n (c\<lparr>ct_ring := pr_cmds p'\<rparr>, p')"
| talk: "serves lm enc s0 n (c, p) \<Longrightarrow> serves lm enc s0 n (c, p\<lparr>pr_talk := pr_talk p @ xs\<rparr>)"
| drain: "serves lm enc s0 n (c, p) \<Longrightarrow> serves lm enc s0 n (c, p\<lparr>pr_taps := taps, pr_probes := probes\<rparr>)"
| gap: "serves lm enc s0 n (c, p) \<Longrightarrow> serves lm enc s0 n (c, discontinuity p)"

lemma serves_engine_runs: "serves lm enc s0 n s \<Longrightarrow> engine_runs lm s0 s"
proof (induction rule: serves.induct)
  case (message n c p ou msg c')
  then show ?case by (blast intro: engine_runs.handled)
qed (auto intro: engine_runs.intros)

lemma serves_calm:
  "serves lm enc s0 n s \<Longrightarrow> calm enc (n + k) (fst s0) \<Longrightarrow> pr_cmds (snd s0) = ct_ring (fst s0) \<Longrightarrow>
     calm enc k (fst s) \<and> pr_cmds (snd s) = ct_ring (fst s)"
proof (induction arbitrary: k rule: serves.induct)
  case (message n c p ou msg c')
  from message.IH [of "Suc k"] message.prems have "calm (ou_encodes ou) (Suc k) c" by (simp add: message.hyps(2))
  from handle_calm [OF this message.hyps(3)] show ?case by (simp add: message.hyps(2,4))
next
  case (beat n c p ou polls final c')
  from beat.IH [of "Suc (Suc k)"] beat.prems have "calm (ou_encodes ou) (Suc (Suc k)) c" by (simp add: beat.hyps(2))
  from tick_calm [OF this beat.hyps(3)] show ?case by (simp add: beat.hyps(2))
next
  case (block n c p b p' b')
  let ?c = "c\<lparr>ct_ring := pr_cmds p'\<rparr>"
  have c: "calm enc k c" "pr_cmds p = ct_ring c" using block.IH block.prems by simp_all
  then have "control_ok ?c" using block_ok [OF _ c(2) block.hyps(2)] by (simp add: calm_def)
  then show ?case using c view_fields [of ?c c] by (simp add: calm_def in_view_def)
qed (auto simp: discontinuity_def restart_fade_def)

lemma boot_calm:
  assumes "topo_wf topo" and "length alarms \<le> MAX_ALARMS" and "unat (ps_rev ps) + n < 2 ^ 64"
  shows "calm enc n (fst (boot lm topo ps fl hil alarms se now))"
    and "pr_cmds (snd (boot lm topo ps fl hil alarms se now)) = ct_ring (fst (boot lm topo ps fl hil alarms se now))"
proof -
  let ?s = "boot lm topo ps fl hil alarms se now"
  have "control_ok (fst ?s)" and "pr_cmds (snd ?s) = ct_ring (fst ?s)"
    using boot_coupled [OF assms(1,2), of lm ps fl hil se now] by (simp_all add: coupled_def)
  moreover have "ct_peers (fst ?s) = []" "ct_deeds (fst ?s) = []" "co_rev (ct_core (fst ?s)) = ps_rev ps"
    by (simp_all add: boot_def Let_def control_new_def with_hil_def core_new_def)
  ultimately show "calm enc n (fst ?s)" "pr_cmds (snd ?s) = ct_ring (fst ?s)"
    using assms(3) by (simp_all add: calm_def in_view_def view_ok_def mirror_of_def mirror_default_def greeted_def)
qed

lemma demo_serves: "serves demo_libm (\<lambda>_. True) demo_boot 3 (demo_listening, (snd demo_boot)\<lparr>pr_cmds := ct_ring demo_listening\<rparr>)"
proof -
  let ?c = "handle demo_libm demo_outside (Connected 1) (fst demo_boot)" and ?p = "snd demo_boot"
  have e: "ou_encodes demo_outside = (\<lambda>_. True)" by (simp add: demo_outside_def)
  have "serves demo_libm (\<lambda>_. True) demo_boot 0 (fst demo_boot, ?p)" using serves.start by simp
  from serves.message [OF this e, of "Connected 1" ?c] have "serves demo_libm (\<lambda>_. True) demo_boot 1 (?c, ?p\<lparr>pr_cmds := ct_ring ?c\<rparr>)"
    by (simp add: demo_boot_empty)
  from serves.message [OF this e _ demo_greeted_def]
  have "serves demo_libm (\<lambda>_. True) demo_boot (1 + 1) (demo_greeted, ?p\<lparr>pr_cmds := ct_ring demo_greeted\<rparr>)" by simp
  from serves.message [OF this e _ demo_listening_def] show ?thesis by (simp add: numeral_3_eq_3)
qed

lemma demo_peers:
  "ct_peers (write_msg demo_outside i msg c) = ct_peers c" "ct_peers (broadcast demo_outside msg c) = ct_peers c"
proof -
  show w: "ct_peers (write_msg demo_outside i msg c) = ct_peers c" for i c
    by (simp add: write_msg_def demo_outside_def did_def split: option.split)
  have "ct_peers (fold (\<lambda>i. write_msg demo_outside i msg) is c) = ct_peers c" for "is"
    by (induction "is" arbitrary: c) (simp_all add: w)
  then show "ct_peers (broadcast demo_outside msg c) = ct_peers c" by (simp add: broadcast_def)
qed

lemma demo_still_greeted: "greeted 1 demo_listening"
proof -
  have sv: "ct_peers (send_msg demo_outside i msg c) = ct_peers c" for i msg c by (simp add: send_msg_def demo_peers)
  have al: "ct_peers (raise_alarm demo_outside code d c) = ct_peers c" for code d c
    by (simp add: raise_alarm_def Let_def demo_peers)
  have "ct_peers (perform demo_outside i e c) = ct_peers c" for i e c
    by (simp add: perform_def sv Let_def demo_peers save_def al did_def split: effect.split sum.split option.split)
  moreover have "ct_peers (publish demo_outside out origin c) = ct_peers c" for out origin c
    by (simp add: publish_def Let_def demo_peers flush_rt_frame)
  ultimately have "ct_peers (frame_request demo_libm demo_outside i r rq origin cmd c) = ct_peers c" for i r rq origin cmd c
    by (simp add: frame_request_def reply_msg_def sv note_cmd_fields split: option.split prod.split sum.split)
  then show ?thesis using demo_controls(1) by (simp add: demo_listening_def greeted_def handle_def frame_def)
qed

subsection \<open>Property\<close>

text \<open>
  C9. The server's mirror shows the engine's state: from the start of the engine, through any
  messages, ticks and audio blocks (with fresh connection numbers, and fewer steps than the 64-bit
  revision has room for), the mirror fed with what a connection was sent is only synced while the
  connection is greeted, is never ahead of the core, and whenever it is at the core's revision it
  shows exactly the core's values, solos, listen slots and test signal, although it only ever saw
  one whole state and the changes after it. If no message is too long to encode, the mirror of every
  greeted connection is at the core's revision after every step.
\<close>

theorem mirror_follows_core:
  assumes "compile sha site = Inr topo" and "length alarms \<le> MAX_ALARMS" and "unat (ps_rev ps) + n < 2 ^ 64"
    and "serves lm enc (boot lm topo ps fl hil alarms se now) n (c, p)"
  shows "(mi_synced (mirror_of i c) \<longrightarrow> greeted i c \<and> mi_rev (mirror_of i c) \<le> co_rev (ct_core c) \<and>
      (mi_rev (mirror_of i c) = co_rev (ct_core c) \<longrightarrow>
         mi_state (mirror_of i c) = core_state (ct_core c) \<and>
         (\<forall>m. mirror_solo (mirror_of i c) m = solo_in (core_transient (ct_core c)) m) \<and>
         tr_listen (mi_transient (mirror_of i c)) = tr_listen (core_transient (ct_core c)) \<and>
         tr_test_signal (mi_transient (mirror_of i c)) = tr_test_signal (core_transient (ct_core c)))) \<and>
    ((\<forall>msg. enc msg) \<and> greeted i c \<longrightarrow> mi_synced (mirror_of i c) \<and> mi_rev (mirror_of i c) = co_rev (ct_core c))"
proof -
  have "calm enc 0 c"
    using serves_calm [OF assms(4), of 0] boot_calm [OF compile_wf [OF assms(1)] assms(2,3)] by simp
  then have "view_ok enc (ct_core c) i c" by (simp add: calm_def in_view_def)
  then show ?thesis by (auto simp: view_ok_def showing_of_def shown_def)
qed

theorem mirror_follows_core_witness:
  "greeted 1 demo_listening \<and> mi_synced (mirror_of 1 demo_listening) \<and>
   mi_state (mirror_of 1 demo_listening) = core_state (ct_core demo_listening) \<and>
   tr_listen (mi_transient (mirror_of 1 demo_listening)) = tr_listen (core_transient (ct_core demo_listening))"
proof -
  have "unat (ps_rev demo_persisted) + 3 < 2 ^ 64" by (simp add: demo_persisted_def)
  from mirror_follows_core [OF demo_compiles _ this demo_serves [unfolded demo_boot_def], of 1] demo_still_greeted show ?thesis by simp
qed

end
