(* ===== verification/LoginGuard.thy ===== *)
theory LoginGuard
  imports Prelude "HOL-Library.AList"
begin

text \<open>
  Login protection (\<open>iem-server/src/login_guard.rs\<close>): where a request comes from, the three budgets
  of failures that delay an attempt before any hashing, and the gate that bounds the hashing itself.
  A \<open>HashMap\<close> is an association list with distinct keys; which of several oldest entries an eviction
  takes depends on its order. An \<open>Instant\<close> is a number of nanoseconds, and the difference of
  instants saturates at zero as \<open>saturating_duration_since\<close> does.
\<close>

subsection \<open>Constants\<close>

definition secs :: "nat \<Rightarrow> nat" where
  "secs n = n * 10 ^ 9"

definition FREE_FAILURES :: nat where "FREE_FAILURES = 3"
definition STREAK_DECAY :: nat where "STREAK_DECAY = secs (15 * 60)"
definition MAX_DELAY :: nat where "MAX_DELAY = secs 60"
definition CLIENT_WINDOW :: nat where "CLIENT_WINDOW = secs (10 * 60)"
definition CLIENT_WINDOW_FAILURES :: nat where "CLIENT_WINDOW_FAILURES = 20"
definition CLIENT_SPACING :: nat where "CLIENT_SPACING = secs 60"
definition ENGINEER_WINDOW :: nat where "ENGINEER_WINDOW = secs (60 * 60)"
definition ENGINEER_WINDOW_FAILURES :: nat where "ENGINEER_WINDOW_FAILURES = 30"
definition ENGINEER_SPACING :: nat where "ENGINEER_SPACING = secs 5"
definition MAX_TRACKED :: nat where "MAX_TRACKED = 4096"
definition HASH_CONCURRENCY :: nat where "HASH_CONCURRENCY = 2"
definition HASH_QUEUE :: nat where "HASH_QUEUE = 8"

subsection \<open>Clients\<close>

datatype origin = Lan | Tunnel

text \<open>An address: 32 bits, or the eight segments of a version 6 address.\<close>

datatype ip_addr = V4 u32 | V6 u16 u16 u16 u16 u16 u16 u16 u16

record client_key =
  ck_origin :: origin
  ck_ip :: ip_addr

text \<open>\<open>IpAddr::to_canonical\<close>: an IPv4-mapped version 6 address is its version 4 address.\<close>

fun to_canonical :: "ip_addr \<Rightarrow> ip_addr" where
  "to_canonical (V4 a) = V4 a"
| "to_canonical (V6 a b c d e f g h) =
     (if (a, b, c, d, e) = (0, 0, 0, 0, 0) \<and> f = 0xffff
      then V4 (word_of_nat (unat g * 2 ^ 16 + unat h)) else V6 a b c d e f g h)"

fun is_loopback :: "ip_addr \<Rightarrow> bool" where
  "is_loopback (V4 a) = (unat a div 2 ^ 24 = 127)"
| "is_loopback (V6 a b c d e f g h) = ((a, b, c, d, e, f, g, h) = (0, 0, 0, 0, 0, 0, 0, 1))"

definition budget_ip :: "ip_addr \<Rightarrow> ip_addr" where
  "budget_ip ip =
     (case to_canonical ip of
        V6 a b c d _ _ _ _ \<Rightarrow> V6 a b c d 0 0 0 0
      | v4 \<Rightarrow> v4)"

text \<open>\<open>HostAddrs\<close> as the addresses it was made of; its \<open>Default\<close> is the empty list.\<close>

type_synonym host_addrs = "ip_addr list"

definition host_new :: "ip_addr list \<Rightarrow> host_addrs" where
  "host_new addrs = map to_canonical addrs"

definition host_contains :: "host_addrs \<Rightarrow> ip_addr \<Rightarrow> bool" where
  "host_contains host peer = (let peer = to_canonical peer in is_loopback peer \<or> peer \<in> set host)"

text \<open>\<open>cf\<close> is the address the \<open>CF-Connecting-IP\<close> header parses to, if there is such a header.\<close>

definition from_request :: "ip_addr \<Rightarrow> ip_addr option \<Rightarrow> host_addrs \<Rightarrow> client_key" where
  "from_request peer cf host =
     (let peer = to_canonical peer
      in case (if host_contains host peer then cf else None) of
           Some ip \<Rightarrow> \<lparr>ck_origin = Tunnel, ck_ip = budget_ip ip\<rparr>
         | None \<Rightarrow> \<lparr>ck_origin = Lan, ck_ip = budget_ip peer\<rparr>)"

subsection \<open>The budgets\<close>

datatype failure_effect = Counted | EngineerBudgetExhausted

record login_stats =
  ls_lan_failures :: u64
  ls_tunnel_failures :: u64
  ls_engineer_budget_trips :: u64

record streak =
  sk_failures :: nat
  sk_last_failure :: nat

record origin_budget =
  ob_failures :: "nat list"
  ob_last_admitted :: "nat option"

type_synonym member_id = string
type_synonym streak_map = "((client_key \<times> member_id) \<times> streak) list"
type_synonym client_map = "(client_key \<times> nat list) list"

record guard =
  lg_streaks :: streak_map
  lg_clients :: client_map
  lg_lan :: origin_budget
  lg_tunnel :: origin_budget
  lg_stats :: login_stats

definition guard_new :: guard where
  "guard_new =
     \<lparr>lg_streaks = [], lg_clients = [], lg_lan = \<lparr>ob_failures = [], ob_last_admitted = None\<rparr>,
      lg_tunnel = \<lparr>ob_failures = [], ob_last_admitted = None\<rparr>,
      lg_stats = \<lparr>ls_lan_failures = 0, ls_tunnel_failures = 0, ls_engineer_budget_trips = 0\<rparr>\<rparr>"

definition origin_of :: "origin \<Rightarrow> guard \<Rightarrow> origin_budget" where
  "origin_of o' g = (case o' of Lan \<Rightarrow> lg_lan g | Tunnel \<Rightarrow> lg_tunnel g)"

definition origin_mut :: "origin \<Rightarrow> origin_budget \<Rightarrow> guard \<Rightarrow> guard" where
  "origin_mut o' b g = (case o' of Lan \<Rightarrow> g\<lparr>lg_lan := b\<rparr> | Tunnel \<Rightarrow> g\<lparr>lg_tunnel := b\<rparr>)"

definition streak_delay :: "nat \<Rightarrow> nat" where
  "streak_delay failures =
     (if failures < FREE_FAILURES then 0
      else let exponent = failures - FREE_FAILURES
           in if 6 \<le> exponent then MAX_DELAY else min (secs (2 ^ exponent)) MAX_DELAY)"

fun prune_window :: "nat \<Rightarrow> nat \<Rightarrow> nat list \<Rightarrow> nat list" where
  "prune_window now span [] = []"
| "prune_window now span (oldest # w) = (if span \<le> now - oldest then prune_window now span w else oldest # w)"

text \<open>\<open>push_back\<close>, and \<open>pop_front\<close> once the window is longer than \<open>cap\<close>.\<close>

definition push_window :: "nat \<Rightarrow> nat \<Rightarrow> nat list \<Rightarrow> nat list" where
  "push_window cap now w = (let w = w @ [now] in if cap < length w then tl w else w)"

text \<open>\<open>Iterator::min_by_key\<close>: the first of the least entries.\<close>

fun min_by_key :: "('a \<Rightarrow> nat) \<Rightarrow> 'a list \<Rightarrow> 'a option" where
  "min_by_key f [] = None"
| "min_by_key f (x # xs) =
     (case min_by_key f xs of
        None \<Rightarrow> Some x
      | Some y \<Rightarrow> if f x \<le> f y then Some x else Some y)"

definition evict_oldest_streak :: "streak_map \<Rightarrow> streak_map" where
  "evict_oldest_streak m =
     (case min_by_key (\<lambda>(_, s). sk_last_failure s) m of
        Some (k, _) \<Rightarrow> AList.delete k m
      | None \<Rightarrow> m)"

text \<open>An empty window (\<open>back\<close> is \<open>None\<close>) comes before every other.\<close>

definition back_rank :: "nat list \<Rightarrow> nat" where
  "back_rank w = (if w = [] then 0 else Suc (last w))"

definition evict_oldest_client :: "client_map \<Rightarrow> client_map" where
  "evict_oldest_client m =
     (case min_by_key (\<lambda>(_, w). back_rank w) m of
        Some (k, _) \<Rightarrow> AList.delete k m
      | None \<Rightarrow> m)"

subsection \<open>Admission\<close>

text \<open>The three stages of \<open>check\<close>; each may answer the time to wait.\<close>

definition check_streak :: "client_key \<Rightarrow> member_id \<Rightarrow> nat \<Rightarrow> guard \<Rightarrow> guard \<times> nat option" where
  "check_streak client member now g =
     (case map_of (lg_streaks g) (client, member) of
        None \<Rightarrow> (g, None)
      | Some streak \<Rightarrow>
          (let since = now - sk_last_failure streak
           in if STREAK_DECAY \<le> since then (g\<lparr>lg_streaks := AList.delete (client, member) (lg_streaks g)\<rparr>, None)
              else let delay = streak_delay (sk_failures streak)
                   in (g, if since < delay then Some (delay - since) else None)))"

definition check_client :: "client_key \<Rightarrow> nat \<Rightarrow> guard \<Rightarrow> guard \<times> nat option" where
  "check_client client now g =
     (case map_of (lg_clients g) client of
        None \<Rightarrow> (g, None)
      | Some w \<Rightarrow>
          (let window = prune_window now CLIENT_WINDOW w;
               g' = g\<lparr>lg_clients := AList.update client window (lg_clients g)\<rparr>
           in if CLIENT_WINDOW_FAILURES \<le> length window
              then let since = now - last window
                   in (g', if since < CLIENT_SPACING then Some (CLIENT_SPACING - since) else None)
              else (g', None)))"

definition check_origin :: "client_key \<Rightarrow> nat \<Rightarrow> guard \<Rightarrow> guard \<times> nat option" where
  "check_origin client now g =
     (let b = origin_of (ck_origin client) g;
          budget = b\<lparr>ob_failures := prune_window now ENGINEER_WINDOW (ob_failures b)\<rparr>;
          wait = (case ob_last_admitted budget of
                    Some last' \<Rightarrow>
                      if ENGINEER_WINDOW_FAILURES < length (ob_failures budget) \<and> now - last' < ENGINEER_SPACING
                      then Some (ENGINEER_SPACING - (now - last')) else None
                  | None \<Rightarrow> None)
      in case wait of
           Some w \<Rightarrow> (origin_mut (ck_origin client) budget g, Some w)
         | None \<Rightarrow> (origin_mut (ck_origin client) (budget\<lparr>ob_last_admitted := Some now\<rparr>) g, None))"

definition check :: "client_key \<Rightarrow> member_id \<Rightarrow> nat \<Rightarrow> guard \<Rightarrow> guard \<times> (nat + unit)" where
  "check client member now g =
     (case check_streak client member now g of
        (g1, Some w) \<Rightarrow> (g1, Inl w)
      | (g1, None) \<Rightarrow>
          (case check_client client now g1 of
             (g2, Some w) \<Rightarrow> (g2, Inl w)
           | (g2, None) \<Rightarrow>
               (case check_origin client now g2 of
                  (g3, Some w) \<Rightarrow> (g3, Inl w)
                | (g3, None) \<Rightarrow> (g3, Inr ()))))"

subsection \<open>Results of attempts\<close>

text \<open>\<open>u32::saturating_add(1)\<close>.\<close>

definition sat_suc32 :: "nat \<Rightarrow> nat" where
  "sat_suc32 n = min (n + 1) (2 ^ 32 - 1)"

definition next_streak :: "streak option \<Rightarrow> nat \<Rightarrow> streak" where
  "next_streak s now =
     \<lparr>sk_failures = (case s of
                       Some streak \<Rightarrow> if now - sk_last_failure streak < STREAK_DECAY then sat_suc32 (sk_failures streak) else 1
                     | None \<Rightarrow> 1),
      sk_last_failure = now\<rparr>"

definition count_streak :: "client_key \<Rightarrow> member_id \<Rightarrow> nat \<Rightarrow> guard \<Rightarrow> guard" where
  "count_streak client member now g =
     (let key = (client, member); m = lg_streaks g; new = next_streak (map_of m key) now;
          m1 = (if map_of m key = None \<and> MAX_TRACKED \<le> length m then evict_oldest_streak m else m)
      in g\<lparr>lg_streaks := AList.update key new m1\<rparr>)"

definition count_client :: "client_key \<Rightarrow> nat \<Rightarrow> guard \<Rightarrow> guard" where
  "count_client client now g =
     (let m = lg_clients g;
          m1 = (if map_of m client = None \<and> MAX_TRACKED \<le> length m then evict_oldest_client m else m);
          w = (case map_of m1 client of Some w \<Rightarrow> w | None \<Rightarrow> []);
          window = push_window CLIENT_WINDOW_FAILURES now (prune_window now CLIENT_WINDOW w)
      in g\<lparr>lg_clients := AList.update client window m1\<rparr>)"

definition count_stats :: "client_key \<Rightarrow> guard \<Rightarrow> guard" where
  "count_stats client g =
     (let st = lg_stats g
      in g\<lparr>lg_stats := (case ck_origin client of
             Lan \<Rightarrow> st\<lparr>ls_lan_failures := ls_lan_failures st + 1\<rparr>
           | Tunnel \<Rightarrow> st\<lparr>ls_tunnel_failures := ls_tunnel_failures st + 1\<rparr>)\<rparr>)"

definition count_origin :: "client_key \<Rightarrow> nat \<Rightarrow> guard \<Rightarrow> guard \<times> failure_effect" where
  "count_origin client now g =
     (let b = origin_of (ck_origin client) g; w = prune_window now ENGINEER_WINDOW (ob_failures b); before = length w;
          g1 = origin_mut (ck_origin client) (b\<lparr>ob_failures := push_window (ENGINEER_WINDOW_FAILURES + 1) now w\<rparr>) g
      in if before = ENGINEER_WINDOW_FAILURES
         then (g1\<lparr>lg_stats := (lg_stats g1)\<lparr>ls_engineer_budget_trips := ls_engineer_budget_trips (lg_stats g1) + 1\<rparr>\<rparr>,
               EngineerBudgetExhausted)
         else (g1, Counted))"

definition record_failure :: "client_key \<Rightarrow> member_id \<Rightarrow> nat \<Rightarrow> guard \<Rightarrow> guard \<times> failure_effect" where
  "record_failure client member now g =
     count_origin client now (count_stats client (count_client client now (count_streak client member now g)))"

definition record_success :: "client_key \<Rightarrow> member_id \<Rightarrow> guard \<Rightarrow> guard" where
  "record_success client member g = g\<lparr>lg_streaks := AList.delete (client, member) (lg_streaks g)\<rparr>"

subsection \<open>The gate of the hashing\<close>

text \<open>
  The semaphore's free permits and the waiters. \<open>acquire\<close> takes a permit, queues or gives up at once;
  a waiter gets a permit when one is free, or leaves when its client is gone.
\<close>

record hash_gate =
  hg_permits :: nat
  hg_waiting :: nat
  hg_max_waiting :: nat

definition gate_new :: "nat \<Rightarrow> nat \<Rightarrow> hash_gate" where
  "gate_new concurrency max_waiting = \<lparr>hg_permits = concurrency, hg_waiting = 0, hg_max_waiting = max_waiting\<rparr>"

datatype gate_answer = Permit | Queued | Full

definition gate_acquire :: "hash_gate \<Rightarrow> hash_gate \<times> gate_answer" where
  "gate_acquire g =
     (if 0 < hg_permits g then (g\<lparr>hg_permits := hg_permits g - 1\<rparr>, Permit)
      else if hg_max_waiting g \<le> hg_waiting g then (g, Full)
      else (g\<lparr>hg_waiting := hg_waiting g + 1\<rparr>, Queued))"

definition gate_serve :: "hash_gate \<Rightarrow> hash_gate option" where
  "gate_serve g =
     (if 0 < hg_permits g \<and> 0 < hg_waiting g
      then Some (g\<lparr>hg_permits := hg_permits g - 1, hg_waiting := hg_waiting g - 1\<rparr>) else None)"

definition gate_cancel :: "hash_gate \<Rightarrow> hash_gate" where
  "gate_cancel g = g\<lparr>hg_waiting := hg_waiting g - 1\<rparr>"

definition gate_release :: "hash_gate \<Rightarrow> hash_gate" where
  "gate_release g = g\<lparr>hg_permits := hg_permits g + 1\<rparr>"

end
