(* ===== verification/SiteConfig.thy ===== *)
theory SiteConfig
  imports LoginGuard Topology "HOL-Library.Sublist"
begin

text \<open>
  The server's part of the site file (\<open>iem-core/src/config.rs\<close>): its fields with their defaults and
  every check with its message. TOML is third-party: a configuration is the value it parses to.
  Strings are their UTF-8 bytes. How the standard library reads an address from text is the parameter
  \<open>parse_ip\<close> where it matters (the loopback exception of a test double's URL).
\<close>

subsection \<open>Text\<close>

definition is_ascii_lower :: "char \<Rightarrow> bool" where
  "is_ascii_lower c = (97 \<le> (of_char c :: nat) \<and> (of_char c :: nat) \<le> 122)"

definition is_ascii_upper :: "char \<Rightarrow> bool" where
  "is_ascii_upper c = (65 \<le> (of_char c :: nat) \<and> (of_char c :: nat) \<le> 90)"

definition is_ascii_digit :: "char \<Rightarrow> bool" where
  "is_ascii_digit c = (48 \<le> (of_char c :: nat) \<and> (of_char c :: nat) \<le> 57)"

definition is_ascii_alphanumeric :: "char \<Rightarrow> bool" where
  "is_ascii_alphanumeric c = (is_ascii_lower c \<or> is_ascii_upper c \<or> is_ascii_digit c)"

definition is_ascii_graphic :: "char \<Rightarrow> bool" where
  "is_ascii_graphic c = (33 \<le> (of_char c :: nat) \<and> (of_char c :: nat) \<le> 126)"

definition to_ascii_lower :: "char \<Rightarrow> char" where
  "to_ascii_lower c = (if is_ascii_upper c then char_of (of_char c + 32 :: nat) else c)"

definition strip_prefix :: "string \<Rightarrow> string \<Rightarrow> string option" where
  "strip_prefix p s = (if prefix p s then Some (drop (length p) s) else None)"

definition starts_with :: "char \<Rightarrow> string \<Rightarrow> bool" where
  "starts_with c s = (s \<noteq> [] \<and> hd s = c)"

definition ends_with :: "char \<Rightarrow> string \<Rightarrow> bool" where
  "ends_with c s = (s \<noteq> [] \<and> last s = c)"

definition split_once :: "char \<Rightarrow> string \<Rightarrow> (string \<times> string) option" where
  "split_once c s =
     (if c \<in> set s then Some (takeWhile (\<lambda>x. x \<noteq> c) s, tl (dropWhile (\<lambda>x. x \<noteq> c) s)) else None)"

definition rsplit_once :: "char \<Rightarrow> string \<Rightarrow> (string \<times> string) option" where
  "rsplit_once c s = map_option (\<lambda>(a, b). (rev b, rev a)) (split_once c (rev s))"

fun split_at :: "char \<Rightarrow> string \<Rightarrow> string list" where
  "split_at c [] = [[]]"
| "split_at c (x # s) =
     (if x = c then [] # split_at c s else (case split_at c s of p # ps \<Rightarrow> (x # p) # ps | [] \<Rightarrow> [[x]]))"

fun join :: "string \<Rightarrow> string list \<Rightarrow> string" where
  "join sep [] = []"
| "join sep [s] = s"
| "join sep (s # t # ss) = s @ sep @ join sep (t # ss)"

definition in_quotes :: "string \<Rightarrow> string" where
  "in_quotes s = CHR 0x27 # s @ [CHR 0x27]"

text \<open>\<open>parse::<u16>\<close> of a text of digits.\<close>

definition decimal :: "string \<Rightarrow> nat" where
  "decimal s = fold (\<lambda>c n. 10 * n + (of_char c - 48)) s 0"

definition parses_u16 :: "string \<Rightarrow> bool" where
  "parses_u16 s = (s \<noteq> [] \<and> list_all is_ascii_digit s \<and> decimal s < 2 ^ 16)"

text \<open>A message that is pushed when a condition holds.\<close>

definition flag :: "bool \<Rightarrow> string \<Rightarrow> string list" where
  "flag b msg = (if b then [msg] else [])"

lemma flag_empty [simp]: "flag b msg = [] \<longleftrightarrow> \<not> b"
  by (simp add: flag_def)

subsection \<open>Checks of single values\<close>

definition CATEGORIES :: "string list" where
  "CATEGORIES = [''mics'', ''stems'', ''tech'']"

definition valid_frame_origin :: "string \<Rightarrow> bool" where
  "valid_frame_origin origin =
     (case strip_prefix ''https://'' origin of
        None \<Rightarrow> False
      | Some rest \<Rightarrow>
          (let (host, port) = (case rsplit_once (CHR '':'') rest of Some (h, p) \<Rightarrow> (h, Some p) | None \<Rightarrow> (rest, None))
           in (host \<noteq> [] \<and> \<not> starts_with (CHR ''.'') host \<and> \<not> ends_with (CHR ''.'') host \<and>
               list_all (\<lambda>c. is_ascii_alphanumeric c \<or> c = CHR ''.'' \<or> c = CHR ''-'') host) \<and>
              (case port of None \<Rightarrow> True | Some p \<Rightarrow> list_all is_ascii_digit p \<and> parses_u16 p)))"

definition LETS_ENCRYPT :: string where
  "LETS_ENCRYPT = ''https://acme-v02.api.letsencrypt.org/directory''"

definition DEFAULT_PROPAGATION_S :: nat where "DEFAULT_PROPAGATION_S = 20"
definition MAX_PROPAGATION_S :: nat where "MAX_PROPAGATION_S = 600"

definition acme_url_allowed :: "(string \<Rightarrow> ip_addr option) \<Rightarrow> string \<Rightarrow> bool" where
  "acme_url_allowed parse_ip url =
     (case strip_prefix ''https://'' url of
        Some rest \<Rightarrow> rest \<noteq> [] \<and> \<not> starts_with (CHR ''/'') rest
      | None \<Rightarrow>
          (case strip_prefix ''http://'' url of
             None \<Rightarrow> False
           | Some rest \<Rightarrow>
               (let authority = hd (split_at (CHR ''/'') rest)
                in if CHR ''@'' \<in> set authority then False
                   else case (case strip_prefix ''['' authority of
                                Some v6 \<Rightarrow> map_option fst (split_once (CHR '']'') v6)
                              | None \<Rightarrow> Some (hd (split_at (CHR '':'') authority))) of
                          None \<Rightarrow> False
                        | Some host \<Rightarrow>
                            map to_ascii_lower host = ''localhost'' \<or>
                            (case parse_ip host of Some ip \<Rightarrow> is_loopback ip | None \<Rightarrow> False))))"

definition is_dns_name :: "string \<Rightarrow> bool" where
  "is_dns_name name =
     (let labels = split_at (CHR ''.'') name
      in length name \<le> 253 \<and> 2 \<le> length labels \<and>
         list_all (\<lambda>label. 1 \<le> length label \<and> length label \<le> 63 \<and>
           list_all (\<lambda>c. is_ascii_alphanumeric c \<or> c = CHR ''-'') label \<and>
           \<not> starts_with (CHR ''-'') label \<and> \<not> ends_with (CHR ''-'') label) labels)"

definition is_email :: "string \<Rightarrow> bool" where
  "is_email address =
     (case split_once (CHR ''@'') address of
        Some (local', domain) \<Rightarrow>
          local' \<noteq> [] \<and>
          list_all (\<lambda>c. is_ascii_graphic c \<and> c \<notin> {CHR ''@'', CHR ''<'', CHR ''>'', CHR '','', CHR '':''}) local' \<and>
          is_dns_name domain
      | None \<Rightarrow> False)"

definition validate_member_id :: "string \<Rightarrow> string + unit" where
  "validate_member_id s =
     (if s = [] then Inl ''member_id cannot be empty''
      else if \<not> list_all (\<lambda>c. is_ascii_alphanumeric c \<or> c = CHR ''_'' \<or> c = CHR ''-'') s
      then Inl (''member_id '' @ in_quotes s @ '' contains invalid characters (only a-z, A-Z, 0-9, _, - allowed)'')
      else Inr ())"

text \<open>
  A parse error's text: the line, and the message with every second part between quotation marks
  replaced. \<open>start\<close> is where the error's span begins, if it has one.
\<close>

definition ellipsis :: string where
  "ellipsis = map char_of [0xE2, 0x80, 0xA6 :: nat]"

definition config_parse_error :: "string \<Rightarrow> string \<Rightarrow> nat option \<Rightarrow> string" where
  "config_parse_error content message start =
     (let parts = split_at (CHR 0x22) message;
          text = hd parts @ concat (map (\<lambda>(i, part). if i mod 2 = 0 then CHR 0x22 # ellipsis @ [CHR 0x22] else part) (enumerate 0 (tl parts)))
      in case start of
           Some s \<Rightarrow>
             (let before = (if s \<le> length content \<and> is_char_boundary content s then take s content else [])
              in ''line '' @ show_nat (length (filter (\<lambda>c. c = CHR 0x0A) before) + 1) @ '': '' @ text)
         | None \<Rightarrow> text)"

subsection \<open>Data\<close>

record acme_config =
  ac_directory :: string
  ac_contact :: "string option"
  ac_propagation_s :: nat

definition acme_default :: acme_config where
  "acme_default = \<lparr>ac_directory = LETS_ENCRYPT, ac_contact = None, ac_propagation_s = DEFAULT_PROPAGATION_S\<rparr>"

record site_member =
  sb_id :: string
  sb_name :: string
  sb_mix :: string

record site_input_meta =
  sn_id :: string
  sn_name :: string
  sn_category :: "string option"
  sn_owner :: "string option"

record config =
  cf_port :: u16
  cf_engine_pipe :: string
  cf_members :: "site_member list"
  cf_inputs :: "site_input_meta list"
  cf_jwt_secret :: string
  cf_vapid_private_key :: string
  cf_tls :: bool
  cf_https_port :: u16
  cf_tls_cert :: string
  cf_tls_key :: string
  cf_https_domain :: "string option"
  cf_local_public_ip :: "string option"
  cf_lan_url :: "string option"
  cf_frame_ancestors :: "string list"
  cf_acme :: "acme_config option"
  cf_vapid_subject :: string
  cf_backup_schedule :: "string list"
  cf_backup_retention_days :: u32
  cf_tunnel_ready_url :: string
  cf_engine :: "site option"

definition config_default :: config where
  "config_default =
     \<lparr>cf_port = 80, cf_engine_pipe = ''iemmixer-engine'', cf_members = [], cf_inputs = [], cf_jwt_secret = [],
      cf_vapid_private_key = [], cf_tls = False, cf_https_port = 443, cf_tls_cert = ''cert.pem'', cf_tls_key = ''key.pem'',
      cf_https_domain = None, cf_local_public_ip = None, cf_lan_url = None, cf_frame_ancestors = [], cf_acme = None,
      cf_vapid_subject = ''mailto:admin@example.org'', cf_backup_schedule = [''13:00'', ''21:00''],
      cf_backup_retention_days = 60, cf_tunnel_ready_url = ''http://127.0.0.1:20241/ready'', cf_engine = None\<rparr>"

subsection \<open>Problems\<close>

fun member_problems :: "string set \<Rightarrow> site_member list \<Rightarrow> string list" where
  "member_problems ids [] = []"
| "member_problems ids (m # ms) =
     (case validate_member_id (sb_id m) of
        Inl e \<Rightarrow> [e]
      | Inr _ \<Rightarrow> flag (list_ex is_ascii_upper (sb_id m)) (''member id '' @ in_quotes (sb_id m) @ '' must be lower case'')) @
     flag (sb_id m \<in> ids) (''member '' @ in_quotes (sb_id m) @ '' is listed twice'') @
     flag (\<not> valid_id (sb_mix m)) (''member '' @ in_quotes (sb_id m) @ '': '' @ in_quotes (sb_mix m) @ '' is not a mix id'') @
     member_problems (insert (sb_id m) ids) ms"

fun input_meta_problems :: "string set \<Rightarrow> string set \<Rightarrow> site_input_meta list \<Rightarrow> string list" where
  "input_meta_problems ids inputs [] = []"
| "input_meta_problems ids inputs (i # is) =
     flag (\<not> valid_id (sn_id i)) (''input '' @ in_quotes (sn_id i) @ '' is not an input id'') @
     flag (sn_id i \<in> inputs) (''input '' @ in_quotes (sn_id i) @ '' is listed twice'') @
     (case sn_category i of
        Some c \<Rightarrow> flag (c \<notin> set CATEGORIES)
          (''input '' @ in_quotes (sn_id i) @ '': category '' @ in_quotes c @ '' is not one of '' @ join '', '' CATEGORIES)
      | None \<Rightarrow> []) @
     (case sn_owner i of
        Some ow \<Rightarrow> flag (ow \<notin> ids) (''input '' @ in_quotes (sn_id i) @ '': owner '' @ in_quotes ow @ '' is not a member'')
      | None \<Rightarrow> []) @
     input_meta_problems ids (insert (sn_id i) inputs) is"

definition acme_problems :: "(string \<Rightarrow> ip_addr option) \<Rightarrow> config \<Rightarrow> acme_config \<Rightarrow> string list" where
  "acme_problems parse_ip cf acme =
     flag (\<not> cf_tls cf) ''[acme] needs tls = true: the certificate is for the HTTPS listener'' @
     (case cf_https_domain cf of
        None \<Rightarrow> [''[acme] needs https_domain: the certificate is for that name'']
      | Some name \<Rightarrow> flag (\<not> is_dns_name name)
          (''[acme] https_domain '' @ in_quotes name @ '' is not a DNS name like mixer.example.org'')) @
     flag (\<not> acme_url_allowed parse_ip (ac_directory acme)) (''[acme] directory '' @ in_quotes (ac_directory acme) @ '' is not an https URL'') @
     (case ac_contact acme of
        Some contact \<Rightarrow> flag (\<not> is_email contact)
          (''[acme] contact '' @ in_quotes contact @ '' is not an address like owner@example.org'')
      | None \<Rightarrow> []) @
     flag (MAX_PROPAGATION_S < ac_propagation_s acme)
       (''[acme] propagation_s '' @ show_nat (ac_propagation_s acme) @ '' is above '' @ show_nat MAX_PROPAGATION_S)"

definition config_problems :: "(string \<Rightarrow> ip_addr option) \<Rightarrow> config \<Rightarrow> string list" where
  "config_problems parse_ip cf =
     member_problems {} (cf_members cf) @
     input_meta_problems (set (map sb_id (cf_members cf))) {} (cf_inputs cf) @
     concat (map (\<lambda>a. flag (\<not> valid_frame_origin a)
       (''frame_ancestors: '' @ in_quotes a @ '' is not an https origin (https://host or https://host:port)'')) (cf_frame_ancestors cf)) @
     (case cf_acme cf of Some acme \<Rightarrow> acme_problems parse_ip cf acme | None \<Rightarrow> [])"

definition frame_ancestors_source :: "config \<Rightarrow> string" where
  "frame_ancestors_source cf =
     (if cf_frame_ancestors cf = [] then in_quotes ''none'' else join '' '' (cf_frame_ancestors cf))"

definition config_validate :: "(string \<Rightarrow> ip_addr option) \<Rightarrow> config \<Rightarrow> string + unit" where
  "config_validate parse_ip cf =
     (let ps = config_problems parse_ip cf in if ps = [] then Inr () else Inl (''invalid site: '' @ join ''; '' ps))"

definition config_member :: "config \<Rightarrow> string \<Rightarrow> site_member option" where
  "config_member cf i = find (\<lambda>m. sb_id m = i) (cf_members cf)"

end
