(* ===== verification/Roster.thy ===== *)
theory Roster
  imports SiteConfig
begin

text \<open>
  The roster (\<open>iem-core/src/roster.rs\<close>) and roster mode (\<open>iem-server/src/roster_state.rs\<close>): people,
  the lineups that place them on the site's sets, every check with its message, the members and login
  tiles a lineup gives. Strings are their UTF-8 bytes. Reading TOML is not modelled: a roster is
  the value \<open>Roster::parse\<close> yields; a \<open>BTreeMap\<close> is a key-sorted association list.
\<close>

subsection \<open>Ids and names\<close>

definition ENGINEER :: string where "ENGINEER = ''engineer''"
definition MAX_LINEUP_ID :: nat where "MAX_LINEUP_ID = 32"

definition valid_lineup_id :: "string \<Rightarrow> bool" where
  "valid_lineup_id s =
     (s \<noteq> [] \<and> length s \<le> MAX_LINEUP_ID \<and>
      list_all (\<lambda>c. is_ascii_lower c \<or> is_ascii_digit c \<or> c = CHR ''_'' \<or> c = CHR ''-'') s)"

definition valid_person_id :: "string \<Rightarrow> bool" where
  "valid_person_id s = (validate_member_id s = Inr () \<and> \<not> list_ex is_ascii_upper s)"

text \<open>\<open>trim().is_empty()\<close>: every character is white space (in UTF-8, of one, two or three bytes).\<close>

definition white1 :: "char \<Rightarrow> bool" where
  "white1 c = (of_char c \<in> {9 .. 13 :: nat} \<or> of_char c = (32 :: nat))"

definition white2 :: "char \<Rightarrow> char \<Rightarrow> bool" where
  "white2 c d = (of_char c = (0xC2 :: nat) \<and> of_char d \<in> {0x85, 0xA0 :: nat})"

definition white3 :: "char \<Rightarrow> char \<Rightarrow> char \<Rightarrow> bool" where
  "white3 c d e =
     (let b = (of_char c :: nat, of_char d :: nat, of_char e :: nat)
      in b \<in> {(0xE1, 0x9A, 0x80), (0xE2, 0x81, 0x9F), (0xE3, 0x80, 0x80), (0xE2, 0x80, 0xA8), (0xE2, 0x80, 0xA9), (0xE2, 0x80, 0xAF)} \<or>
         fst b = 0xE2 \<and> fst (snd b) = 0x80 \<and> snd (snd b) \<in> {0x80 .. 0x8A})"

fun is_blank :: "string \<Rightarrow> bool" where
  "is_blank [] = True"
| "is_blank [c] = white1 c"
| "is_blank [c, d] = (if white1 c then is_blank [d] else white2 c d)"
| "is_blank (c # d # e # s) =
     (if white1 c then is_blank (d # e # s)
      else if white2 c d then is_blank (e # s)
      else white3 c d e \<and> is_blank s)"

subsection \<open>Redaction\<close>

fun redact_step :: "char \<Rightarrow> string \<times> char option \<times> bool \<Rightarrow> string \<times> char option \<times> bool" where
  "redact_step c (out, None, escaped) =
     (if c = CHR 0x22 \<or> c = CHR 0x60 then (out @ c # ellipsis @ [c], Some c, escaped) else (out @ [c], None, escaped))"
| "redact_step c (out, Some q, escaped) =
     (if escaped then (out, Some q, False)
      else if c = CHR 0x5C then (out, Some q, True)
      else if c = q then (out, None, escaped)
      else (out, Some q, escaped))"

definition redact :: "string \<Rightarrow> string" where
  "redact message = fst (fold redact_step message ([], None, False))"

definition parse_error :: "string \<Rightarrow> string \<Rightarrow> nat option \<Rightarrow> string" where
  "parse_error text message start =
     (case start of
        Some s \<Rightarrow>
          (let line = length (filter (\<lambda>c. c = CHR 0x0A) (take (min s (length text)) text)) + 1
           in ''line '' @ show_nat line @ '': '' @ redact message)
      | None \<Rightarrow> redact message)"

subsection \<open>Data\<close>

record person =
  pe_id :: string
  pe_name :: string
  pe_takes_over :: "string option"

record lineup_input =
  li_name :: string
  li_owner :: "string option"

record lineup =
  lu_id :: string
  lu_name :: string
  lu_main :: bool
  lu_leaders :: "string list"
  lu_sets :: "(string, string) btree"
  lu_inputs :: "(string, lineup_input) btree"

record equipment =
  eq_sets :: "string list"
  eq_inputs :: "string list"

record roster =
  ro_people :: "person list"
  ro_lineups :: "lineup list"
  ro_equipment :: "equipment option"

record mix_fact =
  mf_id :: string
  mf_stereo :: bool
  mf_hears :: "string list"

record topology_facts =
  tf_mixes :: "mix_fact list"
  tf_inputs :: "string list"
  tf_engineer :: string

subsection \<open>Queries\<close>

definition lineup_set_of :: "lineup \<Rightarrow> string \<Rightarrow> string option" where
  "lineup_set_of l p = map_option fst (find (\<lambda>(_, q). q = p) (lu_sets l))"

definition person_on :: "lineup \<Rightarrow> string \<Rightarrow> string option" where
  "person_on l set' = map_of (lu_sets l) set'"

definition plays :: "lineup \<Rightarrow> string \<Rightarrow> bool" where
  "plays l p = (lineup_set_of l p \<noteq> None)"

definition leads :: "lineup \<Rightarrow> string \<Rightarrow> bool" where
  "leads l p = list_ex (\<lambda>x. x = p) (lu_leaders l)"

definition has_set :: "equipment \<Rightarrow> string \<Rightarrow> bool" where
  "has_set e i = list_ex (\<lambda>s. s = i) (eq_sets e)"

definition has_input :: "equipment \<Rightarrow> string \<Rightarrow> bool" where
  "has_input e i = list_ex (\<lambda>s. s = i) (eq_inputs e)"

definition roster_person :: "roster \<Rightarrow> string \<Rightarrow> person option" where
  "roster_person r i = find (\<lambda>p. pe_id p = i) (ro_people r)"

definition roster_lineup :: "roster \<Rightarrow> string \<Rightarrow> lineup option" where
  "roster_lineup r i = find (\<lambda>l. lu_id l = i) (ro_lineups r)"

text \<open>\<open>main\<close> panics (\<^const>\<open>None\<close>) on a roster without a main lineup.\<close>

definition roster_main :: "roster \<Rightarrow> lineup option" where
  "roster_main r = find lu_main (ro_lineups r)"

definition roster_set_of :: "roster \<Rightarrow> string \<Rightarrow> string \<Rightarrow> string option" where
  "roster_set_of r l p = Option.bind (roster_lineup r l) (\<lambda>l. lineup_set_of l p)"

definition leads_any :: "roster \<Rightarrow> string \<Rightarrow> bool" where
  "leads_any r p = list_ex (\<lambda>l. leads l p) (ro_lineups r)"

subsection \<open>Problems of a roster on its own\<close>

definition quoted :: "string \<Rightarrow> bool \<Rightarrow> nat \<Rightarrow> string" where
  "quoted v valid n = (if valid then in_quotes v else CHR ''#'' # show_nat n)"

definition unquoted :: "string \<Rightarrow> bool \<Rightarrow> nat \<Rightarrow> string" where
  "unquoted v valid n = (if valid then v else CHR ''#'' # show_nat n)"

definition someone :: "string \<Rightarrow> string \<Rightarrow> string" where
  "someone i fallback = (if valid_person_id i then in_quotes i else fallback)"

text \<open>A list with the 1-based positions of its entries.\<close>

definition numbered :: "'a list \<Rightarrow> (nat \<times> 'a) list" where
  "numbered xs = enumerate 1 xs"

definition who_of :: "nat \<Rightarrow> person \<Rightarrow> string" where
  "who_of i p = ''person '' @ quoted (pe_id p) (valid_person_id (pe_id p)) i"

text \<open>The loop over the people; \<open>ids\<close> is the set of the ids seen before.\<close>

fun people_problems :: "string set \<Rightarrow> (nat \<times> person) list \<Rightarrow> string list" where
  "people_problems ids [] = []"
| "people_problems ids ((i, p) # ps) =
     flag (\<not> valid_person_id (pe_id p)) (who_of i p @ '': the id must be lower-case a-z 0-9 _ -, at least one'') @
     flag (pe_id p = ENGINEER) (who_of i p @ '' is the engineer'' @ [CHR 0x27] @ ''s id, never a person'' @ [CHR 0x27] @ ''s'') @
     flag (pe_id p \<in> ids) (who_of i p @ '' is listed twice'') @
     flag (is_blank (pe_name p)) (who_of i p @ '' has no name'') @
     people_problems (insert (pe_id p) ids) ps"

text \<open>\<open>taken\<close> maps an id to the person who last claimed it.\<close>

fun takes_over_problems :: "(string \<rightharpoonup> string) \<Rightarrow> (nat \<times> person) list \<Rightarrow> string list" where
  "takes_over_problems taken [] = []"
| "takes_over_problems taken ((i, p) # ps) =
     (case pe_takes_over p of
        None \<Rightarrow> takes_over_problems taken ps
      | Some t \<Rightarrow>
          if \<not> valid_person_id t \<or> t = pe_id p \<or> t = ENGINEER
          then (who_of i p @ '': takes_over must be another member'' @ [CHR 0x27] @ ''s lower-case id'') # takes_over_problems taken ps
          else (case taken t of
                  Some first \<Rightarrow> [''takes_over '' @ in_quotes t @ '' is claimed by both '' @ first @ '' and '' @ who_of i p]
                | None \<Rightarrow> []) @ takes_over_problems (taken(t \<mapsto> who_of i p)) ps)"

fun set_problems :: "string \<Rightarrow> string set \<Rightarrow> string set \<Rightarrow> (nat \<times> string \<times> string) list \<Rightarrow> string list" where
  "set_problems lineup ids placed [] = []"
| "set_problems lineup ids placed ((j, set', p) # rest) =
     (let set_s = ''set '' @ quoted set' (valid_id set') j; wearer = someone p ''its wearer'' in
      flag (p \<notin> ids) (lineup @ '': '' @ set_s @ '': '' @ wearer @ '' is not a person'') @
      flag (p \<in> placed) (lineup @ '': '' @ set_s @ '': '' @ wearer @ '' wears another set too'') @
      set_problems lineup ids (insert p placed) rest)"

definition leader_problems :: "string \<Rightarrow> string set \<Rightarrow> string list \<Rightarrow> string list" where
  "leader_problems lineup placed leaders =
     concat (map (\<lambda>(k, leader). flag (leader \<notin> placed)
       (lineup @ '': leader '' @ quoted leader (valid_person_id leader) k @ '' wears no set of it'')) (numbered leaders))"

definition input_problems :: "string \<Rightarrow> string set \<Rightarrow> (string, lineup_input) btree \<Rightarrow> string list" where
  "input_problems lineup placed inputs =
     concat (map (\<lambda>(k, input, i).
       (let input_s = ''input '' @ quoted input (valid_id input) k in
        flag (is_blank (li_name i)) (lineup @ '': '' @ input_s @ '' has no name'') @
        (case li_owner i of
           Some ow \<Rightarrow> flag (ow \<notin> placed) (lineup @ '': '' @ input_s @ '': owner '' @ someone ow ''its owner'' @ '' wears no set of it'')
         | None \<Rightarrow> []))) (numbered inputs))"

definition equipment_lineup_problems :: "equipment \<Rightarrow> string \<Rightarrow> lineup \<Rightarrow> string list" where
  "equipment_lineup_problems e lineup l =
     concat (map (\<lambda>(j, set'). flag (\<not> has_set e set')
       (lineup @ '': set '' @ quoted set' (valid_id set') j @ '' is not in [equipment] sets'')) (numbered (bm_keys (lu_sets l)))) @
     concat (map (\<lambda>(k, input, i). flag (li_owner i \<noteq> None \<and> \<not> has_input e input)
       (lineup @ '': input '' @ quoted input (valid_id input) k @ '' has an owner and is not in [equipment] inputs''))
       (numbered (lu_inputs l)))"

definition lineup_name_of :: "nat \<Rightarrow> lineup \<Rightarrow> string" where
  "lineup_name_of i l = ''lineup '' @ quoted (lu_id l) (valid_lineup_id (lu_id l)) i"

fun lineups_problems :: "roster \<Rightarrow> string set \<Rightarrow> string set \<Rightarrow> (nat \<times> lineup) list \<Rightarrow> string list" where
  "lineups_problems r ids seen [] = []"
| "lineups_problems r ids seen ((i, l) # ls) =
     (let lineup = lineup_name_of i l; placed = set (map snd (lu_sets l)) in
      flag (\<not> valid_lineup_id (lu_id l)) (lineup @ '': the id must be 1 to '' @ show_nat MAX_LINEUP_ID @ '' of a-z 0-9 _ -'') @
      flag (lu_id l \<in> seen) (lineup @ '' is listed twice'') @
      flag (is_blank (lu_name l)) (lineup @ '' has no name'') @
      flag (lu_main l \<and> lu_sets l = []) (lineup @ '' is main and has no sets'') @
      set_problems lineup ids {} (numbered (lu_sets l)) @
      leader_problems lineup placed (lu_leaders l) @
      input_problems lineup placed (lu_inputs l) @
      (case ro_equipment r of Some e \<Rightarrow> equipment_lineup_problems e lineup l | None \<Rightarrow> []) @
      lineups_problems r ids (insert (lu_id l) seen) ls)"

text \<open>The lists of the equipment; an id counts as seen only when it is valid.\<close>

fun own_problems :: "string \<Rightarrow> string set \<Rightarrow> (nat \<times> string) list \<Rightarrow> string list" where
  "own_problems what seen [] = []"
| "own_problems what seen ((n, i) # rest) =
     (let named = ''[equipment]: '' @ what @ '' '' @ quoted i (valid_id i) n in
      if \<not> valid_id i then (named @ '' is no valid id'') # own_problems what seen rest
      else flag (i \<in> seen) (named @ '' is listed twice'') @ own_problems what (insert i seen) rest)"

definition problems :: "roster \<Rightarrow> string list" where
  "problems r =
     (let ids = set (map pe_id (ro_people r)); mains = length (filter lu_main (ro_lineups r)) in
      flag (ro_people r = []) ''the roster has no people'' @
      people_problems {} (numbered (ro_people r)) @
      takes_over_problems (\<lambda>_. None) (numbered (ro_people r)) @
      lineups_problems r ids {} (numbered (ro_lineups r)) @
      flag (mains \<noteq> 1) (''exactly one lineup must be main, not '' @ show_nat mains) @
      (case ro_equipment r of
         Some e \<Rightarrow> own_problems ''set'' {} (numbered (eq_sets e)) @ own_problems ''input'' {} (numbered (eq_inputs e))
       | None \<Rightarrow> []))"

subsection \<open>Problems against the site\<close>

definition mix_fact_of :: "topology_facts \<Rightarrow> string \<Rightarrow> mix_fact option" where
  "mix_fact_of f i = find (\<lambda>m. mf_id m = i) (tf_mixes f)"

definition is_set :: "topology_facts \<Rightarrow> string \<Rightarrow> bool" where
  "is_set f i = (case mix_fact_of f i of Some m \<Rightarrow> mf_stereo m \<and> mf_id m \<noteq> tf_engineer f | None \<Rightarrow> False)"

definition not_sets :: "topology_facts \<Rightarrow> string \<Rightarrow> string list \<Rightarrow> string list" where
  "not_sets f where' sets =
     concat (map (\<lambda>(j, set'). flag (\<not> is_set f set')
       (where' @ '': set '' @ quoted set' (valid_id set') j @ '' is not a stereo mix of the site other than the engineer'' @ [CHR 0x27] @ ''s''))
       (numbered sets))"

definition not_inputs :: "topology_facts \<Rightarrow> string \<Rightarrow> string list \<Rightarrow> string list" where
  "not_inputs f where' inputs =
     concat (map (\<lambda>(k, input). flag (input \<notin> set (tf_inputs f))
       (where' @ '': input '' @ quoted input (valid_id input) k @ '' is not an input of the site'')) (numbered inputs))"

definition leader_hearing :: "topology_facts \<Rightarrow> nat \<Rightarrow> lineup \<Rightarrow> string list" where
  "leader_hearing f i l =
     (let line = (if valid_lineup_id (lu_id l) then lu_id l else ''lineup #'' @ show_nat i); sets = bm_keys (lu_sets l) in
      concat (map (\<lambda>(k, leader).
        case lineup_set_of l leader of
          None \<Rightarrow> []
        | Some set' \<Rightarrow>
            (let who = unquoted leader (valid_person_id leader) k;
                 n = (case position (\<lambda>s. s = set') sets of Some x \<Rightarrow> x | None \<Rightarrow> 0) + 1;
                 own = unquoted set' (valid_id set') n;
                 hears = (case mix_fact_of f set' of Some m \<Rightarrow> mf_hears m | None \<Rightarrow> []) in
             concat (map (\<lambda>(j, other). flag (other \<noteq> set' \<and> other \<notin> set hears)
               (''leader '' @ who @ '' in '' @ line @ '': set '' @ own @ '' does not hear '' @ unquoted other (valid_id other) j @
                ''; the site needs peers (F30)'')) (numbered sets)))) (numbered (lu_leaders l))))"

definition problems_against :: "roster \<Rightarrow> topology_facts \<Rightarrow> string list" where
  "problems_against r f =
     concat (map (\<lambda>(i, l).
       not_sets f (lineup_name_of i l) (bm_keys (lu_sets l)) @ not_inputs f (lineup_name_of i l) (bm_keys (lu_inputs l)) @
       leader_hearing f i l) (numbered (ro_lineups r))) @
     (case ro_equipment r of
        Some e \<Rightarrow> not_sets f ''[equipment]'' (eq_sets e) @ not_inputs f ''[equipment]'' (eq_inputs e)
      | None \<Rightarrow> [])"

text \<open>The facts of the engine's announced topology, and of the site's \<open>[engine]\<close> table.\<close>

definition facts_of_info :: "topology_info \<Rightarrow> topology_facts" where
  "facts_of_info t =
     \<lparr>tf_mixes = map (\<lambda>m. \<lparr>mf_id = mi_id m, mf_stereo = (mi_channels m = 2), mf_hears = mi_mixes m @ mi_peers m\<rparr>) (ti_mixes t),
      tf_inputs = map ii_id (ti_inputs t), tf_engineer = ti_engineer t\<rparr>"

definition facts_of :: "site \<Rightarrow> topology_facts" where
  "facts_of s =
     \<lparr>tf_mixes = map (\<lambda>m. \<lparr>mf_id = sm_id m, mf_stereo = (length (sm_tx m) = 2), mf_hears = sm_mixes m @ sm_peers m\<rparr>) (st_mixes s),
      tf_inputs = map si_id (st_inputs s), tf_engineer = st_engineer s\<rparr>"

subsection \<open>Roster mode\<close>

record roster_state =
  rs_roster :: roster
  rs_sha256 :: string
  rs_active :: string

text \<open>The active lineup; the main one stands in should the roster not hold it.\<close>

definition state_lineup :: "roster_state \<Rightarrow> lineup option" where
  "state_lineup r =
     (case roster_lineup (rs_roster r) (rs_active r) of Some l \<Rightarrow> Some l | None \<Rightarrow> roster_main (rs_roster r))"

definition is_leader :: "roster_state \<Rightarrow> string \<Rightarrow> bool option" where
  "is_leader r p = map_option (\<lambda>l. leads l p) (state_lineup r)"

record person_view =
  pv_id :: string
  pv_name :: string
  pv_playing :: bool

definition lineup_members :: "roster \<Rightarrow> lineup \<Rightarrow> site_member list" where
  "lineup_members r l =
     List.map_filter (\<lambda>(set', p). map_option (\<lambda>q. \<lparr>sb_id = pe_id q, sb_name = pe_name q, sb_mix = set'\<rparr>) (roster_person r p)) (lu_sets l)"

definition engineer_entry :: "config \<Rightarrow> site_member list" where
  "engineer_entry cf = (case config_member cf ENGINEER of Some m \<Rightarrow> [m] | None \<Rightarrow> [])"

definition site_members :: "config \<Rightarrow> roster_state option \<Rightarrow> site_member list option" where
  "site_members cf roster =
     (case roster of
        None \<Rightarrow> Some (cf_members cf)
      | Some r \<Rightarrow> map_option (\<lambda>l. lineup_members (rs_roster r) l @ engineer_entry cf) (state_lineup r))"

definition person_sets :: "config \<Rightarrow> roster \<Rightarrow> string set" where
  "person_sets cf r =
     (case ro_equipment r of
        Some e \<Rightarrow> set (eq_sets e)
      | None \<Rightarrow> set (map sb_mix (filter (\<lambda>m. sb_id m \<noteq> ENGINEER) (cf_members cf)) @ concat (map (\<lambda>l. bm_keys (lu_sets l)) (ro_lineups r))))"

definition input_owners :: "config \<Rightarrow> roster \<Rightarrow> string \<Rightarrow> string list" where
  "input_owners cf r i =
     (let lineups = List.map_filter (\<lambda>l. Option.bind (map_of (lu_inputs l) i) li_owner) (ro_lineups r)
      in if lineups = [] \<and> ro_equipment r = None
         then List.map_filter sn_owner (filter (\<lambda>m. sn_id m = i) (cf_inputs cf)) else lineups)"

definition foreign_input :: "config \<Rightarrow> roster \<Rightarrow> lineup \<Rightarrow> string \<Rightarrow> bool" where
  "foreign_input cf r l i =
     (if map_of (lu_inputs l) i \<noteq> None then False
      else case ro_equipment r of
             Some e \<Rightarrow> has_input e i
           | None \<Rightarrow> list_ex (\<lambda>ow. ow \<noteq> ENGINEER \<and> \<not> plays l ow) (input_owners cf r i))"

definition tile :: "site_member \<Rightarrow> person_view" where
  "tile m = \<lparr>pv_id = sb_id m, pv_name = sb_name m, pv_playing = True\<rparr>"

definition login_tiles :: "config \<Rightarrow> roster_state option \<Rightarrow> person_view list option" where
  "login_tiles cf roster =
     (case roster of
        None \<Rightarrow> Some (map tile (cf_members cf))
      | Some r \<Rightarrow>
          map_option (\<lambda>l.
            map tile (filter (\<lambda>m. sb_id m \<noteq> ENGINEER) (lineup_members (rs_roster r) l @ engineer_entry cf)) @
            map (\<lambda>p. \<lparr>pv_id = pe_id p, pv_name = pe_name p, pv_playing = False\<rparr>)
              (filter (\<lambda>p. \<not> plays l (pe_id p)) (ro_people (rs_roster r))) @
            map tile (engineer_entry cf)) (state_lineup r))"

end
