(* ===== verification/Access.thy ===== *)
theory Access
  imports Roster
begin

text \<open>
  Who gets in: login tokens (\<open>iem-core/src/jwt.rs\<close>), the PIN hashes (\<open>iem-server/src/pin_store.rs\<close>,
  \<open>pin_hash.rs\<close>) and the login, PIN-change and access checks (\<open>iem-server/src/auth.rs\<close>). Base64, JSON,
  HMAC-SHA-256 and argon2id are third-party: arguments of the definitions that use them.
\<close>

subsection \<open>Tokens\<close>

type_synonym bytes = string

record auth_claims =
  au_sub :: string
  au_engineer :: bool
  au_exp :: u64
  au_iat :: u64

text \<open>A JSON value; a number by its value as \<open>u64\<close>, if it is one.\<close>

datatype json = JNull | JBool bool | JNumber "u64 option" | JString string | JArray "json list" | JObject "(string \<times> json) list"

type_synonym json_object = "(string \<times> json) list"

record jwt_lib =
  jl_encode :: "bytes \<Rightarrow> string"
  jl_decode :: "string \<Rightarrow> bytes option"
  jl_object :: "bytes \<Rightarrow> json_object option"
  jl_write :: "auth_claims \<Rightarrow> bytes option"
  jl_claims :: "json_object \<Rightarrow> auth_claims option"
  jl_hmac :: "bytes \<Rightarrow> bytes \<Rightarrow> bytes option"

definition LEEWAY_SECS :: u64 where "LEEWAY_SECS = 60"

definition HS256_HEADER :: string where
  "HS256_HEADER = ''{'' @ [CHR 0x22] @ ''typ'' @ [CHR 0x22] @ '':'' @ [CHR 0x22] @ ''JWT'' @ [CHR 0x22] @ '','' @
     [CHR 0x22] @ ''alg'' @ [CHR 0x22] @ '':'' @ [CHR 0x22] @ ''HS256'' @ [CHR 0x22] @ ''}''"

datatype jwt_error = Malformed | Algorithm | Signature | Expired | Claims | Encode

definition jwt_mac :: "jwt_lib \<Rightarrow> bytes \<Rightarrow> string \<Rightarrow> bytes option" where
  "jwt_mac jl secret input = (if secret = [] then None else jl_hmac jl secret input)"

definition signing_input :: "jwt_lib \<Rightarrow> string \<Rightarrow> auth_claims \<Rightarrow> jwt_error + string" where
  "signing_input jl header claims =
     bind_r (ok_or (jl_write jl claims) Encode) (\<lambda>c. Inr (jl_encode jl header @ ''.'' @ jl_encode jl c))"

definition signed :: "jwt_lib \<Rightarrow> string \<Rightarrow> bytes \<Rightarrow> string" where
  "signed jl input signature = input @ ''.'' @ jl_encode jl signature"

definition encode_hs256 :: "jwt_lib \<Rightarrow> auth_claims \<Rightarrow> bytes \<Rightarrow> jwt_error + string" where
  "encode_hs256 jl claims secret =
     bind_r (signing_input jl HS256_HEADER claims) (\<lambda>input.
     bind_r (ok_or (jwt_mac jl secret input) Encode) (\<lambda>tag.
       Inr (signed jl input tag)))"

definition unbase :: "jwt_lib \<Rightarrow> string \<Rightarrow> jwt_error + bytes" where
  "unbase jl part = ok_or (jl_decode jl part) Malformed"

definition object :: "jwt_lib \<Rightarrow> string \<Rightarrow> jwt_error + json_object" where
  "object jl part = bind_r (unbase jl part) (\<lambda>b. ok_or (jl_object jl b) Malformed)"

definition as_str :: "json \<Rightarrow> string option" where
  "as_str v = (case v of JString s \<Rightarrow> Some s | _ \<Rightarrow> None)"

definition as_u64 :: "json \<Rightarrow> u64 option" where
  "as_u64 v = (case v of JNumber n \<Rightarrow> n | _ \<Rightarrow> None)"

text \<open>\<open>u64::saturating_sub\<close>.\<close>

definition sat_sub64 :: "u64 \<Rightarrow> u64 \<Rightarrow> u64" where
  "sat_sub64 a b = (if a \<le> b then 0 else a - b)"

definition decode_hs256 :: "jwt_lib \<Rightarrow> string \<Rightarrow> bytes \<Rightarrow> u64 \<Rightarrow> jwt_error + auth_claims" where
  "decode_hs256 jl token secret now =
     bind_r (ok_or (rsplit_once (CHR ''.'') token) Malformed) (\<lambda>(input, signature).
     bind_r (ok_or (split_once (CHR ''.'') input) Malformed) (\<lambda>(header, claims).
     bind_r (object jl header) (\<lambda>header.
     bind_r (ok_or (Option.bind (map_of header ''alg'') as_str) Malformed) (\<lambda>alg.
       if alg \<noteq> ''HS256'' \<or> map_of header ''crit'' \<noteq> None then Inl Algorithm
       else
     bind_r (ok_or (jwt_mac jl secret input) Signature) (\<lambda>tag.
     bind_r (unbase jl signature) (\<lambda>given.
       if given \<noteq> tag then Inl Signature
       else
     bind_r (object jl claims) (\<lambda>claims.
     bind_r (ok_or (Option.bind (map_of claims ''exp'') as_u64) Claims) (\<lambda>exp.
       if (case map_of claims ''aud'' of Some aud \<Rightarrow> aud \<noteq> JNull | None \<Rightarrow> False) then Inl Claims
       else if exp < sat_sub64 now LEEWAY_SECS then Inl Expired
       else ok_or (jl_claims jl claims) Claims))))))))"

subsection \<open>PIN hashes\<close>

definition PIN_LEN :: nat where "PIN_LEN = 4"

definition is_valid_pin_format :: "string \<Rightarrow> bool" where
  "is_valid_pin_format pin = (length pin = PIN_LEN \<and> list_all is_ascii_digit pin)"

text \<open>\<open>verify\<close> is argon2id's; without a stored hash the answer is no (a dummy is checked for the timing).\<close>

definition verify_optional :: "(string \<Rightarrow> string \<Rightarrow> bool) \<Rightarrow> string \<Rightarrow> string option \<Rightarrow> bool" where
  "verify_optional verify pin phc = (case phc of Some h \<Rightarrow> verify pin h | None \<Rightarrow> False)"

record pin_file =
  pf_engineer :: "string option"
  pf_members :: "(string, string) btree"
  pf_archived :: "(string, string) btree"

datatype pin_error = NotArgon string | BadMember | EngineerMember | SaveError

definition check_phc :: "string \<Rightarrow> string \<Rightarrow> pin_error + unit" where
  "check_phc owner phc = (if prefix ''$argon2id$'' phc then Inr () else Inl (NotArgon owner))"

definition check_member :: "string \<Rightarrow> pin_error + unit" where
  "check_member m =
     (case validate_member_id m of
        Inl _ \<Rightarrow> Inl BadMember
      | Inr _ \<Rightarrow> if m = ENGINEER then Inl EngineerMember else Inr ())"

text \<open>\<open>load\<close>: what the file parses to, unless an entry of it is no argon2id hash.\<close>

definition pins_load :: "pin_file \<Rightarrow> pin_error + pin_file" where
  "pins_load file =
     bind_r (case pf_engineer file of Some phc \<Rightarrow> check_phc ENGINEER phc | None \<Rightarrow> Inr ()) (\<lambda>_.
     bind_r (fold_r (\<lambda>(m, phc) _. check_phc m phc) (pf_members file @ pf_archived file) ()) (\<lambda>_. Inr file))"

text \<open>
  A store: its value and what its file holds. \<open>ok\<close> says whether the write of the file (a replacement,
  so all or nothing) succeeded; the archived hashes are never written.
\<close>

record pin_store =
  pn_file :: pin_file
  pn_disk :: pin_file

definition pins_save :: "bool \<Rightarrow> pin_store \<Rightarrow> pin_store \<times> (pin_error + unit)" where
  "pins_save ok s = (if ok then (s\<lparr>pn_disk := (pn_file s)\<lparr>pf_archived := []\<rparr>\<rparr>, Inr ()) else (s, Inl SaveError))"

definition remove_member :: "bool \<Rightarrow> string \<Rightarrow> pin_store \<Rightarrow> pin_store \<times> (pin_error + bool)" where
  "remove_member ok m s =
     (case check_member m of
        Inl e \<Rightarrow> (s, Inl e)
      | Inr _ \<Rightarrow>
          (case map_of (pf_members (pn_file s)) m of
             None \<Rightarrow> (s, Inr False)
           | Some old \<Rightarrow>
               (case pins_save ok (s\<lparr>pn_file := (pn_file s)\<lparr>pf_members := bm_remove m (pf_members (pn_file s))\<rparr>\<rparr>) of
                  (s', Inr _) \<Rightarrow> (s', Inr True)
                | (s', Inl e) \<Rightarrow> (s'\<lparr>pn_file := (pn_file s')\<lparr>pf_members := bm_insert m old (pf_members (pn_file s'))\<rparr>\<rparr>, Inl e))))"

definition drop_archived :: "bool \<Rightarrow> pin_store \<Rightarrow> pin_store \<times> (pin_error + string list)" where
  "drop_archived ok s =
     (let kept = pf_archived (pn_file s)
      in if kept = [] then (s, Inr [])
         else case pins_save ok (s\<lparr>pn_file := (pn_file s)\<lparr>pf_archived := []\<rparr>\<rparr>) of
                (s', Inr _) \<Rightarrow> (s', Inr (bm_keys kept))
              | (s', Inl e) \<Rightarrow> (s'\<lparr>pn_file := (pn_file s')\<lparr>pf_archived := kept\<rparr>\<rparr>, Inl e))"

definition member_hash :: "pin_file \<Rightarrow> string \<Rightarrow> string option" where
  "member_hash f m = map_of (pf_members f) m"

definition member_ids :: "pin_file \<Rightarrow> string list" where
  "member_ids f = bm_keys (pf_members f)"

definition has_hashes :: "pin_file \<Rightarrow> bool" where
  "has_hashes f = (pf_engineer f \<noteq> None \<or> pf_members f \<noteq> [])"

definition set_engineer_hash :: "bool \<Rightarrow> string \<Rightarrow> pin_store \<Rightarrow> pin_store \<times> (pin_error + unit)" where
  "set_engineer_hash ok phc s =
     (case check_phc ENGINEER phc of
        Inl e \<Rightarrow> (s, Inl e)
      | Inr _ \<Rightarrow>
          (let old = pf_engineer (pn_file s)
           in case pins_save ok (s\<lparr>pn_file := (pn_file s)\<lparr>pf_engineer := Some phc\<rparr>\<rparr>) of
                (s', Inr _) \<Rightarrow> (s', Inr ())
              | (s', Inl e) \<Rightarrow> (s'\<lparr>pn_file := (pn_file s')\<lparr>pf_engineer := old\<rparr>\<rparr>, Inl e)))"

definition set_member_hash :: "bool \<Rightarrow> string \<Rightarrow> string \<Rightarrow> pin_store \<Rightarrow> pin_store \<times> (pin_error + unit)" where
  "set_member_hash ok m phc s =
     (case bind_r (check_member m) (\<lambda>_. check_phc m phc) of
        Inl e \<Rightarrow> (s, Inl e)
      | Inr _ \<Rightarrow>
          (let old = map_of (pf_members (pn_file s)) m
           in case pins_save ok (s\<lparr>pn_file := (pn_file s)\<lparr>pf_members := bm_insert m phc (pf_members (pn_file s))\<rparr>\<rparr>) of
                (s', Inr _) \<Rightarrow> (s', Inr ())
              | (s', Inl e) \<Rightarrow>
                  (s'\<lparr>pn_file := (pn_file s')\<lparr>pf_members :=
                     (case old of Some old \<Rightarrow> bm_insert m old (pf_members (pn_file s')) | None \<Rightarrow> bm_remove m (pf_members (pn_file s')))\<rparr>\<rparr>, Inl e)))"

subsection \<open>Login\<close>

definition MEMBER_TOKEN_EXPIRY_SECS :: u64 where "MEMBER_TOKEN_EXPIRY_SECS = 7 * 24 * 60 * 60"
definition ENGINEER_TOKEN_EXPIRY_SECS :: u64 where "ENGINEER_TOKEN_EXPIRY_SECS = 7 * 24 * 60 * 60"

text \<open>What the handlers use of the application: the guard, the host's addresses, the secret, the site, the roster, the PINs.\<close>

record app_state =
  ap_guard :: guard
  ap_host :: host_addrs
  ap_jwt_secret :: string
  ap_site :: config
  ap_roster :: "roster_state option"
  ap_pins :: pin_store

text \<open>
  What a request meets outside: the instant and the Unix second, the socket's peer and the address in
  its \<open>CF-Connecting-IP\<close> header, the answer of the hashing gate, and whether a write succeeds.
\<close>

datatype hashing = HashRan | HashFull | HashFailed

record meets =
  me_now :: nat
  me_unix :: u64
  me_peer :: ip_addr
  me_cf :: "ip_addr option"
  me_hash :: hashing
  me_hash_new :: hashing
  me_writes :: bool

record login_response =
  lr_token :: string
  lr_member :: string
  lr_engineer :: bool
  lr_expires_in :: u64

text \<open>A rejection: the status, the code and the \<open>Retry-After\<close> header.\<close>

record rejection =
  rj_status :: nat
  rj_code :: string
  rj_retry :: "nat option"

definition error_response :: "nat \<Rightarrow> string \<Rightarrow> rejection" where
  "error_response status code = \<lparr>rj_status = status, rj_code = code, rj_retry = None\<rparr>"

text \<open>Whole milliseconds, rounded up to whole seconds, at least one.\<close>

definition too_many_attempts :: "nat \<Rightarrow> rejection" where
  "too_many_attempts wait =
     \<lparr>rj_status = 429, rj_code = ''TOO_MANY_ATTEMPTS'', rj_retry = Some (max ((wait div 10 ^ 6 + 999) div 1000) 1)\<rparr>"

definition with_hasher :: "hashing \<Rightarrow> 'a \<Rightarrow> rejection + 'a" where
  "with_hasher h x =
     (case h of
        HashRan \<Rightarrow> Inr x
      | HashFull \<Rightarrow> Inl (too_many_attempts (secs 1))
      | HashFailed \<Rightarrow> Inl (error_response 500 ''HASH_ERROR''))"

definition member_exists :: "app_state \<Rightarrow> string \<Rightarrow> bool" where
  "member_exists ap m =
     (case ap_roster ap of
        Some r \<Rightarrow> roster_person (rs_roster r) m \<noteq> None \<or> m = ENGINEER \<and> config_member (ap_site ap) m \<noteq> None
      | None \<Rightarrow> config_member (ap_site ap) m \<noteq> None)"

definition subject_known :: "app_state \<Rightarrow> auth_claims \<Rightarrow> bool" where
  "subject_known ap claims = (au_engineer claims \<or> member_exists ap (au_sub claims))"

datatype pin_match = MatchEngineer | MatchMember | MatchNone

definition issue_token :: "jwt_lib \<Rightarrow> string \<Rightarrow> u64 \<Rightarrow> string \<Rightarrow> bool \<Rightarrow> rejection + login_response" where
  "issue_token jl secret now member engineer =
     (let expiry = (if engineer then ENGINEER_TOKEN_EXPIRY_SECS else MEMBER_TOKEN_EXPIRY_SECS);
          claims = \<lparr>au_sub = member, au_engineer = engineer, au_exp = now + expiry, au_iat = now\<rparr>
      in case encode_hs256 jl claims secret of
           Inl _ \<Rightarrow> Inl (error_response 500 ''TOKEN_ERROR'')
         | Inr token \<Rightarrow> Inr \<lparr>lr_token = token, lr_member = member, lr_engineer = engineer, lr_expires_in = expiry\<rparr>)"

definition match_pin :: "(string \<Rightarrow> string \<Rightarrow> bool) \<Rightarrow> pin_file \<Rightarrow> string \<Rightarrow> string \<Rightarrow> pin_match" where
  "match_pin verify pins member pin =
     (if verify_optional verify pin (pf_engineer pins) then MatchEngineer
      else if verify_optional verify pin (member_hash pins member) then MatchMember
      else MatchNone)"

definition login ::
  "jwt_lib \<Rightarrow> (string \<Rightarrow> string \<Rightarrow> bool) \<Rightarrow> meets \<Rightarrow> string \<Rightarrow> string \<Rightarrow> app_state \<Rightarrow> app_state \<times> (rejection + login_response)" where
  "login jl verify me member pin ap =
     (let client = from_request (me_peer me) (me_cf me) (ap_host ap); now = me_now me
      in case check client member now (ap_guard ap) of
           (g, Inl wait) \<Rightarrow> (ap\<lparr>ap_guard := g\<rparr>, Inl (too_many_attempts wait))
         | (g, Inr _) \<Rightarrow>
             (let ap = ap\<lparr>ap_guard := g\<rparr>
              in if member \<noteq> [] \<and> \<not> member_exists ap member then (ap, Inl (error_response 404 ''NOT_FOUND''))
                 else case with_hasher (me_hash me) (match_pin verify (pn_file (ap_pins ap)) member pin) of
                        Inl e \<Rightarrow> (ap, Inl e)
                      | Inr MatchEngineer \<Rightarrow>
                          (ap\<lparr>ap_guard := record_success client member g\<rparr>, issue_token jl (ap_jwt_secret ap) (me_unix me) ENGINEER True)
                      | Inr MatchMember \<Rightarrow>
                          (ap\<lparr>ap_guard := record_success client member g\<rparr>, issue_token jl (ap_jwt_secret ap) (me_unix me) member False)
                      | Inr MatchNone \<Rightarrow>
                          (ap\<lparr>ap_guard := fst (record_failure client member now g)\<rparr>, Inl (error_response 401 ''INVALID_PIN''))))"

subsection \<open>Access\<close>

definition extract_claims :: "jwt_lib \<Rightarrow> string \<Rightarrow> string \<Rightarrow> u64 \<Rightarrow> auth_claims option" where
  "extract_claims jl token secret now = (case decode_hs256 jl token secret now of Inr c \<Rightarrow> Some c | Inl _ \<Rightarrow> None)"

definition extract_claims_from_header :: "jwt_lib \<Rightarrow> string option \<Rightarrow> string \<Rightarrow> u64 \<Rightarrow> rejection + auth_claims" where
  "extract_claims_from_header jl auth secret now =
     (case auth of
        Some h \<Rightarrow>
          if prefix ''Bearer '' h
          then ok_or (extract_claims jl (drop 7 h) secret now) (error_response 401 ''UNAUTHORIZED'')
          else Inl (error_response 401 ''UNAUTHORIZED'')
      | None \<Rightarrow> Inl (error_response 401 ''UNAUTHORIZED''))"

definition verify_member_access :: "jwt_lib \<Rightarrow> string option \<Rightarrow> string \<Rightarrow> string \<Rightarrow> u64 \<Rightarrow> rejection + auth_claims" where
  "verify_member_access jl auth member secret now =
     bind_r (extract_claims_from_header jl auth secret now) (\<lambda>claims.
       if au_engineer claims \<or> au_sub claims = member then Inr claims else Inl (error_response 403 ''FORBIDDEN''))"

text \<open>\<open>change_pin\<close>: the target of an allowed request, then the new hash. \<open>hash\<close> is argon2id's.\<close>

definition pin_target ::
  "(string \<Rightarrow> string \<Rightarrow> bool) \<Rightarrow> meets \<Rightarrow> auth_claims \<Rightarrow> string option \<Rightarrow> string option \<Rightarrow> app_state \<Rightarrow> app_state \<times> (rejection + string)" where
  "pin_target verify me claims old_pin member ap =
     (if au_engineer claims
      then let m = (case member of Some m \<Rightarrow> m | None \<Rightarrow> [])
           in if m = [] then (ap, Inl (error_response 400 ''MISSING_MEMBER''))
              else if m \<noteq> ENGINEER \<and> \<not> member_exists ap m then (ap, Inl (error_response 404 ''NOT_FOUND''))
              else (ap, Inr m)
      else let old = (case old_pin of Some p \<Rightarrow> p | None \<Rightarrow> []); sub = au_sub claims
           in if old = [] then (ap, Inl (error_response 400 ''MISSING_OLD_PIN''))
              else let client = from_request (me_peer me) (me_cf me) (ap_host ap)
                   in case check client sub (me_now me) (ap_guard ap) of
                        (g, Inl wait) \<Rightarrow> (ap\<lparr>ap_guard := g\<rparr>, Inl (too_many_attempts wait))
                      | (g, Inr _) \<Rightarrow>
                          (case with_hasher (me_hash me) (verify_optional verify old (member_hash (pn_file (ap_pins ap)) sub)) of
                             Inl e \<Rightarrow> (ap\<lparr>ap_guard := g\<rparr>, Inl e)
                           | Inr False \<Rightarrow>
                               (ap\<lparr>ap_guard := fst (record_failure client sub (me_now me) g)\<rparr>, Inl (error_response 401 ''INVALID_PIN''))
                           | Inr True \<Rightarrow> (ap\<lparr>ap_guard := record_success client sub g\<rparr>, Inr sub)))"

definition change_pin ::
  "jwt_lib \<Rightarrow> (string \<Rightarrow> string \<Rightarrow> bool) \<Rightarrow> (string \<Rightarrow> string) \<Rightarrow> meets \<Rightarrow> string option \<Rightarrow> string option \<Rightarrow> string \<Rightarrow> string option
     \<Rightarrow> app_state \<Rightarrow> app_state \<times> (rejection + unit)" where
  "change_pin jl verify hash me auth old_pin new_pin member ap =
     (case extract_claims_from_header jl auth (ap_jwt_secret ap) (me_unix me) of
        Inl e \<Rightarrow> (ap, Inl e)
      | Inr claims \<Rightarrow>
          if \<not> subject_known ap claims then (ap, Inl (error_response 401 ''UNAUTHORIZED''))
          else if \<not> is_valid_pin_format new_pin then (ap, Inl (error_response 400 ''INVALID_FORMAT''))
          else case pin_target verify me claims old_pin member ap of
                 (ap, Inl e) \<Rightarrow> (ap, Inl e)
               | (ap, Inr target) \<Rightarrow>
                   (case with_hasher (me_hash_new me) (hash new_pin) of
                      Inl e \<Rightarrow> (ap, Inl e)
                    | Inr phc \<Rightarrow>
                        (case (if target = ENGINEER then set_engineer_hash (me_writes me) phc (ap_pins ap)
                               else set_member_hash (me_writes me) target phc (ap_pins ap)) of
                           (pins, Inl _) \<Rightarrow> (ap\<lparr>ap_pins := pins\<rparr>, Inl (error_response 500 ''IO_ERROR''))
                         | (pins, Inr _) \<Rightarrow> (ap\<lparr>ap_pins := pins\<rparr>, Inr ()))))"

end
