(* ===== verification/LoginProps.thy ===== *)
theory LoginProps
  imports LoginGuard
begin

text \<open>
  What the login guard's budgets mean: the bounded windows and streaks it keeps answer exactly as
  the whole log of attempts would, and no client is ever locked out.
\<close>

subsection \<open>Windows\<close>

definition recent :: "nat \<Rightarrow> nat \<Rightarrow> nat list \<Rightarrow> nat list" where
  "recent span now fs = filter (\<lambda>t. now - t < span) fs"

lemma prune_recent: "sorted w \<Longrightarrow> prune_window now span w = recent span now w"
proof (induction w)
  case (Cons t w)
  have "filter (\<lambda>t. now - t < span) w = w" if "now - t < span"
    using Cons.prems that by (intro filter_True) fastforce
  then show ?case using Cons by (auto simp: recent_def)
qed (simp add: recent_def)

lemma prune_dropWhile: "prune_window now span w = dropWhile (\<lambda>t. span \<le> now - t) w"
  by (induction w) auto

lemma length_prune: "length (prune_window now span w) \<le> length w"
  by (induction w) auto

text \<open>
  A window of at most \<open>cap\<close> entries that stands for a sorted list of instants: what it lacks is too
  old to count, or it is full with later ones.
\<close>

locale sliding =
  fixes cap span :: nat
  assumes cap_pos: "0 < cap"
begin

definition stands :: "nat \<Rightarrow> nat list \<Rightarrow> nat list \<Rightarrow> bool" where
  "stands now fs w \<longleftrightarrow>
     sorted fs \<and> (\<exists>k. w = drop k fs \<and> length w \<le> cap \<and> (length w = cap \<or> (\<forall>t \<in> set (take k fs). span \<le> now - t)))"

lemma stands_empty: "stands now [] []"
  by (simp add: stands_def)

lemma stands_later: "stands now fs w \<Longrightarrow> now \<le> now' \<Longrightarrow> stands now' fs w"
  by (fastforce simp: stands_def)

lemma stands_prune:
  assumes "stands now fs w"
  shows "stands now fs (prune_window now span w)"
proof -
  obtain k where k: "sorted fs" "w = drop k fs" "length w \<le> cap" "length w = cap \<or> (\<forall>t \<in> set (take k fs). span \<le> now - t)"
    using assms by (auto simp: stands_def)
  let ?old = "takeWhile (\<lambda>t. span \<le> now - t) w"
  have split: "w = ?old @ prune_window now span w" by (simp add: prune_dropWhile)
  have "prune_window now span w = drop (length ?old) w" by (simp add: prune_dropWhile dropWhile_eq_drop)
  then have w: "prune_window now span w = drop (length ?old + k) fs" by (simp add: k(2))
  have "\<forall>t \<in> set (take (length ?old + k) fs). span \<le> now - t" if ne: "?old \<noteq> []"
  proof -
    have "hd w \<in> set ?old" using ne split by (metis hd_append2 hd_in_set)
    then have hd: "span \<le> now - hd w" by (auto dest: set_takeWhileD)
    have "sorted (take k fs @ w)" "w \<noteq> []" using k(1,2) ne by auto
    then have "\<forall>t \<in> set (take k fs). t \<le> hd w" by (simp add: sorted_append)
    then have "\<forall>t \<in> set (take k fs). span \<le> now - t" using hd by fastforce
    moreover have "take (length ?old + k) fs = take k fs @ ?old" by (simp add: k(2) take_add add.commute flip: takeWhile_eq_take)
    ultimately show ?thesis by (auto dest: set_takeWhileD)
  qed
  moreover have "prune_window now span w = w" if "?old = []" using split that by simp
  ultimately show ?thesis
    using assms w k(1,3) length_prune [of now span w] unfolding stands_def
    by (cases "?old = []") (force, metis (no_types, lifting) le_trans)
qed

lemma stands_push:
  assumes "stands now fs w" and "\<forall>t \<in> set fs. t \<le> now"
  shows "stands now (fs @ [now]) (push_window cap now w)"
proof -
  obtain k where k: "sorted fs" "w = drop k fs" "length w \<le> cap" "length w = cap \<or> (\<forall>t \<in> set (take k fs). span \<le> now - t)" "k \<le> length fs"
    using assms(1) unfolding stands_def by (metis drop_all nat_le_linear order_refl take_all)
  have s: "sorted (fs @ [now])" using k(1) assms(2) by (simp add: sorted_append)
  have w: "w @ [now] = drop k (fs @ [now])" using k(2,5) by simp
  show ?thesis
  proof (cases "length w = cap")
    case True
    then have "push_window cap now w = tl (w @ [now])" by (simp add: push_window_def)
    also have "\<dots> = drop (Suc k) (fs @ [now])" by (simp only: w tl_drop drop_Suc)
    finally have "push_window cap now w = drop (Suc k) (fs @ [now])" .
    moreover have "length (push_window cap now w) = cap" using True by (simp add: push_window_def)
    ultimately show ?thesis using s unfolding stands_def by auto
  next
    case False
    then have "push_window cap now w = w @ [now]" using k(3) by (simp add: push_window_def)
    then have "push_window cap now w = drop k (fs @ [now])" using w by simp
    moreover have "take k (fs @ [now]) = take k fs" using k(5) by simp
    moreover have "length (push_window cap now w) \<le> cap" using False k(3) by (simp add: push_window_def)
    ultimately show ?thesis using s k(4) False unfolding stands_def by (intro conjI exI [of _ k]) simp_all
  qed
qed

text \<open>A pruned window is full exactly when the whole list has as many recent entries, and ends as it does.\<close>

lemma stands_full:
  assumes "stands now fs w"
  shows "cap \<le> length (prune_window now span w) \<longleftrightarrow> cap \<le> length (recent span now fs)"
    and "cap \<le> length (prune_window now span w) \<Longrightarrow> last (prune_window now span w) = last (recent span now fs)"
proof -
  let ?w = "prune_window now span w"
  have sw: "sorted w" using assms by (auto simp: stands_def)
  obtain k where k: "sorted fs" "?w = drop k fs" "length ?w \<le> cap" "length ?w = cap \<or> (\<forall>t \<in> set (take k fs). span \<le> now - t)"
    using stands_prune [OF assms] by (auto simp: stands_def)
  have r: "recent span now ?w = ?w" using prune_recent [OF sw] by (simp add: recent_def)
  have split: "recent span now fs = recent span now (take k fs) @ ?w"
    by (metis (no_types, lifting) append_take_drop_id filter_append k(2) r recent_def)
  show "cap \<le> length ?w \<longleftrightarrow> cap \<le> length (recent span now fs)"
  proof
    assume c: "cap \<le> length (recent span now fs)"
    show "cap \<le> length ?w"
    proof (rule ccontr)
      assume "\<not> cap \<le> length ?w"
      then have "recent span now (take k fs) = []" using k(4) by (auto simp: recent_def filter_empty_conv not_less)
      then show False using split c \<open>\<not> cap \<le> length ?w\<close> by simp
    qed
  qed (simp add: split)
  show "cap \<le> length ?w \<Longrightarrow> last ?w = last (recent span now fs)"
    using split cap_pos by (cases "?w = []") auto
qed

end

interpretation cw: sliding CLIENT_WINDOW_FAILURES CLIENT_WINDOW
  by unfold_locales (simp add: CLIENT_WINDOW_FAILURES_def)

interpretation ew: sliding "Suc ENGINEER_WINDOW_FAILURES" ENGINEER_WINDOW
  by unfold_locales simp

subsection \<open>Logs\<close>

text \<open>The calls a guard has answered, in order, and the guard they lead to.\<close>

datatype attempt =
    Admitted client_key member_id nat
  | Refused client_key member_id nat
  | Failed client_key member_id nat
  | Succeeded client_key member_id

inductive guard_runs :: "guard \<Rightarrow> attempt list \<Rightarrow> bool" where
  fresh: "guard_runs guard_new []"
| admitted: "guard_runs g h \<Longrightarrow> check c m t g = (g', Inr ()) \<Longrightarrow> guard_runs g' (h @ [Admitted c m t])"
| refused: "guard_runs g h \<Longrightarrow> check c m t g = (g', Inl w) \<Longrightarrow> guard_runs g' (h @ [Refused c m t])"
| failed: "guard_runs g h \<Longrightarrow> record_failure c m t g = (g', e) \<Longrightarrow> guard_runs g' (h @ [Failed c m t])"
| succeeded: "guard_runs g h \<Longrightarrow> guard_runs (record_success c m g) (h @ [Succeeded c m])"

fun instant :: "attempt \<Rightarrow> nat option" where
  "instant (Admitted _ _ t) = Some t"
| "instant (Refused _ _ t) = Some t"
| "instant (Failed _ _ t) = Some t"
| "instant (Succeeded _ _) = None"

definition instants :: "attempt list \<Rightarrow> nat list" where
  "instants h = List.map_filter instant h"

definition client_fails :: "client_key \<Rightarrow> attempt list \<Rightarrow> nat list" where
  "client_fails c h = List.map_filter (\<lambda>e. case e of Failed c' _ t \<Rightarrow> if c' = c then Some t else None | _ \<Rightarrow> None) h"

definition origin_fails :: "origin \<Rightarrow> attempt list \<Rightarrow> nat list" where
  "origin_fails o' h = List.map_filter (\<lambda>e. case e of Failed c _ t \<Rightarrow> if ck_origin c = o' then Some t else None | _ \<Rightarrow> None) h"

definition admits :: "origin \<Rightarrow> attempt list \<Rightarrow> nat list" where
  "admits o' h = List.map_filter (\<lambda>e. case e of Admitted c _ t \<Rightarrow> if ck_origin c = o' then Some t else None | _ \<Rightarrow> None) h"

text \<open>The failures of a client at a member since the last success.\<close>

fun streak_step :: "client_key \<Rightarrow> member_id \<Rightarrow> attempt \<Rightarrow> nat list \<Rightarrow> nat list" where
  "streak_step c m (Failed c' m' t) ts = (if c' = c \<and> m' = m then ts @ [t] else ts)"
| "streak_step c m (Succeeded c' m') ts = (if c' = c \<and> m' = m then [] else ts)"
| "streak_step c m _ ts = ts"

definition streak_fails :: "client_key \<Rightarrow> member_id \<Rightarrow> attempt list \<Rightarrow> nat list" where
  "streak_fails c m h = fold (streak_step c m) h []"

text \<open>How many of them, from the newest back, follow one another within \<^const>\<open>STREAK_DECAY\<close>.\<close>

fun run_back :: "nat list \<Rightarrow> nat" where
  "run_back [] = 0"
| "run_back [t] = 1"
| "run_back (t # t' # ts) = (if t - t' < STREAK_DECAY then Suc (run_back (t' # ts)) else 1)"

definition run_length :: "nat list \<Rightarrow> nat" where
  "run_length ts = run_back (rev ts)"

text \<open>The rules of admission over the whole log.\<close>

definition admissible :: "client_key \<Rightarrow> member_id \<Rightarrow> nat \<Rightarrow> attempt list \<Rightarrow> bool" where
  "admissible c m now h =
     ((let ts = streak_fails c m h
       in ts = [] \<or> STREAK_DECAY \<le> now - last ts \<or> streak_delay (run_length ts) \<le> now - last ts) \<and>
      (let ts = recent CLIENT_WINDOW now (client_fails c h)
       in length ts < CLIENT_WINDOW_FAILURES \<or> CLIENT_SPACING \<le> now - last ts) \<and>
      (length (recent ENGINEER_WINDOW now (origin_fails (ck_origin c) h)) \<le> ENGINEER_WINDOW_FAILURES \<or>
       admits (ck_origin c) h = [] \<or> ENGINEER_SPACING \<le> now - last (admits (ck_origin c) h)))"

text \<open>No map was ever full.\<close>

definition failing :: "attempt list \<Rightarrow> (client_key \<times> member_id) set" where
  "failing h = {(c, m). \<exists>t. Failed c m t \<in> set h}"

definition roomy :: "attempt list \<Rightarrow> bool" where
  "roomy h = (card (failing h) \<le> MAX_TRACKED)"

lemma failing_append [simp]: "failing (h @ [e]) = failing h \<union> (case e of Failed c m _ \<Rightarrow> {(c, m)} | _ \<Rightarrow> {})"
  by (auto simp: failing_def split: attempt.split)

lemma failing_finite [simp]: "finite (failing h)"
  by (induction h rule: rev_induct) (auto simp: failing_def [of "[]"] split: attempt.split)

lemma roomy_prefix: "roomy (h @ [e]) \<Longrightarrow> roomy h"
  unfolding roomy_def failing_append by (rule le_trans [OF card_mono]) (auto split: attempt.split)

lemma logs_append [simp]:
  "instants (h @ [e]) = instants h @ (case instant e of Some t \<Rightarrow> [t] | None \<Rightarrow> [])"
  "client_fails c (h @ [e]) = client_fails c h @ (case e of Failed c' _ t \<Rightarrow> if c' = c then [t] else [] | _ \<Rightarrow> [])"
  "origin_fails o' (h @ [e]) = origin_fails o' h @ (case e of Failed c' _ t \<Rightarrow> if ck_origin c' = o' then [t] else [] | _ \<Rightarrow> [])"
  "admits o' (h @ [e]) = admits o' h @ (case e of Admitted c' _ t \<Rightarrow> if ck_origin c' = o' then [t] else [] | _ \<Rightarrow> [])"
  "streak_fails c m (h @ [e]) = streak_step c m e (streak_fails c m h)"
  by (auto simp: instants_def client_fails_def origin_fails_def admits_def streak_fails_def map_filter_def split: option.split attempt.split)

lemma logs_empty [simp]:
  "instants [] = []" "client_fails c [] = []" "origin_fails o' [] = []" "admits o' [] = []" "streak_fails c m [] = []"
  by (simp_all add: instants_def client_fails_def origin_fails_def admits_def streak_fails_def map_filter_def)

lemma logs_sub:
  "set (client_fails c h) \<subseteq> set (instants h)" "set (origin_fails o' h) \<subseteq> set (instants h)"
  "set (admits o' h) \<subseteq> set (instants h)" "set (streak_fails c m h) \<subseteq> set (instants h)"
proof (induction h rule: rev_induct)
  case (snoc e h)
  {
    case 1 then show ?case using snoc by (cases e) auto
  next
    case 2 then show ?case using snoc by (cases e) auto
  next
    case 3 then show ?case using snoc by (cases e) auto
  next
    case 4 then show ?case using snoc by (cases e) auto
  }
qed simp_all

lemma run_length_snoc:
  "run_length (ts @ [t]) = (if ts \<noteq> [] \<and> t - last ts < STREAK_DECAY then Suc (run_length ts) else 1)"
  by (cases ts rule: rev_cases) (simp_all add: run_length_def)

lemma delay_saturated: "streak_delay (min n (2 ^ 32 - 1)) = streak_delay n"
  by (auto simp: streak_delay_def FREE_FAILURES_def Let_def min_def)

lemma delay_bound: "streak_delay n \<le> MAX_DELAY"
  by (simp add: streak_delay_def Let_def)

subsection \<open>The guard stands for its log\<close>

definition streak_entry :: "nat \<Rightarrow> nat list \<Rightarrow> streak option \<Rightarrow> bool" where
  "streak_entry now ts x =
     (case x of
        Some s \<Rightarrow> ts \<noteq> [] \<and> sk_last_failure s = last ts \<and> sk_failures s = min (run_length ts) (2 ^ 32 - 1)
      | None \<Rightarrow> ts = [] \<or> STREAK_DECAY \<le> now - last ts)"

definition client_entry :: "nat \<Rightarrow> nat list \<Rightarrow> nat list option \<Rightarrow> bool" where
  "client_entry now ts x = (case x of Some w \<Rightarrow> cw.stands now ts w | None \<Rightarrow> ts = [])"

definition streaks_ok :: "nat \<Rightarrow> attempt list \<Rightarrow> streak_map \<Rightarrow> bool" where
  "streaks_ok now h sm =
     (distinct (map fst sm) \<and> fst ` set sm \<subseteq> failing h \<and>
      (\<forall>c m. streak_entry now (streak_fails c m h) (map_of sm (c, m))))"

definition clients_ok :: "nat \<Rightarrow> attempt list \<Rightarrow> client_map \<Rightarrow> bool" where
  "clients_ok now h cm =
     (distinct (map fst cm) \<and> fst ` set cm \<subseteq> fst ` failing h \<and>
      (\<forall>c. client_entry now (client_fails c h) (map_of cm c)))"

definition origin_ok :: "nat \<Rightarrow> origin \<Rightarrow> attempt list \<Rightarrow> origin_budget \<Rightarrow> bool" where
  "origin_ok now o' h b =
     (ew.stands now (origin_fails o' h) (ob_failures b) \<and>
      ob_last_admitted b = (if admits o' h = [] then None else Some (last (admits o' h))))"

definition guard_ok :: "nat \<Rightarrow> attempt list \<Rightarrow> guard \<Rightarrow> bool" where
  "guard_ok now h g =
     (streaks_ok now h (lg_streaks g) \<and> clients_ok now h (lg_clients g) \<and> (\<forall>o'. origin_ok now o' h (origin_of o' g)))"

lemma origin_simps [simp]:
  "origin_of o' (origin_mut o2 b g) = (if o' = o2 then b else origin_of o' g)"
  "lg_streaks (origin_mut o2 b g) = lg_streaks g" "lg_clients (origin_mut o2 b g) = lg_clients g"
  "origin_of o' (g\<lparr>lg_streaks := x\<rparr>) = origin_of o' g" "origin_of o' (g\<lparr>lg_clients := y\<rparr>) = origin_of o' g"
  "origin_of o' (g\<lparr>lg_stats := z\<rparr>) = origin_of o' g"
  by (auto simp: origin_of_def origin_mut_def split: origin.split)

lemma new_ok: "guard_ok now [] guard_new"
  by (auto simp: guard_ok_def guard_new_def streaks_ok_def clients_ok_def origin_ok_def origin_of_def ew.stands_empty
      streak_entry_def client_entry_def split: origin.split)

lemma streak_entry_later: "streak_entry now ts x \<Longrightarrow> now \<le> now' \<Longrightarrow> streak_entry now' ts x"
  by (auto simp: streak_entry_def split: option.splits)

lemma client_entry_later: "client_entry now ts x \<Longrightarrow> now \<le> now' \<Longrightarrow> client_entry now' ts x"
  by (auto simp: client_entry_def cw.stands_later split: option.splits)

lemma guard_later: "guard_ok now h g \<Longrightarrow> now \<le> now' \<Longrightarrow> guard_ok now' h g"
  unfolding guard_ok_def streaks_ok_def clients_ok_def origin_ok_def
  by (meson streak_entry_later client_entry_later ew.stands_later)

lemma map_of_alist [simp]: "map_of (AList.delete k m) k' = (if k' = k then None else map_of m k')"
  "map_of (AList.update k v m) k' = (if k' = k then Some v else map_of m k')"
  by (simp_all add: delete_conv' update_conv')

text \<open>Entries that fail together with a log are not evicted while the log is roomy.\<close>

lemma no_eviction:
  assumes "distinct (map fst m)" and "fst ` set m \<subseteq> K" and "finite K" and "k \<in> K" and "card K \<le> MAX_TRACKED" and "map_of m k = None"
  shows "length m < MAX_TRACKED"
proof -
  have "length m = card (fst ` set m)" using assms(1) by (metis distinct_card length_map list.set_map)
  also have "\<dots> < card K" using assms(2,3,4,6) by (intro psubset_card_mono) (auto simp: map_of_eq_None_iff)
  finally show ?thesis using assms(5) by simp
qed

lemma count_streak_ok:
  assumes "streaks_ok t h (lg_streaks g)" and "roomy (h @ [Failed c m t])"
  shows "streaks_ok t (h @ [Failed c m t]) (lg_streaks (count_streak c m t g))"
proof -
  let ?sm = "lg_streaks g" and ?h = "h @ [Failed c m t]"
  have ok: "distinct (map fst ?sm)" "fst ` set ?sm \<subseteq> failing h" using assms(1) by (simp_all add: streaks_ok_def)
  have "length ?sm < MAX_TRACKED" if "map_of ?sm (c, m) = None"
    by (rule no_eviction [OF ok(1) _ _ _ _ that, of "failing ?h"]) (use ok(2) assms(2) in \<open>auto simp: roomy_def\<close>)
  then have sm: "lg_streaks (count_streak c m t g) = AList.update (c, m) (next_streak (map_of ?sm (c, m)) t) ?sm"
    by (auto simp: count_streak_def Let_def)
  have e: "streak_entry t (streak_fails c' m' h) (map_of ?sm (c', m'))" for c' m' using assms(1) by (simp add: streaks_ok_def)
  have "streak_entry t (streak_fails c m ?h) (Some (next_streak (map_of ?sm (c, m)) t))"
    using e [of c m] by (auto simp: streak_entry_def next_streak_def run_length_snoc sat_suc32_def split: option.splits)
  then have "streak_entry t (streak_fails c' m' ?h) (map_of (lg_streaks (count_streak c m t g)) (c', m'))" for c' m'
    using e [of c' m'] by (auto simp: sm simp del: logs_append(5) intro: arg_cong) simp_all
  moreover have "fst ` set (lg_streaks (count_streak c m t g)) \<subseteq> failing ?h"
    using ok(2) by (auto simp: sm dom_update)
  ultimately show ?thesis using ok(1) by (simp add: streaks_ok_def sm distinct_update)
qed

lemma count_client_ok:
  assumes "clients_ok t h (lg_clients g)" and "roomy (h @ [Failed c m t])" and "\<forall>x \<in> set (instants h). x \<le> t"
  shows "clients_ok t (h @ [Failed c m t]) (lg_clients (count_client c t g))"
proof -
  let ?cm = "lg_clients g" and ?h = "h @ [Failed c m t]"
  have ok: "distinct (map fst ?cm)" "fst ` set ?cm \<subseteq> fst ` failing h" using assms(1) by (simp_all add: clients_ok_def)
  have "card (fst ` failing ?h) \<le> MAX_TRACKED" using assms(2) card_image_le [of "failing ?h" fst] by (simp add: roomy_def)
  then have "length ?cm < MAX_TRACKED" if "map_of ?cm c = None"
    by (intro no_eviction [OF ok(1) _ _ _ _ that, of "fst ` failing ?h"]) (use ok(2) in \<open>auto simp: image_iff\<close>)
  then have cm: "lg_clients (count_client c t g) =
      AList.update c (push_window CLIENT_WINDOW_FAILURES t (prune_window t CLIENT_WINDOW (case map_of ?cm c of Some w \<Rightarrow> w | None \<Rightarrow> []))) ?cm"
    by (auto simp: count_client_def Let_def)
  have e: "client_entry t (client_fails c' h) (map_of ?cm c')" for c' using assms(1) by (simp add: clients_ok_def)
  have "cw.stands t (client_fails c h) (case map_of ?cm c of Some w \<Rightarrow> w | None \<Rightarrow> [])"
    using e [of c] by (auto simp: client_entry_def cw.stands_empty split: option.splits)
  then have "cw.stands t (client_fails c ?h) (push_window CLIENT_WINDOW_FAILURES t (prune_window t CLIENT_WINDOW (case map_of ?cm c of Some w \<Rightarrow> w | None \<Rightarrow> [])))"
    using assms(3) logs_sub(1) [of c h] by (simp add: subset_iff cw.stands_push cw.stands_prune)
  then have "client_entry t (client_fails c' ?h) (map_of (lg_clients (count_client c t g)) c')" for c'
    using e [of c'] by (cases "c' = c") (simp_all add: cm client_entry_def)
  moreover have "fst ` set (lg_clients (count_client c t g)) \<subseteq> fst ` failing ?h"
    using ok(2) by (auto simp: cm dom_update)
  ultimately show ?thesis using ok(1) by (simp add: clients_ok_def cm distinct_update)
qed

lemma count_origin_ok:
  assumes "\<forall>o'. origin_ok t o' h (origin_of o' g)" and "\<forall>x \<in> set (instants h). x \<le> t"
  shows "origin_ok t o' (h @ [Failed c m t]) (origin_of o' (fst (count_origin c t g)))"
proof -
  have "ew.stands t (origin_fails o2 (h @ [Failed c m t]))
      (push_window (Suc ENGINEER_WINDOW_FAILURES) t (prune_window t ENGINEER_WINDOW (ob_failures (origin_of o2 g))))" if "o2 = ck_origin c" for o2
    using assms logs_sub(2) [of o2 h] that by (simp add: origin_ok_def subset_iff ew.stands_push ew.stands_prune)
  then show ?thesis using assms(1) by (auto simp: count_origin_def Let_def origin_ok_def)
qed

lemma failure_ok:
  assumes "guard_ok t h g" and "roomy (h @ [Failed c m t])" and "\<forall>x \<in> set (instants h). x \<le> t"
  shows "guard_ok t (h @ [Failed c m t]) (fst (record_failure c m t g))"
proof -
  let ?g1 = "count_streak c m t g" let ?g2 = "count_client c t ?g1" let ?g3 = "count_stats c ?g2"
  have f: "lg_clients ?g1 = lg_clients g" "origin_of o' ?g1 = origin_of o' g" "lg_streaks ?g2 = lg_streaks ?g1" "origin_of o' ?g2 = origin_of o' ?g1"
    "lg_streaks ?g3 = lg_streaks ?g2" "lg_clients ?g3 = lg_clients ?g2" "origin_of o' ?g3 = origin_of o' ?g2"
    "lg_streaks (fst (count_origin c t x)) = lg_streaks x" "lg_clients (fst (count_origin c t x)) = lg_clients x" for o' x
    by (simp_all add: count_streak_def count_client_def count_stats_def count_origin_def Let_def)
  have "origin_ok t o' (h @ [Failed c m t]) (origin_of o' (fst (count_origin c t ?g3)))" for o'
    by (rule count_origin_ok) (use assms f in \<open>simp_all add: guard_ok_def\<close>)
  then show ?thesis
    using count_streak_ok [of t h g c m] count_client_ok [of t h ?g1 c m] assms f by (simp add: record_failure_def guard_ok_def)
qed

lemma delete_sub: "fst ` set (AList.delete k m) \<subseteq> fst ` set m"
  using delete_keys [of k m] by (metis Diff_subset list.set_map set_removeAll)

lemma success_ok:
  assumes "guard_ok t h g"
  shows "guard_ok t (h @ [Succeeded c m]) (record_success c m g)"
proof -
  have e: "streak_entry t (streak_fails c' m' h) (map_of (lg_streaks g) (c', m'))" for c' m' using assms by (simp add: guard_ok_def streaks_ok_def)
  have "streak_entry t (streak_fails c' m' (h @ [Succeeded c m])) (map_of (AList.delete (c, m) (lg_streaks g)) (c', m'))" for c' m'
    using e [of c' m'] by (auto simp: streak_entry_def [of _ "[]"])
  then have "streaks_ok t (h @ [Succeeded c m]) (lg_streaks (record_success c m g))"
    using assms subset_trans [OF delete_sub [of "(c, m)" "lg_streaks g"]]
    by (simp add: guard_ok_def streaks_ok_def record_success_def distinct_delete del: logs_append(5))
  then show ?thesis using assms by (auto simp: guard_ok_def clients_ok_def origin_ok_def record_success_def)
qed

lemma check_streak_ok:
  assumes "guard_ok now h g" and "check_streak c m now g = (g1, w)"
  shows "guard_ok now h g1"
    and "w = None \<longleftrightarrow> (let ts = streak_fails c m h in ts = [] \<or> STREAK_DECAY \<le> now - last ts \<or> streak_delay (run_length ts) \<le> now - last ts)"
proof -
  have e: "streak_entry now (streak_fails c' m' h) (map_of (lg_streaks g) (c', m'))" for c' m' using assms(1) by (simp add: guard_ok_def streaks_ok_def)
  show "w = None \<longleftrightarrow> (let ts = streak_fails c m h in ts = [] \<or> STREAK_DECAY \<le> now - last ts \<or> streak_delay (run_length ts) \<le> now - last ts)"
    using assms(2) e [of c m] by (auto simp: check_streak_def streak_entry_def Let_def delay_saturated [simplified] split: option.splits if_splits)
  consider "g1 = g" | "g1 = g\<lparr>lg_streaks := AList.delete (c, m) (lg_streaks g)\<rparr>" "STREAK_DECAY \<le> now - last (streak_fails c m h)"
    using assms(2) e [of c m] by (auto simp: check_streak_def streak_entry_def Let_def split: option.splits if_splits)
  then show "guard_ok now h g1"
  proof cases
    case 2
    then have "streak_entry now (streak_fails c' m' h) (map_of (lg_streaks g1) (c', m'))" for c' m'
      using e [of c' m'] by (auto simp: streak_entry_def)
    moreover have "distinct (map fst (lg_streaks g1))" "fst ` set (lg_streaks g1) \<subseteq> failing h"
      using assms(1) 2(1) subset_trans [OF delete_sub [of "(c, m)" "lg_streaks g"]] by (simp_all add: guard_ok_def streaks_ok_def distinct_delete)
    ultimately show ?thesis using assms(1) 2(1) by (simp add: guard_ok_def streaks_ok_def)
  qed (use assms(1) in simp)
qed

lemma check_client_ok:
  assumes "guard_ok now h g" and "check_client c now g = (g1, w)"
  shows "guard_ok now h g1"
    and "w = None \<longleftrightarrow> (let ts = recent CLIENT_WINDOW now (client_fails c h) in length ts < CLIENT_WINDOW_FAILURES \<or> CLIENT_SPACING \<le> now - last ts)"
proof -
  have e: "client_entry now (client_fails c' h) (map_of (lg_clients g) c')" for c' using assms(1) by (simp add: guard_ok_def clients_ok_def)
  show "w = None \<longleftrightarrow> (let ts = recent CLIENT_WINDOW now (client_fails c h) in length ts < CLIENT_WINDOW_FAILURES \<or> CLIENT_SPACING \<le> now - last ts)"
  proof (cases "map_of (lg_clients g) c")
    case None
    then show ?thesis using assms(2) e [of c]
      by (auto simp: check_client_def client_entry_def recent_def CLIENT_WINDOW_FAILURES_def)
  next
    case (Some x)
    then have "cw.stands now (client_fails c h) x" using e [of c] by (simp add: client_entry_def)
    from cw.stands_full [OF this] show ?thesis
      using assms(2) Some by (auto simp: check_client_def Let_def not_le split: if_splits)
  qed
  consider "g1 = g" | x where "map_of (lg_clients g) c = Some x" "g1 = g\<lparr>lg_clients := AList.update c (prune_window now CLIENT_WINDOW x) (lg_clients g)\<rparr>"
    using assms(2) by (auto simp: check_client_def Let_def split: option.splits if_splits)
  then show "guard_ok now h g1"
  proof cases
    case (2 x)
    then have "client_entry now (client_fails c' h) (map_of (lg_clients g1) c')" for c'
      using e [of c'] cw.stands_prune by (auto simp: client_entry_def)
    moreover have "c \<in> fst ` set (lg_clients g)" using 2(1) by (simp add: map_of_in_keys)
    then have "distinct (map fst (lg_clients g1))" "fst ` set (lg_clients g1) \<subseteq> fst ` failing h"
      using assms(1) 2(2) by (auto simp: guard_ok_def clients_ok_def distinct_update dom_update)
    ultimately show ?thesis using assms(1) 2(2) by (simp add: guard_ok_def clients_ok_def)
  qed (use assms(1) in simp)
qed

lemma check_origin_ok:
  assumes "guard_ok now h g" and "check_origin c now g = (g1, w)"
  shows "w = None \<Longrightarrow> guard_ok now (h @ [Admitted c m now]) g1" and "w \<noteq> None \<Longrightarrow> guard_ok now (h @ [Refused c m now]) g1"
    and "w = None \<longleftrightarrow> length (recent ENGINEER_WINDOW now (origin_fails (ck_origin c) h)) \<le> ENGINEER_WINDOW_FAILURES \<or>
       admits (ck_origin c) h = [] \<or> ENGINEER_SPACING \<le> now - last (admits (ck_origin c) h)"
proof -
  let ?b = "origin_of (ck_origin c) g"
  have st: "ew.stands now (origin_fails (ck_origin c) h) (ob_failures ?b)"
    and la: "ob_last_admitted ?b = (if admits (ck_origin c) h = [] then None else Some (last (admits (ck_origin c) h)))"
    using assms(1) by (simp_all add: guard_ok_def origin_ok_def)
  show "w = None \<longleftrightarrow> length (recent ENGINEER_WINDOW now (origin_fails (ck_origin c) h)) \<le> ENGINEER_WINDOW_FAILURES \<or>
       admits (ck_origin c) h = [] \<or> ENGINEER_SPACING \<le> now - last (admits (ck_origin c) h)"
    using assms(2) ew.stands_full(1) [OF st] la by (auto simp: check_origin_def Let_def split: option.splits if_splits)
  have "guard_ok now (h @ [e]) (origin_mut (ck_origin c) (?b\<lparr>ob_failures := prune_window now ENGINEER_WINDOW (ob_failures ?b)\<rparr>) g)"
    if "e = Refused c m now" for e
    using assms(1) ew.stands_prune that by (auto simp: guard_ok_def streaks_ok_def clients_ok_def origin_ok_def)
  moreover have "guard_ok now (h @ [e]) (origin_mut (ck_origin c) (?b\<lparr>ob_failures := prune_window now ENGINEER_WINDOW (ob_failures ?b), ob_last_admitted := Some now\<rparr>) g)"
    if "e = Admitted c m now" for e
    using assms(1) ew.stands_prune that by (auto simp: guard_ok_def streaks_ok_def clients_ok_def origin_ok_def)
  ultimately show "w = None \<Longrightarrow> guard_ok now (h @ [Admitted c m now]) g1" and "w \<noteq> None \<Longrightarrow> guard_ok now (h @ [Refused c m now]) g1"
    using assms(2) by (auto simp: check_origin_def Let_def split: option.splits if_splits)
qed

lemma check_ok:
  assumes "guard_ok now h g" and "check c m now g = (g', r)"
  shows "r = Inr () \<longleftrightarrow> admissible c m now h"
    and "guard_ok now (h @ [if r = Inr () then Admitted c m now else Refused c m now]) g'"
proof -
  have rf: "guard_ok now (h @ [Refused c m now]) x" if "guard_ok now h x" for x
    using that by (simp add: guard_ok_def streaks_ok_def clients_ok_def origin_ok_def)
  obtain g1 w1 where 1: "check_streak c m now g = (g1, w1)" by (cases "check_streak c m now g")
  obtain g2 w2 where 2: "check_client c now g1 = (g2, w2)" by (cases "check_client c now g1")
  obtain g3 w3 where 3: "check_origin c now g2 = (g3, w3)" by (cases "check_origin c now g2")
  note k1 = check_streak_ok [OF assms(1) 1]
  note k2 = check_client_ok [OF k1(1) 2]
  note k3 = check_origin_ok [OF k2(1) 3]
  show "r = Inr () \<longleftrightarrow> admissible c m now h"
    using assms(2) k1(2) k2(2) k3(3) unfolding admissible_def
    by (auto simp: check_def 1 2 3 Let_def split: option.splits)
  show "guard_ok now (h @ [if r = Inr () then Admitted c m now else Refused c m now]) g'"
    using assms(2) rf [OF k1(1)] rf [OF k2(1)] k3(1,2) by (auto simp: check_def 1 2 3 split: option.splits)
qed

lemma guard_runs_ok: "guard_runs g h \<Longrightarrow> sorted (instants h @ [now]) \<Longrightarrow> roomy h \<Longrightarrow> guard_ok now h g"
proof (induction arbitrary: now rule: guard_runs.induct)
  case (admitted g h c m t g')
  then have "guard_ok t h g" "t \<le> now" using roomy_prefix by (auto simp: sorted_append)
  then show ?case using check_ok(2) [OF _ admitted.hyps(2)] guard_later by fastforce
next
  case (refused g h c m t g' w)
  then have "guard_ok t h g" "t \<le> now" using roomy_prefix by (auto simp: sorted_append)
  then show ?case using check_ok(2) [OF _ refused.hyps(2)] guard_later by fastforce
next
  case (failed g h c m t g' e)
  then have "guard_ok t h g" "t \<le> now" "\<forall>x \<in> set (instants h). x \<le> t" using roomy_prefix by (auto simp: sorted_append)
  then show ?case using failure_ok [of t h g c m] failed guard_later by fastforce
next
  case (succeeded g h c m)
  then show ?case using success_ok roomy_prefix by fastforce
qed (rule new_ok)

subsection \<open>No lockout\<close>

text \<open>Every refusal names a wait within the bound, whatever the guard holds.\<close>

lemma check_wait:
  assumes "check c m now g = (g', Inl w)"
  shows "0 < w \<and> w \<le> MAX_DELAY"
  using assms delay_bound
  by (auto simp: check_def check_streak_def check_client_def check_origin_def Let_def MAX_DELAY_def CLIENT_SPACING_def ENGINEER_SPACING_def secs_def
      intro: le_trans [OF diff_le_self] split: option.splits if_splits prod.splits)

definition instants_le :: "nat \<Rightarrow> guard \<Rightarrow> bool" where
  "instants_le T g =
     ((\<forall>k s. map_of (lg_streaks g) k = Some s \<longrightarrow> sk_last_failure s \<le> T) \<and>
      (\<forall>c w. map_of (lg_clients g) c = Some w \<longrightarrow> (\<forall>t \<in> set w. t \<le> T)) \<and>
      (\<forall>o' t. ob_last_admitted (origin_of o' g) = Some t \<longrightarrow> t \<le> T))"

lemma set_prune: "set (prune_window now span w) \<subseteq> set w"
  by (auto simp: prune_dropWhile dest: set_dropWhileD)

lemma set_push: "set (push_window cap now w) \<subseteq> insert now (set w)"
  by (cases w) (auto simp: push_window_def Let_def)

lemma check_instants: "instants_le T g \<Longrightarrow> t \<le> T \<Longrightarrow> instants_le T (fst (check c m t g))"
proof -
  assume i: "instants_le T g" and t: "t \<le> T"
  have 1: "instants_le T (fst (check_streak c m t x))" if "instants_le T x" for x
    using that by (auto simp: check_streak_def instants_le_def Let_def split: option.split)
  have 2: "instants_le T (fst (check_client c t x))" if "instants_le T x" for x
    using that set_prune by (fastforce simp: check_client_def instants_le_def Let_def split: option.split)
  have 3: "instants_le T (fst (check_origin c t x))" if "instants_le T x" for x
    using that t by (auto simp: check_origin_def instants_le_def Let_def split: option.split)
  show ?thesis using 1 [OF i] 2 [OF 1 [OF i]] 3 [OF 2 [OF 1 [OF i]]] by (simp add: check_def case_prod_beta split: option.split)
qed

lemma evict_sub: "map_of (evict_oldest_streak m) k = Some s \<Longrightarrow> map_of m k = Some s"
  "map_of (evict_oldest_client cm) c = Some w \<Longrightarrow> map_of cm c = Some w"
  by (auto simp: evict_oldest_streak_def evict_oldest_client_def split: option.splits prod.splits if_splits)

lemma failure_instants:
  assumes "instants_le T g" and "t \<le> T"
  shows "instants_le T (fst (record_failure c m t g))"
proof -
  have 1: "instants_le T (count_streak c m t x)" if "instants_le T x" for x
    using that assms(2) by (auto simp: count_streak_def instants_le_def Let_def next_streak_def dest: evict_sub)
  have 2: "instants_le T (count_client c t x)" if i: "instants_le T x" for x
  proof -
    define M where "M = (if map_of (lg_clients x) c = None \<and> MAX_TRACKED \<le> length (lg_clients x) then evict_oldest_client (lg_clients x) else lg_clients x)"
    let ?w = "case map_of M c of Some w \<Rightarrow> w | None \<Rightarrow> []"
    have m: "map_of M c' = Some w \<Longrightarrow> \<forall>t \<in> set w. t \<le> T" for c' w
    proof -
      assume a: "map_of M c' = Some w"
      have "M = lg_clients x \<or> M = evict_oldest_client (lg_clients x)" by (simp add: M_def)
      then have "map_of (lg_clients x) c' = Some w" using a evict_sub(2) [of "lg_clients x" c' w] by (elim disjE) simp_all
      then show ?thesis using i unfolding instants_le_def by blast
    qed
    then have "\<forall>t \<in> set ?w. t \<le> T" by (cases "map_of M c") auto
    then have "\<forall>t \<in> set (prune_window t CLIENT_WINDOW ?w). t \<le> T" using set_prune by blast
    then have "\<forall>t' \<in> set (push_window CLIENT_WINDOW_FAILURES t (prune_window t CLIENT_WINDOW ?w)). t' \<le> T"
      using set_push assms(2) by blast
    then show ?thesis using i m unfolding count_client_def Let_def M_def [symmetric] by (simp add: instants_le_def)
  qed
  have 3: "instants_le T (fst (count_origin c t (count_stats c x)))" if "instants_le T x" for x
    using that by (auto simp: count_origin_def count_stats_def instants_le_def Let_def)
  show ?thesis unfolding record_failure_def by (intro 3 2 1 assms(1))
qed

lemma runs_instants: "guard_runs g h \<Longrightarrow> \<forall>t \<in> set (instants h). t \<le> T \<Longrightarrow> instants_le T g"
proof (induction rule: guard_runs.induct)
  case fresh
  then show ?case by (simp add: instants_le_def guard_new_def origin_of_def split: origin.split)
next
  case (admitted g h c m t g')
  then show ?case using check_instants [of T g t c m] by simp
next
  case (refused g h c m t g' w)
  then show ?case using check_instants [of T g t c m] by simp
next
  case (failed g h c m t g' e)
  then show ?case using failure_instants [of T g t c m] by simp
next
  case (succeeded g h c m)
  then show ?case by (auto simp: record_success_def instants_le_def)
qed

lemma check_after_silence:
  assumes "instants_le T g" and "T + MAX_DELAY \<le> now"
  shows "snd (check c m now g) = Inr ()"
proof -
  have i: "instants_le T (fst (check_streak c m now g))"
    using assms(1) by (auto simp: check_streak_def instants_le_def Let_def split: option.split)
  have 1: "snd (check_streak c m now g) = None"
  proof (cases "map_of (lg_streaks g) (c, m)")
    case (Some s)
    then have "sk_last_failure s \<le> T" using assms(1) by (auto simp: instants_le_def)
    then have "streak_delay (sk_failures s) \<le> now - sk_last_failure s" using assms(2) delay_bound [of "sk_failures s"] by linarith
    then show ?thesis using Some by (simp add: check_streak_def Let_def)
  qed (simp add: check_streak_def)
  have 2: "snd (check_client c now x) = None" if x: "instants_le T x" for x
  proof (cases "map_of (lg_clients x) c")
    case (Some w)
    have "CLIENT_SPACING \<le> now - last (prune_window now CLIENT_WINDOW w)" if "prune_window now CLIENT_WINDOW w \<noteq> []"
    proof -
      have "last (prune_window now CLIENT_WINDOW w) \<in> set w" using that set_prune last_in_set by blast
      then have "last (prune_window now CLIENT_WINDOW w) \<le> T" using x Some by (auto simp: instants_le_def)
      then show ?thesis using assms(2) by (simp add: MAX_DELAY_def CLIENT_SPACING_def)
    qed
    then show ?thesis using Some by (cases "prune_window now CLIENT_WINDOW w = []") (simp_all add: check_client_def Let_def CLIENT_WINDOW_FAILURES_def)
  qed (simp add: check_client_def)
  have i2: "instants_le T (fst (check_client c now x))" if "instants_le T x" for x
    using that set_prune by (fastforce simp: check_client_def instants_le_def Let_def split: option.split)
  have 3: "snd (check_origin c now x) = None" if x: "instants_le T x" for x
  proof (cases "ob_last_admitted (origin_of (ck_origin c) x)")
    case (Some l)
    then have "l \<le> T" using x by (auto simp: instants_le_def)
    then have "ENGINEER_SPACING \<le> now - l" using assms(2) by (simp add: MAX_DELAY_def ENGINEER_SPACING_def secs_def)
    then show ?thesis using Some by (simp add: check_origin_def Let_def)
  qed (simp add: check_origin_def Let_def)
  show ?thesis using 1 2 [OF i] 3 [OF i2 [OF i]] by (simp add: check_def case_prod_beta split: option.split)
qed

subsection \<open>Properties\<close>


definition demo_client :: client_key where
  "demo_client = from_request (V4 0x7f000001) (Some (V6 0x2001 0xdb8 1 2 3 4 5 6)) (host_new [])"

definition demo_fail :: "nat \<Rightarrow> guard \<Rightarrow> guard" where
  "demo_fail t g = fst (record_failure demo_client ''anna'' (secs t) g)"

lemma demo_fails:
  "guard_runs (demo_fail 4 (demo_fail 3 (demo_fail 2 guard_new)))
     [Failed demo_client ''anna'' (secs 2), Failed demo_client ''anna'' (secs 3), Failed demo_client ''anna'' (secs 4)]"
proof -
  have f: "guard_runs (demo_fail t g) (h @ [Failed demo_client ''anna'' (secs t)])" if "guard_runs g h" for g h t
    using guard_runs.failed [OF that] by (metis demo_fail_def prod.collapse)
  from f [OF f [OF f [OF fresh]], of 4 3 2] show ?thesis by simp
qed


text \<open>
  C11. Never a lockout: whatever calls came before, in whatever order of their instants and with
  however many clients, a refused attempt is told to wait for a positive time of at most 60 s, and an
  attempt at least 60 s after the last of those instants is admitted.
\<close>

theorem login_never_locked:
  assumes "guard_runs g h" and "\<forall>t \<in> set (instants h). t \<le> latest"
  shows "(\<forall>now g' w. check c m now g = (g', Inl w) \<longrightarrow> 0 < w \<and> w \<le> secs 60) \<and>
    (\<forall>now. latest + secs 60 \<le> now \<longrightarrow> snd (check c m now g) = Inr ())"
  using check_wait check_after_silence [OF runs_instants [OF assms]] by (auto simp: MAX_DELAY_def)

theorem login_never_locked_witness:
  "snd (check demo_client ''anna'' (secs 64) (demo_fail 4 (demo_fail 3 (demo_fail 2 guard_new)))) = Inr ()"
  using login_never_locked [OF demo_fails, of "secs 4" demo_client "''anna''"]
  by (simp add: instants_def map_filter_def secs_def)

end
