(* ===== verification/AccessProps.thy ===== *)
theory AccessProps
  imports Access LoginProps
begin

text \<open>What a login grants, and that the PIN store never holds anything but hashes its file holds too.\<close>

subsection \<open>Tokens\<close>

text \<open>
  What is documented of the libraries: base64url has no dot and reads back, the header is an object
  with its \<open>alg\<close>, and claims that were written parse to themselves.
\<close>

definition jwt_ok :: "jwt_lib \<Rightarrow> bool" where
  "jwt_ok jl =
     ((\<forall>b. jl_decode jl (jl_encode jl b) = Some b \<and> CHR ''.'' \<notin> set (jl_encode jl b)) \<and>
      (\<exists>h. jl_object jl HS256_HEADER = Some h \<and> map_of h ''alg'' = Some (JString ''HS256'') \<and> map_of h ''crit'' = None))"

definition claims_read_back :: "jwt_lib \<Rightarrow> auth_claims \<Rightarrow> bool" where
  "claims_read_back jl c =
     (case jl_write jl c of
        Some b \<Rightarrow> (\<exists>fs. jl_object jl b = Some fs \<and> map_of fs ''exp'' = Some (JNumber (Some (au_exp c))) \<and>
                       map_of fs ''aud'' = None \<and> jl_claims jl fs = Some c)
      | None \<Rightarrow> True)"

lemma split_once_app: "c \<notin> set a \<Longrightarrow> split_once c (a @ c # b) = Some (a, b)"
  by (induction a) (auto simp: split_once_def)

lemma rsplit_once_app: "c \<notin> set b \<Longrightarrow> rsplit_once c (a @ c # b) = Some (a, b)"
  using split_once_app [of c "rev b" "rev a"] by (simp add: rsplit_once_def)

lemma token_reads_back:
  assumes "jwt_ok jl" and "claims_read_back jl c" and "encode_hs256 jl c secret = Inr token"
  shows "decode_hs256 jl token secret now = (if au_exp c < sat_sub64 now LEEWAY_SECS then Inl Expired else Inr c)"
proof -
  from assms(3) obtain b tag where b: "jl_write jl c = Some b"
    and tag: "jwt_mac jl secret (jl_encode jl HS256_HEADER @ ''.'' @ jl_encode jl b) = Some tag"
    and tok: "token = (jl_encode jl HS256_HEADER @ ''.'' @ jl_encode jl b) @ CHR ''.'' # jl_encode jl tag"
    by (auto simp: encode_hs256_def signing_input_def signed_def)
  have dot: "CHR ''.'' \<notin> set (jl_encode jl x)" and rd: "jl_decode jl (jl_encode jl x) = Some x" for x
    using assms(1) by (simp_all add: jwt_ok_def)
  have r: "rsplit_once (CHR ''.'') token = Some (jl_encode jl HS256_HEADER @ CHR ''.'' # jl_encode jl b, jl_encode jl tag)"
    unfolding tok using rsplit_once_app [OF dot, of "jl_encode jl HS256_HEADER @ CHR ''.'' # jl_encode jl b" tag] by simp
  have l: "split_once (CHR ''.'') (jl_encode jl HS256_HEADER @ CHR ''.'' # jl_encode jl b) = Some (jl_encode jl HS256_HEADER, jl_encode jl b)"
    by (rule split_once_app) (rule dot)
  show ?thesis using assms(1,2) b tag
    by (auto simp: decode_hs256_def r l object_def unbase_def rd jwt_ok_def claims_read_back_def as_str_def as_u64_def)
qed

text \<open>A token is taken only with the tag of its own text under a secret that is not empty.\<close>

lemma token_sound:
  assumes "decode_hs256 jl token secret now = Inr c"
  shows "secret \<noteq> [] \<and> (\<exists>input signature tag. rsplit_once (CHR ''.'') token = Some (input, signature) \<and>
    jl_hmac jl secret input = Some tag \<and> jl_decode jl signature = Some tag)"
  using assms by (auto simp: decode_hs256_def jwt_mac_def unbase_def split: if_splits)

subsection \<open>PIN hashes\<close>

datatype pin_op = OpRemove bool string | OpDropArchived bool | OpEngineer bool string | OpMember bool string string

fun pin_step :: "pin_op \<Rightarrow> pin_store \<Rightarrow> pin_store" where
  "pin_step (OpRemove ok m) s = fst (remove_member ok m s)"
| "pin_step (OpDropArchived ok) s = fst (drop_archived ok s)"
| "pin_step (OpEngineer ok phc) s = fst (set_engineer_hash ok phc s)"
| "pin_step (OpMember ok m phc) s = fst (set_member_hash ok m phc s)"

definition all_hashed :: "pin_file \<Rightarrow> bool" where
  "all_hashed f =
     ((\<forall>h \<in> set_option (pf_engineer f). prefix ''$argon2id$'' h) \<and>
      (\<forall>h \<in> ran (map_of (pf_members f)) \<union> ran (map_of (pf_archived f)). prefix ''$argon2id$'' h))"

definition pins_ok :: "pin_store \<Rightarrow> bool" where
  "pins_ok s =
     (bm_ok (pf_members (pn_file s)) \<and> all_hashed (pn_file s) \<and> all_hashed (pn_disk s) \<and>
      pf_engineer (pn_disk s) = pf_engineer (pn_file s) \<and> pf_members (pn_disk s) = pf_members (pn_file s))"

lemma bm_restore:
  assumes "bm_ok m"
  shows "map_of m k = Some v \<Longrightarrow> bm_insert k v (bm_remove k m) = m"
    and "map_of m k = Some v \<Longrightarrow> bm_insert k v (bm_insert k w m) = m"
    and "map_of m k = None \<Longrightarrow> bm_remove k (bm_insert k w m) = m"
  by (rule bm_eqI; use assms in \<open>simp_all add: bm_insert_ok bm_remove_ok map_of_bm_remove fun_eq_iff fun_upd_def\<close>)+

lemma ran_remove: "ran (map_of (bm_remove k m)) \<subseteq> ran (map_of m)"
  by (auto simp: ran_def map_of_bm_remove split: if_splits)

text \<open>A step leaves the store as it was, or has made both the value and the file new.\<close>

definition both :: "pin_file \<Rightarrow> pin_store \<Rightarrow> pin_store" where
  "both f s = s\<lparr>pn_file := f, pn_disk := f\<lparr>pf_archived := []\<rparr>\<rparr>"

lemma both_ok: "bm_ok (pf_members f) \<Longrightarrow> all_hashed f \<Longrightarrow> pins_ok (both f s)"
  by (auto simp: pins_ok_def both_def all_hashed_def)

lemma member_step:
  assumes "bm_ok (pf_members (pn_file s))"
  shows "fst (set_member_hash ok m phc s) = s \<or>
    prefix ''$argon2id$'' phc \<and> fst (set_member_hash ok m phc s) = both ((pn_file s)\<lparr>pf_members := bm_insert m phc (pf_members (pn_file s))\<rparr>) s"
proof (cases "bind_r (check_member m) (\<lambda>_. check_phc m phc)")
  case (Inr u)
  then have phc: "prefix ''$argon2id$'' phc" by (auto simp: check_phc_def split: if_splits)
  show ?thesis
  proof (cases ok)
    case True
    then show ?thesis using Inr phc by (simp add: set_member_hash_def pins_save_def Let_def both_def)
  next
    case False
    then show ?thesis using Inr bm_restore(2,3) [OF assms, of m]
      by (cases "map_of (pf_members (pn_file s)) m") (simp_all add: set_member_hash_def pins_save_def Let_def)
  qed
qed (simp add: set_member_hash_def)

lemma remove_step:
  assumes "bm_ok (pf_members (pn_file s))"
  shows "fst (remove_member ok m s) = s \<or>
    fst (remove_member ok m s) = both ((pn_file s)\<lparr>pf_members := bm_remove m (pf_members (pn_file s))\<rparr>) s"
  using bm_restore(1) [OF assms, of m]
  by (simp add: remove_member_def pins_save_def both_def split: sum.split option.split)

lemma pin_step_ok: "pins_ok s \<Longrightarrow> pins_ok (pin_step x s)"
proof -
  assume p: "pins_ok s"
  then have bo: "bm_ok (pf_members (pn_file s))" and hs: "all_hashed (pn_file s)" by (simp_all add: pins_ok_def)
  show "pins_ok (pin_step x s)"
  proof (cases x)
    case (OpRemove ok m)
    have "all_hashed ((pn_file s)\<lparr>pf_members := bm_remove m (pf_members (pn_file s))\<rparr>)"
      using hs ran_remove [of m "pf_members (pn_file s)"] by (auto simp: all_hashed_def)
    then show ?thesis using remove_step [OF bo, of ok m] p bo both_ok by (auto simp: OpRemove bm_remove_ok)
  next
    case (OpMember ok m phc)
    have "all_hashed ((pn_file s)\<lparr>pf_members := bm_insert m phc (pf_members (pn_file s))\<rparr>)" if "prefix ''$argon2id$'' phc"
      using hs that by (auto simp: all_hashed_def ran_def split: if_splits)
    then show ?thesis using member_step [OF bo, of ok m phc] p bo both_ok by (auto simp: OpMember bm_insert_ok)
  next
    case (OpDropArchived ok)
    then show ?thesis using p by (auto simp: drop_archived_def pins_save_def pins_ok_def all_hashed_def Let_def)
  next
    case (OpEngineer ok phc)
    then show ?thesis using p by (auto simp: set_engineer_hash_def check_phc_def pins_save_def pins_ok_def all_hashed_def Let_def)
  qed
qed

lemma load_hashed: "pins_load f = Inr f' \<Longrightarrow> all_hashed f"
proof -
  assume a: "pins_load f = Inr f'"
  have fold: "fold_r (\<lambda>(m, phc) _. check_phc m phc) xs () = Inr u \<Longrightarrow> \<forall>h \<in> snd ` set xs. prefix ''$argon2id$'' h" for xs u
    by (induction xs) (auto simp: check_phc_def split: if_splits)
  have "ran (map_of m) \<subseteq> snd ` set m" for m :: "(string, string) btree" by (auto simp: ran_def image_iff dest!: map_of_SomeD) force
  then show ?thesis using a fold [of "pf_members f @ pf_archived f"]
    by (fastforce simp: pins_load_def all_hashed_def check_phc_def split: option.splits if_splits)
qed

subsection \<open>Logins\<close>

lemma issue_reads_back:
  assumes "jwt_ok jl" and "claims_read_back jl \<lparr>au_sub = m, au_engineer = en, au_exp = now + MEMBER_TOKEN_EXPIRY_SECS, au_iat = now\<rparr>"
    and "issue_token jl secret now m en = Inr r"
  shows "lr_member r = m \<and> lr_engineer r = en \<and>
    decode_hs256 jl (lr_token r) secret t =
      (if now + MEMBER_TOKEN_EXPIRY_SECS < sat_sub64 t LEEWAY_SECS then Inl Expired
       else Inr \<lparr>au_sub = m, au_engineer = en, au_exp = now + MEMBER_TOKEN_EXPIRY_SECS, au_iat = now\<rparr>)"
proof -
  have e: "(if en then ENGINEER_TOKEN_EXPIRY_SECS else MEMBER_TOKEN_EXPIRY_SECS) = MEMBER_TOKEN_EXPIRY_SECS" by (simp add: ENGINEER_TOKEN_EXPIRY_SECS_def MEMBER_TOKEN_EXPIRY_SECS_def)
  let ?c = "\<lparr>au_sub = m, au_engineer = en, au_exp = now + MEMBER_TOKEN_EXPIRY_SECS, au_iat = now\<rparr>"
  obtain tok where "encode_hs256 jl ?c secret = Inr tok" "r = \<lparr>lr_token = tok, lr_member = m, lr_engineer = en, lr_expires_in = MEMBER_TOKEN_EXPIRY_SECS\<rparr>"
    using assms(3) by (auto simp: issue_token_def e Let_def split: sum.splits)
  then show ?thesis using token_reads_back [OF assms(1,2), of secret tok t] by simp
qed

text \<open>An accepted login: the attempt was admitted, a stored hash verified the PIN, and the token is of its owner.\<close>

lemma login_cases:
  assumes "login jl verify me member pin ap = (ap', Inr r)"
  obtains g where "check (from_request (me_peer me) (me_cf me) (ap_host ap)) member (me_now me) (ap_guard ap) = (g, Inr ())"
    "ap' = ap\<lparr>ap_guard := record_success (from_request (me_peer me) (me_cf me) (ap_host ap)) member g\<rparr>"
    "verify_optional verify pin (pf_engineer (pn_file (ap_pins ap))) \<and> issue_token jl (ap_jwt_secret ap) (me_unix me) ENGINEER True = Inr r \<or>
     \<not> verify_optional verify pin (pf_engineer (pn_file (ap_pins ap))) \<and>
       verify_optional verify pin (member_hash (pn_file (ap_pins ap)) member) \<and> (member = [] \<or> member_exists ap member) \<and>
       issue_token jl (ap_jwt_secret ap) (me_unix me) member False = Inr r"
proof -
  have me: "member_exists (ap\<lparr>ap_guard := g\<rparr>) m = member_exists ap m" for g m by (simp add: member_exists_def split: option.split)
  show ?thesis
    using assms that
    by (auto simp: login_def Let_def with_hasher_def match_pin_def me split: sum.splits prod.splits if_splits pin_match.splits hashing.splits)
qed

lemma bearer_access:
  "extract_claims_from_header jl (Some (''Bearer '' @ token)) secret now =
     (case decode_hs256 jl token secret now of Inr c \<Rightarrow> Inr c | Inl _ \<Rightarrow> Inl (error_response 401 ''UNAUTHORIZED''))"
  by (simp add: extract_claims_from_header_def extract_claims_def split: sum.split)

subsection \<open>Properties\<close>

text \<open>
  C12. What a login grants: a login is accepted only when its budgets admit the attempt and the PIN
  verifies against a stored hash, the engineer's (then the token is the engineer's) or the named member's.
  With that token, until its seven days and the minute of leeway are over, the engineer reaches every
  member's mixer and a member exactly their own; afterwards nobody does. (The libraries behave as
  documented and the claims are readable.)
\<close>

theorem login_grants:
  assumes "login jl verify me member pin ap = (ap', Inr r)" and "jwt_ok jl" and "\<And>c. claims_read_back jl c"
  shows "snd (check (from_request (me_peer me) (me_cf me) (ap_host ap)) member (me_now me) (ap_guard ap)) = Inr () \<and>
    verify_optional verify pin (if lr_engineer r then pf_engineer (pn_file (ap_pins ap)) else member_hash (pn_file (ap_pins ap)) member) \<and>
    lr_member r = (if lr_engineer r then ENGINEER else member) \<and>
    (let open' = (\<lambda>t. \<not> me_unix me + 604800 < sat_sub64 t 60);
         answer = (\<lambda>who t. verify_member_access jl (Some (''Bearer '' @ lr_token r)) who (ap_jwt_secret ap) t)
     in \<forall>who t. if open' t
                then (if lr_engineer r \<or> who = member then \<exists>c. answer who t = Inr c \<and> au_sub c = lr_member r
                      else answer who t = Inl (error_response 403 ''FORBIDDEN''))
                else answer who t = Inl (error_response 401 ''UNAUTHORIZED''))"
proof -
  have w: "MEMBER_TOKEN_EXPIRY_SECS = 604800" "LEEWAY_SECS = 60" by (simp_all add: MEMBER_TOKEN_EXPIRY_SECS_def LEEWAY_SECS_def)
  note back' = issue_reads_back [OF assms(2,3), unfolded w]
  from assms(1) show ?thesis
  proof (cases rule: login_cases)
    case (1 g)
    from 1(3) consider
        (engineer) "verify_optional verify pin (pf_engineer (pn_file (ap_pins ap)))" "issue_token jl (ap_jwt_secret ap) (me_unix me) ENGINEER True = Inr r"
      | (member) "verify_optional verify pin (member_hash (pn_file (ap_pins ap)) member)" "issue_token jl (ap_jwt_secret ap) (me_unix me) member False = Inr r"
      by blast
    then show ?thesis
    proof cases
      case engineer
      show ?thesis using engineer(1) 1(1) back' [OF engineer(2)] by (simp add: verify_member_access_def bearer_access [simplified] Let_def)
    next
      case member
      show ?thesis using member(1) 1(1) back' [OF member(2)] by (auto simp: verify_member_access_def bearer_access [simplified] Let_def)
    qed
  qed
qed

text \<open>A sample of the libraries and of an application with one member.\<close>

fun demo_unescape :: "string \<Rightarrow> string option" where
  "demo_unescape [] = Some []"
| "demo_unescape (c # s) =
     (if c = CHR ''-''
      then (case s of
              d # s' \<Rightarrow> map_option (Cons (if d = CHR ''d'' then CHR ''.'' else CHR ''-'')) (demo_unescape s')
            | [] \<Rightarrow> None)
      else map_option (Cons c) (demo_unescape s))"

fun demo_escape :: "string \<Rightarrow> string" where
  "demo_escape [] = []"
| "demo_escape (c # s) = (if c = CHR ''.'' then ''-d'' else if c = CHR ''-'' then ''--'' else [c]) @ demo_escape s"

definition demo_claims :: auth_claims where
  "demo_claims = \<lparr>au_sub = ''anna'', au_engineer = False, au_exp = 604801, au_iat = 1\<rparr>"

definition demo_jwt :: jwt_lib where
  "demo_jwt =
     \<lparr>jl_encode = demo_escape, jl_decode = demo_unescape,
      jl_object = (\<lambda>b. if b = HS256_HEADER then Some [(''alg'', JString ''HS256'')]
                       else if b = ''claims'' then Some [(''exp'', JNumber (Some 604801))] else None),
      jl_write = (\<lambda>c. if c = demo_claims then Some ''claims'' else None),
      jl_claims = (\<lambda>_. Some demo_claims), jl_hmac = (\<lambda>key text. Some (key @ text))\<rparr>"

lemma demo_escape_ok: "demo_unescape (demo_escape b) = Some b \<and> CHR ''.'' \<notin> set (demo_escape b)"
  by (induction b) auto

lemma demo_jwt_ok: "jwt_ok demo_jwt" "claims_read_back demo_jwt c"
  using demo_escape_ok by (simp_all add: jwt_ok_def claims_read_back_def demo_jwt_def HS256_HEADER_def demo_claims_def)

definition demo_app :: app_state where
  "demo_app =
     \<lparr>ap_guard = guard_new, ap_host = [], ap_jwt_secret = ''secret'',
      ap_site = config_default\<lparr>cf_members := [\<lparr>sb_id = ''anna'', sb_name = ''Anna'', sb_mix = ''member1''\<rparr>]\<rparr>,
      ap_roster = None,
      ap_pins = \<lparr>pn_file = \<lparr>pf_engineer = None, pf_members = [(''anna'', ''$argon2id$1234'')], pf_archived = []\<rparr>,
                 pn_disk = \<lparr>pf_engineer = None, pf_members = [(''anna'', ''$argon2id$1234'')], pf_archived = []\<rparr>\<rparr>\<rparr>"

definition demo_verify :: "string \<Rightarrow> string \<Rightarrow> bool" where
  "demo_verify pin phc = (phc = ''$argon2id$'' @ pin)"

definition demo_meets :: meets where
  "demo_meets = \<lparr>me_now = 0, me_unix = 1, me_peer = V4 0x0a000002, me_cf = None, me_hash = HashRan, me_hash_new = HashRan, me_writes = True\<rparr>"

lemma demo_login: "\<exists>ap' r. login demo_jwt demo_verify demo_meets ''anna'' ''1234'' demo_app = (ap', Inr r) \<and> lr_engineer r = False"
  by (simp add: login_def demo_app_def demo_meets_def check_def check_streak_def check_client_def check_origin_def guard_new_def origin_of_def
      origin_mut_def from_request_def host_contains_def budget_ip_def Let_def member_exists_def config_member_def with_hasher_def match_pin_def
      verify_optional_def member_hash_def demo_verify_def issue_token_def encode_hs256_def signing_input_def demo_jwt_def demo_claims_def
      MEMBER_TOKEN_EXPIRY_SECS_def jwt_mac_def)

theorem login_grants_witness:
  "\<exists>ap' r. login demo_jwt demo_verify demo_meets ''anna'' ''1234'' demo_app = (ap', Inr r) \<and>
     verify_member_access demo_jwt (Some (''Bearer '' @ lr_token r)) ''ben'' ''secret'' 1 = Inl (error_response 403 ''FORBIDDEN'')"
proof -
  obtain ap' r where l: "login demo_jwt demo_verify demo_meets ''anna'' ''1234'' demo_app = (ap', Inr r)" "lr_engineer r = False"
    using demo_login by blast
  from login_grants [OF l(1) demo_jwt_ok]
  have "\<forall>who t. if \<not> me_unix demo_meets + 604800 < sat_sub64 t 60
      then (if lr_engineer r \<or> who = ''anna''
            then \<exists>c. verify_member_access demo_jwt (Some (''Bearer '' @ lr_token r)) who (ap_jwt_secret demo_app) t = Inr c \<and> au_sub c = lr_member r
            else verify_member_access demo_jwt (Some (''Bearer '' @ lr_token r)) who (ap_jwt_secret demo_app) t = Inl (error_response 403 ''FORBIDDEN''))
      else verify_member_access demo_jwt (Some (''Bearer '' @ lr_token r)) who (ap_jwt_secret demo_app) t = Inl (error_response 401 ''UNAUTHORIZED'')"
    unfolding Let_def by blast
  from this [rule_format, of 1 "''ben''"] l show ?thesis by (simp add: demo_meets_def demo_app_def sat_sub64_def)
qed

text \<open>
  C13. The PIN store holds hashes only, and its file the same: from a loaded file on, through any
  changes and removals of hashes, each with a write that may fail, every value held or written is an
  argon2id string, and the engineer's and the members' hashes in memory are the ones in the file.
\<close>

theorem pins_match_file:
  assumes "pins_load f = Inr f'" and "bm_ok (pf_members f)"
  shows "pins_ok (fold pin_step xs \<lparr>pn_file = f', pn_disk = f\<rparr>)"
proof -
  have f: "f' = f" using assms(1) by (auto simp: pins_load_def)
  then have "pins_ok \<lparr>pn_file = f', pn_disk = f\<rparr>" using load_hashed [OF assms(1)] assms(2) by (simp add: pins_ok_def)
  then show ?thesis by (induction xs arbitrary: rule: rev_induct) (simp_all add: pin_step_ok)
qed

theorem pins_match_file_witness:
  "pins_ok (fold pin_step [OpMember False ''anna'' ''$argon2id$x'', OpMember True ''ben'' ''$argon2id$y'', OpRemove True ''anna'']
     \<lparr>pn_file = \<lparr>pf_engineer = None, pf_members = [(''anna'', ''$argon2id$1234'')], pf_archived = []\<rparr>,
      pn_disk = \<lparr>pf_engineer = None, pf_members = [(''anna'', ''$argon2id$1234'')], pf_archived = []\<rparr>\<rparr>)"
  by (rule pins_match_file) (simp_all add: pins_load_def check_phc_def bm_ok_def)

end
