(* ===== verification/RosterProps.thy ===== *)
theory RosterProps
  imports Roster TopologyProps "HOL-Library.Multiset"
begin

text \<open>
  What an accepted roster is: the checks as a whole against a declarative description, the login
  tiles a lineup gives, and that no name of a person reaches a message.
\<close>

subsection \<open>Lists of problems\<close>

lemma numbered_sets [simp]: "snd ` set (numbered xs) = set xs"
  by (metis list.set_map numbered_def map_snd_enumerate)

lemma concat_numbered: "(\<And>n x. f (n, x) = [] \<longleftrightarrow> P x) \<Longrightarrow> concat (map f (numbered xs)) = [] \<longleftrightarrow> (\<forall>x \<in> set xs. P x)"
proof -
  assume f: "\<And>n x. f (n, x) = [] \<longleftrightarrow> P x"
  have "concat (map f (numbered xs)) = [] \<longleftrightarrow> (\<forall>y \<in> set (numbered xs). P (snd y))" using f by (simp add: split_paired_all) (metis prod.collapse)
  also have "\<dots> \<longleftrightarrow> (\<forall>x \<in> snd ` set (numbered xs). P x)" by (simp only: ball_simps)
  finally show ?thesis by simp
qed

text \<open>Loops that remember what they have seen.\<close>

lemma people_empty:
  "people_problems ids ps = [] \<longleftrightarrow>
     (\<forall>p \<in> set (map snd ps). valid_person_id (pe_id p) \<and> pe_id p \<noteq> ENGINEER \<and> \<not> is_blank (pe_name p)) \<and>
     distinct (map (pe_id \<circ> snd) ps) \<and> set (map (pe_id \<circ> snd) ps) \<inter> ids = {}"
  by (induction ids ps rule: people_problems.induct) auto

definition claims :: "(nat \<times> person) list \<Rightarrow> string list" where
  "claims ps = List.map_filter (pe_takes_over \<circ> snd) ps"

lemma claims_Cons: "claims (x # ps) = (case pe_takes_over (snd x) of Some t \<Rightarrow> t # claims ps | None \<Rightarrow> claims ps)"
  by (simp add: claims_def map_filter_simps split: option.split)

definition may_take :: "person \<Rightarrow> bool" where
  "may_take p = (case pe_takes_over p of Some t \<Rightarrow> valid_person_id t \<and> t \<noteq> pe_id p \<and> t \<noteq> ENGINEER | None \<Rightarrow> True)"

lemma takes_over_empty:
  "takes_over_problems taken ps = [] \<longleftrightarrow>
     (\<forall>x \<in> set ps. may_take (snd x)) \<and> distinct (claims ps) \<and> set (claims ps) \<inter> dom taken = {}"
proof (induction ps arbitrary: taken)
  case (Cons x ps)
  obtain i p where x: "x = (i, p)" by (cases x)
  show ?case
  proof (cases "pe_takes_over p")
    case (Some t)
    have "takes_over_problems (taken(t \<mapsto> who_of i p)) ps = [] \<longleftrightarrow>
        (\<forall>x \<in> set ps. may_take (snd x)) \<and> distinct (claims ps) \<and> set (claims ps) \<inter> insert t (dom taken) = {}"
      using Cons.IH [of "taken(t \<mapsto> who_of i p)"] by (simp del: fun_upd_apply)
    then show ?thesis using Some by (auto simp: x claims_Cons may_take_def simp del: fun_upd_apply split: option.splits)
  qed (simp add: x claims_Cons may_take_def Cons.IH)
qed (simp add: claims_def map_filter_simps)

lemma set_problems_empty:
  "set_problems lineup ids placed xs = [] \<longleftrightarrow>
     set (map (snd \<circ> snd) xs) \<subseteq> ids \<and> distinct (map (snd \<circ> snd) xs) \<and> set (map (snd \<circ> snd) xs) \<inter> placed = {}"
proof (induction xs arbitrary: placed)
  case (Cons x xs)
  obtain j s p where "x = (j, s, p)" by (cases x)
  then show ?case using Cons.IH [of "insert p placed"] by (simp add: Let_def) blast
qed simp

lemma own_problems_empty:
  "own_problems what seen xs = [] \<longleftrightarrow> (\<forall>i \<in> set (map snd xs). valid_id i) \<and> distinct (map snd xs) \<and> set (map snd xs) \<inter> seen = {}"
  by (induction what seen xs rule: own_problems.induct) (auto simp: Let_def)

lemma map_snd_numbered [simp]: "map snd (numbered xs) = xs" "map (f \<circ> snd) (numbered xs) = map f xs"
  by (simp_all add: numbered_def) (metis list.map_comp map_snd_enumerate)

lemma claims_numbered: "claims (numbered ps) = List.map_filter pe_takes_over ps"
proof -
  have "List.map_filter (f \<circ> snd) xs = List.map_filter f (map snd xs)" for f :: "person \<Rightarrow> string option" and xs :: "(nat \<times> person) list"
    by (induction xs) (simp_all add: map_filter_simps split: option.split)
  then show ?thesis by (simp add: claims_def)
qed

subsection \<open>Accepted rosters\<close>

definition wearers :: "lineup \<Rightarrow> string set" where
  "wearers l = set (map snd (lu_sets l))"

definition within_equipment :: "equipment option \<Rightarrow> lineup \<Rightarrow> bool" where
  "within_equipment eq l =
     (case eq of
        Some e \<Rightarrow> set (bm_keys (lu_sets l)) \<subseteq> set (eq_sets e) \<and>
          (\<forall>x \<in> set (lu_inputs l). li_owner (snd x) \<noteq> None \<longrightarrow> fst x \<in> set (eq_inputs e))
      | None \<Rightarrow> True)"

text \<open>
  A lineup: a valid id, a name, each of its sets worn by a person who wears no other, leaders and
  owners among the wearers, inputs with names, a main one not empty, all within the equipment.
\<close>

definition lineup_wf :: "string set \<Rightarrow> equipment option \<Rightarrow> lineup \<Rightarrow> bool" where
  "lineup_wf ids eq l =
     (valid_lineup_id (lu_id l) \<and> \<not> is_blank (lu_name l) \<and> (lu_main l \<longrightarrow> lu_sets l \<noteq> []) \<and>
      wearers l \<subseteq> ids \<and> distinct (map snd (lu_sets l)) \<and> set (lu_leaders l) \<subseteq> wearers l \<and>
      (\<forall>(_, i) \<in> set (lu_inputs l). \<not> is_blank (li_name i) \<and> set_option (li_owner i) \<subseteq> wearers l) \<and>
      within_equipment eq l)"

definition roster_wf :: "roster \<Rightarrow> bool" where
  "roster_wf r =
     (ro_people r \<noteq> [] \<and>
      (\<forall>p \<in> set (ro_people r). valid_person_id (pe_id p) \<and> pe_id p \<noteq> ENGINEER \<and> \<not> is_blank (pe_name p) \<and> may_take p) \<and>
      distinct (map pe_id (ro_people r)) \<and> distinct (List.map_filter pe_takes_over (ro_people r)) \<and>
      (\<forall>l \<in> set (ro_lineups r). lineup_wf (pe_id ` set (ro_people r)) (ro_equipment r) l) \<and>
      distinct (map lu_id (ro_lineups r)) \<and> length (filter lu_main (ro_lineups r)) = 1 \<and>
      (case ro_equipment r of
         Some e \<Rightarrow> list_all valid_id (eq_sets e @ eq_inputs e) \<and> distinct (eq_sets e) \<and> distinct (eq_inputs e)
       | None \<Rightarrow> True))"

lemma leader_problems_empty: "leader_problems lineup placed leaders = [] \<longleftrightarrow> set leaders \<subseteq> placed"
  unfolding leader_problems_def by (subst concat_numbered [of _ "\<lambda>x. x \<in> placed"]) auto

lemma input_problems_empty:
  "input_problems lineup placed inputs = [] \<longleftrightarrow>
     (\<forall>(_, i) \<in> set inputs. \<not> is_blank (li_name i) \<and> set_option (li_owner i) \<subseteq> placed)"
  unfolding input_problems_def
  by (subst concat_numbered [of _ "\<lambda>(_, i). \<not> is_blank (li_name i) \<and> set_option (li_owner i) \<subseteq> placed"])
    (auto simp: Let_def split: option.split)

lemma equipment_lineup_empty:
  "equipment_lineup_problems e lineup l = [] \<longleftrightarrow> within_equipment (Some e) l"
proof -
  have a: "concat (map (\<lambda>(j, set'). flag (\<not> has_set e set')
       (lineup @ '': set '' @ quoted set' (valid_id set') j @ '' is not in [equipment] sets'')) (numbered xs)) = [] \<longleftrightarrow>
       (\<forall>s \<in> set xs. s \<in> set (eq_sets e))" for xs
    by (rule concat_numbered) (auto simp: has_set_def list_ex_iff)
  have b: "concat (map (\<lambda>(k, input, i). flag (li_owner i \<noteq> None \<and> \<not> has_input e input)
       (lineup @ '': input '' @ quoted input (valid_id input) k @ '' has an owner and is not in [equipment] inputs'')) (numbered ys)) = [] \<longleftrightarrow>
       (\<forall>x \<in> set ys. li_owner (snd x) \<noteq> None \<longrightarrow> fst x \<in> set (eq_inputs e))" for ys
    by (rule concat_numbered) (auto simp: has_input_def list_ex_iff)
  show ?thesis unfolding equipment_lineup_problems_def within_equipment_def append_is_Nil_conv a b by (simp add: subset_iff Ball_def)
qed

lemma lineups_empty:
  "lineups_problems r ids seen ls = [] \<longleftrightarrow>
     (\<forall>l \<in> set (map snd ls). lineup_wf ids (ro_equipment r) l) \<and> distinct (map (lu_id \<circ> snd) ls) \<and> set (map (lu_id \<circ> snd) ls) \<inter> seen = {}"
proof (induction ls arbitrary: seen)
  case (Cons x ls)
  obtain i l where x: "x = (i, l)" by (cases x)
  have "(case ro_equipment r of Some e \<Rightarrow> equipment_lineup_problems e lineup l | None \<Rightarrow> []) = [] \<longleftrightarrow> within_equipment (ro_equipment r) l" for lineup
    by (simp add: equipment_lineup_empty within_equipment_def split: option.split)
  then have "lineups_problems r ids seen (x # ls) = [] \<longleftrightarrow>
      lineup_wf ids (ro_equipment r) l \<and> lu_id l \<notin> seen \<and> lineups_problems r ids (insert (lu_id l) seen) ls = []"
    by (simp add: x Let_def set_problems_empty leader_problems_empty input_problems_empty lineup_wf_def wearers_def conj_ac)
  then show ?case using Cons.IH [of "insert (lu_id l) seen"] by (simp add: x) metis
qed simp

lemma problems_empty: "problems r = [] \<longleftrightarrow> roster_wf r"
proof -
  have "(case ro_equipment r of
      Some e \<Rightarrow> own_problems ''set'' {} (numbered (eq_sets e)) @ own_problems ''input'' {} (numbered (eq_inputs e)) | None \<Rightarrow> []) = [] \<longleftrightarrow>
    (case ro_equipment r of
       Some e \<Rightarrow> list_all valid_id (eq_sets e @ eq_inputs e) \<and> distinct (eq_sets e) \<and> distinct (eq_inputs e) | None \<Rightarrow> True)"
    by (auto simp: own_problems_empty list_all_iff split: option.split)
  moreover have "(\<forall>x \<in> set (numbered ps). may_take (snd x)) \<longleftrightarrow> (\<forall>p \<in> set ps. may_take p)" for ps
    by (metis image_iff numbered_sets)
  ultimately show ?thesis
    unfolding problems_def roster_wf_def Let_def by (auto simp: people_empty takes_over_empty lineups_empty claims_numbered)
qed

text \<open>Against the site: sets are stereo mixes but the engineer's, inputs are the site's, leaders' sets hear the others.\<close>

definition hears_of :: "topology_facts \<Rightarrow> string \<Rightarrow> string set" where
  "hears_of f s = (case mix_fact_of f s of Some m \<Rightarrow> set (mf_hears m) | None \<Rightarrow> {})"

definition site_wf :: "topology_facts \<Rightarrow> roster \<Rightarrow> bool" where
  "site_wf f r =
     ((\<forall>l \<in> set (ro_lineups r).
         list_all (is_set f) (bm_keys (lu_sets l)) \<and> set (bm_keys (lu_inputs l)) \<subseteq> set (tf_inputs f) \<and>
         (\<forall>leader \<in> set (lu_leaders l). \<forall>s \<in> set_option (lineup_set_of l leader).
            set (bm_keys (lu_sets l)) - {s} \<subseteq> hears_of f s)) \<and>
      (case ro_equipment r of Some e \<Rightarrow> list_all (is_set f) (eq_sets e) \<and> set (eq_inputs e) \<subseteq> set (tf_inputs f) | None \<Rightarrow> True))"

lemma not_sets_empty: "not_sets f w sets = [] \<longleftrightarrow> list_all (is_set f) sets"
  unfolding not_sets_def list_all_iff by (rule concat_numbered) simp

lemma not_inputs_empty: "not_inputs f w inputs = [] \<longleftrightarrow> set inputs \<subseteq> set (tf_inputs f)"
  unfolding not_inputs_def subset_iff by (subst concat_numbered [of _ "\<lambda>i. i \<in> set (tf_inputs f)"]) auto

lemma leader_hearing_empty:
  "leader_hearing f i l = [] \<longleftrightarrow>
     (\<forall>leader \<in> set (lu_leaders l). \<forall>s \<in> set_option (lineup_set_of l leader). set (bm_keys (lu_sets l)) - {s} \<subseteq> hears_of f s)"
  unfolding leader_hearing_def Let_def
proof (rule concat_numbered, unfold split, goal_cases)
  case (1 k leader)
  have "concat (map (\<lambda>(j, other). flag (other \<noteq> s \<and> other \<notin> set (case mix_fact_of f s of Some m \<Rightarrow> mf_hears m | None \<Rightarrow> [])) (msg j other))
      (numbered xs)) = [] \<longleftrightarrow> (\<forall>x \<in> set xs. x \<noteq> s \<longrightarrow> x \<in> hears_of f s)" for s msg xs
    by (rule concat_numbered) (auto simp: hears_of_def split: option.split)
  then show ?case by (cases "lineup_set_of l leader") (auto simp del: concat_eq_Nil_conv)
qed

lemma against_empty: "problems_against r f = [] \<longleftrightarrow> site_wf f r"
proof -
  have "(case ro_equipment r of Some e \<Rightarrow> not_sets f ''[equipment]'' (eq_sets e) @ not_inputs f ''[equipment]'' (eq_inputs e) | None \<Rightarrow> []) = [] \<longleftrightarrow>
      (case ro_equipment r of Some e \<Rightarrow> list_all (is_set f) (eq_sets e) \<and> set (eq_inputs e) \<subseteq> set (tf_inputs f) | None \<Rightarrow> True)"
    by (simp add: not_sets_empty not_inputs_empty split: option.split)
  moreover have "concat (map (\<lambda>(i, l). not_sets f (lineup_name_of i l) (bm_keys (lu_sets l)) @ not_inputs f (lineup_name_of i l) (bm_keys (lu_inputs l)) @
       leader_hearing f i l) (numbered ls)) = [] \<longleftrightarrow>
     (\<forall>l \<in> set ls. list_all (is_set f) (bm_keys (lu_sets l)) \<and> set (bm_keys (lu_inputs l)) \<subseteq> set (tf_inputs f) \<and>
         (\<forall>leader \<in> set (lu_leaders l). \<forall>s \<in> set_option (lineup_set_of l leader).
            set (bm_keys (lu_sets l)) - {s} \<subseteq> hears_of f s))" for ls
    by (rule concat_numbered) (simp add: not_sets_empty not_inputs_empty leader_hearing_empty)
  ultimately show ?thesis by (simp add: problems_against_def site_wf_def del: concat_eq_Nil_conv)
qed

subsection \<open>Names\<close>

text \<open>Rosters that differ in the names of their people, lineups and inputs only.\<close>

definition same_named :: "string \<Rightarrow> string \<Rightarrow> bool" where
  "same_named a b = (is_blank a = is_blank b)"

definition person_like :: "person \<Rightarrow> person \<Rightarrow> bool" where
  "person_like p q = (pe_id p = pe_id q \<and> pe_takes_over p = pe_takes_over q \<and> same_named (pe_name p) (pe_name q))"

definition input_like :: "string \<times> lineup_input \<Rightarrow> string \<times> lineup_input \<Rightarrow> bool" where
  "input_like i j = (fst i = fst j \<and> li_owner (snd i) = li_owner (snd j) \<and> same_named (li_name (snd i)) (li_name (snd j)))"

definition lineup_like :: "lineup \<Rightarrow> lineup \<Rightarrow> bool" where
  "lineup_like l k =
     (lu_id l = lu_id k \<and> lu_main l = lu_main k \<and> lu_leaders l = lu_leaders k \<and> lu_sets l = lu_sets k \<and>
      same_named (lu_name l) (lu_name k) \<and> list_all2 input_like (lu_inputs l) (lu_inputs k))"

definition roster_like :: "roster \<Rightarrow> roster \<Rightarrow> bool" where
  "roster_like r s =
     (list_all2 person_like (ro_people r) (ro_people s) \<and> list_all2 lineup_like (ro_lineups r) (ro_lineups s) \<and>
      ro_equipment r = ro_equipment s)"

lemma map_like: "list_all2 R xs ys \<Longrightarrow> (\<And>x y. R x y \<Longrightarrow> f x = g y) \<Longrightarrow> map f xs = map g ys"
  by (induction rule: list_all2_induct) auto

lemma numbered_like: "list_all2 R xs ys \<Longrightarrow> (\<And>n x y. R x y \<Longrightarrow> f (n, x) = g (n, y)) \<Longrightarrow> map f (numbered xs) = map g (numbered ys)"
proof -
  have "list_all2 R xs ys \<Longrightarrow> (\<And>n x y. R x y \<Longrightarrow> f (n, x) = g (n, y)) \<Longrightarrow> map f (enumerate k xs) = map g (enumerate k ys)" for k
    by (induction xs ys arbitrary: k rule: list_all2_induct) auto
  then show "list_all2 R xs ys \<Longrightarrow> (\<And>n x y. R x y \<Longrightarrow> f (n, x) = g (n, y)) \<Longrightarrow> ?thesis" by (simp add: numbered_def)
qed

lemma who_like: "person_like p q \<Longrightarrow> who_of i p = who_of i q"
  by (simp add: person_like_def who_of_def)

lemma people_like: "list_all2 person_like ps qs \<Longrightarrow> people_problems ids (enumerate k ps) = people_problems ids (enumerate k qs)"
  by (induction ps qs arbitrary: ids k rule: list_all2_induct) (auto simp: who_like, auto simp: person_like_def same_named_def)

lemma takes_like: "list_all2 person_like ps qs \<Longrightarrow> takes_over_problems taken (enumerate k ps) = takes_over_problems taken (enumerate k qs)"
proof (induction ps qs arbitrary: taken k rule: list_all2_induct)
  case (Cons p ps q qs)
  have "who_of k p = who_of k q" "pe_takes_over p = pe_takes_over q" "pe_id p = pe_id q"
    using Cons.hyps(1) who_like by (simp_all add: person_like_def)
  then show ?case using Cons.IH by (simp del: fun_upd_apply split: option.split)
qed simp

lemma lineups_like:
  "list_all2 lineup_like ls ks \<Longrightarrow> ro_equipment r = ro_equipment s \<Longrightarrow>
     lineups_problems r ids seen (enumerate n ls) = lineups_problems s ids seen (enumerate n ks)"
proof (induction ls ks arbitrary: seen n rule: list_all2_induct)
  case (Cons l ls k ks)
  have l: "lu_id l = lu_id k" "lu_main l = lu_main k" "lu_leaders l = lu_leaders k" "lu_sets l = lu_sets k" "is_blank (lu_name l) = is_blank (lu_name k)"
    and i: "list_all2 input_like (lu_inputs l) (lu_inputs k)"
    using Cons.hyps(1) by (simp_all add: lineup_like_def same_named_def)
  have "input_problems lineup placed (lu_inputs l) = input_problems lineup placed (lu_inputs k)" for lineup placed
    unfolding input_problems_def
    by (rule arg_cong [OF numbered_like [OF i]]) (auto simp: input_like_def same_named_def Let_def)
  moreover have "equipment_lineup_problems e lineup l = equipment_lineup_problems e lineup k" for e lineup
    unfolding equipment_lineup_problems_def l
    by (intro arg_cong2 [of _ _ _ _ "(@)"] arg_cong [of _ _ concat] numbered_like [OF i] refl) (auto simp: input_like_def)
  ultimately show ?case using Cons.IH Cons.prems l by (cases "ro_equipment s") (simp_all add: Let_def lineup_name_of_def)
qed simp

lemma leader_hearing_like:
  "lu_id l = lu_id k \<Longrightarrow> lu_leaders l = lu_leaders k \<Longrightarrow> lu_sets l = lu_sets k \<Longrightarrow> leader_hearing f i l = leader_hearing f i k"
  by (simp only: leader_hearing_def lineup_set_of_def)

lemma against_like:
  assumes "list_all2 lineup_like ls ks"
  shows "map (\<lambda>(i, l). not_sets f (lineup_name_of i l) (bm_keys (lu_sets l)) @ not_inputs f (lineup_name_of i l) (bm_keys (lu_inputs l)) @
       leader_hearing f i l) (numbered ls) =
     map (\<lambda>(i, l). not_sets f (lineup_name_of i l) (bm_keys (lu_sets l)) @ not_inputs f (lineup_name_of i l) (bm_keys (lu_inputs l)) @
       leader_hearing f i l) (numbered ks)"
proof (rule numbered_like [OF assms])
  fix n l k assume a: "lineup_like l k"
  then have "bm_keys (lu_inputs l) = bm_keys (lu_inputs k)"
    unfolding bm_keys_def by (intro map_like [of input_like]) (auto simp: lineup_like_def input_like_def)
  then show "(case (n, l) of (i, l) \<Rightarrow> not_sets f (lineup_name_of i l) (bm_keys (lu_sets l)) @ not_inputs f (lineup_name_of i l) (bm_keys (lu_inputs l)) @
       leader_hearing f i l) =
     (case (n, k) of (i, l) \<Rightarrow> not_sets f (lineup_name_of i l) (bm_keys (lu_sets l)) @ not_inputs f (lineup_name_of i l) (bm_keys (lu_inputs l)) @
       leader_hearing f i l)"
    using a leader_hearing_like [of l k f n] by (simp add: lineup_like_def lineup_name_of_def)
qed

lemma like_ids: "roster_like r s \<Longrightarrow> map pe_id (ro_people r) = map pe_id (ro_people s)"
  "roster_like r s \<Longrightarrow> map lu_main (ro_lineups r) = map lu_main (ro_lineups s)" "roster_like r s \<Longrightarrow> ro_people r = [] \<longleftrightarrow> ro_people s = []"
  by (auto simp: roster_like_def person_like_def lineup_like_def intro: map_like)

lemma length_filter_map: "length (filter f xs) = length (filter id (map f xs))"
  by (induction xs) auto

subsection \<open>Login tiles\<close>

lemma find_distinct: "distinct (map f xs) \<Longrightarrow> x \<in> set xs \<Longrightarrow> find (\<lambda>y. f y = f x) xs = Some x"
  by (induction xs) (auto simp: image_iff)

lemma roster_person_in: "roster_wf r \<Longrightarrow> p \<in> set (ro_people r) \<Longrightarrow> roster_person r (pe_id p) = Some p"
  by (simp add: roster_person_def roster_wf_def find_distinct)

lemma plays_wearer: "plays l p \<longleftrightarrow> p \<in> wearers l"
  by (force simp: plays_def lineup_set_of_def wearers_def find_None_iff)

lemma lineup_members_ids:
  assumes "roster_wf r" and "l \<in> set (ro_lineups r)"
  shows "map sb_id (lineup_members r l) = map snd (lu_sets l)"
    and "m \<in> set (lineup_members r l) \<Longrightarrow> \<exists>p \<in> set (ro_people r). sb_id m = pe_id p \<and> sb_name m = pe_name p"
proof -
  have sub: "set (map snd (lu_sets l)) \<subseteq> pe_id ` set (ro_people r)"
    using assms by (simp add: roster_wf_def lineup_wf_def wearers_def)
  have "map sb_id (List.map_filter (\<lambda>(s, p). map_option (\<lambda>q. \<lparr>sb_id = pe_id q, sb_name = pe_name q, sb_mix = s\<rparr>) (roster_person r p)) xs) = map snd xs \<and>
      (\<forall>m \<in> set (List.map_filter (\<lambda>(s, p). map_option (\<lambda>q. \<lparr>sb_id = pe_id q, sb_name = pe_name q, sb_mix = s\<rparr>) (roster_person r p)) xs).
         \<exists>p \<in> set (ro_people r). sb_id m = pe_id p \<and> sb_name m = pe_name p)"
    if "set (map snd xs) \<subseteq> pe_id ` set (ro_people r)" for xs
    using that
  proof (induction xs)
    case (Cons x xs)
    obtain s p where x: "x = (s, p)" by (cases x)
    with Cons.prems obtain q where "q \<in> set (ro_people r)" "pe_id q = p" by auto
    then show ?case using Cons roster_person_in [OF assms(1), of q] by (auto simp: x map_filter_simps)
  qed (simp add: map_filter_simps)
  from this [OF sub] show "map sb_id (lineup_members r l) = map snd (lu_sets l)"
    "m \<in> set (lineup_members r l) \<Longrightarrow> \<exists>p \<in> set (ro_people r). sb_id m = pe_id p \<and> sb_name m = pe_name p"
    by (auto simp: lineup_members_def)
qed

lemma state_lineup_some:
  assumes "roster_wf (rs_roster st)"
  obtains l where "state_lineup st = Some l" "l \<in> set (ro_lineups (rs_roster st))"
proof -
  have "filter lu_main (ro_lineups (rs_roster st)) \<noteq> []" using assms by (auto simp: roster_wf_def)
  then have "roster_main (rs_roster st) \<noteq> None" by (auto simp: roster_main_def find_None_iff filter_empty_conv)
  then have "state_lineup st \<noteq> None" by (auto simp: state_lineup_def split: option.split)
  then obtain l where l: "state_lineup st = Some l" by auto
  then have "l \<in> set (ro_lineups (rs_roster st))"
    by (auto simp: state_lineup_def roster_lineup_def roster_main_def find_Some_iff split: option.splits)
  with l that show ?thesis by blast
qed

lemma mset_split: "distinct xs \<Longrightarrow> distinct ys \<Longrightarrow> set xs \<subseteq> set ys \<Longrightarrow> mset xs + mset (filter (\<lambda>y. y \<notin> set xs) ys) = mset ys"
proof -
  assume "distinct xs" "distinct ys" "set xs \<subseteq> set ys"
  then have "mset (filter (\<lambda>y. y \<in> set xs) ys) = mset xs" by (intro set_eq_iff_mset_eq_distinct [THEN iffD1]) auto
  then show ?thesis by (metis mset_filter multiset_partition)
qed

subsection \<open>Properties\<close>

text \<open>
  A roster without problems, on its own and against the site, is exactly a sound one: at least
  one person, valid lower-case ids that are never the engineer's, all different; every lineup with its
  own valid id, each of its sets worn by one person who wears no other, leaders and owners among its
  wearers, within the declared equipment; exactly one main lineup, not empty; every set a stereo mix of
  the site other than the engineer's, every input the site's, and a leader's set hears every other set.
\<close>

theorem roster_accepted:
  "problems r = [] \<and> problems_against r f = [] \<longleftrightarrow> roster_wf r \<and> site_wf f r"
  by (simp add: problems_empty against_empty)

definition demo_roster :: "string \<Rightarrow> roster" where
  "demo_roster n =
     \<lparr>ro_people = [\<lparr>pe_id = ''anna'', pe_name = n, pe_takes_over = None\<rparr>, \<lparr>pe_id = ''ben'', pe_name = ''Ben'', pe_takes_over = None\<rparr>],
      ro_lineups = [\<lparr>lu_id = ''main'', lu_name = ''Main'', lu_main = True, lu_leaders = [''anna''], lu_sets = [(''member1'', ''anna'')], lu_inputs = []\<rparr>],
      ro_equipment = None\<rparr>"

lemma demo_roster_wf: "problems (demo_roster ''Anna'') = []"
  unfolding demo_roster_def by code_simp

text \<open>
  Every person is one login tile: under an accepted roster, whichever lineup is active (or the
  main one in its place), the tiles are the people of the roster and the site's engineer, each once; a
  person's tile has the person's name, and says they play exactly when they wear a set of that lineup.
\<close>

theorem tiles_are_people:
  assumes "problems (rs_roster st) = []"
  shows "\<exists>l ts. state_lineup st = Some l \<and> login_tiles cf (Some st) = Some ts \<and>
    mset (map pv_id ts) = mset (map pe_id (ro_people (rs_roster st))) + mset (map sb_id (engineer_entry cf)) \<and>
    (\<forall>t \<in> set ts. pv_id t \<noteq> ENGINEER \<longrightarrow>
      (\<exists>p \<in> set (ro_people (rs_roster st)). pv_id t = pe_id p \<and> pv_name t = pe_name p \<and> pv_playing t = plays l (pe_id p)))"
proof -
  let ?r = "rs_roster st"
  have wf: "roster_wf ?r" using assms by (simp add: problems_empty)
  obtain l where l: "state_lineup st = Some l" "l \<in> set (ro_lineups ?r)" using state_lineup_some [OF wf] by blast
  let ?ms = "lineup_members ?r l" and ?rest = "filter (\<lambda>p. \<not> plays l (pe_id p)) (ro_people ?r)"
  have ids: "map sb_id ?ms = map snd (lu_sets l)" and mem: "\<And>m. m \<in> set ?ms \<Longrightarrow> \<exists>p \<in> set (ro_people ?r). sb_id m = pe_id p \<and> sb_name m = pe_name p"
    using lineup_members_ids [OF wf l(2)] by simp_all
  have ne: "pe_id p \<noteq> ENGINEER" if "p \<in> set (ro_people ?r)" for p using wf that by (simp add: roster_wf_def)
  have eng: "filter (\<lambda>m. sb_id m \<noteq> ENGINEER) (engineer_entry cf) = []"
  proof (cases "config_member cf ENGINEER")
    case (Some m)
    then have "sb_id m = ENGINEER" by (auto simp: config_member_def find_Some_iff)
    then show ?thesis using Some by (simp add: engineer_entry_def)
  qed (simp add: engineer_entry_def)
  have ms: "filter (\<lambda>m. sb_id m \<noteq> ENGINEER) ?ms = ?ms" by (rule filter_True) (use mem ne in fastforce)
  define ts where "ts = map tile ?ms @ map (\<lambda>p. \<lparr>pv_id = pe_id p, pv_name = pe_name p, pv_playing = False\<rparr>) ?rest @ map tile (engineer_entry cf)"
  have ts: "login_tiles cf (Some st) = Some ts" by (simp add: login_tiles_def l(1) eng ms ts_def)
  have lw: "distinct (map snd (lu_sets l))" "set (map snd (lu_sets l)) \<subseteq> set (map pe_id (ro_people ?r))" "distinct (map pe_id (ro_people ?r))"
    using wf l(2) by (auto simp: roster_wf_def lineup_wf_def wearers_def)
  have "map pe_id ?rest = filter (\<lambda>y. y \<notin> set (map snd (lu_sets l))) (map pe_id (ro_people ?r))"
    by (simp add: filter_map o_def plays_wearer wearers_def)
  moreover have "map pv_id (map tile xs) = map sb_id xs"
    "map pv_id (map (\<lambda>p. \<lparr>pv_id = pe_id p, pv_name = pe_name p, pv_playing = False\<rparr>) ps) = map pe_id ps" for xs :: "site_member list" and ps :: "person list"
    by (simp_all add: tile_def)
  ultimately have "map pv_id ts = map snd (lu_sets l) @ filter (\<lambda>y. y \<notin> set (map snd (lu_sets l))) (map pe_id (ro_people ?r)) @ map sb_id (engineer_entry cf)"
    using ids by (simp only: ts_def map_append)
  then have "mset (map pv_id ts) = mset (map pe_id (ro_people ?r)) + mset (map sb_id (engineer_entry cf))"
    using mset_split [OF lw(1,3,2)] by (simp only: mset_append) (simp only: add.assoc [symmetric])
  moreover have "\<exists>p \<in> set (ro_people ?r). pv_id t = pe_id p \<and> pv_name t = pe_name p \<and> pv_playing t = plays l (pe_id p)"
    if "t \<in> set ts" "pv_id t \<noteq> ENGINEER" for t
  proof -
    from that consider m where "m \<in> set ?ms" "t = tile m" | p where "p \<in> set ?rest" "t = \<lparr>pv_id = pe_id p, pv_name = pe_name p, pv_playing = False\<rparr>"
      using eng by (auto simp: ts_def tile_def filter_empty_conv)
    then show ?thesis
    proof cases
      case (1 m)
      then have "sb_id m \<in> wearers l" using ids by (metis image_eqI list.set_map wearers_def)
      then show ?thesis using mem [OF 1(1)] 1(2) by (auto simp: tile_def plays_wearer)
    qed auto
  qed
  ultimately show ?thesis using l(1) ts by blast
qed

text \<open>
  No name reaches a message: two rosters that differ only in the names of people, lineups and
  inputs (a blank name in the same places) have the same problems, on their own and against a site.
\<close>

theorem problems_hide_names:
  assumes "roster_like r s"
  shows "problems r = problems s \<and> problems_against r f = problems_against s f"
proof -
  have p: "list_all2 person_like (ro_people r) (ro_people s)" and l: "list_all2 lineup_like (ro_lineups r) (ro_lineups s)"
    and e: "ro_equipment r = ro_equipment s" using assms by (simp_all add: roster_like_def)
  have "length (filter lu_main (ro_lineups r)) = length (filter lu_main (ro_lineups s))"
    using like_ids(2) [OF assms] length_filter_map by metis
  moreover have "set (map pe_id (ro_people r)) = set (map pe_id (ro_people s))" using like_ids(1) [OF assms] by simp
  ultimately have "problems r = problems s"
    unfolding problems_def Let_def numbered_def
    using people_like [OF p] takes_like [OF p] lineups_like [OF l e] like_ids(3) [OF assms] e by simp
  moreover have "problems_against r f = problems_against s f"
    unfolding problems_against_def against_like [OF l] e ..
  ultimately show ?thesis by simp
qed

end
