(* ===== verification/RosterFacts.thy ===== *)
theory RosterFacts
  imports RosterProps
begin

text \<open>
  The two ways the server learns what a roster needs of the site: from the site file's own table (with
  no engine running) and from the topology the engine announces after compiling that table.
\<close>

subsection \<open>Names of heard mixes\<close>

definition site_name :: "site \<Rightarrow> nat \<Rightarrow> string" where
  "site_name s i = sm_id (st_mixes s ! i)"

definition declares :: "site \<Rightarrow> nat \<Rightarrow> (string \<rightharpoonup> nat) \<Rightarrow> bool" where
  "declares s n d = (\<forall>name i. d name = Some i \<longrightarrow> i < n \<and> site_name s i = name)"

lemma heard_names:
  "fold_r (heard_step mid d) names h = Inr h' \<Longrightarrow> declares s n d \<Longrightarrow> map (site_name s) h' = map (site_name s) h @ names"
  by (induction names arbitrary: h) (auto simp: heard_step_def declares_def split: option.splits if_splits)

lemma peer_names:
  "fold_r (peer_step d ms e m mid) names h = Inr h' \<Longrightarrow> declares s n d \<Longrightarrow> map (site_name s) h' = map (site_name s) h @ names"
  by (induction names arbitrary: h) (auto simp: peer_step_def declares_def split: option.splits if_splits)

text \<open>A node of a mix as the site's table has it, its peers aside.\<close>

definition node_of :: "site \<Rightarrow> nat \<Rightarrow> mix_node \<Rightarrow> bool" where
  "node_of s j nd =
     (m_id nd = site_name s j \<and> m_mono nd = (length (sm_tx (st_mixes s ! j)) \<noteq> 2) \<and>
      map (site_name s) (m_mixes nd) = sm_mixes (st_mixes s ! j))"

definition built :: "site \<Rightarrow> nat \<Rightarrow> mix_acc \<Rightarrow> bool" where
  "built s n a = (declares s n (ma_declared a) \<and> length (ma_nodes a) = n \<and> (\<forall>j < n. node_of s j (ma_nodes a ! j)))"

lemma mix_step_built:
  assumes "built s n a" and "mix_step c (n, st_mixes s ! n) a = Inr a'"
  shows "built s (Suc n) a'"
proof -
  let ?mix = "st_mixes s ! n"
  from assms(2) obtain used heard where len: "1 \<le> length (sm_tx ?mix)" "length (sm_tx ?mix) \<le> 2"
    and heard: "fold_r (heard_step (sm_id ?mix) (ma_declared a)) (sm_mixes ?mix) [] = Inr heard"
    and a': "ma_declared a' = (ma_declared a)(sm_id ?mix \<mapsto> n)"
      "\<exists>nd. ma_nodes a' = ma_nodes a @ [nd] \<and> m_id nd = sm_id ?mix \<and> m_mono nd = (length (sm_tx ?mix) = 1) \<and> m_mixes nd = heard"
    by (auto simp: mix_step_def Let_def split: if_splits)
  have d: "declares s n (ma_declared a)" using assms(1) by (simp add: built_def)
  then have "declares s (Suc n) (ma_declared a')" by (auto simp: a'(1) declares_def site_name_def less_Suc_eq)
  moreover obtain nd where nd: "ma_nodes a' = ma_nodes a @ [nd]" "node_of s n nd"
    using a'(2) heard_names [OF heard d] len by (auto simp: node_of_def site_name_def)
  ultimately show ?thesis using assms(1) by (auto simp: built_def nth_append less_Suc_eq)
qed

lemma compile_mixes_built: "compile_mixes s = Inr a \<Longrightarrow> built s (length (st_mixes s)) a"
proof -
  assume a: "compile_mixes s = Inr a"
  have "built s (0 + length (st_mixes s)) a"
  proof (rule fold_r_enumerate [OF a [unfolded compile_mixes_def], where P = "built s"])
    show "built s 0 \<lparr>ma_tx = [], ma_used = {}, ma_declared = Map.empty, ma_nodes = []\<rparr>"
      by (simp add: built_def declares_def)
  next
    fix i t t' assume "built s (0 + i) t" "mix_step (st_channels s) (0 + i, st_mixes s ! i) t = Inr t'"
    then show "built s (Suc (0 + i)) t'" using mix_step_built by simp
  qed
  then show ?thesis by simp
qed

definition peered :: "site \<Rightarrow> nat \<Rightarrow> mix_node list \<Rightarrow> bool" where
  "peered s n ms =
     (length ms = length (st_mixes s) \<and> (\<forall>j < length ms. node_of s j (ms ! j)) \<and>
      (\<forall>j < n. map (site_name s) (m_peers (ms ! j)) = sm_peers (st_mixes s ! j)))"

lemma peers_step_peered:
  assumes "peered s n ms" and "declares s k d" and "peers_step d e (n, st_mixes s ! n) ms = Inr ms'" and "n < length (st_mixes s)"
  shows "peered s (Suc n) ms'"
proof -
  from assms(3) obtain peers where
    f: "fold_r (peer_step d ms e n (sm_id (st_mixes s ! n))) (sm_peers (st_mixes s ! n)) [] = Inr peers"
    and ms': "ms' = lmod ms n (\<lambda>nd. nd\<lparr>m_peers := peers\<rparr>)"
    by (auto simp: peers_step_def Let_def split: if_splits)
  have "map (site_name s) peers = sm_peers (st_mixes s ! n)" using peer_names [OF f assms(2)] by simp
  then show ?thesis using assms(1,4) by (auto simp: peered_def ms' nth_lmod node_of_def less_Suc_eq)
qed

lemma compile_peers_peered:
  assumes "compile_peers s a e = Inr ms" and "built s (length (st_mixes s)) a"
  shows "peered s (length (st_mixes s)) ms"
proof -
  have "peered s (0 + length (st_mixes s)) ms"
  proof (rule fold_r_enumerate [OF assms(1) [unfolded compile_peers_def], where P = "peered s"])
    show "peered s 0 (ma_nodes a)" using assms(2) by (simp add: peered_def built_def)
  next
    fix i t t' assume "i < length (st_mixes s)" "peered s (0 + i) t" "peers_step (ma_declared a) e (0 + i, st_mixes s ! i) t = Inr t'"
    then show "peered s (Suc (0 + i)) t'" using peers_step_peered [of s i t "length (st_mixes s)" "ma_declared a" e t'] assms(2)
      by (simp add: built_def)
  qed
  then show ?thesis by simp
qed

lemma map_filter_total: "(\<And>i. i \<in> set xs \<Longrightarrow> f i = Some (g i)) \<Longrightarrow> List.map_filter f xs = map g xs"
  by (induction xs) (simp_all add: map_filter_simps)

lemma shadows_nth:
  "i < length ms \<Longrightarrow> m_id (set_shadows ms ! i) = m_id (ms ! i) \<and> m_mono (set_shadows ms ! i) = m_mono (ms ! i) \<and>
     m_mixes (set_shadows ms ! i) = m_mixes (ms ! i) \<and> m_peers (set_shadows ms ! i) = m_peers (ms ! i)"
  by (simp add: set_shadows_def nth_enumerate_eq case_prod_beta)

subsection \<open>Property\<close>

text \<open>
  A roster is checked against the same facts with and without a running engine: for a site the
  engine compiles, the facts read from the site's own \<open>[engine]\<close> table are the facts of the topology
  the engine announces.
\<close>

theorem facts_agree:
  assumes "compile digest s = Inr t"
  shows "facts_of_info (info t) = facts_of s"
proof -
  from assms obtain seen ia ig ma ms cs e where p:
    "fold_r check_id (site_ids s) {} = Inr seen" "compile_inputs s = Inr ia"
    "compile_groups s (ia_nodes ia) = Inr ig" "compile_mixes s = Inr ma"
    "find_engineer s ma = Inr e" "compile_peers s ma e = Inr ms" "check_carries s ms = Inr cs"
    "t = assemble digest (fst ig) (snd ig) (set_shadows ms) (ia_rx ia) (ma_tx ma) e"
    by (rule compile_parts)
  have t: "t_mixes t = set_shadows ms" "t_engineer t = e" by (simp_all add: p(8) assemble_def Let_def)
  have b: "built s (length (st_mixes s)) ma" by (rule compile_mixes_built [OF p(4)])
  have pe: "peered s (length (st_mixes s)) ms" by (rule compile_peers_peered [OF p(6) b])
  have len: "length (set_shadows ms) = length (st_mixes s)" "length ms = length (st_mixes s)" using pe by (simp_all add: set_shadows_def peered_def)
  have name: "map_option m_id (lget (t_mixes t) i) = Some (site_name s i)" if "i < length (st_mixes s)" for i
    using that pe len shadows_nth [of i ms] by (simp add: t(1) lget_def peered_def node_of_def)
  have e: "e < length (st_mixes s)" "site_name s e = st_engineer s"
    using p(5) b by (auto simp: find_engineer_def built_def declares_def split: option.splits if_splits)
  have wf: "topo_wf t" by (rule compile_wf [OF assms])
  have below: "\<forall>x \<in> set (m_mixes (ms ! i)) \<union> set (m_peers (ms ! i)). x < length (st_mixes s)" if "i < length (st_mixes s)" for i
    using wf that len shadows_nth [of i ms] unfolding topo_wf_def t(1) heard_ok_def peers_ok_def by fastforce
  have names: "List.map_filter (\<lambda>m. map_option m_id (lget (t_mixes t) m)) xs = map (site_name s) xs" if "\<forall>x \<in> set xs. x < length (st_mixes s)" for xs
    using that name by (intro map_filter_total) auto
  have mix: "(let m = t_mixes t ! i in \<lparr>mf_id = m_id m, mf_stereo = ((if m_mono m then 1 else 2) = (2::nat)),
        mf_hears = List.map_filter (\<lambda>m. map_option m_id (lget (t_mixes t) m)) (m_mixes m) @ List.map_filter (\<lambda>m. map_option m_id (lget (t_mixes t) m)) (m_peers m)\<rparr>) =
      (let m = st_mixes s ! i in \<lparr>mf_id = sm_id m, mf_stereo = (length (sm_tx m) = 2), mf_hears = sm_mixes m @ sm_peers m\<rparr>)"
    if i: "i < length (st_mixes s)" for i
  proof -
    have sh: "m_id (t_mixes t ! i) = m_id (ms ! i)" "m_mono (t_mixes t ! i) = m_mono (ms ! i)" "m_mixes (t_mixes t ! i) = m_mixes (ms ! i)"
      "m_peers (t_mixes t ! i) = m_peers (ms ! i)" using shadows_nth [of i ms] i len by (simp_all add: t(1))
    have nd: "node_of s i (ms ! i)" "map (site_name s) (m_peers (ms ! i)) = sm_peers (st_mixes s ! i)" using pe i by (simp_all add: peered_def)
    show ?thesis using nd below [OF i] names [of "m_mixes (ms ! i)"] names [of "m_peers (ms ! i)"]
      by (simp add: sh node_of_def site_name_def Let_def)
  qed
  have "tf_mixes (facts_of_info (info t)) = tf_mixes (facts_of s)"
    by (rule nth_equalityI) (use mix len t(1) in \<open>simp_all add: facts_of_info_def facts_of_def info_def Let_def\<close>)
  moreover have "tf_inputs (facts_of_info (info t)) = tf_inputs (facts_of s)"
    using compile_ids(1) [OF assms] by (simp add: facts_of_info_def facts_of_def info_def Let_def o_def)
  moreover have "tf_engineer (facts_of_info (info t)) = tf_engineer (facts_of s)"
    using name [OF e(1)] e(2) by (auto simp: facts_of_info_def facts_of_def info_def Let_def t(2) lget_in)
  ultimately show ?thesis by (intro topology_facts.equality) simp_all
qed

end
