(* ===== verification/Lineups.thy ===== *)
theory Lineups
  imports Access Shape
begin

text \<open>
  What a lineup does to a mix state: the pure parts of \<open>iem-server/src/roster_watch.rs\<close> (who moves to
  another set, a lineup's rules on its sets, what a state follows), \<open>backup.rs\<close> (a backup and what a
  restore of it takes) and \<open>lineup_switch.rs\<close> (the state a band starts to play from), with the files'
  records of \<open>iem-core/src/backup.rs\<close> and \<open>lineup_store.rs\<close>. A \<open>BTreeSet\<close> is a strictly sorted list.
\<close>

subsection \<open>Backups\<close>

record customization_file =
  cz_format :: string
  cz_schema :: nat
  cz_member :: string
  cz_pinned :: "source list"
  cz_hidden :: "source list"

text \<open>A backup holds the backups of the inactive lineups: its other fields are its head.\<close>

record backup_head =
  hb_format :: string
  hb_version :: nat
  hb_timestamp :: string
  hb_rev :: u64
  hb_state :: mix_state
  hb_customizations :: "(string, customization_file) btree"
  hb_lineup :: "string option"
  hb_follows :: "string option"
  hb_silenced :: "string list"

datatype mixer_backup = Backup (backup_head: backup_head) (backup_lineups: "(string \<times> mixer_backup) list")

definition BACKUP_FORMAT :: string where "BACKUP_FORMAT = ''iemmixer-backup''"
definition BACKUP_VERSION :: nat where "BACKUP_VERSION = 2"

definition backup_new :: "string \<Rightarrow> u64 \<Rightarrow> mix_state \<Rightarrow> mixer_backup" where
  "backup_new timestamp rv st =
     Backup \<lparr>hb_format = BACKUP_FORMAT, hb_version = BACKUP_VERSION, hb_timestamp = timestamp, hb_rev = rv,
             hb_state = st, hb_customizations = [], hb_lineup = None, hb_follows = None, hb_silenced = []\<rparr> []"

definition on_head :: "(backup_head \<Rightarrow> backup_head) \<Rightarrow> mixer_backup \<Rightarrow> mixer_backup" where
  "on_head f b = Backup (f (backup_head b)) (backup_lineups b)"

lemma on_head_simps [simp]:
  "backup_head (on_head f b) = f (backup_head b)" "backup_lineups (on_head f b) = backup_lineups b"
  by (simp_all add: on_head_def)

definition level_count :: "mixer_backup \<Rightarrow> nat" where
  "level_count b = sum_list (map (\<lambda>(_, m). length (mx_inputs m) + length (mx_mixes m)) (ms_mixes (hb_state (backup_head b))))"

text \<open>\<open>reads\<close> is what the band store answers for a member.\<close>

definition capture ::
  "string list \<Rightarrow> (string \<Rightarrow> string + customization_file) \<Rightarrow> u64 \<Rightarrow> mix_state \<Rightarrow> string \<Rightarrow> string + mixer_backup" where
  "capture members reads rv st timestamp =
     fold_r (\<lambda>m b.
       case reads m of
         Inl e \<Rightarrow> Inl (''the pins and hides of '' @ m @ '' are unreadable: '' @ e)
       | Inr c \<Rightarrow> Inr (on_head (hb_customizations_update (bm_insert m c)) b))
     members (backup_new timestamp rv st)"

definition or_insert :: "('k::linorder, 'v) btree \<Rightarrow> ('k, 'v) btree \<Rightarrow> ('k, 'v) btree" where
  "or_insert running kept =
     fold (\<lambda>(k, v) m. if map_of m k = None then bm_insert k v m else m) running kept"

definition keep_mix :: "mix \<Rightarrow> mix option \<Rightarrow> mix" where
  "keep_mix cur old =
     (let m = (case old of Some m \<Rightarrow> m | None \<Rightarrow> cur)
      in m\<lparr>mx_inputs := or_insert (mx_inputs cur) (mx_inputs m),
           mx_mixes := or_insert (mx_mixes cur) (mx_mixes m),
           mx_groups := or_insert (mx_groups cur) (mx_groups m)\<rparr>)"

definition keep_running :: "mix_state \<Rightarrow> mix_state \<Rightarrow> mix_state" where
  "keep_running backup current =
     \<lparr>ms_inputs = or_insert (ms_inputs current) (ms_inputs backup),
      ms_mixes = fold (\<lambda>(i, cur) m. bm_insert i (keep_mix cur (map_of m i)) m) (ms_mixes current) (ms_mixes backup)\<rparr>"

definition lineups_to_restore :: "mixer_backup \<Rightarrow> roster_state \<Rightarrow> string list option" where
  "lineups_to_restore backup r =
     map_option (\<lambda>l. filter (\<lambda>i. i \<noteq> lu_id l \<and> roster_lineup (rs_roster r) i \<noteq> None) (map fst (backup_lineups backup)))
       (state_lineup r)"

text \<open>\<^const>\<open>None\<close>: the panic of a roster without a lineup.\<close>

definition live_lineup_fits :: "mixer_backup \<Rightarrow> roster_state option \<Rightarrow> (string + unit) option" where
  "live_lineup_fits backup roster =
     (case roster of
        None \<Rightarrow> Some (Inr ())
      | Some r \<Rightarrow>
          (case (case hb_lineup (backup_head backup) of Some l \<Rightarrow> Some l | None \<Rightarrow> map_option lu_id (roster_main (rs_roster r)),
                 map_option lu_id (state_lineup r)) of
             (Some lf, Some now) \<Rightarrow>
               Some (if lf = now then Inr ()
                     else Inl (''this backup's live state is lineup '' @ lf @ '''s and lineup '' @ now @ '' plays: switch to '' @ lf @ '' first''))
           | _ \<Rightarrow> None))"

subsection \<open>What a running switch and a running state leave on disk\<close>

record switch_intent =
  sw_from :: string
  sw_to :: string

record pending =
  pd_follows :: string
  pd_silenced :: "string list"
  pd_digest :: string

record running =
  ru_lineup :: string
  ru_follows :: "string option"
  ru_silenced :: "string list"
  ru_pending :: "pending option"

definition resolved :: "running \<Rightarrow> string \<Rightarrow> running" where
  "resolved r held =
     (case ru_pending r of
        Some p \<Rightarrow>
          (if pd_digest p = held
           then \<lparr>ru_lineup = ru_lineup r, ru_follows = Some (pd_follows p), ru_silenced = pd_silenced p, ru_pending = None\<rparr>
           else r\<lparr>ru_pending := None\<rparr>)
      | None \<Rightarrow> r)"

subsection \<open>People who move, and the rules of a lineup\<close>

definition people_diff :: "roster \<Rightarrow> roster \<Rightarrow> string list \<times> string list" where
  "people_diff old new =
     (let missing = (\<lambda>a b. map pe_id (filter (\<lambda>p. roster_person b (pe_id p) = None) (ro_people a)))
      in (missing new old, missing old new))"

definition removes_everyone :: "roster \<Rightarrow> roster \<Rightarrow> bool" where
  "removes_everyone old new =
     (ro_people old \<noteq> [] \<and> list_all (\<lambda>p. roster_person new (pe_id p) = None) (ro_people old))"

definition moves :: "roster \<Rightarrow> roster \<Rightarrow> string \<Rightarrow> (string \<times> string) list" where
  "moves old new i =
     (case (roster_lineup old i, roster_lineup new i) of
        (Some before, Some after) \<Rightarrow>
          List.map_filter (\<lambda>(st, p).
            case lineup_set_of before p of
              Some from \<Rightarrow> if from \<noteq> st then Some (from, st) else None
            | None \<Rightarrow> None) (lu_sets after)
      | _ \<Rightarrow> [])"

definition moved_mix :: "string \<Rightarrow> string \<Rightarrow> mix \<Rightarrow> mix" where
  "moved_mix from to m =
     (case map_of (mx_mixes m) to of
        Some heard \<Rightarrow> m\<lparr>mx_mixes := bm_insert from heard (bm_remove to (mx_mixes m))\<rparr>
      | None \<Rightarrow> m)"

definition apply_moves :: "(string \<times> string) list \<Rightarrow> mix_state \<Rightarrow> mix_state" where
  "apply_moves ms st =
     fold (\<lambda>(from, to) s.
       case map_of (ms_mixes st) from of
         None \<Rightarrow> s
       | Some m \<Rightarrow> s\<lparr>ms_mixes := bm_insert to (moved_mix from to m) (ms_mixes s)\<rparr>) ms st"

definition roster_sets :: "roster \<Rightarrow> string list" where
  "roster_sets r = fold bs_insert (concat (map (\<lambda>l. bm_keys (lu_sets l)) (ro_lineups r))) []"

definition mute_heard :: "mix \<Rightarrow> mix" where
  "mute_heard m = m\<lparr>mx_mixes := map (\<lambda>(i, l). (i, l\<lparr>lv_muted := True\<rparr>)) (mx_mixes m)\<rparr>"

definition mute_out :: "bool \<Rightarrow> mix \<Rightarrow> mix" where
  "mute_out b m = m\<lparr>mx_out := (mx_out m)\<lparr>mo_muted := b\<rparr>\<rparr>"

text \<open>One set: the mix it has and whether the record of silenced sets holds it.\<close>

definition fit_set :: "lineup \<Rightarrow> string \<Rightarrow> mix \<Rightarrow> string list \<Rightarrow> mix \<times> string list" where
  "fit_set l st m silenced =
     (case person_on l st of
        None \<Rightarrow> if \<not> mo_muted (mx_out m) then (mute_out True m, bs_insert st silenced) else (m, silenced)
      | Some p \<Rightarrow>
          (let m1 = (if st \<in> set silenced then mute_out False m else m);
               m2 = (if \<not> leads l p then mute_heard m1 else m1)
           in (m2, filter (\<lambda>x. x \<noteq> st) silenced)))"

definition fit_sets :: "string list \<Rightarrow> lineup \<Rightarrow> mix_state \<times> string list \<Rightarrow> mix_state \<times> string list" where
  "fit_sets sets l x =
     fold (\<lambda>st (s, silenced).
       case map_of (ms_mixes s) st of
         None \<Rightarrow> (s, silenced)
       | Some m \<Rightarrow>
           (let (m', silenced') = fit_set l st m silenced
            in (s\<lparr>ms_mixes := bm_insert st m' (ms_mixes s)\<rparr>, silenced'))) sets x"

definition fit_recorded :: "roster \<Rightarrow> lineup \<Rightarrow> mix_state \<times> string list \<Rightarrow> mix_state \<times> string list" where
  "fit_recorded r l x = fit_sets (roster_sets r) l x"

definition move_silenced :: "(string \<times> string) list \<Rightarrow> string list \<Rightarrow> string list" where
  "move_silenced ms before =
     fold (\<lambda>(from, to) s. if from \<in> set before then bs_insert to s else filter (\<lambda>x. x \<noteq> to) s) ms before"

definition soloed_changing :: "solo list \<Rightarrow> lineup \<Rightarrow> lineup \<Rightarrow> mix_id list" where
  "soloed_changing solos before after =
     map so_mix (filter (\<lambda>s. so_sources s \<noteq> [] \<and> person_on before (so_mix s) \<noteq> person_on after (so_mix s)) solos)"

definition every_solo :: "solo list \<Rightarrow> mix_id list" where
  "every_solo solos = map so_mix (filter (\<lambda>s. so_sources s \<noteq> []) solos)"

subsection \<open>What a state follows\<close>

record base =
  ba_roster :: roster
  ba_sha256 :: string

record follows =
  fo_known :: "base list"
  fo_unmarked :: "base option"

text \<open>\<open>kept\<close>: the rosters kept by their SHA-256, as the store and the parser give them.\<close>

definition learn :: "(string \<Rightarrow> roster option) \<Rightarrow> string option \<Rightarrow> follows \<Rightarrow> follows" where
  "learn kept marker f =
     (case marker of
        None \<Rightarrow> f
      | Some sha \<Rightarrow>
          (if list_ex (\<lambda>b. ba_sha256 b = sha) (fo_known f) then f
           else (case kept sha of
                   Some r \<Rightarrow> f\<lparr>fo_known := fo_known f @ [\<lparr>ba_roster = r, ba_sha256 = sha\<rparr>]\<rparr>
                 | None \<Rightarrow> f)))"

definition base_of :: "follows \<Rightarrow> string option \<Rightarrow> string \<Rightarrow> roster option" where
  "base_of f marker new_sha =
     (case marker of
        Some sha \<Rightarrow>
          (if sha = new_sha then None else map_option ba_roster (find (\<lambda>b. ba_sha256 b = sha) (fo_known f)))
      | None \<Rightarrow> map_option ba_roster (fo_unmarked f))"

definition follows_sets :: "follows \<Rightarrow> string list" where
  "follows_sets f =
     fold bs_insert (concat (map (\<lambda>b. roster_sets (ba_roster b)) (fo_known f @ (case fo_unmarked f of Some b \<Rightarrow> [b] | None \<Rightarrow> [])))) []"

definition follow ::
  "roster option \<Rightarrow> roster \<Rightarrow> string list \<Rightarrow> lineup \<Rightarrow> topology_info option \<Rightarrow> mix_state \<times> string list \<Rightarrow> mix_state \<times> string list" where
  "follow from new sets l topo x =
     (let shift = (case from of Some f \<Rightarrow> moves f new (lu_id l) | None \<Rightarrow> []);
          s1 = apply_moves shift (fst x);
          s2 = (case topo of Some t \<Rightarrow> fst (reconcile t s1) | None \<Rightarrow> s1)
      in fit_sets sets l (s2, move_silenced shift (snd x)))"

subsection \<open>The state a band starts to play from\<close>

definition may_switch :: "roster \<Rightarrow> auth_claims \<Rightarrow> bool" where
  "may_switch r by' = (au_engineer by' \<or> leads_any r (au_sub by'))"

definition target_state_recorded ::
  "mix_state option \<Rightarrow> mix_state \<Rightarrow> roster \<Rightarrow> lineup \<Rightarrow> string list \<Rightarrow> mix_state \<times> string list" where
  "target_state_recorded target current r l silenced =
     (let s = (case target of Some stored \<Rightarrow> keep_running stored current | None \<Rightarrow> current)
      in fit_recorded r l (s, silenced))"

definition target_of ::
  "mixer_backup option \<Rightarrow> mix_state \<Rightarrow> string option \<times> string list \<Rightarrow> roster \<Rightarrow> lineup \<Rightarrow> mix_state \<times> running" where
  "target_of stored current run r l =
     (let (from, follows, silenced) =
        (case stored of
           Some b \<Rightarrow> (Some (hb_state (backup_head b)), hb_follows (backup_head b), hb_silenced (backup_head b))
         | None \<Rightarrow> (None, fst run, snd run));
          (target, silenced') = target_state_recorded from current r l silenced
      in (target, \<lparr>ru_lineup = lu_id l, ru_follows = follows, ru_silenced = silenced', ru_pending = None\<rparr>))"

end
