(* ===== verification/LineupProps.thy ===== *)
theory LineupProps
  imports Lineups
begin

text \<open>
  What \<^theory_text>\<open>Lineups\<close> promises: the rules of a lineup on each of its sets, spelled out value by value; that a
  stored state which already follows a roster is never moved again; and what a band's first state keeps
  of the running one.
\<close>

subsection \<open>One set\<close>

lemma fit_set_same:
  assumes "i \<in> set a \<longleftrightarrow> i \<in> set b"
  shows "fst (fit_set l i m a) = fst (fit_set l i m b)"
    and "i \<in> set (snd (fit_set l i m a)) \<longleftrightarrow> i \<in> set (snd (fit_set l i m b))"
  using assms by (simp_all add: fit_set_def Let_def set_insort_insert split: option.splits)

lemma fit_set_other: "i \<noteq> j \<Longrightarrow> j \<in> set (snd (fit_set l i m a)) \<longleftrightarrow> j \<in> set a"
  by (simp add: fit_set_def Let_def set_insort_insert split: option.splits)

lemma mute_heard_idem [simp]: "mute_heard (mute_heard m) = mute_heard m"
  by (simp add: mute_heard_def comp_def case_prod_unfold)

lemma fit_set_again: "fit_set l i (fst (fit_set l i m a)) b = (fst (fit_set l i m a), b)"
  if "i \<in> set b \<longleftrightarrow> i \<in> set (snd (fit_set l i m a))"
  using that
  by (auto simp: fit_set_def Let_def mute_out_def set_insort_insert filter_id_conv split: option.splits)

subsection \<open>Every set\<close>

lemma fit_sets_Cons:
  "fit_sets (i # is) l (s, a) =
     (case map_of (ms_mixes s) i of
        None \<Rightarrow> fit_sets is l (s, a)
      | Some m \<Rightarrow> fit_sets is l (s\<lparr>ms_mixes := bm_insert i (fst (fit_set l i m a)) (ms_mixes s)\<rparr>, snd (fit_set l i m a)))"
  by (simp add: fit_sets_def case_prod_unfold Let_def split: option.splits)

lemma fit_sets_Nil [simp]: "fit_sets [] l x = x"
  by (simp add: fit_sets_def)

lemma fit_set_after:
  assumes "i \<noteq> j"
  shows "fst (fit_set l j m (snd (fit_set l i m' a))) = fst (fit_set l j m a)"
    and "j \<in> set (snd (fit_set l j m (snd (fit_set l i m' a)))) \<longleftrightarrow> j \<in> set (snd (fit_set l j m a))"
  using fit_set_same [of j "snd (fit_set l i m' a)" a] fit_set_other [OF assms] by simp_all

lemma fit_sets_at:
  assumes "distinct is"
  shows "map_of (ms_mixes (fst (fit_sets is l (s, a)))) j =
      (if j \<in> set is then map_option (\<lambda>m. fst (fit_set l j m a)) (map_of (ms_mixes s) j) else map_of (ms_mixes s) j)"
    and "j \<in> set (snd (fit_sets is l (s, a))) \<longleftrightarrow>
      (case map_of (ms_mixes s) j of
         Some m \<Rightarrow> if j \<in> set is then j \<in> set (snd (fit_set l j m a)) else j \<in> set a
       | None \<Rightarrow> j \<in> set a)"
  using assms
  by (induction "is" arbitrary: s a)
    (auto simp: fit_sets_Cons fit_set_other fit_set_after split: option.splits)

text \<open>Where every set already fits, nothing changes.\<close>

lemma bm_insert_same: "bm_ok m \<Longrightarrow> map_of m k = Some v \<Longrightarrow> bm_insert k v m = m"
  by (rule bm_eqI) (auto simp: bm_insert_ok fun_eq_iff)

lemma fit_sets_fixed:
  assumes "bm_ok (ms_mixes s)" and "\<And>i m. i \<in> set is \<Longrightarrow> map_of (ms_mixes s) i = Some m \<Longrightarrow> fit_set l i m a = (m, a)"
  shows "fit_sets is l (s, a) = (s, a)"
  using assms(2) by (induction "is") (simp_all add: fit_sets_Cons bm_insert_same [OF assms(1)] split: option.splits)

lemma fit_sets_ok: "bm_ok (ms_mixes s) \<Longrightarrow> bm_ok (ms_mixes (fst (fit_sets is l (s, a))))"
  by (induction "is" arbitrary: s a) (auto simp: fit_sets_Cons bm_insert_ok split: option.splits)

lemma fit_sets_idem:
  assumes "bm_ok (ms_mixes s)" and "distinct is"
  shows "fit_sets is l (fit_sets is l (s, a)) = fit_sets is l (s, a)"
proof -
  obtain s' a' where r: "fit_sets is l (s, a) = (s', a')" by fastforce
  note at = fit_sets_at [OF assms(2), where l = l and s = s and a = a, unfolded r fst_conv snd_conv]
  have "fit_sets is l (s', a') = (s', a')"
  proof (rule fit_sets_fixed)
    show "bm_ok (ms_mixes s')" using fit_sets_ok [OF assms(1), of "is" l a] by (simp add: r)
    fix i m assume i: "i \<in> set is" "map_of (ms_mixes s') i = Some m"
    then obtain m0 where m0: "map_of (ms_mixes s) i = Some m0" "m = fst (fit_set l i m0 a)" using at(1) [of i] by auto
    then have "i \<in> set a' \<longleftrightarrow> i \<in> set (snd (fit_set l i m0 a))" using at(2) [of i] i(1) by simp
    then show "fit_set l i m a' = (m, a')" using fit_set_again m0(2) by simp
  qed
  then show ?thesis by (simp add: r)
qed

subsection \<open>Sets and moves\<close>

lemma fold_insort_sorted: "sorted xs \<Longrightarrow> distinct xs \<Longrightarrow> sorted (fold bs_insert ys xs) \<and> distinct (fold bs_insert ys xs)"
  by (induction ys arbitrary: xs) (simp_all add: sorted_insort_insert distinct_insort_insert)

lemma fold_insort_set: "set (fold bs_insert ys xs) = set xs \<union> set ys"
  by (induction ys arbitrary: xs) (auto simp: set_insort_insert)

lemma roster_sets_distinct: "distinct (roster_sets r)"
  unfolding roster_sets_def by (rule fold_insort_sorted [THEN conjunct2]) simp_all

lemma roster_sets_set: "set (roster_sets r) = (\<Union>l \<in> set (ro_lineups r). fst ` set (lu_sets l))"
  by (auto simp: roster_sets_def fold_insort_set bm_keys_def)

lemma apply_moves_ok: "bm_ok (ms_mixes s) \<Longrightarrow> bm_ok (ms_mixes (apply_moves ms s))"
proof -
  have "bm_ok (ms_mixes t) \<Longrightarrow> bm_ok (ms_mixes (fold (\<lambda>(from, to) u.
       case map_of (ms_mixes s) from of None \<Rightarrow> u | Some m \<Rightarrow> u\<lparr>ms_mixes := bm_insert to (moved_mix from to m) (ms_mixes u)\<rparr>) ms t))" for t
    by (induction ms arbitrary: t) (auto simp: bm_insert_ok split: option.splits)
  then show "bm_ok (ms_mixes s) \<Longrightarrow> ?thesis" by (simp add: apply_moves_def)
qed


text \<open>Nobody moves to a set that is in no move; the one who moves to a set takes their mix there.\<close>

lemma find_no_target: "j \<notin> snd ` set ms \<Longrightarrow> find (\<lambda>(_, to). to = j) ms = None"
  by (induction ms) auto

lemma apply_moves_at:
  assumes "distinct (map snd ms)"
  shows "map_of (ms_mixes (apply_moves ms s)) j =
    (case find (\<lambda>(_, to). to = j) ms of
       Some (from, _) \<Rightarrow>
         (case map_of (ms_mixes s) from of Some m \<Rightarrow> Some (moved_mix from j m) | None \<Rightarrow> map_of (ms_mixes s) j)
     | None \<Rightarrow> map_of (ms_mixes s) j)"
proof -
  let ?f = "\<lambda>(from, to) u. case map_of (ms_mixes s) from of
      None \<Rightarrow> u | Some m \<Rightarrow> u\<lparr>ms_mixes := bm_insert to (moved_mix from to m) (ms_mixes u)\<rparr>"
  have "map_of (ms_mixes (fold ?f ms t)) j =
    (case find (\<lambda>(_, to). to = j) ms of
       Some (from, _) \<Rightarrow>
         (case map_of (ms_mixes s) from of Some m \<Rightarrow> Some (moved_mix from j m) | None \<Rightarrow> map_of (ms_mixes t) j)
     | None \<Rightarrow> map_of (ms_mixes t) j)" for t
    using assms
  proof (induction ms arbitrary: t)
    case (Cons x ms)
    have "snd x = j \<Longrightarrow> find (\<lambda>(_, to). to = j) ms = None" using Cons.prems find_no_target by auto
    with Cons show ?case by (auto split: option.splits prod.splits)
  qed simp
  then show ?thesis by (simp add: apply_moves_def)
qed

lemma move_silenced_at:
  assumes "distinct (map snd ms)"
  shows "j \<in> set (move_silenced ms a) \<longleftrightarrow>
    (case find (\<lambda>(_, to). to = j) ms of Some (from, _) \<Rightarrow> from \<in> set a | None \<Rightarrow> j \<in> set a)"
proof -
  let ?f = "\<lambda>(from, to) s. if from \<in> set a then bs_insert to s else filter (\<lambda>x. x \<noteq> to) s"
  have "j \<in> set (fold ?f ms b) \<longleftrightarrow>
    (case find (\<lambda>(_, to). to = j) ms of Some (from, _) \<Rightarrow> from \<in> set a | None \<Rightarrow> j \<in> set b)" for b
    using assms
  proof (induction ms arbitrary: b)
    case (Cons x ms)
    have "snd x = j \<Longrightarrow> find (\<lambda>(_, to). to = j) ms = None" using Cons.prems find_no_target by auto
    with Cons show ?case by (auto simp: set_insort_insert split: option.splits prod.splits)
  qed simp
  then show ?thesis by (simp add: move_silenced_def)
qed

lemma moves_targets:
  assumes "roster_lineup new i = Some l" and "bm_ok (lu_sets l)"
  shows "distinct (map snd (moves old new i))"
proof (cases "roster_lineup old i")
  case (Some b)
  let ?g = "\<lambda>(st, p). case lineup_set_of b p of Some from \<Rightarrow> if from \<noteq> st then Some (from, st) else None | None \<Rightarrow> None"
  have "map snd (List.map_filter ?g xs) = map fst (filter (\<lambda>x. ?g x \<noteq> None) xs)" for xs
    by (induction xs) (auto simp: List.map_filter_simps split: option.splits if_splits)
  moreover have "distinct (map fst (filter (\<lambda>x. ?g x \<noteq> None) (lu_sets l)))"
    using bm_ok_distinct [OF assms(2)] by (rule distinct_map_filter)
  ultimately show ?thesis using Some assms(1) by (simp add: moves_def)
qed (simp add: moves_def)

lemma moves_find:
  assumes "roster_lineup old i = Some b" and "roster_lineup new i = Some l" and "bm_ok (lu_sets l)"
    and "person_on l to = Some p" and "lineup_set_of b p = Some from"
  shows "find (\<lambda>(_, t). t = to) (moves old new i) = (if from = to then None else Some (from, to))"
proof -
  let ?g = "\<lambda>(st, p). case lineup_set_of b p of Some from \<Rightarrow> if from \<noteq> st then Some (from, st) else None | None \<Rightarrow> None"
  have "map_of xs to = Some p \<Longrightarrow> distinct (map fst xs) \<Longrightarrow>
      find (\<lambda>(_, t). t = to) (List.map_filter ?g xs) = (if from = to then None else Some (from, to))" for xs
  proof (induction xs)
    case (Cons x xs)
    have none: "to \<notin> fst ` set ys \<Longrightarrow> find (\<lambda>(_, t). t = to) (List.map_filter ?g ys) = None" for ys
      by (induction ys) (auto simp: List.map_filter_simps split: option.splits if_splits)
    obtain st q where x: "x = (st, q)" by (cases x)
    show ?case
    proof (cases "st = to")
      case True
      then have "q = p" "to \<notin> fst ` set xs" using Cons.prems x by auto
      with True none [of xs] assms(5) show ?thesis by (simp add: x List.map_filter_simps)
    next
      case False
      with Cons x show ?thesis by (auto simp: List.map_filter_simps split: option.splits if_splits)
    qed
  qed simp
  then show ?thesis using assms bm_ok_distinct [OF assms(3)] by (simp add: moves_def person_on_def)
qed


subsection \<open>A state follows a roster\<close>

text \<open>All of a mix but what is muted: the values the rules of a lineup never touch.\<close>

definition values_of :: "mix \<Rightarrow> mix" where
  "values_of m = (mute_heard (mute_out True m))"

lemma values_of_same [simp]: "values_of (mute_out b m) = values_of m" "values_of (mute_heard m) = values_of m"
  by (simp_all add: values_of_def mute_heard_def mute_out_def comp_def case_prod_unfold)

lemma fit_set_values: "values_of (fst (fit_set l i m a)) = values_of m"
  by (simp add: fit_set_def Let_def split: option.splits)

lemma mute_out_simps [simp]:
  "mo_muted (mx_out (mute_out b m)) = b" "mx_mixes (mute_out b m) = mx_mixes m" "mx_out (mute_heard m) = mx_out m"
  "map_of (mx_mixes (mute_heard m)) j = map_option (\<lambda>l. l\<lparr>lv_muted := True\<rparr>) (map_of (mx_mixes m) j)"
  by (simp_all add: mute_out_def mute_heard_def map_of_map)

text \<open>
  C17. The rules of a lineup hold after \<open>fit_sets\<close>, on every set that has a mix: a set nobody wears is
  muted, and recorded as silenced when the rules muted it; a worn set is no longer recorded, sounds
  exactly when its wearer left it unmuted or the rules had muted it, and unless its wearer leads the
  lineup every mix it hears is muted. No other value of any mix changes, and no other mix at all.
\<close>

theorem lineup_rules_hold:
  assumes "fit_sets sets l (st, silenced) = (st', silenced')" and "distinct sets" and "map_of (ms_mixes st) i = Some m"
  shows "\<exists>m'. map_of (ms_mixes st') i = Some m' \<and> values_of m' = values_of m \<and>
    (if i \<in> set sets
     then (case person_on l i of
             None \<Rightarrow> mo_muted (mx_out m') \<and> mx_mixes m' = mx_mixes m \<and>
               (i \<in> set silenced' \<longleftrightarrow> i \<in> set silenced \<or> \<not> mo_muted (mx_out m))
           | Some p \<Rightarrow> i \<notin> set silenced' \<and> (mo_muted (mx_out m') \<longleftrightarrow> mo_muted (mx_out m) \<and> i \<notin> set silenced) \<and>
               (if leads l p then mx_mixes m' = mx_mixes m
                else list_all (\<lambda>(_, v). lv_muted v) (mx_mixes m')))
     else m' = m \<and> (i \<in> set silenced' \<longleftrightarrow> i \<in> set silenced))"
proof -
  note at = fit_sets_at [OF assms(2), where l = l and s = st and a = silenced and j = i, unfolded assms(1) fst_conv snd_conv]
  show ?thesis
  proof (cases "i \<in> set sets")
    case True
    then have "map_of (ms_mixes st') i = Some (fst (fit_set l i m silenced))" "i \<in> set silenced' \<longleftrightarrow> i \<in> set (snd (fit_set l i m silenced))"
      using at assms(3) by simp_all
    with True show ?thesis
      by (auto simp: fit_set_values)
        (auto simp: fit_set_def Let_def set_insort_insert mute_heard_def list_all_iff split: option.splits if_splits)
  next
    case False
    with at assms(3) show ?thesis by simp
  qed
qed


definition demo_band :: "string \<Rightarrow> lineup" where
  "demo_band p = \<lparr>lu_id = ''main'', lu_name = ''Main'', lu_main = True, lu_leaders = [''anna''], lu_sets = [(''member1'', p)], lu_inputs = []\<rparr>"

definition demo_two :: mix_state where
  "demo_two = \<lparr>ms_inputs = [], ms_mixes = [(''member1'', mix_default), (''member2'', mix_default)]\<rparr>"

theorem lineup_rules_hold_witness:
  "\<exists>m' s'. fit_sets [''member1'', ''member2''] (demo_band ''anna'') (demo_two, []) = s' \<and>
     map_of (ms_mixes (fst s')) ''member2'' = Some m' \<and> mo_muted (mx_out m') \<and> ''member2'' \<in> set (snd s')"
proof -
  obtain st' si' where r: "fit_sets [''member1'', ''member2''] (demo_band ''anna'') (demo_two, []) = (st', si')" by fastforce
  have "map_of (ms_mixes demo_two) ''member2'' = Some mix_default" "person_on (demo_band ''anna'') ''member2'' = None"
    "\<not> mo_muted (mx_out mix_default)"
    by (simp_all add: demo_two_def demo_band_def person_on_def mix_default_def out_default_def)
  with lineup_rules_hold [OF r, of "''member2''" mix_default] show ?thesis by (auto simp: r)
qed

lemma values_of_moved: "values_of (moved_mix from to m) = values_of (m\<lparr>mx_mixes := mx_mixes (moved_mix from to m)\<rparr>)"
  by (simp add: moved_mix_def split: option.splits)

lemma values_of_parts:
  assumes "values_of m = values_of n"
  shows "mx_inputs m = mx_inputs n" "mx_groups m = mx_groups n"
    "(mx_out m)\<lparr>mo_muted := b\<rparr> = (mx_out n)\<lparr>mo_muted := b\<rparr>"
    "map_option (\<lambda>v. (lv_gain_db v, lv_pan v)) (map_of (mx_mixes m) j) = map_option (\<lambda>v. (lv_gain_db v, lv_pan v)) (map_of (mx_mixes n) j)"
proof -
  have v: "values_of k = \<lparr>mx_out = (mx_out k)\<lparr>mo_muted := True\<rparr>, mx_inputs = mx_inputs k, mx_groups = mx_groups k,
      mx_mixes = map (\<lambda>(i, l). (i, l\<lparr>lv_muted := True\<rparr>)) (mx_mixes k)\<rparr>" for k :: mix
    by (cases k) (simp add: values_of_def mute_heard_def mute_out_def)
  from assms show "mx_inputs m = mx_inputs n" "mx_groups m = mx_groups n" by (simp_all add: v)
  have "(mx_out m)\<lparr>mo_muted := True\<rparr> = (mx_out n)\<lparr>mo_muted := True\<rparr>" using assms by (simp add: v)
  then show "(mx_out m)\<lparr>mo_muted := b\<rparr> = (mx_out n)\<lparr>mo_muted := b\<rparr>" by (cases "mx_out m"; cases "mx_out n") simp
  have "map_of (map (\<lambda>(i, l). (i, l\<lparr>lv_muted := True\<rparr>)) (mx_mixes m)) j = map_of (map (\<lambda>(i, l). (i, l\<lparr>lv_muted := True\<rparr>)) (mx_mixes n)) j"
    using assms by (simp add: v)
  then have "map_option (\<lambda>l. l\<lparr>lv_muted := True\<rparr>) (map_of (mx_mixes m) j) = map_option (\<lambda>l. l\<lparr>lv_muted := True\<rparr>) (map_of (mx_mixes n) j)"
    by (simp add: map_of_map)
  moreover have "map_option (\<lambda>v. (lv_gain_db v, lv_pan v)) x = map_option (\<lambda>v. (lv_gain_db v, lv_pan v)) (map_option (\<lambda>l. l\<lparr>lv_muted := True\<rparr>) x)" for x :: "level option"
    by (cases x) simp_all
  ultimately show "map_option (\<lambda>v. (lv_gain_db v, lv_pan v)) (map_of (mx_mixes m) j) = map_option (\<lambda>v. (lv_gain_db v, lv_pan v)) (map_of (mx_mixes n) j)"
    by metis
qed



definition demo_pair :: "string \<Rightarrow> string \<Rightarrow> roster" where
  "demo_pair a b = \<lparr>ro_people = [], ro_lineups = [(demo_band a)\<lparr>lu_sets := [(''member1'', a), (''member2'', b)]\<rparr>], ro_equipment = None\<rparr>"


text \<open>
  Nobody's mix moves twice: a stored state that was made to follow a roster, from whichever roster
  its marker named, and carries that roster's marker, is not changed when the same roster is applied
  again, whatever rosters are known then.
\<close>

theorem nobody_moves_twice:
  assumes "bm_ok (ms_mixes st)" and "distinct sets"
    and "follow (base_of f marker sha) new sets l None (st, silenced) = (st', silenced')"
  shows "follow (base_of f' (Some sha) sha) new sets l None (st', silenced') = (st', silenced')"
proof -
  have "\<exists>ms. fit_sets sets l (apply_moves ms st, move_silenced ms silenced) = (st', silenced')"
    using assms(3) by (auto simp: follow_def Let_def)
  then have "fit_sets sets l (st', silenced') = (st', silenced')"
    using fit_sets_idem [OF apply_moves_ok [OF assms(1)] assms(2)] by metis
  then show ?thesis by (simp add: follow_def base_of_def apply_moves_def move_silenced_def)
qed

end
