(* ===== verification/ServerWorld.thy ===== *)
theory ServerWorld
  imports LineupProps "HOL-Library.State_Monad"
begin

text \<open>
  The world in which the server switches bands and reloads rosters: the files of
  \<open>iem-server/src/lineup_store.rs\<close>, the engine behind its connection, and the parts of \<open>AppState\<close>
  (\<open>lib.rs\<close>) they share. Programs are state monads over it. Every file operation and every request is
  one numbered step, and the environment says what becomes of step \<open>n\<close>: a file operation succeeds or
  fails with no effect (each write is a synced temporary file renamed into place), a request is taken,
  refused, or its answer is lost after the engine took it or not. A crash is an environment in which
  every step from some number on fails.
\<close>

subsection \<open>State\<close>

record unsettled =
  us_base :: "base option"
  us_refusing :: bool

text \<open>
  \<open>wd_engine\<close> and \<open>wd_solos\<close> are what the engine holds, which the server's mirror shows while it is
  synced. \<open>wd_band\<close> is no value of the code: it says whose mixes the engine holds, the lineup of the last
  import it took.
\<close>

record world =
  wd_active :: "string option"
  wd_intent :: "switch_intent option"
  wd_states :: "(string, mixer_backup) btree"
  wd_running :: "running option"
  wd_rosters :: "(string, string) btree"
  wd_applied :: "string option"
  wd_engine :: mix_state
  wd_solos :: "solo list"
  wd_band :: string
  wd_roster :: "roster_state option"
  wd_unsettled :: "unsettled option"
  wd_frozen :: bool
  wd_missed :: bool
  wd_unrecorded :: nat
  wd_told :: "string list"
  wd_clock :: nat

record file_error =
  fe_kind :: string
  fe_text :: string

datatype reply = Takes | Refuses string | LosesLink bool | StaysSilent bool

datatype engine_error = Disconnected | Refused string | Timeout

record environment =
  ev_file :: "nat \<Rightarrow> file_error option"
  ev_reply :: "nat \<Rightarrow> reply"
  ev_synced :: "nat \<Rightarrow> bool"
  ev_topology :: topology_info
  ev_config :: config
  ev_pins :: "nat \<Rightarrow> string \<Rightarrow> string + customization_file"
  ev_rev :: "nat \<Rightarrow> u64"
  ev_time :: "nat \<Rightarrow> string"
  ev_digest :: "mix_state \<Rightarrow> string"
  ev_parse :: "string \<Rightarrow> string + roster"
  ev_sha256 :: "string \<Rightarrow> string"

type_synonym 'a prog = "(world, 'a) state"

definition count_step :: "nat prog" where
  "count_step = State (\<lambda>w. (wd_clock w, w\<lparr>wd_clock := wd_clock w + 1\<rparr>))"

definition modify :: "(world \<Rightarrow> world) \<Rightarrow> unit prog" where
  "modify f = State (\<lambda>w. ((), f w))"

definition look :: "(world \<Rightarrow> 'a) \<Rightarrow> 'a prog" where
  "look f = State (\<lambda>w. (f w, w))"

definition try_p :: "('e + 'a) prog \<Rightarrow> ('e \<Rightarrow> 'f) \<Rightarrow> ('a \<Rightarrow> ('f + 'b) prog) \<Rightarrow> ('f + 'b) prog" where
  "try_p m err k = m \<bind> (\<lambda>x. case x of Inl e \<Rightarrow> State_Monad.return (Inl (err e)) | Inr a \<Rightarrow> k a)"

subsection \<open>Files\<close>

definition INVALID_ID :: file_error where
  "INVALID_ID = \<lparr>fe_kind = ''invalid input parameter'', fe_text = ''not a lineup id''\<rparr>"

definition file_step :: "environment \<Rightarrow> (world \<Rightarrow> 'a) \<Rightarrow> (world \<Rightarrow> world) \<Rightarrow> (file_error + 'a) prog" where
  "file_step e v f = do {
     n \<leftarrow> count_step;
     case ev_file e n of
       Some err \<Rightarrow> State_Monad.return (Inl err)
     | None \<Rightarrow> do { x \<leftarrow> look v; modify f; State_Monad.return (Inr x) } }"

definition checked_ids :: "string list \<Rightarrow> (file_error + 'a) prog \<Rightarrow> (file_error + 'a) prog" where
  "checked_ids ids m = (if list_all valid_lineup_id ids then m else State_Monad.return (Inl INVALID_ID))"

definition store_active :: "environment \<Rightarrow> (file_error + string option) prog" where
  "store_active e = file_step e wd_active id"

definition set_active :: "environment \<Rightarrow> string \<Rightarrow> (file_error + unit) prog" where
  "set_active e i = checked_ids [i] (file_step e (\<lambda>_. ()) (wd_active_update (\<lambda>_. Some i)))"

definition store_state :: "environment \<Rightarrow> string \<Rightarrow> (file_error + mixer_backup option) prog" where
  "store_state e i = checked_ids [i] (file_step e (\<lambda>w. map_of (wd_states w) i) id)"

definition save_state :: "environment \<Rightarrow> string \<Rightarrow> mixer_backup \<Rightarrow> (file_error + unit) prog" where
  "save_state e i b = checked_ids [i] (file_step e (\<lambda>_. ()) (wd_states_update (bm_insert i b)))"

definition store_running :: "environment \<Rightarrow> (file_error + running option) prog" where
  "store_running e = file_step e wd_running id"

definition set_running :: "environment \<Rightarrow> running \<Rightarrow> (file_error + unit) prog" where
  "set_running e r = checked_ids [ru_lineup r] (file_step e (\<lambda>_. ()) (wd_running_update (\<lambda>_. Some r)))"

definition store_intent :: "environment \<Rightarrow> (file_error + switch_intent option) prog" where
  "store_intent e = file_step e wd_intent id"

definition set_intent :: "environment \<Rightarrow> switch_intent \<Rightarrow> (file_error + unit) prog" where
  "set_intent e i = checked_ids [sw_from i, sw_to i] (file_step e (\<lambda>_. ()) (wd_intent_update (\<lambda>_. Some i)))"

definition clear_intent :: "environment \<Rightarrow> (file_error + unit) prog" where
  "clear_intent e = file_step e (\<lambda>_. ()) (wd_intent_update (\<lambda>_. None))"

definition is_sha256 :: "string \<Rightarrow> bool" where
  "is_sha256 s = (length s = 64 \<and> list_all (\<lambda>c. c \<in> set ''0123456789abcdef'') s)"

definition keep_roster :: "environment \<Rightarrow> string \<Rightarrow> string \<Rightarrow> (file_error + unit) prog" where
  "keep_roster e sha text =
     (if \<not> is_sha256 sha then State_Monad.return (Inl \<lparr>fe_kind = ''invalid data'', fe_text = ''no SHA-256''\<rparr>)
      else try_p (file_step e (\<lambda>w. map_of (wd_rosters w) sha \<noteq> None) id) id (\<lambda>kept.
        if kept then State_Monad.return (Inr ())
        else file_step e (\<lambda>_. ()) (wd_rosters_update (bm_insert sha text))))"

definition kept_roster :: "environment \<Rightarrow> string \<Rightarrow> (file_error + string option) prog" where
  "kept_roster e sha =
     (if is_sha256 sha then file_step e (\<lambda>w. map_of (wd_rosters w) sha) id else State_Monad.return (Inr None))"

definition applied_roster :: "environment \<Rightarrow> (file_error + string option) prog" where
  "applied_roster e = file_step e wd_applied id"

definition set_applied_roster :: "environment \<Rightarrow> string \<Rightarrow> (file_error + unit) prog" where
  "set_applied_roster e text = file_step e (\<lambda>_. ()) (wd_applied_update (\<lambda>_. Some text))"

subsection \<open>The engine\<close>

fun engine_takes :: "environment \<Rightarrow> string \<Rightarrow> cmd \<Rightarrow> world \<Rightarrow> world" where
  "engine_takes e b (ImportState s) w = w\<lparr>wd_engine := fst (reconcile (ev_topology e) s), wd_band := b\<rparr>"
| "engine_takes e b (SetSolo m srcs) w =
     w\<lparr>wd_solos := filter (\<lambda>s. so_mix s \<noteq> m) (wd_solos w) @ (if srcs = [] then [] else [\<lparr>so_mix = m, so_sources = srcs\<rparr>])\<rparr>"
| "engine_takes e b _ w = w"

text \<open>\<open>b\<close> names the band whose state an import carries.\<close>

definition request_applied :: "environment \<Rightarrow> string \<Rightarrow> cmd \<Rightarrow> (engine_error + unit) prog" where
  "request_applied e b c = do {
     n \<leftarrow> count_step;
     case ev_reply e n of
       Takes \<Rightarrow> do { modify (engine_takes e b c); State_Monad.return (Inr ()) }
     | Refuses why \<Rightarrow> State_Monad.return (Inl (Refused why))
     | LosesLink taken \<Rightarrow> do { modify (if taken then engine_takes e b c else id); State_Monad.return (Inl Disconnected) }
     | StaysSilent taken \<Rightarrow> do { modify (if taken then engine_takes e b c else id); State_Monad.return (Inl Timeout) } }"

definition mirror_synced :: "environment \<Rightarrow> bool prog" where
  "mirror_synced e = do { n \<leftarrow> count_step; State_Monad.return (ev_synced e n) }"

subsection \<open>What the pages share\<close>

definition announce_lineup :: "world \<Rightarrow> world" where
  "announce_lineup w =
     (case Option.bind (wd_roster w) state_lineup of
        Some l \<Rightarrow> w\<lparr>wd_told := wd_told w @ [lu_id l]\<rparr>
      | None \<Rightarrow> w)"

definition thaw_after :: "bool \<Rightarrow> world \<Rightarrow> world" where
  "thaw_after changed w =
     (let w' = w\<lparr>wd_frozen := False, wd_missed := False\<rparr>
      in if wd_frozen w \<and> (changed \<or> wd_missed w) then announce_lineup w' else w')"

definition settling :: "world \<Rightarrow> bool" where
  "settling w = (case wd_unsettled w of Some u \<Rightarrow> us_refusing u | None \<Rightarrow> False)"

definition freeze :: "environment \<Rightarrow> (engine_error + bool) prog" where
  "freeze e = do {
     was \<leftarrow> look wd_frozen;
     modify (wd_frozen_update (\<lambda>_. True));
     r \<leftarrow> request_applied e '''' Ping;
     case r of
       Inl err \<Rightarrow> do { modify (if was then id else thaw_after False); State_Monad.return (Inl err) }
     | Inr _ \<Rightarrow> State_Monad.return (Inr was) }"

definition frozen_for_page :: "bool prog" where
  "frozen_for_page = do {
     frozen \<leftarrow> look wd_frozen;
     modify (if frozen then wd_missed_update (\<lambda>_. True) else id);
     State_Monad.return frozen }"

definition set_active_in_use :: "string \<Rightarrow> world \<Rightarrow> world" where
  "set_active_in_use i w = w\<lparr>wd_roster := map_option (rs_active_update (\<lambda>_. i)) (wd_roster w)\<rparr>"

definition view_members :: "environment \<Rightarrow> roster_state option \<Rightarrow> string list option" where
  "view_members e r =
     map_option (\<lambda>ms. map sb_id (filter (\<lambda>m. known_mix (ev_topology e) (sb_mix m)) ms)) (site_members (ev_config e) r)"

subsection \<open>What the running state follows\<close>

definition note_running :: "environment \<Rightarrow> running \<Rightarrow> unit prog" where
  "note_running e r = do { _ \<leftarrow> set_running e r; State_Monad.return () }"

definition running_of :: "environment \<Rightarrow> string \<Rightarrow> running option prog" where
  "running_of e held = do {
     r \<leftarrow> store_running e;
     case r of
       Inr (Some run) \<Rightarrow>
         (if ru_pending run = None then State_Monad.return (Some run)
          else do { note_running e (resolved run held); State_Monad.return (Some (resolved run held)) })
     | _ \<Rightarrow> State_Monad.return None }"

definition running_for :: "environment \<Rightarrow> string \<Rightarrow> string \<Rightarrow> (string option \<times> string list) prog" where
  "running_for e i held = do {
     r \<leftarrow> running_of e held;
     State_Monad.return (case r of Some run \<Rightarrow> if ru_lineup run = i then (ru_follows run, ru_silenced run) else (None, []) | None \<Rightarrow> (None, [])) }"

fun end_solos :: "environment \<Rightarrow> mix_id list \<Rightarrow> unit prog" where
  "end_solos e [] = State_Monad.return ()"
| "end_solos e (m # ms) = do { _ \<leftarrow> request_applied e '''' (SetSolo m []); end_solos e ms }"

end
