(* ===== verification/Switch.thy ===== *)
theory Switch
  imports ServerWorld
begin

text \<open>
  Switching the band that plays (\<open>iem-server/src/lineup_switch.rs\<close>): the switch with its intent on disk,
  the way back when a step fails, the replay of a switch that was cut short, the fall-back to the band
  before. Messages to the engineer's devices and log lines are not modelled; the lock that keeps two
  switches apart is the sequence of the operations.
\<close>

datatype switch_error =
    NotConfigured | Forbidden | Busy | Unknown string | Same | NotSynced | Io string
  | EngineFailed engine_error | Pending string | Panicked

definition io_error :: "string \<Rightarrow> file_error \<Rightarrow> switch_error" where
  "io_error what err = Io (what @ '': '' @ fe_kind err)"

fun show_engine_error :: "engine_error \<Rightarrow> string" where
  "show_engine_error Disconnected = ''the engine is not connected''"
| "show_engine_error (Refused why) = ''the engine refused: '' @ why"
| "show_engine_error Timeout = ''the engine did not answer in time''"

fun show_switch_error :: "switch_error \<Rightarrow> string" where
  "show_switch_error NotConfigured = ''this site has no roster''"
| "show_switch_error Forbidden = ''only a band leader or the engineer switches the band''"
| "show_switch_error Busy = ''the band is being switched already''"
| "show_switch_error (Unknown _) = ''no such lineup''"
| "show_switch_error Same = ''that band plays already''"
| "show_switch_error NotSynced = ''the engine state is not synced''"
| "show_switch_error (Io e) = e"
| "show_switch_error (EngineFailed e) = ''the engine did not take the band's mixes: '' @ show_engine_error e"
| "show_switch_error (Pending e) = ''the band switch finishes once the engine answers again: '' @ e"
| "show_switch_error Panicked = ''''"

text \<open>How the steps of a switch failed: the band before plays on, or the intent stays.\<close>

datatype failed = Back switch_error | Stays switch_error

subsection \<open>The steps of a switch\<close>

definition forward :: "environment \<Rightarrow> roster \<Rightarrow> mixer_backup \<Rightarrow> string \<Rightarrow> lineup \<Rightarrow> (switch_error + unit) prog" where
  "forward e r live from to =
     try_p (store_state e (lu_id to)) (io_error ''the band's stored state is unreadable'') (\<lambda>stored.
     let (target, run) = target_of stored (hb_state (backup_head live)) (hb_follows (backup_head live), hb_silenced (backup_head live)) r to
     in do {
       soloed \<leftarrow> look (\<lambda>w. case roster_lineup r from of Some before \<Rightarrow> soloed_changing (wd_solos w) before to | None \<Rightarrow> []);
       try_p (request_applied e (lu_id to) (ImportState target)) EngineFailed (\<lambda>_.
       try_p (set_active e (lu_id to)) (io_error ''the band that plays was not recorded'') (\<lambda>_. do {
         note_running e run;
         end_solos e soloed;
         State_Monad.return (Inr ()) })) })"

definition put_back :: "environment \<Rightarrow> mixer_backup \<Rightarrow> string \<Rightarrow> switch_error \<Rightarrow> (failed + unit) prog" where
  "put_back e live from err = do {
     r \<leftarrow> request_applied e from (ImportState (hb_state (backup_head live)));
     case r of
       Inl _ \<Rightarrow> State_Monad.return (Inl (Stays err))
     | Inr _ \<Rightarrow> do { _ \<leftarrow> clear_intent e; State_Monad.return (Inl (Back err)) } }"

definition live_backup :: "environment \<Rightarrow> string \<Rightarrow> (failed + mixer_backup) prog" where
  "live_backup e from = do {
     synced \<leftarrow> mirror_synced e;
     if \<not> synced then State_Monad.return (Inl (Back NotSynced))
     else do {
       n \<leftarrow> count_step;
       w \<leftarrow> look id;
       case view_members e (wd_roster w) of
         None \<Rightarrow> State_Monad.return (Inl (Back Panicked))
       | Some members \<Rightarrow>
           (case capture members (ev_pins e n) (ev_rev e n) (wd_engine w) (ev_time e n) of
              Inl err \<Rightarrow> State_Monad.return (Inl (Back (Io err)))
            | Inr b \<Rightarrow> do {
                run \<leftarrow> running_for e from (ev_digest e (wd_engine w));
                State_Monad.return (Inr (on_head (\<lambda>h. h\<lparr>hb_lineup := Some from, hb_follows := fst run, hb_silenced := snd run\<rparr>) b)) }) } }"

definition switch_steps :: "environment \<Rightarrow> roster \<Rightarrow> string \<Rightarrow> lineup \<Rightarrow> (failed + unit) prog" where
  "switch_steps e r from to =
     try_p (live_backup e from) id (\<lambda>live.
     try_p (save_state e from live) (\<lambda>x. Back (io_error ''the band's state was not stored'' x)) (\<lambda>_.
     try_p (set_intent e \<lparr>sw_from = from, sw_to = lu_id to\<rparr>) (\<lambda>x. Back (io_error ''the switch's intent was not written'' x)) (\<lambda>_. do {
       went \<leftarrow> forward e r live from to;
       case went of
         Inl err \<Rightarrow> put_back e live from err
       | Inr _ \<Rightarrow> do { _ \<leftarrow> clear_intent e; State_Monad.return (Inr ()) } })))"

definition run_switch :: "environment \<Rightarrow> roster \<Rightarrow> string \<Rightarrow> lineup \<Rightarrow> (switch_error + unit) prog" where
  "run_switch e r from to = do {
     synced \<leftarrow> mirror_synced e;
     if \<not> synced then State_Monad.return (Inl NotSynced)
     else try_p (freeze e) EngineFailed (\<lambda>was.
       if was then State_Monad.return (Inl Busy)
       else do {
         done' \<leftarrow> switch_steps e r from to;
         case done' of
           Inr _ \<Rightarrow> State_Monad.return (Inr ())
         | Inl (Back err) \<Rightarrow> do { modify (thaw_after True); State_Monad.return (Inl err) }
         | Inl (Stays err) \<Rightarrow> State_Monad.return (Inl (Pending (show_switch_error err))) }) }"

text \<open>The checks and the switch, as the holder of the lock runs them; \<open>site\<close>: the topology is known.\<close>

definition switch_lineup :: "environment \<Rightarrow> bool \<Rightarrow> string \<Rightarrow> auth_claims \<Rightarrow> (switch_error + unit) prog" where
  "switch_lineup e site to by' = do {
     w \<leftarrow> look id;
     case wd_roster w of
       None \<Rightarrow> State_Monad.return (Inl NotConfigured)
     | Some rs \<Rightarrow>
         if \<not> may_switch (rs_roster rs) by' then State_Monad.return (Inl Forbidden)
         else (case state_lineup rs of
           None \<Rightarrow> State_Monad.return (Inl Panicked)
         | Some before \<Rightarrow>
             (case roster_lineup (rs_roster rs) to of
                None \<Rightarrow> State_Monad.return (Inl (Unknown to))
              | Some target \<Rightarrow>
                  if lu_id target = lu_id before then State_Monad.return (Inl Same)
                  else if wd_frozen w \<or> settling w then State_Monad.return (Inl Busy)
                  else if \<not> site then State_Monad.return (Inl NotSynced)
                  else try_p (run_switch e (rs_roster rs) (lu_id before) target) id (\<lambda>_. do {
                    modify (set_active_in_use (lu_id target));
                    modify (thaw_after True);
                    State_Monad.return (Inr ()) }))) }"

subsection \<open>A switch that was cut short\<close>

definition play :: "environment \<Rightarrow> roster \<Rightarrow> lineup \<Rightarrow> mixer_backup option \<Rightarrow> lineup option \<Rightarrow> (string + unit) prog" where
  "play e r l stored other = do {
     synced \<leftarrow> mirror_synced e;
     if \<not> synced then State_Monad.return (Inl ''the engine state is not synced'')
     else do {
       w \<leftarrow> look id;
       run \<leftarrow> running_of e (ev_digest e (wd_engine w));
       let (target, next) = target_of stored (wd_engine w) (case run of Some x \<Rightarrow> (ru_follows x, ru_silenced x) | None \<Rightarrow> (None, [])) r l
       in try_p (request_applied e (lu_id l) (ImportState target)) show_engine_error (\<lambda>_.
          try_p (set_active e (lu_id l)) fe_text (\<lambda>_. do {
            note_running e next;
            end_solos e (case other of Some before \<Rightarrow> soloed_changing (wd_solos w) before l | None \<Rightarrow> []);
            modify (set_active_in_use (lu_id l));
            State_Monad.return (Inr ()) })) } }"

definition lineup_or_active :: "roster_state \<Rightarrow> string \<Rightarrow> lineup option" where
  "lineup_or_active rs i = (case roster_lineup (rs_roster rs) i of Some l \<Rightarrow> Some l | None \<Rightarrow> state_lineup rs)"

definition finish_replay :: "environment \<Rightarrow> (string + unit) prog" where
  "finish_replay e =
     try_p (clear_intent e) fe_text (\<lambda>_. do { modify (thaw_after True); State_Monad.return (Inr ()) })"

definition replay_intent :: "environment \<Rightarrow> (string + unit) prog" where
  "replay_intent e =
     try_p (store_intent e) fe_text (\<lambda>i. do {
       r \<leftarrow> look wd_roster;
       case (i, r) of
         (Some intent, Some rs) \<Rightarrow>
           try_p (store_active e) fe_text (\<lambda>active.
           case lineup_or_active rs (sw_to intent) of
             None \<Rightarrow> State_Monad.return (Inl '''')
           | Some l \<Rightarrow>
               let other = roster_lineup (rs_roster rs) (sw_from intent)
               in if active \<noteq> Some (sw_to intent)
                  then try_p (store_state e (lu_id l)) fe_text (\<lambda>stored.
                       try_p (play e (rs_roster rs) l stored other) id (\<lambda>_. finish_replay e))
                  else do {
                    solos \<leftarrow> look wd_solos;
                    end_solos e (case other of Some before \<Rightarrow> soloed_changing solos before l | None \<Rightarrow> []);
                    finish_replay e })
       | _ \<Rightarrow> do { modify (thaw_after True); State_Monad.return (Inr ()) } })"

definition fall_back :: "environment \<Rightarrow> (string + unit) prog" where
  "fall_back e =
     try_p (store_intent e) fe_text (\<lambda>i. do {
       r \<leftarrow> look wd_roster;
       case (i, r) of
         (Some intent, Some rs) \<Rightarrow>
           (case lineup_or_active rs (sw_from intent) of
              None \<Rightarrow> State_Monad.return (Inl '''')
            | Some l \<Rightarrow> do {
                s \<leftarrow> store_state e (lu_id l);
                try_p (play e (rs_roster rs) l (case s of Inr stored \<Rightarrow> stored | Inl _ \<Rightarrow> None) (roster_lineup (rs_roster rs) (sw_to intent))) id
                  (\<lambda>_. finish_replay e) })
       | _ \<Rightarrow> do { modify (thaw_after True); State_Monad.return (Inr ()) } })"

definition MAX_REPLAYS :: nat where "MAX_REPLAYS = 3"

datatype replayed = Nothing | Finished nat | FellBack nat | GaveUp

text \<open>
  Up to \<open>n\<close> tries, each begun once the engine is synced (the waits between them change nothing); the
  number of the try that succeeded.
\<close>

fun tries :: "nat \<Rightarrow> nat \<Rightarrow> (string + unit) prog \<Rightarrow> nat option prog" where
  "tries done' 0 m = State_Monad.return None"
| "tries done' (Suc n) m = do {
     r \<leftarrow> m;
     case r of
       Inr _ \<Rightarrow> State_Monad.return (Some (done' + 1))
     | Inl _ \<Rightarrow> tries (done' + 1) n m }"

definition replay_when_synced :: "environment \<Rightarrow> replayed prog" where
  "replay_when_synced e = do {
     frozen \<leftarrow> look wd_frozen;
     if \<not> frozen then State_Monad.return Nothing
     else do {
       t \<leftarrow> tries 0 MAX_REPLAYS (replay_intent e);
       case t of
         Some k \<Rightarrow> State_Monad.return (Finished k)
       | None \<Rightarrow> do {
           b \<leftarrow> tries 0 MAX_REPLAYS (fall_back e);
           case b of
             Some _ \<Rightarrow> State_Monad.return (FellBack MAX_REPLAYS)
           | None \<Rightarrow> do { _ \<leftarrow> clear_intent e; modify (thaw_after True); State_Monad.return GaveUp } } } }"

text \<open>
  The start of a server on a roster that holds the recorded lineup (\<open>lib.rs\<close>); \<open>b\<close> is the roster the
  states follow, as \<open>applied_base\<close> reads it.
\<close>

definition restart :: "base option \<Rightarrow> roster \<Rightarrow> string \<Rightarrow> world \<Rightarrow> world" where
  "restart b r sha w =
     w\<lparr>wd_roster := Some \<lparr>rs_roster = r, rs_sha256 = sha, rs_active = (case wd_active w of Some a \<Rightarrow> a | None \<Rightarrow> (case roster_main r of Some l \<Rightarrow> lu_id l | None \<Rightarrow> ''''))\<rparr>,
       wd_unsettled := Some \<lparr>us_base = b, us_refusing = True\<rparr>, wd_frozen := (wd_intent w \<noteq> None), wd_missed := False, wd_unrecorded := 0, wd_told := []\<rparr>"

subsection \<open>The answers of the API\<close>

fun reject_status :: "switch_error \<Rightarrow> nat \<times> string" where
  "reject_status NotConfigured = (404, ''NOT_CONFIGURED'')"
| "reject_status (Unknown _) = (404, ''UNKNOWN_LINEUP'')"
| "reject_status Forbidden = (403, ''FORBIDDEN'')"
| "reject_status Busy = (409, ''BUSY'')"
| "reject_status Same = (409, ''ALREADY_PLAYING'')"
| "reject_status NotSynced = (503, ''ENGINE_UNAVAILABLE'')"
| "reject_status (Io _) = (500, ''IO_ERROR'')"
| "reject_status (EngineFailed _) = (502, ''SWITCH_FAILED'')"
| "reject_status (Pending _) = (202, ''SWITCH_PENDING'')"
| "reject_status Panicked = (500, ''SWITCH_FAILED'')"

record lineup_info =
  ln_active :: "string \<times> string"
  ln_lineups :: "(string \<times> string) list"
  ln_playing :: bool
  ln_leader :: bool
  ln_can_switch :: bool

definition lineup_reference :: "lineup \<Rightarrow> string \<times> string" where
  "lineup_reference l = (lu_id l, lu_name l)"

definition lineup_info :: "roster_state \<Rightarrow> auth_claims \<Rightarrow> lineup_info option" where
  "lineup_info rs by' =
     map_option (\<lambda>active.
       \<lparr>ln_active = lineup_reference active, ln_lineups = map lineup_reference (ro_lineups (rs_roster rs)),
        ln_playing = (au_engineer by' \<or> plays active (au_sub by')), ln_leader = leads active (au_sub by'),
        ln_can_switch = may_switch (rs_roster rs) by'\<rparr>) (state_lineup rs)"

definition page_plays :: "roster_state \<Rightarrow> auth_claims \<Rightarrow> string \<Rightarrow> bool \<Rightarrow> (rejection + bool) option" where
  "page_plays rs by' page exists' =
     (if \<not> (au_engineer by' \<or> page = au_sub by') then Some (Inl (error_response 403 ''FORBIDDEN''))
      else if roster_person (rs_roster rs) page \<noteq> None then map_option (\<lambda>l. Inr (plays l page)) (state_lineup rs)
      else if exists' then Some (Inr True)
      else Some (Inl (error_response 404 ''NOT_FOUND'')))"

end
