(* ===== verification/SwitchProps.thy ===== *)
theory SwitchProps
  imports Switch
begin

text \<open>
  A switch never leaves the engine's mixes and the recorded band apart: whatever fails in a switch, a
  replay or a fall-back, and wherever the server is cut off, the pages are free only while the engine
  holds the mixes of the band that is recorded and in use. And without a failure a switch does what it
  says.
\<close>

subsection \<open>Programs that leave the band alone\<close>

lemma run_simps [simp]:
  "run_state count_step w = (wd_clock w, w\<lparr>wd_clock := Suc (wd_clock w)\<rparr>)"
  "run_state (modify f) w = ((), f w)"
  "run_state (look g) w = (g w, w)"
  by (simp_all add: count_step_def modify_def look_def)

lemma run_try:
  "run_state (try_p m err k) w = (case run_state m w of (Inl x, w') \<Rightarrow> (Inl (err x), w') | (Inr a, w') \<Rightarrow> run_state (k a) w')"
  by (simp add: try_p_def split: prod.splits sum.splits)

text \<open>What a switch is about: the recorded band, its intent, whose mixes the engine holds, the roster in use, the pages.\<close>

definition about :: "world \<Rightarrow> string option \<times> switch_intent option \<times> string \<times> roster_state option \<times> bool" where
  "about w = (wd_active w, wd_intent w, wd_band w, wd_roster w, wd_frozen w)"

definition aside :: "'a prog \<Rightarrow> bool" where
  "aside m = (\<forall>w. about (snd (run_state m w)) = about w)"

lemma asideD: "aside m \<Longrightarrow> run_state m w = (x, w') \<Longrightarrow> about w' = about w"
  unfolding aside_def by (metis snd_conv)

lemma aside_return [simp]: "aside (State_Monad.return x)"
  by (simp add: aside_def)

lemma aside_bind: "aside m \<Longrightarrow> (\<And>x. aside (f x)) \<Longrightarrow> aside (m \<bind> f)"
  by (simp add: aside_def case_prod_unfold)

lemma about_updates [simp]:
  "about (w\<lparr>wd_clock := n\<rparr>) = about w" "about (w\<lparr>wd_states := s\<rparr>) = about w" "about (w\<lparr>wd_running := r\<rparr>) = about w"
  "about (w\<lparr>wd_solos := so\<rparr>) = about w"
  by (simp_all add: about_def)

lemma aside_stores [simp]:
  "aside (store_active e)" "aside (store_state e i)" "aside (save_state e i b)" "aside (store_running e)"
  "aside (set_running e r)" "aside (store_intent e)" "aside (mirror_synced e)" "aside (count_step)" "aside (look g)"
  unfolding store_active_def store_state_def save_state_def store_running_def set_running_def store_intent_def mirror_synced_def
  by (auto simp: aside_def file_step_def checked_ids_def about_def split: option.splits)

lemma aside_note [simp]: "aside (note_running e r)"
  unfolding note_running_def by (intro aside_bind) simp_all

lemma aside_running_of [simp]: "aside (running_of e held)"
  unfolding running_of_def by (intro aside_bind) (auto intro: aside_bind split: sum.splits option.splits)

lemma aside_running_for [simp]: "aside (running_for e i held)"
  unfolding running_for_def by (intro aside_bind) simp_all

lemma aside_solo: "aside (request_applied e b (SetSolo m s))"
  by (simp add: aside_def request_applied_def split: reply.splits)

lemma aside_end_solos [simp]: "aside (end_solos e ms)"
  by (induction ms) (auto intro: aside_bind aside_solo)

lemma aside_live [simp]: "aside (live_backup e from)"
  unfolding live_backup_def by (auto intro!: aside_bind split: option.splits sum.splits)


subsection \<open>Steps that change the band\<close>

lemma import_effect:
  assumes "run_state (request_applied e b (ImportState s)) w = (x, w')"
  shows "wd_active w' = wd_active w" "wd_intent w' = wd_intent w" "wd_roster w' = wd_roster w" "wd_frozen w' = wd_frozen w"
    "(x = Inr () \<and> wd_band w' = b) \<or> ((\<exists>err. x = Inl err) \<and> wd_band w' \<in> {wd_band w, b})"
  using assms by (auto simp: request_applied_def split: reply.splits if_splits)

lemma file_write_effect:
  assumes "run_state (set_active e i) w = (x, w')"
  shows "(x = Inr () \<and> about w' = about (w\<lparr>wd_active := Some i\<rparr>)) \<or> ((\<exists>err. x = Inl err) \<and> about w' = about w)"
  using assms by (auto simp: set_active_def checked_ids_def file_step_def about_def split: option.splits if_splits)

lemma set_intent_effect:
  assumes "run_state (set_intent e i) w = (x, w')"
  shows "(x = Inr () \<and> about w' = about (w\<lparr>wd_intent := Some i\<rparr>)) \<or> ((\<exists>err. x = Inl err) \<and> about w' = about w)"
  using assms by (auto simp: set_intent_def checked_ids_def file_step_def about_def split: option.splits if_splits)

lemma clear_intent_effect:
  assumes "run_state (clear_intent e) w = (x, w')"
  shows "(x = Inr () \<and> about w' = about (w\<lparr>wd_intent := None\<rparr>)) \<or> ((\<exists>err. x = Inl err) \<and> about w' = about w)"
  using assms by (auto simp: clear_intent_def file_step_def about_def split: option.splits)

text \<open>
  An import followed by the record of the band, as a switch and a replay do it: done, both are the new
  band; failed, the record is as before, and the engine holds the old band's mixes or the new one's.
\<close>

lemma import_then_record:
  assumes "run_state (try_p (request_applied e b (ImportState s)) f (\<lambda>_. try_p (set_active e b) g (\<lambda>_. k))) w = (x, w')"
    and "aside k"
  obtains (both) "\<exists>v. run_state k v = (x, w')" "about w' = (Some b, wd_intent w, b, wd_roster w, wd_frozen w)"
  | (undone) err band where "x = Inl err" "band \<in> {wd_band w, b}" "about w' = (wd_active w, wd_intent w, band, wd_roster w, wd_frozen w)"
proof -
  obtain x1 w1 where r1: "run_state (request_applied e b (ImportState s)) w = (x1, w1)" by fastforce
  note i = import_effect [OF r1]
  obtain x2 w2 where r2: "run_state (set_active e b) w1 = (x2, w2)" by fastforce
  note a = file_write_effect [OF r2]
  show thesis
  proof (cases x1)
    case (Inl err)
    then show ?thesis using assms(1) i undone by (auto simp: run_try r1 about_def)
  next
    case (Inr u)
    show ?thesis
    proof (cases x2)
      case (Inl err)
      then show ?thesis using assms(1) i a Inr undone by (auto simp: run_try r1 r2 about_def)
    next
      case (Inr v)
      with \<open>x1 = Inr u\<close> have "run_state k w2 = (x, w')" using assms(1) by (simp add: run_try r1 r2)
      moreover from this have "about w' = about w2" by (rule asideD [OF assms(2)])
      ultimately show ?thesis using both i a Inr \<open>x1 = Inr u\<close> by (auto simp: about_def)
    qed
  qed
qed


lemma about_thaw [simp]: "about (thaw_after c w) = about (w\<lparr>wd_frozen := False\<rparr>)"
  by (simp add: thaw_after_def announce_lineup_def about_def Let_def split: option.splits)

lemma about_in_use [simp]: "about (set_active_in_use i w) = about (w\<lparr>wd_roster := map_option (rs_active_update (\<lambda>_. i)) (wd_roster w)\<rparr>)"
  by (simp add: set_active_in_use_def)

lemma freeze_effect:
  assumes "run_state (freeze e) w = (x, w')"
  shows "(x = Inr (wd_frozen w) \<and> about w' = about (w\<lparr>wd_frozen := True\<rparr>)) \<or> ((\<exists>err. x = Inl err) \<and> about w' = about w)"
proof -
  let ?w = "w\<lparr>wd_frozen := True\<rparr>"
  obtain x1 w1 where r1: "run_state (request_applied e '''' Ping) ?w = (x1, w1)" by fastforce
  have "aside (request_applied e '''' Ping)" by (simp add: aside_def request_applied_def split: reply.splits)
  then have "about w1 = about ?w" by (rule asideD [OF _ r1])
  moreover have "(x, w') = (case x1 of Inl err \<Rightarrow> (Inl err, (if wd_frozen w then id else thaw_after False) w1) | Inr _ \<Rightarrow> (Inr (wd_frozen w), w1))"
    using assms r1 by (auto simp: freeze_def split: sum.splits)
  ultimately show ?thesis by (cases x1) (auto simp: about_def [of w] about_def [of w1] about_def [of "wd_frozen_update _ _"])
qed

lemma forward_effect:
  assumes "run_state (forward e r live from to) w = (x, w')"
  obtains (both) "x = Inr ()" "about w' = (Some (lu_id to), wd_intent w, lu_id to, wd_roster w, wd_frozen w)"
  | (undone) err band where "x = Inl err" "band \<in> {wd_band w, lu_id to}" "about w' = (wd_active w, wd_intent w, band, wd_roster w, wd_frozen w)"
proof -
  obtain x1 w1 where r1: "run_state (store_state e (lu_id to)) w = (x1, w1)" by fastforce
  have a1: "about w1 = about w" by (rule asideD [OF _ r1]) simp
  show thesis
  proof (cases x1)
    case (Inl err)
    then show ?thesis using assms a1 undone by (auto simp: forward_def run_try r1 about_def)
  next
    case (Inr stored)
    obtain target run where t: "target_of stored (hb_state (backup_head live)) (hb_follows (backup_head live), hb_silenced (backup_head live)) r to = (target, run)"
      by fastforce
    let ?so = "case roster_lineup r from of Some before \<Rightarrow> soloed_changing (wd_solos w1) before to | None \<Rightarrow> []"
    let ?k = "note_running e run \<bind> (\<lambda>_. end_solos e ?so \<bind> (\<lambda>_. State_Monad.return (Inr ())))"
    have k: "aside ?k" by (intro aside_bind) simp_all
    have "run_state (try_p (request_applied e (lu_id to) (ImportState target)) EngineFailed (\<lambda>_.
        try_p (set_active e (lu_id to)) (io_error ''the band that plays was not recorded'') (\<lambda>_. ?k))) w1 = (x, w')"
      using assms Inr by (simp add: forward_def run_try [of "store_state e (lu_id to)"] r1 t)
    then show ?thesis
      by (rule import_then_record [OF _ k]) (use a1 both undone in \<open>auto simp: about_def case_prod_unfold split: prod.splits\<close>)
  qed
qed


lemma put_back_effect:
  assumes "run_state (put_back e live from err) w = (x, w')"
  obtains (restored) i where "x = Inl (Back err)" "i \<in> {None, wd_intent w}" "about w' = (wd_active w, i, from, wd_roster w, wd_frozen w)"
  | (stays) band where "x = Inl (Stays err)" "band \<in> {wd_band w, from}" "about w' = (wd_active w, wd_intent w, band, wd_roster w, wd_frozen w)"
proof -
  obtain x1 w1 where r1: "run_state (request_applied e from (ImportState (hb_state (backup_head live)))) w = (x1, w1)" by fastforce
  note i = import_effect [OF r1]
  obtain x2 w2 where r2: "run_state (clear_intent e) w1 = (x2, w2)" by fastforce
  note c = clear_intent_effect [OF r2]
  show thesis
  proof (cases x1)
    case (Inl y)
    then show ?thesis using assms i stays by (auto simp: put_back_def r1 about_def)
  next
    case (Inr y)
    then have "x = Inl (Back err)" "w' = w2" using assms by (simp_all add: put_back_def r1 r2)
    then show ?thesis using i c Inr restored by (auto simp: about_def)
  qed
qed

lemma steps_effect:
  assumes "run_state (switch_steps e r from to) w = (x, w')" and "wd_active w = Some from" "wd_band w = from"
  obtains (both) i where "x = Inr ()" "i \<in> {None, Some \<lparr>sw_from = from, sw_to = lu_id to\<rparr>}" "about w' = (Some (lu_id to), i, lu_id to, wd_roster w, wd_frozen w)"
  | (restored) err i where "x = Inl (Back err)" "about w' = (Some from, i, from, wd_roster w, wd_frozen w)"
  | (stays) err band where "x = Inl (Stays err)" "about w' = (Some from, Some \<lparr>sw_from = from, sw_to = lu_id to\<rparr>, band, wd_roster w, wd_frozen w)"
proof -
  let ?i = "\<lparr>sw_from = from, sw_to = lu_id to\<rparr>"
  obtain x1 w1 where r1: "run_state (live_backup e from) w = (x1, w1)" by fastforce
  have a1: "about w1 = about w" by (rule asideD [OF _ r1]) simp
  show thesis
  proof (cases x1)
    case (Inl f)
    have "\<exists>err. f = Back err" using r1 Inl
      by (auto simp: live_backup_def split: if_splits option.splits sum.splits prod.splits)
    then show ?thesis using assms a1 Inl restored by (auto simp: switch_steps_def run_try r1 about_def)
  next
    case (Inr live)
    obtain x2 w2 where r2: "run_state (save_state e from live) w1 = (x2, w2)" by fastforce
    have a2: "about w2 = about w" using asideD [OF _ r2] a1 by simp
    obtain x3 w3 where r3: "run_state (set_intent e ?i) w2 = (x3, w3)" by fastforce
    note a3 = set_intent_effect [OF r3]
    show ?thesis
    proof (cases "\<exists>e2. x2 = Inl e2 \<or> (x2 = Inr () \<and> x3 = Inl e2)")
      case True
      then obtain err where "x = Inl (Back err)" "w' = (case x2 of Inl _ \<Rightarrow> w2 | Inr _ \<Rightarrow> w3)"
        using assms(1) Inr by (auto simp: switch_steps_def run_try r1 r2 r3)
      with True show ?thesis using assms(2,3) a2 a3 restored by (cases x2) (auto simp: about_def)
    next
      case False
      then have ok: "x2 = Inr ()" "x3 = Inr ()" by (metis sum.exhaust old.unit.exhaust)+
      then have a: "about w3 = (Some from, Some ?i, from, wd_roster w, wd_frozen w)" using a2 a3 assms by (auto simp: about_def)
      obtain x4 w4 where r4: "run_state (forward e r live from to) w3 = (x4, w4)" by fastforce
      from r4 show ?thesis
      proof (cases rule: forward_effect)
        case both
        obtain x5 w5 where r5: "run_state (clear_intent e) w4 = (x5, w5)" by fastforce
        have "x = Inr ()" "w' = w5" using assms(1) Inr ok both(1) by (simp_all add: switch_steps_def run_try r1 r2 r3 r4 r5)
        then show ?thesis using clear_intent_effect [OF r5] both(2) a that(1) by (auto simp: about_def)
      next
        case (undone err band)
        then have "run_state (put_back e live from err) w4 = (x, w')" using assms(1) Inr ok by (simp add: switch_steps_def run_try r1 r2 r3 r4)
        then show ?thesis
          by (cases rule: put_back_effect) (use a undone that(2,3) in \<open>auto simp: about_def\<close>)
      qed
    qed
  qed
qed


subsection \<open>The band that plays\<close>

text \<open>
  The recorded band is the one in use; while the pages are free, or no switch is on its way, the engine
  holds its mixes; and a switch whose target is recorded has put the target's mixes into the engine.
\<close>

definition in_step :: "world \<Rightarrow> bool" where
  "in_step w =
     (\<exists>rs l. wd_roster w = Some rs \<and> state_lineup rs = Some l \<and> wd_active w = Some (lu_id l) \<and>
       (wd_intent w = None \<or> \<not> wd_frozen w \<longrightarrow> wd_band w = lu_id l) \<and>
       (\<forall>i. wd_intent w = Some i \<and> sw_to i = lu_id l \<longrightarrow> wd_band w = lu_id l))"

lemma in_step_about: "about w = about v \<Longrightarrow> in_step w \<longleftrightarrow> in_step v"
  by (simp add: in_step_def about_def)

lemma roster_lineup_id: "roster_lineup r i = Some l \<Longrightarrow> lu_id l = i \<and> l \<in> set (ro_lineups r)"
  by (auto simp: roster_lineup_def find_Some_iff)

lemma in_use_lineup:
  assumes "l \<in> set (ro_lineups (rs_roster rs))"
  shows "\<exists>l'. state_lineup (rs\<lparr>rs_active := lu_id l\<rparr>) = Some l' \<and> lu_id l' = lu_id l"
proof -
  have "roster_lineup (rs_roster rs) (lu_id l) \<noteq> None" using assms by (auto simp: roster_lineup_def find_None_iff)
  then obtain l' where "roster_lineup (rs_roster rs) (lu_id l) = Some l'" by blast
  then show ?thesis using roster_lineup_id by (auto simp: state_lineup_def)
qed

lemma in_stepI:
  assumes "about w = (Some b, i, b, Some (rs\<lparr>rs_active := b\<rparr>), f)" and "\<exists>l \<in> set (ro_lineups (rs_roster rs)). lu_id l = b"
  shows "in_step w"
proof -
  from assms(2) obtain l where l: "l \<in> set (ro_lineups (rs_roster rs))" "lu_id l = b" by blast
  from in_use_lineup [OF l(1)] obtain l' where "state_lineup (rs\<lparr>rs_active := b\<rparr>) = Some l'" "lu_id l' = b" using l(2) by auto
  then show ?thesis using assms(1) by (auto simp: in_step_def about_def)
qed

lemma run_effect:
  assumes "run_state (run_switch e r from to) w = (x, w')" and "wd_active w = Some from" "wd_band w = from" "\<not> wd_frozen w"
  obtains (both) i where "x = Inr ()" "about w' = (Some (lu_id to), i, lu_id to, wd_roster w, True)"
  | (restored) err i where "x = Inl err" "about w' = (Some from, i, from, wd_roster w, False)"
  | (stays) err band where "x = Inl err" "about w' = (Some from, Some \<lparr>sw_from = from, sw_to = lu_id to\<rparr>, band, wd_roster w, True)"
proof -
  let ?w = "w\<lparr>wd_clock := Suc (wd_clock w)\<rparr>"
  obtain x1 w1 where r1: "run_state (freeze e) ?w = (x1, w1)" by fastforce
  note f = freeze_effect [OF r1]
  obtain x2 w2 where r2: "run_state (switch_steps e r from to) w1 = (x2, w2)" by fastforce
  show thesis
  proof (cases "ev_synced e (wd_clock w) \<and> x1 = Inr False")
    case False
    then have "\<exists>err. x = Inl err \<and> about w' = about w"
      using assms(1,4) f by (auto simp: run_switch_def mirror_synced_def run_try r1 about_def split: if_splits sum.splits)
    then show ?thesis using assms(2-4) restored by (auto simp: about_def)
  next
    case True
    then have a1: "about w1 = (Some from, wd_intent w, from, wd_roster w, True)" using f assms(2,3) by (auto simp: about_def)
    have x: "(x, w') = (case x2 of Inr _ \<Rightarrow> (Inr (), w2) | Inl (Back err) \<Rightarrow> (Inl err, thaw_after True w2)
        | Inl (Stays err) \<Rightarrow> (Inl (Pending (show_switch_error err)), w2))"
      using assms(1) True by (auto simp: run_switch_def mirror_synced_def run_try r1 r2 split: sum.splits failed.splits)
    have pre: "wd_active w1 = Some from" "wd_band w1 = from" using a1 by (simp_all add: about_def)
    show ?thesis
      by (rule steps_effect [OF r2 pre]) (use x a1 that in \<open>auto simp: about_def [of w1] about_def [of "wd_frozen_update _ _"] about_def [of w2]\<close>)
  qed
qed

lemma switch_keeps:
  assumes "in_step w" and "run_state (switch_lineup e site to by') w = (x, w')"
  shows "in_step w'"
proof -
  from assms(1) obtain rs l where l: "wd_roster w = Some rs" "state_lineup rs = Some l" "wd_active w = Some (lu_id l)"
    "\<not> wd_frozen w \<Longrightarrow> wd_band w = lu_id l" by (auto simp: in_step_def)
  show ?thesis
  proof (cases "\<exists>t. roster_lineup (rs_roster rs) to = Some t \<and> lu_id t \<noteq> lu_id l \<and> \<not> wd_frozen w \<and> \<not> settling w \<and> site \<and> may_switch (rs_roster rs) by'")
    case False
    then have "w' = w" using assms(2) l by (auto simp: switch_lineup_def split: if_splits option.splits)
    with assms(1) show ?thesis by simp
  next
    case True
    then obtain t where t: "roster_lineup (rs_roster rs) to = Some t" "lu_id t \<noteq> lu_id l" and fz: "\<not> wd_frozen w" "\<not> settling w" site "may_switch (rs_roster rs) by'" by blast
    obtain x1 w1 where r1: "run_state (run_switch e (rs_roster rs) (lu_id l) t) w = (x1, w1)" by fastforce
    have x: "w' = (case x1 of Inl _ \<Rightarrow> w1 | Inr _ \<Rightarrow> thaw_after True (set_active_in_use (lu_id t) w1))"
      using assms(2) l t fz by (auto simp: switch_lineup_def run_try r1 split: sum.splits)
    from r1 l(3) l(4) [OF fz(1)] fz(1) show ?thesis
    proof (cases rule: run_effect)
      case (both i)
      then have "about w' = (Some (lu_id t), i, lu_id t, Some (rs\<lparr>rs_active := lu_id t\<rparr>), False)"
        using x l(1) by (auto simp: about_def [of w1] about_def [of "wd_frozen_update _ _"] set_active_in_use_def)
      then show ?thesis by (rule in_stepI) (use roster_lineup_id [OF t(1)] in auto)
    next
      case (restored err i)
      then show ?thesis using x l by (auto simp: in_step_def about_def)
    next
      case (stays err band)
      then show ?thesis using x l t(2) by (auto simp: in_step_def about_def)
    qed
  qed
qed


subsection \<open>Replays\<close>

lemma play_effect:
  assumes "run_state (play e r l stored other) w = (x, w')"
  obtains (both) "x = Inr ()" "about w' = (Some (lu_id l), wd_intent w, lu_id l, map_option (rs_active_update (\<lambda>_. lu_id l)) (wd_roster w), wd_frozen w)"
  | (undone) err band where "x = Inl err" "about w' = (wd_active w, wd_intent w, band, wd_roster w, wd_frozen w)"
proof -
  obtain synced w1 where r1: "run_state (mirror_synced e) w = (synced, w1)" by fastforce
  have a1: "about w1 = about w" by (rule asideD [OF _ r1]) simp
  show thesis
  proof (cases synced)
    case False
    then show ?thesis using assms a1 undone by (auto simp: play_def r1 about_def)
  next
    case True
    obtain run w2 where r2: "run_state (running_of e (ev_digest e (wd_engine w1))) w1 = (run, w2)" by fastforce
    have a2: "about w2 = about w" using asideD [OF _ r2] a1 by simp
    let ?t = "target_of stored (wd_engine w1) (case run of Some x \<Rightarrow> (ru_follows x, ru_silenced x) | None \<Rightarrow> (None, [])) r l"
    let ?so = "case other of Some before \<Rightarrow> soloed_changing (wd_solos w1) before l | None \<Rightarrow> []"
    let ?k = "note_running e (snd ?t) \<bind> (\<lambda>_. end_solos e ?so \<bind> (\<lambda>_. State_Monad.return (Inr ())))"
    have k: "aside ?k" by (intro aside_bind) simp_all
    let ?m = "try_p (request_applied e (lu_id l) (ImportState (fst ?t))) show_engine_error (\<lambda>_. try_p (set_active e (lu_id l)) fe_text (\<lambda>_. ?k))"
    obtain x3 w3 where r3: "run_state ?m w2 = (x3, w3)" by fastforce
    have "(x, w') = (x3, case x3 of Inr _ \<Rightarrow> set_active_in_use (lu_id l) w3 | Inl _ \<Rightarrow> w3)"
      using assms True r3 by (cases other) (auto simp: play_def r1 r2 run_try case_prod_unfold Let_def split: sum.splits)
    then have x: "x = x3" "w' = (case x3 of Inr _ \<Rightarrow> set_active_in_use (lu_id l) w3 | Inl _ \<Rightarrow> w3)" by simp_all
    from r3 k show ?thesis
    proof (cases rule: import_then_record)
      case both
      from both(1) have "x3 = Inr ()" by (auto simp: case_prod_unfold)
      then show ?thesis using x both(2) a2 that(1) by (simp add: about_def set_active_in_use_def)
    next
      case (undone err band)
      then show ?thesis using x a2 that(2) by (simp add: about_def)
    qed
  qed
qed

lemma finish_effect:
  assumes "run_state (finish_replay e) w = (x, w')"
  shows "(x = Inr () \<and> about w' = (wd_active w, None, wd_band w, wd_roster w, False)) \<or> ((\<exists>err. x = Inl err) \<and> about w' = about w)"
proof -
  obtain x1 w1 where r1: "run_state (clear_intent e) w = (x1, w1)" by fastforce
  show ?thesis
  proof (cases x1)
    case (Inl err)
    then show ?thesis using clear_intent_effect [OF r1] assms by (auto simp: finish_replay_def run_try r1)
  next
    case (Inr u)
    then have "x = Inr ()" "w' = thaw_after True w1" using assms by (simp_all add: finish_replay_def run_try r1)
    moreover have "about w1 = about (w\<lparr>wd_intent := None\<rparr>)" using clear_intent_effect [OF r1] Inr by auto
    ultimately show ?thesis by (simp add: about_def [of w1] about_def [of "wd_frozen_update _ _"] about_def [of "wd_intent_update _ _"])
  qed
qed

lemma lineup_or_active_in:
  assumes "state_lineup rs = Some l0" and "lineup_or_active rs i = Some l"
  shows "l \<in> set (ro_lineups (rs_roster rs))"
  using assms roster_lineup_id
  by (auto simp: lineup_or_active_def state_lineup_def roster_main_def find_Some_iff split: option.splits)

lemma lineup_or_active_some: "state_lineup rs = Some l0 \<Longrightarrow> \<exists>l. lineup_or_active rs i = Some l"
  by (cases "roster_lineup (rs_roster rs) i") (simp_all add: lineup_or_active_def)

text \<open>A replay that imports and one that goes back end alike.\<close>

lemma replay_play_keeps:
  assumes "in_step w" and "wd_frozen w" and "wd_intent w = Some i" and "wd_roster w = Some rs" and "wd_active w \<noteq> Some (sw_to i)"
    and "lineup_or_active rs i' = Some l"
    and "run_state (try_p (play e r l stored other) id (\<lambda>_. finish_replay e)) w = (x, w')"
  shows "in_step w'" and "x = Inr () \<Longrightarrow> \<not> wd_frozen w'"
proof -
  obtain x1 w1 where r1: "run_state (play e r l stored other) w = (x1, w1)" by fastforce
  from assms(1,4) have l0: "\<exists>l0. state_lineup rs = Some l0" by (auto simp: in_step_def)
  have inl: "\<exists>k \<in> set (ro_lineups (rs_roster rs)). lu_id k = lu_id l" using l0 lineup_or_active_in assms(6) by blast
  from r1 have "in_step w' \<and> (x = Inr () \<longrightarrow> \<not> wd_frozen w')"
  proof (cases rule: play_effect)
    case both
    obtain x2 w2 where r2: "run_state (finish_replay e) w1 = (x2, w2)" by fastforce
    have "x = x2" "w' = w2" using assms(7) both(1) by (simp_all add: run_try r1 r2)
    moreover from finish_effect [OF r2] both(2) assms(4) obtain i2 f2
      where "about w2 = (Some (lu_id l), i2, lu_id l, Some (rs\<lparr>rs_active := lu_id l\<rparr>), f2)" "x2 = Inr () \<longrightarrow> \<not> f2"
      by (auto simp: about_def)
    ultimately show ?thesis using in_stepI inl by (metis about_def prod.inject)
  next
    case (undone err band)
    then have "x = Inl err" "w' = w1" using assms(7) by (simp_all add: run_try r1)
    then show ?thesis using undone(2) assms(1-5) by (auto simp: in_step_def about_def)
  qed
  then show "in_step w'" "x = Inr () \<Longrightarrow> \<not> wd_frozen w'" by simp_all
qed


lemma free_when_nothing:
  assumes "in_step w" and "wd_intent w = None"
  shows "in_step (thaw_after c w)"
  using assms in_step_about [of "thaw_after c w" "w\<lparr>wd_frozen := False\<rparr>"] by (auto simp: in_step_def)

lemma read_effects:
  "run_state (store_intent e) w = (Inr i, w') \<Longrightarrow> i = wd_intent w"
  "run_state (store_active e) w = (Inr a, w') \<Longrightarrow> a = wd_active w"
  by (auto simp: store_intent_def store_active_def file_step_def split: option.splits)

lemma in_step_aside: "aside m \<Longrightarrow> run_state m w = (x, w') \<Longrightarrow> in_step w' \<longleftrightarrow> in_step w"
  using in_step_about asideD by metis

text \<open>The target is recorded already: only its solos end and the intent goes.\<close>

lemma replay_recorded_keeps:
  assumes "in_step w" and "wd_frozen w" and "wd_intent w = Some i" and "wd_active w = Some (sw_to i)"
    and "run_state (end_solos e ms \<bind> (\<lambda>_. finish_replay e)) w = (x, w')"
  shows "in_step w' \<and> (x = Inr () \<longrightarrow> \<not> wd_frozen w')"
proof -
  obtain w1 where r1: "run_state (end_solos e ms) w = ((), w1)" by (metis old.unit.exhaust prod.exhaust)
  have a1: "about w1 = about w" by (rule asideD [OF _ r1]) simp
  have r2: "run_state (finish_replay e) w1 = (x, w')" using assms(5) by (simp add: r1)
  from finish_effect [OF r2] show ?thesis
  proof
    assume "x = Inr () \<and> about w' = (wd_active w1, None, wd_band w1, wd_roster w1, False)"
    then show ?thesis using a1 assms(1,3,4) by (auto simp: in_step_def about_def)
  next
    assume "(\<exists>err. x = Inl err) \<and> about w' = about w1"
    then show ?thesis using a1 assms(1) in_step_about [of w' w] by auto
  qed
qed

lemma replay_intent_Some:
  assumes "wd_roster w1 = Some rs" and "run_state (store_intent e) w = (Inr (Some i), w1)"
    and "run_state (store_active e) w1 = (Inr a, w2)" and "lineup_or_active rs (sw_to i) = Some l"
  shows "run_state (replay_intent e) w =
    (if a \<noteq> Some (sw_to i)
     then run_state (try_p (store_state e (lu_id l)) fe_text (\<lambda>stored.
            try_p (play e (rs_roster rs) l stored (roster_lineup (rs_roster rs) (sw_from i))) id (\<lambda>_. finish_replay e))) w2
     else run_state (end_solos e (case roster_lineup (rs_roster rs) (sw_from i) of Some before \<Rightarrow> soloed_changing (wd_solos w2) before l | None \<Rightarrow> [])
            \<bind> (\<lambda>_. finish_replay e)) w2)"
  using assms
  by (cases "roster_lineup (rs_roster rs) (sw_from i)")
    (simp_all add: replay_intent_def run_try [of "store_intent e"] run_try [of "store_active e"] Let_def)

lemma replay_keeps:
  assumes "in_step w" and "wd_frozen w" and "run_state (replay_intent e) w = (x, w')"
  shows "in_step w' \<and> (x = Inr () \<longrightarrow> \<not> wd_frozen w')"
proof -
  from assms(1) obtain rs l0 where rs: "wd_roster w = Some rs" "state_lineup rs = Some l0" by (auto simp: in_step_def)
  obtain x1 w1 where r1: "run_state (store_intent e) w = (x1, w1)" by fastforce
  obtain x2 w2 where r2: "run_state (store_active e) w1 = (x2, w2)" by fastforce
  have st1: "in_step w1" and st2: "in_step w2" using assms(1) in_step_aside [OF _ r1] in_step_aside [OF _ r2] by simp_all
  have a: "about w1 = about w" "about w2 = about w" using asideD [OF _ r1] asideD [OF _ r2] by simp_all
  note f = a [unfolded about_def prod.inject]
  show ?thesis
  proof (cases x1)
    case (Inl err)
    then show ?thesis using assms(3) st1 by (auto simp: replay_intent_def run_try r1)
  next
    case 1: (Inr i)
    note i = read_effects(1) [OF r1 [unfolded 1]]
    show ?thesis
    proof (cases i)
      case None
      then have w': "x = Inr ()" "w' = thaw_after True w1" using assms(3) 1 f rs by (simp_all add: replay_intent_def run_try r1)
      have "about w' = about (w1\<lparr>wd_frozen := False\<rparr>)" by (simp add: w')
      moreover have "in_step w'" using free_when_nothing [OF st1] None i f w' by simp
      ultimately show ?thesis by (simp add: about_def)
    next
      case (Some j)
      show ?thesis
      proof (cases x2)
        case (Inl err)
        then show ?thesis using assms(3) 1 Some st2 f rs by (auto simp: replay_intent_def run_try r1 r2)
      next
        case 2: (Inr active)
        note act = read_effects(2) [OF r2 [unfolded 2]]
        obtain l where l: "lineup_or_active rs (sw_to j) = Some l" using lineup_or_active_some [OF rs(2)] by blast
        have j2: "wd_frozen w2" "wd_intent w2 = Some j" "wd_roster w2 = Some rs" "wd_roster w1 = Some rs" "wd_active w2 = active"
          using f assms(2) i Some rs act by simp_all
        note e = replay_intent_Some [OF j2(4) r1 [unfolded 1 Some] r2 [unfolded 2] l]
        show ?thesis
        proof (cases "active = Some (sw_to j)")
          case True
          then show ?thesis using replay_recorded_keeps [OF st2 j2(1,2)] j2(5) e assms(3) by metis
        next
          case False
          obtain x3 w3 where r3: "run_state (store_state e (lu_id l)) w2 = (x3, w3)" by fastforce
          have st3: "in_step w3" using st2 in_step_aside [OF _ r3] by simp
          have "about w3 = about w2" by (rule asideD [OF _ r3]) simp
          then have f3: "wd_frozen w3" "wd_intent w3 = Some j" "wd_roster w3 = Some rs" "wd_active w3 \<noteq> Some (sw_to j)"
            using j2 False by (simp_all add: about_def)
          show ?thesis
          proof (cases x3)
            case (Inl err)
            then show ?thesis using e assms(3) False st3 by (auto simp: run_try r3)
          next
            case (Inr stored)
            then have "run_state (try_p (play e (rs_roster rs) l stored (roster_lineup (rs_roster rs) (sw_from j))) id (\<lambda>_. finish_replay e)) w3 = (x, w')"
              using e assms(3) False by (simp add: run_try [of "store_state e (lu_id l)"] r3)
            from replay_play_keeps [OF st3 f3 l this] show ?thesis by blast
          qed
        qed
      qed
    qed
  qed
qed


text \<open>
  Going back is safe while the target of the switch is not the recorded band.
\<close>

lemma fall_back_keeps:
  assumes "in_step w" and "wd_frozen w" and "\<And>i. wd_intent w = Some i \<Longrightarrow> wd_active w \<noteq> Some (sw_to i)"
    and "run_state (fall_back e) w = (x, w')"
  shows "in_step w' \<and> (x = Inr () \<longrightarrow> \<not> wd_frozen w')"
proof -
  from assms(1) obtain rs l0 where rs: "wd_roster w = Some rs" "state_lineup rs = Some l0" by (auto simp: in_step_def)
  obtain x1 w1 where r1: "run_state (store_intent e) w = (x1, w1)" by fastforce
  have st1: "in_step w1" using assms(1) in_step_aside [OF _ r1] by simp
  have "about w1 = about w" by (rule asideD [OF _ r1]) simp
  note f = this [unfolded about_def prod.inject]
  show ?thesis
  proof (cases x1)
    case (Inl err)
    then show ?thesis using assms(4) st1 by (auto simp: fall_back_def run_try r1)
  next
    case 1: (Inr i)
    note i = read_effects(1) [OF r1 [unfolded 1]]
    show ?thesis
    proof (cases i)
      case None
      then have w': "x = Inr ()" "w' = thaw_after True w1" using assms(4) 1 f rs by (simp_all add: fall_back_def run_try r1)
      have "about w' = about (w1\<lparr>wd_frozen := False\<rparr>)" by (simp add: w')
      moreover have "in_step w'" using free_when_nothing [OF st1] None i f w' by simp
      ultimately show ?thesis by (simp add: about_def)
    next
      case (Some j)
      obtain l where l: "lineup_or_active rs (sw_from j) = Some l" using lineup_or_active_some [OF rs(2)] by blast
      obtain x3 w3 where r3: "run_state (store_state e (lu_id l)) w1 = (x3, w3)" by fastforce
      have st3: "in_step w3" using st1 in_step_aside [OF _ r3] by simp
      have "about w3 = about w1" by (rule asideD [OF _ r3]) simp
      then have f3: "wd_frozen w3" "wd_intent w3 = Some j" "wd_roster w3 = Some rs" "wd_active w3 \<noteq> Some (sw_to j)"
        using f i Some rs assms(2,3) by (simp_all add: about_def)
      let ?stored = "case x3 of Inr stored \<Rightarrow> stored | Inl _ \<Rightarrow> None"
      have "run_state (try_p (play e (rs_roster rs) l ?stored (roster_lineup (rs_roster rs) (sw_to j))) id (\<lambda>_. finish_replay e)) w3 = (x, w')"
        using assms(4) 1 Some f rs l r3 by (simp add: fall_back_def run_try [of "store_intent e"] r1)
      from replay_play_keeps [OF st3 f3 l this] show ?thesis by blast
    qed
  qed
qed

lemma restart_keeps:
  assumes "in_step w" and "\<And>a. wd_active w = Some a \<Longrightarrow> roster_lineup r a \<noteq> None"
  shows "in_step (restart b r sha w)"
proof -
  from assms(1) obtain a where a: "wd_active w = Some a" by (auto simp: in_step_def)
  with assms(2) obtain l where l: "roster_lineup r a = Some l" by blast
  with a assms(1) show ?thesis using roster_lineup_id [OF l]
    by (auto simp: in_step_def restart_def state_lineup_def)
qed

subsection \<open>A concrete world\<close>

definition demo_lineup :: "string \<Rightarrow> bool \<Rightarrow> lineup" where
  "demo_lineup i m = \<lparr>lu_id = i, lu_name = i, lu_main = m, lu_leaders = [''anna''], lu_sets = [(''member1'', ''anna'')], lu_inputs = []\<rparr>"

definition demo_bands :: roster where
  "demo_bands = \<lparr>ro_people = [], ro_lineups = [demo_lineup ''main'' True, demo_lineup ''youth'' False], ro_equipment = None\<rparr>"

definition demo_topology :: topology_info where
  "demo_topology = \<lparr>ti_hash = '''', ti_sample_rate = 48000, ti_engineer = ''engineer'', ti_inputs = [], ti_groups = [], ti_mixes = []\<rparr>"

definition demo_world :: world where
  "demo_world =
     \<lparr>wd_active = Some ''main'', wd_intent = None, wd_states = [], wd_running = None, wd_rosters = [], wd_applied = None,
      wd_engine = mix_state_default, wd_solos = [], wd_band = ''main'',
      wd_roster = Some \<lparr>rs_roster = demo_bands, rs_sha256 = '''', rs_active = ''main''\<rparr>, wd_unsettled = None,
      wd_frozen = False, wd_missed = False, wd_unrecorded = 0, wd_told = [], wd_clock = 0\<rparr>"

text \<open>Request \<open>n\<close> fails after the engine took it for \<open>n\<close> in \<open>lost\<close>; file operation \<open>n\<close> fails for \<open>n\<close> in \<open>broken\<close>.\<close>

definition demo_env :: "nat list \<Rightarrow> nat list \<Rightarrow> environment" where
  "demo_env lost broken =
     \<lparr>ev_file = (\<lambda>n. if n \<in> set broken then Some \<lparr>fe_kind = ''x'', fe_text = ''x''\<rparr> else None),
      ev_reply = (\<lambda>n. if n \<in> set lost then LosesLink True else Takes),
      ev_synced = (\<lambda>_. True), ev_topology = demo_topology, ev_config = config_default,
      ev_pins = (\<lambda>_ _. Inl ''''), ev_rev = (\<lambda>_. 0), ev_time = (\<lambda>_. ''''), ev_digest = (\<lambda>_. ''''), ev_parse = (\<lambda>_. Inl ''''), ev_sha256 = id\<rparr>"

definition demo_engineer :: auth_claims where
  "demo_engineer = \<lparr>au_sub = ''engineer'', au_engineer = True, au_exp = 0, au_iat = 0\<rparr>"

end
