(* ===== verification/SwitchWorks.thy ===== *)
theory SwitchWorks
  imports SwitchProps
begin

text \<open>
  What a switch does when nothing fails, and the one way in which going back can part the engine's mixes
  from the recorded band.
\<close>

subsection \<open>An environment in which nothing fails\<close>

definition fair :: "environment \<Rightarrow> bool" where
  "fair e = (\<forall>n. ev_file e n = None \<and> ev_reply e n = Takes \<and> ev_synced e n)"

abbreviation later :: "world \<Rightarrow> world" where
  "later w \<equiv> w\<lparr>wd_clock := Suc (wd_clock w)\<rparr>"

lemma fair_steps:
  assumes "fair e"
  shows "run_state (file_step e v f) w = (Inr (v (later w)), f (later w))"
    and "run_state (request_applied e b c) w = (Inr (), engine_takes e b c (later w))"
    and "run_state (mirror_synced e) w = (True, later w)"
  using assms by (simp_all add: fair_def file_step_def request_applied_def mirror_synced_def)

lemma fair_stores:
  assumes "fair e"
  shows "run_state (store_state e i) w = (if valid_lineup_id i then (Inr (map_of (wd_states w) i), later w) else (Inl INVALID_ID, w))"
    and "run_state (save_state e i b) w = (if valid_lineup_id i then (Inr (), (later w)\<lparr>wd_states := bm_insert i b (wd_states w)\<rparr>) else (Inl INVALID_ID, w))"
    and "run_state (set_active e i) w = (if valid_lineup_id i then (Inr (), (later w)\<lparr>wd_active := Some i\<rparr>) else (Inl INVALID_ID, w))"
    and "run_state (set_intent e j) w = (if valid_lineup_id (sw_from j) \<and> valid_lineup_id (sw_to j) then (Inr (), (later w)\<lparr>wd_intent := Some j\<rparr>) else (Inl INVALID_ID, w))"
    and "run_state (clear_intent e) w = (Inr (), (later w)\<lparr>wd_intent := None\<rparr>)"
    and "run_state (set_running e r) w = (if valid_lineup_id (ru_lineup r) then (Inr (), (later w)\<lparr>wd_running := Some r\<rparr>) else (Inl INVALID_ID, w))"
    and "run_state (store_running e) w = (Inr (wd_running w), later w)"
  by (simp_all add: store_state_def save_state_def set_active_def set_intent_def clear_intent_def set_running_def
      store_running_def checked_ids_def fair_steps [OF assms])

lemma thaw_fields [simp]:
  "wd_active (thaw_after c w) = wd_active w" "wd_intent (thaw_after c w) = wd_intent w" "wd_band (thaw_after c w) = wd_band w"
  "wd_roster (thaw_after c w) = wd_roster w" "wd_frozen (thaw_after c w) = False" "wd_engine (thaw_after c w) = wd_engine w"
  "wd_states (thaw_after c w) = wd_states w" "wd_solos (thaw_after c w) = wd_solos w"
  by (simp_all add: thaw_after_def announce_lineup_def Let_def split: option.splits)

lemma fair_end_solos:
  assumes "fair e"
  shows "\<exists>n. run_state (end_solos e ms) w = ((), w\<lparr>wd_solos := filter (\<lambda>s. so_mix s \<notin> set ms) (wd_solos w), wd_clock := n\<rparr>)"
proof (induction ms arbitrary: w)
  case Nil
  show ?case by (rule exI [of _ "wd_clock w"]) simp
next
  case (Cons m ms)
  from Cons [of "(later w)\<lparr>wd_solos := filter (\<lambda>s. so_mix s \<noteq> m) (wd_solos w)\<rparr>"]
  show ?case by (simp add: fair_steps [OF assms] filter_filter conj_commute)
qed

text \<open>What the running state follows, as the files say it.\<close>

definition followed :: "world \<Rightarrow> string \<Rightarrow> string \<Rightarrow> string option \<times> string list" where
  "followed w i held =
     (case wd_running w of
        Some r \<Rightarrow> if ru_lineup r = i then (ru_follows (resolved r held), ru_silenced (resolved r held)) else (None, [])
      | None \<Rightarrow> (None, []))"

lemma followed_frame [simp]: "followed (w\<lparr>wd_clock := n\<rparr>) = followed w" "followed (w\<lparr>wd_frozen := b\<rparr>) = followed w"
  by (simp_all add: followed_def fun_eq_iff)

lemma resolved_lineup [simp]: "ru_lineup (resolved r held) = ru_lineup r"
  by (simp add: resolved_def split: option.splits)

lemma fair_running_for:
  assumes "fair e"
  shows "\<exists>r n. run_state (running_for e i held) w = (followed w i held, w\<lparr>wd_running := r, wd_clock := n\<rparr>)"
proof (cases "wd_running w")
  case None
  then show ?thesis
    by (intro exI [of _ "wd_running w"] exI [of _ "Suc (wd_clock w)"]) (simp add: running_for_def running_of_def followed_def fair_stores [OF assms])
next
  case (Some r)
  show ?thesis
  proof (cases "ru_pending r")
    case None
    then have "resolved r held = r" by (simp add: resolved_def)
    with Some None show ?thesis
      by (intro exI [of _ "wd_running w"] exI [of _ "Suc (wd_clock w)"]) (simp add: running_for_def running_of_def followed_def fair_stores [OF assms])
  next
    case (Some p)
    with \<open>wd_running w = Some r\<close> show ?thesis
      by (intro exI [of _ "if valid_lineup_id (ru_lineup r) then Some (resolved r held) else wd_running w"]
            exI [of _ "if valid_lineup_id (ru_lineup r) then Suc (Suc (wd_clock w)) else Suc (wd_clock w)"])
        (simp add: running_for_def running_of_def followed_def note_running_def fair_stores [OF assms])
  qed
qed

lemma capture_ok:
  assumes "\<And>m. m \<in> set ms \<Longrightarrow> \<exists>c. reads m = Inr c"
  shows "\<exists>b. capture ms reads rv st t = Inr b \<and> hb_state (backup_head b) = st"
proof -
  let ?f = "\<lambda>m b. case reads m of Inl e \<Rightarrow> Inl (''the pins and hides of '' @ m @ '' are unreadable: '' @ e)
      | Inr c \<Rightarrow> Inr (on_head (hb_customizations_update (bm_insert m c)) b)"
  have "\<exists>b'. fold_r ?f ms b = Inr b' \<and> hb_state (backup_head b') = hb_state (backup_head b)" for b
    using assms
  proof (induction ms arbitrary: b)
    case (Cons m ms)
    obtain c where c: "reads m = Inr c" using Cons.prems by auto
    from Cons.IH [of "on_head (hb_customizations_update (bm_insert m c)) b"] Cons.prems show ?case by (auto simp: c)
  qed simp
  from this [of "backup_new t rv st"] show ?thesis by (simp add: capture_def backup_new_def)
qed

lemma fair_live_backup:
  assumes "fair e" and "view_members e (wd_roster w) = Some ms" and "\<And>n m. m \<in> set ms \<Longrightarrow> \<exists>c. ev_pins e n m = Inr c"
  shows "\<exists>live r n. run_state (live_backup e from) w = (Inr live, w\<lparr>wd_running := r, wd_clock := n\<rparr>) \<and>
    hb_state (backup_head live) = wd_engine w \<and> hb_lineup (backup_head live) = Some from \<and>
    (hb_follows (backup_head live), hb_silenced (backup_head live)) = followed w from (ev_digest e (wd_engine w))"
proof -
  let ?w = "later (later w)"
  obtain b where b: "capture ms (ev_pins e (Suc (wd_clock w))) (ev_rev e (Suc (wd_clock w))) (wd_engine w) (ev_time e (Suc (wd_clock w))) = Inr b"
    "hb_state (backup_head b) = wd_engine w"
    using capture_ok [of ms "ev_pins e (Suc (wd_clock w))"] assms(3) by blast
  obtain r n where r: "run_state (running_for e from (ev_digest e (wd_engine w))) ?w = (followed ?w from (ev_digest e (wd_engine w)), ?w\<lparr>wd_running := r, wd_clock := n\<rparr>)"
    using fair_running_for [OF assms(1)] by blast
  show ?thesis using b r assms(2)
    by (intro exI [of _ "on_head (\<lambda>h. h\<lparr>hb_lineup := Some from, hb_follows := fst (followed w from (ev_digest e (wd_engine w))),
          hb_silenced := snd (followed w from (ev_digest e (wd_engine w)))\<rparr>) b"] exI [of _ r] exI [of _ n])
      (simp add: live_backup_def fair_steps [OF assms(1)])
qed


lemma fair_forward:
  assumes "fair e" and "valid_lineup_id (lu_id to)"
    and "target_of (map_of (wd_states w) (lu_id to)) (hb_state (backup_head live)) (hb_follows (backup_head live), hb_silenced (backup_head live)) r to = (target, run)"
    and "roster_lineup r from = Some before"
  shows "\<exists>n. run_state (forward e r live from to) w =
    (Inr (), w\<lparr>wd_engine := fst (reconcile (ev_topology e) target), wd_band := lu_id to, wd_active := Some (lu_id to), wd_running := Some run,
       wd_solos := filter (\<lambda>s. so_mix s \<notin> set (soloed_changing (wd_solos w) before to)) (wd_solos w), wd_clock := n\<rparr>)"
proof -
  have run: "ru_lineup run = lu_id to" using assms(3) by (auto simp: target_of_def Let_def split: prod.splits option.splits)
  let ?w = "w\<lparr>wd_engine := fst (reconcile (ev_topology e) target), wd_band := lu_id to, wd_active := Some (lu_id to), wd_clock := Suc (Suc (Suc (Suc (wd_clock w)))), wd_running := Some run\<rparr>"
  from fair_end_solos [OF assms(1), of "soloed_changing (wd_solos w) before to" ?w] obtain n
    where "run_state (end_solos e (soloed_changing (wd_solos w) before to)) ?w =
      ((), ?w\<lparr>wd_solos := filter (\<lambda>s. so_mix s \<notin> set (soloed_changing (wd_solos w) before to)) (wd_solos ?w), wd_clock := n\<rparr>)" by blast
  then show ?thesis
    using assms run by (intro exI [of _ n]) (simp add: forward_def run_try fair_stores [OF assms(1)] fair_steps [OF assms(1)] note_running_def)
qed

lemma fair_steps_run:
  assumes "fair e" and "view_members e (wd_roster w) = Some ms" and "\<And>n m. m \<in> set ms \<Longrightarrow> \<exists>c. ev_pins e n m = Inr c"
    and "valid_lineup_id from" and "valid_lineup_id (lu_id to)" and "from \<noteq> lu_id to" and "roster_lineup r from = Some before"
    and "target_of (map_of (wd_states w) (lu_id to)) (wd_engine w) (followed w from (ev_digest e (wd_engine w))) r to = (target, run)"
  shows "\<exists>live n. run_state (switch_steps e r from to) w =
    (Inr (), w\<lparr>wd_engine := fst (reconcile (ev_topology e) target), wd_band := lu_id to, wd_active := Some (lu_id to), wd_running := Some run,
       wd_solos := filter (\<lambda>s. so_mix s \<notin> set (soloed_changing (wd_solos w) before to)) (wd_solos w),
       wd_states := bm_insert from live (wd_states w), wd_intent := None, wd_clock := n\<rparr>) \<and>
    hb_state (backup_head live) = wd_engine w \<and> hb_lineup (backup_head live) = Some from \<and>
    (hb_follows (backup_head live), hb_silenced (backup_head live)) = followed w from (ev_digest e (wd_engine w))"
proof -
  from fair_live_backup [OF assms(1-3), of "from"] obtain live rn n1 where live:
    "run_state (live_backup e from) w = (Inr live, w\<lparr>wd_running := rn, wd_clock := n1\<rparr>)" "hb_state (backup_head live) = wd_engine w"
    "hb_lineup (backup_head live) = Some from"
    "(hb_follows (backup_head live), hb_silenced (backup_head live)) = followed w from (ev_digest e (wd_engine w))"
    by blast
  let ?i = "\<lparr>sw_from = from, sw_to = lu_id to\<rparr>"
  let ?w = "w\<lparr>wd_running := rn, wd_states := bm_insert from live (wd_states w), wd_clock := Suc (Suc n1), wd_intent := Some ?i\<rparr>"
  have tg: "target_of (map_of (wd_states ?w) (lu_id to)) (hb_state (backup_head live)) (hb_follows (backup_head live), hb_silenced (backup_head live)) r to = (target, run)"
    using assms(6,8) live by simp
  let ?v = "?w\<lparr>wd_engine := fst (reconcile (ev_topology e) target), wd_band := lu_id to, wd_active := Some (lu_id to), wd_running := Some run,
       wd_solos := filter (\<lambda>s. so_mix s \<notin> set (soloed_changing (wd_solos ?w) before to)) (wd_solos ?w)\<rparr>"
  from fair_forward [OF assms(1,5) tg assms(7)] obtain n where
    "run_state (forward e r live from to) ?w = (Inr (), ?v\<lparr>wd_clock := n\<rparr>)" by auto
  then have "run_state (switch_steps e r from to) w = (Inr (), (later (?v\<lparr>wd_clock := n\<rparr>))\<lparr>wd_intent := None\<rparr>)"
    using assms(4,5) by (simp add: switch_steps_def run_try live(1) fair_stores [OF assms(1)])
  moreover have "(later (?v\<lparr>wd_clock := n\<rparr>))\<lparr>wd_intent := None\<rparr> =
      w\<lparr>wd_engine := fst (reconcile (ev_topology e) target), wd_band := lu_id to, wd_active := Some (lu_id to), wd_running := Some run,
       wd_solos := filter (\<lambda>s. so_mix s \<notin> set (soloed_changing (wd_solos w) before to)) (wd_solos w),
       wd_states := bm_insert from live (wd_states w), wd_intent := None, wd_clock := Suc n\<rparr>"
    by (cases w) simp
  ultimately show ?thesis using live(2-4) by metis
qed


text \<open>
  C15. A permitted switch that meets no failure happens: it returns, the target is recorded and in use,
  its intent is gone and the pages are free; the engine holds the target's stored state (its own mixes
  completed by running values it lacks, or the running state for a band that never played) under the
  rules of the lineup, shaped by the topology; the band before has the state the engine held stored as
  its own with what it followed; and no set whose wearer changes keeps a solo.
\<close>

theorem switch_works:
  assumes "in_step w" and "wd_roster w = Some rs" and "roster_lineup (rs_roster rs) (rs_active rs) = Some before" and "roster_lineup (rs_roster rs) to = Some target"
    and "may_switch (rs_roster rs) by'" and "lu_id target \<noteq> lu_id before" and "\<not> wd_frozen w" and "\<not> settling w"
    and "fair e" and "view_members e (wd_roster w) = Some ms" and "\<And>n m. m \<in> set ms \<Longrightarrow> \<exists>c. ev_pins e n m = Inr c"
    and "valid_lineup_id (lu_id before)" and "valid_lineup_id to"
  shows "\<exists>w' live. run_state (switch_lineup e True to by') w = (Inr (), w') \<and>
    wd_active w' = Some to \<and> map_option rs_active (wd_roster w') = Some to \<and> wd_intent w' = None \<and> \<not> wd_frozen w' \<and> wd_band w' = to \<and>
    wd_engine w' = fst (reconcile (ev_topology e)
      (fst (target_of (map_of (wd_states w) to) (wd_engine w) (followed w (lu_id before) (ev_digest e (wd_engine w))) (rs_roster rs) target))) \<and>
    map_of (wd_states w') = (map_of (wd_states w))(lu_id before \<mapsto> live) \<and>
    hb_state (backup_head live) = wd_engine w \<and> hb_lineup (backup_head live) = Some (lu_id before) \<and>
    (hb_follows (backup_head live), hb_silenced (backup_head live)) = followed w (lu_id before) (ev_digest e (wd_engine w)) \<and>
    (\<forall>s \<in> set (wd_solos w'). so_sources s \<noteq> [] \<longrightarrow> person_on before (so_mix s) = person_on target (so_mix s))"
proof -
  have to: "lu_id target = to" "lu_id before = rs_active rs" using roster_lineup_id [OF assms(4)] roster_lineup_id [OF assms(3)] by simp_all
  have sl: "state_lineup rs = Some before" using assms(3) by (simp add: state_lineup_def)
  obtain tgt run where t: "target_of (map_of (wd_states w) to) (wd_engine w) (followed w (lu_id before) (ev_digest e (wd_engine w))) (rs_roster rs) target = (tgt, run)"
    by fastforce
  let ?w = "later ((later w)\<lparr>wd_frozen := True\<rparr>)"
  have "\<exists>live n. run_state (switch_steps e (rs_roster rs) (lu_id before) target) ?w =
    (Inr (), ?w\<lparr>wd_engine := fst (reconcile (ev_topology e) tgt), wd_band := lu_id target, wd_active := Some (lu_id target), wd_running := Some run,
       wd_solos := filter (\<lambda>s. so_mix s \<notin> set (soloed_changing (wd_solos ?w) before target)) (wd_solos ?w),
       wd_states := bm_insert (lu_id before) live (wd_states ?w), wd_intent := None, wd_clock := n\<rparr>) \<and>
    hb_state (backup_head live) = wd_engine ?w \<and> hb_lineup (backup_head live) = Some (lu_id before) \<and>
    (hb_follows (backup_head live), hb_silenced (backup_head live)) = followed ?w (lu_id before) (ev_digest e (wd_engine ?w))"
    by (rule fair_steps_run) (use assms to t in simp_all)
  then obtain live n where r: "run_state (switch_steps e (rs_roster rs) (lu_id before) target) ?w =
    (Inr (), ?w\<lparr>wd_engine := fst (reconcile (ev_topology e) tgt), wd_band := lu_id target, wd_active := Some (lu_id target), wd_running := Some run,
       wd_solos := filter (\<lambda>s. so_mix s \<notin> set (soloed_changing (wd_solos w) before target)) (wd_solos w),
       wd_states := bm_insert (lu_id before) live (wd_states w), wd_intent := None, wd_clock := n\<rparr>)" (is "_ = (Inr (), ?v)")
    and live: "hb_state (backup_head live) = wd_engine w" "hb_lineup (backup_head live) = Some (lu_id before)"
      "(hb_follows (backup_head live), hb_silenced (backup_head live)) = followed w (lu_id before) (ev_digest e (wd_engine w))" by auto
  have "run_state (run_switch e (rs_roster rs) (lu_id before) target) w = (Inr (), ?v)"
    using r assms(7) by (simp add: run_switch_def fair_steps [OF assms(9)] run_try freeze_def)
  then have "run_state (switch_lineup e True to by') w = (Inr (), thaw_after True (set_active_in_use to ?v))"
    using assms sl to by (simp add: switch_lineup_def run_try)
  moreover have "\<forall>s \<in> set (wd_solos ?v). so_sources s \<noteq> [] \<longrightarrow> person_on before (so_mix s) = person_on target (so_mix s)"
    by (auto simp: soloed_changing_def)
  ultimately show ?thesis
    using assms(2) live to t by (intro exI [of _ "thaw_after True (set_active_in_use to ?v)"] exI [of _ live]) (simp add: set_active_in_use_def)
qed


lemma demo_ids: "valid_lineup_id ''main''" "valid_lineup_id ''youth''"
  by code_simp+

theorem switch_works_witness:
  "\<exists>w'. run_state (switch_lineup (demo_env [] []) True ''youth'' demo_engineer) demo_world = (Inr (), w') \<and>
     wd_active w' = Some ''youth'' \<and> wd_band w' = ''youth'' \<and> wd_intent w' = None \<and> \<not> wd_frozen w' \<and>
     (\<exists>live. map_of (wd_states w') ''main'' = Some live)"
proof -
  let ?rs = "\<lparr>rs_roster = demo_bands, rs_sha256 = '''', rs_active = ''main''\<rparr>"
  have h: "in_step demo_world" "wd_roster demo_world = Some ?rs" "roster_lineup (rs_roster ?rs) (rs_active ?rs) = Some (demo_lineup ''main'' True)"
    "roster_lineup (rs_roster ?rs) ''youth'' = Some (demo_lineup ''youth'' False)" "may_switch (rs_roster ?rs) demo_engineer"
    "lu_id (demo_lineup ''youth'' False) \<noteq> lu_id (demo_lineup ''main'' True)" "\<not> wd_frozen demo_world" "\<not> settling demo_world"
    by (simp_all add: in_step_def demo_world_def demo_bands_def demo_lineup_def roster_lineup_def state_lineup_def may_switch_def demo_engineer_def settling_def)
  have f: "fair (demo_env [] [])" by (simp add: fair_def demo_env_def)
  have m: "view_members (demo_env [] []) (wd_roster demo_world) = Some []"
    using h(3) by (simp add: h(2) view_members_def site_members_def state_lineup_def demo_env_def demo_topology_def known_mix_def)
  have v: "valid_lineup_id (lu_id (demo_lineup ''main'' True))" "valid_lineup_id ''youth''" using demo_ids by (simp_all add: demo_lineup_def)
  from switch_works [OF h f m _ v] show ?thesis by (auto simp: demo_lineup_def)
qed

subsection \<open>Going back too late\<close>

lemma demo_steps:
  "run_state (file_step (demo_env is []) v f) u = (Inr (v (later u)), f (later u))"
  "run_state (mirror_synced (demo_env is js)) u = (True, later u)"
  "run_state (request_applied (demo_env is js) b c) u =
     (if wd_clock u \<in> set is then Inl Disconnected else Inr (), engine_takes (demo_env is js) b c (later u))"
  by (simp_all add: file_step_def mirror_synced_def request_applied_def demo_env_def)

lemma demo_lineups:
  "roster_lineup demo_bands ''main'' = Some (demo_lineup ''main'' True)" "roster_lineup demo_bands ''youth'' = Some (demo_lineup ''youth'' False)"
  by (simp_all add: roster_lineup_def demo_bands_def demo_lineup_def)


end
