(* ===== verification/Reload.thy ===== *)
theory Reload
  imports Switch
begin

text \<open>
  A roster comes into use (\<open>iem-server/src/roster_watch.rs\<close>): every state goes over from the roster it
  follows to the new one, the stored states in their files and the running one through one import, or
  nothing changes; the reload of a changed roster and the settling of one that came into use before the
  engine was synced. The wait for an engine that does not answer (\<open>landed\<close>) is one look at what it holds
  once it does. What becomes of the data of people who leave the roster is left out.
\<close>

subsection \<open>Equality as the code derives it\<close>

definition keyed_eq :: "('v \<Rightarrow> 'v \<Rightarrow> bool) \<Rightarrow> ('k \<times> 'v) list \<Rightarrow> ('k \<times> 'v) list \<Rightarrow> bool" where
  "keyed_eq f = list_all2 (\<lambda>(a, v) (b, u). a = b \<and> f v u)"

definition mix_eq :: "mix \<Rightarrow> mix \<Rightarrow> bool" where
  "mix_eq a b =
     (out_eq (mx_out a) (mx_out b) \<and> keyed_eq level_eq (mx_inputs a) (mx_inputs b) \<and>
      keyed_eq group_eq (mx_groups a) (mx_groups b) \<and> keyed_eq level_eq (mx_mixes a) (mx_mixes b))"

definition state_eq :: "mix_state \<Rightarrow> mix_state \<Rightarrow> bool" where
  "state_eq a b = (keyed_eq input_eq (ms_inputs a) (ms_inputs b) \<and> keyed_eq mix_eq (ms_mixes a) (ms_mixes b))"

definition head_eq :: "backup_head \<Rightarrow> backup_head \<Rightarrow> bool" where
  "head_eq a b = (state_eq (hb_state a) (hb_state b) \<and> a\<lparr>hb_state := hb_state b\<rparr> = b)"

fun backup_eq :: "mixer_backup \<Rightarrow> mixer_backup \<Rightarrow> bool" where
  "backup_eq (Backup h ls) (Backup k ms) =
     (head_eq h k \<and> list_all2 (\<lambda>x y. fst x = fst y \<and> backup_eq (snd x) (snd y)) ls ms)"

subsection \<open>The stored states\<close>

datatype applied = Unchanged | Applied "string list" "string list" "string list" | RefusedRoster "string list" | Deferred "string list"

type_synonym planned = "string \<times> mixer_backup \<times> mixer_backup"

fun undo :: "environment \<Rightarrow> planned list \<Rightarrow> unit prog" where
  "undo e [] = State_Monad.return ()"
| "undo e ((i, original, _) # ps) = do { _ \<leftarrow> save_state e i original; undo e ps }"

text \<open>\<open>written\<close>: what was written so far.\<close>

fun write_planned :: "environment \<Rightarrow> planned list \<Rightarrow> planned list \<Rightarrow> (applied + unit) prog" where
  "write_planned e written [] = State_Monad.return (Inr ())"
| "write_planned e written ((i, original, nxt) # ps) = do {
     r \<leftarrow> save_state e i nxt;
     case r of
       Inl err \<Rightarrow> do {
         undo e written;
         State_Monad.return (Inl (RefusedRoster [''the stored state of lineup '' @ i @ '' was not written: '' @ fe_kind err])) }
     | Inr _ \<Rightarrow> write_planned e (written @ [(i, original, nxt)]) ps }"

definition learn_roster :: "environment \<Rightarrow> string option \<Rightarrow> follows \<Rightarrow> follows prog" where
  "learn_roster e marker f =
     (case marker of
        None \<Rightarrow> State_Monad.return f
      | Some sha \<Rightarrow>
          if list_ex (\<lambda>b. ba_sha256 b = sha) (fo_known f) then State_Monad.return f
          else do {
            t \<leftarrow> kept_roster e sha;
            State_Monad.return (learn (\<lambda>_. case t of
                Inr (Some text) \<Rightarrow> (case ev_parse e text of Inr r \<Rightarrow> Some r | Inl _ \<Rightarrow> None)
              | _ \<Rightarrow> None) marker f) })"

fun read_states :: "environment \<Rightarrow> lineup list \<Rightarrow> follows \<Rightarrow> (applied + follows \<times> (lineup \<times> mixer_backup) list) prog" where
  "read_states e [] f = State_Monad.return (Inr (f, []))"
| "read_states e (l # ls) f = do {
     r \<leftarrow> store_state e (lu_id l);
     case r of
       Inl err \<Rightarrow> State_Monad.return (Inl (RefusedRoster [''the stored state of lineup '' @ lu_id l @ '' is unreadable: '' @ fe_kind err]))
     | Inr None \<Rightarrow> read_states e ls f
     | Inr (Some b) \<Rightarrow> do {
         f' \<leftarrow> learn_roster e (hb_follows (backup_head b)) f;
         try_p (read_states e ls f') id (\<lambda>(f'', bs). State_Monad.return (Inr (f'', (l, b) # bs))) } }"

definition next_stored :: "follows \<Rightarrow> roster \<Rightarrow> string \<Rightarrow> string list \<Rightarrow> lineup \<Rightarrow> mixer_backup \<Rightarrow> mixer_backup" where
  "next_stored f new sha sets l b =
     (let h = backup_head b;
          (s, silenced) = follow (base_of f (hb_follows h) sha) new sets l None (hb_state h, hb_silenced h)
      in on_head (\<lambda>h. h\<lparr>hb_state := s, hb_silenced := silenced, hb_follows := Some sha\<rparr>) b)"

definition plan_stored :: "follows \<Rightarrow> roster \<Rightarrow> string \<Rightarrow> string list \<Rightarrow> (lineup \<times> mixer_backup) list \<Rightarrow> planned list" where
  "plan_stored f new sha sets bs =
     List.map_filter (\<lambda>(l, b).
       let b' = next_stored f new sha sets l b in if backup_eq b' b then None else Some (lu_id l, b, b')) bs"

subsection \<open>The transition\<close>

definition missing_active :: "string \<Rightarrow> string" where
  "missing_active active =
     ''the roster has no lineup '' @ [CHR 0x27] @ active @ [CHR 0x27] @ '', which plays: switch to a lineup it keeps first''"

definition NOT_SYNCED :: string where "NOT_SYNCED = ''the engine state is not synced: the roster waits for it''"
definition NOT_RECORDED :: string where "NOT_RECORDED = ''what the running state follows could not be written: the roster waits''"
definition UNFINISHED_SWITCH :: string where "UNFINISHED_SWITCH = ''a band switch is not finished: the roster waits for it''"

definition import_failed :: "string \<Rightarrow> engine_error \<Rightarrow> applied" where
  "import_failed active err =
     (let why = [''the engine did not take lineup '' @ active @ '''s new mixes: '' @ show_engine_error err]
      in case err of Refused _ \<Rightarrow> RefusedRoster why | _ \<Rightarrow> Deferred why)"

text \<open>The running state after the transition, and what is recorded of it.\<close>

definition next_running ::
  "environment \<Rightarrow> roster option \<Rightarrow> roster \<Rightarrow> string \<Rightarrow> string list \<Rightarrow> lineup \<Rightarrow> string list \<Rightarrow> mix_state \<Rightarrow> mix_state \<times> running" where
  "next_running e from new sha sets l recorded current =
     (let (s, silenced) = follow from new sets l (Some (ev_topology e)) (current, recorded)
      in (s, \<lparr>ru_lineup = lu_id l, ru_follows = Some sha, ru_silenced = silenced, ru_pending = None\<rparr>))"

definition ending_solos :: "bool \<Rightarrow> lineup option \<Rightarrow> lineup \<Rightarrow> solo list \<Rightarrow> mix_id list" where
  "ending_solos already before l solos =
     (if already then [] else case before of Some b \<Rightarrow> soloed_changing solos b l | None \<Rightarrow> every_solo solos)"

text \<open>The import of the running state, recorded as pending first; its answer may be lost.\<close>

definition send_running ::
  "environment \<Rightarrow> string \<Rightarrow> string \<Rightarrow> running \<Rightarrow> mix_state \<Rightarrow> running \<Rightarrow> (applied + running) prog" where
  "send_running e active sha prior nxt run = do {
     noted \<leftarrow> set_running e (prior\<lparr>ru_pending := Some \<lparr>pd_follows = sha, pd_silenced = ru_silenced run, pd_digest = ev_digest e nxt\<rparr>\<rparr>);
     case noted of
       Inl _ \<Rightarrow> State_Monad.return (Inl (Deferred [NOT_RECORDED]))
     | Inr _ \<Rightarrow> do {
         r \<leftarrow> request_applied e active (ImportState nxt);
         landed \<leftarrow> look (\<lambda>w. state_eq (wd_engine w) nxt);
         let sent = (case r of
             Inr _ \<Rightarrow> Inr run
           | Inl (Refused why) \<Rightarrow> Inl (import_failed active (Refused why))
           | Inl err \<Rightarrow> if landed then Inr run else Inl (import_failed active err))
         in case sent of
              Inr _ \<Rightarrow> State_Monad.return sent
            | Inl _ \<Rightarrow> do { note_running e prior; State_Monad.return sent } } }"

definition import_running ::
  "environment \<Rightarrow> string \<Rightarrow> string \<Rightarrow> running \<Rightarrow> (mix_state \<Rightarrow> mix_state \<times> running) \<Rightarrow> (applied + running) prog" where
  "import_running e active sha prior next_of = do {
     synced \<leftarrow> mirror_synced e;
     current \<leftarrow> look wd_engine;
     if \<not> synced then State_Monad.return (Inl (Deferred [NOT_SYNCED]))
     else let (nxt, run) = next_of current
          in if state_eq nxt (fst (reconcile (ev_topology e) current)) then State_Monad.return (Inr run)
             else send_running e active sha prior nxt run }"

definition frozen_transition ::
  "environment \<Rightarrow> string \<Rightarrow> string \<Rightarrow> planned list \<Rightarrow> running \<Rightarrow> (mix_state \<Rightarrow> mix_state \<times> running) \<Rightarrow> (solo list \<Rightarrow> mix_id list) \<Rightarrow> nat
    \<Rightarrow> (applied + nat \<times> bool option) prog" where
  "frozen_transition e active sha planned prior next_of soloed_now moved =
     try_p (freeze e) (import_failed active) (\<lambda>was. do {
       wrote \<leftarrow> write_planned e [] planned;
       case wrote of
         Inl no \<Rightarrow> do { modify (if was then id else thaw_after False); State_Monad.return (Inl no) }
       | Inr _ \<Rightarrow> do {
           soloed \<leftarrow> look (\<lambda>w. soloed_now (wd_solos w));
           taken \<leftarrow> import_running e active sha prior next_of;
           case taken of
             Inr run \<Rightarrow> do { note_running e run; end_solos e soloed; State_Monad.return (Inr (moved, Some was)) }
           | Inl no \<Rightarrow> do {
               undo e planned;
               modify (if was then id else thaw_after False);
               State_Monad.return (Inl no) } } })"

text \<open>The transition once everything is read: the states it writes are worked out first.\<close>

definition transition_from ::
  "environment \<Rightarrow> roster \<Rightarrow> string \<Rightarrow> lineup \<Rightarrow> string list \<Rightarrow> string option \<Rightarrow> string list \<Rightarrow> follows \<Rightarrow> (lineup \<times> mixer_backup) list
    \<Rightarrow> (applied + nat \<times> bool option) prog" where
  "transition_from e new sha l sets marker recorded f bs =
     (let active = lu_id l;
          planned = plan_stored f new sha sets bs;
          from = base_of f marker sha;
          moved = (case from of Some r \<Rightarrow> length (moves r new active) | None \<Rightarrow> 0);
          next_of = next_running e from new sha sets l recorded;
          soloed_now = ending_solos (marker = Some sha) (Option.bind from (\<lambda>r. roster_lineup r active)) l;
          prior = \<lparr>ru_lineup = active, ru_follows = marker, ru_silenced = recorded, ru_pending = None\<rparr>
      in do {
        w \<leftarrow> look id;
        if state_eq (fst (next_of (wd_engine w))) (fst (reconcile (ev_topology e) (wd_engine w))) \<and> soloed_now (wd_solos w) = []
        then try_p (write_planned e [] planned) id (\<lambda>_. do {
               note_running e (snd (next_of (wd_engine w)));
               State_Monad.return (Inr (moved, None)) })
        else frozen_transition e active sha planned prior next_of soloed_now moved })"

definition transition :: "environment \<Rightarrow> follows \<Rightarrow> roster \<Rightarrow> string \<Rightarrow> string \<Rightarrow> (applied + nat \<times> bool option) prog" where
  "transition e f new sha active =
     (case roster_lineup new active of
        None \<Rightarrow> State_Monad.return (Inl (RefusedRoster [missing_active active]))
      | Some l \<Rightarrow> do {
          frozen \<leftarrow> look wd_frozen;
          synced \<leftarrow> (if frozen then State_Monad.return False else mirror_synced e);
          if frozen then State_Monad.return (Inl (Deferred [UNFINISHED_SWITCH]))
          else if \<not> synced then State_Monad.return (Inl (Deferred [NOT_SYNCED]))
          else do {
            held \<leftarrow> look (\<lambda>w. ev_digest e (wd_engine w));
            mr \<leftarrow> running_for e active held;
            f1 \<leftarrow> learn_roster e (fst mr) f;
            try_p (read_states e (filter (\<lambda>l. lu_id l \<noteq> active) (ro_lineups new)) f1) id (\<lambda>fb.
              transition_from e new sha l (fold bs_insert (roster_sets new) (follows_sets f)) (fst mr) (snd mr) (fst fb) (snd fb)) } })"

subsection \<open>Reload and settle\<close>

definition EVERYONE_REMOVED :: string where
  "EVERYONE_REMOVED = ''the roster keeps none of the people of the roster in use: it would remove them all''"

definition unrecorded :: "applied \<Rightarrow> bool" where
  "unrecorded no = (case no of Deferred why \<Rightarrow> list_ex (\<lambda>w. w = NOT_RECORDED) why | _ \<Rightarrow> False)"

definition waits :: "applied \<Rightarrow> bool" where
  "waits no = ((case no of Deferred _ \<Rightarrow> True | _ \<Rightarrow> False) \<and> \<not> unrecorded no)"

definition reload_follows :: "roster_state \<Rightarrow> unsettled option \<Rightarrow> follows" where
  "reload_follows old u =
     (let old_base = \<lparr>ba_roster = rs_roster old, ba_sha256 = rs_sha256 old\<rparr>;
          b = Option.bind u us_base
      in \<lparr>fo_known = old_base # (case b of Some x \<Rightarrow> [x] | None \<Rightarrow> []),
          fo_unmarked = (if u \<noteq> None then b else Some old_base)\<rparr>)"

text \<open>The reload up to the people's own data; who was added and removed.\<close>

definition reload :: "environment \<Rightarrow> roster_state \<Rightarrow> roster \<Rightarrow> string \<Rightarrow> string \<Rightarrow> (applied + string list \<times> string list) prog" where
  "reload e old new text sha =
     (if removes_everyone (rs_roster old) new then State_Monad.return (Inl (RefusedRoster [EVERYONE_REMOVED]))
      else case state_lineup old of
        None \<Rightarrow> State_Monad.return (Inl (RefusedRoster []))
      | Some l \<Rightarrow> do {
          _ \<leftarrow> keep_roster e sha text;
          u \<leftarrow> look wd_unsettled;
          d \<leftarrow> transition e (reload_follows old u) new sha (lu_id l);
          case d of
            Inl no \<Rightarrow> do { modify (if unrecorded no then wd_unrecorded_update Suc else id); State_Monad.return (Inl no) }
          | Inr (moved, frozen) \<Rightarrow> do {
              modify (\<lambda>w. w\<lparr>wd_unrecorded := 0, wd_roster := Some \<lparr>rs_roster = new, rs_sha256 = sha, rs_active = lu_id l\<rparr>, wd_unsettled := None\<rparr>);
              _ \<leftarrow> set_applied_roster e text;
              modify (if frozen = Some False then thaw_after True else announce_lineup);
              State_Monad.return (Inr (people_diff (rs_roster old) new)) } })"

definition validate :: "(string \<Rightarrow> string + roster) \<Rightarrow> string \<Rightarrow> topology_facts option \<Rightarrow> string list + roster" where
  "validate parse text facts =
     (case parse text of
        Inl err \<Rightarrow> Inl [err]
      | Inr r \<Rightarrow>
          (let ps = problems r @ (case facts of Some f \<Rightarrow> problems_against r f | None \<Rightarrow> [])
           in if ps = [] then Inr r else Inl ps))"

text \<open>In roster mode; \<open>facts\<close>: the topology the engine announced, if any.\<close>

definition apply_text :: "environment \<Rightarrow> topology_facts option \<Rightarrow> string \<Rightarrow> string \<Rightarrow> (applied + string list \<times> string list) prog" where
  "apply_text e facts text sha = do {
     current \<leftarrow> look wd_roster;
     case current of
       None \<Rightarrow> State_Monad.return (Inl (RefusedRoster []))
     | Some old \<Rightarrow>
         if rs_sha256 old = sha then State_Monad.return (Inl Unchanged)
         else (case validate (ev_parse e) text facts of
                 Inl ps \<Rightarrow> State_Monad.return (Inl (RefusedRoster ps))
               | Inr r \<Rightarrow> reload e old r text sha) }"

text \<open>\<open>in_use\<close>: the text of the roster file, when it is the one in use (\<open>record_in_use\<close>).\<close>

definition settle :: "environment \<Rightarrow> string option \<Rightarrow> (applied + unit) prog" where
  "settle e in_use = do {
     u \<leftarrow> look wd_unsettled;
     r \<leftarrow> look wd_roster;
     case u of
       None \<Rightarrow> State_Monad.return (Inr ())
     | Some un \<Rightarrow>
         (case r of
            None \<Rightarrow> do { modify (wd_unsettled_update (\<lambda>_. None)); State_Monad.return (Inr ()) }
          | Some rs \<Rightarrow>
              (case state_lineup rs of
                 None \<Rightarrow> State_Monad.return (Inl (RefusedRoster []))
               | Some l \<Rightarrow>
                   try_p (transition e \<lparr>fo_known = (case us_base un of Some b \<Rightarrow> [b] | None \<Rightarrow> []), fo_unmarked = us_base un\<rparr> (rs_roster rs) (rs_sha256 rs) (lu_id l)) id
                     (\<lambda>(moved, frozen). do {
                       modify (wd_unsettled_update (\<lambda>_. None));
                       _ \<leftarrow> (case in_use of Some text \<Rightarrow> set_applied_roster e text | None \<Rightarrow> State_Monad.return (Inr ()));
                       modify (if frozen = Some False then thaw_after True else id);
                       State_Monad.return (Inr ()) }))) }"

definition give_up :: "world \<Rightarrow> world" where
  "give_up w = w\<lparr>wd_unsettled := map_option (us_refusing_update (\<lambda>_. False)) (wd_unsettled w)\<rparr>"

definition MAX_SETTLES :: nat where "MAX_SETTLES = 3"

text \<open>One try of \<open>settle_when_synced\<close>: whether it goes on, and how often it was refused by now.\<close>

definition settle_try :: "environment \<Rightarrow> string option \<Rightarrow> nat \<Rightarrow> nat option prog" where
  "settle_try e in_use refusals = do {
     r \<leftarrow> settle e in_use;
     case r of
       Inr _ \<Rightarrow> State_Monad.return None
     | Inl no \<Rightarrow>
         if waits no then State_Monad.return (Some refusals)
         else if refusals + 1 = MAX_SETTLES then do { modify give_up; State_Monad.return None }
         else State_Monad.return (Some (refusals + 1)) }"

end
