(* ===== verification/ReloadProps.thy ===== *)
theory ReloadProps
  imports Reload SwitchProps
begin

text \<open>
  A roster that comes into use keeps the band: a reload or a settling, whatever fails in it, leaves the
  recorded band, and the engine holds its mixes. With the switches of \<open>SwitchProps\<close> this gives the safety
  of everything that touches the band.
\<close>

subsection \<open>Programs that leave a band alone\<close>

definition aside_at :: "string \<Rightarrow> 'a prog \<Rightarrow> bool" where
  "aside_at b m = (\<forall>w. wd_band w = b \<longrightarrow> about (snd (run_state m w)) = about w)"

lemma about_band: "about w = about v \<Longrightarrow> wd_band w = wd_band v"
  by (simp add: about_def)

lemma aside_at_aside [intro]: "aside m \<Longrightarrow> aside_at b m"
  by (simp add: aside_def aside_at_def)

lemma aside_undo [simp]: "aside (undo e ps)"
  by (induction e ps rule: undo.induct) (auto intro: aside_bind)

lemma aside_at_simps [simp]:
  "aside_at b (State_Monad.return x)" "aside_at b (look g)" "aside_at b (set_running e r)" "aside_at b (note_running e r)"
  "aside_at b (mirror_synced e)" "aside_at b (end_solos e ms)" "aside_at b (undo e ps)"
  by (intro aside_at_aside; simp)+

lemma aside_at_bind:
  assumes "aside_at b m" and "\<And>x. aside_at b (f x)"
  shows "aside_at b (m \<bind> f)"
  unfolding aside_at_def
proof (intro allI impI)
  fix w :: world assume w: "wd_band w = b"
  obtain x v where r: "run_state m w = (x, v)" by fastforce
  then have v: "about v = about w" using assms(1) w by (auto simp: aside_at_def)
  then have "about (snd (run_state (f x) v)) = about v" using assms(2) w about_band [OF v] by (simp add: aside_at_def)
  with v show "about (snd (run_state (m \<bind> f) w)) = about w" by (simp add: r)
qed

lemma aside_at_import: "aside_at b (request_applied e b (ImportState s))"
  unfolding aside_at_def
proof (intro allI impI)
  fix w :: world assume w: "wd_band w = b"
  obtain x v where r: "run_state (request_applied e b (ImportState s)) w = (x, v)" by fastforce
  from import_effect [OF r] w show "about (snd (run_state (request_applied e b (ImportState s)) w)) = about w"
    by (auto simp: r about_def)
qed

lemma aside_write_planned [simp]: "aside (write_planned e ws ps)"
  by (induction e ws ps rule: write_planned.induct) (auto intro!: aside_bind split: sum.splits)

lemma aside_kept [simp]: "aside (kept_roster e sha)" "aside (keep_roster e sha text)" "aside (set_applied_roster e text)"
  by (auto simp: aside_def kept_roster_def keep_roster_def set_applied_roster_def file_step_def run_try about_def split: option.splits)

lemma aside_learn [simp]: "aside (learn_roster e marker f)"
  unfolding learn_roster_def by (auto intro!: aside_bind split: option.splits)

lemma aside_try: "aside m \<Longrightarrow> (\<And>x. aside (k x)) \<Longrightarrow> aside (try_p m err k)"
  unfolding try_p_def by (auto intro!: aside_bind split: sum.splits)

lemma aside_read_states [simp]: "aside (read_states e ls f)"
  by (induction e ls f rule: read_states.induct)
    (auto intro!: aside_bind aside_try split: sum.splits option.splits)

lemma aside_send: "aside_at active (send_running e active sha prior nxt run)"
  unfolding send_running_def Let_def
  by (auto intro!: aside_at_bind aside_at_import split: sum.splits engine_error.splits)

lemma aside_import: "aside_at active (import_running e active sha prior next_of)"
  unfolding import_running_def Let_def
  by (auto intro!: aside_at_bind aside_send split: prod.splits)


lemma aside_atD: "aside_at b m \<Longrightarrow> run_state m w = (x, w') \<Longrightarrow> wd_band w = b \<Longrightarrow> about w' = about w"
  unfolding aside_at_def by (metis snd_conv)

subsection \<open>The transition\<close>

definition thawed_as :: "bool \<Rightarrow> world \<Rightarrow> world" where
  "thawed_as was = (if was then id else thaw_after False)"

lemma frozen_effect:
  assumes "run_state (frozen_transition e active sha planned prior next_of soloed_now moved) w = (x, w')" and "wd_band w = active" and "\<not> wd_frozen w"
  obtains (applied) "x = Inr (moved, Some False)" "about w' = about (w\<lparr>wd_frozen := True\<rparr>)"
  | (refused) no where "x = Inl no" "about w' = about w"
proof -
  obtain x1 w1 where r1: "run_state (freeze e) w = (x1, w1)" by fastforce
  note f = freeze_effect [OF r1]
  show thesis
  proof (cases x1)
    case (Inl err)
    then show ?thesis using assms(1) f refused by (auto simp: frozen_transition_def run_try r1)
  next
    case (Inr was)
    then have was: "\<not> was" "about w1 = about (w\<lparr>wd_frozen := True\<rparr>)" using f assms(3) by auto
    obtain x2 w2 where r2: "run_state (write_planned e [] planned) w1 = (x2, w2)" by fastforce
    have a2: "about w2 = about (w\<lparr>wd_frozen := True\<rparr>)" using asideD [OF _ r2] was by simp
    have th: "about (thaw_after False v) = about w" if "about v = about (w\<lparr>wd_frozen := True\<rparr>)" for v
      using that assms(3) by (simp add: about_def [of v] about_def [of w] about_def [of "wd_frozen_update _ _"])
    show ?thesis
    proof (cases x2)
      case (Inl no)
      then have "x = Inl no" "w' = thaw_after False w2" using assms(1) Inr was by (auto simp: frozen_transition_def run_try r1 r2)
      then show ?thesis using th [OF a2] refused by simp
    next
      case 2: (Inr u)
      obtain x3 w3 where r3: "run_state (import_running e active sha prior next_of) w2 = (x3, w3)" by fastforce
      have "wd_band w2 = active" using about_band [OF a2] assms(2) by simp
      then have a3: "about w3 = about (w\<lparr>wd_frozen := True\<rparr>)" using aside_atD [OF aside_import r3] a2 by simp
      show ?thesis
      proof (cases x3)
        case (Inl no)
        obtain w4 where r4: "run_state (undo e planned) w3 = ((), w4)" by (metis old.unit.exhaust prod.exhaust)
        have "x = Inl no" "w' = thaw_after False w4" using assms(1) Inr Inl 2 was by (auto simp: frozen_transition_def run_try r1 r2 r3 r4)
        then show ?thesis using th [of w4] asideD [OF _ r4] a3 refused by simp
      next
        case 3: (Inr run)
        let ?k = "note_running e run \<bind> (\<lambda>_. end_solos e (soloed_now (wd_solos w2)))"
        obtain w4 where r4: "run_state ?k w3 = ((), w4)" by (metis old.unit.exhaust prod.exhaust)
        have "aside ?k" by (intro aside_bind) simp_all
        then have "about w4 = about w3" by (rule asideD [OF _ r4])
        moreover have "x = Inr (moved, Some False)" "w' = w4"
          using assms(1) Inr 2 3 was r4 by (auto simp: frozen_transition_def run_try r1 r2 r3 split: prod.splits)
        ultimately show ?thesis using a3 applied by simp
      qed
    qed
  qed
qed

lemma transition_from_effect:
  assumes "run_state (transition_from e new sha l sets marker recorded f bs) w = (x, w')" and "wd_band w = lu_id l" and "\<not> wd_frozen w"
  obtains (applied) moved fz where "x = Inr (moved, fz)"
      "fz = None \<and> about w' = about w \<or> fz = Some False \<and> about w' = about (w\<lparr>wd_frozen := True\<rparr>)"
  | (refused) no where "x = Inl no" "about w' = about w"
proof -
  let ?from = "base_of f marker sha"
  let ?next = "next_running e ?from new sha sets l recorded"
  let ?moved = "case ?from of Some r \<Rightarrow> length (moves r new (lu_id l)) | None \<Rightarrow> 0"
  let ?solo = "ending_solos (marker = Some sha) (Option.bind ?from (\<lambda>r. roster_lineup r (lu_id l))) l"
  let ?prior = "\<lparr>ru_lineup = lu_id l, ru_follows = marker, ru_silenced = recorded, ru_pending = None\<rparr>"
  let ?quiet = "state_eq (fst (?next (wd_engine w))) (fst (reconcile (ev_topology e) (wd_engine w))) \<and> ?solo (wd_solos w) = []"
  let ?quietly = "try_p (write_planned e [] (plan_stored f new sha sets bs)) id (\<lambda>_. do {
      note_running e (snd (?next (wd_engine w))); State_Monad.return (Inr (?moved, None)) })"
  have e: "run_state (transition_from e new sha l sets marker recorded f bs) w =
     (if ?quiet then run_state ?quietly w
      else run_state (frozen_transition e (lu_id l) sha (plan_stored f new sha sets bs) ?prior ?next ?solo ?moved) w)"
    by (simp add: transition_from_def Let_def)
  show thesis
  proof (cases ?quiet)
    case True
    then have r: "run_state ?quietly w = (x, w')" using e assms(1) by simp
    have "aside ?quietly" by (intro aside_try aside_bind) simp_all
    then have "about w' = about w" by (rule asideD [OF _ r])
    moreover have "(\<exists>no. x = Inl no) \<or> x = Inr (?moved, None)" using r by (auto simp: run_try split: sum.splits prod.splits)
    ultimately show ?thesis using applied refused by blast
  next
    case False
    then have "run_state (frozen_transition e (lu_id l) sha (plan_stored f new sha sets bs) ?prior ?next ?solo ?moved) w = (x, w')"
      using e assms(1) by argo
    from this assms(2,3) show ?thesis by (cases rule: frozen_effect) (use applied refused in blast)+
  qed
qed

lemma transition_effect:
  assumes "run_state (transition e f new sha active) w = (x, w')" and "wd_band w = active \<or> wd_frozen w"
  obtains (applied) moved fz where "x = Inr (moved, fz)" "roster_lineup new active \<noteq> None" "\<not> wd_frozen w"
      "fz = None \<and> about w' = about w \<or> fz = Some False \<and> about w' = about (w\<lparr>wd_frozen := True\<rparr>)"
  | (refused) no where "x = Inl no" "about w' = about w"
proof (cases "roster_lineup new active = None \<or> wd_frozen w \<or> \<not> ev_synced e (wd_clock w)")
  case True
  then have "\<exists>no. x = Inl no \<and> about w' = about w"
    using assms(1) by (auto simp: transition_def mirror_synced_def about_def split: option.splits if_splits)
  with refused show ?thesis by blast
next
  case False
  then obtain l where l: "roster_lineup new active = Some l" by auto
  let ?w0 = "w\<lparr>wd_clock := Suc (wd_clock w)\<rparr>"
  obtain mr w1 where r1: "run_state (running_for e active (ev_digest e (wd_engine w))) ?w0 = (mr, w1)" by fastforce
  obtain f1 w2 where r2: "run_state (learn_roster e (fst mr) f) w1 = (f1, w2)" by fastforce
  obtain x3 w3 where r3: "run_state (read_states e (filter (\<lambda>l. lu_id l \<noteq> active) (ro_lineups new)) f1) w2 = (x3, w3)" by fastforce
  have a3: "about w3 = about w" using asideD [OF _ r3] asideD [OF _ r2] asideD [OF _ r1] by simp
  show ?thesis
  proof (cases x3)
    case (Inl no)
    then show ?thesis using assms(1) False l a3 refused by (auto simp: transition_def mirror_synced_def run_try r1 r2 r3)
  next
    case (Inr fb)
    then have "run_state (transition_from e new sha l (fold bs_insert (roster_sets new) (follows_sets f)) (fst mr) (snd mr) (fst fb) (snd fb)) w3 = (x, w')"
      using assms(1) False l by (simp add: transition_def mirror_synced_def run_try r1 r2 r3)
    moreover have "wd_band w3 = lu_id l" "\<not> wd_frozen w3" using a3 assms(2) False roster_lineup_id [OF l] by (auto simp: about_def)
    ultimately show ?thesis
      by (cases rule: transition_from_effect) (use applied refused a3 l False in \<open>auto simp: about_def\<close>)
  qed
qed

lemma reload_keeps:
  assumes "in_step w" and "wd_roster w = Some old" and "run_state (reload e old new text sha) w = (x, w')"
  shows "in_step w'"
proof -
  from assms(1,2) obtain l where l: "state_lineup old = Some l" "wd_active w = Some (lu_id l)" "wd_band w = lu_id l \<or> wd_frozen w"
    by (auto simp: in_step_def)
  show ?thesis
  proof (cases "removes_everyone (rs_roster old) new")
    case True
    then show ?thesis using assms(1,3) by (simp add: reload_def)
  next
    case False
    obtain x1 w1 where r1: "run_state (keep_roster e sha text) w = (x1, w1)" by fastforce
    have a1: "about w1 = about w" by (rule asideD [OF _ r1]) simp
    obtain x2 w2 where r2: "run_state (transition e (reload_follows old (wd_unsettled w1)) new sha (lu_id l)) w1 = (x2, w2)" by fastforce
    have pre: "wd_band w1 = lu_id l \<or> wd_frozen w1" using a1 l(3) by (simp add: about_def)
    from r2 pre show ?thesis
    proof (cases rule: transition_effect)
      case (refused no)
      then have "about w' = about w" using assms(3) False l(1) a1 by (cases "unrecorded no") (auto simp: reload_def r1 r2 about_def)
      then show ?thesis using in_step_about assms(1) by blast
    next
      case (applied moved fz)
      let ?rs = "\<lparr>rs_roster = new, rs_sha256 = sha, rs_active = lu_id l\<rparr>"
      let ?w3 = "w2\<lparr>wd_unrecorded := 0, wd_roster := Some ?rs, wd_unsettled := None\<rparr>"
      obtain x4 w4 where r4: "run_state (set_applied_roster e text) ?w3 = (x4, w4)" by fastforce
      have w': "w' = (if fz = Some False then thaw_after True else announce_lineup) w4"
        using assms(3) False l(1) applied(1) r4 by (auto simp: reload_def r1 r2)
      have a4: "about w4 = about ?w3" by (rule asideD [OF _ r4]) simp
      have "about w' = (wd_active w, wd_intent w, wd_band w, Some ?rs, False)"
        using w' a4 a1 applied(3,4) by (auto simp: about_def thaw_after_def announce_lineup_def Let_def split: option.splits)
      moreover obtain l' where "state_lineup ?rs = Some l'" "lu_id l' = lu_id l"
        using applied(2) roster_lineup_id by (fastforce simp: state_lineup_def)
      ultimately show ?thesis using l applied(3) a1 by (auto simp: in_step_def about_def)
    qed
  qed
qed


lemma apply_text_keeps:
  assumes "in_step w" and "run_state (apply_text e facts text sha) w = (x, w')"
  shows "in_step w'"
proof -
  from assms(1) obtain old where old: "wd_roster w = Some old" by (auto simp: in_step_def)
  have "w' = w \<or> (\<exists>r. run_state (reload e old r text sha) w = (x, w'))"
    using assms(2) old by (auto simp: apply_text_def split: if_splits sum.splits)
  then show ?thesis using reload_keeps [OF assms(1) old] assms(1) by blast
qed

lemma settle_keeps:
  assumes "in_step w" and "run_state (settle e in_use) w = (x, w')"
  shows "in_step w'"
proof -
  from assms(1) obtain rs l where rs: "wd_roster w = Some rs" "state_lineup rs = Some l" "wd_active w = Some (lu_id l)" "wd_band w = lu_id l \<or> wd_frozen w"
    by (auto simp: in_step_def)
  show ?thesis
  proof (cases "wd_unsettled w")
    case None
    then show ?thesis using assms by (simp add: settle_def)
  next
    case (Some un)
    let ?f = "\<lparr>fo_known = (case us_base un of Some b \<Rightarrow> [b] | None \<Rightarrow> []), fo_unmarked = us_base un\<rparr>"
    obtain x1 w1 where r1: "run_state (transition e ?f (rs_roster rs) (rs_sha256 rs) (lu_id l)) w = (x1, w1)" by fastforce
    from r1 rs(4) show ?thesis
    proof (cases rule: transition_effect)
      case (refused no)
      then have "about w' = about w" using assms(2) Some rs by (auto simp: settle_def run_try r1)
      then show ?thesis using in_step_about assms(1) by blast
    next
      case (applied moved fz)
      let ?k = "case in_use of Some text \<Rightarrow> set_applied_roster e text | None \<Rightarrow> State_Monad.return (Inr ())"
      obtain x2 w2 where r2: "run_state ?k (w1\<lparr>wd_unsettled := None\<rparr>) = (x2, w2)" by fastforce
      have "aside ?k" by (simp split: option.splits)
      then have a2: "about w2 = about (w1\<lparr>wd_unsettled := None\<rparr>)" by (rule asideD [OF _ r2])
      have w': "w' = (if fz = Some False then thaw_after True else id) w2"
        using assms(2) Some rs(1,2) applied(1) r2 by (cases in_use) (simp_all add: settle_def run_try r1)
      have "about w' = about w"
        using w' a2 applied(3,4) by (auto simp: about_def thaw_after_def announce_lineup_def Let_def split: option.splits)
      then show ?thesis using in_step_about assms(1) by blast
    qed
  qed
qed

lemma settle_try_keeps:
  assumes "in_step w" and "run_state (settle_try e in_use refusals) w = (x, w')"
  shows "in_step w'"
proof -
  obtain x1 w1 where r1: "run_state (settle e in_use) w = (x1, w1)" by fastforce
  have "in_step w1" by (rule settle_keeps [OF assms(1) r1])
  moreover have "in_step (give_up w1) = in_step w1" by (simp add: give_up_def in_step_def)
  moreover have "w' = w1 \<or> w' = give_up w1" using assms(2) by (auto simp: settle_try_def r1 split: sum.splits if_splits)
  ultimately show ?thesis by auto
qed

subsection \<open>Runs\<close>

text \<open>
  Everything that touches the band: switches, replays and fall-backs, reloads and settlings with any
  environment, changes of the pages while these are free, and restarts at any point on a roster that
  holds the recorded band.
  (A fall-back once the target is recorded is left out: see \<open>late_fall_back_diverges\<close> in \<open>SwitchWorks\<close>.)
\<close>

inductive band_runs :: "world \<Rightarrow> world \<Rightarrow> bool" for w0 where
  start: "band_runs w0 w0"
| switch: "band_runs w0 w \<Longrightarrow> run_state (switch_lineup e site to by') w = (x, w') \<Longrightarrow> band_runs w0 w'"
| replay: "band_runs w0 w \<Longrightarrow> wd_frozen w \<Longrightarrow> run_state (replay_intent e) w = (x, w') \<Longrightarrow> band_runs w0 w'"
| fall_back: "band_runs w0 w \<Longrightarrow> wd_frozen w \<Longrightarrow> (\<And>i. wd_intent w = Some i \<Longrightarrow> wd_active w \<noteq> Some (sw_to i)) \<Longrightarrow>
    run_state (fall_back e) w = (y, w') \<Longrightarrow> band_runs w0 w'"
| change: "band_runs w0 w \<Longrightarrow> \<not> wd_frozen w \<Longrightarrow> band_runs w0 (w\<lparr>wd_engine := s, wd_solos := so\<rparr>)"
| reloads: "band_runs w0 w \<Longrightarrow> run_state (apply_text e facts text sha) w = (z, w') \<Longrightarrow> band_runs w0 w'"
| settles: "band_runs w0 w \<Longrightarrow> run_state (settle_try e in_use refusals) w = (k, w') \<Longrightarrow> band_runs w0 w'"
| restarts: "band_runs w0 w \<Longrightarrow> (\<And>a. wd_active w = Some a \<Longrightarrow> roster_lineup r a \<noteq> None) \<Longrightarrow> band_runs w0 (restart b r sha w)"

lemma band_runs_in_step: "band_runs w0 w \<Longrightarrow> in_step w0 \<Longrightarrow> in_step w"
proof (induction rule: band_runs.induct)
  case change
  then show ?case by (simp add: in_step_def)
next
  case switch
  then show ?case using switch_keeps by metis
next
  case replay
  then show ?case using replay_keeps by metis
next
  case fall_back
  then show ?case using fall_back_keeps by metis
next
  case reloads
  then show ?case using apply_text_keeps by metis
next
  case settles
  then show ?case using settle_try_keeps by metis
next
  case restarts
  then show ?case using restart_keeps by metis
qed




end
