(* ===== verification/ReloadStates.thy ===== *)
theory ReloadStates
  imports ReloadProps
begin

text \<open>
  A roster reaches every state or none: what a transition leaves in the engine and in the stored states
  when it is applied, and when it is refused or put off.
\<close>

subsection \<open>Shaped states\<close>

text \<open>What the engine holds: a state its topology shapes to itself.\<close>

definition shaped :: "topology_info \<Rightarrow> mix_state \<Rightarrow> bool" where
  "shaped t s = (fst (reconcile t s) = s)"

definition unique_mixes :: "topology_info \<Rightarrow> bool" where
  "unique_mixes t = distinct (map mi_id (ti_mixes t))"

lemma reconcile_twice:
  assumes "unique_mixes t"
  shows "shaped t (fst (reconcile t s))"
proof -
  let ?s = "fst (reconcile t s)"
  have "ms_inputs (fst (reconcile t ?s)) = ms_inputs ?s"
    by (rule bm_eqI) (auto simp: reconcile_input_lookup fun_eq_iff, auto simp: reconcile_def)
  moreover have "map_of (ms_mixes (fst (reconcile t ?s))) i = map_of (ms_mixes ?s) i" for i
  proof (cases "known_mix t i")
    case True
    with assms show ?thesis by (auto simp: known_iff reconcile_mix_lookup shape_mix_idem unique_mixes_def)
  qed (simp add: reconcile_mix_unknown)
  then have "ms_mixes (fst (reconcile t ?s)) = ms_mixes ?s"
    by (intro bm_eqI) (auto simp: fun_eq_iff, auto simp: reconcile_def)
  ultimately show ?thesis by (simp add: shaped_def)
qed

lemma cap_out_muted: "cap_out (x\<lparr>mo_muted := b\<rparr>) = (cap_out x)\<lparr>mo_muted := b\<rparr>"
  by (cases x) (simp add: cap_out_def)

lemma shape_mute_out: "shape_mix t (Some m) n = m \<Longrightarrow> shape_mix t (Some (mute_out b m)) n = mute_out b m"
proof -
  have "shape_mix t (Some (mute_out b m)) n = mute_out b (shape_mix t (Some m) n)"
    by (simp add: shape_mix_def mute_out_def capped_or_def cap_out_muted)
  then show "shape_mix t (Some m) n = m \<Longrightarrow> ?thesis" by simp
qed

lemma shape_mute_heard:
  assumes "shape_mix t (Some m) n = m"
  shows "shape_mix t (Some (mute_heard m)) n = mute_heard m"
proof -
  let ?h = "mute_heard m"
  have cap: "cap_level (l\<lparr>lv_muted := True\<rparr>) = (cap_level l)\<lparr>lv_muted := True\<rparr>" for l
    by (simp add: cap_level_def)
  note e = shape_mix_lookups(3) [of t "Some m" n, unfolded assms]
  have heard: "\<exists>l. map_of (mx_mixes m) j = Some l \<and> cap_level l = l" if "hears n j" for j
    using e [of j] that by (cases "map_of (mx_mixes m) j") (auto simp: capped_or_def)
  have other: "map_of (mx_mixes m) j = None" if "\<not> hears n j" for j using e [of j] that by argo
  have "bm_ok (mx_mixes (shape_mix t (Some m) n))" by (simp add: shape_mix_def)
  then have ok: "bm_ok (mx_mixes m)" by (simp add: assms)
  have "bm_ok (mx_mixes ?h)" using ok by (simp add: mute_heard_def bm_ok_def comp_def case_prod_unfold)
  moreover have "bm_ok (mx_mixes (shape_mix t (Some ?h) n))" by (simp add: shape_mix_def)
  moreover have "map_of (mx_mixes (shape_mix t (Some ?h) n)) j = map_of (mx_mixes ?h) j" for j
  proof (cases "hears n j")
    case True
    with heard obtain l where "map_of (mx_mixes m) j = Some l" "cap_level l = l" by blast
    with True show ?thesis by (simp add: shape_mix_lookups capped_or_def cap)
  next
    case False
    with other show ?thesis by (simp add: shape_mix_lookups)
  qed
  ultimately have "mx_mixes (shape_mix t (Some ?h) n) = mx_mixes ?h" by (intro bm_eqI) (auto simp: fun_eq_iff)
  moreover have "shape_mix t (Some ?h) n = (shape_mix t (Some m) n)\<lparr>mx_mixes := mx_mixes (shape_mix t (Some ?h) n)\<rparr>"
    by (simp add: shape_mix_def mute_heard_def)
  ultimately show ?thesis unfolding assms by (simp add: mute_heard_def)
qed

lemma shape_fit_set: "shape_mix t (Some m) n = m \<Longrightarrow> shape_mix t (Some (fst (fit_set l i m a))) n = fst (fit_set l i m a)"
  by (auto simp: fit_set_def Let_def shape_mute_out shape_mute_heard split: option.splits)

lemma shaped_state_mix:
  assumes "unique_mixes t" and "shaped t s" and "n \<in> set (ti_mixes t)"
  shows "\<exists>m. map_of (ms_mixes s) (mi_id n) = Some m \<and> shape_mix t (Some m) n = m"
proof -
  have "map_of (ms_mixes s) (mi_id n) = Some (shape_mix t (map_of (ms_mixes s) (mi_id n)) n)"
    using reconcile_mix_lookup [OF assms(1) [unfolded unique_mixes_def] assms(3), of s] assms(2) by (simp add: shaped_def)
  then show ?thesis by (metis shape_mix_idem)
qed

lemma reconcile_sorted: "bm_ok (ms_inputs (fst (reconcile t s)))" "bm_ok (ms_mixes (fst (reconcile t s)))"
  by (simp_all add: reconcile_def)

lemma shaped_ok: "shaped t s \<Longrightarrow> bm_ok (ms_inputs s) \<and> bm_ok (ms_mixes s)"
  using reconcile_sorted [of t s] by (simp add: shaped_def)

lemma fit_sets_inputs: "ms_inputs (fst (fit_sets sets l (s, a))) = ms_inputs s"
  by (induction sets arbitrary: s a) (auto simp: fit_sets_Cons split: option.splits)

lemma fit_shaped:
  assumes "unique_mixes t" and "shaped t s" and "distinct sets"
  shows "shaped t (fst (fit_sets sets l (s, a)))"
proof -
  let ?s = "fst (fit_sets sets l (s, a))"
  note at = fit_sets_at(1) [OF assms(3), where l = l and s = s and a = a]
  have "ms_inputs (fst (reconcile t ?s)) = ms_inputs (fst (reconcile t s))" by (simp add: reconcile_def fit_sets_inputs)
  then have "ms_inputs (fst (reconcile t ?s)) = ms_inputs ?s" using assms(2) by (simp add: shaped_def fit_sets_inputs)
  moreover have "map_of (ms_mixes (fst (reconcile t ?s))) i = map_of (ms_mixes ?s) i" for i
  proof (cases "known_mix t i")
    case True
    then obtain n where n: "n \<in> set (ti_mixes t)" "i = mi_id n" by (auto simp: known_iff)
    from shaped_state_mix [OF assms(1,2) n(1)] obtain m where m: "map_of (ms_mixes s) i = Some m" "shape_mix t (Some m) n = m" using n by blast
    have "map_of (ms_mixes ?s) i = Some (if i \<in> set sets then fst (fit_set l i m a) else m)" using at [of i] m(1) by simp
    then show ?thesis
      using reconcile_mix_lookup [OF assms(1) [unfolded unique_mixes_def] n(1), of ?s] n(2) shape_fit_set [OF m(2)] m(2) by simp
  next
    case False
    then have "map_of (ms_mixes s) i = None" using reconcile_mix_unknown [OF False, of s] assms(2) by (simp add: shaped_def)
    then show ?thesis using at [of i] reconcile_mix_unknown [OF False] by simp
  qed
  then have "ms_mixes (fst (reconcile t ?s)) = ms_mixes ?s"
    using fit_sets_ok [of s sets l a] shaped_ok [OF assms(2)] reconcile_sorted by (intro bm_eqI) (simp_all add: fun_eq_iff)
  ultimately show ?thesis by (simp add: shaped_def)
qed


subsection \<open>Equal states\<close>

lemma keyed_eq_refl:
  assumes "bm_ok m" and "\<And>k v. map_of m k = Some v \<Longrightarrow> f v v"
  shows "keyed_eq f m m"
proof -
  have "f (snd x) (snd x)" if "x \<in> set m" for x
    using that assms(2) [of "fst x" "snd x"] bm_ok_distinct [OF assms(1)] by (simp add: map_of_eq_Some_iff)
  then show ?thesis by (auto simp: keyed_eq_def list_all2_conv_all_nth case_prod_unfold)
qed

lemma keyed_eq_sym:
  assumes "\<And>u v. f u v \<Longrightarrow> f v u" and "keyed_eq f m n"
  shows "keyed_eq f n m"
  using assms by (auto simp: keyed_eq_def list_all2_conv_all_nth case_prod_unfold)

lemma eq_refls:
  "eq_ok q \<Longrightarrow> eq_eq q q" "input_ok i \<Longrightarrow> input_eq i i" "level_ok l \<Longrightarrow> level_eq l l" "group_ok g \<Longrightarrow> group_eq g g" "out_ok u \<Longrightarrow> out_eq u u"
proof -
  show q: "eq_ok q \<Longrightarrow> eq_eq q q" for q
    by (auto simp: eq_eq_def eq_ok_def band_ok_def in_range_finite list_all_length list_all2_conv_all_nth intro!: band_eq_refl)
  show "input_ok i \<Longrightarrow> input_eq i i" "level_ok l \<Longrightarrow> level_eq l l" "group_ok g \<Longrightarrow> group_eq g g" "out_ok u \<Longrightarrow> out_eq u u"
    using q by (auto simp: input_eq_def input_ok_def level_eq_def level_ok_def group_eq_def group_ok_def out_eq_def out_ok_def limiter_eq_def in_range_finite)
qed

lemma eq_syms:
  "eq_eq q r \<Longrightarrow> eq_eq r q" "input_eq i j \<Longrightarrow> input_eq j i" "level_eq l m \<Longrightarrow> level_eq m l" "group_eq g h \<Longrightarrow> group_eq h g" "out_eq u v \<Longrightarrow> out_eq v u"
proof -
  show q: "eq_eq q r \<Longrightarrow> eq_eq r q" for q r
    by (auto simp: eq_eq_def band_eq_def list_all2_conv_all_nth intro: feq_sym [THEN iffD1])
  show "input_eq i j \<Longrightarrow> input_eq j i" "level_eq l m \<Longrightarrow> level_eq m l" "group_eq g h \<Longrightarrow> group_eq h g" "out_eq u v \<Longrightarrow> out_eq v u"
    using q by (auto simp: input_eq_def level_eq_def group_eq_def out_eq_def limiter_eq_def intro: feq_sym [THEN iffD1])
qed

lemma state_eq_sym: "state_eq s t \<Longrightarrow> state_eq t s"
proof -
  have "mix_eq m n \<Longrightarrow> mix_eq n m" for m n by (auto simp: mix_eq_def intro: keyed_eq_sym eq_syms)
  then show "state_eq s t \<Longrightarrow> ?thesis" by (auto simp: state_eq_def intro: keyed_eq_sym eq_syms)
qed

lemma shaped_refl:
  assumes "unique_mixes t" and "shaped t s"
  shows "state_eq s s"
proof -
  have "input_eq v v" if "map_of (ms_inputs s) i = Some v" for i v
    using reconcile_input_lookup [of t s i] assms(2) [unfolded shaped_def] that
    by (metis eq_refls(2) inc.capped_or_ok option.inject option.distinct(1))
  moreover have "mix_eq m m" if "map_of (ms_mixes s) i = Some m" for i m
  proof -
    have "known_mix t i" using reconcile_mix_unknown [of t i s] assms(2) that by (auto simp: shaped_def)
    then obtain n where "n \<in> set (ti_mixes t)" "i = mi_id n" by (auto simp: known_iff)
    with shaped_state_mix [OF assms] that have m: "shape_mix t (Some m) n = m" by fastforce
    note e = shape_mix_lookups [of t "Some m" n, unfolded m] shape_mix_out [of t "Some m" n, unfolded m]
    have "bm_ok (mx_inputs (shape_mix t (Some m) n))" "bm_ok (mx_groups (shape_mix t (Some m) n))" "bm_ok (mx_mixes (shape_mix t (Some m) n))"
      by (simp_all add: shape_mix_def)
    note ok = this [unfolded m]
    have "out_eq (mx_out m) (mx_out m)" using e(4) by (metis eq_refls(5) ouc.capped_or_ok)
    moreover have "level_eq v v" if "map_of (mx_inputs m) j = Some v" for j v
      using e(1) [of j] that by (metis eq_refls(3) lvc.capped_or_ok option.inject option.distinct(1))
    moreover have "group_eq v v" if "map_of (mx_groups m) j = Some v" for j v
      using e(2) [of j] that by (metis eq_refls(4) grc.capped_or_ok option.inject option.distinct(1))
    moreover have "level_eq v v" if "map_of (mx_mixes m) j = Some v" for j v
      using e(3) [of j] that by (metis eq_refls(3) lvc.capped_or_ok option.inject option.distinct(1))
    ultimately show ?thesis using ok by (auto simp: mix_eq_def intro: keyed_eq_refl)
  qed
  ultimately show ?thesis using shaped_ok [OF assms(2)] by (auto simp: state_eq_def intro: keyed_eq_refl)
qed

lemma follow_shaped:
  assumes "unique_mixes t" and "distinct sets"
  shows "shaped t (fst (follow from new sets l (Some t) x))"
  using fit_shaped [OF assms(1) reconcile_twice [OF assms(1)] assms(2)] by (simp add: follow_def Let_def)

subsection \<open>The running state\<close>

lemma set_running_frame: "run_state (set_running e r) u = (y, v) \<Longrightarrow> wd_engine v = wd_engine u \<and> wd_states v = wd_states u \<and> wd_solos v = wd_solos u"
  by (auto simp: set_running_def checked_ids_def file_step_def split: if_splits option.splits)

lemma note_frame: "run_state (note_running e r) u = (y, v) \<Longrightarrow> wd_engine v = wd_engine u \<and> wd_states v = wd_states u \<and> wd_solos v = wd_solos u"
  by (auto simp: note_running_def dest!: set_running_frame split: prod.splits)

text \<open>
  An import whose answer was lost is told apart: the server takes it for gone in exactly when the engine
  holds the new state.
\<close>

lemma send_exact:
  assumes "unique_mixes (ev_topology e)" and "shaped (ev_topology e) nxt" and "\<not> state_eq nxt (wd_engine w)"
    and "run_state (send_running e active sha prior nxt run) w = (x, w')"
  shows "wd_states w' = wd_states w" and "case x of Inr r \<Rightarrow> r = run \<and> wd_engine w' = nxt | Inl _ \<Rightarrow> wd_engine w' = wd_engine w"
proof -
  have in': "fst (reconcile (ev_topology e) nxt) = nxt" using assms(2) by (simp add: shaped_def)
  have refl: "state_eq nxt nxt" by (rule shaped_refl [OF assms(1,2)])
  have no: "\<not> state_eq (wd_engine w) nxt" using assms(3) state_eq_sym by blast
  obtain y v where r1: "run_state (set_running e (prior\<lparr>ru_pending := Some \<lparr>pd_follows = sha, pd_silenced = ru_silenced run, pd_digest = ev_digest e nxt\<rparr>\<rparr>)) w = (y, v)"
    by fastforce
  note v = set_running_frame [OF r1]
  have "wd_states w' = wd_states w \<and> (case x of Inr r \<Rightarrow> r = run \<and> wd_engine w' = nxt | Inl _ \<Rightarrow> wd_engine w' = wd_engine w)"
    using assms(4) v in' refl no
    by (cases y) (auto simp: send_running_def r1 request_applied_def Let_def import_failed_def dest!: note_frame split: reply.splits if_splits prod.splits)
  then show "wd_states w' = wd_states w" "case x of Inr r \<Rightarrow> r = run \<and> wd_engine w' = nxt | Inl _ \<Rightarrow> wd_engine w' = wd_engine w" by simp_all
qed

end
