(* ===== verification/Frames.thy ===== *)
theory Frames
  imports Prelude
begin

text \<open>
  The frames of the engine's two pipes (\<open>iem-engine-proto/src/frame.rs\<close>, \<open>media.rs\<close>): a length and a JSON
  body on the control pipe, a header and the samples on the media pipe; and the reader thread of a
  connection that cuts them from what arrives (\<open>iem-engine/src/pipe.rs\<close>). A stream is the list of what its
  reads answer: some bytes, an interruption, a timeout, a failure, and at its end nothing. A writer takes
  bytes until its room is used up. A sample is the bit pattern of its \<open>f32\<close>.
\<close>

unbundle bit_operations_syntax

subsection \<open>Little-endian integers\<close>

fun le_bytes :: "nat \<Rightarrow> 'a::len word \<Rightarrow> u8 list" where
  "le_bytes 0 w = []"
| "le_bytes (Suc n) w = ucast w # le_bytes n (drop_bit 8 w)"

fun from_le_bytes :: "u8 list \<Rightarrow> 'a::len word" where
  "from_le_bytes [] = 0"
| "from_le_bytes (b # bs) = ucast b OR push_bit 8 (from_le_bytes bs)"

lemma le_bytes_length [simp]: "length (le_bytes n w) = n"
  by (induction n arbitrary: w) simp_all

lemma from_le_le: "from_le_bytes (le_bytes n w) = take_bit (8 * n) w"
proof (induction n arbitrary: w)
  case (Suc n)
  show ?case
    by (rule bit_word_eqI) (auto simp: Suc bit_simps)
qed simp

lemma le_bytes_inverse: "LENGTH('a) \<le> 8 * n \<Longrightarrow> from_le_bytes (le_bytes n w) = (w :: 'a::len word)"
  by (rule bit_word_eqI) (simp add: from_le_le bit_simps)

subsection \<open>Readers and writers\<close>

datatype io_error = UnexpectedEof | Interrupted | TimedOut | InvalidData string | InvalidInput string | OtherIo string

datatype frame_error = Io io_error | TooLarge nat | Closed

datatype event = Chunk "u8 list" | Interruption | Timeout | Failure string

text \<open>One \<open>read\<close> into a buffer of \<open>k\<close> bytes.\<close>

fun read :: "nat \<Rightarrow> event list \<Rightarrow> (io_error + u8 list) \<times> event list" where
  "read k [] = (Inr [], [])"
| "read k (Chunk bs # s) = (if length bs \<le> k then (Inr bs, s) else (Inr (take k bs), Chunk (drop k bs) # s))"
| "read k (Interruption # s) = (Inl Interrupted, s)"
| "read k (Timeout # s) = (Inl TimedOut, s)"
| "read k (Failure e # s) = (Inl (OtherIo e), s)"

fun weight :: "event \<Rightarrow> nat" where
  "weight (Chunk bs) = Suc (length bs)"
| "weight Interruption = 1"
| "weight Timeout = 1"
| "weight (Failure e) = 1"

lemma read_weight: "read k s = (Inr bs, s') \<Longrightarrow> bs \<noteq> [] \<Longrightarrow> sum_list (map weight s') < sum_list (map weight s)"
  "read k s = (Inl e, s') \<Longrightarrow> sum_list (map weight s') < sum_list (map weight s)"
  by (cases "(k, s)" rule: read.cases; auto split: if_splits)+

text \<open>
  Reads until \<open>n\<close> bytes are there, \<open>got\<close> of them already; \<open>eof\<close>: the end of the stream before the first
  of them. This is \<open>read_head\<close>, and with \<open>UnexpectedEof\<close> at any end the standard library's \<open>read_exact\<close>.
\<close>

function read_full :: "frame_error \<Rightarrow> nat \<Rightarrow> u8 list \<Rightarrow> event list \<Rightarrow> (frame_error + u8 list) \<times> event list" where
  "read_full eof n got s =
     (if n \<le> length got then (Inr got, s)
      else case read (n - length got) s of
             (Inr [], s') \<Rightarrow> (Inl (if got = [] then eof else Io UnexpectedEof), s')
           | (Inr (b # bs), s') \<Rightarrow> read_full eof n (got @ b # bs) s'
           | (Inl Interrupted, s') \<Rightarrow> read_full eof n got s'
           | (Inl e, s') \<Rightarrow> (Inl (Io e), s'))"
  by pat_completeness auto
termination
  by (relation "measure (\<lambda>(_, _, _, s). sum_list (map weight s))") (auto dest: read_weight [OF sym])

declare read_full.simps [simp del]

definition read_head :: "nat \<Rightarrow> event list \<Rightarrow> (frame_error + u8 list) \<times> event list" where
  "read_head n s = read_full Closed n [] s"

definition read_exact :: "nat \<Rightarrow> event list \<Rightarrow> (frame_error + u8 list) \<times> event list" where
  "read_exact n s = read_full (Io UnexpectedEof) n [] s"

record writer =
  wr_out :: "u8 list"
  wr_room :: "nat option"

definition write_all :: "u8 list \<Rightarrow> writer \<Rightarrow> (io_error + unit) \<times> writer" where
  "write_all bs w =
     (case wr_room w of
        None \<Rightarrow> (Inr (), w\<lparr>wr_out := wr_out w @ bs\<rparr>)
      | Some k \<Rightarrow>
          if length bs \<le> k then (Inr (), w\<lparr>wr_out := wr_out w @ bs, wr_room := Some (k - length bs)\<rparr>)
          else (Inl (OtherIo ''broken pipe''), w\<lparr>wr_out := wr_out w @ take k bs, wr_room := Some 0\<rparr>))"

subsection \<open>The control pipe\<close>

definition MAX_FRAME :: nat where "MAX_FRAME = 2 ^ 20"

text \<open>\<open>to_vec\<close> is \<open>serde_json::to_vec\<close>.\<close>

definition write_frame :: "('m \<Rightarrow> string + u8 list) \<Rightarrow> 'm \<Rightarrow> writer \<Rightarrow> (frame_error + unit) \<times> writer" where
  "write_frame to_vec msg w =
     (case to_vec msg of
        Inl e \<Rightarrow> (Inl (Io (OtherIo e)), w)
      | Inr body \<Rightarrow>
          if length body < 2 ^ 32 \<and> length body \<le> MAX_FRAME
          then let (r, w') = write_all (le_bytes 4 (word_of_nat (length body) :: u32) @ body) w
               in (case r of Inl e \<Rightarrow> (Inl (Io e), w') | Inr _ \<Rightarrow> (Inr (), w'))
          else (Inl (TooLarge (length body)), w))"

definition read_frame :: "event list \<Rightarrow> (frame_error + u8 list) \<times> event list" where
  "read_frame s =
     (case read_head 4 s of
        (Inl e, s') \<Rightarrow> (Inl e, s')
      | (Inr h, s') \<Rightarrow>
          let len = unat (from_le_bytes h :: u32)
          in if MAX_FRAME < len then (Inl (TooLarge len), s') else read_exact len s')"

subsection \<open>The media pipe\<close>

definition MEDIA_HEADER :: nat where "MEDIA_HEADER = 20"
definition FRAME_48K :: nat where "FRAME_48K = 960"
definition MAX_SAMPLES :: nat where "MAX_SAMPLES = 4 * FRAME_48K"
definition MAGIC :: "u8 list" where "MAGIC = [0x49, 0x45, 0x4D, 0x46]"
definition VERSION :: u8 where "VERSION = 1"

definition ENGINEER_LISTEN :: u8 where "ENGINEER_LISTEN = 0"
definition MEMBER_LISTEN :: u8 where "MEMBER_LISTEN = 1"
definition ENGINEER_PROBE :: u8 where "ENGINEER_PROBE = 2"
definition MEMBER_PROBE :: u8 where "MEMBER_PROBE = 3"
definition TALKBACK :: u8 where "TALKBACK = 16"

record media_header =
  mh_stream :: u8
  mh_channels :: u8
  mh_seq :: u64
  mh_frames :: u16

definition header_samples :: "media_header \<Rightarrow> nat" where
  "header_samples h = unat (mh_frames h) * unat (mh_channels h)"

definition media_head :: "media_header \<Rightarrow> u8 list" where
  "media_head h =
     MAGIC @ [VERSION, mh_stream h, mh_channels h, 0] @ le_bytes 8 (mh_seq h) @ le_bytes 2 (mh_frames h) @ [0, 0]"

definition write_media :: "media_header \<Rightarrow> u32 list \<Rightarrow> writer \<Rightarrow> (io_error + unit) \<times> writer" where
  "write_media h samples w =
     (if length samples \<noteq> header_samples h \<or> MAX_SAMPLES < header_samples h
      then (Inl (InvalidInput ''media frame size does not match its header''), w)
      else write_all (media_head h @ concat (map (le_bytes 4) samples)) w)"

definition bad :: "string \<Rightarrow> frame_error" where
  "bad msg = Io (InvalidData msg)"

text \<open>The header of a frame from its 20 bytes.\<close>

definition parse_head :: "u8 list \<Rightarrow> frame_error + media_header" where
  "parse_head head =
     (let magic = take 4 head; meta = take 4 (drop 4 head); seq = take 8 (drop 8 head); frames = take 2 (drop 16 head)
      in if magic \<noteq> MAGIC then Inl (bad ''not a media frame'')
         else if meta ! 0 \<noteq> VERSION then Inl (bad ''unsupported media frame version'')
         else let h = \<lparr>mh_stream = meta ! 1, mh_channels = meta ! 2, mh_seq = from_le_bytes seq, mh_frames = from_le_bytes frames\<rparr>
              in if MAX_SAMPLES < header_samples h then Inl (TooLarge (header_samples h)) else Inr h)"

fun samples_of :: "u8 list \<Rightarrow> u32 list" where
  "samples_of (a # b # c # d # bs) = from_le_bytes [a, b, c, d] # samples_of bs"
| "samples_of _ = []"

definition read_media :: "event list \<Rightarrow> (frame_error + media_header \<times> u32 list) \<times> event list" where
  "read_media s =
     (case read_head MEDIA_HEADER s of
        (Inl e, s') \<Rightarrow> (Inl e, s')
      | (Inr head, s') \<Rightarrow>
          (case parse_head head of
             Inl e \<Rightarrow> (Inl e, s')
           | Inr h \<Rightarrow>
               (case read_exact (4 * header_samples h) s' of
                  (Inl e, s'') \<Rightarrow> (Inl e, s'')
                | (Inr bytes, s'') \<Rightarrow> (Inr (h, samples_of bytes), s''))))"

subsection \<open>The reader of a connection\<close>

text \<open>A slice as a reader: its bytes, then the end; and what is left of it.\<close>

definition slice :: "u8 list \<Rightarrow> event list" where
  "slice buf = (if buf = [] then [] else [Chunk buf])"

definition rest_of :: "event list \<Rightarrow> u8 list" where
  "rest_of s = concat (map (\<lambda>x. case x of Chunk bs \<Rightarrow> bs | _ \<Rightarrow> []) s)"

definition timed_out :: "io_error \<Rightarrow> bool" where
  "timed_out e = (e = TimedOut \<or> e = Interrupted)"

definition framer_next :: "(event list \<Rightarrow> (frame_error + 'm) \<times> event list) \<Rightarrow> u8 list \<Rightarrow> (frame_error + 'm option) \<times> u8 list" where
  "framer_next parse buf =
     (case parse (slice buf) of
        (Inr v, s') \<Rightarrow> (Inr (Some v), drop (length buf - length (rest_of s')) buf)
      | (Inl Closed, _) \<Rightarrow> (Inr None, buf)
      | (Inl (Io UnexpectedEof), _) \<Rightarrow> (Inr None, buf)
      | (Inl e, _) \<Rightarrow> (Inl e, buf))"

definition next_frame :: "u8 list \<Rightarrow> (frame_error + u8 list option) \<times> u8 list" where
  "next_frame = framer_next read_frame"

definition next_media :: "u8 list \<Rightarrow> (frame_error + (media_header \<times> u32 list) option) \<times> u8 list" where
  "next_media = framer_next read_media"

definition fill :: "event list \<Rightarrow> u8 list \<Rightarrow> (frame_error + bool) \<times> u8 list \<times> event list" where
  "fill s buf =
     (case read (16 * 1024) s of
        (Inr [], s') \<Rightarrow> (Inl Closed, buf, s')
      | (Inr bs, s') \<Rightarrow> (Inr True, buf @ bs, s')
      | (Inl e, s') \<Rightarrow> if timed_out e then (Inr False, buf, s') else (Inl (Io e), buf, s'))"

text \<open>The inner loop: hands every whole frame of the buffer to \<open>deliver\<close>; why it stopped, if for good.\<close>

partial_function (option) cut ::
  "(u8 list \<Rightarrow> (frame_error + 'm option) \<times> u8 list) \<Rightarrow> ('m \<Rightarrow> 'd \<Rightarrow> bool \<times> 'd) \<Rightarrow> u8 list \<Rightarrow> 'd \<Rightarrow> (frame_error option \<times> u8 list \<times> 'd) option" where
  "cut next' deliver buf d =
     (case next' buf of
        (Inr (Some item), buf') \<Rightarrow>
          (case deliver item d of (go, d') \<Rightarrow> if go then cut next' deliver buf' d' else Some (Some Closed, buf', d'))
      | (Inr None, buf') \<Rightarrow> Some (None, buf', d)
      | (Inl e, buf') \<Rightarrow> Some (Some e, buf', d))"

text \<open>\<open>closed k\<close>: the connection's flag at the \<open>k\<close>-th look.\<close>

function read_loop ::
  "(u8 list \<Rightarrow> (frame_error + 'm option) \<times> u8 list) \<Rightarrow> ('m \<Rightarrow> 'd \<Rightarrow> bool \<times> 'd) \<Rightarrow> (nat \<Rightarrow> bool) \<Rightarrow> nat \<Rightarrow> u8 list \<Rightarrow> 'd \<Rightarrow> event list
    \<Rightarrow> (frame_error \<times> 'd) option" where
  "read_loop next' deliver closed k buf d s =
     (case cut next' deliver buf d of
        None \<Rightarrow> None
      | Some (Some e, _, d') \<Rightarrow> Some (e, d')
      | Some (None, buf', d') \<Rightarrow>
          if closed k then Some (Closed, d')
          else (case fill s buf' of
                  (Inl e, _, _) \<Rightarrow> Some (e, d')
                | (Inr _, buf'', s') \<Rightarrow> read_loop next' deliver closed (Suc k) buf'' d' s'))"
  by pat_completeness auto
termination
  by (relation "measure (\<lambda>(_, _, _, _, _, _, s). sum_list (map weight s))")
    (auto simp: fill_def dest: read_weight split: prod.splits sum.splits list.splits if_splits)

declare read_loop.simps [simp del]

end
