(* ===== verification/Media.thy ===== *)
theory Media
  imports Frames Equalizer Rt
begin

text \<open>
  The media path of the engine: the half-band filter and its two resamplers (\<open>iem-engine/src/resample.rs\<close>),
  the framing of the listen taps and the feed of the talkback ring (\<open>media.rs\<close>), and one turn of the media
  thread that drives them (\<open>media_pump\<close> and the talkback reader of \<open>engine.rs\<close>). The bytes of a sample are
  those of its IEEE single, \<open>f32_bits\<close>.
\<close>

subsection \<open>The half-band filter\<close>

definition TAPS :: nat where "TAPS = 79"
definition BETA :: f64 where "BETA = lit (1006 / 100)"
definition CENTER :: nat where "CENTER = TAPS div 2"

definition bessel_i0 :: "f64 \<Rightarrow> f64" where
  "bessel_i0 x =
     (let q = x * x / lit 4
      in fst (fold (\<lambda>k (sum, term). let t = term * (q / f64_of_nat (k * k)) in (sum + t, t)) [1..<100] (1, 1)))"

text \<open>\<open>Iterator::sum\<close> over \<open>f64\<close> starts from negative zero.\<close>

definition fsum :: "f64 list \<Rightarrow> f64" where
  "fsum xs = foldl (+) NZero xs"

definition abs_diff :: "nat \<Rightarrow> nat \<Rightarrow> nat" where
  "abs_diff a b = (if a \<le> b then b - a else a - b)"

definition raw_tap :: "libm \<Rightarrow> nat \<Rightarrow> f64" where
  "raw_tap lm n =
     (let half = f64_of_nat CENTER; k = f64_of_nat n - half; off = abs_diff n CENTER
      in if off = 0 then lit (1 / 2)
         else if off mod 2 = 0 then 0
         else let r = k / half; w = bessel_i0 (BETA * fsqrt lm (fmax (1 - r * r) 0))
              in fsin lm (F_PI * k / lit 2) / (F_PI * k) * w)"

definition half_band :: "libm \<Rightarrow> f64 list" where
  "half_band lm =
     (let h = map (raw_tap lm) [0..<TAPS];
          is_odd = (\<lambda>n. abs_diff n CENTER mod 2 = 1);
          odd' = fsum (map (\<lambda>n. h ! n) (filter is_odd [0..<TAPS]))
      in map (\<lambda>n. if is_odd n then h ! n * (lit (1 / 2) / odd') else h ! n) [0..<TAPS])"

definition nonzero :: "libm \<Rightarrow> (nat \<times> f64) list" where
  "nonzero lm = filter (\<lambda>(_, v). \<not> feq v 0) (enumerate 0 (half_band lm))"

subsection \<open>Delay lines\<close>

record delay_line =
  li_hist :: "f64 list"
  li_pos :: nat

definition line_new :: delay_line where
  "line_new = \<lparr>li_hist = replicate TAPS 0, li_pos = 0\<rparr>"

definition line_push :: "f64 \<Rightarrow> delay_line \<Rightarrow> delay_line" where
  "line_push x l = (let p = (li_pos l + TAPS - 1) mod TAPS in l\<lparr>li_pos := p, li_hist := (li_hist l)[p := x]\<rparr>)"

definition line_dot :: "(nat \<times> f64) list \<Rightarrow> delay_line \<Rightarrow> f64" where
  "line_dot taps l =
     fsum (map (\<lambda>(j, h). h * (case lget (li_hist l) ((li_pos l + j) mod TAPS) of Some x \<Rightarrow> x | None \<Rightarrow> 0)) taps)"

record decimator =
  de_taps :: "(nat \<times> f64) list"
  de_lines :: "delay_line \<times> delay_line"
  de_skip :: bool

definition decimator_new :: "libm \<Rightarrow> decimator" where
  "decimator_new lm = \<lparr>de_taps = nonzero lm, de_lines = (line_new, line_new), de_skip = False\<rparr>"

definition decimator_push :: "f64 \<Rightarrow> f64 \<Rightarrow> decimator \<Rightarrow> (f64 \<times> f64) option \<times> decimator" where
  "decimator_push l r d =
     (let a = line_push l (fst (de_lines d)); b = line_push r (snd (de_lines d));
          out = (if \<not> de_skip d then Some (line_dot (de_taps d) a, line_dot (de_taps d) b) else None)
      in (out, d\<lparr>de_lines := (a, b), de_skip := \<not> de_skip d\<rparr>))"

record interpolator =
  ip_taps :: "(nat \<times> f64) list"
  ip_line :: delay_line

definition interpolator_new :: "libm \<Rightarrow> interpolator" where
  "interpolator_new lm = \<lparr>ip_taps = nonzero lm, ip_line = line_new\<rparr>"

definition interpolator_step :: "f64 \<Rightarrow> interpolator \<Rightarrow> f64 \<times> interpolator" where
  "interpolator_step x i = (let l = line_push x (ip_line i) in (lit 2 * line_dot (ip_taps i) l, i\<lparr>ip_line := l\<rparr>))"

definition interpolator_push :: "f64 \<Rightarrow> interpolator \<Rightarrow> (f64 \<times> f64) \<times> interpolator" where
  "interpolator_push x i =
     (let (a, i1) = interpolator_step x i; (b, i2) = interpolator_step 0 i1 in ((a, b), i2))"

subsection \<open>Frames of a tap\<close>

type_synonym media_frame = "media_header \<times> f32 list"

record tap_framer =
  tf_stream :: u8
  tf_dec :: decimator
  tf_seq :: u64
  tf_buf :: "f32 list"

definition framer_new :: "libm \<Rightarrow> u8 \<Rightarrow> tap_framer" where
  "framer_new lm st = \<lparr>tf_stream = st, tf_dec = decimator_new lm, tf_seq = 0, tf_buf = []\<rparr>"

definition framer_restart :: "libm \<Rightarrow> tap_framer \<Rightarrow> tap_framer" where
  "framer_restart lm f = f\<lparr>tf_dec := decimator_new lm, tf_buf := []\<rparr>"

definition feed_pair :: "f32 \<Rightarrow> f32 \<Rightarrow> tap_framer \<Rightarrow> media_frame list \<times> tap_framer" where
  "feed_pair l r f =
     (case decimator_push l r (tf_dec f) of
        (None, d) \<Rightarrow> ([], f\<lparr>tf_dec := d\<rparr>)
      | (Some (a, b), d) \<Rightarrow>
          let buf = tf_buf f @ [as_f32 a, as_f32 b]
          in if 2 * FRAME_48K \<le> length buf
             then ([(\<lparr>mh_stream = tf_stream f, mh_channels = 2, mh_seq = tf_seq f, mh_frames = word_of_nat FRAME_48K\<rparr>, buf)],
                   f\<lparr>tf_dec := d, tf_buf := [], tf_seq := tf_seq f + 1\<rparr>)
             else ([], f\<lparr>tf_dec := d, tf_buf := buf\<rparr>))"

text \<open>An odd last value is dropped, as \<open>as_chunks\<close> does.\<close>

fun framer_feed :: "f32 list \<Rightarrow> tap_framer \<Rightarrow> media_frame list \<times> tap_framer" where
  "framer_feed (l # r # xs) f =
     (let (out, f1) = feed_pair l r f; (rest, f2) = framer_feed xs f1 in (out @ rest, f2))"
| "framer_feed _ f = ([], f)"

subsection \<open>Talkback\<close>

text \<open>\<open>feed\<close> returns how many samples the full ring dropped.\<close>

fun interpolate :: "f32 list \<Rightarrow> interpolator \<Rightarrow> f32 list \<times> interpolator" where
  "interpolate [] i = ([], i)"
| "interpolate (x # xs) i =
     (let ((a, b), i1) = interpolator_push (if is_finite x then x else 0) i; (ys, i2) = interpolate xs i1
      in (as_f32 a # as_f32 b # ys, i2))"

definition talkback_feed :: "f32 list \<Rightarrow> interpolator \<times> out_ring \<Rightarrow> nat \<times> interpolator \<times> out_ring" where
  "talkback_feed xs t =
     (let (scratch, i) = interpolate xs (fst t); r = snd t
      in (length scratch - rg_room r, i, r\<lparr>rg_room := rg_room r - length scratch, rg_out := rg_out r @ take (rg_room r) scratch\<rparr>))"

text \<open>What the reader of a media connection does with a frame; the samples decoded.\<close>

definition media_in :: "media_header \<times> f32 list \<Rightarrow> (interpolator \<times> out_ring) \<times> u64 \<Rightarrow> (interpolator \<times> out_ring) \<times> u64" where
  "media_in f s =
     (if mh_stream (fst f) = TALKBACK \<and> mh_channels (fst f) = 1
      then let (n, t) = talkback_feed (snd f) (fst s) in (t, snd s + word_of_nat n)
      else s)"

subsection \<open>The media thread\<close>

definition f32_bits :: "f32 \<Rightarrow> u32" where
  "f32_bits x =
     (case x of
        NaN \<Rightarrow> 0x7FC00000
      | Inf s \<Rightarrow> if s then 0xFF800000 else 0x7F800000
      | NZero \<Rightarrow> 0x80000000
      | Num q \<Rightarrow>
          if q = 0 then 0
          else (if q < 0 then 0x80000000 else 0) +
               (let e = ilog2 \<bar>q\<bar>
                in if e < - 126 then word_of_int \<lfloor>\<bar>q\<bar> * pow2 149\<rfloor>
                   else word_of_int ((e + 127) * 2 ^ 23 + (\<lfloor>\<bar>q\<bar> * pow2 (23 - e)\<rfloor> - 2 ^ 23))))"

text \<open>A media connection: its pipe, and whether it was closed.\<close>

record media_conn =
  mc_writer :: writer
  mc_closed :: bool

record pump =
  pu_framers :: "tap_framer list"
  pu_current :: "media_conn option"
  pu_gone :: "media_conn list"

definition pump_new :: "libm \<Rightarrow> pump" where
  "pump_new lm =
     \<lparr>pu_framers = map (framer_new lm) [ENGINEER_LISTEN, MEMBER_LISTEN, ENGINEER_PROBE, MEMBER_PROBE], pu_current = None, pu_gone = []\<rparr>"

definition retire :: "media_conn option \<Rightarrow> pump \<Rightarrow> pump" where
  "retire c p = (case c of None \<Rightarrow> p | Some x \<Rightarrow> p\<lparr>pu_gone := pu_gone p @ [x\<lparr>mc_closed := True\<rparr>]\<rparr>)"

definition take_conn :: "media_conn \<Rightarrow> pump \<Rightarrow> pump" where
  "take_conn c p = (retire (pu_current p) p)\<lparr>pu_current := Some c\<rparr>"

fun feed_all :: "f32 list list \<Rightarrow> tap_framer list \<Rightarrow> media_frame list \<times> tap_framer list" where
  "feed_all (xs # xss) (f # fs) =
     (let (out, f') = framer_feed xs f; (rest, fs') = feed_all xss fs in (out @ rest, f' # fs'))"
| "feed_all _ fs = ([], fs)"

fun send_frames :: "media_frame list \<Rightarrow> writer \<Rightarrow> bool \<times> writer" where
  "send_frames [] w = (True, w)"
| "send_frames ((h, xs) # fs) w =
     (case write_media h (map f32_bits xs) w of
        (Inl _, w') \<Rightarrow> (False, w')
      | (Inr _, w') \<Rightarrow> send_frames fs w')"

text \<open>One turn: the connections that came, and what the four rings held (a whole ring at most).\<close>

definition pump_turn :: "media_conn list \<Rightarrow> f32 list list \<Rightarrow> pump \<Rightarrow> pump" where
  "pump_turn conns taps p =
     (let p1 = fold take_conn conns p;
          (frames, fs) = feed_all (map (take TAP_RING) taps) (pu_framers p1);
          p2 = p1\<lparr>pu_framers := fs\<rparr>
      in case pu_current p2 of
           None \<Rightarrow> p2
         | Some c \<Rightarrow>
             if mc_closed c then p2\<lparr>pu_current := None\<rparr>
             else let (ok, w) = send_frames frames (mc_writer c); c' = c\<lparr>mc_writer := w\<rparr>
                  in if ok then p2\<lparr>pu_current := Some c'\<rparr> else (retire (Some c') p2)\<lparr>pu_current := None\<rparr>)"

end
