(* ===== verification/FrameProps.thy ===== *)
theory FrameProps
  imports Frames "HOL-Library.Sublist"
begin

text \<open>
  What is written on a pipe is read from it: the locale \<open>framing\<close> states once, for the control pipe and
  the media pipe, that the reader of a connection delivers exactly the frames written whole, however the
  pipe delivers their bytes, and that a frame cut off in the middle is never taken for one.
\<close>

subsection \<open>What a stream delivers\<close>

text \<open>The bytes before the first failure; a live stream answers no read with nothing before its end.\<close>

fun delivered :: "event list \<Rightarrow> u8 list" where
  "delivered [] = []"
| "delivered (Chunk bs # s) = bs @ delivered s"
| "delivered (Interruption # s) = delivered s"
| "delivered (Timeout # s) = delivered s"
| "delivered (Failure e # s) = []"

definition lively :: "event list \<Rightarrow> bool" where
  "lively s = list_all (\<lambda>x. x \<noteq> Chunk []) s"

fun failure :: "event list \<Rightarrow> frame_error" where
  "failure [] = Closed"
| "failure (Failure e # s) = Io (OtherIo e)"
| "failure (x # s) = failure s"

lemma lively_simps [simp]: "lively []" "lively (x # s) \<longleftrightarrow> x \<noteq> Chunk [] \<and> lively s"
  by (simp_all add: lively_def)

text \<open>One read of the connection: the bytes go on where they were, or it is over.\<close>

lemma fill_delivers:
  assumes "lively s" and "fill s buf = (r, buf', s')"
  shows "case r of
      Inr _ \<Rightarrow> lively s' \<and> failure s' = failure s \<and> buf' @ delivered s' = buf @ delivered s
    | Inl e \<Rightarrow> e = failure s \<and> delivered s = []"
  using assms
  by (cases "(16 * 1024 :: nat, s)" rule: read.cases)
    (auto simp: fill_def timed_out_def split: if_splits list.splits prod.splits, metis append_Cons append_take_drop_id)

lemma rest_of_slice [simp]: "rest_of (slice bs) = bs"
  by (simp add: rest_of_def slice_def)

text \<open>A full read from a slice.\<close>

lemma read_full_slice:
  "read_full eof n [] (slice bs) =
     (if n \<le> length bs then (Inr (take n bs), slice (drop n bs)) else (Inl (if bs = [] then eof else Io UnexpectedEof), []))"
proof (cases "n = 0 \<or> bs = []")
  case True
  then show ?thesis by (auto simp: slice_def read_full.simps [of eof n "[]"])
next
  case False
  then obtain c cs where c: "take n bs = c # cs" by (cases "take n bs") auto
  show ?thesis
  proof (cases "n \<le> length bs")
    case True
    have "read n (slice bs) = (Inr (take n bs), slice (drop n bs))" using True False by (auto simp: slice_def)
    moreover have "n \<le> length (c # cs)" using True c by (metis length_take min_absorb2 order_refl)
    ultimately show ?thesis using True False c by (simp add: read_full.simps [of eof n "[]"] read_full.simps [of eof n "c # cs"])
  next
    case no: False
    then have "read n (slice bs) = (Inr bs, [])" "bs = c # cs" using False c by (auto simp: slice_def)
    with no show ?thesis by (simp add: read_full.simps [of eof n "[]"] read_full.simps [of eof n "c # cs"])
  qed
qed

lemmas slice_reads = read_head_def read_exact_def read_full_slice

subsection \<open>Frames\<close>

text \<open>Writing until a write fails, and how many succeeded; a reader that keeps all it is handed.\<close>

fun writes :: "('m \<Rightarrow> writer \<Rightarrow> ('e + unit) \<times> writer) \<Rightarrow> 'm list \<Rightarrow> writer \<Rightarrow> nat \<times> writer" where
  "writes f [] w = (0, w)"
| "writes f (m # ms) w =
     (case f m w of
        (Inl e, w') \<Rightarrow> (0, w')
      | (Inr _, w') \<Rightarrow> let (n, w'') = writes f ms w' in (Suc n, w''))"

definition keep_all :: "'m \<Rightarrow> 'm list \<Rightarrow> bool \<times> 'm list" where
  "keep_all m ms = (True, ms @ [m])"

text \<open>
  A framing: a header of fixed length that says how long its body is, a reader that reads one and then
  the other, and a writer that writes a frame at once or a part of it.
\<close>

locale framing =
  fixes head :: nat
    and body :: "u8 list \<Rightarrow> frame_error + nat"
    and decode :: "u8 list \<Rightarrow> u8 list \<Rightarrow> 'm"
    and encode :: "'a \<Rightarrow> u8 list"
    and value_of :: "'a \<Rightarrow> 'm"
    and fits :: "'a \<Rightarrow> bool"
    and read_one :: "event list \<Rightarrow> (frame_error + 'm) \<times> event list"
    and write_one :: "'a \<Rightarrow> writer \<Rightarrow> ('e + unit) \<times> writer"
  assumes head_pos: "0 < head"
    and head_body: "fits m \<Longrightarrow> \<exists>h b. encode m = h @ b \<and> length h = head \<and> body h = Inr (length b) \<and> decode h b = value_of m"
    and reads_one: "read_one s =
      (case read_head head s of
         (Inl e, s') \<Rightarrow> (Inl e, s')
       | (Inr h, s') \<Rightarrow>
           (case body h of
              Inl e \<Rightarrow> (Inl e, s')
            | Inr n \<Rightarrow>
                (case read_exact n s' of
                   (Inl e, s'') \<Rightarrow> (Inl e, s'')
                 | (Inr b, s'') \<Rightarrow> (Inr (decode h b), s''))))"
    and writes_one: "write_one m w = (r, w') \<Longrightarrow>
      (case r of
         Inr _ \<Rightarrow> fits m \<and> wr_out w' = wr_out w @ encode m
       | Inl _ \<Rightarrow> w' = w \<or> fits m \<and> (\<exists>part. strict_prefix part (encode m) \<and> wr_out w' = wr_out w @ part))"
begin

lemma next_whole: "fits m \<Longrightarrow> framer_next read_one (encode m @ rest) = (Inr (Some (value_of m)), rest)"
  using head_body [of m] by (auto simp: framer_next_def reads_one slice_reads)

lemma next_part:
  assumes "fits m" and "strict_prefix part (encode m)"
  shows "framer_next read_one part = (Inr None, part)"
proof -
  obtain h b where e: "encode m = h @ b" "length h = head" "body h = Inr (length b)" using head_body [OF assms(1)] by blast
  obtain t where t: "h @ b = part @ t" "t \<noteq> []" using assms(2) e(1) by (auto elim!: strict_prefixE')
  show ?thesis
  proof (cases "head \<le> length part")
    case False
    then show ?thesis by (simp add: framer_next_def reads_one slice_reads)
  next
    case True
    then obtain b' where "part = h @ b'" "b = b' @ t" using t(1) e(2) by (auto simp: append_eq_append_conv2)
    then show ?thesis using e t(2) by (simp add: framer_next_def reads_one slice_reads)
  qed
qed

lemma next_empty: "framer_next read_one [] = (Inr None, [])"
  using head_pos by (simp add: framer_next_def reads_one slice_reads)

text \<open>
  The bytes of whole frames and a part of one; the inner loop delivers the frames that are whole and
  leaves the rest.
\<close>

definition partial :: "u8 list \<Rightarrow> bool" where
  "partial part \<longleftrightarrow> part = [] \<or> (\<exists>m. fits m \<and> strict_prefix part (encode m))"

lemma partial_prefix: "partial part \<Longrightarrow> prefix buf part \<Longrightarrow> partial buf"
  unfolding partial_def by (metis prefix_order.le_less_trans prefix_bot.extremum_uniqueI)

lemma cut_partial: "partial buf \<Longrightarrow> cut (framer_next read_one) keep_all buf d = Some (None, buf, d)"
  by (auto simp: cut.simps [of _ _ buf] partial_def next_empty next_part)

lemma cut_keep:
  "framer_next read_one buf = (Inr (Some v), buf') \<Longrightarrow> cut (framer_next read_one) keep_all buf d = cut (framer_next read_one) keep_all buf' (d @ [v])"
  by (subst cut.simps) (simp add: keep_all_def [abs_def])

lemma cut_frames:
  assumes "list_all fits ms" and "partial part" and "prefix buf (concat (map encode ms) @ part)"
  shows "\<exists>ms1 ms2 buf'. ms = ms1 @ ms2 \<and> buf = concat (map encode ms1) @ buf' \<and>
    cut (framer_next read_one) keep_all buf d = Some (None, buf', d @ map value_of ms1) \<and>
    (case ms2 of [] \<Rightarrow> True | m # _ \<Rightarrow> strict_prefix buf' (encode m))"
  using assms
proof (induction ms arbitrary: buf d)
  case Nil
  then show ?case using cut_partial [OF partial_prefix [of part buf]] by simp
next
  case (Cons m ms)
  show ?case
  proof (cases "prefix (encode m) buf")
    case True
    then obtain b where b: "buf = encode m @ b" by (auto elim: prefixE)
    with Cons(4) have "prefix b (concat (map encode ms) @ part)" by simp
    from Cons(1) [OF _ Cons(3) this, of "d @ [value_of m]"] Cons(2) obtain ms1 ms2 buf' where
      "ms = ms1 @ ms2" "b = concat (map encode ms1) @ buf'"
      "cut (framer_next read_one) keep_all b (d @ [value_of m]) = Some (None, buf', (d @ [value_of m]) @ map value_of ms1)"
      "case ms2 of [] \<Rightarrow> True | m # _ \<Rightarrow> strict_prefix buf' (encode m)" by (auto simp del: append_assoc)
    moreover have "cut (framer_next read_one) keep_all buf d = cut (framer_next read_one) keep_all b (d @ [value_of m])"
      using cut_keep [OF next_whole] Cons(2) b by simp
    ultimately have "m # ms = (m # ms1) @ ms2 \<and> buf = concat (map encode (m # ms1)) @ buf' \<and>
      cut (framer_next read_one) keep_all buf d = Some (None, buf', d @ map value_of (m # ms1)) \<and>
      (case ms2 of [] \<Rightarrow> True | m # _ \<Rightarrow> strict_prefix buf' (encode m))" using b by simp
    then show ?thesis by blast
  next
    case False
    then have "strict_prefix buf (encode m)"
      using Cons(4) by (auto simp: prefix_append strict_prefix_def)
    with Cons(2) have "partial buf" by (auto simp: partial_def)
    then have "m # ms = [] @ (m # ms) \<and> buf = concat (map encode []) @ buf \<and>
      cut (framer_next read_one) keep_all buf d = Some (None, buf, d @ map value_of []) \<and> strict_prefix buf (encode m)"
      using cut_partial \<open>strict_prefix buf (encode m)\<close> by simp
    then show ?thesis by (metis list.simps(5))
  qed
qed

text \<open>The whole loop ends, and delivers exactly the whole frames.\<close>

lemma loop_delivers:
  assumes "lively s" and "list_all fits ms" and "partial part" and "buf @ delivered s = concat (map encode ms) @ part"
  shows "read_loop (framer_next read_one) keep_all (\<lambda>_. False) k buf d s = Some (failure s, d @ map value_of ms)"
  using assms
proof (induction "framer_next read_one" "keep_all :: 'm \<Rightarrow> 'm list \<Rightarrow> bool \<times> 'm list" "\<lambda>_ :: nat. False" k buf d s arbitrary: ms rule: read_loop.induct)
  case (1 k buf d s)
  have "prefix buf (concat (map encode ms) @ part)" using 1(5) by (metis prefixI)
  from cut_frames [OF 1(3,4) this] obtain ms1 ms2 buf' where
    c: "ms = ms1 @ ms2" "buf = concat (map encode ms1) @ buf'" "cut (framer_next read_one) keep_all buf d = Some (None, buf', d @ map value_of ms1)"
      "case ms2 of [] \<Rightarrow> True | m # _ \<Rightarrow> strict_prefix buf' (encode m)" by metis
  then have rest: "buf' @ delivered s = concat (map encode ms2) @ part" "list_all fits ms2" using 1(3,5) by simp_all
  obtain r buf2 s2 where f: "fill s buf' = (r, buf2, s2)" by (metis prod_cases3)
  note fd = fill_delivers [OF 1(2) f]
  show ?case
  proof (cases r)
    case (Inr u)
    with fd rest have "lively s2" "buf2 @ delivered s2 = concat (map encode ms2) @ part" "failure s2 = failure s" by simp_all
    from 1(1) [OF c(3) refl refl refl _ f [symmetric] Inr refl this(1) rest(2) 1(4) this(2)] this(3) show ?thesis
      using c f Inr by (subst read_loop.simps) simp
  next
    case (Inl e)
    with fd have e: "e = failure s" "delivered s = []" by simp_all
    have "ms2 = []" using c(4) rest(1) e(2) by (cases ms2) (auto simp: strict_prefix_def)
    then show ?thesis using c f Inl e by (subst read_loop.simps) simp
  qed
qed

lemma writes_parts:
  "writes write_one ms w = (j, w') \<Longrightarrow>
     j \<le> length ms \<and> list_all fits (take j ms) \<and> (\<exists>part. wr_out w' = wr_out w @ concat (map encode (take j ms)) @ part \<and> partial part)"
proof (induction ms arbitrary: w j w')
  case (Cons m ms)
  obtain r w1 where r: "write_one m w = (r, w1)" by fastforce
  show ?case
  proof (cases r)
    case (Inl e)
    with Cons(2) r writes_one [OF r] show ?thesis by (auto simp: partial_def)
  next
    case (Inr u)
    obtain n w2 where n: "writes write_one ms w1 = (n, w2)" by fastforce
    from Cons(2) r Inr n writes_one [OF r] Cons(1) [OF n] show ?thesis by auto
  qed
qed (simp add: partial_def)

text \<open>Exactly the frames whose write succeeded are delivered, whole and in order.\<close>

lemma survives:
  assumes "writes write_one ms \<lparr>wr_out = [], wr_room = room\<rparr> = (j, w)" and "lively s" and "delivered s = wr_out w"
  shows "read_loop (framer_next read_one) keep_all (\<lambda>_. False) 0 [] [] s = Some (failure s, map value_of (take j ms))"
proof -
  from writes_parts [OF assms(1)] obtain part where "list_all fits (take j ms)" "partial part" "[] @ delivered s = concat (map encode (take j ms)) @ part"
    using assms(3) by auto
  from loop_delivers [OF assms(2) this] show ?thesis by simp
qed

end

subsection \<open>The two pipes\<close>

lemma write_all_parts: "write_all bs w = (r, w') \<Longrightarrow>
    (case r of Inr _ \<Rightarrow> wr_out w' = wr_out w @ bs | Inl _ \<Rightarrow> \<exists>part. strict_prefix part bs \<and> wr_out w' = wr_out w @ part)"
  by (auto simp: write_all_def strict_prefix_def take_is_prefix split: option.splits if_splits)

text \<open>The bytes of a control frame and of a media frame.\<close>

definition frame_bytes :: "('m \<Rightarrow> string + u8 list) \<Rightarrow> 'm \<Rightarrow> u8 list" where
  "frame_bytes to_vec m = (case to_vec m of Inr b \<Rightarrow> le_bytes 4 (word_of_nat (length b) :: u32) @ b | Inl _ \<Rightarrow> [])"

definition media_bytes :: "media_header \<times> u32 list \<Rightarrow> u8 list" where
  "media_bytes f = media_head (fst f) @ concat (map (le_bytes 4) (snd f))"

lemma frame_length: "length b \<le> MAX_FRAME \<Longrightarrow> unat (from_le_bytes (le_bytes 4 (word_of_nat (length b) :: u32)) :: u32) = length b"
  by (simp add: le_bytes_inverse MAX_FRAME_def unsigned_of_nat take_bit_nat_eq_self)

interpretation control_pipe: framing 4
  "\<lambda>h. let n = unat (from_le_bytes h :: u32) in if MAX_FRAME < n then Inl (TooLarge n) else Inr n"
  "\<lambda>h b. b" "frame_bytes to_vec" "\<lambda>m. case to_vec m of Inr b \<Rightarrow> b | Inl _ \<Rightarrow> []"
  "\<lambda>m. \<exists>b. to_vec m = Inr b \<and> length b \<le> MAX_FRAME" read_frame "write_frame to_vec" for to_vec
proof (unfold_locales, goal_cases)
  case (2 m)
  then obtain b where b: "to_vec m = Inr b" "length b \<le> MAX_FRAME" by blast
  then have "frame_bytes to_vec m = le_bytes 4 (word_of_nat (length b) :: u32) @ b" by (simp add: frame_bytes_def)
  with b frame_length [OF b(2)] show ?case
    by (intro exI [of _ "le_bytes 4 (word_of_nat (length b) :: u32)"] exI [of _ b]) (simp add: Let_def)
next
  case (3 s)
  show ?case by (simp add: read_frame_def Let_def split: prod.splits sum.splits)
next
  case (4 m w r w')
  then show ?case
    by (auto simp: write_frame_def frame_bytes_def Let_def dest!: write_all_parts split: sum.splits if_splits prod.splits)
qed simp

lemma samples_of_append: "length q = 4 \<Longrightarrow> samples_of (q @ bs) = from_le_bytes q # samples_of bs"
  by (auto simp: numeral_eq_Suc length_Suc_conv)

lemma samples_of_bytes [simp]: "samples_of (concat (map (le_bytes 4) ss)) = ss"
  by (induction ss) (simp_all add: samples_of_append le_bytes_inverse)

lemma sample_bytes_length [simp]: "length (concat (map (le_bytes 4) (ss :: u32 list))) = 4 * length ss"
  by (induction ss) simp_all

lemma parse_media_head: "header_samples h \<le> MAX_SAMPLES \<Longrightarrow> parse_head (media_head h) = Inr h"
  by (cases h) (simp add: parse_head_def media_head_def MAGIC_def VERSION_def le_bytes_inverse Let_def)

interpretation media_pipe: framing MEDIA_HEADER
  "\<lambda>h. case parse_head h of Inl e \<Rightarrow> Inl e | Inr x \<Rightarrow> Inr (4 * header_samples x)"
  "\<lambda>h b. (case parse_head h of Inr x \<Rightarrow> x | Inl _ \<Rightarrow> undefined, samples_of b)" media_bytes id
  "\<lambda>f. length (snd f) = header_samples (fst f) \<and> header_samples (fst f) \<le> MAX_SAMPLES" read_media "\<lambda>(h, ss). write_media h ss"
proof (unfold_locales, goal_cases)
  case (2 f)
  then show ?case
    by (intro exI [of _ "media_head (fst f)"] exI [of _ "concat (map (le_bytes 4) (snd f))"])
      (simp add: media_bytes_def parse_media_head, simp add: media_head_def MAGIC_def MEDIA_HEADER_def)
next
  case (3 s)
  show ?case by (simp add: read_media_def Let_def split: prod.splits sum.splits)
next
  case (4 f w r w')
  then show ?case
    by (cases f) (auto simp: write_media_def media_bytes_def dest!: write_all_parts split: sum.splits if_splits)
qed (simp add: MEDIA_HEADER_def)

lemma le_bytes_numeral: "le_bytes (numeral k) w = ucast w # le_bytes (pred_numeral k) (drop_bit 8 w)"
  by (simp add: numeral_eq_Suc)

text \<open>
  C29. Control frames survive the pipe: whatever messages are written until a write fails (a message
  too large, one that is not JSON, a pipe that takes only some of the bytes), and however the pipe cuts,
  interrupts and delays the bytes it took, the reader's loop ends with the stream and has delivered
  exactly the bodies of the messages whose write succeeded, whole and in order; the part of a frame that
  was cut off is never delivered.
\<close>

theorem control_frames_survive:
  assumes "writes (write_frame to_vec) ms \<lparr>wr_out = [], wr_room = room\<rparr> = (j, w)" and "lively s" and "delivered s = wr_out w"
  shows "\<exists>bodies. map to_vec (take j ms) = map Inr bodies \<and> read_loop next_frame keep_all (\<lambda>_. False) 0 [] [] s = Some (failure s, bodies)"
proof -
  have "list_all (\<lambda>m. \<exists>b. to_vec m = Inr b) (take j ms)"
    using control_pipe.writes_parts [OF assms(1)] by (auto simp: list_all_iff)
  then have "map to_vec (take j ms) = map Inr (map (\<lambda>m. case to_vec m of Inr b \<Rightarrow> b | Inl _ \<Rightarrow> []) (take j ms))"
    by (auto simp: list_all_iff)
  with control_pipe.survives [OF assms] show ?thesis unfolding next_frame_def by blast
qed

theorem control_frames_survive_witness:
  "read_loop next_frame keep_all (\<lambda>_. False) 0 [] [] [Chunk [2, 0], Interruption, Chunk [0, 0, 7, 8, 3], Timeout, Chunk [0, 0]] = Some (Closed, [[7, 8]])"
proof -
  have "writes (write_frame Inr) [[7, 8], [1, 2, 3]] \<lparr>wr_out = [], wr_room = Some 9\<rparr> = (1, \<lparr>wr_out = [2, 0, 0, 0, 7, 8, 3, 0, 0], wr_room = Some 0\<rparr>)"
    by (simp add: write_frame_def write_all_def MAX_FRAME_def le_bytes_numeral)
  from control_frames_survive [OF this, of "[Chunk [2, 0], Interruption, Chunk [0, 0, 7, 8, 3], Timeout, Chunk [0, 0]]"]
  show ?thesis by auto
qed

text \<open>
  Media frames survive the pipe: the same for frames of samples, whose headers and samples come back
  bit for bit; a frame whose samples do not match its header, or of more than \<open>MAX_SAMPLES\<close>, is not
  written at all.
\<close>

theorem media_frames_survive:
  assumes "writes (\<lambda>(h, ss). write_media h ss) fs \<lparr>wr_out = [], wr_room = room\<rparr> = (j, w)" and "lively s" and "delivered s = wr_out w"
  shows "read_loop next_media keep_all (\<lambda>_. False) 0 [] [] s = Some (failure s, take j fs)"
  using media_pipe.survives [OF assms] by (simp add: next_media_def)

end
