(* ===== verification/MediaProps.thy ===== *)
theory MediaProps
  imports Media FrameProps
begin

text \<open>
  The media path refines its specification: a delay line in a ring of \<open>TAPS\<close> values is the filter over
  everything that went in, the framers cut the decimated stream into numbered frames of 20 ms however
  the rings were drained, and what a listening client receives is that stream.
\<close>

subsection \<open>The filter over the whole past\<close>

definition fir :: "(nat \<times> f64) list \<Rightarrow> f64 list \<Rightarrow> f64" where
  "fir taps past = fsum (map (\<lambda>(j, h). h * (if j < length past then past ! j else 0)) taps)"

definition line_holds :: "f64 list \<Rightarrow> delay_line \<Rightarrow> bool" where
  "line_holds past l \<longleftrightarrow> length (li_hist l) = TAPS \<and> li_pos l < TAPS \<and>
     (\<forall>j < TAPS. li_hist l ! ((li_pos l + j) mod TAPS) = (if j < length past then past ! j else 0))"

lemma line_new_holds: "line_holds [] line_new"
  by (simp add: line_holds_def line_new_def TAPS_def)

lemma ring_index:
  assumes "p < TAPS" and "Suc j < TAPS"
  shows "((p + TAPS - 1) mod TAPS + Suc j) mod TAPS = (p + j) mod TAPS" and "(p + j) mod TAPS \<noteq> (p + TAPS - 1) mod TAPS"
proof -
  have "((p + TAPS - 1) mod TAPS + Suc j) mod TAPS = (p + TAPS - 1 + Suc j) mod TAPS" by (rule mod_add_left_eq)
  also have "p + TAPS - 1 + Suc j = p + j + TAPS" using assms by simp
  finally show "((p + TAPS - 1) mod TAPS + Suc j) mod TAPS = (p + j) mod TAPS" by simp
  show "(p + j) mod TAPS \<noteq> (p + TAPS - 1) mod TAPS"
  proof (cases p)
    case 0
    then show ?thesis using assms by simp
  next
    case (Suc q)
    then have "(p + TAPS - 1) mod TAPS = q" using assms(1) by (simp add: mod_add_self2 [of q TAPS, simplified add.commute])
    moreover have "(p + j) mod TAPS = (if p + j < TAPS then p + j else p + j - TAPS)"
      using assms by (auto simp: mod_if)
    ultimately show ?thesis using assms Suc by (auto split: if_splits)
  qed
qed

lemma line_push_holds:
  assumes "line_holds past l"
  shows "line_holds (x # past) (line_push x l)"
proof -
  let ?p = "(li_pos l + TAPS - 1) mod TAPS"
  have p: "?p < TAPS" "li_pos l < TAPS" "length (li_hist l) = TAPS" using assms by (simp_all add: line_holds_def TAPS_def)
  have "(li_hist l)[?p := x] ! ((?p + j) mod TAPS) = (if j < length (x # past) then (x # past) ! j else 0)" if "j < TAPS" for j
  proof (cases j)
    case 0
    then show ?thesis using p by simp
  next
    case (Suc k)
    with that ring_index [OF p(2), of k] assms show ?thesis by (simp add: line_holds_def)
  qed
  with p show ?thesis by (simp add: line_holds_def line_push_def Let_def)
qed

lemma line_dot_fir:
  assumes "line_holds past l" and "list_all (\<lambda>(j, _). j < TAPS) taps"
  shows "line_dot taps l = fir taps past"
proof -
  have "0 < TAPS" by (simp add: TAPS_def)
  with assms show ?thesis
    unfolding line_dot_def fir_def
    by (intro arg_cong [of _ _ fsum] map_cong) (auto simp: list_all_iff line_holds_def lget_def)
qed

lemma nonzero_taps: "list_all (\<lambda>(j, _). j < TAPS) (nonzero lm)"
  by (auto simp: list_all_iff nonzero_def half_band_def Let_def in_set_enumerate_eq)

subsection \<open>The decimated stream\<close>

definition decimated :: "(nat \<times> f64) list \<Rightarrow> (f64 \<times> f64) list \<Rightarrow> nat \<Rightarrow> f32 list" where
  "decimated taps xs i =
     (let past = rev (take (Suc (2 * i)) xs) in [as_f32 (fir taps (map fst past)), as_f32 (fir taps (map snd past))])"

text \<open>Every second pair of samples, filtered, as interleaved singles.\<close>

definition decimate :: "libm \<Rightarrow> (f64 \<times> f64) list \<Rightarrow> f32 list" where
  "decimate lm xs = concat (map (decimated (nonzero lm) xs) [0..<(length xs + 1) div 2])"

lemma decimated_take: "Suc (2 * i) \<le> length xs \<Longrightarrow> decimated taps (xs @ ys) i = decimated taps xs i"
  by (simp add: decimated_def)

lemma decimate_snoc:
  "decimate lm (xs @ [x]) = decimate lm xs @ (if even (length xs) then decimated (nonzero lm) (xs @ [x]) (length xs div 2) else [])"
proof (cases "even (length xs)")
  case True
  then obtain n where n: "length xs = 2 * n" by blast
  then have "map (decimated (nonzero lm) (xs @ [x])) [0..<n] = map (decimated (nonzero lm) xs) [0..<n]"
    by (intro map_cong) (simp_all add: decimated_take)
  with n show ?thesis by (simp add: decimate_def del: map_eq_conv)
next
  case False
  then obtain n where n: "length xs = 2 * n + 1" by (rule oddE)
  then have "map (decimated (nonzero lm) (xs @ [x])) [0..<Suc n] = map (decimated (nonzero lm) xs) [0..<Suc n]"
    by (intro map_cong) (auto simp add: decimated_take)
  with n show ?thesis by (simp add: decimate_def del: upt_Suc map_eq_conv)
qed

lemma decimate_even: "even (length (decimate lm xs))"
  by (induction xs rule: rev_induct) (simp_all add: decimate_snoc, simp_all add: decimate_def decimated_def Let_def)

subsection \<open>Frames of 20 ms\<close>

definition FRAME :: nat where "FRAME = 2 * FRAME_48K"

definition tap_header :: "u8 \<Rightarrow> nat \<Rightarrow> media_header" where
  "tap_header st k = \<lparr>mh_stream = st, mh_channels = 2, mh_seq = word_of_nat k, mh_frames = word_of_nat FRAME_48K\<rparr>"

definition chunks :: "'a list \<Rightarrow> 'a list list" where
  "chunks ys = map (\<lambda>k. take FRAME (drop (FRAME * k) ys)) [0..<length ys div FRAME]"

definition tap_frames :: "libm \<Rightarrow> u8 \<Rightarrow> (f64 \<times> f64) list \<Rightarrow> media_frame list" where
  "tap_frames lm st xs = map (\<lambda>(k, c). (tap_header st k, c)) (enumerate 0 (chunks (decimate lm xs)))"

definition left_over :: "'a list \<Rightarrow> 'a list" where
  "left_over ys = drop (FRAME * (length ys div FRAME)) ys"

lemma FRAME_pos: "0 < FRAME"
  by (simp add: FRAME_def FRAME_48K_def)

text \<open>A list as \<open>q\<close> whole frames and \<open>r\<close> values more.\<close>

lemma frame_split: obtains q r where "length ys = FRAME * q + r" and "r < FRAME"
  using mult_div_mod_eq [of FRAME "length ys"] mod_less_divisor [OF FRAME_pos] by metis

lemma whole_frames: "r < FRAME \<Longrightarrow> (FRAME * q + r) div FRAME = q"
  using FRAME_pos by simp

lemma left_over_length: "length (left_over ys) = length ys mod FRAME"
  by (simp add: left_over_def minus_mult_div_eq_mod)

lemma chunks_append:
  assumes "length ys = FRAME * q + r" and "r < FRAME"
  shows "map (\<lambda>k. take FRAME (drop (FRAME * k) (ys @ zs))) [0..<q] = chunks ys"
proof -
  have "FRAME * k + FRAME \<le> length ys" if "k < q" for k
    using mult_le_mono2 [of "Suc k" q FRAME] that assms(1) by simp
  then have "take FRAME (drop (FRAME * k) (ys @ zs)) = take FRAME (drop (FRAME * k) ys)" if "k < q" for k
    using that by fastforce
  then show ?thesis using assms by (simp add: chunks_def whole_frames)
qed

lemma chunks_keep:
  assumes "length (left_over ys) + length zs < FRAME"
  shows "chunks (ys @ zs) = chunks ys" and "left_over (ys @ zs) = left_over ys @ zs" and "length (ys @ zs) div FRAME = length ys div FRAME"
proof -
  obtain q r where q: "length ys = FRAME * q + r" "r < FRAME" by (rule frame_split)
  then have "r + length zs < FRAME" using assms by (simp add: left_over_length)
  from whole_frames [OF this, of q] q have d: "(length ys + length zs) div FRAME = q" "length ys div FRAME = q" by (simp_all add: whole_frames add.assoc)
  from d chunks_append [OF q] show "chunks (ys @ zs) = chunks ys" by (simp add: chunks_def)
  from d q show "left_over (ys @ zs) = left_over ys @ zs" "length (ys @ zs) div FRAME = length ys div FRAME" by (simp_all add: left_over_def)
qed

lemma chunks_full:
  assumes "length (left_over ys) + length zs = FRAME"
  shows "chunks (ys @ zs) = chunks ys @ [left_over ys @ zs]" and "left_over (ys @ zs) = []" and "length (ys @ zs) div FRAME = Suc (length ys div FRAME)"
proof -
  obtain q r where q: "length ys = FRAME * q + r" "r < FRAME" by (rule frame_split)
  then have e: "length ys + length zs = FRAME * Suc q" using assms by (simp add: left_over_length)
  have d: "(length ys + length zs) div FRAME = Suc q" "length ys div FRAME = q" unfolding e using FRAME_pos q by (simp_all only: whole_frames) simp
  show "length (ys @ zs) div FRAME = Suc (length ys div FRAME)" using d by simp
  have "take FRAME (drop (FRAME * q) (ys @ zs)) = left_over ys @ zs" using assms q d by (simp add: left_over_def)
  with d chunks_append [OF q] show "chunks (ys @ zs) = chunks ys @ [left_over ys @ zs]" by (simp add: chunks_def)
  show "left_over (ys @ zs) = []" using d e by (simp add: left_over_def)
qed

lemma chunks_length [simp]: "length (chunks ys) = length ys div FRAME"
  by (simp add: chunks_def)

lemma even_room: "even a \<Longrightarrow> even b \<Longrightarrow> a < b \<Longrightarrow> Suc (Suc a) \<le> (b :: nat)"
  by presburger

text \<open>What a framer holds after the pairs \<open>xs\<close>.\<close>

definition framer_holds :: "libm \<Rightarrow> u8 \<Rightarrow> (f64 \<times> f64) list \<Rightarrow> tap_framer \<Rightarrow> bool" where
  "framer_holds lm st xs f \<longleftrightarrow>
     tf_stream f = st \<and> de_taps (tf_dec f) = nonzero lm \<and> de_skip (tf_dec f) = odd (length xs) \<and>
     line_holds (rev (map fst xs)) (fst (de_lines (tf_dec f))) \<and> line_holds (rev (map snd xs)) (snd (de_lines (tf_dec f))) \<and>
     tf_buf f = left_over (decimate lm xs) \<and> tf_seq f = word_of_nat (length (decimate lm xs) div FRAME)"

lemma framer_new_holds: "framer_holds lm st [] (framer_new lm st)"
  by (simp add: framer_holds_def framer_new_def decimator_new_def line_new_holds decimate_def left_over_def)

lemma feed_pair_holds:
  assumes "framer_holds lm st xs f" and "feed_pair l r f = (out, f')"
  shows "framer_holds lm st (xs @ [(l, r)]) f' \<and> tap_frames lm st (xs @ [(l, r)]) = tap_frames lm st xs @ out"
proof -
  let ?d = "tf_dec f" and ?ys = "decimate lm xs" and ?zs = "decimated (nonzero lm) (xs @ [(l, r)]) (length xs div 2)"
  note h = assms(1) [unfolded framer_holds_def]
  have a: "line_holds (l # rev (map fst xs)) (line_push l (fst (de_lines ?d)))" "line_holds (r # rev (map snd xs)) (line_push r (snd (de_lines ?d)))"
    using h line_push_holds by blast+
  note dots = line_dot_fir [OF a(1) nonzero_taps] line_dot_fir [OF a(2) nonzero_taps]
  show ?thesis
  proof (cases "even (length xs)")
    case False
    then have "feed_pair l r f = ([], f\<lparr>tf_dec := ?d\<lparr>de_lines := (line_push l (fst (de_lines ?d)), line_push r (snd (de_lines ?d))), de_skip := False\<rparr>\<rparr>)"
      using h by (simp add: feed_pair_def decimator_push_def Let_def)
    with assms(2) False h a show ?thesis by (auto simp: framer_holds_def decimate_snoc tap_frames_def)
  next
    case True
    then have zs: "?zs = [as_f32 (line_dot (nonzero lm) (line_push l (fst (de_lines ?d)))), as_f32 (line_dot (nonzero lm) (line_push r (snd (de_lines ?d))))]"
      by (auto simp: decimated_def dots rev_map)
    have small: "length (left_over ?ys) + length ?zs \<le> FRAME"
    proof -
      have "even (length ?ys mod FRAME)" using decimate_even by (auto simp: FRAME_def dvd_mod)
      moreover have "length ?ys mod FRAME < FRAME" "even FRAME" by (simp_all add: FRAME_def FRAME_48K_def)
      ultimately have "Suc (Suc (length ?ys mod FRAME)) \<le> FRAME" by (simp add: even_room)
      then show ?thesis by (simp add: left_over_length zs)
    qed
    show ?thesis
    proof (cases "length (left_over ?ys) + length ?zs = FRAME")
      case eq: True
      from chunks_full [OF this] assms(2) h a zs True eq show ?thesis
        by (auto simp: feed_pair_def decimator_push_def Let_def framer_holds_def decimate_snoc tap_frames_def enumerate_append_eq tap_header_def FRAME_def)
    next
      case False
      with small have lt: "length (left_over ?ys) + length ?zs < FRAME" by simp
      from chunks_keep [OF lt] assms(2) h a zs True lt show ?thesis
        by (auto simp: feed_pair_def decimator_push_def Let_def framer_holds_def decimate_snoc tap_frames_def FRAME_def)
    qed
  qed
qed

fun pairs :: "'a list \<Rightarrow> ('a \<times> 'a) list" where
  "pairs (a # b # xs) = (a, b) # pairs xs"
| "pairs _ = []"

lemma framer_feed_holds:
  "framer_holds lm st xs f \<Longrightarrow> framer_feed zs f = (out, f') \<Longrightarrow>
     framer_holds lm st (xs @ pairs zs) f' \<and> tap_frames lm st (xs @ pairs zs) = tap_frames lm st xs @ out"
proof (induction zs f arbitrary: xs out f' rule: framer_feed.induct)
  case (1 l r zs f)
  obtain o1 f1 where a: "feed_pair l r f = (o1, f1)" by fastforce
  obtain o2 f2 where b: "framer_feed zs f1 = (o2, f2)" by fastforce
  note h = feed_pair_holds [OF 1(2) a]
  from 1(1) [OF a [symmetric] refl conjunct1 [OF h] b] h 1(3) show ?case by (simp add: a b)
qed simp_all

subsection \<open>The media thread\<close>

abbreviation sent :: "media_frame \<Rightarrow> media_header \<times> u32 list" where
  "sent f \<equiv> (fst f, map f32_bits (snd f))"

lemma writes_append:
  "writes f (ms @ ns) w =
     (let (j, w') = writes f ms w in if j = length ms then (let (k, w'') = writes f ns w' in (j + k, w'')) else (j, w'))"
  by (induction ms arbitrary: w) (auto simp: Let_def split: prod.splits sum.splits if_splits)

lemma send_frames_writes:
  "send_frames fs w = (let (j, w') = writes (\<lambda>(h, ss). write_media h ss) (map sent fs) w in (j = length fs, w'))"
  by (induction fs arbitrary: w) (auto simp: Let_def split: prod.splits sum.splits)

text \<open>The four framers after the pairs \<open>xss\<close> went through each.\<close>

definition framers_hold :: "libm \<Rightarrow> u8 list \<Rightarrow> (f64 \<times> f64) list list \<Rightarrow> tap_framer list \<Rightarrow> bool" where
  "framers_hold lm sts xss fs \<longleftrightarrow> length xss = length sts \<and> length fs = length sts \<and>
     (\<forall>k < length sts. framer_holds lm (sts ! k) (xss ! k) (fs ! k))"

lemma framers_hold_Cons [simp]:
  "framers_hold lm (st # sts) (xs # xss) (f # fs) \<longleftrightarrow> framer_holds lm st xs f \<and> framers_hold lm sts xss fs"
  by (auto simp: framers_hold_def All_less_Suc2)

abbreviation of_stream :: "u8 \<Rightarrow> (media_header \<times> 'a) list \<Rightarrow> (media_header \<times> 'a) list" where
  "of_stream st \<equiv> filter (\<lambda>f. mh_stream (fst f) = st)"

lemma tap_frames_stream: "f \<in> set (tap_frames lm st xs) \<Longrightarrow> mh_stream (fst f) = st"
  by (auto simp: tap_frames_def tap_header_def)

lemma of_stream_all: "(\<And>f. f \<in> set out \<Longrightarrow> mh_stream (fst f) = st) \<Longrightarrow> of_stream t out = (if t = st then out else [])"
  by (auto simp: filter_id_conv filter_empty_conv)

lemma feed_all_holds:
  assumes "framers_hold lm sts xss fs" and "length taps = length sts" and "distinct sts" and "feed_all taps fs = (out, fs')"
  shows "framers_hold lm sts (map2 (\<lambda>xs zs. xs @ pairs zs) xss taps) fs' \<and>
    (\<forall>k < length sts. tap_frames lm (sts ! k) (xss ! k @ pairs (taps ! k)) = tap_frames lm (sts ! k) (xss ! k) @ of_stream (sts ! k) out) \<and>
    (\<forall>f \<in> set out. mh_stream (fst f) \<in> set sts)"
  using assms
proof (induction sts arbitrary: xss fs taps out fs')
  case Nil
  then show ?case by (auto simp: framers_hold_def)
next
  case (Cons st sts)
  from Cons(2,3) obtain xs xss' f fs0 zs taps' where c: "xss = xs # xss'" "fs = f # fs0" "taps = zs # taps'"
    by (auto simp: framers_hold_def length_Suc_conv)
  obtain o1 f1 where a: "framer_feed zs f = (o1, f1)" by fastforce
  obtain o2 fs1 where b: "feed_all taps' fs0 = (o2, fs1)" by fastforce
  have h: "framer_holds lm st xs f" "framers_hold lm sts xss' fs0" using Cons(2) c by simp_all
  note fh = framer_feed_holds [OF h(1) a]
  note ih = Cons(1) [OF h(2) _ _ b]
  have s1: "mh_stream (fst g) = st" if "g \<in> set o1" for g
    using fh that tap_frames_stream [of g lm st "xs @ pairs zs"] by simp
  have e: "out = o1 @ o2" "fs' = f1 # fs1" using Cons(5) c a b by simp_all
  have ih': "framers_hold lm sts (map2 (\<lambda>xs zs. xs @ pairs zs) xss' taps') fs1"
    "\<forall>k < length sts. tap_frames lm (sts ! k) (xss' ! k @ pairs (taps' ! k)) = tap_frames lm (sts ! k) (xss' ! k) @ of_stream (sts ! k) o2"
    "\<forall>f \<in> set o2. mh_stream (fst f) \<in> set sts" using ih Cons(3,4) c by simp_all
  have "of_stream st o2 = []" using ih'(3) Cons(4) by (auto simp: filter_empty_conv)
  moreover have "of_stream t o1 = (if t = st then o1 else [])" for t by (rule of_stream_all) (rule s1)
  moreover have "sts ! k \<noteq> st" if "k < length sts" for k using Cons(4) that by (metis distinct.simps(2) nth_mem)
  ultimately show ?case using fh ih' c e s1
    by (auto simp: All_less_Suc2)
qed

definition STREAMS :: "u8 list" where
  "STREAMS = [ENGINEER_LISTEN, MEMBER_LISTEN, ENGINEER_PROBE, MEMBER_PROBE]"

lemma streams_distinct: "distinct STREAMS" "length STREAMS = 4"
  by (simp_all add: STREAMS_def ENGINEER_LISTEN_def MEMBER_LISTEN_def ENGINEER_PROBE_def MEMBER_PROBE_def)

text \<open>What went through tap \<open>k\<close> in the turns so far.\<close>

definition heard :: "f32 list list list \<Rightarrow> nat \<Rightarrow> (f64 \<times> f64) list" where
  "heard turns k = concat (map (\<lambda>t. pairs (t ! k)) turns)"

definition turn_ok :: "f32 list list \<Rightarrow> bool" where
  "turn_ok t \<longleftrightarrow> length t = 4 \<and> list_all (\<lambda>xs. even (length xs) \<and> length xs \<le> TAP_RING) t"

text \<open>One client from the start: the frames so far, and how many its pipe took.\<close>

definition pumped :: "libm \<Rightarrow> nat option \<Rightarrow> f32 list list list \<Rightarrow> media_frame list \<Rightarrow> nat \<Rightarrow> writer \<Rightarrow> pump \<Rightarrow> bool" where
  "pumped lm room turns fs j w p \<longleftrightarrow>
     framers_hold lm STREAMS (map (heard turns) [0..<4]) (pu_framers p) \<and>
     (\<forall>k < 4. tap_frames lm (STREAMS ! k) (heard turns k) = of_stream (STREAMS ! k) fs) \<and> (\<forall>f \<in> set fs. mh_stream (fst f) \<in> set STREAMS) \<and>
     writes (\<lambda>(h, ss). write_media h ss) (map sent fs) \<lparr>wr_out = [], wr_room = room\<rparr> = (j, w) \<and> j \<le> length fs \<and>
     (if j = length fs then pu_current p = Some \<lparr>mc_writer = w, mc_closed = False\<rparr> \<and> pu_gone p = []
      else pu_current p = None \<and> pu_gone p = [\<lparr>mc_writer = w, mc_closed = True\<rparr>])"

lemma pumped_start:
  "pumped lm room [] [] 0 \<lparr>wr_out = [], wr_room = room\<rparr> (take_conn \<lparr>mc_writer = \<lparr>wr_out = [], wr_room = room\<rparr>, mc_closed = False\<rparr> (pump_new lm))"
  by (simp add: pumped_def take_conn_def retire_def pump_new_def heard_def STREAMS_def framers_hold_def framer_new_holds
      nth_Cons' tap_frames_def decimate_def chunks_def upt_rec)

lemma pumped_turn:
  assumes "pumped lm room turns fs j w p" and "turn_ok t"
  shows "\<exists>fs' j' w'. pumped lm room (turns @ [t]) fs' j' w' (pump_turn [] t p)"
proof -
  note inv = assms(1) [unfolded pumped_def]
  obtain out frs where f: "feed_all t (pu_framers p) = (out, frs)" by fastforce
  have t: "map (take TAP_RING) t = t" "length t = 4" using assms(2) by (auto simp: turn_ok_def list_all_iff intro: map_idI)
  have "length t = length STREAMS" using t(2) by (simp add: streams_distinct)
  note fa = feed_all_holds [OF conjunct1 [OF inv] this streams_distinct(1) f]
  have h: "map2 (\<lambda>xs zs. xs @ pairs zs) (map (heard turns) [0..<4]) t = map (heard (turns @ [t])) [0..<4]"
    using t(2) by (intro nth_equalityI) (simp_all add: heard_def)
  have hold: "framers_hold lm STREAMS (map (heard (turns @ [t])) [0..<4]) frs" using fa h by simp
  have taps: "\<forall>k < 4. tap_frames lm (STREAMS ! k) (heard (turns @ [t]) k) = of_stream (STREAMS ! k) (fs @ out)"
    using fa inv by (simp add: streams_distinct heard_def)
  have st: "\<forall>f \<in> set (fs @ out). mh_stream (fst f) \<in> set STREAMS" using fa inv by auto
  show ?thesis
  proof (cases "j = length fs")
    case True
    obtain k w2 where w2: "writes (\<lambda>(h, ss). write_media h ss) (map sent out) w = (k, w2)" by fastforce
    have "k \<le> length out" using media_pipe.writes_parts [OF w2] by simp
    with True inv hold taps st f t w2 have "pumped lm room (turns @ [t]) (fs @ out) (j + k) w2 (pump_turn [] t p)"
      by (auto simp: pumped_def pump_turn_def Let_def send_frames_writes writes_append retire_def)
    then show ?thesis by blast
  next
    case False
    with inv hold taps st f t have "pumped lm room (turns @ [t]) (fs @ out) j w (pump_turn [] t p)"
      by (auto simp: pumped_def pump_turn_def Let_def writes_append)
    then show ?thesis by blast
  qed
qed

lemma pumped_run:
  "list_all turn_ok turns \<Longrightarrow> \<exists>fs j w. pumped lm room turns fs j w
     (fold (pump_turn []) turns (take_conn \<lparr>mc_writer = \<lparr>wr_out = [], wr_room = room\<rparr>, mc_closed = False\<rparr> (pump_new lm)))"
proof (induction turns rule: rev_induct)
  case Nil
  then show ?case using pumped_start by fastforce
next
  case (snoc t turns)
  then obtain fs j w where "pumped lm room turns fs j w (fold (pump_turn []) turns (take_conn \<lparr>mc_writer = \<lparr>wr_out = [], wr_room = room\<rparr>, mc_closed = False\<rparr> (pump_new lm)))"
    by auto
  from pumped_turn [OF this] snoc(2) show ?case by simp
qed

subsection \<open>From the tap to the client\<close>

lemma tap_frames_fit: "f \<in> set (tap_frames lm st xs) \<Longrightarrow> length (snd f) = header_samples (fst f) \<and> header_samples (fst f) \<le> MAX_SAMPLES"
proof -
  assume "f \<in> set (tap_frames lm st xs)"
  then obtain k c where f: "f = (tap_header st k, c)" "c \<in> set (chunks (decimate lm xs))"
    by (auto simp: tap_frames_def in_set_enumerate_eq)
  then obtain i where i: "i < length (decimate lm xs) div FRAME" "c = take FRAME (drop (FRAME * i) (decimate lm xs))"
    by (auto simp: chunks_def)
  then have "FRAME * Suc i \<le> length (decimate lm xs)"
    by (metis Suc_leI div_times_less_eq_dividend le_trans mult.commute mult_le_mono2)
  then have "length c = FRAME" using i(2) by simp
  moreover have "header_samples (tap_header st k) = FRAME"
    by (simp add: header_samples_def tap_header_def FRAME_48K_def FRAME_def)
  ultimately show ?thesis using f(1) by (simp add: MAX_SAMPLES_def FRAME_def FRAME_48K_def)
qed

lemma writes_unbounded:
  "list_all (\<lambda>f. length (snd f) = header_samples (fst f) \<and> header_samples (fst f) \<le> MAX_SAMPLES) fs \<Longrightarrow> wr_room w = None \<Longrightarrow>
     fst (writes (\<lambda>(h, ss). write_media h ss) (map sent fs) w) = length fs"
  by (induction fs arbitrary: w) (auto simp: write_media_def write_all_def Let_def case_prod_unfold)

lemma pairs_append: "even (length xs) \<Longrightarrow> pairs (xs @ ys) = pairs xs @ pairs ys"
  by (induction xs rule: pairs.induct) auto

lemma pairs_concat: "list_all turn_ok turns \<Longrightarrow> k < 4 \<Longrightarrow> pairs (concat (map (\<lambda>t. t ! k) turns)) = heard turns k"
  by (induction turns) (auto simp: heard_def turn_ok_def list_all_iff pairs_append)

definition conn_of :: "pump \<Rightarrow> media_conn" where
  "conn_of p = (case pu_current p of Some c \<Rightarrow> c | None \<Rightarrow> last (pu_gone p))"

text \<open>
  C28. A listening client receives what the taps held: whatever the media thread found in the rings at
  each turn, and however the client's pipe cuts, delays or breaks off the bytes, a client connected from
  the start reads of each of the four streams an initial piece of the frames of that tap's whole signal
  (the half-band filter over everything the tap held, every second value, 20 ms to a frame, numbered from
  0 without a gap), bit for bit, and all of them when the pipe takes every byte.
\<close>

theorem listeners_hear_taps:
  assumes "list_all turn_ok turns"
    and "p = fold (pump_turn []) turns (take_conn \<lparr>mc_writer = \<lparr>wr_out = [], wr_room = room\<rparr>, mc_closed = False\<rparr> (pump_new lm))"
    and "lively s" and "delivered s = wr_out (mc_writer (conn_of p))"
  shows "\<exists>got. read_loop next_media keep_all (\<lambda>_. False) 0 [] [] s = Some (failure s, got) \<and>
    (\<forall>k < 4. prefix (of_stream (STREAMS ! k) got) (map sent (tap_frames lm (STREAMS ! k) (pairs (concat (map (\<lambda>t. t ! k) turns))))) \<and>
      (room = None \<longrightarrow> of_stream (STREAMS ! k) got = map sent (tap_frames lm (STREAMS ! k) (pairs (concat (map (\<lambda>t. t ! k) turns))))))"
proof -
  obtain fs j w where "pumped lm room turns fs j w p" using pumped_run [OF assms(1)] assms(2) by blast
  note inv = this [unfolded pumped_def]
  have w: "mc_writer (conn_of p) = w" using inv by (auto simp: conn_of_def split: if_splits)
  have "writes (\<lambda>(h, ss). write_media h ss) (map sent fs) \<lparr>wr_out = [], wr_room = room\<rparr> = (j, w)" using inv by blast
  from media_pipe.survives [OF this assms(3)] assms(4) w
  have got: "read_loop next_media keep_all (\<lambda>_. False) 0 [] [] s = Some (failure s, map sent (take j fs))"
    by (simp add: next_media_def take_map)
  have all: "j = length fs" if "room = None"
  proof -
    have "list_all (\<lambda>f. length (snd f) = header_samples (fst f) \<and> header_samples (fst f) \<le> MAX_SAMPLES) fs"
    proof (unfold list_all_iff, rule ballI)
      fix f assume "f \<in> set fs"
      moreover from this inv obtain k where "k < 4" "mh_stream (fst f) = STREAMS ! k" by (metis in_set_conv_nth streams_distinct(2))
      ultimately have "f \<in> set (tap_frames lm (STREAMS ! k) (heard turns k))" using inv by auto
      then show "length (snd f) = header_samples (fst f) \<and> header_samples (fst f) \<le> MAX_SAMPLES" by (rule tap_frames_fit)
    qed
    from writes_unbounded [OF this, of "\<lparr>wr_out = [], wr_room = room\<rparr>"] that inv show ?thesis by simp
  qed
  have "prefix (of_stream (STREAMS ! k) (map sent (take j fs))) (map sent (tap_frames lm (STREAMS ! k) (pairs (concat (map (\<lambda>t. t ! k) turns))))) \<and>
      (room = None \<longrightarrow> of_stream (STREAMS ! k) (map sent (take j fs)) = map sent (tap_frames lm (STREAMS ! k) (pairs (concat (map (\<lambda>t. t ! k) turns)))))"
    if "k < 4" for k
  proof -
    have e: "tap_frames lm (STREAMS ! k) (pairs (concat (map (\<lambda>t. t ! k) turns))) = of_stream (STREAMS ! k) fs"
      using inv that by (simp add: pairs_concat [OF assms(1)])
    have "prefix (of_stream (STREAMS ! k) (take j fs)) (of_stream (STREAMS ! k) fs)"
      by (rule filter_mono_prefix) (rule take_is_prefix)
    with e all show ?thesis by (auto simp: filter_map o_def map_mono_prefix)
  qed
  with got show ?thesis by blast
qed

lemma decimate_length: "length (decimate lm xs) = 2 * ((length xs + 1) div 2)"
proof -
  have "length (decimated (nonzero lm) xs i) = 2" for i by (simp add: decimated_def Let_def)
  then show ?thesis by (simp add: decimate_def length_concat o_def sum_list_triv)
qed

lemma tap_frames_length: "length (tap_frames lm st xs) = 2 * ((length xs + 1) div 2) div FRAME"
  by (simp add: tap_frames_def decimate_length)

lemma pairs_length: "length (pairs xs) = length xs div 2"
  by (induction xs rule: pairs.induct) simp_all

theorem listeners_hear_taps_witness:
  "\<exists>s got. read_loop next_media keep_all (\<lambda>_. False) 0 [] [] s = Some (Closed, got) \<and> length (of_stream (STREAMS ! 1) got) = 1"
proof -
  define zs :: "f32 list" where "zs = replicate 3840 0"
  define turns where "turns = [[zs, zs, zs, zs]]"
  define p where "p = fold (pump_turn []) turns (take_conn \<lparr>mc_writer = \<lparr>wr_out = [], wr_room = None\<rparr>, mc_closed = False\<rparr> (pump_new demo_libm))"
  define s where "s = slice (wr_out (mc_writer (conn_of p)))"
  have z: "length zs = 3840" by (simp add: zs_def)
  have s: "lively s" "delivered s = wr_out (mc_writer (conn_of p))" "failure s = Closed" by (simp_all add: s_def slice_def)
  have "list_all turn_ok turns" by (simp add: turns_def turn_ok_def TAP_RING_def z)
  from listeners_hear_taps [OF this p_def s(1,2)] obtain got where
    g: "read_loop next_media keep_all (\<lambda>_. False) 0 [] [] s = Some (failure s, got)"
    and all: "\<forall>k < 4. prefix (of_stream (STREAMS ! k) got) (map sent (tap_frames demo_libm (STREAMS ! k) (pairs (concat (map (\<lambda>t. t ! k) turns))))) \<and>
      ((None :: nat option) = None \<longrightarrow> of_stream (STREAMS ! k) got = map sent (tap_frames demo_libm (STREAMS ! k) (pairs (concat (map (\<lambda>t. t ! k) turns)))))"
    by (elim exE conjE) (rule that)
  have "1 < (4 :: nat)" by simp
  note k = all [THEN spec, THEN mp, OF this, THEN conjunct2, THEN mp, OF refl]
  have "concat (map (\<lambda>t. t ! 1) turns) = zs" by (simp add: turns_def)
  then have "length (tap_frames demo_libm (STREAMS ! 1) (pairs (concat (map (\<lambda>t. t ! 1) turns)))) = 1"
    by (simp only: tap_frames_length pairs_length z) (simp add: FRAME_def FRAME_48K_def)
  then have "length (of_stream (STREAMS ! 1) got) = 1" by (simp only: k length_map)
  with g [unfolded s(3)] show ?thesis by (intro exI conjI)
qed

end
