(* ===== verification/View.thy ===== *)
theory View
  imports Mirror Roster
begin

text \<open>
  What a page sees and may change: the site as the UI sees it (\<open>iem-server/src/site_view.rs\<close>), and the
  channels, updates and commands of a page with the server's permissions (\<open>view.rs\<close>). The engine's ids are
  lower-case ASCII, so their upper case is the ASCII one. A message of \<open>BadValue\<close> is kept as what it names.
\<close>

subsection \<open>The site as the UI sees it\<close>

record input_view =
  iv_id :: input_id
  iv_name :: string
  iv_category :: string
  iv_owner :: "string option"
  iv_group :: "group_id option"

record mix_view_info =
  mv_id :: mix_id
  mv_name :: string
  mv_member :: "string option"
  mv_hears :: "mix_id list"
  mv_mono :: bool

record page =
  pg_id :: string
  pg_name :: string
  pg_mix :: mix_id
  pg_member :: "string option"

record site_view =
  sv_members :: "site_member list"
  sv_inputs :: "input_view list"
  sv_mixes :: "mix_view_info list"
  sv_group :: "group_id option"
  sv_engineer_mix :: "mix_id option"
  sv_leaders :: "string list"
  sv_people :: "person_view list"
  sv_vacant :: "mix_id list"
  sv_foreign_inputs :: "input_id list"

definition ascii_upper :: "char \<Rightarrow> char" where
  "ascii_upper c = (let n = of_char c :: nat in if 97 \<le> n \<and> n \<le> 122 then char_of (n - 32) else c)"

fun title :: "string \<Rightarrow> string" where
  "title [] = []"
| "title (c # cs) = ascii_upper c # cs"

definition known_members :: "topology_info \<Rightarrow> site_member list \<Rightarrow> site_member list" where
  "known_members topo ms = filter (\<lambda>m. list_ex (\<lambda>x. mi_id x = sb_mix m) (ti_mixes topo)) ms"

definition input_meta :: "config \<Rightarrow> input_id \<Rightarrow> site_input_meta option" where
  "input_meta cf i = find (\<lambda>m. sn_id m = i) (cf_inputs cf)"

definition view_input :: "config \<Rightarrow> lineup option \<Rightarrow> input_info \<Rightarrow> input_view" where
  "view_input cf lineup i =
     (let meta = input_meta cf (ii_id i);
          category = (if ii_group i \<noteq> None then ''stems''
                      else or_default ''mics'' (Option.bind meta sn_category));
          listed = Option.bind lineup (\<lambda>l. map_of (lu_inputs l) (ii_id i));
          site_owner = Option.bind meta sn_owner;
          owner = (case (lineup, listed) of
              (None, _) \<Rightarrow> site_owner
            | (Some _, Some l) \<Rightarrow> li_owner l
            | (Some _, None) \<Rightarrow> (case site_owner of Some ow \<Rightarrow> if ow = ENGINEER then Some ow else None | None \<Rightarrow> None))
      in \<lparr>iv_id = ii_id i,
          iv_name = (case (listed, meta) of
              (Some l, _) \<Rightarrow> li_name l
            | (None, Some m) \<Rightarrow> sn_name m
            | (None, None) \<Rightarrow> map ascii_upper (ii_id i)),
          iv_category = category, iv_owner = owner, iv_group = ii_group i\<rparr>)"

definition view_mix :: "site_member list \<Rightarrow> mix_info \<Rightarrow> mix_view_info" where
  "view_mix members m =
     (let member = find (\<lambda>s. sb_mix s = mi_id m) members
      in \<lparr>mv_id = mi_id m, mv_name = (case member of Some s \<Rightarrow> sb_name s | None \<Rightarrow> title (mi_id m)),
          mv_member = map_option sb_id member, mv_hears = mi_mixes m @ mi_peers m, mv_mono = (mi_channels m = 1)\<rparr>)"

definition view_leaders :: "topology_info \<Rightarrow> lineup option \<Rightarrow> site_member list \<Rightarrow> string list" where
  "view_leaders topo lineup members =
     (case lineup of
        Some l \<Rightarrow> lu_leaders l
      | None \<Rightarrow>
          map sb_id (filter (\<lambda>m. sb_id m \<noteq> ENGINEER \<and>
            list_ex (\<lambda>x. mi_id x = sb_mix m \<and> (mi_mixes x \<noteq> [] \<or> mi_peers x \<noteq> [])) (ti_mixes topo)) members))"

definition mismatches :: "config \<Rightarrow> lineup option \<Rightarrow> topology_info \<Rightarrow> site_member list \<Rightarrow> string list" where
  "mismatches cf lineup topo ms =
     (let q = [CHR 0x27]; known = (\<lambda>i. list_ex (\<lambda>x. ii_id x = i) (ti_inputs topo))
      in map (\<lambda>m. ''member '' @ q @ sb_id m @ q @ '': the engine has no mix '' @ q @ sb_mix m @ q)
           (filter (\<lambda>m. \<not> list_ex (\<lambda>x. mi_id x = sb_mix m) (ti_mixes topo)) ms) @
         map (\<lambda>i. ''input '' @ q @ ii_id i @ q @ '' has no [[inputs]] label'') (filter (\<lambda>i. input_meta cf (ii_id i) = None) (ti_inputs topo)) @
         map (\<lambda>m. ''[[inputs]] '' @ q @ sn_id m @ q @ '' is not an engine input'') (filter (\<lambda>m. \<not> known (sn_id m)) (cf_inputs cf)) @
         (case lineup of
            None \<Rightarrow> []
          | Some l \<Rightarrow>
              map (\<lambda>i. ''lineup '' @ q @ lu_id l @ q @ '': input '' @ q @ i @ q @ '' is not an engine input'')
                (filter (\<lambda>i. \<not> known i) (bm_keys (lu_inputs l)))))"

text \<open>\<open>build_with\<close>; it panics on a roster without a lineup.\<close>

definition build_with :: "config \<Rightarrow> roster_state option \<Rightarrow> topology_info \<Rightarrow> (site_view \<times> string list) option" where
  "build_with cf roster topo =
     (case (site_members cf roster, login_tiles cf roster) of
        (Some ms, Some tiles) \<Rightarrow>
          let lineup = Option.bind roster state_lineup;
              members = known_members topo ms
          in Some (\<lparr>sv_members = members,
                    sv_inputs = map (view_input cf lineup) (ti_inputs topo),
                    sv_mixes = map (view_mix members) (ti_mixes topo),
                    sv_group = (case ti_groups topo of g # _ \<Rightarrow> Some (gi_id g) | [] \<Rightarrow> None),
                    sv_engineer_mix = Some (ti_engineer topo),
                    sv_leaders = view_leaders topo lineup members,
                    sv_people = tiles,
                    sv_vacant = (case (roster, lineup) of
                        (Some r, Some l) \<Rightarrow>
                          map mi_id (filter (\<lambda>m. person_on l (mi_id m) = None \<and> mi_id m \<in> person_sets cf (rs_roster r)) (ti_mixes topo))
                      | _ \<Rightarrow> []),
                    sv_foreign_inputs = (case (roster, lineup) of
                        (Some r, Some l) \<Rightarrow> map ii_id (filter (\<lambda>i. foreign_input cf (rs_roster r) l (ii_id i)) (ti_inputs topo))
                      | _ \<Rightarrow> [])\<rparr>,
                   mismatches cf lineup topo ms)
      | _ \<Rightarrow> None)"

definition site_member :: "site_view \<Rightarrow> string \<Rightarrow> site_member option" where
  "site_member v i = find (\<lambda>m. sb_id m = i) (sv_members v)"

definition site_mix :: "site_view \<Rightarrow> mix_id \<Rightarrow> mix_view_info option" where
  "site_mix v i = find (\<lambda>m. mv_id m = i) (sv_mixes v)"

definition site_input :: "site_view \<Rightarrow> string \<Rightarrow> input_view option" where
  "site_input v i = find (\<lambda>x. iv_id x = i) (sv_inputs v)"

definition site_foreign :: "site_view \<Rightarrow> string \<Rightarrow> bool" where
  "site_foreign v i = (i \<in> set (sv_foreign_inputs v))"

definition site_page :: "site_view \<Rightarrow> string \<Rightarrow> page option" where
  "site_page v i =
     (case site_member v i of
        Some m \<Rightarrow> Some \<lparr>pg_id = sb_id m, pg_name = sb_name m, pg_mix = sb_mix m, pg_member = Some (sb_id m)\<rparr>
      | None \<Rightarrow>
          map_option (\<lambda>m. \<lparr>pg_id = mv_id m, pg_name = mv_name m, pg_mix = mv_id m, pg_member = None\<rparr>)
            (find (\<lambda>m. mv_id m = i \<and> mv_member m = None \<and> mv_id m \<notin> set (sv_vacant v)) (sv_mixes v)))"

definition mix_pages :: "site_view \<Rightarrow> page list" where
  "mix_pages v = List.map_filter (\<lambda>m. site_page v (mv_id m)) (filter (\<lambda>m. mv_member m = None) (sv_mixes v))"

definition member_of_mix :: "site_view \<Rightarrow> mix_id \<Rightarrow> site_member option" where
  "member_of_mix v i = find (\<lambda>m. sb_mix m = i) (sv_members v)"

definition mix_name :: "site_view \<Rightarrow> mix_id \<Rightarrow> string" where
  "mix_name v i = (case site_mix v i of Some m \<Rightarrow> mv_name m | None \<Rightarrow> title i)"

definition own_input :: "site_view \<Rightarrow> string \<Rightarrow> input_id option" where
  "own_input v member = map_option iv_id (find (\<lambda>i. iv_owner i = Some member) (sv_inputs v))"

subsection \<open>Faders and pans\<close>

definition FADER_MIN_DB :: f64 where "FADER_MIN_DB = - lit 60"
definition FADER_MAX_DB :: f64 where "FADER_MAX_DB = lit 12"
definition LIMIT_MIN_DB :: f64 where "LIMIT_MIN_DB = - lit 6"
definition OUT_NAME :: string where "OUT_NAME = ''IEM VOL''"
definition GROUP_NAME :: string where "GROUP_NAME = ''STEMS''"

definition ui_db :: "f64 \<Rightarrow> f32" where
  "ui_db db = (if FADER_MIN_DB < db then as_f32 (fmin db FADER_MAX_DB) else FADER_MIN_DB)"

definition engine_db :: "f32 \<Rightarrow> f64 option" where
  "engine_db ui =
     (if \<not> is_finite ui then None else if ui \<le> FADER_MIN_DB then Some DB_OFF else Some (fmin ui FADER_MAX_DB))"

definition ui_pan :: "f64 \<Rightarrow> f32" where
  "ui_pan p = as_f32 (fclamp ((p + 1) / lit 2) 0 1)"

definition is_valid_ui_pan :: "f32 \<Rightarrow> bool" where
  "is_valid_ui_pan v = (0 \<le> v \<and> v \<le> 1)"

definition engine_pan :: "f32 \<Rightarrow> f64 option" where
  "engine_pan u = (if is_valid_ui_pan u then Some (u * lit 2 - 1) else None)"

definition limit_db :: "f32 \<Rightarrow> f64" where
  "limit_db x = LIMIT_MIN_DB + x * (- LIMIT_MIN_DB)"

definition limit_norm :: "f64 \<Rightarrow> f32" where
  "limit_norm db = as_f32 (fclamp ((db - LIMIT_MIN_DB) / (- LIMIT_MIN_DB)) 0 1)"

subsection \<open>Who sees what\<close>

record viewer =
  vw_sub :: string
  vw_engineer :: bool

datatype bad_value =
    BadDb f32 | BadPan f32 | BadLimiterParam string | BadLimit f32 | BadTrim | BadEqValue string f32 | BadBand u8 | BadEqParam string

datatype view_error = UnknownId string | BadValueOf bad_value | NotAllowed string | NoGroup | NotACommand | Switching

definition viewer_leads :: "site_view \<Rightarrow> viewer \<Rightarrow> bool" where
  "viewer_leads v w = (vw_engineer w \<or> vw_sub w \<in> set (sv_leaders v))"

definition viewer_of_page :: "page \<Rightarrow> viewer" where
  "viewer_of_page p =
     (case pg_member p of
        Some m \<Rightarrow> \<lparr>vw_sub = m, vw_engineer = (m = ENGINEER)\<rparr>
      | None \<Rightarrow> \<lparr>vw_sub = ENGINEER, vw_engineer = True\<rparr>)"

definition view_source :: "site_view \<Rightarrow> page \<Rightarrow> string \<Rightarrow> source option" where
  "view_source v p i =
     (if site_input v i \<noteq> None \<and> \<not> site_foreign v i then Some (SrcInput i)
      else Option.bind (site_mix v (pg_mix p)) (\<lambda>m.
        map_option SrcMix (find (\<lambda>h. h = i \<and> h \<notin> set (sv_vacant v)) (mv_hears m))))"

definition shows_input :: "site_view \<Rightarrow> viewer \<Rightarrow> string \<Rightarrow> bool" where
  "shows_input v w i = (site_input v i \<noteq> None \<and> \<not> site_foreign v i)"

definition soloed_seen :: "site_view \<Rightarrow> viewer \<Rightarrow> source list \<Rightarrow> string list" where
  "soloed_seen v w srcs =
     map source_str (filter (\<lambda>x. case x of SrcInput i \<Rightarrow> shows_input v w i | SrcMix _ \<Rightarrow> True) srcs)"

definition heard_mixes :: "site_view \<Rightarrow> page \<Rightarrow> viewer \<Rightarrow> mix_id list" where
  "heard_mixes v p w =
     (if \<not> viewer_leads v w then []
      else case site_mix v (pg_mix p) of
             None \<Rightarrow> []
           | Some m \<Rightarrow> filter (\<lambda>h. h \<notin> set (sv_vacant v)) (mv_hears m))"

definition masked :: "mirror \<Rightarrow> page \<Rightarrow> source \<Rightarrow> bool" where
  "masked m p x = (mirror_solo m (pg_mix p) \<noteq> [] \<and> x \<notin> set (mirror_solo m (pg_mix p)))"

definition channel_state :: "mirror \<Rightarrow> page \<Rightarrow> source \<Rightarrow> f32 \<times> bool \<times> f32" where
  "channel_state m p x =
     (let l = mirror_level m (pg_mix p) x in (ui_db (lv_gain_db l), lv_muted l \<or> masked m p x, ui_pan (lv_pan l)))"

record channel =
  ch_id :: string
  ch_name :: string
  ch_level_db :: f32
  ch_pan :: f32
  ch_muted :: bool
  ch_category :: string
  ch_eq :: bool
  ch_own :: bool

definition input_channel :: "site_view \<Rightarrow> mirror \<Rightarrow> page \<Rightarrow> viewer \<Rightarrow> input_view \<Rightarrow> channel" where
  "input_channel v m p w i =
     (let (db, mu, pan) = channel_state m p (SrcInput (iv_id i))
      in \<lparr>ch_id = iv_id i, ch_name = iv_name i, ch_level_db = db, ch_pan = pan, ch_muted = mu, ch_category = iv_category i,
          ch_eq = (vw_engineer w \<or> iv_owner i = Some (vw_sub w)),
          ch_own = (Option.bind (pg_member p) (own_input v) = Some (iv_id i))\<rparr>)"

definition mix_channel :: "site_view \<Rightarrow> mirror \<Rightarrow> page \<Rightarrow> viewer \<Rightarrow> mix_id \<Rightarrow> channel" where
  "mix_channel v m p w h =
     (let (db, mu, pan) = channel_state m p (SrcMix h)
      in \<lparr>ch_id = h, ch_name = mix_name v h, ch_level_db = db, ch_pan = pan, ch_muted = mu, ch_category = ''mixes'',
          ch_eq = vw_engineer w, ch_own = False\<rparr>)"

definition channels :: "site_view \<Rightarrow> mirror \<Rightarrow> page \<Rightarrow> viewer \<Rightarrow> channel list" where
  "channels v m p w =
     map (input_channel v m p w) (filter (\<lambda>i. shows_input v w (iv_id i)) (sv_inputs v)) @
     map (mix_channel v m p w) (heard_mixes v p w)"

subsection \<open>Messages to a page\<close>

record page_state =
  ps_channels :: "channel list"
  ps_connected :: bool
  ps_global :: "f32 \<times> bool"
  ps_mix :: mix_id
  ps_stems :: "(f32 \<times> bool) option"
  ps_group :: "group_id option"

record ui_band =
  ub_type :: string
  ub_freq_hz :: f32
  ub_gain_db :: f32
  ub_bw :: f32
  ub_enabled :: bool

datatype server_msg =
    SvState page_state
  | SvChannelUpdate string f32 bool f32
  | SvGlobalVolumeUpdate f32 bool
  | SvStemsVolumeUpdate f32 bool
  | SvSoloUpdate "string list"
  | SvEqParams string string "ui_band list"
  | SvLimiterParams mix_id string f32 f32 bool f64

definition page_state_of :: "site_view \<Rightarrow> mirror \<Rightarrow> page \<Rightarrow> viewer \<Rightarrow> bool \<Rightarrow> page_state" where
  "page_state_of v m p w con =
     (let o' = mirror_out m (pg_mix p); strip = map_option (mirror_group m (pg_mix p)) (sv_group v)
      in \<lparr>ps_channels = channels v m p w, ps_connected = con,
          ps_global = (ui_db (mo_volume_db o'), mo_muted o'), ps_mix = pg_mix p,
          ps_stems = map_option (\<lambda>s. (ui_db (mg_gain_db s), mg_muted s)) strip, ps_group = sv_group v\<rparr>)"

definition state_msg :: "site_view \<Rightarrow> mirror \<Rightarrow> page \<Rightarrow> viewer \<Rightarrow> bool \<Rightarrow> server_msg" where
  "state_msg v m p w con = SvState (page_state_of v m p w con)"

definition channel_update :: "channel \<Rightarrow> server_msg" where
  "channel_update c = SvChannelUpdate (ch_id c) (ch_level_db c) (ch_muted c) (ch_pan c)"

definition change_seen :: "site_view \<Rightarrow> mirror \<Rightarrow> page \<Rightarrow> viewer \<Rightarrow> change \<Rightarrow> server_msg list" where
  "change_seen v m p w c =
     (let shown = (\<lambda>x. case x of SrcInput i \<Rightarrow> shows_input v w i | SrcMix i \<Rightarrow> i \<in> set (heard_mixes v p w))
      in case c of
           ChLevel i x _ \<Rightarrow>
             if i = pg_mix p \<and> shown x
             then let (db, mu, pan) = channel_state m p x in [SvChannelUpdate (source_str x) db mu pan]
             else []
         | ChMixOut i o' \<Rightarrow> if i = pg_mix p then [SvGlobalVolumeUpdate (ui_db (mo_volume_db o')) (mo_muted o')] else []
         | ChGroup i g s \<Rightarrow>
             if i = pg_mix p \<and> sv_group v = Some g then [SvStemsVolumeUpdate (ui_db (mg_gain_db s)) (mg_muted s)] else []
         | ChSolo i srcs \<Rightarrow>
             if i = pg_mix p then SvSoloUpdate (soloed_seen v w srcs) # map channel_update (channels v m p w) else []
         | _ \<Rightarrow> [])"

definition updates_seen :: "site_view \<Rightarrow> mirror \<Rightarrow> page \<Rightarrow> viewer \<Rightarrow> change list \<Rightarrow> server_msg list" where
  "updates_seen v m p w cs = concat (map (change_seen v m p w) cs)"

definition updates_for :: "site_view \<Rightarrow> mirror \<Rightarrow> page \<Rightarrow> change list \<Rightarrow> server_msg list" where
  "updates_for v m p cs = updates_seen v m p (viewer_of_page p) cs"

subsection \<open>Equalizers and limiters\<close>

definition view_eq_target :: "site_view \<Rightarrow> page \<Rightarrow> viewer \<Rightarrow> string \<Rightarrow> view_error + eq_target \<times> string" where
  "view_eq_target v p w t =
     (if t = pg_mix p then Inr (TgtMix (pg_mix p), OUT_NAME)
      else if sv_group v = Some t then Inr (TgtGroup (pg_mix p) t, GROUP_NAME)
      else case (if shows_input v w t then site_input v t else None) of
             Some i \<Rightarrow>
               if vw_engineer w \<or> iv_owner i = Some (vw_sub w) then Inr (TgtInput (iv_id i), iv_name i)
               else Inl (NotAllowed ''an input's EQ is its owner's or the engineer's'')
           | None \<Rightarrow>
               (case view_source v p t of
                  Some (SrcMix m) \<Rightarrow>
                    if vw_engineer w then Inr (TgtMix m, mix_name v m) else Inl (NotAllowed ''another mix's EQ is the engineer's'')
                | Some _ \<Rightarrow> Inl (NotAllowed ''another mix's EQ is the engineer's'')
                | None \<Rightarrow> Inl (UnknownId t)))"

definition current_eq :: "mirror \<Rightarrow> eq_target \<Rightarrow> eq_state" where
  "current_eq m t =
     (case t of
        TgtInput i \<Rightarrow> in_eq (mirror_input m i)
      | TgtMix i \<Rightarrow> mo_eq (mirror_out m i)
      | TgtGroup i g \<Rightarrow> mg_eq (mirror_group m i g))"

fun kind_name :: "band_kind \<Rightarrow> string" where
  "kind_name HighPass = ''highpass''"
| "kind_name LowShelf = ''lowshelf''"
| "kind_name Peak = ''band''"
| "kind_name HighShelf = ''highshelf''"

definition ui_bands :: "eq_state \<Rightarrow> ui_band list" where
  "ui_bands e =
     map (\<lambda>b. \<lparr>ub_type = kind_name (b_kind b), ub_freq_hz = as_f32 (b_freq_hz b), ub_gain_db = as_f32 (fmax (b_gain_db b) DB_OFF),
               ub_bw = as_f32 (b_bw_oct b), ub_enabled = b_enabled b\<rparr>) (eq_bands e)"

definition apply_band :: "eq_state \<Rightarrow> u8 \<Rightarrow> string \<Rightarrow> f32 \<Rightarrow> view_error + eq_state" where
  "apply_band e band param value =
     (if \<not> is_finite value then Inl (BadValueOf (BadEqValue param value))
      else case lget (eq_bands e) (unat band) of
             None \<Rightarrow> Inl (BadValueOf (BadBand band))
           | Some b \<Rightarrow>
               let put = (\<lambda>b'. Inr (e\<lparr>eq_bands := (eq_bands e)[unat band := b']\<rparr>))
               in if param = ''freq_hz'' then put (b\<lparr>b_freq_hz := value\<rparr>)
                  else if param = ''gain_db'' then put (b\<lparr>b_gain_db := value, b_enabled := (if b_kind b \<noteq> HighPass then True else b_enabled b)\<rparr>)
                  else if param = ''bw_oct'' then put (b\<lparr>b_bw_oct := value\<rparr>)
                  else if param = ''enabled'' then put (b\<lparr>b_enabled := (lit (1 / 2) \<le> value)\<rparr>)
                  else Inl (BadValueOf (BadEqParam param)))"

definition eq_params_msg :: "site_view \<Rightarrow> mirror \<Rightarrow> page \<Rightarrow> viewer \<Rightarrow> string \<Rightarrow> view_error + server_msg" where
  "eq_params_msg v m p w t =
     bind_r (view_eq_target v p w t) (\<lambda>(x, name). Inr (SvEqParams t name (ui_bands (current_eq m x))))"

definition limiter_msg :: "mirror \<Rightarrow> page \<Rightarrow> f64 \<Rightarrow> server_msg" where
  "limiter_msg m p sec =
     (let l = mo_limiter (mirror_out m (pg_mix p))
      in SvLimiterParams (pg_mix p) OUT_NAME (as_f32 (lim_limit_db l)) (limit_norm (lim_limit_db l)) (lim_enabled l) sec)"

subsection \<open>Commands of a page\<close>

datatype client_msg =
    CmSetLevel string f32
  | CmSetMute string bool
  | CmSetPan string f32
  | CmSetGlobalLevel f32
  | CmSetGlobalMute bool
  | CmSetStemsLevel f32
  | CmSetStemsMute bool
  | CmUpdateCustomization "string list" "string list"
  | CmSetSolo "string list"
  | CmListenStart string
  | CmListenStop
  | CmGetEqParams string
  | CmSetEqBand string u8 string f32
  | CmCallEngineer
  | CmClearAlert
  | CmTalkStart
  | CmTalkStop
  | CmGetLimiterParams
  | CmSetLimiterParam string f32
  | CmSetLimiterEnabled bool
  | CmResetLimiterActivity
  | CmGetConsole
  | CmSetInput string "f32 option" "bool option" "bool option"
  | CmResetLimiterStats string

definition view_db :: "f32 \<Rightarrow> view_error + f64" where
  "view_db v = (case engine_db v of Some x \<Rightarrow> Inr x | None \<Rightarrow> Inl (BadValueOf (BadDb v)))"

text \<open>A source the viewer may move, and the engineer's own commands.\<close>

definition movable :: "site_view \<Rightarrow> page \<Rightarrow> viewer \<Rightarrow> string \<Rightarrow> view_error + source" where
  "movable v p w i =
     (case view_source v p i of
        None \<Rightarrow> Inl (UnknownId i)
      | Some (SrcMix x) \<Rightarrow> if \<not> viewer_leads v w then Inl (NotAllowed ''the mixes a set hears are its leader's'') else Inr (SrcMix x)
      | Some x \<Rightarrow> Inr x)"

definition engineer_only :: "viewer \<Rightarrow> string \<Rightarrow> view_error + unit" where
  "engineer_only w what = (if vw_engineer w then Inr () else Inl (NotAllowed what))"

fun map_r :: "('a \<Rightarrow> 'e + 'b) \<Rightarrow> 'a list \<Rightarrow> 'e + 'b list" where
  "map_r f [] = Inr []"
| "map_r f (x # xs) = bind_r (f x) (\<lambda>y. bind_r (map_r f xs) (\<lambda>ys. Inr (y # ys)))"

definition view_command :: "site_view \<Rightarrow> mirror \<Rightarrow> page \<Rightarrow> viewer \<Rightarrow> client_msg \<Rightarrow> view_error + cmd" where
  "view_command v m p w msg =
     (let mix = pg_mix p; group = (case sv_group v of Some g \<Rightarrow> Inr g | None \<Rightarrow> Inl NoGroup)
      in case msg of
           CmSetLevel i db \<Rightarrow> bind_r (movable v p w i) (\<lambda>x. bind_r (view_db db) (\<lambda>g. Inr (SetLevel mix x (Some g) None None)))
         | CmSetMute i mu \<Rightarrow> bind_r (movable v p w i) (\<lambda>x. Inr (SetLevel mix x None None (Some mu)))
         | CmSetPan i pan \<Rightarrow>
             bind_r (movable v p w i) (\<lambda>x.
               case engine_pan pan of
                 Some y \<Rightarrow> Inr (SetLevel mix x None (Some y) None)
               | None \<Rightarrow> Inl (BadValueOf (BadPan pan)))
         | CmSetGlobalLevel db \<Rightarrow> bind_r (view_db db) (\<lambda>g. Inr (SetMix mix (Some g) None))
         | CmSetGlobalMute mu \<Rightarrow> Inr (SetMix mix None (Some mu))
         | CmSetStemsLevel db \<Rightarrow> bind_r group (\<lambda>g. bind_r (view_db db) (\<lambda>x. Inr (SetGroup mix g (Some x) None)))
         | CmSetStemsMute mu \<Rightarrow> bind_r group (\<lambda>g. Inr (SetGroup mix g None (Some mu)))
         | CmSetSolo is \<Rightarrow> bind_r (map_r (movable v p w) is) (\<lambda>srcs. Inr (SetSolo mix srcs))
         | CmSetLimiterParam param value \<Rightarrow>
             if param \<noteq> ''limit'' then Inl (BadValueOf (BadLimiterParam param))
             else if \<not> (0 \<le> value \<and> value \<le> 1) then Inl (BadValueOf (BadLimit value))
             else Inr (SetLimiter mix None (Some (limit_db value)))
         | CmSetLimiterEnabled on \<Rightarrow> Inr (SetLimiter mix (Some on) None)
         | CmResetLimiterActivity \<Rightarrow> Inr (ResetLimiterStats mix)
         | CmSetEqBand t band param value \<Rightarrow>
             bind_r (view_eq_target v p w t) (\<lambda>(x, _).
               bind_r (apply_band (current_eq m x) band param value) (\<lambda>e. Inr (SetEq x e)))
         | CmSetInput i trim mu proc \<Rightarrow>
             bind_r (engineer_only w ''input controls are the engineer's'') (\<lambda>_.
               if site_input v i = None then Inl (UnknownId i)
               else if (case trim of Some t \<Rightarrow> \<not> is_finite t | None \<Rightarrow> False) then Inl (BadValueOf BadTrim)
               else Inr (SetInput i trim mu proc))
         | CmResetLimiterStats i \<Rightarrow>
             bind_r (engineer_only w ''another mix's limiter is the engineer's'') (\<lambda>_.
               if site_mix v i = None then Inl (UnknownId i) else Inr (ResetLimiterStats i))
         | _ \<Rightarrow> Inl NotACommand)"

definition mute_all :: "site_view \<Rightarrow> page \<Rightarrow> viewer \<Rightarrow> cmd" where
  "mute_all v p w =
     (let heard = (case site_mix v (pg_mix p) of Some m \<Rightarrow> mv_hears m | None \<Rightarrow> []);
          srcs = map (\<lambda>i. SrcInput (iv_id i)) (filter (\<lambda>i. shows_input v w (iv_id i)) (sv_inputs v)) @ map SrcMix heard
      in Batch (map (\<lambda>x. SetLevel (pg_mix p) x None None (Some True)) srcs))"

end
