(* ===== verification/ViewProps.thy ===== *)
theory ViewProps
  imports View CoreProps
begin

text \<open>
  What a page may change in the engine, and that a page shows what the server's copy of the engine holds.
\<close>

subsection \<open>What a command leaves alone\<close>

text \<open>Only the mix \<open>x\<close> changes, and of the inputs only the equalizers of those in \<open>own\<close>.\<close>

definition eq_only :: "input_state option \<Rightarrow> input_state option \<Rightarrow> bool" where
  "eq_only s t \<longleftrightarrow> map_option (in_eq_update (\<lambda>_. eq_default)) s = map_option (in_eq_update (\<lambda>_. eq_default)) t"

definition kept :: "mix_id \<Rightarrow> (input_id \<Rightarrow> bool) \<Rightarrow> core \<Rightarrow> core \<Rightarrow> bool" where
  "kept x own c c' \<longleftrightarrow>
     co_topo c' = co_topo c \<and> co_listen c' = co_listen c \<and> co_test c' = co_test c \<and> co_hil_test c' = co_hil_test c \<and>
     (\<forall>n. mix_index (co_topo c) x \<noteq> Some n \<longrightarrow>
        lget (rs_mixes (co_s c')) n = lget (rs_mixes (co_s c)) n \<and> map_of (co_solo c') n = map_of (co_solo c) n) \<and>
     (\<forall>i. eq_only (lget (rs_inputs (co_s c')) i) (lget (rs_inputs (co_s c)) i) \<and>
        ((\<forall>j. own j \<longrightarrow> input_index (co_topo c) j \<noteq> Some i) \<longrightarrow> lget (rs_inputs (co_s c')) i = lget (rs_inputs (co_s c)) i))"

lemma kept_refl [simp]: "kept x own c c"
  by (simp add: kept_def eq_only_def)

lemma kept_trans: "kept x own c c' \<Longrightarrow> kept x own c' c'' \<Longrightarrow> kept x own c c''"
  by (simp add: kept_def eq_only_def)

lemma kept_rev [simp]: "kept x own c (c'\<lparr>co_rev := r\<rparr>) = kept x own c c'"
  by (simp add: kept_def)

lemma kept_mix:
  "mix_index (co_topo c) x = Some m \<Longrightarrow> kept x own c (upd_mix m f c)"
  by (auto simp: kept_def upd_mix_def eq_only_def lget_def nth_lmod)

lemma setters_kept:
  assumes "mix_index (co_topo c) x = Some m"
  shows "kept x own c (fst (set_out lm m new1 c))" and "kept x own c (fst (set_level lm m k new2 c))" and "kept x own c (fst (set_group lm m g new3 c))"
  using assms by (simp_all add: set_out_def set_level_def set_group_def Let_def kept_mix split: option.splits)

lemma set_input_kept:
  assumes "input_index (co_topo c) j = Some i" and "own j"
  shows "kept x own c (fst (set_input lm i ((or_default input_default (lget (rs_inputs (co_s c)) i))\<lparr>in_eq := e\<rparr>) c))"
  using assms by (auto simp: set_input_def kept_def eq_only_def lget_def or_default_def nth_list_update split: option.splits)

lemma set_solo_kept:
  assumes "set_solo lm x srcs c = (c', r)"
  shows "kept x own c c'"
proof (cases "mix_index (co_topo c) x")
  case None
  with assms show ?thesis by (simp add: set_solo_def core_mix_def ok_or_def)
next
  case (Some m)
  then show ?thesis
    using assms
    by (auto simp: set_solo_def core_mix_def ok_or_def Let_def try_c_def kept_def eq_only_def map_of_bm_remove split: sum.splits if_splits)
qed

text \<open>The commands that touch no more.\<close>

fun stays_in :: "mix_id \<Rightarrow> (input_id \<Rightarrow> bool) \<Rightarrow> cmd \<Rightarrow> bool" where
  "stays_in x own (SetMix i _ _) = (i = x)"
| "stays_in x own (SetLevel i _ _ _ _) = (i = x)"
| "stays_in x own (SetGroup i _ _ _) = (i = x)"
| "stays_in x own (SetEq (TgtInput j) _) = own j"
| "stays_in x own (SetEq (TgtMix i) _) = (i = x)"
| "stays_in x own (SetEq (TgtGroup i _) _) = (i = x)"
| "stays_in x own (SetLimiter i _ _) = (i = x)"
| "stays_in x own (ResetLimiterStats i) = (i = x)"
| "stays_in x own (SetSolo i _) = (i = x)"
| "stays_in x own _ = False"

lemma try_kept: "(\<And>a. r = Inr a \<Longrightarrow> kept x own c (fst (k a))) \<Longrightarrow> kept x own c (fst (try_c r c k))"
  by (cases r) auto

lemma core_index: "core_mix c i = Inr m \<Longrightarrow> mix_index (co_topo c) i = Some m" "core_input c j = Inr n \<Longrightarrow> input_index (co_topo c) j = Some n"
  by (auto simp: core_mix_def core_input_def ok_or_def split: option.splits)

lemma one_kept: "stays_in x own cmd \<Longrightarrow> kept x own c (fst (one lm cmd c))"
proof (induction x own cmd rule: stays_in.induct)
  case (4 x own j e)
  then show ?case by (auto simp: Let_def ok_c_def intro!: try_kept set_input_kept dest: core_index)
next
  case (9 x own i srcs)
  then show ?case using set_solo_kept [OF prod.collapse [symmetric]] by simp
qed (auto simp: Let_def ok_c_def intro!: try_kept setters_kept dest: core_index)

lemma batch_kept:
  assumes "fold_r (batch_step lm) ops s = Inr s'" and "list_all (stays_in x own) ops" and "kept x own c (fst s)"
  shows "kept x own c (fst s')"
  using assms
proof (induction ops arbitrary: s)
  case (Cons op ops)
  then obtain s1 where s1: "batch_step lm op s = Inr s1" "fold_r (batch_step lm) ops s1 = Inr s'"
    by (auto simp: bind_r_Inr_iff)
  then have "kept x own c (fst s1)"
    using Cons(3,4) one_kept [of x own op "fst s" lm] by (auto simp: batch_step_def intro: kept_trans split: if_splits prod.splits sum.splits)
  with Cons(1) [OF s1(2)] Cons(3) show ?case by simp
qed simp

lemma apply_kept:
  assumes "stays_in x own cmd \<or> (\<exists>ops. cmd = Batch ops \<and> list_all (stays_in x own) ops)" and "core_apply lm cmd c = (c', r)"
  shows "kept x own c c'"
proof -
  have "kept x own c (fst (case cmd of Batch ops \<Rightarrow> batch lm ops c | other \<Rightarrow> one lm other c))"
  proof (cases "\<exists>ops. cmd = Batch ops")
    case True
    then obtain ops where ops: "cmd = Batch ops" "list_all (stays_in x own) ops" using assms(1) by auto
    then show ?thesis
      using batch_kept [OF _ ops(2), of lm "(c, partial_default)" _ c] by (auto simp: batch_def intro!: try_kept split: if_splits prod.splits)
  next
    case False
    then show ?thesis using assms(1) one_kept [of x own cmd c lm] by (cases cmd) auto
  qed
  then show ?thesis
    using assms(2) by (auto simp: core_apply_def finish_def Let_def split: prod.splits sum.splits if_splits)
qed

subsection \<open>A person's commands\<close>

definition owns :: "site_view \<Rightarrow> viewer \<Rightarrow> input_id \<Rightarrow> bool" where
  "owns v w i \<longleftrightarrow> (\<exists>x. site_input v i = Some x \<and> iv_owner x = Some (vw_sub w))"

lemma site_input_id: "site_input v i = Some x \<Longrightarrow> iv_id x = i"
  by (auto simp: site_input_def find_Some_iff)

lemma eq_target_own:
  assumes "\<not> vw_engineer w" and "view_eq_target v p w t = Inr (x, name)"
  shows "stays_in (pg_mix p) (owns v w) (SetEq x e)"
  using assms
  by (auto simp: view_eq_target_def owns_def site_input_id split: if_splits option.splits source.splits)

lemma command_stays:
  assumes "\<not> vw_engineer w" and "view_command v m p w msg = Inr cmd"
  shows "stays_in (pg_mix p) (owns v w) cmd"
  using assms
  by (cases msg) (auto simp: view_command_def Let_def bind_r_Inr_iff engineer_only_def eq_target_own split: if_splits option.splits prod.splits)

text \<open>
  A person changes only what is theirs: whatever message a page sends, and whatever its viewer who is
  not the engineer asks to mute, the command the server makes of it leaves in the engine every mix but the
  page's as it was, with its solo, what is listened to and the test signal, and of the inputs at most the
  equalizers of those the person owns; trims, mutes and processing of inputs never change.
\<close>

theorem pages_confined:
  assumes "\<not> vw_engineer w" and "view_command v m p w msg = Inr cmd \<or> cmd = mute_all v p w" and "core_apply lm cmd c = (c', r)"
  shows "co_topo c' = co_topo c \<and> co_listen c' = co_listen c \<and> co_test c' = co_test c \<and>
    (\<forall>n. mix_index (co_topo c) (pg_mix p) \<noteq> Some n \<longrightarrow>
       lget (rs_mixes (co_s c')) n = lget (rs_mixes (co_s c)) n \<and> map_of (co_solo c') n = map_of (co_solo c) n) \<and>
    (\<forall>i. map_option (in_eq_update (\<lambda>_. eq_default)) (lget (rs_inputs (co_s c')) i) = map_option (in_eq_update (\<lambda>_. eq_default)) (lget (rs_inputs (co_s c)) i)) \<and>
    (\<forall>i. (\<forall>j x. site_input v j = Some x \<and> iv_owner x = Some (vw_sub w) \<longrightarrow> input_index (co_topo c) j \<noteq> Some i) \<longrightarrow>
       lget (rs_inputs (co_s c')) i = lget (rs_inputs (co_s c)) i)"
proof -
  have "stays_in (pg_mix p) (owns v w) cmd \<or> (\<exists>ops. cmd = Batch ops \<and> list_all (stays_in (pg_mix p) (owns v w)) ops)"
    using assms(2) command_stays [OF assms(1)] by (auto simp: mute_all_def Let_def list_all_iff)
  from apply_kept [OF this assms(3)] show ?thesis unfolding kept_def eq_only_def owns_def by blast
qed

definition demo_page :: page where
  "demo_page = \<lparr>pg_id = ''anna'', pg_name = ''Anna'', pg_mix = ''member1'', pg_member = Some ''anna''\<rparr>"

end
