(* ===== verification/Page.thy ===== *)
theory Page
  imports View
begin

text \<open>
  What a mixer page in the browser makes of the server's messages (\<open>iem-ui/src/pages/mixer/connection.rs\<close>,
  \<open>iem-core/src/types.rs\<close>): the channels, the volume and the stems strip it shows. A fader the user touches
  keeps its value. The other messages (meters, alerts, modals) do not reach these values.
\<close>

record ui_page =
  up_channels :: "channel list"
  up_connected :: bool
  up_global :: "f32 \<times> bool"
  up_mix :: "mix_id option"
  up_stems :: "f32 \<times> bool"
  up_group :: "group_id option"
  up_soloed :: "string set"
  up_pre_solo :: "string \<rightharpoonup> bool"
  up_touched :: "string \<rightharpoonup> bool"
  up_global_touched :: bool
  up_stems_touched :: bool

definition touched :: "(string \<rightharpoonup> bool) \<Rightarrow> string \<Rightarrow> bool" where
  "touched t i = or_default False (t i)"

definition channel_update_applies :: "(string \<rightharpoonup> bool) \<Rightarrow> string \<Rightarrow> bool" where
  "channel_update_applies t i = (\<not> touched t i)"

fun update_channel :: "string \<Rightarrow> f32 \<Rightarrow> bool \<Rightarrow> f32 \<Rightarrow> channel list \<Rightarrow> channel list" where
  "update_channel i db mu pan [] = []"
| "update_channel i db mu pan (c # cs) =
     (if ch_id c = i then c\<lparr>ch_level_db := db, ch_muted := mu, ch_pan := pan\<rparr> # cs
      else c # update_channel i db mu pan cs)"

fun replace_channel :: "channel \<Rightarrow> channel list \<Rightarrow> channel list" where
  "replace_channel new [] = []"
| "replace_channel new (c # cs) = (if ch_id c = ch_id new then new # cs else c # replace_channel new cs)"

definition merge_or_replace_channels :: "channel list \<Rightarrow> (string \<rightharpoonup> bool) \<Rightarrow> channel list \<Rightarrow> channel list" where
  "merge_or_replace_channels incoming t existing =
     (if existing = [] then incoming
      else if set (map ch_id existing) \<noteq> set (map ch_id incoming) then incoming
      else fold (\<lambda>c. if touched t (ch_id c) then id else replace_channel c) incoming existing)"

datatype solo_change = SoloUnchanged | SoloCleared | SoloEntered | SoloSwitched

definition solo_change :: "string set \<Rightarrow> string set \<Rightarrow> solo_change" where
  "solo_change current new =
     (if new = current then SoloUnchanged
      else if new = {} then SoloCleared
      else if current = {} then SoloEntered
      else SoloSwitched)"

definition show_exclusive_solo :: "string set \<Rightarrow> channel list \<Rightarrow> channel list" where
  "show_exclusive_solo soloed = map (\<lambda>c. c\<lparr>ch_muted := ch_id c \<notin> soloed\<rparr>)"

definition on_state :: "page_state \<Rightarrow> ui_page \<Rightarrow> ui_page" where
  "on_state s u =
     u\<lparr>up_channels := merge_or_replace_channels (ps_channels s) (up_touched u) (up_channels u),
       up_global := ps_global s, up_mix := Some (ps_mix s),
       up_stems := or_default (up_stems u) (ps_stems s), up_group := ps_group s, up_connected := ps_connected s\<rparr>"

definition on_solo :: "string list \<Rightarrow> ui_page \<Rightarrow> ui_page" where
  "on_solo ids u =
     (let new = set ids
      in case solo_change (up_soloed u) new of
           SoloUnchanged \<Rightarrow> u
         | SoloCleared \<Rightarrow> u\<lparr>up_pre_solo := Map.empty, up_soloed := new\<rparr>
         | SoloEntered \<Rightarrow> u\<lparr>up_pre_solo := map_of (rev (map (\<lambda>c. (ch_id c, ch_muted c)) (up_channels u))), up_soloed := new\<rparr>
         | SoloSwitched \<Rightarrow> u\<lparr>up_channels := show_exclusive_solo new (up_channels u), up_soloed := new\<rparr>)"

fun on_message :: "server_msg \<Rightarrow> ui_page \<Rightarrow> ui_page" where
  "on_message (SvState s) u = on_state s u"
| "on_message (SvChannelUpdate i db mu pan) u =
     (if channel_update_applies (up_touched u) i then u\<lparr>up_channels := update_channel i db mu pan (up_channels u)\<rparr> else u)"
| "on_message (SvGlobalVolumeUpdate db mu) u = (if \<not> up_global_touched u then u\<lparr>up_global := (db, mu)\<rparr> else u)"
| "on_message (SvStemsVolumeUpdate db mu) u = (if \<not> up_stems_touched u then u\<lparr>up_stems := (db, mu)\<rparr> else u)"
| "on_message (SvSoloUpdate ids) u = on_solo ids u"
| "on_message (SvEqParams _ _ _) u = u"
| "on_message (SvLimiterParams _ _ _ _ _ _) u = u"

end
