(* ===== verification/PageProps.thy ===== *)
theory PageProps
  imports Page TopologyProps
begin

text \<open>
  A page follows the server's copy of the engine: every channel whose fader the user has not touched shows
  what the mirror holds for it, masked by the page's solo, and so do the volume and the stems strip.
\<close>

subsection \<open>Looking a channel up\<close>

definition look_up :: "channel list \<Rightarrow> string \<Rightarrow> channel option" where
  "look_up cs i = find (\<lambda>c. ch_id c = i) cs"

lemma look_up_simps [simp]:
  "look_up [] i = None"
  "look_up (c # cs) i = (if ch_id c = i then Some c else look_up cs i)"
  by (simp_all add: look_up_def)

lemma look_up_append: "look_up (cs @ ds) i = (case look_up cs i of Some c \<Rightarrow> Some c | None \<Rightarrow> look_up ds i)"
  by (induction cs) simp_all

lemma look_up_map: "(\<And>c. ch_id (f c) = ch_id c) \<Longrightarrow> look_up (map f cs) i = map_option f (look_up cs i)"
  by (induction cs) simp_all

lemma look_up_id: "look_up cs i = Some c \<Longrightarrow> ch_id c = i"
  by (auto simp: look_up_def find_Some_iff)

lemma look_up_None: "look_up cs i = None \<longleftrightarrow> i \<notin> set (map ch_id cs)"
  by (induction cs) auto

definition moved_to :: "f32 \<times> bool \<times> f32 \<Rightarrow> channel \<Rightarrow> channel" where
  "moved_to x c = (case x of (db, mu, pan) \<Rightarrow> c\<lparr>ch_level_db := db, ch_muted := mu, ch_pan := pan\<rparr>)"

lemma look_up_update:
  "look_up (update_channel i db mu pan cs) j = (if j = i then map_option (moved_to (db, mu, pan)) (look_up cs j) else look_up cs j)"
  by (induction cs) (auto simp: moved_to_def [abs_def])

lemma look_up_replace: "look_up (replace_channel c cs) i = (if i = ch_id c \<and> look_up cs i \<noteq> None then Some c else look_up cs i)"
  by (induction cs) auto

lemma merge_looks_up:
  assumes "distinct (map ch_id new)" and "\<not> touched t i"
  shows "look_up (fold (\<lambda>c. if touched t (ch_id c) then id else replace_channel c) new cs) i =
    (if look_up cs i = None then None else case look_up new i of Some c \<Rightarrow> Some c | None \<Rightarrow> look_up cs i)"
  using assms(1)
proof (induction new arbitrary: cs)
  case (Cons c new)
  then have i: "look_up new i = None" if "ch_id c = i" using that by (auto simp: look_up_None)
  show ?case
  proof (cases "touched t (ch_id c)")
    case True
    with assms(2) have "ch_id c \<noteq> i" by auto
    with True Cons show ?thesis by simp
  next
    case False
    with Cons i show ?thesis by (auto simp: look_up_replace split: option.splits)
  qed
qed (auto split: option.splits)

lemma merged:
  assumes "distinct (map ch_id new)" and "\<not> touched t i"
  shows "look_up (merge_or_replace_channels new t cs) i = look_up new i"
  using merge_looks_up [OF assms, of cs] look_up_None [of cs i] look_up_None [of new i]
  by (auto simp: merge_or_replace_channels_def split: option.splits)

subsection \<open>The channels of a page\<close>

definition ids_apart :: "site_view \<Rightarrow> bool" where
  "ids_apart v \<longleftrightarrow> distinct (map iv_id (sv_inputs v)) \<and>
     (\<forall>x \<in> set (sv_mixes v). distinct (mv_hears x) \<and> set (mv_hears x) \<inter> set (map iv_id (sv_inputs v)) = {})"

definition shown :: "site_view \<Rightarrow> page \<Rightarrow> viewer \<Rightarrow> source \<Rightarrow> bool" where
  "shown v p w x = (case x of SrcInput i \<Rightarrow> shows_input v w i | SrcMix i \<Rightarrow> i \<in> set (heard_mixes v p w))"

text \<open>What of a channel does not depend on the engine's values.\<close>

definition fixed :: "channel \<Rightarrow> channel" where
  "fixed = moved_to (0, False, 0)"

lemma fixed_id [simp]: "ch_id (fixed c) = ch_id c" "ch_id (moved_to x c) = ch_id c" "fixed (moved_to x c) = fixed c"
  by (simp_all add: fixed_def moved_to_def split: prod.splits)

lemma find_mem: "find P xs = Some x \<Longrightarrow> x \<in> set xs \<and> P x"
  by (induction xs) (auto split: if_splits)

lemma heard_apart: "ids_apart v \<Longrightarrow> distinct (heard_mixes v p w) \<and> set (heard_mixes v p w) \<inter> set (map iv_id (sv_inputs v)) = {}"
  by (cases "site_mix v (pg_mix p)") (auto simp: ids_apart_def heard_mixes_def site_mix_def dest!: find_mem)

lemma channel_ids [simp]: "ch_id (input_channel v m p w i) = iv_id i" "ch_id (mix_channel v m p w h) = h"
  by (simp_all add: input_channel_def mix_channel_def Let_def split: prod.splits)

lemma channels_distinct: "ids_apart v \<Longrightarrow> distinct (map ch_id (channels v m p w))"
proof -
  assume a: "ids_apart v"
  have "map ch_id (channels v m p w) = map iv_id (filter (\<lambda>i. shows_input v w (iv_id i)) (sv_inputs v)) @ heard_mixes v p w"
    by (simp add: channels_def o_def)
  then show ?thesis using a heard_apart [OF a, of p w] by (auto simp: ids_apart_def distinct_map_filter)
qed

lemma look_up_in: "distinct (map ch_id cs) \<Longrightarrow> c \<in> set cs \<Longrightarrow> look_up cs (ch_id c) = Some c"
  by (induction cs) auto

text \<open>The channel of a source that is shown, and no other channels.\<close>

lemma channel_of:
  assumes "ids_apart v"
  shows "shown v p w x \<Longrightarrow> \<exists>c. look_up (channels v m p w) (source_str x) = Some c \<and> (ch_level_db c, ch_muted c, ch_pan c) = channel_state m p x"
    and "look_up (channels v m p w) i \<noteq> None \<Longrightarrow> \<exists>x. shown v p w x \<and> source_str x = i"
proof -
  note d = channels_distinct [OF assms, of m p w]
  show "\<exists>c. look_up (channels v m p w) (source_str x) = Some c \<and> (ch_level_db c, ch_muted c, ch_pan c) = channel_state m p x" if sh: "shown v p w x"
  proof (cases x)
    case (SrcInput i)
    then obtain y where y: "y \<in> set (sv_inputs v)" "iv_id y = i" "shows_input v w i"
      using sh by (auto simp: shown_def shows_input_def site_input_def find_None_iff)
    then have "input_channel v m p w y \<in> set (channels v m p w)" by (auto simp: channels_def)
    from look_up_in [OF d this] y SrcInput show ?thesis by (auto simp: input_channel_def Let_def split: prod.splits)
  next
    case (SrcMix i)
    then have "mix_channel v m p w i \<in> set (channels v m p w)" using sh by (auto simp: channels_def shown_def)
    from look_up_in [OF d this] SrcMix show ?thesis by (auto simp: mix_channel_def Let_def split: prod.splits)
  qed
  show "\<exists>x. shown v p w x \<and> source_str x = i" if "look_up (channels v m p w) i \<noteq> None"
  proof -
    from that consider y where "y \<in> set (sv_inputs v)" "shows_input v w (iv_id y)" "iv_id y = i" | "i \<in> set (heard_mixes v p w)"
      by (auto simp: look_up_None channels_def)
    then show ?thesis
    proof cases
      case 1
      then show ?thesis by (intro exI [of _ "SrcInput i"]) (simp add: shown_def)
    next
      case 2
      then show ?thesis by (intro exI [of _ "SrcMix i"]) (simp add: shown_def)
    qed
  qed
qed

lemma shown_one: "ids_apart v \<Longrightarrow> shown v p w x \<Longrightarrow> shown v p w y \<Longrightarrow> source_str x = source_str y \<Longrightarrow> x = y"
  using heard_apart [of v p w]
  by (cases x; cases y) (auto simp: shown_def shows_input_def site_input_def find_None_iff)

lemma channels_fixed: "map fixed (channels v m p w) = map fixed (channels v m' p w)"
  by (auto simp: channels_def input_channel_def mix_channel_def fixed_def moved_to_def Let_def split: prod.splits)

lemma look_up_fixed: "map_option fixed (look_up (channels v m p w) i) = map_option fixed (look_up (channels v m' p w) i)"
  using arg_cong [OF channels_fixed, of "\<lambda>cs. look_up cs i" v m p w m'] by (simp add: look_up_map)

lemma fixed_moved: "fixed c = fixed d \<Longrightarrow> moved_to (ch_level_db d, ch_muted d, ch_pan d) c = d"
  by (cases c; cases d) (simp add: fixed_def moved_to_def)

subsection \<open>One change\<close>

definition global_of :: "mirror \<Rightarrow> page \<Rightarrow> f32 \<times> bool" where
  "global_of m p = (let o' = mirror_out m (pg_mix p) in (ui_db (mo_volume_db o'), mo_muted o'))"

definition stems_of :: "site_view \<Rightarrow> mirror \<Rightarrow> page \<Rightarrow> (f32 \<times> bool) option" where
  "stems_of v m p = map_option (\<lambda>g. let s = mirror_group m (pg_mix p) g in (ui_db (mg_gain_db s), mg_muted s)) (sv_group v)"

text \<open>The changes that reach the channel of a source.\<close>

definition hits :: "page \<Rightarrow> source \<Rightarrow> change \<Rightarrow> bool" where
  "hits p x ch = (case ch of ChLevel i y _ \<Rightarrow> i = pg_mix p \<and> y = x | ChSolo i _ \<Rightarrow> i = pg_mix p | _ \<Rightarrow> False)"

lemma level_edit:
  "mirror_level (m\<lparr>mi_state := edit_mix i f (mi_state m)\<rparr>) k x =
     (if k = i then or_default level_default (mix_level (f (or_default mix_default (map_of (ms_mixes (mi_state m)) i))) x) else mirror_level m k x)"
  by (auto simp: mirror_level_def edit_mix_def)

lemma mix_level_other:
  "mix_level (y\<lparr>mx_out := o'\<rparr>) x = mix_level y x" "mix_level (y\<lparr>mx_groups := gs\<rparr>) x = mix_level y x" "z \<noteq> x \<Longrightarrow> mix_level (put_level z l y) x = mix_level y x"
  by (cases x; auto simp: put_level_def split: source.splits)+

lemma mix_level_missing: "or_default level_default (mix_level (or_default mix_default (map_of (ms_mixes (mi_state m)) i)) x) = mirror_level m i x"
  by (cases "map_of (ms_mixes (mi_state m)) i"; cases x)
    (simp_all add: mirror_level_def mix_default_def or_default_def)

lemma solo_other: "k \<noteq> i \<Longrightarrow> find (\<lambda>s. so_mix s = k) (put_solo i srcs ss) = find (\<lambda>s. so_mix s = k) ss"
proof -
  assume k: "k \<noteq> i"
  have "find (\<lambda>s. so_mix s = k) (filter (\<lambda>s. so_mix s \<noteq> i) ss) = find (\<lambda>s. so_mix s = k) ss" using k by (induction ss) auto
  moreover have "find (\<lambda>s. so_mix s = k) (xs @ [\<lparr>so_mix = i, so_sources = srcs\<rparr>]) = find (\<lambda>s. so_mix s = k) xs" for xs
    using k by (induction xs) auto
  ultimately show ?thesis by (simp add: put_solo_def Let_def)
qed

lemma channel_state_same:
  assumes "\<not> hits p x ch"
  shows "channel_state (mirror_change ch m) p x = channel_state m p x"
proof -
  have "mirror_level (mirror_change ch m) (pg_mix p) x = mirror_level m (pg_mix p) x"
    using assms
    by (cases ch) (auto simp: hits_def level_edit mix_level_other mix_level_missing, simp_all add: mirror_level_def)
  moreover have "mirror_solo (mirror_change ch m) (pg_mix p) = mirror_solo m (pg_mix p)"
    using assms by (cases ch) (auto simp: hits_def mirror_solo_def solo_in_def solo_other)
  ultimately show ?thesis by (simp add: channel_state_def masked_def)
qed

lemma channel_state_fold: "list_all (\<lambda>ch. \<not> hits p x ch) cs \<Longrightarrow> channel_state (fold mirror_change cs m) p x = channel_state m p x"
  by (induction cs arbitrary: m) (simp_all add: channel_state_same)

lemma global_change:
  "global_of (mirror_change ch m) p = (case ch of ChMixOut i o' \<Rightarrow> if i = pg_mix p then (ui_db (mo_volume_db o'), mo_muted o') else global_of m p | _ \<Rightarrow> global_of m p)"
  by (cases ch) (auto simp: global_of_def mirror_out_def edit_mix_def put_level_def mix_default_def or_default_def Let_def split: source.splits option.splits)

lemma stems_change:
  "stems_of v (mirror_change ch m) p =
     (case ch of ChGroup i g s \<Rightarrow> if i = pg_mix p \<and> sv_group v = Some g then Some (ui_db (mg_gain_db s), mg_muted s) else stems_of v m p | _ \<Rightarrow> stems_of v m p)"
  by (cases ch; cases "sv_group v")
    (auto simp: stems_of_def mirror_group_def edit_mix_def put_level_def mix_default_def or_default_def Let_def split: source.splits option.splits)

subsection \<open>The page\<close>

text \<open>
  The faders in \<open>t\<close> may have been touched; \<open>gt\<close> and \<open>st\<close>: the volume and the stems strip may have been.
\<close>

definition hands_off :: "string set \<Rightarrow> bool \<Rightarrow> bool \<Rightarrow> ui_page \<Rightarrow> bool" where
  "hands_off t gt st u \<longleftrightarrow> (\<forall>i. touched (up_touched u) i \<longrightarrow> i \<in> t) \<and> (up_global_touched u \<longrightarrow> gt) \<and> (up_stems_touched u \<longrightarrow> st)"

definition page_shows :: "site_view \<Rightarrow> page \<Rightarrow> viewer \<Rightarrow> string set \<Rightarrow> bool \<Rightarrow> bool \<Rightarrow> mirror \<Rightarrow> ui_page \<Rightarrow> bool" where
  "page_shows v p w t gt st m u \<longleftrightarrow>
     (\<forall>i. i \<notin> t \<longrightarrow> look_up (up_channels u) i = look_up (channels v m p w) i) \<and>
     (\<not> gt \<longrightarrow> up_global u = global_of m p) \<and> (\<not> st \<longrightarrow> (case stems_of v m p of Some x \<Rightarrow> up_stems u = x | None \<Rightarrow> True))"

lemma message_hands [simp]: "hands_off t gt st (on_message msg u) = hands_off t gt st u"
  by (cases msg) (auto simp: hands_off_def on_state_def on_solo_def Let_def split: solo_change.splits)

lemma messages_hands [simp]: "hands_off t gt st (fold on_message ms u) = hands_off t gt st u"
  by (induction ms arbitrary: u) simp_all

text \<open>The channels of the page have the fixed part of the mirror's.\<close>

definition same_fixed :: "site_view \<Rightarrow> page \<Rightarrow> viewer \<Rightarrow> string set \<Rightarrow> mirror \<Rightarrow> ui_page \<Rightarrow> bool" where
  "same_fixed v p w t m u \<longleftrightarrow> (\<forall>i. i \<notin> t \<longrightarrow> map_option fixed (look_up (up_channels u) i) = map_option fixed (look_up (channels v m p w) i))"

text \<open>A channel's update brings it to the mirror's state and leaves the others.\<close>

lemma update_shows:
  assumes "same_fixed v p w t m u" and "hands_off t gt st u" and "c \<in> set (channels v m p w)" and "ids_apart v"
  shows "same_fixed v p w t m (on_message (channel_update c) u)"
    and "i \<notin> t \<Longrightarrow> look_up (up_channels (on_message (channel_update c) u)) i = (if i = ch_id c then look_up (channels v m p w) i else look_up (up_channels u) i)"
proof -
  have c: "look_up (channels v m p w) (ch_id c) = Some c" by (rule look_up_in [OF channels_distinct [OF assms(4)] assms(3)])
  have e: "look_up (up_channels (on_message (channel_update c) u)) i = (if i = ch_id c then look_up (channels v m p w) i else look_up (up_channels u) i)"
    if "i \<notin> t" for i
  proof -
    have "map_option fixed (look_up (up_channels u) i) = map_option fixed (look_up (channels v m p w) i)" using assms(1) that by (simp add: same_fixed_def)
    moreover have "\<not> touched (up_touched u) i" using assms(2) that by (auto simp: hands_off_def)
    ultimately show ?thesis using c
      by (auto simp: channel_update_def channel_update_applies_def look_up_update fixed_moved)
  qed
  show "i \<notin> t \<Longrightarrow> look_up (up_channels (on_message (channel_update c) u)) i = (if i = ch_id c then look_up (channels v m p w) i else look_up (up_channels u) i)"
    by (rule e)
  show "same_fixed v p w t m (on_message (channel_update c) u)" using e assms(1) by (auto simp: same_fixed_def)
qed

lemma updates_show:
  assumes "same_fixed v p w t m u" and "hands_off t gt st u" and "set cs \<subseteq> set (channels v m p w)" and "ids_apart v"
  shows "same_fixed v p w t m (fold on_message (map channel_update cs) u) \<and>
    (\<forall>i. i \<notin> t \<longrightarrow> look_up (up_channels (fold on_message (map channel_update cs) u)) i = (if i \<in> ch_id ` set cs then look_up (channels v m p w) i else look_up (up_channels u) i))"
  using assms(1-3)
proof (induction cs arbitrary: u)
  case (Cons c cs)
  note s = update_shows [OF Cons(2,3) _ assms(4), of c]
  from Cons(1) [OF s(1)] Cons(3,4) s(2) show ?case by auto
qed simp

text \<open>All updates of one change.\<close>

lemma solo_fixed: "same_fixed v p w t m u \<Longrightarrow> same_fixed v p w t m (on_message (SvSoloUpdate is) u)"
  by (auto simp: same_fixed_def on_solo_def Let_def show_exclusive_solo_def look_up_map option.map_comp o_def fixed_def moved_to_def [abs_def] split: solo_change.splits)

lemma change_shows:
  assumes "same_fixed v p w t m u" and "hands_off t gt st u" and "ids_apart v"
  shows "same_fixed v p w t m (fold on_message (change_seen v m p w ch) u) \<and>
    (\<forall>x. shown v p w x \<longrightarrow> source_str x \<notin> t \<longrightarrow> look_up (up_channels (fold on_message (change_seen v m p w ch) u)) (source_str x) =
      (if hits p x ch then look_up (channels v m p w) (source_str x) else look_up (up_channels u) (source_str x)))"
proof (cases ch)
  case (ChLevel i y l)
  show ?thesis
  proof (cases "i = pg_mix p \<and> shown v p w y")
    case True
    obtain c where c: "look_up (channels v m p w) (source_str y) = Some c" "(ch_level_db c, ch_muted c, ch_pan c) = channel_state m p y"
      using channel_of(1) [OF assms(3)] True by blast
    then have "change_seen v m p w ch = [channel_update c]" "c \<in> set (channels v m p w)" "ch_id c = source_str y"
      using True ChLevel look_up_id [OF c(1)] c(2) [symmetric]
      by (auto simp: change_seen_def shown_def channel_update_def look_up_def dest!: find_mem split: source.splits)
    with update_shows [OF assms(1,2) _ assms(3), of c] ChLevel True shown_one [OF assms(3)] show ?thesis
      by (auto simp: hits_def)
  next
    case False
    then have "change_seen v m p w ch = []" "\<And>x. shown v p w x \<Longrightarrow> \<not> hits p x ch" using ChLevel by (auto simp: change_seen_def hits_def shown_def)
    then show ?thesis using assms(1) by simp
  qed
next
  case (ChSolo i srcs)
  show ?thesis
  proof (cases "i = pg_mix p")
    case True
    then have "change_seen v m p w ch = SvSoloUpdate (soloed_seen v w srcs) # map channel_update (channels v m p w)" "\<And>x. hits p x ch"
      using ChSolo by (simp_all add: change_seen_def hits_def)
    moreover have "source_str x \<in> ch_id ` set (channels v m p w)" if "shown v p w x" for x
      using channel_of(1) [OF assms(3) that, of m] look_up_None [of "channels v m p w" "source_str x"] by auto
    moreover have "hands_off t gt st (on_message (SvSoloUpdate (soloed_seen v w srcs)) u)" using assms(2) by (simp only: message_hands)
    note updates_show [OF solo_fixed [OF assms(1)] this order_refl assms(3)]
    ultimately show ?thesis by simp
  next
    case False
    then show ?thesis using ChSolo assms(1) by (simp add: change_seen_def hits_def)
  qed
qed (use assms(1) in \<open>auto simp: change_seen_def hits_def same_fixed_def\<close>)

text \<open>All updates of a batch of changes, worked out from the mirror they led to.\<close>

lemma changes_show:
  assumes "same_fixed v p w t m u" and "hands_off t gt st u" and "ids_apart v"
  shows "same_fixed v p w t m (fold on_message (updates_seen v m p w cs) u) \<and>
    (\<forall>x. shown v p w x \<longrightarrow> source_str x \<notin> t \<longrightarrow> look_up (up_channels (fold on_message (updates_seen v m p w cs) u)) (source_str x) =
      (if list_ex (hits p x) cs then look_up (channels v m p w) (source_str x) else look_up (up_channels u) (source_str x)))"
  using assms(1,2)
proof (induction cs arbitrary: u)
  case (Cons ch cs)
  let ?u = "fold on_message (change_seen v m p w ch) u"
  note one = change_shows [OF Cons(2,3) assms(3), of ch]
  have "hands_off t gt st ?u" using Cons(3) by simp
  from Cons(1) [OF conjunct1 [OF one] this] one show ?case by (auto simp: updates_seen_def)
qed (simp add: updates_seen_def)

lemma globals_show:
  assumes "hands_off t gt st u" and "\<not> gt" and "up_global u = global_of m0 p"
  shows "up_global (fold on_message (updates_seen v m p w cs) u) = global_of (fold mirror_change cs m0) p"
  using assms(1,3)
proof (induction cs arbitrary: u m0)
  case (Cons ch cs)
  let ?u = "fold on_message (change_seen v m p w ch) u"
  have upd: "up_global (fold on_message (map channel_update xs) y) = up_global y" for xs y
    by (induction xs arbitrary: y) (simp_all add: channel_update_def)
  have solo: "up_global (on_message (SvSoloUpdate is) y) = up_global y" for "is" y
    by (simp add: on_solo_def Let_def split: solo_change.splits)
  have "up_global ?u = global_of (mirror_change ch m0) p"
    unfolding global_change using Cons(2,3) assms(2)
    by (cases ch) (auto simp: change_seen_def upd solo hands_off_def Let_def simp del: on_message.simps(5) split: prod.splits)
  with Cons(1) [of ?u "mirror_change ch m0"] Cons(2) show ?case by (simp add: updates_seen_def)
qed (simp add: updates_seen_def)

lemma stems_show:
  assumes "hands_off t gt st u" and "\<not> st" and "case stems_of v m0 p of Some x \<Rightarrow> up_stems u = x | None \<Rightarrow> True"
  shows "case stems_of v (fold mirror_change cs m0) p of Some x \<Rightarrow> up_stems (fold on_message (updates_seen v m p w cs) u) = x | None \<Rightarrow> True"
  using assms(1,3)
proof (induction cs arbitrary: u m0)
  case (Cons ch cs)
  let ?u = "fold on_message (change_seen v m p w ch) u"
  have upd: "up_stems (fold on_message (map channel_update xs) y) = up_stems y" for xs y
    by (induction xs arbitrary: y) (simp_all add: channel_update_def)
  have solo: "up_stems (on_message (SvSoloUpdate is) y) = up_stems y" for "is" y
    by (simp add: on_solo_def Let_def split: solo_change.splits)
  have "case stems_of v (mirror_change ch m0) p of Some x \<Rightarrow> up_stems ?u = x | None \<Rightarrow> True"
    unfolding stems_change using Cons(2,3) assms(2)
    by (cases ch) (auto simp: change_seen_def upd solo hands_off_def Let_def simp del: on_message.simps(5) split: prod.splits option.splits)
  with Cons(1) [of ?u "mirror_change ch m0"] Cons(2) show ?case by (auto simp: updates_seen_def split: option.splits)
qed (auto simp: updates_seen_def split: option.splits)

lemma updates_keep_showing:
  assumes "page_shows v p w t gt st m0 u" and "hands_off t gt st u" and "ids_apart v" and "m = fold mirror_change cs m0"
  shows "page_shows v p w t gt st m (fold on_message (updates_seen v m p w cs) u)"
proof -
  let ?u = "fold on_message (updates_seen v m p w cs) u"
  have "same_fixed v p w t m u"
    using assms(1) look_up_fixed [of v m0 p w _ m] by (simp add: same_fixed_def page_shows_def)
  note cs = changes_show [OF this assms(2,3), of cs]
  have "look_up (up_channels ?u) i = look_up (channels v m p w) i" if "i \<notin> t" for i
  proof (cases "look_up (channels v m p w) i")
    case None
    then show ?thesis using conjunct1 [OF cs] that unfolding same_fixed_def by (metis map_option_is_None)
  next
    case (Some d)
    then obtain x where x: "shown v p w x" "source_str x = i" using channel_of(2) [OF assms(3)] by blast
    show ?thesis
    proof (cases "list_ex (hits p x) cs")
      case True
      with cs x that show ?thesis by auto
    next
      case False
      then have s: "channel_state m p x = channel_state m0 p x"
        unfolding assms(4) by (intro channel_state_fold) (simp add: list_all_iff list_ex_iff)
      obtain c0 where c0: "look_up (channels v m0 p w) i = Some c0" "(ch_level_db c0, ch_muted c0, ch_pan c0) = channel_state m0 p x"
        using channel_of(1) [OF assms(3) x(1), of m0] x(2) by auto
      obtain c where c: "look_up (channels v m p w) i = Some c" "(ch_level_db c, ch_muted c, ch_pan c) = channel_state m p x"
        using channel_of(1) [OF assms(3) x(1), of m] x(2) by auto
      have "fixed c0 = fixed c" using look_up_fixed [of v m0 p w i m] c0(1) c(1) by simp
      from fixed_moved [OF this] fixed_moved [of c0 c0] c0(2) c(2) s have "c0 = c" by simp
      with cs x that False c0(1) c(1) assms(1) show ?thesis by (auto simp: page_shows_def)
    qed
  qed
  with globals_show [OF assms(2), of m0] stems_show [OF assms(2), of v m0] assms(1,4) show ?thesis
    by (simp add: page_shows_def)
qed

lemma state_shows:
  assumes "hands_off t gt st u" and "ids_apart v"
  shows "page_shows v p w t gt st m (on_message (state_msg v m p w con) u)"
proof -
  have "look_up (merge_or_replace_channels (channels v m p w) (up_touched u) (up_channels u)) i = look_up (channels v m p w) i" if "i \<notin> t" for i
    by (rule merged [OF channels_distinct [OF assms(2)]]) (use assms(1) that in \<open>auto simp: hands_off_def\<close>)
  then show ?thesis
    by (auto simp: page_shows_def state_msg_def on_state_def page_state_of_def global_of_def stems_of_def Let_def or_default_def split: option.splits)
qed

subsection \<open>The ids of a compiled site\<close>

lemma names_apart:
  assumes "topo_wf t" and "n \<in> set (t_mixes t)"
  shows "List.map_filter (\<lambda>m. map_option m_id (lget (t_mixes t) m)) (m_mixes n) @ List.map_filter (\<lambda>m. map_option m_id (lget (t_mixes t) m)) (m_peers n) =
    map (\<lambda>m. m_id (t_mixes t ! m)) (m_mixes n @ m_peers n)"
    and "distinct (map (\<lambda>m. m_id (t_mixes t ! m)) (m_mixes n @ m_peers n))"
    and "\<forall>m \<in> set (m_mixes n @ m_peers n). m < length (t_mixes t)"
proof -
  obtain k where k: "k < length (t_mixes t)" "n = t_mixes t ! k" using assms(2) by (auto simp: in_set_conv_nth)
  have ok: "distinct (map m_id (t_mixes t))" "heard_ok (t_mixes t)" "peers_ok (t_engineer t) (t_mixes t)" using assms(1) by (simp_all add: topo_wf_def)
  show b: "\<forall>m \<in> set (m_mixes n @ m_peers n). m < length (t_mixes t)"
    using ok(2,3) k by (auto simp: heard_ok_def peers_ok_def dest: less_trans)
  have "distinct (m_mixes n @ m_peers n)" using ok(2,3) k by (auto simp: heard_ok_def peers_ok_def)
  moreover have "inj_on (\<lambda>m. m_id (t_mixes t ! m)) (set (m_mixes n @ m_peers n))"
    using b ok(1) by (auto simp: inj_on_def distinct_conv_nth)
  ultimately show "distinct (map (\<lambda>m. m_id (t_mixes t ! m)) (m_mixes n @ m_peers n))" by (simp only: distinct_map)
  have "List.map_filter (\<lambda>m. map_option m_id (lget (t_mixes t) m)) xs = map (\<lambda>m. m_id (t_mixes t ! m)) xs" if "\<forall>m \<in> set xs. m < length (t_mixes t)" for xs
    using that by (induction xs) (simp_all add: map_filter_simps lget_def)
  then show "List.map_filter (\<lambda>m. map_option m_id (lget (t_mixes t) m)) (m_mixes n) @ List.map_filter (\<lambda>m. map_option m_id (lget (t_mixes t) m)) (m_peers n) =
    map (\<lambda>m. m_id (t_mixes t ! m)) (m_mixes n @ m_peers n)" using b by simp
qed

lemma site_ids_apart:
  assumes "compile hs s = Inr t" and "build_with cf roster (info t) = Some (v, ps)"
  shows "ids_apart v"
proof -
  have wf: "topo_wf t" by (rule compile_wf [OF assms(1)])
  have "distinct (site_ids s)"
    using compile_parts [OF assms(1)] check_ids_ok by metis
  then have apart: "set (map n_id (t_inputs t)) \<inter> set (map m_id (t_mixes t)) = {}"
    by (simp add: site_ids_def compile_ids [OF assms(1), symmetric] del: set_map) auto
  have v: "map iv_id (sv_inputs v) = map n_id (t_inputs t)"
    "\<exists>members. sv_mixes v = map (view_mix members) (ti_mixes (info t))"
    using assms(2) by (auto simp: build_with_def Let_def view_input_def info_def o_def split: option.splits)
  have "distinct (mv_hears x) \<and> set (mv_hears x) \<inter> set (map n_id (t_inputs t)) = {}" if x: "x \<in> set (sv_mixes v)" for x
  proof -
    obtain n where n: "n \<in> set (t_mixes t)" "mv_hears x = map (\<lambda>m. m_id (t_mixes t ! m)) (m_mixes n @ m_peers n)"
      using v(2) x names_apart(1) [OF wf] by (auto simp: view_mix_def Let_def info_def)
    have "set (mv_hears x) \<subseteq> set (map m_id (t_mixes t))" using n names_apart(3) [OF wf n(1)] by auto
    with apart have "set (mv_hears x) \<inter> set (map n_id (t_inputs t)) = {}" by blast
    moreover have "distinct (mv_hears x)" unfolding n(2) by (rule names_apart(2) [OF wf n(1)])
    ultimately show ?thesis by blast
  qed
  then show ?thesis using v(1) wf by (simp add: ids_apart_def topo_wf_def)
qed

subsection \<open>A page's life\<close>

text \<open>
  A page that is opened or gets its state again, follows changes of the engine, and whose user moves
  touched faders; \<open>t\<close>, \<open>gt\<close> and \<open>st\<close> say what the user ever touches.
\<close>

inductive page_runs :: "site_view \<Rightarrow> page \<Rightarrow> viewer \<Rightarrow> string set \<Rightarrow> bool \<Rightarrow> bool \<Rightarrow> mirror \<Rightarrow> ui_page \<Rightarrow> bool"
  for v p w t gt st where
  opened: "hands_off t gt st u \<Longrightarrow> page_runs v p w t gt st m (on_message (state_msg v m p w con) u)"
| again: "page_runs v p w t gt st m u \<Longrightarrow> page_runs v p w t gt st m' (on_message (state_msg v m' p w con) u)"
| changed: "page_runs v p w t gt st m u \<Longrightarrow> m' = fold mirror_change cs m \<Longrightarrow>
    page_runs v p w t gt st m' (fold on_message (updates_seen v m' p w cs) u)"
| gesture: "page_runs v p w t gt st m u \<Longrightarrow> hands_off t gt st u' \<Longrightarrow>
    (\<And>i. i \<notin> t \<Longrightarrow> look_up (up_channels u') i = look_up (up_channels u) i) \<Longrightarrow>
    (\<not> gt \<Longrightarrow> up_global u' = up_global u) \<Longrightarrow> (\<not> st \<Longrightarrow> up_stems u' = up_stems u) \<Longrightarrow> page_runs v p w t gt st m u'"

lemma runs_show:
  assumes "page_runs v p w t gt st m u" and "ids_apart v"
  shows "page_shows v p w t gt st m u \<and> hands_off t gt st u"
  using assms(1)
proof (induction rule: page_runs.induct)
  case (opened u m con)
  then show ?case using state_shows [OF _ assms(2)] by simp
next
  case (again m u m' con)
  then show ?case using state_shows [OF _ assms(2)] by simp
next
  case (changed m u m' cs)
  then show ?case using updates_keep_showing [OF _ _ assms(2)] by simp
next
  case (gesture m u u')
  then show ?case by (auto simp: page_shows_def split: option.splits)
qed


definition demo_ui :: ui_page where
  "demo_ui = \<lparr>up_channels = [], up_connected = False, up_global = (0, True), up_mix = None, up_stems = (0, True), up_group = None,
     up_soloed = {}, up_pre_solo = Map.empty, up_touched = Map.empty, up_global_touched = False, up_stems_touched = False\<rparr>"


end
