(* ===== verification/BandStore.thy ===== *)
theory BandStore
  imports View Lineups
begin

text \<open>
  A member's presets, history, pins and hides (\<open>iem-server/src/band_store.rs\<close>, the files' records of
  \<open>iem-core/src/band.rs\<close>): the store over one data directory, what a page's mix is captured as, and the ramp that
  brings a captured mix back. What the reader finds under a name is its parsed file, text that does not parse, or
  a failed read; a write replaces the file, fails with the old one in place, or fails with the new one in place
  (the directory's sync after the rename). Times are Unix seconds.
\<close>

subsection \<open>Files\<close>

definition BAND_SCHEMA :: nat where "BAND_SCHEMA = 3"
definition PRESETS_FORMAT :: string where "PRESETS_FORMAT = ''iemmixer-presets''"
definition SNAPSHOTS_FORMAT :: string where "SNAPSHOTS_FORMAT = ''iemmixer-snapshots''"
definition CUSTOMIZATION_FORMAT :: string where "CUSTOMIZATION_FORMAT = ''iemmixer-customization''"
definition MAX_PRESETS :: nat where "MAX_PRESETS = 20"
definition MAX_SNAPSHOTS :: nat where "MAX_SNAPSHOTS = 50"

record mix_send =
  sd_src :: source
  sd_gain_db :: f64
  sd_pan :: f64
  sd_muted :: bool

record captured =
  cp_sends :: "mix_send list"
  cp_groups :: "(group_id, f64) btree"
  cp_input_eq :: "(input_id, eq_state) btree"

record preset =
  pr_name :: string
  pr_created_at :: int
  pr_updated_at :: int
  pr_content :: captured
  pr_archived :: bool
  pr_legacy_member :: "string option"

record snapshot =
  sp_timestamp :: int
  sp_label :: string
  sp_pinned :: bool
  sp_content :: captured
  sp_archived :: bool
  sp_legacy_member :: "string option"

record preset_file =
  pf_format :: string
  pf_schema :: nat
  pf_member :: string
  pf_presets :: "preset list"

record snapshot_file =
  sf_format :: string
  sf_schema :: nat
  sf_member :: string
  sf_snapshots :: "snapshot list"

definition preset_file_new :: "string \<Rightarrow> preset list \<Rightarrow> preset_file" where
  "preset_file_new m ps = \<lparr>pf_format = PRESETS_FORMAT, pf_schema = BAND_SCHEMA, pf_member = m, pf_presets = ps\<rparr>"

definition snapshot_file_new :: "string \<Rightarrow> snapshot list \<Rightarrow> snapshot_file" where
  "snapshot_file_new m ss = \<lparr>sf_format = SNAPSHOTS_FORMAT, sf_schema = BAND_SCHEMA, sf_member = m, sf_snapshots = ss\<rparr>"

definition customization_new :: "string \<Rightarrow> source list \<Rightarrow> source list \<Rightarrow> customization_file" where
  "customization_new m ps hs =
     \<lparr>cz_format = CUSTOMIZATION_FORMAT, cz_schema = BAND_SCHEMA, cz_member = m, cz_pinned = ps, cz_hidden = hs\<rparr>"

datatype store_error = StIo string | StCorrupt string string | StFull | StArchived | StBadMember string

datatype 'f stored = ReadFails string | NotParsed string | Parsed 'f

record band_store =
  bs_presets :: "(string, preset_file stored) btree"
  bs_snapshots :: "(string, snapshot_file stored) btree"
  bs_customs :: "(string, customization_file stored) btree"

text \<open>What becomes of a write.\<close>

datatype writing = Writes | WriteFails string | WriteUnsure string

definition band_path :: "string \<Rightarrow> string \<Rightarrow> store_error + string" where
  "band_path kind m =
     (case validate_member_id m of
        Inl e \<Rightarrow> Inl (StBadMember e)
      | Inr _ \<Rightarrow> Inr (kind @ ''/'' @ m @ ''.json''))"

definition band_read ::
  "('f \<Rightarrow> string \<times> nat) \<Rightarrow> string \<Rightarrow> (string \<Rightarrow> 'f) \<Rightarrow> string \<Rightarrow> (string, 'f stored) btree \<Rightarrow> string \<Rightarrow> store_error + 'f" where
  "band_read header fmt new_for kind files m =
     bind_r (band_path kind m) (\<lambda>path.
       case map_of files m of
         None \<Rightarrow> Inr (new_for m)
       | Some (ReadFails e) \<Rightarrow> Inl (StIo e)
       | Some (NotParsed e) \<Rightarrow> Inl (StCorrupt path e)
       | Some (Parsed f) \<Rightarrow>
           if header f = (fmt, BAND_SCHEMA) then Inr f
           else Inl (StCorrupt path (''format '' @ fst (header f) @ '', schema '' @ show_nat (snd (header f)))))"

definition band_write ::
  "writing \<Rightarrow> string \<Rightarrow> string \<Rightarrow> 'f \<Rightarrow> (string, 'f stored) btree \<Rightarrow> (string, 'f stored) btree \<times> (store_error + unit)" where
  "band_write wr kind m f files =
     (case band_path kind m of
        Inl e \<Rightarrow> (files, Inl e)
      | Inr _ \<Rightarrow>
          (case wr of
             Writes \<Rightarrow> (bm_insert m (Parsed f) files, Inr ())
           | WriteFails e \<Rightarrow> (files, Inl (StIo e))
           | WriteUnsure e \<Rightarrow> (bm_insert m (Parsed f) files, Inl (StIo e))))"

definition read_presets :: "band_store \<Rightarrow> string \<Rightarrow> store_error + preset_file" where
  "read_presets b =
     band_read (\<lambda>f. (pf_format f, pf_schema f)) PRESETS_FORMAT (\<lambda>m. preset_file_new m []) ''presets'' (bs_presets b)"

definition read_snapshots :: "band_store \<Rightarrow> string \<Rightarrow> store_error + snapshot_file" where
  "read_snapshots b =
     band_read (\<lambda>f. (sf_format f, sf_schema f)) SNAPSHOTS_FORMAT (\<lambda>m. snapshot_file_new m []) ''snapshots'' (bs_snapshots b)"

definition customization :: "band_store \<Rightarrow> string \<Rightarrow> store_error + customization_file" where
  "customization b =
     band_read (\<lambda>f. (cz_format f, cz_schema f)) CUSTOMIZATION_FORMAT (\<lambda>m. customization_new m [] []) ''customizations'' (bs_customs b)"

definition write_presets :: "writing \<Rightarrow> string \<Rightarrow> preset_file \<Rightarrow> 'r \<Rightarrow> band_store \<Rightarrow> band_store \<times> (store_error + 'r)" where
  "write_presets wr m f r b =
     (let (files, res) = band_write wr ''presets'' m f (bs_presets b)
      in (b\<lparr>bs_presets := files\<rparr>, bind_r res (\<lambda>_. Inr r)))"

definition write_snapshots :: "writing \<Rightarrow> string \<Rightarrow> snapshot_file \<Rightarrow> 'r \<Rightarrow> band_store \<Rightarrow> band_store \<times> (store_error + 'r)" where
  "write_snapshots wr m f r b =
     (let (files, res) = band_write wr ''snapshots'' m f (bs_snapshots b)
      in (b\<lparr>bs_snapshots := files\<rparr>, bind_r res (\<lambda>_. Inr r)))"

subsection \<open>Presets\<close>

definition presets :: "band_store \<Rightarrow> string \<Rightarrow> store_error + preset list" where
  "presets b m = bind_r (read_presets b m) (\<lambda>f. Inr (sort_key (\<lambda>p. - pr_updated_at p) (pf_presets f)))"

definition preset_named :: "band_store \<Rightarrow> string \<Rightarrow> string \<Rightarrow> store_error + preset option" where
  "preset_named b m name = bind_r (presets b m) (\<lambda>ps. Inr (find (\<lambda>p. pr_name p = name) ps))"

definition save_preset :: "writing \<Rightarrow> string \<Rightarrow> string \<Rightarrow> captured \<Rightarrow> int \<Rightarrow> band_store \<Rightarrow> band_store \<times> (store_error + preset)" where
  "save_preset wr m name content now b =
     (case read_presets b m of
        Inl e \<Rightarrow> (b, Inl e)
      | Inr f \<Rightarrow>
          let existing = position (\<lambda>p. pr_name p = name) (pf_presets f);
              made = (\<lambda>t0. \<lparr>pr_name = name, pr_created_at = t0, pr_updated_at = now, pr_content = content, pr_archived = False, pr_legacy_member = None\<rparr>)
          in case existing of
               Some i \<Rightarrow>
                 if pr_archived (pf_presets f ! i) then (b, Inl StArchived)
                 else let p = made (pr_created_at (pf_presets f ! i))
                      in write_presets wr m (f\<lparr>pf_presets := (pf_presets f)[i := p]\<rparr>) p b
             | None \<Rightarrow>
                 if MAX_PRESETS \<le> length (pf_presets f) then (b, Inl StFull)
                 else write_presets wr m (f\<lparr>pf_presets := pf_presets f @ [made now]\<rparr>) (made now) b)"

definition remove_nth :: "nat \<Rightarrow> 'a list \<Rightarrow> 'a list" where
  "remove_nth i xs = take i xs @ drop (Suc i) xs"

definition delete_preset :: "writing \<Rightarrow> string \<Rightarrow> string \<Rightarrow> band_store \<Rightarrow> band_store \<times> (store_error + bool)" where
  "delete_preset wr m name b =
     (case read_presets b m of
        Inl e \<Rightarrow> (b, Inl e)
      | Inr f \<Rightarrow>
          (case position (\<lambda>p. pr_name p = name) (pf_presets f) of
             None \<Rightarrow> (b, Inr False)
           | Some i \<Rightarrow>
               if pr_archived (pf_presets f ! i) then (b, Inl StArchived)
               else write_presets wr m (f\<lparr>pf_presets := remove_nth i (pf_presets f)\<rparr>) True b))"

subsection \<open>History\<close>

definition snapshots :: "band_store \<Rightarrow> string \<Rightarrow> store_error + snapshot list" where
  "snapshots b m = bind_r (read_snapshots b m) (\<lambda>f. Inr (sort_key (\<lambda>s. - sp_timestamp s) (sf_snapshots f)))"

definition snapshot_at :: "band_store \<Rightarrow> string \<Rightarrow> int \<Rightarrow> store_error + snapshot option" where
  "snapshot_at b m ts = bind_r (snapshots b m) (\<lambda>ss. Inr (find (\<lambda>s. sp_timestamp s = ts) ss))"

text \<open>The walk over the taken seconds, in order, from the entry's own on.\<close>

fun next_free :: "int list \<Rightarrow> int \<Rightarrow> int" where
  "next_free [] ts = ts"
| "next_free (t # taken) ts = (if t \<noteq> ts then ts else next_free taken (ts + 1))"

text \<open>Each turn of the loop removes an entry, so as many turns as entries end it.\<close>

fun prune_to :: "nat \<Rightarrow> snapshot list \<Rightarrow> snapshot list" where
  "prune_to 0 ss = ss"
| "prune_to (Suc n) ss =
     (if MAX_SNAPSHOTS < length ss
      then (case position (\<lambda>s. \<not> sp_pinned s) ss of Some i \<Rightarrow> prune_to n (remove_nth i ss) | None \<Rightarrow> ss)
      else ss)"

definition prune_history :: "snapshot list \<Rightarrow> snapshot list" where
  "prune_history ss = prune_to (length ss) (sort_key sp_timestamp ss)"

definition add_snapshot :: "writing \<Rightarrow> string \<Rightarrow> snapshot \<Rightarrow> band_store \<Rightarrow> band_store \<times> (store_error + int)" where
  "add_snapshot wr m s b =
     (case read_snapshots b m of
        Inl e \<Rightarrow> (b, Inl e)
      | Inr f \<Rightarrow>
          let taken = filter (\<lambda>t. sp_timestamp s \<le> t) (sort (remdups (map sp_timestamp (sf_snapshots f))));
              i = next_free taken (sp_timestamp s)
          in write_snapshots wr m (f\<lparr>sf_snapshots := prune_history (sf_snapshots f @ [s\<lparr>sp_timestamp := i\<rparr>])\<rparr>) i b)"

definition edit_snapshot ::
  "writing \<Rightarrow> string \<Rightarrow> int \<Rightarrow> (snapshot list \<Rightarrow> nat \<Rightarrow> snapshot list) \<Rightarrow> band_store \<Rightarrow> band_store \<times> (store_error + bool)" where
  "edit_snapshot wr m ts g b =
     (case read_snapshots b m of
        Inl e \<Rightarrow> (b, Inl e)
      | Inr f \<Rightarrow>
          (case position (\<lambda>s. sp_timestamp s = ts) (sf_snapshots f) of
             None \<Rightarrow> (b, Inr False)
           | Some i \<Rightarrow>
               if sp_archived (sf_snapshots f ! i) then (b, Inl StArchived)
               else write_snapshots wr m (f\<lparr>sf_snapshots := g (sf_snapshots f) i\<rparr>) True b))"

definition delete_snapshot :: "writing \<Rightarrow> string \<Rightarrow> int \<Rightarrow> band_store \<Rightarrow> band_store \<times> (store_error + bool)" where
  "delete_snapshot wr m ts = edit_snapshot wr m ts (\<lambda>ss i. remove_nth i ss)"

definition pin_snapshot :: "writing \<Rightarrow> string \<Rightarrow> int \<Rightarrow> bool \<Rightarrow> string option \<Rightarrow> band_store \<Rightarrow> band_store \<times> (store_error + bool)" where
  "pin_snapshot wr m ts pinned label =
     edit_snapshot wr m ts (\<lambda>ss i. lmod ss i (\<lambda>s. s\<lparr>sp_pinned := pinned, sp_label := or_default (sp_label s) label\<rparr>))"

definition AUTO_LABEL :: string where "AUTO_LABEL = ''auto''"

text \<open>The UTC day of a time is a parameter (\<open>chrono\<close>).\<close>

definition has_auto_snapshot_on :: "(int \<Rightarrow> string) \<Rightarrow> band_store \<Rightarrow> string \<Rightarrow> string \<Rightarrow> store_error + bool" where
  "has_auto_snapshot_on utc_day b m day =
     bind_r (snapshots b m) (\<lambda>ss. Inr (list_ex (\<lambda>s. sp_label s = AUTO_LABEL \<and> utc_day (sp_timestamp s) = day) ss))"

definition save_customization :: "writing \<Rightarrow> string \<Rightarrow> source list \<Rightarrow> source list \<Rightarrow> band_store \<Rightarrow> band_store \<times> (store_error + unit)" where
  "save_customization wr m ps hs b =
     (let (files, res) = band_write wr ''customizations'' m (customization_new m ps hs) (bs_customs b)
      in (b\<lparr>bs_customs := files\<rparr>, res))"

subsection \<open>Capture and ramp\<close>

definition capture :: "site_view \<Rightarrow> mirror \<Rightarrow> page \<Rightarrow> captured" where
  "capture v m p =
     (let hears = (case site_mix v (pg_mix p) of Some x \<Rightarrow> mv_hears x | None \<Rightarrow> []);
          srcs = map (\<lambda>i. SrcInput (iv_id i)) (sv_inputs v) @ map SrcMix hears
      in \<lparr>cp_sends = map (\<lambda>x. let l = mirror_level m (pg_mix p) x
                              in \<lparr>sd_src = x, sd_gain_db = lv_gain_db l, sd_pan = lv_pan l, sd_muted = lv_muted l\<rparr>) srcs,
          cp_groups = (case sv_group v of Some g \<Rightarrow> [(g, mg_gain_db (mirror_group m (pg_mix p) g))] | None \<Rightarrow> []),
          cp_input_eq = bm_collect (map (\<lambda>i. (iv_id i, in_eq (mirror_input m (iv_id i))))
            (filter (\<lambda>i. pg_member p \<noteq> None \<and> iv_owner i = pg_member p) (sv_inputs v)))\<rparr>)"

definition RAMP_STEPS :: nat where "RAMP_STEPS = 5"
definition RAMP_STEP_MS :: nat where "RAMP_STEP_MS = 10"

definition lin_db :: "libm \<Rightarrow> f64 \<Rightarrow> f64" where
  "lin_db lm g = (if 0 < g then lit 20 * flog10 lm g else DB_OFF)"

definition nearly :: "f64 \<Rightarrow> f64 \<Rightarrow> bool" where
  "nearly a b = (abs (a - b) \<le> lit (1 / 10 ^ 9))"

definition send_known :: "site_view \<Rightarrow> page \<Rightarrow> mix_send \<Rightarrow> bool" where
  "send_known v p s =
     (case sd_src s of
        SrcInput i \<Rightarrow> shows_input v (viewer_of_page p) i
      | SrcMix i \<Rightarrow> i \<in> set (heard_mixes v p (viewer_of_page p)))"

definition send_same :: "level \<Rightarrow> mix_send \<Rightarrow> bool" where
  "send_same cur s = (nearly (lv_gain_db cur) (sd_gain_db s) \<and> nearly (lv_pan cur) (sd_pan s) \<and> lv_muted cur = sd_muted s)"

definition level_step :: "libm \<Rightarrow> mix_id \<Rightarrow> level \<Rightarrow> mix_send \<Rightarrow> nat \<Rightarrow> cmd" where
  "level_step lm mix cur s k =
     (let a = (if lv_muted cur then 0 else db_to_lin lm (lv_gain_db cur));
          b = (if sd_muted s then 0 else db_to_lin lm (sd_gain_db s));
          last = (k = RAMP_STEPS); f = f64_of_nat k / f64_of_nat RAMP_STEPS;
          gain_db = (if last \<and> \<not> sd_muted s then sd_gain_db s else lin_db lm (a + (b - a) * f));
          pan = (if last then sd_pan s else lv_pan cur + (sd_pan s - lv_pan cur) * f);
          muted = (if \<not> lv_muted cur \<and> sd_muted s \<and> last then Some True
                   else if lv_muted cur \<and> \<not> sd_muted s \<and> k = 1 then Some False else None)
      in SetLevel mix (sd_src s) (Some gain_db) (Some pan) muted)"

definition group_step :: "libm \<Rightarrow> mix_id \<Rightarrow> group_id \<Rightarrow> f64 \<Rightarrow> f64 \<Rightarrow> nat \<Rightarrow> cmd" where
  "group_step lm mix g cur target k =
     (let a = db_to_lin lm cur; b = db_to_lin lm target;
          gain_db = (if k = RAMP_STEPS then target else lin_db lm (a + (b - a) * f64_of_nat k / f64_of_nat RAMP_STEPS))
      in SetGroup mix g (Some gain_db) None)"

text \<open>The sends and the groups the ramp moves; the others are already there, or skipped and counted.\<close>

definition moving_sends :: "site_view \<Rightarrow> mirror \<Rightarrow> page \<Rightarrow> mix_send list \<Rightarrow> mix_send list" where
  "moving_sends v m p sends = filter (\<lambda>s. send_known v p s \<and> \<not> send_same (mirror_level m (pg_mix p) (sd_src s)) s) sends"

definition moving_groups :: "site_view \<Rightarrow> mirror \<Rightarrow> page \<Rightarrow> (group_id, f64) btree \<Rightarrow> (group_id \<times> f64) list" where
  "moving_groups v m p groups =
     filter (\<lambda>(g, target). sv_group v = Some g \<and> \<not> nearly (mg_gain_db (mirror_group m (pg_mix p) g)) target) groups"

definition ramp :: "libm \<Rightarrow> site_view \<Rightarrow> mirror \<Rightarrow> page \<Rightarrow> mix_send list \<Rightarrow> (group_id, f64) btree \<Rightarrow> cmd list list \<times> nat" where
  "ramp lm v m p sends groups =
     (let mix = pg_mix p;
          moved = moving_sends v m p sends; strips = moving_groups v m p groups;
          steps = map (\<lambda>k. map (\<lambda>s. level_step lm mix (mirror_level m mix (sd_src s)) s k) moved @
                           map (\<lambda>(g, target). group_step lm mix g (mg_gain_db (mirror_group m mix g)) target k) strips) [1..<RAMP_STEPS + 1];
          settle = map (\<lambda>s. SetLevel mix (sd_src s) (Some (sd_gain_db s)) None None) (filter sd_muted moved);
          skipped = length (filter (\<lambda>s. \<not> send_known v p s) sends) + length (filter (\<lambda>(g, _). sv_group v \<noteq> Some g) groups)
      in (filter (\<lambda>s. s \<noteq> []) (steps @ (if settle = [] then [] else [settle])), skipped))"

end
