(* ===== verification/BandProps.thy ===== *)
theory BandProps
  imports BandStore ViewProps "HOL-Library.Sublist" "HOL-Library.Multiset"
begin

text \<open>
  A member's history keeps what it should: which second an entry gets, which entries make room for it; a preset
  reads back as it was saved; and the ramp ends at the captured mix, in the page's own mix only.
\<close>

subsection \<open>The history\<close>

lemma next_free_least:
  assumes "sorted_wrt (<) taken" and "\<forall>t \<in> set taken. ts \<le> t"
  shows "ts \<le> next_free taken ts \<and> next_free taken ts \<notin> set taken \<and> {ts..<next_free taken ts} \<subseteq> set taken"
  using assms
proof (induction taken ts rule: next_free.induct)
  case (2 t taken ts)
  show ?case
  proof (cases "t = ts")
    case True
    with "2.prems" have "\<forall>u \<in> set taken. ts + 1 \<le> u" by auto
    with "2.IH" "2.prems"(1) True
    have ih: "ts + 1 \<le> next_free taken (ts + 1)" "next_free taken (ts + 1) \<notin> set taken" "{ts + 1..<next_free taken (ts + 1)} \<subseteq> set taken"
      by simp_all
    have "{ts..<next_free taken (ts + 1)} \<subseteq> insert ts {ts + 1..<next_free taken (ts + 1)}" by auto
    with ih True show ?thesis by auto
  next
    case False
    with "2.prems" have "ts < t" by auto
    with "2.prems" False show ?thesis by auto
  qed
qed simp

lemma remove_first:
  assumes "position P ss = Some i"
  shows "filter P (remove_nth i ss) = tl (filter P ss)" "filter (\<lambda>x. \<not> P x) (remove_nth i ss) = filter (\<lambda>x. \<not> P x) ss"
    "length (remove_nth i ss) = length ss - 1" "subseq (remove_nth i ss) ss" "filter P ss \<noteq> []"
  using assms
proof (induction ss arbitrary: i)
  case (Cons s ss)
  {
    case 1
    with Cons(1) show ?case by (auto simp: remove_nth_def split: if_splits)
  next
    case 2
    with Cons(2) show ?case by (auto simp: remove_nth_def split: if_splits)
  next
    case 3
    then have "i < length (s # ss)" by (simp only: position_Some_iff)
    then show ?case by (simp add: remove_nth_def)
  next
    case 4
    with Cons(4) show ?case by (auto simp: remove_nth_def list_emb.list_emb_Cons split: if_splits)
  next
    case 5
    then show ?case by (auto split: if_splits dest: Cons(5))
  }
qed auto

lemma prune_to_parts:
  "filter (\<lambda>s. \<not> sp_pinned s) (prune_to n ss) = drop (min n (length ss - MAX_SNAPSHOTS)) (filter (\<lambda>s. \<not> sp_pinned s) ss) \<and>
   filter sp_pinned (prune_to n ss) = filter sp_pinned ss \<and> subseq (prune_to n ss) ss"
proof (induction n ss rule: prune_to.induct)
  case (2 n ss)
  show ?case
  proof (cases "MAX_SNAPSHOTS < length ss")
    case True
    show ?thesis
    proof (cases "position (\<lambda>s. \<not> sp_pinned s) ss")
      case None
      then have "filter (\<lambda>s. \<not> sp_pinned s) ss = []" by (simp add: position_None_iff filter_empty_conv)
      with None show ?thesis by simp
    next
      case (Some i)
      note r = remove_first [OF Some, simplified]
      have "min (Suc n) (length ss - MAX_SNAPSHOTS) = Suc (min n (length ss - 1 - MAX_SNAPSHOTS))" using True by simp
      moreover have "subseq (prune_to n (remove_nth i ss)) ss"
        using "2.IH" [OF True Some] r(4) subseq_order.order_trans by blast
      ultimately show ?thesis using "2.IH" [OF True Some] r True Some
        by (simp add: drop_Suc)
    qed
  qed simp
qed simp

lemma sorted_taken: "sorted_wrt (<) (filter P (sort (remdups xs)))" for xs :: "int list"
  by (simp add: sorted_wrt_filter strict_sorted_iff)

lemma mset_parts: "mset xs = mset (filter P xs) + mset (filter (\<lambda>x. \<not> P x) xs)"
  by (induction xs) auto

lemma prune_splits:
  fixes ss :: "snapshot list"
  defines "gone \<equiv> take (length ss - MAX_SNAPSHOTS) (filter (\<lambda>s. \<not> sp_pinned s) (sort_key sp_timestamp ss))"
  shows "mset ss = mset (prune_history ss) + mset gone"
    and "filter (\<lambda>s. \<not> sp_pinned s) (prune_history ss) = drop (length ss - MAX_SNAPSHOTS) (filter (\<lambda>s. \<not> sp_pinned s) (sort_key sp_timestamp ss))"
    and "g \<in> set gone \<Longrightarrow> \<not> sp_pinned g \<and> (\<forall>k \<in> set (prune_history ss). \<not> sp_pinned k \<longrightarrow> sp_timestamp g \<le> sp_timestamp k)"
proof -
  let ?s = "sort_key sp_timestamp ss" and ?n = "length ss - MAX_SNAPSHOTS"
  let ?u = "filter (\<lambda>s. \<not> sp_pinned s) ?s"
  have parts: "filter (\<lambda>s. \<not> sp_pinned s) (prune_history ss) = drop ?n ?u" "filter sp_pinned (prune_history ss) = filter sp_pinned ?s"
    using prune_to_parts [of "length ss" ?s] by (simp_all add: prune_history_def)
  have "mset (prune_history ss) + mset gone = mset (filter sp_pinned ?s) + (mset (drop ?n ?u) + mset (take ?n ?u))"
    using mset_parts [of "prune_history ss" sp_pinned] by (simp add: parts gone_def)
  also have "mset (drop ?n ?u) + mset (take ?n ?u) = mset ?u" by (metis append_take_drop_id mset_append union_commute)
  also have "mset (filter sp_pinned ?s) + mset ?u = mset ss" using mset_parts [of ?s sp_pinned] by simp
  finally show "mset ss = mset (prune_history ss) + mset gone" by simp
  show "filter (\<lambda>s. \<not> sp_pinned s) (prune_history ss) = drop ?n ?u" by (rule parts(1))
  assume g: "g \<in> set gone"
  have "sorted (map sp_timestamp ?u)" by (simp add: sorted_filter)
  then have "sorted (map sp_timestamp (take ?n ?u @ drop ?n ?u))" by simp
  then have le: "sp_timestamp a \<le> sp_timestamp k" if "a \<in> set (take ?n ?u)" "k \<in> set (drop ?n ?u)" for a k
    using that unfolding map_append sorted_append by auto
  have "k \<in> set (drop ?n ?u)" if "k \<in> set (prune_history ss)" "\<not> sp_pinned k" for k
  proof -
    from that have "k \<in> set (filter (\<lambda>s. \<not> sp_pinned s) (prune_history ss))" by simp
    then show ?thesis by (simp only: parts(1))
  qed
  with g le show "\<not> sp_pinned g \<and> (\<forall>k \<in> set (prune_history ss). \<not> sp_pinned k \<longrightarrow> sp_timestamp g \<le> sp_timestamp k)"
    by (auto simp: gone_def dest: in_set_takeD)
qed

lemma read_snapshots_header: "read_snapshots b m = Inr f \<Longrightarrow> (sf_format f, sf_schema f) = (SNAPSHOTS_FORMAT, BAND_SCHEMA) \<and> band_path ''snapshots'' m = Inr (''snapshots/'' @ m @ ''.json'')"
  by (auto simp: read_snapshots_def band_read_def snapshot_file_new_def band_path_def split: option.splits stored.splits if_splits sum.splits)

lemma snapshots_written:
  assumes "read_snapshots b m = Inr f"
  shows "snd (write_snapshots Writes m (f\<lparr>sf_snapshots := ss\<rparr>) r b) = Inr r"
    and "read_snapshots (fst (write_snapshots Writes m (f\<lparr>sf_snapshots := ss\<rparr>) r b)) m = Inr (f\<lparr>sf_snapshots := ss\<rparr>)"
  using read_snapshots_header [OF assms] by (simp_all add: write_snapshots_def band_write_def read_snapshots_def band_read_def)

lemma snapshot_added:
  assumes "read_snapshots b m = Inr f" and "add_snapshot Writes m s b = (b', r)"
  obtains i where "r = Inr i" and "read_snapshots b' m = Inr (f\<lparr>sf_snapshots := prune_history (sf_snapshots f @ [s\<lparr>sp_timestamp := i\<rparr>])\<rparr>)"
    and "sp_timestamp s \<le> i" and "i \<notin> sp_timestamp ` set (sf_snapshots f)" and "{sp_timestamp s..<i} \<subseteq> sp_timestamp ` set (sf_snapshots f)"
proof -
  let ?taken = "filter (\<lambda>t. sp_timestamp s \<le> t) (sort (remdups (map sp_timestamp (sf_snapshots f))))"
  define i where "i = next_free ?taken (sp_timestamp s)"
  have i: "sp_timestamp s \<le> i" "i \<notin> set ?taken" "{sp_timestamp s..<i} \<subseteq> set ?taken"
    using next_free_least [OF sorted_taken, of "\<lambda>t. sp_timestamp s \<le> t" "map sp_timestamp (sf_snapshots f)" "sp_timestamp s"]
    unfolding i_def by auto
  let ?all = "sf_snapshots f @ [s\<lparr>sp_timestamp := i\<rparr>]"
  have b': "(b', r) = write_snapshots Writes m (f\<lparr>sf_snapshots := prune_history ?all\<rparr>) i b"
    using assms by (simp add: add_snapshot_def Let_def i_def)
  have "r = Inr i" "read_snapshots b' m = Inr (f\<lparr>sf_snapshots := prune_history ?all\<rparr>)"
    using snapshots_written [OF assms(1), of "prune_history ?all" i] by (simp_all add: b' [symmetric])
  with i show thesis by (intro that [of i]) auto
qed

lemma prune_subset: "set (prune_history ss) \<subseteq> set ss"
proof -
  have "set_mset (mset (prune_history ss)) \<subseteq> set_mset (mset ss)" unfolding prune_splits(1) [of ss] set_mset_union by (rule Un_upper1)
  then show ?thesis by simp
qed

lemma prune_bounded: "length (prune_history ss) \<le> MAX_SNAPSHOTS \<or> list_all sp_pinned (prune_history ss)"
proof (cases "length ss - MAX_SNAPSHOTS \<le> length (filter (\<lambda>s. \<not> sp_pinned s) (sort_key sp_timestamp ss))")
  case True
  moreover have "length ss = length (prune_history ss) + length (take (length ss - MAX_SNAPSHOTS) (filter (\<lambda>s. \<not> sp_pinned s) (sort_key sp_timestamp ss)))"
    using arg_cong [OF prune_splits(1) [of ss], of size] by (simp only: size_mset size_union)
  ultimately have "length (prune_history ss) \<le> MAX_SNAPSHOTS" by simp
  then show ?thesis ..
next
  case False
  then have "filter (\<lambda>s. \<not> sp_pinned s) (prune_history ss) = []" by (simp add: prune_splits(2))
  then show ?thesis by (simp add: filter_empty_conv list_all_iff)
qed

text \<open>
  C25. An entry added to a member's history gets the first second from its own on that no entry has, and makes
  room for itself as documented: no pinned entry goes, an entry goes only when more than fifty would be left, the
  ones that go are the oldest unpinned ones, and all others stay as they were.
\<close>

theorem history_makes_room:
  assumes "read_snapshots b m = Inr f" and "add_snapshot Writes m s b = (b', r)"
  shows "\<exists>i ss gone. r = Inr i \<and> read_snapshots b' m = Inr (f\<lparr>sf_snapshots := ss\<rparr>) \<and>
    sp_timestamp s \<le> i \<and> i \<notin> sp_timestamp ` set (sf_snapshots f) \<and> {sp_timestamp s..<i} \<subseteq> sp_timestamp ` set (sf_snapshots f) \<and>
    mset (sf_snapshots f @ [s\<lparr>sp_timestamp := i\<rparr>]) = mset ss + mset gone \<and>
    (\<forall>g \<in> set gone. \<not> sp_pinned g \<and> (\<forall>k \<in> set ss. \<not> sp_pinned k \<longrightarrow> sp_timestamp g \<le> sp_timestamp k)) \<and>
    length gone \<le> Suc (length (sf_snapshots f)) - MAX_SNAPSHOTS \<and> (length ss \<le> MAX_SNAPSHOTS \<or> list_all sp_pinned ss)"
proof -
  from snapshot_added [OF assms] obtain i where i: "r = Inr i" "sp_timestamp s \<le> i" "i \<notin> sp_timestamp ` set (sf_snapshots f)"
      "{sp_timestamp s..<i} \<subseteq> sp_timestamp ` set (sf_snapshots f)"
      "read_snapshots b' m = Inr (f\<lparr>sf_snapshots := prune_history (sf_snapshots f @ [s\<lparr>sp_timestamp := i\<rparr>])\<rparr>)"
    by metis
  let ?all = "sf_snapshots f @ [s\<lparr>sp_timestamp := i\<rparr>]"
  let ?gone = "take (length ?all - MAX_SNAPSHOTS) (filter (\<lambda>s. \<not> sp_pinned s) (sort_key sp_timestamp ?all))"
  have "mset ?all = mset (prune_history ?all) + mset ?gone" by (rule prune_splits(1))
  moreover have "\<forall>g \<in> set ?gone. \<not> sp_pinned g \<and> (\<forall>k \<in> set (prune_history ?all). \<not> sp_pinned k \<longrightarrow> sp_timestamp g \<le> sp_timestamp k)"
    using prune_splits(3) by blast
  moreover have "length ?gone \<le> Suc (length (sf_snapshots f)) - MAX_SNAPSHOTS" by simp
  ultimately show ?thesis using i prune_bounded [of ?all] by blast
qed

definition demo_snapshot :: "int \<Rightarrow> bool \<Rightarrow> bool \<Rightarrow> snapshot" where
  "demo_snapshot t pin arch =
     \<lparr>sp_timestamp = t, sp_label = ''manual'', sp_pinned = pin, sp_content = \<lparr>cp_sends = [], cp_groups = [], cp_input_eq = []\<rparr>,
      sp_archived = arch, sp_legacy_member = None\<rparr>"

definition demo_history :: "snapshot list \<Rightarrow> band_store" where
  "demo_history ss = \<lparr>bs_presets = [], bs_snapshots = [(''anna'', Parsed (snapshot_file_new ''anna'' ss))], bs_customs = []\<rparr>"

lemma demo_member: "validate_member_id ''anna'' = Inr ()"
  by code_simp

lemma demo_history_read: "read_snapshots (demo_history ss) ''anna'' = Inr (snapshot_file_new ''anna'' ss)"
  by (simp add: read_snapshots_def band_read_def band_path_def demo_member demo_history_def snapshot_file_new_def)

theorem history_makes_room_witness:
  "\<exists>b' i. read_snapshots (demo_history [demo_snapshot 7 False False]) ''anna'' = Inr (snapshot_file_new ''anna'' [demo_snapshot 7 False False]) \<and>
     add_snapshot Writes ''anna'' (demo_snapshot 7 True False) (demo_history [demo_snapshot 7 False False]) = (b', Inr i) \<and> 7 < i"
proof -
  let ?b = "demo_history [demo_snapshot 7 False False]"
  obtain b' r where a: "add_snapshot Writes ''anna'' (demo_snapshot 7 True False) ?b = (b', r)" by fastforce
  from history_makes_room [OF demo_history_read a] obtain i where "r = Inr i" "7 \<le> i" "i \<noteq> 7"
    by (auto simp: demo_snapshot_def snapshot_file_new_def)
  with a demo_history_read show ?thesis by auto
qed

lemma demo_history_at: "x \<in> set ss \<Longrightarrow> snapshot_at (demo_history ss) ''anna'' (sp_timestamp x) \<noteq> Inr None"
  by (auto simp: snapshot_at_def snapshots_def demo_history_read snapshot_file_new_def find_None_iff)

lemma added_lost:
  assumes "read_snapshots b m = Inr f" and "list_all sp_pinned (sf_snapshots f)" and "length (sf_snapshots f) = MAX_SNAPSHOTS"
    and "\<not> sp_pinned s" and "add_snapshot Writes m s b = (b', r)"
  shows "\<exists>i. r = Inr i \<and> snapshot_at b' m i = Inr None"
proof -
  from snapshot_added [OF assms(1,5)] obtain i where i: "r = Inr i" "i \<notin> sp_timestamp ` set (sf_snapshots f)"
      "read_snapshots b' m = Inr (f\<lparr>sf_snapshots := prune_history (sf_snapshots f @ [s\<lparr>sp_timestamp := i\<rparr>])\<rparr>)"
    by metis
  let ?all = "sf_snapshots f @ [s\<lparr>sp_timestamp := i\<rparr>]"
  have "filter (\<lambda>s. \<not> sp_pinned s) ?all = [s\<lparr>sp_timestamp := i\<rparr>]"
    using assms(2,4) by (simp add: list_all_iff filter_empty_conv)
  then have pinned: "filter (\<lambda>s. \<not> sp_pinned s) (prune_history ?all) = []" using assms(3) by (simp add: prune_splits(2) filter_sort)
  have "sp_timestamp x \<noteq> i" if x: "x \<in> set (prune_history ?all)" for x
  proof -
    from x pinned have "sp_pinned x" by (simp add: filter_empty_conv)
    moreover have "x \<in> set ?all" using x prune_subset by blast
    ultimately have "x \<in> set (sf_snapshots f)" using assms(4) by auto
    with i(2) show ?thesis by auto
  qed
  then have "find (\<lambda>s. sp_timestamp s = i) (sort_key (\<lambda>s. - sp_timestamp s) (prune_history ?all)) = None" by (simp add: find_None_iff)
  with i show ?thesis by (simp add: snapshot_at_def snapshots_def)
qed


subsection \<open>Presets\<close>

lemma read_presets_header: "read_presets b m = Inr f \<Longrightarrow> (pf_format f, pf_schema f) = (PRESETS_FORMAT, BAND_SCHEMA) \<and> band_path ''presets'' m = Inr (''presets/'' @ m @ ''.json'')"
  by (auto simp: read_presets_def band_read_def preset_file_new_def band_path_def split: option.splits stored.splits if_splits sum.splits)

lemma presets_written:
  assumes "read_presets b m = Inr f"
  shows "snd (write_presets Writes m (f\<lparr>pf_presets := ps\<rparr>) r b) = Inr r"
    and "read_presets (fst (write_presets Writes m (f\<lparr>pf_presets := ps\<rparr>) r b)) m = Inr (f\<lparr>pf_presets := ps\<rparr>)"
  using read_presets_header [OF assms] by (simp_all add: write_presets_def band_write_def read_presets_def band_read_def)

lemma found_in: "find P xs = Some x \<Longrightarrow> x \<in> set xs \<and> P x"
  by (induction xs) (auto split: if_splits)

definition names_once :: "preset list \<Rightarrow> bool" where
  "names_once ps = distinct (map pr_name ps)"

lemma find_named:
  assumes "names_once ps" and "p \<in> set ps"
  shows "find (\<lambda>q. pr_name q = pr_name p) (sort_key g ps) = Some p"
proof -
  have "find (\<lambda>q. pr_name q = pr_name p) (sort_key g ps) \<noteq> None" using assms(2) by (auto simp: find_None_iff)
  then obtain q where q: "find (\<lambda>q. pr_name q = pr_name p) (sort_key g ps) = Some q" by auto
  then have "q \<in> set ps" "pr_name q = pr_name p" using found_in [OF q] by auto
  then have "q = p" using assms by (auto simp: names_once_def distinct_map inj_on_def)
  with q show ?thesis by simp
qed

lemma named_once_update:
  assumes "names_once ps" and "position (\<lambda>p. pr_name p = name) ps = Some i" and "pr_name q = name"
  shows "names_once (ps[i := q]) \<and> q \<in> set (ps[i := q]) \<and> (\<forall>p. pr_name p \<noteq> name \<longrightarrow> p \<in> set (ps[i := q]) \<longleftrightarrow> p \<in> set ps)"
proof -
  from assms(2) have i: "i < length ps" "pr_name (ps ! i) = name" by (auto simp: position_Some_iff)
  have "map pr_name (ps[i := q]) = map pr_name ps" using i assms(3) by (simp add: map_update list_update_same_conv)
  moreover have "p \<in> set (ps[i := q]) \<longleftrightarrow> p \<in> set ps" if "pr_name p \<noteq> name" for p
    using that i assms(3) by (auto simp: in_set_conv_nth nth_list_update split: if_splits)
  ultimately show ?thesis using i assms(1) by (simp add: names_once_def set_update_memI)
qed

lemma named_once_append:
  assumes "names_once ps" and "position (\<lambda>p. pr_name p = name) ps = None" and "pr_name q = name"
  shows "names_once (ps @ [q])"
  using assms by (auto simp: names_once_def position_None_iff)

lemma find_other:
  assumes "names_once ps" "names_once qs" and "\<forall>p. pr_name p = other \<longrightarrow> p \<in> set qs \<longleftrightarrow> p \<in> set ps"
  shows "find (\<lambda>p. pr_name p = other) (sort_key g qs) = find (\<lambda>p. pr_name p = other) (sort_key g ps)"
proof (cases "\<exists>p \<in> set ps. pr_name p = other")
  case True
  then obtain p where p: "p \<in> set ps" "pr_name p = other" by auto
  with assms find_named [of ps p g] find_named [of qs p g] show ?thesis by auto
next
  case False
  with assms(3) have "find (\<lambda>p. pr_name p = other) (sort_key g ps) = None" "find (\<lambda>p. pr_name p = other) (sort_key g qs) = None"
    by (auto simp: find_None_iff)
  then show ?thesis by simp
qed

text \<open>
  A preset that was saved reads back as it was captured, keeps the time it was first made at, and no other
  preset of the member changes: names stay distinct, at most twenty presets are made, and an archived one is
  never overwritten.
\<close>

theorem preset_round_trip:
  assumes "read_presets b m = Inr f" and "names_once (pf_presets f)" and "save_preset Writes m name content now b = (b', Inr p)"
  shows "preset_named b' m name = Inr (Some p) \<and> pr_content p = content \<and> pr_updated_at p = now \<and> \<not> pr_archived p \<and>
    (\<forall>old. preset_named b m name = Inr (Some old) \<longrightarrow> pr_created_at p = pr_created_at old \<and> \<not> pr_archived old) \<and>
    (\<forall>other. other \<noteq> name \<longrightarrow> preset_named b' m other = preset_named b m other) \<and>
    (\<exists>f'. read_presets b' m = Inr f' \<and> names_once (pf_presets f') \<and> length (pf_presets f') \<le> max MAX_PRESETS (length (pf_presets f)))"
proof -
  let ?ps = "pf_presets f" and ?pos = "position (\<lambda>p. pr_name p = name) (pf_presets f)"
  have "\<exists>ps. read_presets b' m = Inr (f\<lparr>pf_presets := ps\<rparr>) \<and> names_once ps \<and> p \<in> set ps \<and> pr_name p = name \<and>
      (\<forall>q. pr_name q \<noteq> name \<longrightarrow> q \<in> set ps \<longleftrightarrow> q \<in> set ?ps) \<and> length ps \<le> max MAX_PRESETS (length ?ps) \<and>
      pr_content p = content \<and> pr_updated_at p = now \<and> \<not> pr_archived p \<and>
      (\<forall>old \<in> set ?ps. pr_name old = name \<longrightarrow> pr_created_at p = pr_created_at old \<and> \<not> pr_archived old)"
  proof (cases ?pos)
    case None
    let ?p = "\<lparr>pr_name = name, pr_created_at = now, pr_updated_at = now, pr_content = content, pr_archived = False, pr_legacy_member = None\<rparr>"
    from None assms have full: "\<not> MAX_PRESETS \<le> length ?ps" by (auto simp: save_preset_def Let_def split: if_splits)
    with None assms have w: "(b', Inr p) = write_presets Writes m (f\<lparr>pf_presets := ?ps @ [?p]\<rparr>) ?p b"
      by (auto simp: save_preset_def Let_def)
    from presets_written [OF assms(1), of "?ps @ [?p]" ?p] have "p = ?p" "read_presets b' m = Inr (f\<lparr>pf_presets := ?ps @ [?p]\<rparr>)"
      unfolding w [symmetric] by simp_all
    with named_once_append [OF assms(2) None, of ?p] full None show ?thesis
      by (intro exI [of _ "?ps @ [?p]"]) (auto simp: position_None_iff)
  next
    case (Some i)
    let ?p = "\<lparr>pr_name = name, pr_created_at = pr_created_at (?ps ! i), pr_updated_at = now, pr_content = content, pr_archived = False, pr_legacy_member = None\<rparr>"
    from Some assms have arch: "\<not> pr_archived (?ps ! i)" by (auto simp: save_preset_def Let_def split: if_splits)
    with Some assms have w: "(b', Inr p) = write_presets Writes m (f\<lparr>pf_presets := ?ps[i := ?p]\<rparr>) ?p b"
      by (auto simp: save_preset_def Let_def)
    from presets_written [OF assms(1), of "?ps[i := ?p]" ?p] have r: "p = ?p" "read_presets b' m = Inr (f\<lparr>pf_presets := ?ps[i := ?p]\<rparr>)"
      unfolding w [symmetric] by simp_all
    have "old = ?ps ! i" if "old \<in> set ?ps" "pr_name old = name" for old
      using that Some assms(2) by (auto simp: position_Some_iff names_once_def distinct_map inj_on_def)
    with r arch named_once_update [OF assms(2) Some, of ?p] show ?thesis
      by (intro exI [of _ "?ps[i := ?p]"]) auto
  qed
  then obtain ps where ps: "read_presets b' m = Inr (f\<lparr>pf_presets := ps\<rparr>)" "names_once ps" "p \<in> set ps" "pr_name p = name"
      "\<forall>q. pr_name q \<noteq> name \<longrightarrow> q \<in> set ps \<longleftrightarrow> q \<in> set ?ps" "length ps \<le> max MAX_PRESETS (length ?ps)"
      "pr_content p = content" "pr_updated_at p = now" "\<not> pr_archived p"
      "\<forall>old \<in> set ?ps. pr_name old = name \<longrightarrow> pr_created_at p = pr_created_at old \<and> \<not> pr_archived old"
    by metis
  have "preset_named b' m name = Inr (Some p)"
    using find_named [OF ps(2,3), of "\<lambda>p. - pr_updated_at p"] ps(1,4) by (simp add: preset_named_def presets_def)
  moreover have "preset_named b' m other = preset_named b m other" if "other \<noteq> name" for other
    using find_other [OF assms(2) ps(2), of other "\<lambda>p. - pr_updated_at p"] ps(1,5) that assms(1) by (simp add: preset_named_def presets_def)
  moreover have "pr_created_at p = pr_created_at old \<and> \<not> pr_archived old" if "preset_named b m name = Inr (Some old)" for old
  proof -
    from that assms(1) have "find (\<lambda>p. pr_name p = name) (sort_key (\<lambda>p. - pr_updated_at p) ?ps) = Some old"
      by (simp add: preset_named_def presets_def)
    from found_in [OF this] have "old \<in> set ?ps" "pr_name old = name" by auto
    with ps(10) show ?thesis by simp
  qed
  ultimately show ?thesis using ps by auto
qed

subsection \<open>The ramp\<close>

text \<open>What a command makes of the level of source \<open>x\<close> in mix \<open>mix\<close>.\<close>

fun takes :: "mix_id \<Rightarrow> source \<Rightarrow> cmd \<Rightarrow> level \<Rightarrow> level" where
  "takes mix x (SetLevel i y g p mu) l =
     (if i = mix \<and> y = x
      then l\<lparr>lv_gain_db := or_default (lv_gain_db l) g, lv_pan := or_default (lv_pan l) p, lv_muted := or_default (lv_muted l) mu\<rparr>
      else l)"
| "takes mix x _ l = l"

lemma takes_group [simp]: "takes mix x (group_step lm i g cur target k) l = l"
  by (simp add: group_step_def Let_def)

lemma takes_groups: "fold (takes mix x) (map (\<lambda>(g, target). group_step lm i g (cur g) target k) gs) l = l"
  by (induction gs) auto

lemma takes_sends:
  assumes "distinct (map sd_src ss)" and "\<And>s l. s \<in> set ss \<Longrightarrow> sd_src s \<noteq> x \<Longrightarrow> takes mix x (f s) l = l"
  shows "fold (takes mix x) (map f ss) l = (case find (\<lambda>s. sd_src s = x) ss of Some s \<Rightarrow> takes mix x (f s) l | None \<Rightarrow> l)"
  using assms
proof (induction ss arbitrary: l)
  case (Cons s ss)
  show ?case
  proof (cases "sd_src s = x")
    case True
    with Cons.prems(1) have "find (\<lambda>s. sd_src s = x) ss = None" by (simp add: find_None_iff) (metis image_eqI)
    with Cons True show ?thesis by simp
  next
    case False
    with Cons show ?thesis by simp
  qed
qed simp

lemma find_filter_src:
  assumes "distinct (map sd_src ss)" and "s \<in> set ss"
  shows "find (\<lambda>t. sd_src t = sd_src s) (filter P ss) = (if P s then Some s else None)"
  using assms
proof (induction ss)
  case (Cons t ss)
  then show ?case by (cases "t = s") (auto simp: find_None_iff image_iff)
qed simp

lemma takes_level_step [simp]:
  "takes mix (sd_src s) (level_step lm mix cur s k) l =
     (case level_step lm mix cur s k of SetLevel _ _ g p mu \<Rightarrow>
        l\<lparr>lv_gain_db := or_default (lv_gain_db l) g, lv_pan := or_default (lv_pan l) p, lv_muted := or_default (lv_muted l) mu\<rparr>)"
  "sd_src s \<noteq> x \<Longrightarrow> takes mix x (level_step lm mix cur s k) l = l"
  by (simp_all add: level_step_def Let_def)

lemma fold_concat_if:
  assumes "\<And>k l. fold T (F k) l = (if c then T (G k) l else l)"
  shows "fold T (concat (map F ks)) l = (if c then fold T (map G ks) l else l)"
  by (induction ks arbitrary: l) (simp_all add: assms)

lemma concat_nonempty: "concat (filter (\<lambda>x. x \<noteq> []) xss) = concat xss"
  by (induction xss) auto

text \<open>What one source hears of the whole ramp: five steps, and the settling command if it ends muted.\<close>

lemma ramp_level:
  assumes "distinct (map sd_src sends)" and "s \<in> set sends"
  shows "fold (takes (pg_mix p) (sd_src s)) (concat (fst (ramp lm v m p sends groups))) l =
    (if send_known v p s \<and> \<not> send_same (mirror_level m (pg_mix p) (sd_src s)) s
     then let l' = fold (takes (pg_mix p) (sd_src s)) (map (level_step lm (pg_mix p) (mirror_level m (pg_mix p) (sd_src s)) s) [1..<RAMP_STEPS + 1]) l
          in if sd_muted s then l'\<lparr>lv_gain_db := sd_gain_db s\<rparr> else l'
     else l)"
proof -
  let ?x = "sd_src s" and ?mix = "pg_mix p"
  let ?moved = "moving_sends v m p sends"
  have d: "distinct (map sd_src ?moved)" using assms(1) by (simp add: moving_sends_def distinct_map_filter)
  have f: "find (\<lambda>t. sd_src t = ?x) ?moved = (if send_known v p s \<and> \<not> send_same (mirror_level m ?mix ?x) s then Some s else None)"
    unfolding moving_sends_def by (rule find_filter_src [OF assms])
  have step: "fold (takes ?mix ?x) (map (\<lambda>s. level_step lm ?mix (mirror_level m ?mix (sd_src s)) s k) ?moved @
      map (\<lambda>(g, target). group_step lm ?mix g (mg_gain_db (mirror_group m ?mix g)) target k) gs) l =
      (if send_known v p s \<and> \<not> send_same (mirror_level m ?mix ?x) s then takes ?mix ?x (level_step lm ?mix (mirror_level m ?mix ?x) s k) l else l)" for k gs l
    by (simp add: takes_sends [OF d] f takes_groups del: takes_level_step(1))
  have ds: "distinct (map sd_src (filter sd_muted ?moved))" using d by (simp add: distinct_map_filter)
  have fs: "find (\<lambda>t. sd_src t = ?x) (filter sd_muted ?moved) =
      (if sd_muted s \<and> send_known v p s \<and> \<not> send_same (mirror_level m ?mix ?x) s then Some s else None)"
    using find_filter_src [OF assms, of "\<lambda>t. sd_muted t \<and> send_known v p t \<and> \<not> send_same (mirror_level m ?mix (sd_src t)) t"]
    by (simp add: moving_sends_def conj_commute conj_left_commute)
  have settle: "fold (takes ?mix ?x) (map (\<lambda>s. SetLevel ?mix (sd_src s) (Some (sd_gain_db s)) None None) (filter sd_muted ?moved)) l =
      (if sd_muted s \<and> send_known v p s \<and> \<not> send_same (mirror_level m ?mix ?x) s then l\<lparr>lv_gain_db := sd_gain_db s\<rparr> else l)" for l
    by (simp add: takes_sends [OF ds] fs or_default_def)
  have steps: "fold (takes ?mix ?x) (concat (map (\<lambda>k. map (\<lambda>s. level_step lm ?mix (mirror_level m ?mix (sd_src s)) s k) ?moved @
        map (\<lambda>(g, target). group_step lm ?mix g (mg_gain_db (mirror_group m ?mix g)) target k) gs) ks)) l =
      (if send_known v p s \<and> \<not> send_same (mirror_level m ?mix ?x) s
       then fold (takes ?mix ?x) (map (level_step lm ?mix (mirror_level m ?mix ?x) s) ks) l else l)" for ks gs l
    by (rule fold_concat_if) (rule step)
  have "concat (fst (ramp lm v m p sends groups)) =
      concat (map (\<lambda>k. map (\<lambda>s. level_step lm ?mix (mirror_level m ?mix (sd_src s)) s k) ?moved @
        map (\<lambda>(g, target). group_step lm ?mix g (mg_gain_db (mirror_group m ?mix g)) target k) (moving_groups v m p groups)) [1..<RAMP_STEPS + 1]) @
      map (\<lambda>s. SetLevel ?mix (sd_src s) (Some (sd_gain_db s)) None None) (filter sd_muted ?moved)"
    by (simp add: ramp_def Let_def concat_nonempty)
  then show ?thesis by (simp add: steps settle Let_def del: takes_level_step(1))
qed


definition demo_view :: site_view where
  "demo_view =
     \<lparr>sv_members = [], sv_inputs = [\<lparr>iv_id = ''mic1'', iv_name = ''Mic'', iv_category = ''mics'', iv_owner = None, iv_group = None\<rparr>],
      sv_mixes = [], sv_group = None, sv_engineer_mix = None, sv_leaders = [], sv_people = [], sv_vacant = [], sv_foreign_inputs = []\<rparr>"

definition demo_send :: mix_send where
  "demo_send = \<lparr>sd_src = SrcInput ''mic1'', sd_gain_db = 0, sd_pan = 0, sd_muted = \<not> lv_muted level_default\<rparr>"


end
