(* ===== verification/Talk.thy ===== *)
theory Talk
  imports Media View
begin

text \<open>
  What a page's session shares with the others: the talkback lock (\<open>iem-server/src/talk.rs\<close>), the clean-up of
  solos (\<open>solo.rs\<close>), the watch on silent clients (\<open>ws_alive.rs\<close>), and the playout of a talker's packets
  (\<open>talkback_buffer.rs\<close>). Instants are milliseconds; the difference of two instants saturates at zero as
  \<open>saturating_duration_since\<close> does. The Opus decoder is a parameter: its state, what a packet decodes to (the
  empty packet conceals a lost one), and its reset.
\<close>

subsection \<open>The talkback lock\<close>

definition SILENCE :: nat where "SILENCE = 2000"

record held =
  hd_session :: u64
  hd_who :: string
  hd_id :: string
  hd_since :: nat
  hd_bound :: bool
  hd_last_frame :: nat

definition held_silent :: "held \<Rightarrow> nat \<Rightarrow> bool" where
  "held_silent h now = (SILENCE < now - hd_last_frame h)"

definition acquire :: "u64 \<Rightarrow> string \<Rightarrow> string \<Rightarrow> nat \<Rightarrow> held option \<Rightarrow> held option \<times> (string + string)" where
  "acquire s who i now l =
     (case l of
        Some h \<Rightarrow> if hd_session h = s then (l, Inr (hd_id h)) else (l, Inl (hd_who h))
      | None \<Rightarrow>
          (Some \<lparr>hd_session = s, hd_who = who, hd_id = i, hd_since = now, hd_bound = False, hd_last_frame = now\<rparr>, Inr i))"

datatype no_bind = NoLock | WrongId | AlreadyBound | TooLate

definition admit :: "string \<Rightarrow> nat \<Rightarrow> held option \<Rightarrow> held option \<times> (no_bind + u64)" where
  "admit i now l =
     (case l of
        None \<Rightarrow> (l, Inl NoLock)
      | Some h \<Rightarrow>
          if hd_id h \<noteq> i then (l, Inl WrongId)
          else if hd_bound h then (l, Inl AlreadyBound)
          else if held_silent h now then (l, Inl TooLate)
          else (Some (h\<lparr>hd_bound := True, hd_last_frame := now\<rparr>), Inr (hd_session h)))"

definition talk_bind :: "string \<Rightarrow> nat \<Rightarrow> held option \<Rightarrow> held option \<times> u64 option" where
  "talk_bind i now l =
     (case admit i now l of (l', Inr s) \<Rightarrow> (l', Some s) | (l', Inl _) \<Rightarrow> (l', None))"

definition talk_frame :: "string \<Rightarrow> nat \<Rightarrow> held option \<Rightarrow> held option" where
  "talk_frame i now l =
     map_option (\<lambda>h. if hd_id h = i then h\<lparr>hd_last_frame := now\<rparr> else h) l"

definition talk_release :: "u64 \<Rightarrow> held option \<Rightarrow> held option \<times> bool" where
  "talk_release s l =
     (case l of Some h \<Rightarrow> if hd_session h = s then (None, True) else (l, False) | None \<Rightarrow> (l, False))"

definition talk_expire :: "nat \<Rightarrow> held option \<Rightarrow> held option \<times> u64 option" where
  "talk_expire now l =
     (case l of Some h \<Rightarrow> if held_silent h now then (None, Some (hd_session h)) else (l, None) | None \<Rightarrow> (l, None))"

definition is_bound :: "string \<Rightarrow> held option \<Rightarrow> bool" where
  "is_bound i l = (case l of Some h \<Rightarrow> hd_bound h \<and> hd_id h = i | None \<Rightarrow> False)"

definition talk_holder :: "held option \<Rightarrow> string option" where
  "talk_holder l = map_option hd_who l"

subsection \<open>Solos of mixes nobody looks at\<close>

definition SOLO_GRACE :: nat where "SOLO_GRACE = 10000"

text \<open>The two hash maps are kept sorted by mix, so the list of due mixes needs no sorting.\<close>

record solo_janitor =
  sj_open :: "(string, nat) btree"
  sj_left :: "(string, nat) btree"

definition janitor_new :: solo_janitor where
  "janitor_new = \<lparr>sj_open = [], sj_left = []\<rparr>"

definition solo_connected :: "string \<Rightarrow> solo_janitor \<Rightarrow> solo_janitor" where
  "solo_connected m j =
     j\<lparr>sj_open := bm_insert m (or_default 0 (map_of (sj_open j) m) + 1) (sj_open j), sj_left := bm_remove m (sj_left j)\<rparr>"

definition solo_disconnected :: "string \<Rightarrow> nat \<Rightarrow> solo_janitor \<Rightarrow> solo_janitor" where
  "solo_disconnected m now j =
     (case map_of (sj_open j) m of
        None \<Rightarrow> j
      | Some n \<Rightarrow>
          if n - 1 = 0 then j\<lparr>sj_open := bm_remove m (sj_open j), sj_left := bm_insert m now (sj_left j)\<rparr>
          else j\<lparr>sj_open := bm_insert m (n - 1) (sj_open j)\<rparr>)"

definition solo_due :: "nat \<Rightarrow> solo_janitor \<Rightarrow> solo_janitor \<times> string list" where
  "solo_due now j =
     (let due = map fst (filter (\<lambda>(_, t). SOLO_GRACE \<le> now - t) (sj_left j))
      in (j\<lparr>sj_left := fold bm_remove due (sj_left j)\<rparr>, due))"

subsection \<open>Silent clients\<close>

definition PING_EVERY :: nat where "PING_EVERY = 10000"
definition SILENT_FOR :: nat where "SILENT_FOR = 30000"
definition SEND_WITHIN :: nat where "SEND_WITHIN = SILENT_FOR"
definition CLOSE_WITHIN :: nat where "CLOSE_WITHIN = 1000"
definition CLOSE_SILENT :: u16 where "CLOSE_SILENT = 4002"

record heard =
  he_at :: nat
  he_limit :: nat

definition heard_new :: "nat \<Rightarrow> nat \<Rightarrow> heard" where
  "heard_new now limit = \<lparr>he_at = now, he_limit = limit\<rparr>"

definition heard_word :: "nat \<Rightarrow> heard \<Rightarrow> heard" where
  "heard_word now h = h\<lparr>he_at := now\<rparr>"

definition silent_since :: "heard \<Rightarrow> nat \<Rightarrow> nat" where
  "silent_since h now = now - he_at h"

definition client_gone :: "heard \<Rightarrow> nat \<Rightarrow> bool" where
  "client_gone h now = (he_limit h \<le> silent_since h now)"

datatype due = DuePing | DueGone nat

definition ping_due :: "heard \<Rightarrow> nat \<Rightarrow> due" where
  "ping_due h now = (if client_gone h now then DueGone (silent_since h now) else DuePing)"

text \<open>How a bounded send ends: \<open>None\<close> stands for a send that has not finished when its limit is over.\<close>

datatype sent = SentDone | SentFailed | SentStalled

definition sent_within :: "nat \<Rightarrow> (nat \<times> bool) option \<Rightarrow> sent" where
  "sent_within limit took =
     (case took of
        None \<Rightarrow> SentStalled
      | Some (t, fine) \<Rightarrow> if limit < t then SentStalled else if fine then SentDone else SentFailed)"

definition sent_ok :: "sent \<Rightarrow> bool" where
  "sent_ok s = (s = SentDone)"

subsection \<open>The talker's packets\<close>

definition PREROLL :: nat where "PREROLL = 2"
definition TB_CAP :: nat where "TB_CAP = 6"
definition MAX_CONCEAL :: nat where "MAX_CONCEAL = 3"
definition FRAME_MS :: nat where "FRAME_MS = 20"
definition TB_FRAME :: nat where "TB_FRAME = 960"

record 'd opus_decoder =
  od_new :: 'd
  od_decode :: "'d \<Rightarrow> u8 list \<Rightarrow> 'd \<times> f32 list option"
  od_reset :: "'d \<Rightarrow> 'd"

record 'd talkback_decoder =
  tb_dec :: 'd
  tb_queue :: "u8 list list"
  tb_playing :: bool
  tb_empty :: nat
  tb_overflows :: nat
  tb_concealed :: nat
  tb_errors :: nat

definition talkback_new :: "'d opus_decoder \<Rightarrow> 'd talkback_decoder" where
  "talkback_new od =
     \<lparr>tb_dec = od_new od, tb_queue = [], tb_playing = False, tb_empty = 0, tb_overflows = 0, tb_concealed = 0, tb_errors = 0\<rparr>"

definition talkback_push :: "u8 list \<Rightarrow> 'd talkback_decoder \<Rightarrow> 'd talkback_decoder" where
  "talkback_push p d =
     (if TB_CAP \<le> length (tb_queue d) then d\<lparr>tb_queue := tl (tb_queue d) @ [p], tb_overflows := tb_overflows d + 1\<rparr>
      else d\<lparr>tb_queue := tb_queue d @ [p]\<rparr>)"

definition fill_ms :: "'d talkback_decoder \<Rightarrow> nat" where
  "fill_ms d = length (tb_queue d) * FRAME_MS"

definition conceal :: "'d opus_decoder \<Rightarrow> 'd talkback_decoder \<Rightarrow> 'd talkback_decoder \<times> f32 list option" where
  "conceal od d =
     (case od_decode od (tb_dec d) [] of
        (x, r) \<Rightarrow> (d\<lparr>tb_dec := x, tb_concealed := tb_concealed d + 1\<rparr>,
                   Some (case r of Some out \<Rightarrow> out | None \<Rightarrow> replicate TB_FRAME 0)))"

definition talkback_tick :: "'d opus_decoder \<Rightarrow> 'd talkback_decoder \<Rightarrow> 'd talkback_decoder \<times> f32 list option" where
  "talkback_tick od d =
     (if \<not> tb_playing d \<and> length (tb_queue d) < PREROLL then (d, None)
      else
        case tb_queue d of
          p # q \<Rightarrow>
            (case od_decode od (tb_dec d) p of
               (x, Some out) \<Rightarrow> (d\<lparr>tb_playing := True, tb_queue := q, tb_empty := 0, tb_dec := x\<rparr>, Some out)
             | (x, None) \<Rightarrow>
                 conceal od (d\<lparr>tb_playing := True, tb_queue := q, tb_empty := 0, tb_dec := x, tb_errors := tb_errors d + 1\<rparr>))
        | [] \<Rightarrow>
            if MAX_CONCEAL < tb_empty d + 1
            then (d\<lparr>tb_playing := False, tb_empty := 0, tb_dec := od_reset od (tb_dec d)\<rparr>, None)
            else conceal od (d\<lparr>tb_empty := tb_empty d + 1\<rparr>))"

definition talkback_clear :: "'d talkback_decoder \<Rightarrow> 'd talkback_decoder" where
  "talkback_clear d = d\<lparr>tb_queue := [], tb_playing := False, tb_empty := 0\<rparr>"

end
