(* ===== verification/Sessions.thy ===== *)
theory Sessions
  imports Talk BandStore ViewProps
begin

text \<open>
  The sessions of the mixer pages (\<open>iem-server/src/mixer_ws.rs\<close>): who may open a page's socket, what a session
  sends first, what it makes of the page's commands, of the engine's events and of a change of band; with the
  engineer's console and alerts and the clean-up task (\<open>console.rs\<close>), the merged meters (\<open>meters.rs\<close>) and the
  parts of \<open>AppState\<close> they go through (\<open>lib.rs\<close>). Instants are milliseconds. The UTC day of a time, the fresh talk
  ids and the outcome of writes come from outside. A hash map is kept sorted by its keys; where the code walks one,
  the order of the walk is the keys'. The cache of the site view is left out: its key is the hash of
  the topology, the roster's digest and the active lineup, all the view is built from.
\<close>

subsection \<open>State\<close>

datatype to = ToAll | ToPage string | ToSession u64

record console_input =
  cn_id :: string
  cn_name :: string
  cn_trim_db :: f32
  cn_muted :: bool
  cn_processing :: bool

record console_info =
  ci_inputs :: "console_input list"
  ci_limiters :: "(string \<times> string \<times> f64) list"
  ci_pages :: "(string \<times> string) list"
  ci_login :: login_stats

text \<open>The messages to a page beside those of its mix; \<open>WsNoState\<close> is the state of a page before the topology is known.\<close>

datatype ws_msg =
    WsHello u16 string u16
  | WsView server_msg
  | WsNoState mix_id
  | WsMeters "(string, f32 list) btree"
  | WsConnectionChanged bool
  | WsCustomizationUpdate "string list" "string list"
  | WsNetworkMode string
  | WsEngineerAlert string string
  | WsAlertCleared string
  | WsActiveAlerts "(string \<times> string) list"
  | WsTalkAcquired string
  | WsTalkBusy string
  | WsTalkReleased
  | WsEngineerTalking bool
  | WsTunnelStatus string nat nat
  | WsConsole console_info
  | WsInputUpdate console_input
  | WsLineupChanged string string

record server =
  se_access :: app_state
  se_mirror :: mirror
  se_connected :: bool
  se_frozen :: bool
  se_missed :: bool
  se_settling :: bool
  se_talk :: "held option"
  se_solo :: solo_janitor
  se_alerts :: "(string, string \<times> string) btree"
  se_active_s :: "f64 list"
  se_bands :: "string option \<Rightarrow> band_store"
  se_auto :: "(string, string) btree"
  se_said :: "(to \<times> ws_msg) list"
  se_sent :: "(cmd \<times> u64 option) list"

text \<open>What a handler meets outside: the instant, the Unix second, the days, a fresh talk id, and whether a write succeeds.\<close>

record moment =
  mo_now :: nat
  mo_unix :: int
  mo_utc_day :: "int \<Rightarrow> string"
  mo_talk_id :: string
  mo_write :: writing

definition app_broadcast :: "to \<Rightarrow> ws_msg \<Rightarrow> server \<Rightarrow> server" where
  "app_broadcast t m a = a\<lparr>se_said := se_said a @ [(t, m)]\<rparr>"

definition addressed :: "to \<Rightarrow> string \<Rightarrow> u64 \<Rightarrow> bool" where
  "addressed t p s = (case t of ToAll \<Rightarrow> True | ToPage q \<Rightarrow> q = p | ToSession r \<Rightarrow> r = s)"

subsection \<open>The site and the band\<close>

definition app_site :: "server \<Rightarrow> site_view option" where
  "app_site a =
     Option.bind (mi_topology (se_mirror a)) (\<lambda>topo. map_option fst (build_with (ap_site (se_access a)) (ap_roster (se_access a)) topo))"

definition app_page :: "server \<Rightarrow> string \<Rightarrow> page option" where
  "app_page a i =
     (case app_site a of
        Some v \<Rightarrow> site_page v i
      | None \<Rightarrow>
          Option.bind (site_members (ap_site (se_access a)) (ap_roster (se_access a))) (\<lambda>ms.
            map_option (\<lambda>m. \<lparr>pg_id = sb_id m, pg_name = sb_name m, pg_mix = sb_mix m, pg_member = Some (sb_id m)\<rparr>)
              (find (\<lambda>m. sb_id m = i) ms)))"

definition active_lineup :: "server \<Rightarrow> lineup option" where
  "active_lineup a = Option.bind (ap_roster (se_access a)) state_lineup"

definition app_band :: "server \<Rightarrow> band_store" where
  "app_band a = se_bands a (map_option lu_id (active_lineup a))"

definition put_band :: "band_store \<Rightarrow> server \<Rightarrow> server" where
  "put_band b a = a\<lparr>se_bands := (se_bands a)(map_option lu_id (active_lineup a) := b)\<rparr>"

definition may_change :: "server \<Rightarrow> page \<Rightarrow> bool" where
  "may_change a p = (\<not> se_frozen a \<and> \<not> se_settling a \<and> app_page a (pg_id p) = Some p)"

subsection \<open>Changes of the mix\<close>

fun changes_mix :: "cmd \<Rightarrow> mix_id \<Rightarrow> bool" where
  "changes_mix (SetLevel m _ _ _ _) x = (m = x)"
| "changes_mix (SetMix m _ _) x = (m = x)"
| "changes_mix (SetGroup m _ _ _) x = (m = x)"
| "changes_mix (SetLimiter m _ _) x = (m = x)"
| "changes_mix (SetEq t _) x = (case t of TgtMix m \<Rightarrow> m = x | TgtGroup m _ \<Rightarrow> m = x | TgtInput _ \<Rightarrow> False)"
| "changes_mix (Batch ops) x = list_ex (\<lambda>c. changes_mix c x) ops"
| "changes_mix _ x = False"

definition snapshot_key :: "string option \<Rightarrow> string \<Rightarrow> string" where
  "snapshot_key l m = (case l of Some i \<Rightarrow> i @ ''/'' @ m | None \<Rightarrow> m)"

definition auto_snapshot :: "moment \<Rightarrow> page \<Rightarrow> server \<Rightarrow> server" where
  "auto_snapshot mo p a =
     (case pg_member p of
        None \<Rightarrow> a
      | Some m \<Rightarrow>
          let key = snapshot_key (map_option lu_id (active_lineup a)) m; today = mo_utc_day mo (mo_unix mo);
              noted = (\<lambda>a. a\<lparr>se_auto := bm_insert key today (se_auto a)\<rparr>)
          in if map_of (se_auto a) key = Some today then a
             else case has_auto_snapshot_on (mo_utc_day mo) (app_band a) m today of
                    Inl _ \<Rightarrow> a
                  | Inr True \<Rightarrow> noted a
                  | Inr False \<Rightarrow>
                      (case app_site a of
                         None \<Rightarrow> a
                       | Some v \<Rightarrow>
                           (case add_snapshot (mo_write mo) m
                                   \<lparr>sp_timestamp = mo_unix mo, sp_label = AUTO_LABEL, sp_pinned = False,
                                    sp_content = capture v (se_mirror a) p, sp_archived = False, sp_legacy_member = None\<rparr> (app_band a) of
                              (b, Inl _) \<Rightarrow> put_band b a
                            | (b, Inr _) \<Rightarrow> noted (put_band b a))))"

datatype change_error = ChangeRefused | ChangeEngine

text \<open>A request reaches the engine's queue while the connection is up.\<close>

definition app_apply :: "moment \<Rightarrow> page \<Rightarrow> cmd list \<Rightarrow> u64 option \<Rightarrow> server \<Rightarrow> server \<times> (change_error + unit)" where
  "app_apply mo p cmds origin a =
     (if \<not> may_change a p then (a, Inl ChangeRefused)
      else let a = (if list_ex (\<lambda>c. changes_mix c (pg_mix p)) cmds then auto_snapshot mo p a else a)
           in if se_connected a then (a\<lparr>se_sent := se_sent a @ map (\<lambda>c. (c, origin)) cmds\<rparr>, Inr ())
              else (a, if cmds = [] then Inr () else Inl ChangeEngine))"

subsection \<open>The console, the alerts, the clean-up\<close>

definition console_trim :: "f64 \<Rightarrow> f32" where
  "console_trim t = as_f32 (fmax t (lit (- 150)))"

definition mix_active_seconds :: "f64 list \<Rightarrow> topology_info \<Rightarrow> mix_id \<Rightarrow> f64" where
  "mix_active_seconds act topo m =
     or_default 0 (Option.bind (position (\<lambda>x. mi_id x = m) (ti_mixes topo)) (lget act))"

definition app_active_seconds :: "server \<Rightarrow> mix_id \<Rightarrow> f64" where
  "app_active_seconds a m =
     (case mi_topology (se_mirror a) of None \<Rightarrow> 0 | Some topo \<Rightarrow> mix_active_seconds (se_active_s a) topo m)"

definition console_of :: "server \<Rightarrow> site_view \<Rightarrow> console_info" where
  "console_of a v =
     \<lparr>ci_inputs = map (\<lambda>i. let s = mirror_input (se_mirror a) (iv_id i)
                            in \<lparr>cn_id = iv_id i, cn_name = iv_name i, cn_trim_db = console_trim (in_trim_db s),
                                cn_muted = in_muted s, cn_processing = in_processing s\<rparr>) (sv_inputs v),
      ci_limiters = map (\<lambda>m. (mv_id m, mv_name m, app_active_seconds a (mv_id m))) (sv_mixes v),
      ci_pages = map (\<lambda>p. (pg_id p, pg_name p)) (mix_pages v),
      ci_login = lg_stats (ap_guard (se_access a))\<rparr>"

definition input_updates :: "site_view \<Rightarrow> change list \<Rightarrow> ws_msg list" where
  "input_updates v cs =
     List.map_filter (\<lambda>c. case c of
         ChInput i s \<Rightarrow>
           map_option (\<lambda>x. WsInputUpdate \<lparr>cn_id = i, cn_name = iv_name x, cn_trim_db = console_trim (in_trim_db s),
             cn_muted = in_muted s, cn_processing = in_processing s\<rparr>) (site_input v i)
       | _ \<Rightarrow> None) cs"

definition call_engineer :: "page \<Rightarrow> server \<Rightarrow> server" where
  "call_engineer p a =
     (case pg_member p of
        None \<Rightarrow> a
      | Some m \<Rightarrow>
          if m = ENGINEER \<or> map_of (se_alerts a) m \<noteq> None then a
          else app_broadcast (ToPage m) (WsEngineerAlert m []) (app_broadcast (ToPage ENGINEER) (WsEngineerAlert m (pg_name p))
                 (a\<lparr>se_alerts := bm_insert m (m, pg_name p) (se_alerts a)\<rparr>)))"

definition tell_cleared :: "string \<Rightarrow> server \<Rightarrow> server" where
  "tell_cleared m a = app_broadcast (ToPage m) (WsAlertCleared m) (app_broadcast (ToPage ENGINEER) (WsAlertCleared m) a)"

definition clear_alert :: "page \<Rightarrow> server \<Rightarrow> server" where
  "clear_alert p a =
     (let (left, cleared) =
        (if pg_id p = ENGINEER then ([], bm_keys (se_alerts a))
         else if map_of (se_alerts a) (pg_id p) \<noteq> None then (bm_remove (pg_id p) (se_alerts a), [pg_id p])
         else (se_alerts a, []))
      in fold tell_cleared cleared (a\<lparr>se_alerts := left\<rparr>))"

definition alert_catchup :: "(string, string \<times> string) btree \<Rightarrow> string \<Rightarrow> ws_msg option" where
  "alert_catchup active p =
     (if p = ENGINEER then if active = [] then None else Some (WsActiveAlerts (sort_key fst (map snd active)))
      else if map_of active p \<noteq> None then Some (WsEngineerAlert p []) else None)"

definition JANITOR_PERIOD :: nat where "JANITOR_PERIOD = 250"

definition clear_solo :: "string \<Rightarrow> server \<Rightarrow> server" where
  "clear_solo m a =
     (if mirror_solo (se_mirror a) m = [] \<or> \<not> se_connected a then a
      else a\<lparr>se_sent := se_sent a @ [(SetSolo m [], None)]\<rparr>)"

definition janitor_tick :: "nat \<Rightarrow> server \<Rightarrow> server" where
  "janitor_tick now a =
     (let (j, due) = solo_due now (se_solo a);
          a = fold clear_solo due (a\<lparr>se_solo := j\<rparr>);
          (l, expired) = talk_expire now (se_talk a);
          a = a\<lparr>se_talk := l\<rparr>
      in case expired of
           None \<Rightarrow> a
         | Some s \<Rightarrow> app_broadcast ToAll (WsEngineerTalking False) (app_broadcast (ToSession s) WsTalkReleased a))"

subsection \<open>Meters\<close>

definition METER_PERIOD_MS :: nat where "METER_PERIOD_MS = 100"

record merged =
  mg_in :: "f32 list list"
  mg_mix :: "f32 list list"
  mg_grp :: "f32 list list"
  mg_act :: "f64 list"
  mg_own :: "f32 list list"

record meter_merge =
  mm_cur :: merged
  mm_fresh :: bool
  mm_active_s :: "f64 list"

definition merged_default :: merged where
  "merged_default = \<lparr>mg_in = [], mg_mix = [], mg_grp = [], mg_act = [], mg_own = []\<rparr>"

definition merge_default :: meter_merge where
  "merge_default = \<lparr>mm_cur = merged_default, mm_fresh = False, mm_active_s = []\<rparr>"

text \<open>\<open>resize\<close> to the longer list, then the larger of each pair of peaks.\<close>

definition merge_peaks :: "f32 list list \<Rightarrow> f32 list list \<Rightarrow> f32 list list" where
  "merge_peaks into from =
     (let grown = into @ replicate (length from - length into) [0, 0]
      in map2 (\<lambda>a b. map2 fmax a b) grown from @ drop (length from) grown)"

definition merge_push :: "meters \<Rightarrow> meter_merge \<Rightarrow> meter_merge" where
  "merge_push m mm =
     (let c = mm_cur mm
      in mm\<lparr>mm_cur := c\<lparr>mg_in := merge_peaks (mg_in c) (me_inputs m), mg_mix := merge_peaks (mg_mix c) (me_mixes m),
              mg_grp := merge_peaks (mg_grp c) (me_groups m), mg_own := merge_peaks (mg_own c) (me_own m)\<rparr>,
            mm_active_s := me_active_s m, mm_fresh := True\<rparr>)"

definition merge_take :: "meter_merge \<Rightarrow> meter_merge \<times> merged option" where
  "merge_take mm =
     (if \<not> mm_fresh mm then (mm, None)
      else (mm\<lparr>mm_fresh := False, mm_cur := merged_default\<rparr>, Some ((mm_cur mm)\<lparr>mg_act := mm_active_s mm\<rparr>)))"

text \<open>The tick of \<open>meter_task\<close>: the limiter counters for the server, the merged peaks for the pages.\<close>

definition meter_tick :: "meter_merge \<Rightarrow> server \<Rightarrow> meter_merge \<times> server \<times> merged option" where
  "meter_tick mm a =
     (case merge_take mm of
        (mm', None) \<Rightarrow> (mm', a, None)
      | (mm', Some m) \<Rightarrow> (mm', a\<lparr>se_active_s := mg_act m\<rparr>, Some m))"

definition page_meters :: "merged \<Rightarrow> topology_info \<Rightarrow> page \<Rightarrow> group_id option \<Rightarrow> (string, f32 list) btree" where
  "page_meters m topo p grp =
     (let put = (\<lambda>ps out. fold (\<lambda>(k, v). bm_insert k v) ps out);
          out = put (zip (map ii_id (ti_inputs topo)) (mg_in m)) [];
          out = put (zip (map mi_id (ti_mixes topo)) (mg_mix m)) out;
          peers = (case find (\<lambda>x. mi_id x = pg_mix p) (ti_mixes topo) of Some x \<Rightarrow> mi_peers x | None \<Rightarrow> []);
          out = put (List.map_filter (\<lambda>q. map_option (Pair q) (Option.bind (position (\<lambda>x. mi_id x = q) (ti_mixes topo)) (lget (mg_own m)))) peers) out;
          mix = position (\<lambda>x. mi_id x = pg_mix p) (ti_mixes topo);
          g = Option.bind grp (\<lambda>g. position (\<lambda>x. gi_id x = g) (ti_groups topo))
      in case (mix, g, grp) of
           (Some i, Some j, Some gid) \<Rightarrow>
             (case lget (mg_grp m) (i * length (ti_groups topo) + j) of Some v \<Rightarrow> bm_insert gid v out | None \<Rightarrow> out)
         | _ \<Rightarrow> out)"

definition meters_msg :: "server \<Rightarrow> page \<Rightarrow> viewer \<Rightarrow> merged \<Rightarrow> ws_msg option" where
  "meters_msg a p w m =
     (case (app_site a, mi_topology (se_mirror a)) of
        (Some v, Some topo) \<Rightarrow>
          Some (WsMeters (filter (\<lambda>(i, _). site_input v i = None \<or> shows_input v w i) (page_meters m topo p (sv_group v))))
      | _ \<Rightarrow> None)"

subsection \<open>Who may open a page\<close>

definition UI_PROTO :: u16 where "UI_PROTO = 3"
definition MIN_CLIENT_PROTO :: u16 where "MIN_CLIENT_PROTO = 3"
definition CLOSE_RELOAD :: u16 where "CLOSE_RELOAD = 4001"
definition CLOSE_LINEUP :: u16 where "CLOSE_LINEUP = 4003"

definition claims_at :: "jwt_lib \<Rightarrow> string option \<Rightarrow> string \<Rightarrow> u64 \<Rightarrow> rejection + auth_claims" where
  "claims_at jl token secret now =
     (case token of
        None \<Rightarrow> Inl (error_response 401 ''UNAUTHORIZED'')
      | Some t \<Rightarrow>
          (case extract_claims jl t secret now of
             None \<Rightarrow> Inl (error_response 401 ''UNAUTHORIZED'')
           | Some c \<Rightarrow> if au_exp c < now then Inl (error_response 401 ''TOKEN_EXPIRED'') else Inr c))"

definition may_open :: "auth_claims \<Rightarrow> page \<Rightarrow> bool" where
  "may_open c p = (au_engineer c \<or> pg_member p = Some (au_sub c))"

definition proto_ok :: "u16 \<Rightarrow> bool" where
  "proto_ok n = (MIN_CLIENT_PROTO \<le> n \<and> n \<le> UI_PROTO)"

text \<open>The upgrade of \<open>/ws/{page}\<close>: the page and the viewer of the session that opens.\<close>

definition ws_mixer :: "jwt_lib \<Rightarrow> string option \<Rightarrow> u64 \<Rightarrow> string \<Rightarrow> server \<Rightarrow> rejection + page \<times> viewer" where
  "ws_mixer jl token now page_id a =
     bind_r (claims_at jl token (ap_jwt_secret (se_access a)) now) (\<lambda>c.
       if \<not> subject_known (se_access a) c then Inl (error_response 401 ''UNAUTHORIZED'')
       else if \<not> au_engineer c \<and> au_sub c \<noteq> page_id then Inl (error_response 403 ''FORBIDDEN'')
       else case app_page a page_id of
              None \<Rightarrow> Inl (error_response 404 ''NOT_FOUND'')
            | Some p \<Rightarrow>
                if \<not> may_open c p then Inl (error_response 403 ''FORBIDDEN'')
                else Inr (p, \<lparr>vw_sub = au_sub c, vw_engineer = au_engineer c\<rparr>))"

subsection \<open>What a session sends\<close>

definition full_state :: "server \<Rightarrow> page \<Rightarrow> viewer \<Rightarrow> ws_msg" where
  "full_state a p w =
     (case app_site a of
        Some v \<Rightarrow> WsView (state_msg v (se_mirror a) p w (se_connected a))
      | None \<Rightarrow> WsNoState (pg_mix p))"

definition solo_msg :: "server \<Rightarrow> page \<Rightarrow> viewer \<Rightarrow> ws_msg" where
  "solo_msg a p w =
     (let srcs = mirror_solo (se_mirror a) (pg_mix p)
      in WsView (SvSoloUpdate (case app_site a of Some v \<Rightarrow> soloed_seen v w srcs | None \<Rightarrow> map source_str srcs)))"

definition customization_msg :: "server \<Rightarrow> page \<Rightarrow> ws_msg" where
  "customization_msg a p =
     (case map_option (customization (app_band a)) (pg_member p) of
        Some (Inr c) \<Rightarrow> WsCustomizationUpdate (map source_str (cz_pinned c)) (map source_str (cz_hidden c))
      | _ \<Rightarrow> WsCustomizationUpdate [] [])"

definition lineup_msg :: "server \<Rightarrow> ws_msg option" where
  "lineup_msg a = map_option (\<lambda>l. WsLineupChanged (lu_id l) (lu_name l)) (active_lineup a)"

definition opt_list :: "'a option \<Rightarrow> 'a list" where
  "opt_list x = (case x of Some y \<Rightarrow> [y] | None \<Rightarrow> [])"

definition persons_page :: "page \<Rightarrow> bool" where
  "persons_page p = (case pg_member p of Some m \<Rightarrow> m \<noteq> ENGINEER | None \<Rightarrow> False)"

datatype lineup_effect = LineupCloses "ws_msg list" u16 | LineupRefreshes "ws_msg list"

definition on_lineup :: "server \<Rightarrow> page \<Rightarrow> viewer \<Rightarrow> lineup_effect" where
  "on_lineup a p w =
     (if persons_page p then LineupCloses (opt_list (lineup_msg a)) CLOSE_LINEUP
      else LineupRefreshes (opt_list (lineup_msg a) @ [full_state a p w, customization_msg a p]))"

definition session_opening :: "server \<Rightarrow> page \<Rightarrow> viewer \<Rightarrow> ws_msg list" where
  "session_opening a p w =
     opt_list (lineup_msg a) @ [full_state a p w, customization_msg a p, solo_msg a p w] @
     opt_list (alert_catchup (se_alerts a) (pg_id p))"

definition frozen_for_a_page :: "server \<Rightarrow> server \<times> bool" where
  "frozen_for_a_page a = (if se_frozen a then a\<lparr>se_missed := True\<rparr> else a, se_frozen a)"

definition closing :: "page \<Rightarrow> server \<Rightarrow> server \<times> bool" where
  "closing p a =
     (if \<not> persons_page p then (a, False)
      else case frozen_for_a_page a of (a', frozen) \<Rightarrow> (a', frozen \<or> app_page a (pg_id p) \<noteq> Some p))"

definition own_echo_seen :: "site_view \<Rightarrow> mirror \<Rightarrow> page \<Rightarrow> viewer \<Rightarrow> change list \<Rightarrow> server_msg list" where
  "own_echo_seen v m p w cs =
     filter (\<lambda>x. case x of SvChannelUpdate _ _ _ _ \<Rightarrow> True | _ \<Rightarrow> False)
       (updates_seen v m p w (filter (\<lambda>c. case c of ChSolo _ _ \<Rightarrow> True | _ \<Rightarrow> False) cs))"

datatype engine_news = EvConnected | EvDisconnected | EvWasReset | EvHasChanged "u64 option" "change list" | EvOther

definition engine_event :: "u64 \<Rightarrow> page \<Rightarrow> viewer \<Rightarrow> engine_news \<Rightarrow> server \<Rightarrow> server \<times> ws_msg list" where
  "engine_event s p w e a =
     (case e of
        EvConnected \<Rightarrow> (a, [WsConnectionChanged True, full_state a p w])
      | EvDisconnected \<Rightarrow> (a, [WsConnectionChanged False])
      | EvWasReset \<Rightarrow>
          (case closing p a of (a', shuts) \<Rightarrow> (a', if shuts then [] else [full_state a p w, solo_msg a p w]))
      | EvHasChanged origin cs \<Rightarrow>
          (case closing p a of (a', shuts) \<Rightarrow>
             (a', if shuts then []
                  else case app_site a of
                         None \<Rightarrow> []
                       | Some v \<Rightarrow>
                           map WsView (if origin = Some s then own_echo_seen v (se_mirror a) p w cs else updates_seen v (se_mirror a) p w cs) @
                           (if vw_engineer w then input_updates v cs else [])))
      | EvOther \<Rightarrow> (a, []))"

subsection \<open>A session's life\<close>

definition session_opens :: "page \<Rightarrow> server \<Rightarrow> server" where
  "session_opens p a = a\<lparr>se_solo := solo_connected (pg_mix p) (se_solo a)\<rparr>"

definition session_cleanup :: "nat \<Rightarrow> page \<Rightarrow> u64 \<Rightarrow> server \<Rightarrow> server" where
  "session_cleanup now p s a =
     (let a = a\<lparr>se_solo := solo_disconnected (pg_mix p) now (se_solo a)\<rparr>
      in case talk_release s (se_talk a) of
           (l, True) \<Rightarrow> app_broadcast ToAll (WsEngineerTalking False) (a\<lparr>se_talk := l\<rparr>)
         | (l, False) \<Rightarrow> a\<lparr>se_talk := l\<rparr>)"

definition update_customization :: "moment \<Rightarrow> page \<Rightarrow> string list \<Rightarrow> string list \<Rightarrow> server \<Rightarrow> server" where
  "update_customization mo p pins hides a =
     (case (pg_member p, app_site a) of
        (Some m, Some v) \<Rightarrow>
          let known = (\<lambda>is. List.map_filter (\<lambda>i. map_option (Pair i) (view_source v p i)) is);
              ps = known pins; hs = known hides
          in if \<not> may_change a p then a
             else (case save_customization (mo_write mo) m (map snd ps) (map snd hs) (app_band a) of
                     (b, Inl _) \<Rightarrow> put_band b a
                   | (b, Inr _) \<Rightarrow> app_broadcast (ToPage (pg_id p)) (WsCustomizationUpdate (map fst ps) (map fst hs)) (put_band b a))
      | _ \<Rightarrow> a)"

definition talk_start :: "moment \<Rightarrow> u64 \<Rightarrow> viewer \<Rightarrow> server \<Rightarrow> server \<times> ws_msg list" where
  "talk_start mo s w a =
     (if \<not> vw_engineer w then (a, [])
      else case acquire s (vw_sub w) (mo_talk_id mo) (mo_now mo) (se_talk a) of
             (l, Inr i) \<Rightarrow> (app_broadcast ToAll (WsEngineerTalking True) (a\<lparr>se_talk := l\<rparr>), [WsTalkAcquired i])
           | (l, Inl holder) \<Rightarrow> (a\<lparr>se_talk := l\<rparr>, [WsTalkBusy holder]))"

definition talk_stop :: "u64 \<Rightarrow> server \<Rightarrow> server \<times> ws_msg list" where
  "talk_stop s a =
     (case talk_release s (se_talk a) of
        (l, True) \<Rightarrow> (app_broadcast ToAll (WsEngineerTalking False) (a\<lparr>se_talk := l\<rparr>), [WsTalkReleased])
      | (l, False) \<Rightarrow> (a\<lparr>se_talk := l\<rparr>, []))"

definition session_handle :: "moment \<Rightarrow> u64 \<Rightarrow> page \<Rightarrow> viewer \<Rightarrow> client_msg \<Rightarrow> server \<Rightarrow> server \<times> ws_msg list" where
  "session_handle mo s p w msg a =
     (case msg of
        CmUpdateCustomization pins hides \<Rightarrow> (update_customization mo p pins hides a, [])
      | CmGetEqParams t \<Rightarrow>
          (a, case app_site a of
                None \<Rightarrow> []
              | Some v \<Rightarrow> (case eq_params_msg v (se_mirror a) p w t of Inr m \<Rightarrow> [WsView m] | Inl _ \<Rightarrow> []))
      | CmGetLimiterParams \<Rightarrow> (a, [WsView (limiter_msg (se_mirror a) p (app_active_seconds a (pg_mix p)))])
      | CmGetConsole \<Rightarrow>
          (a, case app_site a of Some v \<Rightarrow> if vw_engineer w then [WsConsole (console_of a v)] else [] | None \<Rightarrow> [])
      | CmCallEngineer \<Rightarrow> (call_engineer p a, [])
      | CmClearAlert \<Rightarrow> (clear_alert p a, [])
      | CmTalkStart \<Rightarrow> talk_start mo s w a
      | CmTalkStop \<Rightarrow> talk_stop s a
      | CmListenStart _ \<Rightarrow> (a, [])
      | CmListenStop \<Rightarrow> (a, [])
      | _ \<Rightarrow>
          (case app_site a of
             None \<Rightarrow> (a, [])
           | Some v \<Rightarrow>
               (case view_command v (se_mirror a) p w msg of
                  Inl _ \<Rightarrow> (a, [])
                | Inr cmd \<Rightarrow> (fst (app_apply mo p [cmd] (Some s) a), []))))"

end
