(* ===== verification/TalkProps.thy ===== *)
theory TalkProps
  imports Talk "HOL-Library.Sublist"
begin

text \<open>
  The talker's packets are played in the order they came, each at most once, gaps covered by at most three
  concealed frames; the solo clean-up finds a mix exactly when its last page has been closed for ten seconds.
\<close>

subsection \<open>What a talker's decoder plays\<close>

text \<open>
  A schedule names what the Opus decoder is fed, and \<open>plays\<close> what a decoder fed with it gives: the reference
  the buffered playout is compared with.
\<close>

datatype slot = Plays "u8 list" | Hides | Rests

definition cover :: "'d opus_decoder \<Rightarrow> 'd \<Rightarrow> 'd \<times> f32 list" where
  "cover od x = (case od_decode od x [] of (y, r) \<Rightarrow> (y, case r of Some out \<Rightarrow> out | None \<Rightarrow> replicate TB_FRAME 0))"

fun play_slot :: "'d opus_decoder \<Rightarrow> slot \<Rightarrow> 'd \<times> f32 list list \<Rightarrow> 'd \<times> f32 list list" where
  "play_slot od (Plays p) (x, outs) =
     (case od_decode od x p of
        (y, Some out) \<Rightarrow> (y, outs @ [out])
      | (y, None) \<Rightarrow> (case cover od y of (z, out) \<Rightarrow> (z, outs @ [out])))"
| "play_slot od Hides (x, outs) = (case cover od x of (y, out) \<Rightarrow> (y, outs @ [out]))"
| "play_slot od Rests (x, outs) = (od_reset od x, outs)"

definition plays :: "'d opus_decoder \<Rightarrow> slot list \<Rightarrow> 'd \<times> f32 list list" where
  "plays od ss = fold (play_slot od) ss (od_new od, [])"

fun packets :: "slot list \<Rightarrow> u8 list list" where
  "packets [] = []"
| "packets (Plays p # ss) = p # packets ss"
| "packets (_ # ss) = packets ss"

lemma packets_append [simp]: "packets (xs @ ys) = packets xs @ packets ys"
  by (induction xs rule: packets.induct) auto

lemma plays_append: "plays od (ss @ [s]) = play_slot od s (plays od ss)"
  by (simp add: plays_def)

text \<open>A talkback socket's life: packets come in, the playout clock ticks.\<close>

datatype tb_event = Pushed "u8 list" | Ticked

fun tb_step :: "'d opus_decoder \<Rightarrow> tb_event \<Rightarrow> 'd talkback_decoder \<times> f32 list list \<Rightarrow> 'd talkback_decoder \<times> f32 list list" where
  "tb_step od (Pushed p) (d, outs) = (talkback_push p d, outs)"
| "tb_step od Ticked (d, outs) =
     (case talkback_tick od d of (d', Some f) \<Rightarrow> (d', outs @ [f]) | (d', None) \<Rightarrow> (d', outs))"

definition tb_run :: "'d opus_decoder \<Rightarrow> tb_event list \<Rightarrow> 'd talkback_decoder \<times> f32 list list" where
  "tb_run od es = fold (tb_step od) es (talkback_new od, [])"

definition arrivals :: "tb_event list \<Rightarrow> u8 list list" where
  "arrivals es = List.map_filter (\<lambda>e. case e of Pushed p \<Rightarrow> Some p | Ticked \<Rightarrow> None) es"

lemma arrivals_snoc [simp]:
  "arrivals (es @ [Pushed p]) = arrivals es @ [p]"
  "arrivals (es @ [Ticked]) = arrivals es"
  by (simp_all add: arrivals_def map_filter_def)

lemma tb_run_snoc: "tb_run od (es @ [e]) = tb_step od e (tb_run od es)"
  by (simp add: tb_run_def)

text \<open>The hidden frames at the end of a schedule, and the longest run of them.\<close>

fun hidden :: "slot list \<Rightarrow> nat \<times> nat" where
  "hidden [] = (0, 0)"
| "hidden (s # ss) = (case hidden ss of (n, m) \<Rightarrow> if s = Hides then (n + 1, max m (n + 1)) else (0, m))"

definition follows :: "'d opus_decoder \<Rightarrow> tb_event list \<Rightarrow> 'd talkback_decoder \<times> f32 list list \<Rightarrow> slot list \<Rightarrow> bool" where
  "follows od es r ss =
     (plays od ss = (tb_dec (fst r), snd r) \<and>
      subseq (packets ss @ tb_queue (fst r)) (arrivals es) \<and>
      length (arrivals es) = length (packets ss) + length (tb_queue (fst r)) + tb_overflows (fst r) \<and>
      length (tb_queue (fst r)) \<le> TB_CAP \<and> tb_empty (fst r) \<le> MAX_CONCEAL \<and>
      fst (hidden (rev ss)) \<le> (if tb_playing (fst r) then tb_empty (fst r) else 0) \<and> snd (hidden (rev ss)) \<le> MAX_CONCEAL)"

lemma follows_push:
  assumes "follows od es (d, outs) ss"
  shows "follows od (es @ [Pushed p]) (talkback_push p d, outs) ss"
proof -
  have sub: "subseq (packets ss @ tb_queue d) (arrivals es)" using assms by (simp add: follows_def)
  have "subseq (packets ss @ tl (tb_queue d)) (packets ss @ tb_queue d)"
    by (cases "tb_queue d") (simp_all add: subseq_append' list_emb.list_emb_Cons)
  with sub have "subseq (packets ss @ tl (tb_queue d)) (arrivals es)" by (rule subseq_order.order_trans [rotated])
  then have "subseq ((packets ss @ tl (tb_queue d)) @ [p]) (arrivals es @ [p])"
    and "subseq ((packets ss @ tb_queue d) @ [p]) (arrivals es @ [p])"
    using sub by (simp_all only: list_emb_append_mono subseq_append)
  with assms show ?thesis
    by (cases "tb_queue d") (auto simp: follows_def talkback_push_def TB_CAP_def)
qed

lemma hidden_snoc:
  "hidden (rev (ss @ [s])) = (case hidden (rev ss) of (n, m) \<Rightarrow> if s = Hides then (n + 1, max m (n + 1)) else (0, m))"
  by simp

text \<open>The three ways a tick changes the decoder.\<close>

lemma follows_tick:
  assumes "follows od es (d, outs) ss"
  shows "\<exists>ss'. follows od (es @ [Ticked]) (tb_step od Ticked (d, outs)) ss'"
proof -
  consider (waits) "\<not> tb_playing d" "length (tb_queue d) < PREROLL"
    | (plays) p q where "tb_queue d = p # q" "tb_playing d \<or> \<not> length (tb_queue d) < PREROLL"
    | (hides) "tb_queue d = []" "tb_playing d" "tb_empty d < MAX_CONCEAL"
    | (rests) "tb_queue d = []" "tb_playing d" "\<not> tb_empty d < MAX_CONCEAL"
    by (cases "tb_queue d") (auto simp: PREROLL_def)
  then show ?thesis
  proof cases
    case waits
    then have "tb_step od Ticked (d, outs) = (d, outs)" by (simp add: talkback_tick_def)
    with assms have "follows od (es @ [Ticked]) (tb_step od Ticked (d, outs)) ss" by (simp add: follows_def)
    then show ?thesis ..
  next
    case plays
    with assms have "follows od (es @ [Ticked]) (tb_step od Ticked (d, outs)) (ss @ [Plays p])"
      by (auto simp: follows_def talkback_tick_def plays_append conceal_def cover_def split: prod.splits option.splits)
    then show ?thesis ..
  next
    case hides
    with assms have "follows od (es @ [Ticked]) (tb_step od Ticked (d, outs)) (ss @ [Hides])"
      by (auto simp: follows_def talkback_tick_def plays_append conceal_def cover_def split: prod.splits option.splits)
    then show ?thesis ..
  next
    case rests
    with assms have "follows od (es @ [Ticked]) (tb_step od Ticked (d, outs)) (ss @ [Rests])"
      by (auto simp: follows_def talkback_tick_def plays_append split: prod.splits)
    then show ?thesis ..
  qed
qed

lemma run_follows: "\<exists>ss. follows od es (tb_run od es) ss"
proof (induction es rule: rev_induct)
  case Nil
  have "follows od [] (tb_run od []) []" by (simp add: follows_def tb_run_def talkback_new_def plays_def arrivals_def map_filter_def)
  then show ?case ..
next
  case (snoc e es)
  then obtain ss d outs where ss: "follows od es (d, outs) ss" "tb_run od es = (d, outs)" by (metis surj_pair)
  show ?case
  proof (cases e)
    case (Pushed p)
    with ss follows_push [OF ss(1), of p] show ?thesis by (auto simp: tb_run_snoc)
  next
    case Ticked
    with ss follows_tick [OF ss(1)] show ?thesis by (simp add: tb_run_snoc)
  qed
qed

lemma hidden_run: "sublist (replicate n Hides) ss \<Longrightarrow> n \<le> snd (hidden ss)"
proof -
  have pre: "prefix (replicate k Hides) ss \<Longrightarrow> k \<le> fst (hidden ss)" for k ss
  proof (induction ss arbitrary: k)
    case (Cons s ss)
    from Cons.prems show ?case
      by (cases k) (use Cons.IH in \<open>auto split: prod.splits\<close>)
  qed simp
  have le: "fst (hidden ss) \<le> snd (hidden ss)" for ss
    by (induction ss) (auto split: prod.splits)
  show "sublist (replicate n Hides) ss \<Longrightarrow> n \<le> snd (hidden ss)"
  proof (induction ss)
    case (Cons s ss)
    from Cons.prems consider "prefix (replicate n Hides) (s # ss)" | "sublist (replicate n Hides) ss"
      by (auto simp: sublist_Cons_right)
    then show ?case
    proof cases
      case 1
      from pre [OF this] le [of "s # ss"] show ?thesis by simp
    next
      case 2
      from Cons.IH [OF this] show ?thesis by (auto split: prod.splits)
    qed
  qed simp
qed

text \<open>
  C22. Whatever packets a talker sends and however the playout clock ticks among them, the frames handed to the
  engine are those of one Opus decoder fed with some of the packets in the order they came, never one twice, a
  missing packet concealed and at most three of those in a row before the talker counts as silent and the decoder
  starts again. Every packet that came is played, waits in a queue of at most 120 ms, or was counted as an
  overflow.
\<close>

theorem talkback_in_order:
  "\<exists>ss. snd (plays od ss) = snd (tb_run od es) \<and>
     subseq (packets ss @ tb_queue (fst (tb_run od es))) (arrivals es) \<and>
     length (arrivals es) = length (packets ss) + length (tb_queue (fst (tb_run od es))) + tb_overflows (fst (tb_run od es)) \<and>
     \<not> sublist (replicate 4 Hides) ss \<and> fill_ms (fst (tb_run od es)) \<le> 120"
proof -
  obtain ss where ss: "follows od es (tb_run od es) ss" using run_follows by blast
  have "\<not> sublist (replicate 4 Hides) ss"
  proof
    assume "sublist (replicate 4 Hides) ss"
    then have "sublist (rev (replicate 4 Hides)) (rev ss)" by (simp only: sublist_rev)
    then have "4 \<le> snd (hidden (rev ss))" by (intro hidden_run) simp
    with ss show False by (simp add: follows_def MAX_CONCEAL_def)
  qed
  with ss show ?thesis by (intro exI [of _ ss]) (auto simp: follows_def fill_ms_def TB_CAP_def FRAME_MS_def)
qed

subsection \<open>When a solo is cleared\<close>

datatype solo_event = Opens string | Closes string nat | Looks nat

fun solo_step :: "solo_event \<Rightarrow> solo_janitor \<Rightarrow> solo_janitor" where
  "solo_step (Opens m) j = solo_connected m j"
| "solo_step (Closes m t) j = solo_disconnected m t j"
| "solo_step (Looks t) j = fst (solo_due t j)"

definition janitor_after :: "solo_event list \<Rightarrow> solo_janitor" where
  "janitor_after es = fold solo_step es janitor_new"

definition opened :: "string \<Rightarrow> solo_event list \<Rightarrow> nat" where
  "opened m es = length (filter (\<lambda>e. e = Opens m) es)"

definition shut :: "string \<Rightarrow> solo_event list \<Rightarrow> nat" where
  "shut m es = length (filter (\<lambda>e. case e of Closes m' _ \<Rightarrow> m' = m | _ \<Rightarrow> False) es)"

text \<open>A page closes only after it opened.\<close>

definition balanced :: "solo_event list \<Rightarrow> bool" where
  "balanced es = (\<forall>m n. shut m (take n es) \<le> opened m (take n es))"

lemma balanced_snoc: "balanced (es @ [e]) \<Longrightarrow> balanced es \<and> (\<forall>m. shut m (es @ [e]) \<le> opened m (es @ [e]))"
  unfolding balanced_def
proof (intro conjI allI)
  fix m n
  assume b: "\<forall>m n. shut m (take n (es @ [e])) \<le> opened m (take n (es @ [e]))"
  from b [rule_format, of m "min n (length es)"] show "shut m (take n es) \<le> opened m (take n es)" by (simp add: min_def split: if_splits)
  from b [rule_format, of m "length (es @ [e])"] show "shut m (es @ [e]) \<le> opened m (es @ [e])" by simp
qed

text \<open>The last page on \<open>m\<close> closed at \<open>t\<close>, and nothing has come of it yet.\<close>

definition vacated :: "string \<Rightarrow> nat \<Rightarrow> solo_event list \<Rightarrow> bool" where
  "vacated m t es =
     (\<exists>es1 es2. es = es1 @ Closes m t # es2 \<and> opened m es1 = shut m es1 + 1 \<and> Opens m \<notin> set es2 \<and>
        (\<forall>u. Looks u \<in> set es2 \<longrightarrow> u - t < SOLO_GRACE))"

lemma solo_due_left: "bm_ok (sj_left j) \<Longrightarrow>
  map_of (sj_left (fst (solo_due now j))) m =
    (case map_of (sj_left j) m of Some t \<Rightarrow> if SOLO_GRACE \<le> now - t then None else Some t | None \<Rightarrow> None)"
proof -
  assume ok: "bm_ok (sj_left j)"
  have rem: "map_of (fold bm_remove ks b) m = (if m \<in> set ks then None else map_of b m)" for ks and b :: "(string \<times> nat) list"
    by (induction ks arbitrary: b) (auto simp: map_of_bm_remove)
  have "m \<in> fst ` set (filter (\<lambda>(_, t). SOLO_GRACE \<le> now - t) (sj_left j)) \<longleftrightarrow>
      (\<exists>t. map_of (sj_left j) m = Some t \<and> SOLO_GRACE \<le> now - t)"
    using bm_ok_distinct [OF ok] by (force simp: image_iff)
  then show ?thesis by (auto simp: solo_due_def Let_def rem split: option.splits)
qed

lemma solo_due_list: "bm_ok (sj_left j) \<Longrightarrow>
  m \<in> set (snd (solo_due now j)) \<longleftrightarrow> (\<exists>t. map_of (sj_left j) m = Some t \<and> SOLO_GRACE \<le> now - t)"
  by (force simp: solo_due_def Let_def dest: bm_ok_distinct)

lemma vacated_snoc:
  "vacated m t (es @ [e]) \<longleftrightarrow>
     e = Closes m t \<and> opened m es = shut m es + 1 \<or>
     vacated m t es \<and> e \<noteq> Opens m \<and> (\<forall>u. e = Looks u \<longrightarrow> u - t < SOLO_GRACE)"
  (is "?l \<longleftrightarrow> ?r")
proof
  assume ?l
  then obtain es1 es2 where es: "es @ [e] = es1 @ Closes m t # es2" "opened m es1 = shut m es1 + 1" "Opens m \<notin> set es2"
      "\<forall>u. Looks u \<in> set es2 \<longrightarrow> u - t < SOLO_GRACE"
    by (auto simp: vacated_def)
  show ?r
  proof (cases es2 rule: rev_cases)
    case (snoc es3 e')
    with es have "es = es1 @ Closes m t # es3" "e = e'" by auto
    with es snoc show ?thesis unfolding vacated_def by auto
  qed (use es in auto)
next
  assume ?r
  then show ?l
  proof
    assume "vacated m t es \<and> e \<noteq> Opens m \<and> (\<forall>u. e = Looks u \<longrightarrow> u - t < SOLO_GRACE)"
    then obtain es1 es2 where "es @ [e] = es1 @ Closes m t # (es2 @ [e])" "opened m es1 = shut m es1 + 1"
        "Opens m \<notin> set (es2 @ [e])" "\<forall>u. Looks u \<in> set (es2 @ [e]) \<longrightarrow> u - t < SOLO_GRACE"
      by (auto simp: vacated_def)
    then show ?l unfolding vacated_def by blast
  next
    assume r: "e = Closes m t \<and> opened m es = shut m es + 1"
    then show ?l unfolding vacated_def by (intro exI [of _ es] exI [of _ "[]"]) simp
  qed
qed

lemma count_snoc [simp]:
  "opened m (es @ [e]) = opened m es + (if e = Opens m then 1 else 0)"
  "shut m (es @ [e]) = shut m es + (case e of Closes m' _ \<Rightarrow> if m' = m then 1 else 0 | _ \<Rightarrow> 0)"
  by (auto simp: opened_def shut_def split: solo_event.splits)

lemma vacated_none_open: "vacated m t es \<Longrightarrow> opened m es \<le> shut m es"
proof -
  have "Opens m \<notin> set es2 \<Longrightarrow> filter (\<lambda>e. e = Opens m) es2 = []" for es2 by (auto simp: filter_empty_conv)
  then show "vacated m t es \<Longrightarrow> opened m es \<le> shut m es" by (auto simp: vacated_def opened_def shut_def)
qed

definition janitor_ok :: "solo_event list \<Rightarrow> solo_janitor \<Rightarrow> bool" where
  "janitor_ok es j =
     (bm_ok (sj_open j) \<and> bm_ok (sj_left j) \<and>
      (\<forall>m. map_of (sj_open j) m = (if opened m es \<le> shut m es then None else Some (opened m es - shut m es))) \<and>
      (\<forall>m t. map_of (sj_left j) m = Some t \<longleftrightarrow> vacated m t es))"

lemma janitor_ok_step:
  assumes "janitor_ok es j" and "\<forall>m. shut m es \<le> opened m es" and "\<forall>m. shut m (es @ [e]) \<le> opened m (es @ [e])"
  shows "janitor_ok (es @ [e]) (solo_step e j)"
proof (cases e)
  case (Opens m)
  have "\<not> Suc (opened m es) \<le> shut m es" using assms(2) by (simp add: Suc_le_eq not_less)
  with Opens assms show ?thesis
    by (auto simp: janitor_ok_def solo_connected_def vacated_snoc bm_insert_ok bm_remove_ok map_of_bm_remove or_default_def)
next
  case (Closes m t)
  have "shut m es < opened m es" using assms(3) [rule_format, of m] Closes by simp
  moreover from this have "\<not> vacated m u es" for u using vacated_none_open [of m u es] by auto
  ultimately show ?thesis using assms Closes
    by (auto simp: janitor_ok_def solo_disconnected_def vacated_snoc bm_insert_ok bm_remove_ok map_of_bm_remove)
next
  case (Looks now)
  have ok: "bm_ok (fold bm_remove ks b)" if "bm_ok b" for ks and b :: "(string \<times> nat) list"
    using that by (induction ks arbitrary: b) (auto intro: bm_remove_ok)
  have left: "map_of (sj_left (fst (solo_due now j))) m = Some t \<longleftrightarrow> vacated m t (es @ [Looks now])" for m t
  proof -
    have "vacated m t es \<longleftrightarrow> map_of (sj_left j) m = Some t" for t using assms(1) by (simp add: janitor_ok_def)
    moreover have "bm_ok (sj_left j)" using assms(1) by (simp add: janitor_ok_def)
    ultimately show ?thesis by (auto simp: solo_due_left vacated_snoc split: option.splits)
  qed
  have "sj_open (fst (solo_due now j)) = sj_open j" "bm_ok (sj_left (fst (solo_due now j)))"
    using assms(1) ok by (auto simp: solo_due_def Let_def janitor_ok_def)
  with left assms Looks show ?thesis by (auto simp: janitor_ok_def)
qed

lemma janitor_after_ok: "balanced es \<Longrightarrow> janitor_ok es (janitor_after es)"
proof (induction es rule: rev_induct)
  case Nil
  show ?case by (simp add: janitor_ok_def janitor_after_def janitor_new_def bm_ok_def opened_def shut_def vacated_def)
next
  case (snoc e es)
  from balanced_snoc [OF snoc.prems] have b: "balanced es" "\<forall>m. shut m (es @ [e]) \<le> opened m (es @ [e])" by auto
  have "\<forall>m. shut m es \<le> opened m es" using b(1) unfolding balanced_def by (metis take_all order_refl)
  with b snoc.IH janitor_ok_step show ?case by (simp add: janitor_after_def)
qed

text \<open>
  C23. Over every history of pages opening and closing on the mixes and of looks of the clean-up, a look at
  \<open>now\<close> clears the solo of a mix exactly when the last page open on it closed ten seconds or more before, none
  opened since, and no earlier look found it: never while a page is open, and once.
\<close>

theorem solo_cleared_when_left:
  assumes "balanced es"
  shows "m \<in> set (snd (solo_due now (janitor_after es))) \<longleftrightarrow>
    (\<exists>es1 t es2. es = es1 @ Closes m t # es2 \<and> opened m es1 = shut m es1 + 1 \<and> Opens m \<notin> set es2 \<and>
       (\<forall>u. Looks u \<in> set es2 \<longrightarrow> u - t < SOLO_GRACE) \<and> SOLO_GRACE \<le> now - t)"
  using janitor_after_ok [OF assms] by (auto simp: solo_due_list janitor_ok_def vacated_def)

theorem solo_cleared_when_left_witness:
  "balanced [Opens ''m'', Opens ''m'', Closes ''m'' 5, Closes ''m'' 7, Looks 10006] \<and>
   ''m'' \<in> set (snd (solo_due 10007 (janitor_after [Opens ''m'', Opens ''m'', Closes ''m'' 5, Closes ''m'' 7, Looks 10006])))"
proof -
  let ?es = "[Opens ''m'', Opens ''m'', Closes ''m'' 5, Closes ''m'' 7, Looks 10006]"
  have "shut m (take n ?es) \<le> opened m (take n ?es)" for m n
    by (auto simp: opened_def shut_def take_Cons' split: if_splits)
  then have b: "balanced ?es" by (simp add: balanced_def)
  have "?es = [Opens ''m'', Opens ''m'', Closes ''m'' 5] @ Closes ''m'' 7 # [Looks 10006]" by simp
  moreover have "opened ''m'' [Opens ''m'', Opens ''m'', Closes ''m'' 5] = shut ''m'' [Opens ''m'', Opens ''m'', Closes ''m'' 5] + 1"
    by (simp add: opened_def shut_def)
  ultimately have "\<exists>es1 t es2. ?es = es1 @ Closes ''m'' t # es2 \<and> opened ''m'' es1 = shut ''m'' es1 + 1 \<and> Opens ''m'' \<notin> set es2 \<and>
       (\<forall>u. Looks u \<in> set es2 \<longrightarrow> u - t < SOLO_GRACE) \<and> SOLO_GRACE \<le> 10007 - t"
    by (intro exI [of _ "[Opens ''m'', Opens ''m'', Closes ''m'' 5]"] exI [of _ 7] exI [of _ "[Looks 10006]"]) (simp add: SOLO_GRACE_def)
  with b show ?thesis using solo_cleared_when_left [OF b, of "''m''" 10007] by simp
qed

end
