(* ===== verification/Talkback.thy ===== *)
theory Talkback
  imports Sessions TalkProps AccessProps
begin

text \<open>
  The talkback socket (\<open>iem-server/src/talkback_ws.rs\<close>) beside the page sessions: binding to the lock, its packets
  and its playout into the engine's talkback queue (\<open>engine/media.rs\<close>). The steps of all sessions and sockets
  interleave freely. In every reachable state the lock is an engineer's and each talk id has one socket; but a
  socket goes on feeding the engine after its talk ended, so two may feed it at once.
\<close>

subsection \<open>The socket\<close>

definition TALK_QUEUE :: nat where "TALK_QUEUE = 16"

record 'd talk_socket =
  ts_id :: string
  ts_dec :: "'d talkback_decoder"

definition ws_talkback ::
  "'d opus_decoder \<Rightarrow> rejection + auth_claims \<Rightarrow> string option \<Rightarrow> nat \<Rightarrow> server \<Rightarrow> server \<times> (rejection + 'd talk_socket)" where
  "ws_talkback od claims talk now a =
     (case claims of
        Inl e \<Rightarrow> (a, Inl e)
      | Inr c \<Rightarrow>
          if \<not> au_engineer c then (a, Inl (error_response 403 ''FORBIDDEN''))
          else let i = or_default [] talk
               in case talk_bind i now (se_talk a) of
                    (l, None) \<Rightarrow> (a\<lparr>se_talk := l\<rparr>, Inl (error_response 403 ''TALK_NOT_HELD''))
                  | (l, Some _) \<Rightarrow> (a\<lparr>se_talk := l\<rparr>, Inr \<lparr>ts_id = i, ts_dec = talkback_new od\<rparr>))"

definition socket_packet :: "u8 list \<Rightarrow> nat \<Rightarrow> server \<Rightarrow> 'd talk_socket \<Rightarrow> server \<times> 'd talk_socket" where
  "socket_packet data now a k =
     (a\<lparr>se_talk := talk_frame (ts_id k) now (se_talk a)\<rparr>, k\<lparr>ts_dec := talkback_push data (ts_dec k)\<rparr>)"

definition send_talkback :: "'f \<Rightarrow> 'f list \<Rightarrow> 'f list \<times> bool" where
  "send_talkback f q = (if length q < TALK_QUEUE then (q @ [f], True) else (q, False))"

definition socket_tick :: "'d opus_decoder \<Rightarrow> 'd talk_socket \<Rightarrow> 'd talk_socket \<times> f32 list option" where
  "socket_tick od k = (case talkback_tick od (ts_dec k) of (d, f) \<Rightarrow> (k\<lparr>ts_dec := d\<rparr>, f))"

subsection \<open>Every session and socket together\<close>

text \<open>
  \<open>ha_opened\<close> holds every page session that was ever opened and \<open>ha_issued\<close> every talk id that was handed out; the
  frames in the engine's queue carry the talk id of the socket they came from.
\<close>

record 'd hall =
  ha_server :: server
  ha_opened :: "(u64 \<times> page \<times> viewer) list"
  ha_issued :: "string list"
  ha_sockets :: "'d talk_socket list"
  ha_fed :: "(string \<times> f32 list) list"

definition hall_start :: "server \<Rightarrow> 'd hall" where
  "hall_start a = \<lparr>ha_server = a, ha_opened = [], ha_issued = [], ha_sockets = [], ha_fed = []\<rparr>"

text \<open>The id a command put into the lock.\<close>

definition handed_out :: "server \<Rightarrow> server \<Rightarrow> string list" where
  "handed_out a a' = (case (se_talk a, se_talk a') of (None, Some h) \<Rightarrow> [hd_id h] | _ \<Rightarrow> [])"

definition hall_opens :: "u64 \<Rightarrow> page \<Rightarrow> viewer \<Rightarrow> 'd hall \<Rightarrow> 'd hall" where
  "hall_opens s p w h = h\<lparr>ha_server := session_opens p (ha_server h), ha_opened := (s, p, w) # ha_opened h\<rparr>"

definition hall_handles :: "moment \<Rightarrow> u64 \<Rightarrow> page \<Rightarrow> viewer \<Rightarrow> client_msg \<Rightarrow> 'd hall \<Rightarrow> 'd hall" where
  "hall_handles mo s p w msg h =
     (let a = fst (session_handle mo s p w msg (ha_server h))
      in h\<lparr>ha_server := a, ha_issued := handed_out (ha_server h) a @ ha_issued h\<rparr>)"

definition hall_closes :: "nat \<Rightarrow> u64 \<Rightarrow> page \<Rightarrow> 'd hall \<Rightarrow> 'd hall" where
  "hall_closes now s p h = h\<lparr>ha_server := session_cleanup now p s (ha_server h)\<rparr>"

definition hall_looks :: "nat \<Rightarrow> 'd hall \<Rightarrow> 'd hall" where
  "hall_looks now h = h\<lparr>ha_server := janitor_tick now (ha_server h)\<rparr>"

definition hall_binds :: "'d opus_decoder \<Rightarrow> rejection + auth_claims \<Rightarrow> string option \<Rightarrow> nat \<Rightarrow> 'd hall \<Rightarrow> 'd hall" where
  "hall_binds od claims talk now h =
     (case ws_talkback od claims talk now (ha_server h) of
        (a, Inl _) \<Rightarrow> h\<lparr>ha_server := a\<rparr>
      | (a, Inr k) \<Rightarrow> h\<lparr>ha_server := a, ha_sockets := ha_sockets h @ [k]\<rparr>)"

definition hall_packet :: "nat \<Rightarrow> u8 list \<Rightarrow> nat \<Rightarrow> 'd hall \<Rightarrow> 'd hall" where
  "hall_packet n data now h =
     (case lget (ha_sockets h) n of
        None \<Rightarrow> h
      | Some k \<Rightarrow>
          (case socket_packet data now (ha_server h) k of (a, k') \<Rightarrow> h\<lparr>ha_server := a, ha_sockets := (ha_sockets h)[n := k']\<rparr>))"

definition hall_plays :: "'d opus_decoder \<Rightarrow> nat \<Rightarrow> 'd hall \<Rightarrow> 'd hall" where
  "hall_plays od n h =
     (case lget (ha_sockets h) n of
        None \<Rightarrow> h
      | Some k \<Rightarrow>
          (case socket_tick od k of
             (k', None) \<Rightarrow> h\<lparr>ha_sockets := (ha_sockets h)[n := k']\<rparr>
           | (k', Some f) \<Rightarrow> h\<lparr>ha_sockets := (ha_sockets h)[n := k'], ha_fed := fst (send_talkback (ts_id k, f) (ha_fed h))\<rparr>))"

definition hall_leaves :: "nat \<Rightarrow> 'd hall \<Rightarrow> 'd hall" where
  "hall_leaves n h = h\<lparr>ha_sockets := take n (ha_sockets h) @ drop (Suc n) (ha_sockets h)\<rparr>"

text \<open>
  A command may still run after its session was closed: the task that runs it is aborted only where it waits. Talk
  ids are 128 random bits: no id is handed out twice. The last step stands for everything else the server does.
\<close>

inductive hall_step :: "'d opus_decoder \<Rightarrow> 'd hall \<Rightarrow> 'd hall \<Rightarrow> bool" for od where
  opens: "hall_step od h (hall_opens s p w h)"
| handles: "(s, p, w) \<in> set (ha_opened h) \<Longrightarrow> mo_talk_id mo \<notin> set (ha_issued h) \<Longrightarrow> hall_step od h (hall_handles mo s p w msg h)"
| closes: "(s, p, w) \<in> set (ha_opened h) \<Longrightarrow> hall_step od h (hall_closes now s p h)"
| looks: "hall_step od h (hall_looks now h)"
| binds: "hall_step od h (hall_binds od claims talk now h)"
| packet: "hall_step od h (hall_packet n data now h)"
| plays: "hall_step od h (hall_plays od n h)"
| leaves: "hall_step od h (hall_leaves n h)"
| drains: "hall_step od h (h\<lparr>ha_fed := tl (ha_fed h)\<rparr>)"
| others: "se_talk a = se_talk (ha_server h) \<Longrightarrow> hall_step od h (h\<lparr>ha_server := a\<rparr>)"

inductive hall_reaches :: "'d opus_decoder \<Rightarrow> 'd hall \<Rightarrow> bool" for od where
  starts: "se_talk a = None \<Longrightarrow> hall_reaches od (hall_start a)"
| steps: "hall_reaches od h \<Longrightarrow> hall_step od h h' \<Longrightarrow> hall_reaches od h'"

subsection \<open>What always holds\<close>

definition lock_ok :: "'d hall \<Rightarrow> bool" where
  "lock_ok h =
     (case se_talk (ha_server h) of
        None \<Rightarrow> True
      | Some l \<Rightarrow>
          hd_id l \<in> set (ha_issued h) \<and> (\<not> hd_bound l \<longrightarrow> hd_id l \<notin> ts_id ` set (ha_sockets h)) \<and>
          (\<exists>p w. (hd_session l, p, w) \<in> set (ha_opened h) \<and> vw_engineer w \<and> hd_who l = vw_sub w))"

definition hall_ok :: "'d hall \<Rightarrow> bool" where
  "hall_ok h = (lock_ok h \<and> ts_id ` set (ha_sockets h) \<subseteq> set (ha_issued h) \<and> distinct (map ts_id (ha_sockets h)))"

text \<open>How the operations change the lock.\<close>

lemma broadcast_talk [simp]: "se_talk (app_broadcast t m a) = se_talk a"
  by (simp add: app_broadcast_def)

lemma auto_snapshot_talk [simp]: "se_talk (auto_snapshot mo p a) = se_talk a"
  by (auto simp: auto_snapshot_def put_band_def Let_def split: option.splits sum.splits prod.splits bool.splits)

lemma apply_talk [simp]: "se_talk (fst (app_apply mo p cmds origin a)) = se_talk a"
  by (auto simp: app_apply_def Let_def)

lemma alerts_talk [simp]: "se_talk (call_engineer p a) = se_talk a" "se_talk (clear_alert p a) = se_talk a"
proof -
  have "se_talk (fold tell_cleared ms b) = se_talk b" for ms b
    by (induction ms arbitrary: b) (simp_all add: tell_cleared_def)
  then show "se_talk (call_engineer p a) = se_talk a" "se_talk (clear_alert p a) = se_talk a"
    by (auto simp: call_engineer_def clear_alert_def tell_cleared_def Let_def split: option.splits)
qed

lemma customization_talk [simp]: "se_talk (update_customization mo p ps hs a) = se_talk a"
  by (auto simp: update_customization_def put_band_def Let_def split: option.splits prod.splits sum.splits)

lemma handle_talk:
  "se_talk (fst (session_handle mo s p w msg a)) =
     (if msg = CmTalkStart \<and> vw_engineer w then fst (acquire s (vw_sub w) (mo_talk_id mo) (mo_now mo) (se_talk a))
      else if msg = CmTalkStop then fst (talk_release s (se_talk a)) else se_talk a)"
  by (cases msg)
    (auto simp: session_handle_def talk_start_def talk_stop_def split: option.splits prod.splits sum.splits bool.splits)

lemma cleanup_talk: "se_talk (session_cleanup now p s a) = fst (talk_release s (se_talk a))"
  by (auto simp: session_cleanup_def Let_def split: prod.splits bool.splits)

lemma janitor_talk: "se_talk (janitor_tick now a) = fst (talk_expire now (se_talk a))"
proof -
  have "se_talk (fold clear_solo ms b) = se_talk b" for ms b
    by (induction ms arbitrary: b) (simp_all add: clear_solo_def)
  then show ?thesis by (auto simp: janitor_tick_def Let_def split: prod.splits option.splits)
qed

lemma lock_kept:
  assumes "hall_ok h" and "se_talk (ha_server h') = se_talk (ha_server h) \<or> se_talk (ha_server h') = None"
    and "ha_issued h' = ha_issued h" and "set (ha_opened h) \<subseteq> set (ha_opened h')"
    and "set (map ts_id (ha_sockets h')) \<subseteq> set (map ts_id (ha_sockets h))" and "distinct (map ts_id (ha_sockets h'))"
  shows "hall_ok h'"
proof -
  have "lock_ok h'" using assms unfolding hall_ok_def lock_ok_def by (auto split: option.splits) blast+
  then show ?thesis using assms by (auto simp: hall_ok_def)
qed

lemma release_cases: "fst (talk_release s l) = l \<or> fst (talk_release s l) = None"
  by (auto simp: talk_release_def split: option.splits)

lemma expire_cases: "fst (talk_expire now l) = l \<or> fst (talk_expire now l) = None"
  by (auto simp: talk_expire_def split: option.splits)

lemma handles_ok:
  assumes "hall_ok h" and "(s, p, w) \<in> set (ha_opened h)" and "mo_talk_id mo \<notin> set (ha_issued h)"
  shows "hall_ok (hall_handles mo s p w msg h)"
proof (cases "msg = CmTalkStart \<and> vw_engineer w \<and> se_talk (ha_server h) = None")
  case True
  then have t: "se_talk (fst (session_handle mo s p w msg (ha_server h))) =
      Some \<lparr>hd_session = s, hd_who = vw_sub w, hd_id = mo_talk_id mo, hd_since = mo_now mo, hd_bound = False, hd_last_frame = mo_now mo\<rparr>"
    by (simp add: handle_talk acquire_def)
  have "mo_talk_id mo \<notin> ts_id ` set (ha_sockets h)" using assms(1,3) by (auto simp: hall_ok_def)
  with assms t True show ?thesis
    by (auto simp: hall_ok_def lock_ok_def hall_handles_def handed_out_def Let_def)
next
  case False
  let ?a = "fst (session_handle mo s p w msg (ha_server h))"
  have "se_talk ?a = se_talk (ha_server h) \<or> se_talk ?a = None"
    using False release_cases [of s "se_talk (ha_server h)"] by (auto simp: handle_talk acquire_def split: option.splits if_splits)
  moreover from this have "handed_out (ha_server h) ?a = []" by (auto simp: handed_out_def split: option.splits)
  ultimately show ?thesis using assms(1) by (intro lock_kept [OF assms(1)]) (auto simp: hall_handles_def Let_def hall_ok_def)
qed

lemma binds_ok:
  assumes "hall_ok h"
  shows "hall_ok (hall_binds od claims talk now h)"
proof (cases "\<exists>a k. ws_talkback od claims talk now (ha_server h) = (a, Inr k)")
  case True
  then obtain a k where r: "ws_talkback od claims talk now (ha_server h) = (a, Inr k)" by blast
  then obtain l where l: "se_talk (ha_server h) = Some l" "\<not> hd_bound l" "ts_id k = hd_id l"
      "se_talk a = Some (l\<lparr>hd_bound := True, hd_last_frame := now\<rparr>)"
    by (auto simp: ws_talkback_def talk_bind_def admit_def Let_def split: sum.splits if_splits option.splits prod.splits)
  with assms r show ?thesis by (auto simp: hall_ok_def lock_ok_def hall_binds_def)
next
  case False
  then obtain a e where r: "ws_talkback od claims talk now (ha_server h) = (a, Inl e)"
    by (metis surj_pair sum.exhaust)
  then have "se_talk a = se_talk (ha_server h)"
    by (auto simp: ws_talkback_def talk_bind_def admit_def Let_def split: sum.splits if_splits option.splits prod.splits)
  with r show ?thesis using assms by (intro lock_kept [OF assms]) (auto simp: hall_binds_def hall_ok_def)
qed

lemma map_update_same: "i < length xs \<Longrightarrow> f y = f (xs ! i) \<Longrightarrow> map f (xs[i := y]) = map f xs"
  by (simp add: map_update list_update_same_conv)

lemma packet_ok:
  assumes "hall_ok h"
  shows "hall_ok (hall_packet n data now h)"
proof (cases "lget (ha_sockets h) n")
  case (Some k)
  let ?k = "k\<lparr>ts_dec := talkback_push data (ts_dec k)\<rparr>"
  have m: "map ts_id ((ha_sockets h)[n := ?k]) = map ts_id (ha_sockets h)" using Some by (auto intro: map_update_same)
  have "lock_ok (h\<lparr>ha_server := (ha_server h)\<lparr>se_talk := talk_frame (ts_id k) now (se_talk (ha_server h))\<rparr>, ha_sockets := (ha_sockets h)[n := ?k]\<rparr>)"
    using assms arg_cong [OF m, of set] by (auto simp: hall_ok_def lock_ok_def talk_frame_def simp del: lget_Some_iff split: option.splits)
  moreover have "ts_id ` set ((ha_sockets h)[n := ?k]) = ts_id ` set (ha_sockets h)" using arg_cong [OF m, of set] by simp
  ultimately show ?thesis using assms Some m
    by (simp add: hall_ok_def hall_packet_def socket_packet_def del: lget_Some_iff)
qed (use assms in \<open>simp add: hall_packet_def del: lget_None_iff\<close>)

lemma step_ok: "hall_step od h h' \<Longrightarrow> hall_ok h \<Longrightarrow> hall_ok h'"
proof (induction rule: hall_step.induct)
  case (opens h s p w)
  then show ?case by (intro lock_kept [OF opens]) (auto simp: hall_opens_def session_opens_def hall_ok_def)
next
  case (handles s p w h mo msg)
  then show ?case by (intro handles_ok)
next
  case (closes s p w h now)
  then show ?case using release_cases
    by (intro lock_kept [OF closes(2)]) (auto simp: hall_closes_def cleanup_talk hall_ok_def)
next
  case (looks h now)
  then show ?case using expire_cases by (intro lock_kept [OF looks]) (auto simp: hall_looks_def janitor_talk hall_ok_def)
next
  case (binds h claims talk now)
  then show ?case by (rule binds_ok)
next
  case (packet h n data now)
  then show ?case by (rule packet_ok)
next
  case (plays h n)
  have "map ts_id (ha_sockets (hall_plays od n h)) = map ts_id (ha_sockets h)"
    by (auto simp: hall_plays_def socket_tick_def intro!: map_update_same split: option.splits prod.splits)
  moreover from this have "set (map ts_id (ha_sockets (hall_plays od n h))) = set (map ts_id (ha_sockets h))" by simp
  moreover have "ha_server (hall_plays od n h) = ha_server h" "ha_issued (hall_plays od n h) = ha_issued h" "ha_opened (hall_plays od n h) = ha_opened h"
    by (auto simp: hall_plays_def split: option.splits prod.splits)
  ultimately show ?case using plays by (intro lock_kept [OF plays]) (simp_all add: hall_ok_def)
next
  case (leaves h n)
  let ?xs = "map ts_id (ha_sockets h)"
  have m: "map ts_id (ha_sockets (hall_leaves n h)) = take n ?xs @ drop (Suc n) ?xs"
    by (simp add: hall_leaves_def take_map drop_map)
  have d: "distinct ?xs" using leaves by (simp add: hall_ok_def)
  then have "set (take n ?xs) \<inter> set (drop (Suc n) ?xs) = {}" by (rule set_take_disj_set_drop_if_distinct) simp
  with d have "distinct (take n ?xs @ drop (Suc n) ?xs)" by (simp del: take_map drop_map)
  moreover have "set (take n ?xs @ drop (Suc n) ?xs) \<subseteq> set ?xs"
    unfolding set_append by (intro Un_least set_take_subset set_drop_subset)
  ultimately show ?case
    by (intro lock_kept [OF leaves]) (simp_all only: m, simp_all add: hall_leaves_def)
next
  case (drains h)
  then show ?case by (intro lock_kept [OF drains]) (auto simp: hall_ok_def)
next
  case (others a h)
  then show ?case by (intro lock_kept [OF others(2)]) (auto simp: hall_ok_def)
qed

lemma reaches_ok: "hall_reaches od h \<Longrightarrow> hall_ok h"
proof (induction rule: hall_reaches.induct)
  case (starts a)
  then show ?case by (simp add: hall_start_def hall_ok_def lock_ok_def)
qed (rule step_ok)

text \<open>
  C20. However the sessions of all pages, the talkback sockets and the clean-up task interleave, whoever holds the
  talkback lock is a session of an engineer's page, named in the lock; every talkback socket was opened with an id
  the lock handed out, no two sockets with the same one, and a socket that carries the held id is bound to it.
\<close>

theorem one_socket_per_talk:
  assumes "hall_reaches od h"
  shows "distinct (map ts_id (ha_sockets h)) \<and> ts_id ` set (ha_sockets h) \<subseteq> set (ha_issued h) \<and>
    (\<forall>l. se_talk (ha_server h) = Some l \<longrightarrow>
       (\<exists>p w. (hd_session l, p, w) \<in> set (ha_opened h) \<and> vw_engineer w \<and> hd_who l = vw_sub w) \<and>
       (hd_id l \<in> ts_id ` set (ha_sockets h) \<longrightarrow> is_bound (hd_id l) (se_talk (ha_server h))))"
  using reaches_ok [OF assms] by (auto simp: hall_ok_def lock_ok_def is_bound_def)

definition demo_server :: server where
  "demo_server =
     \<lparr>se_access = demo_app, se_mirror = mirror_default, se_connected = True, se_frozen = False, se_missed = False, se_settling = False,
      se_talk = None, se_solo = janitor_new, se_alerts = [], se_active_s = [],
      se_bands = (\<lambda>_. \<lparr>bs_presets = [], bs_snapshots = [], bs_customs = []\<rparr>), se_auto = [], se_said = [], se_sent = []\<rparr>"

definition demo_opus :: "unit opus_decoder" where
  "demo_opus = \<lparr>od_new = (), od_decode = (\<lambda>_ _. ((), Some [])), od_reset = id\<rparr>"

definition demo_moment :: "string \<Rightarrow> moment" where
  "demo_moment i = \<lparr>mo_now = 0, mo_unix = 0, mo_utc_day = (\<lambda>_. ''day''), mo_talk_id = i, mo_write = Writes\<rparr>"

definition demo_desk :: page where
  "demo_desk = \<lparr>pg_id = ENGINEER, pg_name = ''Engineer'', pg_mix = ENGINEER, pg_member = Some ENGINEER\<rparr>"

definition demo_engineer :: viewer where
  "demo_engineer = \<lparr>vw_sub = ENGINEER, vw_engineer = True\<rparr>"

definition desk_claims :: auth_claims where
  "desk_claims = \<lparr>au_sub = ENGINEER, au_engineer = True, au_exp = 0, au_iat = 0\<rparr>"

text \<open>Two engineers' sessions open, the first presses Talk and its socket binds and sends.\<close>

definition demo_talks :: "unit hall" where
  "demo_talks =
     hall_packet 0 [2] 0 (hall_packet 0 [1] 0 (hall_binds demo_opus (Inr desk_claims) (Some ''a'') 0
       (hall_handles (demo_moment ''a'') 1 demo_desk demo_engineer CmTalkStart
         (hall_opens 2 demo_desk demo_engineer (hall_opens 1 demo_desk demo_engineer (hall_start demo_server))))))"

text \<open>The first lets go, the second presses Talk, binds and sends; both sockets are played.\<close>

definition demo_overlap :: "unit hall" where
  "demo_overlap =
     hall_plays demo_opus 1 (hall_plays demo_opus 0 (hall_packet 1 [4] 0 (hall_packet 1 [3] 0
       (hall_binds demo_opus (Inr desk_claims) (Some ''b'') 0
         (hall_handles (demo_moment ''b'') 2 demo_desk demo_engineer CmTalkStart
           (hall_handles (demo_moment ''c'') 1 demo_desk demo_engineer CmTalkStop demo_talks))))))"

lemmas hall_defs = hall_opens_def hall_handles_def hall_binds_def hall_packet_def hall_plays_def hall_start_def
  session_opens_def handed_out_def ws_talkback_def talk_bind_def admit_def held_silent_def socket_packet_def socket_tick_def
  send_talkback_def talk_frame_def session_handle_def talk_start_def talk_stop_def acquire_def talk_release_def app_broadcast_def
  or_default_def TALK_QUEUE_def Let_def

lemma demo_simps [simp]:
  "vw_engineer demo_engineer" "vw_sub demo_engineer = ENGINEER" "au_engineer desk_claims" "se_talk demo_server = None"
  "mo_now (demo_moment i) = 0" "mo_talk_id (demo_moment i) = i"
  by (simp_all add: demo_engineer_def desk_claims_def demo_server_def demo_moment_def)

lemma demo_talks_state:
  "se_talk (ha_server demo_talks) = Some \<lparr>hd_session = 1, hd_who = ENGINEER, hd_id = ''a'', hd_since = 0, hd_bound = True, hd_last_frame = 0\<rparr>"
  "ha_opened demo_talks = [(2, demo_desk, demo_engineer), (1, demo_desk, demo_engineer)]" "ha_issued demo_talks = [''a'']" "ha_fed demo_talks = []"
  "ha_sockets demo_talks = [\<lparr>ts_id = ''a'', ts_dec = talkback_push [2] (talkback_push [1] (talkback_new demo_opus))\<rparr>]"
  by (simp_all add: demo_talks_def hall_defs lget_def)

lemma demo_talks_reached: "hall_reaches demo_opus demo_talks"
  unfolding demo_talks_def
  by (intro hall_reaches.steps [OF _ hall_step.packet] hall_reaches.steps [OF _ hall_step.binds] hall_reaches.steps [OF _ hall_step.handles]
      hall_reaches.steps [OF _ hall_step.opens] hall_reaches.starts)
    (simp_all add: hall_opens_def hall_start_def)

theorem one_socket_per_talk_witness:
  "hall_reaches demo_opus demo_talks \<and> distinct (map ts_id (ha_sockets demo_talks)) \<and> is_bound ''a'' (se_talk (ha_server demo_talks))"
  using demo_talks_reached one_socket_per_talk [OF demo_talks_reached] by (simp add: demo_talks_state)

lemma demo_overlap_reached: "hall_reaches demo_opus demo_overlap"
  unfolding demo_overlap_def
  by (intro hall_reaches.steps [OF _ hall_step.packet] hall_reaches.steps [OF _ hall_step.plays] hall_reaches.steps [OF _ hall_step.binds]
      hall_reaches.steps [OF _ hall_step.handles] demo_talks_reached)
    (simp_all add: hall_handles_def Let_def handed_out_def demo_talks_state)

lemma demo_tick: "\<exists>d. talkback_tick demo_opus (talkback_push p (talkback_push q (talkback_new demo_opus))) = (d, Some [])"
  by (simp add: talkback_tick_def talkback_push_def talkback_new_def TB_CAP_def PREROLL_def demo_opus_def)


end
