(* ===== verification/SessionProps.thy ===== *)
theory SessionProps
  imports Talkback
begin

text \<open>
  What a page's session may do to the engine, from the token its socket was opened with to the commands it queues,
  and what the pages' meters show.
\<close>

subsection \<open>From the token to the engine\<close>

lemma sent_kept [simp]:
  "se_sent (app_broadcast t m a) = se_sent a" "se_sent (auto_snapshot mo p a) = se_sent a"
  "se_sent (call_engineer p a) = se_sent a" "se_sent (update_customization mo p ps hs a) = se_sent a"
  "se_sent (fst (talk_start mo s w a)) = se_sent a" "se_sent (fst (talk_stop s a)) = se_sent a"
  by (auto simp: app_broadcast_def auto_snapshot_def put_band_def call_engineer_def update_customization_def talk_start_def talk_stop_def Let_def
      split: option.splits sum.splits prod.splits bool.splits)

lemma sent_clear [simp]: "se_sent (clear_alert p a) = se_sent a"
proof -
  have "se_sent (fold tell_cleared ms b) = se_sent b" for ms b
    by (induction ms arbitrary: b) (simp_all add: tell_cleared_def)
  then show ?thesis by (auto simp: clear_alert_def tell_cleared_def Let_def)
qed

lemma auto_snapshot_connected [simp]: "se_connected (auto_snapshot mo p a) = se_connected a"
  by (auto simp: auto_snapshot_def put_band_def Let_def split: option.splits sum.splits prod.splits bool.splits)

lemma apply_sends:
  obtains "se_sent (fst (app_apply mo p cmds origin a)) = se_sent a"
  | "se_sent (fst (app_apply mo p cmds origin a)) = se_sent a @ map (\<lambda>c. (c, origin)) cmds" "may_change a p" "se_connected a"
proof -
  have "se_sent (fst (app_apply mo p cmds origin a)) =
      (if may_change a p \<and> se_connected a then se_sent a @ map (\<lambda>c. (c, origin)) cmds else se_sent a)"
    by (simp add: app_apply_def Let_def)
  then show thesis using that by (cases "may_change a p \<and> se_connected a") simp_all
qed

text \<open>Every command a session queues comes from one of its page's messages, and only while the page may change.\<close>

lemma handle_sends:
  assumes "session_handle mo s p w msg a = (a', out)"
  obtains "se_sent a' = se_sent a"
  | v cmd where "se_sent a' = se_sent a @ [(cmd, Some s)]" "may_change a p" "app_site a = Some v" "view_command v (se_mirror a) p w msg = Inr cmd"
proof -
  have a': "a' = fst (session_handle mo s p w msg a)" using assms by simp
  show thesis
  proof (cases "\<exists>v cmd. app_site a = Some v \<and> view_command v (se_mirror a) p w msg = Inr cmd")
    case True
    then obtain v cmd where v: "app_site a = Some v" "view_command v (se_mirror a) p w msg = Inr cmd" by blast
    then have "a' = fst (app_apply mo p [cmd] (Some s) a)"
      unfolding a' by (cases msg) (auto simp: session_handle_def view_command_def Let_def)
    then show thesis using apply_sends [of mo p "[cmd]" "Some s" a] v that by auto
  next
    case False
    then have "se_sent a' = se_sent a"
      unfolding a' by (cases msg) (auto simp: session_handle_def split: option.splits sum.splits)
    then show thesis by (rule that(1))
  qed
qed

lemma opened_by_person:
  assumes "ws_mixer jl token now i a = Inr (p, w)" and "\<not> vw_engineer w"
  obtains tok c where "token = Some tok" "extract_claims jl tok (ap_jwt_secret (se_access a)) now = Some c" "now \<le> au_exp c"
    "subject_known (se_access a) c" "i = au_sub c" "vw_sub w = au_sub c" "pg_member p = Some (au_sub c)" "app_page a i = Some p"
  using assms
  by (auto simp: ws_mixer_def claims_at_def may_open_def bind_r_Inr_iff split: option.splits if_splits)

text \<open>A page is found under its own name.\<close>

lemma page_named: "app_page a i = Some p \<Longrightarrow> pg_id p = i"
  by (auto simp: app_page_def site_page_def site_member_def bind_eq_Some_conv find_Some_iff split: option.splits)

text \<open>
  C19. What a person's token can change: a page socket opens for a token that is no engineer's only when it is
  valid and not expired, its subject is still in the roster or the site, and the page is the subject's own.
  Whatever that session then receives, it queues at most one command for the engine, in its own name, and only
  while no switch runs, the roster has settled and the band that plays still gives the person that page; the
  command leaves every other mix, the listen taps, the test signal, and all of the inputs but the equalizers of
  those the person owns as they are.
\<close>

theorem people_change_their_own:
  assumes "ws_mixer jl token now i a0 = Inr (p, w)" and "\<not> vw_engineer w" and "session_handle mo s p w msg a = (a', out)"
  shows "(\<exists>tok c. token = Some tok \<and> extract_claims jl tok (ap_jwt_secret (se_access a0)) now = Some c \<and> now \<le> au_exp c \<and>
      subject_known (se_access a0) c \<and> vw_sub w = au_sub c \<and> pg_id p = au_sub c \<and> pg_member p = Some (au_sub c)) \<and>
    (se_sent a' = se_sent a \<or>
     (\<exists>v cmd. se_sent a' = se_sent a @ [(cmd, Some s)] \<and> \<not> se_frozen a \<and> \<not> se_settling a \<and>
        app_page a (vw_sub w) = Some p \<and> app_site a = Some v \<and>
        (\<forall>lm c c' r. core_apply lm cmd c = (c', r) \<longrightarrow> kept (pg_mix p) (owns v w) c c')))"
proof -
  from opened_by_person [OF assms(1,2)] obtain tok c where c: "token = Some tok" "extract_claims jl tok (ap_jwt_secret (se_access a0)) now = Some c"
      "now \<le> au_exp c" "subject_known (se_access a0) c" "i = au_sub c" "vw_sub w = au_sub c" "pg_member p = Some (au_sub c)" "app_page a0 i = Some p"
    by metis
  have pg: "pg_id p = au_sub c" using page_named [OF c(8)] c(5) by simp
  from assms(3) show ?thesis
  proof (cases rule: handle_sends)
    case 1
    with c pg show ?thesis by blast
  next
    case (2 v cmd)
    have "kept (pg_mix p) (owns v w) co co'" if "core_apply lm cmd co = (co', r)" for lm co co' r
      using apply_kept [OF disjI1 [OF command_stays [OF assms(2) 2(4)]] that] .
    with 2 c pg show ?thesis by (auto simp: may_change_def)
  qed
qed

definition anna_server :: server where
  "anna_server = demo_server\<lparr>se_mirror := mirror_default\<lparr>mi_topology := Some (info demo_topo)\<rparr>\<rparr>"

definition anna_viewer :: viewer where
  "anna_viewer = \<lparr>vw_sub = ''anna'', vw_engineer = False\<rparr>"

lemma plain_build: "\<exists>v ps. build_with cf None topo = Some (v, ps) \<and> sv_members v = known_members topo (cf_members cf)"
  by (simp add: build_with_def site_members_def login_tiles_def Let_def)

lemma demo_has_member1: "list_ex (\<lambda>x. mi_id x = ''member1'') (ti_mixes (info demo_topo))"
  using wf_mix_index [OF compile_wf [OF demo_compiles], of "''member1''" 0]
  by (auto simp: demo_indices info_mixes list_ex_iff intro!: bexI [where x = "t_mixes demo_topo ! 0"])

lemma anna_fields:
  "mi_topology (se_mirror anna_server) = Some (info demo_topo)" "se_access anna_server = demo_app" "se_connected anna_server"
  "\<not> se_frozen anna_server" "\<not> se_settling anna_server" "se_sent anna_server = []" "ap_roster demo_app = None" "ap_jwt_secret demo_app = ''secret''"
  "cf_members (ap_site demo_app) = [\<lparr>sb_id = ''anna'', sb_name = ''Anna'', sb_mix = ''member1''\<rparr>]"
  by (simp_all add: anna_server_def demo_server_def demo_app_def del: info_def)

lemma anna_site: "\<exists>v. app_site anna_server = Some v \<and> sv_members v = [\<lparr>sb_id = ''anna'', sb_name = ''Anna'', sb_mix = ''member1''\<rparr>]"
  using plain_build [of "ap_site demo_app" "info demo_topo"] demo_has_member1
  by (auto simp only: app_site_def anna_fields known_members_def bind.simps option.map fst_conv filter.simps site_member.simps if_True)

lemma anna_page: "app_page anna_server ''anna'' = Some demo_page"
  using anna_site by (auto simp: app_page_def site_page_def site_member_def demo_page_def)

lemma anna_token: "\<exists>tok. extract_claims demo_jwt tok ''secret'' 1 = Some demo_claims"
proof -
  obtain tok where "encode_hs256 demo_jwt demo_claims ''secret'' = Inr tok"
    by (simp add: encode_hs256_def signing_input_def demo_jwt_def jwt_mac_def)
  from token_reads_back [OF demo_jwt_ok this, of 1] have "decode_hs256 demo_jwt tok ''secret'' 1 = Inr demo_claims"
    by (simp add: sat_sub64_def LEEWAY_SECS_def demo_claims_def)
  then have "extract_claims demo_jwt tok ''secret'' 1 = Some demo_claims" by (simp add: extract_claims_def)
  then show ?thesis by blast
qed

lemma anna_opens: "\<exists>tok. ws_mixer demo_jwt (Some tok) 1 ''anna'' anna_server = Inr (demo_page, anna_viewer)"
proof -
  obtain tok where tok: "extract_claims demo_jwt tok ''secret'' 1 = Some demo_claims" using anna_token by blast
  have "subject_known demo_app demo_claims"
    by (simp add: subject_known_def member_exists_def config_member_def demo_claims_def anna_fields)
  with tok have "ws_mixer demo_jwt (Some tok) 1 ''anna'' anna_server = Inr (demo_page, anna_viewer)"
    by (simp add: ws_mixer_def claims_at_def anna_fields anna_page may_open_def demo_page_def anna_viewer_def demo_claims_def)
  then show ?thesis by blast
qed

lemma anna_unmutes:
  "\<exists>a out. session_handle (demo_moment ''x'') 7 demo_page anna_viewer (CmSetGlobalMute False) anna_server = (a, out) \<and>
     se_sent a = [(SetMix ''member1'' None (Some False), Some 7)]"
proof -
  obtain v where v: "app_site anna_server = Some v" using anna_site by blast
  have may: "may_change anna_server demo_page"
    by (simp add: may_change_def anna_fields anna_page demo_page_def [THEN arg_cong [where f = pg_id], simplified])
  show ?thesis
    by (simp add: session_handle_def v view_command_def demo_page_def [THEN arg_cong [where f = pg_mix], simplified] app_apply_def may anna_fields
        Let_def case_prod_beta)
qed

theorem people_change_their_own_witness:
  "\<exists>tok a out cmd v c r. ws_mixer demo_jwt (Some tok) 1 ''anna'' anna_server = Inr (demo_page, anna_viewer) \<and>
     session_handle (demo_moment ''x'') 7 demo_page anna_viewer (CmSetGlobalMute False) anna_server = (a, out) \<and>
     se_sent a = [(cmd, Some 7)] \<and> app_site anna_server = Some v \<and>
     core_apply demo_libm cmd demo_core = (c, r) \<and> kept ''member1'' (owns v anna_viewer) demo_core c"
proof -
  obtain tok where tok: "ws_mixer demo_jwt (Some tok) 1 ''anna'' anna_server = Inr (demo_page, anna_viewer)" using anna_opens by blast
  obtain a out where a: "session_handle (demo_moment ''x'') 7 demo_page anna_viewer (CmSetGlobalMute False) anna_server = (a, out)"
      "se_sent a = [(SetMix ''member1'' None (Some False), Some 7)]" using anna_unmutes by blast
  obtain c r where c: "core_apply demo_libm (SetMix ''member1'' None (Some False)) demo_core = (c, r)" by fastforce
  have "\<not> vw_engineer anna_viewer" by (simp add: anna_viewer_def)
  from people_change_their_own [OF tok this a(1)] a(2) anna_fields(6)
  obtain v where v: "app_site anna_server = Some v"
      "\<forall>lm c c' r. core_apply lm (SetMix ''member1'' None (Some False)) c = (c', r) \<longrightarrow> kept (pg_mix demo_page) (owns v anna_viewer) c c'"
    by auto
  from v(2) c have "kept (pg_mix demo_page) (owns v anna_viewer) demo_core c" by blast
  then have "kept ''member1'' (owns v anna_viewer) demo_core c" by (simp add: demo_page_def)
  with tok a v(1) c show ?thesis by blast
qed

end
